(* ===== verification/GV_Prelude.thy ===== *)
theory GV_Prelude
  imports Main "HOL-Library.Word"
begin

text \<open>
  The types, the error monad and the generic lemmas that the component theories share.

  The code is C. Its \<^verbatim>\<open>uint8_t\<close>, \<^verbatim>\<open>uint32_t\<close> and \<^verbatim>\<open>uint64_t\<close> values are words of
  8, 32 and 64 bits, so that additions and subtractions wrap as they do in the code; its
  \<^verbatim>\<open>int\<close> return codes are \<open>int\<close>. A C operation with no defined result (a NULL
  dereference, an index outside an array, a division by zero, a shift out of range, a use of freed memory) is a
  value of \<open>c_fault\<close>, and so is a loop that never ends; a routine that can reach one returns \<open>c_fault + 'a\<close>.
\<close>

unbundle bit_operations_syntax

section \<open>Machine types and return codes\<close>

type_synonym u8 = "8 word"
type_synonym u32 = "32 word"
type_synonym u64 = "64 word"

abbreviation (input) AMDGV_FAILURE :: int where
  "AMDGV_FAILURE \<equiv> -1"

abbreviation (input) AMDGV_ERR_BUSY :: int where
  "AMDGV_ERR_BUSY \<equiv> -16"

abbreviation (input) AMDGV_MAX_VF_NUM :: nat where
  "AMDGV_MAX_VF_NUM \<equiv> 31"

abbreviation (input) AMDGV_MAX_VF_SLOT :: nat where
  "AMDGV_MAX_VF_SLOT \<equiv> 32"

abbreviation (input) AMDGV_PF_IDX :: u32 where
  "AMDGV_PF_IDX \<equiv> 31"

section \<open>Undefined behaviour as values\<close>

datatype c_fault = Null_Deref | Out_Of_Bounds | Div_By_Zero | Use_After_Free | Double_Free
  | Endless_Loop | Uninit_Read | Bad_Shift

type_synonym 'a cres = "c_fault + 'a"

definition cbind :: "'a cres \<Rightarrow> ('a \<Rightarrow> 'b cres) \<Rightarrow> 'b cres" where
  "cbind m f = (case m of Inl e \<Rightarrow> Inl e | Inr x \<Rightarrow> f x)"

definition cread :: "'a list \<Rightarrow> nat \<Rightarrow> 'a cres" where
  "cread xs i = (if i < length xs then Inr (xs ! i) else Inl Out_Of_Bounds)"

definition cwrite :: "'a list \<Rightarrow> nat \<Rightarrow> 'a \<Rightarrow> 'a list cres" where
  "cwrite xs i x = (if i < length xs then Inr (xs[i := x]) else Inl Out_Of_Bounds)"

definition cderef :: "'a option \<Rightarrow> 'a cres" where
  "cderef p = (case p of None \<Rightarrow> Inl Null_Deref | Some x \<Rightarrow> Inr x)"

named_theorems cres_simps \<open>evaluation of the C error monad\<close>

lemma cbind_Inr [simp, cres_simps]: "cbind (Inr x) f = f x"
  by (simp add: cbind_def)

lemma cbind_Inl [simp, cres_simps]: "cbind (Inl e) f = Inl e"
  by (simp add: cbind_def)

lemma cbind_assoc: "cbind (cbind m f) g = cbind m (\<lambda>x. cbind (f x) g)"
  by (cases m) simp_all

lemma cbind_eq_Inr_iff: "cbind m f = Inr y \<longleftrightarrow> (\<exists>x. m = Inr x \<and> f x = Inr y)"
  by (cases m) simp_all

lemma cbind_InrE [elim]:
  assumes "cbind m f = Inr y"
  obtains x where "m = Inr x" and "f x = Inr y"
  using assms by (auto simp: cbind_eq_Inr_iff)

lemma cread_in [simp, cres_simps]: "i < length xs \<Longrightarrow> cread xs i = Inr (xs ! i)"
  by (simp add: cread_def)

lemma cread_out [simp]: "\<not> i < length xs \<Longrightarrow> cread xs i = Inl Out_Of_Bounds"
  by (simp add: cread_def)

lemma cread_eq_Inr_iff: "cread xs i = Inr x \<longleftrightarrow> i < length xs \<and> xs ! i = x"
  by (auto simp: cread_def)

lemma cwrite_in [simp, cres_simps]: "i < length xs \<Longrightarrow> cwrite xs i x = Inr (xs[i := x])"
  by (simp add: cwrite_def)

lemma cwrite_eq_Inr_iff: "cwrite xs i x = Inr ys \<longleftrightarrow> i < length xs \<and> ys = xs[i := x]"
  by (auto simp: cwrite_def)

lemma cderef_Some [simp, cres_simps]: "cderef (Some x) = Inr x"
  by (simp add: cderef_def)

lemma cderef_None [simp, cres_simps]: "cderef None = Inl Null_Deref"
  by (simp add: cderef_def)

lemma cderef_eq_Inr_iff: "cderef p = Inr x \<longleftrightarrow> p = Some x"
  by (cases p) simp_all

lemmas cres_iffs = cbind_eq_Inr_iff cread_eq_Inr_iff cwrite_eq_Inr_iff cderef_eq_Inr_iff

section \<open>Function indices\<close>

text \<open>\<^verbatim>\<open>AMDGV_IS_IDX_INVALID\<close> of \<^verbatim>\<open>amdgv.h\<close>: every index that is neither the PF nor one of
  the \<open>num_vf\<close> enabled VFs.\<close>

definition AMDGV_IS_IDX_INVALID :: "u32 \<Rightarrow> u32 \<Rightarrow> bool" where
  "AMDGV_IS_IDX_INVALID num_vf idx_vf \<longleftrightarrow> idx_vf \<noteq> AMDGV_PF_IDX \<and> num_vf \<le> idx_vf"

lemma valid_idx_in_slots:
  assumes "\<not> AMDGV_IS_IDX_INVALID num_vf idx_vf" and "num_vf \<le> 31"
  shows "unat idx_vf < AMDGV_MAX_VF_SLOT"
proof -
  from assms have "idx_vf \<le> 31"
    by (auto simp: AMDGV_IS_IDX_INVALID_def)
  then show ?thesis by (simp add: word_le_nat_alt)
qed

section \<open>Words\<close>

lemma unat_inc32: "unat (x::u32) < 2 ^ 32 - 1 \<Longrightarrow> unat (x + 1) = Suc (unat x)"
  by (simp add: unat_word_ariths)

lemma unat_dec32: "0 < (x::u32) \<Longrightarrow> unat (x - 1) = unat x - 1"
  using unat_sub [of 1 x] by (simp add: word_le_nat_alt word_less_nat_alt)

text \<open>Alignment to a power of two, and the least aligned number above another.\<close>

lemma unat_lt64: "unat (x::u64) < 2 ^ 64"
  using unsigned_less [of x] by simp

lemma unat_and_not_mask:
  fixes x :: u64
  shows "unat (x AND NOT (2 ^ k - 1)) = (unat x div 2 ^ k) * 2 ^ k"
proof -
  have "x AND NOT (mask k) = push_bit k (drop_bit k x)"
    by (rule bit_word_eqI) (auto simp: bit_simps)
  moreover have "unat (push_bit k (drop_bit k x)) = (unat x div 2 ^ k) * 2 ^ k"
  proof -
    have "(unat x div 2 ^ k) * 2 ^ k < 2 ^ 64"
      using unat_lt64 [of x] by (rule order_le_less_trans [rotated]) simp
    then have "take_bit 64 ((unat x div 2 ^ k) * 2 ^ k) = (unat x div 2 ^ k) * 2 ^ k"
      by (rule take_bit_nat_eq_self)
    then have "take_bit LENGTH(64) (push_bit k (drop_bit k (unat x))) = (unat x div 2 ^ k) * 2 ^ k"
      by (simp add: push_bit_eq_mult drop_bit_eq_div)
    moreover have "drop_bit k (unat x) = unat (drop_bit k x)"
      by (rule trans [OF _ unsigned_drop_bit_eq [symmetric]])
        (simp add: take_bit_nat_eq_self [OF unat_lt64])
    ultimately show ?thesis by (simp only: unsigned_push_bit_eq)
  qed
  ultimately show ?thesis by (simp add: mask_eq_exp_minus_1)
qed

lemma unat_two_power: "k < 64 \<Longrightarrow> unat ((2::u64) ^ k) = 2 ^ k"
  unfolding push_bit_of_1 [symmetric] unsigned_push_bit_eq
  by (simp add: take_bit_nat_eq_self_iff push_bit_of_1 power_strict_increasing_iff [of 2 k 64, simplified])

definition align_nat :: "nat \<Rightarrow> nat \<Rightarrow> nat" where
  "align_nat a x = ((x + 2 ^ a - 1) div 2 ^ a) * 2 ^ a"

lemma align_nat_dvd: "2 ^ a dvd align_nat a x"
  by (simp add: align_nat_def)

lemma align_nat_bounds: "x \<le> align_nat a x" "align_nat a x < x + 2 ^ a"
proof -
  let ?n = "2 ^ a :: nat"
  have "(x + ?n - 1) mod ?n < ?n" by simp
  moreover have "align_nat a x + (x + ?n - 1) mod ?n = x + ?n - 1"
    unfolding align_nat_def by (rule div_mult_mod_eq)
  moreover have "0 < ?n" by simp
  ultimately show "x \<le> align_nat a x" "align_nat a x < x + ?n" by linarith+
qed

lemma align_nat_least:
  assumes "x \<le> y" and "2 ^ a dvd y"
  shows "align_nat a x \<le> y"
proof (rule ccontr)
  assume "\<not> align_nat a x \<le> y"
  then have "y < align_nat a x" by simp
  moreover have "2 ^ a dvd align_nat a x - y"
    using assms(2) align_nat_dvd by (simp add: dvd_diff_nat)
  ultimately have "2 ^ a \<le> align_nat a x - y" by (simp add: dvd_imp_le)
  with align_nat_bounds(2) [of a x] assms(1) \<open>y < align_nat a x\<close> show False by linarith
qed

lemma align_nat_fix: "2 ^ a dvd x \<Longrightarrow> align_nat a x = x"
  using align_nat_least [of x x a] align_nat_bounds(1) [of x a] by simp

lemma align_nat_add: "2 ^ a dvd l \<Longrightarrow> align_nat a (x + l) = align_nat a x + l"
proof -
  assume "2 ^ a dvd l"
  then obtain k where l: "l = k * 2 ^ a" by (auto elim: dvdE simp: mult.commute)
  have "1 \<le> (2::nat) ^ a" by simp
  then have "x + l + 2 ^ a - 1 = (x + 2 ^ a - 1) + k * 2 ^ a" using l by linarith
  then show ?thesis unfolding align_nat_def by (simp add: l algebra_simps)
qed

end
