(* ===== verification/GV_Guard_Props.thy ===== *)
theory GV_Guard_Props
  imports GV_Guard
begin

text \<open>
  What the event guard guarantees: the ring of time stamps refines a queue, expiry and
  insertion act on that queue, a contract of sliding-window limiters (the locale
  \<open>sliding_window\<close>) gives the rate limit and is interpreted on the guard, and every sequence
  of the guard's operations is free of undefined behaviour while no threshold is set to 0.
\<close>

section \<open>The ring as a queue of time stamps\<close>

definition ring_window :: "amdgv_monitor_event \<Rightarrow> u64 list" where
  "ring_window e =
     (case ev_record_array e of
        None \<Rightarrow> []
      | Some rec \<Rightarrow> map (\<lambda>k. rec ! ((unat (ev_origin_idx e) + k) mod unat (ev_threshold e)))
                       [0..<unat (ev_active e)])"

definition ring_ok :: "amdgv_monitor_event \<Rightarrow> bool" where
  "ring_ok e \<longleftrightarrow>
     (\<exists>rec. ev_record_array e = Some rec \<and> unat (ev_threshold e) \<le> length rec \<and>
        length rec < 2 ^ 31) \<and>
     0 < ev_threshold e \<and> ev_active e \<le> ev_threshold e \<and> ev_origin_idx e < ev_threshold e"

lemma length_ring_window: "ring_ok e \<Longrightarrow> length (ring_window e) = unat (ev_active e)"
  by (auto simp: ring_ok_def ring_window_def)

fun expire_queue :: "clock \<Rightarrow> nat \<Rightarrow> u64 \<Rightarrow> u64 list \<Rightarrow> nat \<times> u64 list" where
  "expire_queue clk t iv [] = (t, [])"
| "expire_queue clk t iv (s # q) =
     (if clk t - s < iv then (Suc t, s # q) else expire_queue clk (Suc t) iv q)"

lemma unat_Suc_mod:
  assumes "(i::u32) < n"
  shows "unat ((i + 1) mod n) = (unat i + 1) mod unat n"
proof -
  have "unat i < unat n" using assms by (simp add: word_less_nat_alt)
  moreover have "unat n < 2 ^ 32" using unsigned_less [of n] by simp
  ultimately have "unat (i + 1) = unat i + 1" by (simp add: unat_word_ariths)
  then show ?thesis by (simp add: unat_mod_distrib)
qed

definition ring_pop :: "amdgv_monitor_event \<Rightarrow> amdgv_monitor_event" where
  "ring_pop e = e\<lparr>ev_active := ev_active e - 1, ev_state := AMDGV_GUARD_EVENT_NORMAL,
      ev_origin_idx := (ev_origin_idx e + 1) mod ev_threshold e\<rparr>"

lemma ring_pop_ok:
  assumes "ring_ok e" and "0 < ev_active e"
  shows "ring_ok (ring_pop e)"
proof -
  have "ev_active e - 1 \<le> ev_threshold e"
    using assms by (auto simp: ring_ok_def word_le_nat_alt unat_dec32)
  moreover have "(ev_origin_idx e + 1) mod ev_threshold e < ev_threshold e"
    using assms by (auto simp: ring_ok_def word_less_nat_alt unat_mod_distrib)
  ultimately show ?thesis
    using assms by (auto simp: ring_ok_def ring_pop_def)
qed

lemma ring_window_pop:
  assumes ok: "ring_ok e" and act: "0 < ev_active e" and rec: "ev_record_array e = Some rec"
  shows "ring_window e = rec ! unat (ev_origin_idx e) # ring_window (ring_pop e)"
proof -
  let ?o = "unat (ev_origin_idx e)" and ?n = "unat (ev_threshold e)"
  have o: "?o < ?n" using ok by (simp add: ring_ok_def word_less_nat_alt)
  have a: "unat (ev_active e) = Suc (unat (ev_active e - 1))"
    using act by (simp add: unat_dec32 word_less_nat_alt)
  have o': "unat ((ev_origin_idx e + 1) mod ev_threshold e) = (?o + 1) mod ?n"
    using ok by (intro unat_Suc_mod) (simp add: ring_ok_def)
  show ?thesis
    unfolding ring_window_def ring_pop_def
    by (simp add: rec a o o' upt_conv_Cons map_Suc_upt [symmetric] mod_simps
        del: upt_Suc)
qed

lemma ring_pop_frame [simp]:
  "ev_interval (ring_pop e) = ev_interval e" "ev_threshold (ring_pop e) = ev_threshold e"
  "ev_record_array (ring_pop e) = ev_record_array e" "ev_amount (ring_pop e) = ev_amount e"
  by (simp_all add: ring_pop_def)

theorem expire_event_refines:
  assumes "ring_ok e"
  shows "\<exists>e'. expire_event clk t e =
            Inr (fst (expire_queue clk t (ev_interval e) (ring_window e)), e') \<and> ring_ok e' \<and>
          ring_window e' = snd (expire_queue clk t (ev_interval e) (ring_window e)) \<and>
          ev_interval e' = ev_interval e \<and> ev_threshold e' = ev_threshold e \<and>
          ev_amount e' = ev_amount e"
  using assms
proof (induction clk t e rule: expire_event.induct)
  case (1 clk t e)
  from "1.prems" obtain rec where rec: "ev_record_array e = Some rec"
    and len: "unat (ev_threshold e) \<le> length rec"
    by (auto simp: ring_ok_def)
  have o: "unat (ev_origin_idx e) < length rec"
    using "1.prems" len by (auto simp: ring_ok_def word_less_nat_alt)
  have th: "ev_threshold e \<noteq> 0" using "1.prems" by (auto simp: ring_ok_def)
  show ?case
  proof (cases "0 < ev_active e")
    case False
    then have "ev_active e = 0" by (simp add: word_gt_0)
    then have "ring_window e = []" by (simp add: ring_window_def rec)
    with False "1.prems" show ?thesis by (simp add: expire_event.simps)
  next
    case act: True
    note win = ring_window_pop [OF "1.prems" act rec]
    show ?thesis
    proof (cases "clk t - rec ! unat (ev_origin_idx e) < ev_interval e")
      case True
      with act rec o "1.prems" show ?thesis
        by (simp add: expire_event.simps [of clk t e] win)
    next
      case False
      have step: "expire_event clk t e = expire_event clk (Suc t) (ring_pop e)"
        using act rec o False th by (simp add: expire_event.simps [of clk t e] ring_pop_def)
      have "\<exists>e'. expire_event clk (Suc t) (ring_pop e) = Inr (fst (expire_queue clk (Suc t)
              (ev_interval (ring_pop e)) (ring_window (ring_pop e))), e') \<and> ring_ok e' \<and>
            ring_window e' = snd (expire_queue clk (Suc t) (ev_interval (ring_pop e))
              (ring_window (ring_pop e))) \<and>
            ev_interval e' = ev_interval (ring_pop e) \<and>
            ev_threshold e' = ev_threshold (ring_pop e) \<and> ev_amount e' = ev_amount (ring_pop e)"
        using "1.IH" [OF act refl False th] ring_pop_ok [OF "1.prems" act]
        by (simp add: ring_pop_def)
      then show ?thesis using False by (simp add: step win)
    qed
  qed
qed

lemma ring_window_push:
  assumes ok: "ring_ok e" and rec: "ev_record_array e = Some rec"
    and free: "ev_active e < ev_threshold e"
  defines "idx \<equiv> (ev_origin_idx e + ev_active e) mod ev_threshold e"
  shows "unat idx < length rec"
    and "ring_window (e\<lparr>ev_record_array := Some (rec[unat idx := c]),
            ev_active := ev_active e + 1, ev_amount := am, ev_state := st\<rparr>) =
          ring_window e @ [c]"
    and "ring_ok (e\<lparr>ev_record_array := Some (rec[unat idx := c]),
            ev_active := ev_active e + 1, ev_amount := am, ev_state := st\<rparr>)"
proof -
  let ?o = "unat (ev_origin_idx e)" and ?n = "unat (ev_threshold e)" and ?a = "unat (ev_active e)"
  have n: "?n \<le> length rec" "length rec < 2 ^ 31" and o: "?o < ?n" and a: "?a < ?n"
    using ok free rec by (auto simp: ring_ok_def word_less_nat_alt)
  have add: "unat (ev_origin_idx e + ev_active e) = ?o + ?a"
    using n o a by (simp add: unat_word_ariths)
  have idx: "unat idx = (?o + ?a) mod ?n"
    by (simp add: idx_def unat_mod_distrib add)
  have inc: "unat (ev_active e + 1) = Suc ?a"
    using n a by (simp add: unat_word_ariths)
  have lt: "unat idx < ?n" using o by (simp add: idx)
  then show "unat idx < length rec" using n by simp
  have other: "rec[unat idx := c] ! ((?o + k) mod ?n) = rec ! ((?o + k) mod ?n)" if "k < ?a" for k
  proof -
    have "(?o + k) mod ?n \<noteq> (?o + ?a) mod ?n"
    proof
      assume "(?o + k) mod ?n = (?o + ?a) mod ?n"
      then have "(?o + ?a - (?o + k)) mod ?n = 0"
        using that by (metis mod_eq_dvd_iff_nat add_le_cancel_left less_imp_le dvd_imp_mod_0)
      moreover have "?o + ?a - (?o + k) = ?a - k" by simp
      ultimately show False using that a by simp
    qed
    then show ?thesis by (simp add: idx)
  qed
  show "ring_window (e\<lparr>ev_record_array := Some (rec[unat idx := c]),
            ev_active := ev_active e + 1, ev_amount := am, ev_state := st\<rparr>) =
          ring_window e @ [c]"
    using lt n by (auto simp: ring_window_def rec inc other simp flip: idx)
  have "ev_active e + 1 \<le> ev_threshold e"
    using a by (simp add: word_le_nat_alt inc)
  then show "ring_ok (e\<lparr>ev_record_array := Some (rec[unat idx := c]),
            ev_active := ev_active e + 1, ev_amount := am, ev_state := st\<rparr>)"
    using ok n by (auto simp: ring_ok_def)
qed


lemma expire_queue_spec:
  assumes "expire_queue clk t iv w = (t1, q)"
  shows "\<exists>k \<le> length w. q = drop k w \<and> t \<le> t1 \<and>
           (\<forall>s \<in> set (take k w). \<exists>j. t \<le> j \<and> j < t1 \<and> \<not> clk j - s < iv)"
  using assms
proof (induction clk t iv w rule: expire_queue.induct)
  case (1 clk t iv)
  then show ?case by simp
next
  case (2 clk t iv s w)
  show ?case
  proof (cases "clk t - s < iv")
    case True
    with "2.prems" show ?thesis by (intro exI [of _ 0]) auto
  next
    case False
    with "2.prems" have "expire_queue clk (Suc t) iv w = (t1, q)" by simp
    from "2.IH" [OF False this] obtain k where k: "k \<le> length w" "q = drop k w" "Suc t \<le> t1"
      "\<forall>s \<in> set (take k w). \<exists>j. Suc t \<le> j \<and> j < t1 \<and> \<not> clk j - s < iv"
      by blast
    have "\<exists>j. t \<le> j \<and> j < t1 \<and> \<not> clk j - s' < iv" if "s' \<in> set (take (Suc k) (s # w))" for s'
    proof (cases "s' = s")
      case True
      with False k(3) show ?thesis by (intro exI [of _ t]) auto
    next
      case False
      with that k(4) show ?thesis by (fastforce dest: Suc_leD)
    qed
    with k show ?thesis by (intro exI [of _ "Suc k"]) auto
  qed
qed

section \<open>Sliding windows\<close>

text \<open>
  A component that limits events by a sliding window: \<open>attempt op\<close> is one operation of the
  code, which reads the clock from position \<open>t\<close> on and may record one event.
\<close>

definition mono_clock :: "clock \<Rightarrow> bool" where
  "mono_clock clk \<longleftrightarrow> (\<forall>i j. i \<le> j \<longrightarrow> clk i \<le> clk j)"

fun run_attempts :: "('op \<Rightarrow> clock \<Rightarrow> nat \<Rightarrow> 's \<Rightarrow> (u64 option \<times> nat \<times> 's) cres) \<Rightarrow>
    clock \<Rightarrow> nat \<Rightarrow> 's \<Rightarrow> 'op list \<Rightarrow> (u64 list \<times> nat \<times> 's) cres" where
  "run_attempts attempt clk t s [] = Inr ([], t, s)"
| "run_attempts attempt clk t s (op # ops) =
     cbind (attempt op clk t s) (\<lambda>(a, t', s').
     cbind (run_attempts attempt clk t' s' ops) (\<lambda>(acc, t'', s'').
       Inr ((case a of None \<Rightarrow> acc | Some c \<Rightarrow> c # acc), t'', s'')))"

locale sliding_window =
  fixes attempt :: "'op \<Rightarrow> clock \<Rightarrow> nat \<Rightarrow> 's \<Rightarrow> (u64 option \<times> nat \<times> 's) cres"
    and window :: "'s \<Rightarrow> u64 list"
    and limit :: "'s \<Rightarrow> nat"
    and interval :: "'s \<Rightarrow> u64"
    and inv :: "'s \<Rightarrow> bool"
    and op_ok :: "'op \<Rightarrow> bool"
  assumes attempt_window: "inv s \<Longrightarrow> op_ok op \<Longrightarrow>
    \<exists>a t0 t1 t2 q t' s'. attempt op clk t s = Inr (a, t', s') \<and> t \<le> t0 \<and>
      expire_queue clk t0 (interval s) (window s) = (t1, q) \<and> t1 \<le> t2 \<and> t2 \<le> t' \<and> inv s' \<and>
      limit s' = limit s \<and> interval s' = interval s \<and>
      (case a of None \<Rightarrow> window s' = q
       | Some c \<Rightarrow> c = clk t2 \<and> length q < limit s \<and> window s' = q @ [c])"
begin

lemma attempts_return:
  assumes "inv s" and "\<forall>op \<in> set ops. op_ok op"
  shows "\<exists>acc t' s'. run_attempts attempt clk t s ops = Inr (acc, t', s') \<and> inv s' \<and>
           limit s' = limit s \<and> interval s' = interval s"
  using assms
proof (induction ops arbitrary: t s)
  case Nil
  then show ?case by simp
next
  case (Cons op ops)
  obtain a t1 s1 where step: "attempt op clk t s = Inr (a, t1, s1)" "inv s1"
      "limit s1 = limit s" "interval s1 = interval s"
    using attempt_window [of s op clk t] Cons.prems by fastforce
  from Cons.IH [of s1 t1] step Cons.prems show ?case by fastforce
qed

text \<open>The stamps recorded so far split into those the window has dropped, all of which are at
  least one interval old, and the window itself.\<close>

definition history_ok :: "clock \<Rightarrow> nat \<Rightarrow> 's \<Rightarrow> u64 list \<Rightarrow> bool" where
  "history_ok clk t s hist \<longleftrightarrow>
     (\<exists>d. hist = d @ window s \<and> (\<forall>x \<in> set d. unat x + unat (interval s) \<le> unat (clk t))) \<and>
     (\<forall>x \<in> set hist. x \<le> clk t) \<and>
     (\<forall>i. i + limit s < length hist \<longrightarrow>
        unat (hist ! i) + unat (interval s) \<le> unat (hist ! (i + limit s)))"

lemma history_step:
  assumes mono: "mono_clock clk" and inv: "inv s" and op: "op_ok op"
    and hist: "history_ok clk t s hist"
    and att: "attempt op clk t s = Inr (a, t', s')"
  shows "history_ok clk t' s' (hist @ (case a of None \<Rightarrow> [] | Some c \<Rightarrow> [c]))"
proof -
  obtain t0 t1 t2 q where t0: "t \<le> t0" and q: "expire_queue clk t0 (interval s) (window s) = (t1, q)"
    and t1: "t1 \<le> t2" "t2 \<le> t'" and lim: "limit s' = limit s" "interval s' = interval s"
    and win: "case a of None \<Rightarrow> window s' = q
       | Some c \<Rightarrow> c = clk t2 \<and> length q < limit s \<and> window s' = q @ [c]"
    using attempt_window [OF inv op, of clk t] att by fastforce
  obtain d where d: "hist = d @ window s"
    and dold: "\<forall>x \<in> set d. unat x + unat (interval s) \<le> unat (clk t)"
    and bound: "\<forall>x \<in> set hist. x \<le> clk t"
    and spaced: "\<forall>i. i + limit s < length hist \<longrightarrow>
        unat (hist ! i) + unat (interval s) \<le> unat (hist ! (i + limit s))"
    using hist by (auto simp: history_ok_def)
  obtain k where k: "k \<le> length (window s)" "q = drop k (window s)" "t0 \<le> t1"
    and old: "\<forall>x \<in> set (take k (window s)). \<exists>j. t0 \<le> j \<and> j < t1 \<and> \<not> clk j - x < interval s"
    using expire_queue_spec [OF q] by blast
  have le: "clk i \<le> clk j" if "i \<le> j" for i j
    using mono that by (simp add: mono_clock_def)
  have le': "unat (clk i) \<le> unat (clk j)" if "i \<le> j" for i j
    using le [OF that] by (simp add: word_le_nat_alt)
  define d' where "d' = d @ take k (window s)"
  have hist': "hist = d' @ q" using d k by (simp add: d'_def)
  have dropped: "unat x + unat (interval s) \<le> unat (clk t1)" if "x \<in> set d'" for x
  proof (cases "x \<in> set d")
    case True
    with dold le' [of t t1] t0 k(3) show ?thesis by fastforce
  next
    case False
    with that have "x \<in> set (take k (window s))" by (simp add: d'_def)
    with old obtain j where j: "t0 \<le> j" "j < t1" "\<not> clk j - x < interval s" by blast
    have "x \<in> set hist" using that hist' by simp
    with bound have "x \<le> clk t" by blast
    also have "clk t \<le> clk j" using le t0 j(1) by simp
    finally have "unat (clk j - x) = unat (clk j) - unat x" "unat x \<le> unat (clk j)"
      by (simp_all add: unat_sub word_le_nat_alt)
    with j(3) le' [of j t1] j(2) show ?thesis
      by (simp add: word_less_nat_alt)
  qed
  have dropped2: "unat x + unat (interval s) \<le> unat (clk t2)" if "x \<in> set d'" for x
    using dropped [OF that] le' [OF t1(1)] by simp
  have hb: "x \<le> clk t2" if "x \<in> set hist" for x
    using bound that le [of t t2] t0 k(3) t1 by (meson order_trans)
  have t1t': "clk t2 \<le> clk t'" using le t1 by blast
  have dropped': "unat x + unat (interval s) \<le> unat (clk t')" if "x \<in> set d'" for x
    using dropped2 [OF that] t1t' by (simp add: word_le_nat_alt)
  show ?thesis
  proof (cases a)
    case None
    with win have "window s' = q" by simp
    then show ?thesis
      using hist' dropped' hb t1t' spaced lim None
      by (auto simp: history_ok_def intro: order_trans)
  next
    case (Some c)
    with win have c: "c = clk t2" and lq: "length q < limit s" and w: "window s' = q @ [c]"
      by simp_all
    have "unat ((hist @ [c]) ! i) + unat (interval s) \<le> unat ((hist @ [c]) ! (i + limit s))"
      if i: "i + limit s < length (hist @ [c])" for i
    proof (cases "i + limit s < length hist")
      case True
      with spaced show ?thesis by (simp add: nth_append)
    next
      case False
      with i have eq: "i + limit s = length hist" by simp
      then have "i < length d'" using lq hist' by simp
      then have "hist ! i \<in> set d'" by (simp add: hist' nth_append)
      with dropped2 \<open>i < length d'\<close> show ?thesis
        by (simp add: eq hist' nth_append c)
    qed
    moreover have "hist @ [c] = d' @ window s'" using hist' w by simp
    moreover have "\<forall>x \<in> set (hist @ [c]). x \<le> clk t'"
      using hb t1t' c by (auto intro: order_trans)
    ultimately show ?thesis
      using dropped' lim Some unfolding history_ok_def by fastforce
  qed
qed

lemma history_run:
  assumes "mono_clock clk" and "inv s" and "\<forall>op \<in> set ops. op_ok op"
    and "history_ok clk t s hist"
    and "run_attempts attempt clk t s ops = Inr (acc, t', s')"
  shows "history_ok clk t' s' (hist @ acc)"
  using assms(2-)
proof (induction ops arbitrary: t s hist acc)
  case Nil
  then show ?case by simp
next
  case (Cons op ops)
  from Cons.prems(4) obtain a t1 s1 acc1 where
    step: "attempt op clk t s = Inr (a, t1, s1)"
    and rest: "run_attempts attempt clk t1 s1 ops = Inr (acc1, t', s')"
    and acc: "acc = (case a of None \<Rightarrow> acc1 | Some c \<Rightarrow> c # acc1)"
    by (auto simp: cbind_eq_Inr_iff split: prod.splits)
  have inv1: "inv s1"
    using attempt_window [of s op clk t] Cons.prems(1,2) step by fastforce
  have "history_ok clk t1 s1 (hist @ (case a of None \<Rightarrow> [] | Some c \<Rightarrow> [c]))"
    using history_step [OF assms(1) Cons.prems(1) _ Cons.prems(3) step] Cons.prems(2) by simp
  from Cons.IH [OF inv1 _ this rest] Cons.prems(2) show ?case
    by (cases a) (simp_all add: acc)
qed

lemma rate_limit:
  assumes "mono_clock clk" and "inv s" and "window s = []" and "\<forall>op \<in> set ops. op_ok op"
    and "run_attempts attempt clk t s ops = Inr (acc, t', s')"
    and "i + limit s < length acc"
  shows "unat (acc ! i) + unat (interval s) \<le> unat (acc ! (i + limit s))"
proof -
  have "history_ok clk t s []" using assms(3) by (simp add: history_ok_def)
  from history_run [OF assms(1,2,4) this assms(5)] have "history_ok clk t' s' acc" by simp
  moreover have "limit s' = limit s" "interval s' = interval s"
    using attempts_return [OF assms(2,4), of clk t] assms(5) by auto
  ultimately show ?thesis using assms(6) by (simp add: history_ok_def)
qed

end


section \<open>One VF's guard as a sliding window\<close>

lemma expire_queue_mono: "expire_queue clk t iv w = (t1, q) \<Longrightarrow> t \<le> t1"
  using expire_queue_spec by blast

definition expired_from :: "clock \<Rightarrow> nat \<Rightarrow> nat \<Rightarrow> amdgv_monitor_event \<Rightarrow>
    amdgv_monitor_event \<Rightarrow> bool" where
  "expired_from clk t t' e e' \<longleftrightarrow>
     ring_ok e' \<and> ev_interval e' = ev_interval e \<and> ev_threshold e' = ev_threshold e \<and>
     (\<exists>t0 t1. t \<le> t0 \<and> t1 \<le> t' \<and>
        expire_queue clk t0 (ev_interval e) (ring_window e) = (t1, ring_window e'))"

lemma expired_from_widen:
  "expired_from clk t t' e e' \<Longrightarrow> s \<le> t \<Longrightarrow> t' \<le> s' \<Longrightarrow> expired_from clk s s' e e'"
  unfolding expired_from_def by (meson order_trans)

lemma expire_event_expired:
  assumes "ring_ok e"
  obtains t' e' where "expire_event clk t e = Inr (t', e')" and "t \<le> t'"
    and "expired_from clk t t' e e'"
proof -
  obtain t' q where q: "expire_queue clk t (ev_interval e) (ring_window e) = (t', q)"
    by (cases "expire_queue clk t (ev_interval e) (ring_window e)")
  moreover have "t \<le> t'" using q by (rule expire_queue_mono)
  ultimately show ?thesis
    using expire_event_refines [OF assms, of clk t] that
    unfolding expired_from_def by fastforce
qed

lemma expire_events_expired:
  assumes "\<forall>e \<in> set es. ring_ok e"
  shows "\<exists>t' es'. expire_events clk t es = Inr (t', es') \<and> t \<le> t' \<and> length es' = length es \<and>
           (\<forall>k < length es. expired_from clk t t' (es ! k) (es' ! k))"
  using assms
proof (induction es arbitrary: t)
  case Nil
  then show ?case by simp
next
  case (Cons e es)
  obtain t1 e1 where e1: "expire_event clk t e = Inr (t1, e1)" "t \<le> t1"
      "expired_from clk t t1 e e1"
    using Cons.prems by (auto elim: expire_event_expired [of e clk t])
  obtain t2 es2 where es2: "expire_events clk t1 es = Inr (t2, es2)" "t1 \<le> t2"
      "length es2 = length es" "\<forall>k < length es. expired_from clk t1 t2 (es ! k) (es2 ! k)"
    using Cons.IH [of t1] Cons.prems by auto
  have "expired_from clk t t2 ((e # es) ! k) ((e1 # es2) ! k)" if "k < length (e # es)" for k
    using that e1 es2 by (cases k) (auto intro: expired_from_widen)
  with e1 es2 show ?case by (intro exI [of _ t2] exI [of _ "e1 # es2"]) auto
qed

text \<open>An event that has just been expired, then offered one more record.\<close>

lemma add_active_record_full:
  "ev_threshold e \<le> ev_active e \<Longrightarrow>
     add_active_record clk t e =
       Inr (AMDGV_EVENT_OVERFLOW, t, e\<lparr>ev_state := AMDGV_GUARD_EVENT_OVERFLOW\<rparr>)"
  by (simp add: add_active_record_def)

lemma ring_frame [simp]:
  "ring_ok (e\<lparr>ev_state := st\<rparr>) = ring_ok e" "ring_window (e\<lparr>ev_state := st\<rparr>) = ring_window e"
  "ring_ok (e\<lparr>ev_amount := am\<rparr>) = ring_ok e" "ring_window (e\<lparr>ev_amount := am\<rparr>) = ring_window e"
  by (simp_all add: ring_ok_def ring_window_def split: option.split)

lemma add_active_record_free:
  assumes "ring_ok e" and "ev_active e < ev_threshold e"
  shows "\<exists>e'. add_active_record clk t e = Inr (0, Suc t, e') \<and> ring_ok e' \<and>
           ring_window e' = ring_window e @ [clk t] \<and> ev_interval e' = ev_interval e \<and>
           ev_threshold e' = ev_threshold e \<and> ev_active e' = ev_active e + 1 \<and>
           ev_amount e' = ev_amount e + 1 \<and>
           ev_state e' = (if ev_active e + 1 = ev_threshold e then AMDGV_GUARD_EVENT_FULL
                          else ev_state e)"
proof -
  obtain rec where rec: "ev_record_array e = Some rec"
    using assms(1) by (auto simp: ring_ok_def)
  show ?thesis
    using assms(2) ring_window_push [OF assms(1) rec assms(2)] rec
    by (simp add: add_active_record_def Let_def not_le)
qed

definition guarded :: "guard_adapter \<Rightarrow> u32 \<Rightarrow> bool" where
  "guarded adapt idx_vf \<longleftrightarrow>
     \<not> AMDGV_IS_IDX_INVALID (ga_num_vf adapt) idx_vf \<and>
     unat idx_vf < length (ga_array_vf adapt) \<and>
     (\<exists>g. ga_array_vf adapt ! unat idx_vf = Some g \<and> gd_state g \<noteq> AMDGV_GUARD_DISABLED \<and>
        length (gd_event g) = AMDGV_GUARD_EVENT_MAX \<and> (\<forall>e \<in> set (gd_event g). ring_ok e))"

definition vf_event :: "guard_adapter \<Rightarrow> u32 \<Rightarrow> nat \<Rightarrow> amdgv_monitor_event" where
  "vf_event adapt idx_vf event_id =
     (case ga_array_vf adapt ! unat idx_vf of
        None \<Rightarrow> zero_event | Some g \<Rightarrow> gd_event g ! event_id)"

lemma set_vf_guard_simps [simp]:
  "ga_num_vf (set_vf_guard adapt idx_vf g) = ga_num_vf adapt"
  "length (ga_array_vf (set_vf_guard adapt idx_vf g)) = length (ga_array_vf adapt)"
  "unat idx_vf < length (ga_array_vf adapt) \<Longrightarrow>
     ga_array_vf (set_vf_guard adapt idx_vf g) ! unat idx_vf = g"
  by (simp_all add: set_vf_guard_def)

text \<open>What \<^verbatim>\<open>amdgv_guard_add_active_event\<close> does on a guarded VF: every event is expired, then
  the event that was raised takes one record or overflows.\<close>

theorem add_active_event_step:
  assumes "guarded adapt idx_vf" and "event_id < AMDGV_GUARD_EVENT_MAX"
  shows "\<exists>ret t1 t' adapt'. amdgv_guard_add_active_event clk t adapt idx_vf event_id =
            Inr (ret, t', adapt') \<and> guarded adapt' idx_vf \<and> t \<le> t1 \<and> t1 \<le> t' \<and>
          (\<forall>k < AMDGV_GUARD_EVENT_MAX. k \<noteq> event_id \<longrightarrow>
             expired_from clk t t1 (vf_event adapt idx_vf k) (vf_event adapt' idx_vf k)) \<and>
          (\<exists>e. expired_from clk t t1 (vf_event adapt idx_vf event_id) e \<and>
             (if length (ring_window e) < unat (ev_threshold e)
              then ret = 0 \<and> t' = Suc t1 \<and> ring_window (vf_event adapt' idx_vf event_id) =
                     ring_window e @ [clk t1]
              else ret = AMDGV_EVENT_OVERFLOW \<and> t' = t1 \<and>
                     ring_window (vf_event adapt' idx_vf event_id) = ring_window e \<and>
                     ev_state (vf_event adapt' idx_vf event_id) = AMDGV_GUARD_EVENT_OVERFLOW) \<and>
             ev_interval (vf_event adapt' idx_vf event_id) = ev_interval e \<and>
             ev_threshold (vf_event adapt' idx_vf event_id) = ev_threshold e)"
proof -
  obtain g where idx: "\<not> AMDGV_IS_IDX_INVALID (ga_num_vf adapt) idx_vf"
      "unat idx_vf < length (ga_array_vf adapt)"
    and g: "ga_array_vf adapt ! unat idx_vf = Some g" "gd_state g \<noteq> AMDGV_GUARD_DISABLED"
      "length (gd_event g) = AMDGV_GUARD_EVENT_MAX" "\<forall>e \<in> set (gd_event g). ring_ok e"
    using assms(1) by (auto simp: guarded_def)
  obtain t1 es where es: "expire_events clk t (gd_event g) = Inr (t1, es)" "t \<le> t1"
      "length es = AMDGV_GUARD_EVENT_MAX"
      "\<forall>k < AMDGV_GUARD_EVENT_MAX. expired_from clk t t1 (gd_event g ! k) (es ! k)"
    using expire_events_expired [OF g(4), of clk t] g(3) by auto
  let ?e = "es ! event_id"
  have ok: "ring_ok (es ! k)" if "k < AMDGV_GUARD_EVENT_MAX" for k
    using es(4) that by (simp add: expired_from_def)
  have old: "vf_event adapt idx_vf k = gd_event g ! k" for k
    by (simp add: vf_event_def g(1))
  have len: "length (ring_window ?e) = unat (ev_active ?e)"
    using ok [OF assms(2)] by (rule length_ring_window)
  define ev' where "ev' = (case add_active_record clk t1 ?e of Inr (ret, t', e') \<Rightarrow> e')"
  define G where "G ov = g\<lparr>gd_event := es[event_id := ev'], gd_ov_event := ov\<rparr>" for ov
  have new: "vf_event (set_vf_guard adapt idx_vf (Some (G ov))) idx_vf k =
      (if k = event_id then ev' else es ! k)" if "k < AMDGV_GUARD_EVENT_MAX" for k ov
    using that es(3) idx by (simp add: vf_event_def G_def)
  have guarded': "guarded (set_vf_guard adapt idx_vf (Some (G ov))) idx_vf" if "ring_ok ev'" for ov
  proof -
    have "\<forall>e \<in> set es. ring_ok e"
      using ok es(3) by (auto simp: in_set_conv_nth)
    then have "\<forall>e \<in> set (es[event_id := ev']). ring_ok e"
      using that set_update_subset_insert [of es event_id ev'] by auto
    then show ?thesis
      using idx g(1,2) es(3) by (simp add: guarded_def G_def)
  qed
  have run: "amdgv_guard_add_active_event clk t adapt idx_vf event_id =
      Inr (ret, t', set_vf_guard adapt idx_vf (Some (G (if ret = AMDGV_EVENT_OVERFLOW
        then gd_ov_event g + 1 else gd_ov_event g))))"
    if "add_active_record clk t1 ?e = Inr (ret, t', ev')" for ret t'
    using that idx g es assms(2)
    by (simp add: amdgv_guard_add_active_event_def vf_guard_def
        amdgv_guard_delete_expired_event_def G_def Let_def)
  show ?thesis
  proof (cases "ev_active ?e < ev_threshold ?e")
    case True
    with add_active_record_free [OF ok [OF assms(2)] True, of clk t1]
    have rec: "add_active_record clk t1 ?e = Inr (0, Suc t1, ev')" "ring_ok ev'"
        "ring_window ev' = ring_window ?e @ [clk t1]" "ev_interval ev' = ev_interval ?e"
        "ev_threshold ev' = ev_threshold ?e"
      by (auto simp: ev'_def)
    have "length (ring_window ?e) < unat (ev_threshold ?e)"
      using True len by (simp add: word_less_nat_alt)
    with rec run [OF rec(1)] guarded' [OF rec(2)] es assms(2) show ?thesis
      by (intro exI [of _ 0] exI [of _ t1] exI [of _ "Suc t1"]
            exI [of _ "set_vf_guard adapt idx_vf (Some (G (gd_ov_event g)))"] conjI
            exI [of _ ?e]) (simp_all add: old new)
  next
    case False
    then have rec: "add_active_record clk t1 ?e = Inr (AMDGV_EVENT_OVERFLOW, t1, ev')"
        "ev' = ?e\<lparr>ev_state := AMDGV_GUARD_EVENT_OVERFLOW\<rparr>"
      by (simp_all add: add_active_record_full ev'_def not_less)
    have ok': "ring_ok ev'" using ok [OF assms(2)] rec(2) by simp
    have "\<not> length (ring_window ?e) < unat (ev_threshold ?e)"
      using False len by (simp add: word_less_nat_alt)
    with rec run [OF rec(1)] guarded' [OF ok'] es assms(2) show ?thesis
      by (intro exI [of _ AMDGV_EVENT_OVERFLOW] exI [of _ t1]
            exI [of _ "set_vf_guard adapt idx_vf (Some (G (gd_ov_event g + 1)))"] conjI
            exI [of _ ?e]) (simp_all add: old new)
  qed
qed


section \<open>The interpretation and the rate limit\<close>

text \<open>The event \<open>wid\<close> of the VF \<open>idx_vf\<close> as a sliding window: an operation is one call of
  \<^verbatim>\<open>amdgv_guard_add_active_event\<close> for any event of that VF, and it records a stamp when the
  event is \<open>wid\<close> and the call returns 0.\<close>

definition guard_attempt :: "nat \<Rightarrow> clock \<Rightarrow> nat \<Rightarrow> guard_adapter \<times> u32 \<times> nat \<Rightarrow>
    (u64 option \<times> nat \<times> guard_adapter \<times> u32 \<times> nat) cres" where
  "guard_attempt event_id clk t s =
     (case s of (adapt, idx_vf, wid) \<Rightarrow>
        cbind (amdgv_guard_add_active_event clk t adapt idx_vf event_id) (\<lambda>(ret, t', adapt').
          Inr (if event_id = wid \<and> ret = 0 then Some (clk (t' - 1)) else None,
               t', adapt', idx_vf, wid)))"

definition guard_watch :: "guard_adapter \<times> u32 \<times> nat \<Rightarrow> amdgv_monitor_event" where
  "guard_watch s = (case s of (adapt, idx_vf, wid) \<Rightarrow> vf_event adapt idx_vf wid)"

interpretation gw: sliding_window guard_attempt "\<lambda>s. ring_window (guard_watch s)"
  "\<lambda>s. unat (ev_threshold (guard_watch s))" "\<lambda>s. ev_interval (guard_watch s)"
  "\<lambda>(adapt, idx_vf, wid). guarded adapt idx_vf \<and> wid < AMDGV_GUARD_EVENT_MAX"
  "\<lambda>event_id. event_id < AMDGV_GUARD_EVENT_MAX"
proof unfold_locales
  fix s op clk t
  assume inv: "case s of (adapt, idx_vf, wid) \<Rightarrow> guarded adapt idx_vf \<and> wid < AMDGV_GUARD_EVENT_MAX"
    and op: "op < AMDGV_GUARD_EVENT_MAX"
  obtain adapt idx_vf wid where s: "s = (adapt, idx_vf, wid)" by (cases s)
  with inv have g: "guarded adapt idx_vf" and wid: "wid < AMDGV_GUARD_EVENT_MAX" by simp_all
  obtain ret t1 t' adapt' e where
    run: "amdgv_guard_add_active_event clk t adapt idx_vf op = Inr (ret, t', adapt')"
    and g': "guarded adapt' idx_vf" and t: "t1 \<le> t'"
    and others: "\<forall>k < AMDGV_GUARD_EVENT_MAX. k \<noteq> op \<longrightarrow>
             expired_from clk t t1 (vf_event adapt idx_vf k) (vf_event adapt' idx_vf k)"
    and e: "expired_from clk t t1 (vf_event adapt idx_vf op) e"
    and res: "if length (ring_window e) < unat (ev_threshold e)
              then ret = 0 \<and> t' = Suc t1 \<and> ring_window (vf_event adapt' idx_vf op) =
                     ring_window e @ [clk t1]
              else ret = AMDGV_EVENT_OVERFLOW \<and> t' = t1 \<and>
                     ring_window (vf_event adapt' idx_vf op) = ring_window e \<and>
                     ev_state (vf_event adapt' idx_vf op) = AMDGV_GUARD_EVENT_OVERFLOW"
      "ev_interval (vf_event adapt' idx_vf op) = ev_interval e"
      "ev_threshold (vf_event adapt' idx_vf op) = ev_threshold e"
    using add_active_event_step [OF g op, of clk t] by blast
  obtain t0 te where te: "t \<le> t0" "te \<le> t1" "expire_queue clk t0
      (ev_interval (vf_event adapt idx_vf wid)) (ring_window (vf_event adapt idx_vf wid)) =
      (te, ring_window (if op = wid then e else vf_event adapt' idx_vf wid))"
    using e others wid unfolding expired_from_def by (cases "op = wid") auto
  let ?a = "if op = wid \<and> ret = 0 then Some (clk (t' - 1)) else None"
  have att: "guard_attempt op clk t s = Inr (?a, t', adapt', idx_vf, wid)"
    by (simp add: guard_attempt_def s run)
  have lim: "ev_threshold (vf_event adapt' idx_vf wid) = ev_threshold (vf_event adapt idx_vf wid)"
      "ev_interval (vf_event adapt' idx_vf wid) = ev_interval (vf_event adapt idx_vf wid)"
    using e others wid res(2,3) unfolding expired_from_def by (cases "op = wid"; auto)+
  have thr: "ev_threshold e = ev_threshold (vf_event adapt idx_vf op)"
    using e by (simp add: expired_from_def)
  show "\<exists>a t0 t1 t2 q t' s'. guard_attempt op clk t s = Inr (a, t', s') \<and> t \<le> t0 \<and>
      expire_queue clk t0 (ev_interval (guard_watch s)) (ring_window (guard_watch s)) = (t1, q) \<and>
      t1 \<le> t2 \<and> t2 \<le> t' \<and>
      (case s' of (adapt, idx_vf, wid) \<Rightarrow> guarded adapt idx_vf \<and> wid < AMDGV_GUARD_EVENT_MAX) \<and>
      unat (ev_threshold (guard_watch s')) = unat (ev_threshold (guard_watch s)) \<and>
      ev_interval (guard_watch s') = ev_interval (guard_watch s) \<and>
      (case a of None \<Rightarrow> ring_window (guard_watch s') = q
       | Some c \<Rightarrow> c = clk t2 \<and> length q < unat (ev_threshold (guard_watch s)) \<and>
           ring_window (guard_watch s') = q @ [c])"
    using att te lim t g' wid res(1) thr
    by (intro exI [of _ ?a] exI [of _ t0] exI [of _ te] exI [of _ t1]
          exI [of _ "ring_window (if op = wid then e else vf_event adapt' idx_vf wid)"]
          exI [of _ t'] exI [of _ "(adapt', idx_vf, wid)"])
      (auto simp: guard_watch_def s split: if_splits)
qed

section \<open>Freedom from undefined behaviour\<close>

text \<open>What every operation keeps of event \<open>k\<close>: weaker than \<^term>\<open>ring_ok\<close>, since a new
  configuration may lower the threshold below the number of records or the origin.\<close>

definition event_mem_ok :: "nat \<Rightarrow> amdgv_monitor_event \<Rightarrow> bool" where
  "event_mem_ok k e \<longleftrightarrow>
     (\<exists>rec. ev_record_array e = Some rec \<and> length rec = unat (amdgv_guard_get_max_threshold k)) \<and>
     ev_threshold e \<le> amdgv_guard_get_max_threshold k \<and>
     ev_origin_idx e < amdgv_guard_get_max_threshold k \<and>
     (ev_threshold e = 0 \<longrightarrow> ev_active e = 0)"

definition guard_mem_ok :: "amdgv_vf_guard \<Rightarrow> bool" where
  "guard_mem_ok g \<longleftrightarrow> length (gd_event g) = AMDGV_GUARD_EVENT_MAX \<and>
     (\<forall>k < AMDGV_GUARD_EVENT_MAX. event_mem_ok k (gd_event g ! k))"

definition guards_ok :: "guard_adapter \<Rightarrow> bool" where
  "guards_ok adapt \<longleftrightarrow> ga_num_vf adapt \<le> 31 \<and>
     length (ga_array_vf adapt) = AMDGV_MAX_VF_SLOT \<and>
     (\<forall>i < AMDGV_MAX_VF_SLOT. case ga_array_vf adapt ! i of None \<Rightarrow> True | Some g \<Rightarrow> guard_mem_ok g)"

lemma guards_ok_set:
  assumes "guards_ok adapt" and "\<And>g'. g = Some g' \<Longrightarrow> guard_mem_ok g'"
  shows "guards_ok (set_vf_guard adapt idx_vf g)"
proof -
  have "(ga_array_vf adapt)[unat idx_vf := g] ! i =
      (if i = unat idx_vf then g else ga_array_vf adapt ! i)" if "i < AMDGV_MAX_VF_SLOT" for i
    using that assms(1) by (auto simp: guards_ok_def)
  with assms show ?thesis
    by (auto simp: guards_ok_def set_vf_guard_def split: option.splits)
qed

lemma guards_ok_set_simps [simp]:
  "guards_ok adapt \<Longrightarrow> guards_ok (set_vf_guard adapt idx_vf None)"
  "guards_ok adapt \<Longrightarrow> guard_mem_ok g \<Longrightarrow> guards_ok (set_vf_guard adapt idx_vf (Some g))"
  by (rule guards_ok_set; simp)+

lemma guards_ok_live [simp]: "guards_ok (adapt\<lparr>ga_live := l\<rparr>) = guards_ok adapt"
  by (simp add: guards_ok_def)

lemma guards_ok_get:
  assumes "guards_ok adapt" and "unat idx_vf < AMDGV_MAX_VF_SLOT"
  obtains "vf_guard adapt idx_vf = Inr None"
  | g where "vf_guard adapt idx_vf = Inr (Some g)" and "guard_mem_ok g"
  using assms by (cases "ga_array_vf adapt ! unat idx_vf")
    (fastforce simp: guards_ok_def vf_guard_def split: option.splits)+

lemma guards_ok_idx:
  "guards_ok adapt \<Longrightarrow> \<not> AMDGV_IS_IDX_INVALID (ga_num_vf adapt) idx_vf \<Longrightarrow>
     unat idx_vf < AMDGV_MAX_VF_SLOT"
  by (rule valid_idx_in_slots) (auto simp: guards_ok_def)

lemma event_mem_ok_state [simp]:
  "event_mem_ok k (e\<lparr>ev_state := s\<rparr>) = event_mem_ok k e"
  "event_mem_ok k (e\<lparr>ev_amount := a\<rparr>) = event_mem_ok k e"
  by (simp_all add: event_mem_ok_def)

lemma expire_event_mem_ok:
  assumes "event_mem_ok k e"
  shows "\<exists>t' e'. expire_event clk t e = Inr (t', e') \<and> event_mem_ok k e'"
  using assms
proof (induction clk t e rule: expire_event.induct)
  case (1 clk t e)
  from "1.prems" obtain rec where rec: "ev_record_array e = Some rec"
    and len: "length rec = unat (amdgv_guard_get_max_threshold k)"
    by (auto simp: event_mem_ok_def)
  have o: "unat (ev_origin_idx e) < length rec"
    using "1.prems" len by (simp add: event_mem_ok_def word_less_nat_alt)
  show ?case
  proof (cases "0 < ev_active e")
    case False
    then show ?thesis using "1.prems" by (simp add: expire_event.simps)
  next
    case act: True
    then have th: "ev_threshold e \<noteq> 0" using "1.prems" by (auto simp: event_mem_ok_def)
    show ?thesis
    proof (cases "clk t - rec ! unat (ev_origin_idx e) < ev_interval e")
      case True
      with act rec o "1.prems" show ?thesis by (simp add: expire_event.simps [of clk t e])
    next
      case False
      have "(ev_origin_idx e + 1) mod ev_threshold e < ev_threshold e"
        using th by (simp add: word_less_nat_alt unat_mod_distrib unat_gt_0)
      then have "event_mem_ok k (ring_pop e)"
        using "1.prems" th by (auto simp: event_mem_ok_def ring_pop_def)
      with "1.IH" [OF act refl False th] act rec o False th show ?thesis
        by (simp add: expire_event.simps [of clk t e] ring_pop_def)
    qed
  qed
qed

lemma expire_events_mem_ok:
  assumes "\<forall>j < length es. event_mem_ok (k + j) (es ! j)"
  shows "\<exists>t' es'. expire_events clk t es = Inr (t', es') \<and> length es' = length es \<and>
           (\<forall>j < length es. event_mem_ok (k + j) (es' ! j))"
  using assms
proof (induction es arbitrary: k t)
  case Nil
  then show ?case by simp
next
  case (Cons e es)
  obtain t1 e1 where e1: "expire_event clk t e = Inr (t1, e1)" "event_mem_ok k e1"
    using expire_event_mem_ok [of k e clk t] Cons.prems by fastforce
  have "\<forall>j < length es. event_mem_ok (Suc k + j) (es ! j)"
    using Cons.prems by fastforce
  from Cons.IH [OF this, of t1] obtain t2 es2 where
    es2: "expire_events clk t1 es = Inr (t2, es2)" "length es2 = length es"
      "\<forall>j < length es. event_mem_ok (Suc k + j) (es2 ! j)" by blast
  have "event_mem_ok (k + j) ((e1 # es2) ! j)" if "j < length (e # es)" for j
    using that e1 es2 by (cases j) auto
  with e1 es2 show ?case by simp
qed

lemma delete_expired_mem_ok:
  assumes "guard_mem_ok g"
  obtains t' g' where "amdgv_guard_delete_expired_event clk t g = Inr (t', g')"
    and "guard_mem_ok g'" and "gd_state g' = gd_state g"
proof -
  have "\<forall>j < length (gd_event g). event_mem_ok (0 + j) (gd_event g ! j)"
    using assms by (simp add: guard_mem_ok_def)
  from expire_events_mem_ok [OF this, of clk t] that assms show ?thesis
    by (auto simp: amdgv_guard_delete_expired_event_def guard_mem_ok_def)
qed

lemma guard_mem_ok_update [simp]:
  assumes "guard_mem_ok g" and "event_mem_ok k e"
  shows "guard_mem_ok (g\<lparr>gd_event := (gd_event g)[k := e]\<rparr>)"
proof -
  have "event_mem_ok j ((gd_event g)[k := e] ! j)" if "j < AMDGV_GUARD_EVENT_MAX" for j
    using assms that by (cases "j = k") (simp_all add: guard_mem_ok_def)
  then show ?thesis using assms(1) by (simp add: guard_mem_ok_def)
qed

lemma guard_mem_ok_frame [simp]:
  "guard_mem_ok (g\<lparr>gd_ov_event := x\<rparr>) = guard_mem_ok g"
  "guard_mem_ok (g\<lparr>gd_state := s\<rparr>) = guard_mem_ok g"
  by (simp_all add: guard_mem_ok_def)

lemma guard_mem_ok_read:
  "guard_mem_ok g \<Longrightarrow> k < AMDGV_GUARD_EVENT_MAX \<Longrightarrow>
     cread (gd_event g) k = Inr (gd_event g ! k) \<and> event_mem_ok k (gd_event g ! k)"
  by (simp add: guard_mem_ok_def)

lemma add_active_record_mem_ok:
  assumes "event_mem_ok k e"
  obtains ret t' e' where "add_active_record clk t e = Inr (ret, t', e')" and "event_mem_ok k e'"
proof (cases "ev_threshold e \<le> ev_active e")
  case True
  with assms that show ?thesis by (simp add: add_active_record_def)
next
  case False
  then have th: "ev_threshold e \<noteq> 0" by auto
  obtain rec where rec: "ev_record_array e = Some rec"
      "length rec = unat (amdgv_guard_get_max_threshold k)"
    using assms by (auto simp: event_mem_ok_def)
  have "(ev_origin_idx e + ev_active e) mod ev_threshold e < ev_threshold e"
    using th by (simp add: word_less_nat_alt unat_mod_distrib unat_gt_0)
  then have "unat ((ev_origin_idx e + ev_active e) mod ev_threshold e) < length rec"
    using assms rec by (simp add: event_mem_ok_def word_less_nat_alt word_le_nat_alt)
  with False rec assms th that show ?thesis
    by (simp add: add_active_record_def Let_def event_mem_ok_def)
qed

text \<open>The initialisation loop: a completed loop builds guards that are in order, a failed one
  stops at an event that has no lock, so that its cleanup destroys none.\<close>

lemma default_thresholds:
  assumes "i < AMDGV_GUARD_EVENT_MAX"
  shows "0 < ev_threshold (amdgv_guard_set_event_default_threshold e i)"
    and "ev_threshold (amdgv_guard_set_event_default_threshold e i) \<le>
           amdgv_guard_get_max_threshold i"
    and "0 < amdgv_guard_get_max_threshold i"
    and "amdgv_guard_get_max_threshold i < 2 ^ 31"
  using assms
  by (simp_all add: amdgv_guard_set_event_default_threshold_def amdgv_guard_get_max_threshold_def)

lemma default_frame [simp]:
  "ev_lock (amdgv_guard_set_event_default_threshold e i) = ev_lock e"
  "ev_lock (amdgv_guard_set_event_default_interval e i) = ev_lock e"
  "ev_lock (amdgv_guard_set_event_name e i) = ev_lock e"
  "ev_record_array (amdgv_guard_set_event_default_threshold e i) = ev_record_array e"
  "ev_record_array (amdgv_guard_set_event_default_interval e i) = ev_record_array e"
  "ev_record_array (amdgv_guard_set_event_name e i) = ev_record_array e"
  "ev_active (amdgv_guard_set_event_default_threshold e i) = ev_active e"
  "ev_active (amdgv_guard_set_event_default_interval e i) = ev_active e"
  "ev_active (amdgv_guard_set_event_name e i) = ev_active e"
  "ev_amount (amdgv_guard_set_event_default_threshold e i) = ev_amount e"
  "ev_amount (amdgv_guard_set_event_default_interval e i) = ev_amount e"
  "ev_amount (amdgv_guard_set_event_name e i) = ev_amount e"
  "ev_origin_idx (amdgv_guard_set_event_default_threshold e i) = ev_origin_idx e"
  "ev_origin_idx (amdgv_guard_set_event_default_interval e i) = ev_origin_idx e"
  "ev_origin_idx (amdgv_guard_set_event_name e i) = ev_origin_idx e"
  by (simp_all add: amdgv_guard_set_event_default_threshold_def
      amdgv_guard_set_event_default_interval_def amdgv_guard_set_event_name_def)

lemma guard_init_event_ok:
  assumes "guard_init_event env i = (ok, e, res)"
  shows "ok \<Longrightarrow> i < AMDGV_GUARD_EVENT_MAX \<Longrightarrow>
           event_mem_ok i e \<and> ring_ok e \<and> ev_active e = 0 \<and> ev_lock e \<and> ev_amount e = 0 \<and>
           res = [Res_Array i, Res_Lock i]"
    and "\<not> ok \<Longrightarrow> \<not> ev_lock e"
proof -
  show "\<not> ok \<Longrightarrow> \<not> ev_lock e"
    using assms by (auto simp: guard_init_event_def Let_def zero_event_def split: if_splits)
  assume ok: "ok" and i: "i < AMDGV_GUARD_EVENT_MAX"
  note d = default_thresholds [OF i]
  have e: "e = (amdgv_guard_set_event_default_threshold
            (amdgv_guard_set_event_default_interval (amdgv_guard_set_event_name zero_event i) i) i)
        \<lparr>ev_record_array := Some (replicate (unat (amdgv_guard_get_max_threshold i)) 0),
         ev_lock := True, ev_state := AMDGV_GUARD_EVENT_NORMAL\<rparr>"
    and r: "res = [Res_Array i, Res_Lock i]"
    using assms ok by (auto simp: guard_init_event_def Let_def split: if_splits)
  show "event_mem_ok i e \<and> ring_ok e \<and> ev_active e = 0 \<and> ev_lock e \<and>
      ev_amount e = 0 \<and> res = [Res_Array i, Res_Lock i]"
    using d r by (simp add: e event_mem_ok_def ring_ok_def zero_event_def word_le_nat_alt
        word_less_nat_alt)
qed

lemma guard_init_loop_ok:
  assumes "guard_init_loop env i n live = Inr (events, live')" and "i + n \<le> AMDGV_GUARD_EVENT_MAX"
  shows "length events = n \<and>
    live' = live @ concat (map (\<lambda>i. [Res_Array i, Res_Lock i]) [i..<i + n]) \<and>
    (\<forall>j < n. event_mem_ok (i + j) (events ! j) \<and> ring_ok (events ! j) \<and>
       ev_active (events ! j) = 0 \<and> ev_amount (events ! j) = 0)"
  using assms
proof (induction env i n live arbitrary: events rule: guard_init_loop.induct)
  case (1 env i live)
  then show ?case by simp
next
  case (2 env i n live)
  obtain ok e res where e: "guard_init_event env i = (ok, e, res)"
    by (cases "guard_init_event env i") auto
  have ok: "ok" using "2.prems"(1) e by (auto split: if_splits)
  note ev = guard_init_event_ok(1) [OF e ok]
  obtain es where es: "guard_init_loop env (Suc i) n (live @ res) = Inr (es, live')"
      "events = e # es"
    using "2.prems"(1) e ok by (auto split: sum.splits)
  have IH: "length es = n \<and>
      live' = live @ res @ concat (map (\<lambda>i. [Res_Array i, Res_Lock i]) [Suc i..<Suc i + n]) \<and>
      (\<forall>j < n. event_mem_ok (Suc i + j) (es ! j) \<and> ring_ok (es ! j) \<and>
         ev_active (es ! j) = 0 \<and> ev_amount (es ! j) = 0)"
    using "2.IH" [OF e [symmetric] refl _ es(1)] ok "2.prems"(2) by simp
  have "event_mem_ok (i + j) ((e # es) ! j) \<and> ring_ok ((e # es) ! j) \<and>
       ev_active ((e # es) ! j) = 0 \<and> ev_amount ((e # es) ! j) = 0" if "j < Suc n" for j
    using that IH ev "2.prems"(2) by (cases j) auto
  moreover have "[i..<i + Suc n] = i # [Suc i..<Suc i + n]" by (simp add: upt_conv_Cons del: upt_Suc)
  ultimately show ?case using IH ev "2.prems"(2) es(2) by (simp del: upt_Suc)
qed

lemma guard_init_loop_failed:
  assumes "guard_init_loop env i n live = Inl (j, e, live')"
  shows "\<not> ev_lock e"
  using assms
proof (induction env i n live rule: guard_init_loop.induct)
  case (1 env i live)
  then show ?case by simp
next
  case (2 env i n live)
  obtain ok e' res where e': "guard_init_event env i = (ok, e', res)"
    by (cases "guard_init_event env i") auto
  show ?case
  proof (cases ok)
    case True
    with "2.prems" e' have "guard_init_loop env (Suc i) n (live @ res) = Inl (j, e, live')"
      by (auto split: sum.splits)
    with "2.IH" [OF e' [symmetric] refl] True show ?thesis by simp
  next
    case False
    with "2.prems" e' guard_init_event_ok(2) [OF e' False] show ?thesis by simp
  qed
qed

lemma guard_failed_loop_no_fault:
  "\<not> ev_lock e \<Longrightarrow> \<exists>live'. guard_failed_loop idx n e live = Inr live'"
  by (induction n arbitrary: e live) (simp_all add: Let_def)

text \<open>The calls the driver makes on the guard, with the clock position and the adapter as the
  state.\<close>

datatype guard_op =
    Guard_Init guard_env u32 | Guard_Remove u32 | Guard_Reset u32
  | Guard_Is_Full u32 nat | Guard_Dec u32 nat | Guard_Add u32 nat
  | Guard_Set u32 amdgv_guard_info | Guard_Get u32 amdgv_guard_info

fun guard_exec :: "clock \<Rightarrow> nat \<times> guard_adapter \<Rightarrow> guard_op \<Rightarrow> (nat \<times> guard_adapter) cres" where
  "guard_exec clk (t, adapt) (Guard_Init env idx_vf) =
     cbind (amdgv_guard_vf_init env adapt idx_vf) (\<lambda>(ret, adapt'). Inr (t, adapt'))"
| "guard_exec clk (t, adapt) (Guard_Remove idx_vf) =
     cbind (amdgv_guard_vf_remove adapt idx_vf) (\<lambda>(ret, adapt'). Inr (t, adapt'))"
| "guard_exec clk (t, adapt) (Guard_Reset idx_vf) =
     cbind (amdgv_guard_vf_reset adapt idx_vf) (\<lambda>(ret, adapt'). Inr (t, adapt'))"
| "guard_exec clk (t, adapt) (Guard_Is_Full idx_vf k) =
     cbind (amdgv_guard_is_event_full adapt idx_vf k) (\<lambda>_. Inr (t, adapt))"
| "guard_exec clk (t, adapt) (Guard_Dec idx_vf k) =
     cbind (amdgv_guard_dec_active_event adapt idx_vf k) (\<lambda>(ret, adapt'). Inr (t, adapt'))"
| "guard_exec clk (t, adapt) (Guard_Add idx_vf k) =
     cbind (amdgv_guard_add_active_event clk t adapt idx_vf k) (\<lambda>(ret, t', adapt'). Inr (t', adapt'))"
| "guard_exec clk (t, adapt) (Guard_Set idx_vf info) =
     cbind (amdgv_guard_set_vf_info adapt idx_vf info) (\<lambda>(ret, adapt'). Inr (t, adapt'))"
| "guard_exec clk (t, adapt) (Guard_Get idx_vf info) =
     cbind (amdgv_guard_get_vf_info clk t adapt idx_vf info)
       (\<lambda>(ret, t', adapt', info'). Inr (t', adapt'))"

text \<open>The calls that are safe: an index in the table, an event type of the enumeration, a guard
  that exists where the code does not test for NULL, and no threshold of 0.\<close>

definition has_guard :: "guard_adapter \<Rightarrow> u32 \<Rightarrow> bool" where
  "has_guard adapt idx_vf \<longleftrightarrow> (\<exists>g. vf_guard adapt idx_vf = Inr (Some g))"

fun guard_op_ok :: "guard_adapter \<Rightarrow> guard_op \<Rightarrow> bool" where
  "guard_op_ok adapt (Guard_Init env idx_vf) = (unat idx_vf < AMDGV_MAX_VF_SLOT)"
| "guard_op_ok adapt (Guard_Remove idx_vf) = has_guard adapt idx_vf"
| "guard_op_ok adapt (Guard_Reset idx_vf) = (unat idx_vf < AMDGV_MAX_VF_SLOT)"
| "guard_op_ok adapt (Guard_Is_Full idx_vf k) = (k < AMDGV_GUARD_EVENT_MAX)"
| "guard_op_ok adapt (Guard_Dec idx_vf k) = (k < AMDGV_GUARD_EVENT_MAX)"
| "guard_op_ok adapt (Guard_Add idx_vf k) = (k < AMDGV_GUARD_EVENT_MAX)"
| "guard_op_ok adapt (Guard_Set idx_vf info) = (has_guard adapt idx_vf \<and> gi_threshold info \<noteq> 0)"
| "guard_op_ok adapt (Guard_Get idx_vf info) = has_guard adapt idx_vf"

lemma guards_ok_has:
  assumes "guards_ok adapt" and "has_guard adapt idx_vf"
  obtains g where "vf_guard adapt idx_vf = Inr (Some g)" and "guard_mem_ok g"
  using assms by (fastforce simp: guards_ok_def has_guard_def vf_guard_def cread_eq_Inr_iff
      split: option.splits)

lemma vf_init_safe:
  assumes "guards_ok adapt" and "unat idx_vf < AMDGV_MAX_VF_SLOT"
  shows "\<exists>ret adapt'. amdgv_guard_vf_init env adapt idx_vf = Inr (ret, adapt') \<and> guards_ok adapt'"
proof -
  have idx: "vf_guard adapt idx_vf = Inr (ga_array_vf adapt ! unat idx_vf)"
    using assms by (simp add: guards_ok_def vf_guard_def)
  show ?thesis
  proof (cases "guard_init_loop env 0 AMDGV_GUARD_EVENT_MAX [Res_Guard]")
    case (Inl failed)
    obtain i e live where f: "failed = (i, e, live)" by (cases failed) auto
    obtain live' where "guard_failed_loop i i e live = Inr live'"
      using guard_failed_loop_no_fault guard_init_loop_failed Inl f by metis
    with Inl f idx assms(1) show ?thesis
      by (simp add: amdgv_guard_vf_init_def)
  next
    case (Inr res)
    obtain es live where d: "res = (es, live)" by (cases res) auto
    have "guard_mem_ok \<lparr>gd_state = st, gd_ov_event = 0, gd_event = es\<rparr>" for st
      using guard_init_loop_ok [OF Inr [unfolded d]] by (simp add: guard_mem_ok_def)
    with Inr d idx assms(1) show ?thesis
      by (simp add: amdgv_guard_vf_init_def Let_def)
  qed
qed

lemma reset_loop_safe:
  assumes "\<forall>j < length es. event_mem_ok (k + j) (es ! j)" and "k + length es \<le> AMDGV_GUARD_EVENT_MAX"
  shows "\<exists>es'. guard_reset_loop es = Inr (True, es') \<and> length es' = length es \<and>
           (\<forall>j < length es. event_mem_ok (k + j) (es' ! j) \<and> ring_window (es' ! j) = [] \<and>
              ev_amount (es' ! j) = 0 \<and> ev_state (es' ! j) = AMDGV_GUARD_EVENT_NORMAL)"
  using assms
proof (induction es arbitrary: k)
  case Nil
  then show ?case by simp
next
  case (Cons e es)
  obtain rec where rec: "ev_record_array e = Some rec"
      "length rec = unat (amdgv_guard_get_max_threshold k)"
      "ev_threshold e \<le> amdgv_guard_get_max_threshold k"
    using Cons.prems(1) by (force simp: event_mem_ok_def)
  then have le: "unat (ev_threshold e) \<le> length rec" by (simp add: word_le_nat_alt)
  obtain e1 where e1: "guard_reset_event e = Inr (True, e1)" "event_mem_ok k e1"
      "ring_window e1 = []" "ev_amount e1 = 0" "ev_state e1 = AMDGV_GUARD_EVENT_NORMAL"
    using rec le default_thresholds(3) [of k] Cons.prems(2)
    by (simp add: guard_reset_event_def Let_def event_mem_ok_def ring_window_def)
  have "\<forall>j < length es. event_mem_ok (Suc k + j) (es ! j)"
    using Cons.prems by fastforce
  from Cons.IH [OF this] Cons.prems(2) obtain es2 where
    es2: "guard_reset_loop es = Inr (True, es2)" "length es2 = length es"
      "\<forall>j < length es. event_mem_ok (Suc k + j) (es2 ! j) \<and> ring_window (es2 ! j) = [] \<and>
              ev_amount (es2 ! j) = 0 \<and> ev_state (es2 ! j) = AMDGV_GUARD_EVENT_NORMAL" by auto
  have "event_mem_ok (k + j) ((e1 # es2) ! j) \<and> ring_window ((e1 # es2) ! j) = [] \<and>
      ev_amount ((e1 # es2) ! j) = 0 \<and> ev_state ((e1 # es2) ! j) = AMDGV_GUARD_EVENT_NORMAL"
    if "j < length (e # es)" for j
    using that e1 es2 by (cases j) auto
  with e1 es2 show ?case by simp
qed

lemma vf_reset_safe:
  assumes "guards_ok adapt" and "unat idx_vf < AMDGV_MAX_VF_SLOT"
  shows "\<exists>ret adapt'. amdgv_guard_vf_reset adapt idx_vf = Inr (ret, adapt') \<and> guards_ok adapt'"
  using assms
proof (cases rule: guards_ok_get)
  case 1
  with assms show ?thesis by (simp add: amdgv_guard_vf_reset_def)
next
  case (2 g)
  have "\<forall>j < length (gd_event g). event_mem_ok (0 + j) (gd_event g ! j)"
    using 2 by (simp add: guard_mem_ok_def)
  from reset_loop_safe [OF this] 2 obtain es where
    es: "guard_reset_loop (gd_event g) = Inr (True, es)" "length es = length (gd_event g)"
    "\<forall>j < length es. event_mem_ok j (es ! j)" by (auto simp: guard_mem_ok_def)
  then have "guard_mem_ok (g\<lparr>gd_event := es\<rparr>)" using 2 by (simp add: guard_mem_ok_def)
  with 2 es(1) assms(1) show ?thesis
    by (simp add: amdgv_guard_vf_reset_def)
qed

lemma is_full_safe:
  assumes "guards_ok adapt" and "k < AMDGV_GUARD_EVENT_MAX"
  shows "\<exists>st. amdgv_guard_is_event_full adapt idx_vf k = Inr st"
proof (cases "AMDGV_IS_IDX_INVALID (ga_num_vf adapt) idx_vf")
  case True
  then show ?thesis by (simp add: amdgv_guard_is_event_full_def)
next
  case False
  with assms guards_ok_idx have "unat idx_vf < AMDGV_MAX_VF_SLOT" by blast
  with assms(1) show ?thesis
    by (cases rule: guards_ok_get)
      (use False guard_mem_ok_read assms in \<open>auto simp: amdgv_guard_is_event_full_def\<close>)
qed

lemma dec_safe:
  assumes "guards_ok adapt" and "k < AMDGV_GUARD_EVENT_MAX"
  shows "\<exists>ret adapt'. amdgv_guard_dec_active_event adapt idx_vf k = Inr (ret, adapt') \<and>
           guards_ok adapt'"
proof (cases "AMDGV_IS_IDX_INVALID (ga_num_vf adapt) idx_vf")
  case True
  then show ?thesis using assms by (simp add: amdgv_guard_dec_active_event_def)
next
  case False
  with assms guards_ok_idx have "unat idx_vf < AMDGV_MAX_VF_SLOT" by blast
  with assms(1) show ?thesis
  proof (cases rule: guards_ok_get)
    case 1
    with False assms show ?thesis by (simp add: amdgv_guard_dec_active_event_def)
  next
    case (2 g)
    note rd = guard_mem_ok_read [OF 2(2) assms(2)]
    let ?e = "gd_event g ! k"
    have "ev_active ?e \<noteq> 0 \<Longrightarrow> event_mem_ok k (?e\<lparr>ev_active := ev_active ?e - 1\<rparr>)"
      using rd by (auto simp: event_mem_ok_def)
    with 2 rd False assms show ?thesis
      by (simp add: amdgv_guard_dec_active_event_def Let_def)
  qed
qed

lemma add_safe:
  assumes "guards_ok adapt" and "k < AMDGV_GUARD_EVENT_MAX"
  shows "\<exists>ret t' adapt'. amdgv_guard_add_active_event clk t adapt idx_vf k =
           Inr (ret, t', adapt') \<and> guards_ok adapt'"
proof (cases "AMDGV_IS_IDX_INVALID (ga_num_vf adapt) idx_vf")
  case True
  then show ?thesis using assms by (simp add: amdgv_guard_add_active_event_def)
next
  case False
  with assms guards_ok_idx have "unat idx_vf < AMDGV_MAX_VF_SLOT" by blast
  with assms(1) show ?thesis
  proof (cases rule: guards_ok_get)
    case 1
    with False assms show ?thesis by (simp add: amdgv_guard_add_active_event_def)
  next
    case (2 g)
    obtain t1 g1 where g1: "amdgv_guard_delete_expired_event clk t g = Inr (t1, g1)" "guard_mem_ok g1"
      using delete_expired_mem_ok [OF 2(2), of clk t] by metis
    note rd = guard_mem_ok_read [OF g1(2) assms(2)]
    obtain ret t2 e2 where e2: "add_active_record clk t1 (gd_event g1 ! k) = Inr (ret, t2, e2)"
        "event_mem_ok k e2"
      using add_active_record_mem_ok [OF conjunct2 [OF rd], of clk t1] by metis
    from guard_mem_ok_update [OF g1(2) e2(2)] 2 g1 rd e2 False assms
    show ?thesis
      by (cases "gd_state g = AMDGV_GUARD_DISABLED")
        (simp_all add: amdgv_guard_add_active_event_def Let_def)
  qed
qed

lemma set_info_safe:
  assumes "guards_ok adapt" and "has_guard adapt idx_vf" and "gi_threshold info \<noteq> 0"
  shows "\<exists>ret adapt'. amdgv_guard_set_vf_info adapt idx_vf info = Inr (ret, adapt') \<and>
           guards_ok adapt'"
proof -
  obtain g where g: "vf_guard adapt idx_vf = Inr (Some g)" "guard_mem_ok g"
    using guards_ok_has [OF assms(1,2)] .
  show ?thesis
  proof (cases "gi_type info < of_nat AMDGV_GUARD_EVENT_MAX")
    case True
    then have "unat (gi_type info) < AMDGV_GUARD_EVENT_MAX" by (simp add: word_less_nat_alt)
    note rd = guard_mem_ok_read [OF g(2) this]
    have "event_mem_ok (unat (gi_type info)) ((gd_event g ! unat (gi_type info))
       \<lparr>ev_state := s, ev_interval := iv, ev_threshold := gi_threshold info\<rparr>)"
      if "gi_threshold info \<le> amdgv_guard_get_max_threshold (unat (gi_type info))" for s iv
      using rd that assms(3) by (simp add: event_mem_ok_def)
    from guard_mem_ok_update [OF g(2) this] g rd assms True
    show ?thesis
      by (auto simp: amdgv_guard_set_vf_info_def not_less)
  next
    case False
    with g assms show ?thesis
      by (auto simp: amdgv_guard_set_vf_info_def)
  qed
qed

lemma get_info_safe:
  assumes "guards_ok adapt" and "has_guard adapt idx_vf"
  shows "\<exists>ret t' adapt' info'. amdgv_guard_get_vf_info clk t adapt idx_vf info =
           Inr (ret, t', adapt', info') \<and> guards_ok adapt'"
proof -
  obtain g where g: "vf_guard adapt idx_vf = Inr (Some g)" "guard_mem_ok g"
    using guards_ok_has [OF assms(1,2)] .
  obtain t1 g1 where g1: "amdgv_guard_delete_expired_event clk t g = Inr (t1, g1)" "guard_mem_ok g1"
    using delete_expired_mem_ok [OF g(2), of clk t] by metis
  have "\<exists>e. cread (gd_event g1) (unat (gi_type info)) = Inr e"
    if "gi_type info < of_nat AMDGV_GUARD_EVENT_MAX"
    using guard_mem_ok_read [OF g1(2), of "unat (gi_type info)"] that
    by (simp add: word_less_nat_alt)
  with g g1 assms(1) show ?thesis
    by (auto simp: amdgv_guard_get_vf_info_def Let_def)
qed

lemma remove_safe:
  assumes "guards_ok adapt" and "has_guard adapt idx_vf"
  shows "\<exists>ret adapt'. amdgv_guard_vf_remove adapt idx_vf = Inr (ret, adapt') \<and> guards_ok adapt'"
proof -
  obtain g where "vf_guard adapt idx_vf = Inr (Some g)"
    using guards_ok_has [OF assms] .
  with assms(1) show ?thesis by (simp add: amdgv_guard_vf_remove_def)
qed

lemmas guard_safe = vf_init_safe vf_reset_safe is_full_safe dec_safe add_safe set_info_safe
  get_info_safe remove_safe

lemma guard_exec_safe:
  assumes "guards_ok adapt" and "guard_op_ok adapt op"
  shows "\<exists>t' adapt'. guard_exec clk (t, adapt) op = Inr (t', adapt') \<and> guards_ok adapt'"
proof (cases op)
  case (Guard_Init env idx_vf)
  with vf_init_safe [OF assms(1), of idx_vf env] assms(2) show ?thesis by auto
next
  case (Guard_Remove idx_vf)
  with remove_safe [OF assms(1), of idx_vf] assms(2) show ?thesis by auto
next
  case (Guard_Reset idx_vf)
  with vf_reset_safe [OF assms(1), of idx_vf] assms(2) show ?thesis by auto
next
  case (Guard_Is_Full idx_vf k)
  with is_full_safe [OF assms(1), of k idx_vf] assms show ?thesis by auto
next
  case (Guard_Dec idx_vf k)
  with dec_safe [OF assms(1), of k idx_vf] assms(2) show ?thesis by auto
next
  case (Guard_Add idx_vf k)
  with add_safe [OF assms(1), of k clk t idx_vf] assms(2) show ?thesis by auto
next
  case (Guard_Set idx_vf info)
  with set_info_safe [OF assms(1), of idx_vf info] assms(2) show ?thesis by auto
next
  case (Guard_Get idx_vf info)
  with get_info_safe [OF assms(1), of idx_vf clk t info] assms(2) show ?thesis by auto
qed

text \<open>The states of an adapter whose guards were all created by the driver.\<close>

inductive guard_reach :: "clock \<Rightarrow> nat \<times> guard_adapter \<Rightarrow> bool" for clk :: clock where
  start: "ga_num_vf adapt \<le> 31 \<Longrightarrow> ga_array_vf adapt = replicate AMDGV_MAX_VF_SLOT None \<Longrightarrow>
            guard_reach clk (t, adapt)"
| step: "guard_reach clk (t, adapt) \<Longrightarrow> guard_op_ok adapt op \<Longrightarrow>
           guard_exec clk (t, adapt) op = Inr s \<Longrightarrow> guard_reach clk s"

lemma guard_reach_ok: "guard_reach clk s \<Longrightarrow> guards_ok (snd s)"
proof (induction rule: guard_reach.induct)
  case (start adapt t)
  then show ?case by (simp add: guards_ok_def)
next
  case (step t adapt op s)
  with guard_exec_safe [of adapt op clk t] show ?case by auto
qed

section \<open>Creation, its failures and removal\<close>

lemma guard_resources_Suc:
  "guard_resources (Suc n) = guard_resources n @ [Res_Array n, Res_Lock n]"
  by (simp add: guard_resources_def)

lemma guard_resources_split:
  "Res_Guard # concat (map (\<lambda>i. [Res_Array i, Res_Lock i]) [0..<n]) = guard_resources n"
  by (simp add: guard_resources_def)

text \<open>The first event whose ring or lock cannot be made.\<close>

definition init_stops_at :: "guard_env \<Rightarrow> nat \<Rightarrow> bool" where
  "init_stops_at env j \<longleftrightarrow> (\<forall>i < j. array_alloc_ok env i \<and> lock_init_ok env i) \<and>
     \<not> (array_alloc_ok env j \<and> lock_init_ok env j)"

lemma guard_init_event_cases:
  "guard_init_event env i = (ok, e, res) \<Longrightarrow>
     ok = (array_alloc_ok env i \<and> lock_init_ok env i) \<and>
     res = (if ok then [Res_Array i, Res_Lock i] else if array_alloc_ok env i then [Res_Array i]
            else []) \<and>
     (ev_record_array e \<noteq> None) = array_alloc_ok env i"
  by (auto simp: guard_init_event_def Let_def zero_event_def split: if_splits)

lemma guard_init_loop_stop:
  assumes "init_stops_at env j" and "i \<le> j" and "j < i + n"
  shows "\<exists>e. guard_init_loop env i n live = Inl (j, e, live @
           concat (map (\<lambda>i. [Res_Array i, Res_Lock i]) [i..<j]) @
           (if array_alloc_ok env j then [Res_Array j] else [])) \<and>
         (ev_record_array e \<noteq> None) = array_alloc_ok env j"
  using assms(2,3)
proof (induction n arbitrary: i live)
  case 0
  then show ?case by simp
next
  case (Suc n)
  obtain ok e res where e: "guard_init_event env i = (ok, e, res)"
    by (cases "guard_init_event env i") auto
  note c = guard_init_event_cases [OF e]
  show ?case
  proof (cases "i = j")
    case True
    then have "\<not> ok" using c assms(1) by (simp add: init_stops_at_def)
    with c e True show ?thesis by simp
  next
    case False
    then have ij: "Suc i \<le> j" using Suc.prems by simp
    then have ok: "ok" using c assms(1) by (simp add: init_stops_at_def)
    have "[i..<j] = i # [Suc i..<j]" using ij by (simp add: upt_conv_Cons)
    with Suc.IH [OF ij, of "live @ res"] Suc.prems e c ok show ?thesis by (auto simp del: upt_Suc)
  qed
qed

lemma failed_loop_res:
  assumes "\<not> ev_lock e"
  shows "guard_failed_loop idx n e live =
    Inr (if n \<noteq> 0 \<and> ev_record_array e \<noteq> None then remove1 (Res_Array idx) live else live)"
proof -
  have none: "guard_failed_loop idx n e live = Inr live"
    if "\<not> ev_lock e" "ev_record_array e = None" for e n live
    using that by (induction n arbitrary: e live) (simp_all add: Let_def)
  show ?thesis
    using assms none [of "e\<lparr>ev_record_array := None\<rparr>"] by (cases n) (simp_all add: Let_def)
qed

lemma guard_init_loop_total:
  assumes "\<forall>j. i \<le> j \<and> j < i + n \<longrightarrow> array_alloc_ok env j \<and> lock_init_ok env j"
  shows "\<exists>es live'. guard_init_loop env i n live = Inr (es, live')"
  using assms
proof (induction n arbitrary: i live)
  case 0
  then show ?case by simp
next
  case (Suc n)
  obtain ok e res where e: "guard_init_event env i = (ok, e, res)"
    by (cases "guard_init_event env i") auto
  have "array_alloc_ok env i \<and> lock_init_ok env i" using Suc.prems by simp
  then have ok: "ok" using guard_init_event_cases [OF e] by simp
  have "\<forall>j. Suc i \<le> j \<and> j < Suc i + n \<longrightarrow> array_alloc_ok env j \<and> lock_init_ok env j"
    using Suc.prems by simp
  from Suc.IH [OF this, of "live @ res"] obtain es live' where
    "guard_init_loop env (Suc i) n (live @ res) = Inr (es, live')" by blast
  with e ok show ?case by simp
qed

lemma vf_init_success:
  assumes "unat idx_vf < length (ga_array_vf adapt)" and "guard_alloc_ok env"
    and "\<forall>j < AMDGV_GUARD_EVENT_MAX. array_alloc_ok env j \<and> lock_init_ok env j"
  shows "\<exists>g. amdgv_guard_vf_init env adapt idx_vf =
           Inr (0, (set_vf_guard adapt idx_vf (Some g))\<lparr>ga_live := ga_live adapt @
              map (Pair (unat idx_vf)) (guard_resources AMDGV_GUARD_EVENT_MAX)\<rparr>) \<and>
         guard_mem_ok g \<and> gd_ov_event g = 0 \<and>
         gd_state g = (if ga_sensitive adapt then AMDGV_GUARD_ENABLED else AMDGV_GUARD_DISABLED) \<and>
         (\<forall>k < AMDGV_GUARD_EVENT_MAX. ring_ok (gd_event g ! k) \<and> ring_window (gd_event g ! k) = [] \<and>
            ev_amount (gd_event g ! k) = 0)"
proof -
  obtain es live where loop: "guard_init_loop env 0 AMDGV_GUARD_EVENT_MAX [Res_Guard] = Inr (es, live)"
    using guard_init_loop_total [of 0 AMDGV_GUARD_EVENT_MAX env "[Res_Guard]"] assms(3) by auto
  from guard_init_loop_ok [OF this]
  have es: "length es = AMDGV_GUARD_EVENT_MAX" "live = guard_resources AMDGV_GUARD_EVENT_MAX"
      "\<forall>j < AMDGV_GUARD_EVENT_MAX. event_mem_ok j (es ! j) \<and> ring_ok (es ! j) \<and>
         ev_active (es ! j) = 0 \<and> ev_amount (es ! j) = 0"
    by (simp_all add: guard_resources_split)
  have "ring_window (es ! j) = []" if "j < AMDGV_GUARD_EVENT_MAX" for j
    using length_ring_window [of "es ! j"] es(3) that by simp
  with es assms(1,2) loop show ?thesis
    by (auto simp: amdgv_guard_vf_init_def vf_guard_def Let_def guard_mem_ok_def)
qed

lemma remove_live:
  assumes "\<forall>r. (i, r) \<notin> set live"
  shows "fold (\<lambda>r live. remove1 (i, r) live)
           (concat (map (\<lambda>i. [Res_Array i, Res_Lock i]) [0..<n]) @ [Res_Guard])
           (live @ map (Pair i) (guard_resources n)) = live"
proof -
  have step: "fold (\<lambda>r live. remove1 (i, r) live) rs (pre @ map (Pair i) rs @ post) = pre @ post"
    if "\<forall>r \<in> set rs. (i, r) \<notin> set pre" for rs pre post
    using that by (induction rs) (auto simp: remove1_append)
  let ?rs = "concat (map (\<lambda>i. [Res_Array i, Res_Lock i]) [0..<n])"
  have "fold (\<lambda>r live. remove1 (i, r) live) ?rs ((live @ [(i, Res_Guard)]) @ map (Pair i) ?rs @ [])
      = live @ [(i, Res_Guard)]"
    by (subst step) (use assms in auto)
  with assms show ?thesis
    by (simp add: guard_resources_def remove1_append)
qed

section \<open>Properties\<close>

lemma guard_attempts_frame:
  "run_attempts guard_attempt clk t s ops = Inr (acc, t', s') \<Longrightarrow> snd s' = snd s"
proof (induction ops arbitrary: t s acc)
  case Nil
  then show ?case by simp
next
  case (Cons op ops)
  from Cons.prems obtain a t1 s1 acc1 where
    step: "guard_attempt op clk t s = Inr (a, t1, s1)"
    and rest: "run_attempts guard_attempt clk t1 s1 ops = Inr (acc1, t', s')"
    by (auto simp: cbind_eq_Inr_iff split: prod.splits)
  have "snd s1 = snd s"
    using step by (auto simp: guard_attempt_def cbind_eq_Inr_iff split: prod.splits)
  with Cons.IH [OF rest] show ?case by simp
qed

text \<open>C26. Rate limit: whatever events a VF raises, any \<open>threshold + 1\<close> consecutive accepted
  events of one type are spread over at least the configured interval, and no call faults. The
  clock may be read any number of times but does not run backwards; the window starts empty, as
  initialisation and reset leave it.\<close>

theorem guard_rate_limit:
  assumes "mono_clock clk" and "guarded adapt idx_vf" and "event_id < AMDGV_GUARD_EVENT_MAX"
    and "ring_window (vf_event adapt idx_vf event_id) = []"
    and "\<forall>k \<in> set raised. k < AMDGV_GUARD_EVENT_MAX"
  shows "\<exists>acc t' adapt'. run_attempts guard_attempt clk t (adapt, idx_vf, event_id) raised =
             Inr (acc, t', adapt', idx_vf, event_id) \<and> guarded adapt' idx_vf \<and>
           (\<forall>i. i + unat (ev_threshold (vf_event adapt idx_vf event_id)) < length acc \<longrightarrow>
              unat (acc ! i) + unat (ev_interval (vf_event adapt idx_vf event_id)) \<le>
              unat (acc ! (i + unat (ev_threshold (vf_event adapt idx_vf event_id)))))"
proof -
  let ?s = "(adapt, idx_vf, event_id)"
  obtain acc t' s' where run: "run_attempts guard_attempt clk t ?s raised = Inr (acc, t', s')"
    and inv: "case s' of (adapt, idx_vf, wid) \<Rightarrow> guarded adapt idx_vf \<and> wid < AMDGV_GUARD_EVENT_MAX"
    using gw.attempts_return [of ?s raised clk t] assms by auto
  have "snd s' = snd ?s"
    using guard_attempts_frame [OF run] by simp
  with inv run gw.rate_limit [OF assms(1) _ _ _ run] assms(2-) show ?thesis
    by (cases s') (auto simp: guard_watch_def)
qed

text \<open>A guard as the driver creates it when no allocation fails, for the witnesses.\<close>

definition guard_env_ok :: guard_env where
  "guard_env_ok = \<lparr>guard_alloc_ok = True, array_alloc_ok = (\<lambda>_. True), lock_init_ok = (\<lambda>_. True)\<rparr>"

definition guard_fresh :: guard_adapter where
  "guard_fresh = \<lparr>ga_num_vf = 4, ga_sensitive = True, ga_array_vf = replicate 32 None, ga_live = []\<rparr>"

definition guard_sample :: guard_adapter where
  "guard_sample = (case amdgv_guard_vf_init guard_env_ok guard_fresh 1 of
     Inl e \<Rightarrow> guard_fresh | Inr (ret, adapt) \<Rightarrow> adapt)"

definition sample_clock :: clock where
  "sample_clock t = of_nat (min t 1000)"

lemma sample_clock_mono: "mono_clock sample_clock"
proof -
  have "sample_clock i \<le> sample_clock j" if "i \<le> j" for i j
    using that by (simp add: sample_clock_def word_le_nat_alt unat_of_nat min_def)
  then show ?thesis by (simp add: mono_clock_def)
qed

lemma guard_sample_facts:
  shows guard_sample_guarded: "guarded guard_sample 1"
    and guard_sample_empty: "k < AMDGV_GUARD_EVENT_MAX \<Longrightarrow> ring_window (vf_event guard_sample 1 k) = []"
    and guard_sample_has: "has_guard guard_sample 1"
proof -
  obtain g where g: "amdgv_guard_vf_init guard_env_ok guard_fresh 1 =
           Inr (0, (set_vf_guard guard_fresh 1 (Some g))\<lparr>ga_live := ga_live guard_fresh @
              map (Pair (unat (1::u32))) (guard_resources AMDGV_GUARD_EVENT_MAX)\<rparr>)"
      "guard_mem_ok g" "gd_state g = AMDGV_GUARD_ENABLED"
      "\<forall>k < AMDGV_GUARD_EVENT_MAX. ring_ok (gd_event g ! k) \<and> ring_window (gd_event g ! k) = []"
    using vf_init_success [of 1 guard_fresh guard_env_ok]
    by (auto simp: guard_fresh_def guard_env_ok_def)
  then show "guarded guard_sample 1"
    by (auto simp: guard_sample_def guarded_def guard_fresh_def set_vf_guard_def guard_mem_ok_def
        AMDGV_IS_IDX_INVALID_def in_set_conv_nth word_le_nat_alt)
  show "k < AMDGV_GUARD_EVENT_MAX \<Longrightarrow> ring_window (vf_event guard_sample 1 k) = []"
    using g by (simp add: guard_sample_def vf_event_def guard_fresh_def set_vf_guard_def)
  show "has_guard guard_sample 1"
    using g by (simp add: guard_sample_def has_guard_def vf_guard_def guard_fresh_def set_vf_guard_def)
qed

theorem guard_rate_limit_witness:
  "\<exists>acc t' adapt'. run_attempts guard_attempt sample_clock 0 (guard_sample, 1, 0) [0, 3, 0, 0, 0] =
       Inr (acc, t', adapt', 1, 0) \<and> guarded adapt' 1 \<and>
     (\<forall>i. i + unat (ev_threshold (vf_event guard_sample 1 0)) < length acc \<longrightarrow>
        unat (acc ! i) + unat (ev_interval (vf_event guard_sample 1 0)) \<le>
        unat (acc ! (i + unat (ev_threshold (vf_event guard_sample 1 0)))))"
  by (rule guard_rate_limit [OF sample_clock_mono guard_sample_guarded])
    (simp_all add: guard_sample_empty)

text \<open>C37. One call of \<^verbatim>\<open>amdgv_guard_add_active_event\<close> on a guarded VF: the expired records of
  every event are dropped from the front of its queue; then the event that was raised takes the
  time stamp at the back of its queue if it holds fewer than \<open>threshold\<close> records, and is refused
  with \<^verbatim>\<open>AMDGV_EVENT_OVERFLOW\<close>, its queue unchanged, otherwise.\<close>

theorem guard_add_event_refines_queue:
  assumes "guarded adapt idx_vf" and "event_id < AMDGV_GUARD_EVENT_MAX"
  shows "\<exists>ret t1 t' adapt'. amdgv_guard_add_active_event clk t adapt idx_vf event_id =
            Inr (ret, t', adapt') \<and> guarded adapt' idx_vf \<and> t \<le> t1 \<and> t1 \<le> t' \<and>
          (\<forall>k < AMDGV_GUARD_EVENT_MAX. k \<noteq> event_id \<longrightarrow>
             expired_from clk t t1 (vf_event adapt idx_vf k) (vf_event adapt' idx_vf k)) \<and>
          (\<exists>e. expired_from clk t t1 (vf_event adapt idx_vf event_id) e \<and>
             (if length (ring_window e) < unat (ev_threshold e)
              then ret = 0 \<and> t' = Suc t1 \<and> ring_window (vf_event adapt' idx_vf event_id) =
                     ring_window e @ [clk t1]
              else ret = AMDGV_EVENT_OVERFLOW \<and> t' = t1 \<and>
                     ring_window (vf_event adapt' idx_vf event_id) = ring_window e \<and>
                     ev_state (vf_event adapt' idx_vf event_id) = AMDGV_GUARD_EVENT_OVERFLOW) \<and>
             ev_interval (vf_event adapt' idx_vf event_id) = ev_interval e \<and>
             ev_threshold (vf_event adapt' idx_vf event_id) = ev_threshold e)"
  using assms by (rule add_active_event_step)

theorem guard_add_event_refines_queue_witness:
  "\<exists>ret t1 t' adapt'. amdgv_guard_add_active_event sample_clock 5 guard_sample 1 0 =
      Inr (ret, t', adapt') \<and> 5 \<le> t1 \<and> t1 \<le> t'"
  using guard_add_event_refines_queue [OF guard_sample_guarded, of 0 sample_clock 5] by auto

text \<open>From an adapter without guards, no sequence of the guard's operations reaches undefined
  behaviour, as long as event types are in range, a guard exists where the code does not test for
  NULL, and no threshold is set to 0; every state it reaches allows the next operation.\<close>

theorem guard_operations_safe:
  assumes "guard_reach clk (t, adapt)" and "guard_op_ok adapt op"
  shows "\<exists>t' adapt'. guard_exec clk (t, adapt) op = Inr (t', adapt') \<and>
           guard_reach clk (t', adapt') \<and> guards_ok adapt'"
proof -
  have "guards_ok adapt" using guard_reach_ok [OF assms(1)] by simp
  from guard_exec_safe [OF this assms(2)] guard_reach.step [OF assms] show ?thesis by blast
qed

lemma guard_sample_reach: "guard_reach sample_clock (0, guard_sample)"
proof -
  obtain g where "amdgv_guard_vf_init guard_env_ok guard_fresh 1 =
           Inr (0, (set_vf_guard guard_fresh 1 (Some g))\<lparr>ga_live := ga_live guard_fresh @
              map (Pair (unat (1::u32))) (guard_resources AMDGV_GUARD_EVENT_MAX)\<rparr>)"
    using vf_init_success [of 1 guard_fresh guard_env_ok]
    by (auto simp: guard_fresh_def guard_env_ok_def)
  then have "guard_exec sample_clock (0, guard_fresh) (Guard_Init guard_env_ok 1) =
      Inr (0, guard_sample)"
    by (simp add: guard_sample_def)
  moreover have "guard_reach sample_clock (0, guard_fresh)"
    by (rule guard_reach.start) (simp_all add: guard_fresh_def)
  ultimately show ?thesis by (rule guard_reach.step [rotated 2]) simp
qed

theorem guard_operations_safe_witness:
  "\<exists>t' adapt'. guard_exec sample_clock (0, guard_sample) (Guard_Add 1 7) = Inr (t', adapt') \<and>
     guard_reach sample_clock (t', adapt') \<and> guards_ok adapt'"
  by (rule guard_operations_safe [OF guard_sample_reach]) simp

lemma expire_event_zero_faults:
  assumes "ring_ok e" and "ring_window e \<noteq> []"
  shows "expire_event clk t (e\<lparr>ev_state := st, ev_interval := 0, ev_threshold := 0\<rparr>) = Inl Div_By_Zero"
proof -
  obtain rec where rec: "ev_record_array e = Some rec" "unat (ev_threshold e) \<le> length rec"
    using assms(1) by (auto simp: ring_ok_def)
  have "unat (ev_origin_idx e) < length rec"
    using assms(1) rec(2) by (simp add: ring_ok_def word_less_nat_alt)
  moreover have "0 < ev_active e"
    using assms length_ring_window [OF assms(1)] by (auto simp: word_gt_0)
  ultimately show ?thesis using rec by (simp add: expire_event.simps)
qed

lemma expire_events_zero_faults:
  assumes "k < length es" and "\<forall>j < k. ring_ok (es ! j)"
    and "\<And>t. expire_event clk t (es ! k) = Inl err"
  shows "expire_events clk t es = Inl err"
  using assms
proof (induction es arbitrary: k t)
  case Nil
  then show ?case by simp
next
  case (Cons e es)
  show ?case
  proof (cases k)
    case 0
    with Cons.prems show ?thesis by simp
  next
    case (Suc k')
    have "ring_ok e" using Cons.prems(2) Suc by force
    then obtain t1 e1 where "expire_event clk t e = Inr (t1, e1)"
      by (rule expire_event_expired)
    moreover have "\<forall>j < k'. ring_ok (es ! j)" using Cons.prems(2) Suc by fastforce
    ultimately show ?thesis
      using Cons.IH [of k' t1] Cons.prems(1,3) Suc by simp
  qed
qed

text \<open>A threshold of 0, which \<^verbatim>\<open>amdgv_guard_set_vf_info\<close> accepts, makes the next call that
  expires records divide by zero when the event holds a record.\<close>

theorem guard_zero_threshold_divides:
  assumes "guarded adapt idx_vf" and "event_id < AMDGV_GUARD_EVENT_MAX"
    and "ring_window (vf_event adapt idx_vf event_id) \<noteq> []"
  shows "\<exists>adapt'. amdgv_guard_set_vf_info adapt idx_vf
             \<lparr>gi_type = of_nat event_id, gi_state = AMDGV_GUARD_EVENT_NORMAL, gi_count = 0,
              gi_interval = 0, gi_threshold = 0, gi_active = 0\<rparr> = Inr (0, adapt') \<and>
           amdgv_guard_add_active_event clk t adapt' idx_vf k = Inl Div_By_Zero"
proof -
  obtain g where idx: "\<not> AMDGV_IS_IDX_INVALID (ga_num_vf adapt) idx_vf"
      "unat idx_vf < length (ga_array_vf adapt)"
    and g: "ga_array_vf adapt ! unat idx_vf = Some g" "gd_state g \<noteq> AMDGV_GUARD_DISABLED"
      "length (gd_event g) = AMDGV_GUARD_EVENT_MAX" "\<forall>e \<in> set (gd_event g). ring_ok e"
    using assms(1) by (auto simp: guarded_def)
  have e: "ring_ok (gd_event g ! event_id)" "ring_window (gd_event g ! event_id) \<noteq> []"
    using g assms(2,3) by (simp_all add: vf_event_def)
  define es where "es = (gd_event g)[event_id := (gd_event g ! event_id)
    \<lparr>ev_state := AMDGV_GUARD_EVENT_NORMAL, ev_interval := 0, ev_threshold := 0\<rparr>]"
  have un: "unat (of_nat event_id :: u32) = event_id" using assms(2) by (simp add: unat_of_nat)
  then have ty: "unat (of_nat event_id :: u32) = event_id" "\<not> 11 < (of_nat event_id :: u32)"
      "(of_nat event_id :: u32) < 10"
    using assms(2) by (simp_all add: word_less_nat_alt)
  have ne: "(of_nat event_id :: u32) \<noteq> 11"
    using un assms(2) by (auto simp flip: word_unat_eq_iff)
  have set: "amdgv_guard_set_vf_info adapt idx_vf
             \<lparr>gi_type = of_nat event_id, gi_state = AMDGV_GUARD_EVENT_NORMAL, gi_count = 0,
              gi_interval = 0, gi_threshold = 0, gi_active = 0\<rparr> =
      Inr (0, set_vf_guard adapt idx_vf (Some (g\<lparr>gd_event := es\<rparr>)))"
    using idx g assms(2) ty ne by (simp add: amdgv_guard_set_vf_info_def vf_guard_def es_def)
  have "expire_events clk t es = Inl Div_By_Zero"
  proof (rule expire_events_zero_faults)
    show "event_id < length es" using g assms(2) by (simp add: es_def)
    show "\<forall>j < event_id. ring_ok (es ! j)" using g assms(2) by (simp add: es_def)
    show "expire_event clk t' (es ! event_id) = Inl Div_By_Zero" for t'
      using g(3) assms(2) expire_event_zero_faults [OF e] by (simp add: es_def)
  qed
  with idx g have "amdgv_guard_add_active_event clk t (set_vf_guard adapt idx_vf
      (Some (g\<lparr>gd_event := es\<rparr>))) idx_vf k = Inl Div_By_Zero"
    by (simp add: amdgv_guard_add_active_event_def vf_guard_def amdgv_guard_delete_expired_event_def)
  with set show ?thesis by blast
qed

definition guard_sample2 :: guard_adapter where
  "guard_sample2 = (case amdgv_guard_add_active_event sample_clock 0 guard_sample 1 7 of
     Inl e \<Rightarrow> guard_sample | Inr (ret, t, adapt) \<Rightarrow> adapt)"

lemma guard_sample2_facts:
  "guarded guard_sample2 1 \<and> ring_window (vf_event guard_sample2 1 7) \<noteq> []"
proof -
  obtain ret t1 t' adapt' e where run: "amdgv_guard_add_active_event sample_clock 0 guard_sample 1 7 =
      Inr (ret, t', adapt')" and gd: "guarded adapt' 1"
    and e: "expired_from sample_clock 0 t1 (vf_event guard_sample 1 7) e"
    and res: "if length (ring_window e) < unat (ev_threshold e)
       then ret = 0 \<and> t' = Suc t1 \<and> ring_window (vf_event adapt' 1 7) = ring_window e @ [sample_clock t1]
       else ret = AMDGV_EVENT_OVERFLOW \<and> t' = t1 \<and> ring_window (vf_event adapt' 1 7) = ring_window e \<and>
            ev_state (vf_event adapt' 1 7) = AMDGV_GUARD_EVENT_OVERFLOW"
    using add_active_event_step [OF guard_sample_guarded, of 7 sample_clock 0] by auto
  have "ring_window e = []" "0 < unat (ev_threshold e)"
    using e guard_sample_empty [of 7]
    by (auto simp: expired_from_def ring_ok_def word_less_nat_alt)
  with run gd res show ?thesis by (simp add: guard_sample2_def)
qed

theorem guard_zero_threshold_divides_witness:
  "\<exists>adapt'. amdgv_guard_set_vf_info guard_sample2 1
       \<lparr>gi_type = 7, gi_state = AMDGV_GUARD_EVENT_NORMAL, gi_count = 0, gi_interval = 0,
        gi_threshold = 0, gi_active = 0\<rparr> = Inr (0, adapt') \<and>
     amdgv_guard_add_active_event sample_clock 9 adapt' 1 3 = Inl Div_By_Zero"
  using guard_zero_threshold_divides [of guard_sample2 1 7 sample_clock 9 3] guard_sample2_facts
  by simp

text \<open>Creating a guard and removing it: creation with no failing allocation leaves a guard
  with empty windows and holds exactly one ring and one lock per event besides the guard itself;
  removal releases exactly these.\<close>

theorem guard_init_remove_roundtrip:
  assumes "unat idx_vf < length (ga_array_vf adapt)" and "guard_alloc_ok env"
    and "\<forall>j < AMDGV_GUARD_EVENT_MAX. array_alloc_ok env j \<and> lock_init_ok env j"
    and "\<forall>r. (unat idx_vf, r) \<notin> set (ga_live adapt)"
  shows "\<exists>adapt'. amdgv_guard_vf_init env adapt idx_vf = Inr (0, adapt') \<and>
           ga_live adapt' = ga_live adapt @
             map (Pair (unat idx_vf)) (guard_resources AMDGV_GUARD_EVENT_MAX) \<and>
           (\<forall>k < AMDGV_GUARD_EVENT_MAX. ring_window (vf_event adapt' idx_vf k) = []) \<and>
           amdgv_guard_vf_remove adapt' idx_vf = Inr (0, set_vf_guard adapt idx_vf None)"
proof -
  obtain g where g: "amdgv_guard_vf_init env adapt idx_vf =
           Inr (0, (set_vf_guard adapt idx_vf (Some g))\<lparr>ga_live := ga_live adapt @
              map (Pair (unat idx_vf)) (guard_resources AMDGV_GUARD_EVENT_MAX)\<rparr>)"
      "\<forall>k < AMDGV_GUARD_EVENT_MAX. ring_window (gd_event g ! k) = []"
    using vf_init_success [OF assms(1-3)] by blast
  then show ?thesis
    using assms(1) remove_live [OF assms(4), of AMDGV_GUARD_EVENT_MAX]
    by (simp add: vf_event_def amdgv_guard_vf_remove_def vf_guard_def set_vf_guard_def del: upt_rec_numeral)
qed

theorem guard_init_remove_roundtrip_witness:
  "\<exists>adapt'. amdgv_guard_vf_init guard_env_ok guard_fresh 1 = Inr (0, adapt') \<and>
     amdgv_guard_vf_remove adapt' 1 = Inr (0, set_vf_guard guard_fresh 1 None)"
  using guard_init_remove_roundtrip [of 1 guard_fresh guard_env_ok]
  by (auto simp: guard_fresh_def guard_env_ok_def)

text \<open>When the ring or the lock of event \<open>j\<close> cannot be made, initialisation fails, leaves no
  guard in the table, but the rings and locks of all earlier events stay allocated (and the ring
  of event 0 when its lock fails): the cleanup loop never moves its event pointer.\<close>

theorem guard_init_failure_leaks:
  assumes "unat idx_vf < length (ga_array_vf adapt)" and "guard_alloc_ok env"
    and "init_stops_at env j" and "j < AMDGV_GUARD_EVENT_MAX"
  shows "\<exists>adapt'. amdgv_guard_vf_init env adapt idx_vf = Inr (AMDGV_FAILURE, adapt') \<and>
           ga_array_vf adapt' ! unat idx_vf = None \<and>
           ga_live adapt' = ga_live adapt @ map (Pair (unat idx_vf))
             (concat (map (\<lambda>i. [Res_Array i, Res_Lock i]) [0..<j]) @
              (if array_alloc_ok env 0 \<and> j = 0 then [Res_Array 0] else []))"
proof -
  obtain e where loop: "guard_init_loop env 0 AMDGV_GUARD_EVENT_MAX [Res_Guard] =
      Inl (j, e, [Res_Guard] @ concat (map (\<lambda>i. [Res_Array i, Res_Lock i]) [0..<j]) @
           (if array_alloc_ok env j then [Res_Array j] else []))"
    and arr: "(ev_record_array e \<noteq> None) = array_alloc_ok env j"
    using guard_init_loop_stop [OF assms(3), of 0 AMDGV_GUARD_EVENT_MAX "[Res_Guard]"] assms(4)
    by auto
  have "\<not> ev_lock e" by (rule guard_init_loop_failed [OF loop])
  note fl = failed_loop_res [OF this]
  have "Res_Array j \<notin> set (concat (map (\<lambda>i. [Res_Array i, Res_Lock i]) [0..<j]))" by auto
  with loop arr fl assms(1,2) show ?thesis
    by (auto simp: amdgv_guard_vf_init_def vf_guard_def set_vf_guard_def remove1_append)
qed

theorem guard_init_failure_leaks_witness:
  "\<exists>adapt'. amdgv_guard_vf_init (guard_env_ok\<lparr>lock_init_ok := (\<lambda>i. i < 2)\<rparr>) guard_fresh 1 =
       Inr (AMDGV_FAILURE, adapt') \<and> ga_array_vf adapt' ! 1 = None \<and>
     ga_live adapt' = [(1, Res_Array 0), (1, Res_Lock 0), (1, Res_Array 1), (1, Res_Lock 1)]"
  using guard_init_failure_leaks [of 1 guard_fresh "guard_env_ok\<lparr>lock_init_ok := (\<lambda>i. i < 2)\<rparr>" 2]
  by (auto simp: guard_fresh_def guard_env_ok_def init_stops_at_def upt_rec)

text \<open>A reset of a VF with a guard succeeds in every reachable state: it empties every window,
  clears every counter and makes every event normal again.\<close>

theorem guard_reset_clears:
  assumes "guards_ok adapt" and "has_guard adapt idx_vf"
  shows "\<exists>adapt'. amdgv_guard_vf_reset adapt idx_vf = Inr (0, adapt') \<and> guards_ok adapt' \<and>
           (\<forall>k < AMDGV_GUARD_EVENT_MAX. ring_window (vf_event adapt' idx_vf k) = [] \<and>
              ev_amount (vf_event adapt' idx_vf k) = 0 \<and>
              ev_state (vf_event adapt' idx_vf k) = AMDGV_GUARD_EVENT_NORMAL)"
proof -
  obtain g where g: "vf_guard adapt idx_vf = Inr (Some g)" "guard_mem_ok g"
    using guards_ok_has [OF assms] .
  have idx: "unat idx_vf < length (ga_array_vf adapt)"
    using g(1) by (simp add: vf_guard_def cread_eq_Inr_iff)
  have "\<forall>j < length (gd_event g). event_mem_ok (0 + j) (gd_event g ! j)"
    using g by (simp add: guard_mem_ok_def)
  from reset_loop_safe [OF this] g obtain es where
    es: "guard_reset_loop (gd_event g) = Inr (True, es)" "length es = AMDGV_GUARD_EVENT_MAX"
    "\<forall>j < AMDGV_GUARD_EVENT_MAX. event_mem_ok j (es ! j) \<and> ring_window (es ! j) = [] \<and>
       ev_amount (es ! j) = 0 \<and> ev_state (es ! j) = AMDGV_GUARD_EVENT_NORMAL"
    by (auto simp: guard_mem_ok_def)
  then have "guard_mem_ok (g\<lparr>gd_event := es\<rparr>)" by (simp add: guard_mem_ok_def)
  with g es idx assms(1) show ?thesis
    by (simp add: amdgv_guard_vf_reset_def vf_event_def)
qed

theorem guard_reset_clears_witness:
  "\<exists>adapt'. amdgv_guard_vf_reset guard_sample 1 = Inr (0, adapt') \<and>
     (\<forall>k < AMDGV_GUARD_EVENT_MAX. ring_window (vf_event adapt' 1 k) = [])"
  using guard_reset_clears [OF _ guard_sample_has] guard_reach_ok [OF guard_sample_reach] by auto

end
