(* ===== verification/GV_Memmgr.thy ===== *)
theory GV_Memmgr
  imports GV_Prelude
begin

text \<open>
  The frame-buffer memory manager of \<^verbatim>\<open>libgv/core/amdgv_memmgr.c\<close>. A manager keeps the
  list of its allocations, ordered by address, each with the offset of its end; three managers
  (PF, GPU, system) of an adapter share one table of memory identifiers.

  The intrusive lists of nodes are HOL lists of records; a node pointer is the number
  \<open>mm_ptr\<close> of the node. The head of the list, which the code reads as a node too, is the
  field \<open>mg_head_off\<close>. What the system's allocators answer is an argument.
\<close>

section \<open>State\<close>

abbreviation (input) MEM_ID_COUNT_MAX :: nat where "MEM_ID_COUNT_MAX \<equiv> 256"
abbreviation (input) MEM_ID_NOT_AVAILABLE :: u32 where "MEM_ID_NOT_AVAILABLE \<equiv> 0xFFFFFFFF"
abbreviation (input) MAX_MEM_COUNT :: nat where "MAX_MEM_COUNT \<equiv> 256"
abbreviation (input) MAX_BITMAP_COUNT :: nat where "MAX_BITMAP_COUNT \<equiv> 4"
abbreviation (input) MEM_ECC_BAD_PAGE :: u32 where "MEM_ECC_BAD_PAGE \<equiv> 0x400"
abbreviation (input) MEM_ECC_BAD_PAGE_NPS_CANDIDATE :: u32 where
  "MEM_ECC_BAD_PAGE_NPS_CANDIDATE \<equiv> 0x401"
abbreviation (input) MEM_ALLOCS_MAX :: nat where "MEM_ALLOCS_MAX \<equiv> 128"
abbreviation (input) AMDGV_GPU_PAGE_SHIFT :: nat where "AMDGV_GPU_PAGE_SHIFT \<equiv> 12"
abbreviation (input) AMDGV_GPU_PAGE_SIZE :: u64 where "AMDGV_GPU_PAGE_SIZE \<equiv> 4096"
abbreviation (input) DEFAULT_ALIGN_SHIFT :: u64 where "DEFAULT_ALIGN_SHIFT \<equiv> 12"
abbreviation (input) DEFAULT_SIZE :: u64 where "DEFAULT_SIZE \<equiv> 68719476736"
abbreviation (input) DEFAULT_MEMORY_MANAGER_SIZE :: u64 where
  "DEFAULT_MEMORY_MANAGER_SIZE \<equiv> 268435456"

text \<open>A node: \<open>mm_handle\<close> and \<open>mm_va\<close> are the DMA memory of a system allocation.\<close>

record amdgv_memmgr_mem =
  mm_ptr :: nat
  mm_alloc_off :: u64
  mm_len :: u64
  mm_align :: u64
  mm_id :: u32
  mm_handle :: "nat option"
  mm_va :: u64

record amdgv_mem_reservation =
  rv_start :: u64
  rv_size :: u64
  rv_mem :: "nat option"

record amdgv_memmgr =
  mg_lock :: bool
  mg_rsv_lock :: bool
  mg_offset :: u64
  mg_size :: u64
  mg_align :: u64
  mg_mc_base :: u64
  mg_cpu_base :: u64
  mg_has_allocs :: bool
  mg_head_off :: u64
  mg_allocs :: "amdgv_memmgr_mem list"
  mg_has_reserves :: bool
  mg_reserves :: "amdgv_memmgr_mem list"
  mg_reserve_count :: int
  mg_tom :: u64
  mg_down :: bool
  mg_is_init :: bool
  mg_is_sys :: bool
  mg_pending :: "amdgv_mem_reservation list"
  mg_reserved :: "amdgv_mem_reservation list"

record amdgv_mem_with_bitmap =
  mb_id :: u32
  mb_bitmaps :: "u64 list"

text \<open>The calls on the GART and on DMA memory, in the order they are made.\<close>

datatype gart_event = Gart_Map u64 u64 | Gart_Invalidate | Dma_Alloc nat | Dma_Free nat

text \<open>The fields of \<^verbatim>\<open>struct amdgv_adapter\<close> that the managers share.\<close>

record mem_adapter =
  ma_mem_ids :: "amdgv_mem_with_bitmap list"
  ma_valid_count :: u8
  ma_skip_hw_init :: bool
  ma_gart_ready :: bool
  ma_gart_size :: u64
  ma_whole_gpu_reset :: bool
  ma_mi350x :: bool
  ma_status_invalid :: bool
  ma_bad_page_threshold :: u32
  ma_gart_trace :: "gart_event list"

definition mem_fresh :: "nat \<Rightarrow> amdgv_memmgr_mem" where
  "mem_fresh p = \<lparr>mm_ptr = p, mm_alloc_off = 0, mm_len = 0, mm_align = 0, mm_id = 0,
     mm_handle = None, mm_va = 0\<rparr>"

definition amdgv_in_live_update_seq :: "mem_adapter \<Rightarrow> bool" where
  "amdgv_in_live_update_seq adapt = ma_skip_hw_init adapt"

definition BAD_PAGE_RECORD_THRESHOLD :: "mem_adapter \<Rightarrow> u32" where
  "BAD_PAGE_RECORD_THRESHOLD adapt =
     (if ma_bad_page_threshold adapt \<noteq> 0 then ma_bad_page_threshold adapt else 10)"

section \<open>Alignment\<close>

text \<open>
  \<^verbatim>\<open>AMDGV_MEMMGR_ALIGN\<close> is a macro, so its arithmetic follows the type of the alignment. Two
  callers pass a \<^verbatim>\<open>uint32_t\<close>: there the mask \<^verbatim>\<open>~(align - 1)\<close> is computed in 32 bits and extended
  with zeros.
\<close>

definition AMDGV_MEMMGR_ALIGN :: "u64 \<Rightarrow> u64 \<Rightarrow> u64" where
  "AMDGV_MEMMGR_ALIGN addr align = (addr + align - 1) AND NOT (align - 1)"

definition AMDGV_MEMMGR_ALIGN32 :: "u64 \<Rightarrow> u32 \<Rightarrow> u64" where
  "AMDGV_MEMMGR_ALIGN32 addr align = (addr + ucast align - 1) AND ucast (NOT (align - 1))"

definition roundup :: "u64 \<Rightarrow> u64 \<Rightarrow> u64" where
  "roundup x y = ((x + (y - 1)) div y) * y"

definition MEM_ID_GET_ID :: "u32 \<Rightarrow> u32" where
  "MEM_ID_GET_ID mem_id = mem_id AND 0xFFFF"

definition MEM_ID_GET_INDEX :: "u32 \<Rightarrow> u32" where
  "MEM_ID_GET_INDEX mem_id = drop_bit 16 mem_id AND 0xFFFF"

section \<open>Identifiers\<close>

definition mem_id_name_table :: "(u32 \<times> string) list" where
  "mem_id_name_table =
    [(0x10, ''PSP_RING''), (0x11, ''PSP_FENCE''), (0x12, ''PSP_PRIVATE''), (0x13, ''PSP_RAS''),
     (0x14, ''PSP_TMR''), (0x15, ''PSP_XGMI''), (0x16, ''PSP_VBFLASH''), (0x18, ''PSP_DUMMY''),
     (0x100, ''SMC_PPTABLE''), (0x101, ''SMC_WATERMARK_TABLE''), (0x102, ''SMC_METRICS_TABLE''),
     (0x103, ''SMU_CONFIG_TABLE''), (0x104, ''SMC_OVERRIDE_TABLE''), (0x105, ''SMC_I2C_TABLE''),
     (0x106, ''SMC_ACTIVITY_TABLE''), (0x107, ''SMC_PM_STATUS_TABLE''),
     (0x200, ''GPUIOV_CSA''), (0x201, ''GPUIOV_SCHED_LOG''), (0x202, ''GPUIOV_SCHED_CFG_DESC''),
     (0x300, ''IRQMGR_IH_RING''), (0x400, ''ECC_BAD_PAGE''),
     (0x401, ''MEM_ECC_BAD_PAGE_NPS_CANDIDATE''),
     (0x500, ''MMSCH_CMD_BUFFER''), (0x501, ''MEM_MMSCH_BW_CFG''), (0x5FF, ''MEM_MMSCH_SRAM_DUMP''),
     (0x601, ''GFX_WB''), (0x602, ''GFX_EOP''), (0x603, ''GFX_MQD''), (0x604, ''GFX_IB''),
     (0x610, ''MEM_KIQ_RING''), (0x612, ''MEM_KIQ_MQD''),
     (0x620, ''MEM_COMPUTE0_RING''), (0x621, ''MEM_COMPUTE1_RING''), (0x622, ''MEM_COMPUTE2_RING''),
     (0x623, ''MEM_COMPUTE3_RING''), (0x628, ''MEM_COMPUTE0_MQD''), (0x629, ''MEM_COMPUTE1_MQD''),
     (0x62a, ''MEM_COMPUTE2_MQD''), (0x62b, ''MEM_COMPUTE3_MQD''),
     (0x630, ''MEM_SDMA0_RING''), (0x631, ''MEM_SDMA1_RING''), (0x640, ''MEM_SDMA0_MQD''),
     (0x641, ''MEM_SDMA1_MQD''), (0x642, ''MEM_MES_RING''), (0x643, ''MEM_MES_EOP''),
     (0x644, ''MEM_MES_MQD''),
     (0x800, ''MEM_MIGRATION_PSP_STATIC_DATA''), (0x801, ''MEM_MIGRATION_PSP_DYNAMIC_DATA''),
     (0x905, ''MEM_VF_INITD_H_TABLE''), (0x900, ''MEM_VF_IPD_TABLE''), (0x901, ''MEM_VF_VBIOS_IMG''),
     (0x902, ''MEM_VF_RAS_TELEMETRY_TABLE''), (0x903, ''MEM_VF_DATAEXCHANGE_TABLE''),
     (0x904, ''MEM_VF_BAD_PAGE_INFO_TABLE'')]"

text \<open>The decimal digits \<^verbatim>\<open>%d\<close> prints for a number below 16.\<close>

definition decimal15 :: "u32 \<Rightarrow> string" where
  "decimal15 n = (if n < 10 then [char_of (48 + unat n)]
                  else [char_of (49::nat), char_of (38 + unat n)])"

definition amdgv_mem_id_name :: "u32 \<Rightarrow> string" where
  "amdgv_mem_id_name mem_id =
     (let wid = MEM_ID_GET_ID mem_id in
      if wid \<le> 0xf then ''PSP_CMD'' @ decimal15 wid
      else case map_of mem_id_name_table wid of Some name \<Rightarrow> name | None \<Rightarrow> ''UNKNOWN'')"

text \<open>The loop that looks an identifier up: the index of its entry, or the count.\<close>

fun mem_id_scan :: "amdgv_mem_with_bitmap list \<Rightarrow> u32 \<Rightarrow> nat \<Rightarrow> nat" where
  "mem_id_scan [] wid i = i"
| "mem_id_scan (mem # mems) wid i = (if wid = mb_id mem then i else mem_id_scan mems wid (Suc i))"

definition mem_id_find :: "mem_adapter \<Rightarrow> u32 \<Rightarrow> nat" where
  "mem_id_find adapt wid =
     mem_id_scan (take (unat (ma_valid_count adapt)) (ma_mem_ids adapt)) wid 0"

text \<open>\<^verbatim>\<open>valid_mem_id_count\<close> is a \<^verbatim>\<open>uint8_t\<close>: its comparison with 256 always holds, and it wraps.\<close>

definition amdgv_memmgr_mem_id_list_add :: "mem_adapter \<Rightarrow> u32 \<Rightarrow> u32 \<times> mem_adapter" where
  "amdgv_memmgr_mem_id_list_add adapt wid =
     (if unat (ma_valid_count adapt) < MEM_ID_COUNT_MAX then
        (0, adapt\<lparr>ma_mem_ids := (ma_mem_ids adapt)[unat (ma_valid_count adapt) :=
                    \<lparr>mb_id = wid, mb_bitmaps = replicate MAX_BITMAP_COUNT 0\<rparr>],
                  ma_valid_count := ma_valid_count adapt + 1\<rparr>)
      else (MEM_ID_NOT_AVAILABLE, adapt))"

text \<open>The two loops that look for a free index: the first bitmap that is not full, then its
  lowest clear bit.\<close>

fun bitmap_scan :: "u64 list \<Rightarrow> nat \<Rightarrow> nat" where
  "bitmap_scan [] i = i"
| "bitmap_scan (b # bs) i = (if b = - 1 then bitmap_scan bs (Suc i) else i)"

function low_clear_bit :: "u64 \<Rightarrow> nat \<Rightarrow> nat" where
  "low_clear_bit bitmap index =
     (if bitmap AND 1 \<noteq> 0 then low_clear_bit (drop_bit 1 bitmap) (Suc index) else index)"
  by pat_completeness auto
termination
proof (relation "measure (\<lambda>(b, i). unat b)", goal_cases)
  case 1
  show ?case by simp
next
  case (2 bitmap index)
  then have "bitmap \<noteq> 0" by auto
  then have "unat (drop_bit 1 bitmap) < unat bitmap"
    by (simp add: drop_bit_eq_div unat_div_distrib unat_gt_0)
  then show ?case by simp
qed

declare low_clear_bit.simps [simp del]

definition amdgv_memmgr_mem_id_add :: "mem_adapter \<Rightarrow> u32 \<Rightarrow> u32 \<times> mem_adapter" where
  "amdgv_memmgr_mem_id_add adapt wid =
     (let i = mem_id_find adapt wid;
          (ret, adapt1) = (if i = unat (ma_valid_count adapt)
                           then amdgv_memmgr_mem_id_list_add adapt wid else (0, adapt)) in
      if ret \<noteq> 0 then (ret, adapt1)
      else
        let mem = ma_mem_ids adapt1 ! i;
            b = bitmap_scan (mb_bitmaps mem) 0 in
        if b = MAX_BITMAP_COUNT then (MEM_ID_NOT_AVAILABLE, adapt1)
        else
          let index = low_clear_bit (mb_bitmaps mem ! b) (b * 64);
              mem' = mem\<lparr>mb_bitmaps := (mb_bitmaps mem)
                        [b := mb_bitmaps mem ! b OR push_bit (index mod 64) 1]\<rparr> in
          ((wid AND 0xFFFF) OR push_bit 16 (of_nat index AND 0xFFFF),
           adapt1\<lparr>ma_mem_ids := (ma_mem_ids adapt1)[i := mem']\<rparr>))"

definition amdgv_memmgr_mem_id_remove :: "mem_adapter \<Rightarrow> u32 \<Rightarrow> int \<times> mem_adapter" where
  "amdgv_memmgr_mem_id_remove adapt mem_id =
     (let wid = MEM_ID_GET_ID mem_id; index = unat (MEM_ID_GET_INDEX mem_id) in
      if MAX_MEM_COUNT \<le> index then (-1, adapt)
      else
        let i = mem_id_find adapt wid in
        if i = unat (ma_valid_count adapt) then (-1, adapt)
        else
          let mem = ma_mem_ids adapt ! i;
              mem' = mem\<lparr>mb_bitmaps := (mb_bitmaps mem)[index div 64 :=
                        mb_bitmaps mem ! (index div 64) AND NOT (push_bit (index mod 64) 1)]\<rparr> in
          (0, adapt\<lparr>ma_mem_ids := (ma_mem_ids adapt)[i := mem']\<rparr>))"

section \<open>Nodes and their positions\<close>

text \<open>The position of a node in a list, and the offset of the node before position \<open>k\<close>, which
  for position 0 is the head of the list.\<close>

fun mem_pos :: "amdgv_memmgr_mem list \<Rightarrow> nat \<Rightarrow> nat option" where
  "mem_pos [] p = None"
| "mem_pos (m # ms) p = (if mm_ptr m = p then Some 0 else map_option Suc (mem_pos ms p))"

definition prev_off :: "amdgv_memmgr \<Rightarrow> amdgv_memmgr_mem list \<Rightarrow> nat \<Rightarrow> u64" where
  "prev_off mgr mems k = (if k = 0 then mg_head_off mgr else mm_alloc_off (mems ! (k - 1)))"

definition insert_at :: "nat \<Rightarrow> 'a \<Rightarrow> 'a list \<Rightarrow> 'a list" where
  "insert_at k x xs = take k xs @ x # drop k xs"

definition remove_at :: "nat \<Rightarrow> 'a list \<Rightarrow> 'a list" where
  "remove_at k xs = take k xs @ drop (Suc k) xs"

text \<open>What the operating system answers to one allocation: the uninitialised node
  \<^verbatim>\<open>oss_malloc\<close> returns, the handle and the address of the DMA memory, and the bus address of
  each of its pages.\<close>

record mem_env =
  me_malloc :: "amdgv_memmgr_mem option"
  me_dma :: "(nat \<times> u64) option"
  me_sg :: "nat \<Rightarrow> nat \<Rightarrow> u64"

section \<open>Creation and the search for a place\<close>

text \<open>The four answers are those of the two locks and of the two list heads.\<close>

definition amdgv_memmgr_init :: "bool \<Rightarrow> bool \<Rightarrow> bool \<Rightarrow> bool \<Rightarrow> amdgv_memmgr \<Rightarrow> u64 \<Rightarrow> u64 \<Rightarrow>
    u32 \<Rightarrow> bool \<Rightarrow> int \<times> amdgv_memmgr" where
  "amdgv_memmgr_init lock_ok allocs_ok rsv_lock_ok reserves_ok memmgr offset sz align down =
     (let m = memmgr\<lparr>mg_offset := offset, mg_size := (if sz = 0 then DEFAULT_SIZE else sz),
                mg_align := (if align = 0 then DEFAULT_ALIGN_SHIFT else ucast align),
                mg_down := down, mg_lock := lock_ok\<rparr> in
      if \<not> lock_ok then (AMDGV_FAILURE, m)
      else if \<not> allocs_ok then (AMDGV_FAILURE, m\<lparr>mg_has_allocs := False, mg_lock := False\<rparr>)
      else
        let m = m\<lparr>mg_has_allocs := True, mg_pending := [], mg_reserved := [],
                  mg_rsv_lock := rsv_lock_ok\<rparr> in
        if \<not> rsv_lock_ok then
          (AMDGV_FAILURE, m\<lparr>mg_lock := False, mg_has_allocs := False\<rparr>)
        else
          let m = m\<lparr>mg_allocs := [], mg_head_off := offset, mg_has_reserves := reserves_ok\<rparr> in
          if \<not> reserves_ok then
            (AMDGV_FAILURE, m\<lparr>mg_has_allocs := False, mg_lock := False\<rparr>)
          else
            (0, m\<lparr>mg_reserves := [], mg_reserve_count := 0, mg_tom := offset,
                  mg_is_init := True\<rparr>))"

text \<open>The loop of \<^verbatim>\<open>amdgv_memmgr_find_size\<close>: it returns the node before the first gap that is
  larger than the request, here as the number of nodes up to and including it.\<close>

fun find_size_loop :: "amdgv_memmgr_mem list \<Rightarrow> u64 \<Rightarrow> u64 \<Rightarrow> u64 \<Rightarrow> nat \<Rightarrow> nat" where
  "find_size_loop [] tom sz align k = k"
| "find_size_loop (alloc # allocs) tom sz align k =
     (if mm_alloc_off alloc < tom then find_size_loop allocs tom sz align (Suc k)
      else if tom + sz < mm_alloc_off alloc - mm_len alloc then k
      else find_size_loop allocs (AMDGV_MEMMGR_ALIGN (mm_alloc_off alloc) align) sz align (Suc k))"

definition amdgv_memmgr_find_size :: "amdgv_memmgr \<Rightarrow> u64 \<Rightarrow> u64 \<Rightarrow> nat" where
  "amdgv_memmgr_find_size memmgr sz align =
     find_size_loop (mg_allocs memmgr) (AMDGV_MEMMGR_ALIGN (mg_offset memmgr) align) sz align 0"

fun find_size_at_loop :: "amdgv_memmgr_mem list \<Rightarrow> u64 \<Rightarrow> u64 \<Rightarrow> nat \<Rightarrow> nat option" where
  "find_size_at_loop [] tom sz k = Some k"
| "find_size_at_loop (alloc # allocs) tom sz k =
     (if mm_alloc_off alloc < tom then find_size_at_loop allocs tom sz (Suc k)
      else if tom < mm_alloc_off alloc \<and> mm_alloc_off alloc - mm_len alloc < tom + sz then None
      else if tom + sz \<le> mm_alloc_off alloc - mm_len alloc then Some k
      else find_size_at_loop allocs tom sz (Suc k))"

definition amdgv_memmgr_find_size_at :: "amdgv_memmgr \<Rightarrow> u64 \<Rightarrow> u64 \<Rightarrow> u64 \<Rightarrow> nat option" where
  "amdgv_memmgr_find_size_at memmgr offset sz align =
     find_size_at_loop (mg_allocs memmgr) (AMDGV_MEMMGR_ALIGN offset align) sz 0"

text \<open>The two searches by identifier; a NULL list is the empty one.\<close>

fun amdgv_memmgr_find_mem_id :: "amdgv_memmgr_mem list \<Rightarrow> u32 \<Rightarrow> nat option" where
  "amdgv_memmgr_find_mem_id [] wid = None"
| "amdgv_memmgr_find_mem_id (alloc # allocs) wid =
     (if mm_id alloc = wid then Some (mm_ptr alloc) else amdgv_memmgr_find_mem_id allocs wid)"

fun amdgv_memmgr_find_id :: "amdgv_memmgr_mem list \<Rightarrow> u32 \<Rightarrow> nat option" where
  "amdgv_memmgr_find_id [] wid = None"
| "amdgv_memmgr_find_id (alloc # allocs) wid =
     (if MEM_ID_GET_ID (mm_id alloc) = wid then Some (mm_ptr alloc)
      else amdgv_memmgr_find_id allocs wid)"

fun find_overlap :: "amdgv_memmgr_mem list \<Rightarrow> u64 \<Rightarrow> u64 \<Rightarrow> nat option" where
  "find_overlap [] offset sz = None"
| "find_overlap (alloc # allocs) offset sz =
     (if mm_len alloc = 0 then find_overlap allocs offset sz
      else if offset < mm_alloc_off alloc \<and> mm_alloc_off alloc - mm_len alloc < offset + sz
      then Some (mm_ptr alloc)
      else find_overlap allocs offset sz)"

definition amdgv_memmgr_find_mem_at_offset :: "amdgv_memmgr \<Rightarrow> u64 \<Rightarrow> u64 \<Rightarrow> nat option" where
  "amdgv_memmgr_find_mem_at_offset memmgr offset sz =
     (if sz = 0 then None else find_overlap (mg_allocs memmgr) offset sz)"

definition amdgv_memmgr_check_critical_address :: "amdgv_memmgr \<Rightarrow> u64 \<Rightarrow> bool" where
  "amdgv_memmgr_check_critical_address memmgr_pf address =
     list_ex (\<lambda>alloc. mm_alloc_off alloc - mm_len alloc \<le> address \<and> address < mm_alloc_off alloc)
       (mg_allocs memmgr_pf)"

section \<open>Addresses\<close>

definition amdgv_memmgr_get_offset :: "amdgv_memmgr \<Rightarrow> amdgv_memmgr_mem option \<Rightarrow> u64" where
  "amdgv_memmgr_get_offset memmgr mem =
     (case mem of None \<Rightarrow> - 1
      | Some m \<Rightarrow> if mg_down memmgr then mm_alloc_off m else mm_alloc_off m - mm_len m)"

definition amdgv_memmgr_get_gpu_addr :: "amdgv_memmgr \<Rightarrow> amdgv_memmgr_mem option \<Rightarrow> u64" where
  "amdgv_memmgr_get_gpu_addr memmgr mem =
     (case mem of None \<Rightarrow> - 1
      | Some m \<Rightarrow> if mg_down memmgr then mg_mc_base memmgr - mm_alloc_off m
                  else mg_mc_base memmgr + mm_alloc_off m - mm_len m)"

definition amdgv_memmgr_get_gpu_pa :: "u64 \<Rightarrow> u64 \<Rightarrow> amdgv_memmgr \<Rightarrow> amdgv_memmgr_mem \<Rightarrow> u64" where
  "amdgv_memmgr_get_gpu_pa mc_fb_loc_addr mc_fb_offset memmgr mem =
     amdgv_memmgr_get_gpu_addr memmgr (Some mem) - mc_fb_loc_addr + mc_fb_offset"

text \<open>Pointer arithmetic on \<^verbatim>\<open>uint32_t *\<close> scales by 4.\<close>

definition amdgv_memmgr_get_cpu_addr :: "amdgv_memmgr \<Rightarrow> amdgv_memmgr_mem option \<Rightarrow> u64" where
  "amdgv_memmgr_get_cpu_addr memmgr mem =
     (case mem of None \<Rightarrow> 0
      | Some m \<Rightarrow>
          if mg_is_sys memmgr then mm_va m
          else if mg_cpu_base memmgr = 0 then 0
          else if mg_down memmgr then mg_cpu_base memmgr - 4 * drop_bit 2 (mm_alloc_off m)
          else mg_cpu_base memmgr + 4 * drop_bit 2 (mm_alloc_off m - mm_len m))"

definition amdgv_memmgr_get_gpu_base :: "amdgv_memmgr \<Rightarrow> amdgv_memmgr_mem option \<Rightarrow> u64" where
  "amdgv_memmgr_get_gpu_base memmgr mem = (case mem of None \<Rightarrow> - 1 | Some m \<Rightarrow> mg_mc_base memmgr)"

definition amdgv_memmgr_get_cpu_base :: "amdgv_memmgr \<Rightarrow> amdgv_memmgr_mem option \<Rightarrow> u64" where
  "amdgv_memmgr_get_cpu_base memmgr mem = (case mem of None \<Rightarrow> 0 | Some m \<Rightarrow> mg_cpu_base memmgr)"

definition amdgv_memmgr_get_size :: "amdgv_memmgr_mem option \<Rightarrow> u64" where
  "amdgv_memmgr_get_size mem = (case mem of None \<Rightarrow> 0 | Some m \<Rightarrow> mm_len m)"

definition amdgv_memmgr_get_align :: "amdgv_memmgr_mem option \<Rightarrow> u64" where
  "amdgv_memmgr_get_align mem = (case mem of None \<Rightarrow> 0 | Some m \<Rightarrow> mm_align m)"

definition amdgv_memmgr_get_limit :: "amdgv_memmgr \<Rightarrow> int \<times> u64" where
  "amdgv_memmgr_get_limit memmgr = (0, mg_size memmgr)"

definition amdgv_memmgr_get_tom :: "amdgv_memmgr \<Rightarrow> int \<times> u64" where
  "amdgv_memmgr_get_tom memmgr = (0, mg_tom memmgr)"

definition amdgv_memmgr_set_size :: "amdgv_memmgr \<Rightarrow> u64 \<Rightarrow> int \<times> amdgv_memmgr" where
  "amdgv_memmgr_set_size memmgr limit =
     (if limit < mg_tom memmgr then (AMDGV_FAILURE, memmgr)
      else (0, memmgr\<lparr>mg_size := limit\<rparr>))"

definition amdgv_memmgr_set_gpu_base :: "amdgv_memmgr \<Rightarrow> u64 \<Rightarrow> int \<times> amdgv_memmgr" where
  "amdgv_memmgr_set_gpu_base memmgr base = (0, memmgr\<lparr>mg_mc_base := base\<rparr>)"

definition amdgv_memmgr_set_cpu_base :: "amdgv_memmgr \<Rightarrow> u64 \<Rightarrow> int \<times> amdgv_memmgr" where
  "amdgv_memmgr_set_cpu_base memmgr base = (0, memmgr\<lparr>mg_cpu_base := base\<rparr>)"

text \<open>\<open>config_memsize\<close> is \<^verbatim>\<open>amdgv_nbio_get_memsize\<close> in bytes.\<close>

definition amdgv_memmgr_addr_in_range :: "u64 \<Rightarrow> amdgv_memmgr \<Rightarrow> u64 \<Rightarrow> bool" where
  "amdgv_memmgr_addr_in_range config_memsize memmgr addr =
     (let limit = snd (amdgv_memmgr_get_limit memmgr);
          (memmgr_start, memmgr_end) =
            (if mg_down memmgr then (config_memsize - limit, config_memsize) else (0, limit))
      in memmgr_start \<le> addr \<and> addr < memmgr_end)"

section \<open>The GART mapping of a system allocation\<close>

text \<open>The code stores the page count and the offset in an \<^verbatim>\<open>int\<close>: both are cut to 32 bits and
  extended with their sign when they meet 64-bit values again.\<close>

definition via_int :: "u64 \<Rightarrow> u64" where
  "via_int x = scast (ucast x :: u32)"

definition amdgv_map_mem_gart :: "mem_env \<Rightarrow> mem_adapter \<Rightarrow> amdgv_memmgr \<Rightarrow> amdgv_memmgr_mem \<Rightarrow>
    bool \<Rightarrow> int \<times> mem_adapter" where
  "amdgv_map_mem_gart env adapt memmgr mem map_op =
     (let pages = via_int (drop_bit AMDGV_GPU_PAGE_SHIFT (mm_len mem));
          offset = via_int (amdgv_memmgr_get_offset memmgr (Some mem));
          maps = map (\<lambda>i. Gart_Map (offset + push_bit AMDGV_GPU_PAGE_SHIFT (of_nat i))
                   (if map_op then (case mm_handle mem of None \<Rightarrow> 0 | Some h \<Rightarrow> me_sg env h i) else 0))
                 [0..<unat pages];
          flush = (if ma_whole_gpu_reset adapt then [] else [Gart_Invalidate])
      in (0, adapt\<lparr>ma_gart_trace := ma_gart_trace adapt @ maps @ flush\<rparr>))"

fun map_sys_loop :: "mem_env \<Rightarrow> mem_adapter \<Rightarrow> amdgv_memmgr \<Rightarrow> amdgv_memmgr_mem list \<Rightarrow> bool \<Rightarrow> int \<Rightarrow>
    int \<times> mem_adapter" where
  "map_sys_loop env adapt memmgr [] map_op ret = (ret, adapt)"
| "map_sys_loop env adapt memmgr (alloc # allocs) map_op ret =
     (if mm_handle alloc \<noteq> None then
        (case amdgv_map_mem_gart env adapt memmgr alloc map_op of
           (ret', adapt') \<Rightarrow> map_sys_loop env adapt' memmgr allocs map_op ret')
      else map_sys_loop env adapt memmgr allocs map_op ret)"

definition amdgv_map_sys_mem_allocs :: "mem_env \<Rightarrow> mem_adapter \<Rightarrow> amdgv_memmgr \<Rightarrow> bool \<Rightarrow>
    int \<times> mem_adapter" where
  "amdgv_map_sys_mem_allocs env adapt memmgr map_op =
     (if \<not> mg_is_init memmgr \<or> \<not> mg_is_sys memmgr then (AMDGV_FAILURE, adapt)
      else map_sys_loop env adapt memmgr (mg_allocs memmgr) map_op 0)"

section \<open>Allocation\<close>

text \<open>What every allocation ends with: the node is linked in after the node at position \<open>k\<close>,
  and the top of memory moves when that node was the last one.\<close>

definition place_node :: "amdgv_memmgr \<Rightarrow> nat \<Rightarrow> amdgv_memmgr_mem \<Rightarrow> amdgv_memmgr" where
  "place_node mgr k n = mgr\<lparr>mg_allocs := insert_at k n (mg_allocs mgr),
     mg_tom := (if prev_off mgr (mg_allocs mgr) k = mg_tom mgr then mm_alloc_off n else mg_tom mgr)\<rparr>"

text \<open>The insertion loop of \<^verbatim>\<open>amdgv_memmgr_reserve_attrs\<close>: before the first node that is not
  longer than the new one.\<close>

fun reserve_insert :: "amdgv_memmgr_mem \<Rightarrow> amdgv_memmgr_mem list \<Rightarrow> amdgv_memmgr_mem list" where
  "reserve_insert new [] = [new]"
| "reserve_insert new (iter # rest) =
     (if mm_len iter \<le> mm_len new then new # iter # rest else iter # reserve_insert new rest)"

definition amdgv_memmgr_reserve_attrs :: "mem_env \<Rightarrow> mem_adapter \<Rightarrow> amdgv_memmgr \<Rightarrow> u64 \<Rightarrow> u64 \<Rightarrow>
    u32 \<Rightarrow> nat option \<times> mem_adapter \<times> amdgv_memmgr" where
  "amdgv_memmgr_reserve_attrs env adapt memmgr len align wid =
     (if \<not> mg_is_init memmgr then (None, adapt, memmgr)
      else
        let (mem_id, adapt1) = amdgv_memmgr_mem_id_add adapt wid in
        if mem_id = MEM_ID_NOT_AVAILABLE then (None, adapt1, memmgr)
        else case me_malloc env of
          None \<Rightarrow> (None, snd (amdgv_memmgr_mem_id_remove adapt1 mem_id), memmgr)
        | Some m \<Rightarrow>
            let new = m\<lparr>mm_len := len, mm_align := align, mm_id := mem_id, mm_alloc_off := 0,
                        mm_handle := None\<rparr>
            in (Some (mm_ptr m), adapt1,
                memmgr\<lparr>mg_reserves := reserve_insert new (mg_reserves memmgr),
                       mg_reserve_count := mg_reserve_count memmgr + 1\<rparr>))"

definition amdgv_memmgr_always_alloc_new :: "u32 \<Rightarrow> bool" where
  "amdgv_memmgr_always_alloc_new wid \<longleftrightarrow>
     wid = MEM_ECC_BAD_PAGE \<or> wid = MEM_ECC_BAD_PAGE_NPS_CANDIDATE"

text \<open>The part of \<^verbatim>\<open>amdgv_memmgr_alloc_unify_align\<close> after the label \<^verbatim>\<open>alloc_new\<close>. The middle
  component is what is written to \<^verbatim>\<open>*gpu_addr\<close>.\<close>

definition alloc_new :: "mem_env \<Rightarrow> mem_adapter \<Rightarrow> amdgv_memmgr \<Rightarrow> u64 \<Rightarrow> u64 \<Rightarrow> u32 \<Rightarrow> u64 \<Rightarrow>
    nat option \<times> u64 option \<times> mem_adapter \<times> amdgv_memmgr" where
  "alloc_new env adapt memmgr len align mem_id va_ptr =
     (case me_malloc env of
        None \<Rightarrow> (None, None, adapt, memmgr)
      | Some m \<Rightarrow>
        let k = amdgv_memmgr_find_size memmgr len align;
            prev = prev_off memmgr (mg_allocs memmgr) k in
        if prev = mg_tom memmgr \<and>
           mg_offset memmgr + mg_size memmgr < AMDGV_MEMMGR_ALIGN (mg_tom memmgr) align + len
        then (None, None, adapt, memmgr)
        else
          let addr = (if mg_down memmgr then AMDGV_MEMMGR_ALIGN (prev + len) align - len
                      else AMDGV_MEMMGR_ALIGN prev align);
              new = m\<lparr>mm_len := len, mm_alloc_off := addr + len, mm_align := align, mm_id := mem_id,
                      mm_handle := None, mm_va := va_ptr\<rparr>
          in
          if \<not> mg_is_sys memmgr then (Some (mm_ptr m), None, adapt, place_node memmgr k new)
          else case me_dma env of
            None \<Rightarrow> (None, None, adapt, memmgr)
          | Some (h, va) \<Rightarrow>
              let new' = new\<lparr>mm_handle := Some h, mm_va := va\<rparr>;
                  adapt' = adapt\<lparr>ma_gart_trace := ma_gart_trace adapt @ [Dma_Alloc h]\<rparr>;
                  adapt'' = (if ma_gart_ready adapt
                             then snd (amdgv_map_mem_gart env adapt' memmgr new' True) else adapt')
              in (Some (mm_ptr m), Some (amdgv_memmgr_get_gpu_addr memmgr (Some new')), adapt'',
                  place_node memmgr k new'))"

definition amdgv_memmgr_alloc_unify_align :: "mem_env \<Rightarrow> mem_adapter \<Rightarrow> amdgv_memmgr \<Rightarrow> u64 \<Rightarrow> u64 \<Rightarrow>
    u32 \<Rightarrow> u64 \<Rightarrow> nat option \<times> u64 option \<times> mem_adapter \<times> amdgv_memmgr" where
  "amdgv_memmgr_alloc_unify_align env adapt memmgr len align wid va_ptr =
     (if \<not> mg_is_init memmgr then (None, None, adapt, memmgr)
      else if mg_is_sys memmgr then
        alloc_new env adapt memmgr (roundup len AMDGV_GPU_PAGE_SIZE)
          (roundup align AMDGV_GPU_PAGE_SIZE) wid va_ptr
      else
        let (mem_id, adapt1) = amdgv_memmgr_mem_id_add adapt wid in
        if mem_id = MEM_ID_NOT_AVAILABLE then (None, None, adapt1, memmgr)
        else if amdgv_in_live_update_seq adapt \<and> \<not> amdgv_memmgr_always_alloc_new wid then
          (case amdgv_memmgr_find_mem_id (mg_allocs memmgr) mem_id of
             Some p \<Rightarrow> (Some p, None, adapt1, memmgr)
           | None \<Rightarrow> alloc_new env adapt1 memmgr len align mem_id va_ptr)
        else alloc_new env adapt1 memmgr len align mem_id va_ptr)"

definition amdgv_memmgr_alloc_align :: "mem_env \<Rightarrow> mem_adapter \<Rightarrow> amdgv_memmgr \<Rightarrow> u64 \<Rightarrow> u64 \<Rightarrow>
    u32 \<Rightarrow> nat option \<times> mem_adapter \<times> amdgv_memmgr" where
  "amdgv_memmgr_alloc_align env adapt memmgr len align wid =
     (if ma_mi350x adapt \<and> ma_status_invalid adapt \<and> \<not> ma_skip_hw_init adapt
      then amdgv_memmgr_reserve_attrs env adapt memmgr len align wid
      else case amdgv_memmgr_alloc_unify_align env adapt memmgr len align wid 0 of
             (p, gpu_addr, adapt', memmgr') \<Rightarrow> (p, adapt', memmgr'))"

text \<open>\<^verbatim>\<open>0x1ULL << memmgr->align\<close>: a shift by 64 or more has no defined result in C; \<open>push_bit\<close>
  gives 0 there.\<close>

definition amdgv_memmgr_alloc :: "mem_env \<Rightarrow> mem_adapter \<Rightarrow> amdgv_memmgr \<Rightarrow> u64 \<Rightarrow> u32 \<Rightarrow>
    nat option \<times> mem_adapter \<times> amdgv_memmgr" where
  "amdgv_memmgr_alloc env adapt memmgr len wid =
     amdgv_memmgr_alloc_align env adapt memmgr len (push_bit (unat (mg_align memmgr)) 1) wid"

definition amdgv_memmgr_alloc_sys_align_with_attr :: "mem_env \<Rightarrow> mem_adapter \<Rightarrow> amdgv_memmgr \<Rightarrow>
    u64 \<Rightarrow> u64 \<Rightarrow> u64 \<Rightarrow> nat option \<times> u64 option \<times> mem_adapter \<times> amdgv_memmgr" where
  "amdgv_memmgr_alloc_sys_align_with_attr env adapt memmgr len align va_ptr =
     amdgv_memmgr_alloc_unify_align env adapt memmgr len align 0 va_ptr"

text \<open>\<^verbatim>\<open>uint32_t align\<close>: the alignment is a 32-bit value here, so both uses of
  \<^verbatim>\<open>AMDGV_MEMMGR_ALIGN\<close> in this function mask with 32 bits; \<^verbatim>\<open>find_size_at\<close> widens it first.\<close>

definition amdgv_memmgr_alloc_align_at :: "mem_env \<Rightarrow> mem_adapter \<Rightarrow> amdgv_memmgr \<Rightarrow> u64 \<Rightarrow> u64 \<Rightarrow>
    u32 \<Rightarrow> nat option \<times> mem_adapter \<times> amdgv_memmgr" where
  "amdgv_memmgr_alloc_align_at env adapt memmgr offset len wid =
     (let align = (ucast (push_bit (unat (mg_align memmgr)) (1::u64)) :: u32) in
      case me_malloc env of
        None \<Rightarrow> (None, adapt, memmgr)
      | Some m \<Rightarrow>
        let (mem_id, adapt1) = amdgv_memmgr_mem_id_add adapt wid in
        if mem_id = MEM_ID_NOT_AVAILABLE then (None, adapt1, memmgr)
        else if mg_offset memmgr + mg_size memmgr < AMDGV_MEMMGR_ALIGN32 offset align + len
        then (None, adapt1, memmgr)
        else case amdgv_memmgr_find_size_at memmgr offset len (ucast align) of
          None \<Rightarrow> (None, adapt1, memmgr)
        | Some k \<Rightarrow>
            let addr = (if mg_down memmgr then AMDGV_MEMMGR_ALIGN32 (offset + len) align - len
                        else AMDGV_MEMMGR_ALIGN32 offset align);
                new = (mem_fresh (mm_ptr m))\<lparr>mm_len := len, mm_alloc_off := addr + len,
                        mm_align := ucast align, mm_id := mem_id\<rparr>
            in (Some (mm_ptr m), adapt1, place_node memmgr k new))"

section \<open>Release\<close>

text \<open>\<^verbatim>\<open>amdgv_memmgr_free\<close> on a node of the allocation list or of the list of reserves; on any
  other node the code works on freed memory.\<close>

definition free_node :: "mem_env \<Rightarrow> mem_adapter \<Rightarrow> amdgv_memmgr \<Rightarrow> amdgv_memmgr_mem \<Rightarrow> u64 \<Rightarrow>
    mem_adapter \<times> amdgv_memmgr" where
  "free_node env adapt memmgr mem prev =
     (let mg1 = (if mm_alloc_off mem = 0 \<and> mg_reserve_count memmgr \<noteq> 0
                 then memmgr\<lparr>mg_reserve_count := mg_reserve_count memmgr - 1\<rparr> else memmgr);
          mg2 = (if mg_tom memmgr \<le> mm_alloc_off mem then mg1\<lparr>mg_tom := prev\<rparr> else mg1) in
      if mg_is_sys memmgr then
        let ad1 = adapt\<lparr>ma_gart_trace := ma_gart_trace adapt @
                     (case mm_handle mem of None \<Rightarrow> [] | Some h \<Rightarrow> [Dma_Free h])\<rparr>;
            ad2 = (if ma_gart_ready adapt then snd (amdgv_map_mem_gart env ad1 mg2 mem False) else ad1)
        in (ad2, mg2)
      else (snd (amdgv_memmgr_mem_id_remove adapt (mm_id mem)), mg2))"

definition amdgv_memmgr_free :: "mem_env \<Rightarrow> mem_adapter \<Rightarrow> amdgv_memmgr \<Rightarrow> nat option \<Rightarrow>
    (int \<times> mem_adapter \<times> amdgv_memmgr) cres" where
  "amdgv_memmgr_free env adapt memmgr mem =
     (case mem of
        None \<Rightarrow> Inr (0, adapt, memmgr)
      | Some p \<Rightarrow>
        (case mem_pos (mg_allocs memmgr) p of
           Some k \<Rightarrow>
             Inr (0, free_node env adapt
               (memmgr\<lparr>mg_allocs := remove_at k (mg_allocs memmgr)\<rparr>) (mg_allocs memmgr ! k)
               (prev_off memmgr (mg_allocs memmgr) k))
         | None \<Rightarrow>
           (case mem_pos (mg_reserves memmgr) p of
              Some k \<Rightarrow>
                Inr (0, free_node env adapt
                  (memmgr\<lparr>mg_reserves := remove_at k (mg_reserves memmgr)\<rparr>) (mg_reserves memmgr ! k)
                  (prev_off memmgr (mg_reserves memmgr) k))
            | None \<Rightarrow> Inl Use_After_Free)))"

lemma length_remove_at: "k < length xs \<Longrightarrow> length (remove_at k xs) = length xs - 1"
  by (simp add: remove_at_def)

lemma mem_pos_lt: "mem_pos ms p = Some k \<Longrightarrow> k < length ms"
  by (induction ms arbitrary: k) (auto split: if_splits)

lemma mem_pos_SomeD: "mem_pos ms p = Some k \<Longrightarrow> mm_ptr (ms ! k) = p"
  by (induction ms arbitrary: k) (auto split: if_splits)

lemma mem_pos_None_iff: "mem_pos ms p = None \<longleftrightarrow> p \<notin> mm_ptr ` set ms"
  by (induction ms) auto

lemma find_id_in: "amdgv_memmgr_find_id ms wid = Some p \<Longrightarrow> p \<in> mm_ptr ` set ms"
  by (induction ms) (auto split: if_splits)

lemma free_node_allocs:
  "free_node env adapt memmgr mem prev = (adapt', memmgr') \<Longrightarrow>
     mg_allocs memmgr' = mg_allocs memmgr \<and> mg_reserves memmgr' = mg_reserves memmgr"
  by (auto simp: free_node_def Let_def split: if_splits)

text \<open>The loop of \<^verbatim>\<open>amdgv_memmgr_free_by_id\<close> ends because each round frees a node.\<close>

function free_by_id_loop :: "mem_env \<Rightarrow> mem_adapter \<Rightarrow> amdgv_memmgr \<Rightarrow> u32 \<Rightarrow>
    (mem_adapter \<times> amdgv_memmgr) cres" where
  "free_by_id_loop env adapt memmgr wid =
     (case amdgv_memmgr_find_id (mg_allocs memmgr) wid of
        None \<Rightarrow> Inr (adapt, memmgr)
      | Some p \<Rightarrow>
          (case amdgv_memmgr_free env adapt memmgr (Some p) of
             Inl e \<Rightarrow> Inl e
           | Inr (ret, adapt', memmgr') \<Rightarrow> free_by_id_loop env adapt' memmgr' wid))"
  by pat_completeness auto
termination
proof (relation "measure (\<lambda>(env, adapt, memmgr, wid). length (mg_allocs memmgr))", goal_cases)
  case 1
  show ?case by simp
next
  case (2 env adapt memmgr wid p r ret q adapt' memmgr')
  obtain k where k: "mem_pos (mg_allocs memmgr) p = Some k"
    using find_id_in [OF 2(1)] mem_pos_None_iff [of "mg_allocs memmgr" p] by auto
  with 2(2-) have "mg_allocs memmgr' = remove_at k (mg_allocs memmgr)"
    by (auto simp: amdgv_memmgr_free_def dest: free_node_allocs [OF sym])
  with mem_pos_lt [OF k] show ?case by (simp add: length_remove_at)
qed

declare free_by_id_loop.simps [simp del]

definition amdgv_memmgr_free_by_id :: "mem_env \<Rightarrow> mem_adapter \<Rightarrow> amdgv_memmgr \<Rightarrow> u32 \<Rightarrow>
    (int \<times> mem_adapter \<times> amdgv_memmgr) cres" where
  "amdgv_memmgr_free_by_id env adapt memmgr wid =
     (if \<not> mg_is_init memmgr then Inr (AMDGV_FAILURE, adapt, memmgr)
      else cbind (free_by_id_loop env adapt memmgr wid) (\<lambda>(adapt', memmgr').
        Inr (0, adapt', memmgr')))"

section \<open>Replacement\<close>

text \<open>The two nodes exchange their place in memory and their place in the list, so that the list
  stays ordered: \<^verbatim>\<open>amdgv_list_swap_entries\<close> on positions \<open>i\<close> and \<open>j\<close>.\<close>

definition swap_at :: "nat \<Rightarrow> nat \<Rightarrow> 'a list \<Rightarrow> 'a list" where
  "swap_at i j xs = xs[i := xs ! j, j := xs ! i]"

definition amdgv_memmgr_alloc_and_replace :: "mem_env \<Rightarrow> mem_adapter \<Rightarrow> amdgv_memmgr \<Rightarrow>
    nat option \<Rightarrow> u32 \<Rightarrow> (nat option \<times> mem_adapter \<times> amdgv_memmgr) cres" where
  "amdgv_memmgr_alloc_and_replace env adapt memmgr mem_old replace_type =
     (case mem_old of
        None \<Rightarrow> Inr (None, adapt, memmgr)
      | Some po \<Rightarrow>
        (case mem_pos (mg_allocs memmgr) po of
           None \<Rightarrow> Inl Use_After_Free
         | Some ko \<Rightarrow>
           let old = mg_allocs memmgr ! ko in
           (case amdgv_memmgr_alloc_align env adapt memmgr (mm_len old) (mm_align old) replace_type of
              (None, adapt', memmgr') \<Rightarrow> Inr (None, adapt', memmgr')
            | (Some pn, adapt', memmgr') \<Rightarrow>
              (case (mem_pos (mg_allocs memmgr') po, mem_pos (mg_allocs memmgr') pn) of
                 (Some i, Some j) \<Rightarrow>
                   let o' = mg_allocs memmgr' ! i; n' = mg_allocs memmgr' ! j;
                       ms = (mg_allocs memmgr')
                         [i := o'\<lparr>mm_alloc_off := mm_alloc_off n', mm_handle := mm_handle n',
                                  mm_va := mm_va n'\<rparr>,
                          j := n'\<lparr>mm_alloc_off := mm_alloc_off o', mm_handle := mm_handle o',
                                  mm_va := mm_va o'\<rparr>]
                   in Inr (Some pn, adapt', memmgr'\<lparr>mg_allocs := swap_at i j ms\<rparr>)
               | _ \<Rightarrow> Inl Use_After_Free))))"

section \<open>Deferred placement\<close>

text \<open>\<^verbatim>\<open>uint32_t align\<close> again: the placement masks with 32 bits.\<close>

definition amdgv_memmgr_assign_reserved_region :: "amdgv_memmgr \<Rightarrow> nat \<Rightarrow>
    (int \<times> amdgv_memmgr) cres" where
  "amdgv_memmgr_assign_reserved_region memmgr p =
     (case mem_pos (mg_reserves memmgr) p of
        None \<Rightarrow> Inl Use_After_Free
      | Some r \<Rightarrow>
        let reserved = mg_reserves memmgr ! r;
            len = mm_len reserved;
            align = (ucast (mm_align reserved) :: u32);
            k = amdgv_memmgr_find_size memmgr len (ucast align);
            prev = prev_off memmgr (mg_allocs memmgr) k in
        if prev = mg_tom memmgr \<and>
           mg_offset memmgr + mg_size memmgr < AMDGV_MEMMGR_ALIGN32 (mg_tom memmgr) align + len
        then Inr (AMDGV_FAILURE, memmgr)
        else
          let addr = (if mg_down memmgr then AMDGV_MEMMGR_ALIGN32 (prev + len) align - len
                      else AMDGV_MEMMGR_ALIGN32 prev align);
              placed = reserved\<lparr>mm_alloc_off := addr + len\<rparr>
          in Inr (0, place_node (memmgr\<lparr>mg_reserves := remove_at r (mg_reserves memmgr)\<rparr>)
                       k placed))"

lemma assign_reserved_shrinks:
  "amdgv_memmgr_assign_reserved_region memmgr p = Inr (0, memmgr') \<Longrightarrow>
     length (mg_reserves memmgr') < length (mg_reserves memmgr)"
  by (auto simp: amdgv_memmgr_assign_reserved_region_def Let_def length_remove_at place_node_def
      split: option.splits if_splits dest: mem_pos_lt)

function alloc_deferred_loop :: "amdgv_memmgr \<Rightarrow> (int \<times> amdgv_memmgr) cres" where
  "alloc_deferred_loop memmgr =
     (case mg_reserves memmgr of
        [] \<Rightarrow> Inr (0, memmgr)
      | first # rest \<Rightarrow>
        (case amdgv_memmgr_assign_reserved_region memmgr (mm_ptr first) of
           Inl e \<Rightarrow> Inl e
         | Inr (ret, memmgr') \<Rightarrow>
             if ret \<noteq> 0 then Inr (AMDGV_FAILURE, memmgr')
             else alloc_deferred_loop
               (memmgr'\<lparr>mg_reserve_count := mg_reserve_count memmgr' - 1\<rparr>)))"
  by pat_completeness auto
termination
  by (relation "measure (\<lambda>m. length (mg_reserves m))")
    (auto dest: assign_reserved_shrinks)

declare alloc_deferred_loop.simps [simp del]

definition amdgv_memmgr_alloc_deferred_region :: "amdgv_memmgr \<Rightarrow> (int \<times> amdgv_memmgr) cres" where
  "amdgv_memmgr_alloc_deferred_region memmgr =
     cbind (alloc_deferred_loop memmgr) (\<lambda>(ret, memmgr').
       if ret \<noteq> 0 then Inr (AMDGV_FAILURE, memmgr')
       else if mg_reserve_count memmgr' \<noteq> 0 then Inr (AMDGV_FAILURE, memmgr')
       else Inr (0, memmgr'))"

section \<open>Reserved pages\<close>

definition rsv_covers :: "amdgv_mem_reservation \<Rightarrow> u64 \<Rightarrow> bool" where
  "rsv_covers rsv addr \<longleftrightarrow> rv_start rsv \<le> addr \<and> addr < rv_start rsv + rv_size rsv"

definition amdgv_memmgr_page_reserve_status_locked :: "amdgv_memmgr \<Rightarrow> u64 \<Rightarrow> int" where
  "amdgv_memmgr_page_reserve_status_locked mgr pfn =
     (let addr = push_bit AMDGV_GPU_PAGE_SHIFT pfn in
      if list_ex (\<lambda>rsv. rsv_covers rsv addr) (mg_pending mgr) then AMDGV_ERR_BUSY
      else if list_ex (\<lambda>rsv. rsv_covers rsv addr) (mg_reserved mgr) then 0
      else AMDGV_FAILURE)"

definition amdgv_memmgr_query_page_reserve_status :: "amdgv_memmgr \<Rightarrow> u64 \<Rightarrow> int" where
  "amdgv_memmgr_query_page_reserve_status mgr pfn =
     amdgv_memmgr_page_reserve_status_locked mgr pfn"

text \<open>\<open>rsv_ok\<close> is whether the reservation itself can be allocated.\<close>

definition amdgv_memmgr_reserve_page :: "bool \<Rightarrow> mem_env \<Rightarrow> mem_adapter \<Rightarrow> amdgv_memmgr \<Rightarrow> u64 \<Rightarrow>
    int \<times> mem_adapter \<times> amdgv_memmgr" where
  "amdgv_memmgr_reserve_page rsv_ok env adapt mgr pfn =
     (let ret = amdgv_memmgr_page_reserve_status_locked mgr pfn in
      if ret \<noteq> AMDGV_FAILURE then (ret, adapt, mgr)
      else if \<not> rsv_ok then (AMDGV_FAILURE, adapt, mgr)
      else
        let rsv = \<lparr>rv_start = push_bit AMDGV_GPU_PAGE_SHIFT pfn, rv_size = AMDGV_GPU_PAGE_SIZE,
                   rv_mem = None\<rparr> in
        case amdgv_memmgr_alloc_align_at env adapt mgr (rv_start rsv) (rv_size rsv)
               MEM_ECC_BAD_PAGE of
          (Some p, adapt', mgr') \<Rightarrow>
            (0, adapt', mgr'\<lparr>mg_reserved := mg_reserved mgr' @ [rsv\<lparr>rv_mem := Some p\<rparr>]\<rparr>)
        | (None, adapt', mgr') \<Rightarrow>
            (AMDGV_ERR_BUSY, adapt', mgr'\<lparr>mg_pending := mg_pending mgr' @ [rsv]\<rparr>))"

section \<open>Destruction\<close>

fun free_reserved_pages :: "mem_env \<Rightarrow> mem_adapter \<Rightarrow> amdgv_memmgr \<Rightarrow>
    amdgv_mem_reservation list \<Rightarrow> (mem_adapter \<times> amdgv_memmgr) cres" where
  "free_reserved_pages env adapt memmgr [] = Inr (adapt, memmgr)"
| "free_reserved_pages env adapt memmgr (rsv # rsvs) =
     cbind (amdgv_memmgr_free env adapt memmgr (rv_mem rsv)) (\<lambda>(ret, adapt', memmgr').
       free_reserved_pages env adapt' memmgr' rsvs)"

definition amdgv_memmgr_fini :: "mem_env \<Rightarrow> mem_adapter \<Rightarrow> amdgv_memmgr \<Rightarrow>
    (int \<times> mem_adapter \<times> amdgv_memmgr) cres" where
  "amdgv_memmgr_fini env adapt memmgr =
     cbind (free_reserved_pages env adapt (memmgr\<lparr>mg_pending := []\<rparr>) (mg_reserved memmgr))
       (\<lambda>(adapt', m).
          Inr (0, adapt', m\<lparr>mg_reserved := [], mg_rsv_lock := False, mg_reserves := [],
                 mg_has_reserves := False, mg_allocs := [], mg_has_allocs := False,
                 mg_offset := 0, mg_size := 0, mg_tom := 0, mg_is_init := False,
                 mg_lock := False\<rparr>))"

section \<open>Live update\<close>

datatype amdgv_mem_owner = MEM_OWNER_PF | MEM_OWNER_GPU | MEM_OWNER_SYS

record amdgv_live_info_memmgr_mem =
  lm_id :: u32
  lm_owner :: amdgv_mem_owner
  lm_alloc_off :: u64
  lm_len :: u64
  lm_align :: u64

text \<open>The export loop; its array has 128 entries. A failure leaves \<^verbatim>\<open>*idx\<close> alone but keeps what
  was written to the array.\<close>

fun export_loop :: "amdgv_memmgr_mem list \<Rightarrow> amdgv_live_info_memmgr_mem list \<Rightarrow> nat \<Rightarrow>
    amdgv_mem_owner \<Rightarrow> int \<times> amdgv_live_info_memmgr_mem list \<times> nat" where
  "export_loop [] arr i owner = (0, arr, i)"
| "export_loop (alloc # allocs) arr i owner =
     (if MEM_ALLOCS_MAX \<le> i then (AMDGV_FAILURE, arr, i)
      else if MEM_ID_GET_ID (mm_id alloc) = MEM_ECC_BAD_PAGE then export_loop allocs arr i owner
      else export_loop allocs
        (arr[i := \<lparr>lm_id = mm_id alloc, lm_owner = owner, lm_alloc_off = mm_alloc_off alloc,
                   lm_len = mm_len alloc, lm_align = mm_align alloc\<rparr>]) (Suc i) owner)"

definition amdgv_memmgr_export_mem_allocs :: "amdgv_memmgr \<Rightarrow> amdgv_live_info_memmgr_mem list \<Rightarrow>
    nat \<Rightarrow> amdgv_mem_owner \<Rightarrow> int \<times> amdgv_live_info_memmgr_mem list \<times> nat" where
  "amdgv_memmgr_export_mem_allocs memmgr arr idx owner =
     (if \<not> mg_has_allocs memmgr then (AMDGV_FAILURE, arr, idx)
      else case export_loop (mg_allocs memmgr) arr idx owner of
             (ret, arr', i) \<Rightarrow> (ret, arr', if ret = 0 then i else idx))"

record mem_managers =
  mn_pf :: amdgv_memmgr
  mn_gpu :: amdgv_memmgr
  mn_sys :: amdgv_memmgr

definition amdgv_memmgr_export_mem_allocs_all :: "mem_managers \<Rightarrow>
    amdgv_live_info_memmgr_mem list \<Rightarrow> int \<times> amdgv_live_info_memmgr_mem list \<times> nat" where
  "amdgv_memmgr_export_mem_allocs_all mgrs arr =
     (let (ret, arr, idx) = amdgv_memmgr_export_mem_allocs (mn_pf mgrs) arr 0 MEM_OWNER_PF;
          (ret, arr, idx) =
            (if mg_is_init (mn_gpu mgrs) \<and> ret = 0
             then amdgv_memmgr_export_mem_allocs (mn_gpu mgrs) arr idx MEM_OWNER_GPU
             else (ret, arr, idx))
      in if mg_is_init (mn_sys mgrs) \<and> ret = 0
         then amdgv_memmgr_export_mem_allocs (mn_sys mgrs) arr idx MEM_OWNER_SYS
         else (ret, arr, idx))"

text \<open>\<open>mallocs i\<close> is the uninitialised node the \<open>i\<close>-th record of the table would get.\<close>

fun import_update :: "amdgv_memmgr_mem list \<Rightarrow> amdgv_live_info_memmgr_mem \<Rightarrow>
    amdgv_memmgr_mem list" where
  "import_update [] r = []"
| "import_update (m # ms) r =
     (if mm_id m = lm_id r
      then m\<lparr>mm_len := lm_len r, mm_alloc_off := lm_alloc_off r, mm_align := lm_align r,
             mm_id := lm_id r\<rparr> # ms
      else m # import_update ms r)"

fun import_loop :: "mem_adapter \<Rightarrow> (nat \<Rightarrow> amdgv_memmgr_mem option) \<Rightarrow> amdgv_memmgr \<Rightarrow>
    amdgv_live_info_memmgr_mem list \<Rightarrow> nat \<Rightarrow> amdgv_mem_owner \<Rightarrow> int \<times> amdgv_memmgr" where
  "import_loop adapt mallocs memmgr [] i owner = (0, memmgr)"
| "import_loop adapt mallocs memmgr (r # rs) i owner =
     (if lm_owner r \<noteq> owner \<or> MEM_ID_GET_ID (lm_id r) = MEM_ECC_BAD_PAGE
      then import_loop adapt mallocs memmgr rs (Suc i) owner
      else if amdgv_memmgr_find_mem_id (mg_allocs memmgr) (lm_id r) \<noteq> None
      then import_loop adapt mallocs
        (memmgr\<lparr>mg_allocs := import_update (mg_allocs memmgr) r\<rparr>) rs (Suc i) owner
      else case mallocs i of
        None \<Rightarrow> (AMDGV_FAILURE, memmgr)
      | Some m \<Rightarrow>
          let new = m\<lparr>mm_len := lm_len r, mm_alloc_off := lm_alloc_off r, mm_align := lm_align r,
                      mm_id := lm_id r,
                      mm_handle := (if ma_gart_size adapt = 0 then None else mm_handle m)\<rparr>
          in import_loop adapt mallocs (memmgr\<lparr>mg_allocs := mg_allocs memmgr @ [new]\<rparr>)
               rs (Suc i) owner)"

definition amdgv_memmgr_import_mem_allocs :: "mem_adapter \<Rightarrow> (nat \<Rightarrow> amdgv_memmgr_mem option) \<Rightarrow>
    amdgv_memmgr \<Rightarrow> amdgv_live_info_memmgr_mem list \<Rightarrow> nat \<Rightarrow> amdgv_mem_owner \<Rightarrow>
    int \<times> amdgv_memmgr" where
  "amdgv_memmgr_import_mem_allocs adapt mallocs memmgr arr mem_allocs_count owner =
     (if \<not> mg_has_allocs memmgr then (AMDGV_FAILURE, memmgr)
      else import_loop adapt mallocs memmgr (take mem_allocs_count arr) 0 owner)"

definition amdgv_memmgr_import_mem_allocs_all :: "mem_adapter \<Rightarrow>
    (amdgv_mem_owner \<Rightarrow> nat \<Rightarrow> amdgv_memmgr_mem option) \<Rightarrow> mem_managers \<Rightarrow>
    amdgv_live_info_memmgr_mem list \<Rightarrow> nat \<Rightarrow> int \<times> mem_managers" where
  "amdgv_memmgr_import_mem_allocs_all adapt mallocs mgrs arr cnt =
     (let (ret, pf) = amdgv_memmgr_import_mem_allocs adapt (mallocs MEM_OWNER_PF) (mn_pf mgrs)
            arr cnt MEM_OWNER_PF;
          (ret, gpu) = (if mg_is_init (mn_gpu mgrs) \<and> ret = 0
             then amdgv_memmgr_import_mem_allocs adapt (mallocs MEM_OWNER_GPU) (mn_gpu mgrs)
                    arr cnt MEM_OWNER_GPU
             else (ret, mn_gpu mgrs));
          (ret, sys) = (if mg_is_init (mn_sys mgrs) \<and> ret = 0
             then amdgv_memmgr_import_mem_allocs adapt (mallocs MEM_OWNER_SYS) (mn_sys mgrs)
                    arr cnt MEM_OWNER_SYS
             else (ret, mn_sys mgrs))
      in (ret, \<lparr>mn_pf = pf, mn_gpu = gpu, mn_sys = sys\<rparr>))"

fun fill_bad_pages_loop :: "mem_adapter \<Rightarrow> amdgv_memmgr_mem list \<Rightarrow> nat option list \<Rightarrow> nat \<Rightarrow>
    int \<times> mem_adapter \<times> amdgv_memmgr_mem list \<times> nat option list \<times> nat" where
  "fill_bad_pages_loop adapt [] bps i = (0, adapt, [], bps, i)"
| "fill_bad_pages_loop adapt (alloc # allocs) bps i =
     (if unat (BAD_PAGE_RECORD_THRESHOLD adapt) \<le> i
      then (AMDGV_FAILURE, adapt, alloc # allocs, bps, i)
      else if MEM_ID_GET_ID (mm_id alloc) = MEM_ECC_BAD_PAGE then
        let (mem_id, adapt') = amdgv_memmgr_mem_id_add adapt MEM_ECC_BAD_PAGE;
            alloc' = alloc\<lparr>mm_id := (if mem_id = MEM_ID_NOT_AVAILABLE then MEM_ECC_BAD_PAGE
                                     else mem_id)\<rparr>
        in case fill_bad_pages_loop adapt' allocs (bps[i := Some (mm_ptr alloc)]) (Suc i) of
             (ret, adapt'', allocs', bps', i') \<Rightarrow> (ret, adapt'', alloc' # allocs', bps', i')
      else case fill_bad_pages_loop adapt allocs bps i of
             (ret, adapt'', allocs', bps', i') \<Rightarrow> (ret, adapt'', alloc # allocs', bps', i'))"

definition amdgv_memmgr_fill_reserved_bad_pages :: "mem_adapter \<Rightarrow> amdgv_memmgr \<Rightarrow>
    nat option list \<Rightarrow> nat \<Rightarrow> int \<times> mem_adapter \<times> amdgv_memmgr \<times> nat option list \<times> nat" where
  "amdgv_memmgr_fill_reserved_bad_pages adapt memmgr bps idx =
     (if \<not> mg_has_allocs memmgr then (AMDGV_FAILURE, adapt, memmgr, bps, idx)
      else case fill_bad_pages_loop adapt (mg_allocs memmgr) bps idx of
        (ret, adapt', allocs', bps', i) \<Rightarrow>
          (ret, adapt', memmgr\<lparr>mg_allocs := allocs'\<rparr>, bps', if ret = 0 then i else idx))"

definition amdgv_memmgr_fill_reserved_bad_pages_all :: "mem_adapter \<Rightarrow> mem_managers \<Rightarrow>
    nat option list \<Rightarrow> int \<times> mem_adapter \<times> mem_managers \<times> nat option list" where
  "amdgv_memmgr_fill_reserved_bad_pages_all adapt mgrs bps =
     (case amdgv_memmgr_fill_reserved_bad_pages adapt (mn_pf mgrs) bps 0 of
        (ret, adapt', pf, bps', idx) \<Rightarrow>
          if ret \<noteq> 0 then (ret, adapt', mgrs\<lparr>mn_pf := pf\<rparr>, bps')
          else case amdgv_memmgr_fill_reserved_bad_pages adapt' (mn_gpu mgrs) bps' idx of
            (ret', adapt'', gpu, bps'', idx') \<Rightarrow>
              (ret', adapt'', mgrs\<lparr>mn_pf := pf, mn_gpu := gpu\<rparr>, bps''))"

section \<open>The PF manager\<close>

text \<open>\<open>res_fb_size\<close> and \<open>res_fb_offset\<close> are the hypervisor's configuration, \<open>None\<close> the value
  \<^verbatim>\<open>AMDGV_USE_DEFAULT_MEMMGR\<close>.\<close>

definition amdgv_memmgr_pf_init :: "bool \<Rightarrow> bool \<Rightarrow> bool \<Rightarrow> bool \<Rightarrow> (u64 \<times> u64) option \<Rightarrow>
    amdgv_memmgr \<Rightarrow> int \<times> amdgv_memmgr" where
  "amdgv_memmgr_pf_init l a r v opt memmgr_pf =
     (let (res_offset, res_size) =
            (case opt of Some (off, sz) \<Rightarrow> (off, sz) | None \<Rightarrow> (0, DEFAULT_MEMORY_MANAGER_SIZE));
          (ret, m) = amdgv_memmgr_init l a r v memmgr_pf res_offset res_size 0 False
      in if ret \<noteq> 0 then (AMDGV_FAILURE, m) else (0, m))"

definition amdgv_memmgr_pf_fini :: "mem_env \<Rightarrow> mem_adapter \<Rightarrow> amdgv_memmgr \<Rightarrow>
    (int \<times> mem_adapter \<times> amdgv_memmgr) cres" where
  "amdgv_memmgr_pf_fini env adapt memmgr_pf =
     (if \<not> mg_is_init memmgr_pf then Inr (0, adapt, memmgr_pf)
      else amdgv_memmgr_fini env adapt memmgr_pf)"

end
