(* ===== verification/GV_Regions.thy ===== *)
theory GV_Regions
  imports GV_Prelude
begin

text \<open>
  Blocks of an address range. A component that hands out blocks keeps them in a list ordered by
  address; \<open>ordered_from\<close> says that they do not overlap, and the locale
  \<open>block_owner\<close> is the contract of such a component: every operation keeps the blocks
  ordered and inside the region, so that no two of them ever share an address. It is interpreted
  on the memory manager and on the block manager of the frame buffer.
\<close>

section \<open>Ordered blocks\<close>

type_synonym block = "nat \<times> nat"

fun ordered_from :: "nat \<Rightarrow> block list \<Rightarrow> bool" where
  "ordered_from h [] = True"
| "ordered_from h ((lo, hi) # bs) = (h \<le> lo \<and> lo \<le> hi \<and> ordered_from hi bs)"

definition block_end :: "nat \<Rightarrow> block list \<Rightarrow> nat" where
  "block_end h bs = (if bs = [] then h else snd (last bs))"

lemma block_end_simps [simp]:
  "block_end h [] = h" "block_end h ((lo, hi) # bs) = block_end hi bs"
  by (simp_all add: block_end_def)

lemma ordered_from_Cons:
  "ordered_from h (b # bs) \<longleftrightarrow> h \<le> fst b \<and> fst b \<le> snd b \<and> ordered_from (snd b) bs"
  by (cases b) simp

lemma block_end_Cons: "block_end h (b # bs) = block_end (snd b) bs"
  by (cases b) simp

lemma ordered_from_mono: "ordered_from h bs \<Longrightarrow> h' \<le> h \<Longrightarrow> ordered_from h' bs"
  by (cases bs) auto

lemma ordered_from_append:
  "ordered_from h (bs @ cs) \<longleftrightarrow> ordered_from h bs \<and> ordered_from (block_end h bs) cs"
  by (induction h bs rule: ordered_from.induct) auto

lemma block_end_append [simp]: "block_end h (bs @ cs) = block_end (block_end h bs) cs"
  by (induction h bs rule: ordered_from.induct) auto

lemma ordered_from_end: "ordered_from h bs \<Longrightarrow> h \<le> block_end h bs"
  by (induction h bs rule: ordered_from.induct) auto

lemma ordered_from_mem:
  "ordered_from h bs \<Longrightarrow> (lo, hi) \<in> set bs \<Longrightarrow> h \<le> lo \<and> lo \<le> hi \<and> hi \<le> block_end h bs"
proof (induction h bs rule: ordered_from.induct)
  case (1 h)
  then show ?case by simp
next
  case (2 h l u bs)
  then show ?case using ordered_from_end [of u bs] by auto
qed

text \<open>Two blocks are apart when no address lies in both.\<close>

definition apart :: "block \<Rightarrow> block \<Rightarrow> bool" where
  "apart b c \<longleftrightarrow> snd b \<le> fst c \<or> snd c \<le> fst b"

lemma apart_no_common: "apart b c \<Longrightarrow> \<not> (fst b \<le> x \<and> x < snd b \<and> fst c \<le> x \<and> x < snd c)"
  by (auto simp: apart_def)

lemma ordered_from_apart:
  assumes "ordered_from h bs" and "i < j" and "j < length bs"
  shows "apart (bs ! i) (bs ! j)"
proof -
  have d: "bs = take (Suc i) bs @ drop (Suc i) bs" by simp
  have "ordered_from (block_end h (take (Suc i) bs)) (drop (Suc i) bs)"
    using assms(1) ordered_from_append d by metis
  moreover have "block_end h (take (Suc i) bs) = snd (bs ! i)"
    using assms by (simp add: block_end_def take_Suc_conv_app_nth)
  moreover have "bs ! j \<in> set (drop (Suc i) bs)"
    using assms by (auto simp: in_set_conv_nth intro!: exI [of _ "j - Suc i"])
  ultimately show ?thesis
    using ordered_from_mem [of "snd (bs ! i)" "drop (Suc i) bs" "fst (bs ! j)" "snd (bs ! j)"]
    by (simp add: apart_def)
qed

lemma ordered_from_insert:
  assumes "ordered_from h (bs @ cs)" and "block_end h bs \<le> lo" and "lo \<le> hi"
    and "cs \<noteq> [] \<Longrightarrow> hi \<le> fst (hd cs)"
  shows "ordered_from h (bs @ (lo, hi) # cs)"
  using assms by (cases cs) (auto simp: ordered_from_append)

lemma ordered_from_remove:
  assumes "ordered_from h (bs @ b # cs)"
  shows "ordered_from h (bs @ cs)"
  using assms by (cases b) (auto simp: ordered_from_append intro: ordered_from_mono)

section \<open>Runs\<close>

text \<open>A sequence of operations, each of which is allowed in the state it is applied to and
  returns without a fault.\<close>

inductive runs :: "('op \<Rightarrow> 's \<Rightarrow> 's cres) \<Rightarrow> ('op \<Rightarrow> 's \<Rightarrow> bool) \<Rightarrow> 's \<Rightarrow> 'op list \<Rightarrow> 's \<Rightarrow> bool"
  for step :: "'op \<Rightarrow> 's \<Rightarrow> 's cres" and allowed :: "'op \<Rightarrow> 's \<Rightarrow> bool" where
  none: "runs step allowed s [] s"
| more: "allowed op s \<Longrightarrow> step op s = Inr s' \<Longrightarrow> runs step allowed s' ops s'' \<Longrightarrow>
           runs step allowed s (op # ops) s''"

inductive_cases runs_NilE: "runs step allowed s [] s'"
inductive_cases runs_ConsE: "runs step allowed s (op # ops) s'"

section \<open>The contract\<close>

locale block_owner =
  fixes blocks :: "'s \<Rightarrow> block list"
    and base :: "'s \<Rightarrow> nat" and limit :: "'s \<Rightarrow> nat"
    and inv :: "'s \<Rightarrow> bool"
    and step :: "'op \<Rightarrow> 's \<Rightarrow> 's cres"
    and allowed :: "'op \<Rightarrow> 's \<Rightarrow> bool"
  assumes inv_ordered: "inv s \<Longrightarrow> ordered_from (base s) (blocks s)"
    and inv_inside: "inv s \<Longrightarrow> block_end (base s) (blocks s) \<le> limit s"
    and step_inv: "inv s \<Longrightarrow> allowed op s \<Longrightarrow> step op s = Inr s' \<Longrightarrow>
      inv s' \<and> base s' = base s \<and> limit s' = limit s"
begin

lemma run_inv: "runs step allowed s ops s' \<Longrightarrow> inv s \<Longrightarrow>
    inv s' \<and> base s' = base s \<and> limit s' = limit s"
proof (induction rule: runs.induct)
  case (none s)
  then show ?case by simp
next
  case (more op s s1 ops s2)
  with step_inv [of s op s1] show ?case by auto
qed

lemma run_isolated:
  assumes "inv s" and "runs step allowed s ops s'" and "i < j" and "j < length (blocks s')"
  shows "apart (blocks s' ! i) (blocks s' ! j)"
  using run_inv [OF assms(2,1)] inv_ordered ordered_from_apart assms(3,4) by blast

lemma run_inside:
  assumes "inv s" and "runs step allowed s ops s'" and "(lo, hi) \<in> set (blocks s')"
  shows "base s \<le> lo \<and> lo \<le> hi \<and> hi \<le> limit s"
proof -
  have "inv s'" "base s' = base s" "limit s' = limit s" using run_inv [OF assms(2,1)] by simp_all
  then show ?thesis
    using ordered_from_mem [OF inv_ordered [of s'] assms(3)] inv_inside [of s'] by simp
qed

text \<open>No address is in two blocks.\<close>

lemma run_owner_unique:
  assumes "inv s" and "runs step allowed s ops s'"
    and "i < length (blocks s')" and "j < length (blocks s')"
    and "fst (blocks s' ! i) \<le> x" and "x < snd (blocks s' ! i)"
    and "fst (blocks s' ! j) \<le> x" and "x < snd (blocks s' ! j)"
  shows "i = j"
proof (rule ccontr)
  assume "i \<noteq> j"
  then consider "i < j" | "j < i" by linarith
  then show False
    by cases (use run_isolated [OF assms(1,2)] apart_no_common assms(3-) in blast)+
qed

end

text \<open>An owner whose allowed operations always return: a run can be continued by every operation
  that is allowed where it stands.\<close>

locale total_owner = block_owner +
  assumes step_total: "inv s \<Longrightarrow> allowed op s \<Longrightarrow> \<exists>s'. step op s = Inr s'"
begin

lemma runs_snoc:
  "runs step allowed s ops s' \<Longrightarrow> allowed op s' \<Longrightarrow> step op s' = Inr s'' \<Longrightarrow>
     runs step allowed s (ops @ [op]) s''"
proof (induction rule: runs.induct)
  case (none s)
  then show ?case by (auto intro: runs.intros)
next
  case (more op' s s1 ops s2)
  then show ?case by (auto intro: runs.more)
qed

lemma run_continues:
  assumes "inv s" and "runs step allowed s ops s'" and "allowed op s'"
  shows "\<exists>s''. runs step allowed s (ops @ [op]) s''"
  using step_total run_inv [OF assms(2,1)] assms(3) runs_snoc [OF assms(2,3)] by blast

end

end
