(* ===== verification/GV_Memmgr_Props.thy ===== *)
theory GV_Memmgr_Props
  imports GV_Memmgr GV_Regions
begin

text \<open>
  What the memory manager guarantees: its blocks are ordered, disjoint and inside the heap
  under every sequence of operations (an interpretation of \<open>block_owner\<close>), allocation is
  first fit, identifiers are unique while they are held, deferred placement, reserved pages and
  the live-update tables behave as the callers rely on, and the cases in which the code does
  not keep these promises.
\<close>

section \<open>Alignment\<close>

lemma unat_ALIGN:
  assumes "a < 64" and "unat addr + 2 ^ a < 2 ^ 64"
  shows "unat (AMDGV_MEMMGR_ALIGN addr (2 ^ a)) = align_nat a (unat addr)"
proof -
  have "unat (addr + 2 ^ a - 1) = unat addr + 2 ^ a - 1"
  proof -
    have "unat (addr + 2 ^ a) = unat addr + 2 ^ a"
      using assms by (simp add: unat_word_ariths unat_two_power)
    moreover have "(1::u64) \<le> addr + 2 ^ a"
      unfolding word_le_nat_alt calculation by (simp add: Suc_le_eq)
    ultimately show ?thesis by (simp add: unat_sub)
  qed
  then show ?thesis
    by (simp add: AMDGV_MEMMGR_ALIGN_def unat_and_not_mask align_nat_def)
qed

section \<open>The allocation list as blocks\<close>

definition blk :: "amdgv_memmgr_mem \<Rightarrow> block" where
  "blk m = (unat (mm_alloc_off m) - unat (mm_len m), unat (mm_alloc_off m))"

definition mgr_blocks :: "amdgv_memmgr \<Rightarrow> block list" where
  "mgr_blocks mgr = map blk (mg_allocs mgr)"

definition node_ok :: "amdgv_memmgr_mem \<Rightarrow> bool" where
  "node_ok m \<longleftrightarrow> 0 < mm_len m \<and> mm_len m \<le> mm_alloc_off m"

definition mgr_base :: "amdgv_memmgr \<Rightarrow> nat" where "mgr_base mgr = unat (mg_offset mgr)"

definition mgr_limit :: "amdgv_memmgr \<Rightarrow> nat" where
  "mgr_limit mgr = unat (mg_offset mgr) + unat (mg_size mgr)"

text \<open>The invariant of a manager in use. The heap ends below \<open>2 ^ 62\<close>, so that no sum of an
  offset, a length and an alignment the code forms wraps around.\<close>

definition mgr_ok :: "amdgv_memmgr \<Rightarrow> bool" where
  "mgr_ok mgr \<longleftrightarrow> mg_is_init mgr \<and> mg_has_allocs mgr \<and> mgr_limit mgr < 2 ^ 62 \<and>
     mg_head_off mgr = mg_offset mgr \<and> (\<forall>m \<in> set (mg_allocs mgr). node_ok m) \<and>
     ordered_from (mgr_base mgr) (mgr_blocks mgr) \<and>
     unat (mg_tom mgr) = block_end (mgr_base mgr) (mgr_blocks mgr) \<and>
     unat (mg_tom mgr) \<le> mgr_limit mgr \<and>
     distinct (map mm_ptr (mg_allocs mgr @ mg_reserves mgr))"

lemma mgr_ok_lims:
  assumes "mgr_ok mgr"
  shows "m \<in> set (mg_allocs mgr) \<Longrightarrow> unat (mm_alloc_off m) \<le> mgr_limit mgr"
    and "mgr_base mgr \<le> mgr_limit mgr"
proof -
  have ord: "ordered_from (mgr_base mgr) (mgr_blocks mgr)"
    "block_end (mgr_base mgr) (mgr_blocks mgr) \<le> mgr_limit mgr"
    using assms by (simp_all add: mgr_ok_def)
  then show "mgr_base mgr \<le> mgr_limit mgr" using ordered_from_end by fastforce
  assume "m \<in> set (mg_allocs mgr)"
  then have "blk m \<in> set (mgr_blocks mgr)" by (simp add: mgr_blocks_def)
  with ordered_from_mem [OF ord(1), of "fst (blk m)" "snd (blk m)"] ord(2)
  show "unat (mm_alloc_off m) \<le> mgr_limit mgr" by (simp add: blk_def)
qed

lemma unat_start: "node_ok m \<Longrightarrow> unat (mm_alloc_off m - mm_len m) = fst (blk m)"
  by (simp add: node_ok_def blk_def unat_sub)

lemma prev_off_block_end:
  assumes "mgr_ok mgr" and "k \<le> length (mg_allocs mgr)"
  shows "unat (prev_off mgr (mg_allocs mgr) k) =
           block_end (mgr_base mgr) (map blk (take k (mg_allocs mgr)))"
proof (cases k)
  case 0
  with assms show ?thesis by (simp add: prev_off_def mgr_ok_def mgr_base_def)
next
  case (Suc i)
  with assms(2) show ?thesis
    by (simp add: prev_off_def block_end_def take_Suc_conv_app_nth blk_def)
qed

text \<open>First fit: the position \<^verbatim>\<open>find_size\<close> returns is the end of the list, or a gap in which an
  aligned address leaves room for more than the request.\<close>

lemma find_size_loop_spec:
  assumes "\<forall>m \<in> set ms. node_ok m \<and> unat (mm_alloc_off m) \<le> B"
    and "ordered_from h (map blk ms)" and "B + 2 ^ a + unat sz < 2 ^ 64" and "a < 64"
    and "2 ^ a dvd unat tom" and "h \<le> unat tom" and "unat tom < B + 2 ^ a"
  shows "\<exists>i \<le> length ms. find_size_loop ms tom sz (2 ^ a) k = k + i \<and>
           (i < length ms \<longrightarrow> (\<exists>T. 2 ^ a dvd T \<and> block_end h (map blk (take i ms)) \<le> T \<and>
              T + unat sz < fst (blk (ms ! i))))"
  using assms(1,2,5-7)
proof (induction ms arbitrary: h tom k)
  case Nil
  then show ?case by simp
next
  case (Cons m ms)
  have m: "node_ok m" "unat (mm_alloc_off m) \<le> B" using Cons.prems(1) by simp_all
  have ms: "\<forall>m \<in> set ms. node_ok m \<and> unat (mm_alloc_off m) \<le> B" using Cons.prems(1) by simp
  have ord: "ordered_from (unat (mm_alloc_off m)) (map blk ms)"
    using Cons.prems(2) by (cases "blk m") (simp, simp add: blk_def)
  have step: "\<exists>i \<le> length (m # ms). find_size_loop ms tom' sz (2 ^ a) (Suc k) = k + i \<and>
       (i < length (m # ms) \<longrightarrow> (\<exists>T. 2 ^ a dvd T \<and> block_end h (map blk (take i (m # ms))) \<le> T \<and>
              T + unat sz < fst (blk ((m # ms) ! i))))"
    if t: "2 ^ a dvd unat tom'" "unat (mm_alloc_off m) \<le> unat tom'" "unat tom' < B + 2 ^ a" for tom'
  proof -
    from Cons.IH [OF ms ord t, of "Suc k"] obtain i where
      "i \<le> length ms" "find_size_loop ms tom' sz (2 ^ a) (Suc k) = Suc k + i"
      "i < length ms \<longrightarrow> (\<exists>T. 2 ^ a dvd T \<and> block_end (unat (mm_alloc_off m)) (map blk (take i ms)) \<le> T
         \<and> T + unat sz < fst (blk (ms ! i)))" by blast
    then show ?thesis by (intro exI [of _ "Suc i"]) (simp add: blk_def)
  qed
  show ?case
  proof (cases "mm_alloc_off m < tom")
    case True
    with step [of tom] Cons.prems(3,5) show ?thesis by (simp add: word_less_nat_alt)
  next
    case skip: False
    have sum: "unat (tom + sz) = unat tom + unat sz"
      using Cons.prems(5) assms(3) by (simp add: unat_word_ariths)
    show ?thesis
    proof (cases "tom + sz < mm_alloc_off m - mm_len m")
      case True
      then have "unat tom + unat sz < fst (blk m)"
        using unat_start [OF m(1)] sum by (simp add: word_less_nat_alt)
      with skip True Cons.prems(3,4) show ?thesis
        by (intro exI [of _ 0]) auto
    next
      case False
      have al: "unat (AMDGV_MEMMGR_ALIGN (mm_alloc_off m) (2 ^ a)) = align_nat a (unat (mm_alloc_off m))"
        by (rule unat_ALIGN) (use assms(3,4) m(2) in simp_all)
      have "unat (AMDGV_MEMMGR_ALIGN (mm_alloc_off m) (2 ^ a)) < B + 2 ^ a"
        using al align_nat_bounds(2) [of a "unat (mm_alloc_off m)"] m(2) by simp
      with step [of "AMDGV_MEMMGR_ALIGN (mm_alloc_off m) (2 ^ a)"] al align_nat_dvd
        align_nat_bounds(1) skip False
      show ?thesis by simp
    qed
  qed
qed

lemma find_size_spec:
  assumes "mgr_ok mgr" and "a \<le> 61" and "unat sz < 2 ^ 62"
  obtains i where "amdgv_memmgr_find_size mgr sz (2 ^ a) = i" and "i \<le> length (mg_allocs mgr)"
    and "i < length (mg_allocs mgr) \<Longrightarrow>
           align_nat a (unat (prev_off mgr (mg_allocs mgr) i)) + unat sz < fst (blk (mg_allocs mgr ! i))"
proof -
  let ?B = "mgr_limit mgr"
  have B: "?B < 2 ^ 62" using assms(1) by (simp add: mgr_ok_def)
  have pa: "(2::nat) ^ a \<le> 2 ^ 61" using assms(2) by (rule power_increasing) simp
  have al: "unat (AMDGV_MEMMGR_ALIGN (mg_offset mgr) (2 ^ a)) = align_nat a (mgr_base mgr)"
    unfolding mgr_base_def
    by (rule unat_ALIGN) (use assms(2) pa mgr_ok_lims(2) [OF assms(1)] B in \<open>simp_all add: mgr_base_def\<close>)
  have "\<exists>i \<le> length (mg_allocs mgr). find_size_loop (mg_allocs mgr)
           (AMDGV_MEMMGR_ALIGN (mg_offset mgr) (2 ^ a)) sz (2 ^ a) 0 = 0 + i \<and>
           (i < length (mg_allocs mgr) \<longrightarrow> (\<exists>T. 2 ^ a dvd T \<and>
              block_end (mgr_base mgr) (map blk (take i (mg_allocs mgr))) \<le> T \<and>
              T + unat sz < fst (blk (mg_allocs mgr ! i))))"
  proof (rule find_size_loop_spec)
    show "\<forall>m \<in> set (mg_allocs mgr). node_ok m \<and> unat (mm_alloc_off m) \<le> ?B"
      using assms(1) mgr_ok_lims(1) by (auto simp: mgr_ok_def)
    show "ordered_from (mgr_base mgr) (map blk (mg_allocs mgr))"
      using assms(1) by (simp add: mgr_ok_def mgr_blocks_def)
    show "?B + 2 ^ a + unat sz < 2 ^ 64" using B pa assms(3) by simp
    show "unat (AMDGV_MEMMGR_ALIGN (mg_offset mgr) (2 ^ a)) < ?B + 2 ^ a"
      using al align_nat_bounds(2) [of a "mgr_base mgr"] mgr_ok_lims(2) [OF assms(1)] by simp
  qed (use al align_nat_dvd align_nat_bounds(1) assms(2) in simp_all)
  then obtain i where i: "i \<le> length (mg_allocs mgr)"
      "amdgv_memmgr_find_size mgr sz (2 ^ a) = i"
      "i < length (mg_allocs mgr) \<longrightarrow> (\<exists>T. 2 ^ a dvd T \<and>
              block_end (mgr_base mgr) (map blk (take i (mg_allocs mgr))) \<le> T \<and>
              T + unat sz < fst (blk (mg_allocs mgr ! i)))"
    by (auto simp: amdgv_memmgr_find_size_def)
  show thesis
  proof (rule that [OF i(2,1)])
    assume "i < length (mg_allocs mgr)"
    with i(3) obtain T where "2 ^ a dvd T"
        "block_end (mgr_base mgr) (map blk (take i (mg_allocs mgr))) \<le> T"
        "T + unat sz < fst (blk (mg_allocs mgr ! i))" by blast
    with align_nat_least prev_off_block_end [OF assms(1) i(1)]
    show "align_nat a (unat (prev_off mgr (mg_allocs mgr) i)) + unat sz < fst (blk (mg_allocs mgr ! i))"
      by (metis add_le_mono1 order_le_less_trans)
  qed
qed

section \<open>Placing and removing a node\<close>

lemma mgr_blocks_split:
  assumes "k \<le> length (mg_allocs mgr)"
  shows "mgr_blocks mgr = map blk (take k (mg_allocs mgr)) @ map blk (drop k (mg_allocs mgr))"
  by (simp add: mgr_blocks_def flip: map_append)

lemma mgr_blocks_place:
  "mgr_blocks (place_node mgr k n) =
     map blk (take k (mg_allocs mgr)) @ blk n # map blk (drop k (mg_allocs mgr))"
  by (simp add: mgr_blocks_def place_node_def insert_at_def)

lemma prev_off_tom_iff:
  assumes "mgr_ok mgr" and "k \<le> length (mg_allocs mgr)"
  shows "prev_off mgr (mg_allocs mgr) k = mg_tom mgr \<longleftrightarrow> k = length (mg_allocs mgr)"
proof (cases "k = length (mg_allocs mgr)")
  case True
  with prev_off_block_end [OF assms] assms(1) show ?thesis
    by (simp add: mgr_ok_def mgr_blocks_def word_unat_eq_iff)
next
  case False
  then have k: "k < length (mg_allocs mgr)" using assms(2) by simp
  let ?m = "mg_allocs mgr ! k"
  have "drop k (mg_allocs mgr) = ?m # drop (Suc k) (mg_allocs mgr)" using k by (rule Cons_nth_drop_Suc [symmetric])
  then have split: "mgr_blocks mgr = map blk (take k (mg_allocs mgr)) @ blk ?m # map blk (drop (Suc k) (mg_allocs mgr))"
    using mgr_blocks_split [OF assms(2)] by simp
  have ord: "ordered_from (mgr_base mgr) (mgr_blocks mgr)"
    and tom: "unat (mg_tom mgr) = block_end (mgr_base mgr) (mgr_blocks mgr)"
    and n: "node_ok ?m"
    using assms(1) k by (simp_all add: mgr_ok_def)
  have "block_end (mgr_base mgr) (map blk (take k (mg_allocs mgr))) \<le> fst (blk ?m)"
    using ord unfolding split ordered_from_append ordered_from_Cons by simp
  also have "fst (blk ?m) < snd (blk ?m)"
    using n by (simp add: node_ok_def blk_def word_less_nat_alt word_le_nat_alt)
  also have "snd (blk ?m) \<le> unat (mg_tom mgr)"
    using ordered_from_mem [OF ord, of "fst (blk ?m)" "snd (blk ?m)"] tom split by simp
  finally show ?thesis
    using False prev_off_block_end [OF assms] by auto
qed

lemma place_node_ok:
  assumes ok: "mgr_ok mgr" and k: "k \<le> length (mg_allocs mgr)" and n: "node_ok n"
    and fresh: "mm_ptr n \<notin> mm_ptr ` set (mg_allocs mgr @ mg_reserves mgr)"
    and lo: "unat (prev_off mgr (mg_allocs mgr) k) \<le> fst (blk n)"
    and hi: "k < length (mg_allocs mgr) \<Longrightarrow> snd (blk n) \<le> fst (blk (mg_allocs mgr ! k))"
    and top: "k = length (mg_allocs mgr) \<Longrightarrow> snd (blk n) \<le> mgr_limit mgr"
  shows "mgr_ok (place_node mgr k n)"
proof -
  let ?m = "place_node mgr k n" and ?bs = "map blk (take k (mg_allocs mgr))"
  let ?cs = "map blk (drop k (mg_allocs mgr))"
  have lh: "fst (blk n) \<le> snd (blk n)" by (simp add: blk_def)
  have ord: "ordered_from (mgr_base mgr) (?bs @ ?cs)"
    using ok mgr_blocks_split [OF k] by (simp add: mgr_ok_def)
  have "?cs \<noteq> [] \<Longrightarrow> snd (blk n) \<le> fst (hd ?cs)"
    using hi by (cases "k < length (mg_allocs mgr)") (simp_all add: hd_drop_conv_nth hd_map)
  then have ord': "ordered_from (mgr_base mgr) (mgr_blocks ?m)"
    unfolding mgr_blocks_place
    using ordered_from_insert [OF ord, of "fst (blk n)" "snd (blk n)"] lo lh
      prev_off_block_end [OF ok k] by simp
  have tom: "unat (mg_tom ?m) = block_end (mgr_base mgr) (mgr_blocks ?m) \<and>
      unat (mg_tom ?m) \<le> mgr_limit mgr"
  proof (cases "k = length (mg_allocs mgr)")
    case True
    then show ?thesis
      using prev_off_tom_iff [OF ok k] top mgr_blocks_place [of mgr k n]
      by (simp add: place_node_def block_end_def blk_def)
  next
    case False
    then have "?cs \<noteq> []" using k by simp
    then have "block_end (mgr_base mgr) (mgr_blocks ?m) = block_end (mgr_base mgr) (mgr_blocks mgr)"
      unfolding mgr_blocks_place mgr_blocks_split [OF k] by (simp add: block_end_def)
    with False show ?thesis
      using prev_off_tom_iff [OF ok k] ok by (simp add: place_node_def mgr_ok_def)
  qed
  have nodes: "\<forall>m \<in> set (mg_allocs ?m). node_ok m"
    using ok n by (auto simp: place_node_def insert_at_def mgr_ok_def dest: in_set_takeD in_set_dropD)
  have dist: "distinct (map mm_ptr (mg_allocs ?m @ mg_reserves ?m))"
  proof -
    have "distinct (map mm_ptr ((take k (mg_allocs mgr) @ drop k (mg_allocs mgr)) @ mg_reserves mgr))"
      using ok by (simp add: mgr_ok_def)
    moreover have "mm_ptr n \<notin> mm_ptr ` set ((take k (mg_allocs mgr) @ drop k (mg_allocs mgr)) @ mg_reserves mgr)"
      using fresh by simp
    ultimately show ?thesis
      by (simp only: place_node_def insert_at_def amdgv_memmgr.simps map_append append_assoc
          append_Cons distinct_append list.map distinct.simps set_append set_map) auto
  qed
  have frame: "mgr_base ?m = mgr_base mgr" "mgr_limit ?m = mgr_limit mgr"
    "mg_is_init ?m = mg_is_init mgr" "mg_has_allocs ?m = mg_has_allocs mgr"
    "mg_head_off ?m = mg_head_off mgr" "mg_offset ?m = mg_offset mgr"
    by (simp_all add: place_node_def mgr_base_def mgr_limit_def)
  show ?thesis
    using ok ord' tom nodes dist unfolding mgr_ok_def frame by simp
qed

section \<open>Allocation\<close>

definition fresh_env :: "mem_env \<Rightarrow> amdgv_memmgr \<Rightarrow> bool" where
  "fresh_env env mgr = (case me_malloc env of None \<Rightarrow> True
     | Some m \<Rightarrow> mm_ptr m \<notin> mm_ptr ` set (mg_allocs mgr @ mg_reserves mgr))"

text \<open>A request the manager serves: not empty, aligned to a power of two, and for a heap that
  grows down a whole number of alignment units long.\<close>

definition request_ok :: "amdgv_memmgr \<Rightarrow> u64 \<Rightarrow> nat \<Rightarrow> bool" where
  "request_ok mgr len a \<longleftrightarrow> a \<le> 61 \<and> 0 < len \<and> unat len < 2 ^ 62 \<and>
     (mg_down mgr \<longrightarrow> 2 ^ a dvd unat len)"

lemma pow_le61: "a \<le> 61 \<Longrightarrow> (2::nat) ^ a \<le> 2 ^ 61"
  by (rule power_increasing) simp_all

lemma placement:
  assumes ok: "mgr_ok mgr" and req: "request_ok mgr len a" and prev: "unat prev \<le> mgr_limit mgr"
  shows "unat (AMDGV_MEMMGR_ALIGN prev (2 ^ a)) = align_nat a (unat prev)"
    and "unat ((if mg_down mgr then AMDGV_MEMMGR_ALIGN (prev + len) (2 ^ a) - len
          else AMDGV_MEMMGR_ALIGN prev (2 ^ a))) = align_nat a (unat prev)"
    and "align_nat a (unat prev) + unat len < 2 ^ 64"
proof -
  have B: "mgr_limit mgr < 2 ^ 62" using ok by (simp add: mgr_ok_def)
  have a: "a < 64" "(2::nat) ^ a \<le> 2 ^ 61" and len: "unat len < 2 ^ 62"
    using req pow_le61 by (simp_all add: request_ok_def)
  show 1: "unat (AMDGV_MEMMGR_ALIGN prev (2 ^ a)) = align_nat a (unat prev)"
    by (rule unat_ALIGN) (use a B prev in simp_all)
  have lt: "align_nat a (unat prev) < unat prev + 2 ^ a" by (rule align_nat_bounds)
  then show "align_nat a (unat prev) + unat len < 2 ^ 64" using a(2) B len prev by simp
  have sum: "unat (prev + len) = unat prev + unat len"
    using B len prev by (simp add: unat_word_ariths)
  show "unat ((if mg_down mgr then AMDGV_MEMMGR_ALIGN (prev + len) (2 ^ a) - len
          else AMDGV_MEMMGR_ALIGN prev (2 ^ a))) = align_nat a (unat prev)"
  proof (cases "mg_down mgr")
    case True
    then have d: "2 ^ a dvd unat len" using req by (simp add: request_ok_def)
    have "unat (AMDGV_MEMMGR_ALIGN (prev + len) (2 ^ a)) = align_nat a (unat prev + unat len)"
      by (subst unat_ALIGN) (use a B prev len sum in simp_all)
    then have "unat (AMDGV_MEMMGR_ALIGN (prev + len) (2 ^ a)) = align_nat a (unat prev) + unat len"
      using align_nat_add [OF d] by simp
    moreover from this have "len \<le> AMDGV_MEMMGR_ALIGN (prev + len) (2 ^ a)"
      by (simp add: word_le_nat_alt)
    ultimately show ?thesis using True by (simp add: unat_sub)
  next
    case False
    with 1 show ?thesis by simp
  qed
qed

text \<open>One allocation, on every branch: no node, no room above the top of memory, no DMA memory,
  or a block at the first place that fits.\<close>

theorem alloc_new_cases:
  assumes ok: "mgr_ok mgr" and req: "request_ok mgr len a" and fresh: "fresh_env env mgr"
  obtains (fail) "fst (alloc_new env adapt mgr len (2 ^ a) wid va) = None"
      and "snd (snd (snd (alloc_new env adapt mgr len (2 ^ a) wid va))) = mgr"
      and "fst (snd (snd (alloc_new env adapt mgr len (2 ^ a) wid va))) = adapt"
      and "me_malloc env = None \<or> (mg_is_sys mgr \<and> me_dma env = None) \<or>
           amdgv_memmgr_find_size mgr len (2 ^ a) = length (mg_allocs mgr) \<and>
           mgr_limit mgr < align_nat a (unat (mg_tom mgr)) + unat len"
  | (placed) i n where "i \<le> length (mg_allocs mgr)"
      and "fst (alloc_new env adapt mgr len (2 ^ a) wid va) = Some (mm_ptr n)"
      and "snd (snd (snd (alloc_new env adapt mgr len (2 ^ a) wid va))) = place_node mgr i n"
      and "mgr_ok (place_node mgr i n)"
      and "mm_len n = len" and "mm_align n = 2 ^ a" and "mm_id n = wid" and "node_ok n"
      and "2 ^ a dvd fst (blk n)"
      and "mm_ptr n \<notin> mm_ptr ` set (mg_allocs mgr @ mg_reserves mgr)"
      and "amdgv_memmgr_find_size mgr len (2 ^ a) = i"
      and "blk n = (align_nat a (block_end (mgr_base mgr) (map blk (take i (mg_allocs mgr)))),
             align_nat a (block_end (mgr_base mgr) (map blk (take i (mg_allocs mgr)))) + unat len)"
      and "i < length (mg_allocs mgr) \<Longrightarrow> snd (blk n) < fst (blk (mg_allocs mgr ! i))"
      and "i = length (mg_allocs mgr) \<Longrightarrow> snd (blk n) \<le> mgr_limit mgr"
proof -
  let ?r = "alloc_new env adapt mgr len (2 ^ a) wid va"
  have B: "mgr_limit mgr < 2 ^ 62" using ok by (simp add: mgr_ok_def)
  have len: "0 < unat len" "unat len < 2 ^ 62" using req
    by (simp_all add: request_ok_def word_less_nat_alt)
  obtain i where i: "amdgv_memmgr_find_size mgr len (2 ^ a) = i" "i \<le> length (mg_allocs mgr)"
    "i < length (mg_allocs mgr) \<Longrightarrow>
       align_nat a (unat (prev_off mgr (mg_allocs mgr) i)) + unat len < fst (blk (mg_allocs mgr ! i))"
    by (rule find_size_spec [OF ok, of a len]) (use req in \<open>simp_all add: request_ok_def\<close>)
  let ?prev = "prev_off mgr (mg_allocs mgr) i"
  have tom: "?prev = mg_tom mgr \<longleftrightarrow> i = length (mg_allocs mgr)"
    by (rule prev_off_tom_iff [OF ok i(2)])
  have prev: "unat ?prev \<le> mgr_limit mgr"
  proof (cases i)
    case 0
    then show ?thesis using ok mgr_ok_lims(2) [OF ok] by (simp add: prev_off_def mgr_ok_def mgr_base_def)
  next
    case (Suc j)
    then show ?thesis using i(2) mgr_ok_lims(1) [OF ok] by (simp add: prev_off_def)
  qed
  note pl = placement [OF ok req prev]
  let ?addr = "if mg_down mgr then AMDGV_MEMMGR_ALIGN (?prev + len) (2 ^ a) - len
          else AMDGV_MEMMGR_ALIGN ?prev (2 ^ a)"
  have lim: "unat (mg_offset mgr + mg_size mgr) = mgr_limit mgr"
    using B by (simp add: mgr_limit_def unat_word_ariths)
  have room: "(mg_offset mgr + mg_size mgr < AMDGV_MEMMGR_ALIGN ?prev (2 ^ a) + len) =
      (mgr_limit mgr < align_nat a (unat ?prev) + unat len)"
    unfolding word_less_nat_alt lim using pl by (simp add: unat_word_ariths)
  show thesis
  proof (cases "me_malloc env")
    case None
    then show ?thesis using fail by (simp add: alloc_new_def)
  next
    case (Some m)
    show ?thesis
    proof (cases "i = length (mg_allocs mgr) \<and> mgr_limit mgr < align_nat a (unat ?prev) + unat len")
      case True
      then have pt: "?prev = mg_tom mgr" using tom by simp
      with True room have "?r = (None, None, adapt, mgr)"
        by (simp add: alloc_new_def Let_def Some i(1))
      then show ?thesis using fail True i(1) pt by simp
    next
      case False
      then have noroom: "\<not> (?prev = mg_tom mgr \<and>
          mg_offset mgr + mg_size mgr < AMDGV_MEMMGR_ALIGN (mg_tom mgr) (2 ^ a) + len)"
        using tom room by auto
      define n where "n = (let n0 = m\<lparr>mm_len := len, mm_alloc_off := ?addr + len, mm_align := 2 ^ a,
            mm_id := wid, mm_handle := None, mm_va := va\<rparr> in
        if mg_is_sys mgr then (case me_dma env of None \<Rightarrow> n0 | Some (h, v) \<Rightarrow>
            n0\<lparr>mm_handle := Some h, mm_va := v\<rparr>) else n0)"
      have nf: "mm_ptr n = mm_ptr m" "mm_len n = len" "mm_alloc_off n = ?addr + len"
          "mm_align n = 2 ^ a" "mm_id n = wid"
        by (simp_all add: n_def Let_def split: option.split)
      have off: "unat (mm_alloc_off n) = align_nat a (unat ?prev) + unat len"
        using pl by (simp add: nf unat_word_ariths)
      then have b: "blk n = (align_nat a (unat ?prev), align_nat a (unat ?prev) + unat len)"
        by (simp add: blk_def nf)
      have nok: "node_ok n"
        using len off by (simp add: node_ok_def nf word_less_nat_alt word_le_nat_alt)
      have fr: "mm_ptr n \<notin> mm_ptr ` set (mg_allocs mgr @ mg_reserves mgr)"
        using fresh Some nf(1) by (simp add: fresh_env_def)
      have placed_ok: "mgr_ok (place_node mgr i n)"
      proof (rule place_node_ok [OF ok i(2) nok fr])
        show "unat ?prev \<le> fst (blk n)" using align_nat_bounds(1) by (simp add: b)
        show "i < length (mg_allocs mgr) \<Longrightarrow> snd (blk n) \<le> fst (blk (mg_allocs mgr ! i))"
          using i(3) by (simp add: b)
        show "i = length (mg_allocs mgr) \<Longrightarrow> snd (blk n) \<le> mgr_limit mgr"
          using False by (simp add: b)
      qed
      have full: "i = length (mg_allocs mgr) \<Longrightarrow> snd (blk n) \<le> mgr_limit mgr" using False by (simp add: b)
      show ?thesis
      proof (cases "mg_is_sys mgr \<and> me_dma env = None")
        case True
        with noroom have "?r = (None, None, adapt, mgr)"
          by (simp add: alloc_new_def Let_def Some i(1))
        then show ?thesis using fail True by simp
      next
        case False
        have "\<exists>g ad. ?r = (Some (mm_ptr n), g, ad, place_node mgr i n)"
        proof (cases "mg_is_sys mgr")
          case sys: True
          then obtain h v where dma: "me_dma env = Some (h, v)" using False by auto
          show ?thesis
            using sys dma noroom
            by (simp add: alloc_new_def Let_def n_def Some i(1))
        next
          case nosys: False
          then show ?thesis using noroom by (simp add: alloc_new_def Let_def n_def Some i(1))
        qed
        then have "fst ?r = Some (mm_ptr n)" "snd (snd (snd ?r)) = place_node mgr i n" by auto
        then show ?thesis
          using placed [OF i(2), of n] placed_ok nf(2,4,5) nok fr align_nat_dvd i(1,3) full
          by (simp add: b prev_off_block_end [OF ok i(2)])
      qed
    qed
  qed
qed

section \<open>Placement at a given offset\<close>

lemma find_size_at_loop_spec:
  assumes "\<forall>m \<in> set ms. node_ok m" and "ordered_from h (map blk ms)"
    and "unat tom + unat sz < 2 ^ 64" and "h \<le> unat tom"
    and "find_size_at_loop ms tom sz k = Some j"
  shows "\<exists>i \<le> length ms. j = k + i \<and> block_end h (map blk (take i ms)) \<le> unat tom \<and>
           (i < length ms \<longrightarrow> unat tom + unat sz \<le> fst (blk (ms ! i)))"
  using assms(1,2,4,5)
proof (induction ms arbitrary: h k)
  case Nil
  then show ?case by simp
next
  case (Cons m ms)
  have m: "node_ok m" using Cons.prems(1) by simp
  have ord: "ordered_from (snd (blk m)) (map blk ms)"
    using Cons.prems(2) by (simp add: ordered_from_Cons)
  have sum: "unat (tom + sz) = unat tom + unat sz"
    using assms(3) by (simp add: unat_word_ariths)
  show ?case
  proof (cases "mm_alloc_off m \<le> tom \<and> find_size_at_loop ms tom sz (Suc k) = Some j")
    case True
    then have "snd (blk m) \<le> unat tom" by (simp add: blk_def word_le_nat_alt)
    from Cons.IH [OF _ ord this conjunct2 [OF True]] Cons.prems(1) obtain i where
      "i \<le> length ms" "j = Suc k + i" "block_end (snd (blk m)) (map blk (take i ms)) \<le> unat tom"
      "i < length ms \<longrightarrow> unat tom + unat sz \<le> fst (blk (ms ! i))" by auto
    then show ?thesis by (intro exI [of _ "Suc i"]) (simp add: block_end_Cons)
  next
    case False
    with Cons.prems(4) have "j = k" "tom + sz \<le> mm_alloc_off m - mm_len m"
      by (auto split: if_splits)
    then have "unat tom + unat sz \<le> fst (blk m)"
      using unat_start [OF m] sum by (simp add: word_le_nat_alt)
    with \<open>j = k\<close> Cons.prems(3) show ?thesis by (intro exI [of _ 0]) simp
  qed
qed

text \<open>Below 4 GiB the 32-bit mask does no harm.\<close>

lemma ALIGN32_low:
  assumes "a \<le> 31" and "unat addr + 2 ^ a < 2 ^ 32"
  shows "AMDGV_MEMMGR_ALIGN32 addr (2 ^ a) = AMDGV_MEMMGR_ALIGN addr (2 ^ a)"
proof -
  have pa: "(2::nat) ^ a \<le> 2 ^ 31" using assms(1) by (rule power_increasing) simp
  have uc: "(ucast ((2::u32) ^ a) :: u64) = 2 ^ a"
    by (rule bit_word_eqI) (use assms(1) in \<open>auto simp: bit_simps\<close>)
  let ?x = "addr + 2 ^ a - 1"
  have "unat (addr + 2 ^ a) = unat addr + 2 ^ a"
    using assms by (simp add: unat_word_ariths unat_two_power)
  moreover have "(1::u64) \<le> addr + 2 ^ a"
    unfolding word_le_nat_alt calculation by (simp add: Suc_le_eq)
  ultimately have "unat ?x = unat addr + 2 ^ a - 1" by (simp add: unat_sub)
  then have "unat ?x < 2 ^ 32" using assms(2) by simp
  then have "?x < 2 ^ 32" by (simp add: word_less_nat_alt)
  then have low: "\<not> bit ?x n" if "32 \<le> n" for n
    using that by (metis bit_take_bit_iff less_mask_eq not_less take_bit_eq_mask)
  show ?thesis
    unfolding AMDGV_MEMMGR_ALIGN32_def AMDGV_MEMMGR_ALIGN_def uc
  proof (rule bit_word_eqI)
    fix n assume "n < LENGTH(64)"
    show "bit (?x AND ucast (NOT ((2::u32) ^ a - 1))) n = bit (?x AND NOT (2 ^ a - 1)) n"
    proof (cases "32 \<le> n")
      case True
      with low show ?thesis by (simp add: bit_and_iff)
    next
      case False
      then show ?thesis
        using \<open>n < LENGTH(64)\<close>
        by (auto simp: bit_simps simp flip: mask_eq_exp_minus_1)
    qed
  qed
qed

lemma ucast_power32: "a \<le> 31 \<Longrightarrow> (ucast ((2::u32) ^ a) :: u64) = 2 ^ a"
  by (rule bit_word_eqI) (auto simp: bit_simps)

lemma ucast_power64: "a \<le> 31 \<Longrightarrow> (ucast ((2::u64) ^ a) :: u32) = 2 ^ a"
  by (rule bit_word_eqI) (auto simp: bit_simps)

text \<open>A request for a given place that the code serves correctly: the place is inside the heap
  and below 4 GiB.\<close>

definition request_at_ok :: "amdgv_memmgr \<Rightarrow> u64 \<Rightarrow> u64 \<Rightarrow> bool" where
  "request_at_ok mgr offset len \<longleftrightarrow>
     unat (mg_align mgr) \<le> 31 \<and> 0 < len \<and> mg_offset mgr \<le> offset \<and>
     unat offset + unat len + 2 ^ unat (mg_align mgr) < 2 ^ 32 \<and>
     (mg_down mgr \<longrightarrow> 2 ^ unat (mg_align mgr) dvd unat len)"

lemma alloc_align_at_cases:
  assumes ok: "mgr_ok mgr" and req: "request_at_ok mgr offset len" and fresh: "fresh_env env mgr"
  obtains (fail) "fst (amdgv_memmgr_alloc_align_at env adapt mgr offset len wid) = None"
      and "snd (snd (amdgv_memmgr_alloc_align_at env adapt mgr offset len wid)) = mgr"
  | (placed) i n where "i \<le> length (mg_allocs mgr)"
      and "fst (amdgv_memmgr_alloc_align_at env adapt mgr offset len wid) = Some (mm_ptr n)"
      and "snd (snd (amdgv_memmgr_alloc_align_at env adapt mgr offset len wid)) = place_node mgr i n"
      and "mgr_ok (place_node mgr i n)" and "mm_len n = len"
      and "fst (blk n) = align_nat (unat (mg_align mgr)) (unat offset)"
proof -
  let ?r = "amdgv_memmgr_alloc_align_at env adapt mgr offset len wid"
  let ?a = "unat (mg_align mgr)"
  have a: "?a \<le> 31" and off: "unat offset + unat len + 2 ^ ?a < 2 ^ 32"
    and len: "0 < unat len"
    using req by (simp_all add: request_at_ok_def word_less_nat_alt)
  have B: "mgr_limit mgr < 2 ^ 62" using ok by (simp add: mgr_ok_def)
  have al: "push_bit ?a (1::u64) = 2 ^ ?a" by (simp add: push_bit_of_1)
  have low: "AMDGV_MEMMGR_ALIGN32 offset (2 ^ ?a) = AMDGV_MEMMGR_ALIGN offset (2 ^ ?a)"
    by (rule ALIGN32_low) (use a off in simp_all)
  have T: "unat (AMDGV_MEMMGR_ALIGN offset (2 ^ ?a)) = align_nat ?a (unat offset)"
    by (rule unat_ALIGN) (use a off in simp_all)
  let ?T = "align_nat ?a (unat offset)"
  have Tb: "unat offset \<le> ?T" "?T < unat offset + 2 ^ ?a" by (rule align_nat_bounds)+
  have lim: "unat (mg_offset mgr + mg_size mgr) = mgr_limit mgr"
    using B by (simp add: mgr_limit_def unat_word_ariths)
  let ?addr = "if mg_down mgr then AMDGV_MEMMGR_ALIGN32 (offset + len) (2 ^ ?a) - len
               else AMDGV_MEMMGR_ALIGN32 offset (2 ^ ?a)"
  have addr: "unat ?addr = ?T"
  proof (cases "mg_down mgr")
    case True
    then have d: "2 ^ ?a dvd unat len" using req by (simp add: request_at_ok_def)
    have sum: "unat (offset + len) = unat offset + unat len"
      using off by (simp add: unat_word_ariths)
    have "unat (AMDGV_MEMMGR_ALIGN32 (offset + len) (2 ^ ?a)) = align_nat ?a (unat offset + unat len)"
      by (subst ALIGN32_low, (use a off sum in simp_all)[2], subst unat_ALIGN)
        (use a off sum in simp_all)
    then have e: "unat (AMDGV_MEMMGR_ALIGN32 (offset + len) (2 ^ ?a)) = ?T + unat len"
      using align_nat_add [OF d] by simp
    then have "len \<le> AMDGV_MEMMGR_ALIGN32 (offset + len) (2 ^ ?a)"
      by (simp add: word_le_nat_alt)
    with e True show ?thesis by (simp add: unat_sub)
  next
    case False
    with low T show ?thesis by simp
  qed
  obtain mem_id adapt1 where mid: "amdgv_memmgr_mem_id_add adapt wid = (mem_id, adapt1)"
    by (cases "amdgv_memmgr_mem_id_add adapt wid") auto
  note eval = amdgv_memmgr_alloc_align_at_def al ucast_power64 [OF a] ucast_power32 [OF a] mid
    low Let_def
  show thesis
  proof (cases "me_malloc env")
    case None
    then show ?thesis using fail by (simp add: amdgv_memmgr_alloc_align_at_def Let_def)
  next
    case (Some m)
    show ?thesis
    proof (cases "mem_id = MEM_ID_NOT_AVAILABLE \<or>
        mg_offset mgr + mg_size mgr < AMDGV_MEMMGR_ALIGN offset (2 ^ ?a) + len \<or>
        amdgv_memmgr_find_size_at mgr offset len (2 ^ ?a) = None")
      case True
      then have "\<exists>ad. ?r = (None, ad, mgr)" by (auto simp: eval Some)
      then show ?thesis using fail by auto
    next
      case False
      then obtain i where i: "amdgv_memmgr_find_size_at mgr offset len (2 ^ ?a) = Some i" by auto
      have cap: "?T + unat len \<le> mgr_limit mgr"
        using False T lim Tb(2) off by (simp add: not_less word_le_nat_alt unat_word_ariths)
      have base: "mgr_base mgr \<le> ?T"
        using req Tb(1) by (simp add: request_at_ok_def word_le_nat_alt mgr_base_def)
      have spec: "i \<le> length (mg_allocs mgr) \<and>
          block_end (mgr_base mgr) (map blk (take i (mg_allocs mgr))) \<le> ?T \<and>
          (i < length (mg_allocs mgr) \<longrightarrow> ?T + unat len \<le> fst (blk (mg_allocs mgr ! i)))"
        using find_size_at_loop_spec [of "mg_allocs mgr" "mgr_base mgr"
            "AMDGV_MEMMGR_ALIGN offset (2 ^ ?a)" len 0 i] ok i T base cap B
        by (simp add: mgr_ok_def mgr_blocks_def amdgv_memmgr_find_size_at_def)
      define n where "n = (mem_fresh (mm_ptr m))\<lparr>mm_len := len, mm_alloc_off := ?addr + len,
          mm_align := 2 ^ ?a, mm_id := mem_id\<rparr>"
      have noff: "unat (mm_alloc_off n) = ?T + unat len"
        using addr cap B by (simp add: n_def unat_word_ariths)
      then have b: "blk n = (?T, ?T + unat len)" by (simp add: blk_def n_def)
      have nok: "node_ok n"
        using len noff by (simp add: node_ok_def n_def word_less_nat_alt word_le_nat_alt)
      have fr: "mm_ptr n \<notin> mm_ptr ` set (mg_allocs mgr @ mg_reserves mgr)"
        using fresh Some by (simp add: fresh_env_def n_def mem_fresh_def)
      have "mgr_ok (place_node mgr i n)"
        by (rule place_node_ok [OF ok _ nok fr])
          (use spec cap prev_off_block_end [OF ok] in \<open>simp_all add: b\<close>)
      moreover have "\<exists>ad. ?r = (Some (mm_ptr n), ad, place_node mgr i n)"
        using False by (simp add: eval Some i n_def mem_fresh_def)
      ultimately show ?thesis
        using placed [of i n] spec b by (auto simp: n_def)
    qed
  qed
qed

section \<open>Release\<close>

lemma remove_node_ok:
  assumes ok: "mgr_ok mgr" and k: "k < length (mg_allocs mgr)"
  shows "mgr_ok (mgr\<lparr>mg_allocs := remove_at k (mg_allocs mgr),
     mg_tom := (if mg_tom mgr \<le> mm_alloc_off (mg_allocs mgr ! k)
                then prev_off mgr (mg_allocs mgr) k else mg_tom mgr)\<rparr>)" (is "mgr_ok ?m")
proof -
  let ?n = "mg_allocs mgr ! k" and ?bs = "map blk (take k (mg_allocs mgr))"
  let ?cs = "map blk (drop (Suc k) (mg_allocs mgr))"
  have split: "mgr_blocks mgr = ?bs @ blk ?n # ?cs"
    using mgr_blocks_split [of k mgr] k by (simp add: Cons_nth_drop_Suc [symmetric])
  have blocks: "mgr_blocks ?m = ?bs @ ?cs" by (simp add: mgr_blocks_def remove_at_def)
  have ord: "ordered_from (mgr_base mgr) (?bs @ blk ?n # ?cs)"
    using ok split by (simp add: mgr_ok_def)
  then have ord': "ordered_from (mgr_base mgr) (mgr_blocks ?m)"
    unfolding blocks by (rule ordered_from_remove)
  have tom: "unat (mg_tom mgr) = block_end (snd (blk ?n)) ?cs"
    using ok split by (simp add: mgr_ok_def block_end_Cons)
  have nodes: "\<forall>m \<in> set (mg_allocs mgr). node_ok m" using ok by (simp add: mgr_ok_def)
  have "unat (mg_tom ?m) = block_end (mgr_base mgr) (mgr_blocks ?m)"
  proof (cases "?cs = []")
    case True
    then have "unat (mg_tom mgr) = unat (mm_alloc_off ?n)" using tom by (simp add: blk_def)
    with True prev_off_block_end [OF ok, of k] k blocks show ?thesis
      by (simp add: word_le_nat_alt)
  next
    case False
    then have k': "Suc k < length (mg_allocs mgr)" by simp
    let ?n2 = "mg_allocs mgr ! Suc k"
    have cs: "?cs = blk ?n2 # map blk (drop (Suc (Suc k)) (mg_allocs mgr))"
      using k' by (simp add: Cons_nth_drop_Suc [symmetric])
    have o2: "ordered_from (snd (blk ?n)) ?cs"
      using ord by (simp add: ordered_from_append ordered_from_Cons)
    then have "snd (blk ?n) \<le> fst (blk ?n2)" unfolding cs by (simp add: ordered_from_Cons)
    also have "\<dots> < snd (blk ?n2)"
      using nodes nth_mem [OF k'] by (fastforce simp: node_ok_def blk_def word_less_nat_alt word_le_nat_alt)
    also have "\<dots> \<le> unat (mg_tom mgr)"
      using ordered_from_mem [OF o2, of "fst (blk ?n2)" "snd (blk ?n2)"] tom cs by simp
    finally have "\<not> mg_tom mgr \<le> mm_alloc_off ?n"
      by (simp add: word_le_nat_alt blk_def)
    with False tom blocks show ?thesis by (simp add: block_end_def)
  qed
  moreover have "block_end (mgr_base mgr) (mgr_blocks ?m) \<le> mgr_limit mgr"
  proof -
    have "block_end (mgr_base mgr) (?bs @ ?cs) \<le> block_end (mgr_base mgr) (?bs @ blk ?n # ?cs)"
    proof (cases "?cs = []")
      case True
      then show ?thesis
        using ord by (simp add: ordered_from_append ordered_from_Cons block_end_Cons)
    next
      case False
      then show ?thesis by (simp add: block_end_def)
    qed
    also have "\<dots> \<le> mgr_limit mgr" using ok split by (simp add: mgr_ok_def)
    finally show ?thesis by (simp only: blocks)
  qed
  moreover have "\<forall>m \<in> set (mg_allocs ?m). node_ok m"
    using nodes by (auto simp: remove_at_def dest: in_set_takeD in_set_dropD)
  moreover have "distinct (map mm_ptr (mg_allocs ?m @ mg_reserves ?m))"
  proof -
    have "mg_allocs mgr = take k (mg_allocs mgr) @ ?n # drop (Suc k) (mg_allocs mgr)"
      using k by (simp add: Cons_nth_drop_Suc)
    then have "distinct (map mm_ptr ((take k (mg_allocs mgr) @ ?n # drop (Suc k) (mg_allocs mgr)) @
        mg_reserves mgr))"
      using ok by (simp add: mgr_ok_def)
    then show ?thesis by (auto simp: remove_at_def)
  qed
  moreover have "mgr_base ?m = mgr_base mgr" "mgr_limit ?m = mgr_limit mgr"
    by (simp_all add: mgr_base_def mgr_limit_def)
  ultimately show ?thesis using ok ord' unfolding mgr_ok_def by simp
qed

lemma free_spec:
  assumes ok: "mgr_ok mgr" and p: "mem_pos (mg_allocs mgr) p = Some k"
  shows "\<exists>adapt'. amdgv_memmgr_free env adapt mgr (Some p) = Inr (0, adapt',
     mgr\<lparr>mg_allocs := remove_at k (mg_allocs mgr),
     mg_tom := (if mg_tom mgr \<le> mm_alloc_off (mg_allocs mgr ! k)
                then prev_off mgr (mg_allocs mgr) k else mg_tom mgr)\<rparr>)"
proof -
  have "node_ok (mg_allocs mgr ! k)"
    using ok mem_pos_lt [OF p] by (simp add: mgr_ok_def)
  then have "mm_alloc_off (mg_allocs mgr ! k) \<noteq> 0" by (auto simp: node_ok_def)
  then show ?thesis
    using p by (auto simp: amdgv_memmgr_free_def free_node_def Let_def)
qed

section \<open>The rounding of system allocations\<close>

lemma unat_roundup:
  assumes "unat x + 4096 < 2 ^ 64"
  shows "unat (roundup x AMDGV_GPU_PAGE_SIZE) = align_nat 12 (unat x)"
proof -
  have s: "unat (x + (AMDGV_GPU_PAGE_SIZE - 1)) = unat x + 4095"
    using assms by (simp add: unat_word_ariths)
  have "(unat x + 4095) div 4096 * 4096 \<le> unat x + 4095" by (rule div_times_less_eq_dividend)
  then have "(unat x + 4095) div 4096 * 4096 < 2 ^ 64" using assms by linarith
  then show ?thesis
    using s by (simp add: roundup_def unat_word_ariths unat_div_distrib align_nat_def)
qed

lemma roundup_power:
  assumes "a \<le> 61"
  shows "roundup (2 ^ a) AMDGV_GPU_PAGE_SIZE = 2 ^ max a 12"
proof -
  have pa: "(2::nat) ^ a \<le> 2 ^ 61" using assms by (rule pow_le61)
  have u: "unat ((2::u64) ^ a) = 2 ^ a" using assms by (simp add: unat_two_power)
  have "unat (roundup (2 ^ a) AMDGV_GPU_PAGE_SIZE) = align_nat 12 (2 ^ a)"
    by (subst unat_roundup) (use u pa in simp_all)
  also have "\<dots> = 2 ^ max a 12"
  proof (cases "12 \<le> a")
    case True
    then have "(2::nat) ^ 12 dvd 2 ^ a" by (rule le_imp_power_dvd)
    with True show ?thesis using align_nat_fix [of 12 "2 ^ a"] by (simp add: max_def)
  next
    case False
    then have "(2::nat) ^ a \<le> 2 ^ 12" by (intro power_increasing) simp_all
    moreover have "(1::nat) \<le> 2 ^ a" by simp
    ultimately have "align_nat 12 (2 ^ a) \<le> 4096" "2 ^ a \<le> align_nat 12 (2 ^ a)"
      by (auto intro: align_nat_least align_nat_bounds(1))
    moreover have "4096 dvd align_nat 12 (2 ^ a)" using align_nat_dvd [of 12 "2 ^ a"] by simp
    ultimately have "align_nat 12 (2 ^ a) = 4096"
      using \<open>1 \<le> 2 ^ a\<close> dvd_imp_le [of 4096 "align_nat 12 (2 ^ a)"] by linarith
    with False show ?thesis by (simp add: max_def)
  qed
  also have "\<dots> = unat ((2::u64) ^ max a 12)" using assms by (simp add: unat_two_power)
  finally show ?thesis by (simp add: word_unat_eq_iff)
qed

section \<open>The manager as a block owner\<close>

datatype mem_op =
    Mem_Alloc mem_env u64 nat u32
  | Mem_Alloc_Sys mem_env u64 nat u64
  | Mem_Alloc_At mem_env u64 u64 u32
  | Mem_Reserve_Page bool mem_env u64
  | Mem_Free mem_env nat

fun mem_step :: "mem_op \<Rightarrow> mem_adapter \<times> amdgv_memmgr \<Rightarrow> (mem_adapter \<times> amdgv_memmgr) cres" where
  "mem_step (Mem_Alloc env len a wid) (adapt, mgr) =
     Inr (snd (amdgv_memmgr_alloc_align env adapt mgr len (2 ^ a) wid))"
| "mem_step (Mem_Alloc_Sys env len a va) (adapt, mgr) =
     Inr (snd (snd (amdgv_memmgr_alloc_sys_align_with_attr env adapt mgr len (2 ^ a) va)))"
| "mem_step (Mem_Alloc_At env offset len wid) (adapt, mgr) =
     Inr (snd (amdgv_memmgr_alloc_align_at env adapt mgr offset len wid))"
| "mem_step (Mem_Reserve_Page rsv_ok env pfn) (adapt, mgr) =
     Inr (snd (amdgv_memmgr_reserve_page rsv_ok env adapt mgr pfn))"
| "mem_step (Mem_Free env p) (adapt, mgr) =
     cbind (amdgv_memmgr_free env adapt mgr (Some p)) (\<lambda>(ret, adapt', mgr'). Inr (adapt', mgr'))"

definition served :: "amdgv_memmgr \<Rightarrow> u64 \<Rightarrow> nat \<Rightarrow> bool" where
  "served mgr len a \<longleftrightarrow> a \<le> 61 \<and> 0 < len \<and> unat len < 2 ^ 61 \<and>
     (mg_down mgr \<longrightarrow> 2 ^ a dvd unat len \<and> (mg_is_sys mgr \<longrightarrow> a \<le> 12))"

fun mem_allowed :: "mem_op \<Rightarrow> mem_adapter \<times> amdgv_memmgr \<Rightarrow> bool" where
  "mem_allowed (Mem_Alloc env len a wid) (adapt, mgr) = (served mgr len a \<and> fresh_env env mgr)"
| "mem_allowed (Mem_Alloc_Sys env len a va) (adapt, mgr) = (served mgr len a \<and> fresh_env env mgr)"
| "mem_allowed (Mem_Alloc_At env offset len wid) (adapt, mgr) =
     (request_at_ok mgr offset len \<and> fresh_env env mgr)"
| "mem_allowed (Mem_Reserve_Page rsv_ok env pfn) (adapt, mgr) =
     (request_at_ok mgr (push_bit AMDGV_GPU_PAGE_SHIFT pfn) AMDGV_GPU_PAGE_SIZE \<and> fresh_env env mgr)"
| "mem_allowed (Mem_Free env p) (adapt, mgr) = (p \<in> mm_ptr ` set (mg_allocs mgr))"

definition mem_inv :: "amdgv_memmgr \<Rightarrow> amdgv_memmgr \<Rightarrow> bool" where
  "mem_inv mgr mgr' \<longleftrightarrow> mgr_ok mgr' \<and> mgr_base mgr' = mgr_base mgr \<and> mgr_limit mgr' = mgr_limit mgr"

lemma mem_inv_refl: "mgr_ok mgr \<Longrightarrow> mem_inv mgr mgr"
  by (simp add: mem_inv_def)

lemma mem_inv_self: "mem_inv mgr mgr = mgr_ok mgr"
  by (simp add: mem_inv_def)

lemma mem_inv_place: "mgr_ok (place_node mgr i n) \<Longrightarrow> mem_inv mgr (place_node mgr i n)"
  by (simp add: mem_inv_def place_node_def mgr_base_def mgr_limit_def)

lemma alloc_new_inv:
  assumes "mgr_ok mgr" and "request_ok mgr len a" and "fresh_env env mgr"
  shows "mem_inv mgr (snd (snd (snd (alloc_new env adapt mgr len (2 ^ a) wid va))))"
  using assms
  by (cases rule: alloc_new_cases [where adapt = adapt and wid = wid and va = va])
    (simp_all add: assms(1) mem_inv_self mem_inv_place)

lemma served_nosys: "served mgr len a \<Longrightarrow> request_ok mgr len a"
  by (simp add: served_def request_ok_def)

lemma served_sys:
  assumes "served mgr len a" and "mg_is_sys mgr"
  shows "request_ok mgr (roundup len AMDGV_GPU_PAGE_SIZE) (max a 12)"
proof -
  have len: "0 < unat len" "unat len < 2 ^ 61"
    using assms by (simp_all add: served_def word_less_nat_alt)
  have r: "unat (roundup len AMDGV_GPU_PAGE_SIZE) = align_nat 12 (unat len)"
    by (rule unat_roundup) (use len in simp)
  have "align_nat 12 (unat len) < unat len + 2 ^ 12" "unat len \<le> align_nat 12 (unat len)"
    by (rule align_nat_bounds)+
  with r len show ?thesis
    using assms align_nat_dvd [of 12 "unat len"]
    by (auto simp: request_ok_def served_def word_less_nat_alt max_def)
qed

lemma alloc_unify_inv:
  assumes "mgr_ok mgr" and "served mgr len a" and "fresh_env env mgr"
  shows "mem_inv mgr (snd (snd (snd (amdgv_memmgr_alloc_unify_align env adapt mgr len (2 ^ a) wid va))))"
proof (cases "mg_is_sys mgr")
  case True
  have "a \<le> 61" using assms(2) by (simp add: served_def)
  with True alloc_new_inv [OF assms(1) served_sys [OF assms(2) True] assms(3)] assms(1)
  show ?thesis
    by (simp add: amdgv_memmgr_alloc_unify_align_def roundup_power mem_inv_refl)
next
  case False
  with alloc_new_inv [OF assms(1) served_nosys [OF assms(2)] assms(3)] mem_inv_refl [OF assms(1)]
  show ?thesis
    by (simp add: amdgv_memmgr_alloc_unify_align_def split: prod.split option.split)
qed

lemma set_reserve_insert: "set (reserve_insert n ms) = insert n (set ms)"
  by (induction ms) auto

lemma distinct_reserve_insert:
  "distinct (map mm_ptr ms) \<Longrightarrow> mm_ptr n \<notin> mm_ptr ` set ms \<Longrightarrow>
     distinct (map mm_ptr (reserve_insert n ms))"
  by (induction ms) (auto simp: set_reserve_insert)

lemma reserve_attrs_inv:
  assumes ok: "mgr_ok mgr" and fresh: "fresh_env env mgr"
  shows "mem_inv mgr (snd (snd (amdgv_memmgr_reserve_attrs env adapt mgr len align wid)))"
proof -
  have "mgr_ok (mgr\<lparr>mg_reserves := reserve_insert n (mg_reserves mgr), mg_reserve_count := c\<rparr>)"
    if "mm_ptr n \<notin> mm_ptr ` set (mg_allocs mgr @ mg_reserves mgr)" for n c
    using ok that
    by (auto simp: mgr_ok_def mgr_base_def mgr_limit_def mgr_blocks_def set_reserve_insert
        intro: distinct_reserve_insert)
  with ok fresh show ?thesis
    by (cases "me_malloc env")
      (simp_all add: amdgv_memmgr_reserve_attrs_def fresh_env_def mem_inv_def mgr_base_def
        mgr_limit_def Let_def split: prod.split)
qed

lemma alloc_align_inv:
  assumes "mgr_ok mgr" and "served mgr len a" and "fresh_env env mgr"
  shows "mem_inv mgr (snd (snd (amdgv_memmgr_alloc_align env adapt mgr len (2 ^ a) wid)))"
  using reserve_attrs_inv [OF assms(1,3)] alloc_unify_inv [OF assms, of adapt wid 0]
  by (cases "amdgv_memmgr_alloc_unify_align env adapt mgr len (2 ^ a) wid 0")
    (simp add: amdgv_memmgr_alloc_align_def)

lemma alloc_align_at_inv:
  assumes "mgr_ok mgr" and "request_at_ok mgr offset len" and "fresh_env env mgr"
  shows "mem_inv mgr (snd (snd (amdgv_memmgr_alloc_align_at env adapt mgr offset len wid)))"
  using assms
  by (cases rule: alloc_align_at_cases [where adapt = adapt and wid = wid])
    (simp_all add: assms(1) mem_inv_self mem_inv_place)

lemma mgr_ok_rsv [simp]:
  "mgr_ok (mgr\<lparr>mg_reserved := r\<rparr>) = mgr_ok mgr" "mgr_ok (mgr\<lparr>mg_pending := p\<rparr>) = mgr_ok mgr"
  by (simp_all add: mgr_ok_def mgr_base_def mgr_limit_def mgr_blocks_def)

lemma mem_inv_rsv [simp]:
  "mem_inv mgr (mgr'\<lparr>mg_reserved := r\<rparr>) = mem_inv mgr mgr'"
  "mem_inv mgr (mgr'\<lparr>mg_pending := p\<rparr>) = mem_inv mgr mgr'"
  by (simp_all add: mem_inv_def mgr_base_def mgr_limit_def)

lemma reserve_page_inv:
  assumes "mgr_ok mgr" and "request_at_ok mgr (push_bit 12 pfn) AMDGV_GPU_PAGE_SIZE"
    and "fresh_env env mgr"
  shows "mem_inv mgr (snd (snd (amdgv_memmgr_reserve_page rsv_ok env adapt mgr pfn)))"
  using alloc_align_at_inv [OF assms, of adapt MEM_ECC_BAD_PAGE] mem_inv_refl [OF assms(1)]
  by (cases "amdgv_memmgr_alloc_align_at env adapt mgr (push_bit 12 pfn) AMDGV_GPU_PAGE_SIZE
        MEM_ECC_BAD_PAGE")
    (simp add: amdgv_memmgr_reserve_page_def Let_def split: option.split)

lemma free_inv:
  assumes "mgr_ok mgr" and "p \<in> mm_ptr ` set (mg_allocs mgr)"
  shows "\<exists>adapt' mgr'. amdgv_memmgr_free env adapt mgr (Some p) = Inr (0, adapt', mgr') \<and>
           mem_inv mgr mgr'"
proof -
  obtain k where k: "mem_pos (mg_allocs mgr) p = Some k"
    using assms(2) mem_pos_None_iff [of "mg_allocs mgr" p] by (cases "mem_pos (mg_allocs mgr) p") auto
  from free_spec [OF assms(1) k, of env adapt] remove_node_ok [OF assms(1) mem_pos_lt [OF k]]
  show ?thesis by (auto simp: mem_inv_def mgr_base_def mgr_limit_def)
qed

lemma mem_step_inv:
  assumes ok: "mgr_ok (snd s)" and al: "mem_allowed op s"
  shows "\<exists>s'. mem_step op s = Inr s' \<and> mgr_ok (snd s') \<and> mgr_base (snd s') = mgr_base (snd s) \<and>
    mgr_limit (snd s') = mgr_limit (snd s)"
proof -
  obtain adapt mgr where s: "s = (adapt, mgr)" by (cases s)
  have "\<exists>s'. mem_step op (adapt, mgr) = Inr s' \<and> mem_inv mgr (snd s')"
  proof (cases op)
    case (Mem_Alloc env len a wid)
    then show ?thesis using alloc_align_inv [of mgr len a env adapt wid] ok al s by simp
  next
    case (Mem_Alloc_Sys env len a va)
    then show ?thesis using alloc_unify_inv [of mgr len a env adapt 0 va] ok al s
      by (simp add: amdgv_memmgr_alloc_sys_align_with_attr_def)
  next
    case (Mem_Alloc_At env offset len wid)
    then show ?thesis using alloc_align_at_inv [of mgr offset len env adapt wid] ok al s by simp
  next
    case (Mem_Reserve_Page rsv_ok env pfn)
    then show ?thesis using reserve_page_inv [of mgr pfn env rsv_ok adapt] ok al s by simp
  next
    case (Mem_Free env p)
    then show ?thesis using free_inv [of mgr p env adapt] ok al s by auto
  qed
  then show ?thesis by (auto simp: s mem_inv_def)
qed

interpretation heap: total_owner "\<lambda>s. mgr_blocks (snd s)" "\<lambda>s. mgr_base (snd s)"
  "\<lambda>s. mgr_limit (snd s)" "\<lambda>s. mgr_ok (snd s)" mem_step mem_allowed
proof unfold_locales
  fix s :: "mem_adapter \<times> amdgv_memmgr" and op
  show "ordered_from (mgr_base (snd s)) (mgr_blocks (snd s))" if "mgr_ok (snd s)"
    using that by (simp add: mgr_ok_def)
  show "block_end (mgr_base (snd s)) (mgr_blocks (snd s)) \<le> mgr_limit (snd s)" if "mgr_ok (snd s)"
    using that by (simp add: mgr_ok_def)
  assume ok: "mgr_ok (snd s)" and al: "mem_allowed op s"
  show "\<exists>s'. mem_step op s = Inr s'" using mem_step_inv [OF ok al] by blast
  fix s'
  assume "mem_step op s = Inr s'"
  then show "mgr_ok (snd s') \<and> mgr_base (snd s') = mgr_base (snd s) \<and>
      mgr_limit (snd s') = mgr_limit (snd s)"
    using mem_step_inv [OF ok al] by auto
qed

section \<open>Identifiers\<close>

lemma low_clear_bit_spec:
  "\<exists>n. low_clear_bit b i = i + n \<and> \<not> bit b n \<and> (\<forall>m < n. bit b m)"
proof (induction b i rule: low_clear_bit.induct)
  case (1 b i)
  show ?case
  proof (cases "b AND 1 \<noteq> 0")
    case True
    then have b0: "bit b 0" by (simp add: and_one_eq bit_0 odd_iff_mod_2_eq_one)
    from "1.IH" [OF True] obtain n where
      n: "low_clear_bit (drop_bit 1 b) (Suc i) = Suc i + n" "\<not> bit b (Suc n)"
        "\<forall>m < n. bit b (Suc m)" by (auto simp: bit_drop_bit_eq)
    have "bit b m" if "m < Suc n" for m using that n(3) b0 by (cases m) auto
    with n True show ?thesis by (intro exI [of _ "Suc n"]) (simp add: low_clear_bit.simps [of b i])
  next
    case False
    then have "\<not> bit b 0" by (simp add: and_one_eq bit_0 odd_iff_mod_2_eq_one)
    with False show ?thesis by (intro exI [of _ 0]) (simp add: low_clear_bit.simps [of b i])
  qed
qed

lemma low_clear_bit_lt:
  assumes "b \<noteq> - 1"
  shows "\<exists>n < 64. low_clear_bit b i = i + n \<and> \<not> bit b n"
proof -
  obtain n where n: "low_clear_bit b i = i + n" "\<not> bit b n" "\<forall>m < n. bit b m"
    using low_clear_bit_spec by blast
  have "n < 64"
  proof (rule ccontr)
    assume "\<not> n < 64"
    then have "b = - 1" using n(3) by (intro bit_word_eqI) auto
    with assms show False by simp
  qed
  with n show ?thesis by blast
qed

lemma bitmap_scan_spec:
  "\<exists>i \<le> length bs. bitmap_scan bs k = k + i \<and> (i < length bs \<longrightarrow> bs ! i \<noteq> - 1)"
proof (induction bs arbitrary: k)
  case Nil
  then show ?case by simp
next
  case (Cons b bs)
  from Cons.IH [of "Suc k"] obtain i where "i \<le> length bs" "bitmap_scan bs (Suc k) = Suc k + i"
    "i < length bs \<longrightarrow> bs ! i \<noteq> - 1" by blast
  then show ?case
    by (cases "b = - 1") (auto intro: exI [of _ "Suc i"] exI [of _ 0])
qed

lemma mem_id_scan_spec:
  "\<exists>i \<le> length ms. mem_id_scan ms wid k = k + i \<and> (i < length ms \<longrightarrow> mb_id (ms ! i) = wid) \<and>
     (\<forall>j < i. mb_id (ms ! j) \<noteq> wid)"
proof (induction ms arbitrary: k)
  case Nil
  then show ?case by simp
next
  case (Cons m ms)
  show ?case
  proof (cases "wid = mb_id m")
    case True
    then show ?thesis by (intro exI [of _ 0]) simp
  next
    case False
    from Cons.IH [of "Suc k"] obtain i where i: "i \<le> length ms" "mem_id_scan ms wid (Suc k) = Suc k + i"
      "i < length ms \<longrightarrow> mb_id (ms ! i) = wid" "\<forall>j < i. mb_id (ms ! j) \<noteq> wid" by blast
    have "mb_id ((m # ms) ! j) \<noteq> wid" if "j < Suc i" for j
      using that i(4) False by (cases j) auto
    with i(1-3) False show ?thesis by (intro exI [of _ "Suc i"]) simp
  qed
qed

text \<open>The table the driver allocates: 256 slots of four bitmaps, of which the first
  \<open>valid_mem_id_count\<close> are in use.\<close>

definition mem_ids_ok :: "mem_adapter \<Rightarrow> bool" where
  "mem_ids_ok adapt \<longleftrightarrow> length (ma_mem_ids adapt) = MEM_ID_COUNT_MAX \<and>
     (\<forall>m \<in> set (ma_mem_ids adapt). length (mb_bitmaps m) = MAX_BITMAP_COUNT)"

lemma unat_lt8: "unat (x::u8) < 256"
  using unsigned_less [of x] by simp

text \<open>Index \<open>idx\<close> of the identifier \<open>wid\<close> is held by an allocation.\<close>

definition id_held :: "mem_adapter \<Rightarrow> u32 \<Rightarrow> nat \<Rightarrow> bool" where
  "id_held adapt wid idx \<longleftrightarrow> mem_id_find adapt wid < unat (ma_valid_count adapt) \<and>
     bit (mb_bitmaps (ma_mem_ids adapt ! mem_id_find adapt wid) ! (idx div 64)) (idx mod 64)"

lemma mem_id_find_le: "mem_ids_ok adapt \<Longrightarrow> mem_id_find adapt wid \<le> unat (ma_valid_count adapt)"
  using mem_id_scan_spec [of "take (unat (ma_valid_count adapt)) (ma_mem_ids adapt)" wid 0]
  by (auto simp: mem_id_find_def)

lemma mem_id_find_hit:
  assumes "mem_ids_ok adapt" and "mem_id_find adapt wid < unat (ma_valid_count adapt)"
  shows "mb_id (ma_mem_ids adapt ! mem_id_find adapt wid) = wid"
proof -
  let ?l = "take (unat (ma_valid_count adapt)) (ma_mem_ids adapt)"
  have "length ?l = unat (ma_valid_count adapt)" using assms(1) unat_lt8 [of "ma_valid_count adapt"]
    by (simp add: mem_ids_ok_def)
  with mem_id_scan_spec [of ?l wid 0] assms(2) show ?thesis by (auto simp: mem_id_find_def)
qed

lemma mem_id_scan_unique:
  assumes "i < length ms" and "mb_id (ms ! i) = wid" and "\<forall>j < i. mb_id (ms ! j) \<noteq> wid"
  shows "mem_id_scan ms wid k = k + i"
  using assms
proof (induction ms arbitrary: i k)
  case Nil
  then show ?case by simp
next
  case (Cons m ms)
  show ?case
  proof (cases i)
    case 0
    with Cons.prems show ?thesis by simp
  next
    case (Suc i')
    have "mb_id m \<noteq> wid" using Cons.prems(3) Suc by force
    moreover have "\<forall>j < i'. mb_id (ms ! j) \<noteq> wid" using Cons.prems(3) Suc by fastforce
    ultimately show ?thesis using Cons.IH [of i' "Suc k"] Cons.prems(1,2) Suc by simp
  qed
qed

lemma mem_id_scan_cong:
  "map mb_id ms = map mb_id ms' \<Longrightarrow> mem_id_scan ms wid k = mem_id_scan ms' wid k"
proof (induction ms arbitrary: ms' k)
  case Nil
  then show ?case by simp
next
  case (Cons m ms)
  then obtain m' ms'' where "ms' = m' # ms''" "mb_id m = mb_id m'" "map mb_id ms = map mb_id ms''"
    by (cases ms') auto
  with Cons.IH show ?case by simp
qed

text \<open>The encoding of an identifier with its index.\<close>

lemma mem_id_encode:
  fixes wid :: u32
  assumes "wid < 0x10000" and "index < 256"
  defines "c \<equiv> (wid AND 0xFFFF) OR push_bit 16 (of_nat index AND 0xFFFF)"
  shows "MEM_ID_GET_ID c = wid" and "unat (MEM_ID_GET_INDEX c) = index" and "c \<noteq> MEM_ID_NOT_AVAILABLE"
proof -
  have m: "(0xFFFF :: u32) = mask 16" by (simp add: mask_eq_exp_minus_1)
  have w: "wid = take_bit 16 wid"
  proof -
    have "unat wid < 2 ^ 16" using assms(1) by (simp add: word_less_nat_alt)
    then show ?thesis by (simp add: word_unat_eq_iff unsigned_take_bit_eq take_bit_nat_eq_self)
  qed
  have nb: "\<not> bit wid n" if "16 \<le> n" for n
    using that by (subst w) (simp add: bit_take_bit_iff)
  show "MEM_ID_GET_ID c = wid"
    unfolding MEM_ID_GET_ID_def c_def m
    by (rule bit_word_eqI) (use nb in \<open>auto simp: bit_simps not_le\<close>, meson nb not_le)
  have un: "unat (of_nat index :: u32) = index" using assms(2) by (simp add: unat_of_nat)
  then have "unat (take_bit 16 (of_nat index :: u32)) = index"
    using assms(2) by (simp add: unsigned_take_bit_eq take_bit_nat_eq_self)
  then have ib: "(of_nat index :: u32) AND mask 16 = of_nat index"
    using un by (simp add: word_unat_eq_iff take_bit_eq_mask)
  have "MEM_ID_GET_INDEX c = of_nat index AND mask 16"
    unfolding MEM_ID_GET_INDEX_def c_def m
    by (rule bit_word_eqI) (auto simp: bit_simps nb)
  then show "unat (MEM_ID_GET_INDEX c) = index"
    by (simp add: ib un)
  then show "c \<noteq> MEM_ID_NOT_AVAILABLE"
    using assms(2) by (auto simp: MEM_ID_GET_INDEX_def)
qed

text \<open>Writing the bitmaps of one entry.\<close>

lemma id_held_update:
  assumes ok: "mem_ids_ok adapt" and i: "mem_id_find adapt wid = i" "i < unat (ma_valid_count adapt)"
    and bs: "length bs = MAX_BITMAP_COUNT"
  defines "adapt' \<equiv> adapt\<lparr>ma_mem_ids := (ma_mem_ids adapt)[i := (ma_mem_ids adapt ! i)\<lparr>mb_bitmaps := bs\<rparr>]\<rparr>"
  shows "mem_ids_ok adapt'" and "mem_id_find adapt' w = mem_id_find adapt w"
    and "id_held adapt' w j = (if w = wid then bit (bs ! (j div 64)) (j mod 64) else id_held adapt w j)"
proof -
  have len: "length (ma_mem_ids adapt) = 256" using ok by (simp add: mem_ids_ok_def)
  have il: "i < length (ma_mem_ids adapt)" using i(2) len unat_lt8 [of "ma_valid_count adapt"] by simp
  show ok': "mem_ids_ok adapt'"
    using ok bs set_update_subset_insert [of "ma_mem_ids adapt" i "(ma_mem_ids adapt ! i)\<lparr>mb_bitmaps := bs\<rparr>"]
    by (auto simp: mem_ids_ok_def adapt'_def)
  have "map mb_id (ma_mem_ids adapt') = map mb_id (ma_mem_ids adapt)"
    using il by (simp add: adapt'_def map_update list_update_same_conv)
  then have "map mb_id (take n (ma_mem_ids adapt')) = map mb_id (take n (ma_mem_ids adapt))" for n
    by (simp flip: take_map)
  then show find: "mem_id_find adapt' w = mem_id_find adapt w" for w
    unfolding mem_id_find_def by (intro mem_id_scan_cong) (simp add: adapt'_def)
  have other: "mem_id_find adapt w \<noteq> i" if "w \<noteq> wid" "mem_id_find adapt w < unat (ma_valid_count adapt)"
    using that mem_id_find_hit [OF ok, of w] mem_id_find_hit [OF ok, of wid] i by auto
  show "id_held adapt' w j = (if w = wid then bit (bs ! (j div 64)) (j mod 64) else id_held adapt w j)"
    unfolding id_held_def find using i il other by (auto simp: adapt'_def)
qed

lemma list_add_spec:
  assumes ok: "mem_ids_ok adapt" and absent: "mem_id_find adapt wid = unat (ma_valid_count adapt)"
    and room: "unat (ma_valid_count adapt) < 255"
  obtains adapt1 where "amdgv_memmgr_mem_id_list_add adapt wid = (0, adapt1)" and "mem_ids_ok adapt1"
    and "mem_id_find adapt1 wid = unat (ma_valid_count adapt)"
    and "unat (ma_valid_count adapt1) = Suc (unat (ma_valid_count adapt))"
    and "mb_bitmaps (ma_mem_ids adapt1 ! unat (ma_valid_count adapt)) = replicate MAX_BITMAP_COUNT 0"
    and "\<And>w j. j < 256 \<Longrightarrow> id_held adapt1 w j = id_held adapt w j"
proof -
  let ?n = "unat (ma_valid_count adapt)"
  let ?e = "\<lparr>mb_id = wid, mb_bitmaps = replicate MAX_BITMAP_COUNT 0\<rparr>"
  define adapt1 where "adapt1 = adapt\<lparr>ma_mem_ids := (ma_mem_ids adapt)[?n := ?e],
      ma_valid_count := ma_valid_count adapt + 1\<rparr>"
  have len: "length (ma_mem_ids adapt) = 256" using ok by (simp add: mem_ids_ok_def)
  have cnt: "unat (ma_valid_count adapt1) = Suc ?n"
    using room by (simp add: adapt1_def unat_word_ariths)
  have tk: "take (Suc ?n) (ma_mem_ids adapt1) = take ?n (ma_mem_ids adapt) @ [?e]"
    using len room by (simp add: adapt1_def take_Suc_conv_app_nth)
  have lt: "length (take ?n (ma_mem_ids adapt)) = ?n" using len room by simp
  have pre: "mem_id_scan (ms @ [e]) w k = (if mem_id_scan ms w k < k + length ms then mem_id_scan ms w k
      else if w = mb_id e then k + length ms else Suc (k + length ms))" for ms e w k
  proof (induction ms arbitrary: k)
    case (Cons m ms)
    show ?case
    proof (cases "w = mb_id m")
      case False
      then show ?thesis using Cons.IH [of "Suc k"] by simp
    qed simp
  qed simp
  have find: "mem_id_find adapt1 w = (if mem_id_find adapt w < ?n then mem_id_find adapt w
      else if w = wid then ?n else Suc ?n)" for w
    using pre [of "take ?n (ma_mem_ids adapt)" ?e w 0, unfolded lt]
    unfolding mem_id_find_def cnt tk by simp
  have "id_held adapt1 w j = id_held adapt w j" if "j < 256" for w j
  proof (cases "mem_id_find adapt w < ?n")
    case True
    then show ?thesis
      using find [of w] by (simp add: id_held_def cnt) (simp add: adapt1_def)
  next
    case False
    have "j div 64 < 4" using that by (simp add: less_mult_imp_div_less)
    then have "replicate MAX_BITMAP_COUNT (0::u64) ! (j div 64) = 0" by (rule nth_replicate)
    with False show ?thesis
      using find [of w] len room by (simp add: id_held_def cnt) (simp add: adapt1_def)
  qed
  moreover have "mem_ids_ok adapt1"
    using ok set_update_subset_insert [of "ma_mem_ids adapt" ?n ?e]
    by (auto simp: mem_ids_ok_def adapt1_def)
  moreover have "amdgv_memmgr_mem_id_list_add adapt wid = (0, adapt1)"
    using room by (simp add: amdgv_memmgr_mem_id_list_add_def adapt1_def)
  moreover have "mb_bitmaps (ma_mem_ids adapt1 ! ?n) = replicate MAX_BITMAP_COUNT 0"
    using len room by (simp add: adapt1_def)
  ultimately show thesis using that [of adapt1] find [of wid] absent cnt by simp
qed

lemma mem_id_add_spec:
  assumes ok: "mem_ids_ok adapt" and wid: "wid < 0x10000" and room: "unat (ma_valid_count adapt) < 255"
  obtains (full) adapt' where "amdgv_memmgr_mem_id_add adapt wid = (MEM_ID_NOT_AVAILABLE, adapt')"
      and "\<And>w j. j < MAX_MEM_COUNT \<Longrightarrow> id_held adapt' w j = id_held adapt w j"
  | (added) c adapt' index where "amdgv_memmgr_mem_id_add adapt wid = (c, adapt')"
      and "c \<noteq> MEM_ID_NOT_AVAILABLE" and "MEM_ID_GET_ID c = wid"
      and "unat (MEM_ID_GET_INDEX c) = index" and "index < MAX_MEM_COUNT" and "mem_ids_ok adapt'"
      and "\<not> id_held adapt wid index"
      and "\<And>w j. j < MAX_MEM_COUNT \<Longrightarrow>
             id_held adapt' w j = (if w = wid \<and> j = index then True else id_held adapt w j)"
proof -
  let ?n = "unat (ma_valid_count adapt)"
  obtain adapt1 where a1: "(if mem_id_find adapt wid = ?n then amdgv_memmgr_mem_id_list_add adapt wid
        else (0, adapt)) = (0, adapt1)"
    and ok1: "mem_ids_ok adapt1" and f1: "mem_id_find adapt1 wid = mem_id_find adapt wid"
    and lt: "mem_id_find adapt wid < unat (ma_valid_count adapt1)"
    and held1: "\<And>w j. j < 256 \<Longrightarrow> id_held adapt1 w j = id_held adapt w j"
  proof (cases "mem_id_find adapt wid = ?n")
    case True
    from list_add_spec [OF ok True room] obtain adapt1 where
      "amdgv_memmgr_mem_id_list_add adapt wid = (0, adapt1)" "mem_ids_ok adapt1"
      "mem_id_find adapt1 wid = ?n" "unat (ma_valid_count adapt1) = Suc ?n"
      "\<And>w j. j < 256 \<Longrightarrow> id_held adapt1 w j = id_held adapt w j" by metis
    with that [of adapt1] True show ?thesis by simp
  next
    case False
    with mem_id_find_le [OF ok, of wid] have "mem_id_find adapt wid < ?n" by simp
    with that [of adapt] False ok show ?thesis by simp
  qed
  let ?i = "mem_id_find adapt wid"
  let ?mem = "ma_mem_ids adapt1 ! ?i"
  let ?bs = "mb_bitmaps ?mem"
  have il: "?i < length (ma_mem_ids adapt1)"
    using lt ok1 unat_lt8 [of "ma_valid_count adapt1"] by (simp add: mem_ids_ok_def)
  have l4: "length ?bs = 4" using ok1 il by (simp add: mem_ids_ok_def)
  obtain b where b: "b \<le> 4" "bitmap_scan ?bs 0 = b" "b < 4 \<longrightarrow> ?bs ! b \<noteq> - 1"
    using bitmap_scan_spec [of ?bs 0] l4 by auto
  show thesis
  proof (cases "b = 4")
    case True
    then have "amdgv_memmgr_mem_id_add adapt wid = (MEM_ID_NOT_AVAILABLE, adapt1)"
      by (simp add: amdgv_memmgr_mem_id_add_def Let_def a1 b(2))
    then show ?thesis using held1 by (rule full)
  next
    case False
    then have b4: "b < 4" using b(1) by simp
    obtain n where n: "n < 64" "low_clear_bit (?bs ! b) (b * 64) = b * 64 + n" "\<not> bit (?bs ! b) n"
      using low_clear_bit_lt [of "?bs ! b" "b * 64"] b(3) b4 by blast
    define index where "index = b * 64 + n"
    have idx: "index < 256" "index div 64 = b" "index mod 64 = n" using b4 n(1) by (simp_all add: index_def)
    define c where "c = (wid AND 0xFFFF) OR push_bit 16 (of_nat index AND 0xFFFF)"
    note enc = mem_id_encode [OF wid idx(1), folded c_def]
    define bs' where "bs' = ?bs[b := ?bs ! b OR push_bit n 1]"
    define adapt' where "adapt' = adapt1\<lparr>ma_mem_ids := (ma_mem_ids adapt1)[?i := ?mem\<lparr>mb_bitmaps := bs'\<rparr>]\<rparr>"
    have lb: "length bs' = 4" using l4 by (simp add: bs'_def)
    note upd = id_held_update [OF ok1 f1 lt lb, folded adapt'_def]
    have res: "amdgv_memmgr_mem_id_add adapt wid = (c, adapt')"
      using False n idx
      by (simp add: amdgv_memmgr_mem_id_add_def Let_def a1 b(2) c_def adapt'_def bs'_def index_def)
    have bit': "bit (bs' ! (j div 64)) (j mod 64) = (if j = index then True else id_held adapt1 wid j)"
      if "j < 256" for j
    proof (cases "j div 64 = b")
      case True
      then have "j = index \<longleftrightarrow> j mod 64 = n" using idx by (metis div_mult_mod_eq)
      with True l4 b4 f1 lt n(1) show ?thesis
        by (auto simp: bs'_def bit_simps id_held_def)
    next
      case False
      then have "j \<noteq> index" using idx by auto
      with False l4 f1 lt show ?thesis by (simp add: bs'_def id_held_def)
    qed
    have "\<not> id_held adapt1 wid index" using n(3) f1 idx by (simp add: id_held_def)
    then have nh: "\<not> id_held adapt wid index" using held1 idx(1) by simp
    have "id_held adapt' w j = (if w = wid \<and> j = index then True else id_held adapt w j)"
      if "j < 256" for w j
      using upd(3) [of w j] bit' [OF that] held1 [OF that, of w] by auto
    with res enc idx(1) nh upd(1) show ?thesis by (intro added [of c adapt' index]) auto
  qed
qed

lemma mem_id_remove_spec:
  assumes ok: "mem_ids_ok adapt" and c: "MEM_ID_GET_ID c = wid" "unat (MEM_ID_GET_INDEX c) = index"
    and index: "index < MAX_MEM_COUNT" and held: "id_held adapt wid index"
  obtains adapt' where "amdgv_memmgr_mem_id_remove adapt c = (0, adapt')" and "mem_ids_ok adapt'"
    and "\<And>w j. j < MAX_MEM_COUNT \<Longrightarrow>
           id_held adapt' w j = (if w = wid \<and> j = index then False else id_held adapt w j)"
proof -
  let ?i = "mem_id_find adapt wid"
  let ?mem = "ma_mem_ids adapt ! ?i"
  let ?bs = "mb_bitmaps ?mem"
  have lt: "?i < unat (ma_valid_count adapt)" using held by (simp add: id_held_def)
  have il: "?i < length (ma_mem_ids adapt)"
    using lt ok unat_lt8 [of "ma_valid_count adapt"] by (simp add: mem_ids_ok_def)
  have l4: "length ?bs = 4" using ok il by (simp add: mem_ids_ok_def)
  define bs' where "bs' = ?bs[index div 64 := ?bs ! (index div 64) AND NOT (push_bit (index mod 64) 1)]"
  define adapt' where "adapt' = adapt\<lparr>ma_mem_ids := (ma_mem_ids adapt)[?i := ?mem\<lparr>mb_bitmaps := bs'\<rparr>]\<rparr>"
  have lb: "length bs' = 4" using l4 by (simp add: bs'_def)
  note upd = id_held_update [OF ok refl lt lb, folded adapt'_def]
  have res: "amdgv_memmgr_mem_id_remove adapt c = (0, adapt')"
    using c index lt by (simp add: amdgv_memmgr_mem_id_remove_def Let_def adapt'_def bs'_def)
  have d4: "index div 64 < 4" using index by (simp add: less_mult_imp_div_less)
  have bit': "bit (bs' ! (j div 64)) (j mod 64) = (if j = index then False else id_held adapt wid j)" for j
  proof (cases "j div 64 = index div 64")
    case True
    then have "j = index \<longleftrightarrow> j mod 64 = index mod 64" by (metis div_mult_mod_eq)
    with True l4 d4 lt show ?thesis by (auto simp: bs'_def bit_simps id_held_def)
  next
    case False
    then have "j \<noteq> index" by auto
    with False l4 lt show ?thesis by (simp add: bs'_def id_held_def)
  qed
  have "id_held adapt' w j = (if w = wid \<and> j = index then False else id_held adapt w j)" for w j
    using upd(3) [of w j] bit' [of j] by auto
  with res upd(1) show thesis by (intro that [of adapt']) auto
qed

section \<open>A concrete adapter and manager\<close>

definition sample_mem_adapter :: "nat \<Rightarrow> mem_adapter" where
  "sample_mem_adapter slots = \<lparr>ma_mem_ids = replicate slots \<lparr>mb_id = 0, mb_bitmaps = [0, 0, 0, 0]\<rparr>,
     ma_valid_count = 0, ma_skip_hw_init = False, ma_gart_ready = False, ma_gart_size = 0,
     ma_whole_gpu_reset = False, ma_mi350x = False, ma_status_invalid = False,
     ma_bad_page_threshold = 0, ma_gart_trace = []\<rparr>"

definition zero_mgr :: amdgv_memmgr where
  "zero_mgr = \<lparr>mg_lock = False, mg_rsv_lock = False, mg_offset = 0, mg_size = 0, mg_align = 0,
     mg_mc_base = 0, mg_cpu_base = 0, mg_has_allocs = False, mg_head_off = 0, mg_allocs = [],
     mg_has_reserves = False, mg_reserves = [], mg_reserve_count = 0, mg_tom = 0, mg_down = False,
     mg_is_init = False, mg_is_sys = False, mg_pending = [], mg_reserved = []\<rparr>"

definition sample_mgr :: "u64 \<Rightarrow> u64 \<Rightarrow> bool \<Rightarrow> amdgv_memmgr" where
  "sample_mgr offset sz down = snd (amdgv_memmgr_init True True True True zero_mgr offset sz 0 down)"

definition sample_env :: "nat \<Rightarrow> mem_env" where
  "sample_env p = \<lparr>me_malloc = Some (mem_fresh p), me_dma = None, me_sg = (\<lambda>h i. 0)\<rparr>"

lemma sample_mgr_ok:
  "unat offset + unat sz < 2 ^ 62 \<Longrightarrow> sz \<noteq> 0 \<Longrightarrow> mgr_ok (sample_mgr offset sz down)"
  by (simp add: sample_mgr_def amdgv_memmgr_init_def zero_mgr_def mgr_ok_def mgr_limit_def mgr_base_def
      mgr_blocks_def)

lemma sample_ids_ok: "mem_ids_ok (sample_mem_adapter 256)"
  by (simp add: sample_mem_adapter_def mem_ids_ok_def)

section \<open>Properties\<close>

text \<open>C1. Isolation of the heap under the requests of \<open>mem_allowed\<close>: after any sequence of allocations with an alignment that is
  a power of two and, in a heap that grows down, a length that is a multiple of it, of placements at an offset and page
  reservations whose aligned end lies below 4 GiB, and of releases, the blocks lie inside the heap and no address belongs to two
  of them. Outside these requests the code does not keep it: \<open>memmgr_down_overlap\<close> and \<open>memmgr_alloc_at_truncates\<close>.\<close>

theorem memmgr_blocks_isolated:
  assumes "mgr_ok mgr" and "runs mem_step mem_allowed (adapt, mgr) ops (adapt', mgr')"
    and "i < length (mg_allocs mgr')"
  shows "mgr_base mgr \<le> fst (blk (mg_allocs mgr' ! i)) \<and>
         fst (blk (mg_allocs mgr' ! i)) < snd (blk (mg_allocs mgr' ! i)) \<and>
         snd (blk (mg_allocs mgr' ! i)) \<le> mgr_limit mgr \<and>
         (\<forall>j < length (mg_allocs mgr'). j \<noteq> i \<longrightarrow>
            apart (blk (mg_allocs mgr' ! i)) (blk (mg_allocs mgr' ! j)))"
proof -
  let ?s = "(adapt, mgr)" and ?s' = "(adapt', mgr')"
  let ?b = "blk (mg_allocs mgr' ! i)"
  have inv: "mgr_ok (snd ?s)" using assms(1) by simp
  have ok': "mgr_ok mgr'" using heap.run_inv [OF assms(2) inv] by simp
  have "(fst ?b, snd ?b) \<in> set (mgr_blocks mgr')" using assms(3) by (simp add: mgr_blocks_def)
  with heap.run_inside [OF inv assms(2), of "fst ?b" "snd ?b"]
  have "mgr_base mgr \<le> fst ?b \<and> snd ?b \<le> mgr_limit mgr" by simp
  moreover have "node_ok (mg_allocs mgr' ! i)" using ok' assms(3) by (simp add: mgr_ok_def)
  then have "fst ?b < snd ?b"
    by (simp add: node_ok_def blk_def word_less_nat_alt word_le_nat_alt)
  moreover have "apart ?b (blk (mg_allocs mgr' ! j))" if "j < length (mg_allocs mgr')" "j \<noteq> i" for j
    using heap.run_isolated [OF inv assms(2), of i j] heap.run_isolated [OF inv assms(2), of j i]
      that assms(3) by (cases "i < j") (auto simp: mgr_blocks_def apart_def)
  ultimately show ?thesis by blast
qed

lemma sample_step1:
  "case mem_step (Mem_Alloc (sample_env 1) 4096 12 0x905) (sample_mem_adapter 4, sample_mgr 0 0x10000000 False)
   of Inl e \<Rightarrow> False
    | Inr (adapt, g) \<Rightarrow> map mm_ptr (mg_allocs g) = [1] \<and> mg_reserves g = [] \<and> \<not> mg_down g \<and> \<not> mg_is_sys g"
  by code_simp

lemma sample_run:
  "\<exists>s. runs mem_step mem_allowed (sample_mem_adapter 4, sample_mgr 0 0x10000000 False)
     [Mem_Alloc (sample_env 1) 4096 12 0x905, Mem_Alloc (sample_env 2) 3000 12 0x904] s"
proof -
  let ?s0 = "(sample_mem_adapter 4, sample_mgr 0 0x10000000 False)"
  obtain adapt g where s1: "mem_step (Mem_Alloc (sample_env 1) 4096 12 0x905) ?s0 = Inr (adapt, g)"
      "map mm_ptr (mg_allocs g) = [1]" "mg_reserves g = []" "\<not> mg_down g" "\<not> mg_is_sys g"
    using sample_step1 by (auto split: sum.splits)
  have "mm_ptr ` set (mg_allocs g) = {1}"
    using arg_cong [OF s1(2), of set] by simp
  then have a2: "mem_allowed (Mem_Alloc (sample_env 2) 3000 12 0x904) (adapt, g)"
    using s1 by (simp add: served_def fresh_env_def sample_env_def mem_fresh_def)
  have a1: "mem_allowed (Mem_Alloc (sample_env 1) 4096 12 0x905) ?s0"
    by (simp add: served_def fresh_env_def sample_env_def mem_fresh_def sample_mgr_def zero_mgr_def
        amdgv_memmgr_init_def)
  obtain s2 where s2: "mem_step (Mem_Alloc (sample_env 2) 3000 12 0x904) (adapt, g) = Inr s2" by simp
  have "runs mem_step mem_allowed (adapt, g) [Mem_Alloc (sample_env 2) 3000 12 0x904] s2"
    by (rule runs.more [where step = mem_step and allowed = mem_allowed, OF a2 s2 runs.none])
  then show ?thesis
    using runs.more [where step = mem_step and allowed = mem_allowed, OF a1 s1(1)] by blast
qed

theorem memmgr_blocks_isolated_witness:
  "\<exists>adapt' mgr'. runs mem_step mem_allowed (sample_mem_adapter 4, sample_mgr 0 0x10000000 False)
      [Mem_Alloc (sample_env 1) 4096 12 0x905, Mem_Alloc (sample_env 2) 3000 12 0x904] (adapt', mgr') \<and>
    (\<forall>i < length (mg_allocs mgr'). snd (blk (mg_allocs mgr' ! i)) \<le> 0x10000000)"
proof -
  obtain adapt' mgr' where run: "runs mem_step mem_allowed (sample_mem_adapter 4, sample_mgr 0 0x10000000 False)
      [Mem_Alloc (sample_env 1) 4096 12 0x905, Mem_Alloc (sample_env 2) 3000 12 0x904] (adapt', mgr')"
    using sample_run by auto
  have "mgr_limit (sample_mgr 0 0x10000000 False) = 0x10000000"
    by (simp add: sample_mgr_def amdgv_memmgr_init_def mgr_limit_def)
  then have "\<forall>i < length (mg_allocs mgr'). snd (blk (mg_allocs mgr' ! i)) \<le> 0x10000000"
    using memmgr_blocks_isolated [OF sample_mgr_ok run] by simp
  with run show ?thesis by blast
qed











text \<open>Identifiers: an identifier handed out carries the caller's id and an index below 256
  that nobody held; it is held from then on and no other changes; returning it makes exactly that
  index free again.\<close>

theorem memmgr_identifiers_unique:
  assumes "mem_ids_ok adapt" and "wid < 0x10000" and "unat (ma_valid_count adapt) < 255"
    and "amdgv_memmgr_mem_id_add adapt wid = (c, adapt')" and "c \<noteq> MEM_ID_NOT_AVAILABLE"
  shows "MEM_ID_GET_ID c = wid \<and> unat (MEM_ID_GET_INDEX c) < MAX_MEM_COUNT \<and>
    \<not> id_held adapt wid (unat (MEM_ID_GET_INDEX c)) \<and>
    (\<forall>w j. j < MAX_MEM_COUNT \<longrightarrow> id_held adapt' w j =
       (if w = wid \<and> j = unat (MEM_ID_GET_INDEX c) then True else id_held adapt w j)) \<and>
    (\<exists>adapt''. amdgv_memmgr_mem_id_remove adapt' c = (0, adapt'') \<and>
       (\<forall>w j. j < MAX_MEM_COUNT \<longrightarrow> id_held adapt'' w j = id_held adapt w j))"
proof (cases rule: mem_id_add_spec [OF assms(1-3), case_names full added])
  case (full ad)
  with assms(4,5) show ?thesis by simp
next
  case (added c1 ad index)
  then have eq: "c1 = c" "ad = adapt'" using assms(4) by simp_all
  have held: "id_held adapt' wid index" using added eq by simp
  obtain adapt'' where rem: "amdgv_memmgr_mem_id_remove adapt' c = (0, adapt'')"
      "\<And>w j. j < MAX_MEM_COUNT \<Longrightarrow>
           id_held adapt'' w j = (if w = wid \<and> j = index then False else id_held adapt' w j)"
    using mem_id_remove_spec [OF _ _ _ _ held, of c] added eq by metis
  have "id_held adapt'' w j = id_held adapt w j" if "j < MAX_MEM_COUNT" for w j
    using rem(2) [OF that] added(8) [OF that] added(7) eq by auto
  with added eq rem(1) show ?thesis by auto
qed

theorem memmgr_identifiers_unique_witness:
  "\<exists>c adapt'. amdgv_memmgr_mem_id_add (sample_mem_adapter 256) 0x905 = (c, adapt') \<and>
     MEM_ID_GET_ID c = 0x905 \<and> id_held adapt' 0x905 (unat (MEM_ID_GET_INDEX c))"
proof -
  obtain c adapt' where add: "amdgv_memmgr_mem_id_add (sample_mem_adapter 256) 0x905 = (c, adapt')"
    by (metis surj_pair)
  have r4: "replicate 4 (0::u64) = [0, 0, 0, 0]" by (simp add: numeral_eq_Suc)
  have "c = 0x905"
    using add by (simp add: r4 amdgv_memmgr_mem_id_add_def sample_mem_adapter_def mem_id_find_def
        amdgv_memmgr_mem_id_list_add_def Let_def low_clear_bit.simps numeral_2_eq_2)
  moreover have "unat (ma_valid_count (sample_mem_adapter 256)) < 255"
    by (simp add: sample_mem_adapter_def)
  ultimately have "MEM_ID_GET_ID c = 0x905 \<and> id_held adapt' 0x905 (unat (MEM_ID_GET_INDEX c))"
    using memmgr_identifiers_unique [OF sample_ids_ok _ _ add] by auto
  with add show ?thesis by blast
qed

section \<open>Round trip, leak and overlap\<close>







text \<open>An allocation that fails for want of room keeps the index it took: the identifier stays
  held though no block carries it. (\<^verbatim>\<open>amdgv_memmgr_reserve_attrs\<close> returns the index on its error
  path, this function does not.)\<close>

theorem memmgr_failed_alloc_leaks_identifier:
  assumes "mem_ids_ok adapt" and "wid < 0x10000" and "unat (ma_valid_count adapt) < 255"
    and "mg_is_init mgr" and "\<not> mg_is_sys mgr" and "\<not> ma_skip_hw_init adapt"
    and "fst (amdgv_memmgr_mem_id_add adapt wid) \<noteq> MEM_ID_NOT_AVAILABLE"
    and "amdgv_memmgr_alloc_unify_align env adapt mgr len align wid va = (None, gpu_addr, adapt', mgr')"
  shows "mgr' = mgr \<and> (\<exists>index < MAX_MEM_COUNT. \<not> id_held adapt wid index \<and> id_held adapt' wid index)"
proof (cases rule: mem_id_add_spec [OF assms(1-3), case_names full added])
  case (full ad)
  with assms(7) show ?thesis by simp
next
  case (added c ad index)
  have "alloc_new env ad mgr len align c va = (None, gpu_addr, adapt', mgr')"
    using assms(4-6,8) added(1,2)
    by (simp add: amdgv_memmgr_alloc_unify_align_def amdgv_in_live_update_seq_def)
  then have "adapt' = ad \<and> mgr' = mgr"
    using assms(5) by (auto simp: alloc_new_def Let_def split: option.splits if_splits)
  with added show ?thesis by auto
qed

theorem memmgr_failed_alloc_leaks_identifier_witness:
  "\<exists>adapt'. amdgv_memmgr_alloc_unify_align (sample_env 1\<lparr>me_malloc := None\<rparr>) (sample_mem_adapter 256)
       (sample_mgr 0 0x10000000 False) 4096 4096 0x905 0 =
       (None, None, adapt', sample_mgr 0 0x10000000 False) \<and>
     (\<exists>index < MAX_MEM_COUNT. \<not> id_held (sample_mem_adapter 256) 0x905 index \<and> id_held adapt' 0x905 index)"
proof -
  let ?ad = "sample_mem_adapter 256" and ?mgr = "sample_mgr 0 0x10000000 False"
  have r4: "replicate 4 (0::u64) = [0, 0, 0, 0]" by (simp add: numeral_eq_Suc)
  have c: "fst (amdgv_memmgr_mem_id_add ?ad 0x905) = 0x905"
    by (simp add: r4 amdgv_memmgr_mem_id_add_def sample_mem_adapter_def mem_id_find_def
        amdgv_memmgr_mem_id_list_add_def Let_def low_clear_bit.simps numeral_2_eq_2)
  obtain ad1 where add: "amdgv_memmgr_mem_id_add ?ad 0x905 = (0x905, ad1)"
    using c by (metis prod.collapse)
  have m: "\<not> mg_is_sys ?mgr" "mg_is_init ?mgr"
    by (simp_all add: sample_mgr_def amdgv_memmgr_init_def zero_mgr_def)
  have ad: "unat (ma_valid_count ?ad) < 255" "\<not> ma_skip_hw_init ?ad"
    by (simp_all add: sample_mem_adapter_def)
  have run: "amdgv_memmgr_alloc_unify_align (sample_env 1\<lparr>me_malloc := None\<rparr>) ?ad ?mgr 4096 4096 0x905 0 =
      (None, None, ad1, ?mgr)"
    using m ad(2)
    by (simp add: amdgv_memmgr_alloc_unify_align_def add alloc_new_def amdgv_in_live_update_seq_def)
  from ad memmgr_failed_alloc_leaks_identifier [OF sample_ids_ok _ _ m(2,1) _ _ run] run c
  show ?thesis by auto
qed

text \<open>The allocations of a sequence of calls.\<close>

definition mem_run :: "mem_op list \<Rightarrow> mem_adapter \<times> amdgv_memmgr \<Rightarrow> (mem_adapter \<times> amdgv_memmgr) cres" where
  "mem_run ops s = fold (\<lambda>op r. cbind r (mem_step op)) ops (Inr s)"

definition mem_ranges :: "(mem_adapter \<times> amdgv_memmgr) cres \<Rightarrow> (u64 \<times> u64) list" where
  "mem_ranges r = (case r of Inl e \<Rightarrow> []
     | Inr (adapt, mgr) \<Rightarrow> map (\<lambda>m. (mm_alloc_off m - mm_len m, mm_alloc_off m)) (mg_allocs mgr))"

text \<open>In a heap that grows down (\<^verbatim>\<open>memmgr_gpu\<close>) a block whose length is not a whole number
  of alignment units is placed by aligning its end upwards, over the block that was found to follow
  it: three allocations of 4096, 3000 and 1000 bytes leave two blocks that share addresses.\<close>

theorem memmgr_down_overlap:
  "mem_ranges (mem_run [Mem_Alloc (sample_env 1) 4096 12 0x200, Mem_Alloc (sample_env 2) 3000 12 0x201,
     Mem_Alloc (sample_env 3) 1000 12 0x300] (sample_mem_adapter 4, sample_mgr 0 0x10000000 True)) =
   [(0, 4096), (7192, 8192), (5192, 8192)]"
  by code_simp

lemma ALIGN32_truncates:
  fixes offset :: u64
  assumes "unat offset mod 4096 = 0"
  shows "AMDGV_MEMMGR_ALIGN32 offset 0x1000 = take_bit 32 offset"
proof -
  have d: "take_bit 12 offset = 0"
  proof -
    have "unat (take_bit 12 offset) = 0"
      unfolding unsigned_take_bit_eq using assms by (simp add: take_bit_eq_mod)
    then show ?thesis by (simp only: unat_eq_zero)
  qed
  have low: "\<not> bit offset n" if "n < 12" for n
  proof -
    have "\<not> bit (take_bit 12 offset) n" by (simp only: d) simp
    then show ?thesis using that by (simp only: bit_take_bit_iff) simp
  qed
  have add: "offset + 0xFFF = offset OR mask 12"
  proof -
    have "offset AND mask 12 = 0" using d by (simp add: take_bit_eq_mask)
    then have "offset + mask 12 = offset OR mask 12" by (rule disjunctive_add_eq_or)
    then show ?thesis by (simp add: mask_eq_exp_minus_1)
  qed
  have m: "ucast (NOT ((0x1000::u32) - 1)) = (0xFFFFF000 :: u64)" by simp
  have e: "offset + ucast (0x1000::u32) - 1 = offset OR mask 12"
  proof -
    have "offset + 0x1000 - 1 = offset + (0x1000 - 1)" by (rule add_diff_eq [symmetric])
    then show ?thesis using add by simp
  qed
  have f: "(0xFFFFF000 :: u64) = push_bit 12 (mask 20)" by (simp add: mask_eq_exp_minus_1)
  show ?thesis
    unfolding AMDGV_MEMMGR_ALIGN32_def m e f
  proof (rule bit_word_eqI)
    fix n assume "n < LENGTH(64)"
    then show "bit ((offset OR mask 12) AND push_bit 12 (mask 20)) n = bit (take_bit 32 offset) n"
      using low [of n] by (cases "n < 12") (auto simp: bit_simps not_less)
  qed
qed

text \<open>At or above 4 GiB \<^verbatim>\<open>amdgv_memmgr_alloc_align_at\<close> places a block at the low 32 bits of the
  offset it was asked for: its \<^verbatim>\<open>uint32_t align\<close> makes the mask of \<^verbatim>\<open>AMDGV_MEMMGR_ALIGN\<close> a 32-bit
  one.\<close>

theorem memmgr_alloc_at_truncates:
  assumes "\<not> mg_down mgr" and "mg_align mgr = 12" and "unat offset mod 4096 = 0"
    and "amdgv_memmgr_alloc_align_at env adapt mgr offset len wid = (Some p, adapt', mgr')"
  shows "\<exists>i n. mgr' = place_node mgr i n \<and> mm_ptr n = p \<and> mm_len n = len \<and>
           mm_alloc_off n - mm_len n = take_bit 32 offset \<and>
           (2 ^ 32 \<le> offset \<longrightarrow> mm_alloc_off n - mm_len n < offset)"
proof -
  have al: "(ucast ((2::u64) ^ unat (mg_align mgr)) :: u32) = 0x1000"
    by (simp add: assms(2))
  note tr = ALIGN32_truncates [OF assms(3)]
  obtain i n where n: "mgr' = place_node mgr i n" "mm_ptr n = p" "mm_len n = len"
    "mm_alloc_off n = take_bit 32 offset + len"
    using assms(1,4)
    by (auto simp: amdgv_memmgr_alloc_align_at_def al tr Let_def mem_fresh_def
        split: option.splits prod.splits if_splits)
  have "unat (take_bit 32 offset) < 2 ^ 32"
    unfolding unsigned_take_bit_eq by (rule take_bit_nat_less_exp)
  then have "take_bit 32 offset < 2 ^ 32" by (simp add: word_less_nat_alt)
  with n show ?thesis by (intro exI [of _ i] exI [of _ n]) auto
qed

text \<open>What follows for a VF whose frame buffer starts at 8 GiB: after one bad page of its
  critical region is registered, the next table is allocated below 4 GiB, outside the region.\<close>

theorem memmgr_vf_table_escapes:
  "mem_ranges (mem_run [Mem_Alloc_At (sample_env 1) 0x200001000 4096 MEM_ECC_BAD_PAGE,
     Mem_Alloc (sample_env 2) 4096 12 0x905] (sample_mem_adapter 4, sample_mgr 0x200000000 0x100000 False)) =
   [(0x1000, 0x2000), (0x2000, 0x3000)]"
  by code_simp

theorem memmgr_alloc_at_truncates_witness:
  "\<exists>p adapt' mgr' i n. amdgv_memmgr_alloc_align_at (sample_env 1) (sample_mem_adapter 4)
       (sample_mgr 0x200000000 0x100000 False) 0x200001000 4096 MEM_ECC_BAD_PAGE = (Some p, adapt', mgr') \<and>
     mgr' = place_node (sample_mgr 0x200000000 0x100000 False) i n \<and>
     mm_alloc_off n - mm_len n < 0x200001000"
proof -
  let ?mgr = "sample_mgr 0x200000000 0x100000 False"
  have "fst (amdgv_memmgr_alloc_align_at (sample_env 1) (sample_mem_adapter 4) ?mgr 0x200001000 4096
      MEM_ECC_BAD_PAGE) = Some 1" by code_simp
  then obtain adapt' mgr' where run: "amdgv_memmgr_alloc_align_at (sample_env 1) (sample_mem_adapter 4)
      ?mgr 0x200001000 4096 MEM_ECC_BAD_PAGE = (Some 1, adapt', mgr')" by (metis prod.collapse)
  have m: "\<not> mg_down ?mgr" "mg_align ?mgr = 12"
    by (simp_all add: sample_mgr_def amdgv_memmgr_init_def)
  from memmgr_alloc_at_truncates [OF m _ run] run show ?thesis by auto
qed

section \<open>Reserved pages\<close>

lemma rsv_covers_own:
  assumes "unat pfn < 2 ^ 51"
  shows "rsv_covers \<lparr>rv_start = push_bit 12 pfn, rv_size = AMDGV_GPU_PAGE_SIZE, rv_mem = m\<rparr> (push_bit 12 pfn)"
proof -
  have "unat (push_bit 12 pfn) = push_bit 12 (unat pfn)"
    unfolding unsigned_push_bit_eq using assms
    by (intro take_bit_nat_eq_self) (simp add: push_bit_eq_mult)
  then have u: "unat (push_bit 12 pfn) = unat pfn * 4096" by (simp add: push_bit_eq_mult)
  then have "unat (push_bit 12 pfn + AMDGV_GPU_PAGE_SIZE) = unat (push_bit 12 pfn) + 4096"
    using assms by (simp add: unat_word_ariths)
  then show ?thesis by (simp add: rsv_covers_def word_less_nat_alt)
qed

lemma place_node_rsv [simp]:
  "mg_pending (place_node mgr i n) = mg_pending mgr" "mg_reserved (place_node mgr i n) = mg_reserved mgr"
  by (simp_all add: place_node_def)

lemma alloc_align_at_rsv:
  "amdgv_memmgr_alloc_align_at env adapt mgr offset len wid = (p, adapt', mgr') \<Longrightarrow>
     mg_pending mgr' = mg_pending mgr \<and> mg_reserved mgr' = mg_reserved mgr"
  by (auto simp: amdgv_memmgr_alloc_align_at_def Let_def split: option.splits prod.splits if_splits)

text \<open>Reserving a page: the result is 0 when a block was placed and BUSY when the page is left
  pending; a query for the page then gives the same answer, and reserving it again changes
  nothing.\<close>

theorem memmgr_reserve_page_idempotent:
  assumes "unat pfn < 2 ^ 51"
    and run: "amdgv_memmgr_reserve_page True env adapt mgr pfn = (ret, adapt', mgr')"
  shows "ret \<in> {0, AMDGV_ERR_BUSY} \<and> amdgv_memmgr_query_page_reserve_status mgr' pfn = ret \<and>
    amdgv_memmgr_reserve_page rsv_ok env' adapt' mgr' pfn = (ret, adapt', mgr')"
proof -
  let ?rsv = "\<lparr>rv_start = push_bit 12 pfn, rv_size = AMDGV_GPU_PAGE_SIZE, rv_mem = None\<rparr>"
  note own = rsv_covers_own [OF assms(1)]
  have status: "ret \<in> {0, AMDGV_ERR_BUSY} \<and> amdgv_memmgr_page_reserve_status_locked mgr' pfn = ret"
  proof (cases "amdgv_memmgr_page_reserve_status_locked mgr pfn = AMDGV_FAILURE")
    case False
    with run have "mgr' = mgr" "ret = amdgv_memmgr_page_reserve_status_locked mgr pfn"
      by (auto simp: amdgv_memmgr_reserve_page_def)
    with False show ?thesis
      by (auto simp: amdgv_memmgr_page_reserve_status_locked_def Let_def split: if_splits)
  next
    case True
    then have np: "\<not> list_ex (\<lambda>rsv. rsv_covers rsv (push_bit 12 pfn)) (mg_pending mgr)"
      by (auto simp: amdgv_memmgr_page_reserve_status_locked_def Let_def split: if_splits)
    obtain p ad mg where al: "amdgv_memmgr_alloc_align_at env adapt mgr (push_bit 12 pfn)
        AMDGV_GPU_PAGE_SIZE MEM_ECC_BAD_PAGE = (p, ad, mg)" by (metis prod_cases3)
    note keep = alloc_align_at_rsv [OF al]
    show ?thesis
    proof (cases p)
      case None
      with True run al have "ret = AMDGV_ERR_BUSY" "mgr' = mg\<lparr>mg_pending := mg_pending mg @ [?rsv]\<rparr>"
        by (auto simp: amdgv_memmgr_reserve_page_def Let_def)
      then show ?thesis
        using own by (simp add: amdgv_memmgr_page_reserve_status_locked_def Let_def)
    next
      case (Some q)
      with True run al have "ret = 0" "mgr' = mg\<lparr>mg_reserved := mg_reserved mg @ [?rsv\<lparr>rv_mem := Some q\<rparr>]\<rparr>"
        by (auto simp: amdgv_memmgr_reserve_page_def Let_def)
      then show ?thesis
        using own np keep by (simp add: amdgv_memmgr_page_reserve_status_locked_def Let_def)
    qed
  qed
  then show ?thesis
    by (auto simp: amdgv_memmgr_query_page_reserve_status_def amdgv_memmgr_reserve_page_def Let_def)
qed

theorem memmgr_reserve_page_idempotent_witness:
  "\<exists>ret adapt' mgr'. amdgv_memmgr_reserve_page True (sample_env 1) (sample_mem_adapter 4)
       (sample_mgr 0 0x10000000 False) 5 = (ret, adapt', mgr') \<and>
     amdgv_memmgr_query_page_reserve_status mgr' 5 = ret"
proof -
  obtain ret adapt' mgr' where run: "amdgv_memmgr_reserve_page True (sample_env 1) (sample_mem_adapter 4)
       (sample_mgr 0 0x10000000 False) 5 = (ret, adapt', mgr')" by (metis prod_cases3)
  with memmgr_reserve_page_idempotent [OF _ run, of True "sample_env 1"] show ?thesis by auto
qed

section \<open>Deferred placement\<close>

definition longest_first :: "amdgv_memmgr_mem list \<Rightarrow> bool" where
  "longest_first ms \<longleftrightarrow> sorted_wrt (\<lambda>x y. mm_len y \<le> mm_len x) ms"

lemma reserve_insert_sorted: "longest_first ms \<Longrightarrow> longest_first (reserve_insert n ms)"
  unfolding longest_first_def
  by (induction ms) (auto simp: set_reserve_insert not_le intro: order_trans less_imp_le)

text \<open>Deferred reservations stay ordered, the longest first, as
  \<^verbatim>\<open>amdgv_memmgr_alloc_deferred_region\<close> takes them.\<close>

theorem memmgr_reserves_longest_first:
  assumes "longest_first (mg_reserves mgr)"
    and "amdgv_memmgr_reserve_attrs env adapt mgr len align wid = (p, adapt', mgr')"
  shows "longest_first (mg_reserves mgr') \<and>
    (p \<noteq> None \<longrightarrow> mg_reserve_count mgr' = mg_reserve_count mgr + 1 \<and>
       length (mg_reserves mgr') = Suc (length (mg_reserves mgr)))"
proof -
  have len: "length (reserve_insert n ms) = Suc (length ms)" for n ms
    by (induction ms) auto
  show ?thesis
    using assms by (auto simp: amdgv_memmgr_reserve_attrs_def Let_def reserve_insert_sorted len
        split: if_splits prod.splits option.splits)
qed

theorem memmgr_reserves_longest_first_witness:
  "\<exists>p adapt' mgr'. amdgv_memmgr_reserve_attrs (sample_env 1) (sample_mem_adapter 4)
      (sample_mgr 0 0x10000000 False) 4096 4096 0x200 = (p, adapt', mgr') \<and> longest_first (mg_reserves mgr')"
proof -
  obtain p adapt' mgr' where run: "amdgv_memmgr_reserve_attrs (sample_env 1) (sample_mem_adapter 4)
      (sample_mgr 0 0x10000000 False) 4096 4096 0x200 = (p, adapt', mgr')" by (metis prod_cases3)
  have "longest_first (mg_reserves (sample_mgr 0 0x10000000 False))"
    by (simp add: sample_mgr_def amdgv_memmgr_init_def longest_first_def)
  with memmgr_reserves_longest_first [OF _ run] run show ?thesis by auto
qed

text \<open>A reservation whose placement is safe: see \<^term>\<open>request_ok\<close>; the heap lies below 3 GiB,
  where the 32-bit mask does no harm.\<close>

definition deferred_ok :: "amdgv_memmgr \<Rightarrow> bool" where
  "deferred_ok mgr \<longleftrightarrow> mgr_ok mgr \<and> mgr_limit mgr \<le> 3 * 2 ^ 30 \<and>
     (\<forall>r \<in> set (mg_reserves mgr). 0 < mm_len r \<and> unat (mm_len r) < 2 ^ 29 \<and>
        (\<exists>a \<le> 29. mm_align r = 2 ^ a \<and> (mg_down mgr \<longrightarrow> 2 ^ a dvd unat (mm_len r))))"

lemma mgr_ok_without_reserves:
  assumes "mgr_ok mgr" and "distinct (map mm_ptr (mg_allocs mgr @ rs))"
  shows "mgr_ok (mgr\<lparr>mg_reserves := rs\<rparr>)"
  using assms by (simp add: mgr_ok_def mgr_base_def mgr_limit_def mgr_blocks_def)

lemma assign_reserved_ok:
  assumes ok: "deferred_ok mgr" and rs: "mg_reserves mgr = r # rs"
  shows "(\<exists>i n. amdgv_memmgr_assign_reserved_region mgr (mm_ptr r) =
            Inr (0, place_node (mgr\<lparr>mg_reserves := rs\<rparr>) i n) \<and> mm_ptr n = mm_ptr r \<and>
            i \<le> length (mg_allocs mgr) \<and> deferred_ok (place_node (mgr\<lparr>mg_reserves := rs\<rparr>) i n)) \<or>
         amdgv_memmgr_assign_reserved_region mgr (mm_ptr r) = Inr (AMDGV_FAILURE, mgr)"
proof -
  obtain a where a: "a \<le> 29" "mm_align r = 2 ^ a" "mg_down mgr \<longrightarrow> 2 ^ a dvd unat (mm_len r)"
    and len: "0 < mm_len r" "unat (mm_len r) < 2 ^ 29"
    using ok rs by (auto simp: deferred_ok_def)
  have mok: "mgr_ok mgr" and lim: "mgr_limit mgr \<le> 3 * 2 ^ 30" using ok by (simp_all add: deferred_ok_def)
  let ?m = "mgr\<lparr>mg_reserves := rs\<rparr>"
  have d: "distinct (map mm_ptr (mg_allocs mgr @ r # rs))" using mok rs by (simp add: mgr_ok_def)
  have mok': "mgr_ok ?m" by (rule mgr_ok_without_reserves [OF mok]) (use d in auto)
  have same: "mg_allocs ?m = mg_allocs mgr" "mgr_limit ?m = mgr_limit mgr" "mg_down ?m = mg_down mgr"
    "prev_off ?m = prev_off mgr" "mg_tom ?m = mg_tom mgr"
    by (simp_all add: mgr_limit_def prev_off_def fun_eq_iff)
  have req: "request_ok mgr (mm_len r) a" using a len by (simp add: request_ok_def)
  have al: "(ucast (mm_align r) :: u32) = 2 ^ a" "(ucast ((2::u32) ^ a) :: u64) = 2 ^ a"
    using a(1) ucast_power64 [of a] ucast_power32 [of a] by (simp_all add: a(2))
  obtain i where i: "amdgv_memmgr_find_size mgr (mm_len r) (2 ^ a) = i" "i \<le> length (mg_allocs mgr)"
    "i < length (mg_allocs mgr) \<Longrightarrow>
       align_nat a (unat (prev_off mgr (mg_allocs mgr) i)) + unat (mm_len r) < fst (blk (mg_allocs mgr ! i))"
    by (rule find_size_spec [OF mok, of a "mm_len r"]) (use a len in simp_all)
  let ?prev = "prev_off mgr (mg_allocs mgr) i"
  have prev: "unat ?prev \<le> mgr_limit mgr"
  proof (cases i)
    case 0
    then show ?thesis using mok mgr_ok_lims(2) [OF mok] by (simp add: prev_off_def mgr_ok_def mgr_base_def)
  next
    case (Suc j)
    then show ?thesis using i(2) mgr_ok_lims(1) [OF mok] by (simp add: prev_off_def)
  qed
  have pa: "(2::nat) ^ a \<le> 2 ^ 29" using a(1) by (rule power_increasing) simp
  have l1: "AMDGV_MEMMGR_ALIGN32 ?prev (2 ^ a) = AMDGV_MEMMGR_ALIGN ?prev (2 ^ a)"
    by (rule ALIGN32_low) (use a(1) prev lim pa in simp_all)
  have sum: "unat (?prev + mm_len r) = unat ?prev + unat (mm_len r)"
    using prev lim len by (simp add: unat_word_ariths)
  have l2: "AMDGV_MEMMGR_ALIGN32 (?prev + mm_len r) (2 ^ a) = AMDGV_MEMMGR_ALIGN (?prev + mm_len r) (2 ^ a)"
    by (rule ALIGN32_low) (use a(1) prev lim pa sum len in simp_all)
  note pl = placement [OF mok req prev]
  have tom: "?prev = mg_tom mgr \<longleftrightarrow> i = length (mg_allocs mgr)" by (rule prev_off_tom_iff [OF mok i(2)])
  have limw: "unat (mg_offset mgr + mg_size mgr) = mgr_limit mgr"
    using lim by (simp add: mgr_limit_def unat_word_ariths)
  have room: "(mg_offset mgr + mg_size mgr < AMDGV_MEMMGR_ALIGN ?prev (2 ^ a) + mm_len r) =
      (mgr_limit mgr < align_nat a (unat ?prev) + unat (mm_len r))"
    unfolding word_less_nat_alt limw using pl by (simp add: unat_word_ariths)
  have pos: "mem_pos (mg_reserves mgr) (mm_ptr r) = Some 0" by (simp add: rs)
  note eval = amdgv_memmgr_assign_reserved_region_def pos Let_def rs al i(1) l1 l2
  show ?thesis
  proof (cases "i = length (mg_allocs mgr) \<and> mgr_limit mgr < align_nat a (unat ?prev) + unat (mm_len r)")
    case True
    then have pt: "?prev = mg_tom mgr" using tom by simp
    with True room l1 have "amdgv_memmgr_assign_reserved_region mgr (mm_ptr r) = Inr (AMDGV_FAILURE, mgr)"
      by (simp add: eval)
    then show ?thesis by simp
  next
    case False
    then have nr: "\<not> (?prev = mg_tom mgr \<and>
        mg_offset mgr + mg_size mgr < AMDGV_MEMMGR_ALIGN32 (mg_tom mgr) (2 ^ a) + mm_len r)"
      using tom room l1 by auto
    let ?addr = "if mg_down mgr then AMDGV_MEMMGR_ALIGN (?prev + mm_len r) (2 ^ a) - mm_len r
          else AMDGV_MEMMGR_ALIGN ?prev (2 ^ a)"
    define n where "n = r\<lparr>mm_alloc_off := ?addr + mm_len r\<rparr>"
    have off: "unat (mm_alloc_off n) = align_nat a (unat ?prev) + unat (mm_len r)"
      using pl by (simp add: n_def unat_word_ariths)
    then have b: "blk n = (align_nat a (unat ?prev), align_nat a (unat ?prev) + unat (mm_len r))"
      by (simp add: blk_def n_def)
    have nok: "node_ok n"
      using len off by (simp add: node_ok_def n_def word_less_nat_alt word_le_nat_alt)
    have fr: "mm_ptr n \<notin> mm_ptr ` set (mg_allocs ?m @ mg_reserves ?m)"
      using d by (auto simp: n_def)
    have pok: "mgr_ok (place_node ?m i n)"
    proof (rule place_node_ok [OF mok' _ nok fr])
      show "i \<le> length (mg_allocs ?m)" using i(2) by simp
      show "unat (prev_off ?m (mg_allocs ?m) i) \<le> fst (blk n)"
        using align_nat_bounds(1) by (simp add: b same)
      show "i < length (mg_allocs ?m) \<Longrightarrow> snd (blk n) \<le> fst (blk (mg_allocs ?m ! i))"
        using i(3) by (simp add: b)
      show "i = length (mg_allocs ?m) \<Longrightarrow> snd (blk n) \<le> mgr_limit ?m"
        using False by (simp add: b same)
    qed
    have "deferred_ok (place_node ?m i n)"
      using pok ok rs by (auto simp: deferred_ok_def place_node_def mgr_limit_def)
    moreover have "amdgv_memmgr_assign_reserved_region mgr (mm_ptr r) = Inr (0, place_node ?m i n)"
      using nr by (simp add: eval n_def remove_at_def)
    moreover have "mm_ptr n = mm_ptr r" by (simp add: n_def)
    ultimately show ?thesis using i(2) by blast
  qed
qed

text \<open>The loop, reservation by reservation.\<close>

lemma alloc_deferred_loop_ok:
  assumes "deferred_ok mgr" "mg_reserve_count mgr = int (length (mg_reserves mgr))"
  shows "\<exists>ret mgr'. alloc_deferred_loop mgr = Inr (ret, mgr') \<and> mgr_ok mgr' \<and>
      mm_ptr ` set (mg_allocs mgr') \<union> mm_ptr ` set (mg_reserves mgr') =
        mm_ptr ` set (mg_allocs mgr) \<union> mm_ptr ` set (mg_reserves mgr) \<and>
      mg_reserve_count mgr' = int (length (mg_reserves mgr')) \<and>
      (ret = 0 \<longleftrightarrow> mg_reserves mgr' = [])"
  using assms
proof (induction "mg_reserves mgr" arbitrary: mgr)
  case Nil
  then show ?case by (simp add: alloc_deferred_loop.simps [of mgr] deferred_ok_def)
next
  case (Cons r rs)
  note rs = Cons.hyps(2) [symmetric]
  from assign_reserved_ok [OF Cons.prems(1) rs] show ?case
  proof
    assume "amdgv_memmgr_assign_reserved_region mgr (mm_ptr r) = Inr (AMDGV_FAILURE, mgr)"
    then show ?thesis
      using Cons.prems rs by (simp add: alloc_deferred_loop.simps [of mgr] deferred_ok_def)
  next
    assume "\<exists>i n. amdgv_memmgr_assign_reserved_region mgr (mm_ptr r) =
          Inr (0, place_node (mgr\<lparr>mg_reserves := rs\<rparr>) i n) \<and> mm_ptr n = mm_ptr r \<and>
          i \<le> length (mg_allocs mgr) \<and> deferred_ok (place_node (mgr\<lparr>mg_reserves := rs\<rparr>) i n)"
    then obtain i n where as: "amdgv_memmgr_assign_reserved_region mgr (mm_ptr r) =
          Inr (0, place_node (mgr\<lparr>mg_reserves := rs\<rparr>) i n)" "mm_ptr n = mm_ptr r"
          "i \<le> length (mg_allocs mgr)" "deferred_ok (place_node (mgr\<lparr>mg_reserves := rs\<rparr>) i n)" by blast
    define m where "m = (place_node (mgr\<lparr>mg_reserves := rs\<rparr>) i n)
        \<lparr>mg_reserve_count := mg_reserve_count mgr - 1\<rparr>"
    have mr: "mg_reserves m = rs" "mg_reserve_count m = int (length rs)"
      using Cons.prems(2) rs by (simp_all add: m_def place_node_def)
    have dm: "deferred_ok m"
      using as(4) by (simp add: m_def deferred_ok_def mgr_ok_def mgr_base_def mgr_limit_def mgr_blocks_def)
    have "set (take i xs) \<union> set (drop i xs) = set xs" for xs :: "amdgv_memmgr_mem list"
      by (metis append_take_drop_id set_append)
    then have ptrs: "mm_ptr ` set (mg_allocs m) = insert (mm_ptr r) (mm_ptr ` set (mg_allocs mgr))"
      using as(2) by (simp add: m_def place_node_def insert_at_def flip: image_Un)
    have step: "alloc_deferred_loop mgr = alloc_deferred_loop m"
      using as(1) rs by (simp add: alloc_deferred_loop.simps [of mgr] m_def place_node_def)
    have "\<exists>ret mgr'. alloc_deferred_loop m = Inr (ret, mgr') \<and> mgr_ok mgr' \<and>
      mm_ptr ` set (mg_allocs mgr') \<union> mm_ptr ` set (mg_reserves mgr') =
        mm_ptr ` set (mg_allocs m) \<union> mm_ptr ` set (mg_reserves m) \<and>
      mg_reserve_count mgr' = int (length (mg_reserves mgr')) \<and>
      (ret = 0 \<longleftrightarrow> mg_reserves mgr' = [])"
      using Cons.hyps(1) [of m] mr dm by simp
    then show ?thesis unfolding step ptrs mr rs by (simp add: insert_commute)
  qed
qed

text \<open>C36. The deferred placement under \<open>deferred_ok\<close>: the heap ends at most at 3 GiB, every reservation is shorter than 512 MiB,
  its alignment is a power of two of at most that, and in a heap that grows down its length is a multiple of the alignment. Then
  the placement ends without a fault. It keeps the blocks ordered, disjoint and
  inside the heap; when it reports success every reservation has become a block, and when it fails
  the reservations not yet placed are still in the list.\<close>

theorem memmgr_deferred_placement:
  assumes "deferred_ok mgr" and "mg_reserve_count mgr = int (length (mg_reserves mgr))"
  shows "\<exists>ret mgr'. amdgv_memmgr_alloc_deferred_region mgr = Inr (ret, mgr') \<and> mgr_ok mgr' \<and>
    mm_ptr ` set (mg_allocs mgr') \<union> mm_ptr ` set (mg_reserves mgr') =
      mm_ptr ` set (mg_allocs mgr) \<union> mm_ptr ` set (mg_reserves mgr) \<and>
    (ret = 0 \<longleftrightarrow> mg_reserves mgr' = [])"
proof -
  obtain ret mgr' where "alloc_deferred_loop mgr = Inr (ret, mgr')" "mgr_ok mgr'"
      "mm_ptr ` set (mg_allocs mgr') \<union> mm_ptr ` set (mg_reserves mgr') =
        mm_ptr ` set (mg_allocs mgr) \<union> mm_ptr ` set (mg_reserves mgr)"
      "mg_reserve_count mgr' = int (length (mg_reserves mgr'))"
      "ret = 0 \<longleftrightarrow> mg_reserves mgr' = []" using alloc_deferred_loop_ok [OF assms] by blast
  then show ?thesis by (cases "ret = 0") (auto simp: amdgv_memmgr_alloc_deferred_region_def)
qed

definition sample_reserve :: "nat \<Rightarrow> u64 \<Rightarrow> amdgv_memmgr_mem" where
  "sample_reserve p len = (mem_fresh p)\<lparr>mm_len := len, mm_align := 2 ^ 12\<rparr>"

theorem memmgr_deferred_placement_witness:
  "\<exists>ret mgr'. amdgv_memmgr_alloc_deferred_region
      ((sample_mgr 0 0x10000000 False)\<lparr>mg_reserves := [sample_reserve 1 8192, sample_reserve 2 4096],
        mg_reserve_count := 2\<rparr>) = Inr (ret, mgr') \<and> mgr_ok mgr'"
proof -
  let ?m = "(sample_mgr 0 0x10000000 False)\<lparr>mg_reserves := [sample_reserve 1 8192, sample_reserve 2 4096],
        mg_reserve_count := 2\<rparr>"
  have ex: "\<exists>a \<le> 29. (4096::u64) = 2 ^ a" by (intro exI [of _ 12]) simp
  have "mgr_ok ?m"
    by (simp add: sample_mgr_def amdgv_memmgr_init_def zero_mgr_def mgr_ok_def mgr_limit_def mgr_base_def
      mgr_blocks_def sample_reserve_def mem_fresh_def)
  then have "deferred_ok ?m"
    using ex by (simp add: deferred_ok_def sample_reserve_def mgr_limit_def sample_mgr_def
        amdgv_memmgr_init_def)
  then show ?thesis
    using memmgr_deferred_placement [of ?m] by auto
qed

section \<open>Live update\<close>

definition alloc_key :: "amdgv_memmgr_mem \<Rightarrow> u32 \<times> u64 \<times> u64 \<times> u64" where
  "alloc_key m = (mm_id m, mm_alloc_off m, mm_len m, mm_align m)"

definition exported :: "amdgv_memmgr_mem \<Rightarrow> bool" where
  "exported m \<longleftrightarrow> MEM_ID_GET_ID (mm_id m) \<noteq> MEM_ECC_BAD_PAGE"

definition live_record :: "amdgv_mem_owner \<Rightarrow> amdgv_memmgr_mem \<Rightarrow> amdgv_live_info_memmgr_mem" where
  "live_record owner m = \<lparr>lm_id = mm_id m, lm_owner = owner, lm_alloc_off = mm_alloc_off m,
     lm_len = mm_len m, lm_align = mm_align m\<rparr>"

lemma export_loop_ok:
  assumes "i + length ms \<le> MEM_ALLOCS_MAX" and "length arr = MEM_ALLOCS_MAX"
  shows "\<exists>arr'. export_loop ms arr i owner = (0, arr', i + length (filter exported ms)) \<and>
     length arr' = MEM_ALLOCS_MAX \<and>
     take (i + length (filter exported ms)) arr' = take i arr @ map (live_record owner) (filter exported ms)"
  using assms
proof (induction ms arbitrary: arr i)
  case Nil
  then show ?case by simp
next
  case (Cons m ms)
  show ?case
  proof (cases "exported m")
    case False
    with Cons.IH [of i arr] Cons.prems show ?thesis by (simp add: exported_def)
  next
    case True
    let ?arr = "arr[i := live_record owner m]"
    have i: "i < MEM_ALLOCS_MAX" using Cons.prems(1) by simp
    from Cons.IH [of "Suc i" ?arr] Cons.prems obtain arr' where
      a: "export_loop ms ?arr (Suc i) owner = (0, arr', Suc i + length (filter exported ms))"
        "length arr' = MEM_ALLOCS_MAX"
        "take (Suc i + length (filter exported ms)) arr' =
           take (Suc i) ?arr @ map (live_record owner) (filter exported ms)" by auto
    have "take (Suc i) ?arr = take i arr @ [live_record owner m]"
      using i Cons.prems(2) by (simp add: take_Suc_conv_app_nth)
    moreover have "export_loop (m # ms) arr i owner = export_loop ms ?arr (Suc i) owner"
      using True i by (simp add: exported_def live_record_def)
    ultimately show ?thesis using a True by simp
  qed
qed

lemma find_mem_id_None_iff: "amdgv_memmgr_find_mem_id ms c = None \<longleftrightarrow> c \<notin> mm_id ` set ms"
  by (induction ms) auto

lemma import_loop_ok:
  assumes "\<forall>m \<in> set ms. exported m" and "distinct (map mm_id ms)" and "\<forall>j. mallocs j \<noteq> None"
    and "\<forall>m \<in> set ms. mm_id m \<notin> mm_id ` set (mg_allocs mgr)"
  shows "\<exists>new. import_loop adapt mallocs mgr (map (live_record owner) ms) i owner =
      (0, mgr\<lparr>mg_allocs := mg_allocs mgr @ new\<rparr>) \<and> map alloc_key new = map alloc_key ms"
  using assms
proof (induction ms arbitrary: mgr i)
  case Nil
  show ?case by (intro exI [of _ "[]"]) simp
next
  case (Cons m ms)
  obtain z where z: "mallocs i = Some z" using spec [OF Cons.prems(3), of i] by blast
  define n where "n = z\<lparr>mm_len := mm_len m, mm_alloc_off := mm_alloc_off m, mm_align := mm_align m,
     mm_id := mm_id m, mm_handle := (if ma_gart_size adapt = 0 then None else mm_handle z)\<rparr>"
  have nid: "mm_id n = mm_id m" by (simp add: n_def)
  let ?m = "mgr\<lparr>mg_allocs := mg_allocs mgr @ [n]\<rparr>"
  have fresh: "\<forall>x \<in> set ms. mm_id x \<notin> mm_id ` set (mg_allocs ?m)"
  proof
    fix x assume x: "x \<in> set ms"
    then have "mm_id x \<in> mm_id ` set ms" by (rule imageI)
    then have "mm_id x \<noteq> mm_id m" using Cons.prems(2) by auto
    then show "mm_id x \<notin> mm_id ` set (mg_allocs ?m)"
      using x Cons.prems(4) nid by simp
  qed
  have ex: "\<forall>m \<in> set ms. exported m" "distinct (map mm_id ms)" using Cons.prems(1,2) by simp_all
  from Cons.IH [OF ex Cons.prems(3) fresh, of "Suc i"] obtain new where
    new: "import_loop adapt mallocs ?m (map (live_record owner) ms) (Suc i) owner =
      (0, ?m\<lparr>mg_allocs := mg_allocs ?m @ new\<rparr>)" "map alloc_key new = map alloc_key ms" by blast
  have nf: "amdgv_memmgr_find_mem_id (mg_allocs mgr) (mm_id m) = None"
    using Cons.prems(4) by (simp add: find_mem_id_None_iff)
  have "import_loop adapt mallocs mgr (live_record owner m # rs) i owner =
      import_loop adapt mallocs ?m rs (Suc i) owner" for rs
    by (subst import_loop.simps)
      (use nf z Cons.prems(1) in \<open>simp add: live_record_def exported_def n_def Let_def del: import_loop.simps\<close>)
  moreover have "alloc_key n = alloc_key m" by (simp add: n_def alloc_key_def)
  ultimately show ?case
    using new by (intro exI [of _ "n # new"]) (simp del: import_loop.simps)
qed

text \<open>Live update: exporting the allocations of a manager and importing them into one without
  allocations gives back every block, in order, with its identifier, place, length and alignment,
  except the bad pages, which are left out on purpose.\<close>

theorem memmgr_export_import_roundtrip:
  assumes "mg_has_allocs mgr" and "length (mg_allocs mgr) \<le> MEM_ALLOCS_MAX"
    and "length arr = MEM_ALLOCS_MAX" and "distinct (map mm_id (filter exported (mg_allocs mgr)))"
    and "mg_has_allocs mgr0" and "mg_allocs mgr0 = []" and "\<forall>j. mallocs j \<noteq> None"
  shows "\<exists>arr' n mgr'. amdgv_memmgr_export_mem_allocs mgr arr 0 owner = (0, arr', n) \<and>
    amdgv_memmgr_import_mem_allocs adapt mallocs mgr0 arr' n owner = (0, mgr') \<and>
    map alloc_key (mg_allocs mgr') = map alloc_key (filter exported (mg_allocs mgr))"
proof -
  let ?ms = "filter exported (mg_allocs mgr)"
  obtain arr' where e: "export_loop (mg_allocs mgr) arr 0 owner = (0, arr', length ?ms)"
    "take (length ?ms) arr' = map (live_record owner) ?ms"
    using export_loop_ok [of 0 "mg_allocs mgr" arr owner] assms(2,3) by auto
  obtain new where "import_loop adapt mallocs mgr0 (map (live_record owner) ?ms) 0 owner =
      (0, mgr0\<lparr>mg_allocs := mg_allocs mgr0 @ new\<rparr>)" "map alloc_key new = map alloc_key ?ms"
    using import_loop_ok [of ?ms mallocs mgr0 adapt owner 0] assms(4,6,7) by auto
  with e assms show ?thesis
    by (simp add: amdgv_memmgr_export_mem_allocs_def amdgv_memmgr_import_mem_allocs_def)
qed

theorem memmgr_export_import_roundtrip_witness:
  "\<exists>arr' n mgr'. amdgv_memmgr_export_mem_allocs
      ((sample_mgr 0 0x10000000 False)\<lparr>mg_allocs := [sample_reserve 1 8192]\<rparr>)
      (replicate 128 (live_record MEM_OWNER_PF (mem_fresh 0))) 0 MEM_OWNER_PF = (0, arr', n) \<and>
    amdgv_memmgr_import_mem_allocs (sample_mem_adapter 4) (\<lambda>j. Some (mem_fresh j))
      (sample_mgr 0 0x10000000 False) arr' n MEM_OWNER_PF = (0, mgr') \<and>
    map alloc_key (mg_allocs mgr') = [(0, 0, 8192, 4096)]"
  using memmgr_export_import_roundtrip
    [of "(sample_mgr 0 0x10000000 False)\<lparr>mg_allocs := [sample_reserve 1 8192]\<rparr>"
      "replicate 128 (live_record MEM_OWNER_PF (mem_fresh 0))" "sample_mgr 0 0x10000000 False"
      "\<lambda>j. Some (mem_fresh j)" MEM_OWNER_PF "sample_mem_adapter 4"]
  by (simp add: sample_mgr_def amdgv_memmgr_init_def sample_reserve_def mem_fresh_def exported_def
      MEM_ID_GET_ID_def alloc_key_def)

end
