(* ===== verification/GV_List.thy ===== *)
theory GV_List
  imports GV_Prelude
begin

text \<open>
  The intrusive doubly linked lists of \<^verbatim>\<open>libgv/core/amdgv_list.h\<close> at the level of their
  pointers. A cell is a list head or the list node inside a structure; a store gives each cell
  its \<^verbatim>\<open>next\<close> and \<^verbatim>\<open>prev\<close> pointers, \<open>None\<close> being NULL. The predicate \<open>chain\<close>
  relates a head to the HOL list of the entries behind it; the lemmas show that every operation
  does to that list what its comment promises and leaves every other list alone.
\<close>

section \<open>Operations\<close>

record 'a links =
  nxt :: "'a \<Rightarrow> 'a option"
  prv :: "'a \<Rightarrow> 'a option"

definition set_nxt :: "'a \<Rightarrow> 'a option \<Rightarrow> 'a links \<Rightarrow> 'a links" where
  "set_nxt c p L = L\<lparr>nxt := (nxt L)(c := p)\<rparr>"

definition set_prv :: "'a \<Rightarrow> 'a option \<Rightarrow> 'a links \<Rightarrow> 'a links" where
  "set_prv c p L = L\<lparr>prv := (prv L)(c := p)\<rparr>"

definition AMDGV_INIT_LIST_HEAD :: "'a \<Rightarrow> 'a links \<Rightarrow> 'a links" where
  "AMDGV_INIT_LIST_HEAD c L = set_nxt c (Some c) (set_prv c (Some c) L)"

definition list_add :: "'a \<Rightarrow> 'a option \<Rightarrow> 'a option \<Rightarrow> 'a links \<Rightarrow> 'a links cres" where
  "list_add entry prev next L =
     cbind (cderef next) (\<lambda>n.
     cbind (cderef prev) (\<lambda>p.
       Inr (set_nxt p (Some entry)
             (set_prv entry prev (set_nxt entry next (set_prv n (Some entry) L))))))"

definition amdgv_list_add :: "'a \<Rightarrow> 'a \<Rightarrow> 'a links \<Rightarrow> 'a links cres" where
  "amdgv_list_add entry head L = list_add entry (Some head) (nxt L head) L"

definition amdgv_list_add_tail :: "'a \<Rightarrow> 'a \<Rightarrow> 'a links \<Rightarrow> 'a links cres" where
  "amdgv_list_add_tail entry head L = list_add entry (prv L head) (Some head) L"

definition list_del :: "'a option \<Rightarrow> 'a option \<Rightarrow> 'a links \<Rightarrow> 'a links cres" where
  "list_del prev next L =
     cbind (cderef next) (\<lambda>n.
     cbind (cderef prev) (\<lambda>p.
       Inr (set_nxt p next (set_prv n prev L))))"

definition amdgv_list_del :: "'a \<Rightarrow> 'a links \<Rightarrow> 'a links cres" where
  "amdgv_list_del entry L = list_del (prv L entry) (nxt L entry) L"

definition amdgv_list_del_init :: "'a \<Rightarrow> 'a links \<Rightarrow> 'a links cres" where
  "amdgv_list_del_init entry L =
     cbind (list_del (prv L entry) (nxt L entry) L) (\<lambda>L.
       Inr (AMDGV_INIT_LIST_HEAD entry L))"

definition amdgv_list_move_tail :: "'a \<Rightarrow> 'a \<Rightarrow> 'a links \<Rightarrow> 'a links cres" where
  "amdgv_list_move_tail entry head L =
     cbind (list_del (prv L entry) (nxt L entry) L) (\<lambda>L.
       amdgv_list_add_tail entry head L)"

definition amdgv_list_empty :: "'a \<Rightarrow> 'a links \<Rightarrow> bool" where
  "amdgv_list_empty head L = (if nxt L head \<noteq> None then nxt L head = Some head else True)"

definition amdgv_list_move_entry :: "'a \<Rightarrow> 'a \<Rightarrow> 'a links \<Rightarrow> 'a links cres" where
  "amdgv_list_move_entry entry position L =
     cbind (list_del (prv L entry) (nxt L entry) L) (\<lambda>L.
       list_add entry (Some position) (nxt L position) L)"

definition amdgv_list_swap_entries :: "'a \<Rightarrow> 'a \<Rightarrow> 'a links \<Rightarrow> 'a links cres" where
  "amdgv_list_swap_entries entry1 entry2 L =
     (if entry1 = entry2 then Inr L
      else let entry1_prev = prv L entry1; entry1_next = nxt L entry1 in
        cbind (if entry1_prev \<noteq> Some entry2 then amdgv_list_move_entry entry1 entry2 L else Inr L)
          (\<lambda>L. if entry1_next \<noteq> Some entry2
               then cbind (cderef entry1_next) (\<lambda>n.
                    cbind (cderef (prv L n)) (\<lambda>p. amdgv_list_move_entry entry2 p L))
               else Inr L))"

text \<open>
  The loops \<^verbatim>\<open>amdgv_list_for_each_entry\<close>: one that breaks at the first entry with a property
  (\<open>None\<close> when it runs to the head, where the loop variable then stands for the head), and
  one that visits every entry. \<open>pos\<close> is the pointer to the next cell. A walk that has not
  come back to its head after \<open>fuel\<close> cells is an endless loop: \<open>fuel\<close> is the number of cells
  there are, so that such a walk repeats a cell.
\<close>

fun list_search :: "nat \<Rightarrow> ('a \<Rightarrow> bool cres) \<Rightarrow> 'a links \<Rightarrow> 'a \<Rightarrow> 'a option \<Rightarrow> 'a option cres" where
  "list_search fuel P L head pos =
     (if pos = Some head then Inr None
      else case fuel of
        0 \<Rightarrow> Inl Endless_Loop
      | Suc n \<Rightarrow>
          cbind (cderef pos) (\<lambda>c.
          cbind (P c) (\<lambda>b. if b then Inr (Some c) else list_search n P L head (nxt L c))))"

fun list_entries :: "nat \<Rightarrow> 'a links \<Rightarrow> 'a \<Rightarrow> 'a option \<Rightarrow> 'a list cres" where
  "list_entries fuel L head pos =
     (if pos = Some head then Inr []
      else case fuel of
        0 \<Rightarrow> Inl Endless_Loop
      | Suc n \<Rightarrow>
          cbind (cderef pos) (\<lambda>c.
          cbind (list_entries n L head (nxt L c)) (\<lambda>cs. Inr (c # cs))))"

declare list_search.simps [simp del] list_entries.simps [simp del]

section \<open>Chains\<close>

text \<open>The cells \<open>xs\<close> lie between \<open>a\<close> and \<open>b\<close>, each with matching pointers.\<close>

fun dl_path :: "'a links \<Rightarrow> 'a \<Rightarrow> 'a list \<Rightarrow> 'a \<Rightarrow> bool" where
  "dl_path L a [] b \<longleftrightarrow> nxt L a = Some b \<and> prv L b = Some a"
| "dl_path L a (x # xs) b \<longleftrightarrow> nxt L a = Some x \<and> prv L x = Some a \<and> dl_path L x xs b"

definition chain :: "'a links \<Rightarrow> 'a \<Rightarrow> 'a list \<Rightarrow> bool" where
  "chain L h xs \<longleftrightarrow> dl_path L h xs h \<and> distinct (h # xs)"

definition same_outside :: "'a set \<Rightarrow> 'a links \<Rightarrow> 'a links \<Rightarrow> bool" where
  "same_outside S L L' \<longleftrightarrow> (\<forall>c. c \<notin> S \<longrightarrow> nxt L' c = nxt L c \<and> prv L' c = prv L c)"

lemma links_simps [simp]:
  "nxt (set_nxt c p L) = (nxt L)(c := p)" "prv (set_nxt c p L) = prv L"
  "nxt (set_prv c p L) = nxt L" "prv (set_prv c p L) = (prv L)(c := p)"
  by (simp_all add: set_nxt_def set_prv_def)

lemma dl_path_append [simp]:
  "dl_path L a (xs @ x # ys) b \<longleftrightarrow> dl_path L a xs x \<and> dl_path L x ys b"
  by (induction L a xs b rule: dl_path.induct) auto

lemma dl_path_cong:
  assumes "dl_path L a xs b" and "\<And>c. c \<in> set (a # xs) \<Longrightarrow> nxt L' c = nxt L c"
    and "\<And>c. c \<in> set (b # xs) \<Longrightarrow> prv L' c = prv L c"
  shows "dl_path L' a xs b"
  using assms by (induction L a xs b rule: dl_path.induct) auto

lemma dl_path_first: "dl_path L a xs b \<Longrightarrow> nxt L a = Some (hd (xs @ [b]))"
  by (cases xs) auto

lemma dl_path_last: "dl_path L a xs b \<Longrightarrow> prv L b = Some (last (a # xs))"
  by (induction L a xs b rule: dl_path.induct) auto

lemma same_outside_refl [simp]: "same_outside S L L"
  by (simp add: same_outside_def)

lemma same_outside_trans:
  "same_outside S L L' \<Longrightarrow> same_outside S L' L'' \<Longrightarrow> same_outside S L L''"
  by (simp add: same_outside_def)

lemma same_outside_mono: "same_outside S L L' \<Longrightarrow> S \<subseteq> T \<Longrightarrow> same_outside T L L'"
  by (auto simp: same_outside_def)

lemma chain_frame:
  assumes "chain L h xs" and "same_outside S L L'" and "S \<inter> set (h # xs) = {}"
  shows "chain L' h xs"
proof -
  have "dl_path L' h xs h"
    by (rule dl_path_cong [of L]) (use assms in \<open>auto simp: chain_def same_outside_def\<close>)
  with assms(1) show ?thesis by (simp add: chain_def)
qed

lemma chain_init: "chain (AMDGV_INIT_LIST_HEAD h L) h []"
  by (simp add: chain_def AMDGV_INIT_LIST_HEAD_def)

lemma init_same_outside: "same_outside {h} L (AMDGV_INIT_LIST_HEAD h L)"
  by (simp add: same_outside_def AMDGV_INIT_LIST_HEAD_def)

text \<open>Splitting a chain at a cell: the cell before a suffix is the head or an entry.\<close>

lemma chain_dl_path_split:
  assumes "dl_path L h (xs @ ys) k"
  shows "\<exists>p n. p = last (h # xs) \<and> n = hd (ys @ [k]) \<and> nxt L p = Some n \<and> prv L n = Some p \<and>
    (xs = [] \<or> dl_path L h (butlast xs) p) \<and> (ys = [] \<or> dl_path L n (tl ys) k)"
proof (cases xs rule: rev_cases)
  case Nil
  with assms show ?thesis by (cases ys) auto
next
  case (snoc xs' p)
  with assms show ?thesis by (cases ys) auto
qed

lemma dl_path_insert:
  assumes "dl_path L h (xs @ ys) k" and "x \<notin> set (h # k # xs @ ys)"
    and "distinct (xs @ ys)" and "h \<notin> set (xs @ ys)" and "k \<notin> set (xs @ ys)"
    and "p = last (h # xs)" and "n = hd (ys @ [k])"
  shows "dl_path (set_nxt p (Some x) (set_prv x (Some p) (set_nxt x (Some n) (set_prv n (Some x) L))))
    h (xs @ x # ys) k"
proof -
  let ?L = "set_nxt p (Some x) (set_prv x (Some p) (set_nxt x (Some n) (set_prv n (Some x) L)))"
  have p_in: "p \<in> set (h # xs)" unfolding assms(6) by (rule last_in_set) simp
  have n_in: "n \<in> set (k # ys)" using assms(7) by (cases ys) auto
  have pn: "p \<noteq> x" "n \<noteq> x" using p_in n_in assms(2) by auto
  have left: "dl_path ?L h xs x"
  proof (cases xs rule: rev_cases)
    case Nil
    with pn assms(6) show ?thesis by simp
  next
    case (snoc xs' q)
    have q: "q = p" using assms(6) snoc by simp
    have old: "dl_path L h xs' p" using assms(1) snoc q by simp
    have p_out: "p \<notin> set (h # xs')" using assms(3,4) snoc q by auto
    have n_out: "n \<notin> set (p # xs')" using n_in assms(3,5) snoc q by auto
    have x_out: "x \<notin> set (h # p # xs')" using assms(2) snoc q by simp
    have "dl_path ?L h xs' p"
      by (rule dl_path_cong [OF old]) (use p_out n_out x_out in \<open>auto simp only: links_simps fun_upd_apply list.set split: if_splits\<close>)
    then show ?thesis using snoc q pn by simp
  qed
  have right: "dl_path ?L x ys k"
  proof (cases ys)
    case Nil
    with pn assms(7) show ?thesis by simp
  next
    case (Cons m ys')
    have m: "m = n" using assms(7) Cons by simp
    have old: "dl_path L n ys' k" using assms(1) Cons m by simp
    have p_out: "p \<notin> set (n # ys')" using p_in assms(3,4) Cons m by auto
    have n_out: "n \<notin> set (k # ys')" using assms(3,5) Cons m by auto
    have x_out: "x \<notin> set (k # n # ys')" using assms(2) Cons m by simp
    have "dl_path ?L n ys' k"
      by (rule dl_path_cong [OF old]) (use p_out n_out x_out in \<open>auto simp only: links_simps fun_upd_apply list.set split: if_splits\<close>)
    then show ?thesis using Cons m pn by simp
  qed
  from left right show ?thesis by simp
qed

lemma dl_path_remove:
  assumes "dl_path L h (xs @ x # ys) k" and "x \<notin> set (h # k # xs @ ys)"
    and "distinct (xs @ ys)" and "h \<notin> set (xs @ ys)" and "k \<notin> set (xs @ ys)"
    and "p = last (h # xs)" and "n = hd (ys @ [k])"
  shows "dl_path (set_nxt p (Some n) (set_prv n (Some p) L)) h (xs @ ys) k"
proof -
  let ?L = "set_nxt p (Some n) (set_prv n (Some p) L)"
  have p_in: "p \<in> set (h # xs)" unfolding assms(6) by (rule last_in_set) simp
  have n_in: "n \<in> set (k # ys)" using assms(7) by (cases ys) auto
  have before: "xs = [] \<and> p = h \<or> (\<exists>xs'. xs = xs' @ [p] \<and> dl_path ?L h xs' p)"
  proof (cases xs rule: rev_cases)
    case Nil
    with assms(6) show ?thesis by simp
  next
    case (snoc xs' q)
    have q: "q = p" using assms(6) snoc by simp
    have old: "dl_path L h xs' p" using assms(1) snoc q by simp
    have p_out: "p \<notin> set (h # xs')" using assms(3,4) snoc q by auto
    have n_out: "n \<notin> set (p # xs')" using n_in assms(3,5) snoc q by auto
    have "dl_path ?L h xs' p"
      by (rule dl_path_cong [OF old])
        (use p_out n_out in \<open>auto simp only: links_simps fun_upd_apply list.set split: if_splits\<close>)
    with snoc q show ?thesis by simp
  qed
  have behind: "ys = [] \<and> n = k \<or> (\<exists>ys'. ys = n # ys' \<and> dl_path ?L n ys' k)"
  proof (cases ys)
    case Nil
    with assms(7) show ?thesis by simp
  next
    case (Cons m ys')
    have m: "m = n" using assms(7) Cons by simp
    have old: "dl_path L n ys' k" using assms(1) Cons m by simp
    have p_out: "p \<notin> set (n # ys')" using p_in assms(3,4) Cons m by auto
    have n_out: "n \<notin> set (k # ys')" using assms(3,5) Cons m by auto
    have "dl_path ?L n ys' k"
      by (rule dl_path_cong [OF old])
        (use p_out n_out in \<open>auto simp only: links_simps fun_upd_apply list.set split: if_splits\<close>)
    with Cons m show ?thesis by simp
  qed
  have "nxt ?L p = Some n" "prv ?L n = Some p" by simp_all
  with before behind show ?thesis by (elim disjE exE conjE) simp_all
qed

text \<open>Inserting a loose cell behind the cell \<open>p\<close> of a chain.\<close>

lemma add_after:
  assumes c: "chain L h (xs @ ys)" and x: "x \<notin> set (h # xs @ ys)" and p: "p = last (h # xs)"
  obtains L' where "amdgv_list_add x p L = Inr L'" and "chain L' h (xs @ x # ys)"
    and "same_outside (insert x (set (h # xs @ ys))) L L'"
proof -
  let ?n = "hd (ys @ [h])"
  let ?L = "set_nxt p (Some x) (set_prv x (Some p) (set_nxt x (Some ?n) (set_prv ?n (Some x) L)))"
  have path: "dl_path L h (xs @ ys) h" and d: "distinct (h # xs @ ys)"
    using c by (auto simp: chain_def)
  have n: "nxt L p = Some ?n" using chain_dl_path_split [OF path] p by metis
  have p_in: "p \<in> set (h # xs)" unfolding p by (rule last_in_set) simp
  have n_in: "?n \<in> set (h # ys)" by (cases ys) auto
  have "amdgv_list_add x p L = Inr ?L" by (simp add: amdgv_list_add_def list_add_def n)
  moreover have "dl_path ?L h (xs @ x # ys) h"
    by (rule dl_path_insert [OF path]) (use d x p in simp_all)
  then have "chain ?L h (xs @ x # ys)" using d x by (simp add: chain_def del: dl_path_append) auto
  moreover have "same_outside (insert x (set (h # xs @ ys))) L ?L"
    using p_in n_in by (auto simp: same_outside_def)
  ultimately show ?thesis by (rule that)
qed

lemma add_front:
  assumes "chain L h xs" and "x \<notin> set (h # xs)"
  obtains L' where "amdgv_list_add x h L = Inr L'" and "chain L' h (x # xs)"
    and "same_outside (insert x (set (h # xs))) L L'"
  using add_after [of L h "[]" xs x h] assms by (metis append_Nil last.simps)

lemma add_before:
  assumes c: "chain L h (xs @ ys)" and x: "x \<notin> set (h # xs @ ys)" and q: "q = hd (ys @ [h])"
  obtains L' where "amdgv_list_add_tail x q L = Inr L'" and "chain L' h (xs @ x # ys)"
    and "same_outside (insert x (set (h # xs @ ys))) L L'"
proof -
  let ?p = "last (h # xs)"
  have path: "dl_path L h (xs @ ys) h" using c by (simp add: chain_def)
  have "prv L q = Some ?p" and "nxt L ?p = Some q"
    using chain_dl_path_split [OF path] q by metis+
  then have "amdgv_list_add_tail x q L = amdgv_list_add x ?p L"
    by (simp add: amdgv_list_add_tail_def amdgv_list_add_def)
  then show ?thesis using add_after [OF c x refl] that by metis
qed

lemma add_back:
  assumes "chain L h xs" and "x \<notin> set (h # xs)"
  obtains L' where "amdgv_list_add_tail x h L = Inr L'" and "chain L' h (xs @ [x])"
    and "same_outside (insert x (set (h # xs))) L L'"
  using add_before [of L h xs "[]" x h] assms by (metis append_Nil append_Nil2 list.sel(1))

text \<open>Removing a cell from its chain.\<close>

lemma del_cell:
  assumes c: "chain L h (xs @ x # ys)"
  obtains L' where "list_del (prv L x) (nxt L x) L = Inr L'" and "chain L' h (xs @ ys)"
    and "same_outside (set (h # xs @ ys)) L L'"
proof -
  let ?p = "last (h # xs)" and ?n = "hd (ys @ [h])"
  let ?L = "set_nxt ?p (Some ?n) (set_prv ?n (Some ?p) L)"
  have path: "dl_path L h (xs @ x # ys) h" and d: "distinct (h # xs @ x # ys)"
    using c by (auto simp: chain_def)
  have p: "prv L x = Some ?p" and n: "nxt L x = Some ?n"
    using path dl_path_last [of L h xs x] dl_path_first [of L x ys h] by simp_all
  have "?p \<in> set (h # xs)" by (rule last_in_set) simp
  moreover have "?n \<in> set (h # ys)" by (cases ys) auto
  ultimately have "same_outside (set (h # xs @ ys)) L ?L" by (auto simp: same_outside_def)
  moreover have "list_del (prv L x) (nxt L x) L = Inr ?L" by (simp add: p n list_del_def)
  moreover have "dl_path ?L h (xs @ ys) h"
    by (rule dl_path_remove [OF path]) (use d in auto)
  then have "chain ?L h (xs @ ys)" using d by (simp add: chain_def)
  ultimately show ?thesis by (intro that)
qed

lemma del_init_cell:
  assumes c: "chain L h (xs @ x # ys)"
  obtains L' where "amdgv_list_del_init x L = Inr L'" and "chain L' h (xs @ ys)"
    and "chain L' x []" and "same_outside (set (h # xs @ x # ys)) L L'"
proof -
  have x: "x \<notin> set (h # xs @ ys)" using c by (auto simp: chain_def)
  from c obtain L1 where L1: "list_del (prv L x) (nxt L x) L = Inr L1" "chain L1 h (xs @ ys)"
    "same_outside (set (h # xs @ ys)) L L1" by (rule del_cell)
  let ?L = "AMDGV_INIT_LIST_HEAD x L1"
  have "amdgv_list_del_init x L = Inr ?L" by (simp add: amdgv_list_del_init_def L1)
  moreover have "chain ?L h (xs @ ys)"
    by (rule chain_frame [OF L1(2) init_same_outside]) (use x in auto)
  moreover have "same_outside (set (h # xs @ x # ys)) L ?L"
    by (rule same_outside_trans [OF same_outside_mono [OF L1(3)]
          same_outside_mono [OF init_same_outside]]) auto
  ultimately show ?thesis using chain_init by (intro that)
qed

lemma move_tail_cell:
  assumes c: "chain L h (xs @ x # ys)"
  obtains L' where "amdgv_list_move_tail x h L = Inr L'" and "chain L' h (xs @ ys @ [x])"
    and "same_outside (set (h # xs @ x # ys)) L L'"
proof -
  have x: "x \<notin> set (h # xs @ ys)" using c by (auto simp: chain_def)
  from c obtain L1 where L1: "list_del (prv L x) (nxt L x) L = Inr L1" "chain L1 h (xs @ ys)"
    "same_outside (set (h # xs @ ys)) L L1" by (rule del_cell)
  from L1(2) x obtain L2 where "amdgv_list_add_tail x h L1 = Inr L2"
    "chain L2 h ((xs @ ys) @ [x])" "same_outside (insert x (set (h # xs @ ys))) L1 L2"
    by (rule add_back)
  moreover from this have "same_outside (set (h # xs @ x # ys)) L L2"
    by (intro same_outside_trans [OF same_outside_mono [OF L1(3)] same_outside_mono]) auto
  ultimately show ?thesis using L1(1) by (intro that) (simp_all add: amdgv_list_move_tail_def)
qed

text \<open>Moving a cell behind another one, in either direction.\<close>

lemma move_entry_cell:
  assumes c: "chain L h (xs @ x # ys)" and s: "us @ vs = xs @ ys" and p: "p = last (h # us)"
  obtains L' where "amdgv_list_move_entry x p L = Inr L'" and "chain L' h (us @ x # vs)"
    and "same_outside (set (h # xs @ x # ys)) L L'"
proof -
  have us: "set us \<union> set vs = set xs \<union> set ys" using arg_cong [OF s, of set] by simp
  have x: "x \<notin> set (h # us @ vs)" using c us by (auto simp: chain_def)
  from c obtain L1 where L1: "list_del (prv L x) (nxt L x) L = Inr L1" "chain L1 h (us @ vs)"
    "same_outside (set (h # us @ vs)) L L1" using s by (metis del_cell)
  from L1(2) x p obtain L2 where "amdgv_list_add x p L1 = Inr L2"
    "chain L2 h (us @ x # vs)" "same_outside (insert x (set (h # us @ vs))) L1 L2"
    by (rule add_after)
  moreover from this have "same_outside (set (h # xs @ x # ys)) L L2"
    by (intro same_outside_trans [OF same_outside_mono [OF L1(3)] same_outside_mono])
      (use us in auto)
  ultimately show ?thesis using L1(1)
    by (intro that) (simp_all add: amdgv_list_move_entry_def amdgv_list_add_def)
qed

lemma swap_apart:
  assumes c: "chain L h (xs @ a # m # ys @ b # zs)"
  obtains L' where "amdgv_list_swap_entries a b L = Inr L'" and "chain L' h (xs @ b # m # ys @ a # zs)"
    and "same_outside (set (h # xs @ a # m # ys @ b # zs)) L L'"
proof -
  have d: "distinct (h # xs @ a # m # ys @ b # zs)" using c by (simp add: chain_def)
  have path: "dl_path L h (xs @ a # m # ys @ b # zs) h" using c by (simp add: chain_def)
  have pa: "prv L a = Some (last (h # xs))" using path dl_path_last [of L h xs a] by simp
  have na: "nxt L a = Some m" using path by simp
  have "last (h # xs) \<in> set (h # xs)" by (rule last_in_set) simp
  then have prev: "prv L a \<noteq> Some b" using pa d by auto
  from c obtain L1 where L1: "amdgv_list_move_entry a b L = Inr L1"
    "chain L1 h ((xs @ m # ys @ [b]) @ a # zs)"
    "same_outside (set (h # xs @ a # m # ys @ b # zs)) L L1"
    by (rule move_entry_cell [where us = "xs @ m # ys @ [b]" and vs = zs and p = b]) simp_all
  have path1: "dl_path L1 h (xs @ m # ys @ b # a # zs) h" using L1(2) by (simp add: chain_def)
  then have pm: "prv L1 m = Some (last (h # xs))" using dl_path_last [of L1 h xs m] by simp
  from L1(2) have "chain L1 h ((xs @ m # ys) @ b # a # zs)" by simp
  then obtain L2 where L2: "amdgv_list_move_entry b (last (h # xs)) L1 = Inr L2"
    "chain L2 h (xs @ b # m # ys @ a # zs)"
    "same_outside (set (h # (xs @ m # ys) @ b # a # zs)) L1 L2"
    by (rule move_entry_cell [where us = xs and vs = "m # ys @ a # zs"]) simp_all
  have "m \<noteq> b" "a \<noteq> b" using d by auto
  then have "amdgv_list_swap_entries a b L = Inr L2"
    by (simp add: amdgv_list_swap_entries_def prev L1(1) na pm L2(1) del: last.simps)
  moreover have "same_outside (set (h # xs @ a # m # ys @ b # zs)) L L2"
    by (rule same_outside_trans [OF L1(3) same_outside_mono [OF L2(3)]]) auto
  ultimately show ?thesis using L2(2) by (intro that)
qed


lemma swap_adjacent:
  assumes c: "chain L h (xs @ a # b # zs)"
  obtains L' where "amdgv_list_swap_entries a b L = Inr L'" and "chain L' h (xs @ b # a # zs)"
    and "same_outside (set (h # xs @ a # b # zs)) L L'"
proof -
  have d: "distinct (h # xs @ a # b # zs)" and path: "dl_path L h (xs @ a # b # zs) h"
    using c by (simp_all add: chain_def)
  have pa: "prv L a = Some (last (h # xs))" using path dl_path_last [of L h xs a] by simp
  have na: "nxt L a = Some b" using path by simp
  have "last (h # xs) \<in> set (h # xs)" by (rule last_in_set) simp
  then have prev: "prv L a \<noteq> Some b" using pa d by auto
  from c obtain L1 where L1: "amdgv_list_move_entry a b L = Inr L1"
    "chain L1 h ((xs @ [b]) @ a # zs)" "same_outside (set (h # xs @ a # b # zs)) L L1"
    by (rule move_entry_cell [where us = "xs @ [b]" and vs = zs and p = b]) simp_all
  have "a \<noteq> b" using d by auto
  then have "amdgv_list_swap_entries a b L = Inr L1"
    by (simp add: amdgv_list_swap_entries_def prev L1(1) na)
  then show ?thesis using L1(2,3) by (intro that) simp_all
qed

lemma swap_apart_rev:
  assumes c: "chain L h (xs @ a # m # ys @ b # zs)"
  obtains L' where "amdgv_list_swap_entries b a L = Inr L'" and "chain L' h (xs @ b # m # ys @ a # zs)"
    and "same_outside (set (h # xs @ a # m # ys @ b # zs)) L L'"
proof -
  let ?n = "hd (zs @ [h])"
  have d: "distinct (h # xs @ a # m # ys @ b # zs)"
    and path: "dl_path L h (xs @ a # m # ys @ b # zs) h" using c by (simp_all add: chain_def)
  have pb: "prv L b = Some (last (m # ys))" using path dl_path_last [of L m ys b] by simp
  have nb: "nxt L b = Some ?n" using path dl_path_first [of L b zs h] by simp
  have "last (m # ys) \<in> set (m # ys)" by (rule last_in_set) simp
  then have prev: "prv L b \<noteq> Some a" using pb d by auto
  have "?n \<in> set (h # zs)" by (cases zs) auto
  then have nn: "nxt L b \<noteq> Some a" using nb d by auto
  from c have "chain L h ((xs @ a # m # ys) @ b # zs)" by simp
  then obtain L1 where L1: "amdgv_list_move_entry b a L = Inr L1"
    "chain L1 h ((xs @ [a]) @ b # (m # ys @ zs))"
    "same_outside (set (h # (xs @ a # m # ys) @ b # zs)) L L1"
    by (rule move_entry_cell [where us = "xs @ [a]" and vs = "m # ys @ zs" and p = a]) simp_all
  have "dl_path L1 h ((xs @ a # b # m # ys) @ zs) h" using L1(2) by (simp add: chain_def)
  from chain_dl_path_split [OF this] have pn: "prv L1 ?n = Some (last (m # ys))" by auto
  from L1(2) have "chain L1 h (xs @ a # (b # m # ys @ zs))" by simp
  then obtain L2 where L2: "amdgv_list_move_entry a (last (m # ys)) L1 = Inr L2"
    "chain L2 h ((xs @ b # m # ys) @ a # zs)"
    "same_outside (set (h # xs @ a # (b # m # ys @ zs))) L1 L2"
    by (rule move_entry_cell [where us = "xs @ b # m # ys" and vs = zs]) simp_all
  have "a \<noteq> b" using d by auto
  then have "amdgv_list_swap_entries b a L = Inr L2" using nn
    by (simp add: amdgv_list_swap_entries_def prev L1(1) nb pn L2(1) del: last.simps)
  moreover have "same_outside (set (h # xs @ a # m # ys @ b # zs)) L L2"
    by (rule same_outside_trans [OF same_outside_mono [OF L1(3)] same_outside_mono [OF L2(3)]]) auto
  ultimately show ?thesis using L2(2) by (intro that) simp_all
qed

lemma swap_adjacent_rev:
  assumes c: "chain L h (xs @ a # b # zs)"
  obtains L' where "amdgv_list_swap_entries b a L = Inr L'" and "chain L' h (xs @ b # a # zs)"
    and "same_outside (set (h # xs @ a # b # zs)) L L'"
proof -
  let ?n = "hd (zs @ [h])"
  have d: "distinct (h # xs @ a # b # zs)" and path: "dl_path L h (xs @ a # b # zs) h"
    using c by (simp_all add: chain_def)
  have pb: "prv L b = Some a" using path by simp
  have nb: "nxt L b = Some ?n" using path dl_path_first [of L b zs h] by simp
  have "?n \<in> set (h # zs)" by (cases zs) auto
  then have nn: "nxt L b \<noteq> Some a" using nb d by auto
  have "dl_path L h ((xs @ a # [b]) @ zs) h" using path by simp
  from chain_dl_path_split [OF this] have pn: "prv L ?n = Some b" by auto
  from c obtain L1 where L1: "amdgv_list_move_entry a b L = Inr L1"
    "chain L1 h ((xs @ [b]) @ a # zs)" "same_outside (set (h # xs @ a # b # zs)) L L1"
    by (rule move_entry_cell [where us = "xs @ [b]" and vs = zs and p = b]) simp_all
  have "a \<noteq> b" using d by auto
  then have "amdgv_list_swap_entries b a L = Inr L1" using nn
    by (simp add: amdgv_list_swap_entries_def pb nb pn L1(1))
  then show ?thesis using L1(2,3) by (intro that) simp_all
qed

section \<open>Walks\<close>

lemma search_path:
  assumes "dl_path L a xs h" and "h \<notin> set xs" and "length xs \<le> fuel"
    and "\<And>c. c \<in> set xs \<Longrightarrow> P c = Inr (Q c)"
  shows "list_search fuel P L h (nxt L a) = Inr (find Q xs)"
  using assms
proof (induction xs arbitrary: a fuel)
  case Nil
  then show ?case by (simp add: list_search.simps)
next
  case (Cons x xs)
  then obtain n where n: "fuel = Suc n" by (cases fuel) auto
  have "list_search n P L h (nxt L x) = Inr (find Q xs)" using Cons n by auto
  then show ?case using Cons.prems n by (auto simp: list_search.simps [of "Suc n"])
qed

lemma entries_path:
  assumes "dl_path L a xs h" and "h \<notin> set xs" and "length xs \<le> fuel"
  shows "list_entries fuel L h (nxt L a) = Inr xs"
  using assms
proof (induction xs arbitrary: a fuel)
  case Nil
  then show ?case by (simp add: list_entries.simps)
next
  case (Cons x xs)
  then obtain n where n: "fuel = Suc n" by (cases fuel) auto
  have "list_entries n L h (nxt L x) = Inr xs" using Cons n by auto
  then show ?case using Cons.prems n by (auto simp: list_entries.simps [of "Suc n"])
qed

lemma chain_search:
  assumes "chain L h xs" and "length xs \<le> fuel" and "\<And>c. c \<in> set xs \<Longrightarrow> P c = Inr (Q c)"
  shows "list_search fuel P L h (nxt L h) = Inr (find Q xs)"
  using assms by (intro search_path) (auto simp: chain_def)

lemma chain_entries:
  assumes "chain L h xs" and "length xs \<le> fuel"
  shows "list_entries fuel L h (nxt L h) = Inr xs"
  using assms by (intro entries_path) (auto simp: chain_def)

lemma chain_empty: "chain L h xs \<Longrightarrow> amdgv_list_empty h L \<longleftrightarrow> xs = []"
  by (cases xs) (auto simp: chain_def amdgv_list_empty_def)

lemma chain_cell_not_empty: "chain L h (xs @ x # ys) \<Longrightarrow> \<not> amdgv_list_empty x L"
  using dl_path_first [of L x ys h]
  by (cases ys) (auto simp: chain_def amdgv_list_empty_def)

text \<open>A chain is determined by its store: a head has one list.\<close>

lemma chain_unique:
  assumes "chain L h xs" and "chain L h ys"
  shows "xs = ys"
proof -
  have "list_entries (length xs + length ys) L h (nxt L h) = Inr xs"
    "list_entries (length xs + length ys) L h (nxt L h) = Inr ys"
    by (rule chain_entries; use assms in simp)+
  then show ?thesis by simp
qed

section \<open>The contract of a linked list\<close>

text \<open>What a client relies on: inserting behind a cell of a list, taking a cell out, and that
  an operation changes no list with other cells.\<close>

locale intrusive_list =
  fixes rep :: "'s \<Rightarrow> 'a \<Rightarrow> 'a list \<Rightarrow> bool"
    and add :: "'a \<Rightarrow> 'a \<Rightarrow> 's \<Rightarrow> 's cres"
    and del :: "'a \<Rightarrow> 's \<Rightarrow> 's cres"
    and outside :: "'a set \<Rightarrow> 's \<Rightarrow> 's \<Rightarrow> bool"
  assumes add_rep: "rep s h (xs @ ys) \<Longrightarrow> x \<notin> set (h # xs @ ys) \<Longrightarrow> p = last (h # xs) \<Longrightarrow>
      \<exists>s'. add x p s = Inr s' \<and> rep s' h (xs @ x # ys) \<and>
        outside (insert x (set (h # xs @ ys))) s s'"
    and del_rep: "rep s h (xs @ x # ys) \<Longrightarrow>
      \<exists>s'. del x s = Inr s' \<and> rep s' h (xs @ ys) \<and> outside (set (h # xs @ x # ys)) s s'"
    and rep_distinct: "rep s h xs \<Longrightarrow> distinct (h # xs)"
    and frame: "rep s h xs \<Longrightarrow> outside S s s' \<Longrightarrow> S \<inter> set (h # xs) = {} \<Longrightarrow> rep s' h xs"
begin

lemma add_others:
  assumes "rep s h (xs @ ys)" and "x \<notin> set (h # xs @ ys)" and "p = last (h # xs)"
  obtains s' where "add x p s = Inr s'" and "rep s' h (xs @ x # ys)"
    and "\<And>k zs. rep s k zs \<Longrightarrow> insert x (set (h # xs @ ys)) \<inter> set (k # zs) = {} \<Longrightarrow> rep s' k zs"
  using add_rep [OF assms] frame by metis

lemma del_others:
  assumes "rep s h (xs @ x # ys)"
  obtains s' where "del x s = Inr s'" and "rep s' h (xs @ ys)"
    and "\<And>k zs. rep s k zs \<Longrightarrow> set (h # xs @ x # ys) \<inter> set (k # zs) = {} \<Longrightarrow> rep s' k zs"
  using del_rep [OF assms] frame by metis

text \<open>Inserting and taking out again gives back the list.\<close>

lemma add_del:
  assumes "rep s h (xs @ ys)" and "x \<notin> set (h # xs @ ys)" and "p = last (h # xs)"
  obtains s1 s2 where "add x p s = Inr s1" and "del x s1 = Inr s2" and "rep s2 h (xs @ ys)"
  using add_rep [OF assms] del_rep by metis

text \<open>Moving a cell from one list to another.\<close>

lemma transfer:
  assumes "rep s h (xs @ x # ys)" and k: "rep s k (us @ vs)"
    and disj: "set (h # xs @ x # ys) \<inter> set (k # us @ vs) = {}" and p: "p = last (k # us)"
  obtains s1 s2 where "del x s = Inr s1" and "add x p s1 = Inr s2"
    and "rep s2 h (xs @ ys)" and "rep s2 k (us @ x # vs)"
proof -
  obtain s1 where s1: "del x s = Inr s1" "rep s1 h (xs @ ys)"
    and keep: "\<And>k zs. rep s k zs \<Longrightarrow> set (h # xs @ x # ys) \<inter> set (k # zs) = {} \<Longrightarrow> rep s1 k zs"
    using assms(1) by (rule del_others) blast
  have k1: "rep s1 k (us @ vs)" using keep [OF k disj] .
  have "x \<notin> set (k # us @ vs)" using disj by auto
  then obtain s2 where s2: "add x p s1 = Inr s2" "rep s2 k (us @ x # vs)"
    and keep2: "\<And>k' zs. rep s1 k' zs \<Longrightarrow> insert x (set (k # us @ vs)) \<inter> set (k' # zs) = {} \<Longrightarrow> rep s2 k' zs"
    using add_others [OF k1 _ p] by metis
  have "distinct (h # xs @ x # ys)" using rep_distinct [OF assms(1)] .
  then have "insert x (set (k # us @ vs)) \<inter> set (h # xs @ ys) = {}" using disj by auto
  from keep2 [OF s1(2) this] s1(1) s2 show ?thesis by (intro that)
qed

end

interpretation dl: intrusive_list chain amdgv_list_add amdgv_list_del_init same_outside
proof
  fix L :: "'a links" and h x p :: 'a and xs ys
  assume "chain L h (xs @ ys)" "x \<notin> set (h # xs @ ys)" "p = last (h # xs)"
  then show "\<exists>L'. amdgv_list_add x p L = Inr L' \<and> chain L' h (xs @ x # ys) \<and>
      same_outside (insert x (set (h # xs @ ys))) L L'"
    by (rule add_after) blast
next
  fix L :: "'a links" and h x :: 'a and xs ys
  assume "chain L h (xs @ x # ys)"
  then show "\<exists>L'. amdgv_list_del_init x L = Inr L' \<and> chain L' h (xs @ ys) \<and>
      same_outside (set (h # xs @ x # ys)) L L'"
    by (rule del_init_cell) blast
next
  fix L :: "'a links" and h :: 'a and xs
  assume "chain L h xs"
  then show "distinct (h # xs)" by (simp add: chain_def)
next
  fix L L' :: "'a links" and h :: 'a and xs S
  assume "chain L h xs" "same_outside S L L'" "S \<inter> set (h # xs) = {}"
  then show "chain L' h xs" by (rule chain_frame)
qed

section \<open>Properties\<close>

lemma split_two:
  assumes "i < j" and "j < length xs"
  obtains us m ws vs where "xs = us @ xs ! i # m # ws @ xs ! j # vs" "length us = i"
      "length (us @ xs ! i # m # ws) = j"
  | us vs where "xs = us @ xs ! i # xs ! j # vs" "length us = i" "Suc (length us) = j"
proof -
  define us mid vs where "us = take i xs" and "mid = take (j - Suc i) (drop (Suc i) xs)"
    and "vs = drop (Suc j) xs"
  have s: "xs = us @ xs ! i # mid @ xs ! j # vs"
    using assms id_take_nth_drop [of i xs] id_take_nth_drop [of "j - Suc i" "drop (Suc i) xs"]
    by (simp add: us_def mid_def vs_def)
  have l: "length us = i" "length mid = j - Suc i" using assms by (simp_all add: us_def mid_def)
  show ?thesis
  proof (cases mid)
    case Nil
    with s l assms that(2) show ?thesis by simp
  next
    case (Cons m ws)
    with s l assms have "length (us @ xs ! i # m # ws) = j" by auto
    with s l Cons that(1) show ?thesis by simp
  qed
qed

lemma swap_entries_lt:
  assumes c: "chain L h xs" and "i < j" and "j < length xs"
  shows "(\<exists>L'. amdgv_list_swap_entries (xs ! i) (xs ! j) L = Inr L' \<and>
      chain L' h (xs[i := xs ! j, j := xs ! i]) \<and> same_outside (set (h # xs)) L L') \<and>
    (\<exists>L'. amdgv_list_swap_entries (xs ! j) (xs ! i) L = Inr L' \<and>
      chain L' h (xs[i := xs ! j, j := xs ! i]) \<and> same_outside (set (h # xs)) L L')"
proof (rule split_two [OF assms(2,3)])
  fix us m ws vs
  assume s: "xs = us @ xs ! i # m # ws @ xs ! j # vs" and i: "length us = i"
    and j: "length (us @ xs ! i # m # ws) = j"
  define a b where "a = xs ! i" and "b = xs ! j"
  have xs: "xs = us @ a # m # ws @ b # vs" using s by (simp add: a_def b_def)
  have r: "xs[i := b, j := a] = us @ b # m # ws @ a # vs"
    using i j unfolding xs by (auto simp: list_update_append)
  have c: "chain L h (us @ a # m # ws @ b # vs)" using c xs by simp
  show ?thesis
    unfolding a_def [symmetric] b_def [symmetric] r unfolding xs
    using swap_apart [OF c] swap_apart_rev [OF c] by metis
next
  fix us vs
  assume s: "xs = us @ xs ! i # xs ! j # vs" and i: "length us = i" and j: "Suc (length us) = j"
  define a b where "a = xs ! i" and "b = xs ! j"
  have xs: "xs = us @ a # b # vs" using s by (simp add: a_def b_def)
  have r: "xs[i := b, j := a] = us @ b # a # vs"
    using i j unfolding xs by (auto simp: list_update_append)
  have c: "chain L h (us @ a # b # vs)" using c xs by simp
  show ?thesis
    unfolding a_def [symmetric] b_def [symmetric] r unfolding xs
    using swap_adjacent [OF c] swap_adjacent_rev [OF c] by metis
qed

text \<open>Swapping the entries at positions i and j of a list gives the list with the two
  exchanged, whichever comes first and whether or not they are neighbours, without a NULL
  dereference, and every list that shares no cell with it is left as it was.\<close>

theorem list_swap_entries_swaps:
  assumes "chain L h xs" and "i < length xs" and "j < length xs"
  shows "\<exists>L'. amdgv_list_swap_entries (xs ! i) (xs ! j) L = Inr L' \<and>
    chain L' h (xs[i := xs ! j, j := xs ! i]) \<and>
    (\<forall>k zs. chain L k zs \<and> set (h # xs) \<inter> set (k # zs) = {} \<longrightarrow> chain L' k zs)"
proof -
  have "\<exists>L'. amdgv_list_swap_entries (xs ! i) (xs ! j) L = Inr L' \<and>
      chain L' h (xs[i := xs ! j, j := xs ! i]) \<and> same_outside (set (h # xs)) L L'"
  proof (cases i j rule: linorder_cases)
    case less
    then show ?thesis by (rule swap_entries_lt [OF assms(1) _ assms(3), THEN conjunct1])
  next
    case equal
    then show ?thesis using assms(1) by (simp add: amdgv_list_swap_entries_def)
  next
    case greater
    have "xs[j := xs ! i, i := xs ! j] = xs[i := xs ! j, j := xs ! i]"
      using greater by (simp add: list_update_swap)
    then show ?thesis
      using swap_entries_lt [OF assms(1) greater assms(2), THEN conjunct2] by (simp only:)
  qed
  then show ?thesis by (blast intro: dl.frame)
qed

text \<open>A list of three nodes 1, 2, 3 behind the head 0.\<close>

definition three_links :: "nat links" where
  "three_links = \<lparr>nxt = (\<lambda>c. Some (if c = 3 then 0 else c + 1)),
     prv = (\<lambda>c. Some (if c = 0 then 3 else c - 1))\<rparr>"

lemma three_links_chain: "chain three_links 0 [1, 2, 3]"
  by (simp add: chain_def three_links_def)

theorem list_swap_entries_swaps_witness:
  "\<exists>L'. amdgv_list_swap_entries 3 1 three_links = Inr L' \<and> chain L' 0 [3, 2, 1]"
  using list_swap_entries_swaps [OF three_links_chain, of 2 0] by auto

text \<open>C30. Each list operation does to the HOL list behind a head what its comment says:
  \<^verbatim>\<open>amdgv_list_add\<close> puts the new cell in front, \<^verbatim>\<open>amdgv_list_add_tail\<close> at the end,
  \<^verbatim>\<open>amdgv_list_del\<close> takes a cell out, \<^verbatim>\<open>amdgv_list_move_tail\<close> makes it the last one,
  \<^verbatim>\<open>amdgv_list_empty\<close> decides whether there is none, and the walk over the list visits
  exactly its cells in order.\<close>

theorem list_operations_refine:
  assumes "chain L h (xs @ x # ys)" and "y \<notin> set (h # xs @ x # ys)"
    and "length (xs @ x # ys) \<le> fuel"
  shows "(\<exists>L'. amdgv_list_add y h L = Inr L' \<and> chain L' h (y # xs @ x # ys)) \<and>
    (\<exists>L'. amdgv_list_add_tail y h L = Inr L' \<and> chain L' h (xs @ x # ys @ [y])) \<and>
    (\<exists>L'. amdgv_list_del x L = Inr L' \<and> chain L' h (xs @ ys) \<and>
       amdgv_list_empty h L' = (xs @ ys = [])) \<and>
    (\<exists>L'. amdgv_list_del_init x L = Inr L' \<and> chain L' h (xs @ ys) \<and> chain L' x []) \<and>
    (\<exists>L'. amdgv_list_move_tail x h L = Inr L' \<and> chain L' h (xs @ ys @ [x])) \<and>
    list_entries fuel L h (nxt L h) = Inr (xs @ x # ys)"
proof (intro conjI)
  show "\<exists>L'. amdgv_list_add y h L = Inr L' \<and> chain L' h (y # xs @ x # ys)"
    using add_front [OF assms(1,2)] by metis
  show "\<exists>L'. amdgv_list_add_tail y h L = Inr L' \<and> chain L' h (xs @ x # ys @ [y])"
    using add_back [OF assms(1,2)] by (metis append_Cons append_assoc)
  show "\<exists>L'. amdgv_list_del x L = Inr L' \<and> chain L' h (xs @ ys) \<and>
       amdgv_list_empty h L' = (xs @ ys = [])"
    using del_cell [OF assms(1)] chain_empty unfolding amdgv_list_del_def by metis
  show "\<exists>L'. amdgv_list_del_init x L = Inr L' \<and> chain L' h (xs @ ys) \<and> chain L' x []"
    using del_init_cell [OF assms(1)] by metis
  show "\<exists>L'. amdgv_list_move_tail x h L = Inr L' \<and> chain L' h (xs @ ys @ [x])"
    using move_tail_cell [OF assms(1)] by metis
  show "list_entries fuel L h (nxt L h) = Inr (xs @ x # ys)"
    by (rule chain_entries [OF assms(1,3)])
qed

theorem list_operations_refine_witness:
  "list_entries 3 three_links 0 (nxt three_links 0) = Inr [1, 2, 3] \<and>
   (\<exists>L'. amdgv_list_move_tail 2 0 three_links = Inr L' \<and> chain L' 0 [1, 3, 2])"
  using list_operations_refine [of three_links 0 "[1]" 2 "[3]" 7 3] three_links_chain by simp

end
