(* ===== verification/GV_Ffbm.thy ===== *)
theory GV_Ffbm
  imports GV_List
begin

text \<open>
  The frame-buffer block manager of \<^verbatim>\<open>libgv/core/amdgv_ffbm.c\<close>: it divides the frame buffer
  into blocks (system physical address, \<open>spa\<close>), and keeps for each function the blocks that back
  its guest physical addresses (\<open>gpa\<close>).

  A block is one of the 256 elements of the pool \<^verbatim>\<open>memory_block\<close>, named by its index. The list
  of all blocks by physical address is the HOL list \<open>fb_spa\<close> of indices; the lists of the VFs are
  kept at the level of their pointers in \<open>fb_gpa\<close>, because the code also links blocks to each
  other that are on no list. What the hardware answers when the driver asks for access to the
  translation table is the argument \<open>fb_grant\<close>, and what the driver then writes is the trace
  \<open>fb_trace\<close>.
\<close>

section \<open>State\<close>

datatype amdgv_ffbm_mem_type =
    AMDGV_FFBM_MEM_TYPE_INVALID
  | AMDGV_FFBM_MEM_TYPE_PF
  | AMDGV_FFBM_MEM_TYPE_VF
  | AMDGV_FFBM_MEM_TYPE_RESERVED
  | AMDGV_FFBM_MEM_TYPE_BAD_PAGE
  | AMDGV_FFBM_MEM_TYPE_NOT_ASSIGNED
  | AMDGV_FFBM_MEM_TYPE_TMR

record amdgv_ffbm_pte_block =
  pt_gpa :: u64
  pt_spa :: u64
  pt_size :: u64
  pt_fragment :: u8
  pt_permission :: u8
  pt_vf_idx :: u32
  pt_type :: amdgv_ffbm_mem_type
  pt_applied :: bool

text \<open>The cells of the gpa lists: the head in \<^verbatim>\<open>array_vf[i]\<close>, the node in block \<open>i\<close>.\<close>

datatype gpa_cell = GHead nat | GNode nat

datatype ffbm_event =
    Pteb_Written amdgv_ffbm_pte_block bool
  | Tlb_Invalidated amdgv_ffbm_pte_block bool
  | Access_Denied

record vf_fb =
  vd_fb_offset :: u32
  vd_fb_size :: u32
  vd_fb_size_tmr :: u32

record amdgv_ffbm =
  fb_used :: "nat \<Rightarrow> bool"
  fb_pt :: "nat \<Rightarrow> amdgv_ffbm_pte_block"
  fb_gpa :: "gpa_cell links"
  fb_spa :: "nat list"
  fb_bad_block_count :: u8
  fb_reserved_block_count :: u8
  fb_total_physical_size :: u64
  fb_enabled :: bool
  fb_default_fragment :: u8
  fb_max_reserved_block :: u8
  fb_share_tmr :: bool
  fb_num_vf :: u32
  fb_max_num_vf :: u32
  fb_tmr_size :: u32
  fb_vf :: "nat \<Rightarrow> vf_fb"
  fb_total_fb_avail :: u32
  fb_total_fb_usable :: u32
  fb_allocated_tmr_size :: u32
  fb_sw_init :: bool
  fb_mem :: "u64 \<Rightarrow> u8"
  fb_grant :: "nat \<Rightarrow> bool"
  fb_trace :: "ffbm_event list"

abbreviation (input) AMDGV_FFBM_MEMORY_ALLOCATION_COUNT :: nat where
  "AMDGV_FFBM_MEMORY_ALLOCATION_COUNT \<equiv> 256"
abbreviation (input) AMDGV_FFBM_FB_TMR_OFFSET :: u64 where "AMDGV_FFBM_FB_TMR_OFFSET \<equiv> 2"
abbreviation (input) AMDGV_FFBM_INVALID_ADDR :: u64 where "AMDGV_FFBM_INVALID_ADDR \<equiv> - 1"
abbreviation (input) AMDGV_FFBM_VF_MIN_MAP_SIZE :: u64 where "AMDGV_FFBM_VF_MIN_MAP_SIZE \<equiv> 0x1000000"
abbreviation (input) AMDGV_FFBM_PERM_RW :: u8 where "AMDGV_FFBM_PERM_RW \<equiv> 3"
abbreviation (input) FFBM_MAP_ENTRY_MAX_COUNT :: nat where "FFBM_MAP_ENTRY_MAX_COUNT \<equiv> 128"
abbreviation (input) AMDGV_FFBM_ERROR_BAD_ADDR :: int where "AMDGV_FFBM_ERROR_BAD_ADDR \<equiv> -2"
abbreviation (input) AMDGV_FFBM_ERROR_NO_MEM :: int where "AMDGV_FFBM_ERROR_NO_MEM \<equiv> -3"
abbreviation (input) AMDGV_FFBM_ERROR_INVALD_SIZE :: int where "AMDGV_FFBM_ERROR_INVALD_SIZE \<equiv> -5"
abbreviation (input) FFBM_PAGE :: u64 where "FFBM_PAGE \<equiv> 4096"

text \<open>The number of cells of the gpa lists: 32 heads and 256 nodes.\<close>

abbreviation (input) GPA_CELLS :: nat where "GPA_CELLS \<equiv> 288"

definition AMDGV_INVALID_IDX_VF :: "amdgv_ffbm \<Rightarrow> u32" where
  "AMDGV_INVALID_IDX_VF fb = fb_max_num_vf fb + 1"

section \<open>Addresses\<close>

definition MBYTES_TO_BYTES :: "u64 \<Rightarrow> u64" where
  "MBYTES_TO_BYTES x = push_bit 20 x"

definition AMDGV_FFBM_PAGE_SIZE :: "u8 \<Rightarrow> u64" where
  "AMDGV_FFBM_PAGE_SIZE fragment = push_bit (unat fragment + 12) 1"

definition AMDGV_FFBM_PAGE_ALIGN :: "u64 \<Rightarrow> u8 \<Rightarrow> u64" where
  "AMDGV_FFBM_PAGE_ALIGN val fragment = val AND NOT (AMDGV_FFBM_PAGE_SIZE fragment - 1)"

definition AMDGV_FFBM_PAGE_ALIGN_CEIL :: "u64 \<Rightarrow> u8 \<Rightarrow> u64" where
  "AMDGV_FFBM_PAGE_ALIGN_CEIL val fragment =
     AMDGV_FFBM_PAGE_ALIGN (val + AMDGV_FFBM_PAGE_SIZE fragment - 1) fragment"

definition AMDGV_FFBM_ADDR_IN_RANGE :: "u64 \<Rightarrow> u64 \<Rightarrow> u64 \<Rightarrow> bool" where
  "AMDGV_FFBM_ADDR_IN_RANGE range_start range_size addr \<longleftrightarrow>
     range_start \<le> addr \<and> range_start + range_size > addr"

definition AMDGV_FFBM_ADDR_SIZE_IN_RANGE :: "u64 \<Rightarrow> u64 \<Rightarrow> u64 \<Rightarrow> u64 \<Rightarrow> bool" where
  "AMDGV_FFBM_ADDR_SIZE_IN_RANGE range_start range_size addr sz \<longleftrightarrow>
     AMDGV_FFBM_ADDR_IN_RANGE range_start range_size addr \<and>
     AMDGV_FFBM_ADDR_IN_RANGE range_start range_size (addr + sz - 1)"

text \<open>The mask of \<^verbatim>\<open>AMDGV_FFBM_MAP_SIZE_VALID\<close> is an \<^verbatim>\<open>int\<close>; it agrees with this one for the
  fragments below 19 that an \<^verbatim>\<open>int\<close> shift allows.\<close>

definition AMDGV_FFBM_MAP_SIZE_VALID :: "u64 \<Rightarrow> u8 \<Rightarrow> u64" where
  "AMDGV_FFBM_MAP_SIZE_VALID sz fragment = sz AND (push_bit (unat fragment + 12) 1 - 1)"

definition AMDGV_FFBM_TMR_ADDR_VALID :: "u64 \<Rightarrow> u64 \<Rightarrow> u64 \<Rightarrow> u32 \<Rightarrow> bool" where
  "AMDGV_FFBM_TMR_ADDR_VALID gpa spa sz tmr_size \<longleftrightarrow>
     gpa = MBYTES_TO_BYTES AMDGV_FFBM_FB_TMR_OFFSET \<and>
     spa = MBYTES_TO_BYTES AMDGV_FFBM_FB_TMR_OFFSET \<and>
     sz = MBYTES_TO_BYTES (ucast tmr_size)"

definition amdgv_ffbm_type_name_str :: "amdgv_ffbm_mem_type \<Rightarrow> string" where
  "amdgv_ffbm_type_name_str type = (case type of
     AMDGV_FFBM_MEM_TYPE_INVALID \<Rightarrow> ''INVALID''
   | AMDGV_FFBM_MEM_TYPE_PF \<Rightarrow> ''PF''
   | AMDGV_FFBM_MEM_TYPE_VF \<Rightarrow> ''VF''
   | AMDGV_FFBM_MEM_TYPE_RESERVED \<Rightarrow> ''RESERVED''
   | AMDGV_FFBM_MEM_TYPE_BAD_PAGE \<Rightarrow> ''BAD PAGE''
   | AMDGV_FFBM_MEM_TYPE_NOT_ASSIGNED \<Rightarrow> ''NOT ASSIGNED''
   | AMDGV_FFBM_MEM_TYPE_TMR \<Rightarrow> ''TMR'')"

section \<open>The pool of blocks\<close>

definition pteb_zero :: amdgv_ffbm_pte_block where
  "pteb_zero = \<lparr>pt_gpa = 0, pt_spa = 0, pt_size = 0, pt_fragment = 0, pt_permission = 0,
     pt_vf_idx = 0, pt_type = AMDGV_FFBM_MEM_TYPE_INVALID, pt_applied = False\<rparr>"

fun unused_block :: "nat \<Rightarrow> nat \<Rightarrow> (nat \<Rightarrow> bool) \<Rightarrow> nat option" where
  "unused_block 0 i used = None"
| "unused_block (Suc n) i used = (if used i = False then Some i else unused_block n (Suc i) used)"

text \<open>Taking a block clears it, its list nodes included: a block that is still on the list by
  physical address would break that list.\<close>

definition amdgv_ffbm_allocate_block :: "amdgv_ffbm \<Rightarrow> (nat option \<times> amdgv_ffbm) cres" where
  "amdgv_ffbm_allocate_block fb =
     (case unused_block AMDGV_FFBM_MEMORY_ALLOCATION_COUNT 0 (fb_used fb) of
        None \<Rightarrow> Inr (None, fb)
      | Some i \<Rightarrow>
          if i \<in> set (fb_spa fb) then Inl Use_After_Free
          else Inr (Some i, fb\<lparr>fb_used := (fb_used fb)(i := True),
                               fb_pt := (fb_pt fb)(i := pteb_zero),
                               fb_gpa := set_nxt (GNode i) None (set_prv (GNode i) None (fb_gpa fb))\<rparr>))"

definition amdgv_ffbm_free_block :: "nat \<Rightarrow> amdgv_ffbm \<Rightarrow> amdgv_ffbm" where
  "amdgv_ffbm_free_block i fb = fb\<lparr>fb_used := (fb_used fb)(i := False)\<rparr>"

definition clear_nodes :: "(gpa_cell \<Rightarrow> gpa_cell option) \<Rightarrow> gpa_cell \<Rightarrow> gpa_cell option" where
  "clear_nodes f c = (case c of GHead v \<Rightarrow> f c | GNode i \<Rightarrow> None)"

definition amdgv_ffbm_free_all_block :: "amdgv_ffbm \<Rightarrow> amdgv_ffbm" where
  "amdgv_ffbm_free_all_block fb =
     fb\<lparr>fb_used := (\<lambda>_. False), fb_pt := (\<lambda>_. pteb_zero),
        fb_gpa := \<lparr>nxt = clear_nodes (nxt (fb_gpa fb)), prv = clear_nodes (prv (fb_gpa fb))\<rparr>\<rparr>"

definition amdgv_ffbm_pteb_update :: "nat \<Rightarrow> u64 \<Rightarrow> u64 \<Rightarrow> u64 \<Rightarrow> u8 \<Rightarrow> u32 \<Rightarrow> u8 \<Rightarrow>
    amdgv_ffbm_mem_type \<Rightarrow> bool \<Rightarrow> amdgv_ffbm \<Rightarrow> amdgv_ffbm" where
  "amdgv_ffbm_pteb_update pteb gpa spa sz frag vf_idx permission type applied fb =
     fb\<lparr>fb_pt := (fb_pt fb)(pteb := \<lparr>pt_gpa = gpa, pt_spa = spa, pt_size = sz, pt_fragment = frag,
        pt_permission = permission, pt_vf_idx = vf_idx, pt_type = type, pt_applied = applied\<rparr>)\<rparr>"

definition amdgv_ffbm_pteb_init :: "nat \<Rightarrow> u64 \<Rightarrow> u64 \<Rightarrow> u64 \<Rightarrow> u8 \<Rightarrow> u32 \<Rightarrow> u8 \<Rightarrow>
    amdgv_ffbm_mem_type \<Rightarrow> bool \<Rightarrow> amdgv_ffbm \<Rightarrow> amdgv_ffbm" where
  "amdgv_ffbm_pteb_init pteb gpa spa sz frag vf_idx permission type applied fb =
     (let fb = amdgv_ffbm_pteb_update pteb gpa spa sz frag vf_idx permission type applied fb in
      fb\<lparr>fb_gpa := AMDGV_INIT_LIST_HEAD (GNode pteb) (fb_gpa fb)\<rparr>)"

definition pteb_set_size :: "nat \<Rightarrow> u64 \<Rightarrow> amdgv_ffbm \<Rightarrow> amdgv_ffbm" where
  "pteb_set_size i sz fb = fb\<lparr>fb_pt := (fb_pt fb)(i := (fb_pt fb i)\<lparr>pt_size := sz\<rparr>)\<rparr>"

text \<open>The lists of the functions: the head of \<open>array_vf[vf_idx]\<close> (32 of them), a cell read as a
  block (only nodes are inside blocks), and the blocks of a list.\<close>

definition gpa_head :: "u32 \<Rightarrow> gpa_cell cres" where
  "gpa_head vf_idx = (if vf_idx < 32 then Inr (GHead (unat vf_idx)) else Inl Out_Of_Bounds)"

definition node_of :: "gpa_cell \<Rightarrow> nat cres" where
  "node_of c = (case c of GHead v \<Rightarrow> Inl Out_Of_Bounds | GNode i \<Rightarrow> Inr i)"

fun nodes_of :: "gpa_cell list \<Rightarrow> nat list cres" where
  "nodes_of [] = Inr []"
| "nodes_of (c # cs) = cbind (node_of c) (\<lambda>i. cbind (nodes_of cs) (\<lambda>is. Inr (i # is)))"

definition gpa_nodes :: "amdgv_ffbm \<Rightarrow> u32 \<Rightarrow> nat list cres" where
  "gpa_nodes fb vf_idx =
     cbind (gpa_head vf_idx) (\<lambda>h.
     cbind (list_entries GPA_CELLS (fb_gpa fb) h (nxt (fb_gpa fb) h)) nodes_of)"

definition gpa_find :: "(nat \<Rightarrow> bool) \<Rightarrow> amdgv_ffbm \<Rightarrow> u32 \<Rightarrow> gpa_cell option cres" where
  "gpa_find P fb vf_idx =
     cbind (gpa_head vf_idx) (\<lambda>h.
       list_search GPA_CELLS (\<lambda>c. cbind (node_of c) (\<lambda>i. Inr (P i))) (fb_gpa fb) h (nxt (fb_gpa fb) h))"

definition gpa_linked :: "amdgv_ffbm \<Rightarrow> nat \<Rightarrow> bool" where
  "gpa_linked fb i \<longleftrightarrow> \<not> amdgv_list_empty (GNode i) (fb_gpa fb)"

section \<open>The translation table of the hardware\<close>

text \<open>\<^verbatim>\<open>navi32_ffbm.c\<close> asks the hardware for access to the table; when it is refused, nothing is
  written and the block keeps its \<^verbatim>\<open>applied\<close> flag.\<close>

definition navi32_ffbm_request_access :: "amdgv_ffbm \<Rightarrow> bool" where
  "navi32_ffbm_request_access fb = fb_grant fb (length (fb_trace fb))"

definition navi32_ffbm_apply_pteb :: "nat \<Rightarrow> bool \<Rightarrow> amdgv_ffbm \<Rightarrow> amdgv_ffbm \<times> int" where
  "navi32_ffbm_apply_pteb pteb valid fb =
     (if navi32_ffbm_request_access fb
      then (fb\<lparr>fb_trace := fb_trace fb @ [Pteb_Written (fb_pt fb pteb) valid],
               fb_pt := (fb_pt fb)(pteb := (fb_pt fb pteb)\<lparr>pt_applied := valid\<rparr>)\<rparr>, 0)
      else (fb\<lparr>fb_trace := fb_trace fb @ [Access_Denied]\<rparr>, AMDGV_FAILURE))"

definition navi32_ffbm_invalidate_tlb :: "nat \<Rightarrow> bool \<Rightarrow> amdgv_ffbm \<Rightarrow> amdgv_ffbm" where
  "navi32_ffbm_invalidate_tlb pteb flush fb =
     (if navi32_ffbm_request_access fb
      then fb\<lparr>fb_trace := fb_trace fb @ [Tlb_Invalidated (fb_pt fb pteb) flush]\<rparr>
      else fb\<lparr>fb_trace := fb_trace fb @ [Access_Denied]\<rparr>)"

definition needs_apply :: "amdgv_ffbm_pte_block \<Rightarrow> bool" where
  "needs_apply p \<longleftrightarrow>
     (pt_type p = AMDGV_FFBM_MEM_TYPE_VF \<or> pt_type p = AMDGV_FFBM_MEM_TYPE_TMR) \<and>
     pt_applied p = False"

fun apply_nodes :: "nat list \<Rightarrow> amdgv_ffbm \<times> int \<Rightarrow> amdgv_ffbm \<times> int" where
  "apply_nodes [] r = r"
| "apply_nodes (i # is) (fb, ret) =
     (if needs_apply (fb_pt fb i) then apply_nodes is (navi32_ffbm_apply_pteb i True fb)
      else apply_nodes is (fb, ret))"

fun apply_vfs :: "nat \<Rightarrow> u32 \<Rightarrow> amdgv_ffbm \<times> int \<Rightarrow> (amdgv_ffbm \<times> int) cres" where
  "apply_vfs 0 vf_idx r = Inr r"
| "apply_vfs (Suc n) vf_idx r =
     cbind (gpa_nodes (fst r) vf_idx) (\<lambda>is. apply_vfs n (vf_idx + 1) (apply_nodes is r))"

definition amdgv_ffbm_apply_page_table :: "amdgv_ffbm \<Rightarrow> (amdgv_ffbm \<times> int) cres" where
  "amdgv_ffbm_apply_page_table fb =
     (if \<not> fb_enabled fb then Inr (fb, 0)
      else apply_vfs (unat (fb_num_vf fb)) 0 (apply_nodes (fb_spa fb) (fb, 0)))"

section \<open>Finding a block\<close>

definition amdgv_ffbm_find_pteb_by_phy :: "amdgv_ffbm \<Rightarrow> u64 \<Rightarrow> nat option" where
  "amdgv_ffbm_find_pteb_by_phy fb spa =
     find (\<lambda>i. AMDGV_FFBM_ADDR_IN_RANGE (pt_spa (fb_pt fb i)) (pt_size (fb_pt fb i)) spa) (fb_spa fb)"

definition amdgv_ffbm_find_pteb_by_ffbm :: "amdgv_ffbm \<Rightarrow> u64 \<Rightarrow> u32 \<Rightarrow> nat option cres" where
  "amdgv_ffbm_find_pteb_by_ffbm fb gpa vf_idx =
     cbind (gpa_find (\<lambda>i. AMDGV_FFBM_ADDR_IN_RANGE (pt_gpa (fb_pt fb i)) (pt_size (fb_pt fb i)) gpa)
              fb vf_idx)
       (\<lambda>r. case r of None \<Rightarrow> Inr None | Some c \<Rightarrow> cbind (node_of c) (\<lambda>i. Inr (Some i)))"

definition amdgv_ffbm_find_empty_pteb :: "amdgv_ffbm \<Rightarrow> u64 \<Rightarrow> nat option" where
  "amdgv_ffbm_find_empty_pteb fb min_size =
     find (\<lambda>i. pt_type (fb_pt fb i) = AMDGV_FFBM_MEM_TYPE_NOT_ASSIGNED \<and>
               min_size \<le> pt_size (fb_pt fb i)) (fb_spa fb)"

section \<open>Dividing a block\<close>

fun insert_after :: "nat \<Rightarrow> nat \<Rightarrow> nat list \<Rightarrow> nat list" where
  "insert_after x y [] = []"
| "insert_after x y (z # zs) = (if z = x then z # y # zs else z # insert_after x y zs)"

definition amdgv_ffbm_pteb_divide_size :: "nat \<Rightarrow> u64 \<Rightarrow> amdgv_ffbm \<Rightarrow> (nat option \<times> amdgv_ffbm) cres" where
  "amdgv_ffbm_pteb_divide_size pteb sz fb =
     (let p = fb_pt fb pteb in
      if AMDGV_FFBM_MAP_SIZE_VALID sz (pt_fragment p) \<noteq> 0 then Inr (None, fb)
      else let sz = AMDGV_FFBM_PAGE_ALIGN_CEIL sz (pt_fragment p) in
      if pt_size p \<le> sz then Inr (Some pteb, fb)
      else cbind (amdgv_ffbm_allocate_block fb) (\<lambda>(new, fb).
        case new of
          None \<Rightarrow> Inr (None, fb)
        | Some n \<Rightarrow>
            let p = fb_pt fb pteb;
                new_gpa = (if pt_gpa p \<noteq> AMDGV_FFBM_INVALID_ADDR then pt_gpa p + sz
                           else AMDGV_FFBM_INVALID_ADDR);
                fb = amdgv_ffbm_pteb_init n new_gpa (pt_spa p + sz) (pt_size p - sz) (pt_fragment p)
                       (pt_vf_idx p) (pt_permission p) (pt_type p) (pt_applied p) fb;
                fb = pteb_set_size pteb sz fb;
                fb = fb\<lparr>fb_spa := insert_after pteb n (fb_spa fb)\<rparr>
            in if pt_gpa p \<noteq> AMDGV_FFBM_INVALID_ADDR
               then cbind (amdgv_list_add (GNode n) (GNode pteb) (fb_gpa fb)) (\<lambda>L.
                      Inr (Some n, fb\<lparr>fb_gpa := L\<rparr>))
               else Inr (Some n, fb)))"

definition amdgv_ffbm_create_new_pteb :: "nat \<Rightarrow> u64 \<Rightarrow> u64 \<Rightarrow> u64 \<Rightarrow> u32 \<Rightarrow> u8 \<Rightarrow>
    amdgv_ffbm_mem_type \<Rightarrow> amdgv_ffbm \<Rightarrow> (nat option \<times> amdgv_ffbm) cres" where
  "amdgv_ffbm_create_new_pteb pteb gpa spa sz vf_idx permission type fb =
     cbind (amdgv_ffbm_allocate_block fb) (\<lambda>(new, fb).
       case new of
         None \<Rightarrow> Inr (None, fb)
       | Some n \<Rightarrow> Inr (Some n, amdgv_ffbm_pteb_init n gpa spa sz (pt_fragment (fb_pt fb pteb))
                                  vf_idx permission type False fb))"

definition amdgv_ffbm_pteb_hole_by_phy :: "nat \<Rightarrow> u64 \<Rightarrow> u64 \<Rightarrow> amdgv_ffbm \<Rightarrow>
    (nat option \<times> amdgv_ffbm) cres" where
  "amdgv_ffbm_pteb_hole_by_phy pteb spa sz fb =
     (let p = fb_pt fb pteb; sz = AMDGV_FFBM_PAGE_ALIGN_CEIL sz (pt_fragment p) in
      if \<not> AMDGV_FFBM_ADDR_SIZE_IN_RANGE (pt_spa p) (pt_size p) spa sz then Inr (None, fb)
      else cbind (if pt_spa p < spa then amdgv_ffbm_pteb_divide_size pteb (spa - pt_spa p) fb
                  else Inr (Some pteb, fb)) (\<lambda>(r, fb).
        case r of
          None \<Rightarrow> Inr (None, fb)
        | Some m \<Rightarrow>
            if sz < pt_size (fb_pt fb m)
            then cbind (amdgv_ffbm_pteb_divide_size m sz fb) (\<lambda>(_, fb). Inr (Some m, fb))
            else Inr (Some m, fb)))"

section \<open>Mapping\<close>

text \<open>The gap search of \<^verbatim>\<open>is_gpaess_valid\<close>: it assumes that the list is in ascending order.\<close>

fun gap_walk :: "nat \<Rightarrow> amdgv_ffbm \<Rightarrow> gpa_cell \<Rightarrow> u64 \<Rightarrow> u64 \<Rightarrow> u64 \<Rightarrow> gpa_cell option \<Rightarrow> bool cres" where
  "gap_walk fuel fb head gpa sz previous_end pos =
     (if pos = Some head
      then Inr (AMDGV_FFBM_ADDR_SIZE_IN_RANGE previous_end
                  (fb_total_physical_size fb - previous_end) gpa sz)
      else case fuel of
        0 \<Rightarrow> Inl Endless_Loop
      | Suc n \<Rightarrow>
          cbind (cderef pos) (\<lambda>c.
          cbind (node_of c) (\<lambda>i.
            let current_start = pt_gpa (fb_pt fb i) in
            if AMDGV_FFBM_ADDR_SIZE_IN_RANGE previous_end (current_start - previous_end) gpa sz
            then Inr True
            else let previous_end = pt_gpa (fb_pt fb i) + pt_size (fb_pt fb i) in
            if gpa < previous_end \<and> current_start \<le> gpa then Inr False
            else gap_walk n fb head gpa sz previous_end (nxt (fb_gpa fb) c))))"

declare gap_walk.simps [simp del]

definition is_gpaess_valid :: "amdgv_ffbm \<Rightarrow> u64 \<Rightarrow> u64 \<Rightarrow> u32 \<Rightarrow> bool cres" where
  "is_gpaess_valid fb sz gpa vf_idx =
     (if sz = 0 \<or> gpa + sz < gpa then Inr False
      else let tmr_start = MBYTES_TO_BYTES AMDGV_FFBM_FB_TMR_OFFSET;
               tmr_end = MBYTES_TO_BYTES (ucast (fb_tmr_size fb) + AMDGV_FFBM_FB_TMR_OFFSET) in
      if tmr_start \<le> gpa \<and> gpa < tmr_end \<or> gpa + sz > tmr_start \<and> gpa + sz \<le> tmr_end
      then Inr False
      else cbind (gpa_head vf_idx) (\<lambda>h.
             gap_walk GPA_CELLS fb h gpa sz 0 (nxt (fb_gpa fb) h)))"

text \<open>The new node goes behind the first node with a larger gpa, or behind the head.\<close>

definition amdgv_ffbm_insert_new_ffbm_node :: "nat \<Rightarrow> amdgv_ffbm \<Rightarrow> amdgv_ffbm cres" where
  "amdgv_ffbm_insert_new_ffbm_node pteb fb =
     (let vf_idx = pt_vf_idx (fb_pt fb pteb) in
      cbind (gpa_head vf_idx) (\<lambda>h.
      cbind (gpa_find (\<lambda>i. pt_gpa (fb_pt fb pteb) < pt_gpa (fb_pt fb i)) fb vf_idx) (\<lambda>r.
      cbind (amdgv_list_add (GNode pteb) (case r of None \<Rightarrow> h | Some c \<Rightarrow> c) (fb_gpa fb)) (\<lambda>L.
        Inr (fb\<lparr>fb_gpa := L\<rparr>)))))"

definition amdgv_ffbm_manual_map :: "u32 \<Rightarrow> u64 \<Rightarrow> u64 \<Rightarrow> u64 \<Rightarrow> u8 \<Rightarrow> amdgv_ffbm_mem_type \<Rightarrow>
    amdgv_ffbm \<Rightarrow> (int \<times> amdgv_ffbm) cres" where
  "amdgv_ffbm_manual_map vf_idx sz gpa spa permission type fb =
     (if AMDGV_FFBM_MAP_SIZE_VALID sz (fb_default_fragment fb) \<noteq> 0
      then Inr (AMDGV_FFBM_ERROR_INVALD_SIZE, fb)
      else cbind (if type = AMDGV_FFBM_MEM_TYPE_VF then is_gpaess_valid fb sz gpa vf_idx else Inr True)
        (\<lambda>gpa_ok. if \<not> gpa_ok then Inr (AMDGV_FFBM_ERROR_BAD_ADDR, fb) else
      case amdgv_ffbm_find_pteb_by_phy fb spa of
        None \<Rightarrow> Inr (AMDGV_FFBM_ERROR_BAD_ADDR, fb)
      | Some pteb \<Rightarrow>
        let p = fb_pt fb pteb in
        if pt_type p \<noteq> AMDGV_FFBM_MEM_TYPE_NOT_ASSIGNED \<and> type \<noteq> AMDGV_FFBM_MEM_TYPE_TMR \<or>
           \<not> AMDGV_FFBM_ADDR_SIZE_IN_RANGE (pt_spa p) (pt_size p) spa sz
        then Inr (AMDGV_FFBM_ERROR_BAD_ADDR, fb)
        else if pt_type p = AMDGV_FFBM_MEM_TYPE_TMR \<and>
                \<not> AMDGV_FFBM_TMR_ADDR_VALID gpa spa sz (fb_tmr_size fb)
        then Inr (AMDGV_FFBM_ERROR_BAD_ADDR, fb)
        else if pt_type p = AMDGV_FFBM_MEM_TYPE_TMR
        then cbind (amdgv_ffbm_create_new_pteb pteb (MBYTES_TO_BYTES AMDGV_FFBM_FB_TMR_OFFSET)
                      (MBYTES_TO_BYTES AMDGV_FFBM_FB_TMR_OFFSET)
                      (MBYTES_TO_BYTES (ucast (fb_tmr_size fb))) vf_idx permission
                      AMDGV_FFBM_MEM_TYPE_TMR fb) (\<lambda>(r, fb).
             if type = AMDGV_FFBM_MEM_TYPE_VF
             then cbind (cderef r) (\<lambda>n. cbind (amdgv_ffbm_insert_new_ffbm_node n fb) (\<lambda>fb. Inr (0, fb)))
             else cbind (cderef r) (\<lambda>n.
                  if pt_type (fb_pt fb n) = AMDGV_FFBM_MEM_TYPE_TMR \<and> vf_idx \<noteq> AMDGV_PF_IDX
                  then cbind (amdgv_ffbm_insert_new_ffbm_node n fb) (\<lambda>fb. Inr (0, fb))
                  else Inr (0, fb)))
        else cbind (amdgv_ffbm_pteb_hole_by_phy pteb spa sz fb) (\<lambda>(r, fb).
             case r of
               None \<Rightarrow> Inr (AMDGV_FFBM_ERROR_NO_MEM, fb)
             | Some m \<Rightarrow>
                 let fb = amdgv_ffbm_pteb_update m gpa spa sz (fb_default_fragment fb) vf_idx
                            permission type False fb in
                 if type = AMDGV_FFBM_MEM_TYPE_VF \<or>
                    pt_type (fb_pt fb m) = AMDGV_FFBM_MEM_TYPE_TMR \<and> vf_idx \<noteq> AMDGV_PF_IDX
                 then cbind (amdgv_ffbm_insert_new_ffbm_node m fb) (\<lambda>fb. Inr (0, fb))
                 else Inr (0, fb))))"

text \<open>
  One round of the loop of \<^verbatim>\<open>amdgv_ffbm_map\<close>, which runs while the signed \<^verbatim>\<open>size_left\<close> is
  positive; the failure of the division is ignored. The fuel is the number of blocks and one more:
  \<open>ffbm_map_returns\<close> shows that it is never used up.
\<close>

definition map_round :: "u32 \<Rightarrow> u8 \<Rightarrow> nat \<Rightarrow> u64 \<Rightarrow> u64 \<Rightarrow> amdgv_ffbm \<Rightarrow>
    (u64 \<times> u64 \<times> amdgv_ffbm) cres" where
  "map_round vf_idx permission pteb gpa_start size_left fb =
     cbind (if size_left < pt_size (fb_pt fb pteb)
            then cbind (amdgv_ffbm_pteb_divide_size pteb size_left fb) (\<lambda>(_, fb). Inr fb)
            else Inr fb) (\<lambda>fb.
       let p = fb_pt fb pteb;
           fb = amdgv_ffbm_pteb_update pteb gpa_start (pt_spa p) (pt_size p) (pt_fragment p) vf_idx
                  permission AMDGV_FFBM_MEM_TYPE_VF False fb in
       cbind (amdgv_ffbm_insert_new_ffbm_node pteb fb) (\<lambda>fb.
         Inr (gpa_start + pt_size p, size_left - pt_size p, fb)))"

fun map_loop :: "nat \<Rightarrow> u32 \<Rightarrow> u8 \<Rightarrow> u64 \<Rightarrow> u64 \<Rightarrow> amdgv_ffbm \<Rightarrow> (int \<times> amdgv_ffbm) cres" where
  "map_loop fuel vf_idx permission gpa_start size_left fb =
     (if \<not> 0 < sint size_left then Inr (0, fb)
      else case amdgv_ffbm_find_empty_pteb fb 0 of
        None \<Rightarrow> Inr (AMDGV_FFBM_ERROR_NO_MEM, fb)
      | Some pteb \<Rightarrow>
          (case fuel of
             0 \<Rightarrow> Inl Endless_Loop
           | Suc n \<Rightarrow>
               cbind (map_round vf_idx permission pteb gpa_start size_left fb)
                 (\<lambda>(gpa_start, size_left, fb). map_loop n vf_idx permission gpa_start size_left fb)))"

declare map_loop.simps [simp del]

definition amdgv_ffbm_map :: "u32 \<Rightarrow> u64 \<Rightarrow> u64 \<Rightarrow> u8 \<Rightarrow> amdgv_ffbm_mem_type \<Rightarrow> amdgv_ffbm \<Rightarrow>
    (int \<times> amdgv_ffbm) cres" where
  "amdgv_ffbm_map vf_idx gpa sz permission type fb =
     (if sz < AMDGV_FFBM_PAGE_SIZE (fb_default_fragment fb) then Inr (AMDGV_FFBM_ERROR_BAD_ADDR, fb)
      else if type = AMDGV_FFBM_MEM_TYPE_VF \<and> sz < AMDGV_FFBM_VF_MIN_MAP_SIZE \<and> gpa \<noteq> 0
      then Inr (AMDGV_FFBM_ERROR_BAD_ADDR, fb)
      else if type \<noteq> AMDGV_FFBM_MEM_TYPE_VF then Inr (AMDGV_FFBM_ERROR_BAD_ADDR, fb)
      else map_loop (Suc AMDGV_FFBM_MEMORY_ALLOCATION_COUNT) vf_idx permission gpa sz fb)"

section \<open>Unmapping\<close>

definition amdgv_ffbm_invalidate_and_unapply_pteb :: "nat \<Rightarrow> amdgv_ffbm \<Rightarrow> amdgv_ffbm" where
  "amdgv_ffbm_invalidate_and_unapply_pteb pteb fb =
     (let p = fb_pt fb pteb in
      if pt_type p = AMDGV_FFBM_MEM_TYPE_NOT_ASSIGNED then fb
      else if \<not> gpa_linked fb pteb then fb
      else if \<not> pt_applied p then fb
      else let fb = (if \<not> fb_sw_init fb \<and> pt_type p = AMDGV_FFBM_MEM_TYPE_VF
                     then navi32_ffbm_invalidate_tlb pteb True fb else fb) in
      if pt_type p = AMDGV_FFBM_MEM_TYPE_VF \<or> pt_type p = AMDGV_FFBM_MEM_TYPE_TMR
      then fst (navi32_ffbm_apply_pteb pteb False fb) else fb)"

text \<open>
  The neighbours of a block in the list by physical address. For the first and the last block they
  are the list head, which the merge below reads as a block. The field \<^verbatim>\<open>type\<close> of that block lies
  24 bytes before the head in \<^verbatim>\<open>struct amdgv_ffbm\<close>: on a 64-bit target this is the \<^verbatim>\<open>applied\<close>
  flag of the last block of the pool and the zeroed padding behind it.
\<close>

fun spa_prev :: "nat option \<Rightarrow> nat \<Rightarrow> nat list \<Rightarrow> nat option option" where
  "spa_prev q x [] = None"
| "spa_prev q x (y # ys) = (if y = x then Some q else spa_prev (Some y) x ys)"

fun spa_next :: "nat \<Rightarrow> nat list \<Rightarrow> nat option option" where
  "spa_next x [] = None"
| "spa_next x (y # ys) = (if y = x then Some (case ys of [] \<Rightarrow> None | z # _ \<Rightarrow> Some z) else spa_next x ys)"

definition spa_head_type :: "amdgv_ffbm \<Rightarrow> amdgv_ffbm_mem_type" where
  "spa_head_type fb = (if pt_applied (fb_pt fb 255) then AMDGV_FFBM_MEM_TYPE_PF
     else AMDGV_FFBM_MEM_TYPE_INVALID)"

definition neighbour_type :: "amdgv_ffbm \<Rightarrow> nat option \<Rightarrow> amdgv_ffbm_mem_type" where
  "neighbour_type fb q = (case q of None \<Rightarrow> spa_head_type fb | Some j \<Rightarrow> pt_type (fb_pt fb j))"

definition merge_front :: "nat \<Rightarrow> amdgv_ffbm \<Rightarrow> (nat \<times> amdgv_ffbm) cres" where
  "merge_front pteb fb =
     (case spa_prev None pteb (fb_spa fb) of
        None \<Rightarrow> Inl Use_After_Free
      | Some q \<Rightarrow>
          if neighbour_type fb q = AMDGV_FFBM_MEM_TYPE_NOT_ASSIGNED
          then (case q of
             None \<Rightarrow> Inl Out_Of_Bounds
           | Some tmp \<Rightarrow>
               let fb = pteb_set_size tmp (pt_size (fb_pt fb tmp) + pt_size (fb_pt fb pteb)) fb;
                   fb = fb\<lparr>fb_spa := remove1 pteb (fb_spa fb)\<rparr>
               in Inr (tmp, amdgv_ffbm_free_block pteb fb))
          else Inr (pteb, fb))"

definition merge_back :: "nat \<Rightarrow> amdgv_ffbm \<Rightarrow> amdgv_ffbm cres" where
  "merge_back pteb fb =
     (case spa_next pteb (fb_spa fb) of
        None \<Rightarrow> Inl Use_After_Free
      | Some q \<Rightarrow>
          if neighbour_type fb q = AMDGV_FFBM_MEM_TYPE_NOT_ASSIGNED
          then (case q of
             None \<Rightarrow> Inl Out_Of_Bounds
           | Some tmp \<Rightarrow>
               let fb = pteb_set_size pteb (pt_size (fb_pt fb pteb) + pt_size (fb_pt fb tmp)) fb;
                   fb = fb\<lparr>fb_spa := remove1 tmp (fb_spa fb)\<rparr>
               in Inr (amdgv_ffbm_free_block tmp fb))
          else Inr fb)"

definition amdgv_ffbm_unmap_pteb :: "nat \<Rightarrow> amdgv_ffbm \<Rightarrow> amdgv_ffbm cres" where
  "amdgv_ffbm_unmap_pteb pteb fb =
     (if pt_type (fb_pt fb pteb) = AMDGV_FFBM_MEM_TYPE_NOT_ASSIGNED then Inr fb
      else let fb = amdgv_ffbm_invalidate_and_unapply_pteb pteb fb in
      cbind (if gpa_linked fb pteb then amdgv_list_del_init (GNode pteb) (fb_gpa fb) else Inr (fb_gpa fb))
      (\<lambda>L. let fb = fb\<lparr>fb_gpa := L\<rparr>; p = fb_pt fb pteb in
      if pt_type p = AMDGV_FFBM_MEM_TYPE_TMR then Inr (amdgv_ffbm_free_block pteb fb)
      else if pt_type p = AMDGV_FFBM_MEM_TYPE_VF then
        let fb = amdgv_ffbm_pteb_update pteb AMDGV_FFBM_INVALID_ADDR (pt_spa p) (pt_size p)
                   (fb_default_fragment fb) (AMDGV_INVALID_IDX_VF fb) 0
                   AMDGV_FFBM_MEM_TYPE_NOT_ASSIGNED (pt_applied p) fb in
        cbind (merge_front pteb fb) (\<lambda>(pteb, fb). merge_back pteb fb)
      else Inr fb))"

definition amdgv_ffbm_unmap_by_spa :: "u64 \<Rightarrow> amdgv_ffbm \<Rightarrow> amdgv_ffbm cres" where
  "amdgv_ffbm_unmap_by_spa spa fb =
     (case amdgv_ffbm_find_pteb_by_phy fb spa of
        None \<Rightarrow> Inr fb
      | Some pteb \<Rightarrow> amdgv_ffbm_unmap_pteb pteb fb)"

text \<open>The loop of \<^verbatim>\<open>amdgv_ffbm_unmap_by_fcn\<close> ends when no applied block is left; \<open>fuel\<close> bounds
  its rounds.\<close>

fun unmap_loop :: "nat \<Rightarrow> u32 \<Rightarrow> bool \<Rightarrow> amdgv_ffbm \<Rightarrow> amdgv_ffbm cres" where
  "unmap_loop fuel vf_idx reserve fb =
     cbind (gpa_find (\<lambda>i. pt_vf_idx (fb_pt fb i) = vf_idx \<and> pt_applied (fb_pt fb i)) fb vf_idx)
       (\<lambda>r. case r of
          None \<Rightarrow> Inr fb
        | Some c \<Rightarrow>
            (case fuel of
               0 \<Rightarrow> Inl Endless_Loop
             | Suc n \<Rightarrow>
                 cbind (node_of c) (\<lambda>i.
                 cbind (if reserve then Inr (amdgv_ffbm_invalidate_and_unapply_pteb i fb)
                        else amdgv_ffbm_unmap_pteb i fb)
                   (unmap_loop n vf_idx reserve))))"

declare unmap_loop.simps [simp del]

definition amdgv_ffbm_unmap_by_fcn :: "nat \<Rightarrow> u32 \<Rightarrow> bool \<Rightarrow> amdgv_ffbm \<Rightarrow> amdgv_ffbm cres" where
  "amdgv_ffbm_unmap_by_fcn fuel vf_idx reserve fb =
     (if \<not> fb_enabled fb then Inr fb else unmap_loop fuel vf_idx reserve fb)"

section \<open>Replacing bad pages\<close>

definition copy4 :: "u64 \<Rightarrow> u64 \<Rightarrow> (u64 \<Rightarrow> u8) \<Rightarrow> u64 \<Rightarrow> u8" where
  "copy4 dst src m =
     m(dst := m src, dst + 1 := m (src + 1), dst + 2 := m (src + 2), dst + 3 := m (src + 3))"

text \<open>The copy of the bad block, a word at a time, that steps over the bad 4 KiB page. Every round
  advances by 4 bytes or more.\<close>

fun replace_copy :: "nat \<Rightarrow> u64 \<Rightarrow> u64 \<Rightarrow> u64 \<Rightarrow> u64 \<Rightarrow> (u64 \<Rightarrow> u8) \<Rightarrow> (u64 \<Rightarrow> u8) cres" where
  "replace_copy fuel spa bad_spa bad_spa_end new_spa m =
     (if \<not> bad_spa < bad_spa_end then Inr m
      else case fuel of
        0 \<Rightarrow> Inl Endless_Loop
      | Suc n \<Rightarrow>
          if bad_spa = spa
          then replace_copy n spa (bad_spa + FFBM_PAGE) bad_spa_end (new_spa + FFBM_PAGE) m
          else replace_copy n spa (bad_spa + 4) bad_spa_end (new_spa + 4) (copy4 new_spa bad_spa m))"

declare replace_copy.simps [simp del]

definition find_reserved :: "amdgv_ffbm \<Rightarrow> nat option" where
  "find_reserved fb =
     find (\<lambda>i. pt_type (fb_pt fb i) = AMDGV_FFBM_MEM_TYPE_RESERVED) (fb_spa fb)"

definition amdgv_ffbm_replace_page :: "u64 \<Rightarrow> amdgv_ffbm \<Rightarrow> (int \<times> amdgv_ffbm) cres" where
  "amdgv_ffbm_replace_page spa fb =
     (case amdgv_ffbm_find_pteb_by_phy fb spa of
        None \<Rightarrow> Inr (AMDGV_FFBM_ERROR_BAD_ADDR, fb)
      | Some pteb \<Rightarrow>
        if pt_type (fb_pt fb pteb) \<noteq> AMDGV_FFBM_MEM_TYPE_VF then Inr (0, fb)
        else let page_size = AMDGV_FFBM_PAGE_SIZE (pt_fragment (fb_pt fb pteb));
                 aligned_spa = AMDGV_FFBM_PAGE_ALIGN spa (pt_fragment (fb_pt fb pteb)) in
        cbind (amdgv_ffbm_pteb_hole_by_phy pteb aligned_spa page_size fb) (\<lambda>(r, fb).
        case r of
          None \<Rightarrow> Inr (AMDGV_FFBM_ERROR_NO_MEM, fb)
        | Some pteb \<Rightarrow>
          (case find_reserved fb of
             None \<Rightarrow> Inr (AMDGV_FFBM_ERROR_NO_MEM, fb)
           | Some new_pteb \<Rightarrow>
             let bad_spa = pt_spa (fb_pt fb pteb) in
             cbind (replace_copy (unat page_size div 4) spa bad_spa (bad_spa + page_size)
                      (pt_spa (fb_pt fb new_pteb)) (fb_mem fb)) (\<lambda>m.
             let p = fb_pt fb pteb;
                 fb = amdgv_ffbm_pteb_update new_pteb (pt_gpa p) (pt_spa (fb_pt fb new_pteb)) page_size
                        (pt_fragment p) (pt_vf_idx p) (pt_permission p) (pt_type p) False
                        (fb\<lparr>fb_mem := m\<rparr>);
                 fb = fb\<lparr>fb_reserved_block_count := fb_reserved_block_count fb - 1\<rparr> in
             cbind (amdgv_list_add_tail (GNode new_pteb) (GNode pteb) (fb_gpa fb)) (\<lambda>L.
             cbind (amdgv_ffbm_unmap_pteb pteb (fb\<lparr>fb_gpa := L\<rparr>)) (\<lambda>fb.
             let p = fb_pt fb pteb;
                 fb = amdgv_ffbm_pteb_update pteb AMDGV_FFBM_INVALID_ADDR (pt_spa p) page_size
                        (pt_fragment p) (AMDGV_INVALID_IDX_VF fb) 0 AMDGV_FFBM_MEM_TYPE_BAD_PAGE
                        (pt_applied p) fb
             in Inr (0, fb\<lparr>fb_bad_block_count := fb_bad_block_count fb + 1\<rparr>)))))))"

fun replace_pages :: "u64 list \<Rightarrow> amdgv_ffbm \<Rightarrow> (int \<times> amdgv_ffbm) cres" where
  "replace_pages [] fb = Inr (0, fb)"
| "replace_pages (retired_page # bps) fb =
     cbind (amdgv_ffbm_replace_page (push_bit 12 retired_page) fb) (\<lambda>(ret, fb).
       if ret \<noteq> 0 then Inr (ret, fb) else replace_pages bps fb)"

definition amdgv_ffbm_replace_bad_pages :: "u64 list \<Rightarrow> amdgv_ffbm \<Rightarrow> (int \<times> amdgv_ffbm) cres" where
  "amdgv_ffbm_replace_bad_pages bps fb =
     cbind (replace_pages bps fb) (\<lambda>(ret, fb).
       if ret = 0 then cbind (amdgv_ffbm_apply_page_table fb) (\<lambda>(fb, ret). Inr (ret, fb))
       else Inr (ret, fb))"

text \<open>The bad pages that the memory controller reports, \<open>None\<close> where the query fails.\<close>

fun reserve_records :: "u64 option list \<Rightarrow> amdgv_ffbm \<Rightarrow> amdgv_ffbm cres" where
  "reserve_records [] fb = Inr fb"
| "reserve_records (None # rs) fb = reserve_records rs fb"
| "reserve_records (Some retired_page # rs) fb =
     cbind (amdgv_ffbm_replace_bad_pages [retired_page] fb) (\<lambda>(ret, fb).
       if ret \<noteq> 0 then Inr fb else reserve_records rs fb)"

definition amdgv_ffbm_reserve_all_bad_pages :: "bool \<Rightarrow> u64 option list \<Rightarrow> amdgv_ffbm \<Rightarrow> amdgv_ffbm cres" where
  "amdgv_ffbm_reserve_all_bad_pages alloc_ok records fb =
     (if \<not> alloc_ok then Inr fb else reserve_records records fb)"

section \<open>Translation and copies\<close>

definition amdgv_ffbm_gpa_to_spa :: "amdgv_ffbm \<Rightarrow> u64 \<Rightarrow> u32 \<Rightarrow> u64 cres" where
  "amdgv_ffbm_gpa_to_spa fb gpa vf_idx =
     cbind (amdgv_ffbm_find_pteb_by_ffbm fb gpa vf_idx) (\<lambda>r. Inr (case r of
       Some i \<Rightarrow> pt_spa (fb_pt fb i) + (gpa - pt_gpa (fb_pt fb i))
     | None \<Rightarrow> AMDGV_FFBM_INVALID_ADDR))"

text \<open>The second component is the index written to \<^verbatim>\<open>*vf_idx\<close>, if one is.\<close>

definition amdgv_ffbm_spa_to_gpa :: "amdgv_ffbm \<Rightarrow> u64 \<Rightarrow> u64 \<times> u32 option" where
  "amdgv_ffbm_spa_to_gpa fb spa = (case amdgv_ffbm_find_pteb_by_phy fb spa of
       Some i \<Rightarrow> (pt_gpa (fb_pt fb i) + (spa - pt_spa (fb_pt fb i)), Some (pt_vf_idx (fb_pt fb i)))
     | None \<Rightarrow> (AMDGV_FFBM_INVALID_ADDR, None))"

text \<open>\<^verbatim>\<open>memcpy\<close> between two byte stores, and the offset of \<^verbatim>\<open>&data[k / 4]\<close> in a buffer of 32-bit
  words. The two ways to reach the frame buffer (its BAR and the index registers) write the same
  bytes.\<close>

definition mem_copy :: "(u64 \<Rightarrow> u8) \<Rightarrow> u64 \<Rightarrow> (u64 \<Rightarrow> u8) \<Rightarrow> u64 \<Rightarrow> u64 \<Rightarrow> u64 \<Rightarrow> u8" where
  "mem_copy dst_mem dst src_mem src sz a =
     (if a - dst < sz then src_mem (src + (a - dst)) else dst_mem a)"

definition data_offset :: "u64 \<Rightarrow> u64" where
  "data_offset k = (k div 4) * 4"

fun copy_to_walk :: "nat \<Rightarrow> amdgv_ffbm \<Rightarrow> gpa_cell \<Rightarrow> (u64 \<Rightarrow> u8) \<Rightarrow> u64 \<Rightarrow> u64 \<Rightarrow> u64 \<Rightarrow>
    (u64 \<Rightarrow> u8) \<Rightarrow> gpa_cell option \<Rightarrow> (u64 \<times> (u64 \<Rightarrow> u8)) cres" where
  "copy_to_walk fuel fb head data sz gpa size_left m pos =
     (if pos = Some head then Inr (size_left, m)
      else case fuel of
        0 \<Rightarrow> Inl Endless_Loop
      | Suc n \<Rightarrow>
          cbind (cderef pos) (\<lambda>c.
          cbind (node_of c) (\<lambda>i.
            let p = fb_pt fb i in
            if AMDGV_FFBM_ADDR_IN_RANGE (pt_gpa p) (pt_size p) gpa
            then let size_copy = min (pt_size p - (gpa - pt_gpa p)) size_left;
                     dst_offset = pt_spa p + (gpa - pt_gpa p);
                     m = mem_copy m dst_offset data (data_offset (sz - size_left)) size_copy;
                     size_left = size_left - size_copy in
                 if size_left = 0 then Inr (size_left, m)
                 else copy_to_walk n fb head data sz (gpa + size_copy) size_left m (nxt (fb_gpa fb) c)
            else if size_left = 0 then Inr (size_left, m)
            else copy_to_walk n fb head data sz gpa size_left m (nxt (fb_gpa fb) c))))"

declare copy_to_walk.simps [simp del]

definition amdgv_ffbm_copy_to_gpa :: "(u64 \<Rightarrow> u8) \<Rightarrow> u32 \<Rightarrow> u64 \<Rightarrow> u64 \<Rightarrow> amdgv_ffbm \<Rightarrow>
    (u64 \<times> amdgv_ffbm) cres" where
  "amdgv_ffbm_copy_to_gpa data idx_vf gpa sz fb =
     cbind (gpa_head idx_vf) (\<lambda>h.
     cbind (copy_to_walk GPA_CELLS fb h data sz gpa sz (fb_mem fb) (nxt (fb_gpa fb) h))
       (\<lambda>(left, m). Inr (left, fb\<lparr>fb_mem := m\<rparr>)))"

fun copy_from_walk :: "nat \<Rightarrow> amdgv_ffbm \<Rightarrow> gpa_cell \<Rightarrow> u64 \<Rightarrow> u64 \<Rightarrow> u64 \<Rightarrow> (u64 \<Rightarrow> u8) \<Rightarrow>
    gpa_cell option \<Rightarrow> (u64 \<times> (u64 \<Rightarrow> u8)) cres" where
  "copy_from_walk fuel fb head sz gpa size_left data pos =
     (if pos = Some head then Inr (size_left, data)
      else case fuel of
        0 \<Rightarrow> Inl Endless_Loop
      | Suc n \<Rightarrow>
          cbind (cderef pos) (\<lambda>c.
          cbind (node_of c) (\<lambda>i.
            let p = fb_pt fb i in
            if AMDGV_FFBM_ADDR_IN_RANGE (pt_gpa p) (pt_size p) gpa
            then let size_copy = min (pt_size p - (gpa - pt_gpa p)) size_left;
                     src_offset = pt_spa p + (gpa - pt_gpa p);
                     data = mem_copy data (data_offset (sz - size_left)) (fb_mem fb) src_offset size_copy;
                     size_left = size_left - size_copy in
                 if size_left = 0 then Inr (size_left, data)
                 else copy_from_walk n fb head sz (gpa + size_copy) size_left data (nxt (fb_gpa fb) c)
            else if size_left = 0 then Inr (size_left, data)
            else copy_from_walk n fb head sz gpa size_left data (nxt (fb_gpa fb) c))))"

declare copy_from_walk.simps [simp del]

definition amdgv_ffbm_copy_from_gpa :: "(u64 \<Rightarrow> u8) \<Rightarrow> u32 \<Rightarrow> u64 \<Rightarrow> u64 \<Rightarrow> amdgv_ffbm \<Rightarrow>
    (u64 \<times> (u64 \<Rightarrow> u8)) cres" where
  "amdgv_ffbm_copy_from_gpa data idx_vf gpa sz fb =
     cbind (gpa_head idx_vf) (\<lambda>h.
       copy_from_walk GPA_CELLS fb h sz gpa sz data (nxt (fb_gpa fb) h))"

section \<open>Setting up the table\<close>

fun init_heads :: "nat \<Rightarrow> gpa_cell links \<Rightarrow> gpa_cell links" where
  "init_heads 0 L = L"
| "init_heads (Suc n) L = AMDGV_INIT_LIST_HEAD (GHead n) (init_heads n L)"

definition amdgv_ffbm_sw_init :: "amdgv_ffbm \<Rightarrow> amdgv_ffbm" where
  "amdgv_ffbm_sw_init fb =
     fb\<lparr>fb_gpa := init_heads AMDGV_MAX_VF_SLOT (fb_gpa fb), fb_spa := [],
        fb_bad_block_count := 0, fb_enabled := True\<rparr>"

text \<open>The loop of \<^verbatim>\<open>amdgv_ffbm_page_table_destroy\<close> over the list of a VF; it reads the next
  cell before it removes one.\<close>

fun destroy_walk :: "nat \<Rightarrow> gpa_cell \<Rightarrow> gpa_cell option \<Rightarrow> amdgv_ffbm \<Rightarrow> amdgv_ffbm cres" where
  "destroy_walk fuel head pos fb =
     (if pos = Some head then Inr fb
      else case fuel of
        0 \<Rightarrow> Inl Endless_Loop
      | Suc n \<Rightarrow>
          cbind (cderef pos) (\<lambda>c.
          cbind (node_of c) (\<lambda>i.
            let tmp = nxt (fb_gpa fb) c in
            cbind (amdgv_list_del c (fb_gpa fb)) (\<lambda>L.
              destroy_walk n head tmp
                (amdgv_ffbm_free_block i (fb\<lparr>fb_gpa := L, fb_spa := remove1 i (fb_spa fb)\<rparr>))))))"

declare destroy_walk.simps [simp del]

fun destroy_vfs :: "nat \<Rightarrow> u32 \<Rightarrow> amdgv_ffbm \<Rightarrow> amdgv_ffbm cres" where
  "destroy_vfs 0 vf_idx fb = Inr fb"
| "destroy_vfs (Suc n) vf_idx fb =
     cbind (gpa_head vf_idx) (\<lambda>h.
     cbind (if amdgv_list_empty h (fb_gpa fb) then Inr fb
            else destroy_walk GPA_CELLS h (nxt (fb_gpa fb) h) fb) (\<lambda>fb.
       destroy_vfs n (vf_idx + 1) (fb\<lparr>fb_gpa := AMDGV_INIT_LIST_HEAD h (fb_gpa fb)\<rparr>)))"

definition amdgv_ffbm_page_table_destroy :: "amdgv_ffbm \<Rightarrow> amdgv_ffbm cres" where
  "amdgv_ffbm_page_table_destroy fb =
     cbind (destroy_vfs (unat (fb_num_vf fb)) 0 fb) (\<lambda>fb.
       Inr ((fold amdgv_ffbm_free_block (fb_spa fb) fb)\<lparr>fb_spa := []\<rparr>))"

fun reserve_blocks :: "nat \<Rightarrow> u64 \<Rightarrow> u64 \<Rightarrow> u64 \<Rightarrow> u64 \<Rightarrow> amdgv_ffbm \<Rightarrow> amdgv_ffbm cres" where
  "reserve_blocks 0 i aligned_size top_size page_size fb = Inr fb"
| "reserve_blocks (Suc n) i aligned_size top_size page_size fb =
     (let resv_top_offset = top_size + page_size * (i + 1) in
      cbind (amdgv_ffbm_manual_map (AMDGV_INVALID_IDX_VF fb) page_size AMDGV_FFBM_INVALID_ADDR
               (aligned_size - resv_top_offset) 0 AMDGV_FFBM_MEM_TYPE_RESERVED fb) (\<lambda>(_, fb).
        reserve_blocks n (i + 1) aligned_size top_size page_size
          (fb\<lparr>fb_total_fb_usable := fb_total_fb_usable fb - ucast (drop_bit 20 page_size)\<rparr>)))"

definition amdgv_ffbm_page_table_init :: "amdgv_ffbm \<Rightarrow> (int \<times> amdgv_ffbm) cres" where
  "amdgv_ffbm_page_table_init fb =
     cbind (amdgv_ffbm_page_table_destroy fb) (\<lambda>fb.
     let fb = amdgv_ffbm_free_all_block fb;
         page_size = AMDGV_FFBM_PAGE_SIZE (fb_default_fragment fb);
         aligned_size = AMDGV_FFBM_PAGE_ALIGN (MBYTES_TO_BYTES (ucast (fb_total_fb_avail fb)))
                          (fb_default_fragment fb) in
     cbind (amdgv_ffbm_allocate_block fb) (\<lambda>(r, fb).
     case r of
       None \<Rightarrow> Inr (AMDGV_FFBM_ERROR_NO_MEM, fb)
     | Some pteb \<Rightarrow>
       let fb = fb\<lparr>fb_total_physical_size := aligned_size\<rparr>;
           fb = amdgv_ffbm_pteb_init pteb 0 0 aligned_size (fb_default_fragment fb)
                  (AMDGV_INVALID_IDX_VF fb) 0 AMDGV_FFBM_MEM_TYPE_NOT_ASSIGNED False fb;
           fb = fb\<lparr>fb_spa := pteb # fb_spa fb\<rparr>;
           top_size = aligned_size - MBYTES_TO_BYTES (ucast (fb_total_fb_usable fb)) in
       cbind (amdgv_ffbm_manual_map (AMDGV_INVALID_IDX_VF fb) top_size AMDGV_FFBM_INVALID_ADDR
                (aligned_size - top_size) 0 AMDGV_FFBM_MEM_TYPE_PF fb) (\<lambda>(_, fb).
       cbind (reserve_blocks (unat (fb_max_reserved_block fb)) 0 aligned_size top_size page_size fb) (\<lambda>fb.
       cbind (amdgv_ffbm_manual_map AMDGV_PF_IDX (ucast (fb_allocated_tmr_size fb))
                (MBYTES_TO_BYTES AMDGV_FFBM_FB_TMR_OFFSET) (MBYTES_TO_BYTES AMDGV_FFBM_FB_TMR_OFFSET)
                0 AMDGV_FFBM_MEM_TYPE_TMR fb) (\<lambda>(_, fb). Inr (0, fb))))))"

definition amdgv_ffbm_page_table_update_by_fcn :: "u32 \<Rightarrow> amdgv_ffbm \<Rightarrow> (int \<times> amdgv_ffbm) cres" where
  "amdgv_ffbm_page_table_update_by_fcn vf_idx fb =
     (if \<not> fb_enabled fb then Inr (0, fb)
      else let entry = fb_vf fb (unat vf_idx);
               off = ucast (vd_fb_offset entry) :: u64;
               tmr = ucast (fb_tmr_size fb) :: u64 in
      if vf_idx = AMDGV_PF_IDX then
        cbind (amdgv_ffbm_unmap_by_spa (MBYTES_TO_BYTES off) fb) (\<lambda>fb.
        cbind (amdgv_ffbm_unmap_by_spa (MBYTES_TO_BYTES (AMDGV_FFBM_FB_TMR_OFFSET + tmr)) fb) (\<lambda>fb.
        cbind (amdgv_ffbm_manual_map vf_idx (MBYTES_TO_BYTES (AMDGV_FFBM_FB_TMR_OFFSET - off))
                 (MBYTES_TO_BYTES off) (MBYTES_TO_BYTES off) 0 AMDGV_FFBM_MEM_TYPE_PF fb) (\<lambda>(_, fb).
          amdgv_ffbm_manual_map vf_idx
            (MBYTES_TO_BYTES (ucast (vd_fb_size entry) - tmr - AMDGV_FFBM_FB_TMR_OFFSET + off))
            (MBYTES_TO_BYTES (AMDGV_FFBM_FB_TMR_OFFSET + tmr))
            (MBYTES_TO_BYTES (AMDGV_FFBM_FB_TMR_OFFSET + tmr)) 0 AMDGV_FFBM_MEM_TYPE_PF fb)))
      else if 32 \<le> vf_idx then Inl Out_Of_Bounds
      else
        cbind (if 0 < (if fb_share_tmr fb then vd_fb_size_tmr entry else vd_fb_size entry) then
          cbind (amdgv_ffbm_manual_map vf_idx (MBYTES_TO_BYTES tmr)
                   (MBYTES_TO_BYTES AMDGV_FFBM_FB_TMR_OFFSET) (MBYTES_TO_BYTES AMDGV_FFBM_FB_TMR_OFFSET)
                   AMDGV_FFBM_PERM_RW AMDGV_FFBM_MEM_TYPE_TMR fb) (\<lambda>(_, fb).
          cbind (amdgv_ffbm_map vf_idx 0 (MBYTES_TO_BYTES AMDGV_FFBM_FB_TMR_OFFSET)
                   AMDGV_FFBM_PERM_RW AMDGV_FFBM_MEM_TYPE_VF fb) (\<lambda>(_, fb).
            amdgv_ffbm_map vf_idx (MBYTES_TO_BYTES (AMDGV_FFBM_FB_TMR_OFFSET + tmr))
              (MBYTES_TO_BYTES (ucast (vd_fb_size entry) - AMDGV_FFBM_FB_TMR_OFFSET))
              AMDGV_FFBM_PERM_RW AMDGV_FFBM_MEM_TYPE_VF fb))
         else Inr (0, fb)) (\<lambda>(ret, fb).
        cbind (amdgv_ffbm_apply_page_table fb) (\<lambda>(fb, _). Inr (ret, fb))))"

section \<open>Live update and queries\<close>

text \<open>\<^verbatim>\<open>amdgv_ffbm_copy_page_table\<close> stops after \<open>max_num\<close> blocks; a \<open>max_num\<close> that is not
  positive never stops it.\<close>

fun copy_pt_loop :: "nat list \<Rightarrow> int \<Rightarrow> int \<Rightarrow> amdgv_ffbm \<Rightarrow> amdgv_ffbm_pte_block list" where
  "copy_pt_loop [] index max_num fb = []"
| "copy_pt_loop (i # is) index max_num fb =
     fb_pt fb i # (if index + 1 = max_num then [] else copy_pt_loop is (index + 1) max_num fb)"

definition amdgv_ffbm_copy_page_table :: "int \<Rightarrow> amdgv_ffbm \<Rightarrow> amdgv_ffbm_pte_block list" where
  "amdgv_ffbm_copy_page_table max_num fb = copy_pt_loop (fb_spa fb) 0 max_num fb"

record amdgv_live_ffbm_block =
  lb_gpa :: u64
  lb_spa :: u64
  lb_size :: u64
  lb_fragment :: u8
  lb_permission :: u8
  lb_vf_idx :: u8
  lb_type :: amdgv_ffbm_mem_type
  lb_applied :: bool

record amdgv_live_info_ffbm =
  li_blocks :: "amdgv_live_ffbm_block list"
  li_bad_block_count :: u8
  li_reserved_block_count :: u8
  li_default_fragment :: u8
  li_max_reserved_block :: u8
  li_share_tmr :: bool

definition export_block :: "amdgv_ffbm_pte_block \<Rightarrow> amdgv_live_ffbm_block" where
  "export_block p = \<lparr>lb_gpa = pt_gpa p, lb_spa = pt_spa p, lb_size = pt_size p,
     lb_fragment = pt_fragment p, lb_permission = pt_permission p, lb_vf_idx = ucast (pt_vf_idx p),
     lb_type = pt_type p, lb_applied = pt_applied p\<rparr>"

definition amdgv_ffbm_export_spa :: "amdgv_ffbm \<Rightarrow> amdgv_live_info_ffbm" where
  "amdgv_ffbm_export_spa fb =
     \<lparr>li_blocks = map (\<lambda>i. export_block (fb_pt fb i)) (fb_spa fb),
      li_bad_block_count = fb_bad_block_count fb,
      li_reserved_block_count = fb_reserved_block_count fb,
      li_default_fragment = fb_default_fragment fb,
      li_max_reserved_block = fb_max_reserved_block fb,
      li_share_tmr = fb_share_tmr fb\<rparr>"

text \<open>The state of the import loop: the last TMR block and the number of active VFs.\<close>

fun import_blocks :: "amdgv_live_ffbm_block list \<Rightarrow> nat option \<Rightarrow> u32 \<Rightarrow> amdgv_ffbm \<Rightarrow>
    (bool \<times> nat option \<times> u32 \<times> amdgv_ffbm) cres" where
  "import_blocks [] tmr active fb = Inr (True, tmr, active, fb)"
| "import_blocks (b # bs) tmr active fb =
     cbind (amdgv_ffbm_allocate_block fb) (\<lambda>(r, fb).
     case r of
       None \<Rightarrow> Inr (False, tmr, active, fb)
     | Some n \<Rightarrow>
       let vf_idx = ucast (lb_vf_idx b) :: u32;
           fb = amdgv_ffbm_pteb_init n (lb_gpa b) (lb_spa b) (lb_size b) (lb_fragment b) vf_idx
                  (lb_permission b) (lb_type b) (lb_applied b) fb in
       cbind (if vf_idx < fb_num_vf fb then amdgv_ffbm_insert_new_ffbm_node n fb else Inr fb) (\<lambda>fb.
       let fb = fb\<lparr>fb_spa := fb_spa fb @ [n]\<rparr>;
           is_tmr = (lb_type b = AMDGV_FFBM_MEM_TYPE_TMR);
           fb = (if is_tmr then fb\<lparr>fb_tmr_size := ucast (drop_bit 20 (lb_size b))\<rparr> else fb)
       in import_blocks bs (if is_tmr then Some n else tmr)
            (if vf_idx < fb_num_vf fb then max active (vf_idx + 1) else active) fb))"

text \<open>The copies of the shared TMR block. \<^verbatim>\<open>oss_memcpy\<close> copies the list nodes of the PF block
  too; the gpa node is linked again at once. The copied node of the list by physical address, which
  only a later \<^verbatim>\<open>amdgv_ffbm_page_table_destroy\<close> would read, is not modelled.\<close>

fun import_tmr :: "nat \<Rightarrow> u32 \<Rightarrow> nat \<Rightarrow> amdgv_ffbm \<Rightarrow> (bool \<times> amdgv_ffbm) cres" where
  "import_tmr 0 vf_idx tmr fb = Inr (True, fb)"
| "import_tmr (Suc k) vf_idx tmr fb =
     cbind (amdgv_ffbm_allocate_block fb) (\<lambda>(r, fb).
     case r of
       None \<Rightarrow> Inr (False, fb)
     | Some n \<Rightarrow>
       let fb = fb\<lparr>fb_pt := (fb_pt fb)(n := (fb_pt fb tmr)\<lparr>pt_vf_idx := vf_idx\<rparr>)\<rparr> in
       cbind (amdgv_ffbm_insert_new_ffbm_node n fb) (\<lambda>fb. import_tmr k (vf_idx + 1) tmr fb))"

definition import_counts :: "amdgv_live_info_ffbm \<Rightarrow> amdgv_ffbm \<Rightarrow> amdgv_ffbm" where
  "import_counts info fb =
     (let fb = fb\<lparr>fb_bad_block_count := li_bad_block_count info,
            fb_reserved_block_count := li_reserved_block_count info,
            fb_default_fragment := li_default_fragment info,
            fb_max_reserved_block := li_max_reserved_block info,
            fb_share_tmr := li_share_tmr info\<rparr> in
      fb\<lparr>fb_total_physical_size := AMDGV_FFBM_PAGE_ALIGN
             (MBYTES_TO_BYTES (ucast (fb_total_fb_avail fb))) (fb_default_fragment fb),
         fb_total_fb_usable := fb_total_fb_usable fb -
           ucast (drop_bit 20 (AMDGV_FFBM_PAGE_SIZE (fb_default_fragment fb))
                  * ucast (fb_max_reserved_block fb))\<rparr>)"

text \<open>The flag is \<^verbatim>\<open>AMDGV_LIVE_INFO_STATUS_SUCCESS\<close>.\<close>

definition amdgv_ffbm_import_spa_and_gpa :: "amdgv_live_info_ffbm \<Rightarrow> amdgv_ffbm \<Rightarrow>
    (bool \<times> amdgv_ffbm) cres" where
  "amdgv_ffbm_import_spa_and_gpa info fb =
     cbind (import_blocks (li_blocks info) None 0 fb) (\<lambda>(ok, tmr, active, fb).
       if \<not> ok then Inr (False, fb)
       else cbind (if li_share_tmr info
                   then (case tmr of
                      None \<Rightarrow> Inr (False, fb)
                    | Some t \<Rightarrow> import_tmr (unat active) 0 t fb)
                   else Inr (True, fb)) (\<lambda>(ok, fb).
            if \<not> ok then Inr (False, fb) else Inr (True, import_counts info fb)))"

record ffbm_map_entry =
  me_gpa :: u64
  me_spa :: u64
  me_size :: u64

definition map_entry :: "amdgv_ffbm_pte_block \<Rightarrow> ffbm_map_entry" where
  "map_entry p = \<lparr>me_gpa = pt_gpa p, me_spa = pt_spa p, me_size = pt_size p\<rparr>"

text \<open>The inner loop of the bubble sort compares \<open>k\<close> neighbours; the flag is \<^verbatim>\<open>swapped\<close>.\<close>

fun bubble_pass :: "nat \<Rightarrow> ffbm_map_entry list \<Rightarrow> ffbm_map_entry list \<times> bool" where
  "bubble_pass (Suc k) (x # y # r) =
     (if me_gpa y < me_gpa x
      then (let (r', _) = bubble_pass k (x # r) in (y # r', True))
      else (let (r', s) = bubble_pass k (y # r) in (x # r', s)))"
| "bubble_pass k r = (r, False)"

fun bubble_sort :: "nat \<Rightarrow> bool \<Rightarrow> ffbm_map_entry list \<Rightarrow> ffbm_map_entry list" where
  "bubble_sort 0 swapped es = es"
| "bubble_sort (Suc k) swapped es =
     (if \<not> swapped then es
      else let (es, swapped) = bubble_pass (Suc k) es in bubble_sort k swapped es)"

definition amdgv_get_vf_fb_mapping_list :: "u32 \<Rightarrow> bool \<Rightarrow> amdgv_ffbm \<Rightarrow>
    (int \<times> ffbm_map_entry list) cres" where
  "amdgv_get_vf_fb_mapping_list vf_idx include_tmr_block fb =
     (if fb_enabled fb \<and> vf_idx < AMDGV_PF_IDX
      then cbind (gpa_nodes fb vf_idx) (\<lambda>is.
        let shown = filter (\<lambda>i. pt_type (fb_pt fb i) \<noteq> AMDGV_FFBM_MEM_TYPE_TMR \<or> include_tmr_block) is;
            es = take FFBM_MAP_ENTRY_MAX_COUNT (map (\<lambda>i. map_entry (fb_pt fb i)) shown) in
        Inr (0, if 1 < length es then bubble_sort (length es - 1) True es else es))
      else Inr (AMDGV_FAILURE, []))"

end
