(* ===== verification/GV_Ffbm_Props.thy ===== *)
theory GV_Ffbm_Props
  imports GV_Ffbm GV_Regions
begin

text \<open>
  What the block manager of the frame buffer guarantees. \<open>ffbm_ok\<close> is the invariant of the list
  by physical address: its blocks are ordered, disjoint, made of whole pages and inside the frame
  buffer; \<open>tiled\<close> says that they also cover it. Every operation keeps \<open>ffbm_ok\<close> (an
  interpretation of \<open>block_owner\<close>), and dividing, mapping and unmapping keep \<open>tiled\<close>.
\<close>

section \<open>Addresses\<close>

lemma unat_plus64: "unat (x::u64) + unat y < 2 ^ 64 \<Longrightarrow> unat (x + y) = unat x + unat y"
  by (subst unat_add_lem [THEN iffD1]) simp_all

text \<open>The size of a page in bytes.\<close>

definition page :: "u8 \<Rightarrow> nat" where
  "page f = 2 ^ (unat f + 12)"

lemma page_pos [simp]: "0 < page f"
  by (simp add: page_def)

lemma page_pow: "unat f \<le> 18 \<Longrightarrow> page f \<le> 2 ^ 30"
  unfolding page_def by (rule power_increasing) simp_all

lemma unat_PAGE_SIZE: "unat f \<le> 18 \<Longrightarrow> unat (AMDGV_FFBM_PAGE_SIZE f) = page f"
  by (simp add: AMDGV_FFBM_PAGE_SIZE_def page_def push_bit_of_1 unat_two_power)

lemma unat_PAGE_ALIGN: "unat (AMDGV_FFBM_PAGE_ALIGN x f) = unat x div page f * page f"
  by (simp add: AMDGV_FFBM_PAGE_ALIGN_def AMDGV_FFBM_PAGE_SIZE_def page_def push_bit_of_1
      unat_and_not_mask)

lemma PAGE_ALIGN_fix: "page f dvd unat x \<Longrightarrow> AMDGV_FFBM_PAGE_ALIGN x f = x"
  unfolding word_unat_eq_iff by (simp add: unat_PAGE_ALIGN)

lemma PAGE_ALIGN_CEIL_fix:
  assumes "unat f \<le> 18" and "page f dvd unat x"
  shows "AMDGV_FFBM_PAGE_ALIGN_CEIL x f = x"
proof -
  have p: "page f dvd 2 ^ 64"
    unfolding page_def by (rule le_imp_power_dvd) (use assms(1) in simp)
  have "unat x + page f \<le> 2 ^ 64"
  proof -
    have "page f dvd 2 ^ 64 - unat x" using p assms(2) by (simp add: dvd_diff_nat)
    then have "page f \<le> 2 ^ 64 - unat x" using unat_lt64 [of x] by (simp add: dvd_imp_le)
    then show ?thesis using unat_lt64 [of x] by linarith
  qed
  have s: "unat (AMDGV_FFBM_PAGE_SIZE f - 1) = page f - 1"
  proof -
    have "1 \<le> page f" using page_pos [of f] by linarith
    then show ?thesis
      using unat_PAGE_SIZE [OF assms(1)] unat_sub [of 1 "AMDGV_FFBM_PAGE_SIZE f"]
      by (simp add: word_le_nat_alt)
  qed
  have u: "unat (x + (AMDGV_FFBM_PAGE_SIZE f - 1)) = unat x + (page f - 1)"
  proof -
    have "unat x + (page f - 1) < 2 ^ 64"
      using \<open>unat x + page f \<le> 2 ^ 64\<close> page_pos [of f] by linarith
    then show ?thesis using unat_plus64 [of x "AMDGV_FFBM_PAGE_SIZE f - 1"] by (simp only: s)
  qed
  obtain k where k: "unat x = k * page f" using assms(2) by (auto simp: dvd_def mult.commute)
  have "unat (AMDGV_FFBM_PAGE_ALIGN_CEIL x f) = (k * page f + (page f - 1)) div page f * page f"
    unfolding AMDGV_FFBM_PAGE_ALIGN_CEIL_def unat_PAGE_ALIGN
    using u k by (simp add: algebra_simps)
  also have "(k * page f + (page f - 1)) div page f = k" by (simp add: div_mult_self3)
  finally show ?thesis using k by (simp add: word_unat_eq_iff)
qed

lemma MAP_SIZE_VALID_iff: "AMDGV_FFBM_MAP_SIZE_VALID x f = 0 \<longleftrightarrow> page f dvd unat x"
proof -
  have "AMDGV_FFBM_MAP_SIZE_VALID x f = take_bit (unat f + 12) x"
    by (simp add: AMDGV_FFBM_MAP_SIZE_VALID_def take_bit_eq_mask mask_eq_exp_minus_1 push_bit_of_1)
  moreover have "take_bit (unat f + 12) x = 0 \<longleftrightarrow> take_bit (unat f + 12) (unat x) = 0"
    by (metis unsigned_take_bit_eq unsigned_eq_0_iff)
  ultimately show ?thesis by (simp add: take_bit_eq_mod page_def dvd_eq_mod_eq_0)
qed

text \<open>Ranges that do not wrap.\<close>

lemma ADDR_IN_RANGE_iff:
  assumes "unat s + unat n < 2 ^ 64"
  shows "AMDGV_FFBM_ADDR_IN_RANGE s n a \<longleftrightarrow> unat s \<le> unat a \<and> unat a < unat s + unat n"
  using unat_plus64 [OF assms]
  by (simp add: AMDGV_FFBM_ADDR_IN_RANGE_def word_le_nat_alt word_less_nat_alt)

section \<open>The list by physical address\<close>

definition pt_block :: "amdgv_ffbm_pte_block \<Rightarrow> block" where
  "pt_block p = (unat (pt_spa p), unat (pt_spa p) + unat (pt_size p))"

definition ffbm_blocks :: "amdgv_ffbm \<Rightarrow> block list" where
  "ffbm_blocks fb = map (\<lambda>i. pt_block (fb_pt fb i)) (fb_spa fb)"

text \<open>A block of the table: it is made of whole pages of the default size.\<close>

definition pteb_ok :: "amdgv_ffbm \<Rightarrow> nat \<Rightarrow> bool" where
  "pteb_ok fb i \<longleftrightarrow> i < 256 \<and> pt_fragment (fb_pt fb i) = fb_default_fragment fb \<and>
     page (fb_default_fragment fb) dvd unat (pt_spa (fb_pt fb i)) \<and>
     page (fb_default_fragment fb) dvd unat (pt_size (fb_pt fb i)) \<and>
     0 < unat (pt_size (fb_pt fb i))"

definition ffbm_limit :: "amdgv_ffbm \<Rightarrow> nat" where
  "ffbm_limit fb = unat (fb_total_physical_size fb)"

definition ffbm_ok :: "amdgv_ffbm \<Rightarrow> bool" where
  "ffbm_ok fb \<longleftrightarrow> unat (fb_default_fragment fb) \<le> 18 \<and> distinct (fb_spa fb) \<and>
     (\<forall>i \<in> set (fb_spa fb). pteb_ok fb i) \<and>
     ordered_from 0 (ffbm_blocks fb) \<and> block_end 0 (ffbm_blocks fb) \<le> ffbm_limit fb"

lemma ffbm_okD:
  assumes "ffbm_ok fb"
  shows "unat (fb_default_fragment fb) \<le> 18" "distinct (fb_spa fb)"
    "\<And>i. i \<in> set (fb_spa fb) \<Longrightarrow> pteb_ok fb i"
    "ordered_from 0 (ffbm_blocks fb)" "block_end 0 (ffbm_blocks fb) \<le> ffbm_limit fb"
  using assms by (auto simp: ffbm_ok_def)

lemma ffbm_limit_lt: "ffbm_limit fb < 2 ^ 64"
  by (simp only: ffbm_limit_def unat_lt64)

lemma pteb_bounds:
  assumes "ffbm_ok fb" and "i \<in> set (fb_spa fb)"
  shows "unat (pt_spa (fb_pt fb i)) + unat (pt_size (fb_pt fb i)) \<le> ffbm_limit fb"
    and "unat (pt_spa (fb_pt fb i)) + unat (pt_size (fb_pt fb i)) < 2 ^ 64"
proof -
  have "pt_block (fb_pt fb i) \<in> set (ffbm_blocks fb)" using assms(2) by (simp add: ffbm_blocks_def)
  from ordered_from_mem [OF ffbm_okD(4) [OF assms(1)] this [unfolded pt_block_def]]
  show le: "unat (pt_spa (fb_pt fb i)) + unat (pt_size (fb_pt fb i)) \<le> ffbm_limit fb"
    using ffbm_okD(5) [OF assms(1)] by linarith
  then show "unat (pt_spa (fb_pt fb i)) + unat (pt_size (fb_pt fb i)) < 2 ^ 64"
    using ffbm_limit_lt [of fb] by linarith
qed

text \<open>Two states that agree on the blocks of the list have the same blocks.\<close>

lemma ffbm_ok_cong:
  assumes "ffbm_ok fb" and "fb_spa fb' = fb_spa fb"
    and "\<And>i. i \<in> set (fb_spa fb) \<Longrightarrow> pt_spa (fb_pt fb' i) = pt_spa (fb_pt fb i) \<and>
      pt_size (fb_pt fb' i) = pt_size (fb_pt fb i) \<and>
      pt_fragment (fb_pt fb' i) = pt_fragment (fb_pt fb i)"
    and "fb_default_fragment fb' = fb_default_fragment fb"
    and "fb_total_physical_size fb' = fb_total_physical_size fb"
  shows "ffbm_ok fb'"
proof -
  have "ffbm_blocks fb' = ffbm_blocks fb"
    unfolding ffbm_blocks_def assms(2) by (rule map_cong) (simp_all add: pt_block_def assms(3))
  then show ?thesis using assms by (auto simp: ffbm_ok_def ffbm_limit_def pteb_ok_def)
qed

lemma set_insert_after: "x \<in> set xs \<Longrightarrow> set (insert_after x y xs) = insert y (set xs)"
  by (induction xs) auto

lemma insert_after_split:
  "x \<notin> set us \<Longrightarrow> insert_after x y (us @ x # vs) = us @ x # y # vs"
  by (induction us) auto

lemma distinct_split:
  assumes "distinct xs" and "x \<in> set xs"
  obtains us vs where "xs = us @ x # vs" and "x \<notin> set us" and "x \<notin> set vs"
proof -
  from split_list [OF assms(2)] obtain us vs where "xs = us @ x # vs" by blast
  with that assms(1) show ?thesis by simp
qed

lemma unused_block_spec:
  "unused_block n i used = Some j \<Longrightarrow> i \<le> j \<and> j < i + n \<and> used j = False"
  by (induction n i used rule: unused_block.induct) (auto split: if_splits)

lemma unused_block_None:
  "unused_block n i used = None \<Longrightarrow> i \<le> j \<Longrightarrow> j < i + n \<Longrightarrow> used j"
proof (induction n i used rule: unused_block.induct)
  case (1 i used)
  then show ?case by simp
next
  case (2 n i used)
  then show ?case by (cases "j = i") (auto split: if_splits)
qed

lemma alloc_cases:
  assumes "amdgv_ffbm_allocate_block fb = Inr (r, fb')"
  obtains (full) "r = None" and "fb' = fb"
  | (got) n where "r = Some n" and "n < 256" and "n \<notin> set (fb_spa fb)" and "\<not> fb_used fb n"
    and "fb' = fb\<lparr>fb_used := (fb_used fb)(n := True), fb_pt := (fb_pt fb)(n := pteb_zero),
      fb_gpa := set_nxt (GNode n) None (set_prv (GNode n) None (fb_gpa fb))\<rparr>"
proof (cases "unused_block 256 0 (fb_used fb)")
  case None
  with assms have "Inr (r, fb') = (Inr (None, fb) :: _ cres)"
    by (simp only: amdgv_ffbm_allocate_block_def option.case)
  with full show ?thesis by simp
next
  case (Some n)
  with unused_block_spec have n: "n < 256" "\<not> fb_used fb n" by fastforce+
  from Some assms have e: "(if n \<in> set (fb_spa fb) then Inl Use_After_Free
      else Inr (Some n, fb\<lparr>fb_used := (fb_used fb)(n := True), fb_pt := (fb_pt fb)(n := pteb_zero),
        fb_gpa := set_nxt (GNode n) None (set_prv (GNode n) None (fb_gpa fb))\<rparr>)) = Inr (r, fb')"
    by (simp only: amdgv_ffbm_allocate_block_def option.case)
  then have "n \<notin> set (fb_spa fb)" by (auto split: if_splits)
  with e have "r = Some n" and "fb' = fb\<lparr>fb_used := (fb_used fb)(n := True),
      fb_pt := (fb_pt fb)(n := pteb_zero),
      fb_gpa := set_nxt (GNode n) None (set_prv (GNode n) None (fb_gpa fb))\<rparr>"
    by simp_all
  with n \<open>n \<notin> set (fb_spa fb)\<close> show ?thesis by (intro got)
qed

text \<open>The parts of the state that the operations on blocks leave alone.\<close>

definition same_config :: "amdgv_ffbm \<Rightarrow> amdgv_ffbm \<Rightarrow> bool" where
  "same_config fb fb' \<longleftrightarrow> fb_default_fragment fb' = fb_default_fragment fb \<and>
     fb_total_physical_size fb' = fb_total_physical_size fb \<and> fb_num_vf fb' = fb_num_vf fb \<and>
     fb_max_num_vf fb' = fb_max_num_vf fb \<and> fb_tmr_size fb' = fb_tmr_size fb \<and>
     fb_enabled fb' = fb_enabled fb \<and> fb_sw_init fb' = fb_sw_init fb \<and> fb_grant fb' = fb_grant fb \<and>
     fb_vf fb' = fb_vf fb \<and> fb_share_tmr fb' = fb_share_tmr fb \<and>
     fb_max_reserved_block fb' = fb_max_reserved_block fb"

lemma same_config_refl [simp]: "same_config fb fb"
  by (simp add: same_config_def)

lemma same_config_trans [trans]: "same_config a b \<Longrightarrow> same_config b c \<Longrightarrow> same_config a c"
  by (simp add: same_config_def)

section \<open>Dividing a block\<close>

text \<open>The two parts of a divided block.\<close>

definition right_part :: "amdgv_ffbm_pte_block \<Rightarrow> u64 \<Rightarrow> amdgv_ffbm_pte_block" where
  "right_part p sz = \<lparr>pt_gpa = (if pt_gpa p \<noteq> AMDGV_FFBM_INVALID_ADDR then pt_gpa p + sz
       else AMDGV_FFBM_INVALID_ADDR),
     pt_spa = pt_spa p + sz, pt_size = pt_size p - sz, pt_fragment = pt_fragment p,
     pt_permission = pt_permission p, pt_vf_idx = pt_vf_idx p, pt_type = pt_type p,
     pt_applied = pt_applied p\<rparr>"

definition cut_state :: "nat \<Rightarrow> u64 \<Rightarrow> nat \<Rightarrow> gpa_cell links \<Rightarrow> amdgv_ffbm \<Rightarrow> amdgv_ffbm" where
  "cut_state i sz n L fb = fb\<lparr>fb_used := (fb_used fb)(n := True),
     fb_pt := (fb_pt fb)(n := right_part (fb_pt fb i) sz, i := (fb_pt fb i)\<lparr>pt_size := sz\<rparr>),
     fb_spa := insert_after i n (fb_spa fb), fb_gpa := L\<rparr>"

definition taken :: "nat \<Rightarrow> amdgv_ffbm \<Rightarrow> amdgv_ffbm" where
  "taken n fb = fb\<lparr>fb_used := (fb_used fb)(n := True), fb_pt := (fb_pt fb)(n := pteb_zero),
     fb_gpa := set_nxt (GNode n) None (set_prv (GNode n) None (fb_gpa fb))\<rparr>"

lemma divide_refuse:
  "\<not> page (pt_fragment (fb_pt fb i)) dvd unat sz \<Longrightarrow>
     amdgv_ffbm_pteb_divide_size i sz fb = Inr (None, fb)"
  by (simp add: amdgv_ffbm_pteb_divide_size_def MAP_SIZE_VALID_iff)

lemma divide_whole:
  assumes "unat (pt_fragment (fb_pt fb i)) \<le> 18" and "page (pt_fragment (fb_pt fb i)) dvd unat sz"
    and "pt_size (fb_pt fb i) \<le> sz"
  shows "amdgv_ffbm_pteb_divide_size i sz fb = Inr (Some i, fb)"
  using assms PAGE_ALIGN_CEIL_fix [OF assms(1,2)]
  by (simp add: amdgv_ffbm_pteb_divide_size_def MAP_SIZE_VALID_iff)

lemma divide_full:
  assumes "unat (pt_fragment (fb_pt fb i)) \<le> 18" and "page (pt_fragment (fb_pt fb i)) dvd unat sz"
    and "\<not> pt_size (fb_pt fb i) \<le> sz" and "amdgv_ffbm_allocate_block fb = Inr (None, fb)"
  shows "amdgv_ffbm_pteb_divide_size i sz fb = Inr (None, fb)"
  using assms PAGE_ALIGN_CEIL_fix [OF assms(1,2)]
  by (simp add: amdgv_ffbm_pteb_divide_size_def MAP_SIZE_VALID_iff)

lemma divide_got:
  assumes "unat (pt_fragment (fb_pt fb i)) \<le> 18" and "page (pt_fragment (fb_pt fb i)) dvd unat sz"
    and "\<not> pt_size (fb_pt fb i) \<le> sz"
    and "amdgv_ffbm_allocate_block fb = Inr (Some n, taken n fb)" and "n \<noteq> i"
  shows "amdgv_ffbm_pteb_divide_size i sz fb =
     (let L = AMDGV_INIT_LIST_HEAD (GNode n) (fb_gpa (taken n fb)) in
      if pt_gpa (fb_pt fb i) \<noteq> AMDGV_FFBM_INVALID_ADDR
      then cbind (amdgv_list_add (GNode n) (GNode i) L) (\<lambda>L. Inr (Some n, cut_state i sz n L fb))
      else Inr (Some n, cut_state i sz n L fb))"
proof -
  have c: "AMDGV_FFBM_PAGE_ALIGN_CEIL sz (pt_fragment (fb_pt fb i)) = sz"
    by (rule PAGE_ALIGN_CEIL_fix [OF assms(1,2)])
  have s: "AMDGV_FFBM_MAP_SIZE_VALID sz (pt_fragment (fb_pt fb i)) = 0"
    using assms(2) by (simp add: MAP_SIZE_VALID_iff)
  show ?thesis
    unfolding amdgv_ffbm_pteb_divide_size_def Let_def c assms(4)
    using s assms(3,5)
    by (simp add: taken_def cut_state_def right_part_def pteb_set_size_def amdgv_ffbm_pteb_init_def
        amdgv_ffbm_pteb_update_def fun_upd_twist)
qed

lemma alloc_full_used:
  assumes "amdgv_ffbm_allocate_block fb = Inr (None, fb')" and "n < 256"
  shows "fb_used fb n"
proof -
  have "unused_block 256 0 (fb_used fb) = None"
    using assms(1) by (auto simp only: amdgv_ffbm_allocate_block_def split: option.splits if_splits)
  from unused_block_None [OF this] assms(2) show ?thesis by simp
qed

lemma divide_cases:
  assumes ok: "ffbm_ok fb" and i: "i \<in> set (fb_spa fb)"
    and res: "amdgv_ffbm_pteb_divide_size i sz fb = Inr (r, fb')"
  obtains (unaligned) "\<not> page (fb_default_fragment fb) dvd unat sz" and "r = None" and "fb' = fb"
  | (full) "r = None" and "fb' = fb" and "\<And>n. n < 256 \<Longrightarrow> fb_used fb n"
  | (whole) "r = Some i" and "fb' = fb" and "pt_size (fb_pt fb i) \<le> sz"
  | (cut) n L where "r = Some n" and "fb' = cut_state i sz n L fb"
    and "page (fb_default_fragment fb) dvd unat sz" and "sz < pt_size (fb_pt fb i)"
    and "n \<notin> set (fb_spa fb)" and "n < 256" and "\<not> fb_used fb n"
proof -
  let ?f = "fb_default_fragment fb" and ?p = "fb_pt fb i"
  have f: "pt_fragment ?p = ?f" and f18: "unat (pt_fragment ?p) \<le> 18"
    using ffbm_okD(1,3) [OF ok] i by (auto simp: pteb_ok_def)
  consider (a) "\<not> page (pt_fragment ?p) dvd unat sz"
    | (b) "page (pt_fragment ?p) dvd unat sz" "pt_size ?p \<le> sz"
    | (c) "page (pt_fragment ?p) dvd unat sz" "\<not> pt_size ?p \<le> sz" by blast
  then show ?thesis
  proof cases
    case a
    with divide_refuse [OF a] res show ?thesis by (intro unaligned) (simp_all add: f)
  next
    case b
    with divide_whole [OF f18 b] res show ?thesis by (intro whole) simp_all
  next
    case c
    have "\<exists>x. amdgv_ffbm_allocate_block fb = Inr x"
    proof (cases "amdgv_ffbm_allocate_block fb")
      case (Inl e)
      with res c show ?thesis
        by (simp add: amdgv_ffbm_pteb_divide_size_def MAP_SIZE_VALID_iff PAGE_ALIGN_CEIL_fix [OF f18])
    qed simp
    then obtain q fb1 where a: "amdgv_ffbm_allocate_block fb = Inr (q, fb1)" by auto
    from a show ?thesis
    proof (cases rule: alloc_cases)
      case full
      note n = a [unfolded full]
      from divide_full [OF f18 c n] res have "r = None" "fb' = fb" by simp_all
      with alloc_full_used [OF n] that(2) show ?thesis by blast
    next
      case (got n)
      have ne: "n \<noteq> i" using got(3) i by auto
      have al: "amdgv_ffbm_allocate_block fb = Inr (Some n, taken n fb)"
        using a got(1,5) by (simp add: taken_def)
      from trans [OF divide_got [OF f18 c al ne, symmetric] res]
      have "r = Some n \<and> (\<exists>L. fb' = cut_state i sz n L fb)"
        by (auto simp: Let_def cbind_eq_Inr_iff split: if_splits)
      then obtain L where "r = Some n" "fb' = cut_state i sz n L fb" by blast
      moreover have "page ?f dvd unat sz" "sz < pt_size ?p" using c f by simp_all
      ultimately show ?thesis using got(2-4) by (intro cut)
    qed
  qed
qed

lemma unat_minus64: "(b::u64) \<le> a \<Longrightarrow> unat (a - b) = unat a - unat b"
  by (simp add: unat_sub)

lemma cut_blocks:
  assumes ok: "ffbm_ok fb" and s: "fb_spa fb = us @ i # vs" and n: "n \<notin> set (fb_spa fb)"
    and lt: "sz < pt_size (fb_pt fb i)"
  shows "ffbm_blocks (cut_state i sz n L fb) = map (\<lambda>j. pt_block (fb_pt fb j)) us @
      (unat (pt_spa (fb_pt fb i)), unat (pt_spa (fb_pt fb i)) + unat sz) #
      (unat (pt_spa (fb_pt fb i)) + unat sz, snd (pt_block (fb_pt fb i))) #
      map (\<lambda>j. pt_block (fb_pt fb j)) vs"
proof -
  have d: "i \<notin> set us" "i \<notin> set vs" "n \<notin> set us" "n \<notin> set vs" "n \<noteq> i"
    using ffbm_okD(2) [OF ok] n s by auto
  have b: "unat (pt_spa (fb_pt fb i)) + unat (pt_size (fb_pt fb i)) < 2 ^ 64"
    using pteb_bounds(2) [OF ok] s by simp
  have l: "unat sz < unat (pt_size (fb_pt fb i))" using lt by (simp add: word_less_nat_alt)
  have "unat (pt_spa (fb_pt fb i) + sz) = unat (pt_spa (fb_pt fb i)) + unat sz"
    by (rule unat_plus64) (use b l in linarith)
  moreover have "unat (pt_size (fb_pt fb i) - sz) = unat (pt_size (fb_pt fb i)) - unat sz"
    using lt by (simp add: unat_minus64)
  ultimately show ?thesis using d l
    by (auto simp: ffbm_blocks_def cut_state_def s insert_after_split pt_block_def right_part_def)
qed

lemma cut_ok:
  assumes ok: "ffbm_ok fb" and i: "i \<in> set (fb_spa fb)" and n: "n \<notin> set (fb_spa fb)" "n < 256"
    and sz: "page (fb_default_fragment fb) dvd unat sz" "0 < sz" "sz < pt_size (fb_pt fb i)"
  shows "ffbm_ok (cut_state i sz n L fb)"
proof -
  let ?fb = "cut_state i sz n L fb" and ?f = "page (fb_default_fragment fb)"
  obtain us vs where s: "fb_spa fb = us @ i # vs" and iu: "i \<notin> set us"
    using distinct_split [OF ffbm_okD(2) [OF ok] i] by metis
  have ne: "n \<noteq> i" using i n by auto
  have spa: "fb_spa ?fb = us @ i # n # vs" by (simp add: cut_state_def s insert_after_split iu)
  have pi: "pteb_ok fb i" using ffbm_okD(3) [OF ok i] .
  have b: "unat (pt_spa (fb_pt fb i)) + unat (pt_size (fb_pt fb i)) < 2 ^ 64"
    using pteb_bounds(2) [OF ok i] .
  have l: "unat sz < unat (pt_size (fb_pt fb i))" using sz by (simp add: word_less_nat_alt)
  have u1: "unat (pt_spa (fb_pt fb i) + sz) = unat (pt_spa (fb_pt fb i)) + unat sz"
    by (rule unat_plus64) (use b l in linarith)
  have u2: "unat (pt_size (fb_pt fb i) - sz) = unat (pt_size (fb_pt fb i)) - unat sz"
    using sz by (simp add: unat_minus64)
  have "pteb_ok ?fb i"
    using pi sz ne by (simp add: pteb_ok_def cut_state_def word_less_nat_alt)
  moreover have "pteb_ok ?fb n"
    using pi sz(1) l ne n by (simp add: pteb_ok_def cut_state_def right_part_def u1 u2 dvd_diff_nat)
  moreover have "pteb_ok ?fb j" if "j \<in> set (fb_spa fb)" "j \<noteq> i" for j
  proof -
    have "j \<noteq> n" using that n by auto
    then show ?thesis using that ffbm_okD(3) [OF ok that(1)] by (simp add: pteb_ok_def cut_state_def)
  qed
  ultimately have "\<forall>j \<in> set (fb_spa ?fb). pteb_ok ?fb j" using spa s by auto
  moreover have "ordered_from 0 (ffbm_blocks ?fb) \<and> block_end 0 (ffbm_blocks ?fb) \<le> ffbm_limit ?fb"
  proof -
    have "ffbm_blocks fb = map (\<lambda>j. pt_block (fb_pt fb j)) us @ pt_block (fb_pt fb i) #
        map (\<lambda>j. pt_block (fb_pt fb j)) vs"
      by (simp add: ffbm_blocks_def s)
    with ffbm_okD(4,5) [OF ok] l show ?thesis
      unfolding cut_blocks [OF ok s n(1) sz(3)]
      by (auto simp: ordered_from_append pt_block_def ffbm_limit_def cut_state_def)
  qed
  moreover have "distinct (fb_spa ?fb)" using ffbm_okD(2) [OF ok] n s spa by auto
  ultimately show ?thesis using ffbm_okD(1) [OF ok] by (simp add: ffbm_ok_def cut_state_def)
qed

section \<open>Cutting out a range\<close>

text \<open>The blocks follow each other without a gap.\<close>

fun contiguous_from :: "nat \<Rightarrow> block list \<Rightarrow> bool" where
  "contiguous_from h [] = True"
| "contiguous_from h ((lo, hi) # bs) = (lo = h \<and> contiguous_from hi bs)"

lemma contiguous_append:
  "contiguous_from h (bs @ cs) \<longleftrightarrow> contiguous_from h bs \<and> contiguous_from (block_end h bs) cs"
  by (induction h bs rule: contiguous_from.induct) auto

text \<open>The table tiles the frame buffer.\<close>

definition tiled :: "amdgv_ffbm \<Rightarrow> bool" where
  "tiled fb \<longleftrightarrow> contiguous_from 0 (ffbm_blocks fb) \<and> block_end 0 (ffbm_blocks fb) = ffbm_limit fb"

definition only_blocks :: "amdgv_ffbm \<Rightarrow> amdgv_ffbm \<Rightarrow> bool" where
  "only_blocks fb fb' \<longleftrightarrow> fb' = fb\<lparr>fb_used := fb_used fb', fb_pt := fb_pt fb', fb_spa := fb_spa fb',
     fb_gpa := fb_gpa fb'\<rparr>"

lemma only_blocks_refl [simp]: "only_blocks fb fb"
  by (simp add: only_blocks_def)

lemma only_blocks_config:
  assumes "only_blocks fb fb'"
  shows "same_config fb fb'" "fb_mem fb' = fb_mem fb" "fb_trace fb' = fb_trace fb"
    "fb_bad_block_count fb' = fb_bad_block_count fb"
    "fb_reserved_block_count fb' = fb_reserved_block_count fb"
  by (subst assms [unfolded only_blocks_def]; simp add: same_config_def)+

lemma only_blocks_trans: "only_blocks a b \<Longrightarrow> only_blocks b c \<Longrightarrow> only_blocks a c"
  unfolding only_blocks_def by (erule ssubst, erule ssubst) simp

lemma only_blocks_cut [simp]: "only_blocks fb (cut_state i sz n L fb)"
  by (simp add: only_blocks_def cut_state_def)

text \<open>The block \<open>i\<close> has been divided: every other block is as it was.\<close>

definition piece_of :: "amdgv_ffbm_pte_block \<Rightarrow> amdgv_ffbm_pte_block \<Rightarrow> bool" where
  "piece_of p q \<longleftrightarrow> pt_fragment q = pt_fragment p \<and> pt_permission q = pt_permission p \<and>
     pt_vf_idx q = pt_vf_idx p \<and> pt_type q = pt_type p \<and> pt_applied q = pt_applied p"

definition split_of :: "nat \<Rightarrow> amdgv_ffbm \<Rightarrow> amdgv_ffbm \<Rightarrow> bool" where
  "split_of i fb fb' \<longleftrightarrow> i \<in> set (fb_spa fb) \<and> only_blocks fb fb' \<and> ffbm_ok fb' \<and> (tiled fb \<longrightarrow> tiled fb') \<and>
     set (fb_spa fb) \<subseteq> set (fb_spa fb') \<and>
     (\<forall>j \<in> set (fb_spa fb) - {i}. fb_pt fb' j = fb_pt fb j) \<and>
     (\<forall>j \<in> set (fb_spa fb') - set (fb_spa fb) \<union> {i}. piece_of (fb_pt fb i) (fb_pt fb' j))"

lemma piece_of_refl [simp]: "piece_of p p"
  by (simp add: piece_of_def)

lemma piece_of_trans: "piece_of p q \<Longrightarrow> piece_of q r \<Longrightarrow> piece_of p r"
  by (simp add: piece_of_def)

lemma split_of_refl: "ffbm_ok fb \<Longrightarrow> i \<in> set (fb_spa fb) \<Longrightarrow> split_of i fb fb"
  by (simp add: split_of_def)

lemma split_of_trans:
  assumes 1: "split_of i fb fb1" and 2: "split_of m fb1 fb2"
    and m: "m = i \<or> m \<in> set (fb_spa fb1) - set (fb_spa fb)"
  shows "split_of i fb fb2"
proof -
  have p1: "piece_of (fb_pt fb i) (fb_pt fb1 j)" if "j \<in> set (fb_spa fb1) - set (fb_spa fb) \<union> {i}" for j
    using 1 that unfolding split_of_def by blast
  have p2: "piece_of (fb_pt fb1 m) (fb_pt fb2 j)" if "j \<in> set (fb_spa fb2) - set (fb_spa fb1) \<union> {m}" for j
    using 2 that unfolding split_of_def by blast
  have k1: "fb_pt fb1 j = fb_pt fb j" if "j \<in> set (fb_spa fb)" "j \<noteq> i" for j
    using 1 that by (simp add: split_of_def)
  have k2: "fb_pt fb2 j = fb_pt fb1 j" if "j \<in> set (fb_spa fb1)" "j \<noteq> m" for j
    using 2 that by (simp add: split_of_def)
  have sub: "set (fb_spa fb) \<subseteq> set (fb_spa fb1)" "set (fb_spa fb1) \<subseteq> set (fb_spa fb2)"
    using 1 2 by (simp_all add: split_of_def)
  have pm: "piece_of (fb_pt fb i) (fb_pt fb1 m)" using m p1 by blast
  have "fb_pt fb2 j = fb_pt fb j" if j: "j \<in> set (fb_spa fb)" "j \<noteq> i" for j
  proof -
    have "j \<noteq> m" using m j by blast
    with j sub k1 k2 show ?thesis by (metis subsetD)
  qed
  moreover have "piece_of (fb_pt fb i) (fb_pt fb2 j)"
    if j: "j \<in> set (fb_spa fb2) - set (fb_spa fb) \<union> {i}" for j
  proof (cases "j \<in> set (fb_spa fb2) - set (fb_spa fb1) \<union> {m}")
    case True
    from piece_of_trans [OF pm p2 [OF True]] show ?thesis .
  next
    case False
    show ?thesis
    proof (cases "j \<in> set (fb_spa fb1)")
      case in1: True
      with False k2 have "fb_pt fb2 j = fb_pt fb1 j" by simp
      with p1 [of j] in1 j show ?thesis by auto
    next
      case out: False
      with False j have "j = i" by auto
      with out sub 1 show ?thesis by (auto simp: split_of_def)
    qed
  qed
  ultimately show ?thesis
    using 1 2 only_blocks_trans sub unfolding split_of_def by blast
qed

lemma split_of_D:
  assumes "split_of i fb fb'"
  shows "ffbm_ok fb'" "only_blocks fb fb'" "tiled fb \<Longrightarrow> tiled fb'"
    "set (fb_spa fb) \<subseteq> set (fb_spa fb')" "i \<in> set (fb_spa fb')" "same_config fb fb'"
    "\<And>j. j \<in> set (fb_spa fb) \<Longrightarrow> j \<noteq> i \<Longrightarrow> fb_pt fb' j = fb_pt fb j"
    "\<And>j. j \<in> set (fb_spa fb') \<Longrightarrow> j \<notin> set (fb_spa fb) \<or> j = i \<Longrightarrow> piece_of (fb_pt fb i) (fb_pt fb' j)"
  using assms only_blocks_config(1) by (auto simp: split_of_def)

lemma cut_split_of:
  assumes ok: "ffbm_ok fb" and i: "i \<in> set (fb_spa fb)" and n: "n \<notin> set (fb_spa fb)" "n < 256"
    and sz: "page (fb_default_fragment fb) dvd unat sz" "0 < sz" "sz < pt_size (fb_pt fb i)"
  shows "split_of i fb (cut_state i sz n L fb)"
proof -
  let ?fb = "cut_state i sz n L fb"
  obtain us vs where s: "fb_spa fb = us @ i # vs" and iu: "i \<notin> set us"
    using distinct_split [OF ffbm_okD(2) [OF ok] i] by metis
  have ne: "n \<noteq> i" using i n by auto
  have spa: "fb_spa ?fb = us @ i # n # vs" by (simp add: cut_state_def s insert_after_split iu)
  have "tiled fb \<longrightarrow> tiled ?fb"
  proof
    have b: "ffbm_blocks fb = map (\<lambda>j. pt_block (fb_pt fb j)) us @ pt_block (fb_pt fb i) #
        map (\<lambda>j. pt_block (fb_pt fb j)) vs"
      by (simp add: ffbm_blocks_def s)
    assume "tiled fb"
    then show "tiled ?fb" unfolding tiled_def cut_blocks [OF ok s n(1) sz(3)] b
      by (auto simp: contiguous_append pt_block_def ffbm_limit_def cut_state_def)
  qed
  moreover have "\<forall>j \<in> set (fb_spa fb) - {i}. fb_pt ?fb j = fb_pt fb j"
    using n by (auto simp: cut_state_def)
  moreover have "\<forall>j \<in> set (fb_spa ?fb) - set (fb_spa fb) \<union> {i}. piece_of (fb_pt fb i) (fb_pt ?fb j)"
    using ne unfolding spa s by (auto simp: cut_state_def piece_of_def right_part_def)
  moreover have "set (fb_spa fb) \<subseteq> set (fb_spa ?fb)" unfolding spa s by auto
  ultimately show ?thesis using cut_ok [OF assms] i by (simp add: split_of_def)
qed

lemma divide_split_of:
  assumes ok: "ffbm_ok fb" and i: "i \<in> set (fb_spa fb)" and sz: "0 < sz"
    and res: "amdgv_ffbm_pteb_divide_size i sz fb = Inr (r, fb')"
  shows "split_of i fb fb'"
  using ok i res
proof (cases rule: divide_cases)
  case (cut n L)
  then show ?thesis using cut_split_of [OF ok i] sz by simp
qed (use split_of_refl [OF ok i] in simp_all)

text \<open>What \<^verbatim>\<open>amdgv_ffbm_pteb_hole_by_phy\<close> returns: a block that starts at the address asked for
  and is of the size asked for, unless the pool had no block left for the rest.\<close>

lemma hole_cases:
  assumes ok: "ffbm_ok fb" and i: "i \<in> set (fb_spa fb)"
    and sz: "page (fb_default_fragment fb) dvd unat sz" "0 < sz" "unat spa + unat sz \<le> 2 ^ 64"
    and res: "amdgv_ffbm_pteb_hole_by_phy i spa sz fb = Inr (r, fb')"
  shows "split_of i fb fb' \<and> (case r of None \<Rightarrow> True | Some m \<Rightarrow>
    m \<in> set (fb_spa fb') \<and> (m = i \<or> m \<notin> set (fb_spa fb)) \<and> pt_spa (fb_pt fb' m) = spa \<and>
    (pt_size (fb_pt fb' m) = sz \<or>
     sz < pt_size (fb_pt fb' m) \<and> (\<forall>n < 256. fb_used fb' n)))"
proof -
  let ?p = "fb_pt fb i" and ?f = "fb_default_fragment fb"
  have f: "pt_fragment ?p = ?f" and f18: "unat ?f \<le> 18"
    using ffbm_okD(1,3) [OF ok] i by (auto simp: pteb_ok_def)
  have ceil: "AMDGV_FFBM_PAGE_ALIGN_CEIL sz (pt_fragment ?p) = sz"
    unfolding f by (rule PAGE_ALIGN_CEIL_fix [OF f18 sz(1)])
  show ?thesis
  proof (cases "AMDGV_FFBM_ADDR_SIZE_IN_RANGE (pt_spa ?p) (pt_size ?p) spa sz")
    case False
    with res have "r = None" "fb' = fb" by (simp_all add: amdgv_ffbm_pteb_hole_by_phy_def ceil)
    then show ?thesis using split_of_refl [OF ok i] by simp
  next
    case True
    have b: "unat (pt_spa ?p) + unat (pt_size ?p) < 2 ^ 64" by (rule pteb_bounds(2) [OF ok i])
    have e: "unat (spa + sz - 1) = unat spa + unat sz - 1"
    proof -
      have "0 < unat sz" using sz(2) by (simp add: word_less_nat_alt)
      moreover from this have "unat (sz - 1) = unat sz - 1"
        using unat_sub [of 1 sz] by (simp add: word_le_nat_alt)
      ultimately have "unat (spa + (sz - 1)) = unat spa + (unat sz - 1)"
        using sz(3) unat_plus64 [of spa "sz - 1"] by linarith
      then show ?thesis using \<open>0 < unat sz\<close> by (simp add: algebra_simps)
    qed
    have r1: "unat (pt_spa ?p) \<le> unat spa" "unat spa + unat sz \<le> unat (pt_spa ?p) + unat (pt_size ?p)"
      using True sz(2) unfolding AMDGV_FFBM_ADDR_SIZE_IN_RANGE_def ADDR_IN_RANGE_iff [OF b] e
      by (auto simp: word_less_nat_alt)
    let ?left = "if pt_spa ?p < spa then amdgv_ffbm_pteb_divide_size i (spa - pt_spa ?p) fb
      else Inr (Some i, fb)"
    from res True obtain q fb1 where l: "?left = Inr (q, fb1)"
      and k: "(case q of None \<Rightarrow> Inr (None, fb1)
        | Some m \<Rightarrow> if sz < pt_size (fb_pt fb1 m)
            then cbind (amdgv_ffbm_pteb_divide_size m sz fb1) (\<lambda>(_, fb). Inr (Some m, fb))
            else Inr (Some m, fb1)) = Inr (r, fb')"
      unfolding amdgv_ffbm_pteb_hole_by_phy_def ceil Let_def by (auto elim!: cbind_InrE)
    have left: "split_of i fb fb1 \<and> (q = None \<or> (\<exists>m. q = Some m \<and> m \<in> set (fb_spa fb1) \<and>
        (m = i \<or> m \<notin> set (fb_spa fb)) \<and> pt_spa (fb_pt fb1 m) = spa \<and> sz \<le> pt_size (fb_pt fb1 m)))"
    proof (cases "pt_spa ?p < spa")
      case lt: True
      have d: "unat (spa - pt_spa ?p) = unat spa - unat (pt_spa ?p)" using lt by (simp add: unat_minus64)
      have pos: "0 < spa - pt_spa ?p" using lt d by (simp add: word_less_nat_alt)
      from l lt have l': "amdgv_ffbm_pteb_divide_size i (spa - pt_spa ?p) fb = Inr (q, fb1)" by simp
      from divide_split_of [OF ok i pos l'] have so: "split_of i fb fb1" .
      from ok i l' have "q = None \<or> (\<exists>m. q = Some m \<and> m \<in> set (fb_spa fb1) \<and>
        (m = i \<or> m \<notin> set (fb_spa fb)) \<and> pt_spa (fb_pt fb1 m) = spa \<and> sz \<le> pt_size (fb_pt fb1 m))"
      proof (cases rule: divide_cases)
        case whole
        have "unat (pt_size ?p) \<le> unat spa - unat (pt_spa ?p)"
          using whole(3) d by (simp add: word_le_nat_alt)
        with r1 sz(2) have False by (simp add: word_less_nat_alt)
        then show ?thesis ..
      next
        case (cut n L)
        have ne: "n \<noteq> i" using cut(5) i by auto
        have "unat (pt_size ?p - (spa - pt_spa ?p)) = unat (pt_size ?p) - (unat spa - unat (pt_spa ?p))"
          using cut(4) d by (simp add: unat_minus64)
        then have "sz \<le> pt_size ?p - (spa - pt_spa ?p)" using r1 by (simp add: word_le_nat_alt)
        with cut ne i show ?thesis
          by (simp add: cut_state_def right_part_def set_insert_after)
      qed simp_all
      with so show ?thesis by simp
    next
      case False
      with l have "q = Some i" "fb1 = fb" by simp_all
      moreover have "pt_spa ?p = spa" using False r1(1) by (simp add: word_less_nat_alt word_unat_eq_iff)
      moreover have "sz \<le> pt_size ?p" using r1 \<open>pt_spa ?p = spa\<close> by (simp add: word_le_nat_alt)
      ultimately show ?thesis using split_of_refl [OF ok i] i by simp
    qed
    show ?thesis
    proof (cases "q = None")
      case True
      with k left show ?thesis by simp
    next
      case False
      with left obtain m where so: "split_of i fb fb1" and q: "q = Some m"
        and m: "m \<in> set (fb_spa fb1)" "m = i \<or> m \<notin> set (fb_spa fb)"
        and spa: "pt_spa (fb_pt fb1 m) = spa" and le: "sz \<le> pt_size (fb_pt fb1 m)" by blast
      note ok1 = split_of_D(1) [OF so]
      have f1: "fb_default_fragment fb1 = ?f" using split_of_D(6) [OF so] by (simp add: same_config_def)
      show ?thesis
      proof (cases "sz < pt_size (fb_pt fb1 m)")
        case False
        with k q have "r = Some m" "fb' = fb1" by simp_all
        with so m spa le False show ?thesis by simp
      next
        case lt: True
        with k q obtain r2 where d2: "amdgv_ffbm_pteb_divide_size m sz fb1 = Inr (r2, fb')" and r: "r = Some m"
          by (auto elim!: cbind_InrE)
        note so2 = divide_split_of [OF ok1 m(1) sz(2) d2]
        have so': "split_of i fb fb'" using split_of_trans [OF so so2] m by blast
        from ok1 m(1) d2 have "pt_spa (fb_pt fb' m) = spa \<and> (pt_size (fb_pt fb' m) = sz \<or>
            sz < pt_size (fb_pt fb' m) \<and> (\<forall>n < 256. fb_used fb' n))"
        proof (cases rule: divide_cases)
          case unaligned
          with sz(1) f1 show ?thesis by simp
        next
          case full
          with lt spa show ?thesis by simp
        next
          case whole
          with lt show ?thesis by simp
        next
          case (cut n L)
          then have "n \<noteq> m" using m(1) by auto
          with cut spa show ?thesis by (simp add: cut_state_def)
        qed
        with so' m r split_of_D(4) [OF so2] show ?thesis by auto
      qed
    qed
  qed
qed

section \<open>The operations keep the table in order\<close>

lemma ordered_shrink:
  assumes "ordered_from h (map f xs)"
    and "\<And>x. x \<in> set xs \<Longrightarrow> fst (g x) = fst (f x) \<and> fst (f x) \<le> snd (g x) \<and> snd (g x) \<le> snd (f x)"
  shows "ordered_from h (map g xs) \<and> block_end h (map g xs) \<le> block_end h (map f xs)"
  using assms
proof (induction xs arbitrary: h)
  case Nil
  then show ?case by simp
next
  case (Cons x xs)
  have ih: "ordered_from (snd (f x)) (map g xs) \<and>
      block_end (snd (f x)) (map g xs) \<le> block_end (snd (f x)) (map f xs)"
    using Cons by (simp add: ordered_from_Cons)
  have x: "fst (g x) = fst (f x)" "fst (f x) \<le> snd (g x)" "snd (g x) \<le> snd (f x)"
    using Cons.prems(2) [of x] by simp_all
  have "ordered_from (snd (g x)) (map g xs)" using ih x(3) ordered_from_mono by blast
  moreover have "block_end (snd (g x)) (map g xs) \<le> block_end (snd (f x)) (map g xs)"
    using x(3) by (cases xs) (simp_all add: block_end_Cons)
  moreover have "h \<le> fst (g x)" using Cons.prems(1) x(1) by (simp add: ordered_from_Cons)
  ultimately show ?case using ih x by (simp add: ordered_from_Cons block_end_Cons)
qed

text \<open>Blocks that start where they did and are not longer.\<close>

lemma ffbm_ok_shrink:
  assumes ok: "ffbm_ok fb" and s: "fb_spa fb' = fb_spa fb"
    and p: "\<And>i. i \<in> set (fb_spa fb) \<Longrightarrow> pteb_ok fb' i \<and> pt_spa (fb_pt fb' i) = pt_spa (fb_pt fb i) \<and>
      unat (pt_size (fb_pt fb' i)) \<le> unat (pt_size (fb_pt fb i))"
    and c: "fb_default_fragment fb' = fb_default_fragment fb"
      "fb_total_physical_size fb' = fb_total_physical_size fb"
  shows "ffbm_ok fb'"
proof -
  have "ordered_from 0 (ffbm_blocks fb') \<and> block_end 0 (ffbm_blocks fb') \<le> block_end 0 (ffbm_blocks fb)"
    unfolding ffbm_blocks_def s
    by (rule ordered_shrink [OF ffbm_okD(4) [OF ok, unfolded ffbm_blocks_def]])
      (simp add: pt_block_def p)
  moreover have "ffbm_limit fb' = ffbm_limit fb" by (simp add: ffbm_limit_def c)
  ultimately show ?thesis using ffbm_okD [OF ok] p s c by (auto simp: ffbm_ok_def)
qed

lemma update_ok:
  assumes ok: "ffbm_ok fb"
    and m: "m \<in> set (fb_spa fb) \<Longrightarrow> spa = pt_spa (fb_pt fb m) \<and> sz \<le> pt_size (fb_pt fb m) \<and>
      0 < sz \<and> page (fb_default_fragment fb) dvd unat sz \<and> f = fb_default_fragment fb"
  shows "ffbm_ok (amdgv_ffbm_pteb_update m gpa spa sz f vf perm type app fb)"
proof (rule ffbm_ok_shrink [OF ok])
  fix i
  assume i: "i \<in> set (fb_spa fb)"
  let ?fb = "amdgv_ffbm_pteb_update m gpa spa sz f vf perm type app fb"
  show "pteb_ok ?fb i \<and> pt_spa (fb_pt ?fb i) = pt_spa (fb_pt fb i) \<and>
      unat (pt_size (fb_pt ?fb i)) \<le> unat (pt_size (fb_pt fb i))"
    using ffbm_okD(3) [OF ok i] m i
    by (auto simp: amdgv_ffbm_pteb_update_def pteb_ok_def word_le_nat_alt word_less_nat_alt)
qed (simp_all add: amdgv_ffbm_pteb_update_def)

lemma update_simps [simp]:
  "fb_spa (amdgv_ffbm_pteb_update m gpa spa sz f vf perm type app fb) = fb_spa fb"
  "fb_used (amdgv_ffbm_pteb_update m gpa spa sz f vf perm type app fb) = fb_used fb"
  "fb_gpa (amdgv_ffbm_pteb_update m gpa spa sz f vf perm type app fb) = fb_gpa fb"
  "fb_mem (amdgv_ffbm_pteb_update m gpa spa sz f vf perm type app fb) = fb_mem fb"
  "fb_default_fragment (amdgv_ffbm_pteb_update m gpa spa sz f vf perm type app fb) = fb_default_fragment fb"
  "fb_pt (amdgv_ffbm_pteb_update m gpa spa sz f vf perm type app fb) m =
     \<lparr>pt_gpa = gpa, pt_spa = spa, pt_size = sz, pt_fragment = f, pt_permission = perm,
      pt_vf_idx = vf, pt_type = type, pt_applied = app\<rparr>"
  "j \<noteq> m \<Longrightarrow> fb_pt (amdgv_ffbm_pteb_update m gpa spa sz f vf perm type app fb) j = fb_pt fb j"
  by (simp_all add: amdgv_ffbm_pteb_update_def)

lemma only_blocks_update [simp]:
  "only_blocks fb (amdgv_ffbm_pteb_update m gpa spa sz f vf perm type app fb)"
  by (simp add: only_blocks_def amdgv_ffbm_pteb_update_def)

text \<open>Linking a block into the list of its function changes only the links.\<close>

lemma insert_node_only:
  assumes "amdgv_ffbm_insert_new_ffbm_node n fb = Inr fb'"
  shows "\<exists>L. fb' = fb\<lparr>fb_gpa := L\<rparr>"
  using assms by (auto simp: amdgv_ffbm_insert_new_ffbm_node_def Let_def cbind_eq_Inr_iff)

lemma ffbm_ok_gpa [simp]: "ffbm_ok (fb\<lparr>fb_gpa := L\<rparr>) = ffbm_ok fb"
  by (simp add: ffbm_ok_def ffbm_blocks_def ffbm_limit_def pteb_ok_def)

lemma tiled_gpa [simp]: "tiled (fb\<lparr>fb_gpa := L\<rparr>) = tiled fb"
  by (simp add: tiled_def ffbm_blocks_def ffbm_limit_def)

lemma only_blocks_gpa [simp]: "only_blocks fb (fb\<lparr>fb_gpa := L\<rparr>)"
  by (simp add: only_blocks_def)

lemma tiled_cong:
  assumes "fb_spa fb' = fb_spa fb" and "fb_total_physical_size fb' = fb_total_physical_size fb"
    and "\<And>i. i \<in> set (fb_spa fb) \<Longrightarrow> pt_spa (fb_pt fb' i) = pt_spa (fb_pt fb i) \<and>
      pt_size (fb_pt fb' i) = pt_size (fb_pt fb i)"
  shows "tiled fb' = tiled fb"
proof -
  have "ffbm_blocks fb' = ffbm_blocks fb"
    unfolding ffbm_blocks_def assms(1) by (rule map_cong) (simp_all add: pt_block_def assms(3))
  then show ?thesis by (simp add: tiled_def ffbm_limit_def assms(2))
qed

lemma update_tiled:
  assumes "m \<in> set (fb_spa fb) \<Longrightarrow> spa = pt_spa (fb_pt fb m) \<and> sz = pt_size (fb_pt fb m)"
  shows "tiled (amdgv_ffbm_pteb_update m gpa spa sz f vf perm type app fb) = tiled fb"
  by (rule tiled_cong) (use assms in \<open>auto simp: amdgv_ffbm_pteb_update_def\<close>)

lemma find_by_phy_spec:
  "amdgv_ffbm_find_pteb_by_phy fb spa = Some i \<Longrightarrow> i \<in> set (fb_spa fb) \<and>
     AMDGV_FFBM_ADDR_IN_RANGE (pt_spa (fb_pt fb i)) (pt_size (fb_pt fb i)) spa"
  by (auto simp: amdgv_ffbm_find_pteb_by_phy_def find_Some_iff)

lemma find_empty_spec:
  "amdgv_ffbm_find_empty_pteb fb n = Some i \<Longrightarrow> i \<in> set (fb_spa fb) \<and>
     pt_type (fb_pt fb i) = AMDGV_FFBM_MEM_TYPE_NOT_ASSIGNED"
  by (auto simp: amdgv_ffbm_find_empty_pteb_def find_Some_iff)

definition pool_full :: "amdgv_ffbm \<Rightarrow> bool" where
  "pool_full fb \<longleftrightarrow> (\<forall>n < 256. fb_used fb n)"

text \<open>What an operation that only regroups blocks guarantees.\<close>

definition keeps :: "amdgv_ffbm \<Rightarrow> amdgv_ffbm \<Rightarrow> bool" where
  "keeps fb fb' \<longleftrightarrow> ffbm_ok fb' \<and> same_config fb fb'"

lemma keeps_refl: "ffbm_ok fb \<Longrightarrow> keeps fb fb"
  by (simp add: keeps_def)

lemma keeps_trans: "keeps a b \<Longrightarrow> keeps b c \<Longrightarrow> keeps a c"
  using same_config_trans by (auto simp: keeps_def)

lemma insert_node_keeps:
  assumes "amdgv_ffbm_insert_new_ffbm_node n fb = Inr fb'" and "ffbm_ok fb"
  shows "keeps fb fb'" "tiled fb' = tiled fb"
  using insert_node_only [OF assms(1)] assms(2) by (auto simp: keeps_def same_config_def)

lemma create_keeps:
  assumes "amdgv_ffbm_create_new_pteb i gpa spa sz vf perm type fb = Inr (r, fb')" and ok: "ffbm_ok fb"
  shows "keeps fb fb' \<and> (tiled fb \<longrightarrow> tiled fb')"
proof -
  from assms(1) obtain q fb1 where a: "amdgv_ffbm_allocate_block fb = Inr (q, fb1)"
    and k: "(case q of None \<Rightarrow> Inr (None, fb1) | Some n \<Rightarrow> Inr (Some n,
      amdgv_ffbm_pteb_init n gpa spa sz (pt_fragment (fb_pt fb1 i)) vf perm type False fb1)) =
      (Inr (r, fb') :: (nat option \<times> amdgv_ffbm) cres)"
    by (auto simp: amdgv_ffbm_create_new_pteb_def cbind_eq_Inr_iff)
  from a show ?thesis
  proof (cases rule: alloc_cases)
    case full
    with k ok show ?thesis by (simp add: keeps_def)
  next
    case (got n)
    have s: "fb_spa fb' = fb_spa fb" and c: "same_config fb fb'"
      using k unfolding got(1,5)
      by (auto simp: amdgv_ffbm_pteb_init_def amdgv_ffbm_pteb_update_def same_config_def)
    have p: "fb_pt fb' j = fb_pt fb j" if "j \<in> set (fb_spa fb)" for j
      using k that got(3) unfolding got(1,5)
      by (auto simp: amdgv_ffbm_pteb_init_def amdgv_ffbm_pteb_update_def)
    have "ffbm_ok fb'" by (rule ffbm_ok_cong [OF ok s]) (use c p in \<open>auto simp: same_config_def\<close>)
    moreover have "tiled fb' = tiled fb"
      by (rule tiled_cong [OF s]) (use c p in \<open>auto simp: same_config_def\<close>)
    ultimately show ?thesis using c by (simp add: keeps_def)
  qed
qed

lemma manual_map_keeps:
  assumes ok: "ffbm_ok fb" and sz: "0 < sz" "unat spa + unat sz \<le> 2 ^ 64"
    and res: "amdgv_ffbm_manual_map vf sz gpa spa perm type fb = Inr (r, fb')"
  shows "keeps fb fb' \<and> (tiled fb \<and> \<not> pool_full fb' \<longrightarrow> tiled fb')"
proof -
  have triv: "keeps fb fb \<and> (tiled fb \<and> \<not> pool_full fb \<longrightarrow> tiled fb)" using ok by (simp add: keeps_def)
  show ?thesis
  proof (cases "AMDGV_FFBM_MAP_SIZE_VALID sz (fb_default_fragment fb) = 0")
    case False
    with res triv show ?thesis by (simp add: amdgv_ffbm_manual_map_def)
  next
    case al: True
    from res al obtain g where g: "(if type = AMDGV_FFBM_MEM_TYPE_VF
        then is_gpaess_valid fb sz gpa vf else Inr True) = Inr g"
      by (auto simp: amdgv_ffbm_manual_map_def cbind_eq_Inr_iff)
    show ?thesis
    proof (cases "g \<and> (\<exists>i. amdgv_ffbm_find_pteb_by_phy fb spa = Some i)")
      case False
      with res al g triv show ?thesis by (auto simp: amdgv_ffbm_manual_map_def split: option.splits)
    next
      case True
      then obtain i where fnd: "amdgv_ffbm_find_pteb_by_phy fb spa = Some i" and g': g by blast
      have i: "i \<in> set (fb_spa fb)" using find_by_phy_spec [OF fnd] by blast
      let ?p = "fb_pt fb i"
      consider (reject) "r = AMDGV_FFBM_ERROR_BAD_ADDR" "fb' = fb"
        | (tmr) q fb1 where "amdgv_ffbm_create_new_pteb i (MBYTES_TO_BYTES AMDGV_FFBM_FB_TMR_OFFSET)
                      (MBYTES_TO_BYTES AMDGV_FFBM_FB_TMR_OFFSET)
                      (MBYTES_TO_BYTES (ucast (fb_tmr_size fb))) vf perm
                      AMDGV_FFBM_MEM_TYPE_TMR fb = Inr (q, fb1)"
            "fb' = fb1 \<or> (\<exists>n. amdgv_ffbm_insert_new_ffbm_node n fb1 = Inr fb')"
        | (hole) q fb1 where "amdgv_ffbm_pteb_hole_by_phy i spa sz fb = Inr (q, fb1)"
            "case q of None \<Rightarrow> fb' = fb1 | Some m \<Rightarrow>
               let fb2 = amdgv_ffbm_pteb_update m gpa spa sz (fb_default_fragment fb1) vf perm type False fb1
               in fb' = fb2 \<or> amdgv_ffbm_insert_new_ffbm_node m fb2 = Inr fb'"
        using res al g g' fnd
        apply (auto simp: amdgv_ffbm_manual_map_def Let_def cbind_eq_Inr_iff split: if_splits option.splits)
        subgoal for q by (cases q) auto
        subgoal for q by (cases q) auto
        done
      then show ?thesis
      proof cases
        case reject
        with triv show ?thesis by simp
      next
        case tmr
        note c = create_keeps [OF tmr(1) ok]
        from tmr(2) show ?thesis
          using c insert_node_keeps keeps_trans by (auto simp: keeps_def)
      next
        case hole
        have al': "page (fb_default_fragment fb) dvd unat sz" using al by (simp add: MAP_SIZE_VALID_iff)
        note h = hole_cases [OF ok i al' sz hole(1)]
        have so: "split_of i fb fb1" using h by simp
        note d = split_of_D [OF so]
        have k1: "keeps fb fb1" using d(1,6) by (simp add: keeps_def)
        show ?thesis
        proof (cases q)
          case None
          with hole(2) k1 d(3) show ?thesis by simp
        next
          case (Some m)
          define fb2 where "fb2 = amdgv_ffbm_pteb_update m gpa spa sz (fb_default_fragment fb1) vf perm type False fb1"
          have m: "m \<in> set (fb_spa fb1)" "pt_spa (fb_pt fb1 m) = spa"
            "pt_size (fb_pt fb1 m) = sz \<or> sz < pt_size (fb_pt fb1 m) \<and> pool_full fb1"
            using h Some by (auto simp: pool_full_def)
          have f1: "fb_default_fragment fb1 = fb_default_fragment fb" using d(6) by (simp add: same_config_def)
          have ok2: "ffbm_ok fb2" unfolding fb2_def
            by (rule update_ok [OF d(1)]) (use m sz al' f1 in auto)
          have k2: "keeps fb1 fb2" using ok2 only_blocks_config(1) unfolding fb2_def keeps_def by simp
          have t2: "tiled fb2" if "tiled fb" "\<not> pool_full fb1"
            using that m d(3) unfolding fb2_def by (subst update_tiled) auto
          have u2: "fb_used fb2 = fb_used fb1" by (simp add: fb2_def)
          from hole(2) Some have "fb' = fb2 \<or> amdgv_ffbm_insert_new_ffbm_node m fb2 = Inr fb'"
            by (simp add: Let_def fb2_def)
          then have "keeps fb2 fb' \<and> tiled fb' = tiled fb2 \<and> fb_used fb' = fb_used fb2"
          proof
            assume "fb' = fb2"
            then show ?thesis using keeps_refl [OF ok2] by simp
          next
            assume ins: "amdgv_ffbm_insert_new_ffbm_node m fb2 = Inr fb'"
            from insert_node_only [OF ins] insert_node_keeps [OF ins ok2] show ?thesis by auto
          qed
          then show ?thesis using keeps_trans [OF keeps_trans [OF k1 k2]] t2 u2 by (auto simp: pool_full_def)
        qed
      qed
    qed
  qed
qed

section \<open>Mapping and unmapping\<close>

lemma sint_pos_imp: "0 < sint (x::u64) \<Longrightarrow> 0 < x"
  by (metis signed_0 word_gt_0 less_irrefl)

text \<open>A round of the mapping loop: the free block, or its front part, becomes a block of the VF.\<close>

lemma map_round_cases:
  assumes ok: "ffbm_ok fb" and i: "i \<in> set (fb_spa fb)" and sl: "0 < size_left"
    and res: "map_round vf perm i gpa size_left fb = Inr (gpa', left', fb')"
  obtains fb1 fb2 where "split_of i fb fb1"
    and "fb2 = amdgv_ffbm_pteb_update i gpa (pt_spa (fb_pt fb1 i)) (pt_size (fb_pt fb1 i))
      (pt_fragment (fb_pt fb1 i)) vf perm AMDGV_FFBM_MEM_TYPE_VF False fb1"
    and "amdgv_ffbm_insert_new_ffbm_node i fb2 = Inr fb'"
    and "gpa' = gpa + pt_size (fb_pt fb1 i)" and "left' = size_left - pt_size (fb_pt fb1 i)"
    and "fb1 = fb \<or> pt_size (fb_pt fb1 i) = size_left"
proof -
  from res obtain fb1 where d: "(if size_left < pt_size (fb_pt fb i)
            then cbind (amdgv_ffbm_pteb_divide_size i size_left fb) (\<lambda>(_, fb). Inr fb)
            else Inr fb) = Inr fb1"
    and k: "cbind (amdgv_ffbm_insert_new_ffbm_node i (amdgv_ffbm_pteb_update i gpa
          (pt_spa (fb_pt fb1 i)) (pt_size (fb_pt fb1 i)) (pt_fragment (fb_pt fb1 i)) vf perm
          AMDGV_FFBM_MEM_TYPE_VF False fb1)) (\<lambda>fb.
         Inr (gpa + pt_size (fb_pt fb1 i), size_left - pt_size (fb_pt fb1 i), fb)) =
         Inr (gpa', left', fb')"
    unfolding map_round_def Let_def by (rule cbind_InrE)
  have "split_of i fb fb1 \<and> (fb1 = fb \<or> pt_size (fb_pt fb1 i) = size_left)"
  proof (cases "size_left < pt_size (fb_pt fb i)")
    case False
    with d split_of_refl [OF ok i] show ?thesis by simp
  next
    case True
    with d obtain q where q: "amdgv_ffbm_pteb_divide_size i size_left fb = Inr (q, fb1)"
      by (auto simp: cbind_eq_Inr_iff)
    from ok i q have "fb1 = fb \<or> pt_size (fb_pt fb1 i) = size_left"
    proof (cases rule: divide_cases)
      case (cut n L)
      then show ?thesis by (simp add: cut_state_def)
    qed simp_all
    with divide_split_of [OF ok i sl q] show ?thesis by simp
  qed
  with k show ?thesis by (intro that [of fb1]) (auto simp: cbind_eq_Inr_iff)
qed

lemma map_round_keeps:
  assumes ok: "ffbm_ok fb" and i: "i \<in> set (fb_spa fb)" and sl: "0 < size_left"
    and res: "map_round vf perm i gpa size_left fb = Inr (gpa', left', fb')"
  shows "keeps fb fb' \<and> (tiled fb \<longrightarrow> tiled fb')"
  using assms
proof (cases rule: map_round_cases)
  case (1 fb1 fb2)
  note d = split_of_D [OF 1(1)]
  have p: "pteb_ok fb1 i" using ffbm_okD(3) [OF d(1,5)] .
  have ok2: "ffbm_ok fb2" unfolding 1(2)
    by (rule update_ok [OF d(1)]) (use p in \<open>auto simp: pteb_ok_def word_less_nat_alt\<close>)
  have "tiled fb2 = tiled fb1" unfolding 1(2) by (rule update_tiled) simp
  moreover have "keeps fb1 fb2" using ok2 only_blocks_config(1) unfolding keeps_def 1(2) by simp
  moreover have "keeps fb fb1" using d(1,6) by (simp add: keeps_def)
  ultimately show ?thesis using insert_node_keeps [OF 1(3) ok2] d(3) keeps_trans by blast
qed

lemma map_loop_keeps:
  "ffbm_ok fb \<Longrightarrow> map_loop fuel vf perm gpa size_left fb = Inr (r, fb') \<Longrightarrow>
     keeps fb fb' \<and> (tiled fb \<longrightarrow> tiled fb')"
proof (induction fuel arbitrary: gpa size_left fb)
  case 0
  then show ?case by (auto simp: map_loop.simps [of 0] keeps_refl split: if_splits option.splits)
next
  case (Suc n)
  show ?case
  proof (cases "0 < sint size_left")
    case False
    with Suc.prems show ?thesis by (simp add: map_loop.simps [of "Suc n"] keeps_refl)
  next
    case pos: True
    show ?thesis
    proof (cases "amdgv_ffbm_find_empty_pteb fb 0")
      case None
      with pos Suc.prems show ?thesis by (simp add: map_loop.simps [of "Suc n"] keeps_refl)
    next
      case (Some i)
      with pos Suc.prems(2) obtain gpa1 left1 fb1
        where r: "map_round vf perm i gpa size_left fb = Inr (gpa1, left1, fb1)"
          and l: "map_loop n vf perm gpa1 left1 fb1 = Inr (r, fb')"
        by (auto simp: map_loop.simps [of "Suc n"] cbind_eq_Inr_iff)
      have i: "i \<in> set (fb_spa fb)" using find_empty_spec [OF Some] by simp
      note k = map_round_keeps [OF Suc.prems(1) i sint_pos_imp [OF pos] r]
      have "ffbm_ok fb1" using k by (simp add: keeps_def)
      from Suc.IH [OF this l] k show ?thesis using keeps_trans by blast
    qed
  qed
qed

lemma map_keeps:
  assumes "ffbm_ok fb" and "amdgv_ffbm_map vf gpa sz perm type fb = Inr (r, fb')"
  shows "keeps fb fb' \<and> (tiled fb \<longrightarrow> tiled fb')"
  using assms map_loop_keeps keeps_refl by (auto simp: amdgv_ffbm_map_def split: if_splits)

text \<open>The translation table and the trace are outside the list.\<close>

definition same_blocks :: "amdgv_ffbm \<Rightarrow> amdgv_ffbm \<Rightarrow> bool" where
  "same_blocks fb fb' \<longleftrightarrow> same_config fb fb' \<and> fb_spa fb' = fb_spa fb \<and> fb_gpa fb' = fb_gpa fb \<and>
     fb_used fb' = fb_used fb \<and> fb_mem fb' = fb_mem fb \<and>
     fb_bad_block_count fb' = fb_bad_block_count fb \<and>
     fb_reserved_block_count fb' = fb_reserved_block_count fb \<and>
     (\<forall>i. \<exists>a. fb_pt fb' i = (fb_pt fb i)\<lparr>pt_applied := a\<rparr>)"

lemma same_blocks_refl [simp]: "same_blocks fb fb"
proof -
  have "\<exists>a. fb_pt fb i = (fb_pt fb i)\<lparr>pt_applied := a\<rparr>" for i
    by (rule exI [of _ "pt_applied (fb_pt fb i)"]) simp
  then show ?thesis by (simp add: same_blocks_def)
qed

lemma same_blocks_trans: "same_blocks a b \<Longrightarrow> same_blocks b c \<Longrightarrow> same_blocks a c"
proof -
  assume 1: "same_blocks a b" and 2: "same_blocks b c"
  have "\<exists>x. fb_pt c i = (fb_pt a i)\<lparr>pt_applied := x\<rparr>" for i
  proof -
    obtain x y where "fb_pt b i = (fb_pt a i)\<lparr>pt_applied := x\<rparr>"
      "fb_pt c i = (fb_pt b i)\<lparr>pt_applied := y\<rparr>"
      using 1 2 unfolding same_blocks_def by meson
    then show ?thesis by auto
  qed
  with 1 2 same_config_trans show ?thesis by (auto simp: same_blocks_def)
qed

lemma same_blocks_pt:
  assumes "same_blocks fb fb'"
  shows "pt_gpa (fb_pt fb' i) = pt_gpa (fb_pt fb i)" "pt_spa (fb_pt fb' i) = pt_spa (fb_pt fb i)"
    "pt_size (fb_pt fb' i) = pt_size (fb_pt fb i)" "pt_type (fb_pt fb' i) = pt_type (fb_pt fb i)"
    "pt_fragment (fb_pt fb' i) = pt_fragment (fb_pt fb i)"
    "pt_vf_idx (fb_pt fb' i) = pt_vf_idx (fb_pt fb i)"
    "pt_permission (fb_pt fb' i) = pt_permission (fb_pt fb i)"
proof -
  obtain a where "fb_pt fb' i = (fb_pt fb i)\<lparr>pt_applied := a\<rparr>"
    using assms unfolding same_blocks_def by blast
  then show "pt_gpa (fb_pt fb' i) = pt_gpa (fb_pt fb i)" "pt_spa (fb_pt fb' i) = pt_spa (fb_pt fb i)"
    "pt_size (fb_pt fb' i) = pt_size (fb_pt fb i)" "pt_type (fb_pt fb' i) = pt_type (fb_pt fb i)"
    "pt_fragment (fb_pt fb' i) = pt_fragment (fb_pt fb i)"
    "pt_vf_idx (fb_pt fb' i) = pt_vf_idx (fb_pt fb i)"
    "pt_permission (fb_pt fb' i) = pt_permission (fb_pt fb i)" by simp_all
qed

lemma same_blocks_keeps:
  assumes "same_blocks fb fb'" and "ffbm_ok fb"
  shows "keeps fb fb' \<and> tiled fb' = tiled fb"
proof -
  have c: "same_config fb fb'" "fb_spa fb' = fb_spa fb" using assms(1) by (simp_all add: same_blocks_def)
  have "ffbm_ok fb'"
    by (rule ffbm_ok_cong [OF assms(2) c(2)])
      (use c(1) in \<open>simp_all add: same_blocks_pt [OF assms(1)] same_config_def\<close>)
  moreover have "tiled fb' = tiled fb"
    by (rule tiled_cong [OF c(2)])
      (use c(1) in \<open>simp_all add: same_blocks_pt [OF assms(1)] same_config_def\<close>)
  ultimately show ?thesis using c(1) by (simp add: keeps_def)
qed

lemma apply_same: "same_blocks fb (fst (navi32_ffbm_apply_pteb i v fb))"
proof -
  have "\<exists>a. fb_pt fb j = (fb_pt fb j)\<lparr>pt_applied := a\<rparr>" for j
    by (rule exI [of _ "pt_applied (fb_pt fb j)"]) simp
  then show ?thesis
    by (auto simp: navi32_ffbm_apply_pteb_def same_blocks_def same_config_def)
qed

lemma invalidate_tlb_same: "same_blocks fb (navi32_ffbm_invalidate_tlb i f fb)"
proof -
  have "\<exists>a. fb_pt fb j = (fb_pt fb j)\<lparr>pt_applied := a\<rparr>" for j
    by (rule exI [of _ "pt_applied (fb_pt fb j)"]) simp
  then show ?thesis
    by (auto simp: navi32_ffbm_invalidate_tlb_def same_blocks_def same_config_def)
qed

lemma invalidate_same: "same_blocks fb (amdgv_ffbm_invalidate_and_unapply_pteb i fb)"
  unfolding amdgv_ffbm_invalidate_and_unapply_pteb_def Let_def
  using same_blocks_trans [OF invalidate_tlb_same apply_same] invalidate_tlb_same apply_same
  by (auto split: if_splits)

lemma apply_nodes_same: "same_blocks fb (fst (apply_nodes is (fb, r)))"
proof (induction "is" "(fb, r)" arbitrary: fb r rule: apply_nodes.induct)
  case 1
  then show ?case by simp
next
  case (2 i "is" fb r)
  show ?case
  proof (cases "needs_apply (fb_pt fb i)")
    case True
    obtain fb1 r1 where a: "navi32_ffbm_apply_pteb i True fb = (fb1, r1)" by (cases "navi32_ffbm_apply_pteb i True fb")
    have "same_blocks fb fb1" using apply_same [of fb i True] a by simp
    moreover have "same_blocks fb1 (fst (apply_nodes is (fb1, r1)))" using 2(1) True a by simp
    ultimately show ?thesis using same_blocks_trans True a by auto
  next
    case False
    with 2(2) show ?thesis by simp
  qed
qed

lemma apply_vfs_same: "apply_vfs n vf r = Inr r' \<Longrightarrow> same_blocks (fst r) (fst r')"
proof (induction n vf r arbitrary: r' rule: apply_vfs.induct)
  case (1 vf r)
  then show ?case by simp
next
  case (2 n vf r)
  then obtain "is" where "apply_vfs n (vf + 1) (apply_nodes is r) = Inr r'"
    by (auto simp: cbind_eq_Inr_iff)
  from 2(1) [OF this] show ?case
    using same_blocks_trans [OF apply_nodes_same [of "fst r" "is" "snd r"]] by simp
qed

lemma apply_page_table_same:
  "amdgv_ffbm_apply_page_table fb = Inr (fb', r) \<Longrightarrow> same_blocks fb fb'"
  using apply_vfs_same [of "unat (fb_num_vf fb)" 0 "apply_nodes (fb_spa fb) (fb, 0)" "(fb', r)"]
    same_blocks_trans [OF apply_nodes_same [of fb "fb_spa fb" 0]]
  by (auto simp: amdgv_ffbm_apply_page_table_def split: if_splits)

text \<open>Merging two neighbours.\<close>

lemma spa_prev_split:
  "spa_prev q0 x xs = Some q \<Longrightarrow> (\<exists>vs. xs = x # vs \<and> q = q0) \<or> (\<exists>us t vs. xs = us @ t # x # vs \<and> q = Some t)"
proof (induction q0 x xs rule: spa_prev.induct)
  case (1 q x)
  then show ?case by simp
next
  case (2 q0 x y ys)
  show ?case
  proof (cases "y = x")
    case True
    with 2 show ?thesis by simp
  next
    case False
    with 2 have "(\<exists>vs. ys = x # vs \<and> q = Some y) \<or> (\<exists>us t vs. ys = us @ t # x # vs \<and> q = Some t)" by simp
    then show ?thesis by (metis append_Cons append_Nil)
  qed
qed

lemma spa_next_split:
  "spa_next x xs = Some q \<Longrightarrow> (\<exists>us. xs = us @ [x] \<and> q = None) \<or> (\<exists>us t vs. xs = us @ x # t # vs \<and> q = Some t)"
proof (induction x xs rule: spa_next.induct)
  case (1 x)
  then show ?case by simp
next
  case (2 x y ys)
  show ?case
  proof (cases "y = x")
    case True
    with 2 show ?thesis by (cases ys) (auto intro: exI [of _ "[]"])
  next
    case False
    with 2 have "(\<exists>us. ys = us @ [x] \<and> q = None) \<or> (\<exists>us t vs. ys = us @ x # t # vs \<and> q = Some t)" by simp
    then show ?thesis by (metis append_Cons)
  qed
qed

lemma spa_prev_mem: "x \<in> set xs \<Longrightarrow> \<exists>q. spa_prev q0 x xs = Some q"
  by (induction q0 x xs rule: spa_prev.induct) auto

lemma spa_next_mem: "x \<in> set xs \<Longrightarrow> \<exists>q. spa_next x xs = Some q"
  by (induction x xs rule: spa_next.induct) auto

lemma contiguous_Cons:
  "contiguous_from h (b # bs) \<longleftrightarrow> fst b = h \<and> contiguous_from (snd b) bs"
  by (cases b) simp

definition merged :: "nat \<Rightarrow> nat \<Rightarrow> amdgv_ffbm \<Rightarrow> amdgv_ffbm" where
  "merged a b fb = fb\<lparr>
     fb_pt := (fb_pt fb)(a := (fb_pt fb a)\<lparr>pt_size := pt_size (fb_pt fb a) + pt_size (fb_pt fb b)\<rparr>),
     fb_spa := remove1 b (fb_spa fb), fb_used := (fb_used fb)(b := False)\<rparr>"

lemma only_blocks_merged [simp]: "only_blocks fb (merged a b fb)"
  by (cases fb) (simp add: only_blocks_def merged_def)

lemma merged_ok:
  assumes ok: "ffbm_ok fb" and s: "fb_spa fb = us @ a # b # vs"
  shows "ffbm_ok (merged a b fb) \<and> (tiled fb \<longrightarrow> tiled (merged a b fb))"
proof -
  let ?fb = "merged a b fb" and ?bl = "\<lambda>j. pt_block (fb_pt fb j)"
  have d: "distinct (us @ a # b # vs)" using ffbm_okD(2) [OF ok] s by simp
  have spa: "fb_spa ?fb = us @ a # vs" using d by (simp add: merged_def s remove1_append)
  have pa: "pteb_ok fb a" and pb: "pteb_ok fb b" using ffbm_okD(3) [OF ok] s by simp_all
  have "ordered_from 0 (map ?bl us @ ?bl a # ?bl b # map ?bl vs)"
    and e: "block_end 0 (map ?bl us @ ?bl a # ?bl b # map ?bl vs) \<le> ffbm_limit fb"
    using ffbm_okD(4,5) [OF ok] by (simp_all add: ffbm_blocks_def s)
  then have o: "ordered_from 0 (map ?bl us)" "block_end 0 (map ?bl us) \<le> fst (?bl a)"
    "snd (?bl a) \<le> fst (?bl b)" "ordered_from (snd (?bl b)) (map ?bl vs)"
    by (simp_all add: ordered_from_append ordered_from_Cons)
  have bb: "unat (pt_spa (fb_pt fb b)) + unat (pt_size (fb_pt fb b)) < 2 ^ 64"
    using pteb_bounds(2) [OF ok] s by simp
  have sz: "unat (pt_size (fb_pt fb a) + pt_size (fb_pt fb b)) =
      unat (pt_size (fb_pt fb a)) + unat (pt_size (fb_pt fb b))"
    by (rule unat_plus64) (use o(3) bb in \<open>simp add: pt_block_def\<close>)
  define hi where "hi = unat (pt_spa (fb_pt fb a)) + (unat (pt_size (fb_pt fb a)) + unat (pt_size (fb_pt fb b)))"
  have bl: "ffbm_blocks ?fb = map ?bl us @ (fst (?bl a), hi) # map ?bl vs"
    unfolding ffbm_blocks_def spa using d
    by (auto simp: merged_def pt_block_def sz hi_def)
  have hi: "fst (?bl a) \<le> hi" "hi \<le> snd (?bl b)" using o(3) by (simp_all add: hi_def pt_block_def)
  have "ordered_from 0 (ffbm_blocks ?fb)"
    unfolding bl using o hi ordered_from_mono by (auto simp: ordered_from_append)
  moreover have "block_end 0 (ffbm_blocks ?fb) \<le> ffbm_limit ?fb"
  proof -
    have "block_end hi (map ?bl vs) \<le> block_end (snd (?bl b)) (map ?bl vs)"
      using hi(2) by (cases vs) (simp_all add: block_end_Cons)
    with e show ?thesis unfolding bl by (simp add: block_end_Cons ffbm_limit_def merged_def)
  qed
  moreover have "pteb_ok ?fb j" if j: "j \<in> set (us @ a # vs)" for j
  proof (cases "j = a")
    case True
    with pa pb show ?thesis using d
      by (simp add: pteb_ok_def merged_def sz)
  next
    case False
    have "j \<in> set (fb_spa fb)" using j s by auto
    with False ffbm_okD(3) [OF ok this] show ?thesis by (simp add: pteb_ok_def merged_def)
  qed
  moreover have "tiled ?fb" if t: "tiled fb"
  proof -
    have "contiguous_from 0 (map ?bl us @ ?bl a # ?bl b # map ?bl vs)"
      and te: "block_end 0 (map ?bl us @ ?bl a # ?bl b # map ?bl vs) = ffbm_limit fb"
      using t by (simp_all add: tiled_def ffbm_blocks_def s)
    then have c: "contiguous_from 0 (map ?bl us)" "fst (?bl a) = block_end 0 (map ?bl us)"
      "fst (?bl b) = snd (?bl a)" "contiguous_from (snd (?bl b)) (map ?bl vs)"
      by (simp_all add: contiguous_append contiguous_Cons)
    have "hi = snd (?bl b)" using c(3) by (simp add: hi_def pt_block_def)
    with c te show ?thesis unfolding tiled_def bl
      by (simp add: contiguous_append contiguous_Cons block_end_Cons ffbm_limit_def merged_def)
  qed
  ultimately show ?thesis using ffbm_okD(1) [OF ok] d
    unfolding ffbm_ok_def spa by (auto simp: merged_def)
qed

lemma merge_front_cases:
  assumes "merge_front p fb = Inr (q, fb')" and "ffbm_ok fb"
  obtains (stay) "q = p" and "fb' = fb" and "p \<in> set (fb_spa fb)"
  | (merge) us vs where "fb_spa fb = us @ q # p # vs" and "fb' = merged q p fb"
      and "pt_type (fb_pt fb q) = AMDGV_FFBM_MEM_TYPE_NOT_ASSIGNED"
proof -
  from assms obtain o' where s: "spa_prev None p (fb_spa fb) = Some o'"
    by (auto simp: merge_front_def split: option.splits)
  have mem: "p \<in> set (fb_spa fb)" using spa_prev_split [OF s] by auto
  show ?thesis
  proof (cases "neighbour_type fb o' = AMDGV_FFBM_MEM_TYPE_NOT_ASSIGNED")
    case False
    with assms s mem stay show ?thesis by (simp add: merge_front_def)
  next
    case True
    with assms s obtain t where t: "o' = Some t" by (auto simp: merge_front_def split: option.splits)
    with spa_prev_split [OF s] obtain us vs where u: "fb_spa fb = us @ t # p # vs" by auto
    from True assms s t have "q = t" "fb' = merged t p fb"
      by (auto simp: merge_front_def pteb_set_size_def amdgv_ffbm_free_block_def merged_def Let_def)
    with merge u True t show ?thesis by (simp add: neighbour_type_def)
  qed
qed

lemma merge_back_cases:
  assumes "merge_back p fb = Inr fb'" and "ffbm_ok fb"
  obtains (stay) "fb' = fb" and "p \<in> set (fb_spa fb)"
  | (merge) us t vs where "fb_spa fb = us @ p # t # vs" and "fb' = merged p t fb"
      and "pt_type (fb_pt fb t) = AMDGV_FFBM_MEM_TYPE_NOT_ASSIGNED"
proof -
  from assms obtain o' where s: "spa_next p (fb_spa fb) = Some o'"
    by (auto simp: merge_back_def split: option.splits)
  have mem: "p \<in> set (fb_spa fb)" using spa_next_split [OF s] by auto
  show ?thesis
  proof (cases "neighbour_type fb o' = AMDGV_FFBM_MEM_TYPE_NOT_ASSIGNED")
    case False
    with assms s mem stay show ?thesis by (simp add: merge_back_def)
  next
    case True
    with assms s obtain t where t: "o' = Some t" by (auto simp: merge_back_def split: option.splits)
    with spa_next_split [OF s] obtain us vs where u: "fb_spa fb = us @ p # t # vs" by auto
    from True assms s t have "fb' = merged p t fb"
      by (auto simp: merge_back_def pteb_set_size_def amdgv_ffbm_free_block_def merged_def Let_def)
    with merge u True t show ?thesis by (simp add: neighbour_type_def)
  qed
qed

text \<open>Taking a block back: the state in which the merge starts.\<close>

definition released :: "nat \<Rightarrow> amdgv_ffbm \<Rightarrow> amdgv_ffbm" where
  "released i fb = amdgv_ffbm_pteb_update i AMDGV_FFBM_INVALID_ADDR (pt_spa (fb_pt fb i))
     (pt_size (fb_pt fb i)) (fb_default_fragment fb) (AMDGV_INVALID_IDX_VF fb) 0
     AMDGV_FFBM_MEM_TYPE_NOT_ASSIGNED (pt_applied (fb_pt fb i)) fb"

lemma released_keeps:
  assumes ok: "ffbm_ok fb"
  shows "keeps fb (released i fb) \<and> tiled (released i fb) = tiled fb"
proof -
  have "ffbm_ok (released i fb)" unfolding released_def
    by (rule update_ok [OF ok]) (use ffbm_okD(3) [OF ok] in \<open>auto simp: pteb_ok_def word_less_nat_alt\<close>)
  moreover have "same_config fb (released i fb)"
    by (simp add: released_def amdgv_ffbm_pteb_update_def same_config_def)
  moreover have "tiled (released i fb) = tiled fb"
    unfolding released_def by (rule update_tiled) simp
  ultimately show ?thesis by (simp add: keeps_def)
qed

lemma unmap_eq:
  "amdgv_ffbm_unmap_pteb i fb =
     (if pt_type (fb_pt fb i) = AMDGV_FFBM_MEM_TYPE_NOT_ASSIGNED then Inr fb
      else cbind (if gpa_linked (amdgv_ffbm_invalidate_and_unapply_pteb i fb) i
                  then amdgv_list_del_init (GNode i) (fb_gpa (amdgv_ffbm_invalidate_and_unapply_pteb i fb))
                  else Inr (fb_gpa (amdgv_ffbm_invalidate_and_unapply_pteb i fb)))
        (\<lambda>L. let fb1 = (amdgv_ffbm_invalidate_and_unapply_pteb i fb)\<lparr>fb_gpa := L\<rparr> in
          if pt_type (fb_pt fb1 i) = AMDGV_FFBM_MEM_TYPE_TMR then Inr (amdgv_ffbm_free_block i fb1)
          else if pt_type (fb_pt fb1 i) = AMDGV_FFBM_MEM_TYPE_VF
          then cbind (merge_front i (released i fb1)) (\<lambda>(pteb, fb). merge_back pteb fb)
          else Inr fb1))"
  unfolding amdgv_ffbm_unmap_pteb_def released_def Let_def by (rule refl)

lemma unmap_cases:
  assumes "amdgv_ffbm_unmap_pteb i fb = Inr fb'"
  obtains (free) "pt_type (fb_pt fb i) = AMDGV_FFBM_MEM_TYPE_NOT_ASSIGNED" and "fb' = fb"
  | (tmr) L fb1 where "same_blocks fb fb1" and "fb' = amdgv_ffbm_free_block i (fb1\<lparr>fb_gpa := L\<rparr>)"
      and "pt_type (fb_pt fb i) = AMDGV_FFBM_MEM_TYPE_TMR"
  | (other) L fb1 where "same_blocks fb fb1" and "fb' = fb1\<lparr>fb_gpa := L\<rparr>"
      and "pt_type (fb_pt fb i) \<noteq> AMDGV_FFBM_MEM_TYPE_TMR" and "pt_type (fb_pt fb i) \<noteq> AMDGV_FFBM_MEM_TYPE_VF"
  | (vf) L fb1 q fb2 where "same_blocks fb fb1" and "pt_type (fb_pt fb i) = AMDGV_FFBM_MEM_TYPE_VF"
      and "fb1 = amdgv_ffbm_invalidate_and_unapply_pteb i fb"
      and "(if gpa_linked fb1 i then amdgv_list_del_init (GNode i) (fb_gpa fb1) else Inr (fb_gpa fb1)) = Inr L"
      and "merge_front i (released i (fb1\<lparr>fb_gpa := L\<rparr>)) = Inr (q, fb2)" and "merge_back q fb2 = Inr fb'"
proof -
  let ?fb1 = "amdgv_ffbm_invalidate_and_unapply_pteb i fb"
  have sb: "same_blocks fb ?fb1" by (rule invalidate_same)
  have ty: "pt_type (fb_pt ?fb1 i) = pt_type (fb_pt fb i)" by (rule same_blocks_pt [OF sb])
  show ?thesis
  proof (cases "pt_type (fb_pt fb i) = AMDGV_FFBM_MEM_TYPE_NOT_ASSIGNED")
    case True
    then have "fb' = fb" using assms unfolding unmap_eq by simp
    with True show ?thesis by (rule free)
  next
    case False
    let ?fb2 = "\<lambda>L. ?fb1\<lparr>fb_gpa := L\<rparr>"
    have ty2: "pt_type (fb_pt (?fb2 L) i) = pt_type (fb_pt fb i)" for L using ty by simp
    let ?del = "if gpa_linked ?fb1 i then amdgv_list_del_init (GNode i) (fb_gpa ?fb1)
        else Inr (fb_gpa ?fb1)"
    let ?rest = "\<lambda>L. if pt_type (fb_pt fb i) = AMDGV_FFBM_MEM_TYPE_TMR then Inr (amdgv_ffbm_free_block i (?fb2 L))
        else if pt_type (fb_pt fb i) = AMDGV_FFBM_MEM_TYPE_VF
        then cbind (merge_front i (released i (?fb2 L))) (\<lambda>(pteb, fb). merge_back pteb fb)
        else Inr (?fb2 L)"
    have "cbind ?del ?rest = Inr fb'"
      using assms unfolding unmap_eq if_not_P [OF False] Let_def ty2 .
    then have "\<exists>L. ?del = Inr L \<and> ?rest L = Inr fb'" by (simp only: cbind_eq_Inr_iff)
    then obtain L where L: "?del = Inr L" and k: "?rest L = Inr fb'" by (elim exE conjE)
    consider "pt_type (fb_pt fb i) = AMDGV_FFBM_MEM_TYPE_TMR" | "pt_type (fb_pt fb i) = AMDGV_FFBM_MEM_TYPE_VF"
      | "pt_type (fb_pt fb i) \<noteq> AMDGV_FFBM_MEM_TYPE_TMR" "pt_type (fb_pt fb i) \<noteq> AMDGV_FFBM_MEM_TYPE_VF" by blast
    then show ?thesis
    proof cases
      case 1
      with k have "fb' = amdgv_ffbm_free_block i (?fb2 L)" by simp
      from tmr [OF sb this 1] show ?thesis .
    next
      case 2
      with k obtain q fb2 where "merge_front i (released i (?fb2 L)) = Inr (q, fb2)" "merge_back q fb2 = Inr fb'"
        by (auto simp: cbind_eq_Inr_iff)
      with vf [OF sb 2 refl L] show ?thesis by blast
    next
      case 3
      with k have "fb' = ?fb2 L" by simp
      from other [OF sb this 3] show ?thesis .
    qed
  qed
qed

lemma ffbm_free_block_simps [simp]:
  "ffbm_ok (amdgv_ffbm_free_block i fb) = ffbm_ok fb"
  "tiled (amdgv_ffbm_free_block i fb) = tiled fb"
  "same_config a (amdgv_ffbm_free_block i fb) = same_config a fb"
  "same_config a (fb\<lparr>fb_gpa := L\<rparr>) = same_config a fb"
  "same_config (fb\<lparr>fb_gpa := L\<rparr>) a = same_config fb a"
  by (simp_all add: amdgv_ffbm_free_block_def ffbm_ok_def ffbm_blocks_def ffbm_limit_def pteb_ok_def
      tiled_def same_config_def)

lemma merges_keep:
  assumes f: "merge_front i fb = Inr (q, fb1)" and b: "merge_back q fb1 = Inr fb'" and ok: "ffbm_ok fb"
  shows "keeps fb fb' \<and> (tiled fb \<longrightarrow> tiled fb')"
proof -
  have 1: "keeps fb fb1 \<and> (tiled fb \<longrightarrow> tiled fb1)"
    using f ok by (cases rule: merge_front_cases)
      (use merged_ok [OF ok] only_blocks_config(1) keeps_refl [OF ok] in \<open>auto simp: keeps_def\<close>)
  then have ok1: "ffbm_ok fb1" by (simp add: keeps_def)
  have "keeps fb1 fb' \<and> (tiled fb1 \<longrightarrow> tiled fb')"
    using b ok1 by (cases rule: merge_back_cases)
      (use merged_ok [OF ok1] only_blocks_config(1) keeps_refl [OF ok1] in \<open>auto simp: keeps_def\<close>)
  with 1 show ?thesis using keeps_trans by blast
qed

lemma unmap_keeps:
  assumes res: "amdgv_ffbm_unmap_pteb i fb = Inr fb'" and ok: "ffbm_ok fb"
  shows "keeps fb fb' \<and> (tiled fb \<longrightarrow> tiled fb')"
  using res
proof (cases rule: unmap_cases)
  case free
  with ok keeps_refl show ?thesis by simp
next
  case (tmr L fb1)
  with same_blocks_keeps [OF tmr(1) ok] show ?thesis by (simp add: keeps_def)
next
  case (other L fb1)
  with same_blocks_keeps [OF other(1) ok] show ?thesis by (simp add: keeps_def)
next
  case (vf L fb1 q fb2)
  note k = same_blocks_keeps [OF vf(1) ok]
  then have ok1: "ffbm_ok fb1" by (simp add: keeps_def)
  then have okL: "ffbm_ok (fb1\<lparr>fb_gpa := L\<rparr>)" by simp
  note r = released_keeps [OF okL, of i]
  then have "ffbm_ok (released i (fb1\<lparr>fb_gpa := L\<rparr>))" by (simp add: keeps_def)
  from merges_keep [OF vf(5,6) this] r k show ?thesis 
    by (auto simp: keeps_def elim: same_config_trans)
qed

lemma unmap_loop_keeps:
  "ffbm_ok fb \<Longrightarrow> unmap_loop fuel vf rsv fb = Inr fb' \<Longrightarrow> keeps fb fb' \<and> (tiled fb \<longrightarrow> tiled fb')"
proof (induction fuel arbitrary: fb)
  case 0
  then show ?case
    by (auto simp: unmap_loop.simps [of 0] cbind_eq_Inr_iff keeps_refl split: option.splits)
next
  case (Suc n)
  from Suc.prems(2) obtain r where
    k: "(case r of None \<Rightarrow> Inr fb | Some c \<Rightarrow> cbind (node_of c) (\<lambda>i.
       cbind (if rsv then Inr (amdgv_ffbm_invalidate_and_unapply_pteb i fb) else amdgv_ffbm_unmap_pteb i fb)
         (unmap_loop n vf rsv))) = Inr fb'"
    by (auto simp: unmap_loop.simps [of "Suc n"] cbind_eq_Inr_iff)
  show ?case
  proof (cases r)
    case None
    with k Suc.prems show ?thesis by (simp add: keeps_refl)
  next
    case (Some c)
    with k obtain i fb1 where
      s: "(if rsv then Inr (amdgv_ffbm_invalidate_and_unapply_pteb i fb) else amdgv_ffbm_unmap_pteb i fb) = Inr fb1"
      and l: "unmap_loop n vf rsv fb1 = Inr fb'"
      by (auto simp: cbind_eq_Inr_iff)
    have "keeps fb fb1 \<and> (tiled fb \<longrightarrow> tiled fb1)"
      using s unmap_keeps [of i fb fb1] same_blocks_keeps [OF invalidate_same Suc.prems(1), of i] Suc.prems(1)
      by (auto split: if_splits)
    moreover from this have "ffbm_ok fb1" by (simp add: keeps_def)
    from Suc.IH [OF this l] have "keeps fb1 fb' \<and> (tiled fb1 \<longrightarrow> tiled fb')" .
    ultimately show ?thesis using keeps_trans by blast
  qed
qed

section \<open>Replacing a page\<close>

definition swap_in :: "nat \<Rightarrow> nat \<Rightarrow> (u64 \<Rightarrow> u8) \<Rightarrow> u64 \<Rightarrow> amdgv_ffbm \<Rightarrow> amdgv_ffbm" where
  "swap_in n m mem page_size fb =
     (let p = fb_pt fb m;
          fb = amdgv_ffbm_pteb_update n (pt_gpa p) (pt_spa (fb_pt fb n)) page_size
                 (pt_fragment p) (pt_vf_idx p) (pt_permission p) (pt_type p) False
                 (fb\<lparr>fb_mem := mem\<rparr>)
      in fb\<lparr>fb_reserved_block_count := fb_reserved_block_count fb - 1\<rparr>)"

definition mark_bad :: "nat \<Rightarrow> u64 \<Rightarrow> amdgv_ffbm \<Rightarrow> amdgv_ffbm" where
  "mark_bad m page_size fb =
     (let p = fb_pt fb m;
          fb = amdgv_ffbm_pteb_update m AMDGV_FFBM_INVALID_ADDR (pt_spa p) page_size
                 (pt_fragment p) (AMDGV_INVALID_IDX_VF fb) 0 AMDGV_FFBM_MEM_TYPE_BAD_PAGE
                 (pt_applied p) fb
      in fb\<lparr>fb_bad_block_count := fb_bad_block_count fb + 1\<rparr>)"

lemma replace_eq:
  "amdgv_ffbm_replace_page spa fb =
     (case amdgv_ffbm_find_pteb_by_phy fb spa of
        None \<Rightarrow> Inr (AMDGV_FFBM_ERROR_BAD_ADDR, fb)
      | Some pteb \<Rightarrow>
        if pt_type (fb_pt fb pteb) \<noteq> AMDGV_FFBM_MEM_TYPE_VF then Inr (0, fb)
        else let page_size = AMDGV_FFBM_PAGE_SIZE (pt_fragment (fb_pt fb pteb));
                 aligned_spa = AMDGV_FFBM_PAGE_ALIGN spa (pt_fragment (fb_pt fb pteb)) in
        cbind (amdgv_ffbm_pteb_hole_by_phy pteb aligned_spa page_size fb) (\<lambda>(r, fb).
        case r of
          None \<Rightarrow> Inr (AMDGV_FFBM_ERROR_NO_MEM, fb)
        | Some pteb \<Rightarrow>
          (case find_reserved fb of
             None \<Rightarrow> Inr (AMDGV_FFBM_ERROR_NO_MEM, fb)
           | Some new_pteb \<Rightarrow>
             let bad_spa = pt_spa (fb_pt fb pteb) in
             cbind (replace_copy (unat page_size div 4) spa bad_spa (bad_spa + page_size)
                      (pt_spa (fb_pt fb new_pteb)) (fb_mem fb)) (\<lambda>m.
             let fb = swap_in new_pteb pteb m page_size fb in
             cbind (amdgv_list_add_tail (GNode new_pteb) (GNode pteb) (fb_gpa fb)) (\<lambda>L.
             cbind (amdgv_ffbm_unmap_pteb pteb (fb\<lparr>fb_gpa := L\<rparr>)) (\<lambda>fb.
               Inr (0, mark_bad pteb page_size fb)))))))"
  unfolding amdgv_ffbm_replace_page_def swap_in_def mark_bad_def Let_def by (rule refl)

lemma replace_cases:
  assumes "amdgv_ffbm_replace_page spa fb = Inr (r, fb')"
  obtains (bad_addr) "amdgv_ffbm_find_pteb_by_phy fb spa = None"
      and "r = AMDGV_FFBM_ERROR_BAD_ADDR" and "fb' = fb"
  | (not_vf) i where "amdgv_ffbm_find_pteb_by_phy fb spa = Some i"
      and "pt_type (fb_pt fb i) \<noteq> AMDGV_FFBM_MEM_TYPE_VF" and "r = 0" and "fb' = fb"
  | (no_hole) i where "amdgv_ffbm_find_pteb_by_phy fb spa = Some i"
      and "amdgv_ffbm_pteb_hole_by_phy i (AMDGV_FFBM_PAGE_ALIGN spa (pt_fragment (fb_pt fb i)))
             (AMDGV_FFBM_PAGE_SIZE (pt_fragment (fb_pt fb i))) fb = Inr (None, fb')"
      and "r = AMDGV_FFBM_ERROR_NO_MEM"
  | (no_reserved) i m where "amdgv_ffbm_find_pteb_by_phy fb spa = Some i"
      and "amdgv_ffbm_pteb_hole_by_phy i (AMDGV_FFBM_PAGE_ALIGN spa (pt_fragment (fb_pt fb i)))
             (AMDGV_FFBM_PAGE_SIZE (pt_fragment (fb_pt fb i))) fb = Inr (Some m, fb')"
      and "find_reserved fb' = None" and "r = AMDGV_FFBM_ERROR_NO_MEM"
  | (swap) i m n mem L fb1 fb2 fb3 where "amdgv_ffbm_find_pteb_by_phy fb spa = Some i"
      and "pt_type (fb_pt fb i) = AMDGV_FFBM_MEM_TYPE_VF"
      and "amdgv_ffbm_pteb_hole_by_phy i (AMDGV_FFBM_PAGE_ALIGN spa (pt_fragment (fb_pt fb i)))
             (AMDGV_FFBM_PAGE_SIZE (pt_fragment (fb_pt fb i))) fb = Inr (Some m, fb1)"
      and "find_reserved fb1 = Some n"
      and "replace_copy (unat (AMDGV_FFBM_PAGE_SIZE (pt_fragment (fb_pt fb i))) div 4) spa
             (pt_spa (fb_pt fb1 m)) (pt_spa (fb_pt fb1 m) + AMDGV_FFBM_PAGE_SIZE (pt_fragment (fb_pt fb i)))
             (pt_spa (fb_pt fb1 n)) (fb_mem fb1) = Inr mem"
      and "fb2 = swap_in n m mem (AMDGV_FFBM_PAGE_SIZE (pt_fragment (fb_pt fb i))) fb1"
      and "amdgv_list_add_tail (GNode n) (GNode m) (fb_gpa fb2) = Inr L"
      and "amdgv_ffbm_unmap_pteb m (fb2\<lparr>fb_gpa := L\<rparr>) = Inr fb3"
      and "fb' = mark_bad m (AMDGV_FFBM_PAGE_SIZE (pt_fragment (fb_pt fb i))) fb3" and "r = 0"
proof (cases "amdgv_ffbm_find_pteb_by_phy fb spa")
  case None
  with assms have "r = AMDGV_FFBM_ERROR_BAD_ADDR" "fb' = fb" unfolding replace_eq by simp_all
  with None show ?thesis by (rule bad_addr)
next
  case (Some i)
  show ?thesis
  proof (cases "pt_type (fb_pt fb i) = AMDGV_FFBM_MEM_TYPE_VF")
    case False
    with Some assms have "r = 0" "fb' = fb" unfolding replace_eq by simp_all
    with Some False show ?thesis by (rule not_vf)
  next
    case vf: True
    let ?ps = "AMDGV_FFBM_PAGE_SIZE (pt_fragment (fb_pt fb i))"
    let ?hole = "amdgv_ffbm_pteb_hole_by_phy i (AMDGV_FFBM_PAGE_ALIGN spa (pt_fragment (fb_pt fb i))) ?ps fb"
    let ?k = "\<lambda>(q, fb). case q of None \<Rightarrow> Inr (AMDGV_FFBM_ERROR_NO_MEM, fb)
      | Some m \<Rightarrow> (case find_reserved fb of None \<Rightarrow> Inr (AMDGV_FFBM_ERROR_NO_MEM, fb)
         | Some n \<Rightarrow>
           cbind (replace_copy (unat ?ps div 4) spa (pt_spa (fb_pt fb m)) (pt_spa (fb_pt fb m) + ?ps)
              (pt_spa (fb_pt fb n)) (fb_mem fb)) (\<lambda>mem.
           cbind (amdgv_list_add_tail (GNode n) (GNode m) (fb_gpa (swap_in n m mem ?ps fb))) (\<lambda>L.
           cbind (amdgv_ffbm_unmap_pteb m ((swap_in n m mem ?ps fb)\<lparr>fb_gpa := L\<rparr>)) (\<lambda>fb.
             Inr (0, mark_bad m ?ps fb)))))"
    have "cbind ?hole ?k = Inr (r, fb')"
      using assms vf unfolding replace_eq Some Let_def by simp
    then have "\<exists>x. ?hole = Inr x \<and> ?k x = Inr (r, fb')" by (simp only: cbind_eq_Inr_iff)
    then obtain q fb1 where h: "?hole = Inr (q, fb1)" and k: "?k (q, fb1) = Inr (r, fb')" by (auto simp only: split_paired_Ex)
    show ?thesis
    proof (cases q)
      case None
      with k have "r = AMDGV_FFBM_ERROR_NO_MEM" "fb' = fb1" by simp_all
      with no_hole [OF Some] h None show ?thesis by simp
    next
      case q: (Some m)
      show ?thesis
      proof (cases "find_reserved fb1")
        case None
        with k q have "r = AMDGV_FFBM_ERROR_NO_MEM" "fb' = fb1" by simp_all
        with no_reserved [OF Some] h q None show ?thesis by simp
      next
        case n: (Some n)
        from k q n obtain mem L fb3 where
          "replace_copy (unat ?ps div 4) spa (pt_spa (fb_pt fb1 m)) (pt_spa (fb_pt fb1 m) + ?ps)
              (pt_spa (fb_pt fb1 n)) (fb_mem fb1) = Inr mem"
          "amdgv_list_add_tail (GNode n) (GNode m) (fb_gpa (swap_in n m mem ?ps fb1)) = Inr L"
          "amdgv_ffbm_unmap_pteb m ((swap_in n m mem ?ps fb1)\<lparr>fb_gpa := L\<rparr>) = Inr fb3"
          "r = 0 \<and> fb' = mark_bad m ?ps fb3"
          by (auto simp: cbind_eq_Inr_iff)
        with swap [OF Some vf h [unfolded q] n] show ?thesis by blast
      qed
    qed
  qed
qed

lemma find_reserved_spec:
  "find_reserved fb = Some n \<Longrightarrow> n \<in> set (fb_spa fb) \<and> pt_type (fb_pt fb n) = AMDGV_FFBM_MEM_TYPE_RESERVED"
  by (auto simp: find_reserved_def find_Some_iff)

lemma page_le_size:
  assumes "ffbm_ok fb" and "i \<in> set (fb_spa fb)"
  shows "page (fb_default_fragment fb) \<le> unat (pt_size (fb_pt fb i))"
  using ffbm_okD(3) [OF assms] by (auto simp: pteb_ok_def dvd_imp_le)

lemma PAGE_SIZE_facts:
  assumes "unat f \<le> 18"
  shows "0 < AMDGV_FFBM_PAGE_SIZE f" "page f dvd unat (AMDGV_FFBM_PAGE_SIZE f)"
    "page f \<le> unat x \<Longrightarrow> AMDGV_FFBM_PAGE_SIZE f \<le> x"
  using unat_PAGE_SIZE [OF assms] page_pos [of f] by (simp_all add: word_less_nat_alt word_le_nat_alt)

lemma aligned_page_fits:
  assumes "unat f \<le> 18"
  shows "unat (AMDGV_FFBM_PAGE_ALIGN x f) + unat (AMDGV_FFBM_PAGE_SIZE f) \<le> 2 ^ 64"
proof -
  have "page f dvd 2 ^ 64" unfolding page_def by (rule le_imp_power_dvd) (use assms in simp)
  then have "page f dvd 2 ^ 64 - unat (AMDGV_FFBM_PAGE_ALIGN x f)"
    by (simp add: unat_PAGE_ALIGN dvd_diff_nat)
  then have "page f \<le> 2 ^ 64 - unat (AMDGV_FFBM_PAGE_ALIGN x f)"
    using unat_lt64 [of "AMDGV_FFBM_PAGE_ALIGN x f"] by (simp add: dvd_imp_le)
  then show ?thesis using unat_lt64 [of "AMDGV_FFBM_PAGE_ALIGN x f"] unat_PAGE_SIZE [OF assms] by linarith
qed

text \<open>The parts of \<open>ffbm_ok\<close> do not depend on memory and counters.\<close>

lemma ffbm_ok_other [simp]:
  "ffbm_ok (fb\<lparr>fb_mem := x\<rparr>) = ffbm_ok fb"
  "ffbm_ok (fb\<lparr>fb_reserved_block_count := y\<rparr>) = ffbm_ok fb"
  "ffbm_ok (fb\<lparr>fb_bad_block_count := z\<rparr>) = ffbm_ok fb"
  by (simp_all add: ffbm_ok_def ffbm_blocks_def ffbm_limit_def pteb_ok_def)

lemma swap_in_keeps:
  assumes ok: "ffbm_ok fb" and n: "n \<in> set (fb_spa fb)"
    and m: "m \<in> set (fb_spa fb)"
  shows "keeps fb (swap_in n m mem (AMDGV_FFBM_PAGE_SIZE (fb_default_fragment fb)) fb)"
proof -
  have f18: "unat (fb_default_fragment fb) \<le> 18" by (rule ffbm_okD(1) [OF ok])
  note pf = PAGE_SIZE_facts [OF f18]
  have fr: "pt_fragment (fb_pt fb m) = fb_default_fragment fb"
    using ffbm_okD(3) [OF ok m] by (simp add: pteb_ok_def)
  have "ffbm_ok (amdgv_ffbm_pteb_update n (pt_gpa (fb_pt fb m)) (pt_spa (fb_pt fb n))
      (AMDGV_FFBM_PAGE_SIZE (fb_default_fragment fb)) (pt_fragment (fb_pt fb m)) (pt_vf_idx (fb_pt fb m))
      (pt_permission (fb_pt fb m)) (pt_type (fb_pt fb m)) False (fb\<lparr>fb_mem := mem\<rparr>))"
    by (rule update_ok) (use ok pf(1,2) pf(3) [OF page_le_size [OF ok n]] fr in simp_all)
  then show ?thesis
    by (simp add: swap_in_def Let_def keeps_def) (simp add: same_config_def amdgv_ffbm_pteb_update_def)
qed

lemma mark_bad_keeps:
  assumes ok: "ffbm_ok fb" and fr: "pt_fragment (fb_pt fb m) = fb_default_fragment fb"
  shows "keeps fb (mark_bad m (AMDGV_FFBM_PAGE_SIZE (fb_default_fragment fb)) fb)"
proof -
  have f18: "unat (fb_default_fragment fb) \<le> 18" by (rule ffbm_okD(1) [OF ok])
  note pf = PAGE_SIZE_facts [OF f18]
  have "ffbm_ok (amdgv_ffbm_pteb_update m AMDGV_FFBM_INVALID_ADDR (pt_spa (fb_pt fb m))
      (AMDGV_FFBM_PAGE_SIZE (fb_default_fragment fb)) (pt_fragment (fb_pt fb m))
      (AMDGV_INVALID_IDX_VF fb) 0 AMDGV_FFBM_MEM_TYPE_BAD_PAGE (pt_applied (fb_pt fb m)) fb)"
    by (rule update_ok [OF ok]) (use pf(1,2) pf(3) page_le_size [OF ok] fr in simp)
  then show ?thesis
    by (simp add: mark_bad_def Let_def keeps_def) (simp add: same_config_def amdgv_ffbm_pteb_update_def)
qed

lemma merge_pt_fragment:
  assumes "merge_front i fb = Inr (q, fb1)" and "merge_back q fb1 = Inr fb'" and "ffbm_ok fb"
  shows "pt_fragment (fb_pt fb' j) = pt_fragment (fb_pt fb j)"
proof -
  have 1: "pt_fragment (fb_pt fb1 j) = pt_fragment (fb_pt fb j) \<and> ffbm_ok fb1"
    using assms(1,3) by (cases rule: merge_front_cases) (use assms(3) merged_ok in \<open>auto simp: merged_def\<close>)
  have "pt_fragment (fb_pt fb' j) = pt_fragment (fb_pt fb1 j)"
    using assms(2) 1 [THEN conjunct2] by (cases rule: merge_back_cases) (auto simp: merged_def)
  with 1 show ?thesis by simp
qed

lemma unmap_pt_fragment:
  assumes res: "amdgv_ffbm_unmap_pteb i fb = Inr fb'" and ok: "ffbm_ok fb"
    and f: "pt_fragment (fb_pt fb i) = fb_default_fragment fb"
  shows "pt_fragment (fb_pt fb' j) = pt_fragment (fb_pt fb j)"
  using res
proof (cases rule: unmap_cases)
  case free
  then show ?thesis by simp
next
  case (tmr L fb1)
  then show ?thesis using same_blocks_pt(5) [OF tmr(1)] by (simp add: amdgv_ffbm_free_block_def)
next
  case (other L fb1)
  then show ?thesis using same_blocks_pt(5) [OF other(1)] by simp
next
  case (vf L fb1 q fb2)
  have ok1: "ffbm_ok (fb1\<lparr>fb_gpa := L\<rparr>)" using same_blocks_keeps [OF vf(1) ok] by (simp add: keeps_def)
  then have okr: "ffbm_ok (released i (fb1\<lparr>fb_gpa := L\<rparr>))" using released_keeps by (simp add: keeps_def)
  have "fb_default_fragment fb1 = fb_default_fragment fb"
    using vf(1) by (simp add: same_blocks_def same_config_def)
  then have "pt_fragment (fb_pt (released i (fb1\<lparr>fb_gpa := L\<rparr>)) j) = pt_fragment (fb_pt fb j)"
    using f same_blocks_pt(5) [OF vf(1), of j] same_blocks_pt(5) [OF vf(1), of i]
    by (cases "j = i") (simp_all add: released_def)
  with merge_pt_fragment [OF vf(5,6) okr] show ?thesis by simp
qed

lemma replace_page_keeps:
  assumes res: "amdgv_ffbm_replace_page spa fb = Inr (r, fb')" and ok: "ffbm_ok fb"
  shows "keeps fb fb'"
proof -
  let ?f = "fb_default_fragment fb"
  have f18: "unat ?f \<le> 18" by (rule ffbm_okD(1) [OF ok])
  note pf = PAGE_SIZE_facts [OF f18]
  have hole: "split_of i fb fb1 \<and> (case q of None \<Rightarrow> True | Some m \<Rightarrow> m \<in> set (fb_spa fb1))"
    if "amdgv_ffbm_find_pteb_by_phy fb spa = Some i"
      "amdgv_ffbm_pteb_hole_by_phy i (AMDGV_FFBM_PAGE_ALIGN spa (pt_fragment (fb_pt fb i)))
             (AMDGV_FFBM_PAGE_SIZE (pt_fragment (fb_pt fb i))) fb = Inr (q, fb1)" for i q fb1
  proof -
    have i: "i \<in> set (fb_spa fb)" using find_by_phy_spec [OF that(1)] by simp
    have fr: "pt_fragment (fb_pt fb i) = ?f" using ffbm_okD(3) [OF ok i] by (simp add: pteb_ok_def)
    from hole_cases [OF ok i pf(2,1) aligned_page_fits [OF f18] that(2) [unfolded fr]]
    show ?thesis by (auto split: option.splits)
  qed
  from res show ?thesis
  proof (cases rule: replace_cases)
    case bad_addr
    with ok show ?thesis by (simp add: keeps_refl)
  next
    case (not_vf i)
    with ok show ?thesis by (simp add: keeps_refl)
  next
    case (no_hole i)
    with hole [OF no_hole(1,2)] split_of_D(1,6) show ?thesis by (simp add: keeps_def)
  next
    case (no_reserved i m)
    from hole [OF no_reserved(1,2)] have so: "split_of i fb fb'" by simp
    from split_of_D(1,6) [OF so] show ?thesis by (simp add: keeps_def)
  next
    case (swap i m n mem L fb1 fb2 fb3)
    have i: "i \<in> set (fb_spa fb)" using find_by_phy_spec [OF swap(1)] by simp
    have fr: "pt_fragment (fb_pt fb i) = ?f" using ffbm_okD(3) [OF ok i] by (simp add: pteb_ok_def)
    have so: "split_of i fb fb1" and m: "m \<in> set (fb_spa fb1)" using hole [OF swap(1,3)] by simp_all
    have k1: "keeps fb fb1" using split_of_D(1,6) [OF so] by (simp add: keeps_def)
    have f1: "fb_default_fragment fb1 = ?f" using k1 by (simp add: keeps_def same_config_def)
    have n: "n \<in> set (fb_spa fb1)" using find_reserved_spec [OF swap(4)] by simp
    have k2: "keeps fb1 (fb2\<lparr>fb_gpa := L\<rparr>)"
      using swap_in_keeps [OF split_of_D(1) [OF so] n m, of mem] unfolding swap(6) fr f1
      by (simp add: keeps_def)
    then have ok2: "ffbm_ok (fb2\<lparr>fb_gpa := L\<rparr>)" by (simp add: keeps_def)
    note k3 = unmap_keeps [OF swap(8) ok2, THEN conjunct1]
    have s2: "set (fb_spa fb2) = set (fb_spa fb1)" by (simp add: swap(6) swap_in_def Let_def)
    have f2: "pt_fragment (fb_pt (fb2\<lparr>fb_gpa := L\<rparr>) m) = fb_default_fragment (fb2\<lparr>fb_gpa := L\<rparr>)"
      using ffbm_okD(3) [OF ok2, of m] m s2 by (simp add: pteb_ok_def)
    have f3: "fb_default_fragment fb3 = fb_default_fragment fb2" "fb_default_fragment fb2 = ?f"
      using k3 k2 f1 by (simp_all add: keeps_def same_config_def)
    have "pt_fragment (fb_pt fb3 m) = fb_default_fragment fb3"
      using unmap_pt_fragment [OF swap(8) ok2 f2, of m] f2 f3 by simp
    from mark_bad_keeps [OF _ this] k3 have "keeps fb3 fb'"
      unfolding swap(9) fr using f3 by (simp add: keeps_def)
    with k1 k2 k3 show ?thesis using keeps_trans by blast
  qed
qed

section \<open>Runs of operations\<close>

text \<open>The operations that change the table, as the driver calls them.\<close>

datatype ffbm_op =
    Manual_Map u32 u64 u64 u64 u8 amdgv_ffbm_mem_type
  | Auto_Map u32 u64 u64 u8
  | Unmap_Spa u64
  | Unmap_Fcn nat u32 bool
  | Replace_Pages "u64 list"
  | Apply_Table
  | Update_Fcn u32

fun ffbm_step :: "ffbm_op \<Rightarrow> amdgv_ffbm \<Rightarrow> amdgv_ffbm cres" where
  "ffbm_step (Manual_Map vf sz gpa spa perm type) fb =
     cbind (amdgv_ffbm_manual_map vf sz gpa spa perm type fb) (\<lambda>(_, fb). Inr fb)"
| "ffbm_step (Auto_Map vf gpa sz perm) fb =
     cbind (amdgv_ffbm_map vf gpa sz perm AMDGV_FFBM_MEM_TYPE_VF fb) (\<lambda>(_, fb). Inr fb)"
| "ffbm_step (Unmap_Spa spa) fb = amdgv_ffbm_unmap_by_spa spa fb"
| "ffbm_step (Unmap_Fcn fuel vf reserve) fb = amdgv_ffbm_unmap_by_fcn fuel vf reserve fb"
| "ffbm_step (Replace_Pages bps) fb =
     cbind (amdgv_ffbm_replace_bad_pages bps fb) (\<lambda>(_, fb). Inr fb)"
| "ffbm_step Apply_Table fb = cbind (amdgv_ffbm_apply_page_table fb) (\<lambda>(fb, _). Inr fb)"
| "ffbm_step (Update_Fcn vf) fb =
     cbind (amdgv_ffbm_page_table_update_by_fcn vf fb) (\<lambda>(_, fb). Inr fb)"

text \<open>The range of a manual mapping is not empty and does not wrap; the sizes that
  \<^verbatim>\<open>amdgv_ffbm_page_table_update_by_fcn\<close> computes are ranges of this kind.\<close>

definition range_ok :: "u64 \<Rightarrow> u64 \<Rightarrow> bool" where
  "range_ok spa sz \<longleftrightarrow> 0 < sz \<and> unat spa + unat sz \<le> 2 ^ 64"

definition update_ranges_ok :: "amdgv_ffbm \<Rightarrow> u32 \<Rightarrow> bool" where
  "update_ranges_ok fb vf \<longleftrightarrow>
     (let entry = fb_vf fb (unat vf); off = ucast (vd_fb_offset entry) :: u64;
          tmr = ucast (fb_tmr_size fb) :: u64 in
      if vf = AMDGV_PF_IDX then
        range_ok (MBYTES_TO_BYTES off) (MBYTES_TO_BYTES (AMDGV_FFBM_FB_TMR_OFFSET - off)) \<and>
        range_ok (MBYTES_TO_BYTES (AMDGV_FFBM_FB_TMR_OFFSET + tmr))
          (MBYTES_TO_BYTES (ucast (vd_fb_size entry) - tmr - AMDGV_FFBM_FB_TMR_OFFSET + off))
      else range_ok (MBYTES_TO_BYTES AMDGV_FFBM_FB_TMR_OFFSET) (MBYTES_TO_BYTES tmr))"

fun ffbm_allowed :: "ffbm_op \<Rightarrow> amdgv_ffbm \<Rightarrow> bool" where
  "ffbm_allowed (Manual_Map vf sz gpa spa perm type) fb = range_ok spa sz"
| "ffbm_allowed (Update_Fcn vf) fb = update_ranges_ok fb vf"
| "ffbm_allowed op fb = True"

lemma replace_pages_keeps:
  "ffbm_ok fb \<Longrightarrow> replace_pages bps fb = Inr (r, fb') \<Longrightarrow> keeps fb fb'"
proof (induction bps arbitrary: fb)
  case Nil
  then show ?case by (simp add: keeps_refl)
next
  case (Cons p bps)
  then obtain r1 fb1 where 1: "amdgv_ffbm_replace_page (push_bit 12 p) fb = Inr (r1, fb1)"
    and 2: "(if r1 \<noteq> 0 then Inr (r1, fb1) else replace_pages bps fb1) = Inr (r, fb')"
    by (auto simp: cbind_eq_Inr_iff)
  note k = replace_page_keeps [OF 1 Cons.prems(1)]
  then have ok1: "ffbm_ok fb1" by (simp add: keeps_def)
  show ?case
  proof (cases "r1 = 0")
    case True
    with 2 Cons.IH [OF ok1] k keeps_trans show ?thesis by simp
  next
    case False
    with 2 k show ?thesis by simp
  qed
qed

lemma replace_bad_pages_keeps:
  assumes ok: "ffbm_ok fb" and res: "amdgv_ffbm_replace_bad_pages bps fb = Inr (r, fb')"
  shows "keeps fb fb'"
proof -
  from res obtain r1 fb1 where 1: "replace_pages bps fb = Inr (r1, fb1)"
    and 2: "(if r1 = 0 then cbind (amdgv_ffbm_apply_page_table fb1) (\<lambda>(fb, ret). Inr (ret, fb))
       else Inr (r1, fb1)) = Inr (r, fb')"
    by (auto simp: amdgv_ffbm_replace_bad_pages_def cbind_eq_Inr_iff)
  note k = replace_pages_keeps [OF ok 1]
  then have ok1: "ffbm_ok fb1" by (simp add: keeps_def)
  have "fb' = fb1 \<or> same_blocks fb1 fb'"
    using 2 apply_page_table_same by (auto simp: cbind_eq_Inr_iff split: if_splits)
  with same_blocks_keeps [OF _ ok1] k keeps_trans show ?thesis by blast
qed

lemma unmap_by_spa_keeps:
  assumes "amdgv_ffbm_unmap_by_spa spa fb = Inr fb'" and "ffbm_ok fb"
  shows "keeps fb fb'"
  using assms unmap_keeps keeps_refl
  by (auto simp: amdgv_ffbm_unmap_by_spa_def split: option.splits)

lemma manual_map_keeps':
  assumes "amdgv_ffbm_manual_map vf sz gpa spa perm type fb = Inr (r, fb')"
    and "range_ok spa sz" and "ffbm_ok fb"
  shows "keeps fb fb'"
  using manual_map_keeps [OF assms(3) _ _ assms(1)] assms(2) by (simp add: range_ok_def)

lemma keeps_config: "keeps fb fb' \<Longrightarrow> same_config fb fb'"
  by (simp add: keeps_def)

lemma update_pf_keeps:
  assumes ok: "ffbm_ok fb" and en: "fb_enabled fb" and al: "update_ranges_ok fb AMDGV_PF_IDX"
    and res: "amdgv_ffbm_page_table_update_by_fcn AMDGV_PF_IDX fb = Inr (r, fb')"
  shows "keeps fb fb'"
proof -
  let ?off = "ucast (vd_fb_offset (fb_vf fb 31)) :: u64" and ?tmr = "ucast (fb_tmr_size fb) :: u64"
  let ?sz1 = "MBYTES_TO_BYTES (AMDGV_FFBM_FB_TMR_OFFSET - ?off)"
    and ?sz2 = "MBYTES_TO_BYTES (ucast (vd_fb_size (fb_vf fb 31)) - ?tmr - AMDGV_FFBM_FB_TMR_OFFSET + ?off)"
  from res en obtain fb1 fb2 r3 fb3 where
    1: "amdgv_ffbm_unmap_by_spa (MBYTES_TO_BYTES ?off) fb = Inr fb1" and
    2: "amdgv_ffbm_unmap_by_spa (MBYTES_TO_BYTES (AMDGV_FFBM_FB_TMR_OFFSET + ?tmr)) fb1 = Inr fb2" and
    3: "amdgv_ffbm_manual_map AMDGV_PF_IDX ?sz1 (MBYTES_TO_BYTES ?off) (MBYTES_TO_BYTES ?off) 0
          AMDGV_FFBM_MEM_TYPE_PF fb2 = Inr (r3, fb3)" and
    4: "amdgv_ffbm_manual_map AMDGV_PF_IDX ?sz2 (MBYTES_TO_BYTES (AMDGV_FFBM_FB_TMR_OFFSET + ?tmr))
          (MBYTES_TO_BYTES (AMDGV_FFBM_FB_TMR_OFFSET + ?tmr)) 0 AMDGV_FFBM_MEM_TYPE_PF fb3 = Inr (r, fb')"
    unfolding amdgv_ffbm_page_table_update_by_fcn_def Let_def by (auto simp: cbind_eq_Inr_iff)
  have al': "range_ok (MBYTES_TO_BYTES ?off) ?sz1"
    "range_ok (MBYTES_TO_BYTES (AMDGV_FFBM_FB_TMR_OFFSET + ?tmr)) ?sz2"
    using al by (simp_all add: update_ranges_ok_def Let_def)
  note k1 = unmap_by_spa_keeps [OF 1 ok]
  note k2 = unmap_by_spa_keeps [OF 2 k1 [unfolded keeps_def, THEN conjunct1]]
  note k3 = manual_map_keeps' [OF 3 al'(1) k2 [unfolded keeps_def, THEN conjunct1]]
  note k4 = manual_map_keeps' [OF 4 al'(2) k3 [unfolded keeps_def, THEN conjunct1]]
  show ?thesis by (rule keeps_trans [OF k1 keeps_trans [OF k2 keeps_trans [OF k3 k4]]])
qed

lemma update_vf_keeps:
  assumes ok: "ffbm_ok fb" and en: "fb_enabled fb" and al: "update_ranges_ok fb vf" and vf: "vf \<noteq> AMDGV_PF_IDX"
    and res: "amdgv_ffbm_page_table_update_by_fcn vf fb = Inr (r, fb')"
  shows "keeps fb fb'"
proof -
  let ?tmr = "ucast (fb_tmr_size fb) :: u64"
  let ?maps = "cbind (amdgv_ffbm_manual_map vf (MBYTES_TO_BYTES ?tmr)
                   (MBYTES_TO_BYTES AMDGV_FFBM_FB_TMR_OFFSET) (MBYTES_TO_BYTES AMDGV_FFBM_FB_TMR_OFFSET)
                   AMDGV_FFBM_PERM_RW AMDGV_FFBM_MEM_TYPE_TMR fb) (\<lambda>(_, fb0).
          cbind (amdgv_ffbm_map vf 0 (MBYTES_TO_BYTES AMDGV_FFBM_FB_TMR_OFFSET)
                   AMDGV_FFBM_PERM_RW AMDGV_FFBM_MEM_TYPE_VF fb0) (\<lambda>(_, fb0).
            amdgv_ffbm_map vf (MBYTES_TO_BYTES (AMDGV_FFBM_FB_TMR_OFFSET + ?tmr))
              (MBYTES_TO_BYTES (ucast (vd_fb_size (fb_vf fb (unat vf))) - AMDGV_FFBM_FB_TMR_OFFSET))
              AMDGV_FFBM_PERM_RW AMDGV_FFBM_MEM_TYPE_VF fb0))"
  let ?c = "0 < (if fb_share_tmr fb then vd_fb_size_tmr (fb_vf fb (unat vf)) else vd_fb_size (fb_vf fb (unat vf)))"
  from res en vf obtain r1 fb1 r2 where
    1: "(if ?c then ?maps else Inr (0, fb)) = Inr (r1, fb1)" and
    2: "amdgv_ffbm_apply_page_table fb1 = Inr (fb', r2)"
    unfolding amdgv_ffbm_page_table_update_by_fcn_def Let_def
    by (auto simp: cbind_eq_Inr_iff split: if_splits)
  have k1: "keeps fb fb1"
  proof (cases ?c)
    case False
    with 1 ok show ?thesis by (auto simp: keeps_refl)
  next
    case True
    with 1 obtain a fb2 b fb3 where
      3: "amdgv_ffbm_manual_map vf (MBYTES_TO_BYTES ?tmr) (MBYTES_TO_BYTES AMDGV_FFBM_FB_TMR_OFFSET)
          (MBYTES_TO_BYTES AMDGV_FFBM_FB_TMR_OFFSET) AMDGV_FFBM_PERM_RW AMDGV_FFBM_MEM_TYPE_TMR fb = Inr (a, fb2)" and
      4: "amdgv_ffbm_map vf 0 (MBYTES_TO_BYTES AMDGV_FFBM_FB_TMR_OFFSET) AMDGV_FFBM_PERM_RW
          AMDGV_FFBM_MEM_TYPE_VF fb2 = Inr (b, fb3)" and
      5: "amdgv_ffbm_map vf (MBYTES_TO_BYTES (AMDGV_FFBM_FB_TMR_OFFSET + ?tmr))
          (MBYTES_TO_BYTES (ucast (vd_fb_size (fb_vf fb (unat vf))) - AMDGV_FFBM_FB_TMR_OFFSET))
          AMDGV_FFBM_PERM_RW AMDGV_FFBM_MEM_TYPE_VF fb3 = Inr (r1, fb1)"
      by (auto simp: cbind_eq_Inr_iff)
    have "range_ok (MBYTES_TO_BYTES AMDGV_FFBM_FB_TMR_OFFSET) (MBYTES_TO_BYTES ?tmr)"
      using al vf by (simp add: update_ranges_ok_def Let_def)
    note k3 = manual_map_keeps' [OF 3 this ok]
    note k4 = map_keeps [OF k3 [unfolded keeps_def, THEN conjunct1] 4, THEN conjunct1]
    note k5 = map_keeps [OF k4 [unfolded keeps_def, THEN conjunct1] 5, THEN conjunct1]
    show ?thesis by (rule keeps_trans [OF k3 keeps_trans [OF k4 k5]])
  qed
  note s = apply_page_table_same [OF 2]
  from same_blocks_keeps [OF s k1 [unfolded keeps_def, THEN conjunct1]] k1 keeps_trans show ?thesis by blast
qed

lemma ffbm_step_keeps:
  assumes ok: "ffbm_ok fb" and al: "ffbm_allowed op fb" and res: "ffbm_step op fb = Inr fb'"
  shows "keeps fb fb'"
proof (cases op)
  case (Manual_Map vf sz gpa spa perm type)
  with res al manual_map_keeps' ok show ?thesis by (auto simp: cbind_eq_Inr_iff)
next
  case (Auto_Map vf gpa sz perm)
  with res map_keeps [OF ok] show ?thesis by (auto simp: cbind_eq_Inr_iff)
next
  case (Unmap_Spa spa)
  with res unmap_by_spa_keeps ok show ?thesis by simp
next
  case (Unmap_Fcn fuel vf reserve)
  with res unmap_loop_keeps ok keeps_refl show ?thesis
    by (auto simp: amdgv_ffbm_unmap_by_fcn_def split: if_splits)
next
  case (Replace_Pages bps)
  with res replace_bad_pages_keeps [OF ok] show ?thesis by (auto simp: cbind_eq_Inr_iff)
next
  case Apply_Table
  with res apply_page_table_same same_blocks_keeps ok show ?thesis by (fastforce simp: cbind_eq_Inr_iff)
next
  case (Update_Fcn vf)
  with res obtain r where u: "amdgv_ffbm_page_table_update_by_fcn vf fb = Inr (r, fb')"
    by (auto simp: cbind_eq_Inr_iff)
  have al': "update_ranges_ok fb vf" using al Update_Fcn by simp
  show ?thesis
  proof (cases "fb_enabled fb")
    case False
    with u ok show ?thesis by (simp add: amdgv_ffbm_page_table_update_by_fcn_def keeps_refl)
  next
    case True
    with u al' ok update_pf_keeps update_vf_keeps show ?thesis by (cases "vf = AMDGV_PF_IDX") blast+
  qed
qed

interpretation vram: block_owner ffbm_blocks "\<lambda>_. 0" ffbm_limit ffbm_ok ffbm_step ffbm_allowed
proof unfold_locales
  fix fb :: amdgv_ffbm and op
  show "ordered_from 0 (ffbm_blocks fb)" if "ffbm_ok fb" using ffbm_okD(4) [OF that] .
  show "block_end 0 (ffbm_blocks fb) \<le> ffbm_limit fb" if "ffbm_ok fb" using ffbm_okD(5) [OF that] .
  fix fb'
  assume "ffbm_ok fb" "ffbm_allowed op fb" "ffbm_step op fb = Inr fb'"
  from ffbm_step_keeps [OF this] show "ffbm_ok fb' \<and> (0::nat) = 0 \<and> ffbm_limit fb' = ffbm_limit fb"
    by (simp add: keeps_def same_config_def ffbm_limit_def)
qed

end
