(* ===== verification/GV_Ffbm_Run.thy ===== *)
theory GV_Ffbm_Run imports GV_Ffbm_Props
begin

text \<open>Runs of the frame-buffer block manager: the rules that evaluate its operations on concrete
  tables, the properties that hold along every sequence of operations (isolation of the blocks,
  tiling of the frame buffer), and the places where the code departs from its contract, each shown on
  a table that evaluates.\<close>

section \<open>Evaluation\<close>

text \<open>Rules that evaluate the operations on a concrete state, the argument of a \<open>let\<close> or a bind
  before its body, and the state of the examples: 128 MiB of frame buffer, two VFs, one reserved
  page and a TMR of 2 MiB, as \<^verbatim>\<open>amdgv_ffbm_page_table_init\<close> leaves it.\<close>

lemma cbind_weak: "m = m' \<Longrightarrow> cbind m f = cbind m' f"
  by simp

lemma let_weak: "m = m' \<Longrightarrow> Let m f = Let m' f"
  by simp

lemma unused_block_numeral:
  "unused_block (numeral v) i u = (if u i = False then Some i else unused_block (pred_numeral v) (Suc i) u)"
  by (simp add: numeral_eq_Suc)

lemmas ev_congs = cbind_weak let_weak prod.case_cong_weak

lemmas ev_lists = AMDGV_INIT_LIST_HEAD_def list_add_def amdgv_list_add_def amdgv_list_add_tail_def list_del_def amdgv_list_del_def
  amdgv_list_del_init_def amdgv_list_empty_def list_search.simps list_entries.simps

lemmas ev_ffbm = AMDGV_INVALID_IDX_VF_def MBYTES_TO_BYTES_def AMDGV_FFBM_PAGE_SIZE_def AMDGV_FFBM_PAGE_ALIGN_def
  AMDGV_FFBM_PAGE_ALIGN_CEIL_def AMDGV_FFBM_ADDR_IN_RANGE_def AMDGV_FFBM_ADDR_SIZE_IN_RANGE_def AMDGV_FFBM_MAP_SIZE_VALID_def
  AMDGV_FFBM_TMR_ADDR_VALID_def pteb_zero_def unused_block_numeral amdgv_ffbm_allocate_block_def amdgv_ffbm_free_block_def
  amdgv_ffbm_pteb_update_def amdgv_ffbm_pteb_init_def pteb_set_size_def gpa_head_def node_of_def nodes_of.simps gpa_nodes_def gpa_find_def
  gpa_linked_def navi32_ffbm_request_access_def navi32_ffbm_apply_pteb_def navi32_ffbm_invalidate_tlb_def needs_apply_def apply_nodes.simps apply_vfs.simps
  amdgv_ffbm_apply_page_table_def amdgv_ffbm_find_pteb_by_phy_def amdgv_ffbm_find_pteb_by_ffbm_def amdgv_ffbm_find_empty_pteb_def
  insert_after.simps amdgv_ffbm_pteb_divide_size_def amdgv_ffbm_create_new_pteb_def amdgv_ffbm_pteb_hole_by_phy_def gap_walk.simps
  is_gpaess_valid_def amdgv_ffbm_insert_new_ffbm_node_def amdgv_ffbm_manual_map_def map_round_def map_loop.simps amdgv_ffbm_map_def
  amdgv_ffbm_invalidate_and_unapply_pteb_def spa_prev.simps spa_next.simps spa_head_type_def neighbour_type_def merge_front_def merge_back_def
  amdgv_ffbm_unmap_pteb_def amdgv_ffbm_unmap_by_spa_def unmap_loop.simps amdgv_ffbm_unmap_by_fcn_def


lemma fun_numerals:
  "init_heads (numeral v) L =
     AMDGV_INIT_LIST_HEAD (GHead (pred_numeral v)) (init_heads (pred_numeral v) L)"
  "destroy_vfs (numeral v) i fb = destroy_vfs (Suc (pred_numeral v)) i fb"
  "reserve_blocks (numeral v) j a b c fb = reserve_blocks (Suc (pred_numeral v)) j a b c fb"
  "apply_vfs (numeral v) i r = apply_vfs (Suc (pred_numeral v)) i r"
  by (simp_all only: numeral_eq_Suc init_heads.simps)

lemmas ev_init = fun_numerals amdgv_ffbm_sw_init_def amdgv_ffbm_page_table_init_def
  amdgv_ffbm_page_table_destroy_def destroy_vfs.simps destroy_walk.simps amdgv_ffbm_free_all_block_def
  clear_nodes_def reserve_blocks.simps amdgv_ffbm_page_table_update_by_fcn_def

lemmas ev_replace = copy4_def replace_copy.simps find_reserved_def amdgv_ffbm_replace_page_def
  replace_pages.simps amdgv_ffbm_replace_bad_pages_def

lemmas ev_all = ev_init ev_ffbm ev_lists ev_replace Let_def

text \<open>A state with the blocks \<open>pts\<close> of the pool in use, in the order \<open>spa\<close>, and the list
  pointers \<open>ps\<close>; a cell that is not in \<open>ps\<close> points to itself.\<close>

definition points :: "(gpa_cell \<times> gpa_cell) list \<Rightarrow> gpa_cell \<Rightarrow> gpa_cell option" where
  "points ps c = (case map_of ps c of None \<Rightarrow> Some c | Some d \<Rightarrow> Some d)"

definition state_of :: "amdgv_ffbm_pte_block list \<Rightarrow> nat list \<Rightarrow> (gpa_cell \<times> gpa_cell) list \<Rightarrow>
    (gpa_cell \<times> gpa_cell) list \<Rightarrow> u8 \<Rightarrow> amdgv_ffbm" where
  "state_of pts spa ns qs frag = \<lparr>fb_used = (\<lambda>i. i < length pts), fb_pt = (\<lambda>i. if i < length pts then pts ! i else pteb_zero),
     fb_gpa = \<lparr>nxt = points ns, prv = points qs\<rparr>, fb_spa = spa, fb_bad_block_count = 0,
     fb_reserved_block_count = 0, fb_total_physical_size = 0x8000000, fb_enabled = True,
     fb_default_fragment = frag, fb_max_reserved_block = 1, fb_share_tmr = True, fb_num_vf = 2,
     fb_max_num_vf = 2, fb_tmr_size = 2,
     fb_vf = (\<lambda>v. \<lparr>vd_fb_offset = 0, vd_fb_size = (if v = 31 then 8 else 32), vd_fb_size_tmr = 34\<rparr>),
     fb_total_fb_avail = 128, fb_total_fb_usable = 124, fb_allocated_tmr_size = 0x200000,
     fb_sw_init = False, fb_mem = (\<lambda>_. 0), fb_grant = (\<lambda>_. True), fb_trace = []\<rparr>"

definition pte :: "u64 \<Rightarrow> u64 \<Rightarrow> u64 \<Rightarrow> u32 \<Rightarrow> amdgv_ffbm_mem_type \<Rightarrow> bool \<Rightarrow> amdgv_ffbm_pte_block" where
  "pte gpa spa sz vf type app = \<lparr>pt_gpa = gpa, pt_spa = spa, pt_size = sz, pt_fragment = 9,
     pt_permission = 3, pt_vf_idx = vf, pt_type = type, pt_applied = app\<rparr>"

definition sample_ffbm :: amdgv_ffbm where
  "sample_ffbm = state_of
     [pte 0 0 0x200000 31 AMDGV_FFBM_MEM_TYPE_PF False,
      pte 0x200000 0x200000 0x200000 31 AMDGV_FFBM_MEM_TYPE_TMR False,
      pte (- 1) 0x400000 0x7600000 3 AMDGV_FFBM_MEM_TYPE_NOT_ASSIGNED False,
      pte (- 1) 0x7A00000 0x200000 3 AMDGV_FFBM_MEM_TYPE_RESERVED False,
      pte (- 1) 0x7C00000 0x400000 3 AMDGV_FFBM_MEM_TYPE_PF False] [0, 1, 2, 3, 4] [] [] 9"

text \<open>The state in which an operation ends; a fault is not a state.\<close>

definition step_state :: "ffbm_op \<Rightarrow> amdgv_ffbm \<Rightarrow> amdgv_ffbm" where
  "step_state op fb = (case ffbm_step op fb of Inl e \<Rightarrow> fb | Inr fb' \<Rightarrow> fb')"

lemmas sample_eval = sample_ffbm_def state_of_def points_def pte_def step_state_def ev_all

lemma sample_ok: "ffbm_ok sample_ffbm \<and> tiled sample_ffbm"
  by (simp add: sample_eval ffbm_ok_def tiled_def ffbm_blocks_def pt_block_def pteb_ok_def page_def
      ffbm_limit_def cong: ev_congs)

lemma sample_run1: "ffbm_step (Update_Fcn 0) sample_ffbm = Inr (step_state (Update_Fcn 0) sample_ffbm)"
  by (simp add: sample_eval cong: ev_congs)

section \<open>Properties of the table\<close>





text \<open>The operations that only divide, map and give back blocks.\<close>

fun regroups :: "ffbm_op \<Rightarrow> amdgv_ffbm \<Rightarrow> bool" where
  "regroups (Auto_Map vf gpa sz perm) fb = True"
| "regroups (Unmap_Spa spa) fb = True"
| "regroups (Unmap_Fcn fuel vf reserve) fb = True"
| "regroups Apply_Table fb = True"
| "regroups op fb = False"

lemma unmap_by_spa_tiled:
  assumes "amdgv_ffbm_unmap_by_spa spa fb = Inr fb'" and "ffbm_ok fb" and "tiled fb"
  shows "tiled fb'"
  using assms unmap_keeps by (auto simp: amdgv_ffbm_unmap_by_spa_def split: option.splits)

lemma regroups_tiled:
  assumes "regroups op fb" and ok: "ffbm_ok fb" and t: "tiled fb" and res: "ffbm_step op fb = Inr fb'"
  shows "tiled fb'"
proof (cases op)
  case (Auto_Map vf gpa sz perm)
  with res map_keeps [OF ok] t show ?thesis by (auto simp: cbind_eq_Inr_iff)
next
  case (Unmap_Spa spa)
  with res unmap_by_spa_tiled ok t show ?thesis by simp
next
  case (Unmap_Fcn fuel vf reserve)
  with res unmap_loop_keeps [OF ok] t show ?thesis
    by (auto simp: amdgv_ffbm_unmap_by_fcn_def split: if_splits)
next
  case Apply_Table
  with res apply_page_table_same same_blocks_keeps ok t show ?thesis by (fastforce simp: cbind_eq_Inr_iff)
qed (use assms(1) in simp_all)

interpretation tiling: block_owner ffbm_blocks "\<lambda>_. 0" ffbm_limit "\<lambda>fb. ffbm_ok fb \<and> tiled fb"
  ffbm_step regroups
proof unfold_locales
  fix fb :: amdgv_ffbm and op
  show "ordered_from 0 (ffbm_blocks fb)" if "ffbm_ok fb \<and> tiled fb" using ffbm_okD(4) that by blast
  show "block_end 0 (ffbm_blocks fb) \<le> ffbm_limit fb" if "ffbm_ok fb \<and> tiled fb"
    using ffbm_okD(5) that by blast
  fix fb'
  assume ok: "ffbm_ok fb \<and> tiled fb" and r: "regroups op fb" and s: "ffbm_step op fb = Inr fb'"
  have "ffbm_allowed op fb" using r by (cases op) simp_all
  from ffbm_step_keeps [OF _ this s] regroups_tiled [OF r _ _ s] ok
  show "(ffbm_ok fb' \<and> tiled fb') \<and> (0::nat) = 0 \<and> ffbm_limit fb' = ffbm_limit fb"
    by (simp add: keeps_def same_config_def ffbm_limit_def)
qed

lemma contiguous_covers:
  "contiguous_from h bs \<Longrightarrow> h \<le> x \<Longrightarrow> x < block_end h bs \<Longrightarrow> \<exists>b \<in> set bs. fst b \<le> x \<and> x < snd b"
proof (induction h bs rule: contiguous_from.induct)
  case (1 h)
  then show ?case by simp
next
  case (2 h lo hi bs)
  then show ?case by (cases "x < hi") auto
qed

text \<open>C7. Mapping and unmapping lose no memory: if the blocks tile the frame buffer, then after any
  sequence of automatic mappings, unmappings and applications of the table every physical address
  below the managed size still lies in a block, so \<^verbatim>\<open>amdgv_ffbm_find_pteb_by_phy\<close> and
  \<^verbatim>\<open>amdgv_ffbm_spa_to_gpa\<close> find its owner.\<close>

theorem ffbm_mapping_keeps_tiling:
  assumes "ffbm_ok fb" and "tiled fb" and "runs ffbm_step regroups fb ops fb'"
    and "unat x < ffbm_limit fb"
  shows "\<exists>i \<in> set (fb_spa fb'). amdgv_ffbm_find_pteb_by_phy fb' x = Some i \<and>
    amdgv_ffbm_spa_to_gpa fb' x =
      (pt_gpa (fb_pt fb' i) + (x - pt_spa (fb_pt fb' i)), Some (pt_vf_idx (fb_pt fb' i)))"
proof -
  have inv: "ffbm_ok fb'" "tiled fb'" and lim: "ffbm_limit fb' = ffbm_limit fb"
    using tiling.run_inv [OF assms(3)] assms(1,2) by simp_all
  have c: "contiguous_from 0 (ffbm_blocks fb')" "unat x < block_end 0 (ffbm_blocks fb')"
    using inv(2) assms(4) lim by (simp_all add: tiled_def)
  from contiguous_covers [OF c(1) _ c(2)] obtain b where b: "b \<in> set (ffbm_blocks fb')"
    "fst b \<le> unat x" "unat x < snd b" by auto
  from b(1) obtain i where i: "i \<in> set (fb_spa fb')" and bi: "b = pt_block (fb_pt fb' i)"
    by (auto simp: ffbm_blocks_def)
  have "AMDGV_FFBM_ADDR_IN_RANGE (pt_spa (fb_pt fb' i)) (pt_size (fb_pt fb' i)) x"
    using b(2,3) unfolding bi ADDR_IN_RANGE_iff [OF pteb_bounds(2) [OF inv(1) i]] pt_block_def by simp
  with i obtain j where f: "amdgv_ffbm_find_pteb_by_phy fb' x = Some j"
    by (cases "amdgv_ffbm_find_pteb_by_phy fb' x") (auto simp: amdgv_ffbm_find_pteb_by_phy_def find_None_iff)
  have "j \<in> set (fb_spa fb')" using find_by_phy_spec [OF f] by simp
  then show ?thesis using f by (intro bexI [of _ j]) (simp_all add: amdgv_ffbm_spa_to_gpa_def)
qed

lemma sample_run2: "ffbm_step (Auto_Map 0 0 0x2000000 3) sample_ffbm =
    Inr (step_state (Auto_Map 0 0 0x2000000 3) sample_ffbm)"
  by (simp add: sample_eval cong: ev_congs)

theorem ffbm_mapping_keeps_tiling_witness:
  "\<exists>fb' i. runs ffbm_step regroups sample_ffbm [Auto_Map 0 0 0x2000000 3] fb' \<and>
     amdgv_ffbm_find_pteb_by_phy fb' 0x500000 = Some i"
proof -
  have run: "runs ffbm_step regroups sample_ffbm [Auto_Map 0 0 0x2000000 3]
      (step_state (Auto_Map 0 0 0x2000000 3) sample_ffbm)"
    by (rule runs.more [where step = ffbm_step, OF _ sample_run2 runs.none]) simp
  have "unat (0x500000 :: u64) < ffbm_limit sample_ffbm" by (simp add: sample_eval ffbm_limit_def)
  from ffbm_mapping_keeps_tiling [OF conjunct1 [OF sample_ok] conjunct2 [OF sample_ok] run this] run
  show ?thesis by blast
qed

section \<open>Where the code departs from its contract\<close>

text \<open>A table of 4 KiB pages with two VF pages: one behind a free block, one in front of one.\<close>

definition pte4 :: "u64 \<Rightarrow> u64 \<Rightarrow> u64 \<Rightarrow> u32 \<Rightarrow> amdgv_ffbm_mem_type \<Rightarrow> amdgv_ffbm_pte_block" where
  "pte4 gpa spa sz vf type = \<lparr>pt_gpa = gpa, pt_spa = spa, pt_size = sz, pt_fragment = 0,
     pt_permission = 3, pt_vf_idx = vf, pt_type = type, pt_applied = False\<rparr>"

definition small_ffbm :: amdgv_ffbm where
  "small_ffbm = state_of
     [pte4 (- 1) 0 0x10000 3 AMDGV_FFBM_MEM_TYPE_NOT_ASSIGNED,
      pte4 0x1000 0x10000 0x1000 0 AMDGV_FFBM_MEM_TYPE_VF,
      pte4 (- 1) 0x11000 0x1000 3 AMDGV_FFBM_MEM_TYPE_PF,
      pte4 0 0x12000 0x1000 0 AMDGV_FFBM_MEM_TYPE_VF,
      pte4 (- 1) 0x13000 0xD000 3 AMDGV_FFBM_MEM_TYPE_NOT_ASSIGNED,
      pte4 (- 1) 0x20000 0x1000 3 AMDGV_FFBM_MEM_TYPE_RESERVED,
      pte4 (- 1) 0x21000 0x7FDF000 3 AMDGV_FFBM_MEM_TYPE_PF] [0, 1, 2, 3, 4, 5, 6]
     [(GHead 0, GNode 1), (GNode 1, GNode 3), (GNode 3, GHead 0)]
     [(GHead 0, GNode 3), (GNode 1, GHead 0), (GNode 3, GNode 1)] 0"

lemmas small_eval = small_ffbm_def pte4_def sample_eval

lemma small_ok: "ffbm_ok small_ffbm \<and> tiled small_ffbm"
  by (simp add: small_eval ffbm_ok_def tiled_def ffbm_blocks_def pt_block_def pteb_ok_def page_def
      ffbm_limit_def cong: ev_congs)

text \<open>Replacing a bad page next to free memory loses track of it. When the block in front of the
  page is free, giving the page back merges it into that block before it is marked: the replacement
  reports success and counts a bad block, but the bad page lies in a block that is not assigned, and
  the next mapping hands it out. When the block behind is free, the merged block is cut to one page:
  the free memory behind it is in no block any more.\<close>

theorem ffbm_bad_page_next_to_free:
  "(\<exists>fb i. amdgv_ffbm_replace_page 0x10000 small_ffbm = Inr (0, fb) \<and> fb_bad_block_count fb = 1 \<and>
      amdgv_ffbm_find_pteb_by_phy fb 0x10000 = Some i \<and>
      pt_type (fb_pt fb i) = AMDGV_FFBM_MEM_TYPE_NOT_ASSIGNED) \<and>
   (\<exists>fb. amdgv_ffbm_replace_page 0x12000 small_ffbm = Inr (0, fb) \<and>
      amdgv_ffbm_find_pteb_by_phy small_ffbm 0x14000 = Some 4 \<and>
      amdgv_ffbm_find_pteb_by_phy fb 0x14000 = None)"
  by (simp add: small_eval cong: ev_congs)

text \<open>A size that is not a multiple of the page size maps everything: the division of the free
  block is refused, the refusal is ignored, and a request for 3 MiB gives the VF the whole free block
  of 118 MiB and reports success.\<close>

theorem ffbm_map_unaligned_takes_all:
  "\<exists>fb. amdgv_ffbm_map 0 0 0x300000 3 AMDGV_FFBM_MEM_TYPE_VF sample_ffbm = Inr (0, fb) \<and>
     pt_type (fb_pt fb 2) = AMDGV_FFBM_MEM_TYPE_VF \<and> pt_vf_idx (fb_pt fb 2) = 0 \<and>
     pt_size (fb_pt fb 2) = 0x7600000 \<and>
     amdgv_ffbm_find_empty_pteb fb 0 = None"
  by (simp add: sample_eval cong: ev_congs)

text \<open>The table right after \<^verbatim>\<open>amdgv_ffbm_page_table_init\<close> has created its first block, which has
  the gpa 0 and not the invalid address.\<close>

definition fresh_ffbm :: amdgv_ffbm where
  "fresh_ffbm = state_of [pte 0 0 0x8000000 3 AMDGV_FFBM_MEM_TYPE_NOT_ASSIGNED False] [0] [] [] 9"

definition ring1 :: amdgv_ffbm where
  "ring1 = step_state (Manual_Map 0 0x1000000 0x1000000 0x3000000 3 AMDGV_FFBM_MEM_TYPE_VF) fresh_ffbm"

definition ring2 :: amdgv_ffbm where
  "ring2 = step_state (Manual_Map 1 0x1000000 0x1000000 0x1000000 3 AMDGV_FFBM_MEM_TYPE_VF) ring1"

definition ring3 :: amdgv_ffbm where
  "ring3 = step_state Apply_Table ring2"

lemmas ring_eval = ring3_def ring2_def ring1_def fresh_ffbm_def sample_eval

lemma ring_steps:
  "ffbm_step (Manual_Map 0 0x1000000 0x1000000 0x3000000 3 AMDGV_FFBM_MEM_TYPE_VF) fresh_ffbm = Inr ring1"
  "ffbm_step (Manual_Map 1 0x1000000 0x1000000 0x1000000 3 AMDGV_FFBM_MEM_TYPE_VF) ring1 = Inr ring2"
  "ffbm_step Apply_Table ring2 = Inr ring3"
  by (simp add: ring_eval cong: ev_congs)+

lemma search_self_loop:
  assumes "nxt L c = Some c" and "c \<noteq> h" and "P c = Inr False"
  shows "list_search fuel P L h (Some c) = Inl Endless_Loop"
proof (induction fuel)
  case 0
  then show ?case using assms by (simp add: list_search.simps)
next
  case (Suc n)
  then show ?case using assms by (subst list_search.simps) simp
qed

text \<open>The table after the first block of VF 0 has been unmapped.\<close>

definition ring4 :: amdgv_ffbm where
  "ring4 = (case amdgv_ffbm_unmap_pteb 1 ring3 of Inl e \<Rightarrow> ring3 | Inr fb \<Rightarrow> fb)"

lemma ring3_facts:
  "gpa_find (\<lambda>i. pt_vf_idx (fb_pt ring3 i) = 0 \<and> pt_applied (fb_pt ring3 i)) ring3 0 = Inr (Some (GNode 1))"
  "amdgv_ffbm_unmap_pteb 1 ring3 = Inr ring4"
  "fb_enabled ring3"
  by (simp add: ring4_def ring_eval cong: ev_congs)+

lemma ring4_facts:
  "nxt (fb_gpa ring4) (GHead 0) = Some (GNode 1)" "nxt (fb_gpa ring4) (GNode 1) = Some (GNode 1)"
  "pt_vf_idx (fb_pt ring4 1) = 3"
  by (simp add: ring4_def ring_eval cong: ev_congs)+


lemma ring4_search: "gpa_find (\<lambda>i. pt_vf_idx (fb_pt ring4 i) = 0 \<and> pt_applied (fb_pt ring4 i)) ring4 0 =
    Inl Endless_Loop"
  by (simp add: gpa_find_def gpa_head_def ring4_facts search_self_loop node_of_def del: One_nat_def)

text \<open>The first block of the table is created with the gpa 0 where a free block has the invalid
  address, so dividing it links the two halves into a ring of free blocks, which the division of a
  block of that ring extends. After two manual mappings, for VF 0 and for VF 1, the list of VF 0 runs
  through the block of VF 1, and unmapping VF 0 never ends: its list runs into a block that points to
  itself. No number of rounds is enough.\<close>

theorem ffbm_ring_corrupts_vf_list:
  "\<exists>a b c. ffbm_step (Manual_Map 0 0x1000000 0x1000000 0x3000000 3 AMDGV_FFBM_MEM_TYPE_VF) fresh_ffbm = Inr a \<and>
     ffbm_step (Manual_Map 1 0x1000000 0x1000000 0x1000000 3 AMDGV_FFBM_MEM_TYPE_VF) a = Inr b \<and>
     ffbm_step Apply_Table b = Inr c \<and>
     (\<forall>fuel. amdgv_ffbm_unmap_by_fcn fuel 0 False c = Inl Endless_Loop)"
proof (intro exI conjI allI)
  show "ffbm_step (Manual_Map 0 0x1000000 0x1000000 0x3000000 3 AMDGV_FFBM_MEM_TYPE_VF) fresh_ffbm = Inr ring1"
    "ffbm_step (Manual_Map 1 0x1000000 0x1000000 0x1000000 3 AMDGV_FFBM_MEM_TYPE_VF) ring1 = Inr ring2"
    "ffbm_step Apply_Table ring2 = Inr ring3"
    by (fact ring_steps)+
  have stuck: "unmap_loop fuel 0 False ring4 = Inl Endless_Loop" for fuel
    by (subst unmap_loop.simps) (simp add: ring4_search)
  show "amdgv_ffbm_unmap_by_fcn fuel 0 False ring3 = Inl Endless_Loop" for fuel
    unfolding amdgv_ffbm_unmap_by_fcn_def
    by (subst unmap_loop.simps) (cases fuel, simp_all add: ring3_facts stuck node_of_def del: One_nat_def)
qed

text \<open>When the hardware refuses access to the translation table, a block stays applied, and
  \<^verbatim>\<open>amdgv_ffbm_unmap_by_fcn\<close> with \<open>reserve\<close>, which looks for an applied block until there is none,
  finds the same block again for ever.\<close>

theorem ffbm_denied_access_never_ends:
  assumes "fb_enabled fb" and "\<forall>k. \<not> fb_grant fb k"
    and "gpa_find (\<lambda>i. pt_vf_idx (fb_pt fb i) = vf \<and> pt_applied (fb_pt fb i)) fb vf = Inr (Some (GNode i))"
  shows "amdgv_ffbm_unmap_by_fcn fuel vf True fb = Inl Endless_Loop"
proof -
  define P where "P fb' \<longleftrightarrow> fb_pt fb' = fb_pt fb \<and> fb_gpa fb' = fb_gpa fb \<and> fb_grant fb' = fb_grant fb" for fb' :: amdgv_ffbm
  have keep: "P (amdgv_ffbm_invalidate_and_unapply_pteb i fb')" if "P fb'" for fb'
    using that assms(2) by (auto simp: P_def amdgv_ffbm_invalidate_and_unapply_pteb_def Let_def
      navi32_ffbm_invalidate_tlb_def navi32_ffbm_apply_pteb_def navi32_ffbm_request_access_def)
  have "unmap_loop fuel vf True fb' = Inl Endless_Loop" if "P fb'" for fb'
    using that
  proof (induction fuel arbitrary: fb')
    case 0
    then have "gpa_find (\<lambda>i. pt_vf_idx (fb_pt fb' i) = vf \<and> pt_applied (fb_pt fb' i)) fb' vf = Inr (Some (GNode i))"
      using assms(3) by (simp add: P_def gpa_find_def)
    then show ?case by (subst unmap_loop.simps) simp
  next
    case (Suc n)
    then have "gpa_find (\<lambda>i. pt_vf_idx (fb_pt fb' i) = vf \<and> pt_applied (fb_pt fb' i)) fb' vf = Inr (Some (GNode i))"
      using assms(3) by (simp add: P_def gpa_find_def)
    then show ?case using Suc.IH [OF keep [OF Suc.prems]]
      by (subst unmap_loop.simps) (simp add: node_of_def)
  qed
  then show ?thesis using assms(1) by (simp add: amdgv_ffbm_unmap_by_fcn_def P_def)
qed

definition denied_ffbm :: amdgv_ffbm where
  "denied_ffbm = ring3\<lparr>fb_grant := (\<lambda>_. False)\<rparr>"

theorem ffbm_denied_access_never_ends_witness:
  "amdgv_ffbm_unmap_by_fcn 1000 0 True denied_ffbm = Inl Endless_Loop"
proof (rule ffbm_denied_access_never_ends)
  show "gpa_find (\<lambda>i. pt_vf_idx (fb_pt denied_ffbm i) = 0 \<and> pt_applied (fb_pt denied_ffbm i)) denied_ffbm 0 =
      Inr (Some (GNode 1))"
    using ring3_facts(1) by (simp add: denied_ffbm_def gpa_find_def)
qed (simp_all add: denied_ffbm_def ring3_facts)


text \<open>The table after VF 0 got its memory: the list of the VF is in descending order of the gpa.\<close>

definition vf0_ffbm :: amdgv_ffbm where
  "vf0_ffbm = step_state (Update_Fcn 0) sample_ffbm"

lemma vf0_list:
  "gpa_nodes vf0_ffbm 0 = Inr [6, 5, 2]"
  "map (\<lambda>i. (pt_gpa (fb_pt vf0_ffbm i), pt_size (fb_pt vf0_ffbm i))) [6, 5, 2] =
     [(0x400000, 0x1E00000), (0x200000, 0x200000), (0, 0x200000)]"
  by (simp add: vf0_ffbm_def sample_eval cong: ev_congs)+

text \<open>The list of a VF is in descending order, and two walks read it as if it were ascending. In
  the table that \<^verbatim>\<open>amdgv_ffbm_page_table_update_by_fcn\<close> builds for VF 0, \<^verbatim>\<open>is_gpaess_valid\<close>
  accepts the 2 MiB at gpa 0, which are mapped, and the manual mapping there succeeds; and copying
  4 MiB to gpa 0 copies the first block only and leaves 2 MiB.\<close>

theorem ffbm_descending_list:
  "(\<exists>fb. ffbm_step (Update_Fcn 0) sample_ffbm = Inr fb \<and>
     is_gpaess_valid fb 0x200000 0 0 = Inr True \<and> amdgv_ffbm_find_pteb_by_ffbm fb 0 0 = Inr (Some 2) \<and>
     (\<exists>fb'. amdgv_ffbm_manual_map 0 0x200000 0 0x4000000 3 AMDGV_FFBM_MEM_TYPE_VF fb = Inr (0, fb')) \<and>
     (\<exists>fb'. amdgv_ffbm_copy_to_gpa (\<lambda>_. 1) 0 0 0x400000 fb = Inr (0x200000, fb')))"
proof (intro exI conjI)
  show "ffbm_step (Update_Fcn 0) sample_ffbm = Inr vf0_ffbm"
    unfolding vf0_ffbm_def by (rule sample_run1)
  show "is_gpaess_valid vf0_ffbm 0x200000 0 0 = Inr True"
    by (simp add: vf0_ffbm_def sample_eval cong: ev_congs)
  show "amdgv_ffbm_find_pteb_by_ffbm vf0_ffbm 0 0 = Inr (Some 2)"
    by (simp add: vf0_ffbm_def sample_eval cong: ev_congs)
  show "amdgv_ffbm_manual_map 0 0x200000 0 0x4000000 3 AMDGV_FFBM_MEM_TYPE_VF vf0_ffbm =
      Inr (0, step_state (Manual_Map 0 0x200000 0 0x4000000 3 AMDGV_FFBM_MEM_TYPE_VF) vf0_ffbm)"
    by (simp add: vf0_ffbm_def sample_eval cong: ev_congs)
  show "amdgv_ffbm_copy_to_gpa (\<lambda>_. 1) 0 0 0x400000 vf0_ffbm = Inr (0x200000, vf0_ffbm\<lparr>fb_mem :=
      mem_copy (fb_mem vf0_ffbm) 0x400000 (\<lambda>_. 1) 0 0x200000\<rparr>)"
    by (simp add: vf0_ffbm_def amdgv_ffbm_copy_to_gpa_def copy_to_walk.simps data_offset_def sample_eval cong: ev_congs)
qed

end
