(* ===== verification/GV_Ffbm_Lists.thy ===== *)
theory GV_Ffbm_Lists imports GV_Ffbm_Run "HOL-Library.Multiset"
begin

text \<open>The lists of the functions in the frame-buffer block manager: the mapping list that the API
  shows, the well-formed lists and what mapping, translation and copying do to them, and the tables
  that set-up and live update build.\<close>

section \<open>The mapping list\<close>

text \<open>A pass over \<open>k\<close> neighbours keeps what lies behind, carries the largest gpa of the first
  \<open>k + 1\<close> entries to place \<open>k\<close>, and keeps the order of entries with the same gpa.\<close>

lemma bubble_pass_mset: "bubble_pass k r = (r', s) \<Longrightarrow> mset r' = mset r"
  by (induction k r arbitrary: r' s rule: bubble_pass.induct) (auto split: if_splits prod.splits)

lemma bubble_pass_filter:
  "bubble_pass k r = (r', s) \<Longrightarrow> filter (\<lambda>e. g = me_gpa e) r' = filter (\<lambda>e. g = me_gpa e) r"
  by (induction k r arbitrary: r' s rule: bubble_pass.induct)
    (auto split: if_splits prod.splits)

lemma bubble_pass_drop: "bubble_pass k r = (r', s) \<Longrightarrow> drop (Suc k) r' = drop (Suc k) r"
  by (induction k r arbitrary: r' s rule: bubble_pass.induct) (auto split: if_splits prod.splits)

lemma bubble_pass_max:
  "bubble_pass k r = (r', s) \<Longrightarrow> k < length r \<Longrightarrow> e \<in> set (take (Suc k) r') \<Longrightarrow> me_gpa e \<le> me_gpa (r' ! k)"
proof (induction k r arbitrary: r' s e rule: bubble_pass.induct)
  case (1 k x y r)
  then obtain z q t where p: "bubble_pass k (z # r) = (q, t)" "r' = (if me_gpa y < me_gpa x then y else x) # q"
    "z = (if me_gpa y < me_gpa x then x else y)"
    by (auto split: if_splits prod.splits)
  have IH: "\<And>e. e \<in> set (take (Suc k) q) \<Longrightarrow> me_gpa e \<le> me_gpa (q ! k)"
    using 1 p by (auto split: if_splits)
  have "set (take (Suc k) q) = set (take (Suc k) (z # r))"
    using bubble_pass_mset [OF p(1)] bubble_pass_drop [OF p(1)]
    by (metis append_take_drop_id mset_append add_right_cancel mset_eq_setD)
  then have "me_gpa z \<le> me_gpa (q ! k)" using IH by simp
  then show ?case using "1.prems"(3) IH p by (auto split: if_splits)
qed (auto simp: neq_Nil_conv)

lemma sorted_take_1: "sorted (map f (take (Suc 0) r))"
  by (cases r) simp_all

lemma bubble_pass_quiet:
  "bubble_pass k r = (r', False) \<Longrightarrow> r' = r \<and> sorted (map me_gpa (take (Suc k) r))"
proof (induction k r arbitrary: r' rule: bubble_pass.induct)
  case (1 k x y r)
  then obtain q where "bubble_pass k (y # r) = (q, False)" "r' = x # q" "me_gpa x \<le> me_gpa y"
    by (auto split: if_splits prod.splits)
  with 1(2) [OF _ this(1)] show ?case by (cases k) (auto intro: order_trans)
qed (auto simp: sorted_take_1)


definition settled :: "nat \<Rightarrow> ffbm_map_entry list \<Rightarrow> bool" where
  "settled m es \<longleftrightarrow> sorted (map me_gpa (drop m es)) \<and>
     (\<forall>a \<in> set (take m es). \<forall>b \<in> set (drop m es). me_gpa a \<le> me_gpa b)"

lemma bubble_pass_settled:
  assumes p: "bubble_pass (Suc k) es = (es', s)" and len: "Suc k < length es" and st: "settled (Suc (Suc k)) es"
  shows "settled (Suc k) es'"
proof -
  have d: "drop (Suc (Suc k)) es' = drop (Suc (Suc k)) es" by (rule bubble_pass_drop [OF p])
  have l: "length es' = length es" using bubble_pass_mset [OF p] by (metis size_mset)
  have "mset (take (Suc (Suc k)) es') = mset (take (Suc (Suc k)) es)"
    using bubble_pass_mset [OF p] d by (metis append_take_drop_id mset_append add_right_cancel)
  then have t: "set (take (Suc (Suc k)) es') = set (take (Suc (Suc k)) es)" by (rule mset_eq_setD)
  have c: "drop (Suc k) es' = es' ! Suc k # drop (Suc (Suc k)) es'"
    using l len by (simp add: Cons_nth_drop_Suc)
  have tk: "take (Suc (Suc k)) es' = take (Suc k) es' @ [es' ! Suc k]"
    using l len by (simp add: take_Suc_conv_app_nth)
  have m: "me_gpa e \<le> me_gpa (es' ! Suc k)" if "e \<in> set (take (Suc (Suc k)) es')" for e
    using bubble_pass_max [OF p len that] .
  have mem: "set (take (Suc k) es') \<subseteq> set (take (Suc (Suc k)) es')" "es' ! Suc k \<in> set (take (Suc (Suc k)) es')"
    by (auto simp: tk)
  show ?thesis using st m mem unfolding settled_def c d t by auto
qed

lemma bubble_sort_spec:
  assumes "settled (Suc k) es" and "k < length es" and "\<not> sw \<Longrightarrow> sorted (map me_gpa es)"
  shows "sorted (map me_gpa (bubble_sort k sw es)) \<and> mset (bubble_sort k sw es) = mset es \<and>
    (\<forall>g. filter (\<lambda>e. g = me_gpa e) (bubble_sort k sw es) = filter (\<lambda>e. g = me_gpa e) es)"
  using assms
proof (induction k arbitrary: sw es)
  case 0
  then obtain e r where "es = e # r" by (cases es) auto
  with 0 show ?case by (simp add: settled_def)
next
  case (Suc k)
  show ?case
  proof (cases sw)
    case False
    with Suc.prems show ?thesis by simp
  next
    case True
    obtain es' s where p: "bubble_pass (Suc k) es = (es', s)" by fastforce
    have l: "length es' = length es" using bubble_pass_mset [OF p] by (metis size_mset)
    have "sorted (map me_gpa es')" if "\<not> s"
    proof -
      have q: "es' = es" "sorted (map me_gpa (take (Suc (Suc k)) es))"
        using bubble_pass_quiet p that by auto
      then have "sorted (map me_gpa (take (Suc (Suc k)) es @ drop (Suc (Suc k)) es))"
        using Suc.prems(1) unfolding map_append settled_def sorted_append by auto
      with q(1) show ?thesis by simp
    qed
    from Suc.IH [OF bubble_pass_settled [OF p Suc.prems(2,1)] _ this] Suc.prems(2) l
    show ?thesis using True p bubble_pass_mset [OF p] bubble_pass_filter [OF p] by simp
  qed
qed

lemma bubble_sort_sort_key: "1 < length es \<Longrightarrow> bubble_sort (length es - 1) True es = sort_key me_gpa es"
  using bubble_sort_spec [of "length es - 1" es True]
  by (intro properties_for_sort_key [symmetric]) (simp_all add: settled_def)

text \<open>The entries of the blocks \<open>is\<close> that the caller asked for, at most 128.\<close>

definition shown_entries :: "bool \<Rightarrow> amdgv_ffbm \<Rightarrow> nat list \<Rightarrow> ffbm_map_entry list" where
  "shown_entries tmr fb is = take 128 (map (\<lambda>i. map_entry (fb_pt fb i))
     (filter (\<lambda>i. pt_type (fb_pt fb i) \<noteq> AMDGV_FFBM_MEM_TYPE_TMR \<or> tmr) is))"

text \<open>\<^verbatim>\<open>amdgv_get_vf_fb_mapping_list\<close> answers with the first 128 blocks of the VF, without the TMR
  block unless it is asked for, ordered by gpa: its bubble sort, which stops early, is a stable sort.\<close>

theorem ffbm_mapping_list_sorts:
  assumes "gpa_nodes fb vf = Inr is" and "fb_enabled fb" and "vf < 31"
  shows "amdgv_get_vf_fb_mapping_list vf tmr fb = Inr (0, sort_key me_gpa (shown_entries tmr fb is))"
proof -
  have sorts: "(if 1 < length es then bubble_sort (length es - 1) True es else es) = sort_key me_gpa es" for es
  proof (cases "1 < length es")
    case False
    then have "length es = 0 \<or> length es = 1" by linarith
    then show ?thesis by (auto simp: length_Suc_conv)
  qed (use bubble_sort_sort_key in simp)
  show ?thesis
    unfolding amdgv_get_vf_fb_mapping_list_def shown_entries_def Let_def
    by (simp only: assms sorts cbind_Inr if_True simp_thms)
qed

theorem ffbm_mapping_list_sorts_witness:
  "amdgv_get_vf_fb_mapping_list 0 False vf0_ffbm =
     Inr (0, [\<lparr>me_gpa = 0, me_spa = 0x400000, me_size = 0x200000\<rparr>,
              \<lparr>me_gpa = 0x400000, me_spa = 0x600000, me_size = 0x1E00000\<rparr>])"
proof -
  have "fb_enabled vf0_ffbm" by (simp add: vf0_ffbm_def sample_eval cong: ev_congs)
  from ffbm_mapping_list_sorts [OF vf0_list(1) this, of False]
  show ?thesis
    by (simp add: shown_entries_def vf0_ffbm_def map_entry_def sample_eval cong: ev_congs)
qed

section \<open>The lists of the functions\<close>

text \<open>The blocks on the list of each function: \<open>ls v\<close> is the list of VF \<open>v\<close>. The blocks of the lists
  are in use, no block is on two lists, and a free block has the invalid gpa and is on no list.\<close>

definition lists_ok :: "amdgv_ffbm \<Rightarrow> (nat \<Rightarrow> nat list) \<Rightarrow> bool" where
  "lists_ok fb ls \<longleftrightarrow>
     (\<forall>v < 32. chain (fb_gpa fb) (GHead v) (map GNode (ls v))) \<and>
     (\<forall>v < 32. \<forall>i \<in> set (ls v). i < 256 \<and> fb_used fb i \<and>
        \<not> (i \<in> set (fb_spa fb) \<and> pt_type (fb_pt fb i) = AMDGV_FFBM_MEM_TYPE_NOT_ASSIGNED)) \<and>
     (\<forall>v < 32. \<forall>w < 32. v \<noteq> w \<longrightarrow> set (ls v) \<inter> set (ls w) = {}) \<and>
     (\<forall>i \<in> set (fb_spa fb). fb_used fb i \<and>
        (pt_type (fb_pt fb i) = AMDGV_FFBM_MEM_TYPE_NOT_ASSIGNED \<longrightarrow> pt_gpa (fb_pt fb i) = AMDGV_FFBM_INVALID_ADDR))"

lemma lists_okD:
  assumes "lists_ok fb ls"
  shows "\<And>v. v < 32 \<Longrightarrow> chain (fb_gpa fb) (GHead v) (map GNode (ls v))"
    and "\<And>v i. v < 32 \<Longrightarrow> i \<in> set (ls v) \<Longrightarrow> i < 256 \<and> fb_used fb i \<and>
        \<not> (i \<in> set (fb_spa fb) \<and> pt_type (fb_pt fb i) = AMDGV_FFBM_MEM_TYPE_NOT_ASSIGNED)"
    and "\<And>v w. v < 32 \<Longrightarrow> w < 32 \<Longrightarrow> v \<noteq> w \<Longrightarrow> set (ls v) \<inter> set (ls w) = {}"
    and "\<And>i. i \<in> set (fb_spa fb) \<Longrightarrow> fb_used fb i"
    and "\<And>i. i \<in> set (fb_spa fb) \<Longrightarrow> pt_type (fb_pt fb i) = AMDGV_FFBM_MEM_TYPE_NOT_ASSIGNED \<Longrightarrow>
        pt_gpa (fb_pt fb i) = AMDGV_FFBM_INVALID_ADDR"
  using assms by (auto simp: lists_ok_def)

lemma list_distinct:
  assumes "chain L h (map GNode is)"
  shows "distinct is"
  using assms by (auto simp: chain_def distinct_map)

lemma list_length:
  assumes ok: "lists_ok fb ls" and v: "v < 32"
  shows "length (ls v) \<le> 256"
proof -
  have "set (ls v) \<subseteq> {..<256}" using lists_okD(2) [OF ok v] by auto
  from card_mono [OF _ this] show ?thesis
    using list_distinct [OF lists_okD(1) [OF ok v]] by (simp add: distinct_card)
qed

lemma gpa_head_ok: "vf < 32 \<Longrightarrow> gpa_head vf = Inr (GHead (unat vf))"
  by (simp add: gpa_head_def)

lemma vf_nat: "(vf::u32) < 32 \<Longrightarrow> unat vf < 32"
  by (simp add: word_less_nat_alt)


lemma gpa_nodes_list:
  assumes c: "chain (fb_gpa fb) (GHead (unat vf)) (map GNode is)" and v: "vf < 32" and l: "length is \<le> 288"
  shows "gpa_nodes fb vf = Inr is"
proof -
  have "nodes_of (map GNode is) = Inr is" by (induction "is") (simp_all add: node_of_def)
  then show ?thesis
    using chain_entries [OF c, of 288] l by (simp add: gpa_nodes_def gpa_head_ok [OF v])
qed



section \<open>Mapping returns\<close>


























section \<open>Translation and copies\<close>

text \<open>The guest address ranges of the blocks of a list do not wrap and do not overlap.\<close>

definition gpa_apart :: "amdgv_ffbm \<Rightarrow> nat list \<Rightarrow> bool" where
  "gpa_apart fb is \<longleftrightarrow> (\<forall>i \<in> set is. unat (pt_gpa (fb_pt fb i)) + unat (pt_size (fb_pt fb i)) < 2 ^ 64) \<and>
     (\<forall>i \<in> set is. \<forall>j \<in> set is. i \<noteq> j \<longrightarrow>
        apart (unat (pt_gpa (fb_pt fb i)), unat (pt_gpa (fb_pt fb i)) + unat (pt_size (fb_pt fb i)))
              (unat (pt_gpa (fb_pt fb j)), unat (pt_gpa (fb_pt fb j)) + unat (pt_size (fb_pt fb j))))"

definition gpa_in :: "amdgv_ffbm \<Rightarrow> u64 \<Rightarrow> nat \<Rightarrow> bool" where
  "gpa_in fb x i \<longleftrightarrow> AMDGV_FFBM_ADDR_IN_RANGE (pt_gpa (fb_pt fb i)) (pt_size (fb_pt fb i)) x"

lemma gpa_in_iff:
  assumes "gpa_apart fb is" and "i \<in> set is"
  shows "gpa_in fb x i \<longleftrightarrow> unat (pt_gpa (fb_pt fb i)) \<le> unat x \<and>
    unat x < unat (pt_gpa (fb_pt fb i)) + unat (pt_size (fb_pt fb i))"
  unfolding gpa_in_def by (rule ADDR_IN_RANGE_iff) (use assms in \<open>simp add: gpa_apart_def\<close>)

lemma gpa_in_unique:
  assumes a: "gpa_apart fb is" and i: "i \<in> set is" "gpa_in fb x i" and j: "j \<in> set is" "gpa_in fb x j"
  shows "j = i"
proof (rule ccontr)
  assume "j \<noteq> i"
  then have "apart (unat (pt_gpa (fb_pt fb j)), unat (pt_gpa (fb_pt fb j)) + unat (pt_size (fb_pt fb j)))
      (unat (pt_gpa (fb_pt fb i)), unat (pt_gpa (fb_pt fb i)) + unat (pt_size (fb_pt fb i)))"
    using a i(1) j(1) by (simp add: gpa_apart_def)
  from apart_no_common [OF this, of "unat x"] i j show False
    by (simp add: gpa_in_iff [OF a])
qed

lemma gpa_find_own:
  assumes a: "gpa_apart fb is" and i: "i \<in> set is" "gpa_in fb x i"
  shows "find (gpa_in fb x) is = Some i"
proof (cases "find (gpa_in fb x) is")
  case None
  with i show ?thesis by (auto simp: find_None_iff)
next
  case (Some j)
  then have "j \<in> set is" "gpa_in fb x j" by (auto simp: find_Some_iff)
  with gpa_in_unique [OF a i] Some show ?thesis by simp
qed



definition vf0_lists :: "nat \<Rightarrow> nat list" where
  "vf0_lists v = (if v = 0 then [6, 5, 2] else [])"


lemma vf0_chains:
  "chain (fb_gpa vf0_ffbm) (GHead 0) (map GNode [6, 5, 2])"
  "\<lbrakk>0 < v; v < 32\<rbrakk> \<Longrightarrow> chain (fb_gpa vf0_ffbm) (GHead v) []"
  by (simp_all add: chain_def vf0_ffbm_def sample_eval cong: ev_congs)

lemma vf0_blocks:
  "fb_spa vf0_ffbm = [0, 1, 2, 6, 7, 3, 4]"
  "\<forall>i \<in> {0, 1, 2, 3, 4, 5, 6, 7}. fb_used vf0_ffbm i"
  "pt_type (fb_pt vf0_ffbm 7) = AMDGV_FFBM_MEM_TYPE_NOT_ASSIGNED" "pt_gpa (fb_pt vf0_ffbm 7) = AMDGV_FFBM_INVALID_ADDR"
  "\<forall>i \<in> {0, 1, 2, 3, 4, 5, 6}. pt_type (fb_pt vf0_ffbm i) \<noteq> AMDGV_FFBM_MEM_TYPE_NOT_ASSIGNED"
  "pt_vf_idx (fb_pt vf0_ffbm 6) = 0"
  by (simp_all add: vf0_ffbm_def sample_eval cong: ev_congs)

lemma vf0_lists_ok: "lists_ok vf0_ffbm vf0_lists"
proof -
  have "chain (fb_gpa vf0_ffbm) (GHead v) (map GNode (vf0_lists v))" if "v < 32" for v
    using vf0_chains(1) vf0_chains(2) [of v] that by (simp add: vf0_lists_def)
  moreover have "set (vf0_lists v) \<subseteq> {2, 5, 6}" for v by (auto simp: vf0_lists_def)
  ultimately show ?thesis
    using vf0_blocks unfolding lists_ok_def by (auto simp: vf0_lists_def)
qed

lemma vf0_apart: "gpa_apart vf0_ffbm [6, 5, 2]"
  using vf0_list(2) by (simp add: gpa_apart_def apart_def)


text \<open>The walks of the two copies step over the blocks that do not hold the address.\<close>

lemma copy_to_skip:
  assumes "dl_path L a (map GNode is) h" and "fb_gpa fb = L" and "h \<notin> set (map GNode is)" and "length is \<le> fuel"
    and "find (gpa_in fb gpa) is = Some i" and "left \<noteq> 0"
    and "left \<le> pt_size (fb_pt fb i) - (gpa - pt_gpa (fb_pt fb i))"
  shows "copy_to_walk fuel fb h data sz gpa left m (nxt L a) =
    Inr (0, mem_copy m (pt_spa (fb_pt fb i) + (gpa - pt_gpa (fb_pt fb i))) data (data_offset (sz - left)) left)"
  using assms
proof (induction "is" arbitrary: a fuel)
  case Nil
  then show ?case by simp
next
  case (Cons j js)
  then obtain n where n: "fuel = Suc n" by (cases fuel) auto
  have ne: "h \<noteq> GNode j" and nx: "nxt L a = Some (GNode j)" using Cons.prems by auto
  show ?case
  proof (cases "gpa_in fb gpa j")
    case True
    with Cons.prems ne nx n show ?thesis
      by (subst copy_to_walk.simps) (auto simp: gpa_in_def node_of_def Let_def min_def)
  next
    case False
    have "copy_to_walk n fb h data sz gpa left m (nxt L (GNode j)) =
        Inr (0, mem_copy m (pt_spa (fb_pt fb i) + (gpa - pt_gpa (fb_pt fb i))) data (data_offset (sz - left)) left)"
      by (rule Cons.IH) (use Cons.prems False n in auto)
    with False Cons.prems(2,6) ne nx n show ?thesis
      by (subst copy_to_walk.simps) (simp add: gpa_in_def node_of_def Let_def)
  qed
qed

lemma copy_from_skip:
  assumes "dl_path L a (map GNode is) h" and "fb_gpa fb = L" and "h \<notin> set (map GNode is)" and "length is \<le> fuel"
    and "find (gpa_in fb gpa) is = Some i" and "left \<noteq> 0"
    and "left \<le> pt_size (fb_pt fb i) - (gpa - pt_gpa (fb_pt fb i))"
  shows "copy_from_walk fuel fb h sz gpa left data (nxt L a) =
    Inr (0, mem_copy data (data_offset (sz - left)) (fb_mem fb) (pt_spa (fb_pt fb i) + (gpa - pt_gpa (fb_pt fb i))) left)"
  using assms
proof (induction "is" arbitrary: a fuel)
  case Nil
  then show ?case by simp
next
  case (Cons j js)
  then obtain n where n: "fuel = Suc n" by (cases fuel) auto
  have ne: "h \<noteq> GNode j" and nx: "nxt L a = Some (GNode j)" using Cons.prems by auto
  show ?case
  proof (cases "gpa_in fb gpa j")
    case True
    with Cons.prems ne nx n show ?thesis
      by (subst copy_from_walk.simps) (auto simp: gpa_in_def node_of_def Let_def min_def)
  next
    case False
    have "copy_from_walk n fb h sz gpa left data (nxt L (GNode j)) =
        Inr (0, mem_copy data (data_offset (sz - left)) (fb_mem fb) (pt_spa (fb_pt fb i) + (gpa - pt_gpa (fb_pt fb i))) left)"
      by (rule Cons.IH) (use Cons.prems False n in auto)
    with False Cons.prems(2,6) ne nx n show ?thesis
      by (subst copy_from_walk.simps) (simp add: gpa_in_def node_of_def Let_def)
  qed
qed

text \<open>C28. Data copied to a guest address and read back from it is unchanged, as long as the range lies
  in one block: nothing is left over, the other bytes of the frame buffer keep their value, and the
  buffer that is read into holds the data in its first \<open>sz\<close> bytes. The list may be in any order.\<close>

theorem ffbm_copy_roundtrip:
  assumes ls: "lists_ok fb ls" and vf: "vf < 32" and ap: "gpa_apart fb (ls (unat vf))"
    and i: "i \<in> set (ls (unat vf))" "gpa_in fb gpa i" and sz: "0 < sz"
    and fits: "sz \<le> pt_size (fb_pt fb i) - (gpa - pt_gpa (fb_pt fb i))"
  shows "\<exists>m. amdgv_ffbm_copy_to_gpa data vf gpa sz fb = Inr (0, fb\<lparr>fb_mem := m\<rparr>) \<and>
    (\<forall>a. \<not> a - (pt_spa (fb_pt fb i) + (gpa - pt_gpa (fb_pt fb i))) < sz \<longrightarrow> m a = fb_mem fb a) \<and>
    (\<exists>b. amdgv_ffbm_copy_from_gpa buf vf gpa sz (fb\<lparr>fb_mem := m\<rparr>) = Inr (0, b) \<and> (\<forall>k < sz. b k = data k))"
proof -
  let ?y = "pt_spa (fb_pt fb i) + (gpa - pt_gpa (fb_pt fb i))" and ?is = "ls (unat vf)"
  let ?m = "mem_copy (fb_mem fb) ?y data 0 sz"
  note v = vf_nat [OF vf]
  have c: "dl_path (fb_gpa fb) (GHead (unat vf)) (map GNode ?is) (GHead (unat vf))"
    "GHead (unat vf) \<notin> set (map GNode ?is)"
    using lists_okD(1) [OF ls v] by (auto simp: chain_def)
  have l: "length ?is \<le> 288" using list_length [OF ls v] by simp
  note f = gpa_find_own [OF ap i]
  have "sz \<noteq> 0" using sz by auto
  from copy_to_skip [OF c(1) refl c(2) l f this fits]
  have to: "amdgv_ffbm_copy_to_gpa data vf gpa sz fb = Inr (0, fb\<lparr>fb_mem := ?m\<rparr>)"
    by (simp add: amdgv_ffbm_copy_to_gpa_def gpa_head_ok [OF vf] data_offset_def)
  let ?fb = "fb\<lparr>fb_mem := ?m\<rparr>"
  have "find (gpa_in ?fb gpa) ?is = Some i" using f by (simp add: gpa_in_def [abs_def])
  from copy_from_skip [of "fb_gpa fb" _ ?is, OF c(1) _ c(2) l this \<open>sz \<noteq> 0\<close>] fits
  have "amdgv_ffbm_copy_from_gpa buf vf gpa sz ?fb = Inr (0, mem_copy buf 0 ?m ?y sz)"
    by (simp add: amdgv_ffbm_copy_from_gpa_def gpa_head_ok [OF vf] data_offset_def)
  moreover have "mem_copy buf 0 ?m ?y sz k = data k" if "k < sz" for k
    using that by (simp add: mem_copy_def)
  ultimately show ?thesis using to by (intro exI [of _ ?m]) (auto simp: mem_copy_def)
qed

theorem ffbm_copy_roundtrip_witness:
  "\<exists>m b. amdgv_ffbm_copy_to_gpa (\<lambda>k. ucast k) 0 0x400100 0x1000 vf0_ffbm = Inr (0, vf0_ffbm\<lparr>fb_mem := m\<rparr>) \<and>
     amdgv_ffbm_copy_from_gpa (\<lambda>_. 0) 0 0x400100 0x1000 (vf0_ffbm\<lparr>fb_mem := m\<rparr>) = Inr (0, b) \<and> b 0x0FF = 0xFF"
proof -
  have "\<exists>m. amdgv_ffbm_copy_to_gpa (\<lambda>k. ucast k) 0 0x400100 0x1000 vf0_ffbm = Inr (0, vf0_ffbm\<lparr>fb_mem := m\<rparr>) \<and>
      (\<forall>a. \<not> a - (pt_spa (fb_pt vf0_ffbm 6) + (0x400100 - pt_gpa (fb_pt vf0_ffbm 6))) < 0x1000 \<longrightarrow> m a = fb_mem vf0_ffbm a) \<and>
      (\<exists>b. amdgv_ffbm_copy_from_gpa (\<lambda>_. 0) 0 0x400100 0x1000 (vf0_ffbm\<lparr>fb_mem := m\<rparr>) = Inr (0, b) \<and> (\<forall>k < 0x1000. b k = ucast k))"
    by (rule ffbm_copy_roundtrip [OF vf0_lists_ok])
      (use vf0_apart vf0_list(2) in \<open>simp_all add: vf0_lists_def gpa_in_def AMDGV_FFBM_ADDR_IN_RANGE_def\<close>)
  then show ?thesis by fastforce
qed

end
