(* ===== verification/GV_Ws.thy ===== *)
theory GV_Ws
  imports GV_Prelude
begin

text \<open>
  The world-switch state machines of \<^verbatim>\<open>libgv/core/amdgv_ws_state.c\<close> and the commands of
  \<^verbatim>\<open>libgv/core/amdgv_gpuiov.c\<close> they issue: each hardware scheduler runs one function at a time,
  and moving it from one function to another goes through the commands IDLE, SAVE, LOAD or INIT, RUN.

  A hardware scheduler is named by its id. The firmware is outside the sources: \<open>ws_hw k\<close> is the
  set of schedulers, as a bit mask, whose command is complete when the \<open>k\<close>-th wait ends, and
  \<open>ws_late k\<close> tells whether the allowed time had passed by then; \<open>k\<close> counts the events of the trace,
  so that every wait has its own answer. Logging, time logs, records and break points are left out.
\<close>

section \<open>State\<close>

datatype amdgv_gpuiov_cmd =
    AMDGV_IDLE_GPU | AMDGV_SAVE_GPU_STATE | AMDGV_LOAD_GPU_STATE | AMDGV_RUN_GPU
  | AMDGV_CONTEXT_SWITCH | AMDGV_ENABLE_AUTO_HW_SWITCH | AMDGV_INIT_GPU | AMDGV_SAVE_RLCV_STATE
  | AMDGV_LOAD_RLCV_STATE | AMDGV_CLEAR_VF_STATE | AMDGV_DISABLE_AUTO_HW_SCHED
  | AMDGV_DISABLE_AUTO_HW_SCHED_AND_SWITCH | AMDGV_SHUTDOWN_GPU | AMDGV_PAUSE_VF
  | AMDGV_CONFIG_AUTO_HW_SCHED_MODE

datatype amdgv_sched_state =
    AMDGV_SCHED_UNAVAL | AMDGV_SCHED_AVAIL | AMDGV_SCHED_ACTIVE | AMDGV_SCHED_SUSPEND
  | AMDGV_SCHED_FULLACCESS

datatype ws_mode = AMDGV_WS_MODE_UNDEFINED | AMDGV_WS_MODE_MANUAL | AMDGV_WS_MODE_AUTO

datatype ws_ret =
    WS_SUCCESS | WS_FAILURE | AMDGV_LOG_IOV_CMD_ERROR | AMDGV_LOG_IOV_WS_SAVE_TIMEOUT
  | AMDGV_LOG_IOV_WS_IDLE_TIMEOUT | AMDGV_LOG_IOV_WS_RUN_TIMEOUT | AMDGV_LOG_IOV_WS_LOAD_TIMEOUT
  | AMDGV_LOG_IOV_WS_SHUTDOWN_TIMEOUT | AMDGV_LOG_IOV_WS_INFINITE_LOOP
  | AMDGV_LOG_IOV_WS_REENTRANT_ERROR

datatype amdgv_vf_context_state =
    AMDGV_VF_CONTEXT_CLEAR | AMDGV_VF_CONTEXT_LOADED | AMDGV_VF_CONTEXT_SAVED | AMDGV_VF_CONTEXT_ABNORMAL

datatype amdgv_gpuiov_active_fcn_status =
    AMDGV_ACTIVE_FCN_IDLE | AMDGV_ACTIVE_FCN_ACTIVE | AMDGV_ACTIVE_FCN_IDLING | AMDGV_ACTIVE_FCN_SAVE
  | AMDGV_ACTIVE_FCN_LOAD | AMDGV_ACTIVE_FCN_STALLED

datatype ws_event = Cmd amdgv_gpuiov_cmd nat u32 | Waited u32 bool | Asked nat

record world_switch_state =
  cur_gpu_state :: amdgv_gpuiov_cmd
  cur_vf_id :: u32
  sm_mode :: ws_mode
  ws_lock :: bool

record amdgv_sched_world_switch =
  lw_enabled :: bool
  lw_switch_running :: bool
  lw_block_gfx :: bool
  lw_curr_idx_vf :: u32
  lw_curr_vf_state :: amdgv_vf_context_state
  lw_use_active_status :: bool
  lw_vf_inited :: u32
  lw_hw_sched_mask :: u32
  lw_bulk :: bool

record amdgv_ws =
  ws_machine :: "nat \<Rightarrow> world_switch_state"
  cur_vf_state :: "nat \<Rightarrow> nat \<Rightarrow> amdgv_gpuiov_cmd"
  ws_vf_sched :: "nat \<Rightarrow> amdgv_sched_state"
  ws_skip_run :: "nat \<Rightarrow> bool"
  ws_auto_run :: "nat \<Rightarrow> bool"
  ws_switches :: "amdgv_sched_world_switch list"
  ws_num_ctrl_blocks :: u32
  ws_max_num_vf :: u32
  ws_gfx :: "nat \<Rightarrow> bool"
  ws_legacy_flr :: bool
  ws_mm_shutdown :: bool
  ws_use_pf :: bool
  ws_disable_self_switch :: bool
  ws_num_vf_per_gfx_sched :: u32
  ws_liquid :: "nat \<Rightarrow> bool"
  ws_hw :: "nat \<Rightarrow> u32"
  ws_late :: "nat \<Rightarrow> bool"
  ws_active_vfs :: "nat \<Rightarrow> u32"
  ws_active_idx :: "nat \<Rightarrow> u32"
  ws_active_status :: "nat \<Rightarrow> amdgv_gpuiov_active_fcn_status option"
  ws_auto_stops :: "nat \<Rightarrow> bool"
  ws_trace :: "ws_event list"

abbreviation (input) AMDGV_MAX_NUM_HW_SCHED :: nat where "AMDGV_MAX_NUM_HW_SCHED \<equiv> 32"

section \<open>Walking over a mask\<close>

text \<open>\<^verbatim>\<open>amdgv_ffs\<close> is one more than the lowest bit that is set, found by table lookup; the macro
  \<^verbatim>\<open>for_each_id\<close> walks over the set bits with it. The bodies of the loops clear no bit but the one
  they are at, so the list of ids is fixed when the loop starts.\<close>

definition amdgv_ffs :: "u32 \<Rightarrow> u32" where
  "amdgv_ffs n =
     (if n = 0 then 0
      else let i = n AND (- n);
               (i, c) = (if 0xffff < i then (drop_bit 16 i, 16) else (i, 0));
               shift = (if i \<le> 0xff then (if i \<le> 0xf then 0 else 4) else (if i \<le> 0xfff then 8 else 12))
           in [0, 1, 2, 0, 3, 0, 0, 0, 4] ! unat (drop_bit (unat (shift :: u32)) i) + shift + c)"

definition fill_table :: "u32 list" where
  "fill_table = [0xfffffffe, 0xfffffffc, 0xfffffff8, 0xfffffff0, 0xffffffe0, 0xffffffc0, 0xffffff80,
     0xffffff00, 0xfffffe00, 0xfffffc00, 0xfffff800, 0xfffff000, 0xffffe000, 0xffffc000,
     0xffff8000, 0xffff0000, 0xfffe0000, 0xfffc0000, 0xfff80000, 0xfff00000, 0xffe00000,
     0xffc00000, 0xff800000, 0xff000000, 0xfe000000, 0xfc000000, 0xf8000000, 0xf0000000,
     0xe0000000, 0xc0000000, 0x80000000, 0x0]"

definition amdgv_fill :: "u32 \<Rightarrow> u32" where
  "amdgv_fill idx = (if 31 < idx then 0 else fill_table ! unat idx)"

fun ids_from :: "nat \<Rightarrow> u32 \<Rightarrow> u32 \<Rightarrow> nat list" where
  "ids_from 0 msk i = []"
| "ids_from (Suc n) msk i =
     (if i = 0xFFFFFFFF then [] else unat i # ids_from n msk (amdgv_ffs (msk AND amdgv_fill i) - 1))"

definition for_each_id :: "u32 \<Rightarrow> nat list" where
  "for_each_id msk = ids_from 33 msk (amdgv_ffs msk - 1)"

definition clear_id :: "nat \<Rightarrow> u32 \<Rightarrow> u32" where
  "clear_id i msk = msk AND NOT (push_bit i 1)"

definition set_id :: "nat \<Rightarrow> u32 \<Rightarrow> u32" where
  "set_id i msk = msk OR push_bit i 1"

section \<open>Commands\<close>

definition vf_slot :: "u32 \<Rightarrow> nat cres" where
  "vf_slot vf = (if unat vf < AMDGV_MAX_VF_SLOT then Inr (unat vf) else Inl Out_Of_Bounds)"

definition get_vf_state :: "amdgv_ws \<Rightarrow> u32 \<Rightarrow> nat \<Rightarrow> amdgv_gpuiov_cmd cres" where
  "get_vf_state st vf s = cbind (vf_slot vf) (\<lambda>v. Inr (cur_vf_state st v s))"

definition set_vf_state :: "u32 \<Rightarrow> nat \<Rightarrow> amdgv_gpuiov_cmd \<Rightarrow> amdgv_ws \<Rightarrow> amdgv_ws cres" where
  "set_vf_state vf s c st = cbind (vf_slot vf) (\<lambda>v.
     Inr (st\<lparr>cur_vf_state := (cur_vf_state st)(v := (cur_vf_state st v)(s := c))\<rparr>))"

definition is_suspend_vf :: "amdgv_ws \<Rightarrow> u32 \<Rightarrow> bool cres" where
  "is_suspend_vf st vf = cbind (vf_slot vf) (\<lambda>v. Inr (ws_vf_sched st v = AMDGV_SCHED_SUSPEND))"

definition set_machine :: "nat \<Rightarrow> amdgv_gpuiov_cmd \<Rightarrow> u32 \<Rightarrow> amdgv_ws \<Rightarrow> amdgv_ws" where
  "set_machine s c vf st = st\<lparr>ws_machine := (ws_machine st)(s := (ws_machine st s)
     \<lparr>cur_gpu_state := c, cur_vf_id := vf\<rparr>)\<rparr>"

definition set_lock :: "nat \<Rightarrow> bool \<Rightarrow> amdgv_ws \<Rightarrow> amdgv_ws" where
  "set_lock s b st = st\<lparr>ws_machine := (ws_machine st)(s := (ws_machine st s)\<lparr>ws_lock := b\<rparr>)\<rparr>"

definition set_cmd :: "amdgv_gpuiov_cmd \<Rightarrow> nat \<Rightarrow> u32 \<Rightarrow> amdgv_ws \<Rightarrow> amdgv_ws" where
  "set_cmd c s vf st = st\<lparr>ws_trace := ws_trace st @ [Cmd c s vf]\<rparr>"

definition wait_cmd_complete :: "nat \<Rightarrow> amdgv_ws \<Rightarrow> int \<times> amdgv_ws" where
  "wait_cmd_complete s st =
     (let ok = bit (ws_hw st (length (ws_trace st))) s in
      (if ok then 0 else AMDGV_FAILURE, st\<lparr>ws_trace := ws_trace st @ [Waited (push_bit s 1) ok]\<rparr>))"

text \<open>The time log of a graphics scheduler is an array over the functions.\<close>

definition amdgv_update_histogram :: "u32 \<Rightarrow> nat \<Rightarrow> amdgv_ws \<Rightarrow> unit cres" where
  "amdgv_update_histogram vf s st =
     (if \<not> ws_gfx st s then Inr () else cbind (vf_slot vf) (\<lambda>_. Inr ()))"

definition amdgv_gpuiov_init_vf_no_wait :: "u32 \<Rightarrow> nat \<Rightarrow> amdgv_ws \<Rightarrow> amdgv_ws" where
  "amdgv_gpuiov_init_vf_no_wait vf s st = set_cmd AMDGV_INIT_GPU s vf st"

definition amdgv_gpuiov_init_vf :: "u32 \<Rightarrow> nat \<Rightarrow> amdgv_ws \<Rightarrow> (int \<times> amdgv_ws) cres" where
  "amdgv_gpuiov_init_vf vf s st =
     (let (ret, st) = wait_cmd_complete s (amdgv_gpuiov_init_vf_no_wait vf s st) in
      if ret = 0 then cbind (set_vf_state vf s AMDGV_INIT_GPU st) (\<lambda>st. Inr (ret, st)) else Inr (ret, st))"

definition amdgv_gpuiov_load_vf_no_wait :: "u32 \<Rightarrow> nat \<Rightarrow> amdgv_ws \<Rightarrow> amdgv_ws" where
  "amdgv_gpuiov_load_vf_no_wait vf s st = set_cmd AMDGV_LOAD_GPU_STATE s vf st"

definition amdgv_gpuiov_load_vf :: "u32 \<Rightarrow> nat \<Rightarrow> amdgv_ws \<Rightarrow> (int \<times> amdgv_ws) cres" where
  "amdgv_gpuiov_load_vf vf s st =
     (let (ret, st) = wait_cmd_complete s (amdgv_gpuiov_load_vf_no_wait vf s st) in
      if ret \<noteq> AMDGV_FAILURE then
        cbind (amdgv_update_histogram vf s st) (\<lambda>_.
          if AMDGV_MAX_VF_SLOT \<le> unat vf then Inr (AMDGV_FAILURE, st)
          else cbind (set_vf_state vf s AMDGV_LOAD_GPU_STATE st) (\<lambda>st. Inr (0, st)))
      else Inr (AMDGV_FAILURE, st))"

definition amdgv_gpuiov_idle_vf_no_wait :: "u32 \<Rightarrow> nat \<Rightarrow> amdgv_ws \<Rightarrow> amdgv_ws" where
  "amdgv_gpuiov_idle_vf_no_wait vf s st = set_cmd AMDGV_IDLE_GPU s vf st"

definition amdgv_gpuiov_idle_vf :: "u32 \<Rightarrow> nat \<Rightarrow> amdgv_ws \<Rightarrow> (int \<times> amdgv_ws) cres" where
  "amdgv_gpuiov_idle_vf vf s st =
     (let (ret, st) = wait_cmd_complete s (amdgv_gpuiov_idle_vf_no_wait vf s st) in
      if ret \<noteq> AMDGV_FAILURE then
        (if AMDGV_MAX_VF_SLOT \<le> unat vf then Inr (AMDGV_FAILURE, st)
         else cbind (set_vf_state vf s AMDGV_IDLE_GPU st) (\<lambda>st.
              cbind (amdgv_update_histogram vf s st) (\<lambda>_. Inr (0, st))))
      else Inr (AMDGV_FAILURE, st))"

definition amdgv_gpuiov_save_vf_no_wait :: "u32 \<Rightarrow> nat \<Rightarrow> amdgv_ws \<Rightarrow> amdgv_ws" where
  "amdgv_gpuiov_save_vf_no_wait vf s st = set_cmd AMDGV_SAVE_GPU_STATE s vf st"

definition amdgv_gpuiov_save_vf :: "u32 \<Rightarrow> nat \<Rightarrow> amdgv_ws \<Rightarrow> (int \<times> amdgv_ws) cres" where
  "amdgv_gpuiov_save_vf vf s st =
     (let (ret, st) = wait_cmd_complete s (amdgv_gpuiov_save_vf_no_wait vf s st) in
      if ret \<noteq> AMDGV_FAILURE then
        cbind (amdgv_update_histogram vf s st) (\<lambda>_.
        cbind (set_vf_state vf s AMDGV_SAVE_GPU_STATE st) (\<lambda>st. Inr (0, st)))
      else Inr (AMDGV_FAILURE, st))"

definition amdgv_gpuiov_run_vf_no_wait :: "u32 \<Rightarrow> nat \<Rightarrow> amdgv_ws \<Rightarrow> amdgv_ws" where
  "amdgv_gpuiov_run_vf_no_wait vf s st = set_cmd AMDGV_RUN_GPU s vf st"

definition amdgv_gpuiov_run_vf :: "u32 \<Rightarrow> nat \<Rightarrow> amdgv_ws \<Rightarrow> (int \<times> amdgv_ws) cres" where
  "amdgv_gpuiov_run_vf vf s st =
     (let (ret, st) = wait_cmd_complete s (amdgv_gpuiov_run_vf_no_wait vf s st) in
      if ret \<noteq> AMDGV_FAILURE then
        cbind (amdgv_update_histogram vf s st) (\<lambda>_.
        cbind (set_vf_state vf s AMDGV_RUN_GPU st) (\<lambda>st. Inr (0, st)))
      else Inr (AMDGV_FAILURE, st))"

definition sends_shutdown :: "nat \<Rightarrow> amdgv_ws \<Rightarrow> bool" where
  "sends_shutdown s st \<longleftrightarrow> ws_gfx st s \<or> \<not> ws_gfx st s \<and> ws_mm_shutdown st"

definition amdgv_gpuiov_shutdown_vf_no_wait :: "u32 \<Rightarrow> nat \<Rightarrow> amdgv_ws \<Rightarrow> amdgv_ws" where
  "amdgv_gpuiov_shutdown_vf_no_wait vf s st =
     (if ws_legacy_flr st then st
      else if sends_shutdown s st then set_cmd AMDGV_SHUTDOWN_GPU s vf st else st)"

definition amdgv_gpuiov_shutdown_vf :: "u32 \<Rightarrow> nat \<Rightarrow> amdgv_ws \<Rightarrow> (int \<times> amdgv_ws) cres" where
  "amdgv_gpuiov_shutdown_vf vf s st =
     (if ws_legacy_flr st then Inr (0, st)
      else let (ret, st) = (if sends_shutdown s st
                            then wait_cmd_complete s (set_cmd AMDGV_SHUTDOWN_GPU s vf st) else (0, st)) in
      if ret = 0 then cbind (set_vf_state vf s AMDGV_SHUTDOWN_GPU st) (\<lambda>st. Inr (ret, st)) else Inr (ret, st))"

section \<open>The manual state machine\<close>

text \<open>The next state, and the function it is for; \<open>None\<close> for a state that the machine does not
  know. \<^verbatim>\<open>world_switch_goto_state_manual\<close> has the same \<^verbatim>\<open>switch\<close> in its loop.\<close>

definition switch_target :: "amdgv_ws \<Rightarrow> nat \<Rightarrow> u32 \<Rightarrow> amdgv_gpuiov_cmd \<Rightarrow> u32 \<Rightarrow>
    (amdgv_gpuiov_cmd \<times> u32) cres" where
  "switch_target st s target_vf target_state cur_vf =
     cbind (get_vf_state st target_vf s) (\<lambda>c.
       Inr (if target_state = AMDGV_SHUTDOWN_GPU \<and> cur_vf \<noteq> target_vf \<and> c = AMDGV_SAVE_GPU_STATE
            then AMDGV_SHUTDOWN_GPU
            else if c = AMDGV_SAVE_GPU_STATE then AMDGV_LOAD_GPU_STATE else AMDGV_INIT_GPU, target_vf))"

definition world_switch_get_next_state :: "amdgv_ws \<Rightarrow> nat \<Rightarrow> u32 \<Rightarrow> amdgv_gpuiov_cmd \<Rightarrow>
    amdgv_gpuiov_cmd \<Rightarrow> u32 \<Rightarrow> (amdgv_gpuiov_cmd \<times> u32) option cres" where
  "world_switch_get_next_state st s target_vf target_state cur_state cur_vf =
     (case cur_state of
        AMDGV_IDLE_GPU \<Rightarrow> Inr (Some (AMDGV_SAVE_GPU_STATE, cur_vf))
      | AMDGV_SAVE_GPU_STATE \<Rightarrow>
          if target_state = AMDGV_SHUTDOWN_GPU \<and> cur_vf = target_vf
          then Inr (Some (AMDGV_SHUTDOWN_GPU, cur_vf))
          else cbind (if target_state = AMDGV_SHUTDOWN_GPU \<and> cur_vf \<noteq> target_vf
                      then is_suspend_vf st target_vf else Inr False) (\<lambda>suspended.
               if suspended then Inr (Some (AMDGV_SHUTDOWN_GPU, target_vf))
               else cbind (switch_target st s target_vf target_state cur_vf) (\<lambda>n. Inr (Some n)))
      | AMDGV_SHUTDOWN_GPU \<Rightarrow>
          cbind (switch_target st s target_vf target_state cur_vf) (\<lambda>n. Inr (Some n))
      | AMDGV_LOAD_GPU_STATE \<Rightarrow> Inr (Some (AMDGV_RUN_GPU, cur_vf))
      | AMDGV_INIT_GPU \<Rightarrow> Inr (Some (AMDGV_RUN_GPU, cur_vf))
      | AMDGV_RUN_GPU \<Rightarrow> Inr (Some (AMDGV_IDLE_GPU, cur_vf))
      | _ \<Rightarrow> Inr None)"

definition issue :: "amdgv_gpuiov_cmd \<Rightarrow> u32 \<Rightarrow> nat \<Rightarrow> amdgv_ws \<Rightarrow> (ws_ret \<times> amdgv_ws) cres" where
  "issue c vf s st =
     (let code = (\<lambda>e (ret, st). Inr (if ret \<noteq> 0 then e else WS_SUCCESS, st)) in
      case c of
        AMDGV_IDLE_GPU \<Rightarrow> cbind (amdgv_gpuiov_idle_vf vf s st) (code AMDGV_LOG_IOV_WS_IDLE_TIMEOUT)
      | AMDGV_RUN_GPU \<Rightarrow> cbind (amdgv_gpuiov_run_vf vf s st) (code AMDGV_LOG_IOV_WS_RUN_TIMEOUT)
      | AMDGV_SAVE_GPU_STATE \<Rightarrow> cbind (amdgv_gpuiov_save_vf vf s st) (code AMDGV_LOG_IOV_WS_SAVE_TIMEOUT)
      | AMDGV_INIT_GPU \<Rightarrow> cbind (amdgv_gpuiov_init_vf vf s st) (code AMDGV_LOG_IOV_WS_LOAD_TIMEOUT)
      | AMDGV_LOAD_GPU_STATE \<Rightarrow> cbind (amdgv_gpuiov_load_vf vf s st) (code AMDGV_LOG_IOV_WS_LOAD_TIMEOUT)
      | AMDGV_SHUTDOWN_GPU \<Rightarrow> cbind (amdgv_gpuiov_shutdown_vf vf s st) (code AMDGV_LOG_IOV_WS_SHUTDOWN_TIMEOUT)
      | _ \<Rightarrow> Inr (AMDGV_LOG_IOV_CMD_ERROR, st))"

definition at_target :: "amdgv_ws \<Rightarrow> nat \<Rightarrow> u32 \<Rightarrow> amdgv_gpuiov_cmd \<Rightarrow> bool" where
  "at_target st s target_vf target_state \<longleftrightarrow>
     cur_gpu_state (ws_machine st s) = target_state \<and> cur_vf_id (ws_machine st s) = target_vf"

text \<open>One round of the loop: the next state, its command, and the new state of the machine.\<close>

definition manual_round :: "u32 \<Rightarrow> nat \<Rightarrow> amdgv_gpuiov_cmd \<Rightarrow> amdgv_ws \<Rightarrow> (ws_ret \<times> amdgv_ws) cres" where
  "manual_round target_vf s target_state st =
     cbind (world_switch_get_next_state st s target_vf target_state
              (cur_gpu_state (ws_machine st s)) (cur_vf_id (ws_machine st s))) (\<lambda>r.
     case r of
       None \<Rightarrow> Inr (AMDGV_LOG_IOV_CMD_ERROR, st)
     | Some (next_state, next_vf) \<Rightarrow>
         cbind (issue next_state next_vf s st) (\<lambda>(ret, st).
           if ret \<noteq> WS_SUCCESS then Inr (ret, st)
           else Inr (WS_SUCCESS, set_machine s next_state next_vf st)))"

text \<open>The recursion is on \<^verbatim>\<open>loop_okay\<close>.\<close>

fun manual_loop :: "nat \<Rightarrow> u32 \<Rightarrow> nat \<Rightarrow> amdgv_gpuiov_cmd \<Rightarrow> amdgv_ws \<Rightarrow> (ws_ret \<times> amdgv_ws) cres" where
  "manual_loop loop_okay target_vf s target_state st =
     (if at_target st s target_vf target_state then Inr (WS_SUCCESS, st)
      else case loop_okay of
        0 \<Rightarrow> Inr (AMDGV_LOG_IOV_WS_INFINITE_LOOP, st)
      | Suc n \<Rightarrow> cbind (manual_round target_vf s target_state st) (\<lambda>(ret, st).
          if ret \<noteq> WS_SUCCESS then Inr (ret, st) else manual_loop n target_vf s target_state st))"

declare manual_loop.simps [simp del]

definition world_switch_goto_state_manual :: "u32 \<Rightarrow> nat \<Rightarrow> amdgv_gpuiov_cmd \<Rightarrow> amdgv_ws \<Rightarrow>
    (ws_ret \<times> amdgv_ws) cres" where
  "world_switch_goto_state_manual target_vf s target_state st =
     (if ws_lock (ws_machine st s) then Inr (AMDGV_LOG_IOV_WS_REENTRANT_ERROR, st)
      else cbind (manual_loop 20 target_vf s target_state (set_lock s True st)) (\<lambda>(ret, st).
        Inr (ret, set_lock s False st)))"


section \<open>Moving several schedulers at once\<close>

text \<open>The first scheduler of the mask whose command is complete when the wait ends.\<close>

definition wait_for_first_cmd_complete :: "u32 \<Rightarrow> amdgv_ws \<Rightarrow> nat option \<times> amdgv_ws" where
  "wait_for_first_cmd_complete msk st =
     (let r = find (bit (ws_hw st (length (ws_trace st)))) (for_each_id msk) in
      (r, st\<lparr>ws_trace := ws_trace st @ [Waited msk (r \<noteq> None)]\<rparr>))"

text \<open>The local variables of \<^verbatim>\<open>world_switch_bulk_goto_state_manual\<close>.\<close>

record bulk =
  bk_mask :: u32
  bk_bad :: u32
  bk_next :: "nat \<Rightarrow> amdgv_gpuiov_cmd \<times> u32"
  bk_loop_okay :: u32

text \<open>Step 1: the next states; the flag tells that \<^verbatim>\<open>loop_okay\<close> has run out.\<close>

fun bulk_plan :: "nat list \<Rightarrow> u32 \<Rightarrow> amdgv_gpuiov_cmd \<Rightarrow> amdgv_ws \<Rightarrow> bulk \<Rightarrow> (bool \<times> bulk) cres" where
  "bulk_plan [] target_vf target_state st b = Inr (False, b)"
| "bulk_plan (s # ss) target_vf target_state st b =
     (if at_target st s target_vf target_state
      then bulk_plan ss target_vf target_state st (b\<lparr>bk_mask := clear_id s (bk_mask b)\<rparr>)
      else cbind (world_switch_get_next_state st s target_vf target_state
              (cur_gpu_state (ws_machine st s)) (cur_vf_id (ws_machine st s))) (\<lambda>r.
        let b = (case r of
             None \<Rightarrow> b\<lparr>bk_bad := set_id s (bk_bad b), bk_mask := clear_id s (bk_mask b)\<rparr>
           | Some n \<Rightarrow> b\<lparr>bk_next := (bk_next b)(s := n)\<rparr>) in
        if bk_loop_okay b = 0 then Inr (True, b)
        else bulk_plan ss target_vf target_state st (b\<lparr>bk_loop_okay := bk_loop_okay b - 1\<rparr>)))"

text \<open>Step 2: the commands. A state that has no command marks the scheduler as bad.\<close>

definition issue_no_wait :: "amdgv_gpuiov_cmd \<Rightarrow> u32 \<Rightarrow> nat \<Rightarrow> amdgv_ws \<Rightarrow> amdgv_ws option" where
  "issue_no_wait c vf s st = (case c of
      AMDGV_IDLE_GPU \<Rightarrow> Some (amdgv_gpuiov_idle_vf_no_wait vf s st)
    | AMDGV_RUN_GPU \<Rightarrow> Some (amdgv_gpuiov_run_vf_no_wait vf s st)
    | AMDGV_SAVE_GPU_STATE \<Rightarrow> Some (amdgv_gpuiov_save_vf_no_wait vf s st)
    | AMDGV_INIT_GPU \<Rightarrow> Some (amdgv_gpuiov_init_vf_no_wait vf s st)
    | AMDGV_LOAD_GPU_STATE \<Rightarrow> Some (amdgv_gpuiov_load_vf_no_wait vf s st)
    | AMDGV_SHUTDOWN_GPU \<Rightarrow> Some (amdgv_gpuiov_shutdown_vf_no_wait vf s st)
    | _ \<Rightarrow> None)"

fun bulk_send :: "nat list \<Rightarrow> amdgv_ws \<Rightarrow> bulk \<Rightarrow> amdgv_ws \<times> bulk" where
  "bulk_send [] st b = (st, b)"
| "bulk_send (s # ss) st b =
     (case issue_no_wait (fst (bk_next b s)) (snd (bk_next b s)) s st of
        Some st \<Rightarrow> bulk_send ss st b
      | None \<Rightarrow> bulk_send ss st
          (b\<lparr>bk_bad := set_id s (bk_bad b), bk_mask := clear_id s (bk_mask b)\<rparr>))"

text \<open>Step 3: the answers. Every round takes one scheduler out of the wait mask, or ends the wait.\<close>

fun bulk_wait :: "nat \<Rightarrow> u32 \<Rightarrow> amdgv_ws \<Rightarrow> bulk \<Rightarrow> (amdgv_ws \<times> bulk) cres" where
  "bulk_wait fuel wait_mask st b =
     (if wait_mask = 0 then Inr (st, b)
      else case fuel of
        0 \<Rightarrow> Inl Endless_Loop
      | Suc n \<Rightarrow>
          let late = ws_late st (length (ws_trace st));
              (r, st) = wait_for_first_cmd_complete wait_mask st in
          case (if late then None else r) of
            None \<Rightarrow> Inr (st, b\<lparr>bk_bad := bk_bad b OR wait_mask, bk_mask := bk_mask b AND NOT wait_mask\<rparr>)
          | Some s \<Rightarrow>
              cbind (set_vf_state (snd (bk_next b s)) s (fst (bk_next b s))
                       (set_machine s (fst (bk_next b s)) (snd (bk_next b s)) st)) (\<lambda>st.
              cbind (amdgv_update_histogram (snd (bk_next b s)) s st) (\<lambda>_.
                bulk_wait n (clear_id s wait_mask) st b)))"

declare bulk_wait.simps [simp del]

text \<open>The rounds of the four steps. A round in which some scheduler is not at its target decreases
  \<^verbatim>\<open>loop_okay\<close>, so its start value and one more bound the rounds.\<close>

fun bulk_loop :: "nat \<Rightarrow> u32 \<Rightarrow> amdgv_gpuiov_cmd \<Rightarrow> amdgv_ws \<Rightarrow> bulk \<Rightarrow> (ws_ret \<times> amdgv_ws \<times> bulk) cres" where
  "bulk_loop fuel target_vf target_state st b =
     cbind (bulk_plan (for_each_id (bk_mask b)) target_vf target_state st b) (\<lambda>(stuck, b).
       if stuck then Inr (AMDGV_LOG_IOV_WS_INFINITE_LOOP, st, b)
       else let (st, b) = bulk_send (for_each_id (bk_mask b)) st b in
         cbind (bulk_wait AMDGV_MAX_NUM_HW_SCHED (bk_mask b) st b) (\<lambda>(st, b).
           if bk_mask b = 0 then Inr (WS_SUCCESS, st, b)
           else case fuel of
             0 \<Rightarrow> Inl Endless_Loop
           | Suc n \<Rightarrow> bulk_loop n target_vf target_state st b))"

declare bulk_loop.simps [simp del]

fun lock_all :: "nat list \<Rightarrow> amdgv_ws \<Rightarrow> bool \<times> amdgv_ws" where
  "lock_all [] st = (True, st)"
| "lock_all (s # ss) st =
     (if ws_lock (ws_machine st s) then (False, st) else lock_all ss (set_lock s True st))"

definition world_switch_bulk_goto_state_manual :: "u32 \<Rightarrow> u32 \<Rightarrow> amdgv_gpuiov_cmd \<Rightarrow> amdgv_ws \<Rightarrow>
    (ws_ret \<times> amdgv_ws) cres" where
  "world_switch_bulk_goto_state_manual target_vf hw_sched_mask target_state st =
     (let (ok, st) = lock_all (for_each_id hw_sched_mask) st in
      if \<not> ok then Inr (AMDGV_LOG_IOV_WS_REENTRANT_ERROR, st)
      else let loop_okay = 20 * ws_num_ctrl_blocks st in
        cbind (bulk_loop (Suc (unat loop_okay)) target_vf target_state st
                 \<lparr>bk_mask = hw_sched_mask, bk_bad = 0, bk_next = (\<lambda>_. (AMDGV_IDLE_GPU, 0)),
                  bk_loop_okay = loop_okay\<rparr>) (\<lambda>(ret, st, b).
          Inr (if bk_bad b \<noteq> 0 then WS_FAILURE else ret,
               fold (\<lambda>s. set_lock s False) (for_each_id hw_sched_mask) st)))"

end
