(* ===== verification/GV_Ws_Auto.thy ===== *)
theory GV_Ws_Auto
  imports GV_Ws
begin

text \<open>
  The second half of \<^verbatim>\<open>libgv/core/amdgv_ws_state.c\<close>: the machine of the schedulers that switch by
  themselves (\<^verbatim>\<open>world_switch_goto_state_auto\<close>), the operations that the scheduler calls, and the
  export and import of the machines at a live update.
\<close>

section \<open>The automatic state machine\<close>

text \<open>What the driver asks of the registers is answered by the \<open>k\<close>-th question.\<close>

definition ask :: "nat \<Rightarrow> amdgv_ws \<Rightarrow> amdgv_ws" where
  "ask s st = st\<lparr>ws_trace := ws_trace st @ [Asked s]\<rparr>"

definition amdgv_gpuiov_get_active_vfs :: "nat \<Rightarrow> amdgv_ws \<Rightarrow> u32 \<times> amdgv_ws" where
  "amdgv_gpuiov_get_active_vfs s st = (ws_active_vfs st (length (ws_trace st)), ask s st)"

definition amdgv_gpuiov_get_active_vf_idx :: "nat \<Rightarrow> amdgv_ws \<Rightarrow> u32 \<times> amdgv_ws" where
  "amdgv_gpuiov_get_active_vf_idx s st = (ws_active_idx st (length (ws_trace st)), ask s st)"

definition amdgv_gpuiov_wait_auto_sched_stop :: "nat \<Rightarrow> amdgv_ws \<Rightarrow> int \<times> amdgv_ws" where
  "amdgv_gpuiov_wait_auto_sched_stop s st =
     (if ws_auto_stops st (length (ws_trace st)) then 0 else AMDGV_FAILURE, ask s st)"

definition amdgv_gpuiov_enable_auto_sched :: "nat \<Rightarrow> amdgv_ws \<Rightarrow> int \<times> amdgv_ws" where
  "amdgv_gpuiov_enable_auto_sched s st =
     wait_cmd_complete s (set_cmd AMDGV_ENABLE_AUTO_HW_SWITCH s (ws_max_num_vf st + 1) st)"

definition amdgv_gpuiov_disable_auto_sched :: "nat \<Rightarrow> amdgv_ws \<Rightarrow> int \<times> amdgv_ws" where
  "amdgv_gpuiov_disable_auto_sched s st =
     wait_cmd_complete s (set_cmd AMDGV_DISABLE_AUTO_HW_SCHED s (ws_max_num_vf st + 1) st)"

fun find_switch :: "nat \<Rightarrow> nat \<Rightarrow> amdgv_sched_world_switch list \<Rightarrow> nat option" where
  "find_switch s i [] = None"
| "find_switch s i (w # ws) = (if bit (lw_hw_sched_mask w) s then Some i else find_switch s (Suc i) ws)"

definition amdgv_sched_get_world_switch_by_hw_sched_id :: "nat \<Rightarrow> amdgv_ws \<Rightarrow> nat option" where
  "amdgv_sched_get_world_switch_by_hw_sched_id s st = find_switch s 0 (ws_switches st)"

definition upd_switch :: "nat \<Rightarrow> (amdgv_sched_world_switch \<Rightarrow> amdgv_sched_world_switch) \<Rightarrow> amdgv_ws \<Rightarrow> amdgv_ws" where
  "upd_switch w f st = st\<lparr>ws_switches := (ws_switches st)[w := f (ws_switches st ! w)]\<rparr>"

text \<open>The context state that the firmware shows; \<open>None\<close> stands for a query that fails and for an unknown status.\<close>

definition active_status_state :: "amdgv_gpuiov_active_fcn_status option \<Rightarrow> amdgv_vf_context_state" where
  "active_status_state r = (case r of
       None \<Rightarrow> AMDGV_VF_CONTEXT_ABNORMAL
     | Some AMDGV_ACTIVE_FCN_STALLED \<Rightarrow> AMDGV_VF_CONTEXT_ABNORMAL
     | Some AMDGV_ACTIVE_FCN_IDLE \<Rightarrow> AMDGV_VF_CONTEXT_CLEAR
     | Some AMDGV_ACTIVE_FCN_IDLING \<Rightarrow> AMDGV_VF_CONTEXT_CLEAR
     | Some AMDGV_ACTIVE_FCN_SAVE \<Rightarrow> AMDGV_VF_CONTEXT_SAVED
     | Some AMDGV_ACTIVE_FCN_LOAD \<Rightarrow> AMDGV_VF_CONTEXT_LOADED
     | Some AMDGV_ACTIVE_FCN_ACTIVE \<Rightarrow> AMDGV_VF_CONTEXT_LOADED)"

definition amdgv_sched_world_context_get_hw_curr_state :: "nat \<Rightarrow> amdgv_ws \<Rightarrow>
    amdgv_vf_context_state option \<times> amdgv_ws" where
  "amdgv_sched_world_context_get_hw_curr_state s st =
     (case amdgv_sched_get_world_switch_by_hw_sched_id s st of
        None \<Rightarrow> (None, st)
      | Some w \<Rightarrow> let ws = ws_switches st ! w in
          if \<not> lw_enabled ws then (None, st)
          else if lw_use_active_status ws \<and> lw_switch_running ws
          then (Some (active_status_state (ws_active_status st (length (ws_trace st)))), ask s st)
          else (Some (lw_curr_vf_state ws), st))"

text \<open>All functions that run in automatic mode get the same state.\<close>

definition mark_auto_run :: "nat \<Rightarrow> amdgv_ws \<Rightarrow> amdgv_ws" where
  "mark_auto_run s st = st\<lparr>cur_vf_state := (\<lambda>v. if v < AMDGV_MAX_VF_SLOT \<and> ws_auto_run st v
     then (cur_vf_state st v)(s := AMDGV_RUN_GPU) else cur_vf_state st v)\<rparr>"

definition mark_auto_stopped :: "nat \<Rightarrow> u32 \<Rightarrow> bool \<Rightarrow> amdgv_ws \<Rightarrow> amdgv_ws" where
  "mark_auto_stopped s cur_vf needs_idle st = st\<lparr>cur_vf_state := (\<lambda>v.
     if v < AMDGV_MAX_VF_SLOT \<and> (ws_auto_run st v \<or> v = AMDGV_MAX_VF_NUM \<and> ws_use_pf st)
     then (cur_vf_state st v)(s := if v = unat cur_vf \<and> needs_idle then AMDGV_IDLE_GPU else AMDGV_SAVE_GPU_STATE)
     else cur_vf_state st v)\<rparr>"

definition amdgv_world_switch_do_enable_auto_sched :: "nat \<Rightarrow> u32 \<Rightarrow> amdgv_ws \<Rightarrow> int \<times> amdgv_ws" where
  "amdgv_world_switch_do_enable_auto_sched s target_vf st =
     (let (active_vfs, st) = amdgv_gpuiov_get_active_vfs s st;
          (ret, st) = (if active_vfs \<noteq> 0 then amdgv_gpuiov_enable_auto_sched s st else (0, st)) in
      if ret \<noteq> 0 then (AMDGV_FAILURE, st)
      else (0, mark_auto_run s (set_machine s AMDGV_ENABLE_AUTO_HW_SWITCH target_vf st)))"

definition no_self_switch :: "nat \<Rightarrow> amdgv_ws \<Rightarrow> bool" where
  "no_self_switch s st \<longleftrightarrow> ws_gfx st s \<and> ws_num_vf_per_gfx_sched st = 1 \<and> ws_disable_self_switch st"

definition set_gpu_state :: "nat \<Rightarrow> amdgv_gpuiov_cmd \<Rightarrow> amdgv_ws \<Rightarrow> amdgv_ws" where
  "set_gpu_state s c st = set_machine s c (cur_vf_id (ws_machine st s)) st"

definition set_cur_vf :: "nat \<Rightarrow> u32 \<Rightarrow> amdgv_ws \<Rightarrow> amdgv_ws" where
  "set_cur_vf s vf st = set_machine s (cur_gpu_state (ws_machine st s)) vf st"

text \<open>A round of the loop gives the result, the target, which it may change, and the state.\<close>

type_synonym auto_out = "(ws_ret \<times> (u32 \<times> amdgv_gpuiov_cmd) \<times> amdgv_ws) cres"

definition auto_load :: "u32 \<Rightarrow> nat \<Rightarrow> amdgv_gpuiov_cmd \<Rightarrow> amdgv_ws \<Rightarrow> auto_out" where
  "auto_load target_vf s target_state st =
     cbind (amdgv_gpuiov_load_vf target_vf s st) (\<lambda>(ret, st).
       if ret \<noteq> 0 then Inr (AMDGV_LOG_IOV_WS_LOAD_TIMEOUT, (target_vf, target_state), st)
       else Inr (WS_SUCCESS, (target_vf, target_state), set_machine s AMDGV_LOAD_GPU_STATE target_vf st))"

definition auto_enable :: "u32 \<Rightarrow> nat \<Rightarrow> amdgv_gpuiov_cmd \<Rightarrow> amdgv_ws \<Rightarrow> auto_out" where
  "auto_enable target_vf s target_state st =
     (let (ret, st) = amdgv_world_switch_do_enable_auto_sched s target_vf st in
      Inr (if ret \<noteq> 0 then WS_FAILURE else WS_SUCCESS, (target_vf, target_state), st))"

text \<open>From SAVE or SHUTDOWN to another function: the label \<^verbatim>\<open>shutdown_gpu\<close>.\<close>

definition auto_enter :: "u32 \<Rightarrow> nat \<Rightarrow> amdgv_gpuiov_cmd \<Rightarrow> nat \<Rightarrow> amdgv_gpuiov_cmd \<Rightarrow> amdgv_ws \<Rightarrow> auto_out" where
  "auto_enter target_vf s target_state w cur_state st =
     (if cur_state = AMDGV_SHUTDOWN_GPU \<and> target_state = AMDGV_ENABLE_AUTO_HW_SWITCH
      then if no_self_switch s st then auto_load target_vf s AMDGV_RUN_GPU st
           else auto_enable target_vf s target_state st
      else if AMDGV_MAX_VF_SLOT \<le> unat target_vf then Inr (WS_FAILURE, (target_vf, target_state), st)
      else if cur_vf_state st (unat target_vf) s = AMDGV_SAVE_GPU_STATE \<and>
              (if target_vf = AMDGV_PF_IDX then bit (lw_vf_inited (ws_switches st ! w)) (unat target_vf)
               else ws_vf_sched st (unat target_vf) = AMDGV_SCHED_ACTIVE)
      then auto_load target_vf s target_state st
      else cbind (amdgv_gpuiov_init_vf target_vf s st) (\<lambda>(ret, st).
        if ret \<noteq> 0 then Inr (AMDGV_LOG_IOV_WS_LOAD_TIMEOUT, (target_vf, target_state), st)
        else Inr (WS_SUCCESS, (target_vf, target_state), set_machine s AMDGV_INIT_GPU target_vf st)))"

definition auto_from_save :: "u32 \<Rightarrow> nat \<Rightarrow> amdgv_gpuiov_cmd \<Rightarrow> nat \<Rightarrow> u32 \<Rightarrow> amdgv_ws \<Rightarrow> auto_out" where
  "auto_from_save target_vf s target_state w cur_vf st =
     cbind (is_suspend_vf st target_vf) (\<lambda>suspended.
       let moved = suspended \<and> target_vf \<noteq> cur_vf \<and> target_vf \<noteq> AMDGV_PF_IDX;
           cur_vf = (if moved then target_vf else cur_vf);
           st = (if moved then set_cur_vf s target_vf st else st) in
       if target_state = AMDGV_SHUTDOWN_GPU \<and> cur_vf = target_vf then
         cbind (amdgv_gpuiov_shutdown_vf cur_vf s st) (\<lambda>(ret, st).
           if ret \<noteq> 0 then Inr (AMDGV_LOG_IOV_WS_SHUTDOWN_TIMEOUT, (target_vf, target_state), st)
           else Inr (WS_SUCCESS, (target_vf, target_state), set_gpu_state s AMDGV_SHUTDOWN_GPU st))
       else if target_state = AMDGV_ENABLE_AUTO_HW_SWITCH then
         (if no_self_switch s st then auto_load target_vf s AMDGV_RUN_GPU st
          else auto_enable target_vf s target_state st)
       else auto_enter target_vf s target_state w AMDGV_SAVE_GPU_STATE st)"

definition auto_from_run :: "u32 \<Rightarrow> nat \<Rightarrow> amdgv_gpuiov_cmd \<Rightarrow> nat \<Rightarrow> u32 \<Rightarrow> amdgv_ws \<Rightarrow> auto_out" where
  "auto_from_run target_vf s target_state w cur_vf st =
     cbind (if target_state = AMDGV_ENABLE_AUTO_HW_SWITCH \<and> \<not> lw_block_gfx (ws_switches st ! w)
            then auto_enable target_vf s target_state st
            else let target_state = (if no_self_switch s st \<and> target_state = AMDGV_ENABLE_AUTO_HW_SWITCH
                                     then AMDGV_RUN_GPU else target_state) in
                 cbind (amdgv_gpuiov_idle_vf cur_vf s st) (\<lambda>(ret, st).
                   if ret \<noteq> 0 then Inr (AMDGV_LOG_IOV_WS_IDLE_TIMEOUT, (target_vf, target_state), st)
                   else Inr (WS_SUCCESS, (target_vf, target_state), set_gpu_state s AMDGV_IDLE_GPU st)))
       (\<lambda>(ret, tgt, st). Inr (ret, tgt,
          if ret = WS_SUCCESS then upd_switch w (\<lambda>x. x\<lparr>lw_switch_running := False\<rparr>) st else st))"

text \<open>Leaving automatic mode; the function that is active then is asked of the hardware.\<close>

definition auto_lost :: "nat \<Rightarrow> nat \<Rightarrow> amdgv_ws \<Rightarrow> amdgv_ws" where
  "auto_lost s w st =
     (let (cur_vf, st) = amdgv_gpuiov_get_active_vf_idx s st in
      upd_switch w (\<lambda>x. x\<lparr>lw_curr_idx_vf := cur_vf\<rparr>) (set_cur_vf s cur_vf st))"

definition auto_left :: "u32 \<Rightarrow> nat \<Rightarrow> amdgv_gpuiov_cmd \<Rightarrow> nat \<Rightarrow> u32 \<Rightarrow> amdgv_ws \<Rightarrow> auto_out" where
  "auto_left target_vf s target_state w cur_vf st =
     Inr (WS_SUCCESS, (if target_vf = - 1 then cur_vf else target_vf, target_state),
       upd_switch w (\<lambda>x. x\<lparr>lw_curr_idx_vf := cur_vf, lw_switch_running := False\<rparr>)
         (set_machine s AMDGV_DISABLE_AUTO_HW_SCHED cur_vf st))"

definition auto_from_auto :: "u32 \<Rightarrow> nat \<Rightarrow> amdgv_gpuiov_cmd \<Rightarrow> nat \<Rightarrow> amdgv_ws \<Rightarrow> auto_out" where
  "auto_from_auto target_vf s target_state w st =
     (let (active_vfs, st) = amdgv_gpuiov_get_active_vfs s st in
      if active_vfs = 0 then auto_left target_vf s target_state w AMDGV_PF_IDX st
      else if no_self_switch s st \<and> target_state = AMDGV_DISABLE_AUTO_HW_SCHED
      then Inr (WS_SUCCESS, (target_vf, AMDGV_SAVE_GPU_STATE), set_gpu_state s AMDGV_RUN_GPU st)
      else let (ret, st) = amdgv_gpuiov_disable_auto_sched s st in
      if ret \<noteq> 0 then Inr (WS_FAILURE, (target_vf, target_state), auto_lost s w st)
      else let (ret, st) = amdgv_gpuiov_wait_auto_sched_stop s st in
      if ret \<noteq> 0 then Inr (WS_FAILURE, (target_vf, target_state), auto_lost s w st)
      else let (cur_vf, st) = amdgv_gpuiov_get_active_vf_idx s st in
      auto_left target_vf s target_state w cur_vf st)"

definition auto_from_disabled :: "u32 \<Rightarrow> nat \<Rightarrow> amdgv_gpuiov_cmd \<Rightarrow> nat \<Rightarrow> u32 \<Rightarrow> amdgv_ws \<Rightarrow> auto_out" where
  "auto_from_disabled target_vf s target_state w cur_vf st =
     (let (r, st) = amdgv_sched_world_context_get_hw_curr_state s st in
      cbind (if lw_block_gfx (ws_switches st ! w) then Inr AMDGV_VF_CONTEXT_SAVED
             else case r of None \<Rightarrow> Inl Uninit_Read | Some c \<Rightarrow> Inr c) (\<lambda>hw_vf_state.
      let needs_idle = (hw_vf_state \<noteq> AMDGV_VF_CONTEXT_SAVED) in
      cbind (if needs_idle \<and> hw_vf_state \<noteq> AMDGV_VF_CONTEXT_CLEAR
             then amdgv_gpuiov_idle_vf cur_vf s st else Inr (0, st)) (\<lambda>(ret, st).
      if ret \<noteq> 0 then Inr (AMDGV_LOG_IOV_WS_IDLE_TIMEOUT, (target_vf, target_state), st)
      else Inr (WS_SUCCESS, (target_vf, target_state), mark_auto_stopped s cur_vf needs_idle
             (set_gpu_state s (if needs_idle then AMDGV_IDLE_GPU else AMDGV_SAVE_GPU_STATE) st)))))"

definition auto_round :: "nat \<Rightarrow> nat \<Rightarrow> u32 \<times> amdgv_gpuiov_cmd \<Rightarrow> amdgv_ws \<Rightarrow> auto_out" where
  "auto_round s w tgt st =
     (let (target_vf, target_state) = tgt;
          cur_vf = cur_vf_id (ws_machine st s) in
      case cur_gpu_state (ws_machine st s) of
        AMDGV_IDLE_GPU \<Rightarrow>
          cbind (amdgv_gpuiov_save_vf cur_vf s st) (\<lambda>(ret, st).
            if ret \<noteq> 0 then Inr (AMDGV_LOG_IOV_WS_SAVE_TIMEOUT, tgt, st)
            else Inr (WS_SUCCESS, tgt, set_gpu_state s AMDGV_SAVE_GPU_STATE st))
      | AMDGV_SAVE_GPU_STATE \<Rightarrow> auto_from_save target_vf s target_state w cur_vf st
      | AMDGV_SHUTDOWN_GPU \<Rightarrow> auto_enter target_vf s target_state w AMDGV_SHUTDOWN_GPU st
      | AMDGV_LOAD_GPU_STATE \<Rightarrow>
          cbind (amdgv_gpuiov_run_vf cur_vf s st) (\<lambda>(ret, st).
            if ret \<noteq> 0 then Inr (AMDGV_LOG_IOV_WS_RUN_TIMEOUT, tgt, st)
            else Inr (WS_SUCCESS, tgt, set_gpu_state s AMDGV_RUN_GPU st))
      | AMDGV_INIT_GPU \<Rightarrow>
          cbind (amdgv_gpuiov_run_vf cur_vf s st) (\<lambda>(ret, st).
            if ret \<noteq> 0 then Inr (AMDGV_LOG_IOV_WS_RUN_TIMEOUT, tgt, st)
            else Inr (WS_SUCCESS, tgt, set_gpu_state s AMDGV_RUN_GPU st))
      | AMDGV_RUN_GPU \<Rightarrow> auto_from_run target_vf s target_state w cur_vf st
      | AMDGV_ENABLE_AUTO_HW_SWITCH \<Rightarrow> auto_from_auto target_vf s target_state w st
      | AMDGV_DISABLE_AUTO_HW_SCHED \<Rightarrow> auto_from_disabled target_vf s target_state w cur_vf st
      | _ \<Rightarrow> Inr (AMDGV_LOG_IOV_CMD_ERROR, tgt, st))"

fun auto_loop :: "nat \<Rightarrow> nat \<Rightarrow> nat \<Rightarrow> u32 \<times> amdgv_gpuiov_cmd \<Rightarrow> amdgv_ws \<Rightarrow> (ws_ret \<times> amdgv_ws) cres" where
  "auto_loop loop_okay s w tgt st =
     (if at_target st s (fst tgt) (snd tgt) then Inr (WS_SUCCESS, st)
      else case loop_okay of
        0 \<Rightarrow> Inr (AMDGV_LOG_IOV_WS_INFINITE_LOOP, st)
      | Suc n \<Rightarrow> cbind (auto_round s w tgt st) (\<lambda>(ret, tgt, st).
          if ret \<noteq> WS_SUCCESS then Inr (ret, st) else auto_loop n s w tgt st))"

declare auto_loop.simps [simp del]

definition world_switch_goto_state_auto :: "u32 \<Rightarrow> nat \<Rightarrow> amdgv_gpuiov_cmd \<Rightarrow> amdgv_ws \<Rightarrow>
    (ws_ret \<times> amdgv_ws) cres" where
  "world_switch_goto_state_auto target_vf s target_state st =
     (case amdgv_sched_get_world_switch_by_hw_sched_id s st of
        None \<Rightarrow> Inr (WS_FAILURE, st)
      | Some w \<Rightarrow>
          if ws_lock (ws_machine st s) then Inr (AMDGV_LOG_IOV_WS_REENTRANT_ERROR, st)
          else let st = set_lock s True st;
                   (target_vf, st) =
                     (if target_vf = - 1 \<and> cur_gpu_state (ws_machine st s) \<noteq> AMDGV_ENABLE_AUTO_HW_SWITCH
                      then let (vf, st) = amdgv_gpuiov_get_active_vf_idx s st in
                           (vf, upd_switch w (\<lambda>x. x\<lparr>lw_curr_idx_vf := vf\<rparr>) st)
                      else (target_vf, st)) in
          cbind (auto_loop 20 s w (target_vf, target_state) st) (\<lambda>(ret, st).
            Inr (ret, set_lock s False st)))"

section \<open>The operations of the scheduler\<close>

text \<open>\<^verbatim>\<open>amdgv_hw_sched_init\<close> chooses the machine of a scheduler by its mode.\<close>

definition goto_state :: "u32 \<Rightarrow> nat \<Rightarrow> amdgv_gpuiov_cmd \<Rightarrow> amdgv_ws \<Rightarrow> (ws_ret \<times> amdgv_ws) cres" where
  "goto_state target_vf s target_state st =
     (if sm_mode (ws_machine st s) = AMDGV_WS_MODE_AUTO
      then world_switch_goto_state_auto target_vf s target_state st
      else world_switch_goto_state_manual target_vf s target_state st)"

definition run_state :: "u32 \<Rightarrow> amdgv_ws \<Rightarrow> amdgv_gpuiov_cmd cres" where
  "run_state idx_vf st = cbind (vf_slot idx_vf) (\<lambda>v.
     Inr (if ws_skip_run st v then AMDGV_LOAD_GPU_STATE else AMDGV_RUN_GPU))"

definition amdgv_hw_sched_state_run :: "u32 \<Rightarrow> nat \<Rightarrow> amdgv_ws \<Rightarrow> (ws_ret \<times> amdgv_ws) cres" where
  "amdgv_hw_sched_state_run idx_vf s st =
     cbind (if cur_gpu_state (ws_machine st s) = AMDGV_RUN_GPU \<and> ws_gfx st s
            then cbind (amdgv_gpuiov_idle_vf (cur_vf_id (ws_machine st s)) s st) (\<lambda>(ret, st).
              if ret \<noteq> 0 then Inr (AMDGV_LOG_IOV_WS_IDLE_TIMEOUT, st)
              else Inr (WS_SUCCESS, set_gpu_state s AMDGV_IDLE_GPU st))
            else Inr (WS_SUCCESS, st)) (\<lambda>(ret, st).
       if ret \<noteq> WS_SUCCESS then Inr (ret, st)
       else cbind (run_state idx_vf st) (\<lambda>target. goto_state idx_vf s target st))"

definition amdgv_hw_sched_state_pause :: "u32 \<Rightarrow> nat \<Rightarrow> amdgv_ws \<Rightarrow> (ws_ret \<times> amdgv_ws) cres" where
  "amdgv_hw_sched_state_pause idx_vf s st = goto_state idx_vf s AMDGV_SAVE_GPU_STATE st"

definition amdgv_hw_sched_state_shutdown :: "u32 \<Rightarrow> nat \<Rightarrow> amdgv_ws \<Rightarrow> (ws_ret \<times> amdgv_ws) cres" where
  "amdgv_hw_sched_state_shutdown idx_vf s st = goto_state idx_vf s AMDGV_SHUTDOWN_GPU st"

text \<open>\<open>num_active\<close> is what \<^verbatim>\<open>amdgv_sched_active_vf_num\<close> answers.\<close>

definition amdgv_hw_sched_state_run_auto :: "nat \<Rightarrow> u32 \<Rightarrow> nat \<Rightarrow> amdgv_ws \<Rightarrow> (ws_ret \<times> amdgv_ws) cres" where
  "amdgv_hw_sched_state_run_auto num_active idx_vf s st =
     (if ws_gfx st s then
        let idx_vf = (if idx_vf = - 1
              then (case find (ws_auto_run st) [0..<AMDGV_MAX_VF_SLOT] of None \<Rightarrow> idx_vf | Some i \<Rightarrow> of_nat i)
              else idx_vf) in
        if num_active = 1 \<and> ws_liquid st s then goto_state idx_vf s AMDGV_RUN_GPU st
        else if idx_vf = - 1 then goto_state AMDGV_PF_IDX s AMDGV_RUN_GPU st
        else goto_state idx_vf s AMDGV_ENABLE_AUTO_HW_SWITCH st
      else goto_state idx_vf s AMDGV_ENABLE_AUTO_HW_SWITCH st)"

text \<open>A logical scheduler is a mask of hardware schedulers; the flag is \<^verbatim>\<open>mark_bad\<close>.\<close>

fun each_sched :: "(nat \<Rightarrow> amdgv_ws \<Rightarrow> (ws_ret \<times> amdgv_ws) cres) \<Rightarrow> nat list \<Rightarrow> bool \<Rightarrow> amdgv_ws \<Rightarrow>
    (ws_ret \<times> amdgv_ws) cres" where
  "each_sched f [] bad st = Inr (if bad then WS_FAILURE else WS_SUCCESS, st)"
| "each_sched f (s # ss) bad st =
     cbind (f s st) (\<lambda>(ret, st). each_sched f ss (bad \<or> ret \<noteq> WS_SUCCESS) st)"

definition amdgv_logical_sched_state_run :: "u32 \<Rightarrow> amdgv_sched_world_switch \<Rightarrow> amdgv_ws \<Rightarrow>
    (ws_ret \<times> amdgv_ws) cres" where
  "amdgv_logical_sched_state_run idx_vf ws st =
     (let msk = lw_hw_sched_mask ws in
      if \<not> lw_bulk ws then each_sched (amdgv_hw_sched_state_run idx_vf) (for_each_id msk) False st
      else cbind (if lw_curr_vf_state ws = AMDGV_VF_CONTEXT_LOADED \<and> lw_curr_idx_vf ws = idx_vf
                  then world_switch_bulk_goto_state_manual idx_vf msk AMDGV_IDLE_GPU st
                  else Inr (WS_SUCCESS, st)) (\<lambda>(ret, st).
        if ret \<noteq> WS_SUCCESS then Inr (ret, st)
        else cbind (run_state idx_vf st) (\<lambda>target.
          world_switch_bulk_goto_state_manual idx_vf msk target st)))"

definition amdgv_logical_sched_state_pause :: "u32 \<Rightarrow> amdgv_sched_world_switch \<Rightarrow> amdgv_ws \<Rightarrow>
    (ws_ret \<times> amdgv_ws) cres" where
  "amdgv_logical_sched_state_pause idx_vf ws st =
     (if \<not> lw_bulk ws
      then each_sched (amdgv_hw_sched_state_pause idx_vf) (for_each_id (lw_hw_sched_mask ws)) False st
      else world_switch_bulk_goto_state_manual idx_vf (lw_hw_sched_mask ws) AMDGV_SAVE_GPU_STATE st)"

definition amdgv_logical_sched_state_shutdown :: "u32 \<Rightarrow> amdgv_sched_world_switch \<Rightarrow> amdgv_ws \<Rightarrow>
    (ws_ret \<times> amdgv_ws) cres" where
  "amdgv_logical_sched_state_shutdown idx_vf ws st =
     (if \<not> lw_bulk ws
      then each_sched (amdgv_hw_sched_state_shutdown idx_vf) (for_each_id (lw_hw_sched_mask ws)) False st
      else world_switch_bulk_goto_state_manual idx_vf (lw_hw_sched_mask ws) AMDGV_SHUTDOWN_GPU st)"

definition amdgv_hw_sched_init :: "amdgv_ws \<Rightarrow> amdgv_ws" where
  "amdgv_hw_sched_init st =
     st\<lparr>ws_machine := (\<lambda>s. if s < AMDGV_MAX_NUM_HW_SCHED
          then (ws_machine st s)\<lparr>cur_gpu_state := AMDGV_SHUTDOWN_GPU\<rparr> else ws_machine st s),
        cur_vf_state := (\<lambda>v s. if s < AMDGV_MAX_NUM_HW_SCHED \<and> (v = AMDGV_MAX_VF_NUM \<or> v < unat (ws_max_num_vf st))
          then AMDGV_SHUTDOWN_GPU else cur_vf_state st v s),
        ws_auto_run := (\<lambda>v. if v < unat (ws_max_num_vf st) then False else ws_auto_run st v)\<rparr>"

section \<open>Live update\<close>

record amdgv_live_info_ws_state =
  lv_cur_gpu_state :: amdgv_gpuiov_cmd
  lv_cur_vf_id :: u32
  lv_mode :: ws_mode

definition amdgv_ws_state_export_live_data :: "amdgv_ws \<Rightarrow> amdgv_live_info_ws_state list" where
  "amdgv_ws_state_export_live_data st =
     map (\<lambda>s. let m = ws_machine st s in
        \<lparr>lv_cur_gpu_state = cur_gpu_state m, lv_cur_vf_id = cur_vf_id m, lv_mode = sm_mode m\<rparr>)
       [0..<unat (ws_num_ctrl_blocks st)]"

fun import_machines :: "nat \<Rightarrow> amdgv_live_info_ws_state list \<Rightarrow> amdgv_ws \<Rightarrow> amdgv_ws" where
  "import_machines s [] st = st"
| "import_machines s (l # ls) st = import_machines (Suc s) ls
     (st\<lparr>ws_machine := (ws_machine st)(s := (ws_machine st s)\<lparr>cur_gpu_state := lv_cur_gpu_state l,
        cur_vf_id := lv_cur_vf_id l, sm_mode := lv_mode l\<rparr>)\<rparr>)"

definition amdgv_ws_state_import_live_data :: "amdgv_live_info_ws_state list \<Rightarrow> amdgv_ws \<Rightarrow> amdgv_ws" where
  "amdgv_ws_state_import_live_data ls st = import_machines 0 (take (unat (ws_num_ctrl_blocks st)) ls) st"

end
