(* ===== verification/GV_Ws_Manual.thy ===== *)
theory GV_Ws_Manual
  imports GV_Ws_Auto
begin

text \<open>
  The manual world-switch machine. The six commands satisfy one contract, the locale
  \<open>gpuiov_command\<close>; a round of the machine is a function of a small view of it, from which the
  distance to every target follows (at most eight rounds); \<open>engine_step\<close> says what a scheduler may do
  at all, and every round is such a step. The last section shows that \<^verbatim>\<open>for_each_id\<close> lists the bits of a mask.
\<close>

section \<open>Commands\<close>

text \<open>What a command leaves behind: its events, and the state it recorded for the function.\<close>

definition after :: "u32 \<Rightarrow> nat \<Rightarrow> amdgv_gpuiov_cmd option \<Rightarrow> ws_event list \<Rightarrow> amdgv_ws \<Rightarrow> amdgv_ws" where
  "after vf s oc tr st = st\<lparr>ws_trace := ws_trace st @ tr,
     cur_vf_state := (case oc of None \<Rightarrow> cur_vf_state st
       | Some c \<Rightarrow> (cur_vf_state st)(unat vf := (cur_vf_state st (unat vf))(s := c)))\<rparr>"

definition n_cmds :: "ws_event list \<Rightarrow> nat" where
  "n_cmds tr = length (filter (\<lambda>e. case e of Cmd _ _ _ \<Rightarrow> True | _ \<Rightarrow> False) tr)"

lemma n_cmds_simps [simp]: "n_cmds [] = 0" "n_cmds (Cmd c s v # tr) = Suc (n_cmds tr)"
  "n_cmds (Waited m b # tr) = n_cmds tr" "n_cmds (Asked s # tr) = n_cmds tr"
  "n_cmds (tr @ tr') = n_cmds tr + n_cmds tr'"
  by (simp_all add: n_cmds_def)

text \<open>No wait of a trace has timed out.\<close>

definition in_time :: "ws_event list \<Rightarrow> bool" where
  "in_time tr \<longleftrightarrow> (\<forall>m. Waited m False \<notin> set tr)"

lemma in_time_simps [simp]: "in_time []" "in_time (Cmd c s v # tr) = in_time tr" "in_time (Waited m b # tr) \<longleftrightarrow> b \<and> in_time tr"
  "in_time (Asked s # tr) = in_time tr" "in_time (tr @ tr') \<longleftrightarrow> in_time tr \<and> in_time tr'"
  by (auto simp: in_time_def)

text \<open>The contract of a command: it ends with the wait of its scheduler, which decides its result.\<close>

definition cmd_out :: "amdgv_gpuiov_cmd option \<Rightarrow> u32 \<Rightarrow> nat \<Rightarrow> amdgv_ws \<Rightarrow> int \<Rightarrow> amdgv_ws \<Rightarrow> bool" where
  "cmd_out oc vf s st ret st' \<longleftrightarrow>
     (if ret = 0 then \<exists>tr. st' = after vf s oc tr st \<and> n_cmds tr \<le> 1 \<and> in_time tr
      else \<exists>tr. st' = after vf s None (tr @ [Waited (push_bit s 1) False]) st \<and> n_cmds tr \<le> 1 \<and> in_time tr \<and>
           \<not> bit (ws_hw st (length (ws_trace st @ tr))) s)"

locale gpuiov_command =
  fixes cmd :: "u32 \<Rightarrow> nat \<Rightarrow> amdgv_ws \<Rightarrow> (int \<times> amdgv_ws) cres"
    and records :: "amdgv_ws \<Rightarrow> amdgv_gpuiov_cmd option"
  assumes cmd_returns: "unat vf < 32 \<Longrightarrow> \<exists>ret st'. cmd vf s st = Inr (ret, st') \<and> cmd_out (records st) vf s st ret st'"
begin

lemma issue_out:
  assumes "unat vf < 32"
  shows "\<exists>ret st'. cbind (cmd vf s st) (\<lambda>(ret, st). Inr (if ret \<noteq> 0 then e else WS_SUCCESS, st)) =
      Inr (if ret \<noteq> 0 then e else WS_SUCCESS, st') \<and> cmd_out (records st) vf s st ret st'"
proof -
  from cmd_returns [OF assms] obtain ret st'
    where *: "cmd vf s st = Inr (ret, st')" "cmd_out (records st) vf s st ret st'" by blast
  show ?thesis by (rule exI [of _ ret], rule exI [of _ st']) (simp add: *)
qed

end

lemmas cmd_defs = amdgv_gpuiov_init_vf_def amdgv_gpuiov_load_vf_def amdgv_gpuiov_idle_vf_def
  amdgv_gpuiov_save_vf_def amdgv_gpuiov_run_vf_def amdgv_gpuiov_shutdown_vf_def
  amdgv_gpuiov_init_vf_no_wait_def amdgv_gpuiov_load_vf_no_wait_def amdgv_gpuiov_idle_vf_no_wait_def
  amdgv_gpuiov_save_vf_no_wait_def amdgv_gpuiov_run_vf_no_wait_def

lemmas wait_defs = wait_cmd_complete_def set_cmd_def set_vf_state_def amdgv_update_histogram_def
  vf_slot_def cmd_out_def after_def Let_def

lemma cmd_returnsI:
  assumes "unat vf < 32"
    and "cmd vf s st = (if bit (ws_hw st (Suc (length (ws_trace st)))) s
       then Inr (0, after vf s oc [Cmd c s vf, Waited (push_bit s 1) True] st)
       else Inr (- 1, after vf s None [Cmd c s vf, Waited (push_bit s 1) False] st))"
  shows "\<exists>ret st'. cmd vf s st = Inr (ret, st') \<and> cmd_out oc vf s st ret st'"
proof (cases "bit (ws_hw st (Suc (length (ws_trace st)))) s")
  case True
  with assms(2) show ?thesis
    by (auto simp: cmd_out_def intro!: exI [of _ "[Cmd c s vf, Waited (push_bit s 1) True]"])
next
  case False
  with assms(2) show ?thesis
    by (auto simp: cmd_out_def intro!: exI [of _ "[Cmd c s vf]"])
qed

interpretation init_cmd: gpuiov_command amdgv_gpuiov_init_vf "\<lambda>_. Some AMDGV_INIT_GPU"
  by unfold_locales (rule cmd_returnsI [where c = AMDGV_INIT_GPU], assumption, simp add: cmd_defs wait_defs)

interpretation load_cmd: gpuiov_command amdgv_gpuiov_load_vf "\<lambda>_. Some AMDGV_LOAD_GPU_STATE"
  by unfold_locales (rule cmd_returnsI [where c = AMDGV_LOAD_GPU_STATE], assumption, simp add: cmd_defs wait_defs)

interpretation idle_cmd: gpuiov_command amdgv_gpuiov_idle_vf "\<lambda>_. Some AMDGV_IDLE_GPU"
  by unfold_locales (rule cmd_returnsI [where c = AMDGV_IDLE_GPU], assumption, simp add: cmd_defs wait_defs)

interpretation save_cmd: gpuiov_command amdgv_gpuiov_save_vf "\<lambda>_. Some AMDGV_SAVE_GPU_STATE"
  by unfold_locales (rule cmd_returnsI [where c = AMDGV_SAVE_GPU_STATE], assumption, simp add: cmd_defs wait_defs)

interpretation run_cmd: gpuiov_command amdgv_gpuiov_run_vf "\<lambda>_. Some AMDGV_RUN_GPU"
  by unfold_locales (rule cmd_returnsI [where c = AMDGV_RUN_GPU], assumption, simp add: cmd_defs wait_defs)

text \<open>A shutdown may send no command: under the legacy FLR sequence it does nothing at all.\<close>

lemma after_same: "after vf s None [] st = st"
  by (simp add: after_def)

interpretation shutdown_cmd: gpuiov_command amdgv_gpuiov_shutdown_vf
  "\<lambda>st. if ws_legacy_flr st then None else Some AMDGV_SHUTDOWN_GPU"
proof unfold_locales
  fix vf :: u32 and s :: nat and st :: amdgv_ws
  assume vf: "unat vf < 32"
  let ?r = "if ws_legacy_flr st then None else Some AMDGV_SHUTDOWN_GPU"
  show "\<exists>ret st'. amdgv_gpuiov_shutdown_vf vf s st = Inr (ret, st') \<and> cmd_out ?r vf s st ret st'"
  proof (cases "\<not> ws_legacy_flr st \<and> sends_shutdown s st")
    case True
    then have "amdgv_gpuiov_shutdown_vf vf s st =
        (if bit (ws_hw st (Suc (length (ws_trace st)))) s
         then Inr (0, after vf s ?r [Cmd AMDGV_SHUTDOWN_GPU s vf, Waited (push_bit s 1) True] st)
         else Inr (- 1, after vf s None [Cmd AMDGV_SHUTDOWN_GPU s vf, Waited (push_bit s 1) False] st))"
      by (simp add: amdgv_gpuiov_shutdown_vf_def wait_cmd_complete_def set_cmd_def set_vf_state_def
          vf_slot_def after_def Let_def vf)
    then show ?thesis by (rule cmd_returnsI [OF vf])
  next
    case False
    then have "amdgv_gpuiov_shutdown_vf vf s st = Inr (0, after vf s ?r [] st)"
      using vf by (cases "ws_legacy_flr st")
        (simp_all add: amdgv_gpuiov_shutdown_vf_def set_vf_state_def vf_slot_def after_def)
    then show ?thesis by (auto simp: cmd_out_def intro!: exI [of _ "[]"])
  qed
qed

definition manual_state :: "amdgv_gpuiov_cmd \<Rightarrow> bool" where
  "manual_state c \<longleftrightarrow> c \<in> {AMDGV_IDLE_GPU, AMDGV_SAVE_GPU_STATE, AMDGV_LOAD_GPU_STATE, AMDGV_INIT_GPU,
     AMDGV_RUN_GPU, AMDGV_SHUTDOWN_GPU}"

definition timeout_of :: "amdgv_gpuiov_cmd \<Rightarrow> ws_ret" where
  "timeout_of c = (case c of AMDGV_IDLE_GPU \<Rightarrow> AMDGV_LOG_IOV_WS_IDLE_TIMEOUT
     | AMDGV_SAVE_GPU_STATE \<Rightarrow> AMDGV_LOG_IOV_WS_SAVE_TIMEOUT
     | AMDGV_RUN_GPU \<Rightarrow> AMDGV_LOG_IOV_WS_RUN_TIMEOUT
     | AMDGV_SHUTDOWN_GPU \<Rightarrow> AMDGV_LOG_IOV_WS_SHUTDOWN_TIMEOUT
     | _ \<Rightarrow> AMDGV_LOG_IOV_WS_LOAD_TIMEOUT)"

lemma timeout_not_success [simp]: "timeout_of c \<noteq> WS_SUCCESS"
  by (cases c) (simp_all add: timeout_of_def)

text \<open>The state that a successful command records for its function.\<close>

definition recorded :: "amdgv_gpuiov_cmd \<Rightarrow> amdgv_ws \<Rightarrow> amdgv_gpuiov_cmd option" where
  "recorded c st = (if c = AMDGV_SHUTDOWN_GPU \<and> ws_legacy_flr st then None else Some c)"

lemma issue_returns:
  assumes "unat vf < 32" "manual_state c"
  shows "\<exists>ret st'. issue c vf s st = Inr (if ret \<noteq> 0 then timeout_of c else WS_SUCCESS, st') \<and>
      cmd_out (recorded c st) vf s st ret st'"
proof -
  note defs = issue_def timeout_of_def recorded_def Let_def amdgv_gpuiov_cmd.case amdgv_gpuiov_cmd.distinct simp_thms if_False
  consider "c = AMDGV_IDLE_GPU" | "c = AMDGV_SAVE_GPU_STATE" | "c = AMDGV_LOAD_GPU_STATE"
    | "c = AMDGV_INIT_GPU" | "c = AMDGV_RUN_GPU" | "c = AMDGV_SHUTDOWN_GPU"
    using assms(2) by (auto simp: manual_state_def)
  then show ?thesis
  proof cases
    case 1 show ?thesis using idle_cmd.issue_out [OF assms(1)] by (simp only: defs 1)
  next
    case 2 show ?thesis using save_cmd.issue_out [OF assms(1)] by (simp only: defs 2)
  next
    case 3 show ?thesis using load_cmd.issue_out [OF assms(1)] by (simp only: defs 3)
  next
    case 4 show ?thesis using init_cmd.issue_out [OF assms(1)] by (simp only: defs 4)
  next
    case 5 show ?thesis using run_cmd.issue_out [OF assms(1)] by (simp only: defs 5)
  next
    case 6 show ?thesis using shutdown_cmd.issue_out [OF assms(1)] by (simp only: defs 6)
  qed
qed

section \<open>The manual machine seen from its target\<close>

text \<open>All that the manual machine depends on: its state, whether its function is the target, and
  whether the target is recorded as saved. A round is a function of this view.\<close>

type_synonym view = "amdgv_gpuiov_cmd \<times> bool \<times> bool"

definition view_of :: "u32 \<Rightarrow> nat \<Rightarrow> amdgv_ws \<Rightarrow> view" where
  "view_of vf s st = (cur_gpu_state (ws_machine st s), cur_vf_id (ws_machine st s) = vf,
     cur_vf_state st (unat vf) s = AMDGV_SAVE_GPU_STATE)"

definition view_enter :: "amdgv_gpuiov_cmd \<Rightarrow> bool \<Rightarrow> bool \<Rightarrow> amdgv_gpuiov_cmd \<times> bool" where
  "view_enter target same saved =
     (if target = AMDGV_SHUTDOWN_GPU \<and> \<not> same \<and> saved then AMDGV_SHUTDOWN_GPU
      else if saved then AMDGV_LOAD_GPU_STATE else AMDGV_INIT_GPU, True)"

definition view_next :: "amdgv_gpuiov_cmd \<Rightarrow> bool \<Rightarrow> view \<Rightarrow> amdgv_gpuiov_cmd \<times> bool" where
  "view_next target susp v = (case v of (g, same, saved) \<Rightarrow>
     (case g of
        AMDGV_IDLE_GPU \<Rightarrow> (AMDGV_SAVE_GPU_STATE, same)
      | AMDGV_SAVE_GPU_STATE \<Rightarrow> if target = AMDGV_SHUTDOWN_GPU \<and> (same \<or> susp) then (AMDGV_SHUTDOWN_GPU, True)
          else view_enter target same saved
      | AMDGV_SHUTDOWN_GPU \<Rightarrow> view_enter target same saved
      | AMDGV_RUN_GPU \<Rightarrow> (AMDGV_IDLE_GPU, same)
      | _ \<Rightarrow> (AMDGV_RUN_GPU, same)))"

definition view_step :: "amdgv_gpuiov_cmd \<Rightarrow> bool \<Rightarrow> bool \<Rightarrow> view \<Rightarrow> view" where
  "view_step target susp legacy v = (let (g, same) = view_next target susp v in
     (g, same, if same \<and> \<not> (g = AMDGV_SHUTDOWN_GPU \<and> legacy) then g = AMDGV_SAVE_GPU_STATE else snd (snd v)))"

fun view_reaches :: "nat \<Rightarrow> amdgv_gpuiov_cmd \<Rightarrow> bool \<Rightarrow> bool \<Rightarrow> view \<Rightarrow> bool" where
  "view_reaches 0 target susp legacy v \<longleftrightarrow> fst v = target \<and> fst (snd v)"
| "view_reaches (Suc n) target susp legacy v \<longleftrightarrow>
     fst v = target \<and> fst (snd v) \<or> view_reaches n target susp legacy (view_step target susp legacy v)"

definition manual_target :: "amdgv_gpuiov_cmd \<Rightarrow> bool" where
  "manual_target c \<longleftrightarrow> manual_state c \<and> c \<noteq> AMDGV_INIT_GPU"

lemma manual_state_cases [consumes 1, case_names idle save load init run shutdown]:
  assumes "manual_state c"
  obtains "c = AMDGV_IDLE_GPU" | "c = AMDGV_SAVE_GPU_STATE" | "c = AMDGV_LOAD_GPU_STATE"
    | "c = AMDGV_INIT_GPU" | "c = AMDGV_RUN_GPU" | "c = AMDGV_SHUTDOWN_GPU"
  using assms by (auto simp: manual_state_def)


lemmas view_defs = view_step_def view_next_def view_enter_def

lemma view_reaches_Suc: "view_reaches n target susp legacy v \<Longrightarrow> view_reaches (Suc n) target susp legacy v"
proof (induction n arbitrary: v)
  case (Suc n)
  then show ?case by (metis view_reaches.simps(2))
qed simp

lemma view_reaches_mono:
  assumes "view_reaches n target susp legacy v" "n \<le> m"
  shows "view_reaches m target susp legacy v"
  using assms(2,1) by (induction rule: dec_induct) (auto intro: view_reaches_Suc simp del: view_reaches.simps)

text \<open>Once the target is the function of the machine, each target state lies on one cycle.\<close>

lemma view_reaches_same:
  assumes "manual_target target" "g \<in> {AMDGV_INIT_GPU, AMDGV_LOAD_GPU_STATE}"
  shows "view_reaches 4 target susp legacy (g, True, saved)"
proof -
  have "manual_state target" using assms(1) by (simp add: manual_target_def)
  then show ?thesis using assms
    by (cases rule: manual_state_cases; auto simp: manual_target_def view_defs eval_nat_numeral)
qed

lemma view_reaches_enter:
  assumes "manual_target target" "g = AMDGV_SHUTDOWN_GPU \<or> g = AMDGV_SAVE_GPU_STATE"
  shows "view_reaches 5 target susp legacy (g, same, saved)"
proof -
  let ?v = "(g, same, saved)"
  have "fst (view_step target susp legacy ?v) = target \<and> fst (snd (view_step target susp legacy ?v)) \<or>
      (\<exists>g' saved'. view_step target susp legacy ?v = (g', True, saved') \<and>
         g' \<in> {AMDGV_INIT_GPU, AMDGV_LOAD_GPU_STATE})"
    using assms by (cases saved; cases same) (auto simp: view_defs)
  then have "view_reaches 4 target susp legacy (view_step target susp legacy ?v)"
  proof
    assume "fst (view_step target susp legacy ?v) = target \<and> fst (snd (view_step target susp legacy ?v))"
    then have "view_reaches 0 target susp legacy (view_step target susp legacy ?v)" by simp
    then show ?thesis by (rule view_reaches_mono) simp
  qed (use view_reaches_same [OF assms(1)] in auto)
  then have "view_reaches (Suc 4) target susp legacy ?v" by (simp only: view_reaches.simps simp_thms)
  then show ?thesis by (simp del: view_reaches.simps)
qed

lemma view_reaches_all:
  assumes "manual_target target" "manual_state g"
  shows "view_reaches 8 target susp legacy (g, same, saved)"
proof -
  let ?R = "\<lambda>n g. \<forall>saved. view_reaches n target susp legacy (g, same, saved)"
  have step: "?R (Suc n) g" if "?R n g'" "fst (view_next target susp (g, same, True)) = g'" "g \<in> {AMDGV_IDLE_GPU, AMDGV_RUN_GPU, AMDGV_INIT_GPU, AMDGV_LOAD_GPU_STATE}" for n g g'
    using that by (auto simp: view_defs)
  have save: "?R 5 AMDGV_SAVE_GPU_STATE" "?R 5 AMDGV_SHUTDOWN_GPU"
    using view_reaches_enter [OF assms(1)] by auto
  have idle: "?R (Suc 5) AMDGV_IDLE_GPU"
    using step [OF save(1), of AMDGV_IDLE_GPU] by (simp add: view_defs)
  have run: "?R (Suc (Suc 5)) AMDGV_RUN_GPU"
    using step [OF idle, of AMDGV_RUN_GPU] by (simp add: view_defs)
  have load: "?R (Suc (Suc (Suc 5))) AMDGV_LOAD_GPU_STATE" "?R (Suc (Suc (Suc 5))) AMDGV_INIT_GPU"
    using step [OF run, of AMDGV_LOAD_GPU_STATE] step [OF run, of AMDGV_INIT_GPU] by (simp_all add: view_defs)
  have "\<exists>n \<le> 8. ?R n g"
    using assms(2)
  proof (cases rule: manual_state_cases)
    case idle then show ?thesis using \<open>?R (Suc 5) AMDGV_IDLE_GPU\<close> by (intro exI [of _ 6]) simp
  next
    case save then show ?thesis using \<open>?R 5 AMDGV_SAVE_GPU_STATE\<close> by (intro exI [of _ 5]) simp
  next
    case load then show ?thesis using \<open>?R (Suc (Suc (Suc 5))) AMDGV_LOAD_GPU_STATE\<close> by (intro exI [of _ 8]) simp
  next
    case init then show ?thesis using \<open>?R (Suc (Suc (Suc 5))) AMDGV_INIT_GPU\<close> by (intro exI [of _ 8]) simp
  next
    case run then show ?thesis using \<open>?R (Suc (Suc 5)) AMDGV_RUN_GPU\<close> by (intro exI [of _ 7]) simp
  next
    case shutdown then show ?thesis using \<open>?R 5 AMDGV_SHUTDOWN_GPU\<close> by (intro exI [of _ 5]) simp
  qed
  then show ?thesis using view_reaches_mono by blast
qed

lemma view_next_manual: "manual_state (fst v) \<Longrightarrow> manual_state (fst (view_next target susp v))"
  by (cases v) (auto simp: manual_state_def view_next_def view_enter_def split: if_splits)

section \<open>Rounds of the manual machine\<close>

definition suspended :: "amdgv_ws \<Rightarrow> u32 \<Rightarrow> bool" where
  "suspended st vf \<longleftrightarrow> ws_vf_sched st (unat vf) = AMDGV_SCHED_SUSPEND"

definition next_vf_of :: "u32 \<Rightarrow> nat \<Rightarrow> amdgv_ws \<Rightarrow> bool \<Rightarrow> u32" where
  "next_vf_of vf s st same = (if same then vf else cur_vf_id (ws_machine st s))"

lemma next_state_view:
  assumes "unat vf < 32" "manual_state (cur_gpu_state (ws_machine st s))"
    and v: "view_next target (suspended st vf) (view_of vf s st) = (g, same)"
  shows "world_switch_get_next_state st s vf target (cur_gpu_state (ws_machine st s)) (cur_vf_id (ws_machine st s)) =
    Inr (Some (g, next_vf_of vf s st same))"
  using assms(2,3)
  by (cases rule: manual_state_cases)
    (use assms(1) in \<open>auto simp: world_switch_get_next_state_def switch_target_def get_vf_state_def is_suspend_vf_def
      vf_slot_def view_defs view_of_def suspended_def next_vf_of_def split: if_splits\<close>)

lemma after_simps [simp]: "ws_machine (after vf s oc tr st) = ws_machine st"
  "ws_vf_sched (after vf s oc tr st) = ws_vf_sched st" "ws_hw (after vf s oc tr st) = ws_hw st"
  "ws_legacy_flr (after vf s oc tr st) = ws_legacy_flr st" "ws_trace (after vf s oc tr st) = ws_trace st @ tr"
  by (simp_all add: after_def)

lemma set_machine_simps [simp]: "ws_vf_sched (set_machine s c vf st) = ws_vf_sched st"
  "ws_hw (set_machine s c vf st) = ws_hw st" "ws_legacy_flr (set_machine s c vf st) = ws_legacy_flr st"
  "ws_trace (set_machine s c vf st) = ws_trace st" "cur_vf_state (set_machine s c vf st) = cur_vf_state st"
  by (simp_all add: set_machine_def)

text \<open>What a round leaves behind: after a command in time the machine is in the next state, after
  one out of time it is where it was.\<close>

definition round_out :: "u32 \<Rightarrow> nat \<Rightarrow> amdgv_gpuiov_cmd \<Rightarrow> amdgv_ws \<Rightarrow> ws_ret \<Rightarrow> amdgv_ws \<Rightarrow> bool" where
  "round_out vf s target st ret st' \<longleftrightarrow>
     (case view_next target (suspended st vf) (view_of vf s st) of (g, same) \<Rightarrow>
        (let nvf = next_vf_of vf s st same in
         (ret = WS_SUCCESS \<and> (\<exists>tr. st' = set_machine s g nvf (after nvf s (recorded g st) tr st) \<and> n_cmds tr \<le> 1 \<and> in_time tr)) \<or>
         (ret = timeout_of g \<and> (\<exists>tr. st' = after nvf s None (tr @ [Waited (push_bit s 1) False]) st \<and>
            n_cmds tr \<le> 1 \<and> in_time tr \<and> \<not> bit (ws_hw st (length (ws_trace st @ tr))) s))))"

definition wf_sched :: "nat \<Rightarrow> amdgv_ws \<Rightarrow> bool" where
  "wf_sched s st \<longleftrightarrow> manual_state (cur_gpu_state (ws_machine st s)) \<and> unat (cur_vf_id (ws_machine st s)) < 32"

lemma view_next_wf:
  assumes "wf_sched s st" "view_next target susp (view_of vf s st) = (g, same)"
  shows "manual_state g"
proof -
  have "manual_state (fst (view_of vf s st))" using assms(1) by (simp add: wf_sched_def view_of_def)
  from view_next_manual [OF this, of target susp] assms(2) show ?thesis by simp
qed

lemma next_vf_of_less:
  assumes "wf_sched s st" "unat vf < 32"
  shows "unat (next_vf_of vf s st same) < 32"
  using assms by (simp add: next_vf_of_def wf_sched_def)

lemma manual_round_out:
  assumes vf: "unat vf < 32" and wf: "wf_sched s st"
  shows "\<exists>ret st'. manual_round vf s target st = Inr (ret, st') \<and> round_out vf s target st ret st'"
proof -
  obtain g same where v: "view_next target (suspended st vf) (view_of vf s st) = (g, same)" by fastforce
  let ?n = "next_vf_of vf s st same"
  have nxt: "world_switch_get_next_state st s vf target (cur_gpu_state (ws_machine st s)) (cur_vf_id (ws_machine st s)) =
      Inr (Some (g, ?n))"
    using next_state_view [OF vf _ v] wf by (simp add: wf_sched_def)
  obtain ret st' where i: "issue g ?n s st = Inr (if ret \<noteq> 0 then timeout_of g else WS_SUCCESS, st')"
      and c: "cmd_out (recorded g st) ?n s st ret st'"
    using issue_returns [OF next_vf_of_less [OF wf vf] view_next_wf [OF wf v]] by blast
  show ?thesis
  proof (cases "ret = 0")
    case True
    then have "manual_round vf s target st = Inr (WS_SUCCESS, set_machine s g ?n st')"
      by (simp add: manual_round_def nxt i)
    moreover have "round_out vf s target st WS_SUCCESS (set_machine s g ?n st')"
      using c True by (auto simp: round_out_def v cmd_out_def Let_def)
    ultimately show ?thesis by blast
  next
    case False
    then have "manual_round vf s target st = Inr (timeout_of g, st')"
      by (simp add: manual_round_def nxt i)
    moreover have "round_out vf s target st (timeout_of g) st'"
      using c False by (auto simp: round_out_def v cmd_out_def Let_def)
    ultimately show ?thesis by blast
  qed
qed

text \<open>A round that succeeds is a step of the view and leaves the other schedulers alone.\<close>

definition same_elsewhere :: "nat \<Rightarrow> amdgv_ws \<Rightarrow> amdgv_ws \<Rightarrow> bool" where
  "same_elsewhere s st st' \<longleftrightarrow> (\<forall>r. r \<noteq> s \<longrightarrow> ws_machine st' r = ws_machine st r \<and>
     (\<forall>v. cur_vf_state st' v r = cur_vf_state st v r)) \<and> ws_vf_sched st' = ws_vf_sched st \<and>
     ws_hw st' = ws_hw st \<and> ws_legacy_flr st' = ws_legacy_flr st \<and> ws_max_num_vf st' = ws_max_num_vf st \<and> ws_late st' = ws_late st \<and>
     ws_lock (ws_machine st' s) = ws_lock (ws_machine st s) \<and> sm_mode (ws_machine st' s) = sm_mode (ws_machine st s)"

lemma same_elsewhere_refl: "same_elsewhere s st st"
  by (simp add: same_elsewhere_def)

lemma same_elsewhere_trans: "same_elsewhere s st st' \<Longrightarrow> same_elsewhere s st' st'' \<Longrightarrow> same_elsewhere s st st''"
  by (simp add: same_elsewhere_def)

lemma after_elsewhere: "same_elsewhere s st (after vf s oc tr st)"
  by (auto simp: same_elsewhere_def after_def split: option.split)

lemma set_machine_elsewhere: "same_elsewhere s st (set_machine s g vf st)"
  by (simp add: same_elsewhere_def set_machine_def)

lemma round_elsewhere:
  assumes "round_out vf s target st ret st'"
  shows "same_elsewhere s st st'"
  using assms after_elsewhere same_elsewhere_trans [OF after_elsewhere set_machine_elsewhere]
  by (auto simp: round_out_def Let_def split: prod.splits)

lemma round_view:
  assumes out: "round_out vf s target st WS_SUCCESS st'" and wf: "wf_sched s st" and vf: "unat vf < 32"
  shows "wf_sched s st'"
    and "view_of vf s st' = view_step target (suspended st vf) (ws_legacy_flr st) (view_of vf s st)"
proof -
  obtain g same where v: "view_next target (suspended st vf) (view_of vf s st) = (g, same)" by fastforce
  let ?n = "next_vf_of vf s st same"
  from out obtain tr where st': "st' = set_machine s g ?n (after ?n s (recorded g st) tr st)"
    using timeout_not_success [of g] by (auto simp: round_out_def v Let_def)
  show "wf_sched s st'"
    using view_next_wf [OF wf v] next_vf_of_less [OF wf vf, of same]
    by (simp add: st' wf_sched_def set_machine_def)
  have same: "same \<longleftrightarrow> ?n = vf"
    using v by (auto simp: next_vf_of_def view_of_def view_defs split: amdgv_gpuiov_cmd.splits if_splits)
  have "unat ?n = unat vf \<longleftrightarrow> ?n = vf" by (rule word_unat_eq_iff [symmetric])
  moreover have "view_step target (suspended st vf) (ws_legacy_flr st) (view_of vf s st) =
      (g, same, if same \<and> \<not> (g = AMDGV_SHUTDOWN_GPU \<and> ws_legacy_flr st) then g = AMDGV_SAVE_GPU_STATE
        else cur_vf_state st (unat vf) s = AMDGV_SAVE_GPU_STATE)"
    by (simp add: view_step_def v) (auto simp: view_of_def)
  ultimately show "view_of vf s st' = view_step target (suspended st vf) (ws_legacy_flr st) (view_of vf s st)"
    using same by (auto simp: st' view_of_def set_machine_def after_def recorded_def)
qed

definition timed_out :: "nat \<Rightarrow> amdgv_ws \<Rightarrow> ws_ret \<Rightarrow> amdgv_ws \<Rightarrow> bool" where
  "timed_out s st ret st' \<longleftrightarrow> (\<exists>c tr. ret = timeout_of c \<and> ws_trace st' = ws_trace st @ tr @ [Waited (push_bit s 1) False] \<and>
     in_time tr \<and> \<not> bit (ws_hw st (length (ws_trace st @ tr))) s)"

definition arrived :: "nat \<Rightarrow> amdgv_ws \<Rightarrow> u32 \<Rightarrow> amdgv_gpuiov_cmd \<Rightarrow> amdgv_ws \<Rightarrow> bool" where
  "arrived s st vf target st' \<longleftrightarrow> at_target st' s vf target \<and> (\<exists>tr. ws_trace st' = ws_trace st @ tr \<and> in_time tr)"

lemma round_timed_out:
  assumes "round_out vf s target st ret st'"
  shows "ret = WS_SUCCESS \<or> timed_out s st ret st'"
proof (cases "view_next target (suspended st vf) (view_of vf s st)")
  case (Pair g same)
  show ?thesis
  proof (cases "ret = WS_SUCCESS")
    case False
    then obtain tr where "ret = timeout_of g"
        "st' = after (next_vf_of vf s st same) s None (tr @ [Waited (push_bit s 1) False]) st"
        "in_time tr" "\<not> bit (ws_hw st (length (ws_trace st @ tr))) s"
      using assms by (auto simp: round_out_def Pair Let_def)
    then have "timed_out s st ret st'"
      unfolding timed_out_def by (intro exI [of _ g] exI [of _ tr]) simp
    then show ?thesis ..
  qed simp
qed

lemma round_cmds:
  assumes "round_out vf s target st ret st'"
  shows "n_cmds (ws_trace st') \<le> Suc (n_cmds (ws_trace st))" "ret = WS_SUCCESS \<Longrightarrow> \<exists>tr. ws_trace st' = ws_trace st @ tr \<and> in_time tr"
  using assms timeout_not_success [THEN not_sym] by (auto simp: round_out_def Let_def split: prod.splits)

text \<open>The loop: it ends within the distance of the target, or at the first command out of time.\<close>

lemma manual_loop_out:
  assumes "view_reaches k target (suspended st vf) (ws_legacy_flr st) (view_of vf s st)" "k \<le> n"
    and "wf_sched s st" "unat vf < 32"
  shows "\<exists>ret st'. manual_loop n vf s target st = Inr (ret, st') \<and> same_elsewhere s st st' \<and> wf_sched s st' \<and>
    n_cmds (ws_trace st') \<le> n_cmds (ws_trace st) + k \<and>
    (ret = WS_SUCCESS \<and> arrived s st vf target st' \<or> timed_out s st ret st')"
  using assms
proof (induction k arbitrary: n st)
  case 0
  then show ?case
    by (intro exI [of _ WS_SUCCESS] exI [of _ st])
      (auto simp: manual_loop.simps [of n] arrived_def at_target_def view_of_def same_elsewhere_refl)
next
  case (Suc k)
  show ?case
  proof (cases "at_target st s vf target")
    case True
    with Suc.prems show ?thesis
      by (intro exI [of _ WS_SUCCESS] exI [of _ st]) (simp add: manual_loop.simps [of n] same_elsewhere_refl arrived_def)
  next
    case False
    obtain m where n: "n = Suc m" "k \<le> m" using Suc.prems(2) by (cases n) auto
    obtain ret st1 where r: "manual_round vf s target st = Inr (ret, st1)" and o: "round_out vf s target st ret st1"
      using manual_round_out [OF Suc.prems(4,3)] by blast
    note e1 = round_elsewhere [OF o]
    show ?thesis
    proof (cases "ret = WS_SUCCESS")
      case True
      note v = round_view [OF o [unfolded True] Suc.prems(3,4)]
      have "view_reaches k target (suspended st vf) (ws_legacy_flr st) (view_of vf s st1)"
        using Suc.prems(1) False unfolding v(2) by (auto simp: at_target_def view_of_def)
      then have "view_reaches k target (suspended st1 vf) (ws_legacy_flr st1) (view_of vf s st1)"
        using e1 by (simp add: same_elsewhere_def suspended_def)
      from Suc.IH [OF this n(2) v(1) Suc.prems(4)] obtain ret' st2
        where l: "manual_loop m vf s target st1 = Inr (ret', st2)" "same_elsewhere s st1 st2" "wf_sched s st2"
          "n_cmds (ws_trace st2) \<le> n_cmds (ws_trace st1) + k"
          "ret' = WS_SUCCESS \<and> arrived s st1 vf target st2 \<or> timed_out s st1 ret' st2" by blast
      have "manual_loop n vf s target st = Inr (ret', st2)"
        using False by (simp add: n manual_loop.simps [of "Suc m"] r True l(1))
      moreover obtain tr where tr: "ws_trace st1 = ws_trace st @ tr" "in_time tr" using round_cmds(2) [OF o True] by blast
      then have "arrived s st vf target st2" if "arrived s st1 vf target st2"
        using that by (auto simp: arrived_def)
      moreover have "timed_out s st ret' st2" if to: "timed_out s st1 ret' st2"
      proof -
        note tr
        moreover have "ws_hw st1 = ws_hw st" using e1 by (simp add: same_elsewhere_def)
        moreover obtain c tr' where "ret' = timeout_of c"
            "ws_trace st2 = ws_trace st1 @ tr' @ [Waited (push_bit s 1) False]" "in_time tr'"
            "\<not> bit (ws_hw st1 (length (ws_trace st1 @ tr'))) s"
          using to by (auto simp: timed_out_def)
        ultimately show ?thesis
          unfolding timed_out_def by (intro exI [of _ c] exI [of _ "tr @ tr'"]) simp
      qed
      moreover have "n_cmds (ws_trace st2) \<le> n_cmds (ws_trace st) + Suc k"
        using l(4) round_cmds(1) [OF o] by linarith
      ultimately show ?thesis using l same_elsewhere_trans [OF e1 l(2)] by blast
    next
      case False': False
      then have "manual_loop n vf s target st = Inr (ret, st1)"
        using False by (simp add: n manual_loop.simps [of "Suc m"] r)
      moreover have "wf_sched s st1"
        using o False' Suc.prems(3) by (auto simp: round_out_def wf_sched_def Let_def split: prod.splits)
      ultimately show ?thesis
        using e1 round_cmds(1) [OF o] round_timed_out [OF o] False' by fastforce
    qed
  qed
qed

lemma manual_goto_out:
  assumes "wf_sched s st" "unat vf < 32" "manual_target target" "\<not> ws_lock (ws_machine st s)"
  shows "\<exists>ret st'. world_switch_goto_state_manual vf s target st = Inr (ret, st') \<and>
    same_elsewhere s st st' \<and> wf_sched s st' \<and>
    n_cmds (ws_trace st') \<le> n_cmds (ws_trace st) + 8 \<and>
    (ret = WS_SUCCESS \<and> arrived s st vf target st' \<or> timed_out s st ret st')"
proof -
  let ?l = "set_lock s True st"
  have l: "ws_machine ?l s = (ws_machine st s)\<lparr>ws_lock := True\<rparr>" "\<And>r. r \<noteq> s \<Longrightarrow> ws_machine ?l r = ws_machine st r"
    "ws_trace ?l = ws_trace st" "ws_hw ?l = ws_hw st" "cur_vf_state ?l = cur_vf_state st"
    "ws_vf_sched ?l = ws_vf_sched st" "ws_legacy_flr ?l = ws_legacy_flr st" "ws_max_num_vf ?l = ws_max_num_vf st" "ws_late ?l = ws_late st"
    by (simp_all add: set_lock_def)
  have wl: "wf_sched s ?l" using assms(1) by (simp add: wf_sched_def l)
  then have "manual_state (cur_gpu_state (ws_machine ?l s))" by (simp add: wf_sched_def)
  then have "view_reaches 8 target (suspended ?l vf) (ws_legacy_flr ?l) (view_of vf s ?l)"
    unfolding view_of_def by (rule view_reaches_all [OF assms(3)])
  from manual_loop_out [OF this _ wl assms(2), of 20] obtain ret st'
    where o: "manual_loop 20 vf s target ?l = Inr (ret, st')" "same_elsewhere s ?l st'" "wf_sched s st'"
      "n_cmds (ws_trace st') \<le> n_cmds (ws_trace ?l) + 8"
      "ret = WS_SUCCESS \<and> arrived s ?l vf target st' \<or> timed_out s ?l ret st'" by auto
  let ?u = "set_lock s False st'"
  have u: "ws_trace ?u = ws_trace st'" "wf_sched s ?u = wf_sched s st'" "at_target ?u s vf target = at_target st' s vf target"
    by (simp_all add: set_lock_def wf_sched_def at_target_def)
  have "world_switch_goto_state_manual vf s target st = Inr (ret, ?u)"
    using assms(4) o(1) by (simp add: world_switch_goto_state_manual_def)
  moreover have "same_elsewhere s st ?u"
    using o(2) assms(4) by (simp add: same_elsewhere_def l) (simp add: set_lock_def)
  ultimately show ?thesis
    using o(3-5) by (auto simp: u timed_out_def arrived_def l)
qed

section \<open>The walk over a mask\<close>

text \<open>Subtracting one flips exactly the lowest set bit and the bits under it.\<close>

lemma lowest_bit:
  fixes n :: u32
  assumes "bit n k" and "\<And>j. j < k \<Longrightarrow> \<not> bit n j"
  shows "n AND - n = push_bit k 1"
proof -
  have k: "k < 32" using assms(1) bit_imp_le_length [of n k] by simp
  have n: "n = push_bit k 1 OR (n AND NOT (mask (Suc k)))"
    by (rule bit_word_eqI) (use assms in \<open>auto simp: bit_simps not_less_eq not_less\<close>, metis linorder_neqE_nat)
  let ?h = "n AND NOT (mask (Suc k))"
  have "push_bit k 1 + ?h = push_bit k 1 OR ?h"
    by (rule disjunctive_add) (auto simp: bit_simps)
  with n have "n - 1 = (push_bit k 1 - 1) + ?h" by (simp add: algebra_simps)
  also have "push_bit k 1 - 1 = (mask k :: u32)" by (simp add: mask_eq_exp_minus_1 push_bit_of_1)
  also have "mask k + ?h = mask k OR ?h"
    by (rule disjunctive_add) (auto simp: bit_simps)
  finally have m: "n - 1 = mask k OR ?h" .
  have "- n = NOT (n - 1)" by (rule minus_eq_not_minus_1)
  then have neg: "- n = NOT (mask k OR ?h)" by (simp only: m)
  show ?thesis
  proof (rule bit_word_eqI)
    fix j
    assume j: "j < LENGTH(32)"
    consider "j < k" | "j = k" | "k < j" by linarith
    then show "bit (n AND - n) j = bit (push_bit k 1 :: u32) j"
    proof cases
      case 1 with assms(2) j show ?thesis by (simp add: bit_simps)
    next
      case 2 with assms(1) j show ?thesis unfolding bit_and_iff neg by (simp add: bit_simps)
    next
      case 3 with j show ?thesis unfolding bit_and_iff neg by (simp add: bit_simps)
    qed
  qed
qed

lemma ffs_lowest:
  fixes n :: u32
  assumes "bit n k" and "\<And>j. j < k \<Longrightarrow> \<not> bit n j"
  shows "amdgv_ffs n - 1 = of_nat k"
proof -
  have k: "k < 32" using assms(1) bit_imp_le_length [of n k] by simp
  have "push_bit k 1 AND - push_bit k (1 :: u32) = push_bit k 1"
    by (rule lowest_bit) (use k in \<open>simp_all add: bit_simps\<close>)
  moreover have "n \<noteq> 0" using assms(1) by auto
  moreover have "push_bit k (1 :: u32) \<noteq> 0" using k by (simp add: push_bit_eq_0_iff)
  ultimately have "amdgv_ffs n = amdgv_ffs (push_bit k 1)"
    by (simp only: amdgv_ffs_def lowest_bit [OF assms] if_False)
  moreover have "\<forall>k \<in> set [0..<32]. amdgv_ffs (push_bit k 1) - 1 = of_nat k"
    by code_simp
  ultimately show ?thesis using k by simp
qed

lemma ffs_none: "amdgv_ffs 0 - 1 = 0xFFFFFFFF"
  by (simp add: amdgv_ffs_def)

lemma bit_fill:
  assumes "i < 32" "j < 32"
  shows "bit (amdgv_fill (of_nat i)) j \<longleftrightarrow> i < j"
proof -
  have "\<forall>i \<in> set [0..<32]. \<forall>j \<in> set [0..<32]. bit (amdgv_fill (of_nat i)) j \<longleftrightarrow> i < j"
    by code_simp
  with assms show ?thesis by simp
qed

lemma ids_from_filter:
  assumes "i \<le> 32" "32 - i < n" "\<And>j. bit r j \<longleftrightarrow> i \<le> j \<and> bit m j"
  shows "ids_from n m (amdgv_ffs r - 1) = filter (bit m) [i..<32]"
  using assms
proof (induction n arbitrary: i r)
  case (Suc n)
  have r: "r = 0" if "\<And>j. j < 32 \<Longrightarrow> \<not> bit r j"
    by (rule bit_word_eqI) (use that in simp)
  show ?case
  proof (cases "\<exists>j. bit r j")
    case False
    then have "r = 0" using r by blast
    moreover have "\<not> bit m j" if "i \<le> j" for j using False Suc.prems(3) that by blast
    ultimately show ?thesis by (simp add: ffs_none filter_empty_conv)
  next
    case True
    define k where "k = (LEAST j. bit r j)"
    have k: "bit r k" using True unfolding k_def by (rule LeastI_ex)
    have low: "\<not> bit r j" if "j < k" for j using that unfolding k_def by (rule not_less_Least)
    have k32: "k < 32" using bit_imp_le_length [OF k] by simp
    have ik: "i \<le> k" "bit m k" using k Suc.prems(3) by blast+
    have "\<not> bit m j" if "i \<le> j" "j < k" for j using low [OF that(2)] Suc.prems(3) that(1) by blast
    then have none: "filter (bit m) [i..<k] = []" by (simp add: filter_empty_conv)
    have "[i..<32] = [i..<k] @ k # [Suc k..<32]"
      using upt_add_eq_append [OF ik(1), of "32 - k"] upt_conv_Cons [OF k32] k32 by simp
    then have spl: "filter (bit m) [i..<32] = k # filter (bit m) [Suc k..<32]"
      by (simp add: none ik(2))
    have "bit (m AND amdgv_fill (of_nat k)) j \<longleftrightarrow> Suc k \<le> j \<and> bit m j" for j
    proof (cases "j < 32")
      case True then show ?thesis using bit_fill [OF k32 True] by (auto simp: bit_simps)
    next
      case False then show ?thesis using bit_imp_le_length [of m j] bit_imp_le_length [of "m AND amdgv_fill (of_nat k)" j] by auto
    qed
    from Suc.IH [OF _ _ this] have rest: "ids_from n m (amdgv_ffs (m AND amdgv_fill (of_nat k)) - 1) = filter (bit m) [Suc k..<32]"
      using ik(1) k32 Suc.prems(2) by simp
    have "unat (of_nat k :: u32) = k" using k32 by (simp add: unat_of_nat take_bit_nat_eq_self)
    moreover from this have "(of_nat k :: u32) \<noteq> 0xFFFFFFFF" using k32 by auto
    ultimately show ?thesis by (simp add: ffs_lowest [OF k low] rest spl del: upt_Suc)
  qed
qed simp

lemma for_each_id_filter: "for_each_id m = filter (bit m) [0..<32]"
  unfolding for_each_id_def by (rule ids_from_filter) simp_all

lemma set_for_each_id: "set (for_each_id m) = {i. bit m i}"
  using bit_imp_le_length [of m] by (auto simp: for_each_id_filter)

lemma distinct_for_each_id: "distinct (for_each_id m)"
  by (simp add: for_each_id_filter)

section \<open>The engine as a step relation\<close>

text \<open>What a hardware scheduler may do, whatever the operation: its state, the function it is at, and
  the state recorded for each function; \<open>U\<close> is the set of functions in use.\<close>

type_synonym engine = "amdgv_gpuiov_cmd \<times> nat \<times> (nat \<Rightarrow> amdgv_gpuiov_cmd)"

definition parked :: "amdgv_gpuiov_cmd \<Rightarrow> bool" where
  "parked c \<longleftrightarrow> c = AMDGV_SAVE_GPU_STATE \<or> c = AMDGV_SHUTDOWN_GPU"

inductive engine_step :: "nat set \<Rightarrow> engine \<Rightarrow> engine \<Rightarrow> bool" for U where
  es_idle: "engine_step U (AMDGV_RUN_GPU, v, r) (AMDGV_IDLE_GPU, v, r(v := AMDGV_IDLE_GPU))"
| es_save: "engine_step U (AMDGV_IDLE_GPU, v, r) (AMDGV_SAVE_GPU_STATE, v, r(v := AMDGV_SAVE_GPU_STATE))"
| es_run: "g = AMDGV_LOAD_GPU_STATE \<or> g = AMDGV_INIT_GPU \<Longrightarrow>
    engine_step U (g, v, r) (AMDGV_RUN_GPU, v, r(v := AMDGV_RUN_GPU))"
| es_load: "parked g \<Longrightarrow> w \<in> U \<Longrightarrow> r w = AMDGV_SAVE_GPU_STATE \<Longrightarrow>
    engine_step U (g, v, r) (AMDGV_LOAD_GPU_STATE, w, r(w := AMDGV_LOAD_GPU_STATE))"
| es_init: "parked g \<Longrightarrow> w \<in> U \<Longrightarrow> r w \<noteq> AMDGV_SAVE_GPU_STATE \<Longrightarrow>
    engine_step U (g, v, r) (AMDGV_INIT_GPU, w, r(w := AMDGV_INIT_GPU))"
| es_shutdown: "parked g \<Longrightarrow> w \<in> U \<Longrightarrow>
    engine_step U (g, v, r) (AMDGV_SHUTDOWN_GPU, w, r(w := AMDGV_SHUTDOWN_GPU))"
| es_legacy: "parked g \<Longrightarrow> w \<in> U \<Longrightarrow> engine_step U (g, v, r) (AMDGV_SHUTDOWN_GPU, w, r)"

inductive_cases engine_stepE [elim!]: "engine_step U (g, v, r) e"

definition engine_ok :: "nat set \<Rightarrow> engine \<Rightarrow> bool" where
  "engine_ok U e \<longleftrightarrow> (case e of (g, v, r) \<Rightarrow> v \<in> U \<and> (\<forall>w \<in> U. w \<noteq> v \<longrightarrow> parked (r w)) \<and>
     (if parked g then parked (r v) else r v = g))"

lemma engine_step_ok:
  assumes "engine_step U e e'" "engine_ok U e"
  shows "engine_ok U e'"
  using assms by (cases rule: engine_step.cases) (auto simp: engine_ok_def parked_def)

lemma engine_steps_ok:
  assumes "(engine_step U)\<^sup>*\<^sup>* e e'" "engine_ok U e"
  shows "engine_ok U e'"
  using assms by (induction rule: rtranclp_induct) (simp, metis engine_step_ok)

lemma engine_ok_one:
  assumes "engine_ok U (g, v, r)"
  shows "{w \<in> U. \<not> parked (r w)} \<subseteq> {v}"
  using assms by (auto simp: engine_ok_def)

definition engine_of :: "amdgv_ws \<Rightarrow> nat \<Rightarrow> engine" where
  "engine_of st s = (cur_gpu_state (ws_machine st s), unat (cur_vf_id (ws_machine st s)), \<lambda>v. cur_vf_state st v s)"

definition used_vfs :: "amdgv_ws \<Rightarrow> nat set" where
  "used_vfs st = {v. v < 32 \<and> (v < unat (ws_max_num_vf st) \<or> v = AMDGV_MAX_VF_NUM)}"

lemma used_vfs_less: "v \<in> used_vfs st \<Longrightarrow> v < 32"
  by (simp add: used_vfs_def)

text \<open>One move of a scheduler, as both machines make it.\<close>

definition sched_moved :: "nat \<Rightarrow> amdgv_gpuiov_cmd \<Rightarrow> u32 \<Rightarrow> bool \<Rightarrow> amdgv_ws \<Rightarrow> amdgv_ws \<Rightarrow> bool" where
  "sched_moved s g nvf rec st st' \<longleftrightarrow>
     engine_of st' s = (g, unat nvf, if rec then (\<lambda>v. cur_vf_state st v s)(unat nvf := g) else (\<lambda>v. cur_vf_state st v s))"

lemma sched_moved_step:
  assumes wf: "wf_sched s st" and v: "view_next target susp (view_of vf s st) = (g, same)"
    and m: "sched_moved s g (next_vf_of vf s st same) rec st st'"
    and r: "rec \<or> g = AMDGV_SHUTDOWN_GPU"
    and U: "unat vf \<in> U"
  shows "engine_step U (engine_of st s) (engine_of st' s)"
proof -
  have "manual_state (cur_gpu_state (ws_machine st s))" using wf by (simp add: wf_sched_def)
  then show ?thesis
  proof (cases rule: manual_state_cases)
    case idle
    with v r m show ?thesis
      by (auto simp: view_defs view_of_def sched_moved_def next_vf_of_def engine_of_def intro!: es_save split: if_splits)
  next
    case load
    with v r m show ?thesis
      by (auto simp: view_defs view_of_def sched_moved_def next_vf_of_def engine_of_def intro!: es_run split: if_splits)
  next
    case init
    with v r m show ?thesis
      by (auto simp: view_defs view_of_def sched_moved_def next_vf_of_def engine_of_def intro!: es_run split: if_splits)
  next
    case run
    with v r m show ?thesis
      by (auto simp: view_defs view_of_def sched_moved_def next_vf_of_def engine_of_def intro!: es_idle split: if_splits)
  next
    case save
    with v r m U show ?thesis
      by (auto simp: view_defs view_of_def sched_moved_def next_vf_of_def engine_of_def parked_def
          intro: engine_step.intros split: if_splits)
  next
    case shutdown
    with v r m U show ?thesis
      by (auto simp: view_defs view_of_def sched_moved_def next_vf_of_def engine_of_def parked_def
          intro: engine_step.intros split: if_splits)
  qed
qed

lemma manual_round_engine:
  assumes o: "round_out vf s target st ret st'" and wf: "wf_sched s st" and U: "unat vf \<in> U"
  shows "(engine_step U)\<^sup>*\<^sup>* (engine_of st s) (engine_of st' s)"
proof -
  obtain g same where v: "view_next target (suspended st vf) (view_of vf s st) = (g, same)" by fastforce
  let ?n = "next_vf_of vf s st same"
  show ?thesis
  proof (cases "ret = WS_SUCCESS")
    case True
    then obtain tr where "st' = set_machine s g ?n (after ?n s (recorded g st) tr st)"
      using o timeout_not_success [of g] by (auto simp: round_out_def v Let_def)
    then have "sched_moved s g ?n (recorded g st \<noteq> None) st st'"
      by (auto simp: sched_moved_def engine_of_def set_machine_def after_def recorded_def)
    from sched_moved_step [OF wf v this _ U] show ?thesis by (auto simp: recorded_def)
  next
    case False
    then obtain tr where "st' = after ?n s None tr st"
      using o by (auto simp: round_out_def v Let_def)
    then show ?thesis by (simp add: engine_of_def after_def)
  qed
qed

lemma manual_loop_engine:
  assumes "manual_loop n vf s target st = Inr (ret, st')" "wf_sched s st" "unat vf \<in> U" "unat vf < 32"
  shows "(engine_step U)\<^sup>*\<^sup>* (engine_of st s) (engine_of st' s)"
  using assms
proof (induction n arbitrary: st)
  case 0
  then show ?case by (simp add: manual_loop.simps [of 0] split: if_splits)
next
  case (Suc n)
  show ?case
  proof (cases "at_target st s vf target")
    case True
    with Suc.prems(1) show ?thesis by (simp add: manual_loop.simps [of "Suc n"])
  next
    case False
    obtain ret1 st1 where r: "manual_round vf s target st = Inr (ret1, st1)" "round_out vf s target st ret1 st1"
      using manual_round_out [OF Suc.prems(4,2)] by blast
    note e = manual_round_engine [OF r(2) Suc.prems(2,3)]
    show ?thesis
    proof (cases "ret1 = WS_SUCCESS")
      case True
      with r(2) have "wf_sched s st1" using round_view(1) Suc.prems(2,4) by blast
      moreover have "manual_loop n vf s target st1 = Inr (ret, st')"
        using Suc.prems(1) False by (simp add: manual_loop.simps [of "Suc n"] r(1) True)
      ultimately show ?thesis using e Suc.IH Suc.prems(3,4) by (blast intro: rtranclp_trans)
    next
      case False': False
      with Suc.prems(1) False e show ?thesis by (simp add: manual_loop.simps [of "Suc n"] r(1))
    qed
  qed
qed

end
