(* ===== verification/GV_Ws_Bulk.thy ===== *)
theory GV_Ws_Bulk
  imports GV_Ws_Manual
begin

text \<open>
  The bulk operation, which moves several schedulers in lockstep: what each of its steps leaves
  behind, why its loop counter ends it, and why the counter is large enough when the firmware answers.
\<close>

section \<open>Several schedulers at once\<close>

text \<open>What is global to the schedulers, and what a scheduler keeps when another one moves.\<close>

definition same_globals :: "amdgv_ws \<Rightarrow> amdgv_ws \<Rightarrow> bool" where
  "same_globals st st' \<longleftrightarrow> ws_vf_sched st' = ws_vf_sched st \<and> ws_hw st' = ws_hw st \<and>
     ws_legacy_flr st' = ws_legacy_flr st \<and> ws_max_num_vf st' = ws_max_num_vf st \<and> ws_late st' = ws_late st"

definition same_at :: "nat \<Rightarrow> amdgv_ws \<Rightarrow> amdgv_ws \<Rightarrow> bool" where
  "same_at s st st' \<longleftrightarrow> ws_machine st' s = ws_machine st s \<and> (\<forall>v. cur_vf_state st' v s = cur_vf_state st v s)"

lemma same_at_refl [simp]: "same_at s st st" and same_globals_refl [simp]: "same_globals st st"
  by (simp_all add: same_at_def same_globals_def)

lemma same_at_trans: "same_at s st st' \<Longrightarrow> same_at s st' st'' \<Longrightarrow> same_at s st st''"
  by (simp add: same_at_def)

lemma same_globals_trans: "same_globals st st' \<Longrightarrow> same_globals st' st'' \<Longrightarrow> same_globals st st''"
  by (simp add: same_globals_def)

lemma same_at_simps:
  assumes "same_at s st st'"
  shows "engine_of st' s = engine_of st s" "wf_sched s st' = wf_sched s st"
    "at_target st' s vf target = at_target st s vf target" "view_of vf s st' = view_of vf s st"
    "next_vf_of vf s st' b = next_vf_of vf s st b"
  using assms by (simp_all add: same_at_def engine_of_def wf_sched_def at_target_def view_of_def next_vf_of_def)

lemma bit_clear_id: "s < 32 \<Longrightarrow> bit (clear_id s m) r \<longleftrightarrow> bit m r \<and> r \<noteq> s"
  by (auto simp: clear_id_def bit_simps dest: bit_imp_le_length)

lemma bit_set_id: "s < 32 \<Longrightarrow> bit (set_id s m) r \<longleftrightarrow> bit m r \<or> r = s"
  by (auto simp: set_id_def bit_simps dest: bit_imp_le_length)

text \<open>The move that step 1 plans for a scheduler.\<close>

definition plan :: "u32 \<Rightarrow> amdgv_gpuiov_cmd \<Rightarrow> amdgv_ws \<Rightarrow> nat \<Rightarrow> amdgv_gpuiov_cmd \<times> u32" where
  "plan vf target st s = (case view_next target (suspended st vf) (view_of vf s st) of
     (g, same) \<Rightarrow> (g, next_vf_of vf s st same))"

lemma plan_next:
  assumes "unat vf < 32" "wf_sched s st"
  shows "world_switch_get_next_state st s vf target (cur_gpu_state (ws_machine st s)) (cur_vf_id (ws_machine st s)) =
    Inr (Some (plan vf target st s))"
proof (cases "view_next target (suspended st vf) (view_of vf s st)")
  case (Pair g same)
  have "manual_state (cur_gpu_state (ws_machine st s))" using assms(2) by (simp add: wf_sched_def)
  from next_state_view [OF assms(1) this Pair] show ?thesis by (simp add: plan_def Pair)
qed

lemma plan_wf:
  assumes "unat vf < 32" "wf_sched s st"
  shows "manual_state (fst (plan vf target st s))" "unat (snd (plan vf target st s)) < 32"
proof -
  obtain g same where v: "view_next target (suspended st vf) (view_of vf s st) = (g, same)" by fastforce
  show "manual_state (fst (plan vf target st s))" "unat (snd (plan vf target st s)) < 32"
    using view_next_wf [OF assms(2) v] next_vf_of_less [OF assms(2,1), of same] by (simp_all add: plan_def v)
qed

text \<open>Step 1: every scheduler of the list that is not at its target pays one of \<^verbatim>\<open>loop_okay\<close>.\<close>

definition plan_out :: "u32 \<Rightarrow> amdgv_gpuiov_cmd \<Rightarrow> amdgv_ws \<Rightarrow> nat list \<Rightarrow> bulk \<Rightarrow> bulk \<Rightarrow> bool" where
  "plan_out vf target st ss b b' \<longleftrightarrow>
     (\<forall>s. bit (bk_mask b') s \<longleftrightarrow> bit (bk_mask b) s \<and> \<not> (s \<in> set ss \<and> at_target st s vf target)) \<and>
     (\<forall>s. s \<in> set ss \<and> \<not> at_target st s vf target \<longrightarrow> bk_next b' s = plan vf target st s) \<and>
     (\<forall>s. s \<notin> set ss \<longrightarrow> bk_next b' s = bk_next b s) \<and> bk_bad b' = bk_bad b \<and>
     unat (bk_loop_okay b') + length (filter (\<lambda>s. \<not> at_target st s vf target) ss) = unat (bk_loop_okay b)"

definition stuck_out :: "nat list \<Rightarrow> u32 \<Rightarrow> amdgv_gpuiov_cmd \<Rightarrow> amdgv_ws \<Rightarrow> bulk \<Rightarrow> bulk \<Rightarrow> bool" where
  "stuck_out ss vf target st b b' \<longleftrightarrow> bk_bad b' = bk_bad b \<and>
     unat (bk_loop_okay b) < length (filter (\<lambda>s. \<not> at_target st s vf target) ss)"

lemma plan_out_at:
  assumes "plan_out vf target st ss (b\<lparr>bk_mask := clear_id s (bk_mask b)\<rparr>) b'" "at_target st s vf target" "s < 32" "s \<notin> set ss"
  shows "plan_out vf target st (s # ss) b b'"
  using assms unfolding plan_out_def by (auto simp: bit_clear_id)

lemma plan_out_move:
  assumes "plan_out vf target st ss (b\<lparr>bk_next := (bk_next b)(s := plan vf target st s), bk_loop_okay := bk_loop_okay b - 1\<rparr>) b'"
    and "\<not> at_target st s vf target" "s \<notin> set ss" "bk_loop_okay b \<noteq> 0"
  shows "plan_out vf target st (s # ss) b b'"
proof -
  have "Suc (unat (bk_loop_okay b - 1)) = unat (bk_loop_okay b)"
    using unat_dec32 [of "bk_loop_okay b"] assms(4) by (simp add: word_gt_0 unat_gt_0)
  with assms(1-3) show ?thesis unfolding plan_out_def by (auto split: if_splits)
qed

lemma bulk_plan_out:
  assumes "distinct ss" "\<And>s. s \<in> set ss \<Longrightarrow> s < 32 \<and> wf_sched s st" "unat vf < 32"
  shows "\<exists>stuck b'. bulk_plan ss vf target st b = Inr (stuck, b') \<and>
    (if stuck then stuck_out ss vf target st b b' else plan_out vf target st ss b b')"
  using assms(1,2)
proof (induction ss arbitrary: b)
  case Nil
  show ?case by (intro exI [of _ False] exI [of _ b]) (simp add: plan_out_def)
next
  case (Cons s ss)
  have s: "s < 32" "wf_sched s st" and d: "s \<notin> set ss" "distinct ss" using Cons.prems by auto
  have IH: "\<exists>stuck b'. bulk_plan ss vf target st b = Inr (stuck, b') \<and>
      (if stuck then stuck_out ss vf target st b b' else plan_out vf target st ss b b')" for b
    using Cons.IH [OF d(2)] Cons.prems(2) by (meson list.set_intros(2))
  show ?case
  proof (cases "at_target st s vf target")
    case True
    let ?b = "b\<lparr>bk_mask := clear_id s (bk_mask b)\<rparr>"
    obtain stuck b' where o: "bulk_plan ss vf target st ?b = Inr (stuck, b')"
        "if stuck then stuck_out ss vf target st ?b b' else plan_out vf target st ss ?b b'"
      using IH by blast
    have "bulk_plan (s # ss) vf target st b = Inr (stuck, b')" using True o(1) by simp
    moreover have "if stuck then stuck_out (s # ss) vf target st b b' else plan_out vf target st (s # ss) b b'"
      using o(2) plan_out_at [OF _ True s(1) d(1)] True by (cases stuck) (auto simp: stuck_out_def)
    ultimately show ?thesis by blast
  next
    case False
    let ?b = "b\<lparr>bk_next := (bk_next b)(s := plan vf target st s)\<rparr>"
    let ?c = "?b\<lparr>bk_loop_okay := bk_loop_okay b - 1\<rparr>"
    have step: "bulk_plan (s # ss) vf target st b =
        (if bk_loop_okay b = 0 then Inr (True, ?b) else bulk_plan ss vf target st ?c)"
      using False by (simp add: plan_next [OF assms(3) s(2)] Let_def)
    show ?thesis
    proof (cases "bk_loop_okay b = 0")
      case True
      with step False show ?thesis
        by (intro exI [of _ True] exI [of _ ?b]) (simp add: stuck_out_def del: bulk_plan.simps)
    next
      case nz: False
      obtain stuck b' where o: "bulk_plan ss vf target st ?c = Inr (stuck, b')"
          "if stuck then stuck_out ss vf target st ?c b' else plan_out vf target st ss ?c b'"
        using IH by blast
      have "unat (bk_loop_okay b - 1) = unat (bk_loop_okay b) - 1"
        using unat_dec32 [of "bk_loop_okay b"] nz by (simp add: word_gt_0)
      then have "if stuck then stuck_out (s # ss) vf target st b b' else plan_out vf target st (s # ss) b b'"
        using o(2) plan_out_move [OF _ False d(1) nz] False by (cases stuck) (auto simp: stuck_out_def)
      with step nz o(1) show ?thesis by auto
    qed
  qed
qed

text \<open>Step 2 only sends commands.\<close>

definition only_trace :: "amdgv_ws \<Rightarrow> amdgv_ws \<Rightarrow> bool" where
  "only_trace st st' \<longleftrightarrow> (\<exists>tr. st' = st\<lparr>ws_trace := tr\<rparr>)"

lemma only_trace_refl: "only_trace st st"
  unfolding only_trace_def by (rule exI [of _ "ws_trace st"]) simp

lemma only_trace_trans: "only_trace st st' \<Longrightarrow> only_trace st' st'' \<Longrightarrow> only_trace st st''"
  by (auto simp: only_trace_def)

lemma only_trace_same: "only_trace st st' \<Longrightarrow> same_at s st st'" "only_trace st st' \<Longrightarrow> same_globals st st'"
  by (auto simp: only_trace_def same_at_def same_globals_def)

lemma set_cmd_trace: "only_trace st (set_cmd c s vf st)"
  by (auto simp: only_trace_def set_cmd_def)

lemma issue_no_wait_trace:
  assumes "manual_state c"
  shows "\<exists>st'. issue_no_wait c vf s st = Some st' \<and> only_trace st st'"
  using assms
  by (cases rule: manual_state_cases)
    (simp_all add: issue_no_wait_def cmd_defs amdgv_gpuiov_shutdown_vf_no_wait_def set_cmd_trace only_trace_refl)

lemma bulk_send_out:
  assumes "\<And>s. s \<in> set ss \<Longrightarrow> manual_state (fst (bk_next b s))"
  shows "\<exists>st'. bulk_send ss st b = (st', b) \<and> only_trace st st'"
  using assms
proof (induction ss arbitrary: st)
  case Nil
  then show ?case by (simp add: only_trace_refl)
next
  case (Cons s ss)
  obtain st1 where 1: "issue_no_wait (fst (bk_next b s)) (snd (bk_next b s)) s st = Some st1" "only_trace st st1"
    using Cons.prems issue_no_wait_trace by (metis list.set_intros(1))
  obtain st2 where "bulk_send ss st1 b = (st2, b)" "only_trace st1 st2"
    using Cons.IH [of st1] Cons.prems by auto
  with 1 show ?case by (auto intro: only_trace_trans)
qed

text \<open>Step 3: \<open>C\<close> is the set of the schedulers that answered in time.\<close>

definition moved :: "bulk \<Rightarrow> nat \<Rightarrow> amdgv_ws \<Rightarrow> amdgv_ws \<Rightarrow> bool" where
  "moved b s st st' \<longleftrightarrow> sched_moved s (fst (bk_next b s)) (snd (bk_next b s)) True st st' \<and>
     cur_gpu_state (ws_machine st' s) = fst (bk_next b s) \<and> cur_vf_id (ws_machine st' s) = snd (bk_next b s) \<and>
     ws_lock (ws_machine st' s) = ws_lock (ws_machine st s) \<and> sm_mode (ws_machine st' s) = sm_mode (ws_machine st s)"

definition wait_out :: "u32 \<Rightarrow> amdgv_ws \<Rightarrow> bulk \<Rightarrow> amdgv_ws \<Rightarrow> bulk \<Rightarrow> nat set \<Rightarrow> bool" where
  "wait_out w st b st' b' C \<longleftrightarrow> C \<subseteq> {s. bit w s} \<and> same_globals st st' \<and>
     (\<forall>s. if s \<in> C then moved b s st st' else same_at s st st') \<and>
     (\<forall>s. bit (bk_mask b') s \<longleftrightarrow> bit (bk_mask b) s \<and> (bit w s \<longrightarrow> s \<in> C)) \<and>
     (\<forall>s. bit (bk_bad b') s \<longleftrightarrow> bit (bk_bad b) s \<or> bit w s \<and> s \<notin> C) \<and>
     bk_loop_okay b' = bk_loop_okay b"

definition n_bits :: "u32 \<Rightarrow> nat" where
  "n_bits m = length (for_each_id m)"

lemma n_bits_card: "n_bits m = card {s. bit m s}"
  using distinct_card [OF distinct_for_each_id] by (simp add: n_bits_def set_for_each_id)

lemma finite_bits [simp]: "finite {s. bit (m::u32) s}"
  unfolding set_for_each_id [symmetric] by simp

lemma n_bits_clear: "bit m s \<Longrightarrow> n_bits m = Suc (n_bits (clear_id s m))"
proof -
  assume s: "bit m s"
  have s32: "s < 32" using bit_imp_le_length [OF s] by simp
  have "{r. bit (clear_id s m) r} = {r. bit m r} - {s}" using s32 by (auto simp: bit_clear_id)
  moreover have "card {r. bit m r} = Suc (card ({r. bit m r} - {s}))"
    using s by (intro card.remove) simp_all
  ultimately show ?thesis by (simp only: n_bits_card)
qed

lemma n_bits_le: "n_bits m \<le> 32"
  unfolding n_bits_def for_each_id_filter using length_filter_le [of "bit m" "[0..<32]"] by simp

definition step3 :: "bulk \<Rightarrow> nat \<Rightarrow> amdgv_ws \<Rightarrow> amdgv_ws" where
  "step3 b s st = (let st = set_machine s (fst (bk_next b s)) (snd (bk_next b s)) st; v = unat (snd (bk_next b s)) in
     st\<lparr>cur_vf_state := (cur_vf_state st)(v := (cur_vf_state st v)(s := fst (bk_next b s)))\<rparr>)"

lemma step3_moved: "moved b s st (step3 b s st)" "r \<noteq> s \<Longrightarrow> same_at r st (step3 b s st)" "same_globals st (step3 b s st)"
  by (auto simp: moved_def sched_moved_def engine_of_def step3_def set_machine_def same_at_def same_globals_def Let_def)

lemma moved_same:
  assumes "same_at s st st1" "moved b s st1 st2" shows "moved b s st st2"
  using assms by (simp add: moved_def sched_moved_def same_at_def engine_of_def)

lemma moved_same2:
  assumes "moved b s st st1" "same_at s st1 st2" shows "moved b s st st2"
  using assms by (simp add: moved_def sched_moved_def same_at_def engine_of_def)

lemma bulk_wait_out:
  assumes "n_bits w \<le> n" "\<And>s. bit w s \<Longrightarrow> unat (snd (bk_next b s)) < 32"
  shows "\<exists>st' b' C. bulk_wait n w st b = Inr (st', b') \<and> wait_out w st b st' b' C"
  using assms
proof (induction n arbitrary: w st)
  case 0
  then have "w = 0" by (intro bit_word_eqI) (auto simp: n_bits_card)
  then show ?case
    by (intro exI [of _ st] exI [of _ b] exI [of _ "{}"]) (simp add: bulk_wait.simps [of 0] wait_out_def)
next
  case (Suc n)
  show ?case
  proof (cases "w = 0")
    case True
    then show ?thesis
      by (intro exI [of _ st] exI [of _ b] exI [of _ "{}"]) (simp add: bulk_wait.simps [of "Suc n"] wait_out_def)
  next
    case False
    define late where "late = ws_late st (length (ws_trace st))"
    obtain r st1 where r: "wait_for_first_cmd_complete w st = (r, st1)" by fastforce
    have st1: "only_trace st st1" using r by (auto simp: wait_for_first_cmd_complete_def only_trace_def Let_def)
    show ?thesis
    proof (cases "if late then None else r")
      case None
      let ?b = "b\<lparr>bk_bad := bk_bad b OR w, bk_mask := bk_mask b AND NOT w\<rparr>"
      have "bulk_wait (Suc n) w st b = Inr (st1, ?b)"
        using False None by (simp add: bulk_wait.simps [of "Suc n"] r late_def [symmetric] Let_def)
      moreover have "wait_out w st b st1 ?b {}"
        using only_trace_same [OF st1] by (auto simp: wait_out_def bit_simps dest: bit_imp_le_length)
      ultimately show ?thesis by blast
    next
      case (Some s)
      then have "r = Some s" by (simp split: if_splits)
      then have w: "bit w s"
        using r set_for_each_id [of w] by (auto simp: wait_for_first_cmd_complete_def find_Some_iff Let_def)
      have s32: "s < 32" using bit_imp_le_length [OF w] by simp
      have v: "unat (snd (bk_next b s)) < 32" using Suc.prems(2) w by blast
      have eq: "bulk_wait (Suc n) w st b = bulk_wait n (clear_id s w) (step3 b s st1) b"
        using False Some v
        by (simp add: bulk_wait.simps [of "Suc n"] r late_def [symmetric] Let_def set_vf_state_def vf_slot_def
            amdgv_update_histogram_def step3_def)
      have "n_bits (clear_id s w) \<le> n" using Suc.prems(1) n_bits_clear [OF w] by simp
      moreover have "\<And>s'. bit (clear_id s w) s' \<Longrightarrow> unat (snd (bk_next b s')) < 32"
        using Suc.prems(2) s32 by (auto simp: bit_clear_id)
      ultimately obtain st' b' C where o: "bulk_wait n (clear_id s w) (step3 b s st1) b = Inr (st', b')"
          and C: "wait_out (clear_id s w) (step3 b s st1) b st' b' C"
        using Suc.IH [of "clear_id s w" "step3 b s st1"] by blast
      have sC: "s \<notin> C" using C s32 by (auto simp: wait_out_def bit_clear_id)
      have "wait_out w st b st' b' (insert s C)"
        unfolding wait_out_def
      proof (intro conjI allI)
        show "insert s C \<subseteq> {s. bit w s}" using C w s32 by (auto simp: wait_out_def bit_clear_id)
        show "same_globals st st'"
          using C only_trace_same(2) [OF st1] step3_moved(3) [of st1 b s] same_globals_trans
          unfolding wait_out_def by blast
        show "if r \<in> insert s C then moved b r st st' else same_at r st st'" for r
        proof (cases "r = s")
          case True
          have "same_at s (step3 b s st1) st'" using C sC by (simp add: wait_out_def)
          from moved_same2 [OF moved_same [OF only_trace_same(1) [OF st1] step3_moved(1)] this] True
          show ?thesis by simp
        next
          case False
          have s1: "same_at r st (step3 b s st1)"
            using same_at_trans [OF only_trace_same(1) [OF st1] step3_moved(2) [OF False]] .
          have c: "if r \<in> C then moved b r (step3 b s st1) st' else same_at r (step3 b s st1) st'"
            using C by (simp add: wait_out_def)
          show ?thesis
          proof (cases "r \<in> C")
            case True
            then have "moved b r (step3 b s st1) st'" using c by simp
            then show ?thesis using moved_same [OF s1] True False by simp
          next
            case nC: False
            then have "same_at r (step3 b s st1) st'" using c by simp
            then show ?thesis using same_at_trans [OF s1] nC False by simp
          qed
        qed
        show "bit (bk_mask b') r \<longleftrightarrow> bit (bk_mask b) r \<and> (bit w r \<longrightarrow> r \<in> insert s C)" for r
          using C s32 by (auto simp: wait_out_def bit_clear_id)
        show "bit (bk_bad b') r \<longleftrightarrow> bit (bk_bad b) r \<or> bit w r \<and> r \<notin> insert s C" for r
          using C s32 by (auto simp: wait_out_def bit_clear_id)
        show "bk_loop_okay b' = bk_loop_okay b" using C by (simp add: wait_out_def)
      qed
      with eq o show ?thesis by (intro exI [of _ st'] exI [of _ b'] exI [of _ "insert s C"]) simp
    qed
  qed
qed

definition bulk_frame :: "nat set \<Rightarrow> u32 \<Rightarrow> amdgv_ws \<Rightarrow> amdgv_ws \<Rightarrow> bool" where
  "bulk_frame U M st st' \<longleftrightarrow> same_globals st st' \<and>
     (\<forall>s. \<not> bit M s \<longrightarrow> same_at s st st') \<and>
     (\<forall>s. bit M s \<longrightarrow> (engine_step U)\<^sup>*\<^sup>* (engine_of st s) (engine_of st' s) \<and> wf_sched s st' \<and>
        ws_lock (ws_machine st' s) = ws_lock (ws_machine st s) \<and> sm_mode (ws_machine st' s) = sm_mode (ws_machine st s))"

lemma bulk_frame_trans:
  assumes 1: "bulk_frame U M st st'" and 2: "bulk_frame U M st' st''"
  shows "bulk_frame U M st st''"
  unfolding bulk_frame_def
proof (intro conjI allI impI)
  show "same_globals st st''" using 1 2 same_globals_trans unfolding bulk_frame_def by blast
  show "same_at s st st''" if "\<not> bit M s" for s using 1 2 that same_at_trans unfolding bulk_frame_def by blast
  fix s
  assume M: "bit M s"
  have "(engine_step U)\<^sup>*\<^sup>* (engine_of st s) (engine_of st' s)" "(engine_step U)\<^sup>*\<^sup>* (engine_of st' s) (engine_of st'' s)"
    using 1 2 M unfolding bulk_frame_def by blast+
  then show "(engine_step U)\<^sup>*\<^sup>* (engine_of st s) (engine_of st'' s)" by (rule rtranclp_trans)
qed (use 1 2 in \<open>simp_all add: bulk_frame_def\<close>)

lemma some_bit: "w \<noteq> 0 \<Longrightarrow> \<exists>s. bit (w :: u32) s"
  by (metis bit_eqI bit_0_eq bot_apply bot_bool_def)

definition bulk_inv :: "u32 \<Rightarrow> u32 \<Rightarrow> amdgv_gpuiov_cmd \<Rightarrow> amdgv_ws \<Rightarrow> bulk \<Rightarrow> bool" where
  "bulk_inv M vf target st b \<longleftrightarrow> (\<forall>s. bit (bk_mask b) s \<longrightarrow> bit M s) \<and>
     (\<forall>s. bit M s \<longrightarrow> wf_sched s st \<and> (bit (bk_mask b) s \<or> bit (bk_bad b) s \<or> at_target st s vf target))"

text \<open>One round of the four steps.\<close>

lemma bulk_round:
  assumes inv: "bulk_inv M vf target st b" and vf: "unat vf < 32" "unat vf \<in> U"
    and p: "plan_out vf target st (for_each_id (bk_mask b)) b b1"
  shows "\<exists>st1 st2 b2. bulk_send (for_each_id (bk_mask b1)) st b1 = (st1, b1) \<and>
      bulk_wait 32 (bk_mask b1) st1 b1 = Inr (st2, b2) \<and> bulk_inv M vf target st2 b2 \<and> bulk_frame U M st st2 \<and>
      bk_loop_okay b2 = bk_loop_okay b1 \<and>
      (\<forall>s. bit (bk_mask b2) s \<longrightarrow> bit (bk_mask b1) s \<and> moved b1 s st st2 \<and> bk_next b1 s = plan vf target st s) \<and>
      (bk_mask b2 \<noteq> 0 \<longrightarrow> unat (bk_loop_okay b2) < unat (bk_loop_okay b))"
proof -
  have mask1: "bit (bk_mask b1) s \<longleftrightarrow> bit (bk_mask b) s \<and> \<not> at_target st s vf target" for s
    using p by (auto simp: plan_out_def set_for_each_id)
  have next1: "bk_next b1 s = plan vf target st s" if "bit (bk_mask b1) s" for s
    using p that mask1 [of s] by (auto simp: plan_out_def set_for_each_id)
  have wf: "wf_sched s st" if "bit (bk_mask b1) s" for s
    using inv that mask1 [of s] by (auto simp: bulk_inv_def)
  obtain st1 where send: "bulk_send (for_each_id (bk_mask b1)) st b1 = (st1, b1)" "only_trace st st1"
    using bulk_send_out [of "for_each_id (bk_mask b1)" b1 st] plan_wf(1) [OF vf(1) wf] next1
    by (auto simp: set_for_each_id)
  have "n_bits (bk_mask b1) \<le> 32" by (rule n_bits_le)
  moreover have "unat (snd (bk_next b1 s)) < 32" if "bit (bk_mask b1) s" for s
    using plan_wf(2) [OF vf(1) wf [OF that]] next1 [OF that] by simp
  ultimately obtain st2 b2 C where wait: "bulk_wait 32 (bk_mask b1) st1 b1 = Inr (st2, b2)"
      and C: "wait_out (bk_mask b1) st1 b1 st2 b2 C"
    using bulk_wait_out by blast
  have pt: "same_at s st st1" for s using only_trace_same(1) [OF send(2)] .
  have notC: "same_at s st st2" if "s \<notin> C" for s
    using C that same_at_trans [OF pt] by (auto simp: wait_out_def)
  have inC: "moved b1 s st st2" "bit (bk_mask b1) s" if "s \<in> C" for s
    using C that moved_same [OF pt] unfolding wait_out_def by (metis, blast)
  have m2: "bit (bk_mask b2) s \<longleftrightarrow> s \<in> C" for s using C by (auto simp: wait_out_def)
  have bad2: "bit (bk_bad b2) s \<longleftrightarrow> bit (bk_bad b) s \<or> bit (bk_mask b1) s \<and> s \<notin> C" for s
    using C p by (auto simp: wait_out_def plan_out_def)
  have engine: "engine_step U (engine_of st s) (engine_of st2 s)" "wf_sched s st2"
      "ws_lock (ws_machine st2 s) = ws_lock (ws_machine st s)" "sm_mode (ws_machine st2 s) = sm_mode (ws_machine st s)"
    if "s \<in> C" for s
  proof -
    note m = inC(1) [OF that] and b = inC(2) [OF that]
    obtain g same where v: "view_next target (suspended st vf) (view_of vf s st) = (g, same)" by fastforce
    have n: "bk_next b1 s = (g, next_vf_of vf s st same)" using next1 [OF b] by (simp add: plan_def v)
    from m n have "sched_moved s g (next_vf_of vf s st same) True st st2" by (simp add: moved_def)
    from sched_moved_step [OF wf [OF b] v this _ vf(2)]
    show "engine_step U (engine_of st s) (engine_of st2 s)" by simp
    show "wf_sched s st2" using m plan_wf [OF vf(1) wf [OF b], of target] next1 [OF b] by (simp add: moved_def wf_sched_def)
    show "ws_lock (ws_machine st2 s) = ws_lock (ws_machine st s)" "sm_mode (ws_machine st2 s) = sm_mode (ws_machine st s)"
      using m by (simp_all add: moved_def)
  qed
  have wfM: "wf_sched s st" if "bit M s" for s using inv that by (simp add: bulk_inv_def)
  have CM: "bit M s" if "s \<in> C" for s using inC(2) [OF that] inv mask1 by (auto simp: bulk_inv_def)
  have "bulk_frame U M st st2"
    unfolding bulk_frame_def
  proof (intro conjI allI impI)
    show "same_globals st st2"
      using C same_globals_trans [OF only_trace_same(2) [OF send(2)]] by (simp add: wait_out_def)
    show "same_at s st st2" if "\<not> bit M s" for s using notC CM that by blast
    fix s
    assume M: "bit M s"
    show "(engine_step U)\<^sup>*\<^sup>* (engine_of st s) (engine_of st2 s)"
      using engine(1) [of s] same_at_simps(1) [OF notC, of s] by (cases "s \<in> C") auto
    show "wf_sched s st2"
      using engine(2) [of s] same_at_simps(2) [OF notC, of s] wfM [OF M] by (cases "s \<in> C") auto
    show "ws_lock (ws_machine st2 s) = ws_lock (ws_machine st s)"
      using engine(3) [of s] notC [of s] by (cases "s \<in> C") (auto simp: same_at_def)
    show "sm_mode (ws_machine st2 s) = sm_mode (ws_machine st s)"
      using engine(4) [of s] notC [of s] by (cases "s \<in> C") (auto simp: same_at_def)
  qed
  moreover have "bulk_inv M vf target st2 b2"
    unfolding bulk_inv_def
  proof (intro conjI allI impI)
    show "bit M s" if "bit (bk_mask b2) s" for s using CM m2 that by blast
    fix s
    assume M: "bit M s"
    then show "wf_sched s st2" using calculation by (simp add: bulk_frame_def)
    show "bit (bk_mask b2) s \<or> bit (bk_bad b2) s \<or> at_target st2 s vf target"
    proof (cases "s \<in> C")
      case True then show ?thesis by (simp add: m2)
    next
      case False
      then show ?thesis
        using M inv mask1 [of s] bad2 [of s] same_at_simps(3) [OF notC [OF False]] by (auto simp: bulk_inv_def)
    qed
  qed
  moreover have "bk_loop_okay b2 = bk_loop_okay b1" using C by (simp add: wait_out_def)
  moreover have "\<forall>s. bit (bk_mask b2) s \<longrightarrow> bit (bk_mask b1) s \<and> moved b1 s st st2 \<and> bk_next b1 s = plan vf target st s"
    using inC m2 next1 by blast
  moreover have "unat (bk_loop_okay b2) < unat (bk_loop_okay b)" if "bk_mask b2 \<noteq> 0"
  proof -
    note nz = that
    obtain s where "bit (bk_mask b2) s" using some_bit [OF nz] by blast
    then have "s \<in> set (for_each_id (bk_mask b))" "\<not> at_target st s vf target"
      using inC(2) mask1 m2 by (auto simp: set_for_each_id)
    then have "0 < length (filter (\<lambda>s. \<not> at_target st s vf target) (for_each_id (bk_mask b)))"
      by (auto simp: filter_empty_conv)
    moreover have "unat (bk_loop_okay b1) + length (filter (\<lambda>s. \<not> at_target st s vf target) (for_each_id (bk_mask b))) =
        unat (bk_loop_okay b)" using p by (simp only: plan_out_def)
    moreover have "unat (bk_loop_okay b2) = unat (bk_loop_okay b1)" using C by (simp add: wait_out_def)
    ultimately show ?thesis by linarith
  qed
  ultimately show ?thesis using send(1) wait by blast
qed

lemma bulk_frame_refl: "(\<And>s. bit M s \<Longrightarrow> wf_sched s st) \<Longrightarrow> bulk_frame U M st st"
  by (simp add: bulk_frame_def)

lemma bulk_loop_out:
  assumes "bulk_inv M vf target st b" "unat vf < 32" "unat vf \<in> U" "unat (bk_loop_okay b) \<le> n"
  shows "\<exists>ret st' b'. bulk_loop n vf target st b = Inr (ret, st', b') \<and> bulk_frame U M st st' \<and>
    (ret = AMDGV_LOG_IOV_WS_INFINITE_LOOP \<or>
     ret = WS_SUCCESS \<and> (\<forall>s. bit M s \<longrightarrow> bit (bk_bad b') s \<or> at_target st' s vf target))"
  using assms(1,4)
proof (induction n arbitrary: st b rule: less_induct)
  case (less n st b)
  have wf: "s < 32 \<and> wf_sched s st" if "s \<in> set (for_each_id (bk_mask b))" for s
    using that less.prems(1) bit_imp_le_length [of "bk_mask b" s] by (auto simp: set_for_each_id bulk_inv_def)
  obtain stuck b1 where plan: "bulk_plan (for_each_id (bk_mask b)) vf target st b = Inr (stuck, b1)"
      and p: "if stuck then stuck_out (for_each_id (bk_mask b)) vf target st b b1
        else plan_out vf target st (for_each_id (bk_mask b)) b b1"
    using bulk_plan_out [OF distinct_for_each_id wf assms(2)] by blast
  show ?case
  proof (cases stuck)
    case True
    then have "bulk_loop n vf target st b = Inr (AMDGV_LOG_IOV_WS_INFINITE_LOOP, st, b1)"
      by (simp add: bulk_loop.simps [of n] plan)
    moreover have "bulk_frame U M st st"
      using less.prems(1) by (intro bulk_frame_refl) (simp add: bulk_inv_def)
    ultimately show ?thesis by blast
  next
    case False
    with p have "plan_out vf target st (for_each_id (bk_mask b)) b b1" by simp
    from bulk_round [OF less.prems(1) assms(2,3) this] obtain st1 st2 b2
      where r: "bulk_send (for_each_id (bk_mask b1)) st b1 = (st1, b1)" "bulk_wait 32 (bk_mask b1) st1 b1 = Inr (st2, b2)"
        and inv: "bulk_inv M vf target st2 b2" and fr: "bulk_frame U M st st2"
        and dec: "bk_mask b2 \<noteq> 0 \<longrightarrow> unat (bk_loop_okay b2) < unat (bk_loop_okay b)" by blast
    have eq: "bulk_loop n vf target st b = (if bk_mask b2 = 0 then Inr (WS_SUCCESS, st2, b2)
        else case n of 0 \<Rightarrow> Inl Endless_Loop | Suc n \<Rightarrow> bulk_loop n vf target st2 b2)"
      using False by (simp add: bulk_loop.simps [of n] plan r)
    show ?thesis
    proof (cases "bk_mask b2 = 0")
      case True
      with inv have "\<forall>s. bit M s \<longrightarrow> bit (bk_bad b2) s \<or> at_target st2 s vf target" by (auto simp: bulk_inv_def)
      with True fr eq show ?thesis by simp
    next
      case False
      with dec less.prems(2) obtain m where n: "n = Suc m" "unat (bk_loop_okay b2) \<le> m" by (cases n) auto
      from less.IH [of m, OF _ inv n(2)] obtain ret st' b'
        where o: "bulk_loop m vf target st2 b2 = Inr (ret, st', b')" "bulk_frame U M st2 st'"
          "ret = AMDGV_LOG_IOV_WS_INFINITE_LOOP \<or>
           ret = WS_SUCCESS \<and> (\<forall>s. bit M s \<longrightarrow> bit (bk_bad b') s \<or> at_target st' s vf target)"
        using n(1) by auto
      have "bulk_loop n vf target st b = Inr (ret, st', b')" using eq False n(1) o(1) by simp
      with o(3) bulk_frame_trans [OF fr o(2)] show ?thesis by blast
    qed
  qed
qed

lemma moved_view:
  assumes m: "moved b s st st'" and n: "bk_next b s = plan vf target st s" and vf: "unat vf < 32"
    and wf: "wf_sched s st"
  shows "view_of vf s st' = view_step target (suspended st vf) False (view_of vf s st)"
proof -
  obtain g same where v: "view_next target (suspended st vf) (view_of vf s st) = (g, same)" by fastforce
  let ?n = "next_vf_of vf s st same"
  have b: "bk_next b s = (g, ?n)" using n by (simp add: plan_def v)
  have same: "same \<longleftrightarrow> ?n = vf"
    using v by (auto simp: next_vf_of_def view_of_def view_defs split: amdgv_gpuiov_cmd.splits if_splits)
  have "unat ?n = unat vf \<longleftrightarrow> ?n = vf" by (rule word_unat_eq_iff [symmetric])
  moreover have "cur_vf_state st' (unat vf) s = (if unat vf = unat ?n then g else cur_vf_state st (unat vf) s)"
    using m b by (auto simp: moved_def sched_moved_def engine_of_def fun_upd_def dest!: fun_cong [of _ _ "unat vf"])
  moreover have "view_step target (suspended st vf) False (view_of vf s st) =
      (g, same, if same then g = AMDGV_SAVE_GPU_STATE else cur_vf_state st (unat vf) s = AMDGV_SAVE_GPU_STATE)"
    by (simp add: view_step_def v) (simp add: view_of_def)
  ultimately show ?thesis
    using m b same by (auto simp: view_of_def moved_def)
qed

text \<open>With the loop budget of the code no scheduler runs out of rounds.\<close>

lemma n_bits_mono: "(\<And>s. bit m s \<Longrightarrow> bit m' s) \<Longrightarrow> n_bits m \<le> n_bits m'"
  unfolding n_bits_card by (rule card_mono) auto

lemma bulk_loop_not_stuck:
  assumes "bulk_inv M vf target st b" "unat vf < 32" "unat vf \<in> U"
    and "k * n_bits (bk_mask b) \<le> unat (bk_loop_okay b)"
    and "\<And>s. bit (bk_mask b) s \<Longrightarrow> view_reaches k target (suspended st vf) False (view_of vf s st)"
    and "bulk_loop n vf target st b = Inr (ret, st', b')"
  shows "ret = WS_SUCCESS"
  using assms
proof (induction k arbitrary: n st b)
  case 0
  have at: "at_target st s vf target" if "bit (bk_mask b) s" for s
    using "0.prems"(5) [OF that] by (simp add: view_of_def at_target_def)
  have "bulk_plan ss vf target st b = Inr (False, b\<lparr>bk_mask := fold clear_id ss (bk_mask b)\<rparr>)"
    if "\<forall>s \<in> set ss. at_target st s vf target" for ss b
    using that by (induction ss arbitrary: b) simp_all
  then have "bulk_plan (for_each_id (bk_mask b)) vf target st b =
      Inr (False, b\<lparr>bk_mask := fold clear_id (for_each_id (bk_mask b)) (bk_mask b)\<rparr>)"
    using at by (simp add: set_for_each_id)
  moreover have "bit (fold clear_id ss m) r \<longleftrightarrow> bit m r \<and> r \<notin> set ss" if "\<forall>s \<in> set ss. s < 32" for ss m r
    using that by (induction ss arbitrary: m) (auto simp: bit_clear_id)
  then have "bit (fold clear_id (for_each_id (bk_mask b)) (bk_mask b)) r \<longleftrightarrow> False" for r
    using bit_imp_le_length [of "bk_mask b"] by (auto simp: set_for_each_id)
  then have "fold clear_id (for_each_id (bk_mask b)) (bk_mask b) = 0" using some_bit by blast
  moreover have "for_each_id 0 = []" using set_for_each_id [of 0] by simp
  ultimately show ?case
    using "0.prems"(6) by (simp add: bulk_loop.simps [of n] bulk_wait.simps [of 32])
next
  case (Suc k)
  let ?ids = "for_each_id (bk_mask b)"
  have wf: "s < 32 \<and> wf_sched s st" if "s \<in> set ?ids" for s
    using that Suc.prems(1) bit_imp_le_length [of "bk_mask b" s] by (auto simp: set_for_each_id bulk_inv_def)
  obtain stuck b1 where plan: "bulk_plan ?ids vf target st b = Inr (stuck, b1)"
      and p: "if stuck then stuck_out ?ids vf target st b b1 else plan_out vf target st ?ids b b1"
    using bulk_plan_out [OF distinct_for_each_id wf assms(2)] by blast
  let ?pay = "length (filter (\<lambda>s. \<not> at_target st s vf target) ?ids)"
  have "?pay \<le> n_bits (bk_mask b)" unfolding n_bits_def by (rule length_filter_le)
  moreover have "n_bits (bk_mask b) \<le> unat (bk_loop_okay b)" using Suc.prems(4) by simp
  ultimately have "\<not> stuck" using p by (auto simp: stuck_out_def)
  with p have p': "plan_out vf target st ?ids b b1" by simp
  from bulk_round [OF Suc.prems(1-3) this] obtain st1 st2 b2
    where r: "bulk_send (for_each_id (bk_mask b1)) st b1 = (st1, b1)" "bulk_wait 32 (bk_mask b1) st1 b1 = Inr (st2, b2)"
      and inv: "bulk_inv M vf target st2 b2" and fr: "bulk_frame U M st st2" and lo: "bk_loop_okay b2 = bk_loop_okay b1"
      and mv: "\<forall>s. bit (bk_mask b2) s \<longrightarrow> bit (bk_mask b1) s \<and> moved b1 s st st2 \<and> bk_next b1 s = plan vf target st s"
    by blast
  have eq: "bulk_loop n vf target st b = (if bk_mask b2 = 0 then Inr (WS_SUCCESS, st2, b2)
      else case n of 0 \<Rightarrow> Inl Endless_Loop | Suc n \<Rightarrow> bulk_loop n vf target st2 b2)"
    using \<open>\<not> stuck\<close> by (simp add: bulk_loop.simps [of n] plan r)
  show ?case
  proof (cases "bk_mask b2 = 0")
    case True
    with eq Suc.prems(6) show ?thesis by simp
  next
    case False
    with eq Suc.prems(6) obtain m where m: "bulk_loop m vf target st2 b2 = Inr (ret, st', b')"
      by (cases n) auto
    have in1: "bit (bk_mask b) s \<and> \<not> at_target st s vf target" if "bit (bk_mask b1) s" for s
      using p' that by (auto simp: plan_out_def set_for_each_id)
    have "n_bits (bk_mask b2) \<le> card (set (filter (\<lambda>s. \<not> at_target st s vf target) ?ids))"
      unfolding n_bits_card using mv in1 by (intro card_mono) (auto simp: set_for_each_id)
    then have "n_bits (bk_mask b2) \<le> ?pay" using card_length [of "filter (\<lambda>s. \<not> at_target st s vf target) ?ids"] by linarith
    then have "k * n_bits (bk_mask b2) \<le> k * ?pay" by (rule mult_le_mono2)
    moreover have "Suc k * ?pay \<le> unat (bk_loop_okay b)"
      using mult_le_mono2 [OF \<open>?pay \<le> n_bits (bk_mask b)\<close>, of "Suc k"] Suc.prems(4) by linarith
    moreover have "unat (bk_loop_okay b1) + ?pay = unat (bk_loop_okay b)" using p' by (simp only: plan_out_def)
    ultimately have "k * n_bits (bk_mask b2) \<le> unat (bk_loop_okay b1)" unfolding mult_Suc by linarith
    then have budget: "k * n_bits (bk_mask b2) \<le> unat (bk_loop_okay b2)" by (simp only: lo)
    have glob: "suspended st2 vf = suspended st vf"
      using fr by (simp add: bulk_frame_def same_globals_def suspended_def)
    have reach: "view_reaches k target (suspended st2 vf) False (view_of vf s st2)" if "bit (bk_mask b2) s" for s
    proof -
      note b2 = that
      then have 1: "bit (bk_mask b) s" "\<not> at_target st s vf target" and m: "moved b1 s st st2" "bk_next b1 s = plan vf target st s"
        using mv in1 by blast+
      have "wf_sched s st" using Suc.prems(1) 1(1) by (auto simp: bulk_inv_def)
      from moved_view [OF m assms(2) this] show ?thesis
        using Suc.prems(5) [OF 1(1)] 1(2) unfolding glob by (auto simp: at_target_def view_of_def)
    qed
    show ?thesis by (rule Suc.IH [OF inv assms(2,3) budget reach m])
  qed
qed

end
