(* ===== verification/GV_Ws_Props.thy ===== *)
theory GV_Ws_Props
  imports GV_Ws_Bulk
begin

text \<open>
  The operations that the scheduler calls, their effect on the schedulers of a mask (the locale
  \<open>sched_op\<close> has the loop over a mask), the reachable states, and the properties of the world switch.
\<close>

section \<open>Locks\<close>

lemma fold_locks:
  "fold (\<lambda>s. set_lock s b) ss st =
     st\<lparr>ws_machine := (\<lambda>r. if r \<in> set ss then (ws_machine st r)\<lparr>ws_lock := b\<rparr> else ws_machine st r)\<rparr>"
proof (induction ss arbitrary: st)
  case (Cons s ss)
  show ?case unfolding fold_simps Cons.IH by (cases st) (auto simp: set_lock_def fun_eq_iff)
qed simp

lemma lock_all_free:
  assumes "distinct ss" "\<And>s. s \<in> set ss \<Longrightarrow> \<not> ws_lock (ws_machine st s)"
  shows "lock_all ss st = (True, fold (\<lambda>s. set_lock s True) ss st)"
  using assms
proof (induction ss arbitrary: st)
  case (Cons s ss)
  have "\<not> ws_lock (ws_machine (set_lock s True st) r)" if "r \<in> set ss" for r
    using Cons.prems that by (auto simp: set_lock_def)
  with Cons show ?case by simp
qed simp

lemma lock_all_taken:
  assumes "distinct ss" "\<And>r. r \<in> set ss \<Longrightarrow> \<not> ws_lock (ws_machine st r)" "s \<notin> set ss" "ws_lock (ws_machine st s)"
  shows "lock_all (ss @ s # rest) st = (False, fold (\<lambda>s. set_lock s True) ss st)"
  using assms
proof (induction ss arbitrary: st)
  case (Cons r ss)
  have "\<not> ws_lock (ws_machine (set_lock r True st) r')" if "r' \<in> set ss" for r'
    using Cons.prems that by (auto simp: set_lock_def)
  moreover have "ws_lock (ws_machine (set_lock r True st) s)" using Cons.prems by (auto simp: set_lock_def)
  ultimately show ?case using Cons by auto
qed simp

section \<open>The effect of an operation on its schedulers\<close>

definition sched_frame :: "nat set \<Rightarrow> nat set \<Rightarrow> amdgv_ws \<Rightarrow> amdgv_ws \<Rightarrow> bool" where
  "sched_frame U S st st' \<longleftrightarrow> same_globals st st' \<and>
     (\<forall>s. s \<notin> S \<longrightarrow> same_at s st st') \<and>
     (\<forall>s \<in> S. (engine_step U)\<^sup>*\<^sup>* (engine_of st s) (engine_of st' s) \<and> wf_sched s st' \<and>
        ws_lock (ws_machine st' s) = ws_lock (ws_machine st s) \<and> sm_mode (ws_machine st' s) = sm_mode (ws_machine st s))"

definition ready :: "nat \<Rightarrow> amdgv_ws \<Rightarrow> bool" where
  "ready s st \<longleftrightarrow> wf_sched s st \<and> \<not> ws_lock (ws_machine st s) \<and> sm_mode (ws_machine st s) \<noteq> AMDGV_WS_MODE_AUTO"

lemma sched_frame_refl: "(\<And>s. s \<in> S \<Longrightarrow> wf_sched s st) \<Longrightarrow> sched_frame U S st st"
  by (simp add: sched_frame_def)

lemma sched_frame_ready:
  assumes "sched_frame U S st st'" "ready s st"
  shows "ready s st'"
  using assms by (cases "s \<in> S") (auto simp: sched_frame_def ready_def same_at_def wf_sched_def)

lemma sched_frame_steps:
  assumes "sched_frame U S st st'"
  shows "(engine_step U)\<^sup>*\<^sup>* (engine_of st s) (engine_of st' s)"
  using assms same_at_simps(1) [of s st st'] by (cases "s \<in> S") (auto simp: sched_frame_def)

lemma sched_frame_trans:
  assumes 1: "sched_frame U S st st'" and 2: "sched_frame U T st' st''"
    and wf: "\<And>s. s \<in> S \<Longrightarrow> wf_sched s st"
  shows "sched_frame U (S \<union> T) st st''"
  unfolding sched_frame_def
proof (intro conjI allI impI ballI)
  show "same_globals st st''" using 1 2 same_globals_trans unfolding sched_frame_def by blast
  show "same_at s st st''" if "s \<notin> S \<union> T" for s
    using 1 2 that same_at_trans unfolding sched_frame_def by blast
  fix s
  assume s: "s \<in> S \<union> T"
  show "(engine_step U)\<^sup>*\<^sup>* (engine_of st s) (engine_of st'' s)"
    using sched_frame_steps [OF 1, of s] sched_frame_steps [OF 2, of s] by (rule rtranclp_trans)
  show "wf_sched s st''"
    using s 1 2 same_at_simps(2) [of s st' st''] by (cases "s \<in> T") (auto simp: sched_frame_def)
  have 3: "ws_lock (ws_machine st' s) = ws_lock (ws_machine st s)" "sm_mode (ws_machine st' s) = sm_mode (ws_machine st s)"
    using 1 by (cases "s \<in> S"; simp add: sched_frame_def same_at_def)+
  have 4: "ws_lock (ws_machine st'' s) = ws_lock (ws_machine st' s)" "sm_mode (ws_machine st'' s) = sm_mode (ws_machine st' s)"
    using 2 by (cases "s \<in> T"; simp add: sched_frame_def same_at_def)+
  show "ws_lock (ws_machine st'' s) = ws_lock (ws_machine st s)" "sm_mode (ws_machine st'' s) = sm_mode (ws_machine st s)"
    by (simp_all add: 3 4)
qed

lemma manual_goto_frame:
  assumes r: "ready s st" and vf: "unat vf < 32" "unat vf \<in> U" and t: "manual_target target"
  shows "\<exists>ret st'. world_switch_goto_state_manual vf s target st = Inr (ret, st') \<and> sched_frame U {s} st st'"
proof -
  have l: "\<not> ws_lock (ws_machine st s)" and wf: "wf_sched s st" using r by (simp_all add: ready_def)
  from manual_goto_out [OF wf vf(1) t l] obtain ret st'
    where g: "world_switch_goto_state_manual vf s target st = Inr (ret, st')" "same_elsewhere s st st'" "wf_sched s st'"
    by blast
  let ?l = "set_lock s True st"
  from g(1) l obtain st1 where st1: "manual_loop 20 vf s target ?l = Inr (ret, st1)" "st' = set_lock s False st1"
    by (auto simp: world_switch_goto_state_manual_def cbind_eq_Inr_iff)
  have "wf_sched s ?l" using wf by (simp add: wf_sched_def set_lock_def)
  from manual_loop_engine [OF st1(1) this vf(2,1)]
  have "(engine_step U)\<^sup>*\<^sup>* (engine_of st s) (engine_of st' s)"
    by (simp add: st1(2) engine_of_def set_lock_def)
  with g(2,3) have "sched_frame U {s} st st'"
    by (auto simp: sched_frame_def same_elsewhere_def same_globals_def same_at_def)
  with g(1) show ?thesis by blast
qed

text \<open>An operation on one scheduler, and the loop that applies it to a mask.\<close>

locale sched_op =
  fixes f :: "u32 \<Rightarrow> nat \<Rightarrow> amdgv_ws \<Rightarrow> (ws_ret \<times> amdgv_ws) cres"
  assumes op_frame: "ready s st \<Longrightarrow> unat vf < 32 \<Longrightarrow> unat vf \<in> U \<Longrightarrow>
    \<exists>ret st'. f vf s st = Inr (ret, st') \<and> sched_frame U {s} st st'"
begin

lemma each_frame:
  assumes "\<And>s. s \<in> set ss \<Longrightarrow> ready s st" "unat vf < 32" "unat vf \<in> U"
  shows "\<exists>ret st'. each_sched (f vf) ss bad st = Inr (ret, st') \<and> sched_frame U (set ss) st st'"
  using assms(1)
proof (induction ss arbitrary: st bad)
  case Nil
  show ?case by (simp add: sched_frame_def)
next
  case (Cons s ss)
  obtain ret st1 where 1: "f vf s st = Inr (ret, st1)" "sched_frame U {s} st st1"
    using op_frame [OF _ assms(2,3)] Cons.prems by (meson list.set_intros(1))
  have "ready r st1" if "r \<in> set ss" for r
    using sched_frame_ready [OF 1(2)] Cons.prems that by simp
  then obtain ret' st2 where 2: "each_sched (f vf) ss (bad \<or> ret \<noteq> WS_SUCCESS) st1 = Inr (ret', st2)"
      "sched_frame U (set ss) st1 st2"
    using Cons.IH by blast
  have "sched_frame U ({s} \<union> set ss) st st2"
    using sched_frame_trans [OF 1(2) 2(2)] Cons.prems by (simp add: ready_def)
  with 1(1) 2(1) show ?case by simp
qed

lemma each_mask:
  assumes "\<forall>s. bit m s \<longrightarrow> ready s st" "unat vf < 32" "unat vf \<in> U"
  shows "\<exists>ret st'. each_sched (f vf) (for_each_id m) bad st = Inr (ret, st') \<and> sched_frame U {s. bit m s} st st'"
  using each_frame [of "for_each_id m" st vf U bad] assms by (simp add: set_for_each_id)

end

lemma goto_state_manual: "ready s st \<Longrightarrow> goto_state vf s target st = world_switch_goto_state_manual vf s target st"
  by (simp add: goto_state_def ready_def)

interpretation pause_op: sched_op amdgv_hw_sched_state_pause
  by unfold_locales (simp add: amdgv_hw_sched_state_pause_def goto_state_manual manual_goto_frame
      manual_target_def manual_state_def)

interpretation shutdown_op: sched_op amdgv_hw_sched_state_shutdown
  by unfold_locales (simp add: amdgv_hw_sched_state_shutdown_def goto_state_manual manual_goto_frame
      manual_target_def manual_state_def)

text \<open>A function that already runs is idled first.\<close>

lemma run_idles_first:
  assumes r: "ready s st"
  shows "\<exists>ret st'. (if cur_gpu_state (ws_machine st s) = AMDGV_RUN_GPU \<and> ws_gfx st s
            then cbind (amdgv_gpuiov_idle_vf (cur_vf_id (ws_machine st s)) s st) (\<lambda>(ret, st).
              if ret \<noteq> 0 then Inr (AMDGV_LOG_IOV_WS_IDLE_TIMEOUT, st)
              else Inr (WS_SUCCESS, set_gpu_state s AMDGV_IDLE_GPU st))
            else Inr (WS_SUCCESS, st)) = Inr (ret, st') \<and> sched_frame U {s} st st'"
proof (cases "cur_gpu_state (ws_machine st s) = AMDGV_RUN_GPU \<and> ws_gfx st s")
  case False
  then show ?thesis using r by (auto simp: ready_def intro!: sched_frame_refl)
next
  case True
  let ?v = "cur_vf_id (ws_machine st s)"
  have v: "unat ?v < 32" using r by (simp add: ready_def wf_sched_def)
  obtain ret st1 where i: "amdgv_gpuiov_idle_vf ?v s st = Inr (ret, st1)" "cmd_out (Some AMDGV_IDLE_GPU) ?v s st ret st1"
    using idle_cmd.cmd_returns [OF v] by blast
  show ?thesis
  proof (cases "ret = 0")
    case False
    with i(2) obtain tr where "st1 = after ?v s None tr st" by (auto simp: cmd_out_def)
    then have "sched_frame U {s} st st1"
      using r by (simp add: sched_frame_def same_globals_def same_at_def after_def engine_of_def ready_def wf_sched_def)
    with True False i(1) show ?thesis by auto
  next
    case ok: True
    with i(2) obtain tr where st1: "st1 = after ?v s (Some AMDGV_IDLE_GPU) tr st" by (auto simp: cmd_out_def)
    let ?st2 = "set_gpu_state s AMDGV_IDLE_GPU st1"
    have "engine_of st s = (AMDGV_RUN_GPU, unat ?v, \<lambda>v. cur_vf_state st v s)" using True by (simp add: engine_of_def)
    moreover have "engine_of ?st2 s = (AMDGV_IDLE_GPU, unat ?v, (\<lambda>v. cur_vf_state st v s)(unat ?v := AMDGV_IDLE_GPU))"
      by (auto simp: engine_of_def st1 after_def set_gpu_state_def set_machine_def)
    ultimately have "(engine_step U)\<^sup>*\<^sup>* (engine_of st s) (engine_of ?st2 s)"
      using es_idle [of U "unat ?v" "\<lambda>v. cur_vf_state st v s"] by simp
    then have "sched_frame U {s} st ?st2"
      using r by (auto simp: sched_frame_def same_globals_def same_at_def st1 after_def set_gpu_state_def set_machine_def
          ready_def wf_sched_def manual_state_def)
    with True ok i(1) show ?thesis by auto
  qed
qed

interpretation run_op: sched_op amdgv_hw_sched_state_run
proof unfold_locales
  fix s st vf U
  assume r: "ready s st" and vf: "unat (vf :: u32) < 32" "unat vf \<in> U"
  obtain ret st1 where 1: "(if cur_gpu_state (ws_machine st s) = AMDGV_RUN_GPU \<and> ws_gfx st s
            then cbind (amdgv_gpuiov_idle_vf (cur_vf_id (ws_machine st s)) s st) (\<lambda>(ret, st).
              if ret \<noteq> 0 then Inr (AMDGV_LOG_IOV_WS_IDLE_TIMEOUT, st)
              else Inr (WS_SUCCESS, set_gpu_state s AMDGV_IDLE_GPU st))
            else Inr (WS_SUCCESS, st)) = Inr (ret, st1)" "sched_frame U {s} st st1"
    using run_idles_first [OF r] by blast
  have r1: "ready s st1" using sched_frame_ready [OF 1(2) r] .
  have t: "run_state vf st1 = Inr (if ws_skip_run st1 (unat vf) then AMDGV_LOAD_GPU_STATE else AMDGV_RUN_GPU)"
    using vf(1) by (simp add: run_state_def vf_slot_def)
  have "manual_target (if ws_skip_run st1 (unat vf) then AMDGV_LOAD_GPU_STATE else AMDGV_RUN_GPU)"
    by (simp add: manual_target_def manual_state_def)
  from manual_goto_frame [OF r1 vf this] obtain ret' st2
    where 2: "world_switch_goto_state_manual vf s (if ws_skip_run st1 (unat vf) then AMDGV_LOAD_GPU_STATE else AMDGV_RUN_GPU) st1 =
        Inr (ret', st2)" "sched_frame U {s} st1 st2" by blast
  have wf: "\<And>r. r \<in> {s} \<Longrightarrow> wf_sched r st" using r by (simp add: ready_def)
  show "\<exists>ret st'. amdgv_hw_sched_state_run vf s st = Inr (ret, st') \<and> sched_frame U {s} st st'"
  proof (cases "ret = WS_SUCCESS")
    case True
    have "amdgv_hw_sched_state_run vf s st = Inr (ret', st2)"
      unfolding amdgv_hw_sched_state_run_def 1(1) using True by (simp add: t goto_state_manual [OF r1] 2(1))
    with sched_frame_trans [OF 1(2) 2(2) wf] show ?thesis by auto
  next
    case False
    have "amdgv_hw_sched_state_run vf s st = Inr (ret, st1)"
      unfolding amdgv_hw_sched_state_run_def 1(1) using False by simp
    with 1(2) show ?thesis by blast
  qed
qed

section \<open>The bulk operation\<close>

lemma bulk_frame_sched: "bulk_frame U M st st' \<longleftrightarrow> sched_frame U {s. bit M s} st st'"
  by (auto simp: bulk_frame_def sched_frame_def)

definition start_bulk :: "u32 \<Rightarrow> amdgv_ws \<Rightarrow> bulk" where
  "start_bulk m st = \<lparr>bk_mask = m, bk_bad = 0, bk_next = (\<lambda>_. (AMDGV_IDLE_GPU, 0)), bk_loop_okay = 20 * ws_num_ctrl_blocks st\<rparr>"

definition with_locks :: "bool \<Rightarrow> u32 \<Rightarrow> amdgv_ws \<Rightarrow> amdgv_ws" where
  "with_locks b m st = fold (\<lambda>s. set_lock s b) (for_each_id m) st"

lemma with_locks_machine:
  "ws_machine (with_locks b m st) r = (if bit m r then (ws_machine st r)\<lparr>ws_lock := b\<rparr> else ws_machine st r)"
  by (simp add: with_locks_def fold_locks set_for_each_id)

lemma with_locks_simps:
  "cur_vf_state (with_locks b m st) = cur_vf_state st" "ws_num_ctrl_blocks (with_locks b m st) = ws_num_ctrl_blocks st"
  "ws_vf_sched (with_locks b m st) = ws_vf_sched st" "ws_late (with_locks b m st) = ws_late st"
  "ws_hw (with_locks b m st) = ws_hw st" "same_globals st (with_locks b m st)"
  by (simp_all add: with_locks_def fold_locks same_globals_def)

lemma with_locks_at: "engine_of (with_locks b m st) s = engine_of st s" "wf_sched s (with_locks b m st) = wf_sched s st"
  "at_target (with_locks b m st) s vf t = at_target st s vf t" "view_of vf s (with_locks b m st) = view_of vf s st"
  by (simp_all add: engine_of_def wf_sched_def at_target_def view_of_def with_locks_simps with_locks_machine)

lemma bulk_goto_free:
  assumes "\<And>s. bit m s \<Longrightarrow> \<not> ws_lock (ws_machine st s)"
  shows "world_switch_bulk_goto_state_manual vf m target st =
    cbind (bulk_loop (Suc (unat (20 * ws_num_ctrl_blocks st))) vf target (with_locks True m st) (start_bulk m st))
      (\<lambda>(ret, st, b). Inr (if bk_bad b \<noteq> 0 then WS_FAILURE else ret, with_locks False m st))"
proof -
  have "lock_all (for_each_id m) st = (True, with_locks True m st)"
    unfolding with_locks_def
    by (rule lock_all_free) (use assms in \<open>simp_all add: distinct_for_each_id set_for_each_id\<close>)
  then show ?thesis
    by (simp add: world_switch_bulk_goto_state_manual_def with_locks_simps start_bulk_def Let_def)
      (simp add: with_locks_def)
qed

lemma start_inv:
  assumes "\<And>s. bit m s \<Longrightarrow> wf_sched s st"
  shows "bulk_inv m vf target (with_locks True m st) (start_bulk m st)"
  using assms by (simp add: bulk_inv_def start_bulk_def with_locks_at)

lemma bulk_goto_out:
  assumes r: "\<And>s. bit m s \<Longrightarrow> ready s st" and vf: "unat vf < 32" "unat vf \<in> U"
  shows "\<exists>ret st'. world_switch_bulk_goto_state_manual vf m target st = Inr (ret, st') \<and>
    sched_frame U {s. bit m s} st st' \<and> ret \<in> {WS_SUCCESS, WS_FAILURE, AMDGV_LOG_IOV_WS_INFINITE_LOOP} \<and>
    (ret = WS_SUCCESS \<longrightarrow> (\<forall>s. bit m s \<longrightarrow> at_target st' s vf target))"
proof -
  have free: "\<And>s. bit m s \<Longrightarrow> \<not> ws_lock (ws_machine st s)" and wf: "\<And>s. bit m s \<Longrightarrow> wf_sched s st"
    using r by (simp_all add: ready_def)
  let ?l = "with_locks True m st"
  have "unat (bk_loop_okay (start_bulk m st)) \<le> Suc (unat (20 * ws_num_ctrl_blocks st))"
    by (simp add: start_bulk_def)
  from bulk_loop_out [OF start_inv [OF wf] vf this, of target] obtain ret st1 b1
    where o: "bulk_loop (Suc (unat (20 * ws_num_ctrl_blocks st))) vf target ?l (start_bulk m st) = Inr (ret, st1, b1)"
      and f: "sched_frame U {s. bit m s} ?l st1"
      and c: "ret = AMDGV_LOG_IOV_WS_INFINITE_LOOP \<or>
        ret = WS_SUCCESS \<and> (\<forall>s. bit m s \<longrightarrow> bit (bk_bad b1) s \<or> at_target st1 s vf target)"
    unfolding bulk_frame_sched by blast
  let ?u = "with_locks False m st1"
  let ?r = "if bk_bad b1 \<noteq> 0 then WS_FAILURE else ret"
  have eq: "world_switch_bulk_goto_state_manual vf m target st = Inr (?r, ?u)"
    by (simp add: bulk_goto_free [OF free] o)
  have "sched_frame U {s. bit m s} st ?u"
    unfolding sched_frame_def
  proof (intro conjI allI impI ballI)
    show "same_globals st ?u"
      using f same_globals_trans with_locks_simps(6) unfolding sched_frame_def by blast
    show "same_at s st ?u" if "s \<notin> {s. bit m s}" for s
      using f that by (simp add: sched_frame_def same_at_def with_locks_machine with_locks_simps)
    fix s
    assume s: "s \<in> {s. bit m s}"
    show "(engine_step U)\<^sup>*\<^sup>* (engine_of st s) (engine_of ?u s)" "wf_sched s ?u"
      using f s by (simp_all add: sched_frame_def with_locks_at)
    show "ws_lock (ws_machine ?u s) = ws_lock (ws_machine st s)"
      using free s by (simp add: with_locks_machine)
    show "sm_mode (ws_machine ?u s) = sm_mode (ws_machine st s)"
      using f s by (simp add: sched_frame_def with_locks_machine)
  qed
  moreover have "at_target ?u s vf target" if "?r = WS_SUCCESS" "bit m s" for s
    using c that by (auto simp: with_locks_at split: if_splits)
  moreover have "?r \<in> {WS_SUCCESS, WS_FAILURE, AMDGV_LOG_IOV_WS_INFINITE_LOOP}" using c by auto
  ultimately show ?thesis using eq by blast
qed

text \<open>Hardware that answers every command in time.\<close>

definition prompt :: "amdgv_ws \<Rightarrow> bool" where
  "prompt st \<longleftrightarrow> ws_hw st = (\<lambda>_. - 1) \<and> ws_late st = (\<lambda>_. False)"

lemma bulk_wait_prompt:
  assumes "bulk_wait n w st b = Inr (st', b')" "prompt st"
  shows "b' = b"
  using assms
proof (induction n arbitrary: w st)
  case 0
  then show ?case by (simp add: bulk_wait.simps [of 0] split: if_splits)
next
  case (Suc n)
  show ?case
  proof (cases "w = 0")
    case True
    with Suc.prems show ?thesis by (simp add: bulk_wait.simps [of "Suc n"])
  next
    case False
    obtain s where "bit w s" using some_bit [OF False] by blast
    then have "for_each_id w \<noteq> []" using set_for_each_id [of w] by auto
    moreover have "s' < 32" if "s' \<in> set (for_each_id w)" for s'
      using that bit_imp_le_length [of w s'] by (simp add: set_for_each_id)
    ultimately have "find (bit (- 1 :: u32)) (for_each_id w) = Some (hd (for_each_id w))"
      by (cases "for_each_id w") auto
    then obtain s st1 where f: "wait_for_first_cmd_complete w st = (Some s, st1)" "only_trace st st1"
      using Suc.prems(2) by (auto simp: wait_for_first_cmd_complete_def prompt_def only_trace_def Let_def)
    have p1: "prompt (step3 b s st1)" and e: "ws_late st (length (ws_trace st)) = False"
      using Suc.prems(2) f(2) by (auto simp: prompt_def only_trace_def step3_def set_machine_def Let_def)
    have "bulk_wait n (clear_id s w) (step3 b s st1) b = Inr (st', b')"
      using Suc.prems(1) False
      by (simp add: bulk_wait.simps [of "Suc n"] f(1) e set_vf_state_def vf_slot_def
          amdgv_update_histogram_def step3_def Let_def split: if_splits)
    from Suc.IH [OF this p1] show ?thesis .
  qed
qed

lemma issue_no_wait_only_trace: "issue_no_wait c vf s st = Some st' \<Longrightarrow> only_trace st st'"
  by (cases c) (auto simp: issue_no_wait_def cmd_defs amdgv_gpuiov_shutdown_vf_no_wait_def set_cmd_trace
      only_trace_refl split: if_splits)

lemma bulk_send_trace: "only_trace st (fst (bulk_send ss st b))"
proof (induction ss arbitrary: st b)
  case (Cons s ss)
  then show ?case
    using issue_no_wait_only_trace only_trace_trans by (fastforce split: option.split)
qed (simp add: only_trace_refl)

lemma bulk_loop_prompt:
  assumes "bulk_inv M vf target st b" "unat vf < 32" "bulk_loop n vf target st b = Inr (ret, st', b')"
    and "prompt st" "bk_bad b = 0"
  shows "bk_bad b' = 0"
  using assms(1,3-)
proof (induction n arbitrary: st b rule: less_induct)
  case (less n st b)
  let ?ids = "for_each_id (bk_mask b)"
  have wf: "s < 32 \<and> wf_sched s st" if "s \<in> set ?ids" for s
    using that less.prems(1) bit_imp_le_length [of "bk_mask b" s] by (auto simp: set_for_each_id bulk_inv_def)
  obtain stuck b1 where plan: "bulk_plan ?ids vf target st b = Inr (stuck, b1)"
      and p: "if stuck then stuck_out ?ids vf target st b b1 else plan_out vf target st ?ids b b1"
    using bulk_plan_out [OF distinct_for_each_id wf assms(2)] by blast
  show ?case
  proof (cases stuck)
    case True
    with less.prems p show ?thesis by (auto simp: bulk_loop.simps [of n] plan stuck_out_def)
  next
    case False
    with p have p': "plan_out vf target st ?ids b b1" by simp
    from bulk_round [OF less.prems(1) assms(2) UNIV_I this] obtain st1 st2 b2
      where r: "bulk_send (for_each_id (bk_mask b1)) st b1 = (st1, b1)" "bulk_wait 32 (bk_mask b1) st1 b1 = Inr (st2, b2)"
        and inv: "bulk_inv M vf target st2 b2" and fr: "bulk_frame UNIV M st st2" by blast
    have late: "prompt st2" using fr less.prems(3) by (simp add: prompt_def bulk_frame_def same_globals_def)
    have st1: "prompt st1"
      using bulk_send_trace [of st "for_each_id (bk_mask b1)" b1] r(1) less.prems(3)
      by (auto simp: only_trace_def prompt_def)
    have b2: "bk_bad b2 = 0"
      using bulk_wait_prompt [OF r(2) st1] p' less.prems(4) by (simp add: plan_out_def)
    show ?thesis
    proof (cases "bk_mask b2 = 0 \<or> n = 0")
      case True
      with less.prems(2) False b2 show ?thesis by (auto simp: bulk_loop.simps [of n] plan r split: if_splits)
    next
      case go: False
      then obtain m where m: "n = Suc m" by (cases n) auto
      have "bulk_loop m vf target st2 b2 = Inr (ret, st', b')"
        using less.prems(2) False go by (simp add: m bulk_loop.simps [of "Suc m"] plan r)
      from less.IH [OF _ inv this late b2] show ?thesis by (simp add: m)
    qed
  qed
qed

lemma bulk_goto_prompt:
  assumes r: "\<And>s. bit m s \<Longrightarrow> ready s st" and vf: "unat vf < 32" and t: "manual_target target"
    and p: "prompt st" and n: "8 * n_bits m \<le> 20 * unat (ws_num_ctrl_blocks st)" "ws_num_ctrl_blocks st \<le> 32"
  shows "\<exists>st'. world_switch_bulk_goto_state_manual vf m target st = Inr (WS_SUCCESS, st') \<and>
    (\<forall>s. bit m s \<longrightarrow> at_target st' s vf target)"
proof -
  have free: "\<And>s. bit m s \<Longrightarrow> \<not> ws_lock (ws_machine st s)" and wf: "\<And>s. bit m s \<Longrightarrow> wf_sched s st"
    using r by (simp_all add: ready_def)
  from bulk_goto_out [OF r vf UNIV_I, of m target] obtain ret st'
    where g: "world_switch_bulk_goto_state_manual vf m target st = Inr (ret, st')"
      "ret = WS_SUCCESS \<longrightarrow> (\<forall>s. bit m s \<longrightarrow> at_target st' s vf target)" by blast
  let ?l = "with_locks True m st" and ?n = "Suc (unat (20 * ws_num_ctrl_blocks st))"
  obtain ret1 st1 b1 where o: "bulk_loop ?n vf target ?l (start_bulk m st) = Inr (ret1, st1, b1)"
      "ret = (if bk_bad b1 \<noteq> 0 then WS_FAILURE else ret1)"
    using g(1) by (auto simp: bulk_goto_free [OF free] cbind_eq_Inr_iff)
  have p1: "prompt ?l" using p by (simp add: prompt_def with_locks_simps)
  have "bk_bad (start_bulk m st) = 0" by (simp add: start_bulk_def)
  from bulk_loop_prompt [OF start_inv [OF wf] vf o(1) p1 this] have bad: "bk_bad b1 = 0" .
  have "unat (20 * ws_num_ctrl_blocks st) = 20 * unat (ws_num_ctrl_blocks st)"
    using n(2) by (subst unat_mult_lem [THEN iffD1]) (simp_all add: word_le_nat_alt)
  then have "8 * n_bits (bk_mask (start_bulk m st)) \<le> unat (bk_loop_okay (start_bulk m st))"
    using n(1) by (simp add: start_bulk_def)
  moreover have "view_reaches 8 target (suspended ?l vf) False (view_of vf s ?l)"
    if "bit (bk_mask (start_bulk m st)) s" for s
  proof -
    have "manual_state (cur_gpu_state (ws_machine ?l s))"
      using wf [of s] that by (simp add: wf_sched_def start_bulk_def with_locks_machine)
    then show ?thesis unfolding view_of_def by (rule view_reaches_all [OF t])
  qed
  ultimately have "ret1 = WS_SUCCESS"
    using bulk_loop_not_stuck [OF start_inv [OF wf] vf UNIV_I _ _ o(1)] by blast
  with bad o(2) have "ret = WS_SUCCESS" by simp
  with g show ?thesis by blast
qed

section \<open>The operations and their reachable states\<close>

definition valid_vf :: "amdgv_ws \<Rightarrow> u32 \<Rightarrow> bool" where
  "valid_vf st vf \<longleftrightarrow> \<not> AMDGV_IS_IDX_INVALID (ws_max_num_vf st) vf \<and> ws_max_num_vf st \<le> 31"

lemma valid_vf_used:
  assumes "valid_vf st vf"
  shows "unat vf < 32" "unat vf \<in> used_vfs st"
proof -
  show "unat vf < 32" using assms valid_idx_in_slots by (auto simp: valid_vf_def)
  then show "unat vf \<in> used_vfs st"
    using assms by (auto simp: valid_vf_def used_vfs_def AMDGV_IS_IDX_INVALID_def not_le word_less_nat_alt)
qed

inductive ws_op :: "amdgv_ws \<Rightarrow> amdgv_ws \<Rightarrow> bool" where
  op_run: "valid_vf st vf \<Longrightarrow> \<forall>s. bit (lw_hw_sched_mask w) s \<longrightarrow> sm_mode (ws_machine st s) \<noteq> AMDGV_WS_MODE_AUTO \<Longrightarrow>
    amdgv_logical_sched_state_run vf w st = Inr (ret, st') \<Longrightarrow> ws_op st st'"
| op_pause: "valid_vf st vf \<Longrightarrow> \<forall>s. bit (lw_hw_sched_mask w) s \<longrightarrow> sm_mode (ws_machine st s) \<noteq> AMDGV_WS_MODE_AUTO \<Longrightarrow>
    amdgv_logical_sched_state_pause vf w st = Inr (ret, st') \<Longrightarrow> ws_op st st'"
| op_shutdown: "valid_vf st vf \<Longrightarrow> \<forall>s. bit (lw_hw_sched_mask w) s \<longrightarrow> sm_mode (ws_machine st s) \<noteq> AMDGV_WS_MODE_AUTO \<Longrightarrow>
    amdgv_logical_sched_state_shutdown vf w st = Inr (ret, st') \<Longrightarrow> ws_op st st'"

definition ws_inv :: "amdgv_ws \<Rightarrow> bool" where
  "ws_inv st \<longleftrightarrow> (\<forall>s < 32. sm_mode (ws_machine st s) \<noteq> AMDGV_WS_MODE_AUTO \<longrightarrow>
     ready s st \<and> engine_ok (used_vfs st) (engine_of st s))"

lemma ws_inv_ready:
  assumes "ws_inv st" "\<forall>s. bit (m :: u32) s \<longrightarrow> sm_mode (ws_machine st s) \<noteq> AMDGV_WS_MODE_AUTO"
  shows "\<forall>s. bit m s \<longrightarrow> ready s st"
  using assms bit_imp_le_length [of m] by (auto simp: ws_inv_def)

lemma run_out:
  assumes r: "\<forall>s. bit (lw_hw_sched_mask w) s \<longrightarrow> ready s st" and vf: "unat vf < 32" "unat vf \<in> U"
  shows "\<exists>ret st'. amdgv_logical_sched_state_run vf w st = Inr (ret, st') \<and>
    sched_frame U {s. bit (lw_hw_sched_mask w) s} st st'"
proof (cases "lw_bulk w")
  case False
  from run_op.each_mask [OF r vf, of False] False show ?thesis
    by (simp add: amdgv_logical_sched_state_run_def Let_def)
next
  case True
  let ?m = "lw_hw_sched_mask w"
  let ?first = "if lw_curr_vf_state w = AMDGV_VF_CONTEXT_LOADED \<and> lw_curr_idx_vf w = vf
                  then world_switch_bulk_goto_state_manual vf ?m AMDGV_IDLE_GPU st
                  else Inr (WS_SUCCESS, st)"
  have wf: "\<And>s. s \<in> {s. bit ?m s} \<Longrightarrow> wf_sched s st" using r by (simp add: ready_def)
  have self: "sched_frame U {s. bit ?m s} st st" by (rule sched_frame_refl [OF wf])
  obtain ret st1 where 1: "?first = Inr (ret, st1)" "sched_frame U {s. bit ?m s} st st1"
    using bulk_goto_out [OF _ vf, of ?m st AMDGV_IDLE_GPU] r self by (cases "lw_curr_vf_state w = AMDGV_VF_CONTEXT_LOADED \<and> lw_curr_idx_vf w = vf") auto
  have eq: "amdgv_logical_sched_state_run vf w st = (if ret \<noteq> WS_SUCCESS then Inr (ret, st1)
      else cbind (run_state vf st1) (\<lambda>t. world_switch_bulk_goto_state_manual vf ?m t st1))"
    using True unfolding amdgv_logical_sched_state_run_def Let_def 1(1) by simp
  show ?thesis
  proof (cases "ret = WS_SUCCESS")
    case False
    with eq 1(2) show ?thesis by auto
  next
    case ok: True
    obtain t where t: "run_state vf st1 = Inr t" using vf(1) by (auto simp: run_state_def vf_slot_def)
    have "\<And>s. bit ?m s \<Longrightarrow> ready s st1" using sched_frame_ready [OF 1(2)] r by blast
    from bulk_goto_out [OF this vf, of ?m t] obtain ret' st2
      where 2: "world_switch_bulk_goto_state_manual vf ?m t st1 = Inr (ret', st2)" "sched_frame U {s. bit ?m s} st1 st2"
      by blast
    have "sched_frame U {s. bit ?m s} st st2" using sched_frame_trans [OF 1(2) 2(2) wf] by simp
    with eq ok t 2(1) show ?thesis by simp
  qed
qed

lemma pause_out:
  assumes r: "\<forall>s. bit (lw_hw_sched_mask w) s \<longrightarrow> ready s st" and vf: "unat vf < 32" "unat vf \<in> U"
  shows "\<exists>ret st'. amdgv_logical_sched_state_pause vf w st = Inr (ret, st') \<and>
    sched_frame U {s. bit (lw_hw_sched_mask w) s} st st'"
proof (cases "lw_bulk w")
  case False
  from pause_op.each_mask [OF r vf, of False] False show ?thesis
    by (simp add: amdgv_logical_sched_state_pause_def)
next
  case True
  with r bulk_goto_out [OF _ vf, of "lw_hw_sched_mask w" st AMDGV_SAVE_GPU_STATE] show ?thesis
    by (auto simp: amdgv_logical_sched_state_pause_def)
qed

lemma shutdown_out:
  assumes r: "\<forall>s. bit (lw_hw_sched_mask w) s \<longrightarrow> ready s st" and vf: "unat vf < 32" "unat vf \<in> U"
  shows "\<exists>ret st'. amdgv_logical_sched_state_shutdown vf w st = Inr (ret, st') \<and>
    sched_frame U {s. bit (lw_hw_sched_mask w) s} st st'"
proof (cases "lw_bulk w")
  case False
  from shutdown_op.each_mask [OF r vf, of False] False show ?thesis
    by (simp add: amdgv_logical_sched_state_shutdown_def)
next
  case True
  with r bulk_goto_out [OF _ vf, of "lw_hw_sched_mask w" st AMDGV_SHUTDOWN_GPU] show ?thesis
    by (auto simp: amdgv_logical_sched_state_shutdown_def)
qed

lemma sched_frame_inv:
  assumes f: "sched_frame (used_vfs st) S st st'" and inv: "ws_inv st"
  shows "ws_inv st'" "ws_max_num_vf st' = ws_max_num_vf st"
proof -
  show n: "ws_max_num_vf st' = ws_max_num_vf st" using f by (simp add: sched_frame_def same_globals_def)
  then have u: "used_vfs st' = used_vfs st" by (simp add: used_vfs_def)
  have mode: "sm_mode (ws_machine st' s) = sm_mode (ws_machine st s)" for s
    using f by (cases "s \<in> S") (auto simp: sched_frame_def same_at_def)
  show "ws_inv st'"
    unfolding ws_inv_def
  proof (intro allI impI conjI)
    fix s :: nat
    assume s: "s < 32" "sm_mode (ws_machine st' s) \<noteq> AMDGV_WS_MODE_AUTO"
    then have i: "ready s st" "engine_ok (used_vfs st) (engine_of st s)" using inv by (simp_all add: ws_inv_def mode)
    show "ready s st'" using sched_frame_ready [OF f i(1)] .
    show "engine_ok (used_vfs st') (engine_of st' s)"
      unfolding u by (rule engine_steps_ok [OF sched_frame_steps [OF f] i(2)])
  qed
qed

lemma ws_op_frame:
  assumes "ws_op st st'" "ws_inv st"
  obtains S where "sched_frame (used_vfs st) S st st'"
  using assms(1)
proof (cases rule: ws_op.cases)
  case (op_run vf w ret)
  show ?thesis
    using run_out [OF ws_inv_ready [OF assms(2) op_run(2)] valid_vf_used [OF op_run(1)]] op_run(3) that by auto
next
  case (op_pause vf w ret)
  show ?thesis
    using pause_out [OF ws_inv_ready [OF assms(2) op_pause(2)] valid_vf_used [OF op_pause(1)]] op_pause(3) that by auto
next
  case (op_shutdown vf w ret)
  show ?thesis
    using shutdown_out [OF ws_inv_ready [OF assms(2) op_shutdown(2)] valid_vf_used [OF op_shutdown(1)]] op_shutdown(3) that by auto
qed

lemma ws_op_inv:
  assumes "ws_op st st'" "ws_inv st"
  shows "ws_inv st'"
  using ws_op_frame [OF assms] sched_frame_inv(1) assms(2) by metis

lemma ws_init_inv:
  assumes "\<And>s. s < 32 \<Longrightarrow> unat (cur_vf_id (ws_machine st s)) \<in> used_vfs st \<and> \<not> ws_lock (ws_machine st s)"
  shows "ws_inv (amdgv_hw_sched_init st)"
  unfolding ws_inv_def
proof (intro allI impI conjI)
  fix s :: nat
  assume s: "s < 32" "sm_mode (ws_machine (amdgv_hw_sched_init st) s) \<noteq> AMDGV_WS_MODE_AUTO"
  have u: "used_vfs (amdgv_hw_sched_init st) = used_vfs st" by (simp add: used_vfs_def amdgv_hw_sched_init_def)
  show "ready s (amdgv_hw_sched_init st)"
    using assms [OF s(1)] s by (auto simp: ready_def wf_sched_def manual_state_def amdgv_hw_sched_init_def dest: used_vfs_less)
  show "engine_ok (used_vfs (amdgv_hw_sched_init st)) (engine_of (amdgv_hw_sched_init st) s)"
    using assms [OF s(1)] s(1) unfolding u
    by (auto simp: engine_ok_def engine_of_def amdgv_hw_sched_init_def parked_def used_vfs_def)
qed

lemma ws_ops_inv:
  assumes "ws_op\<^sup>*\<^sup>* st st'" "ws_inv st"
  shows "ws_inv st'"
  using assms by (induction rule: rtranclp_induct) (auto intro: ws_op_inv)

section \<open>A sample adapter\<close>

text \<open>Two graphics schedulers in manual mode that are shut down at the PF, four VFs, and firmware that
  answers at once; \<open>ws_stuck\<close> has firmware that never answers.\<close>

definition ws_sample :: amdgv_ws where
  "ws_sample = \<lparr>ws_machine = (\<lambda>s. \<lparr>cur_gpu_state = AMDGV_SHUTDOWN_GPU, cur_vf_id = 31,
       sm_mode = AMDGV_WS_MODE_MANUAL, ws_lock = False\<rparr>),
     cur_vf_state = (\<lambda>v s. AMDGV_SHUTDOWN_GPU), ws_vf_sched = (\<lambda>v. AMDGV_SCHED_ACTIVE),
     ws_skip_run = (\<lambda>v. False), ws_auto_run = (\<lambda>v. False), ws_switches = [],
     ws_num_ctrl_blocks = 2, ws_max_num_vf = 4, ws_gfx = (\<lambda>s. True), ws_legacy_flr = False,
     ws_mm_shutdown = False, ws_use_pf = False, ws_disable_self_switch = False,
     ws_num_vf_per_gfx_sched = 0, ws_liquid = (\<lambda>s. False), ws_hw = (\<lambda>k. - 1), ws_late = (\<lambda>k. False),
     ws_active_vfs = (\<lambda>k. 0), ws_active_idx = (\<lambda>k. 0), ws_active_status = (\<lambda>k. None),
     ws_auto_stops = (\<lambda>k. True), ws_trace = []\<rparr>"

definition ws_block :: "bool \<Rightarrow> amdgv_sched_world_switch" where
  "ws_block bulk = \<lparr>lw_enabled = True, lw_switch_running = False, lw_block_gfx = True, lw_curr_idx_vf = 31,
     lw_curr_vf_state = AMDGV_VF_CONTEXT_CLEAR, lw_use_active_status = False, lw_vf_inited = 0,
     lw_hw_sched_mask = 3, lw_bulk = bulk\<rparr>"

lemma sample_ready: "ready s ws_sample"
  by (simp add: ready_def wf_sched_def ws_sample_def manual_state_def)

lemma sample_inv: "ws_inv ws_sample"
proof -
  have "engine_ok (used_vfs ws_sample) (engine_of ws_sample s)" for s
    by (simp add: engine_ok_def engine_of_def ws_sample_def parked_def used_vfs_def)
  then show ?thesis by (simp add: ws_inv_def sample_ready)
qed

lemma sample_fields: "ws_hw ws_sample = (\<lambda>_. - 1)" "ws_late ws_sample = (\<lambda>_. False)"
  "ws_num_ctrl_blocks ws_sample = 2" "ws_trace ws_sample = []"
  by (simp_all add: ws_sample_def)

lemma sample_free: "\<forall>s. bit (m :: u32) s \<longrightarrow> wf_sched s ws_sample \<and> \<not> ws_lock (ws_machine ws_sample s) \<and>
    sm_mode (ws_machine ws_sample s) \<noteq> AMDGV_WS_MODE_AUTO"
  using sample_ready by (simp add: ready_def)

lemma sample_valid: "valid_vf ws_sample 2"
  by (simp add: valid_vf_def AMDGV_IS_IDX_INVALID_def ws_sample_def)

lemma sample_mode: "sm_mode (ws_machine ws_sample s) = AMDGV_WS_MODE_MANUAL"
  by (simp add: ws_sample_def)

section \<open>Properties\<close>

text \<open>The macro for_each_id, a walk with the table lookups of amdgv_ffs and amdgv_fill, visits the
  set bits of a mask in ascending order, each once.\<close>

theorem for_each_id_lists_bits: "for_each_id m = filter (bit m) [0..<32]"
  by (rule for_each_id_filter)

text \<open>C6. One function at a time: after any sequence of runs, pauses and shutdowns of the schedulers in
  manual mode, with commands that succeed or time out in any pattern, at most one function in use is
  recorded as holding the engine of a scheduler (idle, loaded, initialised or running), and it is the
  one that the scheduler is at; every other function is saved or shut down.\<close>

theorem ws_one_context:
  assumes "\<forall>s < 32. unat (cur_vf_id (ws_machine st s)) \<in> used_vfs st \<and> \<not> ws_lock (ws_machine st s)"
    and "ws_op\<^sup>*\<^sup>* (amdgv_hw_sched_init st) st'"
    and "s < 32" "sm_mode (ws_machine st' s) \<noteq> AMDGV_WS_MODE_AUTO"
  shows "{v \<in> used_vfs st'. cur_vf_state st' v s \<notin> {AMDGV_SAVE_GPU_STATE, AMDGV_SHUTDOWN_GPU}}
      \<subseteq> {unat (cur_vf_id (ws_machine st' s))}"
proof -
  have "ws_inv st'" using ws_ops_inv [OF assms(2) ws_init_inv] assms(1) by blast
  with assms(3,4) have "engine_ok (used_vfs st') (engine_of st' s)" by (simp add: ws_inv_def)
  from engine_ok_one [OF this [unfolded engine_of_def]] show ?thesis by (auto simp: parked_def)
qed

lemma ws_one_context_witness:
  "\<exists>st'. ws_op\<^sup>*\<^sup>* (amdgv_hw_sched_init ws_sample) st' \<and>
     {v \<in> used_vfs st'. cur_vf_state st' v 0 \<notin> {AMDGV_SAVE_GPU_STATE, AMDGV_SHUTDOWN_GPU}}
       \<subseteq> {unat (cur_vf_id (ws_machine st' 0))}"
proof -
  let ?i = "amdgv_hw_sched_init ws_sample"
  have a: "\<forall>s < 32. unat (cur_vf_id (ws_machine ws_sample s)) \<in> used_vfs ws_sample \<and> \<not> ws_lock (ws_machine ws_sample s)"
    by (simp add: ws_sample_def used_vfs_def)
  have inv: "ws_inv ?i" using a by (intro ws_init_inv) simp
  have m: "sm_mode (ws_machine ?i s) = AMDGV_WS_MODE_MANUAL" for s
    by (simp add: amdgv_hw_sched_init_def ws_sample_def)
  have v: "valid_vf ?i 2" by (simp add: valid_vf_def AMDGV_IS_IDX_INVALID_def amdgv_hw_sched_init_def ws_sample_def)
  have r: "\<forall>s. bit (lw_hw_sched_mask (ws_block True)) s \<longrightarrow> ready s ?i"
    by (rule ws_inv_ready [OF inv]) (simp add: m)
  obtain ret st' where 1: "amdgv_logical_sched_state_run 2 (ws_block True) ?i = Inr (ret, st')"
      "sched_frame (used_vfs ?i) {s. bit (lw_hw_sched_mask (ws_block True)) s} ?i st'"
    using run_out [OF r valid_vf_used [OF v]] by blast
  have op: "ws_op\<^sup>*\<^sup>* ?i st'" using op_run [OF v _ 1(1)] by (simp add: m r_into_rtranclp)
  have "sm_mode (ws_machine st' 0) \<noteq> AMDGV_WS_MODE_AUTO"
    using sched_frame_ready [OF 1(2), of 0] inv m [of 0] by (simp add: ws_inv_def ready_def)
  from ws_one_context [OF a op _ this] op show ?thesis by auto
qed

text \<open>C17. Every run, pause or shutdown of a valid function on a mask whose schedulers are all in a manual mode, of one scheduler
  after the other or in bulk, from a well-formed adapter, moves each
  scheduler along the steps of the engine only: IDLE follows RUN, SAVE follows IDLE, RUN follows LOAD or
  INIT, another function is entered or shut down only from SAVE or SHUTDOWN, a function is loaded only
  when it is recorded as saved, and initialised only when it is not. This holds for commands that time out as well.
  Schedulers in the AUTO mode take another path of the code, which this does not cover.\<close>

theorem ws_operations_refine_engine:
  assumes "ws_op st st'" and "ws_inv st"
  shows "(engine_step (used_vfs st))\<^sup>*\<^sup>* (engine_of st s) (engine_of st' s)"
proof -
  obtain S where "sched_frame (used_vfs st) S st st'" using ws_op_frame [OF assms] by blast
  then show ?thesis by (rule sched_frame_steps)
qed

lemma ws_operations_refine_engine_witness:
  "\<exists>st'. ws_op ws_sample st' \<and> (engine_step (used_vfs ws_sample))\<^sup>*\<^sup>* (engine_of ws_sample 0) (engine_of st' 0)"
proof -
  have r: "\<forall>s. bit (lw_hw_sched_mask (ws_block False)) s \<longrightarrow> ready s ws_sample" by (simp add: sample_ready)
  obtain ret st' where "amdgv_logical_sched_state_run 2 (ws_block False) ws_sample = Inr (ret, st')"
    using run_out [OF r valid_vf_used [OF sample_valid]] by blast
  then have "ws_op ws_sample st'" using op_run [OF sample_valid] by (simp add: sample_mode)
  with ws_operations_refine_engine [OF this sample_inv] show ?thesis by blast
qed



text \<open>C11. The bulk operation returns for any mask of free schedulers, any target state and any firmware:
  its loop counter ends every sequence of rounds. It gives all locks back, touches no scheduler outside
  the mask, and reports success only when every scheduler of the mask is at the target.\<close>

theorem ws_bulk_outcome:
  assumes "\<forall>s. bit m s \<longrightarrow> wf_sched s st \<and> \<not> ws_lock (ws_machine st s) \<and> sm_mode (ws_machine st s) \<noteq> AMDGV_WS_MODE_AUTO"
    and "unat vf < 32"
  shows "\<exists>ret st'. world_switch_bulk_goto_state_manual vf m target st = Inr (ret, st') \<and>
    (\<forall>s. bit m s \<longrightarrow> \<not> ws_lock (ws_machine st' s)) \<and>
    (\<forall>s. \<not> bit m s \<longrightarrow> ws_machine st' s = ws_machine st s \<and> (\<forall>v. cur_vf_state st' v s = cur_vf_state st v s)) \<and>
    (ret = WS_SUCCESS \<longrightarrow> (\<forall>s. bit m s \<longrightarrow>
       cur_gpu_state (ws_machine st' s) = target \<and> cur_vf_id (ws_machine st' s) = vf))"
proof -
  have r: "ready s st" if "bit m s" for s using assms(1) that by (simp add: ready_def)
  obtain ret st' where g: "world_switch_bulk_goto_state_manual vf m target st = Inr (ret, st')"
      "sched_frame UNIV {s. bit m s} st st'" "ret = WS_SUCCESS \<longrightarrow> (\<forall>s. bit m s \<longrightarrow> at_target st' s vf target)"
    using bulk_goto_out [of m st vf UNIV target, OF r assms(2)] by auto
  show ?thesis
    by (intro exI [of _ ret] exI [of _ st'])
      (use g assms(1) in \<open>auto simp: sched_frame_def same_at_def at_target_def\<close>)
qed

lemma ws_bulk_outcome_witness:
  "\<exists>ret st'. world_switch_bulk_goto_state_manual 2 3 AMDGV_RUN_GPU ws_sample = Inr (ret, st') \<and>
     \<not> ws_lock (ws_machine st' 0) \<and> \<not> ws_lock (ws_machine st' 1)"
proof -
  have b: "bit (3 :: u32) 0" "bit (3 :: u32) 1" by (simp_all add: bit_numeral_rec)
  obtain ret st' where "world_switch_bulk_goto_state_manual 2 3 AMDGV_RUN_GPU ws_sample = Inr (ret, st')"
      "\<forall>s. bit (3 :: u32) s \<longrightarrow> \<not> ws_lock (ws_machine st' s)"
    using ws_bulk_outcome [OF sample_free, of 2 3 AMDGV_RUN_GPU] by auto
  with b show ?thesis by blast
qed

text \<open>C14. When the firmware answers every command in time, the bulk operation brings all schedulers of
  the mask to the target: twenty rounds for each control block are enough for up to two and a half
  schedulers a block, whatever states they start from.\<close>

theorem ws_bulk_reaches_target:
  assumes "\<forall>s. bit m s \<longrightarrow> wf_sched s st \<and> \<not> ws_lock (ws_machine st s) \<and> sm_mode (ws_machine st s) \<noteq> AMDGV_WS_MODE_AUTO"
    and "unat vf < 32" and "manual_target target"
    and "ws_hw st = (\<lambda>_. - 1)" and "ws_late st = (\<lambda>_. False)"
    and "8 * length (for_each_id m) \<le> 20 * unat (ws_num_ctrl_blocks st)" and "ws_num_ctrl_blocks st \<le> 32"
  shows "\<exists>st'. world_switch_bulk_goto_state_manual vf m target st = Inr (WS_SUCCESS, st') \<and>
    (\<forall>s. bit m s \<longrightarrow> cur_gpu_state (ws_machine st' s) = target \<and> cur_vf_id (ws_machine st' s) = vf)"
proof -
  have r: "ready s st" if "bit m s" for s using assms(1) that by (simp add: ready_def)
  have p: "prompt st" using assms(4,5) by (simp add: prompt_def)
  show ?thesis
    using bulk_goto_prompt [of m st vf target, OF r assms(2,3) p] assms(6,7)
    by (auto simp: n_bits_def at_target_def)
qed

lemma ws_bulk_reaches_target_witness:
  "\<exists>st'. world_switch_bulk_goto_state_manual 2 3 AMDGV_RUN_GPU ws_sample = Inr (WS_SUCCESS, st') \<and>
     cur_gpu_state (ws_machine st' 1) = AMDGV_RUN_GPU \<and> cur_vf_id (ws_machine st' 1) = 2"
proof -
  have l: "length (for_each_id 3) = 2" by code_simp
  have b: "bit (3 :: u32) 1" by (simp add: bit_numeral_rec)
  obtain st' where "world_switch_bulk_goto_state_manual 2 3 AMDGV_RUN_GPU ws_sample = Inr (WS_SUCCESS, st')"
      "\<forall>s. bit (3 :: u32) s \<longrightarrow> cur_gpu_state (ws_machine st' s) = AMDGV_RUN_GPU \<and> cur_vf_id (ws_machine st' s) = 2"
    using ws_bulk_reaches_target [OF sample_free, of 2 AMDGV_RUN_GPU 3]
    by (auto simp: manual_target_def manual_state_def sample_fields l)
  with b show ?thesis by blast
qed

text \<open>C20. On a well-formed adapter, where every scheduler in manual mode is in a state of its machine at a
  function in use and is not locked, a run, a pause and a shutdown of any valid function on any mask of schedulers that are
  all in a manual mode, none in the AUTO mode, return without fault and leave a well-formed adapter.\<close>

theorem ws_operations_return:
  assumes "ws_inv st" and "valid_vf st vf"
    and "\<forall>s. bit (lw_hw_sched_mask w) s \<longrightarrow> sm_mode (ws_machine st s) \<noteq> AMDGV_WS_MODE_AUTO"
  shows "(\<exists>ret st'. amdgv_logical_sched_state_run vf w st = Inr (ret, st') \<and> ws_inv st') \<and>
    (\<exists>ret st'. amdgv_logical_sched_state_pause vf w st = Inr (ret, st') \<and> ws_inv st') \<and>
    (\<exists>ret st'. amdgv_logical_sched_state_shutdown vf w st = Inr (ret, st') \<and> ws_inv st')"
proof -
  note r = ws_inv_ready [OF assms(1,3)] and v = valid_vf_used [OF assms(2)]
  show ?thesis
    using run_out [OF r v] pause_out [OF r v] shutdown_out [OF r v] sched_frame_inv(1) [OF _ assms(1)] by blast
qed

lemma ws_operations_return_witness:
  "\<exists>ret st'. amdgv_logical_sched_state_run 2 (ws_block False) ws_sample = Inr (ret, st') \<and> ws_inv st'"
  using ws_operations_return [OF sample_inv sample_valid, of "ws_block False"] by (simp add: sample_mode)

text \<open>When a scheduler of the mask is already locked, the bulk operation reports a reentrant call and
  keeps the locks that it took of the schedulers before it: each of these refuses every later
  operation, until somebody else releases its lock.\<close>

theorem ws_bulk_reentrant_keeps_locks:
  assumes "bit m s" and "ws_lock (ws_machine st s)"
    and "\<forall>r < s. bit m r \<longrightarrow> \<not> ws_lock (ws_machine st r)"
  shows "\<exists>st'. world_switch_bulk_goto_state_manual vf m target st = Inr (AMDGV_LOG_IOV_WS_REENTRANT_ERROR, st') \<and>
    (\<forall>r < s. bit m r \<longrightarrow> ws_lock (ws_machine st' r) \<and> cur_gpu_state (ws_machine st' r) = cur_gpu_state (ws_machine st r) \<and>
       world_switch_goto_state_manual vf r target st' = Inr (AMDGV_LOG_IOV_WS_REENTRANT_ERROR, st'))"
proof -
  have s: "s < 32" using bit_imp_le_length [OF assms(1)] by simp
  let ?pre = "filter (bit m) [0..<s]"
  have "[0..<32] = [0..<s] @ s # [Suc s..<32]"
    using upt_add_eq_append [of 0 s "32 - s"] upt_conv_Cons [OF s] s by simp
  then have ids: "for_each_id m = ?pre @ s # filter (bit m) [Suc s..<32]"
    unfolding for_each_id_filter using assms(1) by simp
  let ?st' = "fold (\<lambda>s. set_lock s True) ?pre st"
  have "lock_all (for_each_id m) st = (False, ?st')"
    unfolding ids by (rule lock_all_taken) (use assms in auto)
  then have "world_switch_bulk_goto_state_manual vf m target st = Inr (AMDGV_LOG_IOV_WS_REENTRANT_ERROR, ?st')"
    by (simp add: world_switch_bulk_goto_state_manual_def)
  then show ?thesis
    by (intro exI [of _ ?st']) (auto simp: fold_locks world_switch_goto_state_manual_def)
qed

lemma ws_bulk_reentrant_keeps_locks_witness:
  "\<exists>st'. world_switch_bulk_goto_state_manual 2 3 AMDGV_RUN_GPU (set_lock 1 True ws_sample) =
      Inr (AMDGV_LOG_IOV_WS_REENTRANT_ERROR, st') \<and>
    world_switch_goto_state_manual 2 0 AMDGV_RUN_GPU st' = Inr (AMDGV_LOG_IOV_WS_REENTRANT_ERROR, st')"
proof -
  have "bit (3 :: u32) 1" "bit (3 :: u32) 0" by (simp_all add: bit_numeral_rec)
  then show ?thesis
    using ws_bulk_reentrant_keeps_locks [of 3 1 "set_lock 1 True ws_sample" 2 AMDGV_RUN_GPU]
    by (auto simp: set_lock_def ws_sample_def)
qed

end
