(* ===== verification/GV_Exclusion.thy ===== *)
theory GV_Exclusion
  imports GV_Prelude
begin

text \<open>
  The two synchronisation primitives of \<^verbatim>\<open>libgv/core/amdgv_task_barrier.c\<close> and its header: the
  shared exclusion lock, which lets threads of one group in together and keeps the other group out,
  and the task barrier. Threads are numbered; a program counter names the statement that a thread is
  at, and every access to shared memory is a step of its own, so that all interleavings are covered.
\<close>

section \<open>The shared exclusion lock\<close>

abbreviation (input) SHARED_EXCLUSION_NUM_GROUPS :: nat where "SHARED_EXCLUSION_NUM_GROUPS \<equiv> 2"

text \<open>The places of a thread that calls \<^verbatim>\<open>shared_exclusion_enter\<close> and \<^verbatim>\<open>shared_exclusion_exit\<close> for the
  group \<open>g\<close>; \<open>u8\<close> arguments are the local variables \<^verbatim>\<open>count\<close> and \<^verbatim>\<open>waiters\<close>.\<close>

datatype sel_pc =
    Outside
  | Enter_Lock nat \<comment> \<open>before the first \<open>oss_mutex_lock\<close>\<close>
  | Enter_Inc nat \<comment> \<open>holds the mutex, before the increment\<close>
  | Enter_Branch nat u8 \<comment> \<open>holds the mutex, has incremented\<close>
  | Sem_Down nat \<comment> \<open>first of its group, waits for the main semaphore\<close>
  | Relock nat \<comment> \<open>owns the main semaphore, before the second lock\<close>
  | Activate nat
  | Count_Waiters nat
  | Wake nat u8
  | Gate_Down nat
  | Inside nat
  | Exit_Lock nat
  | Exit_Dec nat
  | Exit_Branch nat u8
  | Sem_Up nat
  | Exit_Unlock nat

record shared_exclusion_lock =
  sel_sem :: nat
  sel_gate :: "nat \<Rightarrow> nat"
  sel_count :: "nat \<Rightarrow> int"
  sel_active :: "nat \<Rightarrow> bool"
  sel_lock :: "nat option"

type_synonym sel_state = "shared_exclusion_lock \<times> (nat \<Rightarrow> sel_pc)"

text \<open>What \<^verbatim>\<open>shared_exclusion_init\<close> leaves behind when all of its handles can be made.\<close>

definition sel_start :: shared_exclusion_lock where
  "sel_start = \<lparr>sel_sem = 1, sel_gate = (\<lambda>_. 0), sel_count = (\<lambda>_. 0), sel_active = (\<lambda>_. False), sel_lock = None\<rparr>"

text \<open>The next statement of thread \<open>t\<close>; \<open>None\<close> while it is blocked. The call itself and the way
  from inside to \<^verbatim>\<open>shared_exclusion_exit\<close> are the thread's own choice, below.\<close>

definition sel_next :: "nat \<Rightarrow> sel_pc \<Rightarrow> shared_exclusion_lock \<Rightarrow> (sel_pc \<times> shared_exclusion_lock) option" where
  "sel_next t p l = (case p of
       Enter_Lock g \<Rightarrow> if sel_lock l = None then Some (Enter_Inc g, l\<lparr>sel_lock := Some t\<rparr>) else None
     | Enter_Inc g \<Rightarrow> Some (Enter_Branch g (word_of_int (sel_count l g + 1)),
         l\<lparr>sel_count := (sel_count l)(g := sel_count l g + 1)\<rparr>)
     | Enter_Branch g count \<Rightarrow>
         Some (if count = 1 then Sem_Down g else if \<not> sel_active l g then Gate_Down g else Inside g,
           l\<lparr>sel_lock := None\<rparr>)
     | Sem_Down g \<Rightarrow> if 0 < sel_sem l then Some (Relock g, l\<lparr>sel_sem := sel_sem l - 1\<rparr>) else None
     | Relock g \<Rightarrow> if sel_lock l = None then Some (Activate g, l\<lparr>sel_lock := Some t\<rparr>) else None
     | Activate g \<Rightarrow> Some (Count_Waiters g, l\<lparr>sel_active := (sel_active l)(g := True)\<rparr>)
     | Count_Waiters g \<Rightarrow> Some (Wake g (word_of_int (sel_count l g - 1)), l)
     | Wake g waiters \<Rightarrow>
         if 0 < waiters then Some (Wake g (waiters - 1), l\<lparr>sel_gate := (sel_gate l)(g := sel_gate l g + 1)\<rparr>)
         else Some (Inside g, l\<lparr>sel_lock := None\<rparr>)
     | Gate_Down g \<Rightarrow> if 0 < sel_gate l g
         then Some (Inside g, l\<lparr>sel_gate := (sel_gate l)(g := sel_gate l g - 1)\<rparr>) else None
     | Exit_Lock g \<Rightarrow> if sel_lock l = None then Some (Exit_Dec g, l\<lparr>sel_lock := Some t\<rparr>) else None
     | Exit_Dec g \<Rightarrow> Some (Exit_Branch g (word_of_int (sel_count l g - 1)),
         l\<lparr>sel_count := (sel_count l)(g := sel_count l g - 1)\<rparr>)
     | Exit_Branch g count \<Rightarrow>
         Some (if count = 0 then (Sem_Up g, l\<lparr>sel_active := (sel_active l)(g := False)\<rparr>) else (Exit_Unlock g, l))
     | Sem_Up g \<Rightarrow> Some (Exit_Unlock g, l\<lparr>sel_sem := sel_sem l + 1\<rparr>)
     | Exit_Unlock g \<Rightarrow> Some (Outside, l\<lparr>sel_lock := None\<rparr>)
     | _ \<Rightarrow> None)"

definition shared_exclusion_enter :: "nat \<Rightarrow> sel_pc" where
  "shared_exclusion_enter g = (if SHARED_EXCLUSION_NUM_GROUPS \<le> g then Outside else Enter_Lock g)"

definition shared_exclusion_exit :: "nat \<Rightarrow> sel_pc" where
  "shared_exclusion_exit g = (if SHARED_EXCLUSION_NUM_GROUPS \<le> g then Outside else Exit_Lock g)"

text \<open>The steps of \<open>n\<close> threads: each may call the lock for a group, leave, or go on.\<close>

inductive sel_step :: "nat \<Rightarrow> sel_state \<Rightarrow> sel_state \<Rightarrow> bool" for n where
  sel_call: "t < n \<Longrightarrow> pcs t = Outside \<Longrightarrow> sel_step n (l, pcs) (l, pcs(t := shared_exclusion_enter g))"
| sel_leave: "t < n \<Longrightarrow> pcs t = Inside g \<Longrightarrow> sel_step n (l, pcs) (l, pcs(t := shared_exclusion_exit g))"
| sel_go: "t < n \<Longrightarrow> sel_next t (pcs t) l = Some (p, l') \<Longrightarrow> sel_step n (l, pcs) (l', pcs(t := p))"

inductive_cases sel_stepE: "sel_step n (l, pcs) st'"

text \<open>The handles of a lock; \<open>avail k\<close> tells whether the \<open>k\<close>-th allocation succeeds.\<close>

record sel_handles =
  h_sem :: bool
  h_gate :: "bool list"
  h_count :: "bool list"
  h_lock :: bool

definition no_handles :: sel_handles where
  "no_handles = \<lparr>h_sem = False, h_gate = [False, False], h_count = [False, False], h_lock = False\<rparr>"

definition shared_exclusion_fini :: "sel_handles \<Rightarrow> sel_handles" where
  "shared_exclusion_fini h = h\<lparr>h_sem := False, h_gate := map (\<lambda>_. False) (h_gate h),
     h_count := map (\<lambda>_. False) (h_count h), h_lock := False\<rparr>"

fun init_groups :: "(nat \<Rightarrow> bool) \<Rightarrow> nat \<Rightarrow> nat \<Rightarrow> sel_handles \<Rightarrow> bool \<times> sel_handles" where
  "init_groups avail i 0 h = (True, h)"
| "init_groups avail i (Suc m) h =
     (if \<not> avail (2 * i + 1) then (False, h)
      else let h = h\<lparr>h_gate := (h_gate h)[i := True]\<rparr> in
        if \<not> avail (2 * i + 2) then (False, h)
        else init_groups avail (Suc i) m (h\<lparr>h_count := (h_count h)[i := True]\<rparr>))"

definition shared_exclusion_init :: "(nat \<Rightarrow> bool) \<Rightarrow> sel_handles \<Rightarrow> int \<times> sel_handles" where
  "shared_exclusion_init avail h =
     (if \<not> avail 0 then (-1, shared_exclusion_fini h)
      else let (ok, h) = init_groups avail 0 SHARED_EXCLUSION_NUM_GROUPS (h\<lparr>h_sem := True\<rparr>) in
        if \<not> ok \<or> \<not> avail 5 then (-1, shared_exclusion_fini h)
        else (0, h\<lparr>h_lock := True\<rparr>))"

section \<open>The task barrier\<close>

datatype tb_pc =
    Idle
  | Enter_Wait \<comment> \<open>has incremented \<open>thread_count\<close>, spins\<close>
  | Timed_Wait int \<comment> \<open>the same in \<open>task_barrier_enter_timeout\<close>, with \<open>usec_timeout\<close>\<close>
  | Timed_Flag int \<comment> \<open>before the read of \<open>terminate\<close>\<close>
  | Timed_Stop int \<comment> \<open>before the write of \<open>terminate\<close>\<close>
  | Timed_Check \<comment> \<open>past the loop, before the last read\<close>
  | Passed
  | Timed_Out \<comment> \<open>\<open>task_barrier_enter_timeout\<close> has returned 1\<close>
  | Yield_Wait \<comment> \<open>has incremented \<open>thread_yield_count\<close>, spins\<close>
  | Drop \<comment> \<open>before the decrement of \<open>thread_count\<close>\<close>
  | Drain_Wait \<comment> \<open>spins until \<open>thread_count\<close> is zero\<close>
  | Drop_Yield

record task_barrier =
  tb_count :: int
  tb_thread_count :: int
  tb_thread_yield_count :: int
  tb_terminate :: bool

definition task_barrier_init :: task_barrier where
  "task_barrier_init = \<lparr>tb_count = 0, tb_thread_count = 0, tb_thread_yield_count = 0, tb_terminate = False\<rparr>"

definition task_barrier_fini :: "task_barrier \<Rightarrow> task_barrier" where
  "task_barrier_fini b = b\<lparr>tb_count := 0, tb_thread_count := 0, tb_thread_yield_count := 0, tb_terminate := False\<rparr>"

lemma task_barrier_fini_init: "task_barrier_fini b = task_barrier_init"
  by (simp add: task_barrier_fini_def task_barrier_init_def)

text \<open>One statement of a thread; a turn of a spinning loop leaves the thread where it is. The comparisons
  with \<open>count\<close> are unsigned, the one with zero is signed.\<close>

definition tb_next :: "u32 \<Rightarrow> tb_pc \<Rightarrow> task_barrier \<Rightarrow> tb_pc \<times> task_barrier" where
  "tb_next count p b = (case p of
       Enter_Wait \<Rightarrow> (if word_of_int (tb_thread_count b) < count then Enter_Wait else Passed, b)
     | Timed_Wait left \<Rightarrow> (if word_of_int (tb_thread_count b) < count then Timed_Flag left else Timed_Check, b)
     | Timed_Flag left \<Rightarrow>
         (if tb_terminate b then Timed_Check else if 50 < left then Timed_Wait (left - 50) else Timed_Stop left, b)
     | Timed_Stop left \<Rightarrow> (Timed_Wait left, b\<lparr>tb_terminate := True\<rparr>)
     | Timed_Check \<Rightarrow> (if word_of_int (tb_thread_count b) \<noteq> count then Timed_Out else Passed, b)
     | Yield_Wait \<Rightarrow> (if word_of_int (tb_thread_yield_count b) < count then Yield_Wait else Drop, b)
     | Drop \<Rightarrow> (Drain_Wait, b\<lparr>tb_thread_count := tb_thread_count b - 1\<rparr>)
     | Drain_Wait \<Rightarrow> (if 0 < tb_thread_count b then Drain_Wait else Drop_Yield, b)
     | Drop_Yield \<Rightarrow> (Idle, b\<lparr>tb_thread_yield_count := tb_thread_yield_count b - 1\<rparr>)
     | p \<Rightarrow> (p, b))"

definition task_barrier_enter :: "task_barrier \<Rightarrow> tb_pc \<times> task_barrier" where
  "task_barrier_enter b = (Enter_Wait, b\<lparr>tb_thread_count := tb_thread_count b + 1\<rparr>)"

definition task_barrier_enter_timeout :: "u32 \<Rightarrow> task_barrier \<Rightarrow> tb_pc \<times> task_barrier" where
  "task_barrier_enter_timeout timeout b = (Timed_Wait (sint timeout), b\<lparr>tb_thread_count := tb_thread_count b + 1\<rparr>)"

definition task_barrier_exit :: "task_barrier \<Rightarrow> tb_pc \<times> task_barrier" where
  "task_barrier_exit b = (Yield_Wait, b\<lparr>tb_thread_yield_count := tb_thread_yield_count b + 1\<rparr>)"

type_synonym tb_state = "task_barrier \<times> (nat \<Rightarrow> tb_pc)"

text \<open>\<open>n\<close> threads that use one barrier for \<open>count\<close> of them.\<close>

inductive tb_step :: "nat \<Rightarrow> u32 \<Rightarrow> tb_state \<Rightarrow> tb_state \<Rightarrow> bool" for n count where
  tb_enter: "t < n \<Longrightarrow> pcs t = Idle \<Longrightarrow> task_barrier_enter b = (p, b') \<Longrightarrow> tb_step n count (b, pcs) (b', pcs(t := p))"
| tb_enter_timeout: "t < n \<Longrightarrow> pcs t = Idle \<Longrightarrow> task_barrier_enter_timeout us b = (p, b') \<Longrightarrow>
    tb_step n count (b, pcs) (b', pcs(t := p))"
| tb_exit: "t < n \<Longrightarrow> pcs t = Passed \<or> pcs t = Timed_Out \<Longrightarrow> task_barrier_exit b = (p, b') \<Longrightarrow>
    tb_step n count (b, pcs) (b', pcs(t := p))"
| tb_go: "t < n \<Longrightarrow> tb_next count (pcs t) b = (p, b') \<Longrightarrow> tb_step n count (b, pcs) (b', pcs(t := p))"

inductive_cases tb_stepE: "tb_step n count (b, pcs) st'"

end
