(* ===== verification/GV_Exclusion_Props.thy ===== *)
theory GV_Exclusion_Props
  imports GV_Exclusion
begin

text \<open>
  The invariant of the shared exclusion lock under all interleavings, mutual exclusion of the two groups, freedom
  from deadlock and the limit of its 8-bit count; what the task barrier promises, and how its reuse fails.
\<close>

section \<open>Counting threads\<close>

definition tcount :: "nat \<Rightarrow> ('a \<Rightarrow> bool) \<Rightarrow> (nat \<Rightarrow> 'a) \<Rightarrow> int" where
  "tcount n P f = int (card {t. t < n \<and> P (f t)})"

lemma tcount_upd:
  assumes "t < n"
  shows "tcount n P (f(t := x)) = tcount n P f + of_bool (P x) - of_bool (P (f t))"
proof -
  let ?R = "{s. s < n \<and> s \<noteq> t \<and> P (f s)}"
  have fin: "finite ?R" by simp
  have "{s. s < n \<and> P ((f(t := x)) s)} = (if P x then insert t ?R else ?R)" using assms by auto
  moreover have "{s. s < n \<and> P (f s)} = (if P (f t) then insert t ?R else ?R)" using assms by auto
  ultimately show ?thesis using fin by (simp add: tcount_def)
qed

lemma tcount_nonneg: "0 \<le> tcount n P f"
  by (simp add: tcount_def)

lemma tcount_pos: "t < n \<Longrightarrow> P (f t) \<Longrightarrow> 1 \<le> tcount n P f"
proof -
  assume "t < n" "P (f t)"
  then have "{t} \<subseteq> {s. s < n \<and> P (f s)}" by simp
  from card_mono [OF _ this] show ?thesis by (simp add: tcount_def)
qed

lemma tcount_le: "tcount n P f \<le> int n"
  using card_mono [of "{..<n}" "{t. t < n \<and> P (f t)}"] by (auto simp: tcount_def)

lemma tcount_ex: "0 < tcount n P f \<Longrightarrow> \<exists>t < n. P (f t)"
proof (rule ccontr)
  assume pos: "0 < tcount n P f" and none: "\<not> (\<exists>t < n. P (f t))"
  have "tcount n P f = 0" unfolding tcount_def using none by auto
  with pos show False by simp
qed

lemma tcount_none: "(\<And>t. t < n \<Longrightarrow> \<not> P (f t)) \<Longrightarrow> tcount n P f = 0"
  by (simp add: tcount_def)

section \<open>The invariant of the shared exclusion lock\<close>

fun leads :: "nat \<Rightarrow> sel_pc \<Rightarrow> bool" where
  "leads k (Enter_Branch g c) \<longleftrightarrow> g = k \<and> c = 1"
| "leads k (Sem_Down g) \<longleftrightarrow> g = k"
| "leads k (Relock g) \<longleftrightarrow> g = k"
| "leads k (Activate g) \<longleftrightarrow> g = k"
| "leads k p \<longleftrightarrow> False"

fun joins :: "nat \<Rightarrow> sel_pc \<Rightarrow> bool" where
  "joins k (Enter_Branch g c) \<longleftrightarrow> g = k \<and> c \<noteq> 1"
| "joins k p \<longleftrightarrow> False"

fun waits :: "nat \<Rightarrow> sel_pc \<Rightarrow> bool" where
  "waits k (Gate_Down g) \<longleftrightarrow> g = k"
| "waits k p \<longleftrightarrow> False"

fun passed :: "nat \<Rightarrow> sel_pc \<Rightarrow> bool" where
  "passed k (Count_Waiters g) \<longleftrightarrow> g = k"
| "passed k (Wake g w) \<longleftrightarrow> g = k"
| "passed k (Inside g) \<longleftrightarrow> g = k"
| "passed k (Exit_Lock g) \<longleftrightarrow> g = k"
| "passed k (Exit_Dec g) \<longleftrightarrow> g = k"
| "passed k p \<longleftrightarrow> False"

fun owns :: "nat \<Rightarrow> sel_pc \<Rightarrow> bool" where
  "owns k (Relock g) \<longleftrightarrow> g = k"
| "owns k (Activate g) \<longleftrightarrow> g = k"
| "owns k (Sem_Up g) \<longleftrightarrow> g = k"
| "owns k p \<longleftrightarrow> False"

fun holds :: "sel_pc \<Rightarrow> bool" where
  "holds (Enter_Inc g) \<longleftrightarrow> True"
| "holds (Enter_Branch g c) \<longleftrightarrow> True"
| "holds (Activate g) \<longleftrightarrow> True"
| "holds (Count_Waiters g) \<longleftrightarrow> True"
| "holds (Wake g w) \<longleftrightarrow> True"
| "holds (Exit_Dec g) \<longleftrightarrow> True"
| "holds (Exit_Branch g c) \<longleftrightarrow> True"
| "holds (Sem_Up g) \<longleftrightarrow> True"
| "holds (Exit_Unlock g) \<longleftrightarrow> True"
| "holds p \<longleftrightarrow> False"

fun group_ok :: "sel_pc \<Rightarrow> bool" where
  "group_ok Outside \<longleftrightarrow> True"
| "group_ok (Enter_Lock g) \<longleftrightarrow> g < 2"
| "group_ok (Enter_Inc g) \<longleftrightarrow> g < 2"
| "group_ok (Enter_Branch g c) \<longleftrightarrow> g < 2"
| "group_ok (Sem_Down g) \<longleftrightarrow> g < 2"
| "group_ok (Relock g) \<longleftrightarrow> g < 2"
| "group_ok (Activate g) \<longleftrightarrow> g < 2"
| "group_ok (Count_Waiters g) \<longleftrightarrow> g < 2"
| "group_ok (Wake g c) \<longleftrightarrow> g < 2"
| "group_ok (Gate_Down g) \<longleftrightarrow> g < 2"
| "group_ok (Inside g) \<longleftrightarrow> g < 2"
| "group_ok (Exit_Lock g) \<longleftrightarrow> g < 2"
| "group_ok (Exit_Dec g) \<longleftrightarrow> g < 2"
| "group_ok (Exit_Branch g c) \<longleftrightarrow> g < 2"
| "group_ok (Sem_Up g) \<longleftrightarrow> g < 2"
| "group_ok (Exit_Unlock g) \<longleftrightarrow> g < 2"

text \<open>The statement of the thread that holds the mutex.\<close>

definition holder :: "shared_exclusion_lock \<Rightarrow> (nat \<Rightarrow> sel_pc) \<Rightarrow> sel_pc" where
  "holder l pcs = (case sel_lock l of None \<Rightarrow> Outside | Some t \<Rightarrow> pcs t)"

definition mutex_ok :: "nat \<Rightarrow> shared_exclusion_lock \<Rightarrow> (nat \<Rightarrow> sel_pc) \<Rightarrow> bool" where
  "mutex_ok n l pcs \<longleftrightarrow> (\<forall>t < n. holds (pcs t) \<longleftrightarrow> sel_lock l = Some t) \<and> (\<forall>t. sel_lock l = Some t \<longrightarrow> t < n)"

text \<open>What is still to be signalled at the gate of a group.\<close>

fun pending :: "nat \<Rightarrow> int \<Rightarrow> sel_pc \<Rightarrow> int" where
  "pending k w (Count_Waiters g) = (if g = k then w else 0)"
| "pending k w (Wake g c) = (if g = k then uint c else 0)"
| "pending k w p = 0"

fun local_ok :: "nat \<Rightarrow> int \<Rightarrow> bool \<Rightarrow> nat \<Rightarrow> int \<Rightarrow> sel_pc \<Rightarrow> bool" where
  "local_ok k c a gate p (Enter_Branch g x) \<longleftrightarrow> (g = k \<longrightarrow> x = word_of_int c)"
| "local_ok k c a gate p (Exit_Branch g x) \<longleftrightarrow> (g = k \<longrightarrow> x = word_of_int c \<and> a)"
| "local_ok k c a gate p (Count_Waiters g) \<longleftrightarrow> (g = k \<longrightarrow> a \<and> gate = 0 \<and> p = 1)"
| "local_ok k c a gate p (Wake g x) \<longleftrightarrow> (g = k \<longrightarrow> a)"
| "local_ok k c a gate p (Sem_Up g) \<longleftrightarrow> (g = k \<longrightarrow> \<not> a)"
| "local_ok k c a gate p q \<longleftrightarrow> True"

text \<open>\<open>L\<close> threads lead, \<open>W\<close> wait at the gate and \<open>P\<close> have passed; \<open>c\<close> is the count, \<open>a\<close> the flag, \<open>G\<close> the gate
  and \<open>h\<close> the statement of the holder of the mutex.\<close>

definition quant_ok :: "nat \<Rightarrow> int \<Rightarrow> int \<Rightarrow> int \<Rightarrow> int \<Rightarrow> bool \<Rightarrow> nat \<Rightarrow> sel_pc \<Rightarrow> bool" where
  "quant_ok k L W P c a G h \<longleftrightarrow> c = L + of_bool (joins k h) + W + P \<and>
     (if a then L = 0 \<and> int G + pending k W h = W \<and> (c = 0 \<longrightarrow> h = Exit_Branch k 0)
      else P = 0 \<and> G = 0 \<and> (c = 0 \<or> L = 1)) \<and>
     local_ok k c a G P h"

definition grp_ok :: "nat \<Rightarrow> nat \<Rightarrow> shared_exclusion_lock \<Rightarrow> (nat \<Rightarrow> sel_pc) \<Rightarrow> bool" where
  "grp_ok n k l pcs \<longleftrightarrow> quant_ok k (tcount n (leads k) pcs) (tcount n (waits k) pcs) (tcount n (passed k) pcs)
     (sel_count l k) (sel_active l k) (sel_gate l k) (holder l pcs)"

definition sem_ok :: "nat \<Rightarrow> shared_exclusion_lock \<Rightarrow> (nat \<Rightarrow> sel_pc) \<Rightarrow> bool" where
  "sem_ok n l pcs \<longleftrightarrow> int (sel_sem l) + of_bool (sel_active l 0) + tcount n (owns 0) pcs +
     of_bool (sel_active l (Suc 0)) + tcount n (owns (Suc 0)) pcs = 1"

definition sel_inv :: "nat \<Rightarrow> sel_state \<Rightarrow> bool" where
  "sel_inv n st \<longleftrightarrow> (case st of (l, pcs) \<Rightarrow> (\<forall>t < n. group_ok (pcs t)) \<and> mutex_ok n l pcs \<and>
     (\<forall>k < 2. grp_ok n k l pcs) \<and> sem_ok n l pcs)"

lemma sel_start_inv: "sel_inv n (sel_start, \<lambda>_. Outside)"
  by (simp add: sel_inv_def sel_start_def mutex_ok_def grp_ok_def quant_ok_def sem_ok_def holder_def tcount_def)

lemma group_ok_go:
  assumes "group_ok p" "sel_next t p l = Some (p', l')"
  shows "group_ok p'"
  using assms by (cases p) (auto simp: sel_next_def split: if_splits)

lemma mutex_ok_go:
  assumes "mutex_ok n l pcs" "t < n" "sel_next t (pcs t) l = Some (p', l')"
  shows "mutex_ok n l' (pcs(t := p'))"
  using assms by (cases "pcs t") (auto simp: mutex_ok_def sel_next_def split: if_splits)

text \<open>A step of a thread of the group \<open>g\<close> does nothing to the other group.\<close>

fun group_of :: "sel_pc \<Rightarrow> nat" where
  "group_of Outside = 2"
| "group_of (Enter_Lock g) = g"
| "group_of (Enter_Inc g) = g"
| "group_of (Enter_Branch g c) = g"
| "group_of (Sem_Down g) = g"
| "group_of (Relock g) = g"
| "group_of (Activate g) = g"
| "group_of (Count_Waiters g) = g"
| "group_of (Wake g c) = g"
| "group_of (Gate_Down g) = g"
| "group_of (Inside g) = g"
| "group_of (Exit_Lock g) = g"
| "group_of (Exit_Dec g) = g"
| "group_of (Exit_Branch g c) = g"
| "group_of (Sem_Up g) = g"
| "group_of (Exit_Unlock g) = g"

lemma not_group:
  assumes "group_of p \<noteq> k"
  shows "\<not> leads k p" "\<not> joins k p" "\<not> waits k p" "\<not> passed k p" "\<not> owns k p"
    "pending k w p = 0" "local_ok k c a gate q p" "p \<noteq> Exit_Branch k x"
  using assms by (cases p; simp)+

lemma next_group:
  assumes "sel_next t p l = Some (p', l')"
  shows "group_of p' = group_of p \<or> p' = Outside"
    "k \<noteq> group_of p \<Longrightarrow> sel_count l' k = sel_count l k \<and> sel_active l' k = sel_active l k \<and> sel_gate l' k = sel_gate l k"
  using assms by (cases p; auto simp: sel_next_def split: if_splits)+

lemma tcount_other:
  assumes "t < n" "group_of (pcs t) \<noteq> k" "group_of p' \<noteq> k"
  shows "tcount n (leads k) (pcs(t := p')) = tcount n (leads k) pcs"
    "tcount n (waits k) (pcs(t := p')) = tcount n (waits k) pcs"
    "tcount n (passed k) (pcs(t := p')) = tcount n (passed k) pcs"
    "tcount n (owns k) (pcs(t := p')) = tcount n (owns k) pcs"
  using assms by (simp_all add: tcount_upd not_group)

lemma grp_ok_other:
  assumes "grp_ok n k l pcs" "mutex_ok n l pcs" "t < n" "sel_next t (pcs t) l = Some (p', l')"
    and "k \<noteq> group_of (pcs t)" "k < 2"
  shows "grp_ok n k l' (pcs(t := p'))"
proof -
  have g': "group_of p' \<noteq> k" using next_group(1) [OF assms(4)] assms(5,6) by auto
  have g: "group_of (pcs t) \<noteq> k" using assms(5) by simp
  note eq = tcount_other [of t n pcs k p', OF assms(3) g g'] next_group(2) [OF assms(4,5)]
  have h': "holder l' (pcs(t := p')) = holder l pcs \<or>
      group_of (holder l pcs) \<noteq> k \<and> group_of (holder l' (pcs(t := p'))) \<noteq> k"
  proof (cases "sel_lock l' = sel_lock l \<and> sel_lock l \<noteq> Some t")
    case True
    then show ?thesis by (auto simp: holder_def split: option.splits)
  next
    case False
    have "sel_lock l' = Some t \<or> sel_lock l' = None \<or> sel_lock l' = sel_lock l"
      using assms(4) by (cases "pcs t") (auto simp: sel_next_def split: if_splits)
    moreover have "sel_lock l = None \<or> sel_lock l = Some t" if "sel_lock l' \<noteq> sel_lock l"
      using assms(2,3,4) that by (cases "pcs t") (auto simp: sel_next_def mutex_ok_def split: if_splits)
    ultimately show ?thesis
      using False g' assms(5,6) by (auto simp: holder_def split: option.splits)
  qed
  then show ?thesis
  proof
    assume "holder l' (pcs(t := p')) = holder l pcs"
    with assms(1) show ?thesis by (simp add: grp_ok_def eq)
  next
    assume "group_of (holder l pcs) \<noteq> k \<and> group_of (holder l' (pcs(t := p'))) \<noteq> k"
    with assms(1) show ?thesis unfolding grp_ok_def quant_ok_def eq by (auto simp: eq not_group split: if_splits)
  qed
qed

lemma u8_small: "0 \<le> c \<Longrightarrow> c < 256 \<Longrightarrow> uint (word_of_int c :: u8) = c"
  by (simp add: uint_word_of_int take_bit_int_eq_self)

lemma u8_eq: "0 \<le> c \<Longrightarrow> c < 256 \<Longrightarrow> (word_of_int c :: u8) = 1 \<longleftrightarrow> c = 1"
  "0 \<le> c \<Longrightarrow> c < 256 \<Longrightarrow> (word_of_int c :: u8) = 0 \<longleftrightarrow> c = 0"
  using u8_small [of c] by auto

lemma tcount_sum:
  assumes "\<And>p. \<not> (P p \<and> Q p)"
  shows "tcount n P f + tcount n Q f = tcount n (\<lambda>p. P p \<or> Q p) f"
proof -
  have "{t. t < n \<and> (P (f t) \<or> Q (f t))} = {t. t < n \<and> P (f t)} \<union> {t. t < n \<and> Q (f t)}" by auto
  moreover have "card ({t. t < n \<and> P (f t)} \<union> {t. t < n \<and> Q (f t)}) = card {t. t < n \<and> P (f t)} + card {t. t < n \<and> Q (f t)}"
    using assms by (intro card_Un_disjoint) auto
  ultimately show ?thesis by (simp add: tcount_def)
qed

lemma count_bound:
  assumes "grp_ok n k l pcs" "mutex_ok n l pcs"
  shows "0 \<le> sel_count l k" "sel_count l k \<le> tcount n (\<lambda>p. ((leads k p \<or> waits k p) \<or> passed k p) \<or> joins k p) pcs"
proof -
  let ?Q = "\<lambda>p. ((leads k p \<or> waits k p) \<or> passed k p) \<or> joins k p"
  have "tcount n (leads k) pcs + tcount n (waits k) pcs + tcount n (passed k) pcs + tcount n (joins k) pcs = tcount n ?Q pcs"
  proof -
    have "\<not> (leads k p \<and> waits k p)" "\<not> ((leads k p \<or> waits k p) \<and> passed k p)"
      "\<not> (((leads k p \<or> waits k p) \<or> passed k p) \<and> joins k p)" for p
      by (cases p; simp)+
    then have "tcount n (leads k) pcs + tcount n (waits k) pcs = tcount n (\<lambda>p. leads k p \<or> waits k p) pcs"
      "tcount n (\<lambda>p. leads k p \<or> waits k p) pcs + tcount n (passed k) pcs = tcount n (\<lambda>p. (leads k p \<or> waits k p) \<or> passed k p) pcs"
      "tcount n (\<lambda>p. (leads k p \<or> waits k p) \<or> passed k p) pcs + tcount n (joins k) pcs = tcount n ?Q pcs"
      by (intro tcount_sum, blast)+
    then show ?thesis by simp
  qed
  moreover have "of_bool (joins k (holder l pcs)) \<le> tcount n (joins k) pcs"
  proof (cases "joins k (holder l pcs)")
    case True
    then obtain t where "sel_lock l = Some t" "joins k (pcs t)" by (auto simp: holder_def split: option.splits)
    then have "1 \<le> tcount n (joins k) pcs" using assms(2) by (intro tcount_pos) (auto simp: mutex_ok_def)
    then show ?thesis by simp
  qed (simp add: tcount_nonneg)
  moreover note tcount_nonneg [of n "leads k" pcs] tcount_nonneg [of n "waits k" pcs] tcount_nonneg [of n "passed k" pcs]
  ultimately show "0 \<le> sel_count l k" "sel_count l k \<le> tcount n ?Q pcs"
    using assms(1) unfolding grp_ok_def quant_ok_def by (cases "joins k (holder l pcs)"; auto)+
qed

lemma tcount_less: "t < n \<Longrightarrow> \<not> P (f t) \<Longrightarrow> tcount n P f < int n"
  using psubset_card_mono [of "{..<n}" "{t. t < n \<and> P (f t)}"] by (auto simp: tcount_def)

lemma pending_other: "h \<noteq> Count_Waiters k \<Longrightarrow> pending k w h = pending k w' h"
  by (cases h) auto

lemma local_ok_other: "h \<noteq> Count_Waiters k \<Longrightarrow> local_ok k c a G P h = local_ok k c a G' P' h"
  by (cases h) auto

lemma quant_gate:
  assumes q: "quant_ok k L W P c True G h" and G: "0 < G" and nc: "h \<noteq> Count_Waiters k"
  shows "quant_ok k L (W - 1) (P + 1) c True (G - 1) h"
proof -
  have c: "c = L + of_bool (joins k h) + W + P" and L: "L = 0" and W: "int G + pending k W h = W"
    and z: "c = 0 \<longrightarrow> h = Exit_Branch k 0" and lo: "local_ok k c True G P h"
    using q unfolding quant_ok_def if_True by blast+
  have "c = L + of_bool (joins k h) + (W - 1) + (P + 1)" using c by linarith
  moreover have "int (G - 1) + pending k (W - 1) h = W - 1"
    using W G pending_other [OF nc, of "W - 1" W] by linarith
  moreover have "local_ok k c True (G - 1) (P + 1) h"
    using lo by (simp only: local_ok_other [OF nc, of c True "G - 1" "P + 1" G P])
  ultimately show ?thesis using L z unfolding quant_ok_def if_True by blast
qed

lemma quant_exit:
  assumes "quant_ok k L W P c a G (Exit_Branch k w)" "c \<noteq> 0"
  shows "quant_ok k L W P c a G (Exit_Unlock k)"
  using assms by (cases a) (simp_all add: quant_ok_def)

lemma grp_okI:
  assumes "t < n"
    and "quant_ok k (tcount n (leads k) pcs + of_bool (leads k p') - of_bool (leads k (pcs t)))
      (tcount n (waits k) pcs + of_bool (waits k p') - of_bool (waits k (pcs t)))
      (tcount n (passed k) pcs + of_bool (passed k p') - of_bool (passed k (pcs t)))
      (sel_count l' k) (sel_active l' k) (sel_gate l' k) (holder l' (pcs(t := p')))"
  shows "grp_ok n k l' (pcs(t := p'))"
  using assms(2) by (simp only: grp_ok_def tcount_upd [OF assms(1)])

lemma grp_ok_own:
  assumes g: "grp_ok n k l pcs" and m: "mutex_ok n l pcs" and t: "t < n" and s: "sel_next t (pcs t) l = Some (p', l')"
    and k: "group_of (pcs t) = k" "k < 2" and n: "n < 256"
  shows "grp_ok n k l' (pcs(t := p'))"
proof -
  have cb: "0 \<le> sel_count l k" "sel_count l k < 256" using count_bound [OF g m] n tcount_le [of n "\<lambda>p. ((leads k p \<or> waits k p) \<or> passed k p) \<or> joins k p" pcs] by linarith+
  note nn = tcount_nonneg [of n "leads k" pcs] tcount_nonneg [of n "waits k" pcs] tcount_nonneg [of n "passed k" pcs]
  have pos: "leads k (pcs t) \<Longrightarrow> 1 \<le> tcount n (leads k) pcs" "waits k (pcs t) \<Longrightarrow> 1 \<le> tcount n (waits k) pcs"
    "passed k (pcs t) \<Longrightarrow> 1 \<le> tcount n (passed k) pcs"
    using tcount_pos [OF t] by blast+
  have hold: "holds (pcs t) \<longleftrightarrow> sel_lock l = Some t" using m t by (simp add: mutex_ok_def)
  let ?L = "tcount n (leads k) pcs" and ?W = "tcount n (waits k) pcs" and ?P = "tcount n (passed k) pcs"
    and ?c = "sel_count l k" and ?a = "sel_active l k" and ?G = "sel_gate l k" and ?h = "holder l pcs"
  have q: "quant_ok k ?L ?W ?P ?c ?a ?G ?h" using g by (simp add: grp_ok_def)
  show ?thesis
  proof (cases "pcs t")
    case (Enter_Lock x)
    with s k(1) hold have e: "p' = Enter_Inc k" "l' = l\<lparr>sel_lock := Some t\<rparr>" and h: "?h = Outside"
      by (auto simp: sel_next_def holder_def split: if_splits)
    have H: "holder l' (pcs(t := p')) = Enter_Inc k"
      using Enter_Lock k(1) hold by (simp add: e holder_def)
    show ?thesis
      by (rule grp_okI [OF t], unfold H) (use q h Enter_Lock k(1) cb nn pos in \<open>auto simp: e quant_ok_def split: if_splits\<close>)
  next
    case (Enter_Inc x)
    define w :: u8 where "w = word_of_int (?c + 1)"
    have "?c < int n"
      using count_bound(2) [OF g m] tcount_less [OF t, of "\<lambda>p. ((leads k p \<or> waits k p) \<or> passed k p) \<or> joins k p" pcs] Enter_Inc
      by simp
    then have "0 \<le> ?c + 1" "?c + 1 < 256" using cb n by linarith+
    from u8_eq(1) [OF this] have w: "w = 1 \<longleftrightarrow> ?c = 0" by (simp add: w_def)
    from s k(1) hold Enter_Inc have e: "p' = Enter_Branch k w" "l' = l\<lparr>sel_count := (sel_count l)(k := ?c + 1)\<rparr>" and h: "?h = Enter_Inc k"
      by (auto simp: sel_next_def holder_def w_def split: if_splits)
    have H: "holder l' (pcs(t := p')) = Enter_Branch k w"
      using Enter_Inc k(1) hold by (simp add: e holder_def)
    have "local_ok k (?c + 1) ?a ?G P (Enter_Branch k w)" for P by (simp add: w_def)
    then show ?thesis
      by (intro grp_okI [OF t], unfold H) (use q h Enter_Inc k(1) cb nn w in \<open>auto simp: e quant_ok_def split: if_splits\<close>)
  next
    case (Enter_Branch x count)
    with s k(1) hold have e: "p' = (if count = 1 then Sem_Down k else if \<not> ?a then Gate_Down k else Inside k)" "l' = l\<lparr>sel_lock := None\<rparr>" and h: "?h = Enter_Branch k count"
      by (auto simp: sel_next_def holder_def split: if_splits)
    have H: "holder l' (pcs(t := p')) = Outside" by (simp add: e(2) holder_def)
    have "local_ok k ?c ?a ?G ?P (Enter_Branch k count)" using q unfolding h quant_ok_def by blast
    then have "count = word_of_int ?c" by simp
    then have cnt: "count = 1 \<longleftrightarrow> ?c = 1" by (simp only: u8_eq(1) [OF cb])
    show ?thesis
    proof (cases "count = 1")
      case True
      with e(1) have p: "p' = Sem_Down k" by simp
      show ?thesis
        by (rule grp_okI [OF t], unfold p H [unfolded p]) (use q h Enter_Branch k(1) nn pos True cnt in \<open>auto simp: e quant_ok_def split: if_splits\<close>)
    next
      case False
      with e(1) have p: "p' = (if \<not> ?a then Gate_Down k else Inside k)" by simp
      show ?thesis
        by (rule grp_okI [OF t], unfold p H [unfolded p]) (use q h Enter_Branch k(1) nn pos False cnt in \<open>auto simp: e quant_ok_def split: if_splits\<close>)
    qed
  next
    case (Sem_Down x)
    with s k(1) hold have e: "p' = Relock k" "l' = l\<lparr>sel_sem := sel_sem l - 1\<rparr>"
      by (auto simp: sel_next_def holder_def split: if_splits)
    have H: "holder l' (pcs(t := p')) = ?h"
      using Sem_Down k(1) hold by (simp add: e holder_def split: option.split)
    show ?thesis
      by (rule grp_okI [OF t], unfold H) (use q Sem_Down k(1) in \<open>simp add: e\<close>)
  next
    case (Relock x)
    with s k(1) hold have e: "p' = Activate k" "l' = l\<lparr>sel_lock := Some t\<rparr>" and h: "?h = Outside"
      by (auto simp: sel_next_def holder_def split: if_splits)
    have H: "holder l' (pcs(t := p')) = Activate k"
      using Relock k(1) hold by (simp add: e holder_def)
    show ?thesis
      by (rule grp_okI [OF t], unfold H) (use q h Relock k(1) cb nn pos in \<open>auto simp: e quant_ok_def split: if_splits\<close>)
  next
    case (Activate x)
    with s k(1) hold have e: "p' = Count_Waiters k" "l' = l\<lparr>sel_active := (sel_active l)(k := True)\<rparr>" and h: "?h = Activate k"
      by (auto simp: sel_next_def holder_def split: if_splits)
    have H: "holder l' (pcs(t := p')) = Count_Waiters k"
      using Activate k(1) hold by (simp add: e holder_def)
    show ?thesis
      by (rule grp_okI [OF t], unfold H) (use q h Activate k(1) cb nn pos in \<open>auto simp: e quant_ok_def split: if_splits\<close>)
  next
    case (Count_Waiters x)
    with s k(1) hold have e: "p' = Wake k (word_of_int (?c - 1))" "l' = l" and h: "?h = Count_Waiters k"
      by (auto simp: sel_next_def holder_def split: if_splits)
    have H: "holder l' (pcs(t := p')) = Wake k (word_of_int (?c - 1))"
      using Count_Waiters k(1) hold by (simp add: e holder_def)
    have "uint (word_of_int ?W :: u8) = ?W"
      using q h cb nn by (intro u8_small) (auto simp: quant_ok_def split: if_splits)
    then show ?thesis
      by (intro grp_okI [OF t], unfold H) (use q h Count_Waiters k(1) cb nn pos in \<open>auto simp: e quant_ok_def split: if_splits\<close>)
  next
    case (Gate_Down x)
    with s k(1) hold have e: "p' = Inside k" "l' = l\<lparr>sel_gate := (sel_gate l)(k := ?G - 1)\<rparr>"
      by (auto simp: sel_next_def holder_def split: if_splits)
    have H: "holder l' (pcs(t := p')) = ?h"
      using Gate_Down k(1) hold by (simp add: e holder_def split: option.split)
    have G: "0 < ?G" using s k(1) Gate_Down by (auto simp: sel_next_def split: if_splits)
    then have a: ?a using q by (auto simp: quant_ok_def split: if_splits)
    have nc: "?h \<noteq> Count_Waiters k"
    proof
      assume "?h = Count_Waiters k"
      then have "local_ok k ?c ?a ?G ?P (Count_Waiters k)" using q unfolding quant_ok_def by simp
      with G show False by simp
    qed
    have "quant_ok k ?L (?W - 1) (?P + 1) ?c ?a (?G - 1) ?h"
      using quant_gate [OF _ G nc] q a by simp
    then show ?thesis
      by (intro grp_okI [OF t], unfold H) (use Gate_Down k(1) in \<open>simp add: e\<close>)
  next
    case (Exit_Lock x)
    with s k(1) hold have e: "p' = Exit_Dec k" "l' = l\<lparr>sel_lock := Some t\<rparr>" and h: "?h = Outside"
      by (auto simp: sel_next_def holder_def split: if_splits)
    have H: "holder l' (pcs(t := p')) = Exit_Dec k"
      using Exit_Lock k(1) hold by (simp add: e holder_def)
    show ?thesis
      by (rule grp_okI [OF t], unfold H) (use q h Exit_Lock k(1) cb nn pos in \<open>auto simp: e quant_ok_def split: if_splits\<close>)
  next
    case (Exit_Dec x)
    define w :: u8 where "w = word_of_int (?c - 1)"
    from s k(1) hold Exit_Dec have e: "p' = Exit_Branch k w" "l' = l\<lparr>sel_count := (sel_count l)(k := ?c - 1)\<rparr>" and h: "?h = Exit_Dec k"
      by (auto simp: sel_next_def holder_def w_def split: if_splits)
    have H: "holder l' (pcs(t := p')) = Exit_Branch k w"
      using Exit_Dec k(1) hold by (simp add: e holder_def)
    have "1 \<le> ?P" using pos(3) Exit_Dec k(1) by simp
    then have a: ?a and q': "?c = ?W + ?P" "?L = 0" "int ?G = ?W"
      using q unfolding h quant_ok_def by (auto split: if_splits)
    have "local_ok k (?c - 1) True ?G (?P - 1) (Exit_Branch k w)" by (simp add: w_def)
    moreover have "w = 0" if "?c - 1 = 0" using that by (simp add: w_def)
    ultimately have "quant_ok k 0 ?W (?P - 1) (?c - 1) True ?G (Exit_Branch k w)"
      using q' unfolding quant_ok_def if_True by (intro conjI) (simp_all only: joins.simps of_bool_eq pending.simps, auto)
    then show ?thesis
      by (intro grp_okI [OF t], unfold H) (use a q'(2) Exit_Dec k(1) in \<open>simp add: e\<close>)
  next
    case (Sem_Up x)
    with s k(1) hold have e: "p' = Exit_Unlock k" "l' = l\<lparr>sel_sem := sel_sem l + 1\<rparr>" and h: "?h = Sem_Up k"
      by (auto simp: sel_next_def holder_def split: if_splits)
    have H: "holder l' (pcs(t := p')) = Exit_Unlock k"
      using Sem_Up k(1) hold by (simp add: e holder_def)
    show ?thesis
      by (rule grp_okI [OF t], unfold H) (use q h Sem_Up k(1) cb nn pos in \<open>auto simp: e quant_ok_def split: if_splits\<close>)
  next
    case (Exit_Unlock x)
    with s k(1) hold have e: "p' = Outside" "l' = l\<lparr>sel_lock := None\<rparr>" and h: "?h = Exit_Unlock k"
      by (auto simp: sel_next_def holder_def split: if_splits)
    have H: "holder l' (pcs(t := p')) = Outside"
      using Exit_Unlock k(1) hold by (simp add: e holder_def)
    show ?thesis
      by (rule grp_okI [OF t], unfold H) (use q h Exit_Unlock k(1) cb nn pos in \<open>auto simp: e quant_ok_def split: if_splits\<close>)
  next
    case (Wake x w)
    show ?thesis
    proof (cases "0 < w")
      case True
      with s k(1) hold Wake have e: "p' = Wake k (w - 1)" "l' = l\<lparr>sel_gate := (sel_gate l)(k := ?G + 1)\<rparr>" and h: "?h = Wake k w"
        by (auto simp: sel_next_def holder_def)
      have H: "holder l' (pcs(t := p')) = Wake k (w - 1)"
        using Wake k(1) hold by (simp add: e holder_def)
      have "uint (w - 1) = uint w - 1" using True by (simp add: uint_minus_simple_alt [symmetric] word_le_def word_less_def uint_sub_if')
      then show ?thesis
        by (intro grp_okI [OF t], unfold H) (use q h Wake k(1) in \<open>auto simp: e quant_ok_def split: if_splits\<close>)
    next
      case False
      then have w: "w = 0" by (simp add: word_gt_0)
      with s k(1) hold Wake have e: "p' = Inside k" "l' = l\<lparr>sel_lock := None\<rparr>" and h: "?h = Wake k 0"
        by (auto simp: sel_next_def holder_def)
      have H: "holder l' (pcs(t := p')) = Outside" by (simp add: e holder_def)
      show ?thesis
        by (rule grp_okI [OF t], unfold H) (use q h Wake k(1) in \<open>auto simp: e quant_ok_def split: if_splits\<close>)
    qed
  next
    case (Exit_Branch x w)
    show ?thesis
    proof (cases "w = 0")
      case True
      with s k(1) hold Exit_Branch have e: "p' = Sem_Up k" "l' = l\<lparr>sel_active := (sel_active l)(k := False)\<rparr>" and h: "?h = Exit_Branch k 0"
        by (auto simp: sel_next_def holder_def)
      have H: "holder l' (pcs(t := p')) = Sem_Up k"
        using Exit_Branch k(1) hold by (simp add: e holder_def)
      have "local_ok k ?c ?a ?G ?P (Exit_Branch k 0)" using q unfolding h quant_ok_def by blast
      then have "0 = (word_of_int ?c :: u8)" by simp
      then have "?c = 0" using u8_eq(2) [OF cb] by simp
      then show ?thesis
        by (intro grp_okI [OF t], unfold H) (use q h Exit_Branch k(1) nn in \<open>auto simp: e quant_ok_def split: if_splits\<close>)
    next
      case False
      with s k(1) hold Exit_Branch have e: "p' = Exit_Unlock k" "l' = l" and h: "?h = Exit_Branch k w"
        by (auto simp: sel_next_def holder_def)
      have H: "holder l' (pcs(t := p')) = Exit_Unlock k"
        using Exit_Branch k(1) hold by (simp add: e holder_def)
      have "local_ok k ?c ?a ?G ?P (Exit_Branch k w)" using q unfolding h quant_ok_def by blast
      then have "w = word_of_int ?c" by simp
      then have "?c \<noteq> 0" using False by auto
      with q have "quant_ok k ?L ?W ?P ?c ?a ?G (Exit_Unlock k)" unfolding h by (rule quant_exit)
      then show ?thesis
        by (intro grp_okI [OF t], unfold H) (use Exit_Branch k(1) in \<open>simp add: e\<close>)
    qed
  qed (use s k in \<open>simp_all add: sel_next_def\<close>)
qed

text \<open>The main semaphore: a group owns it from the down of its first thread to the up of its last.\<close>

definition own :: "nat \<Rightarrow> shared_exclusion_lock \<Rightarrow> (nat \<Rightarrow> sel_pc) \<Rightarrow> nat \<Rightarrow> int" where
  "own n l pcs k = of_bool (sel_active l k) + tcount n (owns k) pcs"

lemma sem_ok_own: "sem_ok n l pcs \<longleftrightarrow> int (sel_sem l) + own n l pcs 0 + own n l pcs (Suc 0) = 1"
  by (simp add: sem_ok_def own_def algebra_simps)

lemma own_nonneg: "0 \<le> own n l pcs k"
  using tcount_nonneg [of n "owns k" pcs] by (simp add: own_def)

lemma own_step:
  assumes g: "grp_ok n k l pcs" and m: "mutex_ok n l pcs" and t: "t < n" and s: "sel_next t (pcs t) l = Some (p', l')"
    and k: "group_of (pcs t) = k"
  shows "int (sel_sem l') + own n l' (pcs(t := p')) k = int (sel_sem l) + own n l pcs k"
proof -
  have q: "quant_ok k (tcount n (leads k) pcs) (tcount n (waits k) pcs) (tcount n (passed k) pcs)
      (sel_count l k) (sel_active l k) (sel_gate l k) (holder l pcs)"
    using g by (simp add: grp_ok_def)
  note up = own_def tcount_upd [OF t]
  show ?thesis
  proof (cases "pcs t")
    case (Activate x)
    have "1 \<le> tcount n (leads k) pcs" using Activate k t by (intro tcount_pos) auto
    then have "\<not> sel_active l k" using q by (auto simp: quant_ok_def)
    with s k Activate show ?thesis by (auto simp: sel_next_def up)
  next
    case (Exit_Branch x w)
    then have "sel_lock l = Some t" using m t by (auto simp: mutex_ok_def)
    then have "holder l pcs = Exit_Branch k w" using Exit_Branch k by (simp add: holder_def)
    then have "local_ok k (sel_count l k) (sel_active l k) (sel_gate l k) (tcount n (passed k) pcs) (Exit_Branch k w)"
      using q unfolding quant_ok_def by simp
    then have "sel_active l k" by simp
    with s k Exit_Branch show ?thesis by (cases "w = 0") (auto simp: sel_next_def up)
  qed (use s k in \<open>auto simp: sel_next_def up split: if_splits\<close>)
qed

lemma own_other:
  assumes "t < n" "sel_next t (pcs t) l = Some (p', l')" "k \<noteq> group_of (pcs t)" "k < 2"
  shows "own n l' (pcs(t := p')) k = own n l pcs k"
proof -
  have g': "group_of p' \<noteq> k" and g: "group_of (pcs t) \<noteq> k" using next_group(1) [OF assms(2)] assms(3,4) by auto
  show ?thesis
    using tcount_other(4) [of t n pcs k p', OF assms(1) g g'] next_group(2) [OF assms(2,3)] by (simp add: own_def)
qed

lemma sel_go_inv:
  assumes inv: "sel_inv n (l, pcs)" and t: "t < n" and s: "sel_next t (pcs t) l = Some (p', l')" and n: "n < 256"
  shows "sel_inv n (l', pcs(t := p'))"
proof -
  have g: "\<forall>t < n. group_ok (pcs t)" and m: "mutex_ok n l pcs" and q: "\<forall>k < 2. grp_ok n k l pcs" and o: "sem_ok n l pcs"
    using inv by (simp_all add: sel_inv_def)
  let ?k = "group_of (pcs t)"
  have "pcs t \<noteq> Outside" using s by (auto simp: sel_next_def)
  then have k: "?k < 2" using g t by (cases "pcs t") auto
  have "group_ok p'" using group_ok_go [OF _ s] g t by blast
  moreover have "grp_ok n k l' (pcs(t := p'))" if "k < 2" for k
    using grp_ok_own [OF _ m t s refl k n] grp_ok_other [OF _ m t s _ that] q that k by (cases "k = ?k") auto
  moreover have "sem_ok n l' (pcs(t := p'))"
  proof -
    have own: "int (sel_sem l') + own n l' (pcs(t := p')) ?k = int (sel_sem l) + own n l pcs ?k"
      using own_step [OF _ m t s refl] q k by blast
    have other: "own n l' (pcs(t := p')) j = own n l pcs j" if "j \<noteq> ?k" "j < 2" for j
      using own_other [of t n pcs l p' l' j, OF t s that] .
    consider "?k = 0" | "?k = Suc 0" using k by linarith
    then show ?thesis
    proof cases
      case 1 with own other [of "Suc 0"] o show ?thesis by (simp add: sem_ok_own)
    next
      case 2 with own other [of 0] o show ?thesis by (simp add: sem_ok_own)
    qed
  qed
  ultimately show ?thesis
    using g mutex_ok_go [OF m t s] by (simp add: sel_inv_def)
qed

text \<open>A call, and the way from inside to the exit, touch no shared memory.\<close>

lemma sel_local_inv:
  assumes inv: "sel_inv n (l, pcs)" and t: "t < n" and p: "\<not> holds (pcs t)" "\<not> holds p'" "group_ok p'"
    and same: "\<And>k. k < 2 \<Longrightarrow> leads k (pcs t) = leads k p' \<and> waits k (pcs t) = waits k p' \<and> passed k (pcs t) = passed k p' \<and> owns k (pcs t) = owns k p'"
  shows "sel_inv n (l, pcs(t := p'))"
proof -
  have m: "mutex_ok n l pcs" using inv by (simp add: sel_inv_def)
  then have "sel_lock l \<noteq> Some t" using t p(1) by (auto simp: mutex_ok_def)
  then have h: "holder l (pcs(t := p')) = holder l pcs" by (auto simp: holder_def split: option.split)
  have "mutex_ok n l (pcs(t := p'))" using m t p by (auto simp: mutex_ok_def)
  moreover have "grp_ok n k l (pcs(t := p'))" if "k < 2" for k
    using inv same [OF that] that by (simp add: sel_inv_def grp_ok_def h tcount_upd [OF t])
  moreover have "sem_ok n l (pcs(t := p'))"
    using inv same [of 0] same [of "Suc 0"] by (simp add: sel_inv_def sem_ok_def tcount_upd [OF t])
  ultimately show ?thesis using inv p(3) by (simp add: sel_inv_def)
qed

lemma sel_step_inv:
  assumes "sel_step n st st'" "sel_inv n st" "n < 256"
  shows "sel_inv n st'"
  using assms
proof (cases rule: sel_step.cases)
  case (sel_call t pcs l g)
  show ?thesis
  proof (cases "2 \<le> g")
    case True
    then show ?thesis using assms(2) sel_call by (auto simp: shared_exclusion_enter_def fun_upd_idem)
  next
    case False
    then show ?thesis using assms(2) sel_call by (auto simp: shared_exclusion_enter_def intro!: sel_local_inv)
  qed
next
  case (sel_leave t pcs g l)
  then have "g < 2" using assms(2) by (auto simp: sel_inv_def dest: spec [of _ t])
  then show ?thesis using assms(2) sel_leave by (auto simp: shared_exclusion_exit_def intro!: sel_local_inv)
next
  case (sel_go t pcs l p l')
  then show ?thesis using assms(2,3) sel_go_inv by auto
qed

lemma sel_steps_inv:
  assumes "(sel_step n)\<^sup>*\<^sup>* (sel_start, \<lambda>_. Outside) st" "n < 256"
  shows "sel_inv n st"
  using assms(1) by (induction rule: rtranclp_induct) (auto intro: sel_start_inv sel_step_inv [OF _ _ assms(2)])

lemma passed_active:
  assumes "sel_inv n (l, pcs)" "t < n" "passed g (pcs t)"
  shows "g < 2" "sel_active l g"
proof -
  have "group_ok (pcs t)" using assms(1,2) by (simp add: sel_inv_def)
  then show g: "g < 2" using assms(3) by (cases "pcs t") auto
  have "grp_ok n g l pcs" using assms(1) g by (simp add: sel_inv_def)
  moreover have "1 \<le> tcount n (passed g) pcs" using assms(2,3) by (rule tcount_pos)
  ultimately show "sel_active l g" by (auto simp: grp_ok_def quant_ok_def split: if_splits)
qed

lemma one_active:
  assumes "sel_inv n (l, pcs)" "sel_active l g" "sel_active l h" "g < 2" "h < 2"
  shows "g = h"
proof (rule ccontr)
  assume "g \<noteq> h"
  then have "sel_active l 0" "sel_active l (Suc 0)" using assms(2-5) by (auto simp: numeral_2_eq_2 less_Suc_eq)
  then show False
    using assms(1) tcount_nonneg [of n "owns 0" pcs] tcount_nonneg [of n "owns (Suc 0)" pcs] by (simp add: sel_inv_def sem_ok_def)
qed

lemma lock_free_quiet:
  assumes "sel_inv n (l, pcs)" "sel_lock l = None" "t < n"
  shows "\<not> holds (pcs t)"
  using assms by (auto simp: sel_inv_def mutex_ok_def)

text \<open>With the mutex free and every thread at one of the two semaphores, one of them can go on.\<close>

definition at_sem :: "sel_pc \<Rightarrow> bool" where
  "at_sem p \<longleftrightarrow> p = Outside \<or> (\<exists>g. p = Sem_Down g \<or> p = Gate_Down g)"

lemma at_sem_none:
  assumes "at_sem p" shows "\<not> passed k p" "\<not> owns k p" "\<not> joins k p"
  using assms by (auto simp: at_sem_def)

lemma semaphores_progress:
  assumes inv: "sel_inv n (l, pcs)" and free: "sel_lock l = None" and sem: "\<forall>t < n. at_sem (pcs t)"
    and t: "t < n" "pcs t \<noteq> Outside"
  shows "\<exists>s < n. sel_next s (pcs s) l \<noteq> None"
proof -
  have P: "tcount n (passed k) pcs = 0" and O: "tcount n (owns k) pcs = 0" for k
    using sem by (auto intro!: tcount_none dest: at_sem_none)
  have h: "holder l pcs = Outside" using free by (simp add: holder_def)
  obtain g where g: "pcs t = Sem_Down g \<or> pcs t = Gate_Down g" using sem t by (auto simp: at_sem_def)
  have "group_ok (pcs t)" using inv t by (simp add: sel_inv_def)
  then have g2: "g < 2" using g by auto
  have q: "quant_ok k (tcount n (leads k) pcs) (tcount n (waits k) pcs) 0 (sel_count l k) (sel_active l k) (sel_gate l k) Outside"
    if "k < 2" for k
    using inv that by (simp add: sel_inv_def grp_ok_def P h)
  have ex: "\<exists>s < n. pcs s = Sem_Down k" if L: "0 < tcount n (leads k) pcs" for k
  proof -
    obtain s where s: "s < n" "leads k (pcs s)" using tcount_ex [OF L] by blast
    with sem have "pcs s = Sem_Down k" by (auto simp: at_sem_def)
    with s show ?thesis by blast
  qed
  show ?thesis
  proof (cases "\<exists>k < 2. sel_active l k")
    case True
    then obtain k where k: "k < 2" "sel_active l k" by blast
    then have W: "0 < tcount n (waits k) pcs" "0 < sel_gate l k"
      using q [OF k(1)] tcount_nonneg [of n "waits k" pcs] by (auto simp: quant_ok_def)
    obtain s where s: "s < n" "waits k (pcs s)" using tcount_ex [OF W(1)] by blast
    then have "pcs s = Gate_Down k" by (cases "pcs s") auto
    with s W(2) show ?thesis by (auto simp: sel_next_def)
  next
    case False
    then have S: "0 < sel_sem l" using inv O [of 0] O [of "Suc 0"] by (simp add: sel_inv_def sem_ok_def)
    have "0 < tcount n (leads g) pcs"
    proof (cases "pcs t = Sem_Down g")
      case True
      then show ?thesis using tcount_pos [of t n "leads g" pcs] t by simp
    next
      case False
      then have "1 \<le> tcount n (waits g) pcs" using g t by (intro tcount_pos) auto
      then show ?thesis
        using q [OF g2] \<open>\<not> (\<exists>k < 2. sel_active l k)\<close> g2 tcount_nonneg [of n "leads g" pcs] by (auto simp: quant_ok_def)
    qed
    then obtain s where "s < n" "pcs s = Sem_Down g" using ex by blast
    with S show ?thesis by (auto simp: sel_next_def)
  qed
qed

lemma exclusion_progress:
  assumes inv: "sel_inv n (l, pcs)" and t: "t < n" "pcs t \<noteq> Outside"
  shows "\<exists>s < n. sel_next s (pcs s) l \<noteq> None \<or> (\<exists>g. pcs s = Inside g)"
proof (cases "sel_lock l")
  case (Some s)
  then have "s < n" "holds (pcs s)" using inv by (auto simp: sel_inv_def mutex_ok_def)
  then show ?thesis by (cases "pcs s") (auto simp: sel_next_def)
next
  case None
  show ?thesis
  proof (cases "\<forall>s < n. at_sem (pcs s)")
    case True
    then show ?thesis using semaphores_progress [OF inv None True t] by blast
  next
    case False
    then obtain s where s: "s < n" "\<not> at_sem (pcs s)" by blast
    then show ?thesis using lock_free_quiet [OF inv None s(1)] None
      by (cases "pcs s") (auto simp: at_sem_def sel_next_def)
  qed
qed

text \<open>C2. Mutual exclusion of the groups: with fewer than 256 threads, under every interleaving of
  \<^verbatim>\<open>shared_exclusion_enter\<close> and \<^verbatim>\<open>shared_exclusion_exit\<close>, two threads that have been let in and have not yet
  left are of the same group.\<close>

theorem exclusion_mutual:
  assumes "n < 256" "(sel_step n)\<^sup>*\<^sup>* (sel_start, \<lambda>_. Outside) (l, pcs)"
    and "s < n" "t < n" "passed g (pcs s)" "passed h (pcs t)"
  shows "g = h"
  using sel_steps_inv [OF assms(2,1)] passed_active one_active assms(3-6) by metis

text \<open>C8. Freedom from deadlock: with fewer than 256 threads, whenever a thread is in the middle of a call,
  some thread can go on or is inside and free to leave.\<close>

theorem exclusion_no_deadlock:
  assumes "n < 256" "(sel_step n)\<^sup>*\<^sup>* (sel_start, \<lambda>_. Outside) (l, pcs)" "t < n" "pcs t \<noteq> Outside"
  shows "\<exists>s < n. sel_next s (pcs s) l \<noteq> None \<or> (\<exists>g. pcs s = Inside g)"
  using exclusion_progress [OF sel_steps_inv [OF assms(2,1)] assms(3,4)] .

text \<open>A schedule: each entry names a thread, which calls for the given group when it is outside, leaves
  when it is inside, and otherwise goes on if it can.\<close>

definition sel_turn :: "nat \<times> nat \<Rightarrow> sel_state \<Rightarrow> sel_state" where
  "sel_turn a st = (case (a, st) of ((t, g), l, pcs) \<Rightarrow> (case pcs t of
       Outside \<Rightarrow> (l, pcs(t := shared_exclusion_enter g))
     | Inside x \<Rightarrow> (l, pcs(t := shared_exclusion_exit x))
     | p \<Rightarrow> (case sel_next t p l of None \<Rightarrow> (l, pcs) | Some (p', l') \<Rightarrow> (l', pcs(t := p')))))"

lemma sel_turn_step:
  assumes "fst a < n"
  shows "(sel_step n)\<^sup>*\<^sup>* st (sel_turn a st)"
proof -
  obtain t g where a: "a = (t, g)" by fastforce
  obtain l pcs where st: "st = (l, pcs)" by fastforce
  have t: "t < n" using assms a by simp
  show ?thesis
  proof (cases "pcs t = Outside \<or> (\<exists>x. pcs t = Inside x)")
    case True
    then show ?thesis using sel_call [OF t, of pcs l g] sel_leave [OF t, of pcs _ l] by (auto simp: sel_turn_def a st)
  next
    case False
    then have e: "sel_turn a st = (case sel_next t (pcs t) l of None \<Rightarrow> (l, pcs) | Some (p', l') \<Rightarrow> (l', pcs(t := p')))"
      by (cases "pcs t") (simp_all add: sel_turn_def a st)
    show ?thesis
    proof (cases "sel_next t (pcs t) l")
      case None
      then have "sel_turn a st = st" by (simp add: e) (simp add: st)
      then show ?thesis by simp
    next
      case (Some x)
      then show ?thesis using sel_go [OF t, of pcs l "fst x" "snd x"] by (cases x) (auto simp: e [unfolded st] st)
    qed
  qed
qed

lemma sel_turns_step:
  assumes "\<forall>a \<in> set as. fst a < n"
  shows "(sel_step n)\<^sup>*\<^sup>* st (fold sel_turn as st)"
  using assms
proof (induction as arbitrary: st)
  case (Cons a as)
  from Cons.prems have "fst a < n" by simp
  from rtranclp_trans [OF sel_turn_step [OF this] Cons.IH] Cons.prems show ?case by simp
qed simp

lemma times:
  "replicate 4 x = [x, x, x, x]" "replicate 6 x = [x, x, x, x, x, x]" "replicate 9 x = [x, x, x, x, x, x, x, x, x]"
  by (simp_all add: eval_nat_numeral)

lemmas turn_simps = sel_turn_def sel_next_def shared_exclusion_enter_def shared_exclusion_exit_def times

text \<open>Two threads go in together while the third waits.\<close>

definition pair_schedule :: "(nat \<times> nat) list" where
  "pair_schedule = replicate 4 (0, 0) @ replicate 4 (1, 0) @ replicate 4 (2, 1) @ replicate 6 (0, 0) @ [(1, 0)]"

lemma pair_state:
  "sel_active (fst (fold sel_turn pair_schedule (sel_start, \<lambda>_. Outside))) 0"
  "snd (fold sel_turn pair_schedule (sel_start, \<lambda>_. Outside)) 0 = Inside 0"
  "snd (fold sel_turn pair_schedule (sel_start, \<lambda>_. Outside)) (Suc 0) = Inside 0"
  "snd (fold sel_turn pair_schedule (sel_start, \<lambda>_. Outside)) 2 = Sem_Down 1"
  by (simp_all add: pair_schedule_def turn_simps sel_start_def)

lemma pair_reached: "(sel_step 3)\<^sup>*\<^sup>* (sel_start, \<lambda>_. Outside) (fold sel_turn pair_schedule (sel_start, \<lambda>_. Outside))"
  by (rule sel_turns_step) (auto simp: pair_schedule_def)

text \<open>A crowd of \<open>k\<close> threads of group 0 inside.\<close>

definition crowd :: "nat \<Rightarrow> sel_state" where
  "crowd k = (\<lparr>sel_sem = 0, sel_gate = (\<lambda>_. 0), sel_count = (\<lambda>_. 0)(0 := int k), sel_active = (\<lambda>_. False)(0 := True),
     sel_lock = None\<rparr>, \<lambda>t. if t < k then Inside 0 else Outside)"

lemma crowd_first: "fold sel_turn (replicate 9 (0, 0)) (sel_start, \<lambda>_. Outside) = crowd 1"
  by (auto simp: crowd_def turn_simps sel_start_def fun_eq_iff)

lemma crowd_more:
  assumes "0 < k" "(word_of_int (int k + 1) :: u8) \<noteq> 1"
  shows "fold sel_turn (replicate 4 (k, 0)) (crowd k) = crowd (Suc k)"
  using assms by (auto simp: crowd_def turn_simps fun_eq_iff)

lemma crowd_reached:
  assumes "k < 256" "k < n"
  shows "(sel_step n)\<^sup>*\<^sup>* (sel_start, \<lambda>_. Outside) (crowd (Suc k))"
  using assms
proof (induction k)
  case 0
  have "(sel_step n)\<^sup>*\<^sup>* (sel_start, \<lambda>_. Outside) (fold sel_turn (replicate 9 (0, 0)) (sel_start, \<lambda>_. Outside))"
    by (rule sel_turns_step) (use 0 in simp)
  then show ?case by (simp only: crowd_first One_nat_def)
next
  case (Suc k)
  have "int (Suc k) + 1 \<noteq> 1" "0 \<le> int (Suc k) + 1" "int (Suc k) + 1 < 257" using Suc.prems by linarith+
  then have "(word_of_int (int (Suc k) + 1) :: u8) \<noteq> 1"
    using u8_eq(1) [of "int (Suc k) + 1"] by (cases "int (Suc k) + 1 = 256") (simp, linarith)
  from crowd_more [OF _ this]
  have "fold sel_turn (replicate 4 (Suc k, 0)) (crowd (Suc k)) = crowd (Suc (Suc k))" by simp
  moreover have "(sel_step n)\<^sup>*\<^sup>* (crowd (Suc k)) (fold sel_turn (replicate 4 (Suc k, 0)) (crowd (Suc k)))"
    by (rule sel_turns_step) (use Suc.prems in simp)
  ultimately show ?case using Suc by (auto intro: rtranclp_trans)
qed

definition burst_schedule :: "(nat \<times> nat) list" where
  "burst_schedule = replicate 4 (256, 0) @ replicate 6 (0, 0) @ replicate 9 (257, 1)"

lemma burst_state:
  "snd (fold sel_turn burst_schedule (crowd 256)) 1 = Inside 0"
  "snd (fold sel_turn burst_schedule (crowd 256)) 257 = Inside 1"
  by (simp_all add: burst_schedule_def crowd_def turn_simps)

text \<open>Three threads: two of group 0 are inside while one of group 1 waits.\<close>

theorem exclusion_mutual_witness:
  "\<exists>l pcs. (sel_step 3)\<^sup>*\<^sup>* (sel_start, \<lambda>_. Outside) (l, pcs) \<and> pcs 0 = Inside 0 \<and> {h. passed h (pcs 1)} = {0}"
proof -
  let ?st = "fold sel_turn pair_schedule (sel_start, \<lambda>_. Outside)"
  obtain l pcs where st: "?st = (l, pcs)" by fastforce
  note r = pair_reached [unfolded st]
  have p: "pcs 0 = Inside 0" "pcs 1 = Inside 0" using pair_state(2,3) by (simp_all add: st)
  then have in0: "passed 0 (pcs 0)" by simp
  have "0 = h" if in1: "passed h (pcs 1)" for h
    by (rule exclusion_mutual [OF _ r _ _ in0 in1]) simp_all
  with p have "{h. passed h (pcs 1)} = {0}" by auto
  with r p show ?thesis by blast
qed

theorem exclusion_no_deadlock_witness:
  "\<exists>l pcs. pcs 2 = Sem_Down 1 \<and> (\<exists>s < (3::nat). sel_next s (pcs s) l \<noteq> None \<or> (\<exists>g. pcs s = Inside g))"
proof -
  let ?st = "fold sel_turn pair_schedule (sel_start, \<lambda>_. Outside)"
  obtain l pcs where st: "?st = (l, pcs)" by fastforce
  have p: "pcs 2 = Sem_Down 1" using pair_state(4) by (simp add: st)
  have "\<exists>s < (3::nat). sel_next s (pcs s) l \<noteq> None \<or> (\<exists>g. pcs s = Inside g)"
    by (rule exclusion_no_deadlock [OF _ pair_reached [unfolded st], of 2]) (simp_all add: p)
  with p show ?thesis by blast
qed

text \<open>The bound is needed: the counts are compared as \<^verbatim>\<open>uint8_t\<close>, so with 258 threads the 257th takes itself for
  the first of its group, the next exit releases the lock, and both groups are inside.\<close>

theorem exclusion_count_wraps:
  "\<exists>l pcs. (sel_step 258)\<^sup>*\<^sup>* (sel_start, \<lambda>_. Outside) (l, pcs) \<and> pcs 1 = Inside 0 \<and> pcs 257 = Inside 1"
proof -
  let ?st = "fold sel_turn burst_schedule (crowd 256)"
  have "(sel_step 258)\<^sup>*\<^sup>* (sel_start, \<lambda>_. Outside) (crowd 256)" using crowd_reached [of 255 258] by simp
  moreover have "(sel_step 258)\<^sup>*\<^sup>* (crowd 256) ?st" by (rule sel_turns_step) (auto simp: burst_schedule_def)
  ultimately have "(sel_step 258)\<^sup>*\<^sup>* (sel_start, \<lambda>_. Outside) (fst ?st, snd ?st)" by simp
  with burst_state show ?thesis by blast
qed

section \<open>The task barrier\<close>

text \<open>A thread counts in \<open>thread_count\<close> from its enter to its \<open>Drop\<close>, in \<open>thread_yield_count\<close> from its exit to its \<open>Drop_Yield\<close>.\<close>

fun entered :: "tb_pc \<Rightarrow> bool" where
  "entered Idle \<longleftrightarrow> False"
| "entered Drain_Wait \<longleftrightarrow> False"
| "entered Drop_Yield \<longleftrightarrow> False"
| "entered p \<longleftrightarrow> True"

definition exiting :: "tb_pc \<Rightarrow> bool" where
  "exiting p \<longleftrightarrow> p \<in> {Yield_Wait, Drop, Drain_Wait, Drop_Yield}"

definition tb_inv :: "nat \<Rightarrow> tb_state \<Rightarrow> bool" where
  "tb_inv n st \<longleftrightarrow> tb_thread_count (fst st) = tcount n entered (snd st) \<and> tb_thread_yield_count (fst st) = tcount n exiting (snd st)"

lemma tb_start_inv: "tb_inv n (task_barrier_init, \<lambda>_. Idle)"
  by (simp add: tb_inv_def task_barrier_init_def tcount_def exiting_def)

lemma tb_next_counts:
  assumes "tb_next count p b = (p', b')"
  shows "tb_thread_count b' = tb_thread_count b + of_bool (entered p') - of_bool (entered p)"
    "tb_thread_yield_count b' = tb_thread_yield_count b + of_bool (exiting p') - of_bool (exiting p)"
  using assms by (cases p; auto simp: tb_next_def exiting_def split: if_splits)+

lemma tb_step_inv:
  assumes "tb_step n count st st'" "tb_inv n st"
  shows "tb_inv n st'"
  using assms
proof (cases rule: tb_step.cases)
  case (tb_go t pcs b p b')
  with tb_next_counts [OF tb_go(4)] assms(2) show ?thesis by (simp add: tb_inv_def tcount_upd)
qed (use assms(2) in \<open>auto simp: tb_inv_def tcount_upd task_barrier_enter_def task_barrier_enter_timeout_def
    task_barrier_exit_def exiting_def\<close>)

lemma tb_steps_inv:
  assumes "(tb_step n count)\<^sup>*\<^sup>* (task_barrier_init, \<lambda>_. Idle) st"
  shows "tb_inv n st"
  using assms by (induction rule: rtranclp_induct) (auto intro: tb_start_inv tb_step_inv)

lemma tb_pass:
  "fst (tb_next count Enter_Wait b) = Passed \<longleftrightarrow> \<not> word_of_int (tb_thread_count b) < count"
  "fst (tb_next count Yield_Wait b) = Drop \<longleftrightarrow> \<not> word_of_int (tb_thread_yield_count b) < count"
  by (simp_all add: tb_next_def)

lemma tcount_all:
  assumes "int n \<le> tcount n P f" "s < n" shows "P (f s)"
  using tcount_less [of s n P f] assms by fastforce

lemma all_counted:
  assumes "\<not> (word_of_int (tcount n P f) :: u32) < of_nat n" "n < 2 ^ 32" "s < n"
  shows "P (f s)"
proof (rule tcount_all [of n P f, OF _ assms(3)])
  have "0 \<le> tcount n P f" "tcount n P f \<le> int n" by (rule tcount_nonneg, rule tcount_le)
  then have "uint (word_of_int (tcount n P f) :: u32) = tcount n P f"
    using assms(2) by (simp add: uint_word_of_int take_bit_int_eq_self)
  moreover have "unat (of_nat n :: u32) = n"
    using assms(2) by (simp add: unsigned_of_nat take_bit_nat_eq_self)
  then have "uint (of_nat n :: u32) = int n" by (simp only: uint_nat)
  ultimately show "int n \<le> tcount n P f" using assms(1) by (simp add: word_less_def)
qed

text \<open>A turn of a thread that uses the barrier over and over; a list of threads is a schedule.\<close>

definition tb_turn :: "u32 \<Rightarrow> nat \<Rightarrow> tb_state \<Rightarrow> tb_state" where
  "tb_turn count t st = (case st of (b, pcs) \<Rightarrow>
     let (p, b') = (if pcs t = Idle then task_barrier_enter b
       else if pcs t = Passed \<or> pcs t = Timed_Out then task_barrier_exit b
       else tb_next count (pcs t) b) in (b', pcs(t := p)))"

lemma tb_turn_step:
  assumes "t < n" shows "tb_step n count st (tb_turn count t st)"
  using assms by (cases st) (auto simp: tb_turn_def Let_def split: prod.split intro: tb_step.intros)

lemma tb_turns_step:
  assumes "\<forall>t \<in> set ts. t < n" shows "(tb_step n count)\<^sup>*\<^sup>* st (fold (tb_turn count) ts st)"
  using assms
proof (induction ts arbitrary: st)
  case (Cons t ts)
  from Cons.prems have "t < n" by simp
  from converse_rtranclp_into_rtranclp [OF tb_turn_step [OF this] Cons.IH] Cons.prems show ?case by simp
qed simp

text \<open>C33. The barrier: of as many threads as \<^verbatim>\<open>count\<close>, a thread passes \<^verbatim>\<open>task_barrier_enter\<close> only when every thread has
  entered and none has yet dropped its count, and passes the first wait of \<^verbatim>\<open>task_barrier_exit\<close> only when every
  thread is in its exit.\<close>

theorem barrier_waits_for_all:
  assumes "n < 2 ^ 32" "(tb_step n (of_nat n))\<^sup>*\<^sup>* (task_barrier_init, \<lambda>_. Idle) (b, pcs)" "t < n" "s < n"
  shows "(pcs t = Enter_Wait \<and> fst (tb_next (of_nat n) (pcs t) b) = Passed \<longrightarrow> entered (pcs s)) \<and>
    (pcs t = Yield_Wait \<and> fst (tb_next (of_nat n) (pcs t) b) = Drop \<longrightarrow> exiting (pcs s))"
proof (intro conjI impI)
  have inv: "tb_inv n (b, pcs)" by (rule tb_steps_inv [OF assms(2)])
  show "entered (pcs s)" if e: "pcs t = Enter_Wait \<and> fst (tb_next (of_nat n) (pcs t) b) = Passed"
  proof (rule all_counted [of n entered pcs, OF _ assms(1,4)])
    show "\<not> (word_of_int (tcount n entered pcs) :: u32) < of_nat n"
      using conjunct1 [OF e] conjunct2 [OF e] inv by (simp add: tb_pass tb_inv_def)
  qed
  show "exiting (pcs s)" if e: "pcs t = Yield_Wait \<and> fst (tb_next (of_nat n) (pcs t) b) = Drop"
  proof (rule all_counted [of n exiting pcs, OF _ assms(1,4)])
    show "\<not> (word_of_int (tcount n exiting pcs) :: u32) < of_nat n"
      using conjunct1 [OF e] conjunct2 [OF e] inv by (simp add: tb_pass tb_inv_def)
  qed
qed

text \<open>A witness.\<close>

theorem barrier_waits_for_all_witness:
  "entered ((snd (fold (tb_turn (of_nat 2)) [0, 1] (task_barrier_init, \<lambda>_. Idle))) 0)"
proof -
  let ?st = "fold (tb_turn (of_nat 2)) [0, 1] (task_barrier_init, \<lambda>_. Idle)"
  have r: "(tb_step 2 (of_nat 2))\<^sup>*\<^sup>* (task_barrier_init, \<lambda>_. Idle) (fst ?st, snd ?st)"
    using tb_turns_step [of "[0, 1]" 2 "of_nat 2" "(task_barrier_init, \<lambda>_. Idle)"] by simp
  have "snd ?st 1 = Enter_Wait \<and> fst (tb_next (of_nat 2) (snd ?st 1) (fst ?st)) = Passed"
    by (simp add: tb_turn_def task_barrier_init_def task_barrier_enter_def tb_next_def)
  moreover have "(2::nat) < 2 ^ 32" "1 < (2::nat)" "0 < (2::nat)" by simp_all
  note barrier_waits_for_all [OF this(1) r this(2,3)]
  ultimately show ?thesis by blast
qed

text \<open>Two threads, the first of which comes back before the second has left.\<close>

definition early_schedule :: "nat list" where
  "early_schedule = [0, 1, 0, 1, 0, 1, 0, 1, 0, 1, 0, 0, 0]"

definition stuck :: tb_state where
  "stuck = (\<lparr>tb_count = 0, tb_thread_count = 1, tb_thread_yield_count = 1, tb_terminate = False\<rparr>, (\<lambda>_. Idle)(0 := Enter_Wait, 1 := Drain_Wait))"

lemma early_stuck: "fold (tb_turn 2) early_schedule (task_barrier_init, \<lambda>_. Idle) = stuck"
  by (auto simp: early_schedule_def stuck_def tb_turn_def task_barrier_init_def tb_next_def task_barrier_enter_def
      task_barrier_exit_def fun_eq_iff)

lemma stuck_step: "tb_step 2 2 stuck st \<Longrightarrow> st = stuck"
  by (erule tb_step.cases) (auto simp: stuck_def tb_next_def less_Suc_eq numeral_2_eq_2 split: if_splits)

lemma stuck_steps: "(tb_step 2 2)\<^sup>*\<^sup>* stuck st \<Longrightarrow> st = stuck"
  by (induction rule: rtranclp_induct) (auto dest: stuck_step)

text \<open>A barrier cannot be used again at once: when one of two threads returns from \<^verbatim>\<open>task_barrier_exit\<close> and enters
  the barrier again before the other has seen \<^verbatim>\<open>thread_count\<close> at zero, both spin for ever.\<close>

theorem barrier_reuse_deadlock:
  "\<exists>b pcs. (tb_step 2 2)\<^sup>*\<^sup>* (task_barrier_init, \<lambda>_. Idle) (b, pcs) \<and> pcs 0 = Enter_Wait \<and> pcs 1 = Drain_Wait \<and>
     {st. (tb_step 2 2)\<^sup>*\<^sup>* (b, pcs) st} = {(b, pcs)}"
proof -
  have "(tb_step 2 2)\<^sup>*\<^sup>* (task_barrier_init, \<lambda>_. Idle) stuck"
    using tb_turns_step [of early_schedule 2 2 "(task_barrier_init, \<lambda>_. Idle)"] by (simp add: early_stuck) (simp add: early_schedule_def)
  moreover have "{st. (tb_step 2 2)\<^sup>*\<^sup>* stuck st} = {stuck}" using stuck_steps by auto
  ultimately have "(tb_step 2 2)\<^sup>*\<^sup>* (task_barrier_init, \<lambda>_. Idle) (fst stuck, snd stuck) \<and> snd stuck 0 = Enter_Wait \<and>
      snd stuck 1 = Drain_Wait \<and> {st. (tb_step 2 2)\<^sup>*\<^sup>* (fst stuck, snd stuck) st} = {(fst stuck, snd stuck)}"
    by (simp add: stuck_def)
  then show ?thesis by blast
qed

section \<open>Set-up\<close>

text \<open>A failed \<^verbatim>\<open>shared_exclusion_init\<close> keeps no handle, a successful one has them all.\<close>

lemma exclusion_init_handles:
  "shared_exclusion_init avail no_handles = (r, h) \<Longrightarrow>
    (if r = 0 then h = \<lparr>h_sem = True, h_gate = [True, True], h_count = [True, True], h_lock = True\<rparr> else h = no_handles)"
  by (auto simp: shared_exclusion_init_def shared_exclusion_fini_def no_handles_def eval_nat_numeral Let_def split: if_splits)

end
