(* ===== verification/GV_Sched_Event.thy ===== *)
theory GV_Sched_Event
  imports GV_Prelude
begin

text \<open>
  The event queue of the scheduler, \<^verbatim>\<open>libgv/core/amdgv_sched_event.c\<close>: interrupts and callers push events into
  a ring of 256 slots; the event thread pops them, sorts them into six lists by urgency, and picks up one
  after the other. An event may carry a signal that its caller waits for. Entries are addresses of
  allocated memory, so that a use of a freed entry is a fault. The intrusive lists are HOL lists of
  addresses (\<open>GV_List\<close> proves that the list operations implement them).
\<close>

section \<open>Events\<close>

text \<open>\<^verbatim>\<open>enum amdgv_sched_event_id\<close>; a mailbox message or a live-update record may hold any other number.\<close>

type_synonym amdgv_sched_event_id = u32

abbreviation (input) AMDGV_EVENT_READY_TO_ACCESS_GPU :: amdgv_sched_event_id where "AMDGV_EVENT_READY_TO_ACCESS_GPU \<equiv> 0x1"
abbreviation (input) AMDGV_EVENT_IP_DATA_READY :: amdgv_sched_event_id where "AMDGV_EVENT_IP_DATA_READY \<equiv> 0x4"
abbreviation (input) AMDGV_EVENT_TEXT_MESSAGE :: amdgv_sched_event_id where "AMDGV_EVENT_TEXT_MESSAGE \<equiv> 0xff"
abbreviation (input) AMDGV_EVENT_REQ_GPU_INIT :: amdgv_sched_event_id where "AMDGV_EVENT_REQ_GPU_INIT \<equiv> 0xef00"
abbreviation (input) AMDGV_EVENT_REL_GPU_INIT :: amdgv_sched_event_id where "AMDGV_EVENT_REL_GPU_INIT \<equiv> 0xef01"
abbreviation (input) AMDGV_EVENT_REQ_GPU_FINI :: amdgv_sched_event_id where "AMDGV_EVENT_REQ_GPU_FINI \<equiv> 0xef02"
abbreviation (input) AMDGV_EVENT_REL_GPU_FINI :: amdgv_sched_event_id where "AMDGV_EVENT_REL_GPU_FINI \<equiv> 0xef03"
abbreviation (input) AMDGV_EVENT_REQ_GPU_RESET :: amdgv_sched_event_id where "AMDGV_EVENT_REQ_GPU_RESET \<equiv> 0xef04"
abbreviation (input) AMDGV_EVENT_LOG_VF_ERROR :: amdgv_sched_event_id where "AMDGV_EVENT_LOG_VF_ERROR \<equiv> 0xef05"
abbreviation (input) AMDGV_EVENT_REQ_GPU_INIT_DATA :: amdgv_sched_event_id where "AMDGV_EVENT_REQ_GPU_INIT_DATA \<equiv> 0xef06"
abbreviation (input) AMDGV_EVENT_READY_TO_RESET :: amdgv_sched_event_id where "AMDGV_EVENT_READY_TO_RESET \<equiv> 0xef07"
abbreviation (input) AMDGV_EVENT_REQ_GPU_DEBUG :: amdgv_sched_event_id where "AMDGV_EVENT_REQ_GPU_DEBUG \<equiv> 0xef08"
abbreviation (input) AMDGV_EVENT_REL_GPU_DEBUG :: amdgv_sched_event_id where "AMDGV_EVENT_REL_GPU_DEBUG \<equiv> 0xef09"
abbreviation (input) AMDGV_EVENT_VF_REQ_PTL_UPDATE :: amdgv_sched_event_id where "AMDGV_EVENT_VF_REQ_PTL_UPDATE \<equiv> 0xef0a"
abbreviation (input) AMDGV_EVENT_SCHED_FORCE_RESET_VF :: amdgv_sched_event_id where "AMDGV_EVENT_SCHED_FORCE_RESET_VF \<equiv> 0xff01"
abbreviation (input) AMDGV_EVENT_SCHED_RESET_VF :: amdgv_sched_event_id where "AMDGV_EVENT_SCHED_RESET_VF \<equiv> 0xff02"
abbreviation (input) AMDGV_EVENT_HW_SCHED_RESET_VF :: amdgv_sched_event_id where "AMDGV_EVENT_HW_SCHED_RESET_VF \<equiv> 0xff03"
abbreviation (input) AMDGV_EVENT_SCHED_SUSPEND_VF :: amdgv_sched_event_id where "AMDGV_EVENT_SCHED_SUSPEND_VF \<equiv> 0xff04"
abbreviation (input) AMDGV_EVENT_SCHED_RESUME_VF :: amdgv_sched_event_id where "AMDGV_EVENT_SCHED_RESUME_VF \<equiv> 0xff05"
abbreviation (input) AMDGV_EVENT_SCHED_REMOVE_VF :: amdgv_sched_event_id where "AMDGV_EVENT_SCHED_REMOVE_VF \<equiv> 0xff06"
abbreviation (input) AMDGV_EVENT_SCHED_FORCE_RESET_GPU :: amdgv_sched_event_id where "AMDGV_EVENT_SCHED_FORCE_RESET_GPU \<equiv> 0xff07"
abbreviation (input) AMDGV_EVENT_SCHED_STOP_VF :: amdgv_sched_event_id where "AMDGV_EVENT_SCHED_STOP_VF \<equiv> 0xff08"
abbreviation (input) AMDGV_EVENT_SCHED_INIT_VF_FB :: amdgv_sched_event_id where "AMDGV_EVENT_SCHED_INIT_VF_FB \<equiv> 0xff09"
abbreviation (input) AMDGV_EVENT_SCHED_RAS_UMC :: amdgv_sched_event_id where "AMDGV_EVENT_SCHED_RAS_UMC \<equiv> 0xff0a"
abbreviation (input) AMDGV_EVENT_SCHED_SUSPEND :: amdgv_sched_event_id where "AMDGV_EVENT_SCHED_SUSPEND \<equiv> 0xff0b"
abbreviation (input) AMDGV_EVENT_SCHED_RESUME :: amdgv_sched_event_id where "AMDGV_EVENT_SCHED_RESUME \<equiv> 0xff0c"
abbreviation (input) AMDGV_EVENT_SCHED_FW_LIVE_UPDATE_DFC :: amdgv_sched_event_id where "AMDGV_EVENT_SCHED_FW_LIVE_UPDATE_DFC \<equiv> 0xff0d"
abbreviation (input) AMDGV_EVENT_SCHED_GPUMON :: amdgv_sched_event_id where "AMDGV_EVENT_SCHED_GPUMON \<equiv> 0xff0e"
abbreviation (input) AMDGV_EVENT_SCHED_SET_VF_ACCESS :: amdgv_sched_event_id where "AMDGV_EVENT_SCHED_SET_VF_ACCESS \<equiv> 0xff0f"
abbreviation (input) AMDGV_EVENT_SCHED_MMSCH_GENERAL_NOTIFICATION :: amdgv_sched_event_id where "AMDGV_EVENT_SCHED_MMSCH_GENERAL_NOTIFICATION \<equiv> 0xff10"
abbreviation (input) AMDGV_EVENT_SCHED_PSP_VF_GATE :: amdgv_sched_event_id where "AMDGV_EVENT_SCHED_PSP_VF_GATE \<equiv> 0xff11"
abbreviation (input) AMDGV_EVENT_SCHED_PSP_VF_CMD_RELAY :: amdgv_sched_event_id where "AMDGV_EVENT_SCHED_PSP_VF_CMD_RELAY \<equiv> 0xff12"
abbreviation (input) AMDGV_EVENT_HANDLE_CRASH :: amdgv_sched_event_id where "AMDGV_EVENT_HANDLE_CRASH \<equiv> 0xff13"
abbreviation (input) AMDGV_EVENT_SCHED_FORCE_RESET_GPU_INTERNAL :: amdgv_sched_event_id where "AMDGV_EVENT_SCHED_FORCE_RESET_GPU_INTERNAL \<equiv> 0xff14"
abbreviation (input) AMDGV_EVENT_SCHED_SUSPEND_LIVE :: amdgv_sched_event_id where "AMDGV_EVENT_SCHED_SUSPEND_LIVE \<equiv> 0xff20"
abbreviation (input) AMDGV_EVENT_SCHED_RESUME_LIVE :: amdgv_sched_event_id where "AMDGV_EVENT_SCHED_RESUME_LIVE \<equiv> 0xff21"
abbreviation (input) AMDGV_EVENT_COLLECT_DIAG_DATA :: amdgv_sched_event_id where "AMDGV_EVENT_COLLECT_DIAG_DATA \<equiv> 0xff40"
abbreviation (input) AMDGV_EVENT_ENTER_POWER_SAVING :: amdgv_sched_event_id where "AMDGV_EVENT_ENTER_POWER_SAVING \<equiv> 0xff50"
abbreviation (input) AMDGV_EVENT_EXIT_POWER_SAVING :: amdgv_sched_event_id where "AMDGV_EVENT_EXIT_POWER_SAVING \<equiv> 0xff51"
abbreviation (input) AMDGV_EVENT_SCHED_RAS_POISON_CONSUMPTION :: amdgv_sched_event_id where "AMDGV_EVENT_SCHED_RAS_POISON_CONSUMPTION \<equiv> 0xff60"
abbreviation (input) AMDGV_EVENT_SCHED_RAS_FED :: amdgv_sched_event_id where "AMDGV_EVENT_SCHED_RAS_FED \<equiv> 0xff61"
abbreviation (input) AMDGV_EVENT_CUR_VF_CTX_EMPTY :: amdgv_sched_event_id where "AMDGV_EVENT_CUR_VF_CTX_EMPTY \<equiv> 0xff62"
abbreviation (input) AMDGV_EVENT_SCHED_UPDATE_TOPOLOGY :: amdgv_sched_event_id where "AMDGV_EVENT_SCHED_UPDATE_TOPOLOGY \<equiv> 0xff63"
abbreviation (input) AMDGV_EVENT_SCHED_UPDATE_MCA_BANKS :: amdgv_sched_event_id where "AMDGV_EVENT_SCHED_UPDATE_MCA_BANKS \<equiv> 0xff64"
abbreviation (input) AMDGV_EVENT_SCHED_GET_TOPOLOGY :: amdgv_sched_event_id where "AMDGV_EVENT_SCHED_GET_TOPOLOGY \<equiv> 0xff65"
abbreviation (input) AMDGV_EVENT_SCHED_RMA :: amdgv_sched_event_id where "AMDGV_EVENT_SCHED_RMA \<equiv> 0xff66"
abbreviation (input) AMDGV_EVENT_SCHED_VF_REQ_RAS_ERROR_COUNT :: amdgv_sched_event_id where "AMDGV_EVENT_SCHED_VF_REQ_RAS_ERROR_COUNT \<equiv> 0xff67"
abbreviation (input) AMDGV_EVENT_SCHED_VF_REQ_RAS_CPER_DUMP :: amdgv_sched_event_id where "AMDGV_EVENT_SCHED_VF_REQ_RAS_CPER_DUMP \<equiv> 0xff68"
abbreviation (input) AMDGV_EVENT_SCHED_RAS_POISON_CREATION :: amdgv_sched_event_id where "AMDGV_EVENT_SCHED_RAS_POISON_CREATION \<equiv> 0xff69"
abbreviation (input) AMDGV_EVENT_SCHED_VF_REQ_RAS_BAD_PAGES :: amdgv_sched_event_id where "AMDGV_EVENT_SCHED_VF_REQ_RAS_BAD_PAGES \<equiv> 0xff6a"
abbreviation (input) AMDGV_EVENT_LIVE_MIGRATION_MANIFEST_DATA :: amdgv_sched_event_id where "AMDGV_EVENT_LIVE_MIGRATION_MANIFEST_DATA \<equiv> 0xff6b"
abbreviation (input) AMDGV_EVENT_VF_FB_COPY :: amdgv_sched_event_id where "AMDGV_EVENT_VF_FB_COPY \<equiv> 0xff6c"
abbreviation (input) AMDGV_EVENT_VF_FB_COPY_ASYNC :: amdgv_sched_event_id where "AMDGV_EVENT_VF_FB_COPY_ASYNC \<equiv> 0xff6d"
abbreviation (input) AMDGV_EVENT_QUERY_DIRTYBIT_DATA :: amdgv_sched_event_id where "AMDGV_EVENT_QUERY_DIRTYBIT_DATA \<equiv> 0xff6e"
abbreviation (input) AMDGV_EVENT_SET_VF_MIGRATION_STATE :: amdgv_sched_event_id where "AMDGV_EVENT_SET_VF_MIGRATION_STATE \<equiv> 0xff6f"
abbreviation (input) AMDGV_EVENT_VF_MIGRATION_SET_ABORT :: amdgv_sched_event_id where "AMDGV_EVENT_VF_MIGRATION_SET_ABORT \<equiv> 0xff70"
abbreviation (input) AMDGV_EVENT_SCHED_VF_REQ_RAS_CHK_CRITI_REGION :: amdgv_sched_event_id where "AMDGV_EVENT_SCHED_VF_REQ_RAS_CHK_CRITI_REGION \<equiv> 0xff71"
abbreviation (input) AMDGV_EVENT_SCHED_SET_VF_COND_AVAIL :: amdgv_sched_event_id where "AMDGV_EVENT_SCHED_SET_VF_COND_AVAIL \<equiv> 0xff72"
abbreviation (input) AMDGV_EVENT_SCHED_UAL_PAUSE_REQ :: amdgv_sched_event_id where "AMDGV_EVENT_SCHED_UAL_PAUSE_REQ \<equiv> 0xff80"
abbreviation (input) AMDGV_EVENT_SCHED_UAL_RESUME_REQ :: amdgv_sched_event_id where "AMDGV_EVENT_SCHED_UAL_RESUME_REQ \<equiv> 0xff81"
abbreviation (input) AMDGV_EVENT_SCHED_VF_REQ_GPU_INIT_XCHG_REGION :: amdgv_sched_event_id where "AMDGV_EVENT_SCHED_VF_REQ_GPU_INIT_XCHG_REGION \<equiv> 0xff82"
abbreviation (input) AMDGV_EVENT_SCHED_RAS_EVENT :: amdgv_sched_event_id where "AMDGV_EVENT_SCHED_RAS_EVENT \<equiv> 0xff83"
abbreviation (input) AMDGV_EVENT_SCHED_VF_RAS_REMOTE_CMD :: amdgv_sched_event_id where "AMDGV_EVENT_SCHED_VF_RAS_REMOTE_CMD \<equiv> 0xff84"
abbreviation (input) AMDGV_EVENT_INVALID_EVENT :: amdgv_sched_event_id where "AMDGV_EVENT_INVALID_EVENT \<equiv> 0xffffffff"

datatype amdgv_event_status = AMDGV_EVENT_STATUS_NORMAL | AMDGV_EVENT_STATUS_FINISHED

text \<open>\<^verbatim>\<open>union amdgv_sched_event_data\<close>: the one member that the code below reads, and the remaining bytes.\<close>

record amdgv_sched_event_data =
  gpumon_type :: u32
  data_bytes :: "u8 list"

record amdgv_sched_event =
  se_idx_vf :: u32
  se_id :: amdgv_sched_event_id
  se_status :: amdgv_event_status
  se_sched_block :: u32
  se_timestamp :: u64
  se_signal :: "nat option" \<comment> \<open>\<open>None\<close> for \<open>OSS_INVALID_HANDLE\<close>\<close>
  se_data :: amdgv_sched_event_data

record amdgv_sched_event_wrapper =
  w_event :: amdgv_sched_event
  w_entry :: "nat option"

definition zero_data :: amdgv_sched_event_data where
  "zero_data = \<lparr>gpumon_type = 0, data_bytes = []\<rparr>"

definition blank_event :: amdgv_sched_event where
  "blank_event = \<lparr>se_idx_vf = 0, se_id = 0, se_status = AMDGV_EVENT_STATUS_NORMAL, se_sched_block = 0, se_timestamp = 0,
     se_signal = None, se_data = zero_data\<rparr>"

section \<open>The lists by urgency\<close>

datatype amdgv_sched_event_list = AMDGV_SCHED_EVENT_LIST_0 | AMDGV_SCHED_EVENT_LIST_1 | AMDGV_SCHED_EVENT_LIST_2
  | AMDGV_SCHED_EVENT_LIST_3 | AMDGV_SCHED_EVENT_LIST_4 | AMDGV_SCHED_EVENT_LIST_5

fun list_idx :: "amdgv_sched_event_list \<Rightarrow> nat" where
  "list_idx AMDGV_SCHED_EVENT_LIST_0 = 0"
| "list_idx AMDGV_SCHED_EVENT_LIST_1 = 1"
| "list_idx AMDGV_SCHED_EVENT_LIST_2 = 2"
| "list_idx AMDGV_SCHED_EVENT_LIST_3 = 3"
| "list_idx AMDGV_SCHED_EVENT_LIST_4 = 4"
| "list_idx AMDGV_SCHED_EVENT_LIST_5 = 5"

lemma list_idx_inject: "list_idx a = list_idx b \<longleftrightarrow> a = b"
  by (cases a; cases b; simp)

text \<open>The lists are ordered as the numbers of the enum are.\<close>

instantiation amdgv_sched_event_list :: linorder
begin

definition less_eq_amdgv_sched_event_list :: "amdgv_sched_event_list \<Rightarrow> amdgv_sched_event_list \<Rightarrow> bool" where
  "less_eq_amdgv_sched_event_list a b \<longleftrightarrow> list_idx a \<le> list_idx b"

definition less_amdgv_sched_event_list :: "amdgv_sched_event_list \<Rightarrow> amdgv_sched_event_list \<Rightarrow> bool" where
  "less_amdgv_sched_event_list a b \<longleftrightarrow> list_idx a < list_idx b"

instance
  by standard (auto simp: less_eq_amdgv_sched_event_list_def less_amdgv_sched_event_list_def list_idx_inject)

end

definition event_lists :: "amdgv_sched_event_list list" where
  "event_lists = [AMDGV_SCHED_EVENT_LIST_0, AMDGV_SCHED_EVENT_LIST_1, AMDGV_SCHED_EVENT_LIST_2, AMDGV_SCHED_EVENT_LIST_3,
     AMDGV_SCHED_EVENT_LIST_4, AMDGV_SCHED_EVENT_LIST_5]"

text \<open>The cases of \<^verbatim>\<open>amdgv_sched_event_arrange_event_list\<close>: the list, and whether older events of the same VF are
  removed from it first.\<close>

definition arrange_case :: "amdgv_sched_event_id \<Rightarrow> (amdgv_sched_event_list \<times> bool) option" where
  "arrange_case event_id =
     (if event_id \<in> {AMDGV_EVENT_SCHED_FORCE_RESET_GPU, AMDGV_EVENT_SCHED_FORCE_RESET_GPU_INTERNAL,
          AMDGV_EVENT_SCHED_RAS_EVENT, AMDGV_EVENT_SCHED_VF_RAS_REMOTE_CMD, AMDGV_EVENT_SCHED_RAS_UMC,
          AMDGV_EVENT_EXIT_POWER_SAVING, AMDGV_EVENT_ENTER_POWER_SAVING, AMDGV_EVENT_SCHED_RAS_POISON_CONSUMPTION,
          AMDGV_EVENT_SCHED_RAS_POISON_CREATION, AMDGV_EVENT_SCHED_RAS_FED}
      then Some (AMDGV_SCHED_EVENT_LIST_0, True)
      else if event_id \<in> {AMDGV_EVENT_SCHED_SUSPEND_VF, AMDGV_EVENT_SCHED_RESUME_VF, AMDGV_EVENT_SCHED_REMOVE_VF,
          AMDGV_EVENT_SCHED_STOP_VF, AMDGV_EVENT_SCHED_SUSPEND, AMDGV_EVENT_SCHED_RESUME, AMDGV_EVENT_SCHED_SUSPEND_LIVE,
          AMDGV_EVENT_SCHED_RESUME_LIVE, AMDGV_EVENT_CUR_VF_CTX_EMPTY, AMDGV_EVENT_COLLECT_DIAG_DATA}
      then Some (AMDGV_SCHED_EVENT_LIST_1, False)
      else if event_id \<in> {AMDGV_EVENT_REL_GPU_INIT, AMDGV_EVENT_REL_GPU_FINI, AMDGV_EVENT_SCHED_UPDATE_TOPOLOGY,
          AMDGV_EVENT_REL_GPU_DEBUG}
      then Some (AMDGV_SCHED_EVENT_LIST_2, True)
      else if event_id \<in> {AMDGV_EVENT_SCHED_RMA, AMDGV_EVENT_SCHED_SET_VF_COND_AVAIL}
      then Some (AMDGV_SCHED_EVENT_LIST_3, True)
      else if event_id \<in> {AMDGV_EVENT_SCHED_RESET_VF, AMDGV_EVENT_SCHED_FORCE_RESET_VF, AMDGV_EVENT_HW_SCHED_RESET_VF,
          AMDGV_EVENT_SCHED_INIT_VF_FB, AMDGV_EVENT_SCHED_FW_LIVE_UPDATE_DFC, AMDGV_EVENT_SCHED_SET_VF_ACCESS,
          AMDGV_EVENT_SCHED_MMSCH_GENERAL_NOTIFICATION, AMDGV_EVENT_SCHED_PSP_VF_GATE, AMDGV_EVENT_SCHED_PSP_VF_CMD_RELAY,
          AMDGV_EVENT_HANDLE_CRASH, AMDGV_EVENT_LIVE_MIGRATION_MANIFEST_DATA, AMDGV_EVENT_VF_FB_COPY,
          AMDGV_EVENT_VF_FB_COPY_ASYNC, AMDGV_EVENT_QUERY_DIRTYBIT_DATA}
      then Some (AMDGV_SCHED_EVENT_LIST_3, False)
      else if event_id \<in> {AMDGV_EVENT_REQ_GPU_INIT, AMDGV_EVENT_REQ_GPU_FINI, AMDGV_EVENT_REQ_GPU_RESET,
          AMDGV_EVENT_REQ_GPU_INIT_DATA, AMDGV_EVENT_SCHED_VF_REQ_RAS_ERROR_COUNT, AMDGV_EVENT_SCHED_VF_REQ_RAS_CPER_DUMP,
          AMDGV_EVENT_REQ_GPU_DEBUG, AMDGV_EVENT_SCHED_VF_REQ_RAS_BAD_PAGES, AMDGV_EVENT_SCHED_VF_REQ_RAS_CHK_CRITI_REGION,
          AMDGV_EVENT_VF_REQ_PTL_UPDATE, AMDGV_EVENT_SCHED_VF_REQ_GPU_INIT_XCHG_REGION}
      then Some (AMDGV_SCHED_EVENT_LIST_4, True)
      else if event_id \<in> {AMDGV_EVENT_SCHED_GPUMON, AMDGV_EVENT_SCHED_UPDATE_MCA_BANKS, AMDGV_EVENT_SCHED_GET_TOPOLOGY,
          AMDGV_EVENT_VF_MIGRATION_SET_ABORT, AMDGV_EVENT_SET_VF_MIGRATION_STATE, AMDGV_EVENT_SCHED_UAL_PAUSE_REQ,
          AMDGV_EVENT_SCHED_UAL_RESUME_REQ}
      then Some (AMDGV_SCHED_EVENT_LIST_5, False)
      else None)"

text \<open>The cases of \<^verbatim>\<open>amdgv_sched_push_back_event\<close>.\<close>

definition push_back_case :: "amdgv_sched_event_id \<Rightarrow> amdgv_sched_event_list option" where
  "push_back_case event_id =
     (if event_id \<in> {AMDGV_EVENT_SCHED_FORCE_RESET_GPU, AMDGV_EVENT_SCHED_FORCE_RESET_GPU_INTERNAL,
          AMDGV_EVENT_SCHED_RAS_EVENT, AMDGV_EVENT_SCHED_VF_RAS_REMOTE_CMD, AMDGV_EVENT_SCHED_RAS_UMC,
          AMDGV_EVENT_EXIT_POWER_SAVING, AMDGV_EVENT_ENTER_POWER_SAVING, AMDGV_EVENT_SCHED_RAS_POISON_CONSUMPTION,
          AMDGV_EVENT_SCHED_RAS_POISON_CREATION, AMDGV_EVENT_SCHED_RAS_FED}
      then Some AMDGV_SCHED_EVENT_LIST_0
      else if event_id \<in> {AMDGV_EVENT_SCHED_SUSPEND_VF, AMDGV_EVENT_SCHED_RESUME_VF, AMDGV_EVENT_SCHED_REMOVE_VF,
          AMDGV_EVENT_SCHED_STOP_VF, AMDGV_EVENT_SCHED_SUSPEND, AMDGV_EVENT_SCHED_RESUME, AMDGV_EVENT_SCHED_SUSPEND_LIVE,
          AMDGV_EVENT_SCHED_RESUME_LIVE, AMDGV_EVENT_CUR_VF_CTX_EMPTY, AMDGV_EVENT_COLLECT_DIAG_DATA}
      then Some AMDGV_SCHED_EVENT_LIST_1
      else if event_id \<in> {AMDGV_EVENT_REL_GPU_INIT, AMDGV_EVENT_REL_GPU_FINI, AMDGV_EVENT_SCHED_UPDATE_TOPOLOGY,
          AMDGV_EVENT_REL_GPU_DEBUG}
      then Some AMDGV_SCHED_EVENT_LIST_2
      else if event_id \<in> {AMDGV_EVENT_SCHED_RESET_VF, AMDGV_EVENT_SCHED_FORCE_RESET_VF, AMDGV_EVENT_HW_SCHED_RESET_VF,
          AMDGV_EVENT_SCHED_INIT_VF_FB, AMDGV_EVENT_SCHED_FW_LIVE_UPDATE_DFC, AMDGV_EVENT_SCHED_SET_VF_ACCESS,
          AMDGV_EVENT_SCHED_PSP_VF_GATE, AMDGV_EVENT_SCHED_MMSCH_GENERAL_NOTIFICATION, AMDGV_EVENT_SCHED_PSP_VF_CMD_RELAY,
          AMDGV_EVENT_HANDLE_CRASH, AMDGV_EVENT_LIVE_MIGRATION_MANIFEST_DATA, AMDGV_EVENT_VF_FB_COPY,
          AMDGV_EVENT_VF_FB_COPY_ASYNC, AMDGV_EVENT_QUERY_DIRTYBIT_DATA, AMDGV_EVENT_SCHED_RMA,
          AMDGV_EVENT_SCHED_SET_VF_COND_AVAIL}
      then Some AMDGV_SCHED_EVENT_LIST_3
      else if event_id \<in> {AMDGV_EVENT_REQ_GPU_INIT, AMDGV_EVENT_REQ_GPU_FINI, AMDGV_EVENT_REQ_GPU_RESET,
          AMDGV_EVENT_REQ_GPU_INIT_DATA, AMDGV_EVENT_REQ_GPU_DEBUG, AMDGV_EVENT_VF_REQ_PTL_UPDATE,
          AMDGV_EVENT_SCHED_VF_REQ_GPU_INIT_XCHG_REGION}
      then Some AMDGV_SCHED_EVENT_LIST_4
      else if event_id \<in> {AMDGV_EVENT_SCHED_GPUMON, AMDGV_EVENT_SCHED_UPDATE_MCA_BANKS, AMDGV_EVENT_SCHED_GET_TOPOLOGY,
          AMDGV_EVENT_VF_MIGRATION_SET_ABORT, AMDGV_EVENT_SET_VF_MIGRATION_STATE, AMDGV_EVENT_SCHED_UAL_PAUSE_REQ,
          AMDGV_EVENT_SCHED_UAL_RESUME_REQ}
      then Some AMDGV_SCHED_EVENT_LIST_5
      else None)"

section \<open>State\<close>

text \<open>The memory of the ring: NULL, freed (the pointer is left behind), or its 256 slots.\<close>

datatype queue_mem = Queue_Null | Queue_Freed | Queue "amdgv_sched_event_wrapper list"

datatype amdgv_migration_vf_state = AMDGV_MIGRATION_VF_STATE_DEFAULT | AMDGV_MIGRATION_VF_STATE_PRE_COPY
  | AMDGV_MIGRATION_VF_STATE_STOP_COPY | AMDGV_MIGRATION_VF_STATE_EXPORT | AMDGV_MIGRATION_VF_STATE_IMPORT

record amdgv_vf_migration_state =
  mig_phase :: amdgv_migration_vf_state
  mig_aborted :: bool
  mig_is_target :: bool

datatype amdgv_sched_event_thread_status = AMDGV_EVENT_THREAD_IDLE | AMDGV_EVENT_THREAD_BUSY
  | AMDGV_EVENT_THREAD_WAITING | AMDGV_EVENT_THREAD_WAKINGUP

text \<open>The members of \<^verbatim>\<open>struct amdgv_sched\<close> and of the adapter that the queue uses. \<open>entries\<close> are the live allocated
  entries; \<open>signals\<close> are the signals delivered to waiting callers, with the flag \<^verbatim>\<open>EVENT_FLAGS_SKIPPED\<close>.\<close>

record amdgv_sched =
  event_queue :: queue_mem
  queue_rptr :: u8
  queue_wptr :: u8
  queue_lock :: bool
  entries :: "nat \<Rightarrow> amdgv_sched_event option"
  event_list :: "amdgv_sched_event_list \<Rightarrow> nat list"
  curr_event_list_idx :: amdgv_sched_event_list
  next_event :: "nat option"
  unrecov_err :: bool
  lock_world_switch :: bool
  is_in_powersaving :: bool
  event_thread_status :: amdgv_sched_event_thread_status
  event_set :: bool
  signals :: "(nat \<times> bool) list"
  live_migration :: bool
  sched_num_vf :: u32
  mig_state :: "amdgv_vf_migration_state list"
  gpu_init_data_ready :: "bool list"

abbreviation (input) AMDGV_EVENT_QUEUE_ENTRY_NUM :: nat where "AMDGV_EVENT_QUEUE_ENTRY_NUM \<equiv> 256"

definition slots :: "amdgv_sched \<Rightarrow> amdgv_sched_event_wrapper list cres" where
  "slots s = (case event_queue s of Queue_Null \<Rightarrow> Inl Null_Deref | Queue_Freed \<Rightarrow> Inl Use_After_Free | Queue ws \<Rightarrow> Inr ws)"

definition slot :: "amdgv_sched \<Rightarrow> u8 \<Rightarrow> amdgv_sched_event_wrapper cres" where
  "slot s ptr = cbind (slots s) (\<lambda>ws. cread ws (unat ptr))"

definition set_slot :: "u8 \<Rightarrow> amdgv_sched_event_wrapper \<Rightarrow> amdgv_sched \<Rightarrow> amdgv_sched cres" where
  "set_slot ptr w s = cbind (slots s) (\<lambda>ws. cbind (cwrite ws (unat ptr) w) (\<lambda>ws. Inr (s\<lparr>event_queue := Queue ws\<rparr>)))"

definition entry_event :: "amdgv_sched \<Rightarrow> nat \<Rightarrow> amdgv_sched_event cres" where
  "entry_event s a = (case entries s a of None \<Rightarrow> Inl Use_After_Free | Some e \<Rightarrow> Inr e)"

definition oss_free_entry :: "nat \<Rightarrow> amdgv_sched \<Rightarrow> amdgv_sched cres" where
  "oss_free_entry a s = (case entries s a of None \<Rightarrow> Inl Double_Free | Some _ \<Rightarrow> Inr (s\<lparr>entries := (entries s)(a := None)\<rparr>))"

definition oss_signal :: "nat option \<Rightarrow> bool \<Rightarrow> amdgv_sched \<Rightarrow> amdgv_sched" where
  "oss_signal signal skipped s = (case signal of None \<Rightarrow> s | Some h \<Rightarrow> s\<lparr>signals := signals s @ [(h, skipped)]\<rparr>)"

section \<open>The ring\<close>

text \<open>The loop \<^verbatim>\<open>for (; wptr != rptr; rptr++)\<close> over 8-bit pointers, with the statement \<open>f\<close>.\<close>

lemma ring_distance: "wptr \<noteq> rptr \<Longrightarrow> unat (wptr - (rptr + 1)) < unat (wptr - (rptr :: u8))"
proof -
  assume "wptr \<noteq> rptr"
  then have "0 < wptr - rptr" by (simp add: word_gt_0)
  then have "0 < unat (wptr - rptr)" "unat (wptr - rptr - 1) = unat (wptr - rptr) - 1"
    using unat_sub [of 1 "wptr - rptr"] by (simp_all add: word_le_nat_alt word_less_nat_alt)
  moreover have e: "wptr - (rptr + 1) = wptr - rptr - 1" by (simp add: algebra_simps)
  ultimately show ?thesis unfolding e by linarith
qed

function ring_loop :: "(u8 \<Rightarrow> 's \<Rightarrow> 's cres) \<Rightarrow> u8 \<Rightarrow> u8 \<Rightarrow> 's \<Rightarrow> 's cres" where
  "ring_loop f wptr rptr s = (if wptr = rptr then Inr s else cbind (f rptr s) (ring_loop f wptr (rptr + 1)))"
  by pat_completeness auto
termination by (relation "measure (\<lambda>(f, wptr, rptr, s). unat (wptr - rptr))") (auto simp: ring_distance)

declare ring_loop.simps [simp del]

definition empty_ring :: "amdgv_sched_event_wrapper list" where
  "empty_ring = replicate AMDGV_EVENT_QUEUE_ENTRY_NUM \<lparr>w_event = blank_event, w_entry = None\<rparr>"

lemma length_empty_ring [simp]: "length empty_ring = AMDGV_EVENT_QUEUE_ENTRY_NUM"
  by (simp only: empty_ring_def length_replicate)

text \<open>The answers of the allocators: whether the ring and its lock can be made.\<close>

definition amdgv_sched_event_queue_init :: "bool \<Rightarrow> bool \<Rightarrow> amdgv_sched \<Rightarrow> int \<times> amdgv_sched" where
  "amdgv_sched_event_queue_init alloc_ok lock_ok s =
     (if \<not> alloc_ok then (AMDGV_FAILURE, s\<lparr>event_queue := Queue_Null\<rparr>)
      else let s = s\<lparr>event_queue := Queue empty_ring, queue_rptr := 0, queue_wptr := 0, queue_lock := lock_ok\<rparr> in
        if \<not> lock_ok then (AMDGV_FAILURE, s\<lparr>event_queue := Queue_Freed\<rparr>) else (0, s))"

definition amdgv_sched_event_queue_fini :: "amdgv_sched \<Rightarrow> amdgv_sched cres" where
  "amdgv_sched_event_queue_fini s =
     (let s = s\<lparr>queue_lock := False\<rparr> in
      if event_queue s = Queue_Null then Inr s
      else cbind (ring_loop (\<lambda>ptr s. cbind (slot s ptr) (\<lambda>w. case w_entry w of None \<Rightarrow> Inr s | Some a \<Rightarrow> oss_free_entry a s))
          (queue_wptr s) (queue_rptr s) s)
        (\<lambda>s. if event_queue s = Queue_Freed then Inl Double_Free else Inr (s\<lparr>event_queue := Queue_Null\<rparr>)))"

definition amdgv_sched_event_is_event_invalid :: "u32 \<Rightarrow> amdgv_sched_event_id \<Rightarrow> bool" where
  "amdgv_sched_event_is_event_invalid idx_vf event_id \<longleftrightarrow>
     event_id \<in> {AMDGV_EVENT_SCHED_FORCE_RESET_GPU, AMDGV_EVENT_SCHED_FORCE_RESET_GPU_INTERNAL, AMDGV_EVENT_SCHED_RAS_FED} \<and>
     idx_vf \<noteq> AMDGV_PF_IDX"

text \<open>What the environment answers to a push: the time, and the entry that \<^verbatim>\<open>oss_malloc_atomic\<close> finds. The invalid
  combinations of the function above are only logged. The content of a new entry is not read before it is
  popped.\<close>

definition amdgv_sched_event_queue_push_ex :: "u64 \<Rightarrow> nat option \<Rightarrow> u32 \<Rightarrow> amdgv_sched_event_id \<Rightarrow> u32 \<Rightarrow> nat option \<Rightarrow>
    amdgv_sched_event_data \<Rightarrow> bool \<Rightarrow> amdgv_sched \<Rightarrow> (int \<times> amdgv_sched) cres" where
  "amdgv_sched_event_queue_push_ex now mem idx_vf event_id sched_block signal data wake_event_thread s =
     (if event_id \<noteq> AMDGV_EVENT_EXIT_POWER_SAVING \<and> is_in_powersaving s then Inr (AMDGV_FAILURE, s)
      else let wptr = queue_wptr s; rptr = queue_rptr s in
        if wptr + 1 = rptr then Inr (AMDGV_FAILURE, s)
        else cbind (slot s wptr) (\<lambda>w. cbind (set_slot wptr (w\<lparr>w_entry := mem\<rparr>) s) (\<lambda>s. case mem of
            None \<Rightarrow> Inr (AMDGV_FAILURE, s)
          | Some a \<Rightarrow>
              let s = s\<lparr>entries := (entries s)(a \<mapsto> blank_event), queue_wptr := queue_wptr s + 1\<rparr>;
                  event = \<lparr>se_idx_vf = idx_vf, se_id = event_id, se_status = AMDGV_EVENT_STATUS_NORMAL,
                    se_sched_block = sched_block, se_timestamp = now, se_signal = signal, se_data = data\<rparr>
              in cbind (set_slot wptr \<lparr>w_event = event, w_entry = Some a\<rparr> s) (\<lambda>s.
                Inr (0, if wake_event_thread
                  then s\<lparr>event_thread_status := (if event_thread_status s = AMDGV_EVENT_THREAD_IDLE
                      then AMDGV_EVENT_THREAD_WAKINGUP else event_thread_status s), event_set := True\<rparr>
                  else s)))))"

definition pop_event :: "u8 \<Rightarrow> nat list \<times> amdgv_sched \<Rightarrow> (nat list \<times> amdgv_sched) cres" where
  "pop_event rptr = (\<lambda>(head, s). cbind (slot s rptr) (\<lambda>w. cbind (set_slot rptr (w\<lparr>w_entry := None\<rparr>) s) (\<lambda>s.
     cbind (cderef (w_entry w)) (\<lambda>a. cbind (entry_event s a) (\<lambda>_.
       Inr (head @ [a], s\<lparr>entries := (entries s)(a \<mapsto> w_event w), queue_rptr := queue_rptr s + 1\<rparr>))))))"

definition amdgv_sched_event_queue_pop_event_list :: "amdgv_sched \<Rightarrow> (nat list \<times> amdgv_sched) cres" where
  "amdgv_sched_event_queue_pop_event_list s = ring_loop pop_event (queue_wptr s) (queue_rptr s) ([], s)"

definition amdgv_sched_event_queue_empty :: "amdgv_sched \<Rightarrow> bool" where
  "amdgv_sched_event_queue_empty s \<longleftrightarrow> queue_rptr s = queue_wptr s"

definition amdgv_sched_free_event :: "nat \<Rightarrow> amdgv_sched \<Rightarrow> amdgv_sched cres" where
  "amdgv_sched_free_event = oss_free_entry"

definition match_event :: "amdgv_sched_event_id \<Rightarrow> u32 \<Rightarrow> amdgv_sched_event \<Rightarrow> bool" where
  "match_event event_id idx_vf e \<longleftrightarrow> se_id e = event_id \<and> se_idx_vf e = idx_vf"

fun find_in_list :: "amdgv_sched \<Rightarrow> (amdgv_sched_event \<Rightarrow> bool) \<Rightarrow> nat list \<Rightarrow> bool cres" where
  "find_in_list s P [] = Inr False"
| "find_in_list s P (a # as) = cbind (entry_event s a) (\<lambda>e. if P e then Inr True else find_in_list s P as)"

definition amdgv_sched_is_find_event :: "amdgv_sched \<Rightarrow> u32 \<Rightarrow> amdgv_sched_event_id \<Rightarrow> bool cres" where
  "amdgv_sched_is_find_event s idx_vf event_id =
     cbind (ring_loop (\<lambda>ptr found. if found then Inr True
         else cbind (slot s ptr) (\<lambda>w. Inr (match_event event_id idx_vf (w_event w))))
       (queue_wptr s) (queue_rptr s) False)
     (\<lambda>found. if found then Inr True
       else find_in_list s (match_event event_id idx_vf) (concat (map (event_list s) event_lists)))"

definition mark_slot :: "amdgv_sched_event \<Rightarrow> amdgv_event_status \<Rightarrow> bool \<Rightarrow> u8 \<Rightarrow> amdgv_sched \<Rightarrow> amdgv_sched cres" where
  "mark_slot event status match_idx_vf rptr s = cbind (slot s rptr) (\<lambda>w.
     if se_id (w_event w) \<noteq> se_id event then Inr s
     else if match_idx_vf \<and> se_idx_vf (w_event w) \<noteq> se_idx_vf event then Inr s
     else set_slot rptr (w\<lparr>w_event := (w_event w)\<lparr>se_status := status\<rparr>\<rparr>) s)"

definition amdgv_sched_mark_event_in_ring :: "amdgv_sched_event \<Rightarrow> amdgv_event_status \<Rightarrow> bool \<Rightarrow> amdgv_sched \<Rightarrow>
    amdgv_sched cres" where
  "amdgv_sched_mark_event_in_ring event status match_idx_vf s =
     ring_loop (mark_slot event status match_idx_vf) (queue_wptr s) (queue_rptr s) s"

section \<open>The lists\<close>

fun finish_entries :: "amdgv_sched_event_id \<Rightarrow> nat list \<Rightarrow> amdgv_sched \<Rightarrow> amdgv_sched cres" where
  "finish_entries event_id [] s = Inr s"
| "finish_entries event_id (a # as) s = cbind (entry_event s a) (\<lambda>e. finish_entries event_id as
     (if se_id e = event_id then s\<lparr>entries := (entries s)(a \<mapsto> e\<lparr>se_status := AMDGV_EVENT_STATUS_FINISHED\<rparr>)\<rparr> else s))"

definition amdgv_sched_finish_event :: "amdgv_sched_event_list \<Rightarrow> amdgv_sched_event \<Rightarrow> amdgv_sched \<Rightarrow> amdgv_sched cres" where
  "amdgv_sched_finish_event l event s = finish_entries (se_id event) (event_list s l) s"

fun finish_stale :: "(amdgv_sched_event_id \<times> amdgv_sched_event_list) list \<Rightarrow> amdgv_sched \<Rightarrow> amdgv_sched cres" where
  "finish_stale [] s = Inr s"
| "finish_stale ((event_id, l) # rest) s =
     (let e = blank_event\<lparr>se_idx_vf := AMDGV_PF_IDX, se_id := event_id\<rparr> in
      cbind (amdgv_sched_finish_event l e s) (\<lambda>s.
      cbind (amdgv_sched_mark_event_in_ring e AMDGV_EVENT_STATUS_FINISHED False s) (finish_stale rest)))"

definition amdgv_sched_remove_stale_events_after_wgr :: "amdgv_sched \<Rightarrow> amdgv_sched cres" where
  "amdgv_sched_remove_stale_events_after_wgr = finish_stale
     [(AMDGV_EVENT_SCHED_FORCE_RESET_GPU, AMDGV_SCHED_EVENT_LIST_0),
      (AMDGV_EVENT_SCHED_FORCE_RESET_GPU_INTERNAL, AMDGV_SCHED_EVENT_LIST_0),
      (AMDGV_EVENT_SCHED_RAS_POISON_CONSUMPTION, AMDGV_SCHED_EVENT_LIST_0),
      (AMDGV_EVENT_SCHED_RAS_POISON_CREATION, AMDGV_SCHED_EVENT_LIST_0),
      (AMDGV_EVENT_SCHED_VF_REQ_RAS_ERROR_COUNT, AMDGV_SCHED_EVENT_LIST_4),
      (AMDGV_EVENT_SCHED_VF_REQ_RAS_CPER_DUMP, AMDGV_SCHED_EVENT_LIST_4),
      (AMDGV_EVENT_SCHED_VF_REQ_RAS_BAD_PAGES, AMDGV_SCHED_EVENT_LIST_4),
      (AMDGV_EVENT_SCHED_VF_REQ_RAS_CHK_CRITI_REGION, AMDGV_SCHED_EVENT_LIST_4)]"

text \<open>The safe walk of \<^verbatim>\<open>amdgv_sched_remove_duplicated_event\<close> over the entries \<open>as\<close>; \<open>kept\<close> are those it has left in.\<close>

fun remove_duplicates :: "amdgv_sched_event_list \<Rightarrow> nat \<Rightarrow> nat list \<Rightarrow> nat list \<Rightarrow> amdgv_sched \<Rightarrow> amdgv_sched cres" where
  "remove_duplicates l new kept [] s = Inr s"
| "remove_duplicates l new kept (a # as) s = cbind (entry_event s a) (\<lambda>e. cbind (entry_event s new) (\<lambda>n.
     if se_idx_vf e = se_idx_vf n
     then cbind (oss_free_entry a (s\<lparr>event_list := (event_list s)(l := kept @ as)\<rparr>)) (remove_duplicates l new kept as)
     else remove_duplicates l new (kept @ [a]) as s))"

definition amdgv_sched_remove_duplicated_event :: "amdgv_sched_event_list \<Rightarrow> nat \<Rightarrow> amdgv_sched \<Rightarrow> amdgv_sched cres" where
  "amdgv_sched_remove_duplicated_event l new s = remove_duplicates l new [] (event_list s l) s"

text \<open>\<^verbatim>\<open>amdgv_live_migration_abort_check\<close>: the phases in which a migration is aborted, by the events of all VFs and of one.\<close>

definition migrating :: "amdgv_vf_migration_state \<Rightarrow> bool" where
  "migrating m \<longleftrightarrow> mig_phase m = AMDGV_MIGRATION_VF_STATE_PRE_COPY \<or> mig_phase m = AMDGV_MIGRATION_VF_STATE_STOP_COPY"

definition abort_vf :: "nat \<Rightarrow> amdgv_sched \<Rightarrow> amdgv_sched cres" where
  "abort_vf i s = cbind (cread (mig_state s) i) (\<lambda>m. Inr (if migrating m
     then s\<lparr>mig_state := (mig_state s)[i := m\<lparr>mig_aborted := True, mig_is_target := False\<rparr>]\<rparr> else s))"

fun abort_vfs :: "nat \<Rightarrow> nat \<Rightarrow> amdgv_sched \<Rightarrow> amdgv_sched cres" where
  "abort_vfs i 0 s = Inr s"
| "abort_vfs i (Suc m) s = cbind (abort_vf i s) (abort_vfs (Suc i) m)"

definition amdgv_live_migration_abort_check :: "u32 \<Rightarrow> amdgv_sched_event_id \<Rightarrow> amdgv_sched \<Rightarrow> amdgv_sched cres" where
  "amdgv_live_migration_abort_check idx_vf event_id s =
     (if idx_vf = AMDGV_PF_IDX then Inr s
      else if event_id \<in> {AMDGV_EVENT_SCHED_FORCE_RESET_GPU, AMDGV_EVENT_SCHED_FORCE_RESET_GPU_INTERNAL,
          AMDGV_EVENT_SCHED_RMA, AMDGV_EVENT_SCHED_RAS_FED, AMDGV_EVENT_SCHED_RAS_POISON_CREATION}
      then abort_vfs 0 (unat (sched_num_vf s)) s
      else if event_id \<in> {AMDGV_EVENT_REQ_GPU_INIT, AMDGV_EVENT_REL_GPU_INIT, AMDGV_EVENT_REQ_GPU_FINI,
          AMDGV_EVENT_REL_GPU_FINI, AMDGV_EVENT_REQ_GPU_RESET, AMDGV_EVENT_REQ_GPU_INIT_DATA,
          AMDGV_EVENT_SCHED_FORCE_RESET_VF, AMDGV_EVENT_SCHED_RESET_VF, AMDGV_EVENT_HW_SCHED_RESET_VF,
          AMDGV_EVENT_SCHED_REMOVE_VF, AMDGV_EVENT_SCHED_STOP_VF, AMDGV_EVENT_SCHED_RAS_UMC,
          AMDGV_EVENT_SCHED_SUSPEND_LIVE, AMDGV_EVENT_SCHED_RESUME_LIVE, AMDGV_EVENT_SCHED_FW_LIVE_UPDATE_DFC,
          AMDGV_EVENT_HANDLE_CRASH, AMDGV_EVENT_SCHED_RAS_POISON_CONSUMPTION,
          AMDGV_EVENT_SCHED_VF_REQ_GPU_INIT_XCHG_REGION}
      then abort_vf (unat idx_vf) s
      else Inr s)"

definition arrange_event :: "nat \<Rightarrow> amdgv_sched \<Rightarrow> amdgv_sched cres" where
  "arrange_event a s = cbind (entry_event s a) (\<lambda>e. cbind (case arrange_case (se_id e) of
         Some (l, dup) \<Rightarrow> cbind (if dup then amdgv_sched_remove_duplicated_event l a s else Inr s) (\<lambda>s.
           Inr (s\<lparr>event_list := (event_list s)(l := event_list s l @ [a])\<rparr>))
       | None \<Rightarrow> oss_free_entry a s)
     (\<lambda>s. if live_migration s
       then cbind (entry_event s a) (\<lambda>e. amdgv_live_migration_abort_check (se_idx_vf e) (se_id e) s)
       else Inr s))"

fun arrange_events :: "nat list \<Rightarrow> amdgv_sched \<Rightarrow> amdgv_sched cres" where
  "arrange_events [] s = Inr s"
| "arrange_events (a # as) s = cbind (arrange_event a s) (arrange_events as)"

definition amdgv_sched_event_arrange_event_list :: "nat list \<Rightarrow> amdgv_sched \<Rightarrow> amdgv_sched cres" where
  "amdgv_sched_event_arrange_event_list head s = cbind (arrange_events head s) (\<lambda>s.
     Inr (s\<lparr>curr_event_list_idx := AMDGV_SCHED_EVENT_LIST_0, next_event := None\<rparr>))"

section \<open>Picking up and pushing back\<close>

definition take_new_events :: "amdgv_sched \<Rightarrow> amdgv_sched cres" where
  "take_new_events s = (if amdgv_sched_event_queue_empty s then Inr s
     else cbind (amdgv_sched_event_queue_pop_event_list s) (\<lambda>(head, s). amdgv_sched_event_arrange_event_list head s))"

definition first_non_empty :: "amdgv_sched \<Rightarrow> amdgv_sched_event_list list \<Rightarrow> amdgv_sched_event_list option" where
  "first_non_empty s ls = find (\<lambda>l. event_list s l \<noteq> []) ls"

definition choose_event :: "amdgv_sched \<Rightarrow> (nat \<times> amdgv_sched) option" where
  "choose_event s = (case next_event s of
       Some a \<Rightarrow> Some (a, s)
     | None \<Rightarrow> (case first_non_empty s event_lists of
         None \<Rightarrow> None
       | Some l \<Rightarrow> Some (hd (event_list s l), s\<lparr>curr_event_list_idx := l\<rparr>)))"

text \<open>The entries behind \<open>a\<close> in its list.\<close>

definition behind :: "nat \<Rightarrow> nat list \<Rightarrow> nat list" where
  "behind a xs = tl (dropWhile (\<lambda>x. x \<noteq> a) xs)"

definition advance_next :: "nat \<Rightarrow> amdgv_sched \<Rightarrow> amdgv_sched" where
  "advance_next a s = (let i = curr_event_list_idx s in
     case behind a (event_list s i) of
       b # _ \<Rightarrow> s\<lparr>next_event := Some b\<rparr>
     | [] \<Rightarrow> (case first_non_empty s (filter (\<lambda>l. i < l) event_lists) of
         None \<Rightarrow> s\<lparr>curr_event_list_idx := AMDGV_SCHED_EVENT_LIST_0, next_event := None\<rparr>
       | Some l \<Rightarrow> s\<lparr>curr_event_list_idx := l, next_event := Some (hd (event_list s l))\<rparr>))"

text \<open>An entry that is not in the current list has stale links: a fault, which the invariant excludes.\<close>

definition amdgv_sched_pick_up_next_event :: "amdgv_sched \<Rightarrow> (nat option \<times> amdgv_sched) cres" where
  "amdgv_sched_pick_up_next_event s = cbind (take_new_events s) (\<lambda>s. case choose_event s of
       None \<Rightarrow> Inr (None, s)
     | Some (a, s) \<Rightarrow>
         let i = curr_event_list_idx s in
         if a \<notin> set (event_list s i) then Inl Use_After_Free
         else Inr (Some a, (advance_next a s)\<lparr>event_list := (event_list s)(i := remove1 a (event_list s i))\<rparr>))"

definition amdgv_sched_push_back_event :: "nat \<Rightarrow> amdgv_sched \<Rightarrow> amdgv_sched cres" where
  "amdgv_sched_push_back_event a s = cbind (entry_event s a) (\<lambda>e. case push_back_case (se_id e) of
       None \<Rightarrow> oss_free_entry a s
     | Some l \<Rightarrow> Inr (s\<lparr>curr_event_list_idx := l, event_list := (event_list s)(l := a # event_list s l),
         next_event := Some a\<rparr>))"

section \<open>The event thread\<close>

abbreviation (input) AMDGV_EVENT_STOP_AND_RELEASE :: int where "AMDGV_EVENT_STOP_AND_RELEASE \<equiv> 1"
abbreviation (input) AMDGV_EVENT_STOP_AND_KEEP :: int where "AMDGV_EVENT_STOP_AND_KEEP \<equiv> 2"

definition release_event :: "bool \<Rightarrow> nat \<Rightarrow> amdgv_sched \<Rightarrow> amdgv_sched cres" where
  "release_event skipped a s = cbind (entry_event s a) (\<lambda>e.
     amdgv_sched_free_event a (oss_signal (se_signal e) skipped s))"

text \<open>The loop of \<^verbatim>\<open>amdgv_sched_process_event_fini\<close>; \<open>n\<close> bounds its rounds.\<close>

fun skip_events :: "nat \<Rightarrow> amdgv_sched \<Rightarrow> amdgv_sched cres" where
  "skip_events 0 s = Inl Endless_Loop"
| "skip_events (Suc n) s = cbind (amdgv_sched_pick_up_next_event s) (\<lambda>(event, s). case event of
       None \<Rightarrow> Inr s
     | Some a \<Rightarrow> cbind (release_event True a s) (skip_events n))"

definition amdgv_sched_process_event_fini :: "nat \<Rightarrow> amdgv_sched \<Rightarrow> amdgv_sched cres" where
  "amdgv_sched_process_event_fini n s = cbind (amdgv_sched_event_queue_pop_event_list s) (\<lambda>(head, s).
     cbind (amdgv_sched_event_arrange_event_list head s) (skip_events n))"

text \<open>One round of \<^verbatim>\<open>amdgv_sched_process_event\<close>. The handlers of the events are the argument \<open>handle\<close>, \<open>skip\<close> is the
  answer of \<^verbatim>\<open>amdgv_sched_should_skip_event\<close>. The result tells whether the inner loop goes on.\<close>

definition process_one :: "(nat \<Rightarrow> amdgv_sched \<Rightarrow> (int \<times> amdgv_sched) cres) \<Rightarrow> bool \<Rightarrow> nat \<Rightarrow> amdgv_sched \<Rightarrow>
    (bool \<times> amdgv_sched) cres" where
  "process_one handle skip a s = cbind (entry_event s a) (\<lambda>e.
     if skip \<or> se_status e = AMDGV_EVENT_STATUS_FINISHED \<or> unrecov_err s \<and> se_idx_vf e \<noteq> AMDGV_PF_IDX
     then cbind (release_event True a s) (\<lambda>s. Inr (True, s))
     else cbind (cread (gpu_init_data_ready s) (unat (se_idx_vf e))) (\<lambda>ready.
       let s = (if ready \<and> se_id e \<noteq> AMDGV_EVENT_REQ_GPU_INIT
         then s\<lparr>gpu_init_data_ready := (gpu_init_data_ready s)[unat (se_idx_vf e) := False]\<rparr> else s) in
       cbind (handle a s) (\<lambda>(stop, s).
         if stop = AMDGV_EVENT_STOP_AND_KEEP then Inr (False, s)
         else cbind (release_event False a s) (\<lambda>s. Inr (stop \<noteq> AMDGV_EVENT_STOP_AND_RELEASE, s)))))"

fun process_events :: "nat \<Rightarrow> (nat \<Rightarrow> amdgv_sched \<Rightarrow> (int \<times> amdgv_sched) cres) \<Rightarrow> bool \<Rightarrow> amdgv_sched \<Rightarrow>
    amdgv_sched cres" where
  "process_events 0 handle skip s = Inl Endless_Loop"
| "process_events (Suc n) handle skip s = cbind (amdgv_sched_pick_up_next_event s) (\<lambda>(event, s). case event of
       None \<Rightarrow> Inr s
     | Some a \<Rightarrow> cbind (process_one handle skip a s) (\<lambda>(more, s). if more then process_events n handle skip s else Inr s))"

fun amdgv_sched_process_event :: "nat \<Rightarrow> (nat \<Rightarrow> amdgv_sched \<Rightarrow> (int \<times> amdgv_sched) cres) \<Rightarrow> bool \<Rightarrow> amdgv_sched \<Rightarrow>
    amdgv_sched cres" where
  "amdgv_sched_process_event 0 handle skip s = Inl Endless_Loop"
| "amdgv_sched_process_event (Suc n) handle skip s = cbind (process_events (Suc n) handle skip s) (\<lambda>s.
     if \<not> lock_world_switch s \<and> \<not> amdgv_sched_event_queue_empty s then amdgv_sched_process_event n handle skip s
     else Inr s)"

end
