(* ===== verification/GV_Sched_Inv.thy ===== *)
theory GV_Sched_Inv
  imports GV_Sched_Event
begin

text \<open>
  The invariant of the event queue of the scheduler: the ring as a sequence of slots, the preservation of the
  invariant by every operation, the effect of arranging on the lists of events, the agenda that the picks follow, and
  the draining of the queue.
\<close>

section \<open>The ring as a sequence of slots\<close>

definition ring_ids :: "u8 \<Rightarrow> u8 \<Rightarrow> u8 list" where
  "ring_ids wptr rptr = map (\<lambda>i. rptr + of_nat i) [0..<unat (wptr - rptr)]"

lemma ring_ids_self [simp]: "ring_ids wptr wptr = []"
  by (simp add: ring_ids_def)

lemma u8_minus_one: "(x :: u8) \<noteq> 0 \<Longrightarrow> unat x = Suc (unat (x - 1))"
  using unat_sub [of 1 x] by (simp add: word_le_nat_alt unat_gt_0 Suc_le_eq)

lemma ring_ids_Cons:
  assumes "wptr \<noteq> rptr"
  shows "ring_ids wptr rptr = rptr # ring_ids wptr (rptr + 1)"
proof -
  have e: "wptr - (rptr + 1) = wptr - rptr - 1" by (simp add: algebra_simps)
  have "wptr - rptr \<noteq> 0" using assms by simp
  then have n: "unat (wptr - rptr) = Suc (unat (wptr - (rptr + 1)))" unfolding e by (rule u8_minus_one)
  show ?thesis
    unfolding ring_ids_def n by (simp only: upt_conv_Cons zero_less_Suc map_Suc_upt [symmetric] list.map map_map o_def)
      (simp add: algebra_simps)
qed

lemma u8_of_nat: "i < 256 \<Longrightarrow> unat (of_nat i :: u8) = i"
  by (simp add: unsigned_of_nat take_bit_nat_eq_self)

lemma unat_lt_256 [simp]: "unat (x :: u8) < 256"
  using unsigned_less [of x] by simp

lemma ring_ids_distinct: "distinct (ring_ids wptr rptr)"
proof -
  have "inj_on (\<lambda>i. rptr + of_nat i) {0..<unat (wptr - rptr)}"
  proof (rule inj_onI)
    fix i j
    assume ij: "i \<in> {0..<unat (wptr - rptr)}" "j \<in> {0..<unat (wptr - rptr)}" and "rptr + of_nat i = rptr + of_nat j"
    then have "(of_nat i :: u8) = of_nat j" by simp
    moreover have "i < 256" "j < 256" using ij by (auto intro: less_trans [OF _ unat_lt_256])
    from this [THEN u8_of_nat] have "unat (of_nat i :: u8) = i" "unat (of_nat j :: u8) = j" .
    ultimately show "i = j" by metis
  qed
  then show ?thesis by (simp add: ring_ids_def distinct_map)
qed

lemma ring_ids_snoc:
  assumes "wptr + 1 \<noteq> rptr"
  shows "ring_ids (wptr + 1) rptr = ring_ids wptr rptr @ [wptr]"
proof -
  have "wptr + 1 - rptr \<noteq> 0" using assms by (simp add: algebra_simps)
  from u8_minus_one [OF this] have n: "unat (wptr + 1 - rptr) = Suc (unat (wptr - rptr))" by (simp add: algebra_simps)
  show ?thesis unfolding ring_ids_def n by simp
qed

lemma ring_ids_last_free: "wptr \<notin> set (ring_ids wptr rptr)"
proof
  assume "wptr \<in> set (ring_ids wptr rptr)"
  then obtain i where i: "i < unat (wptr - rptr)" "wptr = rptr + of_nat i" by (auto simp: ring_ids_def)
  have "i < 256" using i(1) by (rule less_trans) simp
  moreover have "wptr - rptr = of_nat i" using i(2) by simp
  ultimately show False using i(1) u8_of_nat [of i] by simp
qed

fun cfold :: "('a \<Rightarrow> 's \<Rightarrow> 's cres) \<Rightarrow> 'a list \<Rightarrow> 's \<Rightarrow> 's cres" where
  "cfold f [] s = Inr s"
| "cfold f (x # xs) s = cbind (f x s) (cfold f xs)"

lemma ring_loop_ids: "ring_loop f wptr rptr s = cfold f (ring_ids wptr rptr) s"
proof (induction f wptr rptr s rule: ring_loop.induct)
  case (1 f wptr rptr s)
  show ?case
  proof (cases "wptr = rptr")
    case True
    then show ?thesis by (simp add: ring_loop.simps)
  next
    case False
    then have "ring_loop f wptr rptr s = cbind (f rptr s) (ring_loop f wptr (rptr + 1))" by (simp add: ring_loop.simps)
    moreover have "ring_loop f wptr (rptr + 1) = cfold f (ring_ids wptr (rptr + 1))" using 1 False by blast
    ultimately show ?thesis using False by (simp add: ring_ids_Cons)
  qed
qed

section \<open>Well-formed states\<close>

definition ring_slots :: "amdgv_sched \<Rightarrow> amdgv_sched_event_wrapper list" where
  "ring_slots s = (case event_queue s of Queue ws \<Rightarrow> map (\<lambda>i. ws ! unat i) (ring_ids (queue_wptr s) (queue_rptr s)) | _ \<Rightarrow> [])"

definition queue_entries :: "amdgv_sched \<Rightarrow> nat list" where
  "queue_entries s = map (\<lambda>w. the (w_entry w)) (ring_slots s)"

definition queue_events :: "amdgv_sched \<Rightarrow> amdgv_sched_event list" where
  "queue_events s = map w_event (ring_slots s)"

definition listed :: "amdgv_sched \<Rightarrow> nat list" where
  "listed s = concat (map (event_list s) event_lists)"

definition event_ring_ok :: "amdgv_sched \<Rightarrow> bool" where
  "event_ring_ok s \<longleftrightarrow> (\<exists>ws. event_queue s = Queue ws \<and> length ws = 256) \<and> (\<forall>w \<in> set (ring_slots s). w_entry w \<noteq> None)"

text \<open>\<open>H\<close> are the entries that the event thread holds. Every live entry is held, queued or listed, exactly once.\<close>

definition sched_ok :: "nat set \<Rightarrow> amdgv_sched \<Rightarrow> bool" where
  "sched_ok H s \<longleftrightarrow> event_ring_ok s \<and> distinct (queue_entries s @ listed s) \<and> H \<inter> set (queue_entries s @ listed s) = {} \<and>
     dom (entries s) = H \<union> set (queue_entries s @ listed s) \<and>
     (\<forall>l. \<forall>a \<in> set (event_list s l). \<exists>e. entries s a = Some e \<and> map_option fst (arrange_case (se_id e)) = Some l) \<and>
     (\<forall>a. next_event s = Some a \<longrightarrow> a \<in> set (event_list s (curr_event_list_idx s))) \<and> \<not> live_migration s"

lemma set_event_lists [simp]: "set event_lists = UNIV"
proof -
  have "l \<in> set event_lists" for l by (cases l) (simp_all add: event_lists_def)
  then show ?thesis by blast
qed

lemma distinct_event_lists [simp]: "distinct event_lists"
  by (simp add: event_lists_def)

lemma sorted_event_lists: "sorted event_lists"
  by (simp add: event_lists_def less_eq_amdgv_sched_event_list_def)

lemma set_listed: "set (listed s) = (\<Union>l. set (event_list s l))"
  by (simp add: listed_def)

text \<open>The two lists of cases agree but for the four requests of a VF that \<^verbatim>\<open>push_back\<close> lacks.\<close>

definition push_back_lacks :: "amdgv_sched_event_id set" where
  "push_back_lacks = {AMDGV_EVENT_SCHED_VF_REQ_RAS_ERROR_COUNT, AMDGV_EVENT_SCHED_VF_REQ_RAS_CPER_DUMP,
     AMDGV_EVENT_SCHED_VF_REQ_RAS_BAD_PAGES, AMDGV_EVENT_SCHED_VF_REQ_RAS_CHK_CRITI_REGION}"

lemma push_back_arrange:
  "push_back_case i = (if i \<in> push_back_lacks then None else map_option fst (arrange_case i))"
  unfolding push_back_case_def arrange_case_def push_back_lacks_def
  by (simp only: insert_iff empty_iff) (auto split: if_splits)

section \<open>Push and pop\<close>

lemma ring_slots_Queue: "event_queue s = Queue ws \<Longrightarrow>
    ring_slots s = map (\<lambda>i. ws ! unat i) (ring_ids (queue_wptr s) (queue_rptr s))"
  by (simp add: ring_slots_def)

lemma u8_in_256 [simp]: "length ws = 256 \<Longrightarrow> unat (i :: u8) < length ws"
  using unat_lt_256 [of i] by simp

text \<open>A change of a slot outside the pending part of the ring.\<close>

lemma ring_slots_outside:
  assumes "event_queue s = Queue ws" "length ws = 256" "i \<notin> set (ring_ids (queue_wptr s) (queue_rptr s))"
  shows "ring_slots (s\<lparr>event_queue := Queue (ws[unat i := w])\<rparr>) = ring_slots s"
proof -
  have "ws[unat i := w] ! unat j = ws ! unat j" if j: "j \<in> set (ring_ids (queue_wptr s) (queue_rptr s))" for j
  proof -
    have "i \<noteq> j" using j assms(3) by blast
    then have "unat i \<noteq> unat j" by (simp add: word_unat_eq_iff)
    then show ?thesis by simp
  qed
  then show ?thesis using assms(1) by (simp add: ring_slots_def)
qed

lemma sched_ok_queue:
  assumes "sched_ok H s"
  obtains ws where "event_queue s = Queue ws" "length ws = 256"
  using assms by (auto simp: sched_ok_def event_ring_ok_def)

lemma ring_full: "length (ring_ids wptr rptr) = 255 \<longleftrightarrow> wptr + 1 = rptr"
proof -
  have "wptr + 1 = rptr \<longleftrightarrow> wptr - rptr = - 1" by (auto simp: algebra_simps)
  also have "\<dots> \<longleftrightarrow> unat (wptr - rptr) = unat (- 1 :: u8)" by (simp only: word_unat_eq_iff)
  also have "unat (- 1 :: u8) = 255" by (simp add: unsigned_minus_1_eq_mask mask_eq_exp_minus_1)
  finally show ?thesis by (simp add: ring_ids_def)
qed

definition pushed :: "u64 \<Rightarrow> u32 \<Rightarrow> amdgv_sched_event_id \<Rightarrow> u32 \<Rightarrow> nat option \<Rightarrow> amdgv_sched_event_data \<Rightarrow> amdgv_sched_event" where
  "pushed now idx_vf event_id sched_block signal data = \<lparr>se_idx_vf = idx_vf, se_id = event_id,
     se_status = AMDGV_EVENT_STATUS_NORMAL, se_sched_block = sched_block, se_timestamp = now, se_signal = signal, se_data = data\<rparr>"

definition push_refused :: "nat option \<Rightarrow> amdgv_sched_event_id \<Rightarrow> amdgv_sched \<Rightarrow> bool" where
  "push_refused mem event_id s \<longleftrightarrow> event_id \<noteq> AMDGV_EVENT_EXIT_POWER_SAVING \<and> is_in_powersaving s \<or>
     length (queue_events s) = 255 \<or> mem = None"

lemma length_queue: "event_ring_ok s \<Longrightarrow> length (queue_events s) = length (ring_ids (queue_wptr s) (queue_rptr s))"
  by (auto simp: queue_events_def event_ring_ok_def ring_slots_def)

lemma push_ok:
  assumes ok: "sched_ok H s" and fresh: "\<forall>a. mem = Some a \<longrightarrow> a \<notin> dom (entries s)"
  shows "\<exists>r s'. amdgv_sched_event_queue_push_ex now mem idx_vf event_id sched_block signal data wake s = Inr (r, s') \<and>
    sched_ok H s' \<and> event_list s' = event_list s \<and> next_event s' = next_event s \<and>
    curr_event_list_idx s' = curr_event_list_idx s \<and> signals s' = signals s \<and>
    is_in_powersaving s' = is_in_powersaving s \<and> dom (entries s') \<subseteq> dom (entries s) \<union> set_option mem \<and>
    (\<forall>a. a \<in> dom (entries s) \<longrightarrow> entries s' a = entries s a) \<and>
    (if push_refused mem event_id s then r = AMDGV_FAILURE \<and> queue_events s' = queue_events s
     else r = 0 \<and> queue_events s' = queue_events s @ [pushed now idx_vf event_id sched_block signal data])"
proof -
  obtain ws where ws: "event_queue s = Queue ws" "length ws = 256" using ok by (rule sched_ok_queue)
  have rok: "event_ring_ok s" using ok by (simp add: sched_ok_def)
  have full: "length (queue_events s) = 255 \<longleftrightarrow> queue_wptr s + 1 = queue_rptr s"
    by (simp add: length_queue [OF rok] ring_full)
  let ?w = "ws ! unat (queue_wptr s)"
  consider (power) "event_id \<noteq> AMDGV_EVENT_EXIT_POWER_SAVING \<and> is_in_powersaving s"
    | (full) "\<not> (event_id \<noteq> AMDGV_EVENT_EXIT_POWER_SAVING \<and> is_in_powersaving s)" "queue_wptr s + 1 = queue_rptr s"
    | (nomem) "\<not> (event_id \<noteq> AMDGV_EVENT_EXIT_POWER_SAVING \<and> is_in_powersaving s)" "queue_wptr s + 1 \<noteq> queue_rptr s" "mem = None"
    | (go) a where "\<not> (event_id \<noteq> AMDGV_EVENT_EXIT_POWER_SAVING \<and> is_in_powersaving s)" "queue_wptr s + 1 \<noteq> queue_rptr s" "mem = Some a"
    by (cases mem) blast+
  then show ?thesis
  proof cases
    case power
    then have "amdgv_sched_event_queue_push_ex now mem idx_vf event_id sched_block signal data wake s = Inr (AMDGV_FAILURE, s)"
      by (simp add: amdgv_sched_event_queue_push_ex_def)
    then show ?thesis using ok power unfolding push_refused_def by auto
  next
    case full
    then have "amdgv_sched_event_queue_push_ex now mem idx_vf event_id sched_block signal data wake s = Inr (AMDGV_FAILURE, s)"
      by (simp add: amdgv_sched_event_queue_push_ex_def)
    then show ?thesis using ok full \<open>length (queue_events s) = 255 \<longleftrightarrow> _\<close> unfolding push_refused_def by auto
  next
    case nomem
    let ?s = "s\<lparr>event_queue := Queue (ws[unat (queue_wptr s) := ?w\<lparr>w_entry := None\<rparr>])\<rparr>"
    have "amdgv_sched_event_queue_push_ex now mem idx_vf event_id sched_block signal data wake s = Inr (AMDGV_FAILURE, ?s)"
      using nomem unfolding amdgv_sched_event_queue_push_ex_def Let_def
      by (simp only: if_False) (simp add: slot_def set_slot_def slots_def ws)
    moreover have r: "ring_slots ?s = ring_slots s"
      by (rule ring_slots_outside [OF ws]) (rule ring_ids_last_free)
    ultimately show ?thesis using ok nomem unfolding push_refused_def
      by (auto simp: sched_ok_def event_ring_ok_def queue_entries_def queue_events_def r listed_def ws)
  next
    case (go a)
    define e where "e = pushed now idx_vf event_id sched_block signal data"
    let ?ws = "ws[unat (queue_wptr s) := \<lparr>w_event = e, w_entry = Some a\<rparr>]"
    let ?t = "s\<lparr>event_queue := Queue ?ws, entries := (entries s)(a \<mapsto> blank_event), queue_wptr := queue_wptr s + 1\<rparr>"
    let ?s = "if wake then ?t\<lparr>event_thread_status := (if event_thread_status s = AMDGV_EVENT_THREAD_IDLE
                      then AMDGV_EVENT_THREAD_WAKINGUP else event_thread_status s), event_set := True\<rparr> else ?t"
    have run: "amdgv_sched_event_queue_push_ex now mem idx_vf event_id sched_block signal data wake s = Inr (0, ?s)"
      using go unfolding amdgv_sched_event_queue_push_ex_def Let_def
      by (simp only: if_False) (simp add: slot_def set_slot_def slots_def ws e_def pushed_def)
    have slots: "ring_slots ?t = ring_slots s @ [\<lparr>w_event = e, w_entry = Some a\<rparr>]"
    proof -
      have "ring_slots ?t = map (\<lambda>i. ?ws ! unat i) (ring_ids (queue_wptr s) (queue_rptr s)) @ [\<lparr>w_event = e, w_entry = Some a\<rparr>]"
        using go(2) ws by (simp add: ring_slots_def ring_ids_snoc)
      also have "map (\<lambda>i. ?ws ! unat i) (ring_ids (queue_wptr s) (queue_rptr s)) = ring_slots s"
        using ring_slots_outside [OF ws ring_ids_last_free [of _ "queue_rptr s"]] by (simp add: ring_slots_def ws)
      finally show ?thesis .
    qed
    have "ring_slots ?s = ring_slots ?t" by (simp add: ring_slots_def)
    with slots have slots: "ring_slots ?s = ring_slots s @ [\<lparr>w_event = e, w_entry = Some a\<rparr>]" by simp
    have "a \<notin> dom (entries s)" using fresh go(3) by blast
    then have "sched_ok H ?s"
      using ok ws slots unfolding sched_ok_def event_ring_ok_def queue_entries_def
      by (auto simp: listed_def queue_events_def)
    moreover have "\<not> push_refused mem event_id s" using go full unfolding push_refused_def by auto
    moreover have "queue_events ?s = queue_events s @ [e]" using slots by (simp add: queue_events_def)
    moreover have "\<forall>b. b \<in> dom (entries s) \<longrightarrow> entries ?s b = entries s b" using \<open>a \<notin> dom (entries s)\<close> by auto
    moreover have "event_list ?s = event_list s" "next_event ?s = next_event s"
      "curr_event_list_idx ?s = curr_event_list_idx s" "signals ?s = signals s" "is_in_powersaving ?s = is_in_powersaving s"
      "dom (entries ?s) \<subseteq> dom (entries s) \<union> set_option mem" using go(3) by auto
    ultimately show ?thesis using run unfolding e_def by auto
  qed
qed

text \<open>Popping moves the queued events into their entries, which the event thread then holds.\<close>

lemma pop_ids:
  assumes "event_queue s = Queue ws" "length ws = 256" "distinct ids" "\<forall>i \<in> set ids. \<exists>a \<in> dom (entries s). w_entry (ws ! unat i) = Some a"
    "distinct (map (\<lambda>i. the (w_entry (ws ! unat i))) ids)"
  shows "\<exists>s'. cfold pop_event ids (head, s) = Inr (head @ map (\<lambda>i. the (w_entry (ws ! unat i))) ids, s') \<and>
    (\<exists>ws'. event_queue s' = Queue ws' \<and> length ws' = 256) \<and> queue_rptr s' = queue_rptr s + of_nat (length ids) \<and>
    queue_wptr s' = queue_wptr s \<and> (\<forall>i \<in> set ids. entries s' (the (w_entry (ws ! unat i))) = Some (w_event (ws ! unat i))) \<and>
    (\<forall>a. a \<notin> (\<lambda>i. the (w_entry (ws ! unat i))) ` set ids \<longrightarrow> entries s' a = entries s a) \<and>
    event_list s' = event_list s \<and> next_event s' = next_event s \<and> curr_event_list_idx s' = curr_event_list_idx s \<and>
    signals s' = signals s \<and> live_migration s' = live_migration s"
  using assms
proof (induction ids arbitrary: head s ws)
  case Nil
  then show ?case by simp
next
  case (Cons i ids)
  let ?a = "the (w_entry (ws ! unat i))"
  let ?ws = "ws[unat i := (ws ! unat i)\<lparr>w_entry := None\<rparr>]"
  let ?s = "s\<lparr>event_queue := Queue ?ws, entries := (entries s)(?a \<mapsto> w_event (ws ! unat i)), queue_rptr := queue_rptr s + 1\<rparr>"
  from Cons.prems(4) obtain a e where a: "w_entry (ws ! unat i) = Some a" "entries s a = Some e" by auto
  have step: "pop_event i (head, s) = Inr (head @ [?a], ?s)"
    using Cons.prems(1,2) a by (simp add: pop_event_def slot_def set_slot_def slots_def entry_event_def)
  have same: "?ws ! unat j = ws ! unat j" if j: "j \<in> set ids" for j
  proof -
    have "i \<noteq> j" using j Cons.prems(3) by auto
    then show ?thesis by (simp add: word_unat_eq_iff)
  qed
  have maps: "map (\<lambda>i. the (w_entry (?ws ! unat i))) ids = map (\<lambda>i. the (w_entry (ws ! unat i))) ids" using same by simp
  have "\<exists>s'. cfold pop_event ids (head @ [?a], ?s) = Inr ((head @ [?a]) @ map (\<lambda>i. the (w_entry (?ws ! unat i))) ids, s') \<and>
    (\<exists>ws'. event_queue s' = Queue ws' \<and> length ws' = 256) \<and> queue_rptr s' = queue_rptr ?s + of_nat (length ids) \<and>
    queue_wptr s' = queue_wptr ?s \<and> (\<forall>i \<in> set ids. entries s' (the (w_entry (?ws ! unat i))) = Some (w_event (?ws ! unat i))) \<and>
    (\<forall>a. a \<notin> (\<lambda>i. the (w_entry (?ws ! unat i))) ` set ids \<longrightarrow> entries s' a = entries ?s a) \<and>
    event_list s' = event_list ?s \<and> next_event s' = next_event ?s \<and> curr_event_list_idx s' = curr_event_list_idx ?s \<and>
    signals s' = signals ?s \<and> live_migration s' = live_migration ?s"
  proof (rule Cons.IH)
    show "\<forall>j \<in> set ids. \<exists>a \<in> dom (entries ?s). w_entry (?ws ! unat j) = Some a" using same Cons.prems(4) by auto
    show "distinct (map (\<lambda>i. the (w_entry (?ws ! unat i))) ids)" unfolding maps using Cons.prems(5) by simp
  qed (use Cons.prems in simp_all)
  then obtain s' where s': "cfold pop_event ids (head @ [?a], ?s) = Inr ((head @ [?a]) @ map (\<lambda>i. the (w_entry (ws ! unat i))) ids, s')"
    "\<exists>ws'. event_queue s' = Queue ws' \<and> length ws' = 256" "queue_rptr s' = queue_rptr s + 1 + of_nat (length ids)"
    "queue_wptr s' = queue_wptr s" "\<forall>i \<in> set ids. entries s' (the (w_entry (ws ! unat i))) = Some (w_event (ws ! unat i))"
    "\<forall>a. a \<notin> (\<lambda>i. the (w_entry (ws ! unat i))) ` set ids \<longrightarrow> entries s' a = entries ?s a"
    "event_list s' = event_list s" "next_event s' = next_event s" "curr_event_list_idx s' = curr_event_list_idx s"
    "signals s' = signals s" "live_migration s' = live_migration s"
    using same maps by auto
  have "?a \<notin> (\<lambda>i. the (w_entry (ws ! unat i))) ` set ids" using Cons.prems(5) by simp
  with s'(6) have "entries s' ?a = Some (w_event (ws ! unat i))" by simp
  with s' step show ?case by (intro exI [of _ s']) (auto simp: add_ac)
qed

lemma pop_ok:
  assumes ok: "sched_ok H s"
  shows "\<exists>s'. amdgv_sched_event_queue_pop_event_list s = Inr (queue_entries s, s') \<and>
    sched_ok (H \<union> set (queue_entries s)) s' \<and> queue_entries s' = [] \<and> amdgv_sched_event_queue_empty s' \<and>
    (\<forall>a. a \<notin> set (queue_entries s) \<longrightarrow> entries s' a = entries s a) \<and>
    map (entries s') (queue_entries s) = map Some (queue_events s) \<and>
    event_list s' = event_list s \<and> next_event s' = next_event s \<and> curr_event_list_idx s' = curr_event_list_idx s \<and>
    signals s' = signals s"
proof -
  obtain ws where ws: "event_queue s = Queue ws" "length ws = 256" using ok by (rule sched_ok_queue)
  let ?ids = "ring_ids (queue_wptr s) (queue_rptr s)"
  have qe: "queue_entries s = map (\<lambda>i. the (w_entry (ws ! unat i))) ?ids" "queue_events s = map (\<lambda>i. w_event (ws ! unat i)) ?ids"
    by (simp_all add: queue_entries_def queue_events_def ring_slots_def ws)
  have "\<exists>a \<in> dom (entries s). w_entry (ws ! unat i) = Some a" if i: "i \<in> set ?ids" for i
  proof -
    have "w_entry (ws ! unat i) \<noteq> None" using ok ws i by (auto simp: sched_ok_def event_ring_ok_def ring_slots_def)
    moreover have "the (w_entry (ws ! unat i)) \<in> dom (entries s)" using ok i by (auto simp: sched_ok_def qe)
    ultimately show ?thesis by auto
  qed
  moreover have "distinct (map (\<lambda>i. the (w_entry (ws ! unat i))) ?ids)" using ok by (simp add: sched_ok_def qe)
  ultimately obtain s' where s': "cfold pop_event ?ids ([], s) = Inr (queue_entries s, s')"
    "\<exists>ws'. event_queue s' = Queue ws' \<and> length ws' = 256" "queue_rptr s' = queue_rptr s + of_nat (length ?ids)"
    "queue_wptr s' = queue_wptr s" "\<forall>i \<in> set ?ids. entries s' (the (w_entry (ws ! unat i))) = Some (w_event (ws ! unat i))"
    "\<forall>a. a \<notin> set (queue_entries s) \<longrightarrow> entries s' a = entries s a"
    "event_list s' = event_list s" "next_event s' = next_event s" "curr_event_list_idx s' = curr_event_list_idx s"
    "signals s' = signals s" "live_migration s' = live_migration s"
    using pop_ids [OF ws ring_ids_distinct, of "queue_wptr s" "queue_rptr s" "[]"] by (auto simp: qe)
  have "queue_rptr s' = queue_wptr s'" unfolding s'(3,4) by (simp add: ring_ids_def)
  then have empty: "amdgv_sched_event_queue_empty s'" "ring_slots s' = []"
    using s'(2) by (auto simp: amdgv_sched_event_queue_empty_def ring_slots_def)
  have maps: "map (entries s') (queue_entries s) = map Some (queue_events s)" using s'(5) by (simp add: qe)
  have lists: "listed s' = listed s" by (simp add: listed_def s'(7))
  have dist: "set (queue_entries s) \<inter> set (listed s) = {}" using ok by (auto simp: sched_ok_def)
  have dom': "dom (entries s') = dom (entries s)"
  proof -
    have "a \<in> dom (entries s') \<longleftrightarrow> a \<in> dom (entries s)" for a
    proof (cases "a \<in> set (queue_entries s)")
      case True
      then have "a \<in> dom (entries s)" using ok by (auto simp: sched_ok_def)
      moreover have "a \<in> dom (entries s')" using s'(5) True by (auto simp: qe)
      ultimately show ?thesis by simp
    next
      case False
      then show ?thesis using s'(6) by (simp add: domIff)
    qed
    then show ?thesis by blast
  qed
  have "sched_ok (H \<union> set (queue_entries s)) s'"
    unfolding sched_ok_def
  proof (intro conjI)
    show "event_ring_ok s'" using s'(2) empty by (simp add: event_ring_ok_def)
    show "distinct (queue_entries s' @ listed s')" "(H \<union> set (queue_entries s)) \<inter> set (queue_entries s' @ listed s') = {}"
      "dom (entries s') = H \<union> set (queue_entries s) \<union> set (queue_entries s' @ listed s')"
      using ok empty dist dom' by (auto simp: sched_ok_def queue_entries_def lists)
    show "\<forall>l. \<forall>a \<in> set (event_list s' l). \<exists>e. entries s' a = Some e \<and> map_option fst (arrange_case (se_id e)) = Some l"
    proof (intro allI ballI)
      fix l a assume a: "a \<in> set (event_list s' l)"
      then have "a \<in> set (listed s)" by (auto simp: set_listed s'(7))
      then have "a \<notin> set (queue_entries s)" using dist by blast
      then show "\<exists>e. entries s' a = Some e \<and> map_option fst (arrange_case (se_id e)) = Some l"
        using a ok s'(6,7) by (auto simp: sched_ok_def)
    qed
  qed (use ok s' in \<open>simp_all add: sched_ok_def\<close>)
  moreover have "queue_entries s' = []" using empty by (simp add: queue_entries_def)
  moreover have "amdgv_sched_event_queue_pop_event_list s = Inr (queue_entries s, s')"
    unfolding amdgv_sched_event_queue_pop_event_list_def ring_loop_ids by (rule s'(1))
  ultimately show ?thesis using s' empty maps by auto
qed

section \<open>Arranging\<close>

definition list_events :: "amdgv_sched \<Rightarrow> amdgv_sched_event_list \<Rightarrow> amdgv_sched_event list" where
  "list_events s l = map (\<lambda>a. the (entries s a)) (event_list s l)"

text \<open>What arranging one event does to the lists.\<close>

definition arrange_abs :: "amdgv_sched_event \<Rightarrow> (amdgv_sched_event_list \<Rightarrow> amdgv_sched_event list) \<Rightarrow>
    amdgv_sched_event_list \<Rightarrow> amdgv_sched_event list" where
  "arrange_abs e L = (case arrange_case (se_id e) of
       None \<Rightarrow> L
     | Some (l, dup) \<Rightarrow> L(l := (if dup then filter (\<lambda>x. se_idx_vf x \<noteq> se_idx_vf e) (L l) else L l) @ [e]))"

lemma lists_upd: "s\<lparr>event_list := A, entries := B, event_list := C, entries := D\<rparr> = s\<lparr>event_list := C, entries := D\<rparr>"
  by simp

lemma remove_duplicates_ok:
  assumes "event_list s l = kept @ as" "distinct as" "entries s new = Some n" "new \<notin> set as" "set as \<subseteq> dom (entries s)"
  shows "remove_duplicates l new kept as s = Inr (s\<lparr>
      event_list := (event_list s)(l := kept @ filter (\<lambda>a. se_idx_vf (the (entries s a)) \<noteq> se_idx_vf n) as),
      entries := (\<lambda>a. if a \<in> set as \<and> se_idx_vf (the (entries s a)) = se_idx_vf n then None else entries s a)\<rparr>)"
  using assms
proof (induction as arbitrary: kept s)
  case Nil
  then have e: "(event_list s)(l := kept) = event_list s" by auto
  show ?case using Nil by (simp add: e)
next
  case (Cons a as)
  from Cons.prems(5) obtain e where e: "entries s a = Some e" by auto
  show ?case
  proof (cases "se_idx_vf e = se_idx_vf n")
    case True
    let ?s = "s\<lparr>event_list := (event_list s)(l := kept @ as), entries := (entries s)(a := None)\<rparr>"
    have "remove_duplicates l new kept (a # as) s = remove_duplicates l new kept as ?s"
      using Cons.prems e True by (simp add: entry_event_def oss_free_entry_def)
    also have "\<dots> = Inr (?s\<lparr>
      event_list := (event_list ?s)(l := kept @ filter (\<lambda>a. se_idx_vf (the (entries ?s a)) \<noteq> se_idx_vf n) as),
      entries := (\<lambda>a. if a \<in> set as \<and> se_idx_vf (the (entries ?s a)) = se_idx_vf n then None else entries ?s a)\<rparr>)"
      by (rule Cons.IH) (use Cons.prems in auto)
    also have "filter (\<lambda>a. se_idx_vf (the (entries ?s a)) \<noteq> se_idx_vf n) as = filter (\<lambda>a. se_idx_vf (the (entries s a)) \<noteq> se_idx_vf n) (a # as)"
      using Cons.prems(2) e True by (auto intro: filter_cong)
    also have "(\<lambda>b. if b \<in> set as \<and> se_idx_vf (the (entries ?s b)) = se_idx_vf n then None else entries ?s b) =
      (\<lambda>b. if b \<in> set (a # as) \<and> se_idx_vf (the (entries s b)) = se_idx_vf n then None else entries s b)"
      using Cons.prems(2) e True by auto
    also have "(event_list ?s)(l := X) = (event_list s)(l := X)" for X by simp
    finally show ?thesis by (simp only: lists_upd)
  next
    case False
    have "remove_duplicates l new kept (a # as) s = remove_duplicates l new (kept @ [a]) as s"
      using Cons.prems e False by (simp add: entry_event_def)
    also have "\<dots> = Inr (s\<lparr>
      event_list := (event_list s)(l := (kept @ [a]) @ filter (\<lambda>a. se_idx_vf (the (entries s a)) \<noteq> se_idx_vf n) as),
      entries := (\<lambda>a. if a \<in> set as \<and> se_idx_vf (the (entries s a)) = se_idx_vf n then None else entries s a)\<rparr>)"
      by (rule Cons.IH) (use Cons.prems in auto)
    also have "(\<lambda>b. if b \<in> set as \<and> se_idx_vf (the (entries s b)) = se_idx_vf n then None else entries s b) =
      (\<lambda>b. if b \<in> set (a # as) \<and> se_idx_vf (the (entries s b)) = se_idx_vf n then None else entries s b)"
      using e False by auto
    finally show ?thesis using e False by simp
  qed
qed

lemma distinct_concat_map:
  assumes "distinct xs"
  shows "distinct (concat (map f xs)) \<longleftrightarrow>
    (\<forall>x \<in> set xs. distinct (f x)) \<and> (\<forall>x \<in> set xs. \<forall>y \<in> set xs. x \<noteq> y \<longrightarrow> set (f x) \<inter> set (f y) = {})"
  using assms
proof (induction xs)
  case (Cons x xs)
  then have IH: "distinct (concat (map f xs)) \<longleftrightarrow>
    (\<forall>x \<in> set xs. distinct (f x)) \<and> (\<forall>x \<in> set xs. \<forall>y \<in> set xs. x \<noteq> y \<longrightarrow> set (f x) \<inter> set (f y) = {})" by simp
  have "set (f x) \<inter> set (concat (map f xs)) = {} \<longleftrightarrow> (\<forall>y \<in> set xs. set (f x) \<inter> set (f y) = {})" by auto
  then have "distinct (concat (map f (x # xs))) \<longleftrightarrow> distinct (f x) \<and> distinct (concat (map f xs)) \<and>
      (\<forall>y \<in> set xs. set (f x) \<inter> set (f y) = {})"
    by (simp only: list.map concat.simps distinct_append)
  moreover have "y \<noteq> x" if y: "y \<in> set xs" for y using y Cons.prems by auto
  ultimately show ?case unfolding IH by (simp add: Int_commute) blast
qed simp

lemma distinct_lists:
  "distinct (concat (map f event_lists)) \<longleftrightarrow>
     (\<forall>l. distinct (f l)) \<and> (\<forall>l m. l \<noteq> m \<longrightarrow> set (f l) \<inter> set (f m) = {})"
  using distinct_concat_map [OF distinct_event_lists, of f] by simp

lemma arrange_event_shape:
  assumes e: "entries s a = Some e" and live: "\<forall>l. set (event_list s l) \<subseteq> dom (entries s) \<and> distinct (event_list s l) \<and> a \<notin> set (event_list s l)"
    and mig: "\<not> live_migration s"
  shows "arrange_event a s = (case arrange_case (se_id e) of
      None \<Rightarrow> Inr (s\<lparr>entries := (entries s)(a := None)\<rparr>)
    | Some (l, dup) \<Rightarrow>
        let gone = (\<lambda>b. b \<in> set (event_list s l) \<and> dup \<and> se_idx_vf (the (entries s b)) = se_idx_vf e) in
        Inr (s\<lparr>event_list := (event_list s)(l := filter (\<lambda>b. \<not> gone b) (event_list s l) @ [a]),
          entries := (\<lambda>b. if gone b then None else entries s b)\<rparr>))"
proof (cases "arrange_case (se_id e)")
  case None
  then show ?thesis using e mig by (simp add: arrange_event_def entry_event_def oss_free_entry_def)
next
  case (Some x)
  obtain l dup where x: "x = (l, dup)" by fastforce
  let ?as = "event_list s l"
  show ?thesis
  proof (cases dup)
    case False
    then show ?thesis using Some x e mig by (simp add: arrange_event_def entry_event_def fun_eq_iff)
  next
    case True
    let ?s1 = "s\<lparr>event_list := (event_list s)(l := [] @ filter (\<lambda>a. se_idx_vf (the (entries s a)) \<noteq> se_idx_vf e) ?as),
      entries := (\<lambda>b. if b \<in> set ?as \<and> se_idx_vf (the (entries s b)) = se_idx_vf e then None else entries s b)\<rparr>"
    have "amdgv_sched_remove_duplicated_event l a s = Inr ?s1"
      unfolding amdgv_sched_remove_duplicated_event_def by (rule remove_duplicates_ok) (use live e in simp_all)
    then have "arrange_event a s = Inr (?s1\<lparr>event_list := (event_list ?s1)(l := event_list ?s1 l @ [a])\<rparr>)"
      using Some x True e mig by (simp add: arrange_event_def entry_event_def)
    moreover have "filter (\<lambda>a. se_idx_vf (the (entries s a)) \<noteq> se_idx_vf e) ?as =
      filter (\<lambda>b. \<not> (b \<in> set ?as \<and> True \<and> se_idx_vf (the (entries s b)) = se_idx_vf e)) ?as"
      by (rule filter_cong) auto
    ultimately show ?thesis using Some x True by simp
  qed
qed

definition core_ok :: "nat set \<Rightarrow> amdgv_sched \<Rightarrow> bool" where
  "core_ok H s \<longleftrightarrow> sched_ok H (s\<lparr>next_event := None\<rparr>)"

lemma queue_frame [simp]:
  "queue_entries (s\<lparr>next_event := x\<rparr>) = queue_entries s" "listed (s\<lparr>next_event := x\<rparr>) = listed s"
  "event_ring_ok (s\<lparr>next_event := x\<rparr>) = event_ring_ok s" "queue_events (s\<lparr>next_event := x\<rparr>) = queue_events s"
  "queue_entries (s\<lparr>event_list := f\<rparr>) = queue_entries s" "queue_entries (s\<lparr>entries := g\<rparr>) = queue_entries s"
  "queue_events (s\<lparr>event_list := f\<rparr>) = queue_events s" "queue_events (s\<lparr>entries := g\<rparr>) = queue_events s"
  "event_ring_ok (s\<lparr>event_list := f\<rparr>) = event_ring_ok s" "event_ring_ok (s\<lparr>entries := g\<rparr>) = event_ring_ok s"
  "queue_entries (s\<lparr>curr_event_list_idx := l\<rparr>) = queue_entries s" "queue_events (s\<lparr>curr_event_list_idx := l\<rparr>) = queue_events s"
  "event_ring_ok (s\<lparr>curr_event_list_idx := l\<rparr>) = event_ring_ok s" "listed (s\<lparr>curr_event_list_idx := l\<rparr>) = listed s"
  "queue_entries (s\<lparr>signals := x'\<rparr>) = queue_entries s" "queue_events (s\<lparr>signals := x'\<rparr>) = queue_events s"
  "event_ring_ok (s\<lparr>signals := x'\<rparr>) = event_ring_ok s" "listed (s\<lparr>signals := x'\<rparr>) = listed s"
  by (simp_all add: queue_entries_def queue_events_def listed_def event_ring_ok_def ring_slots_def split: queue_mem.split)

lemma core_okI: "sched_ok H s \<Longrightarrow> core_ok H s"
  by (simp add: core_ok_def sched_ok_def)

text \<open>The invariant without the cursor, list by list.\<close>

lemma core_ok_iff:
  "core_ok H s \<longleftrightarrow> event_ring_ok s \<and> distinct (queue_entries s) \<and> (\<forall>l. distinct (event_list s l)) \<and>
     (\<forall>l m. l \<noteq> m \<longrightarrow> set (event_list s l) \<inter> set (event_list s m) = {}) \<and>
     (\<forall>l. set (queue_entries s) \<inter> set (event_list s l) = {}) \<and>
     H \<inter> set (queue_entries s) = {} \<and> (\<forall>l. H \<inter> set (event_list s l) = {}) \<and>
     dom (entries s) = H \<union> set (queue_entries s) \<union> (\<Union>l. set (event_list s l)) \<and>
     (\<forall>l. \<forall>a \<in> set (event_list s l). \<exists>e. entries s a = Some e \<and> map_option fst (arrange_case (se_id e)) = Some l) \<and>
     \<not> live_migration s"
proof -
  have "distinct (queue_entries s @ listed s) \<longleftrightarrow> distinct (queue_entries s) \<and> (\<forall>l. distinct (event_list s l)) \<and>
     (\<forall>l m. l \<noteq> m \<longrightarrow> set (event_list s l) \<inter> set (event_list s m) = {}) \<and> (\<forall>l. set (queue_entries s) \<inter> set (event_list s l) = {})"
    unfolding distinct_append set_listed unfolding listed_def distinct_lists by blast
  moreover have "H \<inter> set (queue_entries s @ listed s) = {} \<longleftrightarrow> H \<inter> set (queue_entries s) = {} \<and> (\<forall>l. H \<inter> set (event_list s l) = {})"
    unfolding set_append set_listed by blast
  moreover have "H \<union> set (queue_entries s @ listed s) = H \<union> set (queue_entries s) \<union> (\<Union>l. set (event_list s l))"
    unfolding set_append set_listed by blast
  ultimately show ?thesis unfolding core_ok_def sched_ok_def by simp
qed

lemma core_okD:
  assumes "core_ok H s"
  shows "event_ring_ok s"
    "distinct (queue_entries s)"
    "\<forall>l. distinct (event_list s l)"
    "\<forall>l m. l \<noteq> m \<longrightarrow> set (event_list s l) \<inter> set (event_list s m) = {}"
    "\<forall>l. set (queue_entries s) \<inter> set (event_list s l) = {}"
    "H \<inter> set (queue_entries s) = {}"
    "\<forall>l. H \<inter> set (event_list s l) = {}"
    "dom (entries s) = H \<union> set (queue_entries s) \<union> (\<Union>l. set (event_list s l))"
    "\<forall>l. \<forall>a \<in> set (event_list s l). \<exists>e. entries s a = Some e \<and> map_option fst (arrange_case (se_id e)) = Some l"
    "\<not> live_migration s"
proof -
  note c = assms [unfolded core_ok_iff]
  show "event_ring_ok s" using c by (elim conjE)
  show "distinct (queue_entries s)" using c by (elim conjE)
  show "\<forall>l. distinct (event_list s l)" using c by (elim conjE)
  show "\<forall>l m. l \<noteq> m \<longrightarrow> set (event_list s l) \<inter> set (event_list s m) = {}" using c by (elim conjE)
  show "\<forall>l. set (queue_entries s) \<inter> set (event_list s l) = {}" using c by (elim conjE)
  show "H \<inter> set (queue_entries s) = {}" using c by (elim conjE)
  show "\<forall>l. H \<inter> set (event_list s l) = {}" using c by (elim conjE)
  show "dom (entries s) = H \<union> set (queue_entries s) \<union> (\<Union>l. set (event_list s l))" using c by (elim conjE)
  show "\<forall>l. \<forall>a \<in> set (event_list s l). \<exists>e. entries s a = Some e \<and> map_option fst (arrange_case (se_id e)) = Some l" using c by (elim conjE)
  show "\<not> live_migration s" using c by (elim conjE)
qed

lemma sched_ok_core:
  "sched_ok H s \<longleftrightarrow> core_ok H s \<and> (\<forall>a. next_event s = Some a \<longrightarrow> a \<in> set (event_list s (curr_event_list_idx s)))"
  unfolding core_ok_def sched_ok_def by auto

lemma arrange_event_ok:
  assumes core: "core_ok H s" and a: "a \<in> H"
  shows "\<exists>s'. arrange_event a s = Inr s' \<and> core_ok (H - {a}) s' \<and>
    list_events s' = arrange_abs (the (entries s a)) (list_events s) \<and>
    event_queue s' = event_queue s \<and> queue_rptr s' = queue_rptr s \<and> queue_wptr s' = queue_wptr s \<and> signals s' = signals s \<and>
    (\<forall>b \<in> H - {a}. entries s' b = entries s b)"
proof -
  note c = core_okD [OF core]
  have "a \<in> dom (entries s)" using c(8) a by blast
  then obtain e where e: "entries s a = Some e" by blast
  have notin: "a \<notin> set (event_list s l)" for l using c(7) a by blast
  have live: "\<forall>l. set (event_list s l) \<subseteq> dom (entries s) \<and> distinct (event_list s l) \<and> a \<notin> set (event_list s l)"
    using c(3,8) notin by blast
  note shape = arrange_event_shape [OF e live c(10)]
  show ?thesis
  proof (cases "arrange_case (se_id e)")
    case None
    let ?s = "s\<lparr>entries := (entries s)(a := None)\<rparr>"
    have "core_ok (H - {a}) ?s"
      unfolding core_ok_iff
    proof (intro conjI)
      show "dom (entries ?s) = H - {a} \<union> set (queue_entries ?s) \<union> (\<Union>l. set (event_list ?s l))"
        using c(6,8) notin a by auto
      show "\<forall>l. \<forall>b \<in> set (event_list ?s l). \<exists>e. entries ?s b = Some e \<and> map_option fst (arrange_case (se_id e)) = Some l"
        using c(9) notin by auto
    qed (use c in auto)
    moreover have "list_events ?s = list_events s" using notin by (auto simp: list_events_def fun_eq_iff)
    ultimately show ?thesis using shape None e by (auto simp: arrange_abs_def)
  next
    case (Some x)
    obtain l dup where x: "x = (l, dup)" by fastforce
    define gone where "gone b \<longleftrightarrow> b \<in> set (event_list s l) \<and> dup \<and> se_idx_vf (the (entries s b)) = se_idx_vf e" for b
    let ?s = "s\<lparr>event_list := (event_list s)(l := filter (\<lambda>b. \<not> gone b) (event_list s l) @ [a]),
          entries := (\<lambda>b. if gone b then None else entries s b)\<rparr>"
    have run: "arrange_event a s = Inr ?s" using shape Some x by (simp add: gone_def)
    have keep: "\<not> gone b" if b: "b \<in> H \<or> b \<in> set (queue_entries s) \<or> (\<exists>m. m \<noteq> l \<and> b \<in> set (event_list s m))" for b
      using b c(4,5,7) unfolding gone_def by blast
    have gl: "b \<in> set (event_list s l)" if b: "gone b" for b using b by (simp add: gone_def)
    have apart: "m = l" if b: "gone b" "b \<in> set (event_list s m)" for b m
      using c(4) gl [OF b(1)] b(2) by blast
    have "core_ok (H - {a}) ?s"
      unfolding core_ok_iff
    proof (intro conjI)
      show "\<forall>m. distinct (event_list ?s m)" using c(3) notin by auto
      show "\<forall>m k. m \<noteq> k \<longrightarrow> set (event_list ?s m) \<inter> set (event_list ?s k) = {}" using c(4) notin by auto
      show "\<forall>m. set (queue_entries ?s) \<inter> set (event_list ?s m) = {}" using c(5,6) a by auto
      show "\<forall>m. (H - {a}) \<inter> set (event_list ?s m) = {}" using c(7) by auto
      show "dom (entries ?s) = H - {a} \<union> set (queue_entries ?s) \<union> (\<Union>m. set (event_list ?s m))"
      proof -
        have d: "dom (entries ?s) = dom (entries s) - {b. gone b}" by (auto simp: dom_def)
        have u: "(\<Union>m. set (event_list ?s m)) = ((\<Union>m. set (event_list s m)) - {b. gone b}) \<union> {a}"
          using gl apart by (auto split: if_splits)
        have "(H \<union> set (queue_entries s)) \<inter> {b. gone b} = {}" using keep by blast
        then show ?thesis unfolding d u c(8) using a by auto
      qed
      show "\<forall>m. \<forall>b \<in> set (event_list ?s m). \<exists>e. entries ?s b = Some e \<and> map_option fst (arrange_case (se_id e)) = Some m"
        using c(9) e Some x keep a by auto
    qed (use c in auto)
    moreover have "list_events ?s = arrange_abs e (list_events s)"
    proof
      fix m
      show "list_events ?s m = arrange_abs e (list_events s) m"
      proof (cases "m = l")
        case True
        have "\<not> gone a" using keep a by blast
        moreover have "map (\<lambda>b. the (entries ?s b)) (filter (\<lambda>b. \<not> gone b) (event_list s l)) =
            map (\<lambda>b. the (entries s b)) (filter (\<lambda>b. \<not> gone b) (event_list s l))" by simp
        moreover have "map (\<lambda>b. the (entries s b)) (filter (\<lambda>b. \<not> gone b) (event_list s l)) =
            (if dup then filter (\<lambda>x. se_idx_vf x \<noteq> se_idx_vf e) (list_events s l) else list_events s l)"
          by (simp add: list_events_def filter_map o_def gone_def cong: filter_cong)
        ultimately show ?thesis using True Some x e by (simp add: list_events_def arrange_abs_def)
      next
        case False
        then have "\<not> gone b" if "b \<in> set (event_list s m)" for b using keep that by blast
        then show ?thesis using False Some x by (simp add: list_events_def arrange_abs_def)
      qed
    qed
    moreover have "\<forall>b \<in> H - {a}. entries ?s b = entries s b" using keep by auto
    ultimately show ?thesis using run e by auto
  qed
qed

lemma arrange_events_ok:
  assumes "core_ok H s" "set head \<subseteq> H" "distinct head"
  shows "\<exists>s'. arrange_events head s = Inr s' \<and> core_ok (H - set head) s' \<and>
    list_events s' = fold arrange_abs (map (\<lambda>a. the (entries s a)) head) (list_events s) \<and>
    event_queue s' = event_queue s \<and> queue_rptr s' = queue_rptr s \<and> queue_wptr s' = queue_wptr s \<and> signals s' = signals s \<and>
    (\<forall>b \<in> H - set head. entries s' b = entries s b)"
  using assms
proof (induction head arbitrary: H s)
  case (Cons a as)
  then obtain s1 where s1: "arrange_event a s = Inr s1" "core_ok (H - {a}) s1"
    "list_events s1 = arrange_abs (the (entries s a)) (list_events s)"
    "event_queue s1 = event_queue s" "queue_rptr s1 = queue_rptr s" "queue_wptr s1 = queue_wptr s" "signals s1 = signals s"
    "\<forall>b \<in> H - {a}. entries s1 b = entries s b"
    using arrange_event_ok [of H s a] by auto
  from Cons.IH [OF s1(2)] Cons.prems obtain s2 where s2: "arrange_events as s1 = Inr s2" "core_ok (H - {a} - set as) s2"
    "list_events s2 = fold arrange_abs (map (\<lambda>a. the (entries s1 a)) as) (list_events s1)"
    "event_queue s2 = event_queue s1" "queue_rptr s2 = queue_rptr s1" "queue_wptr s2 = queue_wptr s1" "signals s2 = signals s1"
    "\<forall>b \<in> H - {a} - set as. entries s2 b = entries s1 b"
    by auto
  have "entries s1 b = entries s b" if b: "b \<in> set as" for b
    using s1(8) b Cons.prems(2,3) by (metis Diff_iff distinct.simps(2) empty_iff insert_iff list.set_intros(2) subset_iff)
  then have m: "map (\<lambda>a. the (entries s1 a)) as = map (\<lambda>a. the (entries s a)) as" by simp
  have "list_events s2 = fold arrange_abs (map (\<lambda>a. the (entries s a)) (a # as)) (list_events s)"
    using s2(3) unfolding m s1(3) by simp
  moreover have "H - {a} - set as = H - set (a # as)" by auto
  ultimately show ?case using s1 s2 by auto
qed simp

lemma queue_empty_iff: "event_ring_ok s \<Longrightarrow> amdgv_sched_event_queue_empty s \<longleftrightarrow> queue_events s = []"
proof -
  assume ok: "event_ring_ok s"
  have "ring_ids (queue_wptr s) (queue_rptr s) = [] \<longleftrightarrow> queue_rptr s = queue_wptr s"
    by (cases "queue_wptr s = queue_rptr s") (simp_all add: ring_ids_Cons eq_commute)
  with length_queue [OF ok] show ?thesis by (auto simp: amdgv_sched_event_queue_empty_def)
qed

lemma length_entries: "length (queue_entries s) = length (queue_events s)"
  by (simp add: queue_entries_def queue_events_def)

lemma pop_arrange_ok:
  assumes ok: "sched_ok H s"
  shows "\<exists>s'. cbind (amdgv_sched_event_queue_pop_event_list s) (\<lambda>(head, s). amdgv_sched_event_arrange_event_list head s) = Inr s' \<and>
    sched_ok H s' \<and> queue_events s' = [] \<and> signals s' = signals s \<and>
    list_events s' = fold arrange_abs (queue_events s) (list_events s) \<and> next_event s' = None \<and> (\<forall>b \<in> H. entries s' b = entries s b)"
proof -
  obtain s1 where s1: "amdgv_sched_event_queue_pop_event_list s = Inr (queue_entries s, s1)"
    "sched_ok (H \<union> set (queue_entries s)) s1" "queue_entries s1 = []"
    "\<forall>a. a \<notin> set (queue_entries s) \<longrightarrow> entries s1 a = entries s a"
    "map (entries s1) (queue_entries s) = map Some (queue_events s)"
    "event_list s1 = event_list s" "signals s1 = signals s"
    using pop_ok [OF ok] by blast
  have disj: "set (queue_entries s) \<inter> H = {}" "distinct (queue_entries s)" "set (queue_entries s) \<inter> set (listed s) = {}"
    using ok by (auto simp: sched_ok_def)
  have evs: "map (\<lambda>a. the (entries s1 a)) (queue_entries s) = queue_events s"
    using arg_cong [OF s1(5), of "map the"] by (simp add: o_def)
  have le: "list_events s1 = list_events s"
  proof
    fix l
    have "entries s1 a = entries s a" if a: "a \<in> set (event_list s l)" for a
      using s1(4) disj(3) a by (auto simp: set_listed)
    then show "list_events s1 l = list_events s l" by (simp add: list_events_def s1(6))
  qed
  obtain s2 where s2: "arrange_events (queue_entries s) s1 = Inr s2" "core_ok (H \<union> set (queue_entries s) - set (queue_entries s)) s2"
    "list_events s2 = fold arrange_abs (queue_events s) (list_events s)"
    "event_queue s2 = event_queue s1" "queue_rptr s2 = queue_rptr s1" "queue_wptr s2 = queue_wptr s1" "signals s2 = signals s1"
    "\<forall>b \<in> H \<union> set (queue_entries s) - set (queue_entries s). entries s2 b = entries s1 b"
    using arrange_events_ok [OF core_okI [OF s1(2)] _ disj(2)] unfolding evs le by blast
  let ?s = "s2\<lparr>curr_event_list_idx := AMDGV_SCHED_EVENT_LIST_0, next_event := None\<rparr>"
  have H: "H \<union> set (queue_entries s) - set (queue_entries s) = H" using disj(1) by blast
  have "cbind (amdgv_sched_event_queue_pop_event_list s) (\<lambda>(head, s). amdgv_sched_event_arrange_event_list head s) = Inr ?s"
    using s1(1) s2(1) by (simp add: amdgv_sched_event_arrange_event_list_def)
  moreover have "sched_ok H ?s" using s2(2) unfolding H core_ok_def sched_ok_def by (simp add: listed_def)
  moreover have "queue_events ?s = []"
  proof -
    have "ring_slots ?s = ring_slots s1" by (simp add: ring_slots_def s2(4,5,6) split: queue_mem.split)
    then show ?thesis using s1(3) by (simp add: queue_events_def queue_entries_def)
  qed
  moreover have "list_events ?s = list_events s2" by (simp add: list_events_def fun_eq_iff)
  moreover have "\<forall>b \<in> H. entries ?s b = entries s b" using s2(8) s1(4) disj(1) unfolding H by auto
  ultimately show ?thesis using s2(3,7) s1(7) by auto
qed

lemma take_new_ok:
  assumes ok: "sched_ok H s"
  shows "\<exists>s'. take_new_events s = Inr s' \<and> sched_ok H s' \<and> queue_events s' = [] \<and> signals s' = signals s \<and>
    list_events s' = fold arrange_abs (queue_events s) (list_events s) \<and>
    (if queue_events s = [] then s' = s else next_event s' = None) \<and> (\<forall>b \<in> H. entries s' b = entries s b)"
proof (cases "queue_events s = []")
  case True
  then show ?thesis using ok queue_empty_iff [of s] by (simp add: take_new_events_def sched_ok_def)
next
  case False
  then have "\<not> amdgv_sched_event_queue_empty s" using ok queue_empty_iff [of s] by (simp add: sched_ok_def)
  with pop_arrange_ok [OF ok] False show ?thesis by (simp add: take_new_events_def)
qed

section \<open>The order of service\<close>

definition lists_above :: "amdgv_sched \<Rightarrow> amdgv_sched_event_list \<Rightarrow> nat list" where
  "lists_above s i = concat (map (event_list s) (filter (\<lambda>l. i < l) event_lists))"

definition lists_below :: "amdgv_sched \<Rightarrow> amdgv_sched_event_list \<Rightarrow> nat list" where
  "lists_below s i = concat (map (event_list s) (filter (\<lambda>l. l < i) event_lists))"

text \<open>The entries in the order in which the event thread gets them while nothing new arrives.\<close>

definition agenda :: "amdgv_sched \<Rightarrow> nat list" where
  "agenda s = (case next_event s of
       None \<Rightarrow> listed s
     | Some a \<Rightarrow> let i = curr_event_list_idx s; xs = event_list s i in
         (a # behind a xs) @ lists_above s i @ lists_below s i @ takeWhile (\<lambda>x. x \<noteq> a) xs)"

lemma event_lists_split: "event_lists = filter (\<lambda>l. l < i) event_lists @ i # filter (\<lambda>l. i < l) event_lists"
  by (cases i) (simp_all add: event_lists_def less_amdgv_sched_event_list_def)

lemma listed_split: "listed s = lists_below s i @ event_list s i @ lists_above s i"
proof -
  have "listed s = concat (map (event_list s) (filter (\<lambda>l. l < i) event_lists @ i # filter (\<lambda>l. i < l) event_lists))"
    unfolding listed_def by (subst event_lists_split [of i]) simp
  then show ?thesis by (simp add: lists_below_def lists_above_def)
qed

lemma find_above:
  assumes "find (\<lambda>l. f l \<noteq> []) (filter (\<lambda>l. i < l) event_lists) = Some m"
  shows "i < m \<and> f m \<noteq> [] \<and>
    concat (map f (filter (\<lambda>l. i < l) event_lists)) = f m @ concat (map f (filter (\<lambda>l. m < l) event_lists)) \<and>
    concat (map f (filter (\<lambda>l. l < m) event_lists)) = concat (map f (filter (\<lambda>l. l < i) event_lists)) @ f i"
  using assms by (cases i) (auto simp: event_lists_def less_amdgv_sched_event_list_def split: if_splits)

lemma find_first:
  assumes "find (\<lambda>l. f l \<noteq> []) event_lists = Some m"
  shows "f m \<noteq> []" "concat (map f (filter (\<lambda>l. l < m) event_lists)) = []"
  using assms by (auto simp: event_lists_def less_amdgv_sched_event_list_def split: if_splits)

lemma find_none: "find (\<lambda>l. f l \<noteq> []) ls = None \<Longrightarrow> concat (map f ls) = []"
  by (auto simp: find_None_iff)

lemma behind_Cons: "a \<notin> set ys \<Longrightarrow> behind a (ys @ a # zs) = zs"
proof -
  assume a: "a \<notin> set ys"
  have "dropWhile (\<lambda>x. x \<noteq> a) (ys @ a # zs) = a # zs" by (subst dropWhile_append2) (use a in auto)
  then show ?thesis by (simp add: behind_def)
qed

lemma takeWhile_Cons: "a \<notin> set ys \<Longrightarrow> takeWhile (\<lambda>x. x \<noteq> a) (ys @ a # zs) = ys"
  by (subst takeWhile_append2) auto

text \<open>Serving the entry \<open>a\<close> of the current list moves the agenda one step.\<close>

lemma serve_agenda:
  assumes xs: "event_list s i = ys @ a # zs" and d: "distinct (ys @ a # zs)" and i: "curr_event_list_idx s = i"
  defines "s' \<equiv> (advance_next a s)\<lparr>event_list := (event_list s)(i := ys @ zs)\<rparr>"
  shows "agenda s' = zs @ lists_above s i @ lists_below s i @ ys \<and>
    (\<forall>b. next_event s' = Some b \<longrightarrow> b \<in> set (event_list s' (curr_event_list_idx s')))"
proof -
  have a: "a \<notin> set ys" "a \<notin> set zs" using d by auto
  have beh: "behind a (event_list s i) = zs" unfolding xs by (rule behind_Cons [OF a(1)])
  let ?f = "(event_list s)(i := ys @ zs)"
  have above: "map ?f (filter (\<lambda>l. k < l) event_lists) = map (event_list s) (filter (\<lambda>l. k < l) event_lists)" if k: "i \<le> k" for k
    using k by auto
  have below: "map ?f (filter (\<lambda>l. l < i) event_lists) = map (event_list s) (filter (\<lambda>l. l < i) event_lists)" by auto
  show ?thesis
  proof (cases zs)
    case (Cons b zs')
    have b: "b \<notin> set ys" using d Cons by auto
    have e: "s' = s\<lparr>next_event := Some b, event_list := ?f\<rparr>" using beh Cons i by (simp add: s'_def advance_next_def)
    show ?thesis unfolding e
      using above [of i] below b by (simp add: agenda_def Let_def i lists_above_def lists_below_def Cons behind_Cons takeWhile_Cons)
  next
    case Nil
    show ?thesis
    proof (cases "first_non_empty s (filter (\<lambda>l. i < l) event_lists)")
      case None
      have e: "s' = s\<lparr>curr_event_list_idx := AMDGV_SCHED_EVENT_LIST_0, next_event := None, event_list := ?f\<rparr>"
        using beh Nil None i by (simp add: s'_def advance_next_def)
      have "lists_above s i = []" using find_none [OF None [unfolded first_non_empty_def]] by (simp only: lists_above_def)
      moreover have "agenda s' = lists_below s i @ ys @ lists_above s i"
        unfolding e using listed_split [of "s\<lparr>curr_event_list_idx := AMDGV_SCHED_EVENT_LIST_0, next_event := None, event_list := ?f\<rparr>" i] above [of i] below
        by (simp add: agenda_def lists_above_def lists_below_def Nil)
      ultimately show ?thesis using Nil by (simp add: e)
    next
      case (Some m)
      have e: "s' = s\<lparr>curr_event_list_idx := m, next_event := Some (hd (event_list s m)), event_list := ?f\<rparr>"
        using beh Nil Some i by (simp add: s'_def advance_next_def)
      note fa = find_above [OF Some [unfolded first_non_empty_def]]
      then have m: "i < m" "event_list s m \<noteq> []"
        and A: "lists_above s i = event_list s m @ lists_above s m"
        by (simp_all add: lists_above_def)
      have fm: "?f m = event_list s m" using m by auto
      obtain c cs where c: "event_list s m = c # cs" using m(2) by (cases "event_list s m") auto
      have "find (\<lambda>l. ?f l \<noteq> []) (filter (\<lambda>l. i < l) event_lists) = Some m"
      proof -
        have "find (\<lambda>l. ?f l \<noteq> []) (filter (\<lambda>l. i < l) event_lists) = find (\<lambda>l. event_list s l \<noteq> []) (filter (\<lambda>l. i < l) event_lists)"
          by (rule find_cong) auto
        then show ?thesis using Some by (simp add: first_non_empty_def)
      qed
      from find_above [OF this]
      have "concat (map ?f (filter (\<lambda>l. l < m) event_lists)) = concat (map ?f (filter (\<lambda>l. l < i) event_lists)) @ ?f i" by blast
      then have B: "concat (map ?f (filter (\<lambda>l. l < m) event_lists)) = lists_below s i @ ys @ zs"
        unfolding below by (simp only: lists_below_def fun_upd_same)
      have "agenda s' = (c # cs) @ lists_above s m @ lists_below s i @ ys"
        unfolding e agenda_def using fm c B above [of m] m(1) Nil
        by (simp add: Let_def lists_above_def lists_below_def behind_def)
      moreover have "m \<noteq> i" using m(1) by auto
      ultimately show ?thesis using A c Nil by (simp add: e)
    qed
  qed
qed

lemma remove1_middle: "a \<notin> set ys \<Longrightarrow> remove1 a (ys @ a # zs) = ys @ zs"
  by (simp add: remove1_append)

text \<open>One pick with an empty ring.\<close>

lemma serve_ok:
  assumes ok: "sched_ok H s" and a: "a \<in> set (event_list s i)" and i: "curr_event_list_idx s = i"
  defines "s' \<equiv> (advance_next a s)\<lparr>event_list := (event_list s)(i := remove1 a (event_list s i))\<rparr>"
  shows "sched_ok (insert a H) s' \<and> queue_events s' = queue_events s \<and> entries s' = entries s \<and> signals s' = signals s \<and>
    agenda s' = behind a (event_list s i) @ lists_above s i @ lists_below s i @ takeWhile (\<lambda>x. x \<noteq> a) (event_list s i) \<and>
    event_list s' = (event_list s)(i := remove1 a (event_list s i))"
proof -
  note c = core_okD [OF conjunct1 [OF ok [unfolded sched_ok_core]]]
  obtain ys zs where xs: "event_list s i = ys @ a # zs" "a \<notin> set ys" using a by (meson split_list_first)
  have d: "distinct (ys @ a # zs)" using c(3) xs(1) by metis
  have rm: "remove1 a (event_list s i) = ys @ zs" unfolding xs(1) by (rule remove1_middle [OF xs(2)])
  note serve = serve_agenda [OF xs(1) d i, folded rm, folded s'_def]
  have fr: "event_queue s' = event_queue s" "queue_rptr s' = queue_rptr s" "queue_wptr s' = queue_wptr s"
    "entries s' = entries s" "signals s' = signals s" "live_migration s' = live_migration s"
    "event_list s' = (event_list s)(i := ys @ zs)"
    by (simp_all add: s'_def advance_next_def Let_def rm split: list.split option.split)
  have slots: "ring_slots s' = ring_slots s" by (simp add: ring_slots_def fr split: queue_mem.split)
  have "core_ok (insert a H) s'"
    unfolding core_ok_iff
  proof (intro conjI)
    show "event_ring_ok s'" using c(1) slots by (simp add: event_ring_ok_def fr)
    show "distinct (queue_entries s')" using c(2) slots by (simp add: queue_entries_def)
    show "\<forall>l. distinct (event_list s' l)" using c(3) d by (simp add: fr)
    show "\<forall>l m. l \<noteq> m \<longrightarrow> set (event_list s' l) \<inter> set (event_list s' m) = {}"
    proof (intro allI impI)
      fix l m :: amdgv_sched_event_list assume "l \<noteq> m"
      then have "set (event_list s l) \<inter> set (event_list s m) = {}" using c(4) by blast
      moreover have "set (event_list s' l) \<subseteq> set (event_list s l)" "set (event_list s' m) \<subseteq> set (event_list s m)"
        using xs(1) by (auto simp: fr)
      ultimately show "set (event_list s' l) \<inter> set (event_list s' m) = {}" by blast
    qed
    have sub: "set (event_list s' l) \<subseteq> set (event_list s l)" for l using xs(1) by (auto simp: fr)
    have q: "queue_entries s' = queue_entries s" by (simp add: queue_entries_def slots)
    show "\<forall>l. set (queue_entries s') \<inter> set (event_list s' l) = {}" using c(5) sub unfolding q by blast
    show "insert a H \<inter> set (queue_entries s') = {}" using c(5,6) a unfolding q by blast
    show "\<forall>l. insert a H \<inter> set (event_list s' l) = {}"
    proof
      fix l
      have "a \<notin> set (event_list s' l)"
      proof (cases "l = i")
        case True
        then show ?thesis using d by (simp add: fr)
      next
        case False
        then show ?thesis using c(4) a by (auto simp: fr)
      qed
      then show "insert a H \<inter> set (event_list s' l) = {}" using c(7) sub by blast
    qed
    show "dom (entries s') = insert a H \<union> set (queue_entries s') \<union> (\<Union>l. set (event_list s' l))"
    proof -
      have each: "set (event_list s l) = (if l = i then insert a (set (event_list s' l)) else set (event_list s' l))" for l
        using xs(1) by (auto simp: fr)
      have "insert a (\<Union>l. set (event_list s' l)) = (\<Union>l. set (event_list s l))" unfolding each by auto
      moreover have "dom (entries s) = H \<union> set (queue_entries s) \<union> (\<Union>l. set (event_list s l))" by (rule c(8))
      ultimately have "dom (entries s) = H \<union> set (queue_entries s) \<union> insert a (\<Union>l. set (event_list s' l))" by simp
      then show ?thesis unfolding q fr(4) by simp
    qed
    show "\<forall>l. \<forall>b \<in> set (event_list s' l). \<exists>e. entries s' b = Some e \<and> map_option fst (arrange_case (se_id e)) = Some l"
      using c(9) sub unfolding fr(4) by blast
    show "\<not> live_migration s'" using c(10) by (simp add: fr)
  qed
  then have "sched_ok (insert a H) s'" using serve unfolding sched_ok_core by blast
  moreover have "behind a (event_list s i) = zs" "takeWhile (\<lambda>x. x \<noteq> a) (event_list s i) = ys"
    unfolding xs(1) using behind_Cons takeWhile_Cons xs(2) by metis+
  ultimately show ?thesis using serve fr rm slots by (simp add: queue_events_def)
qed

lemma pick_ok:
  assumes ok: "sched_ok H s" and empty: "queue_events s = []"
  shows "case agenda s of
      [] \<Rightarrow> amdgv_sched_pick_up_next_event s = Inr (None, s)
    | a # as \<Rightarrow> \<exists>s'. amdgv_sched_pick_up_next_event s = Inr (Some a, s') \<and> sched_ok (insert a H) s' \<and> agenda s' = as \<and>
        queue_events s' = [] \<and> entries s' = entries s \<and> signals s' = signals s \<and> a \<notin> H"
proof -
  have take: "take_new_events s = Inr s"
    using ok empty queue_empty_iff [of s] by (simp add: take_new_events_def sched_ok_def)
  have notH: "a \<notin> H" if "a \<in> set (event_list s l)" for a l using ok that by (auto simp: sched_ok_def set_listed)
  show ?thesis
  proof (cases "next_event s")
    case (Some a)
    let ?i = "curr_event_list_idx s"
    have a: "a \<in> set (event_list s ?i)" using ok Some by (simp add: sched_ok_def)
    have "choose_event s = Some (a, s)" using Some by (simp add: choose_event_def)
    then have "amdgv_sched_pick_up_next_event s =
        Inr (Some a, (advance_next a s)\<lparr>event_list := (event_list s)(?i := remove1 a (event_list s ?i))\<rparr>)"
      using take a by (simp add: amdgv_sched_pick_up_next_event_def Let_def)
    with serve_ok [OF ok a refl] show ?thesis using Some empty notH [OF a] by (simp add: agenda_def Let_def)
  next
    case None
    show ?thesis
    proof (cases "first_non_empty s event_lists")
      case none: None
      have "listed s = []" unfolding listed_def by (rule find_none) (rule none [unfolded first_non_empty_def])
      then show ?thesis using None none take
        by (simp add: agenda_def amdgv_sched_pick_up_next_event_def choose_event_def)
    next
      case (Some l)
      note ff = find_first [OF Some [unfolded first_non_empty_def]]
      obtain a zs where a: "event_list s l = a # zs" using ff(1) by (cases "event_list s l") auto
      let ?s = "s\<lparr>curr_event_list_idx := l\<rparr>"
      have ok': "sched_ok H ?s" using ok None by (simp add: sched_ok_def)
      have mem: "a \<in> set (event_list ?s l)" using a by simp
      have "choose_event s = Some (a, ?s)" using None Some a by (simp add: choose_event_def)
      then have "amdgv_sched_pick_up_next_event s =
          Inr (Some a, (advance_next a ?s)\<lparr>event_list := (event_list ?s)(l := remove1 a (event_list ?s l))\<rparr>)"
        using take a by (simp add: amdgv_sched_pick_up_next_event_def Let_def)
      moreover have "agenda s = a # zs @ lists_above s l"
        using None a ff(2) listed_split [of s l] by (simp add: agenda_def lists_below_def)
      moreover have "lists_below ?s l = []" "lists_above ?s l = lists_above s l" using ff(2) by (simp_all add: lists_below_def lists_above_def)
      moreover note serve_ok [OF ok' mem, simplified]
      ultimately show ?thesis using empty a notH [of a l] by (simp add: behind_def)
    qed
  qed
qed

section \<open>Release, push back and the status marks\<close>

lemma queue_frame2 [simp]:
  "queue_entries (s\<lparr>gpu_init_data_ready := r\<rparr>) = queue_entries s" "queue_events (s\<lparr>gpu_init_data_ready := r\<rparr>) = queue_events s"
  "event_ring_ok (s\<lparr>gpu_init_data_ready := r\<rparr>) = event_ring_ok s" "listed (s\<lparr>gpu_init_data_ready := r\<rparr>) = listed s"
  "listed (s\<lparr>entries := g\<rparr>) = listed s"
  by (simp_all add: queue_entries_def queue_events_def listed_def event_ring_ok_def ring_slots_def split: queue_mem.split)

lemma agenda_frame [simp]: "agenda (s\<lparr>signals := x\<rparr>) = agenda s" "agenda (s\<lparr>entries := g\<rparr>) = agenda s"
  by (simp_all add: agenda_def Let_def lists_above_def lists_below_def listed_def split: option.split)

definition woken :: "bool \<Rightarrow> amdgv_sched_event \<Rightarrow> (nat \<times> bool) list" where
  "woken skipped e = (case se_signal e of None \<Rightarrow> [] | Some h \<Rightarrow> [(h, skipped)])"

lemma oss_signal_woken: "oss_signal (se_signal e) skipped s = s\<lparr>signals := signals s @ woken skipped e\<rparr>"
  by (cases "se_signal e") (simp_all add: oss_signal_def woken_def)

lemma release_ok:
  assumes ok: "sched_ok H s" and a: "a \<in> H"
  shows "\<exists>s'. release_event skipped a s = Inr s' \<and> sched_ok (H - {a}) s' \<and> agenda s' = agenda s \<and>
    queue_events s' = queue_events s \<and> signals s' = signals s @ woken skipped (the (entries s a)) \<and>
    (\<forall>b. b \<noteq> a \<longrightarrow> entries s' b = entries s b) \<and> event_list s' = event_list s"
proof -
  have "a \<in> dom (entries s)" using ok a by (auto simp: sched_ok_def)
  then obtain e where e: "entries s a = Some e" by blast
  let ?s = "s\<lparr>signals := signals s @ woken skipped e, entries := (entries s)(a := None)\<rparr>"
  have n: "a \<notin> set (queue_entries s @ listed s)" using ok a by (auto simp: sched_ok_def)
  then have nl: "a \<notin> set (event_list s l)" for l by (auto simp: set_listed)
  have "release_event skipped a s = Inr ?s"
    using e by (simp add: release_event_def entry_event_def oss_signal_woken amdgv_sched_free_event_def oss_free_entry_def)
  moreover have "sched_ok (H - {a}) ?s"
  proof -
    have "dom ((entries s)(a := None)) = dom (entries s) - {a}" by auto
    also have "\<dots> = H - {a} \<union> set (queue_entries s @ listed s)" using ok n by (auto simp: sched_ok_def)
    finally have d: "dom (entries ?s) = H - {a} \<union> set (queue_entries s @ listed s)" by simp
    have "\<forall>l. \<forall>b \<in> set (event_list ?s l). \<exists>e. entries ?s b = Some e \<and> map_option fst (arrange_case (se_id e)) = Some l"
      using ok nl unfolding sched_ok_def by auto
    with d show ?thesis using ok unfolding sched_ok_def by auto
  qed
  moreover have "agenda ?s = agenda s" by (simp add: agenda_def Let_def lists_above_def lists_below_def listed_def split: option.split)
  ultimately show ?thesis using e by (auto simp: queue_events_def ring_slots_def split: queue_mem.splits)
qed

lemma push_back_ok:
  assumes ok: "sched_ok H s" and a: "a \<in> H"
  shows "\<exists>s'. amdgv_sched_push_back_event a s = Inr s' \<and> sched_ok (H - {a}) s' \<and> queue_events s' = queue_events s \<and>
    signals s' = signals s \<and> (\<forall>b. b \<noteq> a \<longrightarrow> entries s' b = entries s b) \<and>
    (case push_back_case (se_id (the (entries s a))) of
       None \<Rightarrow> entries s' a = None \<and> event_list s' = event_list s
     | Some l \<Rightarrow> entries s' a = entries s a \<and> next_event s' = Some a \<and> event_list s' = (event_list s)(l := a # event_list s l))"
proof -
  note c = core_okD [OF conjunct1 [OF ok [unfolded sched_ok_core]]]
  have "a \<in> dom (entries s)" using ok a by (auto simp: sched_ok_def)
  then obtain e where e: "entries s a = Some e" by blast
  have n: "a \<notin> set (queue_entries s)" "\<And>l. a \<notin> set (event_list s l)" using c(6,7) a by blast+
  show ?thesis
  proof (cases "push_back_case (se_id e)")
    case None
    let ?s = "s\<lparr>entries := (entries s)(a := None)\<rparr>"
    have "amdgv_sched_push_back_event a s = Inr ?s"
      using e None by (simp add: amdgv_sched_push_back_event_def entry_event_def oss_free_entry_def)
    moreover have "sched_ok (H - {a}) ?s"
    proof -
      have nl: "a \<notin> set (queue_entries s @ listed s)" using n by (auto simp: set_listed)
      have "dom ((entries s)(a := None)) = dom (entries s) - {a}" by auto
      also have "\<dots> = H - {a} \<union> set (queue_entries s @ listed s)" using ok nl by (auto simp: sched_ok_def)
      finally have d: "dom (entries ?s) = H - {a} \<union> set (queue_entries s @ listed s)" by simp
      have "\<forall>l. \<forall>b \<in> set (event_list ?s l). \<exists>e. entries ?s b = Some e \<and> map_option fst (arrange_case (se_id e)) = Some l"
        using c(9) n(2) by auto
      with d show ?thesis using ok unfolding sched_ok_def by auto
    qed
    ultimately show ?thesis using e None by auto
  next
    case (Some l)
    let ?s = "s\<lparr>curr_event_list_idx := l, event_list := (event_list s)(l := a # event_list s l), next_event := Some a\<rparr>"
    have cl: "map_option fst (arrange_case (se_id e)) = Some l" using Some by (auto simp: push_back_arrange split: if_splits)
    have "amdgv_sched_push_back_event a s = Inr ?s"
      using e Some by (simp add: amdgv_sched_push_back_event_def entry_event_def)
    moreover have "core_ok (H - {a}) ?s"
      unfolding core_ok_iff
    proof (intro conjI)
      show "\<forall>m. distinct (event_list ?s m)" using c(3) n by auto
      show "\<forall>m k. m \<noteq> k \<longrightarrow> set (event_list ?s m) \<inter> set (event_list ?s k) = {}" using c(4) n by auto
      show "\<forall>m. set (queue_entries ?s) \<inter> set (event_list ?s m) = {}" using c(5) n by auto
      show "\<forall>m. (H - {a}) \<inter> set (event_list ?s m) = {}" using c(7) by auto
      have "(\<Union>m. set (event_list ?s m)) = insert a (\<Union>m. set (event_list s m))" by (auto split: if_splits)
      then show "dom (entries ?s) = H - {a} \<union> set (queue_entries ?s) \<union> (\<Union>m. set (event_list ?s m))" using c(8) a by auto
      show "\<forall>m. \<forall>b \<in> set (event_list ?s m). \<exists>e. entries ?s b = Some e \<and> map_option fst (arrange_case (se_id e)) = Some m"
        using c(9) cl e by auto
    qed (use c in auto)
    then have "sched_ok (H - {a}) ?s" unfolding sched_ok_core by simp
    ultimately show ?thesis using e Some by auto
  qed
qed

lemma mark_ids:
  assumes "event_queue s = Queue ws" "length ws = 256"
  shows "\<exists>ws'. cfold (mark_slot event st m) ids s = Inr (s\<lparr>event_queue := Queue ws'\<rparr>) \<and> length ws' = 256 \<and>
    (\<forall>j < 256. w_entry (ws' ! j) = w_entry (ws ! j) \<and> se_signal (w_event (ws' ! j)) = se_signal (w_event (ws ! j)))"
  using assms
proof (induction ids arbitrary: s ws)
  case Nil
  then show ?case by (intro exI [of _ ws]) simp
next
  case (Cons p ids)
  let ?w = "ws ! unat p"
  have sl: "slot s p = Inr ?w" using Cons.prems by (simp add: slot_def slots_def)
  show ?case
  proof (cases "se_id (w_event ?w) \<noteq> se_id event \<or> m \<and> se_idx_vf (w_event ?w) \<noteq> se_idx_vf event")
    case True
    then have "mark_slot event st m p s = Inr s" by (auto simp: mark_slot_def sl)
    then show ?thesis using Cons.IH [OF Cons.prems] by simp
  next
    case False
    let ?ws = "ws[unat p := ?w\<lparr>w_event := (w_event ?w)\<lparr>se_status := st\<rparr>\<rparr>]"
    have step: "mark_slot event st m p s = Inr (s\<lparr>event_queue := Queue ?ws\<rparr>)"
      using False Cons.prems by (auto simp: mark_slot_def sl set_slot_def slots_def)
    have "length ?ws = 256" using Cons.prems(2) by simp
    from Cons.IH [of "s\<lparr>event_queue := Queue ?ws\<rparr>", OF _ this] obtain ws' where w:
      "cfold (mark_slot event st m) ids (s\<lparr>event_queue := Queue ?ws\<rparr>) = Inr (s\<lparr>event_queue := Queue ws'\<rparr>)"
      "length ws' = 256" "\<forall>j < 256. w_entry (ws' ! j) = w_entry (?ws ! j) \<and> se_signal (w_event (ws' ! j)) = se_signal (w_event (?ws ! j))"
      by auto
    have "w_entry (?ws ! j) = w_entry (ws ! j) \<and> se_signal (w_event (?ws ! j)) = se_signal (w_event (ws ! j))" if "j < 256" for j
      using Cons.prems(2) that by (cases "j = unat p") simp_all
    with w(3) have "\<forall>j < 256. w_entry (ws' ! j) = w_entry (ws ! j) \<and> se_signal (w_event (ws' ! j)) = se_signal (w_event (ws ! j))" by metis
    with w(1,2) step show ?thesis by (intro exI [of _ ws']) simp
  qed
qed

lemma mark_ok:
  assumes ok: "sched_ok H s"
  shows "\<exists>ws. amdgv_sched_mark_event_in_ring event st m s = Inr (s\<lparr>event_queue := Queue ws\<rparr>) \<and>
    sched_ok H (s\<lparr>event_queue := Queue ws\<rparr>) \<and>
    map se_signal (queue_events (s\<lparr>event_queue := Queue ws\<rparr>)) = map se_signal (queue_events s)"
proof -
  obtain ws where ws: "event_queue s = Queue ws" "length ws = 256" using ok by (rule sched_ok_queue)
  obtain ws' where w: "amdgv_sched_mark_event_in_ring event st m s = Inr (s\<lparr>event_queue := Queue ws'\<rparr>)" "length ws' = 256"
    "\<forall>j < 256. w_entry (ws' ! j) = w_entry (ws ! j) \<and> se_signal (w_event (ws' ! j)) = se_signal (w_event (ws ! j))"
    using mark_ids [OF ws] unfolding amdgv_sched_mark_event_in_ring_def ring_loop_ids by blast
  let ?s = "s\<lparr>event_queue := Queue ws'\<rparr>"
  have q: "queue_entries ?s = queue_entries s" "map se_signal (queue_events ?s) = map se_signal (queue_events s)"
    using w(3) by (simp_all add: queue_entries_def queue_events_def ring_slots_def ws)
  have "event_ring_ok ?s" using ok w ws by (auto simp: sched_ok_def event_ring_ok_def ring_slots_def)
  moreover have "listed ?s = listed s" by (simp add: listed_def)
  ultimately have "sched_ok H ?s" using ok q(1) by (simp add: sched_ok_def)
  with w(1) q(2) show ?thesis by blast
qed

lemma finish_entries_ok:
  assumes "set as \<subseteq> dom (entries s)"
  shows "\<exists>g. finish_entries i as s = Inr (s\<lparr>entries := g\<rparr>) \<and> dom g = dom (entries s) \<and>
    (\<forall>a e. entries s a = Some e \<longrightarrow> (\<exists>st. g a = Some (e\<lparr>se_status := st\<rparr>)))"
  using assms
proof (induction as arbitrary: s)
  case Nil
  have "\<exists>st. e = e\<lparr>se_status := st\<rparr>" for e :: amdgv_sched_event by (rule exI [of _ "se_status e"]) simp
  then show ?case by (intro exI [of _ "entries s"]) auto
next
  case (Cons a as)
  then obtain e where e: "entries s a = Some e" by auto
  let ?s = "if se_id e = i then s\<lparr>entries := (entries s)(a \<mapsto> e\<lparr>se_status := AMDGV_EVENT_STATUS_FINISHED\<rparr>)\<rparr> else s"
  have d: "dom (entries ?s) = dom (entries s)" using e by auto
  have "set as \<subseteq> dom (entries ?s)" using Cons.prems d by simp
  from Cons.IH [OF this] obtain g where g: "finish_entries i as ?s = Inr (?s\<lparr>entries := g\<rparr>)" "dom g = dom (entries ?s)"
    "\<forall>a e. entries ?s a = Some e \<longrightarrow> (\<exists>st. g a = Some (e\<lparr>se_status := st\<rparr>))" by blast
  have "\<exists>st. g b = Some (x\<lparr>se_status := st\<rparr>)" if x: "entries s b = Some x" for b x
  proof (cases "b = a \<and> se_id e = i")
    case True
    then have "entries ?s b = Some (e\<lparr>se_status := AMDGV_EVENT_STATUS_FINISHED\<rparr>)" "x = e" using x e by auto
    then show ?thesis using g(3) by fastforce
  next
    case False
    then have "entries ?s b = Some x" using x e by auto
    then show ?thesis using g(3) by blast
  qed
  moreover have "finish_entries i (a # as) s = Inr (s\<lparr>entries := g\<rparr>)" using e g(1) by (auto simp: entry_event_def split: if_splits)
  ultimately show ?case using g(2) d by blast
qed

section \<open>Draining\<close>

lemma agenda_listed: "sched_ok H s \<Longrightarrow> set (agenda s) \<subseteq> set (listed s)"
proof -
  assume ok: "sched_ok H s"
  have sub: "set (behind a xs) \<subseteq> set xs" for a xs
    unfolding behind_def by (metis list.set_sel(2) set_dropWhileD subsetI tl_Nil)
  show ?thesis
  proof (cases "next_event s")
    case None
    then show ?thesis by (simp add: agenda_def)
  next
    case (Some a)
    then have "a \<in> set (event_list s (curr_event_list_idx s))" using ok by (simp add: sched_ok_def)
    moreover have "set (lists_above s i) \<subseteq> set (listed s)" "set (lists_below s i) \<subseteq> set (listed s)" "set (event_list s i) \<subseteq> set (listed s)" for i
      unfolding listed_split [of s i] by auto
    ultimately show ?thesis using Some sub [of a "event_list s (curr_event_list_idx s)"]
        set_takeWhileD [of _ "\<lambda>x. x \<noteq> a" "event_list s (curr_event_list_idx s)"]
      by (auto simp: agenda_def Let_def) blast+
  qed
qed

definition agenda_events :: "amdgv_sched \<Rightarrow> amdgv_sched_event list" where
  "agenda_events s = map (\<lambda>a. the (entries s a)) (agenda s)"

text \<open>Picking an event and releasing it.\<close>

lemma pick_release_ok:
  assumes ok: "sched_ok H s" and empty: "queue_events s = []" and ag: "agenda s = a # as"
  shows "\<exists>s1 s2. amdgv_sched_pick_up_next_event s = Inr (Some a, s1) \<and> sched_ok (insert a H) s1 \<and> entries s1 = entries s \<and>
    signals s1 = signals s \<and> agenda s1 = as \<and> queue_events s1 = [] \<and>
    release_event skipped a s1 = Inr s2 \<and> sched_ok H s2 \<and> queue_events s2 = [] \<and> agenda s2 = as \<and>
    agenda_events s2 = tl (agenda_events s) \<and> signals s2 = signals s @ woken skipped (hd (agenda_events s)) \<and>
    (\<forall>b \<in> H. entries s2 b = entries s b)"
proof -
  obtain s1 where s1: "amdgv_sched_pick_up_next_event s = Inr (Some a, s1)" "sched_ok (insert a H) s1" "agenda s1 = as"
    "queue_events s1 = []" "entries s1 = entries s" "signals s1 = signals s" "a \<notin> H"
    using pick_ok [OF ok empty] ag by auto
  obtain s2 where s2: "release_event skipped a s1 = Inr s2" "sched_ok (insert a H - {a}) s2" "agenda s2 = agenda s1"
    "queue_events s2 = queue_events s1" "signals s2 = signals s1 @ woken skipped (the (entries s1 a))"
    "\<forall>b. b \<noteq> a \<longrightarrow> entries s2 b = entries s1 b"
    using release_ok [OF s1(2), of a skipped] by blast
  have "insert a H - {a} = H" using s1(7) by blast
  moreover have "a \<notin> set as" using agenda_listed [OF s1(2)] s1(2,3) by (auto simp: sched_ok_def)
  moreover have "agenda_events s2 = tl (agenda_events s)"
    using s1(3,5) s2(3,6) ag \<open>a \<notin> set as\<close> by (auto simp: agenda_events_def)
  moreover have "hd (agenda_events s) = the (entries s a)" using ag by (simp add: agenda_events_def)
  ultimately show ?thesis using s1 s2 by (intro exI [of _ s1] exI [of _ s2]) auto
qed

lemma agenda_done:
  assumes "sched_ok H s" "agenda s = []" shows "next_event s = None" "listed s = []"
proof -
  show n: "next_event s = None" using assms(2) by (auto simp: agenda_def Let_def split: option.splits)
  then show "listed s = []" using assms(2) by (simp add: agenda_def)
qed

lemma skip_events_ok:
  assumes "sched_ok H s" "queue_events s = []" "length (agenda s) < n"
  shows "\<exists>s'. skip_events n s = Inr s' \<and> sched_ok H s' \<and> queue_events s' = [] \<and> agenda s' = [] \<and>
    signals s' = signals s @ concat (map (woken True) (agenda_events s)) \<and> (\<forall>b \<in> H. entries s' b = entries s b)"
  using assms
proof (induction n arbitrary: s)
  case (Suc n)
  show ?case
  proof (cases "agenda s")
    case Nil
    then have "amdgv_sched_pick_up_next_event s = Inr (None, s)" using pick_ok [OF Suc.prems(1,2)] by simp
    then show ?thesis using Suc.prems Nil by (simp add: agenda_events_def)
  next
    case (Cons a as)
    obtain s1 s2 where s: "amdgv_sched_pick_up_next_event s = Inr (Some a, s1)" "release_event True a s1 = Inr s2" "sched_ok H s2"
      "queue_events s2 = []" "agenda s2 = as" "agenda_events s2 = tl (agenda_events s)"
      "signals s2 = signals s @ woken True (hd (agenda_events s))" "\<forall>b \<in> H. entries s2 b = entries s b"
      using pick_release_ok [OF Suc.prems(1,2) Cons, of True] by blast
    have "length (agenda s2) < n" using s(5) Cons Suc.prems(3) by simp
    from Suc.IH [OF s(3,4) this] obtain s' where s': "skip_events n s2 = Inr s'" "sched_ok H s'" "queue_events s' = []" "agenda s' = []"
      "signals s' = signals s2 @ concat (map (woken True) (agenda_events s2))" "\<forall>b \<in> H. entries s' b = entries s2 b"
      by blast
    have "agenda_events s = hd (agenda_events s) # tl (agenda_events s)" using Cons by (simp add: agenda_events_def)
    then have "concat (map (woken True) (agenda_events s)) = woken True (hd (agenda_events s)) @ concat (map (woken True) (tl (agenda_events s)))"
      by (metis concat.simps(2) list.simps(9))
    with s s' show ?thesis by simp
  qed
qed simp

lemma total_arrange:
  "length (concat (map (arrange_abs e L) event_lists)) \<le> Suc (length (concat (map L event_lists)))"
proof (cases "arrange_case (se_id e)")
  case None
  then show ?thesis by (simp add: arrange_abs_def)
next
  case (Some x)
  obtain l dup where x: "x = (l, dup)" by fastforce
  have "length (if dup then filter (\<lambda>x. se_idx_vf x \<noteq> se_idx_vf e) (L l) else L l) \<le> length (L l)" by simp
  then show ?thesis using Some x by (cases l) (simp_all add: arrange_abs_def event_lists_def)
qed

lemma total_arranges:
  "length (concat (map (fold arrange_abs es L) event_lists)) \<le> length es + length (concat (map L event_lists))"
proof (induction es arbitrary: L)
  case (Cons e es)
  from Cons.IH [of "arrange_abs e L"] total_arrange [of e L] show ?case by simp
qed simp

lemma listed_events: "map (\<lambda>a. the (entries s a)) (listed s) = concat (map (list_events s) event_lists)"
  by (simp add: listed_def list_events_def [abs_def] map_concat o_def)

text \<open>The events that survive arranging, in the order of the lists.\<close>

definition arranged :: "amdgv_sched \<Rightarrow> amdgv_sched_event list" where
  "arranged s = concat (map (fold arrange_abs (queue_events s) (list_events s)) event_lists)"

lemma arranged_agenda:
  assumes "next_event s' = None" "list_events s' = fold arrange_abs (queue_events s) (list_events s)"
  shows "agenda_events s' = arranged s" "length (agenda s') \<le> length (queue_events s) + length (listed s)"
proof -
  have a: "agenda s' = listed s'" using assms(1) by (simp add: agenda_def)
  then show "agenda_events s' = arranged s" by (simp add: agenda_events_def listed_events assms(2) arranged_def)
  then have "length (agenda s') = length (arranged s)" by (metis agenda_events_def length_map)
  also have "\<dots> \<le> length (queue_events s) + length (concat (map (list_events s) event_lists))"
    unfolding arranged_def by (rule total_arranges)
  also have "length (concat (map (list_events s) event_lists)) = length (listed s)" by (metis listed_events length_map)
  finally show "length (agenda s') \<le> length (queue_events s) + length (listed s)" .
qed

lemma fini_ok:
  assumes ok: "sched_ok H s" and n: "length (queue_events s) + length (listed s) < n"
  shows "\<exists>s'. amdgv_sched_process_event_fini n s = Inr s' \<and> sched_ok H s' \<and> queue_events s' = [] \<and> listed s' = [] \<and>
    dom (entries s') = H \<and> signals s' = signals s @ concat (map (woken True) (arranged s))"
proof -
  obtain s1 where s1: "cbind (amdgv_sched_event_queue_pop_event_list s) (\<lambda>(head, s). amdgv_sched_event_arrange_event_list head s) = Inr s1"
    "sched_ok H s1" "queue_events s1 = []" "signals s1 = signals s"
    "list_events s1 = fold arrange_abs (queue_events s) (list_events s)" "next_event s1 = None"
    using pop_arrange_ok [OF ok] by blast
  note ag = arranged_agenda [OF s1(6,5)]
  obtain s' where s': "skip_events n s1 = Inr s'" "sched_ok H s'" "queue_events s' = []" "agenda s' = []"
    "signals s' = signals s1 @ concat (map (woken True) (agenda_events s1))"
    using skip_events_ok [OF s1(2,3), of n] ag(2) n by force
  have "amdgv_sched_process_event_fini n s = cbind (cbind (amdgv_sched_event_queue_pop_event_list s)
      (\<lambda>(head, s). amdgv_sched_event_arrange_event_list head s)) (skip_events n)"
    unfolding amdgv_sched_process_event_fini_def cbind_assoc by (rule arg_cong [where f = "cbind _"]) (auto simp: fun_eq_iff)
  then have "amdgv_sched_process_event_fini n s = Inr s'" using s1(1) s'(1) by simp
  moreover have "listed s' = []" by (rule agenda_done [OF s'(2,4)])
  moreover have "queue_entries s' = []" using s'(3) length_entries [of s'] by simp
  moreover have "dom (entries s') = H" using s'(2) calculation(2,3) by (simp add: sched_ok_def)
  ultimately show ?thesis using s' s1(4) ag(1) by simp
qed

section \<open>Runs of operations\<close>

text \<open>An operation of the queue as the event thread and its callers use it. An operation outside its contract is
  skipped: an allocator never returns a live entry, and only a held entry is released or pushed back.\<close>

datatype queue_op =
    Op_Push u64 "nat option" u32 amdgv_sched_event_id u32 "nat option" amdgv_sched_event_data bool
  | Op_Pick
  | Op_Release bool nat
  | Op_Push_Back nat
  | Op_Mark amdgv_sched_event amdgv_event_status bool
  | Op_Finish amdgv_sched_event_list amdgv_sched_event
  | Op_Remove_Stale
  | Op_Find u32 amdgv_sched_event_id

fun op_allowed :: "queue_op \<Rightarrow> nat set \<times> amdgv_sched \<Rightarrow> bool" where
  "op_allowed (Op_Push now mem idx_vf event_id block signal data wake) (H, s) \<longleftrightarrow>
     (case mem of None \<Rightarrow> True | Some a \<Rightarrow> entries s a = None)"
| "op_allowed (Op_Release skipped a) (H, s) \<longleftrightarrow> a \<in> H"
| "op_allowed (Op_Push_Back a) (H, s) \<longleftrightarrow> a \<in> H"
| "op_allowed _ (H, s) \<longleftrightarrow> True"

fun sched_exec :: "queue_op \<Rightarrow> nat set \<times> amdgv_sched \<Rightarrow> (nat set \<times> amdgv_sched) cres" where
  "sched_exec (Op_Push now mem idx_vf event_id block signal data wake) (H, s) =
     cbind (amdgv_sched_event_queue_push_ex now mem idx_vf event_id block signal data wake s) (\<lambda>(r, s). Inr (H, s))"
| "sched_exec Op_Pick (H, s) = cbind (amdgv_sched_pick_up_next_event s) (\<lambda>(event, s).
     Inr (case event of None \<Rightarrow> H | Some a \<Rightarrow> insert a H, s))"
| "sched_exec (Op_Release skipped a) (H, s) = cbind (release_event skipped a s) (\<lambda>s. Inr (H - {a}, s))"
| "sched_exec (Op_Push_Back a) (H, s) = cbind (amdgv_sched_push_back_event a s) (\<lambda>s. Inr (H - {a}, s))"
| "sched_exec (Op_Mark event status m) (H, s) = cbind (amdgv_sched_mark_event_in_ring event status m s) (\<lambda>s. Inr (H, s))"
| "sched_exec (Op_Finish l event) (H, s) = cbind (amdgv_sched_finish_event l event s) (\<lambda>s. Inr (H, s))"
| "sched_exec Op_Remove_Stale (H, s) = cbind (amdgv_sched_remove_stale_events_after_wgr s) (\<lambda>s. Inr (H, s))"
| "sched_exec (Op_Find idx_vf event_id) (H, s) = cbind (amdgv_sched_is_find_event s idx_vf event_id) (\<lambda>_. Inr (H, s))"

fun sched_run :: "queue_op list \<Rightarrow> nat set \<times> amdgv_sched \<Rightarrow> (nat set \<times> amdgv_sched) cres" where
  "sched_run [] st = Inr st"
| "sched_run (op # ops) st = (if op_allowed op st then cbind (sched_exec op st) (sched_run ops) else sched_run ops st)"

lemma finish_ok:
  assumes ok: "sched_ok H s"
  shows "\<exists>s'. amdgv_sched_finish_event l event s = Inr s' \<and> sched_ok H s'"
proof -
  have "set (event_list s l) \<subseteq> dom (entries s)" using ok unfolding sched_ok_def by blast
  from finish_entries_ok [OF this] obtain g where g: "finish_entries (se_id event) (event_list s l) s = Inr (s\<lparr>entries := g\<rparr>)"
    "dom g = dom (entries s)" "\<forall>a e. entries s a = Some e \<longrightarrow> (\<exists>st. g a = Some (e\<lparr>se_status := st\<rparr>))" by blast
  have "\<exists>e. g a = Some e \<and> map_option fst (arrange_case (se_id e)) = Some m" if a: "a \<in> set (event_list s m)" for a m
  proof -
    obtain e where e: "entries s a = Some e" "map_option fst (arrange_case (se_id e)) = Some m" using ok a unfolding sched_ok_def by blast
    then obtain st where "g a = Some (e\<lparr>se_status := st\<rparr>)" using g(3) by blast
    then show ?thesis using e(2) by simp
  qed
  then have "sched_ok H (s\<lparr>entries := g\<rparr>)" using ok g(2) unfolding sched_ok_def by simp
  with g(1) show ?thesis by (simp add: amdgv_sched_finish_event_def)
qed

lemma finish_stale_ok:
  assumes "sched_ok H s"
  shows "\<exists>s'. finish_stale xs s = Inr s' \<and> sched_ok H s'"
  using assms
proof (induction xs arbitrary: s)
  case (Cons x xs)
  obtain i l where x: "x = (i, l)" by fastforce
  let ?e = "blank_event\<lparr>se_idx_vf := AMDGV_PF_IDX, se_id := i\<rparr>"
  obtain s1 where s1: "amdgv_sched_finish_event l ?e s = Inr s1" "sched_ok H s1" using finish_ok [OF Cons.prems] by blast
  obtain s2 where s2: "amdgv_sched_mark_event_in_ring ?e AMDGV_EVENT_STATUS_FINISHED False s1 = Inr s2" "sched_ok H s2"
    using mark_ok [OF s1(2)] by blast
  from Cons.IH [OF s2(2)] show ?case using s1(1) s2(1) x by (simp add: Let_def)
qed simp

lemma find_in_list_ok: "set as \<subseteq> dom (entries s) \<Longrightarrow> \<exists>b. find_in_list s P as = Inr b"
  by (induction as) (auto simp: entry_event_def)

lemma find_ok:
  assumes ok: "sched_ok H s" shows "\<exists>b. amdgv_sched_is_find_event s idx_vf event_id = Inr b"
proof -
  obtain ws where ws: "event_queue s = Queue ws" "length ws = 256" using ok by (rule sched_ok_queue)
  have "\<exists>b. cfold (\<lambda>ptr found. if found then Inr True
      else cbind (slot s ptr) (\<lambda>w. Inr (match_event event_id idx_vf (w_event w)))) ids found = Inr b" for ids found
    by (induction ids arbitrary: found) (simp_all add: slot_def slots_def ws)
  then obtain b where b: "ring_loop (\<lambda>ptr found. if found then Inr True
      else cbind (slot s ptr) (\<lambda>w. Inr (match_event event_id idx_vf (w_event w)))) (queue_wptr s) (queue_rptr s) False = Inr b"
    unfolding ring_loop_ids by blast
  have "set (listed s) \<subseteq> dom (entries s)" using ok by (auto simp: sched_ok_def)
  from find_in_list_ok [OF this] obtain c where
    "find_in_list s (match_event event_id idx_vf) (concat (map (event_list s) event_lists)) = Inr c" unfolding listed_def by blast
  then show ?thesis unfolding amdgv_sched_is_find_event_def b by (cases b) auto
qed

lemma pick_any_ok:
  assumes ok: "sched_ok H s"
  shows "\<exists>x s'. amdgv_sched_pick_up_next_event s = Inr (x, s') \<and> sched_ok (case x of None \<Rightarrow> H | Some a \<Rightarrow> insert a H) s'"
proof -
  obtain s1 where s1: "take_new_events s = Inr s1" "sched_ok H s1" "queue_events s1 = []"
    using take_new_ok [OF ok] by blast
  then have "amdgv_sched_event_queue_empty s1" using queue_empty_iff [of s1] by (simp add: sched_ok_def)
  then have "amdgv_sched_pick_up_next_event s = amdgv_sched_pick_up_next_event s1"
    using s1(1) by (simp add: amdgv_sched_pick_up_next_event_def take_new_events_def)
  moreover have "\<exists>x s'. amdgv_sched_pick_up_next_event s1 = Inr (x, s') \<and> sched_ok (case x of None \<Rightarrow> H | Some a \<Rightarrow> insert a H) s'"
    using pick_ok [OF s1(2,3)] s1(2) by (cases "agenda s1") auto
  ultimately show ?thesis by simp
qed

lemma exec_ok:
  assumes ok: "sched_ok H s" and al: "op_allowed op (H, s)"
  shows "\<exists>H' s'. sched_exec op (H, s) = Inr (H', s') \<and> sched_ok H' s'"
proof (cases op)
  case (Op_Push now mem idx_vf event_id block signal data wake)
  have "\<forall>a. mem = Some a \<longrightarrow> a \<notin> dom (entries s)" using al Op_Push by auto
  from push_ok [OF ok this] obtain r s' where
    "amdgv_sched_event_queue_push_ex now mem idx_vf event_id block signal data wake s = Inr (r, s')" "sched_ok H s'" by blast
  then show ?thesis using Op_Push by simp
next
  case Op_Pick
  with pick_any_ok [OF ok] show ?thesis by auto
next
  case (Op_Release skipped a)
  then have "a \<in> H" using al by simp
  from release_ok [OF ok this, of skipped] obtain s' where "release_event skipped a s = Inr s'" "sched_ok (H - {a}) s'" by blast
  then show ?thesis using Op_Release by simp
next
  case (Op_Push_Back a)
  then have "a \<in> H" using al by simp
  from push_back_ok [OF ok this] obtain s' where "amdgv_sched_push_back_event a s = Inr s'" "sched_ok (H - {a}) s'" by blast
  then show ?thesis using Op_Push_Back by simp
next
  case (Op_Mark event status m)
  obtain s' where "amdgv_sched_mark_event_in_ring event status m s = Inr s'" "sched_ok H s'" using mark_ok [OF ok] by blast
  then show ?thesis using Op_Mark by simp
next
  case (Op_Finish l event)
  obtain s' where "amdgv_sched_finish_event l event s = Inr s'" "sched_ok H s'" using finish_ok [OF ok] by blast
  then show ?thesis using Op_Finish by simp
next
  case Op_Remove_Stale
  obtain s' where "amdgv_sched_remove_stale_events_after_wgr s = Inr s'" "sched_ok H s'"
    unfolding amdgv_sched_remove_stale_events_after_wgr_def using finish_stale_ok [OF ok] by blast
  then show ?thesis using Op_Remove_Stale by simp
next
  case (Op_Find idx_vf event_id)
  obtain b where "amdgv_sched_is_find_event s idx_vf event_id = Inr b" using find_ok [OF ok] by blast
  then show ?thesis using Op_Find ok by simp
qed

lemma run_ok:
  assumes "sched_ok H s"
  shows "\<exists>H' s'. sched_run ops (H, s) = Inr (H', s') \<and> sched_ok H' s'"
  using assms
proof (induction ops arbitrary: H s)
  case (Cons op ops)
  show ?case
  proof (cases "op_allowed op (H, s)")
    case True
    then show ?thesis using exec_ok [OF Cons.prems True] Cons.IH by fastforce
  qed (use Cons in simp)
qed simp

text \<open>The state after a successful set-up.\<close>

definition sched_zero :: amdgv_sched where
  "sched_zero = \<lparr>event_queue = Queue_Null, queue_rptr = 0, queue_wptr = 0, queue_lock = False, entries = (\<lambda>_. None),
     event_list = (\<lambda>_. []), curr_event_list_idx = AMDGV_SCHED_EVENT_LIST_0, next_event = None, unrecov_err = False,
     lock_world_switch = False, is_in_powersaving = False, event_thread_status = AMDGV_EVENT_THREAD_IDLE, event_set = False,
     signals = [], live_migration = False, sched_num_vf = 0, mig_state = [], gpu_init_data_ready = replicate 32 False\<rparr>"

definition sched_start :: amdgv_sched where
  "sched_start = snd (amdgv_sched_event_queue_init True True sched_zero)"

text \<open>Set-up on any adapter that has no events yet and on which \<^verbatim>\<open>AMDGV_FLAG_GPUV_LIVE_MIGRATION\<close> is not set.\<close>

definition no_events :: "amdgv_sched \<Rightarrow> bool" where
  "no_events s \<longleftrightarrow> entries s = (\<lambda>_. None) \<and> event_list s = (\<lambda>_. []) \<and> next_event s = None"

lemma queue_init_ok:
  assumes "no_events s" and "\<not> live_migration s"
  shows "sched_ok {} (snd (amdgv_sched_event_queue_init True True s))"
  using assms by (simp add: no_events_def sched_ok_def amdgv_sched_event_queue_init_def event_ring_ok_def queue_entries_def
      ring_slots_def listed_def event_lists_def)

lemma sched_zero_fresh: "no_events sched_zero" "\<not> live_migration sched_zero"
  by (simp_all add: no_events_def sched_zero_def)

lemma sched_start_ok: "sched_ok {} sched_start"
  unfolding sched_start_def by (rule queue_init_ok [OF sched_zero_fresh])

end
