(* ===== verification/GV_Sched_Queue.thy ===== *)
theory GV_Sched_Queue
  imports GV_Sched_Event GV_Guard
begin

text \<open>
  The callers' side of \<^verbatim>\<open>libgv/core/amdgv_sched_event.c\<close>: the checks before an event is queued, which consult
  the event guard, the queueing functions, set-up and tear-down of the event processing, and the export and
  import of the pending events in a live update.
\<close>

section \<open>Queueing an event\<close>

text \<open>The scheduler and the guards of an adapter; \<open>sa_reads\<close> counts the readings of the clock.\<close>

record sched_adapter =
  sa_sched :: amdgv_sched
  sa_guard :: guard_adapter
  sa_reads :: nat

abbreviation (input) GPUMON_CPER_GET_COUNT :: u32 where "GPUMON_CPER_GET_COUNT \<equiv> 55"
abbreviation (input) GPUMON_CPER_GET_ENTRIES :: u32 where "GPUMON_CPER_GET_ENTRIES \<equiv> 56"

definition gpumon_unrecov_err_whitelist :: "u32 list" where
  "gpumon_unrecov_err_whitelist = [GPUMON_CPER_GET_ENTRIES, GPUMON_CPER_GET_COUNT]"

definition amdgv_sched_allow_queue_in_unrecov_err :: "amdgv_sched_event_id \<Rightarrow> amdgv_sched_event_data \<Rightarrow> bool" where
  "amdgv_sched_allow_queue_in_unrecov_err event_id data \<longleftrightarrow>
     event_id = AMDGV_EVENT_SCHED_FORCE_RESET_GPU_INTERNAL \<or>
     event_id = AMDGV_EVENT_SCHED_GPUMON \<and> gpumon_type data \<in> set gpumon_unrecov_err_whitelist"

text \<open>The counting part of the guard: whether the request is refused, and the guard afterwards. \<open>active\<close> is \<^verbatim>\<open>is_active_vf\<close>.\<close>

definition guard_counts :: "clock \<Rightarrow> bool \<Rightarrow> u32 \<Rightarrow> amdgv_sched_event_id \<Rightarrow> nat \<Rightarrow> guard_adapter \<Rightarrow>
    (bool \<times> nat \<times> guard_adapter) cres" where
  "guard_counts clk active idx_vf event_id t g =
     (if event_id \<in> {AMDGV_EVENT_REQ_GPU_INIT, AMDGV_EVENT_REQ_GPU_RESET, AMDGV_EVENT_REQ_GPU_DEBUG}
      then cbind (amdgv_guard_add_active_event clk t g idx_vf AMDGV_GUARD_EVENT_EXCLUSIVE_MOD)
        (\<lambda>(ret, t, g). Inr (ret = AMDGV_EVENT_OVERFLOW, t, g))
      else if event_id = AMDGV_EVENT_REQ_GPU_FINI
      then cbind (amdgv_guard_add_active_event clk t g idx_vf AMDGV_GUARD_EVENT_EXCLUSIVE_MOD)
        (\<lambda>(ret, t, g). Inr (\<not> active \<and> ret = AMDGV_EVENT_OVERFLOW, t, g))
      else Inr (False, t, g))"

definition guard_refuses :: "u32 \<Rightarrow> amdgv_sched_event_id \<Rightarrow> guard_adapter \<Rightarrow> bool cres" where
  "guard_refuses idx_vf event_id g =
     cbind (amdgv_guard_is_event_full g idx_vf AMDGV_GUARD_EVENT_EXCLUSIVE_TIMEOUT) (\<lambda>timeout.
     if timeout \<noteq> 0 then Inr True
     else cbind (amdgv_guard_is_event_full g idx_vf AMDGV_GUARD_EVENT_FLR) (\<lambda>flr.
     if flr = AMDGV_GUARD_EVENT_OVERFLOW \<and> event_id \<in> {AMDGV_EVENT_REQ_GPU_RESET, AMDGV_EVENT_REQ_GPU_INIT} then Inr True
     else cbind (amdgv_guard_is_event_full g idx_vf AMDGV_GUARD_EVENT_WGR) (\<lambda>wgr.
       Inr (wgr = AMDGV_GUARD_EVENT_OVERFLOW \<and> event_id \<in> {AMDGV_EVENT_REQ_GPU_RESET, AMDGV_EVENT_REQ_GPU_INIT}))))"

definition amdgv_sched_sanitize_queue_event :: "clock \<Rightarrow> bool \<Rightarrow> u32 \<Rightarrow> amdgv_sched_event_id \<Rightarrow> amdgv_sched_event_data \<Rightarrow>
    sched_adapter \<Rightarrow> (int \<times> sched_adapter) cres" where
  "amdgv_sched_sanitize_queue_event clk active idx_vf event_id data adapt =
     (if unrecov_err (sa_sched adapt) \<and> \<not> amdgv_sched_allow_queue_in_unrecov_err event_id data
      then Inr (AMDGV_FAILURE, adapt)
      else if AMDGV_EVENT_REQ_GPU_INIT \<le> event_id \<and> event_id \<le> AMDGV_EVENT_REL_GPU_DEBUG
      then cbind (guard_counts clk active idx_vf event_id (sa_reads adapt) (sa_guard adapt)) (\<lambda>(overflow, t, g).
        let adapt = adapt\<lparr>sa_guard := g, sa_reads := t\<rparr> in
        if overflow then Inr (AMDGV_FAILURE, adapt)
        else cbind (guard_refuses idx_vf event_id g) (\<lambda>refused.
          Inr (if refused then AMDGV_FAILURE else 0, adapt)))
      else Inr (0, adapt))"

text \<open>What the environment answers to a queueing call.\<close>

record queue_env =
  qe_clock :: clock
  qe_active :: bool
  qe_now :: u64
  qe_mem :: "nat option"
  qe_event :: "nat option" \<comment> \<open>of \<open>oss_event_init\<close>\<close>
  qe_in_event_thread :: bool

definition queue_event_signal :: "queue_env \<Rightarrow> u32 \<Rightarrow> amdgv_sched_event_id \<Rightarrow> u32 \<Rightarrow> nat option \<Rightarrow> amdgv_sched_event_data \<Rightarrow>
    bool \<Rightarrow> sched_adapter \<Rightarrow> (int \<times> sched_adapter) cres" where
  "queue_event_signal env idx_vf event_id sched_block signal data wake adapt =
     cbind (amdgv_sched_event_queue_push_ex (qe_now env) (qe_mem env) idx_vf event_id sched_block signal data wake (sa_sched adapt))
       (\<lambda>(ret, s). Inr (ret, adapt\<lparr>sa_sched := s\<rparr>))"

definition amdgv_sched_queue_event_ex :: "queue_env \<Rightarrow> u32 \<Rightarrow> amdgv_sched_event_id \<Rightarrow> u32 \<Rightarrow> amdgv_sched_event_data \<Rightarrow>
    sched_adapter \<Rightarrow> (int \<times> sched_adapter) cres" where
  "amdgv_sched_queue_event_ex env idx_vf event_id sched_block data adapt =
     cbind (amdgv_sched_sanitize_queue_event (qe_clock env) (qe_active env) idx_vf event_id data adapt) (\<lambda>(ret, adapt).
     if ret \<noteq> 0 then Inr (ret, adapt) else queue_event_signal env idx_vf event_id sched_block None data True adapt)"

definition amdgv_sched_queue_event_ex_no_signal :: "queue_env \<Rightarrow> u32 \<Rightarrow> amdgv_sched_event_id \<Rightarrow> u32 \<Rightarrow>
    amdgv_sched_event_data \<Rightarrow> sched_adapter \<Rightarrow> (int \<times> sched_adapter) cres" where
  "amdgv_sched_queue_event_ex_no_signal env idx_vf event_id sched_block data adapt =
     cbind (amdgv_sched_sanitize_queue_event (qe_clock env) (qe_active env) idx_vf event_id data adapt) (\<lambda>(ret, adapt).
     if ret \<noteq> 0 then Inr (ret, adapt) else queue_event_signal env idx_vf event_id sched_block None data False adapt)"

text \<open>The waiting variant up to the wait: the result of an early return, or the signal that the caller waits for.\<close>

definition amdgv_sched_queue_event_and_wait_ex :: "queue_env \<Rightarrow> u32 \<Rightarrow> amdgv_sched_event_id \<Rightarrow> u32 \<Rightarrow>
    amdgv_sched_event_data \<Rightarrow> sched_adapter \<Rightarrow> ((int + nat) \<times> sched_adapter) cres" where
  "amdgv_sched_queue_event_and_wait_ex env idx_vf event_id sched_block data adapt =
     cbind (amdgv_sched_sanitize_queue_event (qe_clock env) (qe_active env) idx_vf event_id data adapt) (\<lambda>(ret, adapt).
     if ret \<noteq> 0 then Inr (Inl ret, adapt)
     else if qe_in_event_thread env then Inr (Inl AMDGV_FAILURE, adapt)
     else (case qe_event env of
         None \<Rightarrow> Inr (Inl AMDGV_FAILURE, adapt)
       | Some h \<Rightarrow> cbind (queue_event_signal env idx_vf event_id sched_block (Some h) data True adapt) (\<lambda>(ret, adapt).
           Inr (if ret \<noteq> 0 then Inl AMDGV_FAILURE else Inr h, adapt))))"

definition amdgv_sched_queue_event :: "queue_env \<Rightarrow> u32 \<Rightarrow> amdgv_sched_event_id \<Rightarrow> u32 \<Rightarrow> sched_adapter \<Rightarrow>
    (int \<times> sched_adapter) cres" where
  "amdgv_sched_queue_event env idx_vf event_id sched_block = amdgv_sched_queue_event_ex env idx_vf event_id sched_block zero_data"

definition amdgv_sched_queue_event_no_signal :: "queue_env \<Rightarrow> u32 \<Rightarrow> amdgv_sched_event_id \<Rightarrow> u32 \<Rightarrow> sched_adapter \<Rightarrow>
    (int \<times> sched_adapter) cres" where
  "amdgv_sched_queue_event_no_signal env idx_vf event_id sched_block =
     amdgv_sched_queue_event_ex_no_signal env idx_vf event_id sched_block zero_data"

definition amdgv_sched_queue_event_and_wait :: "queue_env \<Rightarrow> u32 \<Rightarrow> amdgv_sched_event_id \<Rightarrow> u32 \<Rightarrow> sched_adapter \<Rightarrow>
    ((int + nat) \<times> sched_adapter) cres" where
  "amdgv_sched_queue_event_and_wait env idx_vf event_id sched_block =
     amdgv_sched_queue_event_and_wait_ex env idx_vf event_id sched_block zero_data"

section \<open>Set-up and tear-down\<close>

record sched_process =
  sp_sched :: amdgv_sched
  sp_event :: bool
  sp_event_thread_lock :: bool
  sp_event_thread :: bool
  sp_in_full_access :: bool
  sp_idx_vf_full_access :: u32
  sp_used_time_full_access :: u64
  sp_allow_time_full_access :: u32

record process_env =
  pe_event :: bool
  pe_mutex :: bool
  pe_queue :: bool
  pe_spin_lock :: bool
  pe_thread :: bool
  pe_opt_allow_time :: u32
  pe_num_vf_per_gfx_sched :: u32
  pe_emu_mode :: bool
  pe_max_num_vf :: u32

abbreviation (input) AMDGV_SCHED_EXCLUSIVE_TIMEOUT_MS_1VF :: u32 where "AMDGV_SCHED_EXCLUSIVE_TIMEOUT_MS_1VF \<equiv> 3000"
abbreviation (input) AMDGV_SCHED_EXCLUSIVE_TIMEOUT_MS_COMMON :: u32 where "AMDGV_SCHED_EXCLUSIVE_TIMEOUT_MS_COMMON \<equiv> 1500"

definition allow_time :: "process_env \<Rightarrow> u32" where
  "allow_time env = (let t = (if pe_opt_allow_time env = 0
       then (if pe_num_vf_per_gfx_sched env = 1 then AMDGV_SCHED_EXCLUSIVE_TIMEOUT_MS_1VF * 1000
         else AMDGV_SCHED_EXCLUSIVE_TIMEOUT_MS_COMMON * 1000)
       else pe_opt_allow_time env * 1000) in if pe_emu_mode env then t * 1000 else t)"

definition amdgv_sched_event_queue_process_init :: "process_env \<Rightarrow> sched_process \<Rightarrow> (int \<times> sched_process) cres" where
  "amdgv_sched_event_queue_process_init env p =
     (let p = p\<lparr>sp_sched := (sp_sched p)\<lparr>event_list := (\<lambda>_. [])\<rparr>, sp_event := pe_event env\<rparr> in
      if \<not> pe_event env then Inr (AMDGV_FAILURE, p)
      else if \<not> pe_mutex env then Inr (AMDGV_FAILURE, p\<lparr>sp_event := False, sp_event_thread_lock := False\<rparr>)
      else let (ret, s) = amdgv_sched_event_queue_init (pe_queue env) (pe_spin_lock env) (sp_sched p);
          p = p\<lparr>sp_sched := s, sp_event_thread_lock := True\<rparr> in
        if ret \<noteq> 0 then Inr (AMDGV_FAILURE, p\<lparr>sp_event := False, sp_event_thread_lock := False\<rparr>)
        else let p = p\<lparr>sp_in_full_access := False, sp_idx_vf_full_access := pe_max_num_vf env + 1, sp_used_time_full_access := 0,
               sp_allow_time_full_access := allow_time env\<rparr> in
          if \<not> pe_thread env
          then cbind (amdgv_sched_event_queue_fini s) (\<lambda>s. Inr (AMDGV_FAILURE,
            p\<lparr>sp_sched := s, sp_event := False, sp_event_thread_lock := False\<rparr>))
          else Inr (0, p\<lparr>sp_event_thread := True\<rparr>))"

definition amdgv_sched_event_queue_process_fini :: "nat \<Rightarrow> sched_process \<Rightarrow> sched_process cres" where
  "amdgv_sched_event_queue_process_fini n p =
     cbind (amdgv_sched_process_event_fini n (sp_sched p)) (\<lambda>s.
     cbind (amdgv_sched_event_queue_fini s) (\<lambda>s.
       Inr (p\<lparr>sp_sched := s, sp_event_thread := False, sp_event := False, sp_event_thread_lock := False\<rparr>)))"

section \<open>Live update\<close>

record amdgv_live_info_sched_event =
  le_idx_vf :: u32
  le_id :: u32
  le_sched_id :: u32

record amdgv_live_info_unprocessed_event =
  unprocessed_event_count :: u32
  unprocessed_events :: "amdgv_live_info_sched_event list"

definition amdgv_sched_export_unprocessed_event_size :: "amdgv_sched \<Rightarrow> (u32 \<times> amdgv_sched) cres" where
  "amdgv_sched_export_unprocessed_event_size s = cbind (take_new_events s) (\<lambda>s.
     Inr (of_nat (length (concat (map (event_list s) event_lists))), s))"

text \<open>The export loop; \<open>i\<close> is the number of exported events.\<close>

fun export_events :: "nat \<Rightarrow> u32 \<Rightarrow> amdgv_live_info_unprocessed_event \<Rightarrow> amdgv_sched \<Rightarrow>
    (amdgv_live_info_unprocessed_event \<times> amdgv_sched) cres" where
  "export_events 0 i info s = Inl Endless_Loop"
| "export_events (Suc n) i info s = cbind (amdgv_sched_pick_up_next_event s) (\<lambda>(event, s). case event of
       None \<Rightarrow> Inr (info\<lparr>unprocessed_event_count := i\<rparr>, s)
     | Some a \<Rightarrow> cbind (entry_event s a) (\<lambda>e.
         let s = oss_signal (se_signal e) False s in
         if of_nat AMDGV_EVENT_QUEUE_ENTRY_NUM \<le> i then Inr (info\<lparr>unprocessed_event_count := i\<rparr>, s)
         else cbind (if se_id e \<noteq> AMDGV_EVENT_SCHED_GPUMON
             then cbind (cwrite (unprocessed_events info) (unat i)
                 \<lparr>le_idx_vf = se_idx_vf e, le_id = se_id e, le_sched_id = se_sched_block e\<rparr>)
               (\<lambda>evs. Inr (i + 1, info\<lparr>unprocessed_events := evs\<rparr>))
             else Inr (i, info))
           (\<lambda>(i, info). cbind (amdgv_sched_free_event a s) (export_events n i info))))"

definition amdgv_sched_export_unprocessed_event :: "nat \<Rightarrow> amdgv_live_info_unprocessed_event \<Rightarrow> amdgv_sched \<Rightarrow>
    (amdgv_live_info_unprocessed_event \<times> amdgv_sched) cres" where
  "amdgv_sched_export_unprocessed_event n info s =
     cbind (amdgv_sched_export_unprocessed_event_size s) (\<lambda>(_, s). export_events n 0 info s)"

text \<open>The import loop over the remaining \<open>n\<close> events; \<open>env\<close> answers the \<open>i\<close>-th push.\<close>

fun import_events :: "(nat \<Rightarrow> u64 \<times> nat option) \<Rightarrow> nat \<Rightarrow> nat \<Rightarrow> amdgv_live_info_sched_event list \<Rightarrow> amdgv_sched \<Rightarrow>
    amdgv_sched cres" where
  "import_events env i 0 evs s = Inr s"
| "import_events env i (Suc n) evs s = cbind (cread evs i) (\<lambda>e.
     cbind (amdgv_sched_event_queue_push_ex (fst (env i)) (snd (env i)) (le_idx_vf e) (le_id e) (le_sched_id e) None zero_data True s)
       (\<lambda>(_, s). import_events env (Suc i) n evs s))"

definition amdgv_sched_import_unprocessed_event :: "(nat \<Rightarrow> u64 \<times> nat option) \<Rightarrow> amdgv_live_info_unprocessed_event \<Rightarrow>
    amdgv_sched \<Rightarrow> amdgv_sched cres" where
  "amdgv_sched_import_unprocessed_event env info s =
     import_events env 0 (unat (unprocessed_event_count info)) (unprocessed_events info) s"

end
