(* ===== verification/GV_Sched_Props.thy ===== *)
theory GV_Sched_Props
  imports GV_Sched_Inv GV_Sched_Queue GV_Guard_Props
begin

text \<open>
  The properties of the event queue of the scheduler and of its callers' side.
\<close>

section \<open>A bounded queue\<close>

text \<open>What the importer of a live update relies on: a push appends its item until the queue is full, and does not
  spoil a later push with other memory.\<close>

locale bounded_queue =
  fixes ok :: "'s \<Rightarrow> bool" and contents :: "'s \<Rightarrow> 'e list" and cap :: nat
    and push :: "'x \<Rightarrow> 's \<Rightarrow> (int \<times> 's) cres" and item :: "'x \<Rightarrow> 'e" and can :: "'x \<Rightarrow> 's \<Rightarrow> bool"
    and apart :: "'x \<Rightarrow> 'x \<Rightarrow> bool"
  assumes push_law: "ok s \<Longrightarrow> can x s \<Longrightarrow> \<exists>r s'. push x s = Inr (r, s') \<and> ok s' \<and>
      contents s' = (if length (contents s) = cap then contents s else contents s @ [item x]) \<and>
      (\<forall>y. apart x y \<longrightarrow> can y s \<longrightarrow> can y s')"
    and bounded: "ok s \<Longrightarrow> length (contents s) \<le> cap"
begin

fun push_all :: "'x list \<Rightarrow> 's \<Rightarrow> 's cres" where
  "push_all [] s = Inr s"
| "push_all (x # xs) s = cbind (push x s) (\<lambda>(_, s). push_all xs s)"

lemma fill:
  assumes "ok s" "\<forall>x \<in> set xs. can x s" "sorted_wrt apart xs"
  shows "\<exists>s'. push_all xs s = Inr s' \<and> ok s' \<and> contents s' = take cap (contents s @ map item xs)"
  using assms
proof (induction xs arbitrary: s)
  case Nil
  then show ?case using bounded [of s] by simp
next
  case (Cons x xs)
  obtain r s1 where s1: "push x s = Inr (r, s1)" "ok s1"
    "contents s1 = (if length (contents s) = cap then contents s else contents s @ [item x])"
    "\<forall>y. apart x y \<longrightarrow> can y s \<longrightarrow> can y s1"
    using push_law [OF Cons.prems(1), of x] Cons.prems(2) by auto
  have "\<forall>y \<in> set xs. can y s1" using s1(4) Cons.prems(2,3) by auto
  from Cons.IH [OF s1(2) this] Cons.prems(3) obtain s2 where s2: "push_all xs s1 = Inr s2" "ok s2"
    "contents s2 = take cap (contents s1 @ map item xs)" by auto
  have "take cap (contents s1 @ map item xs) = take cap (contents s @ map item (x # xs))"
    using s1(3) by (cases "length (contents s) = cap") simp_all
  then show ?case using s1(1) s2 by auto
qed

end

type_synonym ring_request = "u64 \<times> nat option \<times> u32 \<times> amdgv_sched_event_id \<times> u32"

definition ring_push :: "ring_request \<Rightarrow> amdgv_sched \<Rightarrow> (int \<times> amdgv_sched) cres" where
  "ring_push x s = (case x of (now, mem, idx_vf, event_id, sched_block) \<Rightarrow>
     amdgv_sched_event_queue_push_ex now mem idx_vf event_id sched_block None zero_data True s)"

definition ring_item :: "ring_request \<Rightarrow> amdgv_sched_event" where
  "ring_item x = (case x of (now, mem, idx_vf, event_id, sched_block) \<Rightarrow> pushed now idx_vf event_id sched_block None zero_data)"

definition ring_can :: "ring_request \<Rightarrow> amdgv_sched \<Rightarrow> bool" where
  "ring_can x s \<longleftrightarrow> (\<exists>a. fst (snd x) = Some a \<and> a \<notin> dom (entries s)) \<and> \<not> is_in_powersaving s"

interpretation event_ring: bounded_queue "sched_ok {}" queue_events 255 ring_push ring_item ring_can "\<lambda>x y. fst (snd x) \<noteq> fst (snd y)"
proof
  fix s :: amdgv_sched and x :: ring_request
  assume ok: "sched_ok {} s" and can: "ring_can x s"
  obtain now mem i e b where x: "x = (now, mem, i, e, b)" by (metis prod_cases5)
  have "\<forall>a. mem = Some a \<longrightarrow> a \<notin> dom (entries s)" using can x by (auto simp: ring_can_def)
  from push_ok [OF ok this, of now i e b None zero_data True] obtain r s' where
    p: "amdgv_sched_event_queue_push_ex now mem i e b None zero_data True s = Inr (r, s')" "sched_ok {} s'"
      "is_in_powersaving s' = is_in_powersaving s" "dom (entries s') \<subseteq> dom (entries s) \<union> set_option mem"
      "if push_refused mem e s then r = AMDGV_FAILURE \<and> queue_events s' = queue_events s
       else r = 0 \<and> queue_events s' = queue_events s @ [pushed now i e b None zero_data]"
    by blast
  have "push_refused mem e s \<longleftrightarrow> length (queue_events s) = 255" using can x by (auto simp: push_refused_def ring_can_def)
  moreover have "ring_can y s'" if y: "mem \<noteq> fst (snd y)" "ring_can y s" for y
  proof -
    obtain a where a: "fst (snd y) = Some a" "a \<notin> dom (entries s)" "\<not> is_in_powersaving s" using y(2) by (auto simp: ring_can_def)
    then have "a \<notin> dom (entries s')" using p(4) y(1) by auto
    then show ?thesis using a p(3) by (simp add: ring_can_def)
  qed
  ultimately show "\<exists>r s'. ring_push x s = Inr (r, s') \<and> sched_ok {} s' \<and>
      queue_events s' = (if length (queue_events s) = 255 then queue_events s else queue_events s @ [ring_item x]) \<and>
      (\<forall>y. fst (snd x) \<noteq> fst (snd y) \<longrightarrow> ring_can y s \<longrightarrow> ring_can y s')"
    using p x by (auto simp: ring_push_def ring_item_def split: if_splits)
next
  fix s :: amdgv_sched
  assume "sched_ok {} s"
  then have "length (queue_events s) = length (ring_ids (queue_wptr s) (queue_rptr s))" by (simp add: length_queue sched_ok_def)
  also have "\<dots> < 256" by (simp add: ring_ids_def)
  finally show "length (queue_events s) \<le> 255" by simp
qed

section \<open>Live update\<close>

definition live_event :: "amdgv_sched_event \<Rightarrow> amdgv_live_info_sched_event" where
  "live_event e = \<lparr>le_idx_vf = se_idx_vf e, le_id = se_id e, le_sched_id = se_sched_block e\<rparr>"

definition exported_events :: "amdgv_sched_event list \<Rightarrow> amdgv_live_info_sched_event list" where
  "exported_events es = map live_event (filter (\<lambda>e. se_id e \<noteq> AMDGV_EVENT_SCHED_GPUMON) es)"

lemma export_events_ok:
  assumes "sched_ok {} s" "queue_events s = []" "length (agenda s) < n" "unat i + length (agenda s) \<le> 256"
    "length (unprocessed_events info) = 256"
  shows "\<exists>info' s'. export_events n i info s = Inr (info', s') \<and> dom (entries s') = {} \<and>
    unat (unprocessed_event_count info') = unat i + length (exported_events (agenda_events s)) \<and>
    length (unprocessed_events info') = 256 \<and>
    take (unat (unprocessed_event_count info')) (unprocessed_events info') =
      take (unat i) (unprocessed_events info) @ exported_events (agenda_events s) \<and>
    signals s' = signals s @ concat (map (woken False) (agenda_events s))"
  using assms
proof (induction n arbitrary: i info s)
  case (Suc n)
  show ?case
  proof (cases "agenda s")
    case Nil
    then have "amdgv_sched_pick_up_next_event s = Inr (None, s)" using pick_ok [OF Suc.prems(1,2)] by simp
    moreover have "listed s = []" by (rule agenda_done [OF Suc.prems(1) Nil])
    moreover have "queue_entries s = []" using Suc.prems(2) length_entries [of s] by simp
    ultimately show ?thesis using Suc.prems Nil by (simp add: agenda_events_def exported_events_def sched_ok_def)
  next
    case (Cons a as)
    obtain s1 s2 where s: "amdgv_sched_pick_up_next_event s = Inr (Some a, s1)" "entries s1 = entries s" "sched_ok {a} s1"
      "release_event False a s1 = Inr s2" "sched_ok {} s2"
      "queue_events s2 = []" "agenda s2 = as" "agenda_events s2 = tl (agenda_events s)"
      "signals s2 = signals s @ woken False (hd (agenda_events s))"
      using pick_release_ok [OF Suc.prems(1,2) Cons, of False] by blast
    have "a \<in> dom (entries s1)" using s(3) by (auto simp: sched_ok_def)
    then obtain e where e: "entries s1 a = Some e" by blast
    have ev: "agenda_events s = e # agenda_events s2" using Cons s(2,8) e by (simp add: agenda_events_def)
    have "unat i < 256" using Suc.prems(4) Cons by simp
    then have i: "\<not> 256 \<le> i" by (simp add: word_le_nat_alt)
    have rel: "amdgv_sched_free_event a (oss_signal (se_signal e) False s1) = Inr s2"
      using s(4) e by (simp add: release_event_def entry_event_def)
    let ?x = "live_event e"
    show ?thesis
    proof (cases "se_id e = AMDGV_EVENT_SCHED_GPUMON")
      case True
      have run: "export_events (Suc n) i info s = export_events n i info s2"
        using s(1) e i True rel by (simp add: entry_event_def)
      have "length (agenda s2) < n" "unat i + length (agenda s2) \<le> 256" using s(7) Cons Suc.prems(3,4) by simp_all
      from Suc.IH [OF s(5,6) this Suc.prems(5)] show ?thesis unfolding run ev s(9) using True
        by (simp add: exported_events_def)
    next
      case False
      let ?info = "info\<lparr>unprocessed_events := (unprocessed_events info)[unat i := ?x]\<rparr>"
      have run: "export_events (Suc n) i info s = export_events n (i + 1) ?info s2"
        using s(1) e i False rel Suc.prems(5) \<open>unat i < 256\<close> by (simp add: entry_event_def live_event_def)
      have si: "unat (i + 1) = Suc (unat i)" using \<open>unat i < 256\<close> by (intro unat_inc32 [THEN trans]) simp_all
      have "length (agenda s2) < n" "unat (i + 1) + length (agenda s2) \<le> 256" "length (unprocessed_events ?info) = 256"
        using s(7) Cons Suc.prems(3,4,5) si by simp_all
      from Suc.IH [OF s(5,6) this] obtain info' s' where r: "export_events n (i + 1) ?info s2 = Inr (info', s')" "dom (entries s') = {}"
        "unat (unprocessed_event_count info') = unat (i + 1) + length (exported_events (agenda_events s2))"
        "length (unprocessed_events info') = 256"
        "take (unat (unprocessed_event_count info')) (unprocessed_events info') =
          take (unat (i + 1)) (unprocessed_events ?info) @ exported_events (agenda_events s2)"
        "signals s' = signals s2 @ concat (map (woken False) (agenda_events s2))" by blast
      have "take (unat (i + 1)) (unprocessed_events ?info) = take (unat i) (unprocessed_events info) @ [?x]"
        unfolding si using Suc.prems(5) \<open>unat i < 256\<close> by (simp add: take_Suc_conv_app_nth)
      moreover have "exported_events (e # agenda_events s2) = ?x # exported_events (agenda_events s2)" using False by (simp add: exported_events_def)
      ultimately show ?thesis using r si s(9) unfolding run ev by simp
    qed
  qed
qed simp

definition import_item :: "(nat \<Rightarrow> u64 \<times> nat option) \<Rightarrow> nat \<Rightarrow> amdgv_live_info_sched_event \<Rightarrow> ring_request" where
  "import_item env i e = (fst (env i), snd (env i), le_idx_vf e, le_id e, le_sched_id e)"

lemma import_push_all:
  assumes "i + n \<le> length evs"
  shows "import_events env i n evs s = event_ring.push_all (map (\<lambda>j. import_item env j (evs ! j)) [i..<i + n]) s"
  using assms
proof (induction n arbitrary: i s)
  case (Suc n)
  have "[i..<i + Suc n] = i # [Suc i..<Suc i + n]" by (simp add: upt_conv_Cons)
  moreover have "import_events env i (Suc n) evs s =
      cbind (ring_push (import_item env i (evs ! i)) s) (\<lambda>(_, s). import_events env (Suc i) n evs s)"
    using Suc.prems by (simp add: ring_push_def import_item_def)
  moreover have "import_events env (Suc i) n evs = event_ring.push_all (map (\<lambda>j. import_item env j (evs ! j)) [Suc i..<Suc i + n])"
    using Suc.IH [of "Suc i"] Suc.prems by auto
  ultimately show ?case by simp
qed simp

lemma import_ok:
  assumes ok: "sched_ok {} s" and n: "n \<le> length evs" and mem: "\<forall>i. \<exists>a. snd (env i) = Some a \<and> a \<notin> dom (entries s)"
    and inj: "inj (\<lambda>i. snd (env i))" and np: "\<not> is_in_powersaving s" and empty: "queue_events s = []"
  shows "\<exists>s'. import_events env 0 n evs s = Inr s' \<and> sched_ok {} s' \<and>
    map live_event (queue_events s') = take 255 (take n evs)"
proof -
  let ?xs = "map (\<lambda>j. import_item env j (evs ! j)) [0..<n]"
  have "\<forall>x \<in> set ?xs. ring_can x s" using mem np by (auto simp: ring_can_def import_item_def)
  moreover have "sorted_wrt (\<lambda>x y. fst (snd x) \<noteq> fst (snd y)) ?xs"
    using inj by (auto simp: sorted_wrt_map import_item_def sorted_wrt_iff_nth_less inj_def)
  ultimately obtain s' where s': "event_ring.push_all ?xs s = Inr s'" "sched_ok {} s'"
    "queue_events s' = take 255 (queue_events s @ map ring_item ?xs)"
    using event_ring.fill [OF ok] by blast
  have "map live_event (map ring_item ?xs) = take n evs"
    using n by (intro nth_equalityI) (simp_all add: import_item_def ring_item_def pushed_def live_event_def)
  then have "map live_event (queue_events s') = take 255 (take n evs)" unfolding s'(3) empty by (simp add: take_map [symmetric])
  then show ?thesis using s' import_push_all [of 0 n evs env s] n by auto
qed

section \<open>A sample state\<close>

text \<open>VF 3 releases full access twice, and both callers wait.\<close>

definition sample_first :: amdgv_sched_event where
  "sample_first = pushed 10 3 AMDGV_EVENT_REL_GPU_INIT 0 (Some 7) zero_data"

definition sample_second :: amdgv_sched_event where
  "sample_second = pushed 20 3 AMDGV_EVENT_REL_GPU_FINI 0 (Some 8) zero_data"

definition sample_sched :: amdgv_sched where
  "sample_sched = sched_start\<lparr>event_queue := Queue (empty_ring[0 := \<lparr>w_event = sample_first, w_entry = Some 0\<rparr>, 1 := \<lparr>w_event = sample_second, w_entry = Some 1\<rparr>]),
     entries := [0 \<mapsto> blank_event, 1 \<mapsto> blank_event], queue_wptr := 2,
     event_thread_status := AMDGV_EVENT_THREAD_WAKINGUP, event_set := True\<rparr>"

lemma push_go:
  assumes "event_queue s = Queue ws" "length ws = 256" "\<not> is_in_powersaving s" "queue_wptr s + 1 \<noteq> queue_rptr s"
    "event_thread_status s = AMDGV_EVENT_THREAD_IDLE \<or> event_thread_status s = AMDGV_EVENT_THREAD_WAKINGUP"
  shows "amdgv_sched_event_queue_push_ex now (Some a) idx_vf event_id sched_block signal data True s =
    Inr (0, s\<lparr>event_queue := Queue (ws[unat (queue_wptr s) :=
        \<lparr>w_event = pushed now idx_vf event_id sched_block signal data, w_entry = Some a\<rparr>]),
      entries := (entries s)(a \<mapsto> blank_event), queue_wptr := queue_wptr s + 1,
      event_thread_status := AMDGV_EVENT_THREAD_WAKINGUP, event_set := True\<rparr>)"
  using assms(3-) unfolding amdgv_sched_event_queue_push_ex_def Let_def
  by (auto simp: slot_def set_slot_def slots_def assms(1,2) pushed_def)

lemma sample_sched_run:
  "sched_run [Op_Push 10 (Some 0) 3 AMDGV_EVENT_REL_GPU_INIT 0 (Some 7) zero_data True,
     Op_Push 20 (Some 1) 3 AMDGV_EVENT_REL_GPU_FINI 0 (Some 8) zero_data True] ({}, sched_start) = Inr ({}, sample_sched)"
proof -
  have s: "sched_start = sched_zero\<lparr>event_queue := Queue empty_ring, queue_lock := True\<rparr>"
    by (simp add: sched_start_def amdgv_sched_event_queue_init_def sched_zero_def)
  let ?s1 = "sched_start\<lparr>event_queue := Queue (empty_ring[0 := \<lparr>w_event = sample_first, w_entry = Some 0\<rparr>]),
      entries := [0 \<mapsto> blank_event], queue_wptr := 1, event_thread_status := AMDGV_EVENT_THREAD_WAKINGUP, event_set := True\<rparr>"
  have "amdgv_sched_event_queue_push_ex 10 (Some 0) 3 AMDGV_EVENT_REL_GPU_INIT 0 (Some 7) zero_data True sched_start = Inr (0, ?s1)"
    by (subst push_go [where ws = empty_ring]) (simp_all add: s sched_zero_def sample_first_def)
  moreover have "amdgv_sched_event_queue_push_ex 20 (Some 1) 3 AMDGV_EVENT_REL_GPU_FINI 0 (Some 8) zero_data True ?s1 = Inr (0, sample_sched)"
    by (subst push_go [where ws = "empty_ring[0 := \<lparr>w_event = sample_first, w_entry = Some 0\<rparr>]"])
      (simp_all add: s sched_zero_def sample_second_def sample_sched_def)
  moreover have "entries sched_start 0 = None" "entries ?s1 1 = None" by (simp_all add: s sched_zero_def)
  ultimately show ?thesis by (simp only: sched_run.simps sched_exec.simps op_allowed.simps option.case refl if_True cbind_Inr prod.case)
qed

lemma sample_sched_ok: "sched_ok {} sample_sched"
  using run_ok [OF sched_start_ok, of "[Op_Push 10 (Some 0) 3 AMDGV_EVENT_REL_GPU_INIT 0 (Some 7) zero_data True,
     Op_Push 20 (Some 1) 3 AMDGV_EVENT_REL_GPU_FINI 0 (Some 8) zero_data True]"]
  unfolding sample_sched_run by (simp del: sched_run.simps)

lemma ring_ids_two: "ring_ids 2 0 = [0, 1]"
  by (simp add: ring_ids_def upt_conv_Cons)

lemma sample_queue: "queue_events sample_sched = [sample_first, sample_second]" "listed sample_sched = []"
    "signals sample_sched = []" "\<not> is_in_powersaving sample_sched"
  by (simp_all add: queue_events_def ring_slots_def sample_sched_def sched_start_def amdgv_sched_event_queue_init_def
      sched_zero_def ring_ids_two listed_def event_lists_def)

section \<open>Properties\<close>

definition urgency :: "amdgv_sched_event \<Rightarrow> amdgv_sched_event_list" where
  "urgency e = fst (the (arrange_case (se_id e)))"

lemma sorted_replicates: "sorted ls \<Longrightarrow> sorted (concat (map (\<lambda>l. replicate (f l) l) ls))"
  by (induction ls) (auto simp: sorted_append)

lemma arranged_sorted:
  assumes ok: "sched_ok H s" and n: "next_event s = None"
  shows "sorted (map urgency (agenda_events s))"
proof -
  have "map urgency (list_events s l) = replicate (length (event_list s l)) l" for l
  proof (rule replicate_eqI)
    fix m assume "m \<in> set (map urgency (list_events s l))"
    then obtain a where a: "a \<in> set (event_list s l)" "m = urgency (the (entries s a))" by (auto simp: list_events_def)
    then obtain e where "entries s a = Some e" "map_option fst (arrange_case (se_id e)) = Some l"
      using ok unfolding sched_ok_def by blast
    with a(2) show "m = l" by (auto simp: urgency_def)
  qed (simp add: list_events_def)
  then have "map urgency (agenda_events s) = concat (map (\<lambda>l. replicate (length (event_list s l)) l) event_lists)"
    using n by (simp add: agenda_events_def agenda_def listed_events map_concat o_def)
  then show ?thesis using sorted_replicates [OF sorted_event_lists] by simp
qed

text \<open>C3. On an adapter without events, with \<^verbatim>\<open>AMDGV_FLAG_GPUV_LIVE_MIGRATION\<close> not set, the queue is set up and then whatever
  sequence of pushes, picks, releases, push-backs, status marks and searches is run, with
  any allocator answers: no freed or missing entry is ever used, every live entry is held, queued or listed exactly
  once (so none leaks), and the cursor \<^verbatim>\<open>next_event\<close> points into the current list. With the flag set this fails:
  \<open>sched_unknown_event_faults\<close>.\<close>

theorem sched_queue_safe:
  assumes "no_events s0" and "\<not> live_migration s0"
  shows "\<exists>H s. sched_run ops ({}, snd (amdgv_sched_event_queue_init True True s0)) = Inr (H, s) \<and> sched_ok H s"
  using run_ok [OF queue_init_ok [OF assms]] .

text \<open>An event of VF 3 that no list takes, and the next search for work.\<close>

definition unknown_event_ops :: "queue_op list" where
  "unknown_event_ops = [Op_Push 10 (Some 0) 3 AMDGV_EVENT_LOG_VF_ERROR 0 None zero_data True, Op_Pick]"

lemma sched_unknown_event_faults:
  "case sched_run unknown_event_ops ({}, snd (amdgv_sched_event_queue_init True True (sched_zero\<lparr>live_migration := True\<rparr>))) of
     Inl e \<Rightarrow> e = Use_After_Free | Inr _ \<Rightarrow> False"
  by code_simp

theorem sched_queue_safe_witness:
  "\<exists>H s. sched_run unknown_event_ops ({}, snd (amdgv_sched_event_queue_init True True sched_zero)) = Inr (H, s) \<and> sched_ok H s"
  using sched_queue_safe [OF sched_zero_fresh] .

text \<open>C15. The ring of 256 slots with 8-bit pointers is a first-in first-out queue of capacity 255: a push appends the event,
  or fails and changes nothing exactly when the adapter saves power, the queue is full or memory is out; a pop
  hands over all queued events in order and leaves the queue empty.\<close>

theorem sched_ring_refines_fifo:
  assumes "sched_ok H s" "\<forall>a. mem = Some a \<longrightarrow> a \<notin> dom (entries s)"
  shows "(\<exists>r s'. amdgv_sched_event_queue_push_ex now mem idx_vf event_id sched_block signal data wake s = Inr (r, s') \<and>
      sched_ok H s' \<and> (if push_refused mem event_id s then r = AMDGV_FAILURE \<and> queue_events s' = queue_events s
        else r = 0 \<and> queue_events s' = queue_events s @ [pushed now idx_vf event_id sched_block signal data])) \<and>
    (\<exists>head s'. amdgv_sched_event_queue_pop_event_list s = Inr (head, s') \<and> sched_ok (H \<union> set head) s' \<and>
      amdgv_sched_event_queue_empty s' \<and> map (entries s') head = map Some (queue_events s))"
  using push_ok [OF assms, of now idx_vf event_id sched_block signal data wake] pop_ok [OF assms(1)] by blast

theorem sched_ring_refines_fifo_witness:
  "\<exists>s'. amdgv_sched_event_queue_push_ex 30 (Some 2) 4 AMDGV_EVENT_REQ_GPU_INIT 0 None zero_data True sample_sched = Inr (0, s') \<and>
     queue_events s' = [sample_first, sample_second, pushed 30 4 AMDGV_EVENT_REQ_GPU_INIT 0 None zero_data]"
proof -
  have fresh: "\<forall>a. Some 2 = Some a \<longrightarrow> a \<notin> dom (entries sample_sched)" by (simp add: sample_sched_def)
  have "\<not> push_refused (Some 2) AMDGV_EVENT_REQ_GPU_INIT sample_sched" by (simp add: push_refused_def sample_queue)
  with sched_ring_refines_fifo [OF sample_sched_ok fresh, of 30 4 AMDGV_EVENT_REQ_GPU_INIT 0 None zero_data True]
  show ?thesis unfolding sample_queue(1) by auto
qed

text \<open>C18. Order of service: new events are sorted into the lists and then served by urgency, in the order of arrival within
  a list; while nothing new arrives each pick takes the head of the agenda and leaves the rest as it is, so
  no listed event is starved or served twice.\<close>

theorem sched_pick_follows_agenda:
  assumes "sched_ok H s"
  shows "(queue_events s \<noteq> [] \<longrightarrow> (\<exists>s'. take_new_events s = Inr s' \<and> sched_ok H s' \<and> queue_events s' = [] \<and>
        amdgv_sched_pick_up_next_event s = amdgv_sched_pick_up_next_event s' \<and>
        agenda_events s' = arranged s \<and> sorted (map urgency (arranged s)))) \<and>
    (queue_events s = [] \<longrightarrow> (case agenda s of
        [] \<Rightarrow> amdgv_sched_pick_up_next_event s = Inr (None, s)
      | a # as \<Rightarrow> \<exists>s'. amdgv_sched_pick_up_next_event s = Inr (Some a, s') \<and> sched_ok (insert a H) s' \<and>
          agenda s' = as \<and> queue_events s' = [] \<and> entries s' = entries s))"
proof (intro conjI impI)
  assume new: "queue_events s \<noteq> []"
  obtain s1 where s1: "take_new_events s = Inr s1" "sched_ok H s1" "queue_events s1 = []"
    "list_events s1 = fold arrange_abs (queue_events s) (list_events s)" "next_event s1 = None"
    using take_new_ok [OF assms] new by auto
  have ag: "agenda_events s1 = arranged s" by (rule arranged_agenda(1) [OF s1(5,4)])
  have "amdgv_sched_event_queue_empty s1" using s1(2,3) queue_empty_iff [of s1] by (simp add: sched_ok_def)
  then have "amdgv_sched_pick_up_next_event s = amdgv_sched_pick_up_next_event s1"
    using s1(1) by (simp add: amdgv_sched_pick_up_next_event_def take_new_events_def)
  moreover have "sorted (map urgency (arranged s))" using arranged_sorted [OF s1(2,5)] by (simp add: ag)
  ultimately show "\<exists>s'. take_new_events s = Inr s' \<and> sched_ok H s' \<and> queue_events s' = [] \<and>
      amdgv_sched_pick_up_next_event s = amdgv_sched_pick_up_next_event s' \<and> agenda_events s' = arranged s \<and>
      sorted (map urgency (arranged s))" using s1 ag by blast
next
  assume "queue_events s = []"
  from pick_ok [OF assms this] show "case agenda s of
        [] \<Rightarrow> amdgv_sched_pick_up_next_event s = Inr (None, s)
      | a # as \<Rightarrow> \<exists>s'. amdgv_sched_pick_up_next_event s = Inr (Some a, s') \<and> sched_ok (insert a H) s' \<and>
          agenda s' = as \<and> queue_events s' = [] \<and> entries s' = entries s"
    by (auto split: list.splits)
qed

lemma arranged_pair:
  assumes "queue_events s = [e1, e2]" "listed s = []" "se_idx_vf e1 = se_idx_vf e2"
    "arrange_case (se_id e1) = Some (l, True)" "arrange_case (se_id e2) = Some (l, True)"
  shows "arranged s = [e2]"
proof -
  have "event_list s m = []" for m using assms(2) set_listed [of s] by auto
  then have "list_events s = (\<lambda>_. [])" by (simp add: list_events_def fun_eq_iff)
  then have "fold arrange_abs (queue_events s) (list_events s) = (\<lambda>_. [])(l := [e2])"
    using assms by (simp add: arrange_abs_def fun_eq_iff)
  then show ?thesis unfolding arranged_def by (cases l) (simp_all add: event_lists_def)
qed

lemma sample_arranged: "arranged sample_sched = [sample_second]"
  by (rule arranged_pair [OF sample_queue(1,2), of AMDGV_SCHED_EVENT_LIST_2])
    (simp_all add: sample_first_def sample_second_def pushed_def arrange_case_def)

theorem sched_pick_follows_agenda_witness:
  "\<exists>s'. take_new_events sample_sched = Inr s' \<and> agenda_events s' = [sample_second]"
  using sched_pick_follows_agenda [OF sample_sched_ok] unfolding sample_arranged sample_queue(1) by blast

text \<open>C22. Tear-down wakes everybody: it ends within as many rounds as there are events, signals every event that survives
  arranging exactly once as skipped, in order of urgency, and frees all entries and the ring.\<close>

theorem sched_fini_wakes_all:
  assumes "sched_ok {} (sp_sched p)" "length (queue_events (sp_sched p)) + length (listed (sp_sched p)) < n"
  shows "\<exists>p'. amdgv_sched_event_queue_process_fini n p = Inr p' \<and> entries (sp_sched p') = (\<lambda>_. None) \<and>
    event_queue (sp_sched p') = Queue_Null \<and>
    signals (sp_sched p') = signals (sp_sched p) @ concat (map (woken True) (arranged (sp_sched p)))"
proof -
  obtain s where s: "amdgv_sched_process_event_fini n (sp_sched p) = Inr s" "sched_ok {} s" "queue_events s = []" "dom (entries s) = {}"
    "signals s = signals (sp_sched p) @ concat (map (woken True) (arranged (sp_sched p)))"
    using fini_ok [OF assms] by blast
  have "queue_wptr s = queue_rptr s"
    using s(2,3) queue_empty_iff [of s] by (simp add: sched_ok_def amdgv_sched_event_queue_empty_def)
  moreover obtain ws where "event_queue s = Queue ws" using s(2) by (rule sched_ok_queue)
  ultimately have "amdgv_sched_event_queue_fini s = Inr (s\<lparr>queue_lock := False, event_queue := Queue_Null\<rparr>)"
    by (simp add: amdgv_sched_event_queue_fini_def ring_loop.simps Let_def)
  moreover have "entries s = (\<lambda>_. None)" using s(4) by (simp add: dom_eq_empty_conv)
  ultimately show ?thesis using s(1,5) by (simp add: amdgv_sched_event_queue_process_fini_def)
qed

definition sample_process :: sched_process where
  "sample_process = \<lparr>sp_sched = sample_sched, sp_event = True, sp_event_thread_lock = True, sp_event_thread = True,
     sp_in_full_access = False, sp_idx_vf_full_access = 17, sp_used_time_full_access = 0, sp_allow_time_full_access = 1500000\<rparr>"

theorem sched_fini_wakes_all_witness:
  "\<exists>p'. amdgv_sched_event_queue_process_fini 3 sample_process = Inr p' \<and> signals (sp_sched p') = [(8, True)]"
proof -
  have p: "sp_sched sample_process = sample_sched" by (simp add: sample_process_def)
  have "woken True sample_second = [(8, True)]" by (simp add: woken_def sample_second_def pushed_def)
  with sched_fini_wakes_all [of sample_process 3] show ?thesis
    unfolding p sample_queue sample_arranged using sample_sched_ok by auto
qed

text \<open>C24. Live update: the events that the old driver exports and the new one imports are queued in the order of service,
  with their VF, identifier and block; only monitoring requests, which belong to the caller, are left out, and of 256
  exported events the last is lost, because the ring holds 255.\<close>

theorem sched_live_update_roundtrip:
  assumes "sched_ok {} s" "queue_events s \<noteq> [] \<or> next_event s = None" "length (arranged s) \<le> 256"
    and "length (queue_events s) + length (listed s) < n"
    and "length (unprocessed_events info) = 256" "\<forall>i. snd (env i) \<noteq> None" "inj (\<lambda>i. snd (env i))"
  shows "\<exists>info' s1 s2. amdgv_sched_export_unprocessed_event n info s = Inr (info', s1) \<and> entries s1 = (\<lambda>_. None) \<and>
    amdgv_sched_import_unprocessed_event env info' sched_start = Inr s2 \<and> sched_ok {} s2 \<and>
    map live_event (queue_events s2) = take 255 (exported_events (arranged s))"
proof -
  obtain s0 where s0: "take_new_events s = Inr s0" "sched_ok {} s0" "queue_events s0 = []"
    "list_events s0 = fold arrange_abs (queue_events s) (list_events s)" "if queue_events s = [] then s0 = s else next_event s0 = None"
    using take_new_ok [OF assms(1)] by blast
  have "next_event s0 = None" using s0(5) assms(2) by (auto split: if_splits)
  note ag = arranged_agenda [OF this s0(4)]
  have len: "length (agenda s0) = length (arranged s)" using ag(1) by (metis agenda_events_def length_map)
  obtain info' s1 where e: "export_events n 0 info s0 = Inr (info', s1)" "dom (entries s1) = {}"
    "unat (unprocessed_event_count info') = length (exported_events (arranged s))" "length (unprocessed_events info') = 256"
    "take (unat (unprocessed_event_count info')) (unprocessed_events info') = exported_events (arranged s)"
    using export_events_ok [OF s0(2,3), of n 0 info] ag len assms(3,4,5) by auto
  have run: "amdgv_sched_export_unprocessed_event n info s = Inr (info', s1)"
    using s0(1) e(1) by (simp add: amdgv_sched_export_unprocessed_event_def amdgv_sched_export_unprocessed_event_size_def)
  have start: "queue_events sched_start = []" "entries sched_start = (\<lambda>_. None)" "\<not> is_in_powersaving sched_start"
    by (simp_all add: queue_events_def ring_slots_def sched_start_def amdgv_sched_event_queue_init_def sched_zero_def)
  have "unat (unprocessed_event_count info') \<le> length (unprocessed_events info')"
    unfolding e(3) using e(4) le_trans [OF length_filter_le assms(3)] by (simp add: exported_events_def)
  moreover have "\<forall>i. \<exists>a. snd (env i) = Some a \<and> a \<notin> dom (entries sched_start)" using assms(6) start(2) by auto
  ultimately obtain s2 where s2: "import_events env 0 (unat (unprocessed_event_count info')) (unprocessed_events info') sched_start = Inr s2"
    "sched_ok {} s2" "map live_event (queue_events s2) = take 255 (exported_events (arranged s))"
    using import_ok [OF sched_start_ok _ _ assms(7) start(3,1)] unfolding e(5) [symmetric] by blast
  have "entries s1 = (\<lambda>_. None)" using e(2) by (simp add: dom_eq_empty_conv)
  then show ?thesis using run s2 by (auto simp: amdgv_sched_import_unprocessed_event_def)
qed

theorem sched_live_update_roundtrip_witness:
  "\<exists>info s1 s2. amdgv_sched_export_unprocessed_event 3 \<lparr>unprocessed_event_count = 0,
       unprocessed_events = replicate 256 (live_event blank_event)\<rparr> sample_sched = Inr (info, s1) \<and>
     amdgv_sched_import_unprocessed_event (\<lambda>i. (0, Some i)) info sched_start = Inr s2 \<and>
     map live_event (queue_events s2) = [live_event sample_second]"
proof -
  let ?info = "\<lparr>unprocessed_event_count = 0, unprocessed_events = replicate 256 (live_event blank_event)\<rparr>"
  have "se_id sample_second \<noteq> AMDGV_EVENT_SCHED_GPUMON" by (simp add: sample_second_def pushed_def)
  then have "take 255 (exported_events (arranged sample_sched)) = [live_event sample_second]"
    by (simp add: exported_events_def sample_arranged)
  moreover have "length (unprocessed_events ?info) = 256" by (simp only: amdgv_live_info_unprocessed_event.simps length_replicate)
  moreover have "inj (\<lambda>i. snd (0 :: u64, Some (i :: nat)))" by (simp add: inj_def)
  ultimately show ?thesis
    using sched_live_update_roundtrip [OF sample_sched_ok, of 3 ?info "\<lambda>i. (0, Some i)"] unfolding sample_queue sample_arranged by auto
qed

text \<open>C39. A lost wake-up: when two events of one VF fall into the same list and the first has a waiting caller, arranging
  drops the first without signalling it; afterwards no entry, no queued event and no delivered signal knows the
  caller, who waits for ever.\<close>

theorem sched_duplicate_forgets_waiter:
  assumes "sched_ok {} s" "queue_events s = [e1, e2]" "listed s = []" "se_idx_vf e1 = se_idx_vf e2"
    and "arrange_case (se_id e1) = Some (l, True)" "arrange_case (se_id e2) = Some (l, True)"
    and "se_signal e1 = Some h" "se_signal e2 \<noteq> Some h"
  shows "\<exists>s'. take_new_events s = Inr s' \<and> queue_events s' = [] \<and> signals s' = signals s \<and>
    (\<forall>a e. entries s' a = Some e \<longrightarrow> se_signal e \<noteq> Some h)"
proof -
  obtain s' where s': "take_new_events s = Inr s'" "sched_ok {} s'" "queue_events s' = []" "signals s' = signals s"
    "list_events s' = fold arrange_abs (queue_events s) (list_events s)" "next_event s' = None"
    using take_new_ok [OF assms(1)] assms(2) by auto
  have "agenda_events s' = [e2]" using arranged_agenda(1) [OF s'(6,5)] arranged_pair [OF assms(2-6)] by simp
  then have ev: "map (\<lambda>a. the (entries s' a)) (listed s') = [e2]" using s'(6) by (simp add: agenda_events_def agenda_def)
  have "queue_entries s' = []" using s'(3) length_entries [of s'] by simp
  then have "dom (entries s') = set (listed s')" using s'(2) by (simp add: sched_ok_def)
  then have "e = e2" if e: "entries s' a = Some e" for a e
  proof -
    have "a \<in> set (listed s')" using e \<open>dom (entries s') = set (listed s')\<close> by blast
    then have "the (entries s' a) \<in> set [e2]" unfolding ev [symmetric] by simp
    then show ?thesis using e by simp
  qed
  then show ?thesis using s' assms(8) by blast
qed

theorem sched_duplicate_forgets_waiter_witness:
  "\<exists>s. take_new_events sample_sched = Inr s \<and> signals s = [] \<and> {a. \<exists>e. entries s a = Some e \<and> se_signal e = Some 7} = {}"
proof -
  have "\<exists>s. take_new_events sample_sched = Inr s \<and> queue_events s = [] \<and> signals s = signals sample_sched \<and>
    (\<forall>a e. entries s a = Some e \<longrightarrow> se_signal e \<noteq> Some 7)"
    by (rule sched_duplicate_forgets_waiter [OF sample_sched_ok sample_queue(1,2), of AMDGV_SCHED_EVENT_LIST_2])
      (simp_all add: sample_first_def sample_second_def pushed_def arrange_case_def)
  then show ?thesis unfolding sample_queue by auto
qed

text \<open>Pushing back an event puts it at the head of the agenda, in the list that arranging had chosen for it, but for the four
  RAS requests of a VF, which are freed instead.\<close>

theorem sched_push_back_loses_requests:
  assumes "sched_ok H s" "a \<in> H" "entries s a = Some e" "arrange_case (se_id e) = Some (l, dup)"
  shows "\<exists>s'. amdgv_sched_push_back_event a s = Inr s' \<and> sched_ok (H - {a}) s' \<and> signals s' = signals s \<and>
    (if se_id e \<in> push_back_lacks then entries s' a = None \<and> event_list s' = event_list s
     else entries s' a = Some e \<and> hd (agenda s') = a \<and> event_list s' = (event_list s)(l := a # event_list s l))"
proof -
  obtain s' where s': "amdgv_sched_push_back_event a s = Inr s'" "sched_ok (H - {a}) s'" "signals s' = signals s"
    "case push_back_case (se_id e) of
       None \<Rightarrow> entries s' a = None \<and> event_list s' = event_list s
     | Some l \<Rightarrow> entries s' a = entries s a \<and> next_event s' = Some a \<and> event_list s' = (event_list s)(l := a # event_list s l)"
    using push_back_ok [OF assms(1,2)] assms(3) by auto
  then show ?thesis using assms(3,4) by (auto simp: push_back_arrange agenda_def Let_def split: if_splits)
qed

text \<open>VF 5 has asked for its RAS error count; the event is held by the event thread.\<close>

definition sample_request :: amdgv_sched_event where
  "sample_request = pushed 10 5 AMDGV_EVENT_SCHED_VF_REQ_RAS_ERROR_COUNT 0 None zero_data"

definition sample_held :: amdgv_sched where
  "sample_held = sched_start\<lparr>entries := [0 \<mapsto> sample_request]\<rparr>"

lemma sample_held_ok: "sched_ok {0} sample_held"
  by (simp add: sample_held_def sched_ok_def sched_start_def amdgv_sched_event_queue_init_def sched_zero_def event_ring_ok_def
      queue_entries_def ring_slots_def listed_def event_lists_def)

theorem sched_push_back_loses_requests_witness:
  "\<exists>s. amdgv_sched_push_back_event 0 sample_held = Inr s \<and> entries s 0 = None \<and> event_list s = event_list sample_held"
proof -
  have "entries sample_held 0 = Some sample_request" "arrange_case (se_id sample_request) = Some (AMDGV_SCHED_EVENT_LIST_4, True)"
    "se_id sample_request \<in> push_back_lacks"
    by (simp_all add: sample_held_def sample_request_def pushed_def arrange_case_def push_back_lacks_def)
  with sched_push_back_loses_requests [OF sample_held_ok _ this(1,2)] show ?thesis by auto
qed

section \<open>Queueing under the guard\<close>

lemma guard_counts_ok:
  assumes "guards_ok g"
  shows "\<exists>overflow t' g'. guard_counts clk active idx_vf event_id t g = Inr (overflow, t', g') \<and> guards_ok g'"
proof -
  obtain ret t' g' where "amdgv_guard_add_active_event clk t g idx_vf AMDGV_GUARD_EVENT_EXCLUSIVE_MOD = Inr (ret, t', g')" "guards_ok g'"
    using add_safe [OF assms, of AMDGV_GUARD_EVENT_EXCLUSIVE_MOD] by fastforce
  then show ?thesis using assms by (auto simp: guard_counts_def)
qed

lemma guard_refuses_ok:
  assumes "guards_ok g" shows "\<exists>b. guard_refuses idx_vf event_id g = Inr b"
proof -
  obtain t f w where "amdgv_guard_is_event_full g idx_vf AMDGV_GUARD_EVENT_EXCLUSIVE_TIMEOUT = Inr t"
    "amdgv_guard_is_event_full g idx_vf AMDGV_GUARD_EVENT_FLR = Inr f" "amdgv_guard_is_event_full g idx_vf AMDGV_GUARD_EVENT_WGR = Inr w"
    using is_full_safe [OF assms, of 2 idx_vf] is_full_safe [OF assms, of 0 idx_vf] is_full_safe [OF assms, of 7 idx_vf] by auto
  then show ?thesis by (auto simp: guard_refuses_def)
qed

lemma sanitize_ok:
  assumes "guards_ok (sa_guard adapt)"
  shows "\<exists>ret adapt'. amdgv_sched_sanitize_queue_event clk active idx_vf event_id data adapt = Inr (ret, adapt') \<and>
    sa_sched adapt' = sa_sched adapt \<and> guards_ok (sa_guard adapt') \<and>
    (unrecov_err (sa_sched adapt) \<and> \<not> amdgv_sched_allow_queue_in_unrecov_err event_id data \<longrightarrow> ret = AMDGV_FAILURE)"
proof -
  obtain overflow t' g' where c: "guard_counts clk active idx_vf event_id (sa_reads adapt) (sa_guard adapt) = Inr (overflow, t', g')" "guards_ok g'"
    using guard_counts_ok [OF assms] by blast
  obtain b where "guard_refuses idx_vf event_id g' = Inr b" using guard_refuses_ok [OF c(2)] by blast
  then show ?thesis using c assms by (auto simp: amdgv_sched_sanitize_queue_event_def Let_def)
qed

lemma queue_signal_ok:
  assumes "sched_ok H (sa_sched adapt)" "\<forall>a. qe_mem env = Some a \<longrightarrow> a \<notin> dom (entries (sa_sched adapt))"
  shows "\<exists>ret adapt'. queue_event_signal env idx_vf event_id sched_block signal data wake adapt = Inr (ret, adapt') \<and>
    sched_ok H (sa_sched adapt') \<and> sa_guard adapt' = sa_guard adapt \<and>
    queue_events (sa_sched adapt') = queue_events (sa_sched adapt) @
      (if ret = 0 then [pushed (qe_now env) idx_vf event_id sched_block signal data] else [])"
proof -
  obtain r s' where "amdgv_sched_event_queue_push_ex (qe_now env) (qe_mem env) idx_vf event_id sched_block signal data wake (sa_sched adapt) = Inr (r, s')"
    "sched_ok H s'" "if push_refused (qe_mem env) event_id (sa_sched adapt) then r = AMDGV_FAILURE \<and> queue_events s' = queue_events (sa_sched adapt)
     else r = 0 \<and> queue_events s' = queue_events (sa_sched adapt) @ [pushed (qe_now env) idx_vf event_id sched_block signal data]"
    using push_ok [OF assms, of "qe_now env" idx_vf event_id sched_block signal data wake] by blast
  then show ?thesis by (auto simp: queue_event_signal_def split: if_splits)
qed

text \<open>C31. The queueing functions, guard included, return without fault for any event of any VF: they append exactly the event
  and report success, or report failure and leave the queue as it was; the waiting variant waits for a signal only
  if the event that carries it has been queued.\<close>

theorem sched_queue_event_outcome:
  assumes "sched_ok H (sa_sched adapt)" "guards_ok (sa_guard adapt)"
    and "\<forall>a. qe_mem env = Some a \<longrightarrow> a \<notin> dom (entries (sa_sched adapt))"
  shows "(\<exists>ret adapt'. amdgv_sched_queue_event_ex env idx_vf event_id sched_block data adapt = Inr (ret, adapt') \<and>
      sched_ok H (sa_sched adapt') \<and> guards_ok (sa_guard adapt') \<and>
      queue_events (sa_sched adapt') = queue_events (sa_sched adapt) @
        (if ret = 0 then [pushed (qe_now env) idx_vf event_id sched_block None data] else [])) \<and>
    (\<exists>ret adapt'. amdgv_sched_queue_event_and_wait_ex env idx_vf event_id sched_block data adapt = Inr (ret, adapt') \<and>
      sched_ok H (sa_sched adapt') \<and> guards_ok (sa_guard adapt') \<and>
      (case ret of
         Inl r \<Rightarrow> r \<noteq> 0 \<and> queue_events (sa_sched adapt') = queue_events (sa_sched adapt)
       | Inr h \<Rightarrow> qe_event env = Some h \<and> queue_events (sa_sched adapt') = queue_events (sa_sched adapt) @
           [pushed (qe_now env) idx_vf event_id sched_block (Some h) data]))"
proof -
  obtain ret adapt1 where s: "amdgv_sched_sanitize_queue_event (qe_clock env) (qe_active env) idx_vf event_id data adapt = Inr (ret, adapt1)"
    "sa_sched adapt1 = sa_sched adapt" "guards_ok (sa_guard adapt1)"
    using sanitize_ok [OF assms(2)] by blast
  have "\<forall>a. qe_mem env = Some a \<longrightarrow> a \<notin> dom (entries (sa_sched adapt1))" using assms(3) s(2) by simp
  note q = queue_signal_ok [OF assms(1) [folded s(2)] this, of idx_vf event_id sched_block]
  show ?thesis
  proof (cases "ret = 0")
    case False
    then show ?thesis using s assms(1) by (simp add: amdgv_sched_queue_event_ex_def amdgv_sched_queue_event_and_wait_ex_def)
  next
    case True
    obtain r2 adapt2 where q2: "queue_event_signal env idx_vf event_id sched_block None data True adapt1 = Inr (r2, adapt2)"
      "sched_ok H (sa_sched adapt2)" "sa_guard adapt2 = sa_guard adapt1"
      "queue_events (sa_sched adapt2) = queue_events (sa_sched adapt) @ (if r2 = 0 then [pushed (qe_now env) idx_vf event_id sched_block None data] else [])"
      using q [of None data True] s(2) by auto
    have "\<exists>ret adapt'. amdgv_sched_queue_event_and_wait_ex env idx_vf event_id sched_block data adapt = Inr (ret, adapt') \<and>
      sched_ok H (sa_sched adapt') \<and> guards_ok (sa_guard adapt') \<and>
      (case ret of
         Inl r \<Rightarrow> r \<noteq> 0 \<and> queue_events (sa_sched adapt') = queue_events (sa_sched adapt)
       | Inr h \<Rightarrow> qe_event env = Some h \<and> queue_events (sa_sched adapt') = queue_events (sa_sched adapt) @
           [pushed (qe_now env) idx_vf event_id sched_block (Some h) data])"
    proof (cases "qe_in_event_thread env \<or> qe_event env = None")
      case True
      then show ?thesis using \<open>ret = 0\<close> s assms(1) by (auto simp: amdgv_sched_queue_event_and_wait_ex_def)
    next
      case False
      then obtain h where h: "qe_event env = Some h" "\<not> qe_in_event_thread env" by auto
      obtain r3 adapt3 where q3: "queue_event_signal env idx_vf event_id sched_block (Some h) data True adapt1 = Inr (r3, adapt3)"
        "sched_ok H (sa_sched adapt3)" "sa_guard adapt3 = sa_guard adapt1"
        "queue_events (sa_sched adapt3) = queue_events (sa_sched adapt) @ (if r3 = 0 then [pushed (qe_now env) idx_vf event_id sched_block (Some h) data] else [])"
        using q [of "Some h" data True] s(2) by auto
      then show ?thesis using h \<open>ret = 0\<close> s by (simp add: amdgv_sched_queue_event_and_wait_ex_def)
    qed
    then show ?thesis using True s q2 by (simp add: amdgv_sched_queue_event_ex_def)
  qed
qed

definition sample_adapter :: sched_adapter where
  "sample_adapter = \<lparr>sa_sched = sched_start, sa_guard = guard_fresh, sa_reads = 0\<rparr>"

definition sample_queue_env :: queue_env where
  "sample_queue_env = \<lparr>qe_clock = (\<lambda>_. 0), qe_active = True, qe_now = 5, qe_mem = Some 0, qe_event = Some 9, qe_in_event_thread = False\<rparr>"

theorem sched_queue_event_outcome_witness:
  "\<exists>ret adapt'. amdgv_sched_queue_event_and_wait_ex sample_queue_env 2 AMDGV_EVENT_REQ_GPU_FINI 0 zero_data sample_adapter = Inr (ret, adapt') \<and>
     sched_ok {} (sa_sched adapt')"
proof -
  have "sched_ok {} (sa_sched sample_adapter)" by (simp add: sample_adapter_def sched_start_ok)
  moreover have "guards_ok (sa_guard sample_adapter)" by (simp add: sample_adapter_def guards_ok_def guard_fresh_def)
  moreover have "\<forall>a. qe_mem sample_queue_env = Some a \<longrightarrow> a \<notin> dom (entries (sa_sched sample_adapter))"
    by (simp add: sample_adapter_def sched_start_def amdgv_sched_event_queue_init_def sched_zero_def)
  ultimately show ?thesis using sched_queue_event_outcome [of "{}" sample_adapter sample_queue_env 2 AMDGV_EVENT_REQ_GPU_FINI 0 zero_data] by blast
qed

end
