(* ===== verification/GV_Bytes.thy ===== *)
theory GV_Bytes
  imports GV_Prelude
begin

text \<open>
  Little-endian bytes of machine words, and the memory that the CPU and the GPU share: the frame buffer as the CPU
  sees it, by address. The EEPROM formats use the bytes, the write-back slots and the command rings the memory.
\<close>

section \<open>Bytes of a word\<close>

type_synonym u16 = "16 word"

text \<open>The first \<open>n\<close> bytes that \<^verbatim>\<open>oss_memcpy\<close> takes from the little-endian \<open>w\<close>, and the word of zero with the bytes \<open>bs\<close> put in.\<close>

primrec to_le :: "nat \<Rightarrow> 'a::len word \<Rightarrow> u8 list" where
  "to_le 0 w = []"
| "to_le (Suc n) w = ucast w # to_le n (drop_bit 8 w)"

primrec from_le :: "u8 list \<Rightarrow> 'a::len word" where
  "from_le [] = 0"
| "from_le (b # bs) = ucast b OR push_bit 8 (from_le bs)"

lemma length_to_le [simp]: "length (to_le n w) = n"
  by (induction n arbitrary: w) simp_all

lemma bit_to_le: "i < n \<Longrightarrow> bit (to_le n w ! i) j \<longleftrightarrow> j < 8 \<and> bit w (8 * i + j)"
  by (induction n arbitrary: i w) (auto simp: nth_Cons' bit_ucast_iff bit_drop_bit_eq algebra_simps split: nat.split dest: bit_imp_le_length)

lemma from_le_append: "from_le (bs @ cs) = from_le bs OR push_bit (8 * length bs) (from_le cs)"
proof (induction bs)
  case (Cons b bs)
  show ?case
    by (rule bit_word_eqI) (auto simp: Cons.IH bit_or_iff bit_push_bit_iff)
qed simp

lemma from_le_to_le: "from_le (to_le n w) = take_bit (8 * n) w"
proof (induction n arbitrary: w)
  case (Suc n)
  show ?case
    by (rule bit_word_eqI)
      (auto simp: Suc.IH bit_or_iff bit_push_bit_iff bit_take_bit_iff bit_ucast_iff bit_drop_bit_eq dest: bit_imp_le_length)
qed simp

lemma to_le_or: "to_le n (a OR b) = map2 (OR) (to_le n a) (to_le n b)"
  by (induction n arbitrary: a b) (simp_all add: drop_bit_or unsigned_or_eq)

section \<open>Memory shared with the GPU\<close>

text \<open>Every byte by its address. A store of the bytes \<open>bs\<close> at \<open>p\<close> and the \<open>n\<close> bytes that a load takes from there;
  addresses wrap as pointers do.\<close>

type_synonym cpu_mem = "u64 \<Rightarrow> u8"

definition mem_put :: "u64 \<Rightarrow> u8 list \<Rightarrow> cpu_mem \<Rightarrow> cpu_mem" where
  "mem_put p bs mem = (\<lambda>a. if unat (a - p) < length bs then bs ! unat (a - p) else mem a)"

definition mem_get :: "nat \<Rightarrow> u64 \<Rightarrow> cpu_mem \<Rightarrow> u8 list" where
  "mem_get n p mem = map (\<lambda>i. mem (p + of_nat i)) [0..<n]"

text \<open>Loads and stores through a pointer of the code: the pointer \<open>base\<close>, NULL when it is 0, and a byte offset into
  what it points to.\<close>

definition ld32 :: "u64 \<Rightarrow> u64 \<Rightarrow> cpu_mem \<Rightarrow> u32 cres" where
  "ld32 base off mem = (if base = 0 then Inl Null_Deref else Inr (from_le (mem_get 4 (base + off) mem)))"

definition ld64 :: "u64 \<Rightarrow> u64 \<Rightarrow> cpu_mem \<Rightarrow> u64 cres" where
  "ld64 base off mem = (if base = 0 then Inl Null_Deref else Inr (from_le (mem_get 8 (base + off) mem)))"

definition st32 :: "u64 \<Rightarrow> u64 \<Rightarrow> u32 \<Rightarrow> cpu_mem \<Rightarrow> cpu_mem cres" where
  "st32 base off v mem = (if base = 0 then Inl Null_Deref else Inr (mem_put (base + off) (to_le 4 v) mem))"

definition st64 :: "u64 \<Rightarrow> u64 \<Rightarrow> u64 \<Rightarrow> cpu_mem \<Rightarrow> cpu_mem cres" where
  "st64 base off v mem = (if base = 0 then Inl Null_Deref else Inr (mem_put (base + off) (to_le 8 v) mem))"

definition oss_memset :: "u64 \<Rightarrow> u8 \<Rightarrow> nat \<Rightarrow> cpu_mem \<Rightarrow> cpu_mem cres" where
  "oss_memset p c len mem = (if p = 0 \<and> len \<noteq> 0 then Inl Null_Deref
     else Inr (\<lambda>a. if unat (a - p) < len then c else mem a))"

text \<open>Two ranges of addresses without a common byte.\<close>

definition ranges_apart :: "u64 \<Rightarrow> nat \<Rightarrow> u64 \<Rightarrow> nat \<Rightarrow> bool" where
  "ranges_apart p m q n \<longleftrightarrow> m \<le> unat (q - p) \<and> n \<le> unat (p - q)"

lemma length_mem_get [simp]: "length (mem_get n p mem) = n"
  by (simp add: mem_get_def)

lemma ranges_apart_sym: "ranges_apart p m q n \<longleftrightarrow> ranges_apart q n p m"
  by (auto simp: ranges_apart_def)

lemma ranges_apart_bytes:
  assumes "ranges_apart p m q n" and "unat (a - p) < m"
  shows "\<not> unat (a - q) < n"
proof
  assume n: "unat (a - q) < n"
  define x d where "x = a - q" and "d = p - q"
  have ap: "a - p = x - d" and qp: "q - p = 0 - d" by (simp_all add: x_def d_def)
  have "unat x < unat d" using assms(1) n by (simp add: ranges_apart_def x_def d_def)
  then have "unat (x - d) = unat x + 2 ^ 64 - unat d" "unat (0 - d) = 2 ^ 64 - unat d"
    by (simp_all add: unat_sub_if' del: diff_0)
  then have "unat (q - p) \<le> unat (a - p)" unfolding ap qp by linarith
  with assms show False by (simp add: ranges_apart_def)
qed

lemma unat_add_of_nat: "i < n \<Longrightarrow> n \<le> 2 ^ 64 \<Longrightarrow> unat (p + of_nat i - (p::u64)) = i"
  by (simp add: unat_of_nat)

lemma mem_get_put_same: "length bs = n \<Longrightarrow> n \<le> 2 ^ 64 \<Longrightarrow> mem_get n p (mem_put p bs mem) = bs"
  by (rule nth_equalityI) (simp_all add: mem_get_def mem_put_def unat_of_nat)

lemma mem_put_apart:
  assumes "ranges_apart p (length bs) q n" and "unat (a - q) < n"
  shows "mem_put p bs mem a = mem a"
  using assms ranges_apart_bytes [of q n p "length bs" a] by (simp add: mem_put_def ranges_apart_sym)

lemma mem_get_put_apart:
  assumes "ranges_apart p (length bs) q n" and "n \<le> 2 ^ 64"
  shows "mem_get n q (mem_put p bs mem) = mem_get n q mem"
  unfolding mem_get_def using assms
  by (intro map_cong [OF refl] mem_put_apart [OF assms(1)]) (simp add: unat_of_nat)

lemma ld32_st32_same: "st32 base off v mem = Inr mem' \<Longrightarrow> ld32 base off mem' = Inr v"
  by (auto simp: st32_def ld32_def mem_get_put_same from_le_to_le take_bit_word_eq_self split: if_splits)

lemma ld64_st64_same: "st64 base off v mem = Inr mem' \<Longrightarrow> ld64 base off mem' = Inr v"
  by (auto simp: st64_def ld64_def mem_get_put_same from_le_to_le take_bit_word_eq_self split: if_splits)

end
