(* ===== verification/GV_Eeprom_Code.thy ===== *)
theory GV_Eeprom_Code
  imports GV_Bytes
begin

text \<open>
  The byte formats of the bad-page table in the EEPROM, \<^verbatim>\<open>libgv/core/amdgv_ras_eeprom_internal.c\<close>,
  \<^verbatim>\<open>amdgv_common_eeprom.h\<close> and the head of \<^verbatim>\<open>hw/common/ras_eeprom_v2_1.c\<close>: the table header, the extra GPU
  information, the 24-byte record, their byte sums, and the calendar date that a time stamp is packed from.
  The host is little-endian, as the macros \<^verbatim>\<open>cpu_to_le32\<close> and \<^verbatim>\<open>cpu_to_le64\<close> of the code assume.
\<close>

section \<open>The table header, the extra information and the records\<close>

abbreviation (input) EEPROM_TABLE_HEADER_SIZE :: nat where "EEPROM_TABLE_HEADER_SIZE \<equiv> 20"
abbreviation (input) EEPROM_TABLE_RECORD_SIZE :: nat where "EEPROM_TABLE_RECORD_SIZE \<equiv> 24"
abbreviation (input) EEPROM_TABLE_TOTAL_EXTRA_INFO_SIZE :: nat where "EEPROM_TABLE_TOTAL_EXTRA_INFO_SIZE \<equiv> 256"
abbreviation (input) EEPROM_TABLE_V2_1_EXTRA_GPU_INFO_SIZE :: nat where "EEPROM_TABLE_V2_1_EXTRA_GPU_INFO_SIZE \<equiv> 4"
abbreviation (input) EEPROM_SIZE_BYTES :: nat where "EEPROM_SIZE_BYTES \<equiv> 256000"
abbreviation (input) EEPROM_TABLE_HDR_VAL :: u32 where "EEPROM_TABLE_HDR_VAL \<equiv> 0x414d4452"
abbreviation (input) EEPROM_TABLE_HDR_BAD :: u32 where "EEPROM_TABLE_HDR_BAD \<equiv> 0x42414447"
abbreviation (input) EEPROM_TABLE_VER_V1 :: u32 where "EEPROM_TABLE_VER_V1 \<equiv> 0x00010000"
abbreviation (input) EEPROM_TABLE_VER_V2 :: u32 where "EEPROM_TABLE_VER_V2 \<equiv> 0x00020000"
abbreviation (input) EEPROM_TABLE_VER_V2_1 :: u32 where "EEPROM_TABLE_VER_V2_1 \<equiv> 0x00021000"
abbreviation (input) EEPROM_TABLE_VER_V3 :: u32 where "EEPROM_TABLE_VER_V3 \<equiv> 0x00030000"
abbreviation (input) EEPROM_TABLE_VER_V4 :: u32 where "EEPROM_TABLE_VER_V4 \<equiv> 0x00040000"

record amdgv_ras_eeprom_table_header =
  hdr_header :: u32
  hdr_version :: u32
  first_rec_offset :: u32
  tbl_size :: u32
  hdr_checksum :: u32

text \<open>\<open>egi_padding\<close> are the 252 reserved bytes.\<close>

record amdgv_ras_eeprom_extra_gpu_info_v2_1 =
  rma_status :: u8
  gpu_healthy :: u8
  ecc_page_threshold :: u16
  egi_padding :: "u8 list"

record eeprom_table_record =
  rec_offset :: u64
  rec_retired_page :: u64
  rec_ts :: u64
  rec_err_type :: u32
  rec_bank :: u8
  rec_mem_channel :: u8
  rec_mcumc_id :: u8

definition encode_table_header_to_buff :: "amdgv_ras_eeprom_table_header \<Rightarrow> u8 list" where
  "encode_table_header_to_buff hdr = to_le 4 (hdr_header hdr) @ to_le 4 (hdr_version hdr) @ to_le 4 (first_rec_offset hdr) @
     to_le 4 (tbl_size hdr) @ to_le 4 (hdr_checksum hdr)"

definition decode_table_header_from_buff :: "u8 list \<Rightarrow> amdgv_ras_eeprom_table_header" where
  "decode_table_header_from_buff buff = \<lparr>hdr_header = from_le (take 4 buff), hdr_version = from_le (take 4 (drop 4 buff)),
     first_rec_offset = from_le (take 4 (drop 8 buff)), tbl_size = from_le (take 4 (drop 12 buff)),
     hdr_checksum = from_le (take 4 (drop 16 buff))\<rparr>"

definition extra_info_word :: "amdgv_ras_eeprom_extra_gpu_info_v2_1 \<Rightarrow> u32" where
  "extra_info_word egi = (ucast (rma_status egi) AND 0xFF) OR (push_bit 8 (ucast (gpu_healthy egi)) AND 0xFF00) OR
     (push_bit 16 (ucast (ecc_page_threshold egi)) AND 0xFFFF0000)"

definition encode_extra_info_to_buff :: "amdgv_ras_eeprom_extra_gpu_info_v2_1 \<Rightarrow> u8 list" where
  "encode_extra_info_to_buff egi = to_le 4 (extra_info_word egi)"

definition decode_extra_info_from_buff :: "u8 list \<Rightarrow> amdgv_ras_eeprom_extra_gpu_info_v2_1 \<Rightarrow>
    amdgv_ras_eeprom_extra_gpu_info_v2_1" where
  "decode_extra_info_from_buff buff egi = (let tmp = from_le (take 4 buff) :: u32 in
     egi\<lparr>rma_status := ucast (tmp AND 0xFF), gpu_healthy := ucast (drop_bit 8 tmp AND 0xFF),
       ecc_page_threshold := ucast (drop_bit 16 tmp AND 0xFFFF)\<rparr>)"

definition encode_table_record_to_buff :: "eeprom_table_record \<Rightarrow> u8 list" where
  "encode_table_record_to_buff r = [ucast (rec_err_type r), rec_bank r] @ to_le 8 (rec_ts r) @
     to_le 6 (rec_offset r AND 0xffffffffffff) @ [rec_mem_channel r, rec_mcumc_id r] @
     to_le 6 (rec_retired_page r AND 0xffffffffffff)"

text \<open>The temporary keeps the two upper bytes of the time stamp when the six-byte fields are copied into it; the mask drops them.\<close>

definition decode_table_record_from_buff :: "u8 list \<Rightarrow> eeprom_table_record" where
  "decode_table_record_from_buff buff =
     (let ts_hi = take 2 (drop 8 buff) in
      \<lparr>rec_offset = from_le (take 6 (drop 10 buff) @ ts_hi) AND 0xffffffffffff,
        rec_retired_page = from_le (take 6 (drop 18 buff) @ ts_hi) AND 0xffffffffffff, rec_ts = from_le (take 8 (drop 2 buff)),
        rec_err_type = ucast (buff ! 0), rec_bank = buff ! 1, rec_mem_channel = buff ! 16, rec_mcumc_id = buff ! 17\<rparr>)"

section \<open>Byte sums\<close>

definition byte_sum :: "u8 list \<Rightarrow> u32" where
  "byte_sum bs = sum_list (map ucast bs)"

definition calc_hdr_byte_sum :: "amdgv_ras_eeprom_table_header \<Rightarrow> u32" where
  "calc_hdr_byte_sum hdr = byte_sum (take 16 (encode_table_header_to_buff hdr))"

text \<open>The bytes of the structure in memory: the four written ones and the reserved ones.\<close>

definition extra_info_bytes :: "amdgv_ras_eeprom_extra_gpu_info_v2_1 \<Rightarrow> u8 list" where
  "extra_info_bytes egi = [rma_status egi, gpu_healthy egi] @ to_le 2 (ecc_page_threshold egi) @ egi_padding egi"

definition calc_extra_info_byte_sum :: "amdgv_ras_eeprom_extra_gpu_info_v2_1 \<Rightarrow> u32" where
  "calc_extra_info_byte_sum egi = byte_sum (take EEPROM_TABLE_TOTAL_EXTRA_INFO_SIZE (extra_info_bytes egi))"

text \<open>The packed structure in memory, whose bytes the legacy format adds up; the encoded record, which the current format adds up.\<close>

definition record_bytes :: "eeprom_table_record \<Rightarrow> u8 list" where
  "record_bytes r = to_le 8 (rec_offset r) @ to_le 8 (rec_retired_page r) @ to_le 8 (rec_ts r) @ to_le 4 (rec_err_type r) @
     [rec_bank r, rec_mem_channel r, rec_mcumc_id r]"

definition calc_recs_byte_sum :: "eeprom_table_record list \<Rightarrow> u32" where
  "calc_recs_byte_sum records = sum_list (map (\<lambda>r. byte_sum (record_bytes r)) records)"

definition ras_eeprom_v2_1_calc_recs_byte_sum :: "eeprom_table_record list \<Rightarrow> u32" where
  "ras_eeprom_v2_1_calc_recs_byte_sum records = sum_list (map (\<lambda>r. byte_sum (encode_table_record_to_buff r)) records)"

section \<open>Dates\<close>

record utc_datetime =
  dt_year :: u64
  dt_month :: u64
  dt_day :: u64
  dt_hour :: u64
  dt_minute :: u64
  dt_second :: u64

definition IS_LEAP_YEAR :: "u64 \<Rightarrow> bool" where
  "IS_LEAP_YEAR x \<longleftrightarrow> x mod 4 = 0 \<and> x mod 100 \<noteq> 0 \<or> x mod 400 = 0"

text \<open>The year loop on the 32-bit day count.\<close>

function year_loop :: "u64 \<Rightarrow> u32 \<Rightarrow> u64 \<times> u32" where
  "year_loop year days = (if 365 \<le> days
     then (let days_in_year = (if IS_LEAP_YEAR year then 366 else 365) in
       if days < days_in_year then (year, days) else year_loop (year + 1) (days - days_in_year))
     else (year, days))"
  by pat_completeness auto
termination
proof (relation "measure (\<lambda>(year, days). unat days)", goal_cases)
  case (2 year days d)
  then have "d \<le> days" "0 < d" by (auto simp: not_less)
  then show ?case by (simp add: unat_sub word_less_nat_alt word_le_nat_alt)
qed simp

declare year_loop.simps [simp del]

definition month_days :: "u64 \<Rightarrow> u32 list" where
  "month_days year = [31, if IS_LEAP_YEAR year then 29 else 28, 31, 30, 31, 30, 31, 31, 30, 31, 30, 31]"

text \<open>The month loop over the remaining entries of \<^verbatim>\<open>days_in_month\<close>, which ends after the twelfth.\<close>

fun month_loop :: "u64 \<Rightarrow> u32 list \<Rightarrow> u32 \<Rightarrow> u64 \<times> u32" where
  "month_loop month [] days = (month, days)"
| "month_loop month (m # ms) days = (if m \<le> days then month_loop (month + 1) ms (days - m) else (month, days))"

definition amdgv_utc_to_datetime_components :: "u64 \<Rightarrow> utc_datetime" where
  "amdgv_utc_to_datetime_components utc_timestamp =
     (let days = ucast (utc_timestamp div 86400) :: u32; remaining = ucast (utc_timestamp mod 86400) :: u32;
        (year, days) = year_loop 1970 days; (month, days) = month_loop 1 (month_days year) days in
      \<lparr>dt_year = year, dt_month = month, dt_day = ucast (days + 1), dt_hour = ucast (remaining div 3600),
        dt_minute = ucast ((remaining mod 3600) div 60), dt_second = ucast (remaining mod 60)\<rparr>)"

definition amdgv_utc_to_eeprom_format :: "u64 \<Rightarrow> u64" where
  "amdgv_utc_to_eeprom_format utc_timestamp =
     (let dt = amdgv_utc_to_datetime_components utc_timestamp;
        year = dt_year dt; year = (if year \<le> 2000 then 2000 else year); year = (if 2031 \<le> year then 2031 else year);
        year = year - 2000 in
      (dt_second dt + push_bit 6 (dt_minute dt) + push_bit 12 (dt_hour dt) + push_bit 17 (dt_day dt) +
        push_bit 23 (dt_month dt) + push_bit 27 year) AND 0xffffffff)"

end
