(* ===== verification/GV_Eeprom.thy ===== *)
theory GV_Eeprom
  imports GV_Eeprom_Code
begin

text \<open>
  The bad-page table in the EEPROM, format 2.1: the bus transfers of
  \<^verbatim>\<open>mi300_smu_pp_i2c_eeprom_i2c_xfer\<close> (\<^verbatim>\<open>hw/AI/mi300/mi300_powerplay.c\<close>), the table operations of
  \<^verbatim>\<open>hw/common/ras_eeprom_v2_1.c\<close> and the saving of new bad pages by \<^verbatim>\<open>amdgv_umc_save_bad_pages\<close>.
\<close>

section \<open>State\<close>

datatype amdgv_bp_msg_type = AMDGV_BP_MSG_INVALID | AMDGV_BP_MSG_IN_PF_FB | AMDGV_BP_MSG_IN_CRITICAL_REGION
  | AMDGV_BP_MSG_IN_VF_CRITICAL_REGION | AMDGV_BP_MSG_IN_SAME_ROW | AMDGV_BP_MSG_RECORD_THRESHOLD_REACHED

abbreviation (input) GPU_HEALTHY_USABLE :: u8 where "GPU_HEALTHY_USABLE \<equiv> 0"
abbreviation (input) GPU_RETIRED__ECC_IN_CRITICAL_REGION :: u8 where "GPU_RETIRED__ECC_IN_CRITICAL_REGION \<equiv> 1"
abbreviation (input) GPU_RETIRED__ECC_REACH_THRESHOLD :: u8 where "GPU_RETIRED__ECC_REACH_THRESHOLD \<equiv> 2"

record amdgv_ras_eeprom_control =
  tbl_hdr :: amdgv_ras_eeprom_table_header
  tbl_egi_v2_1 :: amdgv_ras_eeprom_extra_gpu_info_v2_1
  next_addr :: u32
  num_recs :: u32
  tbl_byte_sum :: u32
  i2c_address :: u16
  bad_channel_bitmap :: u32
  max_record_num :: u32

text \<open>
  The parts of the adapter that the table uses. \<open>rom\<close> is the memory of the device, \<open>dev_read\<close> and
  \<open>dev_write\<close> are what the device does in a read and in a write of some bytes from an address, both with the select code. The environment decides whether the
  \<open>n\<close>-th bus transaction succeeds (after the retries of the driver) and whether the \<open>n\<close>-th allocation does. \<open>raw_data\<close> is the table handed over by
  a live update, while it is in use; \<open>uniras_rma\<close> is the answer of the unified RAS manager when it is enabled,
  \<open>rom_i2c_address\<close> the device address of the VBIOS, or the default.
\<close>

record eeprom_adapter =
  control :: amdgv_ras_eeprom_control
  rom :: "nat \<Rightarrow> u8"
  dev_read :: "u16 \<Rightarrow> nat \<Rightarrow> nat \<Rightarrow> (nat \<Rightarrow> u8) \<Rightarrow> u8 list"
  dev_write :: "u16 \<Rightarrow> nat \<Rightarrow> u8 list \<Rightarrow> (nat \<Rightarrow> u8) \<Rightarrow> nat \<Rightarrow> u8"
  bus_ok :: "nat \<Rightarrow> bool"
  transactions :: nat
  mem_ok :: "nat \<Rightarrow> bool"
  allocations :: nat
  raw_data :: "u8 list option"
  uniras_rma :: "bool option"
  rom_i2c_address :: u8
  supports_ras_eeprom :: bool
  eeprom_version :: u32
  bp_msg_type :: amdgv_bp_msg_type
  bad_page_record_threshold :: u32
  bad_page_detection_mode :: u32
  in_whole_gpu_reset :: bool
  use_pf :: bool
  rma_notified :: nat
  update_channel_flag :: bool

abbreviation update_control :: "(amdgv_ras_eeprom_control \<Rightarrow> amdgv_ras_eeprom_control) \<Rightarrow> eeprom_adapter \<Rightarrow> eeprom_adapter" where
  "update_control f ad \<equiv> ad\<lparr>control := f (control ad)\<rparr>"

definition oss_zalloc :: "eeprom_adapter \<Rightarrow> bool \<times> eeprom_adapter" where
  "oss_zalloc ad = (mem_ok ad (allocations ad), ad\<lparr>allocations := Suc (allocations ad)\<rparr>)"

section \<open>The bus\<close>

text \<open>One transaction of the SMU, with its retries: whether it succeeded, and the bytes read. A write that failed five times has not reached the device.\<close>

definition smu_read_data :: "u16 \<Rightarrow> nat \<Rightarrow> nat \<Rightarrow> eeprom_adapter \<Rightarrow> bool \<times> u8 list \<times> eeprom_adapter" where
  "smu_read_data addr a n ad = (bus_ok ad (transactions ad), dev_read ad addr a n (rom ad),
     ad\<lparr>transactions := Suc (transactions ad)\<rparr>)"

definition smu_write_data :: "u16 \<Rightarrow> nat \<Rightarrow> u8 list \<Rightarrow> eeprom_adapter \<Rightarrow> bool \<times> eeprom_adapter" where
  "smu_write_data addr a bs ad = (let ad' = ad\<lparr>transactions := Suc (transactions ad)\<rparr> in
     if bus_ok ad (transactions ad) then (True, ad'\<lparr>rom := dev_write ad addr a bs (rom ad)\<rparr>) else (False, ad'))"

text \<open>
  The device that the code is written for, as its data sheet documents it (M24M02, which the code refers to), is a hypothesis of the lemmas: a 2 Mbit EEPROM. Two bits of its select code are the upper address bits, a write stays in the 256-byte page
  of its first byte and wraps around in it, a read goes on through the 64 KB that the select code chooses.
\<close>

definition device_base :: "u16 \<Rightarrow> nat" where
  "device_base addr = (unat addr div 2 mod 4) * 65536"

definition device_read :: "u16 \<Rightarrow> nat \<Rightarrow> nat \<Rightarrow> (nat \<Rightarrow> u8) \<Rightarrow> u8 list" where
  "device_read addr a n m = map (\<lambda>k. m (device_base addr + (a + k) mod 65536)) [0..<n]"

definition device_write :: "u16 \<Rightarrow> nat \<Rightarrow> u8 list \<Rightarrow> (nat \<Rightarrow> u8) \<Rightarrow> nat \<Rightarrow> u8" where
  "device_write addr a bs m = foldl (\<lambda>m k. m(device_base addr + a div 256 * 256 + (a + k) mod 256 := bs ! k)) m [0..<length bs]"

definition m24m02 :: "eeprom_adapter \<Rightarrow> bool" where
  "m24m02 ad \<longleftrightarrow> dev_read ad = device_read \<and> dev_write ad = device_write"

abbreviation (input) MI300_SMU_I2C_MAX_CHUNK_SIZE :: nat where "MI300_SMU_I2C_MAX_CHUNK_SIZE \<equiv> 256"
abbreviation (input) MI300_SMU_I2C_ADDR_SIZE :: nat where "MI300_SMU_I2C_ADDR_SIZE \<equiv> 2"
abbreviation (input) MAX_SW_I2C_COMMANDS :: nat where "MAX_SW_I2C_COMMANDS \<equiv> 24"

definition mi300_smu_pp_i2c_page_allowed_xfer_len :: "nat \<Rightarrow> nat" where
  "mi300_smu_pp_i2c_page_allowed_xfer_len addr = MI300_SMU_I2C_MAX_CHUNK_SIZE - addr mod MI300_SMU_I2C_MAX_CHUNK_SIZE"

definition chunk_size :: "nat \<Rightarrow> nat \<Rightarrow> nat" where
  "chunk_size a len = min len (min (mi300_smu_pp_i2c_page_allowed_xfer_len a) (MAX_SW_I2C_COMMANDS - MI300_SMU_I2C_ADDR_SIZE))"

lemma chunk_size_pos: "0 < len \<Longrightarrow> 0 < chunk_size a len"
  by (simp add: chunk_size_def mi300_smu_pp_i2c_page_allowed_xfer_len_def)

text \<open>The chunks of one message; two bytes of the chunk's address go over the bus. A read returns what it has got.\<close>

function read_chunks :: "u16 \<Rightarrow> nat \<Rightarrow> nat \<Rightarrow> eeprom_adapter \<Rightarrow> bool \<times> u8 list \<times> eeprom_adapter" where
  "read_chunks addr a len ad = (if len = 0 then (True, [], ad)
     else (let n = chunk_size a len; (ok, bs, ad) = smu_read_data addr (a mod 65536) n ad in
       if \<not> ok then (False, [], ad)
       else (let (ok, bs', ad) = read_chunks addr (a + n) (len - n) ad in (ok, bs @ bs', ad))))"
  by pat_completeness auto
termination by (relation "measure (\<lambda>(addr, a, len, ad). len)") (auto simp: chunk_size_pos)

function write_chunks :: "u16 \<Rightarrow> nat \<Rightarrow> u8 list \<Rightarrow> eeprom_adapter \<Rightarrow> bool \<times> eeprom_adapter" where
  "write_chunks addr a bs ad = (if bs = [] then (True, ad)
     else (let n = chunk_size a (length bs); (ok, ad) = smu_write_data addr (a mod 65536) (take n bs) ad in
       if \<not> ok then (False, ad) else write_chunks addr (a + n) (drop n bs) ad))"
  by pat_completeness auto
termination by (relation "measure (\<lambda>(addr, a, bs, ad). length bs)") (auto simp: chunk_size_pos)

declare read_chunks.simps [simp del] write_chunks.simps [simp del]

record i2c_msg =
  msg_addr :: u16
  msg_rd :: bool
  msg_buf :: "u8 list"

definition msg_eeprom_addr :: "i2c_msg \<Rightarrow> nat" where
  "msg_eeprom_addr msg = unat (msg_buf msg ! 0) * 256 + unat (msg_buf msg ! 1)"

text \<open>\<^verbatim>\<open>mi300_smu_pp_i2c_eeprom_i2c_xfer\<close> for one message: the return code and the message with the bytes read.\<close>

definition mi300_smu_pp_i2c_eeprom_i2c_xfer :: "i2c_msg \<Rightarrow> eeprom_adapter \<Rightarrow> int \<times> i2c_msg \<times> eeprom_adapter" where
  "mi300_smu_pp_i2c_eeprom_i2c_xfer msg ad =
     (if msg_rd msg
      then (let (ok, bs, ad) = read_chunks (msg_addr msg) (msg_eeprom_addr msg) (length (msg_buf msg) - 2) ad in
        (if ok then 1 else AMDGV_FAILURE, msg\<lparr>msg_buf := take 2 (msg_buf msg) @ bs\<rparr>, ad))
      else (let (ok, ad) = write_chunks (msg_addr msg) (msg_eeprom_addr msg) (drop 2 (msg_buf msg)) ad in
        (if ok then 1 else AMDGV_FAILURE, msg, ad)))"

section \<open>Reading and writing the table\<close>

definition EEPROM_ADDR_MSB_MASK :: u32 where
  "EEPROM_ADDR_MSB_MASK = 0x3ff00"

definition ras_eeprom_v2_1_format_i2c_msg :: "u8 list \<Rightarrow> u32 \<Rightarrow> bool \<Rightarrow> eeprom_adapter \<Rightarrow> i2c_msg" where
  "ras_eeprom_v2_1_format_i2c_msg buff addr write ad =
     \<lparr>msg_addr = i2c_address (control ad) OR ucast (drop_bit 15 (addr AND EEPROM_ADDR_MSB_MASK)), msg_rd = (\<not> write),
       msg_buf = [ucast (drop_bit 8 addr AND 0xff), ucast (addr AND 0xff)] @ drop 2 buff\<rparr>"

text \<open>The data of a read message, or the bytes of the live update.\<close>

definition ras_eeprom_v2_1_get_eeprom_data :: "u32 \<Rightarrow> nat \<Rightarrow> eeprom_adapter \<Rightarrow> int \<times> u8 list \<times> eeprom_adapter" where
  "ras_eeprom_v2_1_get_eeprom_data addr len ad = (case raw_data ad of
       None \<Rightarrow> (let (ret, msg, ad) = mi300_smu_pp_i2c_eeprom_i2c_xfer
           (ras_eeprom_v2_1_format_i2c_msg (replicate (2 + len) 0) addr False ad) ad in
         if ret < 1 then (AMDGV_FAILURE, [], ad) else (ret, drop 2 (msg_buf msg), ad))
     | Some data \<Rightarrow> if unat addr < length data \<and> unat (addr + of_nat len) \<le> length data
         then (1, take len (drop (unat addr) data), ad) else (AMDGV_FAILURE, [], ad))"

definition write_eeprom_data :: "u8 list \<Rightarrow> u32 \<Rightarrow> eeprom_adapter \<Rightarrow> int \<times> eeprom_adapter" where
  "write_eeprom_data bs addr ad = (let (ret, msg, ad) = mi300_smu_pp_i2c_eeprom_i2c_xfer
     (ras_eeprom_v2_1_format_i2c_msg ([0, 0] @ bs) addr True ad) ad in (ret, ad))"

definition ras_eeprom_v2_1_write_table_header :: "eeprom_adapter \<Rightarrow> int \<times> eeprom_adapter" where
  "ras_eeprom_v2_1_write_table_header ad = write_eeprom_data (encode_table_header_to_buff (tbl_hdr (control ad))) 0 ad"

definition ras_eeprom_v2_1_write_table_header_ext :: "bool \<Rightarrow> eeprom_adapter \<Rightarrow> int \<times> eeprom_adapter" where
  "ras_eeprom_v2_1_write_table_header_ext write_reserved ad =
     (let bs = encode_extra_info_to_buff (tbl_egi_v2_1 (control ad)) @
          (if write_reserved then replicate (EEPROM_TABLE_TOTAL_EXTRA_INFO_SIZE - EEPROM_TABLE_V2_1_EXTRA_GPU_INFO_SIZE) 0 else []);
        (ok, ad) = oss_zalloc ad in
      if \<not> ok then (AMDGV_FAILURE, ad) else write_eeprom_data bs (of_nat EEPROM_TABLE_HEADER_SIZE) ad)"

definition update_bad_channel_bitmap :: "eeprom_table_record \<Rightarrow> eeprom_adapter \<Rightarrow> eeprom_adapter" where
  "update_bad_channel_bitmap r ad =
     (if rec_mem_channel r < 32 \<and> \<not> bit (bad_channel_bitmap (control ad)) (unat (rec_mem_channel r))
      then (update_control (\<lambda>c. c\<lparr>bad_channel_bitmap := set_bit (unat (rec_mem_channel r)) (bad_channel_bitmap c)\<rparr>) ad)
        \<lparr>update_channel_flag := True\<rparr>
      else ad)"

definition EEPROM_RECORD_START_V2_1 :: u32 where
  "EEPROM_RECORD_START_V2_1 = 276"

definition ras_eeprom_v2_1_i2c_transfer_record :: "u8 list \<Rightarrow> bool \<Rightarrow> eeprom_adapter \<Rightarrow> int \<times> u8 list \<times> eeprom_adapter" where
  "ras_eeprom_v2_1_i2c_transfer_record encoded write ad =
     (if write then (let (ret, ad) = write_eeprom_data encoded (next_addr (control ad)) ad in
        (if ret \<noteq> 1 then AMDGV_FAILURE else 0, encoded, ad))
      else (let (ret, bs, ad) = ras_eeprom_v2_1_get_eeprom_data (next_addr (control ad)) EEPROM_TABLE_RECORD_SIZE ad in
        if ret \<noteq> 1 then (AMDGV_FAILURE, encoded, ad) else (0, bs, ad)))"

definition ras_eeprom_v2_1_process_record :: "bool \<Rightarrow> eeprom_table_record \<Rightarrow> eeprom_adapter \<Rightarrow>
    int \<times> eeprom_table_record \<times> eeprom_adapter" where
  "ras_eeprom_v2_1_process_record write r ad =
     (let encoded = (if write then encode_table_record_to_buff r else replicate EEPROM_TABLE_RECORD_SIZE 0);
        (ret, bs, ad) = ras_eeprom_v2_1_i2c_transfer_record encoded write ad in
      if ret \<noteq> 0 then (AMDGV_FAILURE, r, ad)
      else (let r = (if write then r else decode_table_record_from_buff bs);
          ad = update_control (\<lambda>c. c\<lparr>next_addr := next_addr c + of_nat EEPROM_TABLE_RECORD_SIZE\<rparr>) ad in
        (0, r, update_bad_channel_bitmap r ad)))"

definition ras_eeprom_v2_1_entry_overflow :: "amdgv_ras_eeprom_control \<Rightarrow> bool" where
  "ras_eeprom_v2_1_entry_overflow c \<longleftrightarrow>
     max_record_num c < (next_addr c - first_rec_offset (tbl_hdr c)) div of_nat EEPROM_TABLE_RECORD_SIZE"

text \<open>The loop over the records: the return code, the number of records processed, and the records.\<close>

fun process_loop :: "bool \<Rightarrow> eeprom_table_record list \<Rightarrow> eeprom_adapter \<Rightarrow> int \<times> nat \<times> eeprom_table_record list \<times> eeprom_adapter" where
  "process_loop write [] ad = (0, 0, [], ad)"
| "process_loop write (r # rs) ad =
     (if ras_eeprom_v2_1_entry_overflow (control ad) then (0, 0, r # rs, ad)
      else (let (ret, r', ad) = ras_eeprom_v2_1_process_record write r ad in
        if ret \<noteq> 0 then (ret, 0, r' # rs, ad)
        else (let (ret, i, rs', ad) = process_loop write rs ad in (ret, Suc i, r' # rs', ad))))"

section \<open>Health and checksum\<close>

definition eeprom_BAD_PAGE_RECORD_THRESHOLD :: "eeprom_adapter \<Rightarrow> u32" where
  "eeprom_BAD_PAGE_RECORD_THRESHOLD ad = (if bad_page_record_threshold ad \<noteq> 0 then bad_page_record_threshold ad else 10)"

abbreviation (input) AMDGV_RAS_ECC_FLAG_SKIP_BAD_PAGE_OPS :: nat where "AMDGV_RAS_ECC_FLAG_SKIP_BAD_PAGE_OPS \<equiv> 0"
abbreviation (input) AMDGV_RAS_ECC_FLAG_IGNORE_RMA :: nat where "AMDGV_RAS_ECC_FLAG_IGNORE_RMA \<equiv> 1"

definition amdgv_ras_eeprom_is_header_bad :: "eeprom_adapter \<Rightarrow> bool" where
  "amdgv_ras_eeprom_is_header_bad ad \<longleftrightarrow> \<not> bit (bad_page_detection_mode ad) AMDGV_RAS_ECC_FLAG_IGNORE_RMA \<and>
     hdr_header (tbl_hdr (control ad)) = EEPROM_TABLE_HDR_BAD"

definition amdgv_ras_eeprom_is_gpu_bad :: "eeprom_adapter \<Rightarrow> bool" where
  "amdgv_ras_eeprom_is_gpu_bad ad = (case uniras_rma ad of Some b \<Rightarrow> b | None \<Rightarrow> amdgv_ras_eeprom_is_header_bad ad)"

definition mark_gpu_bad :: "eeprom_adapter \<Rightarrow> eeprom_adapter" where
  "mark_gpu_bad ad = (let ad = update_control (\<lambda>c. c\<lparr>tbl_hdr := (tbl_hdr c)\<lparr>hdr_header := EEPROM_TABLE_HDR_BAD\<rparr>\<rparr>) ad in
     if use_pf ad then ad\<lparr>rma_notified := Suc (rma_notified ad)\<rparr> else ad)"

definition ras_eeprom_v2_1_mark_gpu_healthy_status :: "u8 \<Rightarrow> eeprom_adapter \<Rightarrow> eeprom_adapter" where
  "ras_eeprom_v2_1_mark_gpu_healthy_status status =
     update_control (\<lambda>c. c\<lparr>tbl_egi_v2_1 := (tbl_egi_v2_1 c)\<lparr>rma_status := status, gpu_healthy := 0\<rparr>\<rparr>)"

definition ras_eeprom_v2_1_get_gpu_healthy_status :: "eeprom_adapter \<Rightarrow> u8" where
  "ras_eeprom_v2_1_get_gpu_healthy_status ad = rma_status (tbl_egi_v2_1 (control ad))"

definition ras_eeprom_v2_1_calc_gpu_healthy :: "eeprom_adapter \<Rightarrow> eeprom_adapter" where
  "ras_eeprom_v2_1_calc_gpu_healthy ad = (let threshold = eeprom_BAD_PAGE_RECORD_THRESHOLD ad;
       percent = ((threshold - num_recs (control ad)) * 100) div threshold in
     update_control (\<lambda>c. c\<lparr>tbl_egi_v2_1 := (tbl_egi_v2_1 c)\<lparr>gpu_healthy := ucast percent\<rparr>\<rparr>) ad)"

definition ras_eeprom_v2_1_update_gpu_health :: "eeprom_adapter \<Rightarrow> eeprom_adapter" where
  "ras_eeprom_v2_1_update_gpu_health ad =
     (if amdgv_ras_eeprom_is_gpu_bad ad then ad
      else case bp_msg_type ad of
          AMDGV_BP_MSG_IN_PF_FB \<Rightarrow> mark_gpu_bad (ras_eeprom_v2_1_mark_gpu_healthy_status GPU_RETIRED__ECC_IN_CRITICAL_REGION ad)
        | AMDGV_BP_MSG_IN_CRITICAL_REGION \<Rightarrow>
            mark_gpu_bad (ras_eeprom_v2_1_mark_gpu_healthy_status GPU_RETIRED__ECC_IN_CRITICAL_REGION ad)
        | AMDGV_BP_MSG_IN_VF_CRITICAL_REGION \<Rightarrow>
            mark_gpu_bad (ras_eeprom_v2_1_mark_gpu_healthy_status GPU_RETIRED__ECC_IN_CRITICAL_REGION ad)
        | AMDGV_BP_MSG_RECORD_THRESHOLD_REACHED \<Rightarrow>
            mark_gpu_bad (ras_eeprom_v2_1_mark_gpu_healthy_status GPU_RETIRED__ECC_REACH_THRESHOLD ad)
        | _ \<Rightarrow> ras_eeprom_v2_1_calc_gpu_healthy ad)"

definition ras_eeprom_v2_1_calc_tbl_byte_sum :: "eeprom_table_record list \<Rightarrow> amdgv_ras_eeprom_control \<Rightarrow> u32" where
  "ras_eeprom_v2_1_calc_tbl_byte_sum records c =
     calc_hdr_byte_sum (tbl_hdr c) + calc_extra_info_byte_sum (tbl_egi_v2_1 c) + ras_eeprom_v2_1_calc_recs_byte_sum records"

definition ras_eeprom_v2_1_update_tbl_checksum :: "eeprom_table_record list \<Rightarrow> u32 \<Rightarrow> u32 \<Rightarrow> eeprom_adapter \<Rightarrow> eeprom_adapter" where
  "ras_eeprom_v2_1_update_tbl_checksum records old_hdr old_extra = update_control (\<lambda>c.
     let s = tbl_byte_sum c - old_extra - old_hdr + ras_eeprom_v2_1_calc_tbl_byte_sum records c in
     c\<lparr>tbl_byte_sum := s, tbl_hdr := (tbl_hdr c)\<lparr>hdr_checksum := 256 - s mod 256\<rparr>\<rparr>)"

definition ras_eeprom_v2_1_update_tbl_byte_sum :: "eeprom_table_record list \<Rightarrow> eeprom_adapter \<Rightarrow> eeprom_adapter" where
  "ras_eeprom_v2_1_update_tbl_byte_sum records =
     update_control (\<lambda>c. c\<lparr>tbl_byte_sum := ras_eeprom_v2_1_calc_tbl_byte_sum records c\<rparr>)"

definition validate_tbl_checksum :: "amdgv_ras_eeprom_control \<Rightarrow> bool" where
  "validate_tbl_checksum c \<longleftrightarrow> hdr_checksum (tbl_hdr c) + tbl_byte_sum c mod 256 = 256"

section \<open>Records\<close>

definition ras_eeprom_v2_1_update_table_header :: "eeprom_table_record list \<Rightarrow> eeprom_adapter \<Rightarrow> eeprom_adapter" where
  "ras_eeprom_v2_1_update_table_header records ad =
     (let old_hdr = calc_hdr_byte_sum (tbl_hdr (control ad)); old_extra = calc_extra_info_byte_sum (tbl_egi_v2_1 (control ad));
        num = of_nat (length records) :: u32;
        ad = update_control (\<lambda>c. c\<lparr>num_recs := num_recs c + num,
          tbl_hdr := (tbl_hdr c)\<lparr>tbl_size := tbl_size (tbl_hdr c) + of_nat EEPROM_TABLE_RECORD_SIZE * num\<rparr>\<rparr>) ad;
        ad = ras_eeprom_v2_1_update_tbl_checksum records old_hdr old_extra (ras_eeprom_v2_1_update_gpu_health ad);
        (_, ad) = ras_eeprom_v2_1_write_table_header ad;
        (_, ad) = ras_eeprom_v2_1_write_table_header_ext False ad in
      ad)"

definition ras_eeprom_v2_1_process_records :: "bool \<Rightarrow> eeprom_table_record list \<Rightarrow> eeprom_adapter \<Rightarrow>
    int \<times> eeprom_table_record list \<times> eeprom_adapter" where
  "ras_eeprom_v2_1_process_records write records ad =
     (if \<not> supports_ras_eeprom ad then (0, records, ad)
      else (let (ret, i, records, ad) = process_loop write records ad in
        if ret \<noteq> 0 then (ret, records, ad)
        else if write then (ret, records, ras_eeprom_v2_1_update_table_header (take i records) ad)
        else (ret, records, ras_eeprom_v2_1_update_tbl_byte_sum (take i records) ad)))"

end
