(* ===== verification/GV_Eeprom_Table.thy ===== *)
theory GV_Eeprom_Table
  imports GV_Eeprom
begin

text \<open>
  The life of the bad-page table: creation, the checks and repairs at start-up of \<^verbatim>\<open>hw/common/ras_eeprom_v2_1.c\<close>, with the read path of
  \<^verbatim>\<open>hw/common/ras_eeprom_legacy.c\<close> that they fall back to, the export for a live update, and the saving of new bad pages
  of \<^verbatim>\<open>amdgv_umc.c\<close>.
\<close>

section \<open>Reading in the legacy layout\<close>

definition legacy_calc_tbl_byte_sum :: "eeprom_table_record list \<Rightarrow> amdgv_ras_eeprom_control \<Rightarrow> u32" where
  "legacy_calc_tbl_byte_sum records c =
     (if hdr_version (tbl_hdr c) = EEPROM_TABLE_VER_V2_1
      then calc_hdr_byte_sum (tbl_hdr c) + calc_extra_info_byte_sum (tbl_egi_v2_1 c) + calc_recs_byte_sum records
      else calc_hdr_byte_sum (tbl_hdr c) + calc_recs_byte_sum records)"

definition correct_eeprom_dest_address :: "u32 \<Rightarrow> u32 \<Rightarrow> u32" where
  "correct_eeprom_dest_address version addr = (let nxt = addr + of_nat EEPROM_TABLE_RECORD_SIZE in
     if of_nat EEPROM_SIZE_BYTES < nxt
     then (if version = EEPROM_TABLE_VER_V1 \<or> version = EEPROM_TABLE_VER_V2 then 20 else EEPROM_RECORD_START_V2_1)
     else if addr AND EEPROM_ADDR_MSB_MASK \<noteq> nxt AND EEPROM_ADDR_MSB_MASK then nxt AND EEPROM_ADDR_MSB_MASK
     else addr)"

text \<open>The messages of a legacy read of \<open>n\<close> records, with the advance of the address.\<close>

fun legacy_read_msgs :: "nat \<Rightarrow> eeprom_adapter \<Rightarrow> i2c_msg list \<times> eeprom_adapter" where
  "legacy_read_msgs 0 ad = ([], ad)"
| "legacy_read_msgs (Suc n) ad =
     (let a = correct_eeprom_dest_address (hdr_version (tbl_hdr (control ad))) (next_addr (control ad));
        msg = ras_eeprom_v2_1_format_i2c_msg (replicate (2 + EEPROM_TABLE_RECORD_SIZE) 0) a False ad;
        (msgs, ad) = legacy_read_msgs n (update_control (\<lambda>c. c\<lparr>next_addr := a + of_nat EEPROM_TABLE_RECORD_SIZE\<rparr>) ad) in
      (msg # msgs, ad))"

text \<open>Several messages in one call of the transfer function.\<close>

fun read_msgs :: "i2c_msg list \<Rightarrow> eeprom_adapter \<Rightarrow> bool \<times> u8 list list \<times> eeprom_adapter" where
  "read_msgs [] ad = (True, [], ad)"
| "read_msgs (m # ms) ad = (let (ret, m', ad) = mi300_smu_pp_i2c_eeprom_i2c_xfer m ad in
     if ret < 1 then (False, [], ad)
     else (let (ok, bss, ad) = read_msgs ms ad in (ok, drop 2 (msg_buf m') # bss, ad)))"

definition ras_eeprom_legacy_read_records :: "eeprom_table_record list \<Rightarrow> eeprom_adapter \<Rightarrow>
    int \<times> eeprom_table_record list \<times> eeprom_adapter" where
  "ras_eeprom_legacy_read_records records ad =
     (if \<not> supports_ras_eeprom ad \<or> records = [] then (0, records, ad)
      else if unat (max_record_num (control ad)) < length records then (AMDGV_FAILURE, records, ad)
      else (let (ok, ad) = oss_zalloc ad in if \<not> ok then (AMDGV_FAILURE, records, ad)
      else (let (ok, ad) = oss_zalloc ad in if \<not> ok then (AMDGV_FAILURE, records, ad)
      else (let (msgs, ad) = legacy_read_msgs (length records) ad; (ok, bss, ad) = read_msgs msgs ad in
        if \<not> ok then (AMDGV_FAILURE, records, ad)
        else (let records = map decode_table_record_from_buff bss; ad = fold update_bad_channel_bitmap records ad in
          (0, records, update_control (\<lambda>c. c\<lparr>tbl_byte_sum := legacy_calc_tbl_byte_sum records c\<rparr>) ad))))))"

section \<open>Creating the table\<close>

definition ras_eeprom_v2_1_reset_table :: "eeprom_adapter \<Rightarrow> int \<times> eeprom_adapter" where
  "ras_eeprom_v2_1_reset_table ad =
     (let hdr = (tbl_hdr (control ad))\<lparr>hdr_header := EEPROM_TABLE_HDR_VAL,
            hdr_version := (if eeprom_version ad = EEPROM_TABLE_VER_V3 then EEPROM_TABLE_VER_V3 else EEPROM_TABLE_VER_V2_1),
            first_rec_offset := EEPROM_RECORD_START_V2_1,
            tbl_size := of_nat (EEPROM_TABLE_HEADER_SIZE + EEPROM_TABLE_TOTAL_EXTRA_INFO_SIZE)\<rparr>;
        egi = (tbl_egi_v2_1 (control ad))\<lparr>rma_status := GPU_HEALTHY_USABLE, gpu_healthy := 100,
            ecc_page_threshold := ucast (eeprom_BAD_PAGE_RECORD_THRESHOLD ad)\<rparr>;
        ad = update_control (\<lambda>c. c\<lparr>tbl_hdr := hdr, tbl_egi_v2_1 := egi, next_addr := EEPROM_RECORD_START_V2_1,
            tbl_byte_sum := 0, num_recs := 0,
            max_record_num := of_nat ((EEPROM_SIZE_BYTES - EEPROM_TABLE_HEADER_SIZE - EEPROM_TABLE_TOTAL_EXTRA_INFO_SIZE)
              div EEPROM_TABLE_RECORD_SIZE)\<rparr>) ad;
        ad = ras_eeprom_v2_1_update_tbl_checksum [] 0 0 ad;
        (ret, ad) = ras_eeprom_v2_1_write_table_header ad;
        (ret, ad) = (if ret = 1 then ras_eeprom_v2_1_write_table_header_ext True ad else (ret, ad)) in
      (if ret = 1 then 0 else AMDGV_FAILURE, ad))"

section \<open>Checks and repairs at start-up\<close>

definition ras_eeprom_v2_1_init_sw_control :: "eeprom_adapter \<Rightarrow> int \<times> eeprom_adapter" where
  "ras_eeprom_v2_1_init_sw_control ad =
     (let c = control ad; tsize = tbl_size (tbl_hdr c); version = hdr_version (tbl_hdr c);
        hs = of_nat EEPROM_TABLE_HEADER_SIZE :: u32; es = of_nat EEPROM_TABLE_TOTAL_EXTRA_INFO_SIZE :: u32;
        rs = of_nat EEPROM_TABLE_RECORD_SIZE :: u32 in
      if version = EEPROM_TABLE_VER_V2_1 \<or> version = EEPROM_TABLE_VER_V3 \<or> version = EEPROM_TABLE_VER_V4
      then (if tsize < hs + es then (AMDGV_FAILURE, ad)
        else (0, update_control (\<lambda>c. c\<lparr>num_recs := (tsize - hs - es) div rs, next_addr := EEPROM_RECORD_START_V2_1,
          max_record_num := (of_nat EEPROM_SIZE_BYTES - hs - es) div rs,
          tbl_byte_sum := calc_hdr_byte_sum (tbl_hdr c) + calc_extra_info_byte_sum (tbl_egi_v2_1 c)\<rparr>) ad))
      else if version = EEPROM_TABLE_VER_V2 \<or> version = EEPROM_TABLE_VER_V1
      then (if tsize < hs then (AMDGV_FAILURE, ad)
        else (0, update_control (\<lambda>c. c\<lparr>num_recs := (tsize - hs) div rs, next_addr := hs,
          max_record_num := (of_nat EEPROM_SIZE_BYTES - hs) div rs, tbl_byte_sum := calc_hdr_byte_sum (tbl_hdr c)\<rparr>) ad))
      else (AMDGV_FAILURE, ad))"

definition ras_eeprom_v2_1_reset_read_control :: "eeprom_adapter \<Rightarrow> eeprom_adapter" where
  "ras_eeprom_v2_1_reset_read_control = update_control (\<lambda>c. c\<lparr>next_addr := EEPROM_RECORD_START_V2_1,
     tbl_byte_sum := ras_eeprom_v2_1_calc_tbl_byte_sum [] c\<rparr>)"

definition ras_eeprom_v2_1_reset_write_control :: "eeprom_adapter \<Rightarrow> eeprom_adapter" where
  "ras_eeprom_v2_1_reset_write_control ad = ras_eeprom_v2_1_reset_read_control (update_control (\<lambda>c. c\<lparr>num_recs := 0,
     tbl_hdr := (tbl_hdr c)\<lparr>tbl_size := of_nat (EEPROM_TABLE_HEADER_SIZE + EEPROM_TABLE_TOTAL_EXTRA_INFO_SIZE)\<rparr>\<rparr>) ad)"

definition ras_eeprom_v2_1_need_fix_threshold :: "u32 \<Rightarrow> eeprom_adapter \<Rightarrow> bool" where
  "ras_eeprom_v2_1_need_fix_threshold n ad =
     (let status = ras_eeprom_v2_1_get_gpu_healthy_status ad; threshold = eeprom_BAD_PAGE_RECORD_THRESHOLD ad in
      if status \<noteq> GPU_HEALTHY_USABLE \<and> status \<noteq> GPU_RETIRED__ECC_REACH_THRESHOLD then False
      else (if amdgv_ras_eeprom_is_gpu_bad ad then n < threshold else \<not> n < threshold) \<or>
        ucast (ecc_page_threshold (tbl_egi_v2_1 (control ad))) \<noteq> threshold)"

definition write_header_and_ext :: "eeprom_adapter \<Rightarrow> eeprom_adapter" where
  "write_header_and_ext ad = (let (_, ad) = ras_eeprom_v2_1_write_table_header ad;
     (_, ad) = ras_eeprom_v2_1_write_table_header_ext True ad in ad)"

definition ras_eeprom_v2_1_fix_threshold :: "eeprom_table_record list \<Rightarrow> eeprom_adapter \<Rightarrow> eeprom_adapter" where
  "ras_eeprom_v2_1_fix_threshold cache ad =
     (let old_hdr = calc_hdr_byte_sum (tbl_hdr (control ad)); old_extra = calc_extra_info_byte_sum (tbl_egi_v2_1 (control ad));
        ad = ras_eeprom_v2_1_reset_read_control ad;
        threshold = ucast (eeprom_BAD_PAGE_RECORD_THRESHOLD ad) :: u16;
        ad = update_control (\<lambda>c. c\<lparr>tbl_egi_v2_1 := (tbl_egi_v2_1 c)\<lparr>ecc_page_threshold := threshold\<rparr>\<rparr>) ad;
        ad = (if unat threshold \<le> length cache
          then ras_eeprom_v2_1_mark_gpu_healthy_status GPU_RETIRED__ECC_REACH_THRESHOLD
            (mark_gpu_bad (ad\<lparr>bp_msg_type := AMDGV_BP_MSG_RECORD_THRESHOLD_REACHED\<rparr>))
          else ras_eeprom_v2_1_calc_gpu_healthy (update_control (\<lambda>c. c\<lparr>tbl_hdr := (tbl_hdr c)\<lparr>hdr_header := EEPROM_TABLE_HDR_VAL\<rparr>\<rparr>)
            (ad\<lparr>bp_msg_type := AMDGV_BP_MSG_INVALID\<rparr>)));
        ad = write_header_and_ext (ras_eeprom_v2_1_update_tbl_checksum cache old_hdr old_extra ad) in
      ras_eeprom_v2_1_reset_read_control ad)"

text \<open>The inner loop of \<^verbatim>\<open>ras_eeprom_v2_1_remove_dups\<close> removes the later records of the page of \<open>r\<close>.\<close>

fun drop_page :: "eeprom_table_record \<Rightarrow> eeprom_table_record list \<Rightarrow> eeprom_table_record list" where
  "drop_page r [] = []"
| "drop_page r (b # bs) = (if rec_retired_page r = rec_retired_page b then drop_page r bs else b # drop_page r bs)"

lemma length_drop_page: "length (drop_page r bs) \<le> length bs"
  by (induction bs) auto

function ras_eeprom_v2_1_remove_dups :: "eeprom_table_record list \<Rightarrow> eeprom_table_record list" where
  "ras_eeprom_v2_1_remove_dups [] = []"
| "ras_eeprom_v2_1_remove_dups (b # bs) = b # ras_eeprom_v2_1_remove_dups (drop_page b bs)"
  by pat_completeness auto
termination by (relation "measure length") (auto simp: length_drop_page less_Suc_eq_le)

definition ras_eeprom_v2_1_overwrite_table :: "eeprom_table_record list \<Rightarrow> eeprom_adapter \<Rightarrow> int \<times> eeprom_adapter" where
  "ras_eeprom_v2_1_overwrite_table cache ad =
     (let (ret, _, ad) = ras_eeprom_v2_1_process_records True cache (ras_eeprom_v2_1_reset_write_control ad) in
      if ret \<noteq> 0 then (AMDGV_FAILURE, ad) else (0, ras_eeprom_v2_1_reset_read_control ad))"

definition ras_eeprom_v2_1_fix_header_ext :: "eeprom_table_record list \<Rightarrow> eeprom_adapter \<Rightarrow> eeprom_adapter" where
  "ras_eeprom_v2_1_fix_header_ext cache ad =
     (let ad = ras_eeprom_v2_1_reset_read_control ad;
        ad = ras_eeprom_v2_1_update_tbl_checksum cache (calc_hdr_byte_sum (tbl_hdr (control ad)))
          (calc_extra_info_byte_sum (tbl_egi_v2_1 (control ad))) ad in
      ras_eeprom_v2_1_reset_read_control (write_header_and_ext ad))"

definition ras_eeprom_v2_1_fix_overwrite_table :: "eeprom_table_record list \<Rightarrow> bool \<Rightarrow> eeprom_adapter \<Rightarrow> eeprom_adapter" where
  "ras_eeprom_v2_1_fix_overwrite_table cache force_write ad =
     (let cache = ras_eeprom_v2_1_remove_dups cache; new_count = of_nat (length cache) :: u32;
        overwrite = (force_write \<or> new_count \<noteq> num_recs (control ad));
        fix_threshold = ras_eeprom_v2_1_need_fix_threshold new_count ad;
        ad = ras_eeprom_v2_1_fix_header_ext cache ad;
        ad = (if overwrite then snd (ras_eeprom_v2_1_overwrite_table cache ad) else ad) in
      if fix_threshold then ras_eeprom_v2_1_fix_threshold cache ad else ad)"

definition ras_eeprom_v2_1_cache_and_validate_recs :: "eeprom_table_record list \<Rightarrow> eeprom_adapter \<Rightarrow>
    bool \<times> eeprom_table_record list \<times> eeprom_adapter" where
  "ras_eeprom_v2_1_cache_and_validate_recs cache ad =
     (let (ret, cache, ad) = ras_eeprom_v2_1_process_records False cache ad in
      (ret = 0 \<and> validate_tbl_checksum (control ad), cache, ras_eeprom_v2_1_reset_read_control ad))"

definition ras_eeprom_v2_1_cache_and_validate_legacy_recs :: "eeprom_table_record list \<Rightarrow> eeprom_adapter \<Rightarrow>
    bool \<times> eeprom_table_record list \<times> eeprom_adapter" where
  "ras_eeprom_v2_1_cache_and_validate_legacy_recs cache ad =
     (let (ret, cache, ad) = ras_eeprom_legacy_read_records cache ad in
      (ret = 0 \<and> validate_tbl_checksum (control ad), cache, ras_eeprom_v2_1_reset_read_control ad))"

definition zero_record :: eeprom_table_record where
  "zero_record = \<lparr>rec_offset = 0, rec_retired_page = 0, rec_ts = 0, rec_err_type = 0, rec_bank = 0, rec_mem_channel = 0, rec_mcumc_id = 0\<rparr>"

definition ras_eeprom_v2_1_fix_and_upgrade_table :: "eeprom_adapter \<Rightarrow> int \<times> eeprom_adapter" where
  "ras_eeprom_v2_1_fix_and_upgrade_table ad =
     (if bit (bad_page_detection_mode ad) AMDGV_RAS_ECC_FLAG_SKIP_BAD_PAGE_OPS then (0, ad)
      else (let n = unat (num_recs (control ad)); (ok, ad) = (if n \<noteq> 0 then oss_zalloc ad else (True, ad)) in
        if \<not> ok then (AMDGV_FAILURE, ad)
        else (let (valid, cache, ad) = ras_eeprom_v2_1_cache_and_validate_recs (replicate n zero_record) ad;
            (legacy, cache, ad) = (if valid then (False, cache, ad)
              else ras_eeprom_v2_1_cache_and_validate_legacy_recs cache ad) in
          if \<not> valid \<and> \<not> legacy then (AMDGV_FAILURE, ad)
          else (0, ras_eeprom_v2_1_reset_read_control (ras_eeprom_v2_1_fix_overwrite_table cache (\<not> valid) ad)))))"

definition ras_eeprom_v2_1_parse_table_hdr_extra_info :: "eeprom_adapter \<Rightarrow> int \<times> eeprom_adapter" where
  "ras_eeprom_v2_1_parse_table_hdr_extra_info ad = (let (ok, ad) = oss_zalloc ad in
     if \<not> ok then (AMDGV_FAILURE, ad)
     else (let (ret, bs, ad) = ras_eeprom_v2_1_get_eeprom_data (of_nat EEPROM_TABLE_HEADER_SIZE) EEPROM_TABLE_TOTAL_EXTRA_INFO_SIZE ad in
       if ret < 1 then (ret, ad)
       else (ret, update_control (\<lambda>c. c\<lparr>tbl_egi_v2_1 := decode_extra_info_from_buff bs (tbl_egi_v2_1 c)\<rparr>) ad)))"

definition ras_eeprom_v2_1_parse_header :: "eeprom_adapter \<Rightarrow> int \<times> eeprom_adapter" where
  "ras_eeprom_v2_1_parse_header ad =
     (if \<not> supports_ras_eeprom ad then (0, ad)
      else (let (ret, bs, ad) = ras_eeprom_v2_1_get_eeprom_data 0 EEPROM_TABLE_HEADER_SIZE ad in
        if ret < 1 then (AMDGV_FAILURE, ad)
        else (let hdr = decode_table_header_from_buff bs; ad = update_control (\<lambda>c. c\<lparr>tbl_hdr := hdr\<rparr>) ad in
          if hdr_header hdr \<noteq> EEPROM_TABLE_HDR_VAL \<and> hdr_header hdr \<noteq> EEPROM_TABLE_HDR_BAD then (AMDGV_FAILURE, ad)
          else if hdr_version hdr \<noteq> EEPROM_TABLE_VER_V2_1 \<and> hdr_version hdr \<noteq> EEPROM_TABLE_VER_V2 \<and>
              hdr_version hdr \<noteq> EEPROM_TABLE_VER_V3 \<and> hdr_version hdr \<noteq> EEPROM_TABLE_VER_V4 then (AMDGV_FAILURE, ad)
          else (let (ret, ad) = ras_eeprom_v2_1_parse_table_hdr_extra_info ad in
            (if ret < 1 then AMDGV_FAILURE else 0, ad)))))"

text \<open>The device address comes from the VBIOS, or is the default of the chip. The check of \<^verbatim>\<open>__get_eeprom_i2c_params\<close> that the
  chip has this function holds for MI300.\<close>

definition umc_v12_0_get_eeprom_i2c_params :: "eeprom_adapter \<Rightarrow> eeprom_adapter" where
  "umc_v12_0_get_eeprom_i2c_params ad = update_control (\<lambda>c. c\<lparr>i2c_address := ucast (rom_i2c_address ad)\<rparr>) ad"

definition ras_eeprom_v2_1_init :: "eeprom_adapter \<Rightarrow> int \<times> eeprom_adapter" where
  "ras_eeprom_v2_1_init ad =
     (let (ret, ad) = ras_eeprom_v2_1_parse_header (umc_v12_0_get_eeprom_i2c_params ad) in
      if ret \<noteq> 0 then ras_eeprom_v2_1_reset_table ad
      else if in_whole_gpu_reset ad then (0, ad)
      else (let (ret, ad) = ras_eeprom_v2_1_init_sw_control ad in
        if ret \<noteq> 0 then (ret, ad)
        else if max_record_num (control ad) < num_recs (control ad) then ras_eeprom_v2_1_reset_table ad
        else (let (ret, ad) = ras_eeprom_v2_1_fix_and_upgrade_table ad in
          if ret \<noteq> 0 then ras_eeprom_v2_1_reset_table ad else (ret, ad))))"

section \<open>Live update and new bad pages\<close>

text \<open>The exported bytes, into the buffer \<open>data\<close>: the header, four bytes of extra information, and the records.\<close>

definition put_bytes :: "nat \<Rightarrow> u8 list \<Rightarrow> u8 list \<Rightarrow> u8 list" where
  "put_bytes a bs data = take a data @ bs @ drop (a + length bs) data"

fun export_records :: "nat \<Rightarrow> eeprom_table_record list \<Rightarrow> u8 list \<Rightarrow> u8 list" where
  "export_records a [] data = data"
| "export_records a (r # rs) data = export_records (a + EEPROM_TABLE_RECORD_SIZE) rs (put_bytes a (encode_table_record_to_buff r) data)"

definition ras_eeprom_v2_1_export_live_data :: "eeprom_table_record list \<Rightarrow> u8 list \<Rightarrow> eeprom_adapter \<Rightarrow> nat \<times> u8 list" where
  "ras_eeprom_v2_1_export_live_data bps data ad =
     (EEPROM_TABLE_HEADER_SIZE + EEPROM_TABLE_TOTAL_EXTRA_INFO_SIZE + EEPROM_TABLE_RECORD_SIZE * length bps,
      export_records 276 bps (put_bytes 20 (encode_extra_info_to_buff (tbl_egi_v2_1 (control ad)))
        (put_bytes 0 (encode_table_header_to_buff (tbl_hdr (control ad))) data)))"

text \<open>The records in memory, and how many of them are known to be in the EEPROM.\<close>

record eeprom_data_record =
  bps :: "eeprom_table_record list"
  num_recs_synced :: nat

record umc_adapter =
  umc_eeprom :: eeprom_adapter
  is_pmfw_managed_eeprom :: bool
  reports_channel_flag :: bool \<comment> \<open>whether \<open>send_hbm_bad_channel_flag\<close> exists\<close>
  eh_data :: "eeprom_data_record option"

definition amdgv_umc_save_bad_pages :: "umc_adapter \<Rightarrow> int \<times> umc_adapter" where
  "amdgv_umc_save_bad_pages u =
     (if bit (bad_page_detection_mode (umc_eeprom u)) AMDGV_RAS_ECC_FLAG_SKIP_BAD_PAGE_OPS \<or> is_pmfw_managed_eeprom u then (0, u)
      else case eh_data u of None \<Rightarrow> (0, u)
      | Some data \<Rightarrow>
          (let new = drop (num_recs_synced data) (bps data); (ret, _, ad) = ras_eeprom_v2_1_process_records True new (umc_eeprom u);
             u = u\<lparr>umc_eeprom := ad\<rparr> in
           if ret \<noteq> 0 then (AMDGV_FAILURE, u)
           else if new = [] then (0, u)
           else (0, u\<lparr>eh_data := Some (data\<lparr>num_recs_synced := length (bps data)\<rparr>),
             umc_eeprom := (if reports_channel_flag u then ad\<lparr>update_channel_flag := False\<rparr> else ad)\<rparr>)))"

end
