(* ===== verification/GV_Eeprom_Format.thy ===== *)
theory GV_Eeprom_Format
  imports GV_Eeprom_Table
begin

text \<open>
  The byte formats of the bad-page table read back, the byte sums of the current and of the legacy format agree, and the
  calendar of the time stamps is right.
\<close>

section \<open>Codes of fixed width\<close>

text \<open>A code of fixed width: what is decoded from the encoded bytes, whatever follows them.\<close>

locale fixed_width =
  fixes enc :: "'a \<Rightarrow> u8 list"
    and dec :: "u8 list \<Rightarrow> 'b"
    and canon :: "'a \<Rightarrow> 'b"
    and width :: nat
  assumes length_enc: "length (enc x) = width"
    and dec_enc: "dec (enc x @ rest) = canon x"
begin

lemma dec_exact: "dec (enc x) = canon x"
  using dec_enc [of x "[]"] by simp

lemma length_concat: "length (concat (map enc xs)) = width * length xs"
  by (induction xs) (simp_all add: length_enc)

lemma nth_chunk: "i < length xs \<Longrightarrow> take width (drop (width * i) (concat (map enc xs))) = enc (xs ! i)"
proof (induction xs arbitrary: i)
  case (Cons x xs)
  then show ?case by (cases i) (simp_all add: length_enc)
qed simp

lemma dec_nth: "i < length xs \<Longrightarrow> dec (drop (width * i) (concat (map enc xs) @ rest)) = canon (xs ! i)"
proof (induction xs arbitrary: i)
  case (Cons x xs)
  then show ?case by (cases i) (simp_all add: length_enc dec_enc)
qed simp

end

interpretation header_code: fixed_width encode_table_header_to_buff decode_table_header_from_buff "\<lambda>hdr. hdr" EEPROM_TABLE_HEADER_SIZE
proof
  show "decode_table_header_from_buff (encode_table_header_to_buff hdr @ rest) = hdr" for hdr rest
    by (cases hdr) (simp add: encode_table_header_to_buff_def decode_table_header_from_buff_def from_le_to_le take_bit_word_eq_self)
qed (simp add: encode_table_header_to_buff_def)

text \<open>The record as it is stored: 48 bits of the two addresses, a byte of the error type.\<close>

definition stored_record :: "eeprom_table_record \<Rightarrow> eeprom_table_record" where
  "stored_record r = r\<lparr>rec_offset := rec_offset r AND 0xffffffffffff, rec_retired_page := rec_retired_page r AND 0xffffffffffff,
     rec_err_type := rec_err_type r AND 0xff\<rparr>"

lemma mask48: "(0xffffffffffff :: u64) = mask 48"
  by (simp add: mask_eq_exp_minus_1)

lemma six_bytes: "from_le (to_le 6 (w AND 0xffffffffffff) @ bs) AND 0xffffffffffff = w AND (0xffffffffffff :: u64)"
  unfolding from_le_append from_le_to_le mask48
  by (rule bit_word_eqI) (auto simp: bit_or_iff bit_and_iff bit_push_bit_iff bit_take_bit_iff bit_mask_iff)

lemma mask8: "(0xff :: u32) = mask 8"
  by (simp add: mask_eq_exp_minus_1)

lemma low_byte: "ucast (ucast (w :: u32) :: u8) = w AND (0xff :: u32)"
  unfolding mask8 by (auto intro!: bit_word_eqI simp: bit_ucast_iff bit_and_iff bit_mask_iff)

lemma take_enc: "n = length xs + m \<Longrightarrow> take n (xs @ ys) = xs @ take m ys"
  by simp

lemma drop_enc: "n = length xs + m \<Longrightarrow> drop n (xs @ ys) = drop m ys"
  by simp

interpretation record_code: fixed_width encode_table_record_to_buff decode_table_record_from_buff stored_record EEPROM_TABLE_RECORD_SIZE
proof
  show "decode_table_record_from_buff (encode_table_record_to_buff r @ rest) = stored_record r" for r rest
  proof -
    let ?e = "encode_table_record_to_buff r @ rest"
    have e: "?e = [ucast (rec_err_type r), rec_bank r] @ to_le 8 (rec_ts r) @ to_le 6 (rec_offset r AND 0xffffffffffff) @
      [rec_mem_channel r, rec_mcumc_id r] @ to_le 6 (rec_retired_page r AND 0xffffffffffff) @ rest"
      by (simp add: encode_table_record_to_buff_def)
    have "?e ! 0 = ucast (rec_err_type r)" "?e ! 1 = rec_bank r" "?e ! 16 = rec_mem_channel r" "?e ! 17 = rec_mcumc_id r"
      "take 8 (drop 2 ?e) = to_le 8 (rec_ts r)" "take 6 (drop 10 ?e) = to_le 6 (rec_offset r AND 0xffffffffffff)"
      "take 6 (drop 18 ?e) = to_le 6 (rec_retired_page r AND 0xffffffffffff)"
      unfolding e by (simp_all add: nth_append)
    then show ?thesis
      by (simp add: decode_table_record_from_buff_def Let_def stored_record_def six_bytes from_le_to_le take_bit_word_eq_self
          low_byte)
  qed
qed (simp add: encode_table_record_to_buff_def)

lemma stored_record_idem [simp]: "stored_record (stored_record r) = stored_record r"
  by (simp add: stored_record_def and.assoc)

lemma encode_stored_record [simp]: "encode_table_record_to_buff (stored_record r) = encode_table_record_to_buff r"
proof -
  have "ucast (w AND 0xff) = (ucast w :: u8)" for w :: u32
    unfolding mask8 by (auto intro!: bit_word_eqI simp: bit_ucast_iff bit_and_iff bit_mask_iff)
  then show ?thesis by (simp add: encode_table_record_to_buff_def stored_record_def and.assoc)
qed

text \<open>The four bytes of extra information are the first of the structure in memory.\<close>

lemma to_le_extra: "to_le 4 (extra_info_word egi) = [rma_status egi, gpu_healthy egi] @ to_le 2 (ecc_page_threshold egi)"
proof (rule nth_equalityI)
  have m: "(0xFF :: u32) = mask 8" "(0xFF00 :: u32) = push_bit 8 (mask 8)" "(0xFFFF0000 :: u32) = push_bit 16 (mask 16)"
    by (simp_all add: mask_eq_exp_minus_1)
  fix i assume "i < length (to_le 4 (extra_info_word egi))"
  then consider "i = 0" | "i = 1" | "i = 2" | "i = 3" by force
  then show "to_le 4 (extra_info_word egi) ! i = ([rma_status egi, gpu_healthy egi] @ to_le 2 (ecc_page_threshold egi)) ! i"
    by cases (rule bit_word_eqI; auto simp: bit_to_le nth_append nth_Cons' extra_info_word_def m bit_or_iff bit_and_iff bit_push_bit_iff bit_mask_iff bit_ucast_iff dest: bit_imp_le_length)+
qed simp

lemma extra_info_bytes_encode: "extra_info_bytes egi = encode_extra_info_to_buff egi @ egi_padding egi"
  by (simp add: extra_info_bytes_def encode_extra_info_to_buff_def to_le_extra)

lemma decode_encode_extra: "decode_extra_info_from_buff (encode_extra_info_to_buff egi @ rest) egi' =
    egi'\<lparr>rma_status := rma_status egi, gpu_healthy := gpu_healthy egi, ecc_page_threshold := ecc_page_threshold egi\<rparr>"
proof -
  have "from_le (take 4 (encode_extra_info_to_buff egi @ rest)) = extra_info_word egi"
    by (simp add: encode_extra_info_to_buff_def from_le_to_le take_bit_word_eq_self)
  moreover have m: "(0xFF :: u32) = mask 8" "(0xFF00 :: u32) = push_bit 8 (mask 8)" "(0xFFFF0000 :: u32) = push_bit 16 (mask 16)" "(0xFFFF :: u32) = mask 16"
    by (simp_all add: mask_eq_exp_minus_1)
  have "ucast (extra_info_word egi AND 0xFF) = rma_status egi" "ucast (drop_bit 8 (extra_info_word egi) AND 0xFF) = gpu_healthy egi"
    "ucast (drop_bit 16 (extra_info_word egi) AND 0xFFFF) = ecc_page_threshold egi"
    by (rule bit_word_eqI; auto simp: extra_info_word_def m bit_or_iff bit_and_iff bit_push_bit_iff bit_drop_bit_eq bit_mask_iff bit_ucast_iff dest: bit_imp_le_length)+
  ultimately show ?thesis by (simp add: decode_extra_info_from_buff_def Let_def)
qed

lemma length_encode_extra [simp]: "length (encode_extra_info_to_buff egi) = 4"
  by (simp add: encode_extra_info_to_buff_def)

section \<open>Byte sums\<close>

lemma byte_sum_append [simp]: "byte_sum (xs @ ys) = byte_sum xs + byte_sum ys"
  by (simp add: byte_sum_def)

lemma byte_sum_zeros [simp]: "byte_sum (replicate n 0) = 0"
  by (induction n) (simp_all add: byte_sum_def)

lemma recs_sum_append [simp]: "ras_eeprom_v2_1_calc_recs_byte_sum (xs @ ys) =
    ras_eeprom_v2_1_calc_recs_byte_sum xs + ras_eeprom_v2_1_calc_recs_byte_sum ys"
  by (simp add: ras_eeprom_v2_1_calc_recs_byte_sum_def)

lemma recs_sum_Nil [simp]: "ras_eeprom_v2_1_calc_recs_byte_sum [] = 0"
  by (simp add: ras_eeprom_v2_1_calc_recs_byte_sum_def)

lemma recs_sum_stored [simp]: "ras_eeprom_v2_1_calc_recs_byte_sum (map stored_record rs) = ras_eeprom_v2_1_calc_recs_byte_sum rs"
  by (simp add: ras_eeprom_v2_1_calc_recs_byte_sum_def o_def)

lemma hdr_sum_checksum [simp]: "calc_hdr_byte_sum (hdr\<lparr>hdr_checksum := x\<rparr>) = calc_hdr_byte_sum hdr"
  by (simp add: calc_hdr_byte_sum_def encode_table_header_to_buff_def)

text \<open>Records that have come from the EEPROM have the same sum in memory as encoded: the two formats differ in the layout only.\<close>

lemma byte_sum_to_le_Suc: "byte_sum (to_le (Suc n) w) = ucast (ucast w :: u8) + byte_sum (to_le n (drop_bit 8 w))"
  by (simp add: byte_sum_def)

lemma byte_sum_to_le_add: "byte_sum (to_le (m + n) w) = byte_sum (to_le m w) + byte_sum (to_le n (drop_bit (8 * m) w))"
  by (induction m arbitrary: w) (simp_all add: byte_sum_def add.assoc drop_bit_drop_bit algebra_simps)

lemma to_le_zero: "to_le n 0 = replicate n 0"
  by (induction n) simp_all

lemma legacy_sum_stored: "byte_sum (record_bytes (stored_record r)) = byte_sum (encode_table_record_to_buff r)"
proof -
  have z: "drop_bit 48 (w AND 0xffffffffffff) = 0" for w :: u64
    unfolding mask48 by (auto intro!: bit_word_eqI simp: bit_drop_bit_eq bit_and_iff bit_mask_iff)
  have s: "byte_sum (to_le 8 (w AND 0xffffffffffff)) = byte_sum (to_le 6 (w AND 0xffffffffffff))" for w :: u64
    using byte_sum_to_le_add [of 6 2 "w AND 0xffffffffffff"] by (simp add: z to_le_zero)
  have m8: "(0xff :: u32) = mask 8" by (simp add: mask_eq_exp_minus_1)
  have z8: "drop_bit 8 (w AND 0xff) = 0" for w :: u32
    unfolding m8 by (auto intro!: bit_word_eqI simp: bit_drop_bit_eq bit_and_iff bit_mask_iff)
  have "byte_sum (to_le 4 (w AND 0xff)) = byte_sum (to_le 1 (w AND 0xff))" for w :: u32
    using byte_sum_to_le_add [of 1 3 "w AND 0xff"] by (simp only: mult_1_right z8 to_le_zero byte_sum_zeros) simp
  moreover have "byte_sum (to_le 1 (w AND 0xff)) = byte_sum [ucast w]" for w :: u32
  proof -
    have "ucast (w AND 0xff) = (ucast w :: u8)"
      unfolding m8 by (auto intro!: bit_word_eqI simp: bit_ucast_iff bit_and_iff bit_mask_iff)
    then show ?thesis by simp
  qed
  ultimately have e: "byte_sum (to_le 4 (w AND 0xff)) = byte_sum [ucast w]" for w :: u32 by simp
  have c: "byte_sum (x # xs) = byte_sum [x] + byte_sum xs" for x xs by (simp add: byte_sum_def)
  show ?thesis unfolding record_bytes_def encode_table_record_to_buff_def
    by (simp only: stored_record_def eeprom_table_record.simps byte_sum_append c [of _ "_ # _"]) (simp add: s e algebra_simps)
qed

lemma legacy_recs_sum_stored: "calc_recs_byte_sum (map stored_record rs) = ras_eeprom_v2_1_calc_recs_byte_sum rs"
  by (simp add: calc_recs_byte_sum_def ras_eeprom_v2_1_calc_recs_byte_sum_def legacy_sum_stored o_def)

section \<open>The calendar\<close>

text \<open>The Gregorian calendar on natural numbers: the length of a year and of a month, and the number of days since 1970-01-01.\<close>

definition leap :: "nat \<Rightarrow> bool" where
  "leap y \<longleftrightarrow> y mod 4 = 0 \<and> y mod 100 \<noteq> 0 \<or> y mod 400 = 0"

definition year_length :: "nat \<Rightarrow> nat" where
  "year_length y = (if leap y then 366 else 365)"

definition month_lengths :: "nat \<Rightarrow> nat list" where
  "month_lengths y = [31, if leap y then 29 else 28, 31, 30, 31, 30, 31, 31, 30, 31, 30, 31]"

definition day_number :: "nat \<Rightarrow> nat \<Rightarrow> nat \<Rightarrow> nat" where
  "day_number y m d = sum_list (map year_length [1970..<y]) + sum_list (take (m - 1) (month_lengths y)) + (d - 1)"

definition valid_date :: "nat \<Rightarrow> nat \<Rightarrow> nat \<Rightarrow> bool" where
  "valid_date y m d \<longleftrightarrow> 1970 \<le> y \<and> 1 \<le> m \<and> m \<le> 12 \<and> 1 \<le> d \<and> d \<le> month_lengths y ! (m - 1)"

lemma leap_word: "IS_LEAP_YEAR y \<longleftrightarrow> leap (unat y)"
  by (simp add: IS_LEAP_YEAR_def leap_def unat_mod_distrib flip: unat_eq_zero)

lemma month_days_unat: "map unat (month_days y) = month_lengths (unat y)"
  by (simp add: month_days_def month_lengths_def leap_word)

lemma length_month_lengths [simp]: "length (month_lengths y) = 12"
  by (simp add: month_lengths_def)

lemma sum_month_lengths: "sum_list (month_lengths y) = year_length y"
  by (simp add: month_lengths_def year_length_def)

lemma year_loop_ok:
  assumes "year_loop y days = (y', r)" "unat y + unat days < 2 ^ 64"
  shows "unat y \<le> unat y' \<and> unat r < year_length (unat y') \<and> unat y' \<le> unat y + unat days \<and>
    unat days = sum_list (map year_length [unat y..<unat y']) + unat r"
  using assms
proof (induction y days rule: year_loop.induct)
  case (1 y days)
  let ?d = "if IS_LEAP_YEAR y then 366 else 365 :: u32"
  have d: "unat ?d = year_length (unat y)" by (simp add: leap_word year_length_def)
  show ?case
  proof (cases "365 \<le> days \<and> \<not> days < ?d")
    case False
    then have "y' = y" "r = days" using "1.prems"(1) by (auto simp: year_loop.simps [of y days] Let_def split: if_splits)
    moreover have "unat days < year_length (unat y)"
      using False unfolding d [symmetric] by (auto simp: word_less_nat_alt word_le_nat_alt split: if_splits)
    ultimately show ?thesis by simp
  next
    case True
    have le: "year_length (unat y) \<le> unat days" using True d by (simp add: word_le_nat_alt not_less)
    have "0 < year_length (unat y)" by (simp add: year_length_def)
    then have "unat y + 1 < 2 ^ 64" using le "1.prems"(2) by linarith
    then have y1: "unat (y + 1) = unat y + 1" by (simp add: unat_word_ariths)
    have d1: "unat (days - ?d) = unat days - year_length (unat y)" using True d by (simp add: unat_sub not_less)
    have run: "year_loop (y + 1) (days - ?d) = (y', r)" using "1.prems"(1) True by (simp add: year_loop.simps [of y days] Let_def)
    have "unat (y + 1) + unat (days - ?d) < 2 ^ 64" unfolding y1 d1 using "1.prems"(2) le \<open>0 < year_length (unat y)\<close> by linarith
    with "1.IH" [OF _ refl _ run] True have ih: "unat y + 1 \<le> unat y'" "unat r < year_length (unat y')"
      "unat y' \<le> unat y + 1 + (unat days - year_length (unat y))"
      "unat days - year_length (unat y) = sum_list (map year_length [unat y + 1..<unat y']) + unat r"
      unfolding y1 d1 by blast+
    have "[unat y..<unat y'] = unat y # [unat y + 1..<unat y']" using ih(1) by (simp add: upt_conv_Cons)
    then have "sum_list (map year_length [unat y..<unat y']) = year_length (unat y) + sum_list (map year_length [unat y + 1..<unat y'])"
      by simp
    then show ?thesis using ih le \<open>0 < year_length (unat y)\<close> by linarith
  qed
qed

lemma month_loop_ok:
  assumes "month_loop m ms days = (m', r)" "unat days < sum_list (map unat ms)"
  shows "\<exists>k < length ms. m' = m + of_nat k \<and> unat r < unat (ms ! k) \<and> unat days = sum_list (take k (map unat ms)) + unat r"
  using assms
proof (induction m ms days rule: month_loop.induct)
  case (2 m x ms days)
  show ?case
  proof (cases "x \<le> days")
    case False
    then have "m' = m" "r = days" using "2.prems"(1) by simp_all
    moreover have "unat days < unat x" using False by (simp add: not_le word_less_nat_alt)
    ultimately show ?thesis by (intro exI [of _ 0]) simp
  next
    case True
    then have s: "unat (days - x) = unat days - unat x" "unat x \<le> unat days" by (simp_all add: unat_sub word_le_nat_alt)
    moreover have "unat (days - x) < sum_list (map unat ms)" unfolding s(1) using "2.prems"(2) s(2) by simp
    ultimately obtain k where "k < length ms" "m' = m + 1 + of_nat k" "unat r < unat (ms ! k)"
      "unat days - unat x = sum_list (take k (map unat ms)) + unat r"
      using "2.IH" [OF True] "2.prems" True by auto
    then show ?thesis using s by (intro exI [of _ "Suc k"]) (simp add: algebra_simps)
  qed
qed simp

lemma unat_widen: "unat (ucast (w :: u32) :: u64) = unat w"
proof -
  have "unat w < 2 ^ 32" using unsigned_less [of w] by simp
  then show ?thesis by (simp add: unsigned_ucast_eq take_bit_nat_eq_self_iff)
qed

lemma unat_narrow: "unat w < 2 ^ 32 \<Longrightarrow> unat (ucast (w :: u64) :: u32) = unat w"
  by (simp add: unsigned_ucast_eq take_bit_nat_eq_self_iff)

lemma datetime_ok:
  assumes "unat t div 86400 < 2 ^ 32"
  defines "dt \<equiv> amdgv_utc_to_datetime_components t"
  shows "valid_date (unat (dt_year dt)) (unat (dt_month dt)) (unat (dt_day dt)) \<and>
    unat (dt_hour dt) < 24 \<and> unat (dt_minute dt) < 60 \<and> unat (dt_second dt) < 60 \<and>
    unat t = ((day_number (unat (dt_year dt)) (unat (dt_month dt)) (unat (dt_day dt)) * 24 + unat (dt_hour dt)) * 60 +
      unat (dt_minute dt)) * 60 + unat (dt_second dt)"
proof -
  define days where "days = (ucast (t div 86400) :: u32)"
  define rest where "rest = (ucast (t mod 86400) :: u32)"
  have days: "unat days = unat t div 86400"
    using assms(1) unat_narrow [of "t div 86400"] by (simp add: days_def unat_div_distrib)
  have "unat t mod 86400 < 2 ^ 32" by (rule less_trans [of _ 86400]) simp_all
  then have rest: "unat rest = unat t mod 86400" using unat_narrow [of "t mod 86400"] by (simp add: rest_def unat_mod_distrib)
  obtain y r where y: "year_loop 1970 days = (y, r)" by fastforce
  have "unat days < 2 ^ 32" using unsigned_less [of days] by simp
  then have yo: "1970 \<le> unat y" "unat r < year_length (unat y)" "unat days = sum_list (map year_length [1970..<unat y]) + unat r"
    using year_loop_ok [OF y] by simp_all
  obtain m d where m: "month_loop 1 (month_days y) r = (m, d)" by fastforce
  have l12: "length (month_days y) = 12" by (simp add: month_days_def)
  have nth: "unat (month_days y ! k) = month_lengths (unat y) ! k" if "k < 12" for k
    using that by (simp add: l12 flip: month_days_unat)
  obtain k where k: "k < 12" "m = 1 + of_nat k" "unat d < month_lengths (unat y) ! k"
    "unat r = sum_list (take k (month_lengths (unat y))) + unat d"
    using month_loop_ok [OF m] yo(2) nth by (auto simp: month_days_unat sum_month_lengths l12)
  have mo: "unat m = k + 1" using k(1) by (simp add: k(2) unat_word_ariths unat_of_nat)
  have "month_lengths (unat y) ! k \<le> 31" using k(1) by (auto simp: month_lengths_def less_Suc_eq numeral_eq_Suc)
  then have dd: "unat d < 31" using k(3) by linarith
  then have da: "unat (ucast (d + 1) :: u64) = unat d + 1" unfolding unat_widen by (simp add: unat_word_ariths)
  have dt: "dt = \<lparr>dt_year = y, dt_month = m, dt_day = ucast (d + 1), dt_hour = ucast (rest div 3600),
      dt_minute = ucast ((rest mod 3600) div 60), dt_second = ucast (rest mod 60)\<rparr>"
    using y m by (simp add: dt_def amdgv_utc_to_datetime_components_def days_def rest_def Let_def)
  have rl: "unat rest < 86400" using rest by simp
  have h: "unat (dt_hour dt) = unat rest div 3600" "unat (dt_minute dt) = unat rest mod 3600 div 60" "unat (dt_second dt) = unat rest mod 60"
    by (simp_all add: dt unat_widen unat_div_distrib unat_mod_distrib)
  have f: "unat (dt_year dt) = unat y" "unat (dt_month dt) = k + 1" "unat (dt_day dt) = unat d + 1"
    by (simp_all add: dt mo da)
  have "valid_date (unat y) (k + 1) (unat d + 1)" using yo(1) k(1,3) by (simp add: valid_date_def)
  moreover have "unat rest div 3600 < 24" using rl by linarith
  moreover have "unat rest mod 3600 div 60 < 60" "unat rest mod 60 < 60" by simp_all
  moreover have "day_number (unat y) (k + 1) (unat d + 1) = unat days" using yo(3) k(4) by (simp add: day_number_def)
  moreover have "unat t = ((unat days * 24 + unat rest div 3600) * 60 + unat rest mod 3600 div 60) * 60 + unat rest mod 60"
  proof -
    have "unat rest mod 3600 mod 60 = unat rest mod 60" by (rule mod_mod_cancel) simp
    with div_mult_mod_eq [of "unat rest" 3600] div_mult_mod_eq [of "unat rest mod 3600" 60] have "unat rest = unat rest div 3600 * 3600 + (unat rest mod 3600 div 60) * 60 + unat rest mod 60" by linarith
    moreover have "unat t = unat days * 86400 + unat rest" unfolding days rest by simp
    ultimately show ?thesis by simp
  qed
  ultimately show ?thesis unfolding f h by simp
qed

text \<open>The packed time stamp: six fields that do not overlap, the year clamped to the 32 that it can hold.\<close>

definition stamp_year :: "nat \<Rightarrow> nat" where
  "stamp_year y = (if y \<le> 2000 then 0 else if 2031 \<le> y then 31 else y - 2000)"

lemma unat_shift_add:
  fixes a b :: u64
  assumes "unat a < 2 ^ k" "unat b < 2 ^ m" "k + m < 64"
  shows "unat (a + push_bit k b) = unat a + unat b * 2 ^ k"
proof -
  have "unat a + unat b * 2 ^ k < 2 ^ k + unat b * 2 ^ k" using assms(1) by simp
  also have "\<dots> = Suc (unat b) * 2 ^ k" by simp
  also have "\<dots> \<le> 2 ^ m * 2 ^ k" using assms(2) by (intro mult_right_mono) simp_all
  also have "\<dots> = 2 ^ (k + m)" by (simp add: power_add)
  also have "(2 :: nat) ^ (k + m) < 2 ^ 64" using assms(3) by (intro power_strict_increasing) simp_all
  finally have lt: "unat a + unat b * 2 ^ k < 2 ^ 64" .
  then have "unat (push_bit k b) = unat b * 2 ^ k"
    unfolding unsigned_push_bit_eq by (simp add: take_bit_nat_eq_self_iff push_bit_eq_mult)
  then show ?thesis using lt by (simp add: unat_word_ariths)
qed

lemma eeprom_format_ok:
  assumes "unat t div 86400 < 2 ^ 32"
  defines "dt \<equiv> amdgv_utc_to_datetime_components t" and "ts \<equiv> unat (amdgv_utc_to_eeprom_format t)"
  shows "ts = unat (dt_second dt) + unat (dt_minute dt) * 2 ^ 6 + unat (dt_hour dt) * 2 ^ 12 + unat (dt_day dt) * 2 ^ 17 +
    unat (dt_month dt) * 2 ^ 23 + stamp_year (unat (dt_year dt)) * 2 ^ 27 \<and> ts < 2 ^ 32"
proof -
  define y where "y = (let year = dt_year dt; year = (if year \<le> 2000 then 2000 else year); year = (if 2031 \<le> year then 2031 else year) in
    year - 2000)"
  have y: "unat y = stamp_year (unat (dt_year dt))"
    by (auto simp: y_def stamp_year_def Let_def word_le_nat_alt unat_sub)
  have yl: "stamp_year n < 2 ^ 5" for n by (auto simp: stamp_year_def)
  have d: "unat (dt_hour dt) < 24" "unat (dt_minute dt) < 60" "unat (dt_second dt) < 60" "unat (dt_month dt) \<le> 12"
    "unat (dt_day dt) \<le> month_lengths (unat (dt_year dt)) ! (unat (dt_month dt) - 1)" "1 \<le> unat (dt_month dt)"
    using datetime_ok [OF assms(1)] by (simp_all add: dt_def valid_date_def)
  have "month_lengths n ! k \<le> 31" if "k < 12" for n k using that by (auto simp: month_lengths_def less_Suc_eq numeral_eq_Suc)
  then have dl: "unat (dt_day dt) \<le> 31" using d(4,5,6) by (meson Suc_le_lessD diff_le_self le_trans less_le_trans diff_less zero_less_one)
  let ?a = "dt_second dt + push_bit 6 (dt_minute dt)"
  have a: "unat ?a = unat (dt_second dt) + unat (dt_minute dt) * 2 ^ 6"
    by (rule unat_shift_add [where m = 6]) (use d in simp_all)
  let ?b = "?a + push_bit 12 (dt_hour dt)"
  have b: "unat ?b = unat ?a + unat (dt_hour dt) * 2 ^ 12"
    by (rule unat_shift_add [where m = 5]) (use d a in simp_all)
  let ?c = "?b + push_bit 17 (dt_day dt)"
  have c: "unat ?c = unat ?b + unat (dt_day dt) * 2 ^ 17"
    by (rule unat_shift_add [where m = 6]) (use d a b dl in simp_all)
  let ?d = "?c + push_bit 23 (dt_month dt)"
  have e: "unat ?d = unat ?c + unat (dt_month dt) * 2 ^ 23"
    by (rule unat_shift_add [where m = 4]) (use d a b c dl in simp_all)
  let ?e = "?d + push_bit 27 y"
  have f: "unat ?e = unat ?d + unat y * 2 ^ 27"
    by (rule unat_shift_add [where m = 5]) (use d a b c e dl yl y in simp_all)
  have lt: "unat ?e < 2 ^ 32" using f e c b a d dl yl [of "unat (dt_year dt)"] unfolding y by simp
  have m: "(0xffffffff :: u64) = mask 32" by (simp add: mask_eq_exp_minus_1)
  have "amdgv_utc_to_eeprom_format t = ?e AND 0xffffffff"
    by (simp add: amdgv_utc_to_eeprom_format_def y_def dt_def Let_def)
  also have "\<dots> = ?e" unfolding m take_bit_eq_mask [symmetric] word_unat_eq_iff unsigned_take_bit_eq using lt by (rule take_bit_nat_eq_self)
  finally show ?thesis using lt f e c b a y unfolding ts_def by simp
qed

end
