(* ===== verification/GV_Eeprom_Io.thy ===== *)
theory GV_Eeprom_Io
  imports GV_Eeprom_Format
begin

text \<open>
  The transfers of the bad-page table: blocks of the device, chunked reads and writes, single records, and the loop over
  the records with the update of header and checksum.
\<close>

section \<open>The bus\<close>

text \<open>Blocks of the device memory.\<close>

definition get_block :: "nat \<Rightarrow> nat \<Rightarrow> (nat \<Rightarrow> u8) \<Rightarrow> u8 list" where
  "get_block a n m = map (\<lambda>k. m (a + k)) [0..<n]"

definition put_block :: "nat \<Rightarrow> u8 list \<Rightarrow> (nat \<Rightarrow> u8) \<Rightarrow> nat \<Rightarrow> u8" where
  "put_block a bs m = (\<lambda>i. if a \<le> i \<and> i < a + length bs then bs ! (i - a) else m i)"

lemma length_get_block [simp]: "length (get_block a n m) = n"
  by (simp add: get_block_def)

lemma get_block_0 [simp]: "get_block a 0 m = []"
  by (simp add: get_block_def)

lemma get_block_append: "get_block a (n + k) m = get_block a n m @ get_block (a + n) k m"
  by (rule nth_equalityI) (auto simp: get_block_def nth_append)

lemma get_put_same: "n = length bs \<Longrightarrow> get_block a n (put_block a bs m) = bs"
  by (rule nth_equalityI) (auto simp: get_block_def put_block_def)

lemma get_put_other: "a + n \<le> b \<or> b + length bs \<le> a \<Longrightarrow> get_block a n (put_block b bs m) = get_block a n m"
  by (auto simp: get_block_def put_block_def)

lemma put_block_Nil [simp]: "put_block a [] m = m"
  by (rule ext) (auto simp: put_block_def)

lemma put_block_append: "put_block (a + length xs) ys (put_block a xs m) = put_block a (xs @ ys) m"
  by (rule ext) (auto simp: put_block_def nth_append)

lemma take_get_block: "k \<le> n \<Longrightarrow> take k (get_block a n m) = get_block a k m"
  by (simp add: get_block_def take_map min_def)

lemma drop_get_block: "k \<le> n \<Longrightarrow> drop k (get_block a n m) = get_block (a + k) (n - k) m"
  by (rule nth_equalityI) (auto simp: get_block_def add.assoc)

lemma device_read_block: "a + n \<le> 65536 \<Longrightarrow> device_read addr a n m = get_block (device_base addr + a) n m"
  by (auto simp: device_read_def get_block_def add.assoc)

lemma device_write_block:
  assumes "a mod 256 + length bs \<le> 256"
  shows "device_write addr a bs m = put_block (device_base addr + a) bs m"
proof -
  have e: "device_base addr + a div 256 * 256 + (a + k) mod 256 = device_base addr + a + k" if "k < length bs" for k
  proof -
    have "(a + k) mod 256 = (a mod 256 + k) mod 256" by (simp add: mod_add_left_eq)
    then have "(a + k) mod 256 = a mod 256 + k" using that assms by simp
    then show ?thesis using div_mult_mod_eq [of a 256] by linarith
  qed
  have "foldl (\<lambda>m k. m(device_base addr + a div 256 * 256 + (a + k) mod 256 := bs ! k)) m [0..<n] =
      put_block (device_base addr + a) (take n bs) m" if "n \<le> length bs" for n
    using that
  proof (induction n)
    case (Suc n)
    then show ?case using e [of n] by (auto simp: put_block_def fun_eq_iff less_Suc_eq nth_append take_Suc_conv_app_nth min_def)
  qed simp
  from this [of "length bs"] show ?thesis by (simp add: device_write_def)
qed

lemma chunk_in_page: "a mod 256 + chunk_size a n \<le> 256"
proof -
  have "chunk_size a n \<le> 256 - a mod 256" by (simp add: chunk_size_def mi300_smu_pp_i2c_page_allowed_xfer_len_def)
  moreover have "a mod 256 < 256" by simp
  ultimately show ?thesis by linarith
qed

lemma chunk_le: "chunk_size a n \<le> n"
  by (simp add: chunk_size_def)

lemma m24m02_upd [simp]:
  "m24m02 (ad\<lparr>control := c\<rparr>) \<longleftrightarrow> m24m02 ad" "m24m02 (ad\<lparr>rom := m\<rparr>) \<longleftrightarrow> m24m02 ad"
  "m24m02 (ad\<lparr>transactions := t\<rparr>) \<longleftrightarrow> m24m02 ad" "m24m02 (ad\<lparr>allocations := k\<rparr>) \<longleftrightarrow> m24m02 ad"
  "m24m02 (ad\<lparr>update_channel_flag := f\<rparr>) \<longleftrightarrow> m24m02 ad" "m24m02 (ad\<lparr>rma_notified := q\<rparr>) \<longleftrightarrow> m24m02 ad"
  "m24m02 (ad\<lparr>bus_ok := g\<rparr>) \<longleftrightarrow> m24m02 ad"
  by (simp_all add: m24m02_def)

text \<open>What a sequence of transactions changes: the transaction counter, and the memory inside the block.\<close>

lemma read_chunks_ok:
  assumes "a + n \<le> 65536" "m24m02 ad"
  shows "\<exists>ok bs t. read_chunks addr a n ad = (ok, bs, ad\<lparr>transactions := t\<rparr>) \<and> transactions ad \<le> t \<and>
    (ok \<longrightarrow> bs = get_block (device_base addr + a) n (rom ad)) \<and> ((\<forall>k \<ge> transactions ad. bus_ok ad k) \<longrightarrow> ok)"
  using assms
proof (induction addr a n ad rule: read_chunks.induct)
  case (1 addr a n ad)
  show ?case
  proof (cases "n = 0")
    case True
    then show ?thesis by (intro exI [of _ True] exI [of _ "[]"] exI [of _ "transactions ad"]) (simp add: read_chunks.simps)
  next
    case False
    let ?k = "chunk_size a n" and ?ad = "ad\<lparr>transactions := Suc (transactions ad)\<rparr>"
    have k: "0 < ?k" "?k \<le> n" using False chunk_size_pos chunk_le by auto
    then have a: "a mod 65536 = a" using "1.prems" False by simp
    have r: "smu_read_data addr (a mod 65536) ?k ad = (bus_ok ad (transactions ad), get_block (device_base addr + a) ?k (rom ad), ?ad)"
      using "1.prems" k(2) by (simp add: smu_read_data_def m24m02_def a device_read_block)
    show ?thesis
    proof (cases "bus_ok ad (transactions ad)")
      case fail: False
      then have "read_chunks addr a n ad = (False, [], ?ad)" using False r by (simp add: read_chunks.simps [of addr a n] Let_def)
      then show ?thesis using fail by fastforce
    next
      case ok: True
      have "a + ?k + (n - ?k) \<le> 65536" "m24m02 ?ad" using "1.prems" k by simp_all
      from "1.IH" [OF False refl refl r [symmetric] refl _ this] ok obtain ok' bs t where
        ih: "read_chunks addr (a + ?k) (n - ?k) ?ad = (ok', bs, ?ad\<lparr>transactions := t\<rparr>)" "Suc (transactions ad) \<le> t"
          "ok' \<longrightarrow> bs = get_block (device_base addr + (a + ?k)) (n - ?k) (rom ad)"
          "(\<forall>i \<ge> Suc (transactions ad). bus_ok ad i) \<longrightarrow> ok'" by auto
      have "read_chunks addr a n ad = (ok', get_block (device_base addr + a) ?k (rom ad) @ bs, ad\<lparr>transactions := t\<rparr>)"
        using False r ok ih(1) by (simp add: read_chunks.simps [of addr a n] Let_def)
      moreover have "ok' \<longrightarrow> get_block (device_base addr + a) ?k (rom ad) @ bs = get_block (device_base addr + a) n (rom ad)"
        using ih(3) k get_block_append [of "device_base addr + a" ?k "n - ?k" "rom ad"] by (simp add: add.assoc)
      ultimately show ?thesis using ih(2,4) by (meson Suc_leD)
    qed
  qed
qed

lemma write_chunks_ok:
  assumes "a + length bs \<le> 65536" "m24m02 ad"
  shows "\<exists>ok m t. write_chunks addr a bs ad = (ok, ad\<lparr>transactions := t, rom := m\<rparr>) \<and> transactions ad \<le> t \<and>
    (\<forall>i. i < device_base addr + a \<or> device_base addr + a + length bs \<le> i \<longrightarrow> m i = rom ad i) \<and>
    (ok \<longrightarrow> m = put_block (device_base addr + a) bs (rom ad)) \<and> ((\<forall>k \<ge> transactions ad. bus_ok ad k) \<longrightarrow> ok)"
  using assms
proof (induction addr a bs ad rule: write_chunks.induct)
  case (1 addr a bs ad)
  show ?case
  proof (cases "bs = []")
    case True
    then show ?thesis by (intro exI [of _ True] exI [of _ "rom ad"] exI [of _ "transactions ad"]) (simp add: write_chunks.simps)
  next
    case False
    let ?k = "chunk_size a (length bs)" and ?ad = "ad\<lparr>transactions := Suc (transactions ad)\<rparr>"
    have k: "0 < ?k" "?k \<le> length bs" using False chunk_size_pos chunk_le by auto
    then have a: "a mod 65536 = a" using "1.prems" by simp
    have w: "device_write addr a (take ?k bs) (rom ad) = put_block (device_base addr + a) (take ?k bs) (rom ad)"
      by (rule device_write_block) (use chunk_in_page [of a "length bs"] k in simp)
    show ?thesis
    proof (cases "bus_ok ad (transactions ad)")
      case fail: False
      then have "write_chunks addr a bs ad = (False, ?ad)"
        using False by (simp add: write_chunks.simps [of addr a bs] Let_def smu_write_data_def)
      moreover have "?ad = ad\<lparr>transactions := Suc (transactions ad), rom := rom ad\<rparr>" by simp
      ultimately show ?thesis using fail by (metis le_refl less_imp_le lessI)
    next
      case ok: True
      let ?m = "put_block (device_base addr + a) (take ?k bs) (rom ad)" and ?ad' = "ad\<lparr>transactions := Suc (transactions ad), rom := put_block (device_base addr + a) (take ?k bs) (rom ad)\<rparr>"
      have r: "smu_write_data addr (a mod 65536) (take ?k bs) ad = (True, ?ad')"
        using ok w "1.prems"(2) by (simp add: smu_write_data_def m24m02_def a Let_def)
      have "a + ?k + length (drop ?k bs) \<le> 65536" "m24m02 ?ad'" using "1.prems" k by simp_all
      from "1.IH" [OF False refl refl r [symmetric] _ this] obtain ok' m t where
        ih: "write_chunks addr (a + ?k) (drop ?k bs) ?ad' = (ok', ?ad'\<lparr>transactions := t, rom := m\<rparr>)" "Suc (transactions ad) \<le> t"
          "\<forall>i. i < device_base addr + (a + ?k) \<or> device_base addr + (a + ?k) + (length bs - ?k) \<le> i \<longrightarrow> m i = ?m i"
          "ok' \<longrightarrow> m = put_block (device_base addr + (a + ?k)) (drop ?k bs) ?m"
          "(\<forall>i \<ge> Suc (transactions ad). bus_ok ad i) \<longrightarrow> ok'" by auto
      have "write_chunks addr a bs ad = (ok', ad\<lparr>transactions := t, rom := m\<rparr>)"
        using False r ih(1) by (simp add: write_chunks.simps [of addr a bs] Let_def)
      moreover have "ok' \<longrightarrow> m = put_block (device_base addr + a) bs (rom ad)"
      proof -
        have "length (take ?k bs) = ?k" using k by simp
        from put_block_append [of "device_base addr + a" "take ?k bs" "drop ?k bs" "rom ad", unfolded this]
        show ?thesis using ih(4) by (simp add: add.assoc)
      qed
      moreover have "m i = rom ad i" if "i < device_base addr + a \<or> device_base addr + a + length bs \<le> i" for i
      proof -
        have "m i = ?m i" using ih(3) that k by auto
        also have "?m i = rom ad i" using that k by (auto simp: put_block_def)
        finally show ?thesis .
      qed
      moreover have "(\<forall>i \<ge> transactions ad. bus_ok ad i) \<longrightarrow> ok'" using ih(5) by simp
      ultimately show ?thesis using ih(2)
        by (intro exI [of _ ok'] exI [of _ m] exI [of _ t] conjI allI) (assumption | simp)+
    qed
  qed
qed

section \<open>Transfers of the table\<close>

text \<open>The parts of the adapter that reading and writing records changes.\<close>

definition with_io :: "amdgv_ras_eeprom_control \<Rightarrow> (nat \<Rightarrow> u8) \<Rightarrow> nat \<Rightarrow> nat \<Rightarrow> bool \<Rightarrow> eeprom_adapter \<Rightarrow> eeprom_adapter" where
  "with_io c m t k f ad = ad\<lparr>control := c, rom := m, transactions := t, allocations := k, update_channel_flag := f\<rparr>"

lemma with_io_sel [simp]:
  "control (with_io c m t k f ad) = c" "rom (with_io c m t k f ad) = m" "transactions (with_io c m t k f ad) = t"
  "allocations (with_io c m t k f ad) = k" "update_channel_flag (with_io c m t k f ad) = f"
  "bus_ok (with_io c m t k f ad) = bus_ok ad" "mem_ok (with_io c m t k f ad) = mem_ok ad" "raw_data (with_io c m t k f ad) = raw_data ad"
  "dev_read (with_io c m t k f ad) = dev_read ad" "dev_write (with_io c m t k f ad) = dev_write ad"
  "uniras_rma (with_io c m t k f ad) = uniras_rma ad" "rom_i2c_address (with_io c m t k f ad) = rom_i2c_address ad"
  "supports_ras_eeprom (with_io c m t k f ad) = supports_ras_eeprom ad" "eeprom_version (with_io c m t k f ad) = eeprom_version ad"
  "bp_msg_type (with_io c m t k f ad) = bp_msg_type ad"
  "bad_page_record_threshold (with_io c m t k f ad) = bad_page_record_threshold ad"
  "bad_page_detection_mode (with_io c m t k f ad) = bad_page_detection_mode ad"
  "in_whole_gpu_reset (with_io c m t k f ad) = in_whole_gpu_reset ad" "use_pf (with_io c m t k f ad) = use_pf ad"
  by (simp_all add: with_io_def)

lemma with_io_upd [simp]:
  "(with_io c m t k f ad)\<lparr>control := c'\<rparr> = with_io c' m t k f ad" "(with_io c m t k f ad)\<lparr>rom := m'\<rparr> = with_io c m' t k f ad"
  "(with_io c m t k f ad)\<lparr>transactions := t'\<rparr> = with_io c m t' k f ad" "(with_io c m t k f ad)\<lparr>allocations := k'\<rparr> = with_io c m t k' f ad"
  "(with_io c m t k f ad)\<lparr>update_channel_flag := f'\<rparr> = with_io c m t k f' ad"
  "with_io c m t k f (with_io c' m' t' k' f' ad) = with_io c m t k f ad"
  by (simp_all add: with_io_def)

lemma as_with_io: "ad = with_io (control ad) (rom ad) (transactions ad) (allocations ad) (update_channel_flag ad) ad"
  by (simp add: with_io_def)

text \<open>From now on neither the bus nor the allocator fails, no live update is in progress, and the device is the documented one.\<close>

definition works :: "eeprom_adapter \<Rightarrow> bool" where
  "works ad \<longleftrightarrow> (\<forall>n \<ge> transactions ad. bus_ok ad n) \<and> (\<forall>n \<ge> allocations ad. mem_ok ad n) \<and> raw_data ad = None \<and>
     supports_ras_eeprom ad \<and> m24m02 ad"

lemma m24m02_with_io [simp]: "m24m02 (with_io c m t k f ad) \<longleftrightarrow> m24m02 ad"
  by (simp add: with_io_def)

lemma works_with_io: "works ad \<Longrightarrow> transactions ad \<le> t \<Longrightarrow> allocations ad \<le> k \<Longrightarrow> works (with_io c m t k f ad)"
  by (simp add: works_def)

definition bank :: "eeprom_adapter \<Rightarrow> nat" where
  "bank ad = device_base (i2c_address (control ad))"

text \<open>Within the first 64 KB the table is in the bank of the device that its own address selects.\<close>

lemma device_base_low:
  assumes "unat (a :: u32) < 65536"
  shows "device_base (i OR ucast (drop_bit 15 (a AND EEPROM_ADDR_MSB_MASK))) = device_base i"
proof -
  have "take_bit 16 a = a" unfolding word_unat_eq_iff unsigned_take_bit_eq by (rule take_bit_nat_eq_self) (use assms in simp)
  then have b: "\<not> bit a n" if "16 \<le> n" for n using that by (metis bit_take_bit_iff linorder_not_less)
  define w where "w = (ucast (drop_bit 15 (a AND EEPROM_ADDR_MSB_MASK)) :: u16)"
  have "\<not> bit w n" if "1 \<le> n" for n
    using b [of "15 + n"] that by (auto simp: w_def bit_ucast_iff bit_drop_bit_eq bit_and_iff)
  then have "drop_bit 1 (i OR w) = drop_bit 1 i"
    by (intro bit_word_eqI) (auto simp: bit_drop_bit_eq bit_or_iff)
  then have "unat (drop_bit 1 (i OR w)) = unat (drop_bit 1 i)" by simp
  then have "unat (i OR w) div 2 = unat i div 2" by (simp add: unsigned_drop_bit_eq drop_bit_eq_div unat_div_distrib)
  then show ?thesis by (simp add: device_base_def w_def)
qed

lemma eeprom_addr_low:
  assumes "unat (a :: u32) < 65536"
  shows "msg_eeprom_addr (ras_eeprom_v2_1_format_i2c_msg buff a w ad) = unat a"
proof -
  have m: "(0xff :: u32) = mask 8" by (rule mask8)
  have x: "unat (ucast (x AND 0xff) :: u8) = unat x mod 256" for x :: u32
    unfolding m take_bit_eq_mask [symmetric] by (simp add: unsigned_ucast_eq unsigned_take_bit_eq take_bit_eq_mod unat_mod_distrib)
  have "unat (drop_bit 8 a) = unat a div 256" by (simp add: unsigned_drop_bit_eq drop_bit_eq_div unat_div_distrib)
  then have "unat (ucast (drop_bit 8 a AND 0xff) :: u8) = unat a div 256" using assms unfolding x by simp
  then show ?thesis by (simp add: msg_eeprom_addr_def ras_eeprom_v2_1_format_i2c_msg_def x)
qed

lemma get_data_ok:
  assumes "works ad" "unat a + n \<le> 65536" "unat a < 65536"
  shows "\<exists>t. ras_eeprom_v2_1_get_eeprom_data a n ad =
      (1, get_block (bank ad + unat a) n (rom ad), ad\<lparr>transactions := t\<rparr>) \<and> transactions ad \<le> t"
proof -
  let ?m = "ras_eeprom_v2_1_format_i2c_msg (replicate (2 + n) 0) a False ad"
  have f: "msg_rd ?m" "length (msg_buf ?m) = 2 + n" "device_base (msg_addr ?m) = bank ad"
    using device_base_low [OF assms(3)] by (simp_all add: ras_eeprom_v2_1_format_i2c_msg_def bank_def)
  obtain ok bs t where r: "read_chunks (msg_addr ?m) (unat a) n ad = (ok, bs, ad\<lparr>transactions := t\<rparr>)" "transactions ad \<le> t"
    "ok \<longrightarrow> bs = get_block (bank ad + unat a) n (rom ad)" "(\<forall>k \<ge> transactions ad. bus_ok ad k) \<longrightarrow> ok"
    using read_chunks_ok [OF assms(2), of ad "msg_addr ?m"] f(3) assms(1) by (auto simp: works_def)
  have ok: ok using r(4) assms(1) by (simp add: works_def)
  have "raw_data ad = None" using assms(1) by (simp add: works_def)
  moreover have "length (take 2 (msg_buf ?m)) = 2" using f(2) by simp
  moreover have "mi300_smu_pp_i2c_eeprom_i2c_xfer ?m ad = (1, ?m\<lparr>msg_buf := take 2 (msg_buf ?m) @ bs\<rparr>, ad\<lparr>transactions := t\<rparr>)"
    using f r(1) ok by (simp add: mi300_smu_pp_i2c_eeprom_i2c_xfer_def eeprom_addr_low [OF assms(3)])
  ultimately show ?thesis using r(2,3) ok by (intro exI [of _ t]) (simp add: ras_eeprom_v2_1_get_eeprom_data_def)
qed

lemma write_data_any:
  assumes "unat a + length bs \<le> 65536" "unat a < 65536" "m24m02 ad"
  shows "\<exists>ok m t. write_eeprom_data bs a ad = (if ok then 1 else AMDGV_FAILURE, ad\<lparr>transactions := t, rom := m\<rparr>) \<and> transactions ad \<le> t \<and>
    (\<forall>i. i < bank ad + unat a \<or> bank ad + unat a + length bs \<le> i \<longrightarrow> m i = rom ad i) \<and>
    (ok \<longrightarrow> m = put_block (bank ad + unat a) bs (rom ad)) \<and> ((\<forall>k \<ge> transactions ad. bus_ok ad k) \<longrightarrow> ok)"
proof -
  let ?m = "ras_eeprom_v2_1_format_i2c_msg ([0, 0] @ bs) a True ad"
  have f: "\<not> msg_rd ?m" "drop 2 (msg_buf ?m) = bs" "device_base (msg_addr ?m) = bank ad"
    using device_base_low [OF assms(2)] by (simp_all add: ras_eeprom_v2_1_format_i2c_msg_def bank_def)
  obtain ok m t where r: "write_chunks (msg_addr ?m) (unat a) bs ad = (ok, ad\<lparr>transactions := t, rom := m\<rparr>)" "transactions ad \<le> t"
    "\<forall>i. i < bank ad + unat a \<or> bank ad + unat a + length bs \<le> i \<longrightarrow> m i = rom ad i"
    "ok \<longrightarrow> m = put_block (bank ad + unat a) bs (rom ad)" "(\<forall>k \<ge> transactions ad. bus_ok ad k) \<longrightarrow> ok"
    using write_chunks_ok [OF assms(1,3), of "msg_addr ?m"] unfolding f(3) by auto
  have "write_eeprom_data bs a ad = (if ok then 1 else AMDGV_FAILURE, ad\<lparr>transactions := t, rom := m\<rparr>)"
    using f r(1) by (simp add: write_eeprom_data_def mi300_smu_pp_i2c_eeprom_i2c_xfer_def eeprom_addr_low [OF assms(2)])
  then show ?thesis using r(2-5) by blast
qed

lemma write_data_ok:
  assumes "works ad" "unat a + length bs \<le> 65536" "unat a < 65536"
  shows "\<exists>t. write_eeprom_data bs a ad = (1, ad\<lparr>transactions := t, rom := put_block (bank ad + unat a) bs (rom ad)\<rparr>) \<and> transactions ad \<le> t"
proof -
  have "\<forall>k \<ge> transactions ad. bus_ok ad k" "m24m02 ad" using assms(1) by (simp_all add: works_def)
  then show ?thesis using write_data_any [OF assms(2,3), of ad] by auto
qed

lemma bitmap_with_io: "\<exists>b f. update_bad_channel_bitmap r ad = with_io ((control ad)\<lparr>bad_channel_bitmap := b\<rparr>) (rom ad) (transactions ad) (allocations ad) f ad"
proof (cases "rec_mem_channel r < 32 \<and> \<not> bit (bad_channel_bitmap (control ad)) (unat (rec_mem_channel r))")
  case True
  then show ?thesis by (auto simp: update_bad_channel_bitmap_def with_io_def)
next
  case False
  then have "update_bad_channel_bitmap r ad = with_io ((control ad)\<lparr>bad_channel_bitmap := bad_channel_bitmap (control ad)\<rparr>) (rom ad)
      (transactions ad) (allocations ad) (update_channel_flag ad) ad"
    unfolding update_bad_channel_bitmap_def if_not_P [OF False] using as_with_io [of ad] by simp
  then show ?thesis by blast
qed

definition record_moved :: "u32 \<Rightarrow> u32 \<Rightarrow> amdgv_ras_eeprom_control \<Rightarrow> amdgv_ras_eeprom_control" where
  "record_moved a b c = c\<lparr>next_addr := a, bad_channel_bitmap := b\<rparr>"

lemma record_moved_sel [simp]:
  "tbl_hdr (record_moved a b c) = tbl_hdr c" "tbl_egi_v2_1 (record_moved a b c) = tbl_egi_v2_1 c" "next_addr (record_moved a b c) = a"
  "num_recs (record_moved a b c) = num_recs c" "tbl_byte_sum (record_moved a b c) = tbl_byte_sum c" "i2c_address (record_moved a b c) = i2c_address c"
  "max_record_num (record_moved a b c) = max_record_num c" "record_moved a b (record_moved a' b' c) = record_moved a b c"
  by (simp_all add: record_moved_def)

lemma process_record_write:
  assumes "works ad" "unat (next_addr (control ad)) + 24 \<le> 65536"
  shows "\<exists>b t f. ras_eeprom_v2_1_process_record True r ad = (0, r, with_io (record_moved (next_addr (control ad) + 24) b (control ad))
      (put_block (bank ad + unat (next_addr (control ad))) (encode_table_record_to_buff r) (rom ad)) t (allocations ad) f ad) \<and>
    transactions ad \<le> t"
proof -
  let ?a = "next_addr (control ad)"
  obtain t where w: "write_eeprom_data (encode_table_record_to_buff r) ?a ad =
      (1, ad\<lparr>transactions := t, rom := put_block (bank ad + unat ?a) (encode_table_record_to_buff r) (rom ad)\<rparr>)" "transactions ad \<le> t"
    using write_data_ok [OF assms(1), of ?a "encode_table_record_to_buff r"] assms(2) by (auto simp: record_code.length_enc)
  let ?ad = "update_control (\<lambda>c. c\<lparr>next_addr := next_addr c + 24\<rparr>)
    (ad\<lparr>transactions := t, rom := put_block (bank ad + unat ?a) (encode_table_record_to_buff r) (rom ad)\<rparr>)"
  obtain b f where "update_bad_channel_bitmap r ?ad = with_io ((control ?ad)\<lparr>bad_channel_bitmap := b\<rparr>) (rom ?ad) (transactions ?ad) (allocations ?ad) f ?ad"
    using bitmap_with_io [of r ?ad] by blast
  then have "ras_eeprom_v2_1_process_record True r ad = (0, r, with_io (record_moved (?a + 24) b (control ad))
      (put_block (bank ad + unat ?a) (encode_table_record_to_buff r) (rom ad)) t (allocations ad) f ad)"
    using w(1) by (simp add: ras_eeprom_v2_1_process_record_def ras_eeprom_v2_1_i2c_transfer_record_def with_io_def record_moved_def)
  then show ?thesis using w(2) by blast
qed

lemma process_record_read:
  assumes "works ad" "unat (next_addr (control ad)) + 24 \<le> 65536"
  shows "\<exists>b t f. ras_eeprom_v2_1_process_record False r ad =
      (0, decode_table_record_from_buff (get_block (bank ad + unat (next_addr (control ad))) 24 (rom ad)),
       with_io (record_moved (next_addr (control ad) + 24) b (control ad)) (rom ad) t (allocations ad) f ad) \<and> transactions ad \<le> t"
proof -
  let ?a = "next_addr (control ad)" and ?bs = "get_block (bank ad + unat (next_addr (control ad))) 24 (rom ad)"
  obtain t where w: "ras_eeprom_v2_1_get_eeprom_data ?a 24 ad = (1, ?bs, ad\<lparr>transactions := t\<rparr>)" "transactions ad \<le> t"
    using get_data_ok [OF assms(1), of ?a 24] assms(2) by auto
  let ?ad = "update_control (\<lambda>c. c\<lparr>next_addr := next_addr c + 24\<rparr>) (ad\<lparr>transactions := t\<rparr>)"
  obtain b f where "update_bad_channel_bitmap (decode_table_record_from_buff ?bs) ?ad =
      with_io ((control ?ad)\<lparr>bad_channel_bitmap := b\<rparr>) (rom ?ad) (transactions ?ad) (allocations ?ad) f ?ad"
    using bitmap_with_io by blast
  then have "ras_eeprom_v2_1_process_record False r ad = (0, decode_table_record_from_buff ?bs,
      with_io (record_moved (?a + 24) b (control ad)) (rom ad) t (allocations ad) f ad)"
    using w(1) by (simp add: ras_eeprom_v2_1_process_record_def ras_eeprom_v2_1_i2c_transfer_record_def with_io_def record_moved_def Let_def)
  then show ?thesis using w(2) by blast
qed

section \<open>The table in the device\<close>

definition same_env :: "eeprom_adapter \<Rightarrow> eeprom_adapter \<Rightarrow> bool" where
  "same_env ad ad' \<longleftrightarrow> bus_ok ad' = bus_ok ad \<and> mem_ok ad' = mem_ok ad \<and> dev_read ad' = dev_read ad \<and> dev_write ad' = dev_write ad \<and> raw_data ad' = raw_data ad \<and> uniras_rma ad' = uniras_rma ad \<and>
     rom_i2c_address ad' = rom_i2c_address ad \<and> supports_ras_eeprom ad' = supports_ras_eeprom ad \<and>
     eeprom_version ad' = eeprom_version ad \<and> bad_page_record_threshold ad' = bad_page_record_threshold ad \<and>
     bad_page_detection_mode ad' = bad_page_detection_mode ad \<and> in_whole_gpu_reset ad' = in_whole_gpu_reset ad \<and>
     transactions ad \<le> transactions ad' \<and> allocations ad \<le> allocations ad'"

lemma same_env_refl [simp]: "same_env ad ad"
  by (simp add: same_env_def)

lemma same_env_trans: "same_env a b \<Longrightarrow> same_env b c \<Longrightarrow> same_env a c"
  by (auto simp: same_env_def)

lemma same_env_works: "same_env ad ad' \<Longrightarrow> works ad \<Longrightarrow> works ad'"
  by (auto simp: same_env_def works_def m24m02_def)

lemma same_env_with_io [simp]: "transactions ad \<le> t \<Longrightarrow> allocations ad \<le> k \<Longrightarrow> same_env ad (with_io c m t k f ad)"
  by (simp add: same_env_def)

lemma same_env_control [simp]: "same_env ad (ad\<lparr>control := c\<rparr>)" "same_env ad (ad\<lparr>rma_notified := q\<rparr>)" "same_env ad (ad\<lparr>bp_msg_type := b\<rparr>)"
  by (simp_all add: same_env_def)

lemma same_env_rom [simp]: "transactions ad \<le> t \<Longrightarrow> same_env ad (ad\<lparr>transactions := t, rom := m\<rparr>)"
  "transactions ad \<le> t \<Longrightarrow> same_env ad (ad\<lparr>transactions := t\<rparr>)"
  by (simp_all add: same_env_def)

text \<open>The bytes of the table with a given header, extra information and records, from address \<open>B\<close> on.\<close>

definition stored :: "nat \<Rightarrow> (nat \<Rightarrow> u8) \<Rightarrow> amdgv_ras_eeprom_table_header \<Rightarrow> amdgv_ras_eeprom_extra_gpu_info_v2_1 \<Rightarrow>
    eeprom_table_record list \<Rightarrow> bool" where
  "stored B m hdr egi rs \<longleftrightarrow> get_block B 20 m = encode_table_header_to_buff hdr \<and>
     get_block (B + 20) 256 m = encode_extra_info_to_buff egi @ replicate 252 0 \<and>
     get_block (B + 276) (24 * length rs) m = concat (map encode_table_record_to_buff rs)"

text \<open>A header that fits the records, but for its checksum.\<close>

definition header_shape :: "nat \<Rightarrow> amdgv_ras_eeprom_table_header \<Rightarrow> amdgv_ras_eeprom_extra_gpu_info_v2_1 \<Rightarrow> bool" where
  "header_shape n hdr egi \<longleftrightarrow> hdr_header hdr \<in> {EEPROM_TABLE_HDR_VAL, EEPROM_TABLE_HDR_BAD} \<and>
     hdr_version hdr \<in> {EEPROM_TABLE_VER_V2_1, EEPROM_TABLE_VER_V3, EEPROM_TABLE_VER_V4} \<and> first_rec_offset hdr = 276 \<and>
     unat (tbl_size hdr) = 276 + 24 * n \<and> egi_padding egi = replicate 252 0 \<and> n \<le> 2719"

definition header_ok :: "eeprom_table_record list \<Rightarrow> amdgv_ras_eeprom_table_header \<Rightarrow> amdgv_ras_eeprom_extra_gpu_info_v2_1 \<Rightarrow> bool" where
  "header_ok rs hdr egi \<longleftrightarrow> header_shape (length rs) hdr egi \<and>
     hdr_checksum hdr = 256 - (calc_hdr_byte_sum hdr + calc_extra_info_byte_sum egi + ras_eeprom_v2_1_calc_recs_byte_sum rs) mod 256"

text \<open>The state between operations: the driver's copy of the header is in the device, and the next record goes behind the last.\<close>

definition eeprom_ok :: "eeprom_table_record list \<Rightarrow> eeprom_adapter \<Rightarrow> bool" where
  "eeprom_ok rs ad \<longleftrightarrow> (let c = control ad in stored (bank ad) (rom ad) (tbl_hdr c) (tbl_egi_v2_1 c) rs \<and>
     header_ok rs (tbl_hdr c) (tbl_egi_v2_1 c) \<and> unat (num_recs c) = length rs \<and> unat (next_addr c) = 276 + 24 * length rs \<and>
     tbl_byte_sum c = ras_eeprom_v2_1_calc_tbl_byte_sum rs c \<and> max_record_num c = 10655)"

text \<open>Enough to append records: whatever bytes of the header are in the device.\<close>

definition append_ok :: "eeprom_table_record list \<Rightarrow> eeprom_adapter \<Rightarrow> bool" where
  "append_ok rs ad \<longleftrightarrow> (let c = control ad in get_block (bank ad + 24) 252 (rom ad) = replicate 252 0 \<and>
     get_block (bank ad + 276) (24 * length rs) (rom ad) = concat (map encode_table_record_to_buff rs) \<and>
     header_shape (length rs) (tbl_hdr c) (tbl_egi_v2_1 c) \<and> unat (num_recs c) = length rs \<and> unat (next_addr c) = 276 + 24 * length rs \<and>
     tbl_byte_sum c = ras_eeprom_v2_1_calc_tbl_byte_sum rs c \<and> max_record_num c = 10655)"

lemma bank_with_io [simp]: "bank (with_io c m t k f ad) = device_base (i2c_address c)"
  by (simp add: bank_def)

lemma no_overflow:
  assumes "first_rec_offset (tbl_hdr c) = 276" "max_record_num c = 10655" "276 \<le> unat (next_addr c)" "unat (next_addr c) \<le> 65536"
  shows "\<not> ras_eeprom_v2_1_entry_overflow c"
proof -
  have "unat (next_addr c - 276) = unat (next_addr c) - 276" using assms(3) by (simp add: unat_sub word_le_nat_alt)
  then have "unat ((next_addr c - 276) div 24) \<le> 65536 div 24" using assms(4) by (simp add: unat_div_distrib div_le_mono)
  then show ?thesis using assms(1,2) by (simp add: ras_eeprom_v2_1_entry_overflow_def word_less_nat_alt)
qed

lemma addr_step: "unat (a :: u32) + 24 * Suc n \<le> 65536 \<Longrightarrow> unat (a + 24) = unat a + 24"
  by (simp add: unat_word_ariths)

lemma process_loop_write:
  assumes "works ad" "first_rec_offset (tbl_hdr (control ad)) = 276" "max_record_num (control ad) = 10655"
    "276 \<le> unat (next_addr (control ad))" "unat (next_addr (control ad)) + 24 * length rs \<le> 65536"
  shows "\<exists>b t f. process_loop True rs ad = (0, length rs, rs,
      with_io (record_moved (next_addr (control ad) + 24 * of_nat (length rs)) b (control ad))
        (put_block (bank ad + unat (next_addr (control ad))) (concat (map encode_table_record_to_buff rs)) (rom ad)) t (allocations ad) f ad) \<and>
    transactions ad \<le> t"
  using assms
proof (induction rs arbitrary: ad)
  case Nil
  have "record_moved (next_addr (control ad)) (bad_channel_bitmap (control ad)) (control ad) = control ad" by (simp add: record_moved_def)
  then show ?case using as_with_io [of ad] by (intro exI [of _ "bad_channel_bitmap (control ad)"] exI [of _ "transactions ad"]
      exI [of _ "update_channel_flag ad"]) simp
next
  case (Cons r rs)
  let ?a = "next_addr (control ad)"
  have a: "unat (?a + 24) = unat ?a + 24" by (rule addr_step [of _ "length rs"]) (use Cons.prems(5) in simp)
  obtain b t f where p: "ras_eeprom_v2_1_process_record True r ad = (0, r, with_io (record_moved (?a + 24) b (control ad))
      (put_block (bank ad + unat ?a) (encode_table_record_to_buff r) (rom ad)) t (allocations ad) f ad)" "transactions ad \<le> t"
    using process_record_write [OF Cons.prems(1), of r] Cons.prems(5) by auto
  let ?ad = "with_io (record_moved (?a + 24) b (control ad)) (put_block (bank ad + unat ?a) (encode_table_record_to_buff r) (rom ad)) t (allocations ad) f ad"
  have w: "works ?ad" by (rule works_with_io [OF Cons.prems(1) p(2)]) simp
  obtain b' t' f' where q: "process_loop True rs ?ad = (0, length rs, rs,
      with_io (record_moved (?a + 24 + 24 * of_nat (length rs)) b' (control ad))
        (put_block (bank ad + unat (?a + 24)) (concat (map encode_table_record_to_buff rs))
          (put_block (bank ad + unat ?a) (encode_table_record_to_buff r) (rom ad))) t' (allocations ad) f' ad)" "t \<le> t'"
    using Cons.IH [OF w] Cons.prems a by (auto simp: bank_def)
  have "\<not> ras_eeprom_v2_1_entry_overflow (control ad)" using no_overflow [OF Cons.prems(2-4)] Cons.prems(5) by simp
  moreover have "?a + 24 + 24 * of_nat (length rs) = ?a + 24 * of_nat (length (r # rs))" by (simp add: algebra_simps)
  moreover have "put_block (bank ad + unat (?a + 24)) (concat (map encode_table_record_to_buff rs))
      (put_block (bank ad + unat ?a) (encode_table_record_to_buff r) (rom ad)) =
    put_block (bank ad + unat ?a) (concat (map encode_table_record_to_buff (r # rs))) (rom ad)"
    using put_block_append [of "bank ad + unat ?a" "encode_table_record_to_buff r"] by (simp add: a record_code.length_enc add.assoc)
  ultimately show ?case using p q by (auto simp: ac_simps intro: le_trans)
qed

lemma process_loop_read:
  assumes "works ad" "first_rec_offset (tbl_hdr (control ad)) = 276" "max_record_num (control ad) = 10655"
    "276 \<le> unat (next_addr (control ad))" "unat (next_addr (control ad)) + 24 * length rs \<le> 65536" "length xs = length rs"
    "get_block (bank ad + unat (next_addr (control ad))) (24 * length rs) (rom ad) = concat (map encode_table_record_to_buff rs)"
  shows "\<exists>b t f. process_loop False xs ad = (0, length rs, map stored_record rs,
      with_io (record_moved (next_addr (control ad) + 24 * of_nat (length rs)) b (control ad)) (rom ad) t (allocations ad) f ad) \<and>
    transactions ad \<le> t"
  using assms
proof (induction rs arbitrary: ad xs)
  case Nil
  have "record_moved (next_addr (control ad)) (bad_channel_bitmap (control ad)) (control ad) = control ad" by (simp add: record_moved_def)
  then show ?case using Nil.prems(6) as_with_io [of ad] by (intro exI [of _ "bad_channel_bitmap (control ad)"] exI [of _ "transactions ad"]
      exI [of _ "update_channel_flag ad"]) simp
next
  case (Cons r rs)
  obtain x xs' where xs: "xs = x # xs'" "length xs' = length rs" using Cons.prems(6) by (cases xs) auto
  let ?a = "next_addr (control ad)"
  have a: "unat (?a + 24) = unat ?a + 24" by (rule addr_step [of _ "length rs"]) (use Cons.prems(5) in simp)
  have blk: "get_block (bank ad + unat ?a) 24 (rom ad) @ get_block (bank ad + unat ?a + 24) (24 * length rs) (rom ad) =
      encode_table_record_to_buff r @ concat (map encode_table_record_to_buff rs)"
    using Cons.prems(7) get_block_append [of "bank ad + unat ?a" 24 "24 * length rs" "rom ad"] by simp
  then have g: "get_block (bank ad + unat ?a) 24 (rom ad) = encode_table_record_to_buff r"
    "get_block (bank ad + unat ?a + 24) (24 * length rs) (rom ad) = concat (map encode_table_record_to_buff rs)"
    by (simp_all add: append_eq_append_conv record_code.length_enc)
  obtain b t f where p: "ras_eeprom_v2_1_process_record False x ad = (0, stored_record r, with_io (record_moved (?a + 24) b (control ad))
      (rom ad) t (allocations ad) f ad)" "transactions ad \<le> t"
    using process_record_read [OF Cons.prems(1), of x] Cons.prems(5) by (auto simp: g record_code.dec_exact)
  let ?ad = "with_io (record_moved (?a + 24) b (control ad)) (rom ad) t (allocations ad) f ad"
  have w: "works ?ad" by (rule works_with_io [OF Cons.prems(1) p(2)]) simp
  obtain b' t' f' where q: "process_loop False xs' ?ad = (0, length rs, map stored_record rs,
      with_io (record_moved (?a + 24 + 24 * of_nat (length rs)) b' (control ad)) (rom ad) t' (allocations ad) f' ad)" "t \<le> t'"
    using Cons.IH [OF w, of xs'] Cons.prems a xs(2) g(2) by (auto simp: bank_def add.assoc)
  have "\<not> ras_eeprom_v2_1_entry_overflow (control ad)" using no_overflow [OF Cons.prems(2-4)] Cons.prems(5) by simp
  moreover have "?a + 24 + 24 * of_nat (length rs) = ?a + 24 * of_nat (length (r # rs))" by (simp add: algebra_simps)
  ultimately show ?case using p q unfolding xs(1) by (auto simp: ac_simps intro: le_trans)
qed

section \<open>Health, header and checksum\<close>

text \<open>What the health update may change.\<close>

lemma mark_bad_ok: "\<exists>q. mark_gpu_bad ad = ad\<lparr>control := (control ad)\<lparr>tbl_hdr := (tbl_hdr (control ad))\<lparr>hdr_header := EEPROM_TABLE_HDR_BAD\<rparr>\<rparr>, rma_notified := q\<rparr>"
proof (cases "use_pf ad")
  case False
  then show ?thesis by (intro exI [of _ "rma_notified ad"]) (simp add: mark_gpu_bad_def)
qed (auto simp: mark_gpu_bad_def)

lemma health_ok:
  "\<exists>h e q. ras_eeprom_v2_1_update_gpu_health ad = ad\<lparr>control := (control ad)\<lparr>tbl_hdr := (tbl_hdr (control ad))\<lparr>hdr_header := h\<rparr>,
      tbl_egi_v2_1 := e\<rparr>, rma_notified := q\<rparr> \<and> h \<in> {hdr_header (tbl_hdr (control ad)), EEPROM_TABLE_HDR_BAD} \<and>
    egi_padding e = egi_padding (tbl_egi_v2_1 (control ad)) \<and> ecc_page_threshold e = ecc_page_threshold (tbl_egi_v2_1 (control ad))"
proof (cases "amdgv_ras_eeprom_is_gpu_bad ad")
  case True
  then show ?thesis
    by (intro exI [of _ "hdr_header (tbl_hdr (control ad))"] exI [of _ "tbl_egi_v2_1 (control ad)"] exI [of _ "rma_notified ad"])
      (simp add: ras_eeprom_v2_1_update_gpu_health_def)
next
  case False
  have mark: "\<exists>h e q. mark_gpu_bad (ras_eeprom_v2_1_mark_gpu_healthy_status s ad) = ad\<lparr>control := (control ad)\<lparr>tbl_hdr :=
      (tbl_hdr (control ad))\<lparr>hdr_header := h\<rparr>, tbl_egi_v2_1 := e\<rparr>, rma_notified := q\<rparr> \<and>
      h \<in> {hdr_header (tbl_hdr (control ad)), EEPROM_TABLE_HDR_BAD} \<and> egi_padding e = egi_padding (tbl_egi_v2_1 (control ad)) \<and>
      ecc_page_threshold e = ecc_page_threshold (tbl_egi_v2_1 (control ad))" for s
  proof -
    obtain q where "mark_gpu_bad (ras_eeprom_v2_1_mark_gpu_healthy_status s ad) = (ras_eeprom_v2_1_mark_gpu_healthy_status s ad)\<lparr>control :=
        (control (ras_eeprom_v2_1_mark_gpu_healthy_status s ad))\<lparr>tbl_hdr := (tbl_hdr (control (ras_eeprom_v2_1_mark_gpu_healthy_status s ad)))
          \<lparr>hdr_header := EEPROM_TABLE_HDR_BAD\<rparr>\<rparr>, rma_notified := q\<rparr>"
      using mark_bad_ok by blast
    then show ?thesis
      by (intro exI [of _ EEPROM_TABLE_HDR_BAD] exI [of _ "(tbl_egi_v2_1 (control ad))\<lparr>rma_status := s, gpu_healthy := 0\<rparr>"] exI [of _ q])
        (simp add: ras_eeprom_v2_1_mark_gpu_healthy_status_def)
  qed
  have calc: "\<exists>h e q. ras_eeprom_v2_1_calc_gpu_healthy ad = ad\<lparr>control := (control ad)\<lparr>tbl_hdr :=
      (tbl_hdr (control ad))\<lparr>hdr_header := h\<rparr>, tbl_egi_v2_1 := e\<rparr>, rma_notified := q\<rparr> \<and>
      h \<in> {hdr_header (tbl_hdr (control ad)), EEPROM_TABLE_HDR_BAD} \<and> egi_padding e = egi_padding (tbl_egi_v2_1 (control ad)) \<and>
      ecc_page_threshold e = ecc_page_threshold (tbl_egi_v2_1 (control ad))"
    by (intro exI [of _ "hdr_header (tbl_hdr (control ad))"]
        exI [of _ "tbl_egi_v2_1 (control (ras_eeprom_v2_1_calc_gpu_healthy ad))"] exI [of _ "rma_notified ad"])
      (simp add: ras_eeprom_v2_1_calc_gpu_healthy_def Let_def)
  show ?thesis using False mark calc by (cases "bp_msg_type ad") (simp_all add: ras_eeprom_v2_1_update_gpu_health_def)
qed

lemma write_header_ok:
  assumes "works ad"
  shows "\<exists>t. ras_eeprom_v2_1_write_table_header ad =
      (1, ad\<lparr>transactions := t, rom := put_block (bank ad) (encode_table_header_to_buff (tbl_hdr (control ad))) (rom ad)\<rparr>) \<and> transactions ad \<le> t"
  using write_data_ok [OF assms, of 0 "encode_table_header_to_buff (tbl_hdr (control ad))"]
  by (simp add: ras_eeprom_v2_1_write_table_header_def header_code.length_enc)

definition ext_bytes :: "bool \<Rightarrow> amdgv_ras_eeprom_extra_gpu_info_v2_1 \<Rightarrow> u8 list" where
  "ext_bytes reserved egi = encode_extra_info_to_buff egi @ (if reserved then replicate 252 0 else [])"

lemma write_ext_ok:
  assumes "works ad"
  shows "\<exists>t. ras_eeprom_v2_1_write_table_header_ext reserved ad =
      (1, ad\<lparr>transactions := t, allocations := Suc (allocations ad),
        rom := put_block (bank ad + 20) (ext_bytes reserved (tbl_egi_v2_1 (control ad))) (rom ad)\<rparr>) \<and> transactions ad \<le> t"
proof -
  let ?ad = "ad\<lparr>allocations := Suc (allocations ad)\<rparr>" and ?bs = "ext_bytes reserved (tbl_egi_v2_1 (control ad))"
  have z: "oss_zalloc ad = (True, ?ad)" and w: "works ?ad" using assms by (simp_all add: oss_zalloc_def works_def)
  have "length ?bs \<le> 256" by (simp add: ext_bytes_def)
  then obtain t where "write_eeprom_data ?bs 20 ?ad = (1, ?ad\<lparr>transactions := t, rom := put_block (bank ?ad + 20) ?bs (rom ad)\<rparr>)" "transactions ad \<le> t"
    using write_data_ok [OF w, of 20 ?bs] by auto
  then show ?thesis using z
    by (intro exI [of _ t] conjI) (cases reserved; simp add: ras_eeprom_v2_1_write_table_header_ext_def ext_bytes_def bank_def)+
qed

text \<open>Header and extra information go to the device; the records stay.\<close>

lemma write_both_ok:
  assumes "works ad" "reserved \<or> get_block (bank ad + 24) 252 (rom ad) = replicate 252 0"
  shows "\<exists>ad'. (let (_, ad) = ras_eeprom_v2_1_write_table_header ad; (_, ad) = ras_eeprom_v2_1_write_table_header_ext reserved ad in ad) = ad' \<and>
    same_env ad ad' \<and> control ad' = control ad \<and> bp_msg_type ad' = bp_msg_type ad \<and>
    get_block (bank ad) 20 (rom ad') = encode_table_header_to_buff (tbl_hdr (control ad)) \<and>
    get_block (bank ad + 20) 256 (rom ad') = encode_extra_info_to_buff (tbl_egi_v2_1 (control ad)) @ replicate 252 0 \<and>
    (\<forall>a n. bank ad + 276 \<le> a \<longrightarrow> get_block a n (rom ad') = get_block a n (rom ad))"
proof -
  let ?h = "encode_table_header_to_buff (tbl_hdr (control ad))" and ?e = "ext_bytes reserved (tbl_egi_v2_1 (control ad))"
  obtain t where t: "ras_eeprom_v2_1_write_table_header ad = (1, ad\<lparr>transactions := t, rom := put_block (bank ad) ?h (rom ad)\<rparr>)" "transactions ad \<le> t"
    using write_header_ok [OF assms(1)] by blast
  let ?ad = "ad\<lparr>transactions := t, rom := put_block (bank ad) ?h (rom ad)\<rparr>"
  have w: "works ?ad" using assms(1) t(2) by (auto simp: works_def)
  obtain u where u: "ras_eeprom_v2_1_write_table_header_ext reserved ?ad = (1, ?ad\<lparr>transactions := u, allocations := Suc (allocations ad),
      rom := put_block (bank ad + 20) ?e (put_block (bank ad) ?h (rom ad))\<rparr>)" "t \<le> u"
    using write_ext_ok [OF w, of reserved] by (auto simp: bank_def)
  let ?m = "put_block (bank ad + 20) ?e (put_block (bank ad) ?h (rom ad))"
  have "get_block (bank ad) 20 ?m = ?h"
    by (subst get_put_other) (simp_all add: get_put_same header_code.length_enc)
  moreover have "get_block (bank ad + 20) 256 ?m = encode_extra_info_to_buff (tbl_egi_v2_1 (control ad)) @ replicate 252 0"
  proof (cases reserved)
    case True
    then show ?thesis by (subst get_put_same) (simp_all add: ext_bytes_def)
  next
    case False
    have "get_block (bank ad + 20) (4 + 252) ?m = get_block (bank ad + 20) 4 ?m @ get_block (bank ad + 20 + 4) 252 ?m" by (rule get_block_append)
    moreover have "get_block (bank ad + 20) 4 ?m = ?e" using False by (intro get_put_same) (simp add: ext_bytes_def)
    moreover have "get_block (bank ad + 24) 252 ?m = get_block (bank ad + 24) 252 (rom ad)"
      using False by (subst get_put_other, simp add: ext_bytes_def, subst get_put_other) (simp_all add: header_code.length_enc)
    then have "get_block (bank ad + 20 + 4) 252 ?m = get_block (bank ad + 24) 252 (rom ad)" by (simp add: add.commute)
    ultimately show ?thesis using assms(2) False by (simp add: ext_bytes_def)
  qed
  moreover have "get_block a n ?m = get_block a n (rom ad)" if "bank ad + 276 \<le> a" for a n
  proof -
    have "length ?e \<le> 256" by (simp add: ext_bytes_def)
    then have "get_block a n ?m = get_block a n (put_block (bank ad) ?h (rom ad))" using that by (intro get_put_other) simp
    also have "\<dots> = get_block a n (rom ad)" using that by (intro get_put_other) (simp add: header_code.length_enc)
    finally show ?thesis .
  qed
  ultimately show ?thesis using t u by (auto simp: same_env_def)
qed

lemma padding_block:
  assumes "get_block (B + 20) 256 m = encode_extra_info_to_buff egi @ replicate 252 0"
  shows "get_block (B + 24) 252 m = replicate 252 0"
proof -
  have "get_block (B + 24) 252 m = drop 4 (get_block (B + 20) 256 m)" by (subst drop_get_block) (simp_all add: add.assoc)
  then show ?thesis unfolding assms by simp
qed

lemma stored_padding: "stored B m hdr egi rs \<Longrightarrow> get_block (B + 24) 252 m = replicate 252 0"
  by (auto simp: stored_def intro: padding_block)

lemma byte_sum_extra: "egi_padding e = replicate 252 0 \<Longrightarrow> calc_extra_info_byte_sum e = byte_sum (encode_extra_info_to_buff e)"
  by (simp add: calc_extra_info_byte_sum_def extra_info_bytes_encode)

section \<open>Reading and writing records\<close>

lemma process_records_read_ok:
  assumes "works ad" "header_shape (length rs) (tbl_hdr (control ad)) (tbl_egi_v2_1 (control ad))" "max_record_num (control ad) = 10655"
    "unat (next_addr (control ad)) = 276" "length xs = length rs"
    "get_block (bank ad + 276) (24 * length rs) (rom ad) = concat (map encode_table_record_to_buff rs)"
  shows "\<exists>b t f. ras_eeprom_v2_1_process_records False xs ad = (0, map stored_record rs,
      with_io ((record_moved (276 + 24 * of_nat (length rs)) b (control ad))\<lparr>tbl_byte_sum := ras_eeprom_v2_1_calc_tbl_byte_sum rs (control ad)\<rparr>)
        (rom ad) t (allocations ad) f ad) \<and> transactions ad \<le> t"
proof -
  have n: "next_addr (control ad) = 276" using assms(4) by (simp add: word_unat_eq_iff)
  have "276 + 24 * length rs \<le> 65536" using assms(2) by (simp add: header_shape_def)
  then obtain b t f where "process_loop False xs ad = (0, length rs, map stored_record rs,
      with_io (record_moved (276 + 24 * of_nat (length rs)) b (control ad)) (rom ad) t (allocations ad) f ad)" "transactions ad \<le> t"
    using process_loop_read [OF assms(1) _ assms(3) _ _ assms(5)] assms(2,6) by (auto simp: n header_shape_def)
  moreover have "supports_ras_eeprom ad" using assms(1) by (simp add: works_def)
  ultimately show ?thesis
    by (auto simp: ras_eeprom_v2_1_process_records_def ras_eeprom_v2_1_update_tbl_byte_sum_def ras_eeprom_v2_1_calc_tbl_byte_sum_def)
qed

lemma eeprom_append_ok: "eeprom_ok rs ad \<Longrightarrow> append_ok rs ad"
  using stored_padding by (fastforce simp: eeprom_ok_def append_ok_def header_ok_def stored_def Let_def)

text \<open>Writing records from address \<open>N\<close> on, wherever the records before them are.\<close>

lemma process_records_write_at:
  assumes "works ad" "get_block (bank ad + 24) 252 (rom ad) = replicate 252 0"
    "header_shape (length rs) (tbl_hdr (control ad)) (tbl_egi_v2_1 (control ad))" "unat (num_recs (control ad)) = length rs"
    "unat (next_addr (control ad)) = N" "276 \<le> N" "N + 24 * length new \<le> 65536"
    "tbl_byte_sum (control ad) = ras_eeprom_v2_1_calc_tbl_byte_sum rs (control ad)" "max_record_num (control ad) = 10655"
    "length (rs @ new) \<le> 2719"
  shows "\<exists>ad'. ras_eeprom_v2_1_process_records True new ad = (0, new, ad') \<and> same_env ad ad' \<and>
    bank ad' = bank ad \<and> bp_msg_type ad' = bp_msg_type ad \<and> header_ok (rs @ new) (tbl_hdr (control ad')) (tbl_egi_v2_1 (control ad')) \<and>
    unat (num_recs (control ad')) = length (rs @ new) \<and> next_addr (control ad') = next_addr (control ad) + 24 * of_nat (length new) \<and>
    tbl_byte_sum (control ad') = ras_eeprom_v2_1_calc_tbl_byte_sum (rs @ new) (control ad') \<and> max_record_num (control ad') = 10655 \<and>
    get_block (bank ad) 20 (rom ad') = encode_table_header_to_buff (tbl_hdr (control ad')) \<and>
    get_block (bank ad + 20) 256 (rom ad') = encode_extra_info_to_buff (tbl_egi_v2_1 (control ad')) @ replicate 252 0 \<and>
    (\<forall>a n. bank ad + 276 \<le> a \<longrightarrow> get_block a n (rom ad') =
      get_block a n (put_block (bank ad + N) (concat (map encode_table_record_to_buff new)) (rom ad)))"
proof -
  let ?c = "control ad" and ?n = "of_nat (length new) :: u32"
  note zero = assms(2) and hd = assms(3) and nr = assms(4) and na = assms(5) and bs = assms(8) and mx = assms(9)
  let ?m = "put_block (bank ad + N) (concat (map encode_table_record_to_buff new)) (rom ad)"
  have "first_rec_offset (tbl_hdr ?c) = 276" using hd by (simp add: header_shape_def)
  then obtain b t f where loop: "process_loop True new ad = (0, length new, new, with_io (record_moved (next_addr ?c + 24 * ?n) b ?c)
      ?m t (allocations ad) f ad)" "transactions ad \<le> t"
    using process_loop_write [OF assms(1), of new] mx na assms(6,7) by auto
  let ?c1 = "record_moved (next_addr ?c + 24 * ?n) b ?c"
  let ?c2 = "?c1\<lparr>num_recs := num_recs ?c + ?n, tbl_hdr := (tbl_hdr ?c)\<lparr>tbl_size := tbl_size (tbl_hdr ?c) + 24 * ?n\<rparr>\<rparr>"
  let ?ad2 = "with_io ?c2 ?m t (allocations ad) f ad"
  obtain h e q where hl: "ras_eeprom_v2_1_update_gpu_health ?ad2 = ?ad2\<lparr>control := ?c2\<lparr>tbl_hdr := (tbl_hdr ?c2)\<lparr>hdr_header := h\<rparr>,
      tbl_egi_v2_1 := e\<rparr>, rma_notified := q\<rparr>" "h \<in> {hdr_header (tbl_hdr ?c), EEPROM_TABLE_HDR_BAD}"
    "egi_padding e = egi_padding (tbl_egi_v2_1 ?c)"
    using health_ok [of ?ad2] by auto
  let ?hdr = "(tbl_hdr ?c2)\<lparr>hdr_header := h\<rparr>"
  let ?s = "calc_hdr_byte_sum ?hdr + calc_extra_info_byte_sum e + ras_eeprom_v2_1_calc_recs_byte_sum (rs @ new)"
  let ?hdr' = "?hdr\<lparr>hdr_checksum := 256 - ?s mod 256\<rparr>"
  let ?c3 = "?c2\<lparr>tbl_hdr := ?hdr', tbl_egi_v2_1 := e, tbl_byte_sum := ?s\<rparr>"
  let ?ad3 = "(with_io ?c3 ?m t (allocations ad) f ad)\<lparr>rma_notified := q\<rparr>"
  have upd: "ras_eeprom_v2_1_update_tbl_checksum new (calc_hdr_byte_sum (tbl_hdr ?c)) (calc_extra_info_byte_sum (tbl_egi_v2_1 ?c))
      (ras_eeprom_v2_1_update_gpu_health ?ad2) = ?ad3"
    unfolding hl(1) by (simp add: ras_eeprom_v2_1_update_tbl_checksum_def Let_def bs ras_eeprom_v2_1_calc_tbl_byte_sum_def with_io_def ac_simps)
  have w3: "works ?ad3" using assms(1) loop(2) by (auto simp: works_def)
  have b3: "bank ?ad3 = bank ad" by (simp add: bank_def)
  have pad: "get_block (bank ?ad3 + 24) 252 (rom ?ad3) = replicate 252 0"
    unfolding b3 using zero assms(6) by (simp add: get_put_other)
  obtain ad' where wr: "(let (_, ad) = ras_eeprom_v2_1_write_table_header ?ad3; (_, ad) = ras_eeprom_v2_1_write_table_header_ext False ad in ad) = ad'"
    "same_env ?ad3 ad'" "control ad' = ?c3" "bp_msg_type ad' = bp_msg_type ad" "get_block (bank ad) 20 (rom ad') = encode_table_header_to_buff ?hdr'"
    "get_block (bank ad + 20) 256 (rom ad') = encode_extra_info_to_buff e @ replicate 252 0"
    "\<forall>a n. bank ad + 276 \<le> a \<longrightarrow> get_block a n (rom ad') = get_block a n ?m"
    using write_both_ok [OF w3, of False] pad unfolding b3 by auto
  have run: "ras_eeprom_v2_1_process_records True new ad = (0, new, ad')"
    using loop(1) upd wr(1) assms(1)
    by (simp add: ras_eeprom_v2_1_process_records_def ras_eeprom_v2_1_update_table_header_def works_def Let_def case_prod_beta)
  have env: "same_env ad ad'" using wr(2) loop(2) by (auto simp: same_env_def)
  have len: "length rs + length new \<le> 2719" using assms(10) by simp
  have un: "unat ?n = length new" using len by (simp add: unat_of_nat)
  have "unat (tbl_size (tbl_hdr ?c) + 24 * ?n) = 276 + 24 * length (rs @ new)"
    using hd un len by (simp add: header_shape_def unat_word_ariths)
  then have "header_ok (rs @ new) ?hdr' e" using hd hl(2,3) len by (auto simp: header_ok_def header_shape_def)
  moreover have "unat (num_recs ?c + ?n) = length (rs @ new)" using nr un len by (simp add: unat_word_ariths)
  ultimately show ?thesis using run env wr(3-7) mx by (simp add: bank_def ras_eeprom_v2_1_calc_tbl_byte_sum_def)
qed

lemma process_records_write_ok:
  assumes "works ad" "append_ok rs ad" "length (rs @ new) \<le> 2719"
  shows "\<exists>ad'. ras_eeprom_v2_1_process_records True new ad = (0, new, ad') \<and> same_env ad ad' \<and> eeprom_ok (rs @ new) ad' \<and>
    bank ad' = bank ad \<and> bp_msg_type ad' = bp_msg_type ad"
proof -
  let ?c = "control ad" and ?N = "276 + 24 * length rs"
  let ?m = "put_block (bank ad + ?N) (concat (map encode_table_record_to_buff new)) (rom ad)"
  have st: "get_block (bank ad + 276) (24 * length rs) (rom ad) = concat (map encode_table_record_to_buff rs)"
    and na: "unat (next_addr ?c) = ?N" using assms(2) by (simp_all add: append_ok_def Let_def)
  obtain ad' where r: "ras_eeprom_v2_1_process_records True new ad = (0, new, ad')" "same_env ad ad'" "bank ad' = bank ad"
    "bp_msg_type ad' = bp_msg_type ad" "header_ok (rs @ new) (tbl_hdr (control ad')) (tbl_egi_v2_1 (control ad'))"
    "unat (num_recs (control ad')) = length (rs @ new)" "next_addr (control ad') = next_addr ?c + 24 * of_nat (length new)"
    "tbl_byte_sum (control ad') = ras_eeprom_v2_1_calc_tbl_byte_sum (rs @ new) (control ad')" "max_record_num (control ad') = 10655"
    "get_block (bank ad) 20 (rom ad') = encode_table_header_to_buff (tbl_hdr (control ad'))"
    "get_block (bank ad + 20) 256 (rom ad') = encode_extra_info_to_buff (tbl_egi_v2_1 (control ad')) @ replicate 252 0"
    "\<forall>a n. bank ad + 276 \<le> a \<longrightarrow> get_block a n (rom ad') = get_block a n ?m"
    using process_records_write_at [OF assms(1), of rs ?N new] assms(2,3) by (auto simp: append_ok_def Let_def)
  have "get_block (bank ad + 276) (24 * length rs + 24 * length new) ?m =
      get_block (bank ad + 276) (24 * length rs) ?m @ get_block (bank ad + 276 + 24 * length rs) (24 * length new) ?m"
    by (rule get_block_append)
  also have "get_block (bank ad + 276) (24 * length rs) ?m = concat (map encode_table_record_to_buff rs)"
    using st by (simp add: get_put_other)
  also have "get_block (bank ad + 276 + 24 * length rs) (24 * length new) ?m = concat (map encode_table_record_to_buff new)"
    by (simp add: add.assoc get_put_same record_code.length_concat)
  finally have "get_block (bank ad + 276) (24 * length (rs @ new)) (rom ad') = concat (map encode_table_record_to_buff (rs @ new))"
    using r(12) by (simp add: algebra_simps)
  then have "stored (bank ad') (rom ad') (tbl_hdr (control ad')) (tbl_egi_v2_1 (control ad')) (rs @ new)"
    using r(10,11) by (simp add: stored_def r(3))
  moreover have "unat (next_addr ?c + 24 * of_nat (length new)) = 276 + 24 * length (rs @ new)"
    using na assms(3) by (simp add: unat_word_ariths unat_of_nat)
  ultimately have "eeprom_ok (rs @ new) ad'" using r(5-9) by (simp add: eeprom_ok_def)
  then show ?thesis using r(1-4) by blast
qed

end
