(* ===== verification/GV_Eeprom_Boot.thy ===== *)
theory GV_Eeprom_Boot
  imports GV_Eeprom_Io
begin

text \<open>
  Start-up on a good table, the creation of a new one, and what a write leaves behind that fails.
\<close>

section \<open>Start-up\<close>

text \<open>The state after the read pointer has been set back: the table is in the device, and nothing of it has been read yet.\<close>

definition rewound :: "eeprom_table_record list \<Rightarrow> eeprom_adapter \<Rightarrow> bool" where
  "rewound rs ad \<longleftrightarrow> (let c = control ad in stored (bank ad) (rom ad) (tbl_hdr c) (tbl_egi_v2_1 c) rs \<and>
     header_ok rs (tbl_hdr c) (tbl_egi_v2_1 c) \<and> unat (num_recs c) = length rs \<and> next_addr c = 276 \<and>
     tbl_byte_sum c = ras_eeprom_v2_1_calc_tbl_byte_sum [] c \<and> max_record_num c = 10655)"

lemma calc_sum_stored [simp]: "ras_eeprom_v2_1_calc_tbl_byte_sum (map stored_record rs) c = ras_eeprom_v2_1_calc_tbl_byte_sum rs c"
  by (simp add: ras_eeprom_v2_1_calc_tbl_byte_sum_def)

lemma stored_stored [simp]: "stored B m hdr egi (map stored_record rs) \<longleftrightarrow> stored B m hdr egi rs"
  by (simp add: stored_def o_def)

lemma header_ok_stored [simp]: "header_ok (map stored_record rs) hdr egi \<longleftrightarrow> header_ok rs hdr egi"
  by (simp add: header_ok_def)

lemma eeprom_ok_stored [simp]: "eeprom_ok (map stored_record rs) ad \<longleftrightarrow> eeprom_ok rs ad"
  by (simp add: eeprom_ok_def Let_def)

lemma rewound_stored [simp]: "rewound (map stored_record rs) ad \<longleftrightarrow> rewound rs ad"
  by (simp add: rewound_def Let_def)

lemma unat_recs: "n \<le> 2719 \<Longrightarrow> unat (276 + 24 * of_nat n :: u32) = 276 + 24 * n"
  by (simp add: unat_word_ariths unat_of_nat)

lemma read_rewound:
  assumes "works ad" "rewound rs ad" "length xs = length rs"
  shows "\<exists>ad'. ras_eeprom_v2_1_process_records False xs ad = (0, map stored_record rs, ad') \<and> same_env ad ad' \<and>
    eeprom_ok rs ad' \<and> bank ad' = bank ad \<and> bp_msg_type ad' = bp_msg_type ad"
proof -
  let ?c = "control ad"
  have hd: "header_shape (length rs) (tbl_hdr ?c) (tbl_egi_v2_1 ?c)" "length rs \<le> 2719"
    using assms(2) by (simp_all add: rewound_def header_ok_def header_shape_def Let_def)
  obtain b t f where "ras_eeprom_v2_1_process_records False xs ad = (0, map stored_record rs,
      with_io ((record_moved (276 + 24 * of_nat (length rs)) b ?c)\<lparr>tbl_byte_sum := ras_eeprom_v2_1_calc_tbl_byte_sum rs ?c\<rparr>)
        (rom ad) t (allocations ad) f ad)" "transactions ad \<le> t"
    using process_records_read_ok [OF assms(1) hd(1) _ _ assms(3)] assms(2) by (auto simp: rewound_def stored_def Let_def)
  moreover have "eeprom_ok rs (with_io ((record_moved (276 + 24 * of_nat (length rs)) b ?c)\<lparr>tbl_byte_sum := ras_eeprom_v2_1_calc_tbl_byte_sum rs ?c\<rparr>)
        (rom ad) t (allocations ad) f ad)"
    using assms(2) unat_recs [OF hd(2)]
    by (simp add: eeprom_ok_def rewound_def Let_def ras_eeprom_v2_1_calc_tbl_byte_sum_def bank_def)
  ultimately show ?thesis by (auto simp: bank_def)
qed

lemma rewind_ok: "eeprom_ok rs ad \<Longrightarrow> rewound rs (ras_eeprom_v2_1_reset_read_control ad)"
  by (simp add: eeprom_ok_def rewound_def Let_def ras_eeprom_v2_1_reset_read_control_def EEPROM_RECORD_START_V2_1_def
      ras_eeprom_v2_1_calc_tbl_byte_sum_def bank_def)

lemma rewind_env [simp]: "same_env ad (ras_eeprom_v2_1_reset_read_control ad)" "bank (ras_eeprom_v2_1_reset_read_control ad) = bank ad"
  "rom (ras_eeprom_v2_1_reset_read_control ad) = rom ad"
  by (simp_all add: ras_eeprom_v2_1_reset_read_control_def bank_def)

lemma rewound_rewind: "rewound rs ad \<Longrightarrow> ras_eeprom_v2_1_reset_read_control ad = ad"
  by (simp add: rewound_def ras_eeprom_v2_1_reset_read_control_def EEPROM_RECORD_START_V2_1_def Let_def)

text \<open>The common end of the repairs: a new checksum, the header and the extra information to the device, and the pointer set back.\<close>

lemma resync_ok:
  assumes "works ad" "tbl_byte_sum (control ad) = old_hdr + old_extra"
  shows "\<exists>ad'. ras_eeprom_v2_1_reset_read_control (write_header_and_ext (ras_eeprom_v2_1_update_tbl_checksum rs old_hdr old_extra ad)) = ad' \<and>
    same_env ad ad' \<and> bank ad' = bank ad \<and>
    (\<exists>x. control ad' = (control ad)\<lparr>tbl_hdr := (tbl_hdr (control ad))\<lparr>hdr_checksum := x\<rparr>, next_addr := 276,
      tbl_byte_sum := ras_eeprom_v2_1_calc_tbl_byte_sum [] (control ad)\<rparr> \<and>
      x = 256 - ras_eeprom_v2_1_calc_tbl_byte_sum rs (control ad) mod 256) \<and>
    get_block (bank ad) 20 (rom ad') = encode_table_header_to_buff (tbl_hdr (control ad')) \<and>
    get_block (bank ad + 20) 256 (rom ad') = encode_extra_info_to_buff (tbl_egi_v2_1 (control ad')) @ replicate 252 0 \<and>
    (\<forall>a n. bank ad + 276 \<le> a \<longrightarrow> get_block a n (rom ad') = get_block a n (rom ad))"
proof -
  let ?c = "control ad" and ?s = "ras_eeprom_v2_1_calc_tbl_byte_sum rs (control ad)"
  let ?c1 = "?c\<lparr>tbl_byte_sum := ?s, tbl_hdr := (tbl_hdr ?c)\<lparr>hdr_checksum := 256 - ?s mod 256\<rparr>\<rparr>"
  have upd: "ras_eeprom_v2_1_update_tbl_checksum rs old_hdr old_extra ad = ad\<lparr>control := ?c1\<rparr>"
    by (simp add: ras_eeprom_v2_1_update_tbl_checksum_def assms(2) Let_def)
  have w: "works (ad\<lparr>control := ?c1\<rparr>)" and b: "bank (ad\<lparr>control := ?c1\<rparr>) = bank ad" using assms(1) by (simp_all add: works_def bank_def)
  obtain ad' where wr: "write_header_and_ext (ad\<lparr>control := ?c1\<rparr>) = ad'" "same_env (ad\<lparr>control := ?c1\<rparr>) ad'" "control ad' = ?c1"
    "get_block (bank ad) 20 (rom ad') = encode_table_header_to_buff (tbl_hdr ?c1)"
    "get_block (bank ad + 20) 256 (rom ad') = encode_extra_info_to_buff (tbl_egi_v2_1 ?c1) @ replicate 252 0"
    "\<forall>a n. bank ad + 276 \<le> a \<longrightarrow> get_block a n (rom ad') = get_block a n (rom ad)"
    using write_both_ok [OF w, of True] unfolding b by (auto simp: write_header_and_ext_def)
  have "same_env ad ad'" using wr(2) by (simp add: same_env_def)
  then show ?thesis unfolding upd wr(1) using wr(3-6)
    by (simp add: ras_eeprom_v2_1_reset_read_control_def EEPROM_RECORD_START_V2_1_def ras_eeprom_v2_1_calc_tbl_byte_sum_def same_env_def bank_def)
qed

lemma resync_rewound:
  assumes "works ad" "tbl_byte_sum (control ad) = old_hdr + old_extra"
    "get_block (bank ad + 276) (24 * length rs) (rom ad) = concat (map encode_table_record_to_buff rs)"
    "header_shape (length rs) (tbl_hdr (control ad)) (tbl_egi_v2_1 (control ad))" "unat (num_recs (control ad)) = length rs"
    "max_record_num (control ad) = 10655"
  shows "\<exists>ad'. ras_eeprom_v2_1_reset_read_control (write_header_and_ext (ras_eeprom_v2_1_update_tbl_checksum rs old_hdr old_extra ad)) = ad' \<and>
    same_env ad ad' \<and> bank ad' = bank ad \<and> rewound rs ad'"
proof -
  let ?c = "control ad"
  obtain ad' where r: "ras_eeprom_v2_1_reset_read_control (write_header_and_ext (ras_eeprom_v2_1_update_tbl_checksum rs old_hdr old_extra ad)) = ad'"
    "same_env ad ad'" "bank ad' = bank ad"
    "control ad' = ?c\<lparr>tbl_hdr := (tbl_hdr ?c)\<lparr>hdr_checksum := 256 - ras_eeprom_v2_1_calc_tbl_byte_sum rs ?c mod 256\<rparr>, next_addr := 276,
      tbl_byte_sum := ras_eeprom_v2_1_calc_tbl_byte_sum [] ?c\<rparr>"
    "get_block (bank ad) 20 (rom ad') = encode_table_header_to_buff (tbl_hdr (control ad'))"
    "get_block (bank ad + 20) 256 (rom ad') = encode_extra_info_to_buff (tbl_egi_v2_1 (control ad')) @ replicate 252 0"
    "\<forall>a n. bank ad + 276 \<le> a \<longrightarrow> get_block a n (rom ad') = get_block a n (rom ad)"
    using resync_ok [OF assms(1,2), of rs] by blast
  have "stored (bank ad') (rom ad') (tbl_hdr (control ad')) (tbl_egi_v2_1 (control ad')) rs"
    using r(5-7) assms(3) by (simp add: stored_def r(3))
  moreover have "header_ok rs (tbl_hdr (control ad')) (tbl_egi_v2_1 (control ad'))"
    using assms(4) by (simp add: r(4) header_ok_def header_shape_def ras_eeprom_v2_1_calc_tbl_byte_sum_def)
  ultimately have "rewound rs ad'" using assms(5,6)
    by (simp add: rewound_def r(4) ras_eeprom_v2_1_calc_tbl_byte_sum_def)
  then show ?thesis using r(1-3) by blast
qed

section \<open>Duplicates\<close>

lemma drop_page_filter: "drop_page r bs = filter (\<lambda>b. rec_retired_page b \<noteq> rec_retired_page r) bs"
  by (induction bs) auto

lemma remove_dups_set: "set (ras_eeprom_v2_1_remove_dups bs) \<subseteq> set bs"
  by (induction bs rule: ras_eeprom_v2_1_remove_dups.induct) (auto simp: drop_page_filter)

lemma remove_dups_pages: "rec_retired_page ` set (ras_eeprom_v2_1_remove_dups bs) = rec_retired_page ` set bs"
  by (induction bs rule: ras_eeprom_v2_1_remove_dups.induct) (auto simp: drop_page_filter)

lemma remove_dups_distinct: "distinct (map rec_retired_page (ras_eeprom_v2_1_remove_dups bs))"
proof (induction bs rule: ras_eeprom_v2_1_remove_dups.induct)
  case (2 b bs)
  then show ?case using remove_dups_set [of "drop_page b bs"] by (auto simp: drop_page_filter)
qed simp

lemma remove_dups_length: "length (ras_eeprom_v2_1_remove_dups bs) \<le> length bs"
proof (induction bs rule: ras_eeprom_v2_1_remove_dups.induct)
  case (2 b bs)
  then show ?case using length_drop_page [of b bs] by simp
qed simp

lemma remove_dups_id: "length (ras_eeprom_v2_1_remove_dups bs) = length bs \<Longrightarrow> ras_eeprom_v2_1_remove_dups bs = bs"
proof (induction bs rule: ras_eeprom_v2_1_remove_dups.induct)
  case (2 b bs)
  then have "length (drop_page b bs) = length bs"
    using remove_dups_length [of "drop_page b bs"] length_drop_page [of b bs] by simp
  then have "drop_page b bs = bs" unfolding drop_page_filter by (metis (no_types, lifting) filter_id_conv length_filter_less less_irrefl)
  then show ?case using "2.IH" "2.prems" by simp
qed simp

text \<open>What start-up keeps of the records: one of each page, the first.\<close>

definition kept_records :: "eeprom_table_record list \<Rightarrow> eeprom_table_record list" where
  "kept_records rs = ras_eeprom_v2_1_remove_dups (map stored_record rs)"

lemma kept_stored: "map stored_record (kept_records rs) = kept_records rs"
  using remove_dups_set [of "map stored_record rs"] unfolding kept_records_def by (intro map_idI) auto

section \<open>Repairs\<close>

lemma fix_threshold_ok:
  assumes "works ad" "rewound rs ad"
  shows "\<exists>ad'. ras_eeprom_v2_1_fix_threshold rs ad = ad' \<and> same_env ad ad' \<and> bank ad' = bank ad \<and> rewound rs ad'"
proof -
  let ?c = "control ad" and ?threshold = "ucast (eeprom_BAD_PAGE_RECORD_THRESHOLD ad) :: u16"
  let ?H = "calc_hdr_byte_sum (tbl_hdr ?c)" and ?E = "calc_extra_info_byte_sum (tbl_egi_v2_1 ?c)"
  let ?c1 = "?c\<lparr>tbl_egi_v2_1 := (tbl_egi_v2_1 ?c)\<lparr>ecc_page_threshold := ?threshold\<rparr>\<rparr>"
  let ?ad1 = "ad\<lparr>control := ?c1\<rparr>"
  define ad2 where "ad2 = (if unat ?threshold \<le> length rs
    then ras_eeprom_v2_1_mark_gpu_healthy_status GPU_RETIRED__ECC_REACH_THRESHOLD
      (mark_gpu_bad (?ad1\<lparr>bp_msg_type := AMDGV_BP_MSG_RECORD_THRESHOLD_REACHED\<rparr>))
    else ras_eeprom_v2_1_calc_gpu_healthy (update_control (\<lambda>c. c\<lparr>tbl_hdr := (tbl_hdr c)\<lparr>hdr_header := EEPROM_TABLE_HDR_VAL\<rparr>\<rparr>)
      (?ad1\<lparr>bp_msg_type := AMDGV_BP_MSG_INVALID\<rparr>)))"
  have run: "ras_eeprom_v2_1_fix_threshold rs ad =
      ras_eeprom_v2_1_reset_read_control (write_header_and_ext (ras_eeprom_v2_1_update_tbl_checksum rs ?H ?E ad2))"
    unfolding ras_eeprom_v2_1_fix_threshold_def Let_def rewound_rewind [OF assms(2)] ad2_def by (simp add: eeprom_BAD_PAGE_RECORD_THRESHOLD_def)
  have r: "stored (bank ad) (rom ad) (tbl_hdr ?c) (tbl_egi_v2_1 ?c) rs" "header_shape (length rs) (tbl_hdr ?c) (tbl_egi_v2_1 ?c)"
    "unat (num_recs ?c) = length rs" "tbl_byte_sum ?c = ?H + ?E" "max_record_num ?c = 10655"
    using assms(2) by (simp_all add: rewound_def header_ok_def Let_def ras_eeprom_v2_1_calc_tbl_byte_sum_def)
  have "\<exists>h e. control ad2 = ?c\<lparr>tbl_hdr := (tbl_hdr ?c)\<lparr>hdr_header := h\<rparr>, tbl_egi_v2_1 := e\<rparr> \<and>
      h \<in> {EEPROM_TABLE_HDR_VAL, EEPROM_TABLE_HDR_BAD} \<and> egi_padding e = egi_padding (tbl_egi_v2_1 ?c)"
  proof (cases "unat ?threshold \<le> length rs")
    case True
    then show ?thesis unfolding ad2_def
      by (intro exI [of _ EEPROM_TABLE_HDR_BAD] exI [of _ "(tbl_egi_v2_1 ?c)\<lparr>ecc_page_threshold := ?threshold, rma_status := GPU_RETIRED__ECC_REACH_THRESHOLD, gpu_healthy := 0\<rparr>"])
        (simp add: ras_eeprom_v2_1_mark_gpu_healthy_status_def mark_gpu_bad_def Let_def)
  next
    case False
    then show ?thesis unfolding ad2_def
      by (intro exI [of _ EEPROM_TABLE_HDR_VAL] exI [of _ "tbl_egi_v2_1 (control ad2)"])
        (simp add: ad2_def ras_eeprom_v2_1_calc_gpu_healthy_def Let_def)
  qed
  then obtain h e where he: "control ad2 = ?c\<lparr>tbl_hdr := (tbl_hdr ?c)\<lparr>hdr_header := h\<rparr>, tbl_egi_v2_1 := e\<rparr>"
    "h \<in> {EEPROM_TABLE_HDR_VAL, EEPROM_TABLE_HDR_BAD}" "egi_padding e = egi_padding (tbl_egi_v2_1 ?c)" by blast
  have env: "same_env ad ad2" "rom ad2 = rom ad" "bank ad2 = bank ad"
    by (simp_all add: ad2_def ras_eeprom_v2_1_mark_gpu_healthy_status_def mark_gpu_bad_def ras_eeprom_v2_1_calc_gpu_healthy_def Let_def
        same_env_def bank_def)
  have w: "works ad2" by (rule same_env_works [OF env(1) assms(1)])
  have "tbl_byte_sum (control ad2) = ?H + ?E" "unat (num_recs (control ad2)) = length rs" "max_record_num (control ad2) = 10655"
    "header_shape (length rs) (tbl_hdr (control ad2)) (tbl_egi_v2_1 (control ad2))"
    using r he(2,3) by (auto simp: he(1) header_shape_def)
  with resync_rewound [OF w, of ?H ?E rs] r(1) obtain ad' where
    "ras_eeprom_v2_1_reset_read_control (write_header_and_ext (ras_eeprom_v2_1_update_tbl_checksum rs ?H ?E ad2)) = ad'"
    "same_env ad2 ad'" "bank ad' = bank ad2" "rewound rs ad'" by (auto simp: env stored_def)
  then show ?thesis unfolding run using env by (metis same_env_trans)
qed

lemma fix_header_ext_ok:
  assumes "works ad" "rewound rs ad" "length ds = length rs \<Longrightarrow> ds = map stored_record rs"
  shows "\<exists>ad'. ras_eeprom_v2_1_fix_header_ext ds ad = ad' \<and> same_env ad ad' \<and> bank ad' = bank ad \<and>
    (length ds = length rs \<longrightarrow> rewound ds ad') \<and> num_recs (control ad') = num_recs (control ad) \<and>
    append_ok [] (ras_eeprom_v2_1_reset_write_control ad')"
proof -
  let ?c = "control ad"
  let ?H = "calc_hdr_byte_sum (tbl_hdr ?c)" and ?E = "calc_extra_info_byte_sum (tbl_egi_v2_1 ?c)"
  have r: "stored (bank ad) (rom ad) (tbl_hdr ?c) (tbl_egi_v2_1 ?c) rs" "header_shape (length rs) (tbl_hdr ?c) (tbl_egi_v2_1 ?c)"
    "unat (num_recs ?c) = length rs" "tbl_byte_sum ?c = ?H + ?E" "max_record_num ?c = 10655"
    using assms(2) by (simp_all add: rewound_def header_ok_def Let_def ras_eeprom_v2_1_calc_tbl_byte_sum_def)
  have run: "ras_eeprom_v2_1_fix_header_ext ds ad =
      ras_eeprom_v2_1_reset_read_control (write_header_and_ext (ras_eeprom_v2_1_update_tbl_checksum ds ?H ?E ad))"
    by (simp add: ras_eeprom_v2_1_fix_header_ext_def Let_def rewound_rewind [OF assms(2)])
  obtain ad' x where s: "ras_eeprom_v2_1_reset_read_control (write_header_and_ext (ras_eeprom_v2_1_update_tbl_checksum ds ?H ?E ad)) = ad'"
    "same_env ad ad'" "bank ad' = bank ad"
    "control ad' = ?c\<lparr>tbl_hdr := (tbl_hdr ?c)\<lparr>hdr_checksum := x\<rparr>, next_addr := 276, tbl_byte_sum := ras_eeprom_v2_1_calc_tbl_byte_sum [] ?c\<rparr>"
    "get_block (bank ad + 20) 256 (rom ad') = encode_extra_info_to_buff (tbl_egi_v2_1 (control ad')) @ replicate 252 0"
    using resync_ok [OF assms(1) r(4), of ds] by blast
  have "rewound ds ad'" if l: "length ds = length rs"
  proof -
    have "get_block (bank ad + 276) (24 * length ds) (rom ad) = concat (map encode_table_record_to_buff ds)"
      using r(1) l assms(3) [OF l] by (simp add: stored_def o_def)
    then show ?thesis using resync_rewound [OF assms(1) r(4), of ds] r(2,3,5) s(1) l by auto
  qed
  moreover have "append_ok [] (ras_eeprom_v2_1_reset_write_control ad')"
    using r(2,5) padding_block [OF s(5)] s(3)
    by (simp add: append_ok_def Let_def ras_eeprom_v2_1_calc_tbl_byte_sum_def ras_eeprom_v2_1_reset_write_control_def ras_eeprom_v2_1_reset_read_control_def s(4)
        EEPROM_RECORD_START_V2_1_def header_shape_def bank_def)
  ultimately show ?thesis unfolding run using s(1-3) by (simp add: s(4))
qed

lemma overwrite_ok:
  assumes "works ad" "append_ok [] (ras_eeprom_v2_1_reset_write_control ad)" "length ds \<le> 2719"
  shows "\<exists>ad'. ras_eeprom_v2_1_overwrite_table ds ad = (0, ad') \<and> same_env ad ad' \<and> bank ad' = bank ad \<and> rewound ds ad'"
proof -
  let ?ad = "ras_eeprom_v2_1_reset_write_control ad"
  have env: "same_env ad ?ad" "bank ?ad = bank ad"
    by (simp_all add: ras_eeprom_v2_1_reset_write_control_def ras_eeprom_v2_1_reset_read_control_def same_env_def bank_def)
  obtain ad' where "ras_eeprom_v2_1_process_records True ds ?ad = (0, ds, ad')" "same_env ?ad ad'" "eeprom_ok ds ad'" "bank ad' = bank ?ad"
    using process_records_write_ok [OF same_env_works [OF env(1) assms(1)] assms(2), of ds] assms(3) by auto
  moreover from this have "same_env ad (ras_eeprom_v2_1_reset_read_control ad')"
    using same_env_trans [OF same_env_trans [OF env(1)] rewind_env(1)] by blast
  ultimately show ?thesis using rewind_ok [of ds ad'] env(2) by (simp add: ras_eeprom_v2_1_overwrite_table_def)
qed

lemma fix_overwrite_ok:
  assumes "works ad" "rewound rs ad"
  shows "\<exists>ad'. ras_eeprom_v2_1_fix_overwrite_table (map stored_record rs) force ad = ad' \<and> same_env ad ad' \<and> bank ad' = bank ad \<and>
    rewound (kept_records rs) ad'"
proof -
  let ?ds = "kept_records rs"
  have len: "length ?ds \<le> length rs" using remove_dups_length [of "map stored_record rs"] by (simp add: kept_records_def)
  have le: "length rs \<le> 2719" "unat (num_recs (control ad)) = length rs"
    using assms(2) by (simp_all add: rewound_def header_ok_def header_shape_def Let_def)
  have id: "?ds = map stored_record rs" if "length ?ds = length rs"
    using remove_dups_id [of "map stored_record rs"] that by (simp add: kept_records_def)
  obtain ad1 where f: "ras_eeprom_v2_1_fix_header_ext ?ds ad = ad1" "same_env ad ad1" "bank ad1 = bank ad"
    "length ?ds = length rs \<Longrightarrow> rewound ?ds ad1" "append_ok [] (ras_eeprom_v2_1_reset_write_control ad1)"
    using fix_header_ext_ok [OF assms id] by blast
  have w1: "works ad1" by (rule same_env_works [OF f(2) assms(1)])
  let ?over = "force \<or> of_nat (length ?ds) \<noteq> num_recs (control ad)"
  define ad2 where "ad2 = (if ?over then snd (ras_eeprom_v2_1_overwrite_table ?ds ad1) else ad1)"
  have "same_env ad ad2 \<and> bank ad2 = bank ad \<and> rewound ?ds ad2"
  proof (cases ?over)
    case True
    then show ?thesis using overwrite_ok [OF w1 f(5), of ?ds] len le(1) f(2,3) by (auto simp: ad2_def intro: same_env_trans)
  next
    case False
    then have "length ?ds = length rs" using le len by (auto simp: word_unat_eq_iff unat_of_nat)
    then show ?thesis using False f(2-4) by (simp add: ad2_def)
  qed
  then have a2: "same_env ad ad2" "bank ad2 = bank ad" "rewound ?ds ad2" "works ad2" using same_env_works assms(1) by blast+
  obtain ad3 where "ras_eeprom_v2_1_fix_threshold ?ds ad2 = ad3" "same_env ad2 ad3" "bank ad3 = bank ad2" "rewound ?ds ad3"
    using fix_threshold_ok [OF a2(4,3)] by blast
  then show ?thesis using a2 f(1)
    by (auto simp: ras_eeprom_v2_1_fix_overwrite_table_def Let_def ad2_def simp flip: kept_records_def intro: same_env_trans)
qed

lemma checksum_valid:
  assumes "header_ok rs (tbl_hdr c) (tbl_egi_v2_1 c)" "tbl_byte_sum c = ras_eeprom_v2_1_calc_tbl_byte_sum rs c"
  shows "validate_tbl_checksum c"
  using assms by (simp add: validate_tbl_checksum_def header_ok_def ras_eeprom_v2_1_calc_tbl_byte_sum_def)

lemma cache_and_validate_ok:
  assumes "works ad" "rewound rs ad" "length xs = length rs"
  shows "\<exists>ad'. ras_eeprom_v2_1_cache_and_validate_recs xs ad = (True, map stored_record rs, ad') \<and> same_env ad ad' \<and>
    bank ad' = bank ad \<and> rewound rs ad'"
proof -
  obtain ad' where p: "ras_eeprom_v2_1_process_records False xs ad = (0, map stored_record rs, ad')" "same_env ad ad'"
    "eeprom_ok rs ad'" "bank ad' = bank ad"
    using read_rewound [OF assms] by blast
  have "validate_tbl_checksum (control ad')" using p(3) by (intro checksum_valid [of rs]) (simp_all add: eeprom_ok_def Let_def)
  then show ?thesis using p rewind_ok [OF p(3)] rewind_env [of ad']
    by (auto simp: ras_eeprom_v2_1_cache_and_validate_recs_def intro: same_env_trans)
qed

lemma fix_and_upgrade_ok:
  assumes "works ad" "rewound rs ad" "\<not> bit (bad_page_detection_mode ad) 0"
  shows "\<exists>ad'. ras_eeprom_v2_1_fix_and_upgrade_table ad = (0, ad') \<and> same_env ad ad' \<and> bank ad' = bank ad \<and> rewound (kept_records rs) ad'"
proof -
  let ?n = "unat (num_recs (control ad))"
  have n: "?n = length rs" using assms(2) by (simp add: rewound_def Let_def)
  define p where "p = (if ?n \<noteq> 0 then oss_zalloc ad else (True, ad))"
  obtain ad0 where p: "p = (True, ad0)" "same_env ad ad0" "control ad0 = control ad" "rom ad0 = rom ad"
  proof (cases "?n = 0")
    case True
    then show ?thesis using that [of ad] by (simp add: p_def)
  next
    case False
    then show ?thesis using that [of "ad\<lparr>allocations := Suc (allocations ad)\<rparr>"] assms(1)
      by (simp add: p_def oss_zalloc_def works_def same_env_def)
  qed
  have w0: "works ad0" by (rule same_env_works [OF p(2) assms(1)])
  have r0: "rewound rs ad0" using assms(2) by (simp add: rewound_def bank_def p(3,4))
  obtain ad1 where c: "ras_eeprom_v2_1_cache_and_validate_recs (replicate ?n zero_record) ad0 = (True, map stored_record rs, ad1)"
    "same_env ad0 ad1" "bank ad1 = bank ad0" "rewound rs ad1"
    using cache_and_validate_ok [OF w0 r0, of "replicate ?n zero_record"] n by auto
  obtain ad2 where f: "ras_eeprom_v2_1_fix_overwrite_table (map stored_record rs) False ad1 = ad2" "same_env ad1 ad2" "bank ad2 = bank ad1"
    "rewound (kept_records rs) ad2"
    using fix_overwrite_ok [OF same_env_works [OF c(2) w0] c(4)] by blast
  have "ras_eeprom_v2_1_fix_and_upgrade_table ad = (0, ras_eeprom_v2_1_reset_read_control ad2)"
    using assms(3) c(1) f(1) unfolding ras_eeprom_v2_1_fix_and_upgrade_table_def Let_def p(1) [unfolded p_def] by simp
  moreover have "bank ad0 = bank ad" by (simp add: bank_def p(3))
  ultimately show ?thesis using p(2) c(2,3) f(2-4) rewound_rewind [OF f(4)] by (auto intro: same_env_trans)
qed

section \<open>Boot\<close>

lemma parse_header_ok:
  assumes "works ad" "stored (bank ad) (rom ad) hdr egi rs" "header_ok rs hdr egi" "egi_padding (tbl_egi_v2_1 (control ad)) = replicate 252 0"
  shows "\<exists>ad'. ras_eeprom_v2_1_parse_header ad = (0, ad') \<and> same_env ad ad' \<and> rom ad' = rom ad \<and>
    control ad' = (control ad)\<lparr>tbl_hdr := hdr, tbl_egi_v2_1 := egi\<rparr>"
proof -
  have blk: "get_block (bank ad) 20 (rom ad) = encode_table_header_to_buff hdr"
    "get_block (bank ad + 20) 256 (rom ad) = encode_extra_info_to_buff egi @ replicate 252 0"
    using assms(2) by (simp_all add: stored_def)
  obtain t where t: "ras_eeprom_v2_1_get_eeprom_data 0 20 ad = (1, encode_table_header_to_buff hdr, ad\<lparr>transactions := t\<rparr>)" "transactions ad \<le> t"
    using get_data_ok [OF assms(1), of 0 20] blk(1) by auto
  let ?ad1 = "(ad\<lparr>transactions := t\<rparr>)\<lparr>control := (control ad)\<lparr>tbl_hdr := hdr\<rparr>, allocations := Suc (allocations ad)\<rparr>"
  have w1: "works ?ad1" using assms(1) t(2) by (auto simp: works_def)
  obtain u where u: "ras_eeprom_v2_1_get_eeprom_data 20 256 ?ad1 = (1, encode_extra_info_to_buff egi @ replicate 252 0, ?ad1\<lparr>transactions := u\<rparr>)" "t \<le> u"
    using get_data_ok [OF w1, of 20 256] blk(2) by (auto simp: bank_def)
  have e: "decode_extra_info_from_buff (encode_extra_info_to_buff egi @ replicate 252 0) (tbl_egi_v2_1 (control ad)) = egi"
    using assms(3,4) by (simp add: decode_encode_extra header_ok_def header_shape_def)
  have z: "oss_zalloc (ad\<lparr>transactions := t, control := (control ad)\<lparr>tbl_hdr := hdr\<rparr>\<rparr>) = (True, ?ad1)"
    using assms(1) by (simp add: oss_zalloc_def works_def)
  let ?ad2 = "?ad1\<lparr>transactions := u, control := (control ad)\<lparr>tbl_hdr := hdr, tbl_egi_v2_1 := egi\<rparr>\<rparr>"
  have "ras_eeprom_v2_1_parse_table_hdr_extra_info (ad\<lparr>transactions := t, control := (control ad)\<lparr>tbl_hdr := hdr\<rparr>\<rparr>) = (1, ?ad2)"
    unfolding ras_eeprom_v2_1_parse_table_hdr_extra_info_def z using u(1) e by simp
  then have "ras_eeprom_v2_1_parse_header ad = (0, ?ad2)"
    using t(1) assms(1,3) by (auto simp: ras_eeprom_v2_1_parse_header_def header_code.dec_exact header_ok_def header_shape_def works_def Let_def)
  moreover have "same_env ad ?ad2" using t(2) u(2) by (simp add: same_env_def)
  ultimately show ?thesis by simp
qed

lemma init_sw_control_ok:
  assumes "stored (bank ad) (rom ad) (tbl_hdr (control ad)) (tbl_egi_v2_1 (control ad)) rs"
    "header_ok rs (tbl_hdr (control ad)) (tbl_egi_v2_1 (control ad))"
  shows "\<exists>ad'. ras_eeprom_v2_1_init_sw_control ad = (0, ad') \<and> same_env ad ad' \<and> bank ad' = bank ad \<and> rewound rs ad'"
proof -
  let ?c = "control ad" and ?s = "tbl_size (tbl_hdr (control ad))"
  have s: "unat ?s = 276 + 24 * length rs" "hdr_version (tbl_hdr ?c) \<in> {EEPROM_TABLE_VER_V2_1, EEPROM_TABLE_VER_V3, EEPROM_TABLE_VER_V4}"
    using assms(2) by (simp_all add: header_ok_def header_shape_def)
  have "?s - 20 - 256 = ?s - 276" by simp
  moreover have "unat (?s - 276) = 24 * length rs" using s(1) by (simp add: unat_sub word_le_nat_alt)
  ultimately have n: "unat ((?s - 20 - 256) div 24) = length rs" by (simp add: unat_div_distrib)
  have "\<not> ?s < 20 + 256" using s(1) by (simp add: word_less_nat_alt)
  then have "ras_eeprom_v2_1_init_sw_control ad = (0, update_control (\<lambda>c. c\<lparr>num_recs := (?s - 20 - 256) div 24, next_addr := 276,
      max_record_num := (256000 - 20 - 256) div 24,
      tbl_byte_sum := calc_hdr_byte_sum (tbl_hdr c) + calc_extra_info_byte_sum (tbl_egi_v2_1 c)\<rparr>) ad)"
    using s(2) by (auto simp: ras_eeprom_v2_1_init_sw_control_def Let_def EEPROM_RECORD_START_V2_1_def)
  then show ?thesis using assms n
    by (simp add: rewound_def Let_def bank_def ras_eeprom_v2_1_calc_tbl_byte_sum_def)
qed

lemma init_ok:
  assumes "works ad" "stored (device_base (ucast (rom_i2c_address ad))) (rom ad) hdr egi rs" "header_ok rs hdr egi"
    "egi_padding (tbl_egi_v2_1 (control ad)) = replicate 252 0" "\<not> in_whole_gpu_reset ad" "\<not> bit (bad_page_detection_mode ad) 0"
  shows "\<exists>ad'. ras_eeprom_v2_1_init ad = (0, ad') \<and> same_env ad ad' \<and> rewound (kept_records rs) ad'"
proof -
  let ?ad = "update_control (\<lambda>c. c\<lparr>i2c_address := ucast (rom_i2c_address ad)\<rparr>) ad"
  have w: "works ?ad" and b: "bank ?ad = device_base (ucast (rom_i2c_address ad))" using assms(1) by (simp_all add: works_def bank_def)
  obtain ad1 where p: "ras_eeprom_v2_1_parse_header ?ad = (0, ad1)" "same_env ?ad ad1" "rom ad1 = rom ad"
    "control ad1 = (control ?ad)\<lparr>tbl_hdr := hdr, tbl_egi_v2_1 := egi\<rparr>"
    using parse_header_ok [OF w, of hdr egi rs] assms(2-4) b by auto
  have b1: "bank ad1 = bank ?ad" by (simp add: bank_def p(4))
  obtain ad2 where s: "ras_eeprom_v2_1_init_sw_control ad1 = (0, ad2)" "same_env ad1 ad2" "rewound rs ad2"
    using init_sw_control_ok [of ad1 rs] assms(2,3) unfolding b1 b p(3) by (auto simp: p(4))
  have e1: "same_env ad ad1" using p(2) by (simp add: same_env_def)
  have e2: "same_env ad ad2" by (rule same_env_trans [OF e1 s(2)])
  have "\<not> max_record_num (control ad2) < num_recs (control ad2)"
    using s(3) by (simp add: rewound_def header_ok_def header_shape_def Let_def word_less_nat_alt)
  moreover obtain ad3 where f: "ras_eeprom_v2_1_fix_and_upgrade_table ad2 = (0, ad3)" "same_env ad2 ad3" "rewound (kept_records rs) ad3"
    using fix_and_upgrade_ok [OF same_env_works [OF e2 assms(1)] s(3)] assms(6) e2 by (auto simp: same_env_def)
  moreover have "\<not> in_whole_gpu_reset ad1" using assms(5) e1 by (simp add: same_env_def)
  ultimately have "ras_eeprom_v2_1_init ad = (0, ad3)" using p(1) s(1) by (simp add: ras_eeprom_v2_1_init_def umc_v12_0_get_eeprom_i2c_params_def Let_def)
  then show ?thesis using f(3) same_env_trans [OF e2 f(2)] by blast
qed

section \<open>A new table\<close>

lemma reset_table_ok:
  assumes "works ad" "egi_padding (tbl_egi_v2_1 (control ad)) = replicate 252 0"
  shows "\<exists>ad'. ras_eeprom_v2_1_reset_table ad = (0, ad') \<and> same_env ad ad' \<and> bank ad' = bank ad \<and> eeprom_ok [] ad'"
proof -
  let ?hdr = "(tbl_hdr (control ad))\<lparr>hdr_header := EEPROM_TABLE_HDR_VAL,
      hdr_version := (if eeprom_version ad = EEPROM_TABLE_VER_V3 then EEPROM_TABLE_VER_V3 else EEPROM_TABLE_VER_V2_1),
      first_rec_offset := 276, tbl_size := 276\<rparr>"
  let ?egi = "(tbl_egi_v2_1 (control ad))\<lparr>rma_status := 0, gpu_healthy := 100, ecc_page_threshold := ucast (eeprom_BAD_PAGE_RECORD_THRESHOLD ad)\<rparr>"
  define c where "c = (control ad)\<lparr>tbl_hdr := ?hdr, tbl_egi_v2_1 := ?egi, next_addr := 276, tbl_byte_sum := 0, num_recs := 0, max_record_num := 10655\<rparr>"
  let ?s = "ras_eeprom_v2_1_calc_tbl_byte_sum [] c"
  define c' where "c' = c\<lparr>tbl_byte_sum := ?s, tbl_hdr := ?hdr\<lparr>hdr_checksum := 256 - ?s mod 256\<rparr>\<rparr>"
  let ?ad = "ad\<lparr>control := c'\<rparr>"
  have w: "works ?ad" and b: "bank ?ad = bank ad" using assms(1) by (simp_all add: works_def bank_def c_def c'_def)
  obtain ad' where wr: "(let (_, ad) = ras_eeprom_v2_1_write_table_header ?ad; (_, ad) = ras_eeprom_v2_1_write_table_header_ext True ad in ad) = ad'"
    "same_env ?ad ad'" "control ad' = c'" "get_block (bank ad) 20 (rom ad') = encode_table_header_to_buff (tbl_hdr c')"
    "get_block (bank ad + 20) 256 (rom ad') = encode_extra_info_to_buff (tbl_egi_v2_1 c') @ replicate 252 0"
    using write_both_ok [OF w, of True] unfolding b by auto
  obtain t where t: "ras_eeprom_v2_1_write_table_header ?ad =
      (1, ?ad\<lparr>transactions := t, rom := put_block (bank ?ad) (encode_table_header_to_buff (tbl_hdr (control ?ad))) (rom ?ad)\<rparr>)" "transactions ?ad \<le> t"
    using write_header_ok [OF w] by blast
  let ?ad1 = "?ad\<lparr>transactions := t, rom := put_block (bank ?ad) (encode_table_header_to_buff (tbl_hdr (control ?ad))) (rom ?ad)\<rparr>"
  have w1: "works ?ad1" using w t(2) by (auto simp: works_def)
  obtain ad2 where u: "ras_eeprom_v2_1_write_table_header_ext True ?ad1 = (1, ad2)" using write_ext_ok [OF w1, of True] by blast
  have upd: "ras_eeprom_v2_1_update_tbl_checksum [] 0 0 (ad\<lparr>control := c\<rparr>) = ?ad"
    by (simp add: ras_eeprom_v2_1_update_tbl_checksum_def Let_def c'_def) (simp add: c_def)
  have "ras_eeprom_v2_1_reset_table ad = (0, ad2)"
    using upd t(1) u by (simp add: ras_eeprom_v2_1_reset_table_def Let_def c_def EEPROM_RECORD_START_V2_1_def)
  moreover have "ad' = ad2" using wr(1) [unfolded t(1) Let_def prod.case u] by simp
  moreover have "eeprom_ok [] ad'"
  proof -
    have hdr: "tbl_hdr c' = ?hdr\<lparr>hdr_checksum := 256 - ?s mod 256\<rparr>" and egi: "tbl_egi_v2_1 c' = ?egi" by (simp_all add: c'_def c_def)
    have s: "?s = calc_hdr_byte_sum ?hdr + calc_extra_info_byte_sum ?egi" by (simp add: ras_eeprom_v2_1_calc_tbl_byte_sum_def c_def)
    have "bank ad' = bank ad" by (simp add: bank_def wr(3) c_def c'_def)
    moreover have "header_ok [] (tbl_hdr c') (tbl_egi_v2_1 c')"
      using assms(2) by (auto simp: header_ok_def header_shape_def hdr egi s)
    ultimately show ?thesis using wr(4,5)
      by (simp add: eeprom_ok_def Let_def wr(3) stored_def get_block_def) (simp add: c'_def c_def ras_eeprom_v2_1_calc_tbl_byte_sum_def)
  qed
  moreover have "same_env ad ad'" "bank ad' = bank ad" using wr(2,3) by (simp_all add: same_env_def bank_def c_def c'_def)
  ultimately show ?thesis by blast
qed

section \<open>Saving new pages\<close>

lemma channel_flag [simp]: "eeprom_ok rs (ad\<lparr>update_channel_flag := f\<rparr>) \<longleftrightarrow> eeprom_ok rs ad"
  "works (ad\<lparr>update_channel_flag := f\<rparr>) \<longleftrightarrow> works ad"
  by (simp_all add: eeprom_ok_def works_def bank_def Let_def)

text \<open>The records that the driver takes for synchronised are the table.\<close>

definition umc_ok :: "umc_adapter \<Rightarrow> bool" where
  "umc_ok u \<longleftrightarrow> works (umc_eeprom u) \<and> (case eh_data u of None \<Rightarrow> False
     | Some data \<Rightarrow> num_recs_synced data \<le> length (bps data) \<and> eeprom_ok (take (num_recs_synced data) (bps data)) (umc_eeprom u))"

definition saves :: "umc_adapter \<Rightarrow> bool" where
  "saves u \<longleftrightarrow> \<not> bit (bad_page_detection_mode (umc_eeprom u)) AMDGV_RAS_ECC_FLAG_SKIP_BAD_PAGE_OPS \<and> \<not> is_pmfw_managed_eeprom u"

section \<open>A write that fails\<close>

lemma record_failed:
  assumes "ras_eeprom_v2_1_process_record True r ad = (ret, r', ad')" "ret \<noteq> 0" "unat (next_addr (control ad)) + 24 \<le> 65536" "m24m02 ad"
  shows "r' = r \<and> ret = AMDGV_FAILURE \<and> (\<exists>m t. ad' = ad\<lparr>transactions := t, rom := m\<rparr> \<and>
    (\<forall>i. i < bank ad + unat (next_addr (control ad)) \<or> bank ad + unat (next_addr (control ad)) + 24 \<le> i \<longrightarrow> m i = rom ad i))"
proof -
  let ?a = "next_addr (control ad)" and ?bs = "encode_table_record_to_buff r"
  obtain ok m t where w: "write_eeprom_data ?bs ?a ad = (if ok then 1 else AMDGV_FAILURE, ad\<lparr>transactions := t, rom := m\<rparr>)"
    "\<forall>i. i < bank ad + unat ?a \<or> bank ad + unat ?a + length ?bs \<le> i \<longrightarrow> m i = rom ad i"
    using write_data_any [of ?a ?bs ad] assms(3,4) by (auto simp: record_code.length_enc)
  have "\<not> ok" using w(1) assms(1,2)
    by (cases ok) (auto simp: ras_eeprom_v2_1_process_record_def ras_eeprom_v2_1_i2c_transfer_record_def Let_def)
  then have "(ret, r', ad') = (AMDGV_FAILURE, r, ad\<lparr>transactions := t, rom := m\<rparr>)" using w(1) assms(1)
    by (auto simp: ras_eeprom_v2_1_process_record_def ras_eeprom_v2_1_i2c_transfer_record_def Let_def)
  then show ?thesis using w(2) by (auto simp: record_code.length_enc)
qed

lemma record_written:
  assumes "ras_eeprom_v2_1_process_record True r ad = (0, r', ad')" "unat (next_addr (control ad)) + 24 \<le> 65536" "m24m02 ad"
  shows "\<exists>b t f. ad' = with_io (record_moved (next_addr (control ad) + 24) b (control ad))
      (put_block (bank ad + unat (next_addr (control ad))) (encode_table_record_to_buff r) (rom ad)) t (allocations ad) f ad"
proof -
  let ?a = "next_addr (control ad)" and ?bs = "encode_table_record_to_buff r"
  obtain ok m t where w: "write_eeprom_data ?bs ?a ad = (if ok then 1 else AMDGV_FAILURE, ad\<lparr>transactions := t, rom := m\<rparr>)"
    "ok \<longrightarrow> m = put_block (bank ad + unat ?a) ?bs (rom ad)"
    using write_data_any [of ?a ?bs ad] assms(2,3) by (auto simp: record_code.length_enc)
  have ok: ok using w(1) assms(1)
    by (cases ok) (auto simp: ras_eeprom_v2_1_process_record_def ras_eeprom_v2_1_i2c_transfer_record_def Let_def)
  let ?ad = "update_control (\<lambda>c. c\<lparr>next_addr := next_addr c + 24\<rparr>) (ad\<lparr>transactions := t, rom := m\<rparr>)"
  obtain b f where "update_bad_channel_bitmap r ?ad = with_io ((control ?ad)\<lparr>bad_channel_bitmap := b\<rparr>) (rom ?ad) (transactions ?ad) (allocations ?ad) f ?ad"
    using bitmap_with_io by blast
  then show ?thesis using w ok assms(1)
    by (auto simp: ras_eeprom_v2_1_process_record_def ras_eeprom_v2_1_i2c_transfer_record_def Let_def with_io_def record_moved_def)
qed

lemma get_block_cong: "(\<And>i. a \<le> i \<Longrightarrow> i < a + n \<Longrightarrow> m i = m' i) \<Longrightarrow> get_block a n m = get_block a n m'"
  by (simp add: get_block_def)

text \<open>The records of a table after a failed second write, when both are written again behind the first.\<close>

lemma shifted_block:
  assumes "get_block (B + 276) (24 * length rs) m0 = concat (map encode_table_record_to_buff rs)"
    "\<forall>i. i < B + 300 + 24 * length rs \<or> B + 324 + 24 * length rs \<le> i \<longrightarrow>
      m i = put_block (B + 276 + 24 * length rs) (encode_table_record_to_buff r1) m0 i"
  shows "get_block (B + 276) (24 * length (rs @ [r1, r1])) (put_block (B + 300 + 24 * length rs)
      (encode_table_record_to_buff r1 @ encode_table_record_to_buff r2) m) = concat (map encode_table_record_to_buff (rs @ [r1, r1]))"
proof -
  let ?N = "B + 300 + 24 * length rs" and ?e = encode_table_record_to_buff
  let ?m = "put_block ?N (?e r1 @ ?e r2) m"
  have e: "length (?e r) = 24" for r by (simp add: record_code.length_enc)
  have split: "24 * length (rs @ [r1, r1]) = 24 * length rs + (24 + 24)" by simp
  have low: "get_block a n ?m = get_block a n (put_block (B + 276 + 24 * length rs) (?e r1) m0)" if "a + n \<le> ?N" for a n
  proof -
    have "get_block a n ?m = get_block a n m" using that by (simp add: get_put_other)
    also have "\<dots> = get_block a n (put_block (B + 276 + 24 * length rs) (?e r1) m0)"
      using assms(2) that by (intro get_block_cong) auto
    finally show ?thesis .
  qed
  have "get_block (B + 276) (24 * length rs) ?m = concat (map ?e rs)" by (subst low) (simp_all add: assms(1) get_put_other)
  moreover have "get_block (B + 276 + 24 * length rs) 24 ?m = ?e r1" by (subst low) (simp_all add: get_put_same e)
  moreover have "get_block ?N 24 ?m = ?e r1"
  proof -
    have "?m = put_block (?N + 24) (?e r2) (put_block ?N (?e r1) m)" using put_block_append [of ?N "?e r1" "?e r2" m] by (simp add: e)
    then show ?thesis by (simp add: get_put_other get_put_same e)
  qed
  then have "get_block (B + 276 + 24 * length rs + 24) 24 ?m = ?e r1" by (simp add: add.commute add.left_commute)
  ultimately show ?thesis unfolding split get_block_append by simp
qed

lemma failed_write_shifts:
  assumes "eeprom_ok rs ad" "length rs + 3 \<le> 2719"
    "ras_eeprom_v2_1_process_record True r1 ad = (0, x, ad1)" "ras_eeprom_v2_1_process_record True r2 ad1 = (e, y, ad2)" "e \<noteq> 0"
    "works ad2" "m24m02 ad"
  shows "ras_eeprom_v2_1_process_records True [r1, r2] ad = (AMDGV_FAILURE, [x, r2], ad2) \<and>
    bad_page_detection_mode ad2 = bad_page_detection_mode ad \<and>
    (\<exists>ad3. ras_eeprom_v2_1_process_records True [r1, r2] ad2 = (0, [r1, r2], ad3) \<and> works ad3 \<and>
      stored (bank ad3) (rom ad3) (tbl_hdr (control ad3)) (tbl_egi_v2_1 (control ad3)) (rs @ [r1, r1]) \<and>
      header_ok (rs @ [r1, r2]) (tbl_hdr (control ad3)) (tbl_egi_v2_1 (control ad3)) \<and> max_record_num (control ad3) = 10655)"
proof -
  let ?c = "control ad" and ?a = "next_addr (control ad)" and ?B = "bank ad"
  have k: "stored ?B (rom ad) (tbl_hdr ?c) (tbl_egi_v2_1 ?c) rs" "header_shape (length rs) (tbl_hdr ?c) (tbl_egi_v2_1 ?c)"
    "unat (num_recs ?c) = length rs" "unat ?a = 276 + 24 * length rs" "tbl_byte_sum ?c = ras_eeprom_v2_1_calc_tbl_byte_sum rs ?c"
    "max_record_num ?c = 10655" "first_rec_offset (tbl_hdr ?c) = 276"
    using assms(1) by (simp_all add: eeprom_ok_def header_ok_def header_shape_def Let_def)
  obtain b t f where ad1: "ad1 = with_io (record_moved (?a + 24) b ?c) (put_block (?B + unat ?a) (encode_table_record_to_buff r1) (rom ad))
      t (allocations ad) f ad"
    using record_written [OF assms(3)] k(4) assms(2,7) by auto
  have a1: "unat (next_addr (control ad1)) = 300 + 24 * length rs"
    using k(4) assms(2) by (simp add: ad1 unat_word_ariths)
  obtain m t' where f: "y = r2" "e = AMDGV_FAILURE" "ad2 = ad1\<lparr>transactions := t', rom := m\<rparr>"
    "\<forall>i. i < ?B + (300 + 24 * length rs) \<or> ?B + (300 + 24 * length rs) + 24 \<le> i \<longrightarrow> m i = rom ad1 i"
    using record_failed [OF assms(4,5)] a1 assms(2,7) by (auto simp: ad1 bank_def)
  have first: "ras_eeprom_v2_1_process_records True [r1, r2] ad = (AMDGV_FAILURE, [x, r2], ad2)"
  proof -
    have "supports_ras_eeprom ad" using assms(6) by (simp add: works_def f(3) ad1)
    moreover have "\<not> ras_eeprom_v2_1_entry_overflow ?c" using no_overflow [OF k(7,6)] k(4) assms(2) by simp
    moreover have "\<not> ras_eeprom_v2_1_entry_overflow (control ad1)"
      using no_overflow [of "control ad1"] a1 k(6,7) assms(2) by (simp add: ad1)
    ultimately show ?thesis using assms(3,4) f(1,2) by (simp add: ras_eeprom_v2_1_process_records_def)
  qed
  have B2: "bank ad2 = ?B" by (simp add: f(3) ad1 bank_def)
  have low: "get_block a n (rom ad2) = get_block a n (rom ad)" if "a + n \<le> ?B + 276 + 24 * length rs" for a n
  proof -
    have "get_block a n m = get_block a n (rom ad1)" using f(4) that by (intro get_block_cong) auto
    then show ?thesis using that k(4) by (simp add: f(3) ad1 get_put_other)
  qed
  have zero: "get_block (bank ad2 + 24) 252 (rom ad2) = replicate 252 0" unfolding B2 using stored_padding [OF k(1)] by (simp add: low)
  obtain ad3 where w: "ras_eeprom_v2_1_process_records True [r1, r2] ad2 = (0, [r1, r2], ad3)" "same_env ad2 ad3" "bank ad3 = bank ad2"
    "header_ok (rs @ [r1, r2]) (tbl_hdr (control ad3)) (tbl_egi_v2_1 (control ad3))" "max_record_num (control ad3) = 10655"
    "get_block ?B 20 (rom ad3) = encode_table_header_to_buff (tbl_hdr (control ad3))"
    "get_block (?B + 20) 256 (rom ad3) = encode_extra_info_to_buff (tbl_egi_v2_1 (control ad3)) @ replicate 252 0"
    "\<forall>a n. ?B + 276 \<le> a \<longrightarrow> get_block a n (rom ad3) = get_block a n (put_block (?B + (300 + 24 * length rs))
      (concat (map encode_table_record_to_buff [r1, r2])) (rom ad2))"
    using process_records_write_at [OF assms(6) zero, of rs "300 + 24 * length rs" "[r1, r2]"] k(2,3,5,6) a1 assms(2) unfolding B2
    by (auto simp: f(3) ad1 ras_eeprom_v2_1_calc_tbl_byte_sum_def)
  have "get_block (?B + 276) (24 * length (rs @ [r1, r1])) (rom ad3) = concat (map encode_table_record_to_buff (rs @ [r1, r1]))"
    using shifted_block [of ?B rs "rom ad" "rom ad2" r1 r2] k(1,4) f(4) w(8) by (simp add: f(3) ad1 stored_def add.assoc)
  then have "stored (bank ad3) (rom ad3) (tbl_hdr (control ad3)) (tbl_egi_v2_1 (control ad3)) (rs @ [r1, r1])"
    using w(6,7) by (simp add: stored_def w(3) B2)
  moreover have "bad_page_detection_mode ad2 = bad_page_detection_mode ad" by (simp add: f(3) ad1)
  ultimately show ?thesis using first w(1,4,5) same_env_works [OF w(2) assms(6)] by blast
qed

lemma nat_mod_256: "int m mod 256 = int n mod 256 \<longleftrightarrow> m mod 256 = n mod 256"
  by (metis of_nat_eq_iff of_nat_numeral zmod_int)

lemma sum_mod_cancel:
  assumes "(h + a) mod 256 = (h + b) mod (256 :: u32)"
  shows "a mod 256 = b mod 256"
proof -
  have m: "unat (w mod 256) = unat w mod 256" for w :: u32
    by (simp add: unat_mod_distrib)
  have u: "unat ((h + x) mod 256) = (unat h + unat x) mod 256" for x
  proof -
    have "unat (h + x) mod 256 = (unat h + unat x) mod 2 ^ 32 mod 256" by (simp only: unat_word_ariths(1) len_of_numeral_defs) simp
    also have "\<dots> = (unat h + unat x) mod 256" by (rule mod_mod_cancel) simp
    finally show ?thesis unfolding m .
  qed
  have "(unat h + unat a) mod 256 = (unat h + unat b) mod 256" unfolding u [symmetric] assms ..
  then have "(int (unat h) + int (unat a)) mod 256 = (int (unat h) + int (unat b)) mod 256" by (simp only: of_nat_add [symmetric] nat_mod_256)
  then have "(int (unat h) + int (unat a) - int (unat h)) mod 256 = (int (unat h) + int (unat b) - int (unat h)) mod 256"
    by (rule mod_diff_cong) (rule refl)
  then have "int (unat a) mod 256 = int (unat b) mod 256" by simp
  then have "unat a mod 256 = unat b mod 256" by (simp only: nat_mod_256)
  then show ?thesis unfolding m [symmetric] by (simp only: word_unat_eq_iff)
qed

text \<open>Records whose byte sum does not fit the header are not accepted.\<close>

lemma validate_fails:
  assumes "works ad" "stored (bank ad) (rom ad) (tbl_hdr (control ad)) (tbl_egi_v2_1 (control ad)) rs"
    "header_ok rs' (tbl_hdr (control ad)) (tbl_egi_v2_1 (control ad))" "length rs' = length rs" "max_record_num (control ad) = 10655"
    "ras_eeprom_v2_1_calc_recs_byte_sum rs mod 256 \<noteq> ras_eeprom_v2_1_calc_recs_byte_sum rs' mod 256" "length xs = length rs"
  shows "\<exists>ad'. ras_eeprom_v2_1_cache_and_validate_recs xs (ras_eeprom_v2_1_reset_read_control ad) = (False, map stored_record rs, ad')"
proof -
  let ?ad = "ras_eeprom_v2_1_reset_read_control ad" and ?c = "control ad"
  let ?h = "calc_hdr_byte_sum (tbl_hdr ?c) + calc_extra_info_byte_sum (tbl_egi_v2_1 ?c)"
  have w: "works ?ad" by (rule same_env_works [OF rewind_env(1) assms(1)])
  have c: "control ?ad = ?c\<lparr>next_addr := 276, tbl_byte_sum := ras_eeprom_v2_1_calc_tbl_byte_sum [] ?c\<rparr>"
    by (simp add: ras_eeprom_v2_1_reset_read_control_def EEPROM_RECORD_START_V2_1_def)
  have "header_shape (length rs) (tbl_hdr ?c) (tbl_egi_v2_1 ?c)" using assms(3,4) by (simp add: header_ok_def)
  then obtain b t f where r: "ras_eeprom_v2_1_process_records False xs ?ad = (0, map stored_record rs,
      with_io ((record_moved (276 + 24 * of_nat (length rs)) b (control ?ad))\<lparr>tbl_byte_sum := ras_eeprom_v2_1_calc_tbl_byte_sum rs (control ?ad)\<rparr>)
        (rom ?ad) t (allocations ?ad) f ?ad)"
    using process_records_read_ok [OF w, of rs xs] assms(2,5,7) by (auto simp: c stored_def)
  have "hdr_checksum (tbl_hdr ?c) + (?h + ras_eeprom_v2_1_calc_recs_byte_sum rs) mod 256 \<noteq> 256"
  proof
    assume "hdr_checksum (tbl_hdr ?c) + (?h + ras_eeprom_v2_1_calc_recs_byte_sum rs) mod 256 = 256"
    moreover have "hdr_checksum (tbl_hdr ?c) + (?h + ras_eeprom_v2_1_calc_recs_byte_sum rs') mod 256 = 256"
      using assms(3) by (simp add: header_ok_def)
    ultimately have "(?h + ras_eeprom_v2_1_calc_recs_byte_sum rs) mod 256 = (?h + ras_eeprom_v2_1_calc_recs_byte_sum rs') mod 256"
      by (metis add_left_cancel)
    then show False using assms(6) sum_mod_cancel by blast
  qed
  then show ?thesis using r
    by (simp add: ras_eeprom_v2_1_cache_and_validate_recs_def validate_tbl_checksum_def ras_eeprom_v2_1_calc_tbl_byte_sum_def c)
qed

end
