(* ===== verification/GV_Eeprom_Props.thy ===== *)
theory GV_Eeprom_Props
  imports GV_Eeprom_Boot
begin

text \<open>
  The properties of the bad-page table.
\<close>

section \<open>An example device\<close>

text \<open>An erased device on a working bus, the state of the driver before the table is created, and two records.\<close>

definition erased_eeprom :: eeprom_adapter where
  "erased_eeprom = \<lparr>control = \<lparr>tbl_hdr = \<lparr>hdr_header = 0, hdr_version = 0, first_rec_offset = 0, tbl_size = 0, hdr_checksum = 0\<rparr>,
       tbl_egi_v2_1 = \<lparr>rma_status = 0, gpu_healthy = 0, ecc_page_threshold = 0, egi_padding = replicate 252 0\<rparr>, next_addr = 0, num_recs = 0,
       tbl_byte_sum = 0, i2c_address = 0xA8, bad_channel_bitmap = 0, max_record_num = 0\<rparr>, rom = \<lambda>_. 0xFF, dev_read = device_read,
     dev_write = device_write, bus_ok = \<lambda>_. True,
     transactions = 0, mem_ok = \<lambda>_. True, allocations = 0, raw_data = None, uniras_rma = None, rom_i2c_address = 0xA8,
     supports_ras_eeprom = True, eeprom_version = 0x00021000, bp_msg_type = AMDGV_BP_MSG_INVALID, bad_page_record_threshold = 0,
     bad_page_detection_mode = 0, in_whole_gpu_reset = False, use_pf = False, rma_notified = 0, update_channel_flag = False\<rparr>"

definition new_eeprom :: eeprom_adapter where
  "new_eeprom = snd (ras_eeprom_v2_1_reset_table erased_eeprom)"

definition bad_page :: "u64 \<Rightarrow> eeprom_table_record" where
  "bad_page p = \<lparr>rec_offset = 0x40, rec_retired_page = p, rec_ts = 7, rec_err_type = 2, rec_bank = 1, rec_mem_channel = 3, rec_mcumc_id = 4\<rparr>"

lemma erased_works: "works erased_eeprom"
  by (simp add: works_def m24m02_def erased_eeprom_def)

lemma new_ok: "eeprom_ok [] new_eeprom" "same_env erased_eeprom new_eeprom" "bank new_eeprom = bank erased_eeprom" "works new_eeprom"
proof -
  obtain ad' where r: "ras_eeprom_v2_1_reset_table erased_eeprom = (0, ad')" "same_env erased_eeprom ad'"
    "bank ad' = bank erased_eeprom" "eeprom_ok [] ad'"
    using reset_table_ok [OF erased_works] by (auto simp: erased_eeprom_def)
  then have "new_eeprom = ad'" by (simp add: new_eeprom_def)
  then show "eeprom_ok [] new_eeprom" "same_env erased_eeprom new_eeprom" "bank new_eeprom = bank erased_eeprom" "works new_eeprom"
    using r same_env_works erased_works by auto
qed

lemma stored_bad_page: "p AND 0xffffffffffff = p \<Longrightarrow> stored_record (bad_page p) = bad_page p"
  by (simp add: stored_record_def bad_page_def)

section \<open>Codes\<close>

text \<open>C29. The byte formats of the table lose nothing but what they do not store: decoding an encoded header gives the header, decoding the
encoded extra information gives it, over whatever was in memory and with the reserved bytes of the latter, and decoding an encoded record gives the
record with its two addresses cut to 48 bits and its error type to 8. Bytes that follow do not matter.\<close>

lemma eeprom_codec_roundtrip:
  "decode_table_header_from_buff (encode_table_header_to_buff hdr @ rest) = hdr \<and> length (encode_table_header_to_buff hdr) = 20 \<and>
   decode_extra_info_from_buff (encode_extra_info_to_buff egi @ rest) egi' = egi\<lparr>egi_padding := egi_padding egi'\<rparr> \<and>
   decode_table_record_from_buff (encode_table_record_to_buff r @ rest) = r\<lparr>rec_offset := rec_offset r AND 0xffffffffffff,
     rec_retired_page := rec_retired_page r AND 0xffffffffffff, rec_err_type := rec_err_type r AND 0xff\<rparr> \<and>
   length (encode_table_record_to_buff r) = 24"
  using header_code.dec_enc record_code.dec_enc header_code.length_enc record_code.length_enc
  by (simp add: decode_encode_extra stored_record_def)

section \<open>Saving new pages\<close>

text \<open>C12. While bus and allocator work, saving the new bad pages succeeds and keeps the table: afterwards the device holds the bytes of a header, of
the extra information and of all records known to the driver, in order, the size and the checksum in the header fit them, the next address
is behind the last record, and all records count as synchronised. The bound is that of the 64 KB the address of the device covers.\<close>

lemma eeprom_save_bad_pages:
  assumes "umc_ok u" "saves u" "eh_data u = Some data" "length (bps data) \<le> 2719"
  shows "\<exists>u'. amdgv_umc_save_bad_pages u = (0, u') \<and> umc_ok u' \<and> saves u' \<and>
    eh_data u' = Some (data\<lparr>num_recs_synced := length (bps data)\<rparr>) \<and> eeprom_ok (bps data) (umc_eeprom u')"
proof -
  let ?k = "num_recs_synced data" and ?ad = "umc_eeprom u"
  have h: "works ?ad" "?k \<le> length (bps data)" "eeprom_ok (take ?k (bps data)) ?ad"
    using assms(1,3) by (simp_all add: umc_ok_def)
  obtain ad' where p: "ras_eeprom_v2_1_process_records True (drop ?k (bps data)) ?ad = (0, drop ?k (bps data), ad')"
    "same_env ?ad ad'" "eeprom_ok (bps data) ad'"
    using process_records_write_ok [OF h(1) eeprom_append_ok [OF h(3)], of "drop ?k (bps data)"] assms(4) by auto
  have w: "works ad'" by (rule same_env_works [OF p(2) h(1)])
  have m: "bad_page_detection_mode ad' = bad_page_detection_mode ?ad" using p(2) by (simp add: same_env_def)
  show ?thesis
  proof (cases "drop ?k (bps data) = []")
    case True
    then have k: "?k = length (bps data)" using h(2) by simp
    have d: "data\<lparr>num_recs_synced := length (bps data)\<rparr> = data" unfolding k [symmetric] by simp
    show ?thesis using p w m assms(2,3) True unfolding d
      by (simp add: amdgv_umc_save_bad_pages_def saves_def umc_ok_def k)
  next
    case False
    then show ?thesis using p w m assms(2,3)
      by (auto simp: amdgv_umc_save_bad_pages_def saves_def umc_ok_def Let_def)
  qed
qed

lemma eeprom_save_bad_pages_witness:
  "\<exists>u'. amdgv_umc_save_bad_pages \<lparr>umc_eeprom = new_eeprom, is_pmfw_managed_eeprom = False, reports_channel_flag = True,
     eh_data = Some \<lparr>bps = [bad_page 5, bad_page 9], num_recs_synced = 0\<rparr>\<rparr> = (0, u') \<and> eeprom_ok [bad_page 5, bad_page 9] (umc_eeprom u')"
proof -
  have "bad_page_detection_mode new_eeprom = 0" using new_ok(2) by (simp add: same_env_def erased_eeprom_def)
  then show ?thesis
    using eeprom_save_bad_pages [of "\<lparr>umc_eeprom = new_eeprom, is_pmfw_managed_eeprom = False, reports_channel_flag = True,
     eh_data = Some \<lparr>bps = [bad_page 5, bad_page 9], num_recs_synced = 0\<rparr>\<rparr>" "\<lparr>bps = [bad_page 5, bad_page 9], num_recs_synced = 0\<rparr>"]
      new_ok(1,4) by (auto simp: umc_ok_def saves_def)
qed

section \<open>Restart\<close>

text \<open>C4. The records survive a restart. When a driver with a new state starts on a device that holds a good table, initialisation succeeds, and loading
the announced number of records gives the stored records with the later ones of a repeated page left out: pages
are distinct, and no page is lost. The table on the device is then that of the loaded records, also when duplicates were removed or the
threshold was corrected.\<close>

lemma eeprom_survives_restart:
  assumes "eeprom_ok rs ad" "works ad'" "rom ad' = rom ad" "device_base (ucast (rom_i2c_address ad')) = bank ad"
    "egi_padding (tbl_egi_v2_1 (control ad')) = replicate 252 0" "\<not> in_whole_gpu_reset ad'"
    "\<not> bit (bad_page_detection_mode ad') AMDGV_RAS_ECC_FLAG_SKIP_BAD_PAGE_OPS"
  shows "\<exists>ad1 ad2. ras_eeprom_v2_1_init ad' = (0, ad1) \<and> unat (num_recs (control ad1)) = length (kept_records rs) \<and>
    ras_eeprom_v2_1_process_records False (replicate (length (kept_records rs)) zero_record) ad1 = (0, kept_records rs, ad2) \<and>
    eeprom_ok (kept_records rs) ad2 \<and> works ad2 \<and> distinct (map rec_retired_page (kept_records rs)) \<and>
    rec_retired_page ` set (kept_records rs) = rec_retired_page ` stored_record ` set rs"
proof -
  obtain ad1 where i: "ras_eeprom_v2_1_init ad' = (0, ad1)" "same_env ad' ad1" "rewound (kept_records rs) ad1"
    using init_ok [OF assms(2), of "tbl_hdr (control ad)" "tbl_egi_v2_1 (control ad)" rs] assms(1,3-7) by (auto simp: eeprom_ok_def Let_def)
  have w: "works ad1" by (rule same_env_works [OF i(2) assms(2)])
  obtain ad2 where l: "ras_eeprom_v2_1_process_records False (replicate (length (kept_records rs)) zero_record) ad1 = (0, kept_records rs, ad2)"
    "same_env ad1 ad2" "eeprom_ok (kept_records rs) ad2"
    using read_rewound [OF w i(3), of "replicate (length (kept_records rs)) zero_record"] by (auto simp: kept_stored)
  have "unat (num_recs (control ad1)) = length (kept_records rs)" using i(3) by (simp add: rewound_def Let_def)
  moreover have "distinct (map rec_retired_page (kept_records rs))"
    "rec_retired_page ` set (kept_records rs) = rec_retired_page ` stored_record ` set rs"
    using remove_dups_distinct [of "map stored_record rs"] remove_dups_pages [of "map stored_record rs"] by (simp_all add: kept_records_def)
  ultimately show ?thesis using i(1) l same_env_works [OF l(2) w] by blast
qed

lemma eeprom_survives_restart_witness:
  "\<exists>ad. eeprom_ok [bad_page 5, bad_page 9, bad_page 5] ad \<and>
    (\<exists>ad1 ad2. ras_eeprom_v2_1_init (erased_eeprom\<lparr>rom := rom ad\<rparr>) = (0, ad1) \<and>
      ras_eeprom_v2_1_process_records False [zero_record, zero_record] ad1 = (0, [bad_page 5, bad_page 9], ad2))"
proof -
  let ?rs = "[bad_page 5, bad_page 9, bad_page 5]"
  obtain ad where a: "eeprom_ok ?rs ad" "bank ad = bank new_eeprom"
    using process_records_write_ok [OF new_ok(4) eeprom_append_ok [OF new_ok(1)], of ?rs] by auto
  have k: "kept_records ?rs = [bad_page 5, bad_page 9]"
    by (simp add: kept_records_def stored_bad_page) (simp add: bad_page_def)
  let ?ad = "erased_eeprom\<lparr>rom := rom ad\<rparr>"
  have w: "works ?ad" using erased_works by (simp add: works_def)
  have b: "device_base (ucast (rom_i2c_address ?ad)) = bank ad" unfolding a(2) new_ok(3) by (simp add: erased_eeprom_def bank_def)
  have "rom ?ad = rom ad" "egi_padding (tbl_egi_v2_1 (control ?ad)) = replicate 252 0" "\<not> in_whole_gpu_reset ?ad"
    "\<not> bit (bad_page_detection_mode ?ad) 0" by (simp_all add: erased_eeprom_def)
  from eeprom_survives_restart [OF a(1) w this(1) b this(2-4)] obtain ad1 ad2 where
    "ras_eeprom_v2_1_init ?ad = (0, ad1)" "ras_eeprom_v2_1_process_records False [zero_record, zero_record] ad1 = (0, [bad_page 5, bad_page 9], ad2)"
    unfolding k by auto
  then show ?thesis using a(1) by blast
qed

section \<open>A failed write\<close>

text \<open>C38. A write that fails at the second of two new records is not undone: the pointer stays behind the first. When the driver saves its unsynchronised
records again, and nothing fails any more, the device holds the first record twice and not the second, under a header that announces as many records and has
the checksum of the intended table. Unless the byte sums of the two agree, the table is not accepted when it is read back.\<close>

lemma eeprom_failed_write_loses_record:
  assumes "eh_data u = Some \<lparr>bps = rs @ [r1, r2], num_recs_synced = length rs\<rparr>" "saves u" "eeprom_ok rs (umc_eeprom u)" "length rs + 3 \<le> 2719"
    "ras_eeprom_v2_1_process_record True r1 (umc_eeprom u) = (0, x, ad1)" "ras_eeprom_v2_1_process_record True r2 ad1 = (e, y, ad2)" "e \<noteq> 0"
    "works ad2" "m24m02 (umc_eeprom u)"
  shows "\<exists>u1 u2. amdgv_umc_save_bad_pages u = (AMDGV_FAILURE, u1) \<and> amdgv_umc_save_bad_pages u1 = (0, u2) \<and>
    (let ad = umc_eeprom u2; c = control ad in
      stored (bank ad) (rom ad) (tbl_hdr c) (tbl_egi_v2_1 c) (rs @ [r1, r1]) \<and> header_ok (rs @ [r1, r2]) (tbl_hdr c) (tbl_egi_v2_1 c) \<and>
      (byte_sum (encode_table_record_to_buff r1) mod 256 \<noteq> byte_sum (encode_table_record_to_buff r2) mod 256 \<longrightarrow>
        \<not> fst (ras_eeprom_v2_1_cache_and_validate_recs (replicate (length rs + 2) zero_record) (ras_eeprom_v2_1_reset_read_control ad))))"
proof -
  let ?ad = "umc_eeprom u" and ?u1 = "u\<lparr>umc_eeprom := ad2\<rparr>"
  obtain ad3 where f: "ras_eeprom_v2_1_process_records True [r1, r2] ?ad = (AMDGV_FAILURE, [x, r2], ad2)"
    "bad_page_detection_mode ad2 = bad_page_detection_mode ?ad"
    "ras_eeprom_v2_1_process_records True [r1, r2] ad2 = (0, [r1, r2], ad3)" "works ad3"
    "stored (bank ad3) (rom ad3) (tbl_hdr (control ad3)) (tbl_egi_v2_1 (control ad3)) (rs @ [r1, r1])"
    "header_ok (rs @ [r1, r2]) (tbl_hdr (control ad3)) (tbl_egi_v2_1 (control ad3))" "max_record_num (control ad3) = 10655"
    using failed_write_shifts [OF assms(3-9)] by blast
  let ?f = "if reports_channel_flag u then ad3\<lparr>update_channel_flag := False\<rparr> else ad3"
  let ?u2 = "?u1\<lparr>eh_data := Some \<lparr>bps = rs @ [r1, r2], num_recs_synced = length rs + 2\<rparr>, umc_eeprom := ?f\<rparr>"
  have s: "amdgv_umc_save_bad_pages u = (AMDGV_FAILURE, ?u1)"
    using assms(1,2) f(1) by (simp add: amdgv_umc_save_bad_pages_def saves_def)
  have "amdgv_umc_save_bad_pages ?u1 = (0, ?u2)"
    using assms(1,2) f(2,3) by (simp add: amdgv_umc_save_bad_pages_def saves_def Let_def)
  moreover have c: "control ?f = control ad3" "rom ?f = rom ad3" "bank ?f = bank ad3" "works ?f" using f(4) by (simp_all add: bank_def)
  moreover have "\<not> fst (ras_eeprom_v2_1_cache_and_validate_recs (replicate (length rs + 2) zero_record) (ras_eeprom_v2_1_reset_read_control ?f))"
    if d: "byte_sum (encode_table_record_to_buff r1) mod 256 \<noteq> byte_sum (encode_table_record_to_buff r2) mod 256"
  proof -
    let ?h = "ras_eeprom_v2_1_calc_recs_byte_sum (rs @ [r1])"
    have e: "ras_eeprom_v2_1_calc_recs_byte_sum (rs @ [r1, r]) = ?h + byte_sum (encode_table_record_to_buff r)" for r
      by (simp add: ras_eeprom_v2_1_calc_recs_byte_sum_def)
    have "ras_eeprom_v2_1_calc_recs_byte_sum (rs @ [r1, r1]) mod 256 \<noteq> ras_eeprom_v2_1_calc_recs_byte_sum (rs @ [r1, r2]) mod 256"
      unfolding e using d sum_mod_cancel by blast
    then show ?thesis using validate_fails [OF c(4), of "rs @ [r1, r1]" "rs @ [r1, r2]" "replicate (length rs + 2) zero_record"] f(5-7)
      unfolding c by auto
  qed
  ultimately show ?thesis using s f(5,6) unfolding Let_def
    by (intro exI [of _ ?u1] exI [of _ ?u2] conjI impI) simp_all
qed

text \<open>A new table, whose device will fail once: the third transaction from now on is the first of the second record.\<close>

definition failing_eeprom :: eeprom_adapter where
  "failing_eeprom = new_eeprom\<lparr>bus_ok := \<lambda>n. n \<noteq> transactions new_eeprom + 2\<rparr>"

lemma chunks_24:
  assumes "length bs = 24"
  shows "chunk_size 276 24 = 22" "chunk_size 298 2 = 2" "chunk_size 300 24 = 22" "drop 22 bs \<noteq> []" "bs \<noteq> []"
  using assms by (auto simp: chunk_size_def mi300_smu_pp_i2c_page_allowed_xfer_len_def)

lemma failing_ok: "eeprom_ok [] failing_eeprom" "next_addr (control failing_eeprom) = 276" "bad_page_detection_mode failing_eeprom = 0"
proof -
  show "eeprom_ok [] failing_eeprom" using new_ok(1) by (simp add: failing_eeprom_def eeprom_ok_def bank_def Let_def)
  then have "unat (next_addr (control failing_eeprom)) = 276" by (simp add: eeprom_ok_def Let_def)
  then show "next_addr (control failing_eeprom) = 276" by (simp add: word_unat_eq_iff)
  show "bad_page_detection_mode failing_eeprom = 0" using new_ok(2) by (simp add: failing_eeprom_def same_env_def erased_eeprom_def)
qed

lemma write_24_from_276:
  assumes "length bs = 24" "bus_ok ad (transactions ad)" "bus_ok ad (Suc (transactions ad))"
  shows "\<exists>m. write_eeprom_data bs 276 ad = (1, ad\<lparr>transactions := transactions ad + 2, rom := m\<rparr>)"
proof -
  let ?m = "ras_eeprom_v2_1_format_i2c_msg ([0, 0] @ bs) 276 True ad"
  have a: "msg_eeprom_addr ?m = 276" by (simp add: eeprom_addr_low)
  have b: "drop 2 (msg_buf ?m) = bs" "\<not> msg_rd ?m" by (simp_all add: ras_eeprom_v2_1_format_i2c_msg_def)
  show ?thesis using assms chunks_24 [OF assms(1)] unfolding write_eeprom_data_def mi300_smu_pp_i2c_eeprom_i2c_xfer_def a b(1) if_not_P [OF b(2)]
    by (auto simp: write_chunks.simps [of _ 276] write_chunks.simps [of _ 298] write_chunks.simps [of _ _ "[]"] smu_write_data_def Let_def)
qed

lemma write_24_from_300:
  assumes "length bs = 24" "\<not> bus_ok ad (transactions ad)"
  shows "write_eeprom_data bs 300 ad = (AMDGV_FAILURE, ad\<lparr>transactions := Suc (transactions ad)\<rparr>)"
proof -
  let ?m = "ras_eeprom_v2_1_format_i2c_msg ([0, 0] @ bs) 300 True ad"
  have a: "msg_eeprom_addr ?m = 300" by (simp add: eeprom_addr_low)
  have b: "drop 2 (msg_buf ?m) = bs" "\<not> msg_rd ?m" by (simp_all add: ras_eeprom_v2_1_format_i2c_msg_def)
  show ?thesis using assms chunks_24 [OF assms(1)] unfolding write_eeprom_data_def mi300_smu_pp_i2c_eeprom_i2c_xfer_def a b(1) if_not_P [OF b(2)]
    by (simp add: write_chunks.simps [of _ 300] smu_write_data_def Let_def)
qed

lemma failing_records:
  "\<exists>ad1 ad2. ras_eeprom_v2_1_process_record True (bad_page 5) failing_eeprom = (0, bad_page 5, ad1) \<and>
    ras_eeprom_v2_1_process_record True (bad_page 9) ad1 = (AMDGV_FAILURE, bad_page 9, ad2) \<and> works ad2"
proof -
  let ?ad = failing_eeprom and ?t = "transactions new_eeprom"
  have t: "transactions ?ad = ?t" "bus_ok ?ad n \<longleftrightarrow> n \<noteq> ?t + 2" for n by (simp_all add: failing_eeprom_def)
  have len: "length (encode_table_record_to_buff r) = 24" for r by (simp add: record_code.length_enc)
  obtain m where m: "write_eeprom_data (encode_table_record_to_buff (bad_page 5)) 276 ?ad = (1, ?ad\<lparr>transactions := ?t + 2, rom := m\<rparr>)"
    using write_24_from_276 [OF len, of ?ad "bad_page 5"] by (auto simp: t)
  let ?ad' = "update_control (\<lambda>c. c\<lparr>next_addr := next_addr c + 24\<rparr>) (?ad\<lparr>transactions := ?t + 2, rom := m\<rparr>)"
  obtain b f where u: "update_bad_channel_bitmap (bad_page 5) ?ad' =
      with_io ((control ?ad')\<lparr>bad_channel_bitmap := b\<rparr>) (rom ?ad') (transactions ?ad') (allocations ?ad') f ?ad'"
    using bitmap_with_io by blast
  let ?ad1 = "with_io ((control ?ad')\<lparr>bad_channel_bitmap := b\<rparr>) (rom ?ad') (transactions ?ad') (allocations ?ad') f ?ad'"
  have one: "ras_eeprom_v2_1_process_record True (bad_page 5) ?ad = (0, bad_page 5, ?ad1)"
    unfolding u [symmetric] using m failing_ok(2) by (simp add: ras_eeprom_v2_1_process_record_def ras_eeprom_v2_1_i2c_transfer_record_def Let_def)
  have "write_eeprom_data (encode_table_record_to_buff (bad_page 9)) 300 ?ad1 = (AMDGV_FAILURE, ?ad1\<lparr>transactions := Suc (transactions ?ad1)\<rparr>)"
    by (rule write_24_from_300 [OF len]) (simp add: t)
  moreover have "next_addr (control ?ad1) = 300" using failing_ok(2) by simp
  ultimately have two: "ras_eeprom_v2_1_process_record True (bad_page 9) ?ad1 =
      (AMDGV_FAILURE, bad_page 9, ?ad1\<lparr>transactions := Suc (transactions ?ad1)\<rparr>)"
    by (simp add: ras_eeprom_v2_1_process_record_def ras_eeprom_v2_1_i2c_transfer_record_def)
  have "works (?ad1\<lparr>transactions := Suc (transactions ?ad1)\<rparr>)"
    using new_ok(4) by (simp add: works_def t) (simp add: failing_eeprom_def)
  then show ?thesis using one two by blast
qed

lemma eeprom_failed_write_loses_record_witness:
  "\<exists>u1 u2. amdgv_umc_save_bad_pages \<lparr>umc_eeprom = failing_eeprom, is_pmfw_managed_eeprom = False, reports_channel_flag = False,
      eh_data = Some \<lparr>bps = [] @ [bad_page 5, bad_page 9], num_recs_synced = length ([] :: eeprom_table_record list)\<rparr>\<rparr> = (AMDGV_FAILURE, u1) \<and>
    amdgv_umc_save_bad_pages u1 = (0, u2) \<and>
    \<not> fst (ras_eeprom_v2_1_cache_and_validate_recs [zero_record, zero_record] (ras_eeprom_v2_1_reset_read_control (umc_eeprom u2)))"
proof -
  let ?u = "\<lparr>umc_eeprom = failing_eeprom, is_pmfw_managed_eeprom = False, reports_channel_flag = False,
      eh_data = Some \<lparr>bps = [] @ [bad_page 5, bad_page 9], num_recs_synced = length ([] :: eeprom_table_record list)\<rparr>\<rparr>"
  obtain ad1 ad2 where r: "ras_eeprom_v2_1_process_record True (bad_page 5) (umc_eeprom ?u) = (0, bad_page 5, ad1)"
    "ras_eeprom_v2_1_process_record True (bad_page 9) ad1 = (AMDGV_FAILURE, bad_page 9, ad2)" "works ad2"
    using failing_records by auto
  have s: "saves ?u" "eeprom_ok [] (umc_eeprom ?u)" "m24m02 (umc_eeprom ?u)" "eh_data ?u = Some \<lparr>bps = [] @ [bad_page 5, bad_page 9], num_recs_synced = length ([] :: eeprom_table_record list)\<rparr>"
    using failing_ok(1,3) new_ok(4) by (simp_all add: saves_def works_def failing_eeprom_def)
  have d: "byte_sum (encode_table_record_to_buff (bad_page 5)) mod 256 \<noteq> byte_sum (encode_table_record_to_buff (bad_page 9)) mod 256"
    by code_simp
  obtain u1 u2 where "amdgv_umc_save_bad_pages ?u = (AMDGV_FAILURE, u1)" "amdgv_umc_save_bad_pages u1 = (0, u2)"
    "\<not> fst (ras_eeprom_v2_1_cache_and_validate_recs (replicate (length ([] :: eeprom_table_record list) + 2) zero_record) (ras_eeprom_v2_1_reset_read_control (umc_eeprom u2)))"
    using eeprom_failed_write_loses_record [OF s(4,1,2) _ r(1,2) _ r(3) s(3)] d by (auto simp: Let_def)
  then show ?thesis by auto
qed

section \<open>Health\<close>

text \<open>The health written with a table of no more records than the threshold is the share of free records in percent, at most 100, and 100 only for
an empty table. The hypothesis is needed: with more records than the threshold the subtraction wraps around.\<close>

lemma eeprom_health_percentage:
  assumes "num_recs (control ad) \<le> eeprom_BAD_PAGE_RECORD_THRESHOLD ad" "unat (eeprom_BAD_PAGE_RECORD_THRESHOLD ad) \<le> 42949672"
  shows "(let n = unat (num_recs (control ad)); T = unat (eeprom_BAD_PAGE_RECORD_THRESHOLD ad);
      health = unat (gpu_healthy (tbl_egi_v2_1 (control (ras_eeprom_v2_1_calc_gpu_healthy ad)))) in
    health = (T - n) * 100 div T \<and> health \<le> 100 \<and> (health = 100 \<longleftrightarrow> n = 0))"
proof -
  let ?T = "eeprom_BAD_PAGE_RECORD_THRESHOLD ad" and ?n = "num_recs (control ad)"
  have T: "0 < unat ?T" by (simp add: eeprom_BAD_PAGE_RECORD_THRESHOLD_def unat_gt_0)
  have n: "unat ?n \<le> unat ?T" using assms(1) by (simp add: word_le_nat_alt)
  have s: "unat (?T - ?n) = unat ?T - unat ?n" using assms(1) by (rule unat_sub)
  have m: "unat ((?T - ?n) * 100) = (unat ?T - unat ?n) * 100"
  proof -
    have "(unat ?T - unat ?n) * 100 < 2 ^ 32" using assms(2) by simp
    then show ?thesis unfolding unat_word_ariths(2) s by simp
  qed
  have le: "(unat ?T - unat ?n) * 100 div unat ?T \<le> 100"
    using div_le_mono [of "(unat ?T - unat ?n) * 100" "unat ?T * 100" "unat ?T"] T by simp
  have "unat (gpu_healthy (tbl_egi_v2_1 (control (ras_eeprom_v2_1_calc_gpu_healthy ad)))) = (unat ?T - unat ?n) * 100 div unat ?T"
  proof -
    have "unat (ucast ((?T - ?n) * 100 div ?T) :: u8) = (unat ?T - unat ?n) * 100 div unat ?T"
      unfolding unsigned_ucast_eq unat_div_distrib m by (rule take_bit_nat_eq_self) (use le in simp)
    then show ?thesis unfolding ras_eeprom_v2_1_calc_gpu_healthy_def Let_def by (simp del: left_diff_distrib_numeral)
  qed
  moreover have "(unat ?T - unat ?n) * 100 div unat ?T = 100 \<longleftrightarrow> unat ?n = 0"
  proof
    assume "(unat ?T - unat ?n) * 100 div unat ?T = 100"
    then have "unat ?T * 100 \<le> (unat ?T - unat ?n) * 100" using div_times_less_eq_dividend [of "(unat ?T - unat ?n) * 100" "unat ?T"] by (simp add: mult.commute)
    then show "unat ?n = 0" using T n by linarith
  qed (use T in simp)
  ultimately show ?thesis using le by (simp add: Let_def)
qed

lemma eeprom_health_percentage_witness:
  "unat (gpu_healthy (tbl_egi_v2_1 (control (ras_eeprom_v2_1_calc_gpu_healthy
     (update_control (\<lambda>c. c\<lparr>num_recs := 3\<rparr>) erased_eeprom))))) = 70"
  using eeprom_health_percentage [of "update_control (\<lambda>c. c\<lparr>num_recs := 3\<rparr>) erased_eeprom"]
  by (simp add: eeprom_BAD_PAGE_RECORD_THRESHOLD_def erased_eeprom_def Let_def)

section \<open>Dates\<close>

text \<open>C32. The time stamp of a record is packed from the right date: the components of a time are a valid date and time of day of the Gregorian calendar, the number of days
from 1970 to that date and the time of day give back the seconds, and the packed fields hold these components, with the year cut to 2000 to 2031.
The day count must fit 32 bits, as the code's variable does.\<close>

lemma eeprom_time_stamp:
  assumes "unat t div 86400 < 2 ^ 32"
  shows "(let dt = amdgv_utc_to_datetime_components t; ts = unat (amdgv_utc_to_eeprom_format t) in
    valid_date (unat (dt_year dt)) (unat (dt_month dt)) (unat (dt_day dt)) \<and>
    unat (dt_hour dt) < 24 \<and> unat (dt_minute dt) < 60 \<and> unat (dt_second dt) < 60 \<and>
    unat t = ((day_number (unat (dt_year dt)) (unat (dt_month dt)) (unat (dt_day dt)) * 24 + unat (dt_hour dt)) * 60 +
      unat (dt_minute dt)) * 60 + unat (dt_second dt) \<and>
    ts = unat (dt_second dt) + unat (dt_minute dt) * 2 ^ 6 + unat (dt_hour dt) * 2 ^ 12 + unat (dt_day dt) * 2 ^ 17 +
      unat (dt_month dt) * 2 ^ 23 + stamp_year (unat (dt_year dt)) * 2 ^ 27 \<and> ts < 2 ^ 32)"
  using datetime_ok [OF assms] eeprom_format_ok [OF assms] by (simp add: Let_def)

lemma eeprom_time_stamp_witness: "unat (amdgv_utc_to_eeprom_format 1700000000) < 2 ^ 32"
  using eeprom_time_stamp [of 1700000000] by (simp add: Let_def)

end
