(* ===== verification/GV_Wb.thy ===== *)
theory GV_Wb
  imports GV_Memmgr GV_Bytes
begin

text \<open>
  The clients of the memory manager that need the memory itself: allocation with clearing and the live-update copies of
  \<^verbatim>\<open>libgv/core/amdgv_memmgr.c\<close>, and the write-back memory of \<^verbatim>\<open>libgv/core/amdgv_wb_memory.c\<close>, a block of
  1024 slots of 32 bytes that the GPU writes fences and ring pointers to. A slot is known by the index of its first
  dword; one bit of \<open>wb_used\<close> tracks it.
\<close>

section \<open>Pointers to nodes\<close>

text \<open>The node a pointer of the code stands for, in the lists of its manager.\<close>

definition mem_node :: "amdgv_memmgr \<Rightarrow> nat option \<Rightarrow> amdgv_memmgr_mem option cres" where
  "mem_node memmgr mem =
     (case mem of
        None \<Rightarrow> Inr None
      | Some p \<Rightarrow>
          (case find (\<lambda>m. mm_ptr m = p) (mg_allocs memmgr @ mg_reserves memmgr) of
             None \<Rightarrow> Inl Use_After_Free
           | Some m \<Rightarrow> Inr (Some m)))"

section \<open>Allocation with clearing\<close>

definition amdgv_memmgr_alloc_sys_align_zero :: "mem_env \<Rightarrow> mem_adapter \<Rightarrow> amdgv_memmgr \<Rightarrow> u64 \<Rightarrow> u64 \<Rightarrow> u64 \<Rightarrow>
    cpu_mem \<Rightarrow> (nat option \<times> u64 option \<times> mem_adapter \<times> amdgv_memmgr \<times> cpu_mem) cres" where
  "amdgv_memmgr_alloc_sys_align_zero env adapt memmgr len align va_ptr cpu =
     (case amdgv_memmgr_alloc_unify_align env adapt memmgr len align 0 va_ptr of
        (mem, gpu_addr, adapt', memmgr') \<Rightarrow>
          if mem = None then Inr (mem, gpu_addr, adapt', memmgr', cpu)
          else cbind (mem_node memmgr' mem) (\<lambda>m.
            cbind (oss_memset (amdgv_memmgr_get_cpu_addr memmgr' m) 0 (unat len) cpu) (\<lambda>cpu'.
              Inr (mem, gpu_addr, adapt', memmgr', cpu'))))"

definition amdgv_memmgr_alloc_align_zero :: "mem_env \<Rightarrow> mem_adapter \<Rightarrow> amdgv_memmgr \<Rightarrow> u64 \<Rightarrow> u64 \<Rightarrow> u32 \<Rightarrow>
    cpu_mem \<Rightarrow> (nat option \<times> mem_adapter \<times> amdgv_memmgr \<times> cpu_mem) cres" where
  "amdgv_memmgr_alloc_align_zero env adapt memmgr len align wid cpu =
     (case amdgv_memmgr_alloc_align env adapt memmgr len align wid of
        (mem, adapt', memmgr') \<Rightarrow>
          if mem = None then Inr (mem, adapt', memmgr', cpu)
          else cbind (mem_node memmgr' mem) (\<lambda>m.
            cbind (oss_memset (amdgv_memmgr_get_cpu_addr memmgr' m) 0 (unat len) cpu) (\<lambda>cpu'.
              Inr (mem, adapt', memmgr', cpu'))))"

section \<open>Write-back memory\<close>

abbreviation (input) AMDGV_WB_QWORD_COUNT :: nat where "AMDGV_WB_QWORD_COUNT \<equiv> 16"
abbreviation (input) AMDGV_MAX_WB :: nat where "AMDGV_MAX_WB \<equiv> 1024"
abbreviation (input) AMDGV_WB_MEMORY_BYTE_SIZE :: nat where "AMDGV_WB_MEMORY_BYTE_SIZE \<equiv> 32"
abbreviation (input) PAGE_SIZE :: u64 where "PAGE_SIZE \<equiv> 0x1000"
abbreviation (input) MEM_GFX_WB :: u32 where "MEM_GFX_WB \<equiv> 0x601"

record amdgv_wb =
  wb_obj :: "nat option"
  wb_cpu :: u64
  wb_gpu_addr :: u64
  wb_num :: u32
  wb_used :: "u64 list"

definition amdgv_wb_memory_init :: "mem_env \<Rightarrow> mem_adapter \<Rightarrow> amdgv_memmgr \<Rightarrow> amdgv_wb \<Rightarrow>
    int \<times> mem_adapter \<times> amdgv_memmgr \<times> amdgv_wb" where
  "amdgv_wb_memory_init env adapt memmgr_pf wb =
     (case amdgv_memmgr_alloc_align env adapt memmgr_pf
             (of_nat (AMDGV_MAX_WB * AMDGV_WB_MEMORY_BYTE_SIZE)) PAGE_SIZE MEM_GFX_WB of
        (mem, adapt', memmgr') \<Rightarrow>
          let wb' = wb\<lparr>wb_obj := mem\<rparr> in
          if mem = None then (AMDGV_FAILURE, adapt', memmgr', wb')
          else (0, adapt', memmgr',
            wb'\<lparr>wb_num := of_nat AMDGV_MAX_WB, wb_used := replicate AMDGV_WB_QWORD_COUNT 0\<rparr>))"

definition amdgv_wb_memory_fini :: "mem_env \<Rightarrow> mem_adapter \<Rightarrow> amdgv_memmgr \<Rightarrow> amdgv_wb \<Rightarrow>
    (mem_adapter \<times> amdgv_memmgr \<times> amdgv_wb) cres" where
  "amdgv_wb_memory_fini env adapt memmgr_pf wb =
     (if wb_obj wb \<noteq> None then
        cbind (amdgv_memmgr_free env adapt memmgr_pf (wb_obj wb)) (\<lambda>(ret, adapt', memmgr').
          Inr (adapt', memmgr', wb\<lparr>wb_obj := None\<rparr>))
      else Inr (adapt, memmgr_pf, wb))"

definition amdgv_wb_memory_clear :: "amdgv_wb \<Rightarrow> cpu_mem \<Rightarrow> cpu_mem cres" where
  "amdgv_wb_memory_clear wb cpu = oss_memset (wb_cpu wb) 0 (AMDGV_MAX_WB * AMDGV_WB_MEMORY_BYTE_SIZE) cpu"

definition amdgv_wb_memory_hw_init_address :: "amdgv_memmgr \<Rightarrow> amdgv_wb \<Rightarrow> (int \<times> amdgv_wb) cres" where
  "amdgv_wb_memory_hw_init_address memmgr_pf wb =
     cbind (mem_node memmgr_pf (wb_obj wb)) (\<lambda>m.
       Inr (0, wb\<lparr>wb_gpu_addr := amdgv_memmgr_get_gpu_addr memmgr_pf m,
                  wb_cpu := amdgv_memmgr_get_cpu_addr memmgr_pf m\<rparr>))"

text \<open>The two loops: the first group of 64 slots with one free (\<open>bitmap_scan\<close>), then its lowest clear bit.\<close>

fun free_bit_scan :: "u64 \<Rightarrow> nat list \<Rightarrow> nat option" where
  "free_bit_scan bitmap [] = None"
| "free_bit_scan bitmap (i # is) = (if bitmap AND push_bit i 1 = 0 then Some i else free_bit_scan bitmap is)"

definition find_wb_memory_tracking_free_bit :: "amdgv_wb \<Rightarrow> u32" where
  "find_wb_memory_tracking_free_bit wb =
     (let qword_index = bitmap_scan (wb_used wb) 0 in
      if qword_index < AMDGV_WB_QWORD_COUNT then
        (case free_bit_scan (wb_used wb ! qword_index) [0..<64] of
           Some i \<Rightarrow> of_nat (i + qword_index * 64)
         | None \<Rightarrow> 0xFFFFFFFF)
      else 0xFFFFFFFF)"

definition set_wb_memory_tracking_bit :: "amdgv_wb \<Rightarrow> u32 \<Rightarrow> amdgv_wb" where
  "set_wb_memory_tracking_bit wb wb_track_bit_index =
     (let qword_index = unat (wb_track_bit_index div 64); bit_index = unat (wb_track_bit_index mod 64) in
      wb\<lparr>wb_used := (wb_used wb)[qword_index := wb_used wb ! qword_index OR push_bit bit_index 1]\<rparr>)"

definition clear_wb_memory_tracking_bit :: "amdgv_wb \<Rightarrow> u32 \<Rightarrow> amdgv_wb" where
  "clear_wb_memory_tracking_bit wb wb_track_bit_index =
     (let qword_index = unat (wb_track_bit_index div 64); bit_index = unat (wb_track_bit_index mod 64) in
      wb\<lparr>wb_used := (wb_used wb)[qword_index := wb_used wb ! qword_index AND NOT (push_bit bit_index 1)]\<rparr>)"

text \<open>The middle component is what is written to \<^verbatim>\<open>*wb\<close>, if anything is.\<close>

definition amdgv_wb_memory_get :: "amdgv_wb \<Rightarrow> int \<times> u32 option \<times> amdgv_wb" where
  "amdgv_wb_memory_get wb =
     (let bit_index = find_wb_memory_tracking_free_bit wb in
      if bit_index < wb_num wb
      then (0, Some (push_bit 3 bit_index), set_wb_memory_tracking_bit wb bit_index)
      else (AMDGV_FAILURE, None, wb))"

definition amdgv_wb_memory_free :: "amdgv_wb \<Rightarrow> u32 \<Rightarrow> amdgv_wb" where
  "amdgv_wb_memory_free wb dw =
     (let wb_track_bit_index = drop_bit 3 dw in
      if wb_track_bit_index < wb_num wb then clear_wb_memory_tracking_bit wb wb_track_bit_index else wb)"

section \<open>Live update of the managers\<close>

record mc_window =
  mc_fb_loc_addr :: u64
  mc_fb_top_addr :: u64
  mc_sys_loc_addr :: u64
  mc_sys_top_addr :: u64
  mc_agp_loc_addr :: u64
  mc_agp_top_addr :: u64

text \<open>The six fields of a manager that the table holds, once for the PF manager and once for the GPU manager; the third
  set, for the system manager, is neither written nor read by the code.\<close>

record live_manager =
  lv_mc_base :: u64
  lv_offset :: u64
  lv_size :: u64
  lv_align :: u64
  lv_tom :: u64
  lv_down :: bool

record amdgv_live_info_memmgr =
  lx_mc :: mc_window
  lx_pf :: live_manager
  lx_gpu :: live_manager
  lx_count :: nat
  lx_allocs :: "amdgv_live_info_memmgr_mem list"

text \<open>The part of the adapter that a live update of the memory carries over: \<open>al_fb\<close> is \<^verbatim>\<open>adapt->fb\<close>,
  \<open>al_fb_alignment\<close> the alignment in MB, 0 for the default.\<close>

record live_adapter =
  al_ids :: mem_adapter
  al_mc :: mc_window
  al_fb :: u64
  al_fb_alignment :: u32
  al_mgrs :: mem_managers
  al_wb :: amdgv_wb

datatype amdgv_live_info_status = AMDGV_LIVE_INFO_STATUS_SUCCESS | AMDGV_LIVE_INFO_STATUS_GENERIC_ERROR

definition fb_alignment_byte :: "live_adapter \<Rightarrow> u64" where
  "fb_alignment_byte adapt =
     push_bit 20 (if al_fb_alignment adapt \<noteq> 0 then ucast (al_fb_alignment adapt) else 16)"

definition export_manager :: "u64 \<Rightarrow> amdgv_memmgr \<Rightarrow> live_manager" where
  "export_manager align mgr = \<lparr>lv_mc_base = mg_mc_base mgr, lv_offset = mg_offset mgr,
     lv_size = roundup (mg_tom mgr) align, lv_align = mg_align mgr, lv_tom = mg_tom mgr, lv_down = mg_down mgr\<rparr>"

definition import_manager :: "u64 \<Rightarrow> live_manager \<Rightarrow> amdgv_memmgr \<Rightarrow> amdgv_memmgr" where
  "import_manager cpu_base lv mgr = (snd (amdgv_memmgr_set_cpu_base mgr cpu_base))\<lparr>mg_mc_base := lv_mc_base lv,
     mg_offset := lv_offset lv, mg_size := lv_size lv, mg_align := lv_align lv, mg_tom := lv_tom lv,
     mg_down := lv_down lv\<rparr>"

definition amdgv_memmgr_export_live_data :: "live_adapter \<Rightarrow> amdgv_live_info_memmgr \<Rightarrow>
    amdgv_live_info_status \<times> amdgv_live_info_memmgr" where
  "amdgv_memmgr_export_live_data adapt info =
     (let mgrs = al_mgrs adapt;
          info1 = info\<lparr>lx_mc := al_mc adapt, lx_pf := export_manager (fb_alignment_byte adapt) (mn_pf mgrs)\<rparr>;
          info2 = (if mg_is_init (mn_gpu mgrs)
                   then info1\<lparr>lx_gpu := export_manager (fb_alignment_byte adapt) (mn_gpu mgrs)\<rparr> else info1);
          (ret, arr, cnt) = amdgv_memmgr_export_mem_allocs_all mgrs (lx_allocs info2)
      in (if ret \<noteq> 0 then AMDGV_LIVE_INFO_STATUS_GENERIC_ERROR else AMDGV_LIVE_INFO_STATUS_SUCCESS,
          info2\<lparr>lx_allocs := arr, lx_count := cnt\<rparr>))"

text \<open>\<open>mallocs\<close> are the nodes the import may have to allocate. The CPU base of the GPU manager is computed in dwords.\<close>

definition amdgv_memmgr_import_live_data :: "(amdgv_mem_owner \<Rightarrow> nat \<Rightarrow> amdgv_memmgr_mem option) \<Rightarrow> live_adapter \<Rightarrow>
    amdgv_live_info_memmgr \<Rightarrow> (amdgv_live_info_status \<times> live_adapter) cres" where
  "amdgv_memmgr_import_live_data mallocs adapt info =
     (let mgrs = al_mgrs adapt;
          pf = import_manager (al_fb adapt) (lx_pf info) (mn_pf mgrs);
          addr = lv_mc_base (lx_gpu info) - lv_mc_base (lx_pf info);
          gpu = (if mg_is_init (mn_gpu mgrs)
                 then import_manager (al_fb adapt + 4 * drop_bit 2 addr) (lx_gpu info) (mn_gpu mgrs)
                 else mn_gpu mgrs);
          (ret, mgrs') = amdgv_memmgr_import_mem_allocs_all (al_ids adapt) mallocs
                           (mgrs\<lparr>mn_pf := pf, mn_gpu := gpu\<rparr>) (lx_allocs info) (lx_count info);
          adapt' = adapt\<lparr>al_mc := lx_mc info, al_mgrs := mgrs'\<rparr>
      in if ret \<noteq> 0 then Inr (AMDGV_LIVE_INFO_STATUS_GENERIC_ERROR, adapt')
         else cbind (amdgv_wb_memory_hw_init_address (mn_pf mgrs') (al_wb adapt)) (\<lambda>(r, wb').
           Inr (AMDGV_LIVE_INFO_STATUS_SUCCESS, adapt'\<lparr>al_wb := wb'\<rparr>)))"

end
