(* ===== verification/GV_Wb_Slots.thy ===== *)
theory GV_Wb_Slots
  imports GV_Memmgr_Props GV_Wb
begin

text \<open>
  The contract of a pool of slots whose clients give back only what they hold (the locale \<open>slot_pool\<close>), and the
  write-back memory of \<open>GV_Wb\<close> as such a pool: its tracking bits, and that slots are exclusive.
\<close>

section \<open>Pools of slots\<close>

text \<open>A client of a pool takes slots and gives back what it holds. The ledger lists what it holds.\<close>

datatype pool_op = Take | Give nat

fun pool_step :: "('s \<Rightarrow> ('a \<times> 's) option) \<Rightarrow> ('a \<Rightarrow> 's \<Rightarrow> 's) \<Rightarrow> pool_op \<Rightarrow> 's \<times> 'a list \<Rightarrow> 's \<times> 'a list" where
  "pool_step get put Take (s, held) =
     (case get s of None \<Rightarrow> (s, held) | Some (x, s') \<Rightarrow> (s', held @ [x]))"
| "pool_step get put (Give k) (s, held) =
     (if k < length held then (put (held ! k) s, remove_at k held) else (s, held))"

definition pool_run :: "('s \<Rightarrow> ('a \<times> 's) option) \<Rightarrow> ('a \<Rightarrow> 's \<Rightarrow> 's) \<Rightarrow> pool_op list \<Rightarrow> 's \<times> 'a list \<Rightarrow> 's \<times> 'a list" where
  "pool_run get put ops st = fold (pool_step get put) ops st"

lemma set_remove_at: "distinct xs \<Longrightarrow> k < length xs \<Longrightarrow> set (remove_at k xs) = set xs - {xs ! k}"
proof -
  assume "distinct xs" "k < length xs"
  then have "distinct (take k xs @ xs ! k # drop (Suc k) xs)" "set xs = set (take k xs @ xs ! k # drop (Suc k) xs)"
    by (simp_all add: id_take_nth_drop [symmetric])
  then show ?thesis by (auto simp: remove_at_def)
qed

lemma distinct_remove_at: "distinct xs \<Longrightarrow> distinct (remove_at k xs)"
  by (simp add: remove_at_def set_take_disj_set_drop_if_distinct distinct_take distinct_drop)

text \<open>The contract: \<open>used s\<close> is the finite set of slots that are out; a slot is taken only if it is
  not out, and taking fails only when all of \<open>slots\<close> are.\<close>

locale slot_pool =
  fixes get :: "'s \<Rightarrow> ('a \<times> 's) option"
    and put :: "'a \<Rightarrow> 's \<Rightarrow> 's"
    and used :: "'s \<Rightarrow> 'a set"
    and inv :: "'s \<Rightarrow> bool"
    and slots :: "'a set"
  assumes get_fresh: "inv s \<Longrightarrow> get s = Some (x, s') \<Longrightarrow> inv s' \<and> x \<in> slots - used s \<and> used s' = insert x (used s)"
    and get_full: "inv s \<Longrightarrow> get s = None \<longleftrightarrow> slots \<subseteq> used s"
    and put_frees: "inv s \<Longrightarrow> x \<in> slots \<Longrightarrow> inv (put x s) \<and> used (put x s) = used s - {x}"
begin

definition ledger_ok :: "'s \<times> 'a list \<Rightarrow> bool" where
  "ledger_ok st \<longleftrightarrow> inv (fst st) \<and> distinct (snd st) \<and> set (snd st) = used (fst st) \<and> used (fst st) \<subseteq> slots"

lemma step_ok: "ledger_ok st \<Longrightarrow> ledger_ok (pool_step get put op st)"
proof -
  assume ok: "ledger_ok st"
  obtain s held where st: "st = (s, held)" by (cases st)
  show ?thesis
  proof (cases op)
    case Take
    with ok st show ?thesis
      by (fastforce simp: ledger_ok_def split: option.split dest: get_fresh)
  next
    case (Give k)
    show ?thesis
    proof (cases "k < length held")
      case True
      with ok st have "held ! k \<in> slots" by (auto simp: ledger_ok_def)
      with ok st Give True show ?thesis
        by (auto simp: ledger_ok_def set_remove_at distinct_remove_at put_frees)
    qed (use ok st Give in simp)
  qed
qed

lemma ledger_run_ok: "ledger_ok st \<Longrightarrow> ledger_ok (pool_run get put ops st)"
  unfolding pool_run_def by (induction ops arbitrary: st) (simp_all add: step_ok)

lemma full_iff:
  assumes "ledger_ok (s, held)" and "finite slots"
  shows "get s = None \<longleftrightarrow> length held = card slots"
proof -
  from assms have h: "inv s" "distinct held" "set held = used s" "set held \<subseteq> slots" by (auto simp: ledger_ok_def)
  have "slots \<subseteq> set held \<longleftrightarrow> card (set held) = card slots"
    using h(4) assms(2) card_subset_eq [OF assms(2) h(4)] by auto
  moreover have "card (set held) = length held" using h(2) by (rule distinct_card)
  ultimately show ?thesis using get_full [OF h(1)] h(3) by simp
qed

end

section \<open>The tracking bits\<close>

definition wb_ok :: "amdgv_wb \<Rightarrow> bool" where
  "wb_ok wb \<longleftrightarrow> length (wb_used wb) = AMDGV_WB_QWORD_COUNT \<and> wb_num wb = of_nat AMDGV_MAX_WB"

definition slot_used :: "amdgv_wb \<Rightarrow> nat \<Rightarrow> bool" where
  "slot_used wb i \<longleftrightarrow> bit (wb_used wb ! (i div 64)) (i mod 64)"

lemma and_push_bit_eq_0: "(b::u64) AND push_bit i 1 = 0 \<longleftrightarrow> \<not> bit b i \<or> 64 \<le> i"
proof -
  have "b AND push_bit i 1 = (if bit b i then push_bit i 1 else 0)"
    by (rule bit_word_eqI) (auto simp: bit_simps)
  then show ?thesis by (auto simp: push_bit_eq_0_iff dest: bit_imp_le_length)
qed

lemma free_bit_scan_spec:
  "free_bit_scan b is = find (\<lambda>i. \<not> bit b i \<or> 64 \<le> i) is"
  by (induction "is") (simp_all add: and_push_bit_eq_0 del: push_bit_of_1)

lemma free_bit_scan_64:
  assumes "b \<noteq> - 1"
  obtains i where "free_bit_scan b [0..<64] = Some i" and "i < 64" and "\<not> bit b i"
proof (cases "free_bit_scan b [0..<64]")
  case None
  then have "\<forall>i<64. bit b i" by (auto simp: free_bit_scan_spec find_None_iff)
  then have "b = - 1" by (intro bit_word_eqI) auto
  with assms show ?thesis by simp
next
  case (Some i)
  then have "\<not> bit b i \<or> 64 \<le> i" "i \<in> set [0..<64]"
    unfolding free_bit_scan_spec find_Some_iff by auto
  with Some show ?thesis by (intro that) auto
qed

lemma bitmap_scan_full: "bitmap_scan bs k = k + length bs \<Longrightarrow> \<forall>b \<in> set bs. b = - 1"
proof (induction bs arbitrary: k)
  case (Cons b bs)
  have "bitmap_scan bs (Suc k) \<noteq> k" using bitmap_scan_spec [of bs "Suc k"] by auto
  with Cons.prems Cons.IH [of "Suc k"] show ?case by (simp split: if_splits)
qed simp

lemma find_free_bit_cases:
  assumes "wb_ok wb"
  obtains (full) "find_wb_memory_tracking_free_bit wb = 0xFFFFFFFF" and "\<forall>i<1024. slot_used wb i"
  | (free) i where "find_wb_memory_tracking_free_bit wb = of_nat i" and "i < 1024" and "\<not> slot_used wb i"
proof -
  have len: "length (wb_used wb) = 16" using assms by (simp add: wb_ok_def)
  obtain q where q: "q \<le> 16" "bitmap_scan (wb_used wb) 0 = q" "q < 16 \<longrightarrow> wb_used wb ! q \<noteq> - 1"
    using bitmap_scan_spec [of "wb_used wb" 0] len by auto
  show thesis
  proof (cases "q < 16")
    case True
    with q obtain i where i: "free_bit_scan (wb_used wb ! q) [0..<64] = Some i" "i < 64" "\<not> bit (wb_used wb ! q) i"
      by (metis free_bit_scan_64)
    show thesis
    proof (rule free)
      show "find_wb_memory_tracking_free_bit wb = of_nat (i + q * 64)"
        using True q i by (simp add: find_wb_memory_tracking_free_bit_def)
      show "\<not> slot_used wb (i + q * 64)" using i by (simp add: slot_used_def)
    qed (use True i in simp)
  next
    case False
    then have "q = 16" using q by simp
    then have "\<forall>b \<in> set (wb_used wb). b = - 1" using bitmap_scan_full [of "wb_used wb" 0] q len by simp
    then have "\<forall>j<16. wb_used wb ! j = - 1" using len by simp
    then have "\<forall>i<1024. slot_used wb i" by (auto simp: slot_used_def)
    with False q show thesis by (intro full) (simp_all add: find_wb_memory_tracking_free_bit_def)
  qed
qed

lemma unat_slot: "i < 1024 \<Longrightarrow> unat (of_nat i :: u32) = i"
  by (simp add: unat_of_nat)

lemma slot_used_update:
  assumes "wb_ok wb" and "i < 1024" and "j < 1024"
  shows "slot_used (wb\<lparr>wb_used := (wb_used wb)[i div 64 := f (wb_used wb ! (i div 64))]\<rparr>) j \<longleftrightarrow>
     (if j div 64 = i div 64 then bit (f (wb_used wb ! (i div 64))) (j mod 64) else slot_used wb j)"
  using assms by (auto simp: slot_used_def wb_ok_def nth_list_update)

lemma bit_set_clear:
  assumes "i < 64"
  shows "bit ((b::u64) OR push_bit i 1) j \<longleftrightarrow> bit b j \<or> j = i"
    and "bit (b AND NOT (push_bit i 1)) j \<longleftrightarrow> bit b j \<and> j \<noteq> i"
  using assms by (auto simp: bit_simps dest: bit_imp_le_length)

lemma same_slot: "(j::nat) div 64 = i div 64 \<Longrightarrow> j mod 64 = i mod 64 \<longleftrightarrow> j = i"
  by (metis div_mult_mod_eq)

lemma set_bit_spec:
  assumes "wb_ok wb" and "i < 1024"
  shows "wb_ok (set_wb_memory_tracking_bit wb (of_nat i))"
    and "j < 1024 \<Longrightarrow> slot_used (set_wb_memory_tracking_bit wb (of_nat i)) j \<longleftrightarrow> slot_used wb j \<or> j = i"
  using assms slot_used_update [OF assms, of j "\<lambda>b. b OR push_bit (i mod 64) 1"]
  by (simp_all add: set_wb_memory_tracking_bit_def Let_def unat_div_distrib unat_mod_distrib unat_slot bit_set_clear same_slot
      wb_ok_def del: push_bit_of_1) (metis same_slot slot_used_def)?

lemma clear_bit_spec:
  assumes "wb_ok wb" and "i < 1024"
  shows "wb_ok (clear_wb_memory_tracking_bit wb (of_nat i))"
    and "j < 1024 \<Longrightarrow> slot_used (clear_wb_memory_tracking_bit wb (of_nat i)) j \<longleftrightarrow> slot_used wb j \<and> j \<noteq> i"
  using assms slot_used_update [OF assms, of j "\<lambda>b. b AND NOT (push_bit (i mod 64) 1)"]
  by (simp_all add: clear_wb_memory_tracking_bit_def Let_def unat_div_distrib unat_mod_distrib unat_slot bit_set_clear same_slot
      wb_ok_def del: push_bit_of_1) (metis same_slot slot_used_def)?

section \<open>Slots are exclusive\<close>

text \<open>Taking and giving back one slot, as the clients of the write-back memory do.\<close>

definition wb_take :: "amdgv_wb \<Rightarrow> (u32 \<times> amdgv_wb) option" where
  "wb_take wb = (case amdgv_wb_memory_get wb of (ret, dw, wb') \<Rightarrow> map_option (\<lambda>d. (d, wb')) dw)"

definition wb_slot :: "nat \<Rightarrow> u32" where
  "wb_slot i = of_nat (8 * i)"

definition used_slots :: "amdgv_wb \<Rightarrow> u32 set" where
  "used_slots wb = wb_slot ` {i. i < AMDGV_MAX_WB \<and> slot_used wb i}"

lemma unat_wb_slot: "i < 1024 \<Longrightarrow> unat (wb_slot i) = 8 * i"
  by (simp add: wb_slot_def unat_of_nat del: of_nat_mult)

lemma wb_slot_inj: "inj_on wb_slot {..<1024}"
  by (rule inj_onI) (metis lessThan_iff mult_left_cancel unat_wb_slot zero_neq_numeral)

lemma push_bit_slot: "push_bit 3 (of_nat i) = wb_slot i"
  by (simp add: wb_slot_def push_bit_eq_mult)

lemma drop_bit_slot: "i < 1024 \<Longrightarrow> drop_bit 3 (wb_slot i) = of_nat i"
  by (rule word_unat_eq_iff [THEN iffD2]) (simp add: drop_bit_eq_div unat_div_distrib unat_wb_slot unat_of_nat)

lemma wb_get_cases:
  assumes "wb_ok wb"
  obtains (full) "wb_take wb = None" and "\<forall>i<1024. slot_used wb i"
  | (free) i where "wb_take wb = Some (wb_slot i, set_wb_memory_tracking_bit wb (of_nat i))"
      and "i < 1024" and "\<not> slot_used wb i"
proof (cases rule: find_free_bit_cases [OF assms])
  case 1
  with assms show ?thesis by (intro full) (simp_all add: wb_take_def amdgv_wb_memory_get_def wb_ok_def)
next
  case (2 i)
  then have "(of_nat i :: u32) < 1024" by (simp add: word_less_nat_alt unat_slot)
  with 2 assms show ?thesis
    by (intro free [of i]) (simp_all add: wb_take_def amdgv_wb_memory_get_def wb_ok_def push_bit_slot)
qed

lemma used_slots_insert:
  assumes "i < 1024" and "\<And>j. j < 1024 \<Longrightarrow> slot_used wb' j \<longleftrightarrow> slot_used wb j \<or> j = i"
  shows "used_slots wb' = insert (wb_slot i) (used_slots wb)"
proof -
  have "{j. j < 1024 \<and> slot_used wb' j} = insert i {j. j < 1024 \<and> slot_used wb j}" using assms by auto
  then show ?thesis by (simp add: used_slots_def)
qed

lemma used_slots_remove:
  assumes "i < 1024" and "\<And>j. j < 1024 \<Longrightarrow> slot_used wb' j \<longleftrightarrow> slot_used wb j \<and> j \<noteq> i"
  shows "used_slots wb' = used_slots wb - {wb_slot i}"
proof -
  have "{j. j < 1024 \<and> slot_used wb' j} = {j. j < 1024 \<and> slot_used wb j} - {i}" using assms by auto
  moreover have "wb_slot ` ({j. j < 1024 \<and> slot_used wb j} - {i}) = wb_slot ` {j. j < 1024 \<and> slot_used wb j} - wb_slot ` {i}"
    by (rule inj_on_image_set_diff [OF wb_slot_inj]) (use assms(1) in auto)
  ultimately show ?thesis by (simp add: used_slots_def)
qed

lemma wb_slot_in_used: "i < 1024 \<Longrightarrow> wb_slot i \<in> used_slots wb \<longleftrightarrow> slot_used wb i"
  unfolding used_slots_def using inj_on_image_mem_iff [OF wb_slot_inj, of i "{i. i < 1024 \<and> slot_used wb i}"] by auto

lemma wb_free_slot:
  assumes "wb_ok wb" and "i < 1024"
  shows "amdgv_wb_memory_free wb (wb_slot i) = clear_wb_memory_tracking_bit wb (of_nat i)"
proof -
  have "(of_nat i :: u32) < 1024" using assms(2) by (simp add: word_less_nat_alt unat_slot)
  with assms show ?thesis by (simp add: amdgv_wb_memory_free_def drop_bit_slot wb_ok_def)
qed

interpretation wb_pool: slot_pool wb_take "\<lambda>dw wb. amdgv_wb_memory_free wb dw" used_slots wb_ok "wb_slot ` {..<1024}"
proof
  fix wb :: amdgv_wb and x wb'
  assume ok: "wb_ok wb" and "wb_take wb = Some (x, wb')"
  then obtain i where "i < 1024" "\<not> slot_used wb i" "x = wb_slot i" "wb' = set_wb_memory_tracking_bit wb (of_nat i)"
    by (cases rule: wb_get_cases) auto
  with ok show "wb_ok wb' \<and> x \<in> wb_slot ` {..<1024} - used_slots wb \<and> used_slots wb' = insert x (used_slots wb)"
    using set_bit_spec [OF ok] used_slots_insert [of i wb' wb] by (simp add: wb_slot_in_used)
next
  fix wb :: amdgv_wb
  assume ok: "wb_ok wb"
  have "wb_slot ` {..<1024} \<subseteq> used_slots wb \<longleftrightarrow> (\<forall>i<1024. slot_used wb i)"
    by (auto simp: wb_slot_in_used image_subset_iff)
  with ok show "wb_take wb = None \<longleftrightarrow> wb_slot ` {..<1024} \<subseteq> used_slots wb"
    by (cases rule: wb_get_cases) auto
next
  fix wb :: amdgv_wb and x
  assume ok: "wb_ok wb" and "x \<in> wb_slot ` {..<1024}"
  then obtain i where i: "i < 1024" "x = wb_slot i" by auto
  with ok show "wb_ok (amdgv_wb_memory_free wb x) \<and> used_slots (amdgv_wb_memory_free wb x) = used_slots wb - {x}"
    using clear_bit_spec [OF ok i(1)] used_slots_remove [of i "clear_wb_memory_tracking_bit wb (of_nat i)" wb]
    by (simp add: wb_free_slot)
qed

lemma fresh_wb_ledger:
  assumes "wb_num wb = of_nat AMDGV_MAX_WB" and "wb_used wb = replicate AMDGV_WB_QWORD_COUNT 0"
  shows "wb_pool.ledger_ok (wb, [])"
proof -
  have "used_slots wb = {}" using assms(2) by (auto simp: used_slots_def slot_used_def)
  with assms show ?thesis by (simp add: wb_pool.ledger_ok_def wb_ok_def)
qed

text \<open>C19. After any sequence in which the clients of the write-back memory take slots and give back slots they hold, no slot is held
  twice, every slot is the start of 32 bytes inside the 32 KiB block, the ranges of two slots are disjoint, and a
  request fails exactly when all 1024 slots are held.\<close>

theorem wb_slots_exclusive:
  assumes "wb_num wb = of_nat AMDGV_MAX_WB" and "wb_used wb = replicate AMDGV_WB_QWORD_COUNT 0"
    and "pool_run wb_take (\<lambda>dw wb. amdgv_wb_memory_free wb dw) ops (wb, []) = (wb', held)"
  shows "distinct held \<and>
    (\<forall>d \<in> set held. 8 dvd unat d \<and> 4 * unat d + 32 \<le> AMDGV_MAX_WB * AMDGV_WB_MEMORY_BYTE_SIZE) \<and>
    (\<forall>d \<in> set held. \<forall>e \<in> set held. d \<noteq> e \<longrightarrow> {4 * unat d..<4 * unat d + 32} \<inter> {4 * unat e..<4 * unat e + 32} = {}) \<and>
    (fst (amdgv_wb_memory_get wb') \<noteq> 0 \<longleftrightarrow> length held = AMDGV_MAX_WB)"
proof (intro conjI)
  have ok: "wb_pool.ledger_ok (wb', held)"
    using wb_pool.ledger_run_ok [OF fresh_wb_ledger [OF assms(1,2)], of ops] assms(3) by simp
  then show "distinct held" by (simp add: wb_pool.ledger_ok_def)
  have sub: "set held \<subseteq> wb_slot ` {..<1024}" using ok by (simp add: wb_pool.ledger_ok_def)
  then show "\<forall>d \<in> set held. 8 dvd unat d \<and> 4 * unat d + 32 \<le> AMDGV_MAX_WB * AMDGV_WB_MEMORY_BYTE_SIZE"
    by (fastforce simp: unat_wb_slot)
  show "\<forall>d \<in> set held. \<forall>e \<in> set held. d \<noteq> e \<longrightarrow> {4 * unat d..<4 * unat d + 32} \<inter> {4 * unat e..<4 * unat e + 32} = {}"
  proof (intro ballI impI)
    fix d e assume "d \<in> set held" "e \<in> set held" and ne: "d \<noteq> e"
    with sub obtain i j where "i < 1024" "j < 1024" "d = wb_slot i" "e = wb_slot j" by blast
    moreover from this ne have "i \<noteq> j" by auto
    ultimately show "{4 * unat d..<4 * unat d + 32} \<inter> {4 * unat e..<4 * unat e + 32} = {}"
      by (auto simp: unat_wb_slot)
  qed
  have "fst (amdgv_wb_memory_get wb') \<noteq> 0 \<longleftrightarrow> wb_take wb' = None"
    by (auto simp: wb_take_def amdgv_wb_memory_get_def Let_def)
  then show "fst (amdgv_wb_memory_get wb') \<noteq> 0 \<longleftrightarrow> length held = AMDGV_MAX_WB"
    using wb_pool.full_iff [OF ok] by (simp add: card_image wb_slot_inj)
qed

theorem wb_slots_exclusive_witness:
  "\<exists>wb' held. pool_run wb_take (\<lambda>dw wb. amdgv_wb_memory_free wb dw) [Take, Take, Give 0, Take, Take]
      (\<lparr>wb_obj = None, wb_cpu = 0, wb_gpu_addr = 0, wb_num = 1024, wb_used = replicate 16 0\<rparr>, []) = (wb', held) \<and>
    distinct held \<and> fst (amdgv_wb_memory_get wb') = 0 \<and> held = [8, 0, 16]"
proof -
  let ?wb = "\<lparr>wb_obj = None, wb_cpu = 0, wb_gpu_addr = 0, wb_num = 1024, wb_used = replicate 16 0\<rparr>"
  obtain wb' held where r: "pool_run wb_take (\<lambda>dw wb. amdgv_wb_memory_free wb dw) [Take, Take, Give 0, Take, Take] (?wb, []) = (wb', held)"
    by fastforce
  moreover have "snd (pool_run wb_take (\<lambda>dw wb. amdgv_wb_memory_free wb dw) [Take, Take, Give 0, Take, Take] (?wb, [])) = [8, 0, 16]"
    by code_simp
  ultimately show ?thesis
    using wb_slots_exclusive [of ?wb "[Take, Take, Give 0, Take, Take]" wb' held] by auto
qed

end
