(* ===== verification/GV_Wb_Live.thy ===== *)
theory GV_Wb_Live
  imports GV_Wb_Slots
begin

text \<open>
  Live update of the memory managers with the nodes of the new driver in place: what the import does to the node of an
  identifier, that the write-back block keeps its address, and that the import can leave the list of a heap unordered.
\<close>

section \<open>Live update\<close>

text \<open>What a record of the table does to the node of the same identifier.\<close>

definition relocate :: "amdgv_live_info_memmgr_mem \<Rightarrow> amdgv_memmgr_mem \<Rightarrow> amdgv_memmgr_mem" where
  "relocate r m = m\<lparr>mm_len := lm_len r, mm_alloc_off := lm_alloc_off r, mm_align := lm_align r, mm_id := lm_id r\<rparr>"

definition record_for :: "amdgv_mem_owner \<Rightarrow> u32 \<Rightarrow> amdgv_live_info_memmgr_mem \<Rightarrow> bool" where
  "record_for owner c r \<longleftrightarrow> lm_owner r = owner \<and> MEM_ID_GET_ID (lm_id r) \<noteq> MEM_ECC_BAD_PAGE \<and> lm_id r = c"

abbreviation node_at :: "nat \<Rightarrow> amdgv_memmgr_mem list \<Rightarrow> amdgv_memmgr_mem option" where
  "node_at p ms \<equiv> find (\<lambda>m. mm_ptr m = p) ms"

lemma map_id_import_update: "map mm_id (import_update ms r) = map mm_id ms"
  by (induction ms) auto

lemma node_at_import_update:
  assumes "distinct (map mm_id ms)" and "node_at p ms = Some m"
  shows "node_at p (import_update ms r) = Some (if mm_id m = lm_id r then relocate r m else m)"
  using assms
proof (induction ms)
  case (Cons x xs)
  show ?case
  proof (cases "mm_ptr x = p")
    case False
    have "mm_id m \<in> mm_id ` set xs" using Cons.prems(2) False by (auto simp: find_Some_iff)
    then have "mm_id x = lm_id r \<Longrightarrow> mm_id m \<noteq> lm_id r" using Cons.prems(1) by auto
    then show ?thesis using False Cons by auto
  qed (use Cons.prems in \<open>auto simp: relocate_def\<close>)
qed simp

lemma node_at_append: "node_at p ms = Some m \<Longrightarrow> node_at p (ms @ ns) = Some m"
  by (induction ms) auto

lemma relocate_id: "mm_id m = lm_id r \<Longrightarrow> mm_id (relocate r m) = mm_id m"
  by (simp add: relocate_def)

lemma import_loop_node:
  assumes "\<forall>j. mallocs j \<noteq> None" and "distinct (map mm_id (mg_allocs mgr))" and "node_at p (mg_allocs mgr) = Some m"
  shows "\<exists>ms. import_loop adapt mallocs mgr rs i owner = (0, mgr\<lparr>mg_allocs := ms\<rparr>) \<and>
    node_at p ms = Some (fold relocate (filter (record_for owner (mm_id m)) rs) m)"
  using assms
proof (induction rs arbitrary: mgr i m)
  case Nil
  show ?case by (rule exI [of _ "mg_allocs mgr"]) (simp add: Nil.prems)
next
  case (Cons r rs)
  show ?case
  proof (cases "lm_owner r \<noteq> owner \<or> MEM_ID_GET_ID (lm_id r) = MEM_ECC_BAD_PAGE")
    case True
    with Cons.IH [OF Cons.prems, of "Suc i"] show ?thesis by (auto simp: record_for_def)
  next
    case keep: False
    show ?thesis
    proof (cases "amdgv_memmgr_find_mem_id (mg_allocs mgr) (lm_id r) = None")
      case False
      let ?mgr = "mgr\<lparr>mg_allocs := import_update (mg_allocs mgr) r\<rparr>"
      let ?m = "if mm_id m = lm_id r then relocate r m else m"
      have "node_at p (mg_allocs ?mgr) = Some ?m" "mm_id ?m = mm_id m"
        using node_at_import_update [OF Cons.prems(2,3), of r] by (simp_all add: relocate_id)
      moreover have "distinct (map mm_id (mg_allocs ?mgr))" using Cons.prems(2) by (simp add: map_id_import_update)
      ultimately obtain ms where "import_loop adapt mallocs ?mgr rs (Suc i) owner = (0, ?mgr\<lparr>mg_allocs := ms\<rparr>)"
        "node_at p ms = Some (fold relocate (filter (record_for owner (mm_id m)) rs) ?m)"
        using Cons.IH [OF Cons.prems(1), of ?mgr ?m "Suc i"] by auto
      moreover have "record_for owner (mm_id m) r \<longleftrightarrow> mm_id m = lm_id r" using keep by (auto simp: record_for_def)
      ultimately show ?thesis using keep False by (intro exI [of _ ms]) simp
    next
      case True
      obtain z where z: "mallocs i = Some z" using Cons.prems(1) by blast
      define n where "n = z\<lparr>mm_len := lm_len r, mm_alloc_off := lm_alloc_off r, mm_align := lm_align r,
        mm_id := lm_id r, mm_handle := (if ma_gart_size adapt = 0 then None else mm_handle z)\<rparr>"
      let ?mgr = "mgr\<lparr>mg_allocs := mg_allocs mgr @ [n]\<rparr>"
      have other: "lm_id r \<notin> mm_id ` set (mg_allocs mgr)" using True by (simp add: find_mem_id_None_iff)
      have "mm_id n = lm_id r" by (simp add: n_def)
      then have "distinct (map mm_id (mg_allocs ?mgr))" using Cons.prems(2) other by auto
      moreover have "node_at p (mg_allocs ?mgr) = Some m" using Cons.prems(3) by (simp add: node_at_append)
      ultimately obtain ms where "import_loop adapt mallocs ?mgr rs (Suc i) owner = (0, ?mgr\<lparr>mg_allocs := ms\<rparr>)"
        "node_at p ms = Some (fold relocate (filter (record_for owner (mm_id m)) rs) m)"
        using Cons.IH [OF Cons.prems(1), of ?mgr m "Suc i"] by auto
      moreover have "\<not> record_for owner (mm_id m) r"
        using other Cons.prems(3) by (auto simp: record_for_def find_Some_iff)
      ultimately show ?thesis using keep True z by (intro exI [of _ ms]) (simp add: n_def)
    qed
  qed
qed

text \<open>What an export that succeeds has written.\<close>

lemma export_loop_success:
  assumes "export_loop ms arr i owner = (0, arr', j)" and "i \<le> length arr" and "length arr = MEM_ALLOCS_MAX"
  shows "length arr' = MEM_ALLOCS_MAX \<and> j = i + length (filter exported ms) \<and> j \<le> MEM_ALLOCS_MAX \<and>
    take j arr' = take i arr @ map (live_record owner) (filter exported ms)"
  using assms
proof (induction ms arbitrary: arr i)
  case (Cons m ms)
  have i: "i < MEM_ALLOCS_MAX" using Cons.prems(1) by (auto split: if_splits)
  show ?case
  proof (cases "exported m")
    case False
    with Cons i show ?thesis by (simp add: exported_def)
  next
    case True
    let ?arr = "arr[i := live_record owner m]"
    have "export_loop ms ?arr (Suc i) owner = (0, arr', j)"
      using Cons.prems(1) i True by (simp add: exported_def live_record_def)
    from Cons.IH [OF this] show ?thesis
      using i True Cons.prems(3) by (auto simp: take_Suc_conv_app_nth)
  qed
qed auto

lemma export_allocs_success:
  assumes "amdgv_memmgr_export_mem_allocs mgr arr i owner = (0, arr', j)" and "i \<le> length arr" and "length arr = MEM_ALLOCS_MAX"
  shows "length arr' = MEM_ALLOCS_MAX \<and> j \<le> MEM_ALLOCS_MAX \<and>
    take j arr' = take i arr @ map (live_record owner) (filter exported (mg_allocs mgr))"
proof -
  have "export_loop (mg_allocs mgr) arr i owner = (0, arr', j)"
    using assms(1) by (auto simp: amdgv_memmgr_export_mem_allocs_def split: if_splits prod.splits)
  from export_loop_success [OF this assms(2,3)] show ?thesis by blast
qed

lemma export_all_records:
  assumes "amdgv_memmgr_export_mem_allocs_all mgrs arr = (0, arr', n)" and "length arr = MEM_ALLOCS_MAX"
  shows "\<exists>rest. take n arr' = map (live_record MEM_OWNER_PF) (filter exported (mg_allocs (mn_pf mgrs))) @ rest \<and>
    (\<forall>r \<in> set rest. lm_owner r \<noteq> MEM_OWNER_PF)"
proof -
  obtain r1 a1 n1 where pf: "amdgv_memmgr_export_mem_allocs (mn_pf mgrs) arr 0 MEM_OWNER_PF = (r1, a1, n1)" by (metis prod_cases3)
  obtain r2 a2 n2 where gpu: "(if mg_is_init (mn_gpu mgrs) \<and> r1 = 0
      then amdgv_memmgr_export_mem_allocs (mn_gpu mgrs) a1 n1 MEM_OWNER_GPU else (r1, a1, n1)) = (r2, a2, n2)" by (metis prod_cases3)
  have sys: "(if mg_is_init (mn_sys mgrs) \<and> r2 = 0
      then amdgv_memmgr_export_mem_allocs (mn_sys mgrs) a2 n2 MEM_OWNER_SYS else (r2, a2, n2)) = (0, arr', n)"
    using assms(1) pf gpu by (simp add: amdgv_memmgr_export_mem_allocs_all_def)
  have r2: "r2 = 0" using sys by (auto split: if_splits)
  have r1: "r1 = 0" using gpu r2 by (auto split: if_splits)
  let ?pf = "map (live_record MEM_OWNER_PF) (filter exported (mg_allocs (mn_pf mgrs)))"
  have 1: "length a1 = MEM_ALLOCS_MAX" "n1 \<le> MEM_ALLOCS_MAX" "take n1 a1 = ?pf"
    using export_allocs_success [OF pf [unfolded r1]] assms(2) by auto
  obtain g where 2: "length a2 = MEM_ALLOCS_MAX" "n2 \<le> MEM_ALLOCS_MAX" "take n2 a2 = ?pf @ g"
    "\<forall>r \<in> set g. lm_owner r \<noteq> MEM_OWNER_PF"
  proof (cases "mg_is_init (mn_gpu mgrs)")
    case True
    with gpu r1 r2 export_allocs_success [of "mn_gpu mgrs" a1 n1 MEM_OWNER_GPU a2 n2] 1 show thesis
      by (intro that [of "map (live_record MEM_OWNER_GPU) (filter exported (mg_allocs (mn_gpu mgrs)))"]) (auto simp: live_record_def)
  next
    case False
    with gpu r1 1 show thesis by (intro that [of "[]"]) auto
  qed
  show ?thesis
  proof (cases "mg_is_init (mn_sys mgrs)")
    case True
    with sys r2 export_allocs_success [of "mn_sys mgrs" a2 n2 MEM_OWNER_SYS arr' n] 2 show ?thesis
      by (intro exI [of _ "g @ map (live_record MEM_OWNER_SYS) (filter exported (mg_allocs (mn_sys mgrs)))"]) (auto simp: live_record_def)
  next
    case False
    with sys r2 2 show ?thesis by (intro exI [of _ g]) auto
  qed
qed

lemma import_loop_returns_0:
  assumes "\<forall>j. mallocs j \<noteq> None"
  shows "fst (import_loop adapt mallocs mgr rs i owner) = 0"
proof (induction rs arbitrary: mgr i)
  case (Cons r rs)
  obtain z where "mallocs i = Some z" using assms by blast
  then show ?case by (simp add: Cons.IH)
qed simp

lemma filter_unique:
  assumes "distinct (map f xs)" and "x \<in> set xs"
  shows "filter (\<lambda>y. f y = f x) xs = [x]"
  using assms by (induction xs) (auto simp: filter_empty_conv image_iff)

lemma record_of_node:
  assumes "distinct (map mm_id (filter exported ms))" and "m \<in> set ms" and "exported m"
    and "\<forall>r \<in> set rest. lm_owner r \<noteq> MEM_OWNER_PF"
  shows "filter (record_for MEM_OWNER_PF (mm_id m)) (map (live_record MEM_OWNER_PF) (filter exported ms) @ rest) =
    [live_record MEM_OWNER_PF m]"
proof -
  have "filter (record_for MEM_OWNER_PF (mm_id m)) rest = []" using assms(4) by (auto simp: filter_empty_conv record_for_def)
  moreover have "filter (record_for MEM_OWNER_PF (mm_id m)) (map (live_record MEM_OWNER_PF) (filter exported ms)) =
      map (live_record MEM_OWNER_PF) (filter (\<lambda>x. mm_id x = mm_id m) (filter exported ms))"
    unfolding filter_map o_def by (intro arg_cong [where f = "map _"] filter_cong)
      (auto simp: record_for_def live_record_def exported_def)
  ultimately show ?thesis
    using filter_unique [OF assms(1), of m] assms(2,3) by simp
qed

lemma mem_node_alloc: "node_at p (mg_allocs mgr) = Some m \<Longrightarrow> mem_node mgr (Some p) = Inr (Some m)"
  by (simp add: mem_node_def node_at_append)

lemma export_live_data_success:
  assumes "amdgv_memmgr_export_live_data adapt info = (AMDGV_LIVE_INFO_STATUS_SUCCESS, table)"
    and "length (lx_allocs info) = MEM_ALLOCS_MAX"
  shows "lx_pf table = export_manager (fb_alignment_byte adapt) (mn_pf (al_mgrs adapt)) \<and>
    (\<exists>rest. take (lx_count table) (lx_allocs table) =
        map (live_record MEM_OWNER_PF) (filter exported (mg_allocs (mn_pf (al_mgrs adapt)))) @ rest \<and>
      (\<forall>r \<in> set rest. lm_owner r \<noteq> MEM_OWNER_PF))"
proof -
  obtain ret arr n where e: "amdgv_memmgr_export_mem_allocs_all (al_mgrs adapt) (lx_allocs info) = (ret, arr, n)"
    by (metis prod_cases3)
  have "ret = 0" "lx_pf table = export_manager (fb_alignment_byte adapt) (mn_pf (al_mgrs adapt))"
    "lx_count table = n" "lx_allocs table = arr"
    using assms(1) e by (auto simp: amdgv_memmgr_export_live_data_def Let_def split: if_splits)
  with e show ?thesis using export_all_records [of "al_mgrs adapt" "lx_allocs info" arr n] assms(2) by simp
qed

lemma import_pf_node:
  assumes "\<forall>ow j. mallocs ow j \<noteq> None" and "mg_has_allocs (mn_pf mgrs)"
    and "mg_is_init (mn_gpu mgrs) \<Longrightarrow> mg_has_allocs (mn_gpu mgrs)" and "mg_is_init (mn_sys mgrs) \<Longrightarrow> mg_has_allocs (mn_sys mgrs)"
    and "distinct (map mm_id (mg_allocs (mn_pf mgrs)))" and "node_at p (mg_allocs (mn_pf mgrs)) = Some m"
  shows "\<exists>mgrs' ms. amdgv_memmgr_import_mem_allocs_all adapt mallocs mgrs arr cnt = (0, mgrs') \<and>
    mn_pf mgrs' = (mn_pf mgrs)\<lparr>mg_allocs := ms\<rparr> \<and>
    node_at p ms = Some (fold relocate (filter (record_for MEM_OWNER_PF (mm_id m)) (take cnt arr)) m)"
proof -
  have m: "\<forall>j. mallocs ow j \<noteq> None" for ow using assms(1) by blast
  obtain ms where pf: "import_loop adapt (mallocs MEM_OWNER_PF) (mn_pf mgrs) (take cnt arr) 0 MEM_OWNER_PF =
      (0, (mn_pf mgrs)\<lparr>mg_allocs := ms\<rparr>)"
    "node_at p ms = Some (fold relocate (filter (record_for MEM_OWNER_PF (mm_id m)) (take cnt arr)) m)"
    using import_loop_node [OF m assms(5,6)] by blast
  obtain gpu where gpu: "import_loop adapt (mallocs MEM_OWNER_GPU) (mn_gpu mgrs) (take cnt arr) 0 MEM_OWNER_GPU = (0, gpu)"
    using import_loop_returns_0 [OF m, of adapt MEM_OWNER_GPU "mn_gpu mgrs" "take cnt arr" 0] by (metis prod.collapse)
  obtain sys where sys: "import_loop adapt (mallocs MEM_OWNER_SYS) (mn_sys mgrs) (take cnt arr) 0 MEM_OWNER_SYS = (0, sys)"
    using import_loop_returns_0 [OF m, of adapt MEM_OWNER_SYS "mn_sys mgrs" "take cnt arr" 0] by (metis prod.collapse)
  show ?thesis
    using pf gpu sys assms(2-4)
    by (auto simp: amdgv_memmgr_import_mem_allocs_all_def amdgv_memmgr_import_mem_allocs_def intro!: exI [of _ ms])
qed

text \<open>C25. Live update: the new driver, which has allocated its own write-back block under the same identifier, has after the
  import of the old driver's table the write-back block at the old GPU address and at the same place of the frame buffer
  for the CPU, so that fences and ring pointers of the running GPU keep their place.\<close>

theorem wb_address_survives_live_update:
  assumes "amdgv_memmgr_export_live_data A info = (AMDGV_LIVE_INFO_STATUS_SUCCESS, table)"
    and "length (lx_allocs info) = MEM_ALLOCS_MAX"
    and "node_at p (mg_allocs (mn_pf (al_mgrs A))) = Some m" and "exported m"
    and "distinct (map mm_id (filter exported (mg_allocs (mn_pf (al_mgrs A)))))"
    and "amdgv_wb_memory_hw_init_address (mn_pf (al_mgrs A)) wb = Inr (0, al_wb A)" and "wb_obj wb = Some p"
    and "\<not> mg_is_sys (mn_pf (al_mgrs A))" and "mg_cpu_base (mn_pf (al_mgrs A)) = al_fb A" and "al_fb A \<noteq> 0"
    and "wb_obj (al_wb B) = Some q" and "node_at q (mg_allocs (mn_pf (al_mgrs B))) = Some n" and "mm_id n = mm_id m"
    and "distinct (map mm_id (mg_allocs (mn_pf (al_mgrs B))))"
    and "\<not> mg_is_sys (mn_pf (al_mgrs B))" and "al_fb B \<noteq> 0" and "mg_has_allocs (mn_pf (al_mgrs B))"
    and "mg_is_init (mn_gpu (al_mgrs B)) \<Longrightarrow> mg_has_allocs (mn_gpu (al_mgrs B))"
    and "mg_is_init (mn_sys (al_mgrs B)) \<Longrightarrow> mg_has_allocs (mn_sys (al_mgrs B))"
    and "\<forall>ow j. mallocs ow j \<noteq> None"
  shows "\<exists>B'. amdgv_memmgr_import_live_data mallocs B table = Inr (AMDGV_LIVE_INFO_STATUS_SUCCESS, B') \<and>
    wb_gpu_addr (al_wb B') = wb_gpu_addr (al_wb A) \<and>
    wb_cpu (al_wb B') - al_fb B = wb_cpu (al_wb A) - al_fb A \<and>
    mg_tom (mn_pf (al_mgrs B')) = mg_tom (mn_pf (al_mgrs A))"
proof -
  let ?pf = "import_manager (al_fb B) (lx_pf table) (mn_pf (al_mgrs B))"
  obtain gpu where mgrs: "amdgv_memmgr_import_live_data mallocs B table =
      (let (ret, mgrs') = amdgv_memmgr_import_mem_allocs_all (al_ids B) mallocs
            ((al_mgrs B)\<lparr>mn_pf := ?pf, mn_gpu := gpu\<rparr>) (lx_allocs table) (lx_count table);
           B' = B\<lparr>al_mc := lx_mc table, al_mgrs := mgrs'\<rparr>
       in if ret \<noteq> 0 then Inr (AMDGV_LIVE_INFO_STATUS_GENERIC_ERROR, B')
          else cbind (amdgv_wb_memory_hw_init_address (mn_pf mgrs') (al_wb B)) (\<lambda>(r, wb').
            Inr (AMDGV_LIVE_INFO_STATUS_SUCCESS, B'\<lparr>al_wb := wb'\<rparr>)))"
    and gpu: "mg_is_init gpu \<Longrightarrow> mg_has_allocs gpu"
    using assms(18) by (intro that) (auto simp: amdgv_memmgr_import_live_data_def Let_def import_manager_def
        amdgv_memmgr_set_cpu_base_def)
  obtain rest where rest: "take (lx_count table) (lx_allocs table) =
      map (live_record MEM_OWNER_PF) (filter exported (mg_allocs (mn_pf (al_mgrs A)))) @ rest"
    "\<forall>r \<in> set rest. lm_owner r \<noteq> MEM_OWNER_PF"
    and pf: "lx_pf table = export_manager (fb_alignment_byte A) (mn_pf (al_mgrs A))"
    using export_live_data_success [OF assms(1,2)] by blast
  have "m \<in> set (mg_allocs (mn_pf (al_mgrs A)))" using assms(3) by (auto simp: find_Some_iff)
  then have "fold relocate (filter (record_for MEM_OWNER_PF (mm_id n)) (take (lx_count table) (lx_allocs table))) n =
      relocate (live_record MEM_OWNER_PF m) n"
    using record_of_node [OF assms(5) _ assms(4) rest(2)] rest(1) assms(13) by simp
  then obtain mgrs' ms where imp: "amdgv_memmgr_import_mem_allocs_all (al_ids B) mallocs ((al_mgrs B)\<lparr>mn_pf := ?pf, mn_gpu := gpu\<rparr>)
        (lx_allocs table) (lx_count table) = (0, mgrs')"
    "mn_pf mgrs' = ?pf\<lparr>mg_allocs := ms\<rparr>" "node_at q ms = Some (relocate (live_record MEM_OWNER_PF m) n)"
    using import_pf_node [of mallocs "(al_mgrs B)\<lparr>mn_pf := ?pf, mn_gpu := gpu\<rparr>" q n "al_ids B" "lx_allocs table" "lx_count table"]
      assms(12,14,17,19,20) gpu by (auto simp: import_manager_def amdgv_memmgr_set_cpu_base_def)
  let ?k = "relocate (live_record MEM_OWNER_PF m) n"
  have "mem_node (mn_pf mgrs') (Some q) = Inr (Some ?k)" using imp(2,3) by (simp add: mem_node_alloc)
  then have new: "amdgv_memmgr_import_live_data mallocs B table = Inr (AMDGV_LIVE_INFO_STATUS_SUCCESS,
      B\<lparr>al_mc := lx_mc table, al_mgrs := mgrs',
         al_wb := (al_wb B)\<lparr>wb_gpu_addr := amdgv_memmgr_get_gpu_addr (mn_pf mgrs') (Some ?k),
                            wb_cpu := amdgv_memmgr_get_cpu_addr (mn_pf mgrs') (Some ?k)\<rparr>\<rparr>)"
    using mgrs imp(1) assms(11) by (simp add: amdgv_wb_memory_hw_init_address_def)
  have old: "wb_gpu_addr (al_wb A) = amdgv_memmgr_get_gpu_addr (mn_pf (al_mgrs A)) (Some m)"
    "wb_cpu (al_wb A) = amdgv_memmgr_get_cpu_addr (mn_pf (al_mgrs A)) (Some m)"
    using assms(6,7) mem_node_alloc [OF assms(3)]
    by (auto simp: amdgv_wb_memory_hw_init_address_def dest!: sym [of _ "al_wb A"])
  show ?thesis
    unfolding new old using assms(8-10,15,16)
    by (simp add: imp(2) amdgv_memmgr_get_gpu_addr_def amdgv_memmgr_get_cpu_addr_def
        relocate_def live_record_def import_manager_def amdgv_memmgr_set_cpu_base_def pf export_manager_def)
qed

definition sample_wb :: "nat \<Rightarrow> amdgv_wb" where
  "sample_wb p = \<lparr>wb_obj = Some p, wb_cpu = 0, wb_gpu_addr = 0, wb_num = 1024, wb_used = replicate 16 0\<rparr>"

definition sample_live :: "u64 \<Rightarrow> amdgv_memmgr \<Rightarrow> amdgv_wb \<Rightarrow> live_adapter" where
  "sample_live fb pf wb = \<lparr>al_ids = sample_mem_adapter 4, al_mc = \<lparr>mc_fb_loc_addr = 0, mc_fb_top_addr = 0, mc_sys_loc_addr = 0,
       mc_sys_top_addr = 0, mc_agp_loc_addr = 0, mc_agp_top_addr = 0\<rparr>, al_fb = fb, al_fb_alignment = 0,
     al_mgrs = \<lparr>mn_pf = pf, mn_gpu = zero_mgr, mn_sys = zero_mgr\<rparr>, al_wb = wb\<rparr>"

definition sample_table :: amdgv_live_info_memmgr where
  "sample_table = \<lparr>lx_mc = al_mc (sample_live 0 zero_mgr (sample_wb 0)), lx_pf = export_manager 1 zero_mgr,
     lx_gpu = export_manager 1 zero_mgr, lx_count = 0,
     lx_allocs = replicate 128 (live_record MEM_OWNER_PF (mem_fresh 0))\<rparr>"

definition wb_node :: "nat \<Rightarrow> u64 \<Rightarrow> amdgv_memmgr_mem" where
  "wb_node p off = (mem_fresh p)\<lparr>mm_alloc_off := off, mm_len := 0x8000, mm_id := MEM_GFX_WB\<rparr>"

theorem wb_address_survives_live_update_witness:
  "\<exists>A table B'. wb_gpu_addr (al_wb A) = 0x8000100000 \<and>
    amdgv_memmgr_export_live_data A sample_table = (AMDGV_LIVE_INFO_STATUS_SUCCESS, table) \<and>
    amdgv_memmgr_import_live_data (\<lambda>ow j. Some (mem_fresh j))
      (sample_live 0x7000000 ((sample_mgr 0 0x10000000 False)\<lparr>mg_allocs := [wb_node 7 0x8000]\<rparr>) (sample_wb 7)) table =
      Inr (AMDGV_LIVE_INFO_STATUS_SUCCESS, B') \<and>
    wb_gpu_addr (al_wb B') = 0x8000100000 \<and> wb_cpu (al_wb B') = 0x7100000"
proof -
  let ?pf = "(sample_mgr 0 0x10000000 False)\<lparr>mg_allocs := [wb_node 1 0x108000], mg_mc_base := 0x8000000000, mg_cpu_base := 0x5000000\<rparr>"
  let ?A = "sample_live 0x5000000 ?pf ((sample_wb 1)\<lparr>wb_gpu_addr := 0x8000100000, wb_cpu := 0x5100000\<rparr>)"
  let ?B = "sample_live 0x7000000 ((sample_mgr 0 0x10000000 False)\<lparr>mg_allocs := [wb_node 7 0x8000]\<rparr>) (sample_wb 7)"
  have "fst (amdgv_memmgr_export_live_data ?A sample_table) = AMDGV_LIVE_INFO_STATUS_SUCCESS" by code_simp
  then obtain table where ex: "amdgv_memmgr_export_live_data ?A sample_table = (AMDGV_LIVE_INFO_STATUS_SUCCESS, table)"
    by (metis prod.collapse)
  have A: "length (lx_allocs sample_table) = 128" "node_at 1 (mg_allocs (mn_pf (al_mgrs ?A))) = Some (wb_node 1 0x108000)"
    "exported (wb_node 1 0x108000)" "distinct (map mm_id (filter exported (mg_allocs (mn_pf (al_mgrs ?A)))))"
    "amdgv_wb_memory_hw_init_address (mn_pf (al_mgrs ?A)) (sample_wb 1) = Inr (0, al_wb ?A)" "wb_obj (sample_wb 1) = Some 1"
    "\<not> mg_is_sys (mn_pf (al_mgrs ?A))" "mg_cpu_base (mn_pf (al_mgrs ?A)) = al_fb ?A" "al_fb ?A \<noteq> 0"
    by (simp_all add: sample_table_def sample_live_def sample_mgr_def zero_mgr_def amdgv_memmgr_init_def wb_node_def
        mem_fresh_def exported_def MEM_ID_GET_ID_def sample_wb_def amdgv_wb_memory_hw_init_address_def mem_node_def
        amdgv_memmgr_get_gpu_addr_def amdgv_memmgr_get_cpu_addr_def)
  have B: "wb_obj (al_wb ?B) = Some 7" "node_at 7 (mg_allocs (mn_pf (al_mgrs ?B))) = Some (wb_node 7 0x8000)"
    "mm_id (wb_node 7 0x8000) = mm_id (wb_node 1 0x108000)" "distinct (map mm_id (mg_allocs (mn_pf (al_mgrs ?B))))"
    "\<not> mg_is_sys (mn_pf (al_mgrs ?B))" "al_fb ?B \<noteq> 0" "mg_has_allocs (mn_pf (al_mgrs ?B))"
    "\<not> mg_is_init (mn_gpu (al_mgrs ?B))" "\<not> mg_is_init (mn_sys (al_mgrs ?B))"
    by (simp_all add: sample_live_def sample_mgr_def zero_mgr_def amdgv_memmgr_init_def wb_node_def mem_fresh_def sample_wb_def)
  obtain B' where "amdgv_memmgr_import_live_data (\<lambda>ow j. Some (mem_fresh j)) ?B table = Inr (AMDGV_LIVE_INFO_STATUS_SUCCESS, B')"
    "wb_gpu_addr (al_wb B') = wb_gpu_addr (al_wb ?A)" "wb_cpu (al_wb B') - al_fb ?B = wb_cpu (al_wb ?A) - al_fb ?A"
    using wb_address_survives_live_update [OF ex A B(1-7), of "\<lambda>ow j. Some (mem_fresh j)"] B(8,9) by auto
  moreover have wb: "wb_gpu_addr (al_wb ?A) = 0x8000100000" "wb_cpu (al_wb ?A) - al_fb ?A = 0x100000" "al_fb ?B = 0x7000000"
    by (simp_all add: sample_live_def)
  ultimately have "wb_gpu_addr (al_wb B') = 0x8000100000 \<and> wb_cpu (al_wb B') = 0x7100000 \<and>
      amdgv_memmgr_import_live_data (\<lambda>ow j. Some (mem_fresh j)) ?B table = Inr (AMDGV_LIVE_INFO_STATUS_SUCCESS, B')"
    by (simp add: diff_eq_eq)
  then show ?thesis using ex wb(1) by blast
qed

section \<open>An import that unsorts the heap\<close>

text \<open>The old driver: a block that is freed again, \<open>0x11\<close> behind it, \<open>0x12\<close> in the gap. The new driver allocates \<open>0x11\<close>
  and \<open>0x12\<close> while it starts in a live update.\<close>

definition alloc_in :: "nat \<Rightarrow> u64 \<Rightarrow> u32 \<Rightarrow> mem_adapter \<times> amdgv_memmgr \<Rightarrow> mem_adapter \<times> amdgv_memmgr" where
  "alloc_in p len wid st = snd (amdgv_memmgr_alloc_align (sample_env p) (fst st) (snd st) len 0x1000 wid)"

definition free_in :: "nat \<Rightarrow> mem_adapter \<times> amdgv_memmgr \<Rightarrow> mem_adapter \<times> amdgv_memmgr" where
  "free_in p st = (case amdgv_memmgr_free (sample_env 0) (fst st) (snd st) (Some p) of Inr r \<Rightarrow> snd r | Inl e \<Rightarrow> st)"

definition old_heap :: amdgv_memmgr where
  "old_heap = snd (alloc_in 3 0x1000 0x12 (free_in 1 (alloc_in 2 0x1000 0x11 (alloc_in 1 0x3000 0x10
     (sample_mem_adapter 4, sample_mgr 0 0x10000000 False)))))"

definition new_heap :: "mem_adapter \<times> amdgv_memmgr" where
  "new_heap = alloc_in 2 0x1000 0x12 (alloc_in 1 0x1000 0x11
     ((sample_mem_adapter 4)\<lparr>ma_skip_hw_init := True\<rparr>, sample_mgr 0 0x10000000 False))"

definition imported_heap :: "amdgv_memmgr cres" where
  "imported_heap =
     (let (st, table) = amdgv_memmgr_export_live_data (sample_live 0x5000000 old_heap (sample_wb 0)) sample_table in
      cbind (amdgv_memmgr_import_live_data (\<lambda>ow j. Some (mem_fresh j))
               ((sample_live 0x5000000 (snd new_heap) ((sample_wb 0)\<lparr>wb_obj := None\<rparr>))\<lparr>al_ids := fst new_heap\<rparr>) table) (\<lambda>(st', B).
        Inr (mn_pf (al_mgrs B))))"

lemma old_heap_blocks: "map blk (mg_allocs old_heap) = [(0, 0x1000), (0x3000, 0x4000)]"
  by code_simp

lemma imported_heap_blocks: "map_sum id (\<lambda>h. map blk (mg_allocs h)) imported_heap = Inr [(0x3000, 0x4000), (0, 0x1000)]"
  by code_simp

lemma imported_heap_next:
  "map_sum id (\<lambda>h. map blk (mg_allocs (snd (alloc_in 9 0x1000 0x13 (fst new_heap, h))))) imported_heap =
     Inr [(0, 0x1000), (0x3000, 0x4000), (0, 0x1000)]"
  by code_simp

text \<open>Where every record of a table names a node that the new driver has, the import moves the nodes and keeps their order.\<close>

lemma import_update_map:
  "distinct (map mm_id ms) \<Longrightarrow> import_update ms r = map (\<lambda>m. if mm_id m = lm_id r then relocate r m else m) ms"
proof (induction ms)
  case (Cons m ms)
  have "mm_id x \<noteq> lm_id r" if "mm_id m = lm_id r" "x \<in> set ms" for x
    using that Cons.prems by force
  then have "map (\<lambda>x. if mm_id x = lm_id r then relocate r x else x) ms = ms" if "mm_id m = lm_id r"
    using that by (intro map_idI) simp
  then show ?case using Cons by (simp add: relocate_def)
qed simp

lemma import_loop_map:
  assumes "distinct (map mm_id (mg_allocs mgr))"
    and "\<forall>r \<in> set rs. lm_owner r = owner \<and> MEM_ID_GET_ID (lm_id r) \<noteq> MEM_ECC_BAD_PAGE \<and> lm_id r \<in> mm_id ` set (mg_allocs mgr)"
  shows "import_loop adapt mallocs mgr rs i owner =
    (0, mgr\<lparr>mg_allocs := map (\<lambda>m. fold relocate (filter (record_for owner (mm_id m)) rs) m) (mg_allocs mgr)\<rparr>)"
  using assms
proof (induction rs arbitrary: mgr i)
  case (Cons r rs)
  let ?mgr = "mgr\<lparr>mg_allocs := import_update (mg_allocs mgr) r\<rparr>"
  have ids: "map mm_id (mg_allocs ?mgr) = map mm_id (mg_allocs mgr)" by (simp add: map_id_import_update)
  then have img: "mm_id ` set (mg_allocs ?mgr) = mm_id ` set (mg_allocs mgr)" by (metis set_map)
  have rec: "record_for owner c r \<longleftrightarrow> c = lm_id r" for c using Cons.prems(2) by (auto simp: record_for_def)
  have "amdgv_memmgr_find_mem_id (mg_allocs mgr) (lm_id r) \<noteq> None"
    using Cons.prems(2) by (simp add: find_mem_id_None_iff)
  then have "import_loop adapt mallocs mgr (r # rs) i owner = import_loop adapt mallocs ?mgr rs (Suc i) owner"
    using Cons.prems(2) by simp
  also have "\<dots> = (0, ?mgr\<lparr>mg_allocs := map (\<lambda>m. fold relocate (filter (record_for owner (mm_id m)) rs) m) (mg_allocs ?mgr)\<rparr>)"
    by (rule Cons.IH) (use Cons.prems ids img in \<open>simp_all del: import_update.simps\<close>)
  also have "map (\<lambda>m. fold relocate (filter (record_for owner (mm_id m)) rs) m) (mg_allocs ?mgr) =
      map (\<lambda>m. fold relocate (filter (record_for owner (mm_id m)) (r # rs)) m) (mg_allocs mgr)"
    by (simp add: import_update_map [OF Cons.prems(1)] rec relocate_def)
  finally show ?case by simp
qed simp

lemma fold_relocate_id: "\<forall>r \<in> set rs. lm_id r = mm_id m \<Longrightarrow> mm_id (fold relocate rs m) = mm_id m"
  by (induction rs arbitrary: m) (simp_all add: relocate_def)

lemma import_keeps_order:
  assumes "mg_has_allocs B" and "distinct (map mm_id olds)" and "\<forall>m \<in> set olds. exported m"
    and "distinct (map mm_id (mg_allocs B))" and "mm_id ` set olds \<subseteq> mm_id ` set (mg_allocs B)"
  shows "\<exists>move. amdgv_memmgr_import_mem_allocs adapt mallocs B (map (live_record owner) olds) (length olds) owner =
      (0, B\<lparr>mg_allocs := map move (mg_allocs B)\<rparr>) \<and>
    (\<forall>n. mm_id (move n) = mm_id n) \<and>
    (\<forall>n m. m \<in> set olds \<longrightarrow> mm_id n = mm_id m \<longrightarrow> move n = relocate (live_record owner m) n)"
proof -
  let ?rs = "map (live_record owner) olds"
  let ?move = "\<lambda>n. fold relocate (filter (record_for owner (mm_id n)) ?rs) n"
  have "import_loop adapt mallocs B ?rs 0 owner = (0, B\<lparr>mg_allocs := map ?move (mg_allocs B)\<rparr>)"
    by (rule import_loop_map [OF assms(4)]) (use assms(3,5) in \<open>auto simp: live_record_def exported_def\<close>)
  then have "amdgv_memmgr_import_mem_allocs adapt mallocs B ?rs (length olds) owner = (0, B\<lparr>mg_allocs := map ?move (mg_allocs B)\<rparr>)"
    using assms(1) by (simp add: amdgv_memmgr_import_mem_allocs_def)
  moreover have "?move n = relocate (live_record owner m) n" if "m \<in> set olds" "mm_id n = mm_id m" for n m
  proof -
    have "filter (record_for owner (mm_id n)) ?rs = map (live_record owner) (filter (\<lambda>x. mm_id x = mm_id m) olds)"
      unfolding filter_map o_def using assms(3) that(2)
      by (intro arg_cong [where f = "map _"] filter_cong) (auto simp: record_for_def live_record_def exported_def)
    then show ?thesis using filter_unique [OF assms(2) that(1)] by simp
  qed
  moreover have "mm_id (?move n) = mm_id n" for n
    by (rule fold_relocate_id) (simp add: record_for_def)
  ultimately show ?thesis by (intro exI [of _ ?move]) blast
qed

lemma blk_relocate: "blk (relocate (live_record owner m) n) = blk m"
  by (simp add: blk_def relocate_def live_record_def)

text \<open>The placement before a list whose first block leaves room at the base of the heap, whatever lies behind in the list.\<close>

lemma alloc_new_in_front:
  assumes "mg_allocs B = n # ns" and "mgr_base B + unat len < fst (blk n)"
    and "mg_head_off B = mg_offset B" and "mg_tom B \<noteq> mg_head_off B" and "\<not> mg_down B" and "\<not> mg_is_sys B"
    and "a \<le> 61" and "2 ^ a dvd mgr_base B" and "mgr_base B < 2 ^ 62" and "me_malloc env = Some z"
  shows "\<exists>new. alloc_new env adapt B len (2 ^ a) wid va = (Some (mm_ptr z), None, adapt, B\<lparr>mg_allocs := new # mg_allocs B\<rparr>) \<and>
    blk new = (mgr_base B, mgr_base B + unat len)"
proof -
  have pa: "(2::nat) ^ a \<le> 2 ^ 61" using assms(7) by (rule pow_le61)
  have "unat (AMDGV_MEMMGR_ALIGN (mg_offset B) (2 ^ a)) = unat (mg_offset B)"
    using assms(7-9) pa by (subst unat_ALIGN) (simp_all add: align_nat_fix mgr_base_def)
  then have al: "AMDGV_MEMMGR_ALIGN (mg_offset B) (2 ^ a) = mg_offset B" by (simp add: word_unat_eq_iff)
  have n: "unat (mg_offset B) + unat len < unat (mm_alloc_off n) - unat (mm_len n)" using assms(2) by (simp add: blk_def mgr_base_def)
  have off: "unat (mm_alloc_off n) < 2 ^ 64" using unsigned_less [of "mm_alloc_off n"] by simp
  with n have sum: "unat (mg_offset B + len) = unat (mg_offset B) + unat len"
    using off by (simp add: unat_word_ariths)
  have "mm_len n \<le> mm_alloc_off n" "\<not> unat (mm_alloc_off n) < unat (mg_offset B)" using n by (simp_all add: word_le_nat_alt)
  then have k: "amdgv_memmgr_find_size B len (2 ^ a) = 0"
    using n sum by (simp add: amdgv_memmgr_find_size_def assms(1) al word_less_nat_alt unat_sub not_less)
  define new where "new = z\<lparr>mm_len := len, mm_alloc_off := mg_offset B + len, mm_align := 2 ^ a, mm_id := wid, mm_handle := None,
    mm_va := va\<rparr>"
  have "alloc_new env adapt B len (2 ^ a) wid va = (Some (mm_ptr z), None, adapt, B\<lparr>mg_allocs := new # mg_allocs B\<rparr>)"
    using assms(3-6) k by (simp add: alloc_new_def assms(10) prev_off_def al place_node_def insert_at_def new_def)
  moreover have "blk new = (mgr_base B, mgr_base B + unat len)" by (simp add: blk_def new_def sum mgr_base_def)
  ultimately show ?thesis by blast
qed

text \<open>C40. An import moves the blocks of the new driver to the places of the old one but not within the list, which the search for
  a gap takes to be ordered by address. So when the head \<open>n\<close> of the new driver's list is moved to a place with more than \<open>len\<close>
  bytes before it, and a block \<open>m\<close> behind it to the base of the heap, the next allocation of \<open>len\<close> bytes gets the base
  as well, which is in use by \<open>m\<close>.\<close>

theorem live_update_unsorts_heap:
  assumes "mg_has_allocs B" and "distinct (map mm_id olds)" and "\<forall>m \<in> set olds. exported m"
    and "distinct (map mm_id (mg_allocs B))" and "mm_id ` set olds \<subseteq> mm_id ` set (mg_allocs B)"
    and "mg_allocs B = n # ns" and "n' \<in> set olds" and "mm_id n' = mm_id n" and "mgr_base B + unat len < fst (blk n')"
    and "m \<in> set ns" and "m' \<in> set olds" and "mm_id m' = mm_id m" and "fst (blk m') = mgr_base B" and "fst (blk m') < snd (blk m')"
    and "mg_head_off B = mg_offset B" and "mg_tom B \<noteq> mg_head_off B" and "\<not> mg_down B" and "\<not> mg_is_sys B"
    and "a \<le> 61" and "2 ^ a dvd mgr_base B" and "mgr_base B < 2 ^ 62" and "0 < len" and "me_malloc env = Some z"
  shows "\<exists>B' used new rest. amdgv_memmgr_import_mem_allocs adapt mallocs B (map (live_record owner) olds) (length olds) owner = (0, B') \<and>
    map mm_id (mg_allocs B') = map mm_id (mg_allocs B) \<and>
    alloc_new env adapt B' len (2 ^ a) wid va = (Some (mm_ptr z), None, adapt, B'\<lparr>mg_allocs := new # rest\<rparr>) \<and>
    rest = mg_allocs B' \<and> used \<in> set rest \<and> mm_id used = mm_id m \<and> blk used = blk m' \<and>
    blk new = (mgr_base B, mgr_base B + unat len) \<and> \<not> apart (blk new) (blk used)"
proof -
  obtain move where move: "amdgv_memmgr_import_mem_allocs adapt mallocs B (map (live_record owner) olds) (length olds) owner =
      (0, B\<lparr>mg_allocs := map move (mg_allocs B)\<rparr>)" "\<And>x. mm_id (move x) = mm_id x"
    "\<And>x y. y \<in> set olds \<Longrightarrow> mm_id x = mm_id y \<Longrightarrow> move x = relocate (live_record owner y) x"
    using import_keeps_order [OF assms(1-5)] by blast
  let ?B = "B\<lparr>mg_allocs := map move (mg_allocs B)\<rparr>"
  have same: "mgr_base ?B = mgr_base B" by (simp add: mgr_base_def)
  have head: "mg_allocs ?B = move n # map move ns" "blk (move n) = blk n'" "blk (move m) = blk m'"
    using move(3) assms(6-8,11,12) by (simp_all add: blk_relocate)
  obtain new where new: "alloc_new env adapt ?B len (2 ^ a) wid va = (Some (mm_ptr z), None, adapt, ?B\<lparr>mg_allocs := new # mg_allocs ?B\<rparr>)"
    "blk new = (mgr_base B, mgr_base B + unat len)"
    using alloc_new_in_front [OF head(1), of len a env z adapt wid va] assms(9,15-21,23) head(2) same by auto
  have "\<not> apart (blk new) (blk (move m))"
    using assms(13,14,22) by (simp add: apart_def new(2) head(3) word_less_nat_alt)
  moreover have "move m \<in> set (mg_allocs ?B)" using assms(6,10) by simp
  moreover have "map mm_id (mg_allocs ?B) = map mm_id (mg_allocs B)" by (simp add: move(2))
  ultimately show ?thesis using move(1) new head(3) move(2) [of m] by blast
qed

lemma swapped_heap_ids: "map mm_id (mg_allocs old_heap) = [0x12, 0x11]" "map mm_id (mg_allocs (snd new_heap)) = [0x11, 0x12]"
  by code_simp+

lemma swapped_heap_facts: "mg_head_off (snd new_heap) = 0 \<and> mg_offset (snd new_heap) = 0 \<and> mg_tom (snd new_heap) = 0x2000 \<and>
    mg_has_allocs (snd new_heap) \<and> \<not> mg_down (snd new_heap) \<and> \<not> mg_is_sys (snd new_heap)"
  by code_simp

theorem live_update_unsorts_heap_witness:
  "\<exists>B' used new rest. amdgv_memmgr_import_mem_allocs (sample_mem_adapter 4) (\<lambda>_. None) (snd new_heap)
        (map (live_record MEM_OWNER_PF) (mg_allocs old_heap)) (length (mg_allocs old_heap)) MEM_OWNER_PF = (0, B') \<and>
    alloc_new (sample_env 9) (sample_mem_adapter 4) B' 0x1000 (2 ^ 12) 0x13 0 = (Some 9, None, sample_mem_adapter 4, B'\<lparr>mg_allocs := new # rest\<rparr>) \<and>
    used \<in> set rest \<and> mm_id used = 0x12 \<and> blk used = (0, 0x1000) \<and> blk new = (0, 0x1000)"
proof -
  obtain o1 o2 where old: "mg_allocs old_heap = [o1, o2]" "mm_id o1 = 0x12" "mm_id o2 = 0x11"
    using swapped_heap_ids(1) by (auto simp: map_eq_Cons_conv)
  obtain n1 n2 where new: "mg_allocs (snd new_heap) = [n1, n2]" "mm_id n1 = 0x11" "mm_id n2 = 0x12"
    using swapped_heap_ids(2) by (auto simp: map_eq_Cons_conv)
  have b: "blk o1 = (0, 0x1000)" "blk o2 = (0x3000, 0x4000)" using old_heap_blocks by (simp_all add: old(1))
  have f: "mg_has_allocs (snd new_heap)" "mg_head_off (snd new_heap) = mg_offset (snd new_heap)"
    "mg_tom (snd new_heap) \<noteq> mg_head_off (snd new_heap)" "\<not> mg_down (snd new_heap)" "\<not> mg_is_sys (snd new_heap)"
    "mgr_base (snd new_heap) = 0"
    using swapped_heap_facts by (simp_all add: mgr_base_def)
  have z: "me_malloc (sample_env 9) = Some (the (me_malloc (sample_env 9)))" "mm_ptr (the (me_malloc (sample_env 9))) = 9"
    by (simp_all add: sample_env_def mem_fresh_def)
  have h: "distinct (map mm_id (mg_allocs old_heap))" "\<forall>m \<in> set (mg_allocs old_heap). exported m"
    "distinct (map mm_id (mg_allocs (snd new_heap)))" "mm_id ` set (mg_allocs old_heap) \<subseteq> mm_id ` set (mg_allocs (snd new_heap))"
    by (simp_all add: old new exported_def MEM_ID_GET_ID_def)
  show ?thesis
    using live_update_unsorts_heap [OF f(1) h new(1), where n' = o2 and len = "0x1000" and m = n2 and m' = o1 and a = 12
        and env = "sample_env 9" and z = "the (me_malloc (sample_env 9))" and owner = MEM_OWNER_PF and wid = "0x13" and va = 0
        and adapt = "sample_mem_adapter 4" and mallocs = "\<lambda>_. None"] old new(2,3) b f(2-6) z
    by (simp add: word_less_nat_alt) blast
qed

end
