(* ===== verification/GV_Ring.thy ===== *)
theory GV_Ring
  imports GV_Wb
begin

text \<open>
  The command rings of \<^verbatim>\<open>libgv/core/amdgv_ring.c\<close>. A ring is an array of dwords in the frame buffer that the driver writes
  packets to and an engine reads from, with a write pointer that only grows and is masked for the access. Five write-back
  slots of each ring hold its pointers and fences.

  The ring's callbacks are fields of \<open>amdgv_ring_funcs\<close>, over a type of states, \<open>None\<close> for NULL. What the engine writes to
  memory while the driver waits is an argument, \<open>gpu t\<close> at the \<open>t\<close>-th delay.
\<close>

section \<open>State\<close>

abbreviation (input) AMDGV_MAX_RINGS :: nat where "AMDGV_MAX_RINGS \<equiv> 64"
abbreviation (input) AMDGV_AQL_INVALID_PACKET_HEADER :: u32 where "AMDGV_AQL_INVALID_PACKET_HEADER \<equiv> 1"
abbreviation (input) AMDGV_AQL_INVALID_PACKET_DATA :: u32 where "AMDGV_AQL_INVALID_PACKET_DATA \<equiv> 0"

record amdgv_fence_driver =
  fd_gpu_addr :: u64
  fd_cpu_addr :: u64
  fd_sync_seq :: u32
  fd_initialized :: bool
  fd_num_fences_mask :: u32
  fd_lock :: bool

text \<open>\<open>rg_ptr\<close> is the address of the structure, \<open>rg_adapt\<close> whether \<^verbatim>\<open>ring->adapt\<close> is set, \<open>rg_count_dw\<close> the \<^verbatim>\<open>int\<close> \<^verbatim>\<open>count_dw\<close>
  as its word.\<close>

record amdgv_ring =
  rg_ptr :: nat
  rg_adapt :: bool
  rg_fence_drv :: amdgv_fence_driver
  rg_ring_obj :: "nat option"
  rg_ring :: u64
  rg_wptr :: u64
  rg_wptr_old :: u64
  rg_ring_size :: u32
  rg_log2_ring_size :: u32
  rg_max_dw :: u32
  rg_count_dw :: u32
  rg_gpu_addr :: u64
  rg_ptr_mask :: u64
  rg_buf_mask :: u32
  rg_idx :: u32
  rg_me :: u32
  rg_queue :: u32
  rg_doorbell_index :: u32
  rg_use_doorbell :: bool
  rg_rptr_offs :: u32
  rg_rptr_gpu_addr :: u64
  rg_rptr_cpu_addr :: u64
  rg_wptr_offs :: u32
  rg_wptr_gpu_addr :: u64
  rg_wptr_cpu_addr :: u64
  rg_fence_offs :: u32
  rg_fence_gpu_addr :: u64
  rg_fence_cpu_addr :: u64
  rg_trail_fence_offs :: u32
  rg_trail_fence_gpu_addr :: u64
  rg_trail_fence_cpu_addr :: u64
  rg_cond_exe_offs :: u32
  rg_cond_exe_gpu_addr :: u64
  rg_cond_exe_cpu_addr :: u64
  rg_current_ctx :: u64
  rg_hw_prio :: u32
  rg_num_hw_submission :: u32
  rg_aql_enable :: bool
  rg_is_mes_queue :: bool

text \<open>Doorbells, registers and flushes are a trace of what the device sees.\<close>

datatype ring_event = Hdp_Flush | Doorbell64 u32 u64 | Rb_Wptr u32 u32 | Rb_Wptr_Hi u32 u32

record ring_io =
  io_cpu :: cpu_mem
  io_wb :: amdgv_wb
  io_time :: nat
  io_events :: "ring_event list"

type_synonym ring_state = "amdgv_ring \<times> ring_io"

record amdgv_ib =
  ib_sa_bo :: "nat option"
  ib_gpu_addr :: u64
  ib_ptr :: u64
  ib_flags :: u32

record 's amdgv_ring_funcs =
  rf_align_mask :: u32
  rf_aql_align_mask :: u32
  rf_nop :: u32
  rf_aql_nop :: u32
  rf_support_64bit_ptrs :: bool
  rf_extra_dw :: u32
  rf_emit_frame_size :: u32
  rf_emit_ib_size :: u32
  rf_set_wptr :: "'s \<Rightarrow> 's cres"
  rf_insert_nop :: "u32 \<Rightarrow> 's \<Rightarrow> 's cres"
  rf_emit_fence :: "(u64 \<Rightarrow> u64 \<Rightarrow> u32 \<Rightarrow> 's \<Rightarrow> 's cres) option"
  rf_emit_hdp_flush :: "('s \<Rightarrow> 's cres) option"
  rf_emit_ib :: "(amdgv_ib \<Rightarrow> u32 \<Rightarrow> 's \<Rightarrow> 's cres) option"
  rf_emit_wave_limit :: "(bool \<Rightarrow> 's \<Rightarrow> 's cres) option"
  rf_insert_start :: "('s \<Rightarrow> 's cres) option"
  rf_insert_end :: "('s \<Rightarrow> 's cres) option"
  rf_begin_use :: "('s \<Rightarrow> 's cres) option"
  rf_end_use :: "('s \<Rightarrow> 's cres) option"

text \<open>A callback that the code tests for NULL before the call, and one it does not test.\<close>

definition call_if :: "('s \<Rightarrow> 's cres) option \<Rightarrow> 's \<Rightarrow> 's cres" where
  "call_if f s = (case f of None \<Rightarrow> Inr s | Some g \<Rightarrow> g s)"

definition call :: "('s \<Rightarrow> 's cres) option \<Rightarrow> 's \<Rightarrow> 's cres" where
  "call f s = (case f of None \<Rightarrow> Inl Null_Deref | Some g \<Rightarrow> g s)"

text \<open>The part of the adapter that holds rings.\<close>

record ring_adapter =
  ra_ids :: mem_adapter
  ra_pf :: amdgv_memmgr
  ra_num_rings :: u32
  ra_rings :: "nat option list"
  ra_io :: ring_io

definition ring_trace :: "ring_event \<Rightarrow> ring_state \<Rightarrow> ring_state" where
  "ring_trace e st = (fst st, (snd st)\<lparr>io_events := io_events (snd st) @ [e]\<rparr>)"

section \<open>Writing packets\<close>

definition amdgv_ring_write :: "u32 \<Rightarrow> ring_state \<Rightarrow> ring_state cres" where
  "amdgv_ring_write v st =
     (case st of (ring, io) \<Rightarrow>
        cbind (st32 (rg_ring ring) (4 * (rg_wptr ring AND ucast (rg_buf_mask ring))) v (io_cpu io)) (\<lambda>cpu.
          Inr (ring\<lparr>rg_wptr := (rg_wptr ring + 1) AND rg_ptr_mask ring, rg_count_dw := rg_count_dw ring - 1\<rparr>,
               io\<lparr>io_cpu := cpu\<rparr>)))"

text \<open>\<^verbatim>\<open>oss_memcpy\<close> of dwords to a byte offset \<open>off\<close> of what \<open>base\<close> points to.\<close>

fun put_words :: "u64 \<Rightarrow> u64 \<Rightarrow> u32 list \<Rightarrow> cpu_mem \<Rightarrow> cpu_mem cres" where
  "put_words base off [] cpu = Inr cpu"
| "put_words base off (v # vs) cpu = cbind (st32 base off v cpu) (put_words base (off + 4) vs)"

definition memcpy_words :: "u64 \<Rightarrow> u64 \<Rightarrow> u32 list \<Rightarrow> u32 \<Rightarrow> cpu_mem \<Rightarrow> cpu_mem cres" where
  "memcpy_words base off src bytes cpu =
     (let n = unat bytes div 4 in
      if n \<le> length src then put_words base off (take n src) cpu else Inl Out_Of_Bounds)"

definition amdgv_ring_write_multiple :: "u32 list \<Rightarrow> u32 \<Rightarrow> ring_state \<Rightarrow> ring_state cres" where
  "amdgv_ring_write_multiple src count_dw st =
     (case st of (ring, io) \<Rightarrow>
        let occupied = ucast (rg_wptr ring AND ucast (rg_buf_mask ring)) :: u32;
            chunk1 = rg_buf_mask ring + 1 - occupied;
            chunk1 = (if count_dw \<le> chunk1 then count_dw else chunk1);
            chunk2 = count_dw - chunk1
        in cbind (if chunk1 \<noteq> 0 then memcpy_words (rg_ring ring) (4 * ucast occupied) src (push_bit 2 chunk1) (io_cpu io)
                  else Inr (io_cpu io)) (\<lambda>cpu.
           cbind (if chunk2 \<noteq> 0 then memcpy_words (rg_ring ring) 0 (drop (unat chunk1) src) (push_bit 2 chunk2) cpu
                  else Inr cpu) (\<lambda>cpu.
             Inr (ring\<lparr>rg_wptr := (rg_wptr ring + ucast count_dw) AND rg_ptr_mask ring,
                       rg_count_dw := rg_count_dw ring - count_dw\<rparr>, io\<lparr>io_cpu := cpu\<rparr>))))"

text \<open>With a mask of all ones the index would wrap before it passes the mask.\<close>

fun clear_ring_loop :: "'s amdgv_ring_funcs \<Rightarrow> amdgv_ring \<Rightarrow> nat list \<Rightarrow> cpu_mem \<Rightarrow> cpu_mem cres" where
  "clear_ring_loop funcs ring [] cpu = Inr cpu"
| "clear_ring_loop funcs ring (i # is) cpu =
     cbind (st32 (rg_ring ring) (4 * of_nat i)
              (if rg_aql_enable ring
               then (if i mod 16 = 0 then AMDGV_AQL_INVALID_PACKET_HEADER else AMDGV_AQL_INVALID_PACKET_DATA)
               else rf_nop funcs) cpu)
       (clear_ring_loop funcs ring is)"

definition amdgv_ring_clear_ring :: "'s amdgv_ring_funcs \<Rightarrow> ring_state \<Rightarrow> ring_state cres" where
  "amdgv_ring_clear_ring funcs st =
     (case st of (ring, io) \<Rightarrow>
        if rg_buf_mask ring = - 1 then Inl Endless_Loop
        else cbind (clear_ring_loop funcs ring [0..<Suc (unat (rg_buf_mask ring))] (io_cpu io)) (\<lambda>cpu.
          Inr (ring, io\<lparr>io_cpu := cpu\<rparr>)))"

section \<open>Submissions\<close>

definition ring_align_mask :: "'s amdgv_ring_funcs \<Rightarrow> amdgv_ring \<Rightarrow> u32" where
  "ring_align_mask funcs ring = (if rg_aql_enable ring then rf_aql_align_mask funcs else rf_align_mask funcs)"

definition amdgv_ring_alloc :: "ring_state amdgv_ring_funcs \<Rightarrow> u32 \<Rightarrow> ring_state \<Rightarrow> (int \<times> ring_state) cres" where
  "amdgv_ring_alloc funcs ndw st =
     (case st of (ring, io) \<Rightarrow>
        let ndw = (ndw + ring_align_mask funcs ring) AND NOT (ring_align_mask funcs ring) in
        if rg_max_dw ring < ndw then Inr (AMDGV_FAILURE, st)
        else cbind (call_if (rf_begin_use funcs) (ring\<lparr>rg_count_dw := ndw, rg_wptr_old := rg_wptr ring\<rparr>, io)) (\<lambda>st'.
          Inr (0, st')))"

primrec write_times :: "nat \<Rightarrow> u32 \<Rightarrow> ring_state \<Rightarrow> ring_state cres" where
  "write_times 0 v st = Inr st"
| "write_times (Suc n) v st = cbind (amdgv_ring_write v st) (write_times n v)"

definition amdgv_ring_insert_nop :: "'s amdgv_ring_funcs \<Rightarrow> u32 \<Rightarrow> ring_state \<Rightarrow> ring_state cres" where
  "amdgv_ring_insert_nop funcs count st =
     write_times (unat count) (if rg_aql_enable (fst st) then rf_aql_nop funcs else rf_nop funcs) st"

text \<open>The padding is computed in 64 bits, because the write pointer is, and kept in 32.\<close>

definition amdgv_ring_commit :: "ring_state amdgv_ring_funcs \<Rightarrow> ring_state \<Rightarrow> ring_state cres" where
  "amdgv_ring_commit funcs st =
     (let align_mask = ring_align_mask funcs (fst st);
          count = ucast (ucast (align_mask + 1) - (rg_wptr (fst st) AND ucast align_mask)) :: u32
      in if align_mask + 1 = 0 then Inl Div_By_Zero
         else cbind (rf_insert_nop funcs (count mod (align_mask + 1)) st) (\<lambda>st.
              cbind (rf_set_wptr funcs (ring_trace Hdp_Flush st)) (call_if (rf_end_use funcs))))"

definition amdgv_ring_undo :: "ring_state amdgv_ring_funcs \<Rightarrow> ring_state \<Rightarrow> ring_state cres" where
  "amdgv_ring_undo funcs st =
     (case st of (ring, io) \<Rightarrow> call_if (rf_end_use funcs) (ring\<lparr>rg_wptr := rg_wptr_old ring\<rparr>, io))"

section \<open>Fences\<close>

definition amdgv_fence_write :: "u32 \<Rightarrow> ring_state \<Rightarrow> ring_state cres" where
  "amdgv_fence_write seq st =
     (case st of (ring, io) \<Rightarrow>
        if fd_cpu_addr (rg_fence_drv ring) \<noteq> 0
        then cbind (st32 (fd_cpu_addr (rg_fence_drv ring)) 0 seq (io_cpu io)) (\<lambda>cpu. Inr (ring, io\<lparr>io_cpu := cpu\<rparr>))
        else Inr st)"

definition amdgv_fence_driver_start_ring :: "ring_state \<Rightarrow> (int \<times> ring_state) cres" where
  "amdgv_fence_driver_start_ring st =
     (case st of (ring, io) \<Rightarrow>
        let ring1 = ring\<lparr>rg_fence_drv := (rg_fence_drv ring)\<lparr>fd_cpu_addr := rg_fence_cpu_addr ring,
                                                     fd_gpu_addr := rg_fence_gpu_addr ring\<rparr>\<rparr>
        in cbind (amdgv_fence_write (fd_sync_seq (rg_fence_drv ring)) (ring1, io)) (\<lambda>(ring2, io2).
             Inr (0, ring2\<lparr>rg_fence_drv := (rg_fence_drv ring2)\<lparr>fd_initialized := True\<rparr>\<rparr>, io2)))"

definition amdgv_fence_driver_init_ring :: "bool \<Rightarrow> amdgv_ring \<Rightarrow> int \<times> amdgv_ring" where
  "amdgv_fence_driver_init_ring lock_ok ring =
     (if \<not> rg_adapt ring then (AMDGV_FAILURE, ring)
      else (0, ring\<lparr>rg_fence_drv := \<lparr>fd_gpu_addr = 0, fd_cpu_addr = 0, fd_sync_seq = 0, fd_initialized = False,
              fd_num_fences_mask = rg_num_hw_submission ring * 2 - 1, fd_lock = lock_ok\<rparr>\<rparr>))"

definition amdgv_fence_read :: "ring_state \<Rightarrow> u32 cres" where
  "amdgv_fence_read st =
     (case st of (ring, io) \<Rightarrow>
        if fd_cpu_addr (rg_fence_drv ring) \<noteq> 0 then ld32 (fd_cpu_addr (rg_fence_drv ring)) 0 (io_cpu io)
        else Inr (fd_sync_seq (rg_fence_drv ring)))"

text \<open>A delay, during which the engine may write to memory.\<close>

definition ring_delay :: "(nat \<Rightarrow> cpu_mem \<Rightarrow> cpu_mem) \<Rightarrow> ring_io \<Rightarrow> ring_io" where
  "ring_delay gpu io = io\<lparr>io_cpu := gpu (io_time io) (io_cpu io), io_time := Suc (io_time io)\<rparr>"

function fence_poll_loop :: "(nat \<Rightarrow> cpu_mem \<Rightarrow> cpu_mem) \<Rightarrow> u32 \<Rightarrow> int \<Rightarrow> ring_state \<Rightarrow> (int \<times> ring_state) cres" where
  "fence_poll_loop gpu wait_seq timeout st =
     (case amdgv_fence_read st of
        Inl e \<Rightarrow> Inl e
      | Inr seq \<Rightarrow>
          let st' = (fst st, ring_delay gpu (snd st)) in
          if 0 < sint (wait_seq - seq) \<and> 0 < timeout - 5 then fence_poll_loop gpu wait_seq (timeout - 5) st'
          else Inr (timeout - 5, st'))"
  by pat_completeness auto
termination by (relation "measure (\<lambda>(gpu, wait_seq, timeout, st). nat timeout)") auto

declare fence_poll_loop.simps [simp del]

definition amdgv_fence_wait_polling :: "(nat \<Rightarrow> cpu_mem \<Rightarrow> cpu_mem) \<Rightarrow> u32 \<Rightarrow> int \<Rightarrow> ring_state \<Rightarrow>
    (int \<times> ring_state) cres" where
  "amdgv_fence_wait_polling gpu wait_seq timeout st =
     cbind (fence_poll_loop gpu wait_seq timeout st) (\<lambda>(timeout', st').
       Inr (if 0 < timeout' then timeout' else 0, st'))"

text \<open>\<^verbatim>\<open>s\<close> is never NULL in the sources; the second component is what is written to it.\<close>

definition amdgv_fence_emit_polling :: "ring_state amdgv_ring_funcs \<Rightarrow> ring_state \<Rightarrow> (int \<times> u32 \<times> ring_state) cres" where
  "amdgv_fence_emit_polling funcs st =
     (case st of (ring, io) \<Rightarrow>
        let seq = fd_sync_seq (rg_fence_drv ring) + 1;
            ring1 = ring\<lparr>rg_fence_drv := (rg_fence_drv ring)\<lparr>fd_sync_seq := seq\<rparr>\<rparr>
        in cbind (call (map_option (\<lambda>f. f (fd_gpu_addr (rg_fence_drv ring)) (ucast seq) 0) (rf_emit_fence funcs)) (ring1, io))
             (\<lambda>st'. Inr (0, seq, st')))"

section \<open>Creation\<close>

fun take_slots :: "(u32 \<Rightarrow> amdgv_ring \<Rightarrow> amdgv_ring) list \<Rightarrow> amdgv_wb \<Rightarrow> amdgv_ring \<Rightarrow> int \<times> amdgv_wb \<times> amdgv_ring" where
  "take_slots [] wb ring = (0, wb, ring)"
| "take_slots (f # fs) wb ring =
     (case amdgv_wb_memory_get wb of (r, dw, wb') \<Rightarrow>
        let ring' = (case dw of None \<Rightarrow> ring | Some d \<Rightarrow> f d ring) in
        if r \<noteq> 0 then (r, wb', ring') else take_slots fs wb' ring')"

definition ring_slot_fields :: "(u32 \<Rightarrow> amdgv_ring \<Rightarrow> amdgv_ring) list" where
  "ring_slot_fields = [\<lambda>d r. r\<lparr>rg_rptr_offs := d\<rparr>, \<lambda>d r. r\<lparr>rg_wptr_offs := d\<rparr>, \<lambda>d r. r\<lparr>rg_fence_offs := d\<rparr>,
     \<lambda>d r. r\<lparr>rg_trail_fence_offs := d\<rparr>, \<lambda>d r. r\<lparr>rg_cond_exe_offs := d\<rparr>]"

text \<open>The loop over the bits from 23 down: the logarithm loses one for each clear bit above the highest set one.\<close>

primrec log2_scan :: "nat \<Rightarrow> u32 \<Rightarrow> u32 \<Rightarrow> u32 \<Rightarrow> u32" where
  "log2_scan 0 sz msk lg = lg"
| "log2_scan (Suc n) sz msk lg = (if sz AND msk \<noteq> 0 then lg else log2_scan n sz (drop_bit 1 msk) (lg - 1))"

definition ring_log2 :: "u32 \<Rightarrow> u32" where
  "ring_log2 ring_buffer_dword_size =
     (if 0x1000000 \<le> ring_buffer_dword_size then 24
      else log2_scan 32 ring_buffer_dword_size 0x800000
        (if ring_buffer_dword_size AND (ring_buffer_dword_size - 1) \<noteq> 0 then 24 else 23))"

text \<open>The ring enters itself in the table of the adapter the first time. A shift of \<^verbatim>\<open>1\<close> by 31 or more has no result in C.\<close>

definition ring_register :: "bool \<Rightarrow> u32 \<Rightarrow> ring_adapter \<Rightarrow> amdgv_ring \<Rightarrow> (int \<times> ring_adapter \<times> amdgv_ring) cres" where
  "ring_register lock_ok sched_hw_submission adapt ring =
     (if rg_adapt ring then Inr (0, adapt, ring)
      else if AMDGV_MAX_RINGS \<le> unat (ra_num_rings adapt) then Inr (AMDGV_FAILURE, adapt, ring)
      else
        let ring1 = ring\<lparr>rg_adapt := True, rg_num_hw_submission := sched_hw_submission\<rparr> in
        if \<not> rg_is_mes_queue ring then
          let ring2 = ring1\<lparr>rg_idx := ra_num_rings adapt\<rparr> in
          cbind (cwrite (ra_rings adapt) (unat (rg_idx ring2)) (Some (rg_ptr ring))) (\<lambda>rings.
            let (r, ring3) = amdgv_fence_driver_init_ring lock_ok ring2 in
            Inr (r, adapt\<lparr>ra_num_rings := ra_num_rings adapt + 1, ra_rings := rings\<rparr>, ring3))
        else
          let (r, ring2) = amdgv_fence_driver_init_ring lock_ok ring1 in Inr (r, adapt, ring2))"

definition ring_set_size :: "ring_state amdgv_ring_funcs option \<Rightarrow> u32 \<Rightarrow> amdgv_ring \<Rightarrow> amdgv_ring" where
  "ring_set_size funcs lg ring =
     (let sz = push_bit (unat lg) 1 in
      ring\<lparr>rg_ring_size := sz, rg_log2_ring_size := lg, rg_buf_mask := sz - 1,
           rg_ptr_mask := (if funcs \<noteq> None \<and> rf_support_64bit_ptrs (the funcs) then 0xffffffffffffffff
                           else ucast (sz - 1))\<rparr>)"

text \<open>The ring keeps its buffer over a second creation.\<close>

definition ring_alloc_obj :: "mem_env \<Rightarrow> ring_state amdgv_ring_funcs option \<Rightarrow> ring_adapter \<Rightarrow> amdgv_ring \<Rightarrow> u32 \<Rightarrow>
    nat option \<times> mem_adapter \<times> amdgv_memmgr" where
  "ring_alloc_obj env funcs adapt ring wid =
     (let extra_dw = (case funcs of None \<Rightarrow> 0 | Some f \<Rightarrow> rf_extra_dw f) in
      if rg_ring_obj ring = None
      then amdgv_memmgr_alloc_align env (ra_ids adapt) (ra_pf adapt) (ucast (rg_ring_size ring + extra_dw) * 4) PAGE_SIZE wid
      else (rg_ring_obj ring, ra_ids adapt, ra_pf adapt))"

definition amdgv_ring_init :: "bool \<Rightarrow> mem_env \<Rightarrow> ring_state amdgv_ring_funcs option \<Rightarrow> ring_adapter \<Rightarrow> amdgv_ring \<Rightarrow>
    u32 \<Rightarrow> u32 \<Rightarrow> u32 \<Rightarrow> u32 \<Rightarrow> (int \<times> ring_adapter \<times> amdgv_ring) cres" where
  "amdgv_ring_init lock_ok env funcs adapt ring max_dw frames hw_prio wid =
     (let frame_dword_size = (if max_dw = 0 then 1024 else max_dw);
          sched_hw_submission = (if frames < 2 then 2 else frames)
      in cbind (ring_register lock_ok sched_hw_submission adapt ring) (\<lambda>(r, adapt, ring).
        if r \<noteq> 0 then Inr (r, adapt, ring)
        else case take_slots ring_slot_fields (io_wb (ra_io adapt)) ring of (r, wb, ring) \<Rightarrow>
          let adapt = adapt\<lparr>ra_io := (ra_io adapt)\<lparr>io_wb := wb\<rparr>\<rparr> in
          if r \<noteq> 0 then Inr (r, adapt, ring)
          else
            let lg = ring_log2 (frame_dword_size * sched_hw_submission) in
            if 31 \<le> lg then Inl Bad_Shift
            else
              let ring = ring_set_size funcs lg ring;
                  (obj, ids, pf) = ring_alloc_obj env funcs adapt ring wid;
                  ring = ring\<lparr>rg_ring_obj := obj\<rparr>;
                  adapt = adapt\<lparr>ra_ids := ids, ra_pf := pf\<rparr>
              in if obj = None then Inr (AMDGV_FAILURE, adapt, ring)
                 else Inr (0, adapt, ring\<lparr>rg_max_dw := frame_dword_size, rg_hw_prio := hw_prio,
                                         rg_wptr := 0, rg_wptr_old := 0\<rparr>)))"

definition amdgv_ring_get_gpu_addr :: "amdgv_wb \<Rightarrow> u32 \<Rightarrow> u64" where
  "amdgv_ring_get_gpu_addr wb offset = wb_gpu_addr wb + ucast (offset * 4)"

definition amdgv_ring_get_cpu_addr :: "amdgv_wb \<Rightarrow> u32 \<Rightarrow> u64" where
  "amdgv_ring_get_cpu_addr wb offset = wb_cpu wb + 4 * ucast offset"

definition ring_set_addresses :: "amdgv_wb \<Rightarrow> amdgv_ring \<Rightarrow> amdgv_ring" where
  "ring_set_addresses wb ring =
     ring\<lparr>rg_fence_gpu_addr := amdgv_ring_get_gpu_addr wb (rg_fence_offs ring),
          rg_fence_cpu_addr := amdgv_ring_get_cpu_addr wb (rg_fence_offs ring),
          rg_rptr_gpu_addr := amdgv_ring_get_gpu_addr wb (rg_rptr_offs ring),
          rg_rptr_cpu_addr := amdgv_ring_get_cpu_addr wb (rg_rptr_offs ring),
          rg_wptr_gpu_addr := amdgv_ring_get_gpu_addr wb (rg_wptr_offs ring),
          rg_wptr_cpu_addr := amdgv_ring_get_cpu_addr wb (rg_wptr_offs ring),
          rg_trail_fence_gpu_addr := amdgv_ring_get_gpu_addr wb (rg_trail_fence_offs ring),
          rg_trail_fence_cpu_addr := amdgv_ring_get_cpu_addr wb (rg_trail_fence_offs ring),
          rg_cond_exe_gpu_addr := amdgv_ring_get_gpu_addr wb (rg_cond_exe_offs ring),
          rg_cond_exe_cpu_addr := amdgv_ring_get_cpu_addr wb (rg_cond_exe_offs ring)\<rparr>"

text \<open>The store to \<^verbatim>\<open>cond_exe_cpu_addr\<close> goes through the base of the write-back memory, which is NULL before its address is
  set.\<close>

definition amdgv_ring_init_set :: "'s amdgv_ring_funcs \<Rightarrow> ring_adapter \<Rightarrow> amdgv_ring \<Rightarrow>
    (int \<times> ring_adapter \<times> amdgv_ring) cres" where
  "amdgv_ring_init_set funcs adapt ring =
     (let io = ra_io adapt; wb = io_wb io; ring = ring_set_addresses wb ring in
      cbind (st32 (wb_cpu wb) (4 * ucast (rg_cond_exe_offs ring)) 1 (io_cpu io)) (\<lambda>cpu.
      cbind (amdgv_fence_driver_start_ring (ring, io\<lparr>io_cpu := cpu\<rparr>)) (\<lambda>(r, ring, io).
        if r \<noteq> 0 then Inr (r, adapt\<lparr>ra_io := io\<rparr>, ring)
        else
          cbind (mem_node (ra_pf adapt) (rg_ring_obj ring)) (\<lambda>m.
            let ring = ring\<lparr>rg_gpu_addr := amdgv_memmgr_get_gpu_addr (ra_pf adapt) m,
                            rg_ring := amdgv_memmgr_get_cpu_addr (ra_pf adapt) m\<rparr> in
            cbind (amdgv_ring_clear_ring funcs (ring, io)) (\<lambda>(ring, io).
              if \<not> amdgv_in_live_update_seq (ra_ids adapt) then
                cbind (if rg_wptr_cpu_addr ring \<noteq> 0 then st64 (rg_wptr_cpu_addr ring) 0 0 (io_cpu io)
                       else Inr (io_cpu io)) (\<lambda>cpu.
                  Inr (0, adapt\<lparr>ra_io := io\<lparr>io_cpu := cpu\<rparr>\<rparr>, ring\<lparr>rg_wptr := 0\<rparr>))
              else Inr (0, adapt\<lparr>ra_io := io\<rparr>, ring))))))"

section \<open>Destruction\<close>

definition amdgv_ring_fini :: "mem_env \<Rightarrow> ring_adapter \<Rightarrow> amdgv_ring \<Rightarrow> (ring_adapter \<times> amdgv_ring) cres" where
  "amdgv_ring_fini env adapt ring =
     (if \<not> rg_adapt ring then Inr (adapt, ring)
      else cbind (if rg_is_mes_queue ring then Inr True
                  else cbind (cread (ra_rings adapt) (unat (rg_idx ring))) (\<lambda>e. Inr (e \<noteq> None))) (\<lambda>registered.
        if \<not> registered then Inr (adapt, ring)
        else
          let wb = fold (\<lambda>d wb. amdgv_wb_memory_free wb d)
                [rg_rptr_offs ring, rg_wptr_offs ring, rg_cond_exe_offs ring, rg_fence_offs ring, rg_trail_fence_offs ring]
                (io_wb (ra_io adapt))
          in cbind (amdgv_memmgr_free env (ra_ids adapt) (ra_pf adapt) (rg_ring_obj ring)) (\<lambda>(ret, ids, pf).
             cbind (if rg_is_mes_queue ring then Inr (ra_rings adapt)
                    else cwrite (ra_rings adapt) (unat (rg_idx ring)) None) (\<lambda>rings.
               Inr (adapt\<lparr>ra_ids := ids, ra_pf := pf, ra_rings := rings, ra_io := (ra_io adapt)\<lparr>io_wb := wb\<rparr>\<rparr>,
                    ring\<lparr>rg_ring_obj := None, rg_me := 0,
                         rg_fence_drv := (rg_fence_drv ring)\<lparr>fd_lock := False\<rparr>\<rparr>)))))"

section \<open>Live update\<close>

abbreviation (input) LIVE_INFO_MAX_GC_INSTANCES :: nat where "LIVE_INFO_MAX_GC_INSTANCES \<equiv> 8"
abbreviation (input) LIVE_INFO_MAX_SDMA_RINGS :: nat where "LIVE_INFO_MAX_SDMA_RINGS \<equiv> 16"
abbreviation (input) LIVE_INFO_MAX_COMPUTE_RINGS :: nat where "LIVE_INFO_MAX_COMPUTE_RINGS \<equiv> 16"

record amdgv_live_info_ring =
  lr_irqmgr :: "u32 list"
  lr_sdma :: "u64 list"
  lr_kiq :: "u64 list"
  lr_compute :: "u64 list"

record ring_set =
  rs_disable_parse_ih :: bool
  rs_ih_rptr :: u32
  rs_sdma_ring :: "amdgv_ring list"
  rs_kiq :: amdgv_ring
  rs_compute_ring :: "amdgv_ring list"

fun export_wptrs :: "amdgv_ring list \<Rightarrow> u64 list \<Rightarrow> u64 list" where
  "export_wptrs (ring # rings) (w # ws) =
     (if rg_ring_obj ring \<noteq> None then rg_wptr ring else w) # export_wptrs rings ws"
| "export_wptrs rings ws = ws"

fun import_wptrs :: "u64 list \<Rightarrow> amdgv_ring list \<Rightarrow> amdgv_ring list" where
  "import_wptrs (w # ws) (ring # rings) =
     (if rg_ring_obj ring \<noteq> None then ring\<lparr>rg_wptr := w\<rparr> else ring) # import_wptrs ws rings"
| "import_wptrs ws rings = rings"

text \<open>Every instance of the table gets the pointer of the one ring; on the way back the last instance wins.\<close>

definition amdgv_ring_export_live_data :: "ring_set \<Rightarrow> amdgv_live_info_ring \<Rightarrow> amdgv_live_info_ring" where
  "amdgv_ring_export_live_data rs info =
     info\<lparr>lr_irqmgr := (if rs_disable_parse_ih rs then lr_irqmgr info
                        else replicate LIVE_INFO_MAX_GC_INSTANCES (rs_ih_rptr rs)),
          lr_sdma := export_wptrs (rs_sdma_ring rs) (lr_sdma info),
          lr_kiq := (if rg_ring_obj (rs_kiq rs) \<noteq> None
                     then replicate LIVE_INFO_MAX_GC_INSTANCES (rg_wptr (rs_kiq rs)) else lr_kiq info),
          lr_compute := export_wptrs (rs_compute_ring rs) (lr_compute info)\<rparr>"

definition amdgv_ring_import_live_data :: "amdgv_live_info_ring \<Rightarrow> ring_set \<Rightarrow> ring_set" where
  "amdgv_ring_import_live_data info rs =
     rs\<lparr>rs_ih_rptr := (if rs_disable_parse_ih rs then rs_ih_rptr rs else last (lr_irqmgr info)),
        rs_sdma_ring := import_wptrs (lr_sdma info) (rs_sdma_ring rs),
        rs_kiq := (if rg_ring_obj (rs_kiq rs) \<noteq> None then (rs_kiq rs)\<lparr>rg_wptr := last (lr_kiq info)\<rparr> else rs_kiq rs),
        rs_compute_ring := import_wptrs (lr_compute info) (rs_compute_ring rs)\<rparr>"

end
