(* ===== verification/GV_Ring_Clients.thy ===== *)
theory GV_Ring_Clients
  imports GV_Ring
begin

text \<open>
  The providers of ring callbacks and the users of rings: the SDMA rings of \<^verbatim>\<open>hw/AI/mi300/sdma_v4_4_2.c\<close>, the pointers of the
  MES rings of \<^verbatim>\<open>hwip/gc/mes_v12_1.c\<close>, the indirect buffers of \<^verbatim>\<open>amdgv_ib.c\<close>, and the write-back slots that
  \<^verbatim>\<open>amdgv_mes.c\<close> takes.
\<close>

section \<open>SDMA rings\<close>

abbreviation (input) SDMA_OP_NOP :: u32 where "SDMA_OP_NOP \<equiv> 0"
abbreviation (input) SDMA_OP_COPY :: u32 where "SDMA_OP_COPY \<equiv> 1"
abbreviation (input) SDMA_OP_FENCE :: u32 where "SDMA_OP_FENCE \<equiv> 5"
abbreviation (input) SDMA_SUBOP_COPY_LINEAR :: u32 where "SDMA_SUBOP_COPY_LINEAR \<equiv> 0"
abbreviation (input) SDMA_MAX_TIMEOUT :: int where "SDMA_MAX_TIMEOUT \<equiv> 500000"

definition SDMA_PKT_HEADER_OP :: "u32 \<Rightarrow> u32" where
  "SDMA_PKT_HEADER_OP x = x AND 0xFF"

definition SDMA_PKT_HEADER_SUB_OP :: "u32 \<Rightarrow> u32" where
  "SDMA_PKT_HEADER_SUB_OP x = push_bit 8 (x AND 0xFF)"

definition SDMA_PKT_FENCE_HEADER_MTYPE :: "u32 \<Rightarrow> u32" where
  "SDMA_PKT_FENCE_HEADER_MTYPE x = push_bit 16 (x AND 0x7)"

definition lower_32_bits :: "u64 \<Rightarrow> u32" where
  "lower_32_bits n = ucast n"

definition upper_32_bits :: "u64 \<Rightarrow> u32" where
  "upper_32_bits n = ucast (drop_bit 16 (drop_bit 16 n))"

primrec write_all :: "u32 list \<Rightarrow> ring_state \<Rightarrow> ring_state cres" where
  "write_all [] st = Inr st"
| "write_all (v # vs) st = cbind (amdgv_ring_write v st) (write_all vs)"

text \<open>The copy loop of a frame: the index starts at the write pointer and is not masked.\<close>

fun frame_loop :: "amdgv_ring \<Rightarrow> u32 list \<Rightarrow> nat \<Rightarrow> u32 \<Rightarrow> cpu_mem \<Rightarrow> cpu_mem cres" where
  "frame_loop ring data32 0 dword_wptr cpu = Inr cpu"
| "frame_loop ring [] (Suc n) dword_wptr cpu = Inl Out_Of_Bounds"
| "frame_loop ring (v # vs) (Suc n) dword_wptr cpu =
     cbind (st32 (rg_ring ring) (4 * ucast dword_wptr) v cpu) (frame_loop ring vs n (dword_wptr + 1))"

definition ring_show_wptr :: "u64 \<Rightarrow> ring_state \<Rightarrow> ring_state" where
  "ring_show_wptr ring_byte_wptr st =
     (if rg_use_doorbell (fst st) then ring_trace (Doorbell64 (rg_doorbell_index (fst st)) ring_byte_wptr) st
      else ring_trace (Rb_Wptr_Hi (rg_queue (fst st)) (upper_32_bits ring_byte_wptr))
             (ring_trace (Rb_Wptr (rg_queue (fst st)) (lower_32_bits ring_byte_wptr)) st))"

definition sdma_v4_4_2_ring_submit_frame :: "u32 list \<Rightarrow> ring_state \<Rightarrow> ring_state cres" where
  "sdma_v4_4_2_ring_submit_frame frame_data st =
     (case st of (ring, io) \<Rightarrow>
        if rg_ring_size ring = 0 then Inl Div_By_Zero
        else
          let dword_wptr = ucast (rg_wptr ring mod ucast (rg_ring_size ring)) :: u32 in
          cbind (frame_loop ring frame_data (unat (rg_max_dw ring)) dword_wptr (io_cpu io)) (\<lambda>cpu.
            let ring = ring\<lparr>rg_wptr := rg_wptr ring + ucast (rg_max_dw ring)\<rparr>;
                ring_byte_wptr = push_bit 2 (rg_wptr ring)
            in cbind (st64 (rg_wptr_cpu_addr ring) 0 ring_byte_wptr cpu) (\<lambda>cpu.
                 Inr (ring_show_wptr ring_byte_wptr (ring_trace Hdp_Flush (ring, io\<lparr>io_cpu := cpu\<rparr>))))))"

definition sdma_v4_4_2_ring_get_rptr :: "ring_state \<Rightarrow> u64 cres" where
  "sdma_v4_4_2_ring_get_rptr st = cbind (ld64 (rg_rptr_cpu_addr (fst st)) 0 (io_cpu (snd st))) (\<lambda>r. Inr (drop_bit 2 r))"

text \<open>\<open>hi\<close> and \<open>lo\<close> are what the registers answer to a ring without doorbell.\<close>

definition sdma_v4_4_2_ring_get_wptr :: "u32 \<Rightarrow> u32 \<Rightarrow> ring_state \<Rightarrow> u64 cres" where
  "sdma_v4_4_2_ring_get_wptr hi lo st =
     cbind (if rg_use_doorbell (fst st) then ld64 (rg_wptr_cpu_addr (fst st)) 0 (io_cpu (snd st))
            else Inr (push_bit 32 (ucast hi) OR ucast lo)) (\<lambda>w. Inr (drop_bit 2 w))"

definition sdma_v4_4_2_ring_set_wptr :: "ring_state \<Rightarrow> ring_state cres" where
  "sdma_v4_4_2_ring_set_wptr st =
     (case st of (ring, io) \<Rightarrow>
        if rg_use_doorbell ring then
          cbind (st32 (wb_cpu (io_wb io)) (4 * ucast (rg_wptr_offs ring)) (ucast (rg_wptr ring)) (io_cpu io)) (\<lambda>cpu.
            Inr (ring_show_wptr (push_bit 2 (rg_wptr ring)) (ring, io\<lparr>io_cpu := cpu\<rparr>)))
        else Inr (ring_show_wptr (push_bit 2 (rg_wptr ring)) st))"

definition sdma_v4_4_2_ring_insert_nop :: "u32 \<Rightarrow> ring_state \<Rightarrow> ring_state cres" where
  "sdma_v4_4_2_ring_insert_nop count st = write_times (unat count) (SDMA_PKT_HEADER_OP SDMA_OP_NOP) st"

definition sdma_v4_4_2_ring_emit_fence :: "u64 \<Rightarrow> u64 \<Rightarrow> u32 \<Rightarrow> ring_state \<Rightarrow> ring_state cres" where
  "sdma_v4_4_2_ring_emit_fence addr seq flags st =
     (let header = SDMA_PKT_HEADER_OP SDMA_OP_FENCE OR SDMA_PKT_FENCE_HEADER_MTYPE 3;
          write64bit = (flags AND 1 \<noteq> 0)
      in write_all ([header, lower_32_bits addr, upper_32_bits addr, lower_32_bits seq] @
           (if write64bit then [header, lower_32_bits (addr + 4), upper_32_bits (addr + 4), upper_32_bits seq] else [])) st)"

definition sdma_ring_funcs :: "ring_state amdgv_ring_funcs" where
  "sdma_ring_funcs = \<lparr>rf_align_mask = 0xff, rf_aql_align_mask = 0, rf_nop = SDMA_PKT_HEADER_OP SDMA_OP_NOP, rf_aql_nop = 0,
     rf_support_64bit_ptrs = True, rf_extra_dw = 0, rf_emit_frame_size = 0, rf_emit_ib_size = 0,
     rf_set_wptr = sdma_v4_4_2_ring_set_wptr, rf_insert_nop = sdma_v4_4_2_ring_insert_nop,
     rf_emit_fence = Some sdma_v4_4_2_ring_emit_fence, rf_emit_hdp_flush = None, rf_emit_ib = None,
     rf_emit_wave_limit = None, rf_insert_start = None, rf_insert_end = None, rf_begin_use = None, rf_end_use = None\<rparr>"

text \<open>The answer of \<^verbatim>\<open>amdgv_ring_alloc\<close> is not looked at.\<close>

definition sdma_v4_4_2_sdma_copy :: "ring_state amdgv_ring_funcs \<Rightarrow> (nat \<Rightarrow> cpu_mem \<Rightarrow> cpu_mem) \<Rightarrow> u64 \<Rightarrow> u64 \<Rightarrow> u64 \<Rightarrow> ring_state \<Rightarrow>
    (int \<times> ring_state) cres" where
  "sdma_v4_4_2_sdma_copy funcs gpu src sz dest st =
     cbind (amdgv_ring_alloc funcs 8 st) (\<lambda>(r, st).
     cbind (write_all [SDMA_PKT_HEADER_OP SDMA_OP_COPY OR SDMA_PKT_HEADER_SUB_OP SDMA_SUBOP_COPY_LINEAR, ucast (sz - 1), 0,
              lower_32_bits src, upper_32_bits src, lower_32_bits dest, upper_32_bits dest, rf_nop funcs] st) (\<lambda>st.
     cbind (amdgv_fence_emit_polling funcs st) (\<lambda>(r, seq, st).
     cbind (amdgv_ring_commit funcs st) (\<lambda>st.
     cbind (amdgv_fence_wait_polling gpu seq SDMA_MAX_TIMEOUT st) (\<lambda>(r, st).
       if r \<le> 0 then Inr (AMDGV_FAILURE, st) else Inr (0, st))))))"

section \<open>MES rings\<close>

definition mes_v12_1_ring_set_wptr :: "ring_state \<Rightarrow> ring_state cres" where
  "mes_v12_1_ring_set_wptr st =
     (case st of (ring, io) \<Rightarrow>
        if rg_use_doorbell ring then
          cbind (st64 (rg_wptr_cpu_addr ring) 0 (rg_wptr ring) (io_cpu io)) (\<lambda>cpu.
            Inr (ring_trace (Doorbell64 (rg_doorbell_index ring) (rg_wptr ring)) (ring, io\<lparr>io_cpu := cpu\<rparr>)))
        else Inr st)"

definition mes_v12_1_ring_get_rptr :: "ring_state \<Rightarrow> u64 cres" where
  "mes_v12_1_ring_get_rptr st =
     (if rg_rptr_cpu_addr (fst st) = 0 then Inr 0 else ld64 (rg_rptr_cpu_addr (fst st)) 0 (io_cpu (snd st)))"

definition mes_ring_data :: "ring_state amdgv_ring_funcs" where
  "mes_ring_data = sdma_ring_funcs\<lparr>rf_align_mask := 1, rf_nop := 0, rf_set_wptr := mes_v12_1_ring_set_wptr, rf_emit_fence := None\<rparr>"

definition mes_v12_1_ring_funcs :: "ring_state amdgv_ring_funcs" where
  "mes_v12_1_ring_funcs = mes_ring_data\<lparr>rf_insert_nop := amdgv_ring_insert_nop mes_ring_data\<rparr>"

section \<open>Indirect buffers\<close>

abbreviation (input) MEM_GFX_IB :: u32 where "MEM_GFX_IB \<equiv> 0x604"
abbreviation (input) AMDGV_IB_FLAG_EMIT_MEM_SYNC :: u32 where "AMDGV_IB_FLAG_EMIT_MEM_SYNC \<equiv> 0x40"
abbreviation (input) AMDGV_HAVE_CTX_SWITCH :: u32 where "AMDGV_HAVE_CTX_SWITCH \<equiv> 4"
abbreviation (input) AMDGV_GFX_PIPE_PRIO_HIGH :: u32 where "AMDGV_GFX_PIPE_PRIO_HIGH \<equiv> 2"
abbreviation (input) MAX_KIQ_REG_WAIT :: int where "MAX_KIQ_REG_WAIT \<equiv> 5000"
abbreviation (input) MAX_KIQ_REG_TRY :: nat where "MAX_KIQ_REG_TRY \<equiv> 1000"

definition amdgv_ib_get :: "mem_env \<Rightarrow> ring_adapter \<Rightarrow> u32 \<Rightarrow> amdgv_ib \<Rightarrow> (int \<times> ring_adapter \<times> amdgv_ib) cres" where
  "amdgv_ib_get env adapt sz ib =
     (if sz \<noteq> 0 then
        (case amdgv_memmgr_alloc_align env (ra_ids adapt) (ra_pf adapt) (ucast sz) 256 MEM_GFX_IB of
           (mem, ids, pf) \<Rightarrow>
             let adapt' = adapt\<lparr>ra_ids := ids, ra_pf := pf\<rparr>; ib' = ib\<lparr>ib_sa_bo := mem\<rparr> in
             if mem = None then Inr (AMDGV_FAILURE, adapt', ib')
             else cbind (mem_node pf mem) (\<lambda>m.
               Inr (0, adapt', ib'\<lparr>ib_ptr := amdgv_memmgr_get_cpu_addr pf m, ib_flags := AMDGV_IB_FLAG_EMIT_MEM_SYNC,
                                  ib_gpu_addr := amdgv_memmgr_get_gpu_addr pf m\<rparr>)))
      else Inr (0, adapt, ib))"

definition amdgv_ib_free :: "mem_env \<Rightarrow> ring_adapter \<Rightarrow> amdgv_ib \<Rightarrow> ring_adapter cres" where
  "amdgv_ib_free env adapt ib =
     cbind (amdgv_memmgr_free env (ra_ids adapt) (ra_pf adapt) (ib_sa_bo ib)) (\<lambda>(ret, ids, pf).
       Inr (adapt\<lparr>ra_ids := ids, ra_pf := pf\<rparr>))"

text \<open>The loop over the buffers; \<open>True\<close> when one of them is not initialised, after which the ring is reset.\<close>

fun emit_ibs :: "ring_state amdgv_ring_funcs \<Rightarrow> amdgv_ib list \<Rightarrow> u32 \<Rightarrow> ring_state \<Rightarrow> (bool \<times> ring_state) cres" where
  "emit_ibs funcs [] status st = Inr (False, st)"
| "emit_ibs funcs (ib # ibs) status st =
     (if ib_sa_bo ib = None then cbind (amdgv_ring_undo funcs st) (\<lambda>st. Inr (True, st))
      else cbind (call (map_option (\<lambda>f. f ib status) (rf_emit_ib funcs)) st)
             (emit_ibs funcs ibs (status AND NOT AMDGV_HAVE_CTX_SWITCH)))"

text \<open>The waits: each of the \<open>tries\<close> that are left sleeps and polls. The second component is whether one of them succeeded.\<close>

fun ib_wait_loop :: "(nat \<Rightarrow> cpu_mem \<Rightarrow> cpu_mem) \<Rightarrow> u32 \<Rightarrow> nat \<Rightarrow> ring_state \<Rightarrow> (bool \<times> ring_state) cres" where
  "ib_wait_loop gpu seq 0 st = Inr (False, st)"
| "ib_wait_loop gpu seq (Suc tries) st =
     cbind (amdgv_fence_wait_polling gpu seq MAX_KIQ_REG_WAIT (fst st, ring_delay gpu (snd st))) (\<lambda>(r, st).
       if r < 1 then ib_wait_loop gpu seq tries st else Inr (True, st))"

definition wave_limit :: "ring_state amdgv_ring_funcs \<Rightarrow> bool \<Rightarrow> ring_state \<Rightarrow> ring_state cres" where
  "wave_limit funcs on st =
     (if rf_emit_wave_limit funcs \<noteq> None \<and> rg_hw_prio (fst st) = AMDGV_GFX_PIPE_PRIO_HIGH
      then call_if (map_option (\<lambda>f. f on) (rf_emit_wave_limit funcs)) st else Inr st)"

definition amdgv_ib_schedule :: "ring_state amdgv_ring_funcs \<Rightarrow> (nat \<Rightarrow> cpu_mem \<Rightarrow> cpu_mem) \<Rightarrow> amdgv_ib list \<Rightarrow> ring_state \<Rightarrow>
    (int \<times> ring_state) cres" where
  "amdgv_ib_schedule funcs gpu ibs st =
     (if ibs = [] then Inr (AMDGV_FAILURE, st)
      else
        cbind (amdgv_ring_alloc funcs (rf_emit_frame_size funcs + of_nat (length ibs) * rf_emit_ib_size funcs) st) (\<lambda>(r, st).
        if r \<noteq> 0 then Inr (r, st)
        else
          let need_ctx_switch = (rg_current_ctx (fst st) \<noteq> 0) in
          cbind (wave_limit funcs True st) (\<lambda>st.
          cbind (call_if (rf_insert_start funcs) st) (\<lambda>st.
          cbind (call (rf_emit_hdp_flush funcs) st) (\<lambda>st.
          cbind (emit_ibs funcs ibs (if need_ctx_switch then AMDGV_HAVE_CTX_SWITCH else 0) st) (\<lambda>(failed, st).
          if failed then Inr (AMDGV_FAILURE, st)
          else
            cbind (amdgv_fence_emit_polling funcs st) (\<lambda>(r, seq, st).
            if r \<noteq> 0 then cbind (amdgv_ring_undo funcs st) (\<lambda>st. Inr (r, st))
            else
              cbind (call_if (rf_insert_end funcs) st) (\<lambda>st.
              cbind (wave_limit funcs False ((fst st)\<lparr>rg_current_ctx := 0\<rparr>, snd st)) (\<lambda>st.
              cbind (amdgv_ring_commit funcs st) (\<lambda>st.
              cbind (ib_wait_loop gpu seq MAX_KIQ_REG_TRY st) (\<lambda>(ok, st).
                Inr (if ok then 0 else AMDGV_FAILURE, st))))))))))))"

section \<open>The slots of the MES\<close>

abbreviation (input) AMDGV_MAX_MES_INST_PIPES :: nat where "AMDGV_MAX_MES_INST_PIPES \<equiv> 16"
abbreviation (input) AMDGV_MES_MAX_COMPUTE_PIPES :: nat where "AMDGV_MES_MAX_COMPUTE_PIPES \<equiv> 8"
abbreviation (input) AMDGV_MES_MAX_SDMA_PIPES :: nat where "AMDGV_MES_MAX_SDMA_PIPES \<equiv> 2"
abbreviation (input) AMDGV_MES_RESERVED_QUEUES :: nat where "AMDGV_MES_RESERVED_QUEUES \<equiv> 2"

text \<open>The two slots of an instance: index, address for the GPU, pointer of the CPU.\<close>

record mes_slot =
  ms_offs :: u32
  ms_gpu_addr :: u64
  ms_ptr :: u64

record amdgv_mes =
  me_total_max_queue :: u32
  me_compute_hqd_mask :: "u32 list"
  me_sdma_hqd_mask :: "u32 list"
  me_sch_ctx :: "mes_slot list"
  me_query_status_fence :: "mes_slot list"

definition mes_get_slot :: "amdgv_wb \<Rightarrow> mes_slot \<Rightarrow> int \<times> amdgv_wb \<times> mes_slot" where
  "mes_get_slot wb s =
     (case amdgv_wb_memory_get wb of (r, dw, wb') \<Rightarrow>
        let s' = (case dw of None \<Rightarrow> s | Some d \<Rightarrow> s\<lparr>ms_offs := d\<rparr>) in
        if r \<noteq> 0 then (r, wb', s')
        else (0, wb', s'\<lparr>ms_gpu_addr := wb_gpu_addr wb' + ucast (ms_offs s' * 4),
                        ms_ptr := wb_cpu wb' + 4 * ucast (ms_offs s')\<rparr>))"

fun mes_get_loop :: "nat list \<Rightarrow> amdgv_wb \<Rightarrow> amdgv_mes \<Rightarrow> int \<times> amdgv_wb \<times> amdgv_mes" where
  "mes_get_loop [] wb mes = (0, wb, mes)"
| "mes_get_loop (i # is) wb mes =
     (case mes_get_slot wb (me_sch_ctx mes ! i) of (r, wb, s) \<Rightarrow>
        let mes = mes\<lparr>me_sch_ctx := (me_sch_ctx mes)[i := s]\<rparr> in
        if r \<noteq> 0 then (r, wb, mes)
        else case mes_get_slot wb (me_query_status_fence mes ! i) of (r, wb, s) \<Rightarrow>
          let mes = mes\<lparr>me_query_status_fence := (me_query_status_fence mes)[i := s]\<rparr> in
          if r \<noteq> 0 then (r, wb, mes) else mes_get_loop is wb mes)"

definition mes_put_slot :: "amdgv_wb \<Rightarrow> mes_slot \<Rightarrow> amdgv_wb \<times> mes_slot" where
  "mes_put_slot wb s =
     (if ms_ptr s \<noteq> 0 then (amdgv_wb_memory_free wb (ms_offs s), s\<lparr>ms_ptr := 0\<rparr>) else (wb, s))"

fun mes_put_loop :: "nat list \<Rightarrow> amdgv_wb \<Rightarrow> amdgv_mes \<Rightarrow> amdgv_wb \<times> amdgv_mes" where
  "mes_put_loop [] wb mes = (wb, mes)"
| "mes_put_loop (i # is) wb mes =
     (case mes_put_slot wb (me_sch_ctx mes ! i) of (wb, s) \<Rightarrow>
      case mes_put_slot wb (me_query_status_fence mes ! i) of (wb, t) \<Rightarrow>
        mes_put_loop is wb (mes\<lparr>me_sch_ctx := (me_sch_ctx mes)[i := s],
                               me_query_status_fence := (me_query_status_fence mes)[i := t]\<rparr>))"

text \<open>\<open>num_pipes\<close> is the product of the pipes per MEC and the MECs. The shift of \<^verbatim>\<open>1UL\<close> by the number of queues per pipe has no
  result from 64 on.\<close>

definition amdgv_mes_init :: "u32 \<Rightarrow> int \<Rightarrow> int \<Rightarrow> amdgv_wb \<Rightarrow> amdgv_mes \<Rightarrow> (int \<times> amdgv_wb \<times> amdgv_mes) cres" where
  "amdgv_mes_init num_queue_per_pipe num_pipes num_sdma wb mes =
     (if 64 \<le> num_queue_per_pipe then Inl Bad_Shift
      else
        let queue_mask = ucast (push_bit (unat num_queue_per_pipe) (1::u64)) - 1 :: u32;
            reserved_queue_mask = ucast (push_bit AMDGV_MES_RESERVED_QUEUES (1::u64)) - 1 :: u32;
            set_first = (\<lambda>n v xs. map (\<lambda>i. if int i < n then v else xs ! i) [0..<length xs]);
            mes = mes\<lparr>me_total_max_queue := of_nat AMDGV_MAX_MES_INST_PIPES,
                      me_compute_hqd_mask := set_first num_pipes (queue_mask AND NOT reserved_queue_mask) (me_compute_hqd_mask mes),
                      me_sdma_hqd_mask := set_first num_sdma 0xfc (me_sdma_hqd_mask mes)\<rparr>
        in case mes_get_loop [0..<AMDGV_MAX_MES_INST_PIPES] wb mes of (r, wb, mes) \<Rightarrow>
             if r \<noteq> 0 then
               (case mes_put_loop [0..<AMDGV_MAX_MES_INST_PIPES] wb mes of (wb, mes) \<Rightarrow> Inr (r, wb, mes))
             else Inr (0, wb, mes))"

definition amdgv_mes_fini :: "amdgv_wb \<Rightarrow> amdgv_mes \<Rightarrow> int \<times> amdgv_wb \<times> amdgv_mes" where
  "amdgv_mes_fini wb mes = (case mes_put_loop [0..<AMDGV_MAX_MES_INST_PIPES] wb mes of (wb, mes) \<Rightarrow> (0, wb, mes))"

end
