(* ===== verification/GV_Ring_Store.thy ===== *)
theory GV_Ring_Store
  imports GV_Wb_Slots GV_Ring_Clients
begin

text \<open>
  What packets do to a ring of \<open>2 ^ k\<close> dwords in memory: a ring is a circular list of dwords (\<open>ring_view\<close>), and the writes of
  \<^verbatim>\<open>amdgv_ring.c\<close> store into it from the write pointer on (\<open>ring_store\<close>), masks, wrap-around and the two-piece copy included.
\<close>

section \<open>A ring as a circular array of dwords\<close>

text \<open>Writing \<open>vs\<close> from position \<open>p\<close> on into an array, around its end.\<close>

primrec ring_store :: "nat \<Rightarrow> u32 list \<Rightarrow> u32 list \<Rightarrow> u32 list" where
  "ring_store p [] xs = xs"
| "ring_store p (v # vs) xs = ring_store (Suc p) vs (xs[p mod length xs := v])"

lemma length_ring_store [simp]: "length (ring_store p vs xs) = length xs"
  by (induction vs arbitrary: p xs) simp_all

lemma ring_store_append: "ring_store p (vs @ ws) xs = ring_store (p + length vs) ws (ring_store p vs xs)"
  by (induction vs arbitrary: p xs) simp_all

lemma mod_inj_le:
  assumes "(p + i) mod n = (p + j) mod n" and "i \<le> j" and "j < (n::nat)"
  shows "i = j"
proof -
  have "n dvd (p + j) - (p + i)" using assms(1,2) mod_eq_dvd_iff_nat [of "p + i" "p + j" n] by simp
  then have "j - i = 0 \<or> n \<le> j - i" by (auto dest: dvd_imp_le)
  with assms(2,3) show ?thesis by linarith
qed

lemma mod_inj_range: "(p + i) mod n = (p + j) mod n \<Longrightarrow> i < n \<Longrightarrow> j < (n::nat) \<Longrightarrow> i = j"
  using mod_inj_le [of p i n j] mod_inj_le [of p j n i] by (cases "i \<le> j") auto

lemma ring_store_other:
  assumes "i < length xs" and "\<forall>j < length vs. i \<noteq> (p + j) mod length xs"
  shows "ring_store p vs xs ! i = xs ! i"
  using assms
proof (induction vs arbitrary: p xs)
  case (Cons v vs)
  have "i \<noteq> p mod length xs" using Cons.prems(2) by force
  moreover have "\<forall>j < length vs. i \<noteq> (Suc p + j) mod length xs" using Cons.prems(2) by force
  ultimately show ?case using Cons.IH [of "xs[p mod length xs := v]" "Suc p"] Cons.prems(1) by simp
qed simp

lemma ring_store_nth:
  assumes "length vs \<le> length xs" and "j < length vs"
  shows "ring_store p vs xs ! ((p + j) mod length xs) = vs ! j"
  using assms
proof (induction vs arbitrary: p xs j)
  case (Cons v vs)
  let ?xs = "xs[p mod length xs := v]"
  have n: "0 < length xs" using Cons.prems by auto
  show ?case
  proof (cases j)
    case 0
    have "\<forall>i < length vs. p mod length xs \<noteq> (Suc p + i) mod length xs"
    proof (intro allI impI notI)
      fix i assume "i < length vs" and "p mod length xs = (Suc p + i) mod length xs"
      then show False using mod_inj_range [of p 0 "length xs" "Suc i"] Cons.prems(1) n by simp
    qed
    then have "ring_store (Suc p) vs ?xs ! (p mod length xs) = ?xs ! (p mod length xs)"
      by (intro ring_store_other) (use n in simp_all)
    then show ?thesis using 0 n by simp
  next
    case (Suc i)
    then show ?thesis using Cons.IH [of ?xs i "Suc p"] Cons.prems by simp
  qed
qed simp

section \<open>Rings in memory\<close>

text \<open>A ring of \<open>2 ^ k\<close> dwords whose memory is there.\<close>

definition ring_mem_ok :: "nat \<Rightarrow> amdgv_ring \<Rightarrow> bool" where
  "ring_mem_ok k r \<longleftrightarrow> k \<le> 24 \<and> rg_ring_size r = 2 ^ k \<and> rg_buf_mask r = 2 ^ k - 1 \<and>
     (rg_ptr_mask r = - 1 \<or> rg_ptr_mask r = 2 ^ k - 1) \<and> rg_ring r \<noteq> 0 \<and>
     rg_wptr r AND rg_ptr_mask r = rg_wptr r"

definition ring_pos :: "nat \<Rightarrow> amdgv_ring \<Rightarrow> nat" where
  "ring_pos k r = unat (rg_wptr r) mod 2 ^ k"

definition ring_view :: "nat \<Rightarrow> amdgv_ring \<Rightarrow> cpu_mem \<Rightarrow> u32 list" where
  "ring_view k r cpu = map (\<lambda>i. from_le (mem_get 4 (rg_ring r + 4 * of_nat i) cpu)) [0..<2 ^ k]"

text \<open>Where the ring is not.\<close>

definition off_ring :: "nat \<Rightarrow> amdgv_ring \<Rightarrow> u64 \<Rightarrow> bool" where
  "off_ring k r a \<longleftrightarrow> 4 * 2 ^ k \<le> unat (a - rg_ring r)"

lemma length_ring_view [simp]: "length (ring_view k r cpu) = 2 ^ k"
  by (simp add: ring_view_def)

lemma pow24: "k \<le> 24 \<Longrightarrow> (2::nat) ^ k \<le> 16777216"
  using power_increasing [of k 24 "2::nat"] by simp

lemma ring_pos_lt: "ring_pos k r < 2 ^ k"
  by (simp add: ring_pos_def)

lemma unat_and_mask64: "unat ((x::u64) AND (2 ^ k - 1)) = unat x mod 2 ^ k" if "k \<le> 24"
proof -
  have "x AND (2 ^ k - 1) = take_bit k x" by (simp add: take_bit_eq_mask mask_eq_exp_minus_1)
  then show ?thesis by (simp only: unsigned_take_bit_eq) (simp add: take_bit_eq_mod)
qed

lemma ucast_buf_mask: "k \<le> 24 \<Longrightarrow> (ucast ((2::u32) ^ k - 1) :: u64) = 2 ^ k - 1"
proof -
  assume "k \<le> 24"
  then have "(ucast (mask k :: u32) :: u64) = mask k"
    by (intro bit_word_eqI) (auto simp: bit_ucast_iff bit_mask_iff)
  then show ?thesis by (simp add: mask_eq_exp_minus_1)
qed

lemma ring_index: "ring_mem_ok k r \<Longrightarrow> rg_wptr r AND ucast (rg_buf_mask r) = of_nat (ring_pos k r)"
proof (rule word_unat_eq_iff [THEN iffD2])
  assume ok: "ring_mem_ok k r"
  then have k: "k \<le> 24" by (simp add: ring_mem_ok_def)
  then have "ring_pos k r < 2 ^ LENGTH(64)" using ring_pos_lt [of k r] pow24 [OF k] by simp
  then show "unat (rg_wptr r AND ucast (rg_buf_mask r)) = unat (of_nat (ring_pos k r) :: u64)"
    using ok k by (simp add: ring_mem_ok_def ucast_buf_mask unat_and_mask64 ring_pos_def unat_of_nat)
qed

definition ring_advance :: "amdgv_ring \<Rightarrow> nat \<Rightarrow> amdgv_ring" where
  "ring_advance r n = r\<lparr>rg_wptr := (rg_wptr r + of_nat n) AND rg_ptr_mask r, rg_count_dw := rg_count_dw r - of_nat n\<rparr>"

lemma ring_ok_advance [simp]: "ring_mem_ok k r \<Longrightarrow> ring_mem_ok k (ring_advance r n)"
  by (simp add: ring_mem_ok_def ring_advance_def and.assoc)

lemma ring_advance_ring [simp]: "rg_ring (ring_advance r n) = rg_ring r" "rg_ptr_mask (ring_advance r n) = rg_ptr_mask r"
  "rg_buf_mask (ring_advance r n) = rg_buf_mask r"
  by (simp_all add: ring_advance_def)

lemma dvd_pow64: "k \<le> 24 \<Longrightarrow> (2::nat) ^ k dvd 2 ^ 64"
  by (intro le_imp_power_dvd) simp

lemma and_ptr_mask_add:
  assumes "ring_mem_ok k r"
  shows "((a AND rg_ptr_mask r) + b) AND rg_ptr_mask r = (a + b) AND rg_ptr_mask r"
proof -
  have k: "k \<le> 24" using assms by (simp add: ring_mem_ok_def)
  from assms consider "rg_ptr_mask r = - 1" | "rg_ptr_mask r = 2 ^ k - 1" by (auto simp: ring_mem_ok_def)
  then show ?thesis
  proof cases
    case 2
    have "unat (((a AND (2 ^ k - 1)) + b) AND (2 ^ k - 1)) = unat ((a + b) AND (2 ^ k - 1))"
      using dvd_pow64 [OF k] by (simp add: unat_and_mask64 [OF k] unat_word_ariths mod_mod_cancel mod_add_left_eq)
    then show ?thesis unfolding 2 by (rule word_unat_eq_iff [THEN iffD2])
  qed simp
qed

lemma ring_advance_add: "ring_mem_ok k r \<Longrightarrow> ring_advance (ring_advance r m) n = ring_advance r (m + n)"
  by (simp add: ring_advance_def and_ptr_mask_add add.assoc diff_diff_eq)

lemma ring_pos_advance: "ring_mem_ok k r \<Longrightarrow> ring_pos k (ring_advance r n) = (ring_pos k r + n) mod 2 ^ k"
proof -
  assume ok: "ring_mem_ok k r"
  then have k: "k \<le> 24" by (simp add: ring_mem_ok_def)
  have "unat (rg_wptr r + of_nat n) mod 2 ^ k = (unat (rg_wptr r) + n) mod 2 ^ k"
    using dvd_pow64 [OF k] by (simp add: unat_word_ariths unat_of_nat mod_mod_cancel mod_add_right_eq)
  moreover from ok consider "rg_ptr_mask r = - 1" | "rg_ptr_mask r = 2 ^ k - 1" by (auto simp: ring_mem_ok_def)
  then have "unat ((rg_wptr r + of_nat n) AND rg_ptr_mask r) mod 2 ^ k = unat (rg_wptr r + of_nat n) mod 2 ^ k"
    by cases (simp_all add: unat_and_mask64 [OF k])
  ultimately show ?thesis by (simp add: ring_pos_def ring_advance_def mod_add_left_eq)
qed

text \<open>The bytes of one dword of the ring, seen from another dword and from outside.\<close>

lemma dword_apart:
  assumes "i < 2 ^ k" and "j < 2 ^ k" and "i \<noteq> j" and "k \<le> 24"
  shows "ranges_apart (p + 4 * of_nat i) 4 (p + 4 * of_nat j) 4"
proof -
  have aux: "4 \<le> unat ((of_nat (4 * a) :: u64) - of_nat (4 * b))" if "a < 2 ^ k" "b < 2 ^ k" "a \<noteq> b" for a b
  proof -
    have lt: "4 * a < 18446744073709551616" "4 * b < 18446744073709551616" using that pow24 [OF assms(4)] by linarith+
    then have u: "unat (of_nat (4 * a) :: u64) = 4 * a" "unat (of_nat (4 * b) :: u64) = 4 * b"
      by (simp_all add: unat_of_nat del: of_nat_mult)
    show ?thesis using that lt pow24 [OF assms(4)] unfolding unat_sub_if' u by auto
  qed
  have eq: "p + 4 * of_nat j - (p + 4 * of_nat i) = of_nat (4 * j) - (of_nat (4 * i) :: u64)"
    "p + 4 * of_nat i - (p + 4 * of_nat j) = of_nat (4 * i) - (of_nat (4 * j) :: u64)" by simp_all
  show ?thesis unfolding ranges_apart_def eq using aux [of i j] aux [of j i] assms(1-3) by (simp del: of_nat_mult)
qed

lemma ring_view_put:
  assumes "k \<le> 24" and "i < 2 ^ k"
  shows "ring_view k r (mem_put (rg_ring r + 4 * of_nat i) (to_le 4 v) cpu) = (ring_view k r cpu)[i := v]"
proof (rule nth_equalityI)
  fix j assume "j < length (ring_view k r (mem_put (rg_ring r + 4 * of_nat i) (to_le 4 v) cpu))"
  then have j: "j < 2 ^ k" by simp
  show "ring_view k r (mem_put (rg_ring r + 4 * of_nat i) (to_le 4 v) cpu) ! j = (ring_view k r cpu)[i := v] ! j"
  proof (cases "i = j")
    case True
    with j show ?thesis by (simp add: ring_view_def mem_get_put_same from_le_to_le take_bit_word_eq_self)
  next
    case False
    have "mem_get 4 (rg_ring r + 4 * of_nat j) (mem_put (rg_ring r + 4 * of_nat i) (to_le 4 v) cpu) =
        mem_get 4 (rg_ring r + 4 * of_nat j) cpu"
      by (rule mem_get_put_apart) (use dword_apart [OF assms(2) j False assms(1), of "rg_ring r"] in simp_all)
    with j False show ?thesis by (simp add: ring_view_def)
  qed
qed simp

lemma put_off_ring:
  assumes "k \<le> 24" and "i < 2 ^ k" and "off_ring k r a"
  shows "mem_put (rg_ring r + 4 * of_nat i) (to_le 4 v) cpu a = cpu a"
proof -
  have "4 * i < 18446744073709551616" using assms pow24 [OF assms(1)] by linarith
  then have u: "unat (of_nat (4 * i) :: u64) = 4 * i" by (simp add: unat_of_nat del: of_nat_mult)
  have eq: "a - (rg_ring r + 4 * of_nat i) = (a - rg_ring r) - of_nat (4 * i)" by simp
  have "4 \<le> unat ((a - rg_ring r) - of_nat (4 * i))"
    using assms(2,3) unfolding off_ring_def unat_sub_if' u by auto
  then show ?thesis unfolding mem_put_def eq by (simp del: of_nat_mult)
qed

section \<open>Writes\<close>

lemma ring_write_spec:
  assumes "ring_mem_ok k r"
  shows "amdgv_ring_write v (r, io) = Inr (ring_advance r 1,
    io\<lparr>io_cpu := mem_put (rg_ring r + 4 * of_nat (ring_pos k r)) (to_le 4 v) (io_cpu io)\<rparr>)"
  using assms ring_index [OF assms]
  by (simp add: amdgv_ring_write_def st32_def ring_advance_def ring_mem_ok_def)

lemma ring_advance_0: "ring_mem_ok k r \<Longrightarrow> ring_advance r 0 = r"
  by (simp add: ring_mem_ok_def ring_advance_def)

lemma off_ring_advance [simp]: "off_ring k (ring_advance r n) = off_ring k r"
  by (rule ext) (simp add: off_ring_def)

lemma ring_view_advance [simp]: "ring_view k (ring_advance r n) = ring_view k r"
  by (rule ext) (simp add: ring_view_def)

lemma ring_store_mod: "ring_store (p mod length xs) vs xs = ring_store p vs xs"
proof (induction vs arbitrary: p xs)
  case (Cons v vs)
  have "ring_store (Suc (p mod length xs) mod length xs) vs xs' = ring_store (Suc p mod length xs) vs xs'" for xs'
    by (simp add: mod_Suc_eq)
  then show ?case
    using Cons.IH [of "Suc (p mod length xs)" "xs[p mod length xs := v]"] Cons.IH [of "Suc p" "xs[p mod length xs := v]"] by simp
qed simp

lemma write_all_spec:
  assumes "ring_mem_ok k r"
  shows "\<exists>cpu'. write_all vs (r, io) = Inr (ring_advance r (length vs), io\<lparr>io_cpu := cpu'\<rparr>) \<and>
    ring_view k r cpu' = ring_store (ring_pos k r) vs (ring_view k r (io_cpu io)) \<and>
    (\<forall>a. off_ring k r a \<longrightarrow> cpu' a = io_cpu io a)"
  using assms
proof (induction vs arbitrary: r io)
  case Nil
  then show ?case by (intro exI [of _ "io_cpu io"]) (simp add: ring_advance_0)
next
  case (Cons v vs)
  have k: "k \<le> 24" using Cons.prems by (simp add: ring_mem_ok_def)
  let ?p = "ring_pos k r"
  let ?cpu = "mem_put (rg_ring r + 4 * of_nat ?p) (to_le 4 v) (io_cpu io)"
  obtain cpu' where c: "write_all vs (ring_advance r 1, io\<lparr>io_cpu := ?cpu\<rparr>) =
      Inr (ring_advance (ring_advance r 1) (length vs), io\<lparr>io_cpu := ?cpu, io_cpu := cpu'\<rparr>)"
    "ring_view k r cpu' = ring_store ((?p + 1) mod 2 ^ k) vs (ring_view k r ?cpu)"
    "\<forall>a. off_ring k r a \<longrightarrow> cpu' a = ?cpu a"
    using Cons.IH [of "ring_advance r 1" "io\<lparr>io_cpu := ?cpu\<rparr>"] Cons.prems by (auto simp: ring_pos_advance)
  have "ring_view k r cpu' = ring_store ?p (v # vs) (ring_view k r (io_cpu io))"
    using c(2) ring_view_put [OF k ring_pos_lt, of r r v "io_cpu io"] ring_store_mod [of "?p + 1" "ring_view k r ?cpu" vs]
    by (simp add: ring_pos_lt)
  moreover have "\<forall>a. off_ring k r a \<longrightarrow> cpu' a = io_cpu io a"
    using c(3) put_off_ring [OF k ring_pos_lt] by auto
  ultimately show ?case
    using c(1) Cons.prems by (intro exI [of _ cpu']) (simp add: ring_write_spec ring_advance_add)
qed

lemma write_times_eq: "write_times n v st = write_all (replicate n v) st"
  by (induction n arbitrary: st) (auto intro!: arg_cong2 [where f = cbind])

section \<open>Copies of packets\<close>

lemma write_all_append: "write_all (vs @ ws) st = cbind (write_all vs st) (write_all ws)"
  by (induction vs arbitrary: st) (auto simp: cbind_assoc intro!: arg_cong2 [where f = cbind])

lemma write_all_linear:
  assumes "ring_mem_ok k r" and "ring_pos k r + length vs \<le> 2 ^ k"
  shows "write_all vs (r, io) = cbind (put_words (rg_ring r) (4 * of_nat (ring_pos k r)) vs (io_cpu io))
    (\<lambda>cpu. Inr (ring_advance r (length vs), io\<lparr>io_cpu := cpu\<rparr>))"
  using assms
proof (induction vs arbitrary: r io)
  case Nil
  then show ?case by (simp add: ring_advance_0)
next
  case (Cons v vs)
  let ?r = "ring_advance r 1"
  let ?cpu = "mem_put (rg_ring r + 4 * of_nat (ring_pos k r)) (to_le 4 v) (io_cpu io)"
  have "write_all vs (?r, io\<lparr>io_cpu := ?cpu\<rparr>) =
      cbind (put_words (rg_ring r) (4 * of_nat (ring_pos k r) + 4) vs ?cpu) (\<lambda>cpu. Inr (ring_advance r (Suc (length vs)), io\<lparr>io_cpu := cpu\<rparr>))"
  proof (cases "vs = []")
    case True
    then show ?thesis by simp
  next
    case False
    then have "ring_pos k r + 1 < 2 ^ k" using Cons.prems(2) by (cases vs) auto
    then have "ring_pos k ?r = ring_pos k r + 1" using Cons.prems(1) by (simp add: ring_pos_advance)
    moreover from this Cons.prems have "ring_pos k ?r + length vs \<le> 2 ^ k" by simp
    ultimately show ?thesis
      using Cons.IH [of ?r "io\<lparr>io_cpu := ?cpu\<rparr>"] Cons.prems(1) by (simp add: ring_advance_add algebra_simps)
  qed
  moreover have "rg_ring r \<noteq> 0" using Cons.prems(1) by (simp add: ring_mem_ok_def)
  ultimately show ?case by (simp add: ring_write_spec [OF Cons.prems(1)] st32_def)
qed

lemma ucast_of_nat_down: "(ucast (of_nat n :: u64) :: u32) = of_nat n"
  by (rule bit_word_eqI) (auto simp: bit_simps)

lemma ucast_of_nat_up: "n < 4294967296 \<Longrightarrow> (ucast (of_nat n :: u32) :: u64) = of_nat n"
  by (rule word_unat_eq_iff [THEN iffD2]) (simp add: unsigned_ucast_eq unat_of_nat take_bit_eq_mod)

lemma memcpy_words_take:
  assumes "n \<le> 2 ^ 24" and "n \<le> length src"
  shows "memcpy_words base off src (push_bit 2 (of_nat n)) cpu = put_words base off (take n src) cpu"
proof -
  have "unat (of_nat (4 * n) :: u32) = 4 * n" using assms(1) by (simp add: unat_of_nat del: of_nat_mult)
  then have "unat (push_bit 2 (of_nat n) :: u32) div 4 = n" by (simp add: push_bit_eq_mult mult.commute)
  then show ?thesis using assms(2) by (simp add: memcpy_words_def)
qed

text \<open>Copying a packet in at most two pieces around the end of the ring is writing it dword by dword.\<close>

lemma ring_write_multiple_writes:
  assumes "ring_mem_ok k r" and "length src \<le> 2 ^ k"
  shows "amdgv_ring_write_multiple src (of_nat (length src)) (r, io) = write_all src (r, io)"
proof -
  let ?p = "ring_pos k r" and ?n = "length src"
  define c where "c = min ?n (2 ^ k - ?p)"
  have k: "k \<le> 24" using assms(1) by (simp add: ring_mem_ok_def)
  have p: "?p < 2 ^ k" by (rule ring_pos_lt)
  have lim: "2 ^ k \<le> (16777216::nat)" by (rule pow24 [OF k])
  have c: "c \<le> ?n" "?p + c \<le> 2 ^ k" "c < ?n \<Longrightarrow> ?p + c = 2 ^ k" using p by (auto simp: c_def min_def)
  have u: "unat (of_nat i :: u32) = i" if "i \<le> 16777216" for i using that by (simp add: unat_of_nat)
  have occ: "(ucast (rg_wptr r AND ucast (rg_buf_mask r)) :: u32) = of_nat ?p"
    by (simp add: ring_index [OF assms(1)] ucast_of_nat_down)
  have room: "rg_buf_mask r + 1 - of_nat ?p = (of_nat (2 ^ k - ?p) :: u32)"
  proof -
    have "rg_buf_mask r + 1 = of_nat (2 ^ k)" using assms(1) by (simp add: ring_mem_ok_def)
    then show ?thesis using of_nat_diff [of ?p "2 ^ k", where 'a = u32] p by simp
  qed
  have c1: "(if (of_nat ?n :: u32) \<le> of_nat (2 ^ k - ?p) then of_nat ?n else of_nat (2 ^ k - ?p)) = (of_nat c :: u32)"
  proof -
    have "unat (of_nat ?n :: u32) = ?n" by (rule u) (use assms(2) lim in linarith)
    moreover have "unat (of_nat (2 ^ k - ?p) :: u32) = 2 ^ k - ?p" by (rule u) (use lim in linarith)
    ultimately have "(of_nat ?n :: u32) \<le> of_nat (2 ^ k - ?p) \<longleftrightarrow> ?n \<le> 2 ^ k - ?p" by (simp only: word_le_nat_alt)
    then show ?thesis by (cases "?n \<le> 2 ^ k - ?p") (simp_all only: c_def min_def if_True if_False)
  qed
  have c2: "of_nat ?n - (of_nat c :: u32) = of_nat (?n - c)" by (rule of_nat_diff [OF c(1), symmetric])
  have nz: "(of_nat i :: u32) = 0 \<longleftrightarrow> i = 0" if "i \<le> 16777216" for i
  proof
    assume "(of_nat i :: u32) = 0"
    then have "unat (of_nat i :: u32) = 0" by (simp only: unat_0)
    with u [OF that] show "i = 0" by simp
  qed simp
  have split: "write_all src (r, io) = cbind (write_all (take c src) (r, io)) (write_all (drop c src))"
    using write_all_append [of "take c src" "drop c src"] by simp
  have first: "write_all (take c src) (r, io) = cbind (put_words (rg_ring r) (4 * of_nat ?p) (take c src) (io_cpu io))
      (\<lambda>cpu. Inr (ring_advance r c, io\<lparr>io_cpu := cpu\<rparr>))"
    using write_all_linear [OF assms(1), of "take c src" io] c by simp
  have second: "write_all (drop c src) (ring_advance r c, io\<lparr>io_cpu := cpu\<rparr>) =
      cbind (if ?n - c \<noteq> 0 then put_words (rg_ring r) 0 (drop c src) cpu else Inr cpu)
        (\<lambda>cpu. Inr (ring_advance r ?n, io\<lparr>io_cpu := cpu\<rparr>))" for cpu
  proof (cases "c < ?n")
    case True
    then have "ring_pos k (ring_advance r c) = 0" using c(3) assms(1) by (simp add: ring_pos_advance)
    then show ?thesis
      using write_all_linear [of k "ring_advance r c" "drop c src" "io\<lparr>io_cpu := cpu\<rparr>"] assms True
      by (simp add: ring_advance_add)
  qed (use c(1) in simp)
  have "amdgv_ring_write_multiple src (of_nat ?n) (r, io) =
      cbind (if c \<noteq> 0 then put_words (rg_ring r) (4 * of_nat ?p) (take c src) (io_cpu io) else Inr (io_cpu io)) (\<lambda>cpu.
      cbind (if ?n - c \<noteq> 0 then put_words (rg_ring r) 0 (drop c src) cpu else Inr cpu) (\<lambda>cpu.
        Inr (ring_advance r ?n, io\<lparr>io_cpu := cpu\<rparr>)))"
  proof -
    have b: "c \<le> 16777216" "?n - c \<le> 16777216" "?n < 4294967296" using c(1) assms(2) lim by linarith+
    have m1: "memcpy_words (rg_ring r) off src (push_bit 2 (of_nat c)) cpu = put_words (rg_ring r) off (take c src) cpu" for off cpu
      by (rule memcpy_words_take) (use b c(1) in simp_all)
    have m2: "memcpy_words (rg_ring r) off (drop c src) (push_bit 2 (of_nat (?n - c))) cpu = put_words (rg_ring r) off (drop c src) cpu" for off cpu
      using memcpy_words_take [of "?n - c" "drop c src"] b by simp
    have o: "ucast (of_nat ?p :: u32) = (of_nat ?p :: u64)" by (rule ucast_of_nat_up) (use p lim in linarith)
    show ?thesis
      unfolding amdgv_ring_write_multiple_def prod.case Let_def occ
      unfolding room c1 c2 nz [OF b(1)] nz [OF b(2)] u [OF b(1)] m1 m2 o ucast_of_nat_up [OF b(3)] ring_advance_def ..
  qed
  also have "\<dots> = write_all src (r, io)"
  proof (cases "c = 0")
    case True
    then have "src = []" using c(3) p by (cases src) auto
    then show ?thesis by (simp add: True ring_advance_0 [OF assms(1)])
  qed (simp add: split first second cbind_assoc)
  finally show ?thesis .
qed

end
