(* ===== verification/GV_Ring_Init.thy ===== *)
theory GV_Ring_Init
  imports GV_Ring_Store
begin

text \<open>
  The creation of a ring: its size, a power of two that the code finds by scanning bits, and its five write-back slots.
\<close>

section \<open>The size of a ring\<close>

lemma bit_top:
  fixes w :: u32
  assumes "2 ^ e \<le> unat w" and "unat w < 2 * 2 ^ e"
  shows "bit w e"
proof -
  have "unat w div 2 ^ e = 1" using assms by (simp add: div_nat_eqI)
  then have "bit (unat w) e" by (simp add: bit_iff_odd)
  then show ?thesis by (simp add: bit_unsigned_iff)
qed

lemma unat_two_power32: "e < 32 \<Longrightarrow> unat ((2::u32) ^ e) = 2 ^ e"
  unfolding push_bit_of_1 [symmetric] unsigned_push_bit_eq
  by (simp add: take_bit_nat_eq_self_iff push_bit_of_1 power_strict_increasing_iff [of 2 e 32, simplified])

lemma and_pow: "(w::u32) AND 2 ^ e = (if bit w e then 2 ^ e else 0)"
  by (rule bit_word_eqI) (auto simp: bit_and_iff bit_exp_iff)

lemma log2_scan_spec:
  assumes "j \<le> m" and "0 < unat sz" and "unat sz < 2 * 2 ^ j" and "j \<le> 23"
  shows "\<exists>e \<le> j. log2_scan (Suc m) sz (2 ^ j) lg = lg - of_nat (j - e) \<and> 2 ^ e \<le> unat sz \<and> unat sz < 2 * 2 ^ e"
  using assms
proof (induction j arbitrary: m lg)
  case 0
  then have "unat sz = 1" by simp
  then have "bit sz 0" using bit_top [of 0 sz] by simp
  then show ?case using 0 and_pow [of sz 0] by simp
next
  case (Suc j)
  show ?case
  proof (cases "2 ^ Suc j \<le> unat sz")
    case True
    then have "bit sz (Suc j)" using bit_top [of "Suc j" sz] Suc.prems(3) by simp
    moreover have "(2::u32) ^ Suc j \<noteq> 0"
    proof
      assume "(2::u32) ^ Suc j = 0"
      then have "unat ((2::u32) ^ Suc j) = 0" by (simp only: unat_0)
      then show False using unat_two_power32 [of "Suc j"] Suc.prems(4) by simp
    qed
    ultimately show ?thesis using True Suc.prems and_pow [of sz "Suc j"] by (intro exI [of _ "Suc j"]) simp
  next
    case False
    then have lt: "unat sz < 2 * 2 ^ j" by simp
    have "\<not> bit sz (Suc j)"
    proof
      assume "bit sz (Suc j)"
      then have "bit (unat sz) (Suc j)" by (simp add: bit_unsigned_iff)
      then have "odd (unat sz div 2 ^ Suc j)" by (simp add: bit_iff_odd)
      then have "unat sz div 2 ^ Suc j \<noteq> 0" by (metis even_zero)
      with False show False by simp
    qed
    moreover obtain m' where m: "m = Suc m'" "j \<le> m'" using Suc.prems(1) by (cases m) auto
    moreover have "drop_bit 1 ((2::u32) ^ Suc j) = 2 ^ j"
      by (rule word_unat_eq_iff [THEN iffD2])
        (use Suc.prems(4) in \<open>simp add: drop_bit_eq_div unat_div_distrib unat_two_power32 del: power_Suc\<close>, simp)
    ultimately have "log2_scan (Suc m) sz (2 ^ Suc j) lg = log2_scan (Suc m') sz (2 ^ j) (lg - 1)"
      using and_pow [of sz "Suc j"] by (simp del: log2_scan.simps(2) add: log2_scan.simps(2) [of "Suc m'"])
    moreover obtain e where "e \<le> j" "log2_scan (Suc m') sz (2 ^ j) (lg - 1) = lg - 1 - of_nat (j - e)"
      "2 ^ e \<le> unat sz" "unat sz < 2 * 2 ^ e"
      using Suc.IH [of m' "lg - 1"] m lt Suc.prems by auto
    ultimately show ?thesis by (intro exI [of _ e]) (simp add: Suc_diff_le algebra_simps)
  qed
qed

lemma and_pred_eq_0:
  assumes "2 ^ e \<le> unat sz" and "unat sz < 2 * 2 ^ e" and "e < 32"
  shows "sz AND (sz - 1) = (0::u32) \<longleftrightarrow> unat sz = 2 ^ e"
proof
  assume z: "sz AND (sz - 1) = 0"
  show "unat sz = 2 ^ e"
  proof (rule ccontr)
    assume "unat sz \<noteq> 2 ^ e"
    then have gt: "2 ^ e < unat sz" using assms(1) by simp
    then have "unat (sz - 1) = unat sz - 1" by (intro unat_dec32) (simp add: word_less_nat_alt)
    then have "bit (sz - 1) e" using gt assms(2) by (intro bit_top) simp_all
    moreover have "bit sz e" using assms by (intro bit_top)
    ultimately have "bit (sz AND (sz - 1)) e" by (simp add: bit_and_iff)
    with z show False by simp
  qed
next
  assume "unat sz = 2 ^ e"
  then have "sz = 2 ^ e" using assms(3) by (intro word_unat_eq_iff [THEN iffD2]) (simp add: unat_two_power32)
  then have "sz AND (sz - 1) = take_bit e (2 ^ e)" by (simp add: take_bit_eq_mask mask_eq_exp_minus_1)
  moreover have "take_bit e (2 ^ e :: u32) = 0"
    by (rule bit_word_eqI) (auto simp: bit_take_bit_iff bit_exp_iff)
  ultimately show "sz AND (sz - 1) = 0" by simp
qed

lemma ring_log2_spec:
  assumes "0 < unat sz"
  shows "\<exists>k \<le> 24. ring_log2 sz = of_nat k \<and> (if unat sz < 2 ^ 24 then unat sz \<le> 2 ^ k \<and> 2 ^ k < 2 * unat sz else k = 24)"
proof (cases "unat sz < 2 ^ 24")
  case False
  then have "0x1000000 \<le> sz" by (simp add: word_le_nat_alt)
  with False show ?thesis by (intro exI [of _ 24]) (simp add: ring_log2_def)
next
  case lt: True
  then have small: "\<not> 0x1000000 \<le> sz" by (simp add: word_le_nat_alt)
  let ?lg = "if sz AND (sz - 1) \<noteq> 0 then 24 else (23::u32)"
  obtain e where e: "e \<le> 23" "log2_scan (Suc 31) sz (2 ^ 23) ?lg = ?lg - of_nat (23 - e)" "2 ^ e \<le> unat sz" "unat sz < 2 * 2 ^ e"
    using log2_scan_spec [of 23 31 sz ?lg] assms lt by auto
  have "ring_log2 sz = ?lg - of_nat (23 - e)"
    using small e(2) by (simp add: ring_log2_def numeral_eq_Suc)
  moreover have "of_nat (23 - e) = (23 - of_nat e :: u32)" using e(1) by (simp add: of_nat_diff)
  ultimately have lg: "ring_log2 sz = (if unat sz = 2 ^ e then of_nat e else of_nat (Suc e))"
    using and_pred_eq_0 [OF e(3,4)] e(1) by simp
  show ?thesis
  proof (cases "unat sz = 2 ^ e")
    case True
    with lg e lt show ?thesis by (intro exI [of _ e]) simp
  next
    case False
    with lg e lt show ?thesis by (intro exI [of _ "Suc e"]) simp
  qed
qed

section \<open>Creation of a ring\<close>

definition ring_wb_slots :: "amdgv_ring \<Rightarrow> u32 list" where
  "ring_wb_slots r = [rg_rptr_offs r, rg_wptr_offs r, rg_fence_offs r, rg_trail_fence_offs r, rg_cond_exe_offs r]"

definition all_slots :: "u32 set" where
  "all_slots = wb_slot ` {..<1024}"

lemma wb_get_success:
  assumes "wb_ok wb" and "amdgv_wb_memory_get wb = (r, dw, wb')"
  shows "r \<noteq> 0 \<and> dw = None \<and> wb' = wb \<and> all_slots \<subseteq> used_slots wb \<or>
    r = 0 \<and> (\<exists>d. dw = Some d \<and> wb_ok wb' \<and> d \<in> all_slots - used_slots wb \<and> used_slots wb' = insert d (used_slots wb))"
proof (cases dw)
  case None
  then have "wb_take wb = None" using assms(2) by (simp add: wb_take_def)
  then have "all_slots \<subseteq> used_slots wb" using wb_pool.get_full [OF assms(1)] unfolding all_slots_def by blast
  moreover have "r \<noteq> 0" "wb' = wb" using assms(2) None unfolding amdgv_wb_memory_get_def Let_def by (simp_all split: if_splits)
  ultimately show ?thesis using None by blast
next
  case (Some d)
  then have "wb_take wb = Some (d, wb')" using assms(2) by (simp add: wb_take_def)
  then have "wb_ok wb' \<and> d \<in> all_slots - used_slots wb \<and> used_slots wb' = insert d (used_slots wb)"
    using wb_pool.get_fresh [OF assms(1)] unfolding all_slots_def by blast
  moreover have "r = 0" using assms(2) Some unfolding amdgv_wb_memory_get_def Let_def by (simp split: if_splits)
  ultimately show ?thesis using Some by blast
qed

definition fill_slots :: "(u32 \<Rightarrow> amdgv_ring \<Rightarrow> amdgv_ring) list \<Rightarrow> u32 list \<Rightarrow> amdgv_ring \<Rightarrow> amdgv_ring" where
  "fill_slots fs ds ring = fold (\<lambda>(f, d). f d) (zip fs ds) ring"

lemma take_slots_spec:
  assumes "wb_ok wb" and "take_slots fs wb ring = (r, wb', ring')"
  shows "\<exists>ds. distinct ds \<and> set ds \<subseteq> all_slots - used_slots wb \<and> wb_ok wb' \<and> used_slots wb' = set ds \<union> used_slots wb \<and>
    ring' = fill_slots fs ds ring \<and>
    (if r = 0 then length ds = length fs else length ds < length fs \<and> all_slots \<subseteq> used_slots wb')"
  using assms
proof (induction fs arbitrary: wb ring)
  case Nil
  then show ?case by (intro exI [of _ "[]"]) (simp add: fill_slots_def)
next
  case (Cons f fs)
  obtain r1 dw w1 where g: "amdgv_wb_memory_get wb = (r1, dw, w1)" by (metis prod_cases3)
  show ?case
    using wb_get_success [OF Cons.prems(1) g]
  proof (elim disjE conjE exE)
    assume "r1 \<noteq> 0" "dw = None" "w1 = wb" "all_slots \<subseteq> used_slots wb"
    with Cons.prems g show ?thesis by (intro exI [of _ "[]"]) (simp add: fill_slots_def)
  next
    fix d
    assume d: "r1 = 0" "dw = Some d" "wb_ok w1" "d \<in> all_slots - used_slots wb" "used_slots w1 = insert d (used_slots wb)"
    then have "take_slots fs w1 (f d ring) = (r, wb', ring')" using Cons.prems(2) g by simp
    from Cons.IH [OF d(3) this] obtain ds where ds: "distinct ds" "set ds \<subseteq> all_slots - used_slots w1" "wb_ok wb'"
      "used_slots wb' = set ds \<union> used_slots w1" "ring' = fill_slots fs ds (f d ring)"
      "if r = 0 then length ds = length fs else length ds < length fs \<and> all_slots \<subseteq> used_slots wb'" by blast
    have "d \<notin> set ds" "set (d # ds) \<subseteq> all_slots - used_slots wb" "used_slots wb' = set (d # ds) \<union> used_slots wb"
      using ds(2,4) d(4,5) by auto
    with ds show ?thesis by (intro exI [of _ "d # ds"]) (auto simp: fill_slots_def)
  qed
qed

lemma take_ring_slots:
  assumes "wb_ok wb" and "take_slots ring_slot_fields wb ring = (0, wb', ring')"
  shows "wb_ok wb' \<and> distinct (ring_wb_slots ring') \<and> set (ring_wb_slots ring') \<subseteq> all_slots - used_slots wb \<and>
    used_slots wb' = set (ring_wb_slots ring') \<union> used_slots wb \<and>
    (\<exists>a b c d e. ring' = ring\<lparr>rg_rptr_offs := a, rg_wptr_offs := b, rg_fence_offs := c, rg_trail_fence_offs := d, rg_cond_exe_offs := e\<rparr>)"
proof -
  obtain ds where ds: "distinct ds" "set ds \<subseteq> all_slots - used_slots wb" "wb_ok wb'" "used_slots wb' = set ds \<union> used_slots wb"
    "ring' = fill_slots ring_slot_fields ds ring" "length ds = 5"
    using take_slots_spec [OF assms] by (auto simp: ring_slot_fields_def)
  from ds(6) obtain a b c d e where abc: "ds = [a, b, c, d, e]" by (auto simp: numeral_eq_Suc length_Suc_conv)
  then have r: "ring' = ring\<lparr>rg_rptr_offs := a, rg_wptr_offs := b, rg_fence_offs := c, rg_trail_fence_offs := d, rg_cond_exe_offs := e\<rparr>"
    using ds(5) by (simp add: fill_slots_def ring_slot_fields_def)
  then have "ring_wb_slots ring' = ds" by (simp add: abc ring_wb_slots_def)
  with ds(1-4) r show ?thesis by blast
qed

lemma ring_register_io:
  "ring_register lock_ok n adapt ring = Inr (r, adapt', ring') \<Longrightarrow>
     ra_io adapt' = ra_io adapt \<and> ra_ids adapt' = ra_ids adapt \<and> ra_pf adapt' = ra_pf adapt"
  by (auto simp: ring_register_def Let_def amdgv_fence_driver_init_ring_def cres_iffs split: if_splits prod.splits)

text \<open>The steps of a successful creation.\<close>

lemma ring_init_success:
  assumes "amdgv_ring_init lock_ok env funcs adapt ring max_dw frames hw_prio wid = Inr (0, adapt', ring')"
  obtains adapt1 ring1 wb ring2 obj ids pf where
    "ring_register lock_ok (if frames < 2 then 2 else frames) adapt ring = Inr (0, adapt1, ring1)"
    and "take_slots ring_slot_fields (io_wb (ra_io adapt1)) ring1 = (0, wb, ring2)"
    and "\<not> 31 \<le> ring_log2 ((if max_dw = 0 then 1024 else max_dw) * (if frames < 2 then 2 else frames))"
    and "adapt' = adapt1\<lparr>ra_io := (ra_io adapt1)\<lparr>io_wb := wb\<rparr>, ra_ids := ids, ra_pf := pf\<rparr>"
    and "ring' = (ring_set_size funcs (ring_log2 ((if max_dw = 0 then 1024 else max_dw) * (if frames < 2 then 2 else frames))) ring2)
      \<lparr>rg_ring_obj := Some obj, rg_max_dw := (if max_dw = 0 then 1024 else max_dw), rg_hw_prio := hw_prio, rg_wptr := 0, rg_wptr_old := 0\<rparr>"
proof -
  let ?n = "if frames < 2 then 2 else frames" and ?dw = "if max_dw = 0 then 1024 else max_dw"
  obtain r1 adapt1 ring1 where reg: "ring_register lock_ok ?n adapt ring = Inr (r1, adapt1, ring1)"
    using assms by (auto simp: amdgv_ring_init_def Let_def elim!: cbind_InrE)
  have r1: "r1 = 0" using assms reg by (auto simp: amdgv_ring_init_def Let_def split: if_splits)
  obtain r2 wb ring2 where sl: "take_slots ring_slot_fields (io_wb (ra_io adapt1)) ring1 = (r2, wb, ring2)" by (metis prod_cases3)
  have r2: "r2 = 0" using assms reg r1 sl by (auto simp: amdgv_ring_init_def Let_def split: if_splits)
  let ?lg = "ring_log2 (?dw * ?n)"
  have lg: "\<not> 31 \<le> ?lg" using assms reg r1 sl r2 by (simp add: amdgv_ring_init_def Let_def split: if_splits)
  define r3 where "r3 = ring_set_size funcs ?lg ring2"
  obtain obj ids pf where al: "ring_alloc_obj env funcs (adapt1\<lparr>ra_io := (ra_io adapt1)\<lparr>io_wb := wb\<rparr>\<rparr>) r3 wid = (obj, ids, pf)"
    by (metis prod_cases3)
  have eq: "amdgv_ring_init lock_ok env funcs adapt ring max_dw frames hw_prio wid =
    (if obj = None then Inr (AMDGV_FAILURE, adapt1\<lparr>ra_io := (ra_io adapt1)\<lparr>io_wb := wb\<rparr>, ra_ids := ids, ra_pf := pf\<rparr>, r3\<lparr>rg_ring_obj := obj\<rparr>)
     else Inr (0, adapt1\<lparr>ra_io := (ra_io adapt1)\<lparr>io_wb := wb\<rparr>, ra_ids := ids, ra_pf := pf\<rparr>,
       r3\<lparr>rg_ring_obj := obj, rg_max_dw := ?dw, rg_hw_prio := hw_prio, rg_wptr := 0, rg_wptr_old := 0\<rparr>))"
    using reg r1 sl r2 lg al unfolding amdgv_ring_init_def Let_def r3_def
    by (simp split del: if_split)
  obtain x where x: "obj = Some x" using assms eq by (cases obj) auto
  show thesis
    by (rule that [OF reg [unfolded r1] sl [unfolded r2] lg, where obj = x and ids = ids and pf = pf]) (use assms eq x in \<open>simp_all add: r3_def\<close>)
qed

text \<open>C34. A ring that is created has a power of two of dwords: the least one that holds the frames that may be in flight, as long as
  these fit into \<open>2 ^ 24\<close> dwords, and \<open>2 ^ 24\<close> otherwise. Its five write-back slots are distinct and were free.\<close>

theorem ring_init_size_and_slots:
  assumes "amdgv_ring_init lock_ok env funcs adapt ring max_dw frames hw_prio wid = Inr (0, adapt', ring')"
    and "wb_ok (io_wb (ra_io adapt))"
    and "demand = unat (if max_dw = 0 then 1024 else max_dw) * unat (if frames < 2 then 2 else frames)" and "demand < 2 ^ 32"
  shows "\<exists>k \<le> 24. rg_ring_size ring' = 2 ^ k \<and> rg_buf_mask ring' = 2 ^ k - 1 \<and>
    (rg_ptr_mask ring' = - 1 \<or> rg_ptr_mask ring' = 2 ^ k - 1) \<and> rg_wptr ring' = 0 \<and>
    (if demand < 2 ^ 24 then demand \<le> 2 ^ k \<and> 2 ^ k < 2 * demand else k = 24) \<and>
    distinct (ring_wb_slots ring') \<and> set (ring_wb_slots ring') \<subseteq> all_slots - used_slots (io_wb (ra_io adapt)) \<and>
    used_slots (io_wb (ra_io adapt')) = set (ring_wb_slots ring') \<union> used_slots (io_wb (ra_io adapt))"
proof -
  let ?n = "if frames < 2 then 2 else frames" and ?dw = "if max_dw = 0 then 1024 else max_dw"
  obtain adapt1 ring1 wb ring2 obj ids pf where s:
    "ring_register lock_ok ?n adapt ring = Inr (0, adapt1, ring1)"
    "take_slots ring_slot_fields (io_wb (ra_io adapt1)) ring1 = (0, wb, ring2)"
    "adapt' = adapt1\<lparr>ra_io := (ra_io adapt1)\<lparr>io_wb := wb\<rparr>, ra_ids := ids, ra_pf := pf\<rparr>"
    "ring' = (ring_set_size funcs (ring_log2 (?dw * ?n)) ring2)
      \<lparr>rg_ring_obj := Some obj, rg_max_dw := ?dw, rg_hw_prio := hw_prio, rg_wptr := 0, rg_wptr_old := 0\<rparr>"
    using ring_init_success [OF assms(1)] by metis
  have io: "ra_io adapt1 = ra_io adapt" using ring_register_io [OF s(1)] by simp
  have slots: "distinct (ring_wb_slots ring2)" "set (ring_wb_slots ring2) \<subseteq> all_slots - used_slots (io_wb (ra_io adapt))"
    "used_slots wb = set (ring_wb_slots ring2) \<union> used_slots (io_wb (ra_io adapt))"
    using take_ring_slots [OF _ s(2)] assms(2) unfolding io by blast+
  have "ring_wb_slots ring' = ring_wb_slots ring2" by (simp add: s(4) ring_wb_slots_def ring_set_size_def Let_def)
  moreover have u: "unat (?dw * ?n) = demand"
    using assms(3,4) by (simp only: unat_word_ariths) simp
  have "2 \<le> ?n" by (simp add: word_less_nat_alt word_le_nat_alt)
  then have "0 < demand" using assms(3) by (auto simp: word_le_nat_alt unat_gt_0 split: if_splits)
  then obtain k where k: "k \<le> 24" "ring_log2 (?dw * ?n) = of_nat k"
    "if demand < 2 ^ 24 then demand \<le> 2 ^ k \<and> 2 ^ k < 2 * demand else k = 24"
    using ring_log2_spec [of "?dw * ?n"] unfolding u by blast
  have "unat (of_nat k :: u32) = k" using k(1) by (simp add: unat_of_nat)
  then have "rg_ring_size ring' = 2 ^ k" "rg_buf_mask ring' = 2 ^ k - 1" "rg_ptr_mask ring' = - 1 \<or> rg_ptr_mask ring' = 2 ^ k - 1" "rg_wptr ring' = 0"
    using ucast_buf_mask [OF k(1)] by (simp_all add: s(4) k(2) ring_set_size_def Let_def)
  ultimately show ?thesis using slots k(1,3) s(3) by (intro exI [of _ k]) (simp add: io)
qed

end
