(* ===== verification/GV_Ring_Engine.thy ===== *)
theory GV_Ring_Engine
  imports GV_Ring_Init
begin

text \<open>
  The contract between the ring and the callbacks of an engine (the locale \<open>ring_engine\<close>): what padding and the write pointer's
  callback may do. Inside it, what a submission with a fence leaves in the ring; the callbacks of the SDMA and of the MES are its
  instances.
\<close>

section \<open>Engines\<close>

lemma ring_unchanged [simp]:
  "ring_mem_ok k (r\<lparr>rg_count_dw := b, rg_wptr_old := a\<rparr>) = ring_mem_ok k r"
  "ring_view k (r\<lparr>rg_count_dw := b, rg_wptr_old := a\<rparr>) cpu = ring_view k r cpu"
  "off_ring k (r\<lparr>rg_count_dw := b, rg_wptr_old := a\<rparr>) x = off_ring k r x"
  "ring_pos k (r\<lparr>rg_count_dw := b, rg_wptr_old := a\<rparr>) = ring_pos k r"
  "ring_mem_ok k (r\<lparr>rg_fence_drv := d\<rparr>) = ring_mem_ok k r"
  "ring_view k (r\<lparr>rg_fence_drv := d\<rparr>) cpu = ring_view k r cpu"
  "off_ring k (r\<lparr>rg_fence_drv := d\<rparr>) x = off_ring k r x"
  "ring_pos k (r\<lparr>rg_fence_drv := d\<rparr>) = ring_pos k r"
  by (simp_all add: ring_mem_ok_def ring_view_def off_ring_def ring_pos_def)

text \<open>The bytes of the slot that the write pointer is shown in.\<close>

definition in_slot :: "u64 \<Rightarrow> u64 \<Rightarrow> bool" where
  "in_slot p a \<longleftrightarrow> unat (a - p) < 8"

lemma apart_off_ring: "ranges_apart (rg_ring r) (4 * 2 ^ k) p 8 \<Longrightarrow> in_slot p a \<Longrightarrow> off_ring k r a"
  unfolding in_slot_def off_ring_def by (metis ranges_apart_bytes leI)

definition commit_padding :: "nat \<Rightarrow> nat \<Rightarrow> nat" where
  "commit_padding al p = (2 ^ al - p mod 2 ^ al) mod 2 ^ al"

lemma commit_padding_aligns: "2 ^ al dvd p + commit_padding al p"
proof (cases "p mod 2 ^ al = 0")
  case False
  let ?m = "p mod 2 ^ al"
  have "commit_padding al p = 2 ^ al - ?m" using False by (simp add: commit_padding_def)
  moreover have "p + (2 ^ al - ?m) = (p - ?m) + 2 ^ al"
    using mod_less_eq_dividend [of p "2 ^ al"] mod_less_divisor [of "2 ^ al" p] by simp
  ultimately show ?thesis by (simp add: minus_mod_eq_mult_div)
qed (auto simp: commit_padding_def)

lemma commit_padding_mod: "al \<le> k \<Longrightarrow> commit_padding al (p mod 2 ^ k) = commit_padding al p"
  by (simp add: commit_padding_def mod_mod_cancel le_imp_power_dvd)

lemma commit_count:
  assumes "ring_mem_ok k r" and "al \<le> k" and "al \<le> 8"
  shows "unat ((ucast (ucast ((2::u32) ^ al - 1 + 1) - (rg_wptr r AND ucast ((2::u32) ^ al - 1))) :: u32) mod (2 ^ al - 1 + 1)) =
    commit_padding al (ring_pos k r)"
proof -
  let ?m = "unat (rg_wptr r) mod 2 ^ al"
  have a: "al \<le> 24" using assms(3) by simp
  have m: "?m < 2 ^ al" by simp
  have p8: "(2::nat) ^ al \<le> 256" using power_increasing [OF assms(3), of "2::nat"] by simp
  have up: "(ucast ((2::u32) ^ al) :: u64) = of_nat (2 ^ al)"
    using ucast_of_nat_up [of "2 ^ al"] p8 by simp
  have lo: "rg_wptr r AND ucast ((2::u32) ^ al - 1) = of_nat ?m"
  proof (rule word_unat_eq_iff [THEN iffD2])
    have "unat (of_nat ?m :: u64) = ?m"
      unfolding unat_of_nat by (rule mod_less) (use order_less_le_trans [OF m p8] in simp)
    then show "unat (rg_wptr r AND ucast ((2::u32) ^ al - 1)) = unat (of_nat ?m :: u64)"
      by (simp only: ucast_buf_mask [OF a] unat_and_mask64 [OF a])
  qed
  have sub: "of_nat (2 ^ al) - of_nat ?m = (of_nat (2 ^ al - ?m) :: u64)" by (rule of_nat_diff [symmetric]) simp
  have md: "?m = ring_pos k r mod 2 ^ al"
    unfolding ring_pos_def by (rule mod_mod_cancel [symmetric]) (rule le_imp_power_dvd [OF assms(2)])
  have "unat ((of_nat (2 ^ al - ?m) :: u32) mod 2 ^ al) = (2 ^ al - ?m) mod 2 ^ al"
    using p8 assms(3) by (simp add: unat_mod_distrib unat_two_power32 unat_of_nat del: of_nat_diff)
  then show ?thesis
    unfolding diff_add_cancel up lo sub ucast_of_nat_down commit_padding_def md [symmetric] .
qed

lemma ring_view_cong:
  assumes "\<And>a. \<not> off_ring k r a \<Longrightarrow> cpu' a = cpu a" and "k \<le> 24"
  shows "ring_view k r cpu' = ring_view k r cpu"
proof -
  have "mem_get 4 (rg_ring r + 4 * of_nat i) cpu' = mem_get 4 (rg_ring r + 4 * of_nat i) cpu" if i: "i < 2 ^ k" for i
  proof -
    have "cpu' (rg_ring r + 4 * of_nat i + of_nat j) = cpu (rg_ring r + 4 * of_nat i + of_nat j)" if j: "j < 4" for j
    proof (rule assms(1))
      have "4 * i + j < 18446744073709551616" using i j pow24 [OF assms(2)] by linarith
      then have "unat (of_nat (4 * i + j) :: u64) = 4 * i + j" by (simp add: unat_of_nat del: of_nat_add of_nat_mult)
      moreover have "rg_ring r + 4 * of_nat i + of_nat j - rg_ring r = (of_nat (4 * i + j) :: u64)" by simp
      ultimately show "\<not> off_ring k r (rg_ring r + 4 * of_nat i + of_nat j)"
        using i j unfolding off_ring_def by (simp del: of_nat_add of_nat_mult)
    qed
    then show ?thesis by (auto simp: mem_get_def)
  qed
  then show ?thesis by (simp add: ring_view_def)
qed

locale ring_engine =
  fixes funcs :: "ring_state amdgv_ring_funcs"
    and al :: nat
    and nop :: u32
    and slot :: "amdgv_ring \<Rightarrow> amdgv_wb \<Rightarrow> u64"
    and ready :: "amdgv_ring \<Rightarrow> amdgv_wb \<Rightarrow> bool"
    and store :: "amdgv_ring \<Rightarrow> amdgv_wb \<Rightarrow> cpu_mem \<Rightarrow> cpu_mem"
    and shown :: "amdgv_ring \<Rightarrow> ring_event list"
  assumes al: "al \<le> 8"
    and align_mask: "rf_align_mask funcs = 2 ^ al - 1"
    and begin_use: "rf_begin_use funcs = None"
    and end_use: "rf_end_use funcs = None"
    and insert_nop: "\<not> rg_aql_enable r \<Longrightarrow> rf_insert_nop funcs c (r, io) = write_times (unat c) nop (r, io)"
    and stable: "slot (r\<lparr>rg_wptr := a, rg_count_dw := b\<rparr>) wb = slot r wb"
      "ready (r\<lparr>rg_wptr := a, rg_count_dw := b\<rparr>) wb = ready r wb"
      "slot (r\<lparr>rg_count_dw := b, rg_wptr_old := a\<rparr>) wb = slot r wb"
      "ready (r\<lparr>rg_count_dw := b, rg_wptr_old := a\<rparr>) wb = ready r wb"
      "slot (r\<lparr>rg_fence_drv := d\<rparr>) wb = slot r wb"
      "ready (r\<lparr>rg_fence_drv := d\<rparr>) wb = ready r wb"
    and set_wptr: "ready r (io_wb io) \<Longrightarrow> rf_set_wptr funcs (r, io) =
        Inr (r, io\<lparr>io_cpu := store r (io_wb io) (io_cpu io), io_events := io_events io @ shown r\<rparr>)"
    and store_slot: "\<not> in_slot (slot r wb) x \<Longrightarrow> store r wb cpu x = cpu x"
    and store_local: "cpu x = cpu' x \<Longrightarrow> store r wb cpu x = store r wb cpu' x"
begin

lemma stable_advance: "slot (ring_advance r n) wb = slot r wb" "ready (ring_advance r n) wb = ready r wb"
  by (simp_all add: ring_advance_def stable)

text \<open>Where the slot of the ring is not in the ring, showing the write pointer leaves the ring alone.\<close>

definition submit_ready :: "nat \<Rightarrow> amdgv_ring \<Rightarrow> amdgv_wb \<Rightarrow> bool" where
  "submit_ready k r wb \<longleftrightarrow> ring_mem_ok k r \<and> al \<le> k \<and> \<not> rg_aql_enable r \<and> ready r wb \<and>
     ranges_apart (rg_ring r) (4 * 2 ^ k) (slot r wb) 8"

lemma submit_ready_advance [simp]: "submit_ready k r wb \<Longrightarrow> submit_ready k (ring_advance r n) wb"
  by (simp add: submit_ready_def stable_advance) (simp add: ring_advance_def)

lemma ring_alloc_spec:
  assumes "\<not> rg_aql_enable r"
  shows "\<exists>b a. amdgv_ring_alloc funcs n (r, io) =
    Inr (if rg_max_dw r < (n + (2 ^ al - 1)) AND NOT (2 ^ al - 1) then AMDGV_FAILURE else 0,
         r\<lparr>rg_count_dw := b, rg_wptr_old := a\<rparr>, io)"
proof -
  have "\<exists>b a. r = r\<lparr>rg_count_dw := b, rg_wptr_old := a\<rparr>"
    by (intro exI [of _ "rg_count_dw r"] exI [of _ "rg_wptr_old r"]) simp
  then show ?thesis
    unfolding amdgv_ring_alloc_def prod.case Let_def begin_use call_if_def ring_align_mask_def if_not_P [OF assms] align_mask
    by (split if_split) auto
qed

lemma commit_spec:
  assumes "submit_ready k r (io_wb io)"
  defines "n \<equiv> commit_padding al (ring_pos k r)"
  shows "\<exists>cpu. amdgv_ring_commit funcs (r, io) = Inr (ring_advance r n,
      io\<lparr>io_cpu := cpu, io_events := io_events io @ Hdp_Flush # shown (ring_advance r n)\<rparr>) \<and>
    ring_view k r cpu = ring_store (ring_pos k r) (replicate n nop) (ring_view k r (io_cpu io)) \<and>
    (\<forall>x. off_ring k r x \<longrightarrow> cpu x = store (ring_advance r n) (io_wb io) (io_cpu io) x)"
proof -
  have ok: "ring_mem_ok k r" "al \<le> k" "\<not> rg_aql_enable r" "ready r (io_wb io)" and sl: "\<And>a. in_slot (slot r (io_wb io)) a \<Longrightarrow> off_ring k r a"
    using assms(1) apart_off_ring by (auto simp: submit_ready_def)
  obtain cpu1 where w: "write_all (replicate n nop) (r, io) = Inr (ring_advance r n, io\<lparr>io_cpu := cpu1\<rparr>)"
    "ring_view k r cpu1 = ring_store (ring_pos k r) (replicate n nop) (ring_view k r (io_cpu io))"
    "\<forall>a. off_ring k r a \<longrightarrow> cpu1 a = io_cpu io a"
    using write_all_spec [OF ok(1), of "replicate n nop" io] by auto
  let ?io = "io\<lparr>io_cpu := cpu1, io_events := io_events io @ [Hdp_Flush]\<rparr>"
  define cpu2 where "cpu2 = store (ring_advance r n) (io_wb io) cpu1"
  have s: "rf_set_wptr funcs (ring_advance r n, ?io) =
      Inr (ring_advance r n, ?io\<lparr>io_cpu := cpu2, io_events := io_events ?io @ shown (ring_advance r n)\<rparr>)"
    "\<forall>a. \<not> in_slot (slot r (io_wb io)) a \<longrightarrow> cpu2 a = cpu1 a"
    using set_wptr [of "ring_advance r n" ?io] store_slot [of "ring_advance r n"] ok(4) by (auto simp: stable_advance cpu2_def)
  have pad: "rf_insert_nop funcs (ucast (ucast ((2::u32) ^ al - 1 + 1) - (rg_wptr r AND ucast ((2::u32) ^ al - 1))) mod (2 ^ al - 1 + 1)) (r, io) =
      write_all (replicate n nop) (r, io)"
    unfolding insert_nop [OF ok(3)] commit_count [OF ok(1,2) al] n_def write_times_eq ..
  have nz: "(2::u32) ^ al - 1 + 1 \<noteq> 0"
  proof
    assume "(2::u32) ^ al - 1 + 1 = 0"
    then have "unat ((2::u32) ^ al) = 0" by (simp only: diff_add_cancel unat_0)
    then show False using unat_two_power32 [of al] al by simp
  qed
  have "amdgv_ring_commit funcs (r, io) = Inr (ring_advance r n, ?io\<lparr>io_cpu := cpu2, io_events := io_events ?io @ shown (ring_advance r n)\<rparr>)"
    unfolding amdgv_ring_commit_def Let_def ring_align_mask_def fst_conv if_not_P [OF ok(3)] align_mask if_not_P [OF nz] pad w(1)
    using s(1) by (simp add: ring_trace_def call_if_def end_use)
  moreover have "ring_view k r cpu2 = ring_view k r cpu1"
    by (rule ring_view_cong) (use ok(1) s(2) sl in \<open>auto simp: ring_mem_ok_def\<close>)
  moreover have "\<forall>x. off_ring k r x \<longrightarrow> cpu2 x = store (ring_advance r n) (io_wb io) (io_cpu io) x"
    unfolding cpu2_def by (intro allI impI store_local) (use w(3) in simp)
  ultimately show ?thesis using w(2) by (intro exI [of _ cpu2]) simp
qed

text \<open>A submission: the packet, padding, and the new write pointer for the engine.\<close>

lemma write_commit_spec:
  fixes vs :: "u32 list"
  assumes "submit_ready k r (io_wb io)"
  defines "n \<equiv> commit_padding al (ring_pos k r + length vs)"
  shows "\<exists>cpu. cbind (write_all vs (r, io)) (amdgv_ring_commit funcs) = Inr (ring_advance r (length vs + n),
      io\<lparr>io_cpu := cpu, io_events := io_events io @ Hdp_Flush # shown (ring_advance r (length vs + n))\<rparr>) \<and>
    ring_view k r cpu = ring_store (ring_pos k r) (vs @ replicate n nop) (ring_view k r (io_cpu io)) \<and>
    (\<forall>x. off_ring k r x \<longrightarrow> cpu x = store (ring_advance r (length vs + n)) (io_wb io) (io_cpu io) x)"
proof -
  have ok: "ring_mem_ok k r" "al \<le> k" using assms(1) by (auto simp: submit_ready_def)
  obtain cpu1 where w: "write_all vs (r, io) = Inr (ring_advance r (length vs), io\<lparr>io_cpu := cpu1\<rparr>)"
    "ring_view k r cpu1 = ring_store (ring_pos k r) vs (ring_view k r (io_cpu io))"
    "\<forall>a. off_ring k r a \<longrightarrow> cpu1 a = io_cpu io a"
    using write_all_spec [OF ok(1), of vs io] by auto
  have n: "commit_padding al (ring_pos k (ring_advance r (length vs))) = n"
    unfolding n_def ring_pos_advance [OF ok(1)] by (rule commit_padding_mod [OF ok(2)])
  obtain cpu2 where c: "amdgv_ring_commit funcs (ring_advance r (length vs), io\<lparr>io_cpu := cpu1\<rparr>) =
      Inr (ring_advance r (length vs + n), io\<lparr>io_cpu := cpu2, io_events := io_events io @ Hdp_Flush # shown (ring_advance r (length vs + n))\<rparr>)"
    "ring_view k r cpu2 = ring_store (ring_pos k (ring_advance r (length vs))) (replicate n nop) (ring_view k r cpu1)"
    "\<forall>x. off_ring k r x \<longrightarrow> cpu2 x = store (ring_advance r (length vs + n)) (io_wb io) cpu1 x"
    using commit_spec [of k "ring_advance r (length vs)" "io\<lparr>io_cpu := cpu1\<rparr>"] assms(1) ok(1)
    by (auto simp: n ring_advance_add stable_advance)
  have "ring_store (ring_pos k (ring_advance r (length vs))) (replicate n nop) (ring_view k r cpu1) =
      ring_store (ring_pos k r) (vs @ replicate n nop) (ring_view k r (io_cpu io))"
    using ring_store_mod [of "ring_pos k r + length vs" "ring_view k r cpu1" "replicate n nop"]
    by (simp add: ring_pos_advance [OF ok(1)] ring_store_append w(2))
  moreover have "\<forall>x. off_ring k r x \<longrightarrow> cpu2 x = store (ring_advance r (length vs + n)) (io_wb io) (io_cpu io) x"
    using c(3) w(3) store_local by metis
  ultimately show ?thesis using w(1) c(1,2) by (intro exI [of _ cpu2]) simp
qed

text \<open>A submission with a fence: the sequence number is raised between the parts \<open>vs\<close> and \<open>ws\<close> of the packet.\<close>

lemma submit_spec:
  fixes vs ws :: "u32 list" and b :: u32 and a :: u64 and d :: amdgv_fence_driver
  assumes "submit_ready k r (io_wb io)"
  defines "n \<equiv> commit_padding al (ring_pos k r + length (vs @ ws))"
  defines "r' \<equiv> ring_advance (r\<lparr>rg_count_dw := b, rg_wptr_old := a, rg_fence_drv := d\<rparr>) (length (vs @ ws) + n)"
  shows "\<exists>cpu. cbind (write_all vs (r\<lparr>rg_count_dw := b, rg_wptr_old := a\<rparr>, io)) (\<lambda>(r1, io1).
        cbind (write_all ws (r1\<lparr>rg_fence_drv := d\<rparr>, io1)) (amdgv_ring_commit funcs)) =
      Inr (r', io\<lparr>io_cpu := cpu, io_events := io_events io @ Hdp_Flush # shown r'\<rparr>) \<and>
    ring_view k r cpu = ring_store (ring_pos k r) (vs @ ws @ replicate n nop) (ring_view k r (io_cpu io)) \<and>
    (\<forall>x. off_ring k r x \<longrightarrow> cpu x = store r' (io_wb io) (io_cpu io) x)"
proof -
  let ?r = "r\<lparr>rg_count_dw := b, rg_wptr_old := a\<rparr>"
  define s where "s = (ring_advance ?r (length vs))\<lparr>rg_fence_drv := d\<rparr>"
  have eo: "submit_ready k ?r (io_wb io)" using assms(1) by (simp add: submit_ready_def stable)
  then have ok: "ring_mem_ok k ?r" "al \<le> k" by (auto simp: submit_ready_def)
  have es: "submit_ready k s (io_wb io)"
    using submit_ready_advance [OF eo, of "length vs"] by (simp add: submit_ready_def stable s_def)
  have same: "ring_view k ?r = ring_view k r" "ring_view k s = ring_view k r" "off_ring k ?r = off_ring k r" "off_ring k s = off_ring k r"
    by (simp_all add: fun_eq_iff s_def)
  obtain cpu1 where w: "write_all vs (?r, io) = Inr (ring_advance ?r (length vs), io\<lparr>io_cpu := cpu1\<rparr>)"
    "ring_view k r cpu1 = ring_store (ring_pos k r) vs (ring_view k r (io_cpu io))"
    "\<forall>a. off_ring k r a \<longrightarrow> cpu1 a = io_cpu io a"
    using write_all_spec [OF ok(1), of vs io] unfolding same by auto
  have p: "ring_pos k s = (ring_pos k r + length vs) mod 2 ^ k" using ring_pos_advance [OF ok(1)] by (simp add: s_def)
  have n: "commit_padding al ((ring_pos k r + length vs) mod 2 ^ k + length ws) = n"
    unfolding n_def using commit_padding_mod [OF ok(2), of "ring_pos k r + length vs + length ws"]
      commit_padding_mod [OF ok(2), of "(ring_pos k r + length vs) mod 2 ^ k + length ws"] by (simp add: mod_add_left_eq add.assoc)
  have "s = ring_advance (?r\<lparr>rg_fence_drv := d\<rparr>) (length vs)" by (simp add: ring_advance_def s_def)
  then have r': "ring_advance s (length ws + n) = r'"
    using ring_advance_add [of k "?r\<lparr>rg_fence_drv := d\<rparr>" "length vs" "length ws + n"] ok(1)
    by (simp add: r'_def add.assoc)
  obtain cpu2 where c: "cbind (write_all ws (s, io\<lparr>io_cpu := cpu1\<rparr>)) (amdgv_ring_commit funcs) =
      Inr (r', io\<lparr>io_cpu := cpu2, io_events := io_events io @ Hdp_Flush # shown r'\<rparr>)"
    "ring_view k r cpu2 = ring_store ((ring_pos k r + length vs) mod 2 ^ k) (ws @ replicate n nop) (ring_view k r cpu1)"
    "\<forall>x. off_ring k r x \<longrightarrow> cpu2 x = store r' (io_wb io) cpu1 x"
    using write_commit_spec [of k s "io\<lparr>io_cpu := cpu1\<rparr>" ws] es unfolding p n r' same by auto
  have "ring_view k r cpu2 = ring_store (ring_pos k r) (vs @ ws @ replicate n nop) (ring_view k r (io_cpu io))"
    using c(2) ring_store_mod [of "ring_pos k r + length vs" "ring_view k r cpu1" "ws @ replicate n nop"]
    by (simp add: ring_store_append w(2))
  moreover have "\<forall>x. off_ring k r x \<longrightarrow> cpu2 x = store r' (io_wb io) (io_cpu io) x"
    using c(3) w(3) store_local by metis
  ultimately show ?thesis using w(1) c(1) by (intro exI [of _ cpu2]) (simp add: s_def)
qed

lemma submitted_slot:
  "slot (ring_advance (r\<lparr>rg_count_dw := b, rg_wptr_old := a, rg_fence_drv := d\<rparr>) n) wb = slot r wb"
  by (simp add: stable_advance stable)

end

section \<open>The SDMA and the MES\<close>

definition sdma_slot :: "amdgv_ring \<Rightarrow> amdgv_wb \<Rightarrow> u64" where
  "sdma_slot r wb = wb_cpu wb + 4 * ucast (rg_wptr_offs r)"

definition sdma_shown :: "amdgv_ring \<Rightarrow> ring_event list" where
  "sdma_shown r = (let w = push_bit 2 (rg_wptr r) in
     if rg_use_doorbell r then [Doorbell64 (rg_doorbell_index r) w]
     else [Rb_Wptr (rg_queue r) (lower_32_bits w), Rb_Wptr_Hi (rg_queue r) (upper_32_bits w)])"

definition mes_shown :: "amdgv_ring \<Rightarrow> ring_event list" where
  "mes_shown r = (if rg_use_doorbell r then [Doorbell64 (rg_doorbell_index r) (rg_wptr r)] else [])"

definition sdma_store :: "amdgv_ring \<Rightarrow> amdgv_wb \<Rightarrow> cpu_mem \<Rightarrow> cpu_mem" where
  "sdma_store r wb cpu = (if rg_use_doorbell r then mem_put (sdma_slot r wb) (to_le 4 (ucast (rg_wptr r) :: u32)) cpu else cpu)"

definition mes_store :: "amdgv_ring \<Rightarrow> cpu_mem \<Rightarrow> cpu_mem" where
  "mes_store r cpu = (if rg_use_doorbell r then mem_put (rg_wptr_cpu_addr r) (to_le 8 (rg_wptr r)) cpu else cpu)"

interpretation sdma: ring_engine sdma_ring_funcs 8 0 sdma_slot "\<lambda>r wb. rg_use_doorbell r \<longrightarrow> wb_cpu wb \<noteq> 0" sdma_store sdma_shown
proof
  fix r :: amdgv_ring and io :: ring_io
  assume "rg_use_doorbell r \<longrightarrow> wb_cpu (io_wb io) \<noteq> 0"
  then show "rf_set_wptr sdma_ring_funcs (r, io) =
      Inr (r, io\<lparr>io_cpu := sdma_store r (io_wb io) (io_cpu io), io_events := io_events io @ sdma_shown r\<rparr>)"
    by (cases "rg_use_doorbell r")
      (simp_all add: sdma_ring_funcs_def sdma_v4_4_2_ring_set_wptr_def ring_show_wptr_def ring_trace_def sdma_shown_def
        sdma_store_def sdma_slot_def st32_def Let_def)
qed (simp_all add: sdma_ring_funcs_def sdma_v4_4_2_ring_insert_nop_def SDMA_PKT_HEADER_OP_def sdma_slot_def sdma_store_def
    in_slot_def mem_put_def)

interpretation mes: ring_engine mes_v12_1_ring_funcs 1 0 "\<lambda>r wb. rg_wptr_cpu_addr r"
  "\<lambda>r wb. rg_use_doorbell r \<longrightarrow> rg_wptr_cpu_addr r \<noteq> 0" "\<lambda>r wb. mes_store r" mes_shown
proof
  fix r :: amdgv_ring and io :: ring_io
  assume "rg_use_doorbell r \<longrightarrow> rg_wptr_cpu_addr r \<noteq> 0"
  then show "rf_set_wptr mes_v12_1_ring_funcs (r, io) =
      Inr (r, io\<lparr>io_cpu := mes_store r (io_cpu io), io_events := io_events io @ mes_shown r\<rparr>)"
    by (cases "rg_use_doorbell r")
      (simp_all add: mes_v12_1_ring_funcs_def mes_ring_data_def mes_v12_1_ring_set_wptr_def ring_trace_def mes_shown_def
        mes_store_def st64_def)
qed (simp_all add: mes_v12_1_ring_funcs_def mes_ring_data_def sdma_ring_funcs_def amdgv_ring_insert_nop_def mes_store_def
    in_slot_def mem_put_def)

end
