(* ===== verification/GV_Mes.thy ===== *)
theory GV_Mes
  imports GV_Ring_Clients
begin

text \<open>
  The submissions to the MES of \<^verbatim>\<open>hwip/gc/mes_v12_1.c\<close>: a packet with a status slot of its own, followed by a query packet that
  raises the fence of the ring. A packet is the list of its dwords.
\<close>

abbreviation (input) API_FRAME_SIZE_IN_DWORDS :: nat where "API_FRAME_SIZE_IN_DWORDS \<equiv> 64"
abbreviation (input) MES_API_TYPE_SCHEDULER :: u32 where "MES_API_TYPE_SCHEDULER \<equiv> 1"
abbreviation (input) MES_SCH_API_QUERY_SCHEDULER_STATUS :: u32 where "MES_SCH_API_QUERY_SCHEDULER_STATUS \<equiv> 11"
abbreviation (input) MES_SCH_API_MAX :: u32 where "MES_SCH_API_MAX \<equiv> 0xFF"

abbreviation (input) MES_TIMEOUT_US :: int where "MES_TIMEOUT_US \<equiv> 600 * 1000"

text \<open>The fields of the header: 4 bits of type, 8 of opcode, 8 of size.\<close>

definition MES_API_HEADER :: "u32 \<Rightarrow> u32 \<Rightarrow> u32 \<Rightarrow> u32" where
  "MES_API_HEADER api_type opcode dwsize =
     (api_type AND 0xF) OR push_bit 4 (opcode AND 0xFF) OR push_bit 12 (dwsize AND 0xFF)"

definition mes_opcode :: "u32 list \<Rightarrow> u32" where
  "mes_opcode pkt = drop_bit 4 (hd pkt) AND 0xFF"

definition MES_API_STATUS :: "u64 \<Rightarrow> u64 \<Rightarrow> u32 list" where
  "MES_API_STATUS addr val = [lower_32_bits addr, upper_32_bits addr, lower_32_bits val, upper_32_bits val]"

text \<open>The status at a byte offset of a packet.\<close>

definition set_api_status :: "u32 \<Rightarrow> u64 \<Rightarrow> u64 \<Rightarrow> u32 list \<Rightarrow> u32 list" where
  "set_api_status offset addr val pkt =
     take (unat offset div 4) pkt @ MES_API_STATUS addr val @ drop (unat offset div 4 + 4) pkt"

definition MESAPI__QUERY_MES_STATUS :: "u64 \<Rightarrow> u64 \<Rightarrow> u32 list" where
  "MESAPI__QUERY_MES_STATUS addr val =
     [MES_API_HEADER MES_API_TYPE_SCHEDULER MES_SCH_API_QUERY_SCHEDULER_STATUS (of_nat API_FRAME_SIZE_IN_DWORDS), 0] @
     MES_API_STATUS addr val @ replicate (API_FRAME_SIZE_IN_DWORDS - 6) 0"

definition give_slot :: "u32 \<Rightarrow> ring_state \<Rightarrow> ring_state" where
  "give_slot offs st = (fst st, (snd st)\<lparr>io_wb := amdgv_wb_memory_free (io_wb (snd st)) offs\<rparr>)"

text \<open>What both submissions do once the first packet is known: the fence, the two packets and the wait. The status is read
  only when the fence has passed. \<open>mk\<close> gives the first packet for the address of the status.\<close>

definition mes_submit :: "ring_state amdgv_ring_funcs \<Rightarrow> (nat \<Rightarrow> cpu_mem \<Rightarrow> cpu_mem) \<Rightarrow> (u64 \<Rightarrow> u32 list) \<Rightarrow> u32 \<Rightarrow> ring_state \<Rightarrow>
    (int \<times> ring_state) cres" where
  "mes_submit funcs gpu mk sz st =
     (case st of (ring, io) \<Rightarrow>
        case amdgv_wb_memory_get (io_wb io) of (r, dw, wb) \<Rightarrow>
        if r \<noteq> 0 then Inr (AMDGV_FAILURE, ring, io\<lparr>io_wb := wb\<rparr>)
        else
          let status_offs = (case dw of None \<Rightarrow> 0 | Some d \<Rightarrow> d);
              status_gpu_addr = wb_gpu_addr wb + ucast (status_offs * 4)
          in cbind (st64 (wb_cpu wb) (4 * ucast status_offs) 0 (io_cpu io)) (\<lambda>cpu.
             cbind (amdgv_ring_alloc funcs (ucast ((ucast sz + 256 :: u64) div 4)) (ring, io\<lparr>io_wb := wb, io_cpu := cpu\<rparr>)) (\<lambda>(r, st).
             if r \<noteq> 0 then Inr (AMDGV_FAILURE, give_slot status_offs st)
             else
               let seq = fd_sync_seq (rg_fence_drv (fst st)) + 1;
                   ring = (fst st)\<lparr>rg_fence_drv := (rg_fence_drv (fst st))\<lparr>fd_sync_seq := seq\<rparr>\<rparr>
               in cbind (amdgv_ring_write_multiple (mk status_gpu_addr) (sz div 4) (ring, snd st)) (\<lambda>st.
                  cbind (amdgv_ring_write_multiple
                           (MESAPI__QUERY_MES_STATUS (fd_gpu_addr (rg_fence_drv ring)) (ucast seq)) 64 st) (\<lambda>st.
                  cbind (amdgv_ring_commit funcs st) (\<lambda>st.
                  cbind (amdgv_fence_wait_polling gpu seq MES_TIMEOUT_US st) (\<lambda>(elapsed, st).
                  cbind (if elapsed < 1 then Inr True
                         else cbind (ld64 (wb_cpu (io_wb (snd st))) (4 * ucast status_offs) (io_cpu (snd st)))
                                (\<lambda>status. Inr (status = 0))) (\<lambda>failed.
                    Inr (if failed then AMDGV_FAILURE else 0, give_slot status_offs st)))))))))"

text \<open>The packet is at least a header; \<open>sz\<close> is its size in bytes.\<close>

definition mes_v12_1_submit_pkt_and_poll_completion :: "ring_state amdgv_ring_funcs \<Rightarrow> (nat \<Rightarrow> cpu_mem \<Rightarrow> cpu_mem) \<Rightarrow> u32 list \<Rightarrow>
    u32 \<Rightarrow> u32 \<Rightarrow> ring_state \<Rightarrow> (int \<times> ring_state) cres" where
  "mes_v12_1_submit_pkt_and_poll_completion funcs gpu pkt sz offset st =
     (if MES_SCH_API_MAX \<le> mes_opcode pkt then Inr (AMDGV_FAILURE, st)
      else if rg_ring_obj (fst st) = None \<or> \<not> fd_initialized (rg_fence_drv (fst st)) then Inr (AMDGV_FAILURE, st)
      else mes_submit funcs gpu (\<lambda>addr. set_api_status offset addr 1 pkt) sz st)"

definition mes_v12_1_ring_test :: "ring_state amdgv_ring_funcs \<Rightarrow> (nat \<Rightarrow> cpu_mem \<Rightarrow> cpu_mem) \<Rightarrow> ring_state \<Rightarrow>
    (int \<times> ring_state) cres" where
  "mes_v12_1_ring_test funcs gpu st = mes_submit funcs gpu (\<lambda>addr. MESAPI__QUERY_MES_STATUS addr 1) 256 st"

end
