(* ===== verification/GV_Ring_Props.thy ===== *)
theory GV_Ring_Props
  imports GV_Ring_Engine GV_Mes
begin

text \<open>
  The properties of the users of rings: how long a fence is waited for, the copy by the SDMA engine, and the submission to the
  MES with its status slot.
\<close>

section \<open>Waiting for a fence\<close>

text \<open>The memory after \<open>n\<close> delays from time \<open>t\<close> on, and whether a fence has reached \<open>wait_seq\<close> there, in the order of sequence
  numbers that wrap.\<close>

primrec mem_after :: "(nat \<Rightarrow> cpu_mem \<Rightarrow> cpu_mem) \<Rightarrow> nat \<Rightarrow> nat \<Rightarrow> cpu_mem \<Rightarrow> cpu_mem" where
  "mem_after gpu t 0 cpu = cpu"
| "mem_after gpu t (Suc n) cpu = mem_after gpu (Suc t) n (gpu t cpu)"

definition fence_passed :: "u32 \<Rightarrow> amdgv_fence_driver \<Rightarrow> cpu_mem \<Rightarrow> bool" where
  "fence_passed wait_seq fd cpu \<longleftrightarrow>
     sint (wait_seq - (if fd_cpu_addr fd \<noteq> 0 then from_le (mem_get 4 (fd_cpu_addr fd) cpu) else fd_sync_seq fd)) \<le> 0"

lemma fence_poll_step:
  "fence_poll_loop gpu w timeout (r, io) =
     (if \<not> fence_passed w (rg_fence_drv r) (io_cpu io) \<and> 5 < timeout then fence_poll_loop gpu w (timeout - 5) (r, ring_delay gpu io)
      else Inr (timeout - 5, r, ring_delay gpu io))"
  by (subst fence_poll_loop.simps) (auto simp: amdgv_fence_read_def ld32_def fence_passed_def Let_def not_le)

definition delays :: "(nat \<Rightarrow> cpu_mem \<Rightarrow> cpu_mem) \<Rightarrow> nat \<Rightarrow> ring_io \<Rightarrow> ring_io" where
  "delays gpu n io = io\<lparr>io_cpu := mem_after gpu (io_time io) n (io_cpu io), io_time := io_time io + n\<rparr>"

lemma delays_Suc: "delays gpu n (ring_delay gpu io) = delays gpu (Suc n) io"
  by (simp add: delays_def ring_delay_def)

lemma delays_simps [simp]: "io_wb (delays gpu n io) = io_wb io" "io_events (delays gpu n io) = io_events io"
  "io_cpu (delays gpu n io) = mem_after gpu (io_time io) n (io_cpu io)"
  by (simp_all add: delays_def)

lemma fence_poll_spec:
  "\<exists>n. fence_poll_loop gpu w timeout (r, io) = Inr (timeout - 5 * int (Suc n), r, delays gpu (Suc n) io) \<and>
     (fence_passed w (rg_fence_drv r) (mem_after gpu (io_time io) n (io_cpu io)) \<or> timeout \<le> 5 * int (Suc n)) \<and>
     (\<forall>m < n. \<not> fence_passed w (rg_fence_drv r) (mem_after gpu (io_time io) m (io_cpu io)) \<and> 5 * int (Suc m) < timeout)"
proof (induction "nat timeout" arbitrary: timeout io rule: less_induct)
  case less
  show ?case
  proof (cases "\<not> fence_passed w (rg_fence_drv r) (io_cpu io) \<and> 5 < timeout")
    case True
    let ?io = "ring_delay gpu io"
    have t: "io_time ?io = Suc (io_time io)" "io_cpu ?io = gpu (io_time io) (io_cpu io)" by (simp_all add: ring_delay_def)
    from True less [of "timeout - 5" ?io] obtain n where n:
      "fence_poll_loop gpu w (timeout - 5) (r, ?io) = Inr (timeout - 5 - 5 * int (Suc n), r, delays gpu (Suc n) ?io)"
      "fence_passed w (rg_fence_drv r) (mem_after gpu (io_time ?io) n (io_cpu ?io)) \<or> timeout - 5 \<le> 5 * int (Suc n)"
      "\<forall>m < n. \<not> fence_passed w (rg_fence_drv r) (mem_after gpu (io_time ?io) m (io_cpu ?io)) \<and> 5 * int (Suc m) < timeout - 5"
      by auto
    have "\<forall>m < Suc n. \<not> fence_passed w (rg_fence_drv r) (mem_after gpu (io_time io) m (io_cpu io)) \<and> 5 * int (Suc m) < timeout"
    proof (intro allI impI)
      fix m assume "m < Suc n"
      then show "\<not> fence_passed w (rg_fence_drv r) (mem_after gpu (io_time io) m (io_cpu io)) \<and> 5 * int (Suc m) < timeout"
        using True n(3) by (cases m) (auto simp: t)
    qed
    then show ?thesis using True n(1,2) by (intro exI [of _ "Suc n"]) (simp add: fence_poll_step t delays_Suc)
  next
    case False
    then show ?thesis
      using delays_Suc [of gpu 0 io] by (intro exI [of _ 0]) (auto simp: fence_poll_step delays_def ring_delay_def)
  qed
qed

lemma fence_wait_spec:
  "\<exists>n. amdgv_fence_wait_polling gpu w timeout (r, io) = Inr (max 0 (timeout - 5 * int (Suc n)), r, delays gpu (Suc n) io) \<and>
     (0 < max 0 (timeout - 5 * int (Suc n)) \<longleftrightarrow>
        (\<exists>m. 5 * int (Suc m) < timeout \<and> fence_passed w (rg_fence_drv r) (mem_after gpu (io_time io) m (io_cpu io))))"
proof -
  obtain n where n: "fence_poll_loop gpu w timeout (r, io) = Inr (timeout - 5 * int (Suc n), r, delays gpu (Suc n) io)"
    "fence_passed w (rg_fence_drv r) (mem_after gpu (io_time io) n (io_cpu io)) \<or> timeout \<le> 5 * int (Suc n)"
    "\<forall>m < n. \<not> fence_passed w (rg_fence_drv r) (mem_after gpu (io_time io) m (io_cpu io)) \<and> 5 * int (Suc m) < timeout"
    using fence_poll_spec by blast
  have "0 < timeout - 5 * int (Suc n) \<longleftrightarrow>
      (\<exists>m. 5 * int (Suc m) < timeout \<and> fence_passed w (rg_fence_drv r) (mem_after gpu (io_time io) m (io_cpu io)))"
  proof
    assume "0 < timeout - 5 * int (Suc n)"
    with n(2) show "\<exists>m. 5 * int (Suc m) < timeout \<and> fence_passed w (rg_fence_drv r) (mem_after gpu (io_time io) m (io_cpu io))"
      by (intro exI [of _ n]) linarith
  next
    assume "\<exists>m. 5 * int (Suc m) < timeout \<and> fence_passed w (rg_fence_drv r) (mem_after gpu (io_time io) m (io_cpu io))"
    then obtain m where m: "5 * int (Suc m) < timeout" "fence_passed w (rg_fence_drv r) (mem_after gpu (io_time io) m (io_cpu io))" by blast
    then have "n \<le> m" using n(3) by (metis leI)
    then have "5 * int (Suc n) \<le> 5 * int (Suc m)" by simp
    from order.strict_trans1 [OF this m(1)] show "0 < timeout - 5 * int (Suc n)" by (simp only: less_diff_eq add_0)
  qed
  with n(1) show ?thesis by (intro exI [of _ n]) (auto simp: amdgv_fence_wait_polling_def max_def)
qed

section \<open>The SDMA copy\<close>

definition copy_packet :: "u64 \<Rightarrow> u64 \<Rightarrow> u64 \<Rightarrow> u32 list" where
  "copy_packet src sz dest = [1, ucast (sz - 1), 0, lower_32_bits src, upper_32_bits src, lower_32_bits dest, upper_32_bits dest, 0]"

definition fence_packet :: "u64 \<Rightarrow> u32 \<Rightarrow> u32 list" where
  "fence_packet addr seq = [0x30005, lower_32_bits addr, upper_32_bits addr, seq]"

lemma header_bits: "SDMA_PKT_HEADER_OP SDMA_OP_COPY OR SDMA_PKT_HEADER_SUB_OP SDMA_SUBOP_COPY_LINEAR = 1"
  "SDMA_PKT_HEADER_OP SDMA_OP_FENCE OR SDMA_PKT_FENCE_HEADER_MTYPE 3 = 0x30005"
  by (simp_all add: SDMA_PKT_HEADER_OP_def SDMA_PKT_HEADER_SUB_OP_def SDMA_PKT_FENCE_HEADER_MTYPE_def)

lemma sdma_fields: "rf_nop sdma_ring_funcs = 0" "rf_emit_fence sdma_ring_funcs = Some sdma_v4_4_2_ring_emit_fence"
  by (simp_all add: sdma_ring_funcs_def SDMA_PKT_HEADER_OP_def)

lemma lower_ucast: "lower_32_bits (ucast (x::u32)) = x"
  unfolding lower_32_bits_def by (rule bit_word_eqI) (simp add: bit_simps)

lemma emit_fence_packet: "sdma_v4_4_2_ring_emit_fence addr (ucast seq) 0 st = write_all (fence_packet addr seq) st"
  by (simp add: sdma_v4_4_2_ring_emit_fence_def Let_def header_bits fence_packet_def lower_ucast)

definition next_seq :: "amdgv_ring \<Rightarrow> amdgv_fence_driver" where
  "next_seq r = (rg_fence_drv r)\<lparr>fd_sync_seq := fd_sync_seq (rg_fence_drv r) + 1\<rparr>"

text \<open>A ring behind a submission of \<open>n\<close> dwords: the write pointer is further, the fence counts one more, and nothing but the
  two fields that serve the undoing of a submission changes besides.\<close>

definition submitted :: "nat \<Rightarrow> amdgv_ring \<Rightarrow> amdgv_ring \<Rightarrow> bool" where
  "submitted n r r2 \<longleftrightarrow> (\<exists>b a. r2 = r\<lparr>rg_wptr := (rg_wptr r + of_nat n) AND rg_ptr_mask r, rg_count_dw := b, rg_wptr_old := a,
     rg_fence_drv := next_seq r\<rparr>)"

lemma submitted_fields:
  assumes "submitted n r r2"
  shows "rg_wptr r2 = (rg_wptr r + of_nat n) AND rg_ptr_mask r" "rg_fence_drv r2 = next_seq r"
    "rg_use_doorbell r2 = rg_use_doorbell r" "rg_doorbell_index r2 = rg_doorbell_index r"
  using assms by (auto simp: submitted_def)

lemma submitted_advance: "submitted n r (ring_advance (r\<lparr>rg_count_dw := b, rg_wptr_old := a, rg_fence_drv := next_seq r\<rparr>) n)"
  unfolding submitted_def ring_advance_def
  by (intro exI [of _ "b - of_nat n"] exI [of _ a]) simp

lemma sdma_copy_steps:
  assumes "amdgv_ring_alloc sdma_ring_funcs 8 (r, io) = Inr (x, r0, io)"
    and "write_all (copy_packet src sz dest) (r0, io) = Inr (r1, io1)"
    and "cbind (write_all (fence_packet (fd_gpu_addr (rg_fence_drv r1)) (fd_sync_seq (rg_fence_drv r1) + 1))
          (r1\<lparr>rg_fence_drv := next_seq r1\<rparr>, io1)) (amdgv_ring_commit sdma_ring_funcs) = Inr (r2, io2)"
  shows "sdma_v4_4_2_sdma_copy sdma_ring_funcs gpu src sz dest (r, io) =
    cbind (amdgv_fence_wait_polling gpu (fd_sync_seq (rg_fence_drv r1) + 1) SDMA_MAX_TIMEOUT (r2, io2)) (\<lambda>(x, st).
      if x \<le> 0 then Inr (AMDGV_FAILURE, st) else Inr (0, st))"
proof -
  obtain st where w: "write_all (fence_packet (fd_gpu_addr (rg_fence_drv r1)) (fd_sync_seq (rg_fence_drv r1) + 1))
      (r1\<lparr>rg_fence_drv := next_seq r1\<rparr>, io1) = Inr st" "amdgv_ring_commit sdma_ring_funcs st = Inr (r2, io2)"
    using assms(3) by (auto elim: cbind_InrE)
  have e: "amdgv_fence_emit_polling sdma_ring_funcs (r1, io1) = Inr (0, fd_sync_seq (rg_fence_drv r1) + 1, st)"
    using w(1) by (simp add: amdgv_fence_emit_polling_def Let_def call_def sdma_fields emit_fence_packet next_seq_def)
  have p: "copy_packet src sz dest = [SDMA_PKT_HEADER_OP SDMA_OP_COPY OR SDMA_PKT_HEADER_SUB_OP SDMA_SUBOP_COPY_LINEAR, ucast (sz - 1), 0,
      lower_32_bits src, upper_32_bits src, lower_32_bits dest, upper_32_bits dest, rf_nop sdma_ring_funcs]"
    by (simp only: copy_packet_def header_bits sdma_fields)
  show ?thesis
    unfolding sdma_v4_4_2_sdma_copy_def p [symmetric] by (simp add: assms(1,2) e w(2))
qed

text \<open>C21. A copy by the SDMA engine on a ring whose write pointer is a multiple of 256 appends the copy packet, a fence packet and padding,
  and then, after the flush, shows the engine a write pointer that is 256 dwords further. Nothing else in memory
  changes but the slot of the write pointer. The copy succeeds if and only if the fence is seen to pass before the time is over.\<close>

theorem sdma_copy_submits_and_waits:
  assumes "ring_mem_ok k r" and "8 \<le> k" and "256 dvd ring_pos k r" and "\<not> rg_aql_enable r"
    and "rg_use_doorbell r \<longrightarrow> wb_cpu (io_wb io) \<noteq> 0"
    and "ranges_apart (rg_ring r) (4 * 2 ^ k) (sdma_slot r (io_wb io)) 8"
  shows "\<exists>cpu st. ring_view k r cpu = ring_store (ring_pos k r)
      (copy_packet src sz dest @ fence_packet (fd_gpu_addr (rg_fence_drv r)) (fd_sync_seq (rg_fence_drv r) + 1) @ replicate 244 0)
      (ring_view k r (io_cpu io)) \<and>
    (\<forall>a. off_ring k r a \<longrightarrow> \<not> in_slot (sdma_slot r (io_wb io)) a \<longrightarrow> cpu a = io_cpu io a) \<and>
    rg_wptr (fst st) = (rg_wptr r + 256) AND rg_ptr_mask r \<and> submitted 256 r (fst st) \<and>
    io_events (snd st) = io_events io @ Hdp_Flush # sdma_shown (fst st) \<and>
    sdma_v4_4_2_sdma_copy sdma_ring_funcs gpu src sz dest (r, io) =
      Inr (if \<exists>m. 5 * int (Suc m) < SDMA_MAX_TIMEOUT \<and>
              fence_passed (fd_sync_seq (rg_fence_drv r) + 1) (next_seq r) (mem_after gpu (io_time io) m cpu)
           then 0 else AMDGV_FAILURE, st)"
proof -
  obtain x a b where al: "amdgv_ring_alloc sdma_ring_funcs 8 (r, io) = Inr (x, r\<lparr>rg_count_dw := b, rg_wptr_old := a\<rparr>, io)"
    using sdma.ring_alloc_spec [OF assms(4), of 8 io] by blast
  let ?r0 = "r\<lparr>rg_count_dw := b, rg_wptr_old := a\<rparr>"
  define vs where "vs = copy_packet src sz dest"
  define ws where "ws = fence_packet (fd_gpu_addr (rg_fence_drv r)) (fd_sync_seq (rg_fence_drv r) + 1)"
  define n where "n = commit_padding 8 (ring_pos k r + 12)"
  have n: "n = 244"
  proof -
    have "(ring_pos k r + 12) mod 256 = 12"
      using assms(3) mod_add_left_eq [of "ring_pos k r" 256 12] by (simp add: dvd_eq_mod_eq_0)
    then show ?thesis by (simp add: n_def commit_padding_def)
  qed
  have len: "length (vs @ ws) = 12" "length vs = 8" by (simp_all add: vs_def ws_def copy_packet_def fence_packet_def)
  define r2 where "r2 = ring_advance (r\<lparr>rg_count_dw := b, rg_wptr_old := a, rg_fence_drv := next_seq r\<rparr>) (12 + n)"
  have eo: "sdma.submit_ready k r (io_wb io)" using assms by (simp add: sdma.submit_ready_def)
  obtain cpu1 where w: "write_all vs (?r0, io) = Inr (ring_advance ?r0 8, io\<lparr>io_cpu := cpu1\<rparr>)"
    using write_all_spec [of k ?r0 vs io] assms(1) len(2) by auto
  have d: "rg_fence_drv (ring_advance ?r0 8) = rg_fence_drv r" "next_seq (ring_advance ?r0 8) = next_seq r"
    by (simp_all add: ring_advance_def next_seq_def)
  obtain cpu where c: "cbind (write_all ws ((ring_advance ?r0 8)\<lparr>rg_fence_drv := next_seq r\<rparr>, io\<lparr>io_cpu := cpu1\<rparr>))
        (amdgv_ring_commit sdma_ring_funcs) = Inr (r2, io\<lparr>io_cpu := cpu, io_events := io_events io @ Hdp_Flush # sdma_shown r2\<rparr>)"
    "ring_view k r cpu = ring_store (ring_pos k r) (vs @ ws @ replicate n 0) (ring_view k r (io_cpu io))"
    "\<forall>a. off_ring k r a \<longrightarrow> cpu a = sdma_store r2 (io_wb io) (io_cpu io) a"
    using sdma.submit_spec [OF eo, where vs = vs and ws = ws and a = a and b = b and d = "next_seq r"]
    unfolding w len(1) n_def [symmetric] r2_def [symmetric] by auto
  have frame: "\<forall>a. off_ring k r a \<longrightarrow> \<not> in_slot (sdma_slot r (io_wb io)) a \<longrightarrow> cpu a = io_cpu io a"
    using c(3) sdma.store_slot [of r2 "io_wb io"] sdma.submitted_slot
    by (simp add: r2_def)
  let ?io = "io\<lparr>io_cpu := cpu, io_events := io_events io @ Hdp_Flush # sdma_shown r2\<rparr>"
  obtain j where j: "amdgv_fence_wait_polling gpu (fd_sync_seq (rg_fence_drv r) + 1) SDMA_MAX_TIMEOUT (r2, ?io) =
      Inr (max 0 (SDMA_MAX_TIMEOUT - 5 * int (Suc j)), r2, delays gpu (Suc j) ?io)"
    "0 < max 0 (SDMA_MAX_TIMEOUT - 5 * int (Suc j)) \<longleftrightarrow> (\<exists>m. 5 * int (Suc m) < SDMA_MAX_TIMEOUT \<and>
      fence_passed (fd_sync_seq (rg_fence_drv r) + 1) (next_seq r) (mem_after gpu (io_time io) m cpu))"
    using fence_wait_spec [of gpu "fd_sync_seq (rg_fence_drv r) + 1" SDMA_MAX_TIMEOUT r2 ?io]
    by (auto simp: r2_def ring_advance_def)
  have res: "sdma_v4_4_2_sdma_copy sdma_ring_funcs gpu src sz dest (r, io) =
      Inr (if 0 < max 0 (SDMA_MAX_TIMEOUT - 5 * int (Suc j)) then 0 else AMDGV_FAILURE, r2, delays gpu (Suc j) ?io)"
    using sdma_copy_steps [OF al w [unfolded vs_def] c(1) [unfolded ws_def d(1) [symmetric] d(2) [symmetric]], of gpu]
    unfolding d(1) j(1) by simp
  let ?st = "(r2, delays gpu (Suc j) ?io)"
  have sub: "submitted 256 r (fst ?st)" using submitted_advance [of 256 r] by (simp add: r2_def n)
  have st: "rg_wptr (fst ?st) = (rg_wptr r + 256) AND rg_ptr_mask r"
    "io_events (snd ?st) = io_events io @ Hdp_Flush # sdma_shown (fst ?st)"
    by (simp_all add: r2_def ring_advance_def n)
  show ?thesis
    using c(2) frame sub st res unfolding vs_def ws_def j(2) append_assoc n by blast
qed

section \<open>Submissions to the MES\<close>

lemma wb_get_keeps: "amdgv_wb_memory_get wb = (r, dw, wb') \<Longrightarrow> wb_cpu wb' = wb_cpu wb \<and> wb_gpu_addr wb' = wb_gpu_addr wb"
  by (auto simp: amdgv_wb_memory_get_def set_wb_memory_tracking_bit_def Let_def split: if_splits)

lemma wb_give_back:
  assumes "wb_ok wb'" and "used_slots wb' = insert d (used_slots wb)" and "d \<in> all_slots - used_slots wb"
  shows "wb_ok (amdgv_wb_memory_free wb' d) \<and> used_slots (amdgv_wb_memory_free wb' d) = used_slots wb"
  using wb_pool.put_frees [OF assms(1), of d] assms(2,3) by (auto simp: all_slots_def)

lemma length_query [simp]: "length (MESAPI__QUERY_MES_STATUS addr val) = 64"
  by (simp add: MESAPI__QUERY_MES_STATUS_def MES_API_STATUS_def)

lemma length_set_api_status [simp]:
  "unat offset div 4 + 4 \<le> length pkt \<Longrightarrow> length (set_api_status offset addr val pkt) = length pkt"
  by (simp add: set_api_status_def MES_API_STATUS_def)

lemma write_two_packets:
  assumes "ring_mem_ok k r" and "length vs \<le> 2 ^ k" and "length ws \<le> 2 ^ k"
  shows "cbind (amdgv_ring_write_multiple vs (of_nat (length vs)) (r, io)) (amdgv_ring_write_multiple ws (of_nat (length ws))) =
    write_all (vs @ ws) (r, io)"
proof -
  obtain cpu where w: "write_all vs (r, io) = Inr (ring_advance r (length vs), io\<lparr>io_cpu := cpu\<rparr>)"
    using write_all_spec [OF assms(1), of vs io] by blast
  then show ?thesis
    using assms ring_write_multiple_writes [of k "ring_advance r (length vs)" ws]
    by (simp add: ring_write_multiple_writes write_all_append)
qed

text \<open>The status slot lies outside the ring, as all of the write-back memory does.\<close>

lemma slot_store_outside:
  assumes "d \<in> all_slots" and "32768 \<le> unat (a - wb_cpu wb)"
  shows "mem_put (wb_cpu wb + 4 * ucast d) (to_le 8 v) cpu a = cpu a"
proof -
  obtain i where i: "i < 1024" "d = wb_slot i" using assms(1) by (auto simp: all_slots_def)
  have u: "unat (4 * ucast d :: u64) = 32 * i"
  proof -
    have "(4 * ucast d :: u64) = of_nat (32 * i)"
      using i ucast_of_nat_up [of "8 * i"] by (simp add: wb_slot_def)
    then show ?thesis using i(1) by (simp add: unat_of_nat del: of_nat_mult)
  qed
  have eq: "a - (wb_cpu wb + 4 * ucast d) = (a - wb_cpu wb) - 4 * ucast d" by simp
  have "8 \<le> unat (a - (wb_cpu wb + 4 * ucast d))"
    unfolding eq using i(1) assms(2) unat_sub [of "4 * ucast d" "a - wb_cpu wb"] u by (simp add: word_le_nat_alt)
  then show ?thesis by (simp add: mem_put_def)
qed

lemma slot_store_keeps_view:
  assumes "ring_mem_ok k r" and "ranges_apart (rg_ring r) (4 * 2 ^ k) (wb_cpu wb) 32768" and "d \<in> all_slots"
  shows "ring_view k r (mem_put (wb_cpu wb + 4 * ucast d) (to_le 8 v) cpu) = ring_view k r cpu"
proof (rule ring_view_cong)
  fix a assume "\<not> off_ring k r a"
  then have "32768 \<le> unat (a - wb_cpu wb)"
    using ranges_apart_bytes [OF assms(2), of a] by (simp add: off_ring_def)
  then show "mem_put (wb_cpu wb + 4 * ucast d) (to_le 8 v) cpu a = cpu a" by (rule slot_store_outside [OF assms(3)])
qed (use assms(1) in \<open>simp add: ring_mem_ok_def\<close>)

lemma mes_submit_sends:
  assumes "mes.submit_ready k r (io_wb io)" and "6 \<le> k" and "length (mk addr) \<le> 2 ^ k"
  defines "pkts \<equiv> mk addr @ MESAPI__QUERY_MES_STATUS (fd_gpu_addr (rg_fence_drv r)) (ucast (fd_sync_seq (rg_fence_drv r) + 1))"
  defines "n \<equiv> commit_padding 1 (ring_pos k r + length pkts)"
  shows "\<exists>cpu r2. submitted (length pkts + n) r r2 \<and>
    ring_view k r cpu = ring_store (ring_pos k r) (pkts @ replicate n 0) (ring_view k r (io_cpu io)) \<and>
    (\<forall>x. off_ring k r x \<longrightarrow> cpu x = mes_store r2 (io_cpu io) x) \<and>
    cbind (amdgv_ring_write_multiple (mk addr) (of_nat (length (mk addr)))
        (r\<lparr>rg_count_dw := b, rg_wptr_old := a, rg_fence_drv := next_seq r\<rparr>, io)) (\<lambda>st.
      cbind (amdgv_ring_write_multiple
          (MESAPI__QUERY_MES_STATUS (fd_gpu_addr (rg_fence_drv r)) (ucast (fd_sync_seq (rg_fence_drv r) + 1))) 64 st)
        (amdgv_ring_commit mes_v12_1_ring_funcs)) =
      Inr (r2, io\<lparr>io_cpu := cpu, io_events := io_events io @ Hdp_Flush # mes_shown r2\<rparr>)"
proof -
  let ?q = "MESAPI__QUERY_MES_STATUS (fd_gpu_addr (rg_fence_drv r)) (ucast (fd_sync_seq (rg_fence_drv r) + 1))"
  let ?r1 = "r\<lparr>rg_count_dw := b, rg_wptr_old := a, rg_fence_drv := next_seq r\<rparr>"
  have ok: "ring_mem_ok k ?r1" using assms(1) unfolding mes.submit_ready_def by simp
  define r2 where "r2 = ring_advance ?r1 (length pkts + n)"
  obtain cpu where c: "cbind (write_all pkts (?r1, io)) (amdgv_ring_commit mes_v12_1_ring_funcs) =
      Inr (r2, io\<lparr>io_cpu := cpu, io_events := io_events io @ Hdp_Flush # mes_shown r2\<rparr>)"
    "ring_view k r cpu = ring_store (ring_pos k r) (pkts @ replicate n 0) (ring_view k r (io_cpu io))"
    "\<forall>x. off_ring k r x \<longrightarrow> cpu x = mes_store r2 (io_cpu io) x"
    using mes.submit_spec [OF assms(1), where vs = "[]" and ws = pkts and a = a and b = b and d = "next_seq r"]
    unfolding append_Nil n_def [symmetric] r2_def [symmetric] by auto
  have l: "length ?q \<le> 2 ^ k" using power_increasing [OF assms(2), of "2::nat"] by simp
  have "cbind (amdgv_ring_write_multiple (mk addr) (of_nat (length (mk addr))) (?r1, io)) (amdgv_ring_write_multiple ?q 64) =
      write_all pkts (?r1, io)"
    using write_two_packets [OF ok assms(3) l, of io] by (simp add: pkts_def)
  then have "cbind (amdgv_ring_write_multiple (mk addr) (of_nat (length (mk addr))) (?r1, io)) (\<lambda>st.
      cbind (amdgv_ring_write_multiple ?q 64 st) (amdgv_ring_commit mes_v12_1_ring_funcs)) =
      cbind (write_all pkts (?r1, io)) (amdgv_ring_commit mes_v12_1_ring_funcs)"
    by (metis cbind_assoc)
  moreover have "submitted (length pkts + n) r r2" unfolding r2_def by (rule submitted_advance)
  ultimately show ?thesis using c by metis
qed

lemma quarter_size: "m \<le> 2 ^ 24 \<Longrightarrow> (of_nat (4 * m) :: u32) div 4 = of_nat m"
  by (rule word_unat_eq_iff [THEN iffD2]) (simp add: unat_div_distrib unat_of_nat del: of_nat_mult)

lemma submission_size:
  assumes "m \<le> 2 ^ 24"
  shows "(ucast ((ucast (of_nat (4 * m) :: u32) + 256 :: u64) div 4) :: u32) = of_nat (m + 64)"
proof -
  have "(ucast (of_nat (4 * m) :: u32) + 256 :: u64) = of_nat (4 * m) + of_nat 256"
    using ucast_of_nat_up [of "4 * m"] assms by simp
  then have e: "(ucast (of_nat (4 * m) :: u32) + 256 :: u64) = of_nat (4 * (m + 64))" by simp
  have "(of_nat (4 * (m + 64)) :: u64) div 4 = of_nat (m + 64)"
    by (rule word_unat_eq_iff [THEN iffD2])
      (use assms in \<open>simp add: unat_div_distrib unat_of_nat del: of_nat_mult of_nat_add distrib_left_numeral\<close>)
  then show ?thesis unfolding e by (simp only: ucast_of_nat_down)
qed

text \<open>When the wait for a fence ends: after the poll \<open>j\<close>, the first that sees the fence passed or uses up the time.\<close>

definition wait_ends :: "(nat \<Rightarrow> cpu_mem \<Rightarrow> cpu_mem) \<Rightarrow> u32 \<Rightarrow> amdgv_fence_driver \<Rightarrow> int \<Rightarrow> nat \<Rightarrow> cpu_mem \<Rightarrow> nat \<Rightarrow> bool" where
  "wait_ends gpu w fd timeout t cpu j \<longleftrightarrow>
     (\<forall>m < j. \<not> fence_passed w fd (mem_after gpu t m cpu) \<and> 5 * int (Suc m) < timeout) \<and>
     (fence_passed w fd (mem_after gpu t j cpu) \<or> timeout \<le> 5 * int (Suc j))"

definition slot_addr :: "amdgv_wb \<Rightarrow> u32 \<Rightarrow> u64" where
  "slot_addr wb d = wb_cpu wb + 4 * ucast d"

lemma mes_submit_refused:
  assumes "\<not> rg_aql_enable r" and "wb_cpu (io_wb io) \<noteq> 0"
    and get: "amdgv_wb_memory_get (io_wb io) = (0, Some d, wb)"
    and "m \<le> 2 ^ 24" and "sz = of_nat (4 * m)" and "rg_max_dw r < (of_nat (m + 64) + 1) AND NOT 1"
  shows "\<exists>b a. mes_submit mes_v12_1_ring_funcs gpu mk sz (r, io) = Inr (AMDGV_FAILURE, r\<lparr>rg_count_dw := b, rg_wptr_old := a\<rparr>,
    io\<lparr>io_wb := amdgv_wb_memory_free wb d, io_cpu := mem_put (slot_addr (io_wb io) d) (to_le 8 (0::u64)) (io_cpu io)\<rparr>)"
proof -
  have wb: "wb_cpu wb = wb_cpu (io_wb io)" using wb_get_keeps [OF get] by auto
  define cpu0 where "cpu0 = mem_put (slot_addr (io_wb io) d) (to_le 8 (0::u64)) (io_cpu io)"
  have st: "st64 (wb_cpu wb) (4 * ucast d) 0 (io_cpu io) = Inr cpu0" using assms(2) by (simp add: st64_def cpu0_def wb slot_addr_def)
  let ?io0 = "io\<lparr>io_wb := wb, io_cpu := cpu0\<rparr>"
  obtain b a where al: "amdgv_ring_alloc mes_v12_1_ring_funcs (of_nat (m + 64)) (r, ?io0) =
      Inr (AMDGV_FAILURE, r\<lparr>rg_count_dw := b, rg_wptr_old := a\<rparr>, ?io0)"
    using mes.ring_alloc_spec [OF assms(1), of "of_nat (m + 64)" ?io0] assms(6) by auto
  have "mes_submit mes_v12_1_ring_funcs gpu mk sz (r, io) =
      Inr (AMDGV_FAILURE, give_slot d (r\<lparr>rg_count_dw := b, rg_wptr_old := a\<rparr>, ?io0))"
    unfolding mes_submit_def prod.case get Let_def option.case st cbind_Inr assms(5) submission_size [OF assms(4)] al by simp
  then show ?thesis by (auto simp: give_slot_def cpu0_def)
qed

text \<open>What a submission that gets its slot and its space does: the slot is cleared, the packets and padding are stored, the engine
  is shown the write pointer, the fence is waited for, and the status is read only if it came in time.\<close>

definition mes_sent :: "nat \<Rightarrow> amdgv_ring \<Rightarrow> ring_io \<Rightarrow> u32 \<Rightarrow> u32 list \<Rightarrow> amdgv_ring \<Rightarrow> cpu_mem \<Rightarrow> bool" where
  "mes_sent k r io d pkts r2 cpu \<longleftrightarrow> (let n = commit_padding 1 (ring_pos k r + length pkts) in
     ring_view k r cpu = ring_store (ring_pos k r) (pkts @ replicate n 0) (ring_view k r (io_cpu io)) \<and>
     (\<forall>a. off_ring k r a \<longrightarrow> cpu a = mes_store r2 (mem_put (slot_addr (io_wb io) d) (to_le 8 (0::u64)) (io_cpu io)) a) \<and>
     submitted (length pkts + n) r r2)"

definition mes_answer :: "amdgv_wb \<Rightarrow> u32 \<Rightarrow> nat \<Rightarrow> cpu_mem \<Rightarrow> int" where
  "mes_answer wb d j cpu =
     (if 5 * int (Suc j) < MES_TIMEOUT_US \<and> (from_le (mem_get 8 (slot_addr wb d) cpu) :: u64) \<noteq> 0 then 0 else AMDGV_FAILURE)"

lemma mes_submit_served:
  assumes "ring_mem_ok k r" and "6 \<le> k" and "\<not> rg_aql_enable r" and "wb_cpu (io_wb io) \<noteq> 0"
    and "rg_use_doorbell r \<longrightarrow> rg_wptr_cpu_addr r \<noteq> 0"
    and "ranges_apart (rg_ring r) (4 * 2 ^ k) (rg_wptr_cpu_addr r) 8"
    and "ranges_apart (rg_ring r) (4 * 2 ^ k) (wb_cpu (io_wb io)) 32768"
    and get: "amdgv_wb_memory_get (io_wb io) = (0, Some d, wb)" and "d \<in> all_slots"
    and "length (mk addr) = m" and "m \<le> 2 ^ k" and "sz = of_nat (4 * m)" and "addr = wb_gpu_addr (io_wb io) + ucast (d * 4)"
    and "\<not> rg_max_dw r < (of_nat (m + 64) + 1) AND NOT 1"
  shows "\<exists>cpu r2 j io2.
    mes_sent k r io d (mk addr @ MESAPI__QUERY_MES_STATUS (fd_gpu_addr (rg_fence_drv r)) (ucast (fd_sync_seq (rg_fence_drv r) + 1))) r2 cpu \<and>
    wait_ends gpu (fd_sync_seq (rg_fence_drv r) + 1) (next_seq r) MES_TIMEOUT_US (io_time io) cpu j \<and>
    io_wb io2 = amdgv_wb_memory_free wb d \<and> io_cpu io2 = mem_after gpu (io_time io) (Suc j) cpu \<and>
    io_events io2 = io_events io @ Hdp_Flush # mes_shown r2 \<and>
    mes_submit mes_v12_1_ring_funcs gpu mk sz (r, io) = Inr (mes_answer (io_wb io) d j (io_cpu io2), r2, io2)"
proof -
  let ?seq = "fd_sync_seq (rg_fence_drv r) + 1"
  let ?funcs = "mes_v12_1_ring_funcs"
  have m: "m \<le> 2 ^ 24" using assms(1,11) pow24 [of k] by (simp add: ring_mem_ok_def)
  have wb: "wb_cpu wb = wb_cpu (io_wb io)" "wb_gpu_addr wb = wb_gpu_addr (io_wb io)" using wb_get_keeps [OF get] by auto
  define cpu0 where "cpu0 = mem_put (slot_addr (io_wb io) d) (to_le 8 (0::u64)) (io_cpu io)"
  define io0 where "io0 = io\<lparr>io_wb := wb, io_cpu := cpu0\<rparr>"
  have st: "st64 (wb_cpu wb) (4 * ucast d) 0 (io_cpu io) = Inr cpu0"
    using assms(4) by (simp add: st64_def cpu0_def wb slot_addr_def)
  have view0: "ring_view k r (io_cpu io0) = ring_view k r (io_cpu io)"
    using slot_store_keeps_view [OF assms(1), of "io_wb io" d 0 "io_cpu io"] assms(7,9) by (simp add: io0_def cpu0_def slot_addr_def)
  obtain b a where al: "amdgv_ring_alloc ?funcs (of_nat (m + 64)) (r, io0) = Inr (0, r\<lparr>rg_count_dw := b, rg_wptr_old := a\<rparr>, io0)"
    using mes.ring_alloc_spec [OF assms(3), of "of_nat (m + 64)" io0] assms(14) by auto
  have eo: "mes.submit_ready k r (io_wb io0)"
    using assms(1-3,5,6) unfolding mes.submit_ready_def by simp
  define n where "n = commit_padding 1 (ring_pos k r + (m + 64))"
  obtain cpu r2 where s: "submitted (m + 64 + n) r r2"
    "ring_view k r cpu = ring_store (ring_pos k r) ((mk addr @ MESAPI__QUERY_MES_STATUS (fd_gpu_addr (rg_fence_drv r)) (ucast ?seq)) @
       replicate n 0) (ring_view k r (io_cpu io0))"
    "\<forall>x. off_ring k r x \<longrightarrow> cpu x = mes_store r2 (io_cpu io0) x"
    "cbind (amdgv_ring_write_multiple (mk addr) (of_nat m)
        (r\<lparr>rg_count_dw := b, rg_wptr_old := a, rg_fence_drv := next_seq r\<rparr>, io0)) (\<lambda>st.
      cbind (amdgv_ring_write_multiple (MESAPI__QUERY_MES_STATUS (fd_gpu_addr (rg_fence_drv r)) (ucast ?seq)) 64 st)
        (amdgv_ring_commit ?funcs)) =
      Inr (r2, io0\<lparr>io_cpu := cpu, io_events := io_events io0 @ Hdp_Flush # mes_shown r2\<rparr>)"
    using mes_submit_sends [OF eo assms(2), where mk = mk and addr = addr and b = b and a = a] assms(10,11)
    by (auto simp: n_def)
  define io1 where "io1 = io0\<lparr>io_cpu := cpu, io_events := io_events io0 @ Hdp_Flush # mes_shown r2\<rparr>"
  have sent: "mes_sent k r io d (mk addr @ MESAPI__QUERY_MES_STATUS (fd_gpu_addr (rg_fence_drv r)) (ucast ?seq)) r2 cpu"
    unfolding mes_sent_def Let_def using s(1-3) view0 assms(10) by (simp add: io0_def cpu0_def n_def)
  obtain j where j: "fence_poll_loop gpu ?seq MES_TIMEOUT_US (r2, io1) =
      Inr (MES_TIMEOUT_US - 5 * int (Suc j), r2, delays gpu (Suc j) io1)"
    "wait_ends gpu ?seq (next_seq r) MES_TIMEOUT_US (io_time io) cpu j"
    using fence_poll_spec [of gpu ?seq MES_TIMEOUT_US r2 io1] unfolding wait_ends_def by (auto simp: submitted_fields [OF s(1)] io1_def io0_def)
  let ?io = "delays gpu (Suc j) io1"
  let ?status = "from_le (mem_get 8 (slot_addr (io_wb io) d) (io_cpu ?io)) :: u64"
  have ld: "ld64 (wb_cpu (io_wb ?io)) (4 * ucast d) (io_cpu ?io) = Inr ?status"
    using assms(4) by (simp add: ld64_def io1_def io0_def wb slot_addr_def)
  obtain st1 st2 where w: "amdgv_ring_write_multiple (mk addr) (of_nat m)
      (r\<lparr>rg_count_dw := b, rg_wptr_old := a, rg_fence_drv := next_seq r\<rparr>, io0) = Inr st1"
    "amdgv_ring_write_multiple (MESAPI__QUERY_MES_STATUS (fd_gpu_addr (rg_fence_drv r)) (ucast ?seq)) 64 st1 = Inr st2"
    "amdgv_ring_commit ?funcs st2 = Inr (r2, io1)"
    using s(4) unfolding io1_def [symmetric] by (auto elim!: cbind_InrE)
  have late: "(max 0 (MES_TIMEOUT_US - 5 * int (Suc j)) < 1) = (\<not> 5 * int (Suc j) < MES_TIMEOUT_US)" by linarith
  have res: "mes_submit ?funcs gpu mk sz (r, io) = Inr (mes_answer (io_wb io) d j (io_cpu ?io), give_slot d (r2, ?io))"
    unfolding mes_submit_def prod.case get Let_def option.case st cbind_Inr io0_def [symmetric] assms(12) submission_size [OF m]
      quarter_size [OF m] al
    using w assms(13) j(1) ld late
    by (simp add: wb next_seq_def amdgv_fence_wait_polling_def mes_answer_def)
  have "io_wb (snd (give_slot d (r2, ?io))) = amdgv_wb_memory_free wb d" "fst (give_slot d (r2, ?io)) = r2"
    "io_cpu (snd (give_slot d (r2, ?io))) = mem_after gpu (io_time io) (Suc j) cpu" "io_cpu ?io = mem_after gpu (io_time io) (Suc j) cpu"
    "io_events (snd (give_slot d (r2, ?io))) = io_events io @ Hdp_Flush # mes_shown r2"
    by (simp_all add: give_slot_def io1_def io0_def)
  with res sent j(2) show ?thesis by (metis prod.collapse)
qed

definition mes_refused :: "u32 list \<Rightarrow> amdgv_ring \<Rightarrow> amdgv_wb \<Rightarrow> bool" where
  "mes_refused pkt r wb \<longleftrightarrow> MES_SCH_API_MAX \<le> mes_opcode pkt \<or> rg_ring_obj r = None \<or> \<not> fd_initialized (rg_fence_drv r) \<or>
     all_slots \<subseteq> used_slots wb \<or> rg_max_dw r < (of_nat (length pkt + 64) + 1) AND NOT 1"

lemma free_slot_taken:
  assumes "wb_ok wb" and "\<not> all_slots \<subseteq> used_slots wb"
  shows "\<exists>d wb'. amdgv_wb_memory_get wb = (0, Some d, wb') \<and> d \<in> all_slots - used_slots wb \<and>
    wb_ok (amdgv_wb_memory_free wb' d) \<and> used_slots (amdgv_wb_memory_free wb' d) = used_slots wb"
proof -
  obtain y dw wb' where g: "amdgv_wb_memory_get wb = (y, dw, wb')" by (metis prod_cases3)
  from wb_get_success [OF assms(1) g] assms(2) wb_give_back g show ?thesis by metis
qed

lemma mes_pkt_code:
  assumes "\<not> (MES_SCH_API_MAX \<le> mes_opcode pkt \<or> rg_ring_obj r = None \<or> \<not> fd_initialized (rg_fence_drv r) \<or>
    all_slots \<subseteq> used_slots (io_wb io))"
  shows "mes_v12_1_submit_pkt_and_poll_completion funcs gpu pkt sz offset (r, io) =
    mes_submit funcs gpu (\<lambda>addr. set_api_status offset addr 1 pkt) sz (r, io)"
  using assms by (auto simp: mes_v12_1_submit_pkt_and_poll_completion_def)

lemma mes_pkt_early:
  assumes "wb_ok (io_wb io)" and "MES_SCH_API_MAX \<le> mes_opcode pkt \<or> rg_ring_obj r = None \<or> \<not> fd_initialized (rg_fence_drv r) \<or>
    all_slots \<subseteq> used_slots (io_wb io)"
  shows "mes_v12_1_submit_pkt_and_poll_completion funcs gpu pkt sz offset (r, io) = Inr (AMDGV_FAILURE, r, io)"
proof -
  obtain y dw wb where g: "amdgv_wb_memory_get (io_wb io) = (y, dw, wb)" by (metis prod_cases3)
  then have "y \<noteq> 0 \<and> wb = io_wb io" if "all_slots \<subseteq> used_slots (io_wb io)"
    using wb_get_success [OF assms(1) g] that by blast
  then show ?thesis
    using assms(2) by (auto simp: mes_v12_1_submit_pkt_and_poll_completion_def mes_submit_def g)
qed

text \<open>C16. A submission to the MES answers on every path with as many slots taken as before. It is refused for a bad opcode, a
  ring that is not set up, no free slot or a packet above the limit of the ring; then no memory outside the write-back block, no
  write pointer and no register changes. Otherwise it clears the first free slot, stores the packet with the address of that slot
  as status, the query packet of the fence and padding behind what is in the ring, shows the engine the write pointer behind them
  and polls the memory as the engine changes it, until the fence has passed or the time is over. It succeeds if and only if
  the fence passed in time and the engine then has set the status.\<close>

theorem mes_submit_returns_slot:
  assumes "ring_mem_ok k r" and "6 \<le> k" and "\<not> rg_aql_enable r" and "wb_ok (io_wb io)" and "wb_cpu (io_wb io) \<noteq> 0"
    and "rg_use_doorbell r \<longrightarrow> rg_wptr_cpu_addr r \<noteq> 0"
    and "ranges_apart (rg_ring r) (4 * 2 ^ k) (rg_wptr_cpu_addr r) 8"
    and "ranges_apart (rg_ring r) (4 * 2 ^ k) (wb_cpu (io_wb io)) (AMDGV_MAX_WB * AMDGV_WB_MEMORY_BYTE_SIZE)"
    and "length pkt \<le> 2 ^ k" and "unat offset div 4 + 4 \<le> length pkt" and "sz = of_nat (4 * length pkt)"
  shows "\<exists>x r2 io2. mes_v12_1_submit_pkt_and_poll_completion mes_v12_1_ring_funcs gpu pkt sz offset (r, io) = Inr (x, r2, io2) \<and>
    wb_ok (io_wb io2) \<and> used_slots (io_wb io2) = used_slots (io_wb io) \<and>
    (if mes_refused pkt r (io_wb io) then
       x = AMDGV_FAILURE \<and> rg_wptr r2 = rg_wptr r \<and> io_events io2 = io_events io \<and> io_time io2 = io_time io \<and>
       (\<forall>a. AMDGV_MAX_WB * AMDGV_WB_MEMORY_BYTE_SIZE \<le> unat (a - wb_cpu (io_wb io)) \<longrightarrow> io_cpu io2 a = io_cpu io a)
     else
       \<exists>d cpu j. fst (snd (amdgv_wb_memory_get (io_wb io))) = Some d \<and> d \<in> all_slots - used_slots (io_wb io) \<and>
         mes_sent k r io d (set_api_status offset (wb_gpu_addr (io_wb io) + ucast (d * 4)) 1 pkt @
           MESAPI__QUERY_MES_STATUS (fd_gpu_addr (rg_fence_drv r)) (ucast (fd_sync_seq (rg_fence_drv r) + 1))) r2 cpu \<and>
         io_events io2 = io_events io @ Hdp_Flush # mes_shown r2 \<and>
         wait_ends gpu (fd_sync_seq (rg_fence_drv r) + 1) (next_seq r) MES_TIMEOUT_US (io_time io) cpu j \<and>
         io_cpu io2 = mem_after gpu (io_time io) (Suc j) cpu \<and>
         x = mes_answer (io_wb io) d j (io_cpu io2))"
proof -
  let ?code = "mes_v12_1_submit_pkt_and_poll_completion mes_v12_1_ring_funcs gpu pkt sz offset (r, io)"
  define mk where "mk = (\<lambda>addr. set_api_status offset addr 1 pkt)"
  have lm: "length (mk (wb_gpu_addr (io_wb io) + ucast (d * 4))) = length pkt" for d using assms(10) by (simp add: mk_def)
  have m: "length pkt \<le> 2 ^ 24" using assms(1,9) pow24 [of k] by (simp add: ring_mem_ok_def)
  have apart: "ranges_apart (rg_ring r) (4 * 2 ^ k) (wb_cpu (io_wb io)) 32768" using assms(8) by simp
  let ?early = "MES_SCH_API_MAX \<le> mes_opcode pkt \<or> rg_ring_obj r = None \<or> \<not> fd_initialized (rg_fence_drv r) \<or>
    all_slots \<subseteq> used_slots (io_wb io)"
  consider (early) ?early | (late) "\<not> ?early" "mes_refused pkt r (io_wb io)" | (served) "\<not> ?early" "\<not> mes_refused pkt r (io_wb io)" by blast
  then show ?thesis
  proof cases
    case early
    then have "mes_refused pkt r (io_wb io)" by (auto simp: mes_refused_def)
    with mes_pkt_early [OF assms(4) early] assms(4) show ?thesis by simp
  next
    case late
    obtain d wb where get: "amdgv_wb_memory_get (io_wb io) = (0, Some d, wb)" "d \<in> all_slots - used_slots (io_wb io)"
      "wb_ok (amdgv_wb_memory_free wb d)" "used_slots (amdgv_wb_memory_free wb d) = used_slots (io_wb io)"
      using free_slot_taken [OF assms(4)] late(1) by blast
    have "rg_max_dw r < (of_nat (length pkt + 64) + 1) AND NOT 1" using late by (auto simp: mes_refused_def)
    then obtain b a where "?code = Inr (AMDGV_FAILURE, r\<lparr>rg_count_dw := b, rg_wptr_old := a\<rparr>,
        io\<lparr>io_wb := amdgv_wb_memory_free wb d, io_cpu := mem_put (slot_addr (io_wb io) d) (to_le 8 (0::u64)) (io_cpu io)\<rparr>)"
      using mes_submit_refused [OF assms(3,5) get(1) m assms(11), where mk = mk and gpu = gpu]
      unfolding mes_pkt_code [OF late(1)] mk_def by blast
    with late(2) get(2-4) show ?thesis by (simp add: slot_addr_def slot_store_outside)
  next
    case served
    obtain d wb where get: "amdgv_wb_memory_get (io_wb io) = (0, Some d, wb)" "d \<in> all_slots - used_slots (io_wb io)"
      "wb_ok (amdgv_wb_memory_free wb d)" "used_slots (amdgv_wb_memory_free wb d) = used_slots (io_wb io)"
      using free_slot_taken [OF assms(4)] served(1) by blast
    have code: "?code = mes_submit mes_v12_1_ring_funcs gpu mk sz (r, io)"
      using mes_pkt_code [OF served(1)] by (simp add: mk_def)
    have room: "\<not> rg_max_dw r < (of_nat (length pkt + 64) + 1) AND NOT 1" and slot: "d \<in> all_slots"
      using served get(2) by (auto simp: mes_refused_def)
    from mes_submit_served [where mk = mk and gpu = gpu, OF assms(1-3,5-7) apart get(1) slot lm assms(9,11) refl room]
    show ?thesis unfolding code if_not_P [OF served(2)] get(1) fst_conv snd_conv mk_def using get(2-4) by metis
  qed
qed

section \<open>Copies into the ring\<close>

text \<open>C23. Copying a packet into the ring, in at most two pieces around its end, is writing it dword by dword: dword \<open>j\<close> is at
  position \<open>j\<close> behind the write pointer, modulo the size, and no other dword of the ring and no byte outside it changes.\<close>

theorem ring_write_multiple_eq_writes:
  assumes "ring_mem_ok k r" and "length src \<le> 2 ^ k"
  shows "amdgv_ring_write_multiple src (of_nat (length src)) (r, io) = write_all src (r, io) \<and>
    (\<exists>r' cpu. write_all src (r, io) = Inr (r', io\<lparr>io_cpu := cpu\<rparr>) \<and>
      ring_pos k r' = (ring_pos k r + length src) mod 2 ^ k \<and>
      (\<forall>j < length src. ring_view k r cpu ! ((ring_pos k r + j) mod 2 ^ k) = src ! j) \<and>
      (\<forall>i < 2 ^ k. (\<forall>j < length src. i \<noteq> (ring_pos k r + j) mod 2 ^ k) \<longrightarrow>
         ring_view k r cpu ! i = ring_view k r (io_cpu io) ! i) \<and>
      (\<forall>a. off_ring k r a \<longrightarrow> cpu a = io_cpu io a))"
proof -
  obtain cpu where w: "write_all src (r, io) = Inr (ring_advance r (length src), io\<lparr>io_cpu := cpu\<rparr>)"
    "ring_view k r cpu = ring_store (ring_pos k r) src (ring_view k r (io_cpu io))" "\<forall>a. off_ring k r a \<longrightarrow> cpu a = io_cpu io a"
    using write_all_spec [OF assms(1)] by blast
  have "ring_view k r cpu ! ((ring_pos k r + j) mod 2 ^ k) = src ! j" if "j < length src" for j
    using ring_store_nth [of src "ring_view k r (io_cpu io)" j "ring_pos k r"] assms(2) that w(2) by simp
  moreover have "ring_view k r cpu ! i = ring_view k r (io_cpu io) ! i"
    if "i < 2 ^ k" "\<forall>j < length src. i \<noteq> (ring_pos k r + j) mod 2 ^ k" for i
    using ring_store_other [of i "ring_view k r (io_cpu io)" src "ring_pos k r"] that w(2) by simp
  ultimately show ?thesis
    using ring_write_multiple_writes [OF assms] w(1,3) ring_pos_advance [OF assms(1)] by blast
qed

section \<open>A concrete ring\<close>

definition sample_ring :: "u64 \<Rightarrow> amdgv_ring" where
  "sample_ring wptr = \<lparr>rg_ptr = 1, rg_adapt = False,
     rg_fence_drv = \<lparr>fd_gpu_addr = 0x1040, fd_cpu_addr = 0x1040, fd_sync_seq = 0, fd_initialized = True, fd_num_fences_mask = 7, fd_lock = True\<rparr>,
     rg_ring_obj = Some 1, rg_ring = 0x100000, rg_wptr = wptr, rg_wptr_old = 0, rg_ring_size = 512, rg_log2_ring_size = 9,
     rg_max_dw = 1024, rg_count_dw = 0, rg_gpu_addr = 0, rg_ptr_mask = - 1, rg_buf_mask = 511, rg_idx = 0, rg_me = 0, rg_queue = 0,
     rg_doorbell_index = 3, rg_use_doorbell = True, rg_rptr_offs = 0, rg_rptr_gpu_addr = 0x1000, rg_rptr_cpu_addr = 0x1000,
     rg_wptr_offs = 8, rg_wptr_gpu_addr = 0x1020, rg_wptr_cpu_addr = 0x1020, rg_fence_offs = 16, rg_fence_gpu_addr = 0x1040,
     rg_fence_cpu_addr = 0x1040, rg_trail_fence_offs = 24, rg_trail_fence_gpu_addr = 0x1060, rg_trail_fence_cpu_addr = 0x1060,
     rg_cond_exe_offs = 32, rg_cond_exe_gpu_addr = 0x1080, rg_cond_exe_cpu_addr = 0x1080, rg_current_ctx = 0, rg_hw_prio = 0,
     rg_num_hw_submission = 2, rg_aql_enable = False, rg_is_mes_queue = False\<rparr>"

definition sample_io :: ring_io where
  "sample_io = \<lparr>io_cpu = (\<lambda>a. 0), io_wb = \<lparr>wb_obj = None, wb_cpu = 0x1000, wb_gpu_addr = 0x1000, wb_num = 1024,
     wb_used = replicate 16 0\<rparr>, io_time = 0, io_events = []\<rparr>"

lemma sample_ring_ok: "ring_mem_ok 9 (sample_ring w)" "ring_pos 9 (sample_ring w) = unat w mod 512"
  by (simp_all add: ring_mem_ok_def ring_pos_def sample_ring_def)

lemma sample_apart: "ranges_apart (rg_ring (sample_ring w)) (4 * 2 ^ 9) (rg_wptr_cpu_addr (sample_ring w)) 8"
  "ranges_apart (rg_ring (sample_ring w)) (4 * 2 ^ 9) (sdma_slot (sample_ring w) (io_wb sample_io)) 8"
  "ranges_apart (rg_ring (sample_ring w)) (4 * 2 ^ 9) (wb_cpu (io_wb sample_io)) (AMDGV_MAX_WB * AMDGV_WB_MEMORY_BYTE_SIZE)"
  by (simp_all add: ranges_apart_def sample_ring_def sample_io_def sdma_slot_def)

theorem ring_write_multiple_eq_writes_witness:
  "\<exists>r' cpu. amdgv_ring_write_multiple [7, 8, 9] 3 (sample_ring 0x3FF, sample_io) = Inr (r', sample_io\<lparr>io_cpu := cpu\<rparr>) \<and>
     ring_pos 9 r' = 2 \<and> ring_view 9 (sample_ring 0x3FF) cpu ! 511 = 7 \<and> ring_view 9 (sample_ring 0x3FF) cpu ! 0 = 8"
proof -
  obtain r' cpu where w: "write_all [7, 8, 9] (sample_ring 0x3FF, sample_io) = Inr (r', sample_io\<lparr>io_cpu := cpu\<rparr>)"
    "ring_pos 9 r' = 2" "\<forall>j < 3. ring_view 9 (sample_ring 0x3FF) cpu ! ((511 + j) mod 512) = [7, 8, 9] ! j"
    "amdgv_ring_write_multiple [7, 8, 9] 3 (sample_ring 0x3FF, sample_io) = write_all [7, 8, 9] (sample_ring 0x3FF, sample_io)"
    using ring_write_multiple_eq_writes [OF sample_ring_ok(1) [of "0x3FF"], of "[7, 8, 9]" sample_io] by (auto simp: sample_ring_ok(2))
  show ?thesis using w(1,2,4) w(3) [rule_format, of 0] w(3) [rule_format, of 1] by auto
qed

definition sample_fresh :: ring_adapter where
  "sample_fresh = \<lparr>ra_ids = sample_mem_adapter 4, ra_pf = sample_mgr 0 0x10000000 False, ra_num_rings = 0,
     ra_rings = replicate 64 None, ra_io = sample_io\<rparr>"

definition created :: "(int \<times> ring_adapter \<times> amdgv_ring) cres" where
  "created = amdgv_ring_init True (sample_env 1) None sample_fresh ((sample_ring 0)\<lparr>rg_ring_obj := None\<rparr>) 100 3 0 0x701"

lemma created_ret: "case created of Inl e \<Rightarrow> False | Inr (x, _) \<Rightarrow> x = 0"
  by code_simp

lemma sample_wb_ok: "wb_ok (io_wb sample_io)"
  by (simp add: wb_ok_def sample_io_def)

theorem ring_init_size_and_slots_witness:
  "\<exists>adapt ring. created = Inr (0, adapt, ring) \<and> rg_ring_size ring = 512 \<and> distinct (ring_wb_slots ring) \<and>
     used_slots (io_wb (ra_io adapt)) = set (ring_wb_slots ring)"
proof -
  obtain adapt ring where c: "created = Inr (0, adapt, ring)"
    using created_ret by (auto split: sum.splits prod.splits)
  have fresh: "used_slots (io_wb sample_io) = {}"
    by (auto simp: used_slots_def slot_used_def sample_io_def)
  obtain k where k: "k \<le> 24" "rg_ring_size ring = 2 ^ k" "(300::nat) \<le> 2 ^ k" "(2::nat) ^ k < 600" "distinct (ring_wb_slots ring)"
    "used_slots (io_wb (ra_io adapt)) = set (ring_wb_slots ring)"
    using ring_init_size_and_slots [OF c [unfolded created_def], of 300] sample_wb_ok fresh
    by (auto simp: sample_fresh_def)
  have "k = 9"
  proof (rule ccontr)
    assume "k \<noteq> 9"
    then consider "k \<le> 8" | "10 \<le> k" by linarith
    then show False
      using k(3,4) power_increasing [of k 8 "2::nat"] power_increasing [of 10 k "2::nat"] by cases auto
  qed
  then have "rg_ring_size ring = 512" using k(2) by simp
  with c k(5,6) show ?thesis by blast
qed

text \<open>An engine that raises the fence at its first chance.\<close>

definition prompt_engine :: "nat \<Rightarrow> cpu_mem \<Rightarrow> cpu_mem" where
  "prompt_engine t cpu = mem_put 0x1040 (to_le 4 (1::u32)) cpu"

lemma prompt_engine_passes: "fence_passed 1 (next_seq (sample_ring w)) (mem_after prompt_engine 0 (Suc 0) cpu)"
  by (simp add: fence_passed_def next_seq_def sample_ring_def prompt_engine_def mem_get_put_same from_le_to_le take_bit_word_eq_self)

theorem sdma_copy_submits_and_waits_witness:
  "\<exists>cpu st. ring_view 9 (sample_ring 0x300) cpu ! 256 = 1 \<and> rg_wptr (fst st) = 0x400 \<and>
     sdma_v4_4_2_sdma_copy sdma_ring_funcs prompt_engine 0x2000 64 0x3000 (sample_ring 0x300, sample_io) = Inr (0, st)"
proof -
  let ?r = "sample_ring 0x300"
  have h: "(8::nat) \<le> 9" "256 dvd ring_pos 9 ?r" "\<not> rg_aql_enable ?r" "rg_use_doorbell ?r \<longrightarrow> wb_cpu (io_wb sample_io) \<noteq> 0"
    by (simp_all add: sample_ring_ok(2)) (simp_all add: sample_ring_def sample_io_def)
  let ?ps = "copy_packet 0x2000 64 0x3000 @ fence_packet (fd_gpu_addr (rg_fence_drv ?r)) (fd_sync_seq (rg_fence_drv ?r) + 1) @ replicate 244 0"
  obtain cpu st where c: "ring_view 9 ?r cpu = ring_store (ring_pos 9 ?r) ?ps (ring_view 9 ?r (io_cpu sample_io))"
    "rg_wptr (fst st) = (rg_wptr ?r + 256) AND rg_ptr_mask ?r"
    "sdma_v4_4_2_sdma_copy sdma_ring_funcs prompt_engine 0x2000 64 0x3000 (?r, sample_io) =
      Inr (if \<exists>m. 5 * int (Suc m) < SDMA_MAX_TIMEOUT \<and>
              fence_passed (fd_sync_seq (rg_fence_drv ?r) + 1) (next_seq ?r) (mem_after prompt_engine (io_time sample_io) m cpu)
           then 0 else AMDGV_FAILURE, st)"
    using sdma_copy_submits_and_waits [OF sample_ring_ok(1) h sample_apart(2), where src = "0x2000" and sz = 64 and dest = "0x3000" and gpu = prompt_engine]
    by blast
  have "fd_sync_seq (rg_fence_drv ?r) + 1 = 1" "io_time sample_io = 0" by (simp_all add: sample_ring_def sample_io_def)
  then have "\<exists>m. 5 * int (Suc m) < SDMA_MAX_TIMEOUT \<and>
      fence_passed (fd_sync_seq (rg_fence_drv ?r) + 1) (next_seq ?r) (mem_after prompt_engine (io_time sample_io) m cpu)"
    using prompt_engine_passes [of "0x300" cpu] by (intro exI [of _ "Suc 0"]) simp
  then have "sdma_v4_4_2_sdma_copy sdma_ring_funcs prompt_engine 0x2000 64 0x3000 (?r, sample_io) = Inr (0, st)"
    using c(3) by simp
  moreover have "ring_view 9 ?r cpu ! 256 = 1"
  proof -
    have "length ?ps = 256" "?ps ! 0 = 1" by (simp_all add: copy_packet_def fence_packet_def)
    then show ?thesis
      using ring_store_nth [of ?ps "ring_view 9 ?r (io_cpu sample_io)" 0 256] unfolding c(1) sample_ring_ok(2) by simp
  qed
  moreover have "rg_wptr (fst st) = 0x400" using c(2) by (simp add: sample_ring_def)
  ultimately show ?thesis by blast
qed

text \<open>A MES that raises the fence and sets the status in the first free slot, where the five slots before it belong to the ring.\<close>

definition answering_mes :: "nat \<Rightarrow> cpu_mem \<Rightarrow> cpu_mem" where
  "answering_mes t cpu = mem_put 0x10A0 (to_le 8 (1::u64)) (mem_put 0x1040 (to_le 4 (1::u32)) cpu)"

definition busy_io :: ring_io where
  "busy_io = sample_io\<lparr>io_wb := (io_wb sample_io)\<lparr>wb_used := 0x1F # replicate 15 0\<rparr>\<rparr>"

lemma busy_slot: "fst (snd (amdgv_wb_memory_get (io_wb busy_io))) = Some 40"
  by code_simp

lemma busy_io_simps: "wb_ok (io_wb busy_io)" "wb_cpu (io_wb busy_io) = 0x1000" "wb_gpu_addr (io_wb busy_io) = 0x1000" "io_time busy_io = 0"
  "io_events busy_io = []"
  by (simp_all add: wb_ok_def busy_io_def sample_io_def)

lemma answering_mes_answers:
  assumes "0 < n"
  shows "fence_passed 1 (next_seq (sample_ring w)) (mem_after answering_mes t n cpu)"
    "(from_le (mem_get 8 (slot_addr (io_wb busy_io) 40) (mem_after answering_mes t n cpu)) :: u64) = 1"
proof -
  have "\<exists>t' cpu'. mem_after answering_mes t n cpu = answering_mes t' cpu'"
    using assms
  proof (induction n arbitrary: t cpu)
    case (Suc n)
    then show ?case by (cases n) (simp, blast, simp)
  qed simp
  then obtain t' cpu' where "mem_after answering_mes t n cpu = answering_mes t' cpu'" by blast
  moreover have "ranges_apart 0x10A0 (length (to_le 8 (1::u64))) 0x1040 4" by (simp add: ranges_apart_def)
  ultimately show "fence_passed 1 (next_seq (sample_ring w)) (mem_after answering_mes t n cpu)"
    "(from_le (mem_get 8 (slot_addr (io_wb busy_io) 40) (mem_after answering_mes t n cpu)) :: u64) = 1"
    by (simp_all add: fence_passed_def next_seq_def sample_ring_def answering_mes_def slot_addr_def busy_io_simps mem_get_put_apart
        mem_get_put_same from_le_to_le take_bit_word_eq_self)
qed

theorem mes_submit_returns_slot_witness:
  "\<exists>r2 io2. mes_v12_1_submit_pkt_and_poll_completion mes_v12_1_ring_funcs answering_mes (MESAPI__QUERY_MES_STATUS 0 0) 256 8
       (sample_ring 0x3FE, busy_io) = Inr (0, r2, io2) \<and> used_slots (io_wb io2) = used_slots (io_wb busy_io) \<and>
     rg_wptr r2 = 0x47E \<and> io_events io2 = [Hdp_Flush, Doorbell64 3 0x47E]"
proof -
  let ?r = "sample_ring 0x3FE" and ?p = "MESAPI__QUERY_MES_STATUS 0 0"
  have h: "(6::nat) \<le> 9" "\<not> rg_aql_enable ?r" "wb_cpu (io_wb busy_io) \<noteq> 0"
    "rg_use_doorbell ?r \<longrightarrow> rg_wptr_cpu_addr ?r \<noteq> 0"
    "ranges_apart (rg_ring ?r) (4 * 2 ^ 9) (wb_cpu (io_wb busy_io)) (AMDGV_MAX_WB * AMDGV_WB_MEMORY_BYTE_SIZE)"
    "length ?p \<le> 2 ^ 9" "unat (8::u32) div 4 + 4 \<le> length ?p" "256 = (of_nat (4 * length ?p) :: u32)"
    by (simp_all add: sample_ring_def busy_io_simps ranges_apart_def)
  have served: "\<not> mes_refused ?p ?r (io_wb busy_io)"
  proof -
    have "40 \<in> all_slots - used_slots (io_wb busy_io)"
      using busy_slot wb_get_success [OF busy_io_simps(1)] by (metis option.inject prod.collapse option.distinct(1))
    moreover have "mes_opcode ?p = 11" by code_simp
    ultimately show ?thesis by (auto simp: mes_refused_def sample_ring_def)
  qed
  have fd: "fd_sync_seq (rg_fence_drv ?r) + 1 = 1" by (simp add: sample_ring_def)
  obtain x r2 io2 cpu j where c: "mes_v12_1_submit_pkt_and_poll_completion mes_v12_1_ring_funcs answering_mes ?p 256 8 (?r, busy_io) =
      Inr (x, r2, io2)" "used_slots (io_wb io2) = used_slots (io_wb busy_io)"
    "mes_sent 9 ?r busy_io 40 (set_api_status 8 (wb_gpu_addr (io_wb busy_io) + ucast (40 * 4 :: u32)) 1 ?p @
      MESAPI__QUERY_MES_STATUS (fd_gpu_addr (rg_fence_drv ?r)) (ucast (fd_sync_seq (rg_fence_drv ?r) + 1))) r2 cpu"
    "io_events io2 = io_events busy_io @ Hdp_Flush # mes_shown r2"
    "wait_ends answering_mes 1 (next_seq ?r) MES_TIMEOUT_US (io_time busy_io) cpu j"
    "io_cpu io2 = mem_after answering_mes (io_time busy_io) (Suc j) cpu" "x = mes_answer (io_wb busy_io) 40 j (io_cpu io2)"
    using mes_submit_returns_slot [OF sample_ring_ok(1) h(1,2) busy_io_simps(1) h(3,4) sample_apart(1) h(5-8), of answering_mes]
    unfolding if_not_P [OF served] busy_slot option.inject fd by blast
  have "j \<le> 1"
  proof (rule ccontr)
    assume "\<not> j \<le> 1"
    then have "\<not> fence_passed 1 (next_seq ?r) (mem_after answering_mes (io_time busy_io) 1 cpu)"
      using c(5) unfolding wait_ends_def by (meson not_le)
    then show False using answering_mes_answers(1) [of 1] by simp
  qed
  then have "x = 0" using answering_mes_answers(2) [of "Suc j"] by (simp only: c(6,7) mes_answer_def) simp
  moreover have s: "submitted 128 ?r r2"
    using c(3) by (simp add: mes_sent_def Let_def commit_padding_def sample_ring_ok(2))
  have "rg_wptr r2 = 0x47E" "rg_use_doorbell r2" "rg_doorbell_index r2 = 3"
    by (simp_all add: submitted_fields [OF s]) (simp_all add: sample_ring_def)
  ultimately show ?thesis using c(1,2,4) by (simp add: busy_io_simps mes_shown_def)
qed

end
